(* ===== verification/Prelude.thy ===== *)
theory Prelude
  imports "HOL-Library.Word"
begin

unbundle bit_operations_syntax

text \<open>
  Shared ground of the development: names for C's fixed-width integers, C's shift
  operators on them, the collections of rewrite rules the component theories fill and
  use, and the generic facts on words and lists that several components need.

  A C value of type \<^verbatim>\<open>uintN_t\<close> or \<^verbatim>\<open>intN_t\<close> is an \<open>N\<close>-bit word; the signed reading
  of a word is \<^term>\<open>sint\<close>, the unsigned one \<^term>\<open>uint\<close> or \<^term>\<open>unat\<close>. A cast to a wider
  unsigned type is \<^term>\<open>ucast\<close>, a cast of a signed value to a wider type \<^term>\<open>scast\<close>.
\<close>

type_synonym u8 = "8 word"
type_synonym u16 = "16 word"
type_synonym u32 = "32 word"
type_synonym u64 = "64 word"

text \<open>C's \<^verbatim>\<open><<\<close>, \<^verbatim>\<open>>>\<close> on unsigned operands and \<^verbatim>\<open>>>\<close> on signed operands.\<close>

abbreviation shl :: "'a::len word \<Rightarrow> nat \<Rightarrow> 'a word" where
  "shl w n \<equiv> push_bit n w"

abbreviation shr :: "'a::len word \<Rightarrow> nat \<Rightarrow> 'a word" where
  "shr w n \<equiv> drop_bit n w"

abbreviation sar :: "'a::len word \<Rightarrow> nat \<Rightarrow> 'a word" where
  "sar w n \<equiv> signed_drop_bit n w"

named_theorems field_defs \<open>definitions of the instruction-field extractors\<close>
named_theorems format_defs \<open>definitions of the instruction-format decoders\<close>
named_theorems op_defs \<open>definitions of the per-opcode decoders\<close>
named_theorems mem_defs \<open>definitions of the memory access functions\<close>
named_theorems do_defs \<open>definitions of the instruction handlers\<close>
named_theorems constopt_defs \<open>definitions of the constant-propagation rules\<close>
named_theorems fuse_defs \<open>definitions of the fused handlers\<close>

section \<open>Bits\<close>

text \<open>
  A 32-bit (16-, 8-bit) equation is proved bit by bit: with the index known, the bits of
  the mask constants evaluate.
\<close>

lemma upt_32: "[0..<32] = [0,1,2,3,4,5,6,7,8,9,10,11,12,13,14,15,16,17,18,19,
     20,21,22,23,24,25,26,27,28,29,30,31]"
  by code_simp

lemma word32_eqI:
  fixes a b :: u32
  assumes "list_all (\<lambda>n. bit a n \<longleftrightarrow> bit b n) [0,1,2,3,4,5,6,7,8,9,10,11,12,13,14,15,16,17,18,19,
     20,21,22,23,24,25,26,27,28,29,30,31]"
  shows "a = b"
proof (rule bit_word_eqI)
  fix n assume "n < LENGTH(32)"
  then have "n \<in> set [0..<32]" by simp
  with assms show "bit a n \<longleftrightarrow> bit b n"
    by (simp only: list_all_iff upt_32 [symmetric])
qed

lemma upt_16: "[0..<16] = [0,1,2,3,4,5,6,7,8,9,10,11,12,13,14,15]"
  by code_simp

lemma word16_eqI:
  fixes a b :: u16
  assumes "list_all (\<lambda>n. bit a n \<longleftrightarrow> bit b n) [0,1,2,3,4,5,6,7,8,9,10,11,12,13,14,15]"
  shows "a = b"
proof (rule bit_word_eqI)
  fix n assume "n < LENGTH(16)"
  then have "n \<in> set [0..<16]" by simp
  with assms show "bit a n \<longleftrightarrow> bit b n"
    by (simp only: list_all_iff upt_16 [symmetric])
qed

lemma upt_8: "[0..<8] = [0,1,2,3,4,5,6,7]"
  by code_simp

lemma word8_eqI:
  fixes a b :: u8
  assumes "list_all (\<lambda>n. bit a n \<longleftrightarrow> bit b n) [0,1,2,3,4,5,6,7]"
  shows "a = b"
proof (rule bit_word_eqI)
  fix n assume "n < LENGTH(8)"
  then have "n \<in> set [0..<8]" by simp
  with assms show "bit a n \<longleftrightarrow> bit b n"
    by (simp only: list_all_iff upt_8 [symmetric])
qed

lemma bit_mult_2_word [simp]:
  "bit (w * 2 :: 'a::len word) n \<longleftrightarrow> n < LENGTH('a) \<and> 0 < n \<and> bit w (n - 1)"
  by (cases n) (simp_all add: bit_double_iff mult.commute [of w 2] bit_simps)

lemma bit_beyond:
  "8 \<le> n \<Longrightarrow> \<not> bit (b :: u8) n" "16 \<le> n \<Longrightarrow> \<not> bit (h :: u16) n"
  "32 \<le> n \<Longrightarrow> \<not> bit (w :: u32) n"
  by (auto dest: bit_imp_le_length)

lemma all_less_32:
  "(\<forall>n < (32::nat). P n) \<longleftrightarrow> list_all P [0,1,2,3,4,5,6,7,8,9,10,11,12,13,14,15,
     16,17,18,19,20,21,22,23,24,25,26,27,28,29,30,31]"
  by (simp only: upt_32 [symmetric] list_all_iff) auto

lemma and_exp_eq_0: "((w :: 'a::len word) AND 2 ^ k = 0) \<longleftrightarrow> \<not> bit w k"
  by (simp add: and_exp_eq_0_iff_not_bit)

lemma and_bit_eq_0:
  "(w::u32) AND 0x20 = 0 \<longleftrightarrow> \<not> bit w 5" "(w::u32) AND 0x200 = 0 \<longleftrightarrow> \<not> bit w 9"
  "(w::u32) AND 0x20000 = 0 \<longleftrightarrow> \<not> bit w 17"
  using and_exp_eq_0 [of w 5] and_exp_eq_0 [of w 9] and_exp_eq_0 [of w 17] by simp_all

text \<open>Spreading one bit upwards, as the sign-extension loops do.\<close>

lemma and_exp_or_shl:
  "0 < i \<Longrightarrow> (2 ^ k AND (t OR shl (2 ^ k AND u) i)) = (2 ^ k AND t :: 'a::len word)"
  by (rule bit_word_eqI) (auto simp: bit_simps)

lemma fold_spread_aux:
  "\<forall>i \<in> set js. 0 < i \<Longrightarrow> (2 ^ k AND acc) = (2 ^ k AND t :: 'a::len word) \<Longrightarrow>
   fold (\<lambda>i tmp. tmp OR shl (2 ^ k AND tmp) i) js acc =
   fold (\<lambda>i tmp. tmp OR shl (2 ^ k AND t) i) js acc"
  by (induction js arbitrary: acc) (auto simp: and_exp_or_shl simp del: push_bit_and)

lemma fold_spread:
  "\<forall>i \<in> set js. 0 < i \<Longrightarrow>
   fold (\<lambda>i tmp. tmp OR shl (2 ^ k AND tmp) i) js (t :: 'a::len word) =
   fold (\<lambda>i tmp. tmp OR shl (2 ^ k AND t) i) js t"
  by (rule fold_spread_aux) simp_all

lemma fold_spread_16:
  "fold (\<lambda>i tmp. tmp OR shl (0x800 AND tmp) i) [1,2,3,4] (t::u16) =
   t OR shl (0x800 AND t) 1 OR shl (0x800 AND t) 2 OR shl (0x800 AND t) 3 OR shl (0x800 AND t) 4"
  "fold (\<lambda>i tmp. tmp OR shl (0x100 AND tmp) i) [1,2,3,4,5,6,7,8] (t::u16) =
   t OR shl (0x100 AND t) 1 OR shl (0x100 AND t) 2 OR shl (0x100 AND t) 3 OR shl (0x100 AND t) 4 OR
   shl (0x100 AND t) 5 OR shl (0x100 AND t) 6 OR shl (0x100 AND t) 7 OR shl (0x100 AND t) 8"
  using fold_spread [of "[1,2,3,4]" 11 t] fold_spread [of "[1,2,3,4,5,6,7,8]" 8 t]
  by (simp_all del: push_bit_and add: ac_simps)

text \<open>Bounds on masked words, in the unsigned order.\<close>

lemma and_mask_le [simp]: "(w AND m) \<le> (m :: 'a::len word)"
  by (rule word_and_le1)

lemma and_mask_less:
  "(m :: 'a::len word) < b \<Longrightarrow> w AND m < b"
  by (rule le_less_trans [OF word_and_le1])

lemma less_if_and: "w AND m = w \<Longrightarrow> m < b \<Longrightarrow> w < (b :: 'a::len word)"
  by (metis and_mask_less)

lemma unat_less_if_and: "w AND m = w \<Longrightarrow> unat m < k \<Longrightarrow> unat (w :: 'a::len word) < k"
  by (metis and_mask_le le_less_trans word_le_nat_alt)

end
