(* ===== verification/Rv_Types.thy ===== *)
theory Rv_Types
  imports Prelude
begin

unbundle bit_operations_syntax

text \<open>
  The data the emulator's core works on: the IR opcodes of \<^verbatim>\<open>decode.h\<close>, the decoded
  instruction \<^verbatim>\<open>rv_insn_t\<close>, the fused-instruction record \<^verbatim>\<open>opcode_fuse_t\<close> and the machine
  state \<^verbatim>\<open>struct riscv_internal\<close> of \<^verbatim>\<open>riscv_private.h\<close>, for the default build
  (\<^verbatim>\<open>configs/defconfig\<close>: RV32IMAFC, Zicsr, Zifencei, Zba, Zbb, Zbc, Zbs, interpreter only, user
  mode, macro-operation fusion and block chaining).
\<close>

section \<open>Opcodes\<close>

text \<open>
  The enumeration of \<^verbatim>\<open>RV_INSN_LIST\<close> and \<^verbatim>\<open>FUSE_INSN_LIST\<close>, one constructor per entry in the
  order of the list, cut at the list's own section comments. \<^verbatim>\<open>sret\<close> belongs to the system
  build and is absent here.
\<close>

datatype base_op =
    Rv_nop
  | Rv_lui | Rv_auipc | Rv_jal | Rv_jalr
  | Rv_beq | Rv_bne | Rv_blt | Rv_bge | Rv_bltu | Rv_bgeu
  | Rv_lb | Rv_lh | Rv_lw | Rv_lbu | Rv_lhu
  | Rv_sb | Rv_sh | Rv_sw
  | Rv_addi | Rv_slti | Rv_sltiu | Rv_xori | Rv_ori | Rv_andi | Rv_slli | Rv_srli | Rv_srai
  | Rv_add | Rv_sub | Rv_sll | Rv_slt | Rv_sltu | Rv_xor | Rv_srl | Rv_sra | Rv_or | Rv_and
  | Rv_fence | Rv_ecall | Rv_ebreak

datatype sys_op =
    Rv_wfi | Rv_uret | Rv_hret | Rv_mret | Rv_sfencevma
  | Rv_fencei
  | Rv_csrrw | Rv_csrrs | Rv_csrrc | Rv_csrrwi | Rv_csrrsi | Rv_csrrci

datatype bit_op =
    Rv_sh1add | Rv_sh2add | Rv_sh3add
  | Rv_andn | Rv_orn | Rv_xnor | Rv_clz | Rv_ctz | Rv_cpop
  | Rv_max | Rv_maxu | Rv_min | Rv_minu | Rv_sextb | Rv_sexth | Rv_zexth
  | Rv_rol | Rv_ror | Rv_rori | Rv_orcb | Rv_rev8
  | Rv_clmul | Rv_clmulh | Rv_clmulr
  | Rv_bclr | Rv_bclri | Rv_bext | Rv_bexti | Rv_binv | Rv_binvi | Rv_bset | Rv_bseti

datatype mul_op =
    Rv_mul | Rv_mulh | Rv_mulhsu | Rv_mulhu | Rv_div | Rv_divu | Rv_rem | Rv_remu

datatype amo_op =
    Rv_lrw | Rv_scw | Rv_amoswapw | Rv_amoaddw | Rv_amoxorw | Rv_amoandw | Rv_amoorw
  | Rv_amominw | Rv_amomaxw | Rv_amominuw | Rv_amomaxuw

datatype fp_op =
    Rv_flw | Rv_fsw | Rv_fmadds | Rv_fmsubs | Rv_fnmsubs | Rv_fnmadds
  | Rv_fadds | Rv_fsubs | Rv_fmuls | Rv_fdivs | Rv_fsqrts
  | Rv_fsgnjs | Rv_fsgnjns | Rv_fsgnjxs | Rv_fmins | Rv_fmaxs
  | Rv_fcvtws | Rv_fcvtwus | Rv_fmvxw | Rv_feqs | Rv_flts | Rv_fles | Rv_fclasss
  | Rv_fcvtsw | Rv_fcvtswu | Rv_fmvwx

datatype c_op =
    Rv_caddi4spn | Rv_clw | Rv_csw | Rv_cnop | Rv_caddi | Rv_cjal | Rv_cli
  | Rv_caddi16sp | Rv_clui | Rv_csrli | Rv_csrai | Rv_candi
  | Rv_csub | Rv_cxor | Rv_cor | Rv_cand | Rv_cj | Rv_cbeqz | Rv_cbnez
  | Rv_cslli | Rv_clwsp | Rv_cjr | Rv_cmv | Rv_cebreak | Rv_cjalr | Rv_cadd | Rv_cswsp
  | Rv_cflwsp | Rv_cfswsp | Rv_cflw | Rv_cfsw

datatype fuse_op =
    Rv_fuse1 | Rv_fuse2 | Rv_fuse3 | Rv_fuse4 | Rv_fuse5 | Rv_fuse6
  | Rv_fuse7 | Rv_fuse8 | Rv_fuse9 | Rv_fuse10 | Rv_fuse11 | Rv_fuse12

datatype opcode =
    I_op base_op | S_op sys_op | B_op bit_op | M_op mul_op | A_op amo_op
  | F_op fp_op | C_op c_op | Fuse_op fuse_op

text \<open>
  The columns of \<^verbatim>\<open>RV_INSN_LIST\<close> the interpreter reads: the instruction length
  (\<^verbatim>\<open>__rv_insn_x_len\<close>) and whether the instruction may branch (\<^verbatim>\<open>insn_is_branch\<close>). The fused
  opcodes are not in that list, so they are no branches for \<^verbatim>\<open>insn_is_branch\<close>.
\<close>

fun rv_insn_len :: "opcode \<Rightarrow> u32" where
  "rv_insn_len (C_op _) = 2"
| "rv_insn_len _ = 4"

fun base_is_branch :: "base_op \<Rightarrow> bool" where
  "base_is_branch Rv_jal = True"
| "base_is_branch Rv_jalr = True"
| "base_is_branch Rv_beq = True"
| "base_is_branch Rv_bne = True"
| "base_is_branch Rv_blt = True"
| "base_is_branch Rv_bge = True"
| "base_is_branch Rv_bltu = True"
| "base_is_branch Rv_bgeu = True"
| "base_is_branch Rv_fence = True"
| "base_is_branch Rv_ecall = True"
| "base_is_branch Rv_ebreak = True"
| "base_is_branch _ = False"

fun sys_is_branch :: "sys_op \<Rightarrow> bool" where
  "sys_is_branch Rv_mret = True"
| "sys_is_branch Rv_sfencevma = True"
| "sys_is_branch Rv_fencei = True"
| "sys_is_branch Rv_csrrw = True"
| "sys_is_branch _ = False"

fun c_is_branch :: "c_op \<Rightarrow> bool" where
  "c_is_branch Rv_cjal = True"
| "c_is_branch Rv_cj = True"
| "c_is_branch Rv_cbeqz = True"
| "c_is_branch Rv_cbnez = True"
| "c_is_branch Rv_cjr = True"
| "c_is_branch Rv_cebreak = True"
| "c_is_branch Rv_cjalr = True"
| "c_is_branch _ = False"

fun insn_is_branch :: "opcode \<Rightarrow> bool" where
  "insn_is_branch (I_op b) = base_is_branch b"
| "insn_is_branch (S_op y) = sys_is_branch y"
| "insn_is_branch (C_op c) = c_is_branch c"
| "insn_is_branch _ = False"

section \<open>Decoded instructions\<close>

text \<open>
  \<^verbatim>\<open>opcode_fuse_t\<close>: the first eight bytes of an \<^verbatim>\<open>rv_insn_t\<close>, copied by \<^verbatim>\<open>memcpy\<close> when a
  sequence is fused.
\<close>

record opcode_fuse =
  f_imm :: u32
  f_rd :: u8
  f_rs1 :: u8
  f_rs2 :: u8
  f_opcode :: opcode

text \<open>
  \<^verbatim>\<open>rv_insn_t\<close>. The \<^verbatim>\<open>next\<close> pointer is the position in the instruction list of a block, and
  \<^verbatim>\<open>impl\<close> is always \<^verbatim>\<open>dispatch_table[opcode]\<close>, so neither is a field. A pointer to the first
  instruction of a block (\<^verbatim>\<open>branch_taken\<close>, \<^verbatim>\<open>branch_untaken\<close>) is the number of that block.
  \<^verbatim>\<open>imm\<close> and \<^verbatim>\<open>rs3\<close> share a union: \<open>rs3\<close> is the low byte of \<open>imm\<close> (little-endian host).
\<close>

type_synonym block_ptr = nat

record rv_insn =
  imm :: u32
  rd :: u8
  rs1 :: u8
  rs2 :: u8
  opcode :: opcode
  shamt :: u8
  rm :: u8
  imm2 :: u32
  fuse :: "opcode_fuse list"
  pc :: u32
  branch_taken :: "block_ptr option"
  branch_untaken :: "block_ptr option"

definition rs3 :: "rv_insn \<Rightarrow> u8" where
  "rs3 ir = ucast (imm ir)"

definition set_rs3 :: "u8 \<Rightarrow> rv_insn \<Rightarrow> rv_insn" where
  "set_rs3 v ir = ir\<lparr>imm := (imm ir AND 0xFFFFFF00) OR ucast v\<rparr>"

lemma rs3_set_rs3 [simp]: "rs3 (set_rs3 v ir) = v"
  unfolding rs3_def set_rs3_def by (rule word8_eqI) (simp add: bit_simps)

text \<open>A freshly \<^verbatim>\<open>calloc\<close>'ed instruction: all bytes zero, so the opcode is \<^verbatim>\<open>rv_insn_nop\<close>.\<close>

definition ir0 :: rv_insn where
  "ir0 = \<lparr>imm = 0, rd = 0, rs1 = 0, rs2 = 0, opcode = I_op Rv_nop, shamt = 0, rm = 0,
          imm2 = 0, fuse = [], pc = 0, branch_taken = None, branch_untaken = None\<rparr>"

lemma ir0_simps [simp]:
  "imm ir0 = 0" "rd ir0 = 0" "rs1 ir0 = 0" "rs2 ir0 = 0" "opcode ir0 = I_op Rv_nop"
  "shamt ir0 = 0" "rm ir0 = 0" "imm2 ir0 = 0" "fuse ir0 = []" "pc ir0 = 0"
  "branch_taken ir0 = None" "branch_untaken ir0 = None"
  by (simp_all add: ir0_def)

section \<open>Machine state\<close>

text \<open>
  \<^verbatim>\<open>struct riscv_internal\<close> of the user-mode interpreter build, with the parts of \<^verbatim>\<open>vm_attr_t\<close>
  the core reads (the memory, \<^verbatim>\<open>allow_misalign\<close>), the two file-scope variables the handlers
  write (\<^verbatim>\<open>is_branch_taken\<close>, \<^verbatim>\<open>last_pc\<close>) and SoftFloat's two globals. \<^verbatim>\<open>mem_base\<close> is a byte per
  offset from the host pointer \<^verbatim>\<open>mem_base\<close>: the source adds the 32-bit guest address to that
  64-bit pointer, so an access next to the top of the guest space does not wrap to 0.
  The block map, the L1 block cache and the pools are kept apart from this record.
\<close>

record riscv =
  halt :: bool
  X :: "u8 \<Rightarrow> u32"
  PC :: u32
  timer :: u64
  F :: "u8 \<Rightarrow> u32"
  csr_fcsr :: u32
  csr_cycle :: u64
  csr_time_lo :: u32
  csr_time_hi :: u32
  csr_mstatus :: u32
  csr_mtvec :: u32
  csr_misa :: u32
  csr_mtval :: u32
  csr_mcause :: u32
  csr_mscratch :: u32
  csr_mepc :: u32
  csr_mip :: u32
  csr_mideleg :: u32
  csr_medeleg :: u32
  csr_mvendorid :: u32
  csr_marchid :: u32
  csr_mimpid :: u32
  csr_sstatus :: u32
  csr_stvec :: u32
  csr_sip :: u32
  csr_sie :: u32
  csr_scounteren :: u32
  csr_sscratch :: u32
  csr_sepc :: u32
  csr_scause :: u32
  csr_stval :: u32
  csr_satp :: u32
  priv_mode :: u32
  compressed :: bool
  mem_base :: "nat \<Rightarrow> u8"
  mem_size :: u64
  allow_misalign :: bool
  exit_addr :: u32
  on_exit :: bool
  is_branch_taken :: bool
  last_pc :: u32
  softfloat_roundingMode :: u8
  softfloat_exceptionFlags :: u8

text \<open>Register numbers (\<^verbatim>\<open>RV_REGS_LIST\<close>) and the number of registers.\<close>

abbreviation (input) rv_reg_zero :: u8 where "rv_reg_zero \<equiv> 0"
abbreviation (input) rv_reg_ra :: u8 where "rv_reg_ra \<equiv> 1"
abbreviation (input) rv_reg_sp :: u8 where "rv_reg_sp \<equiv> 2"
abbreviation (input) rv_reg_a0 :: u8 where "rv_reg_a0 \<equiv> 10"
abbreviation (input) rv_reg_a1 :: u8 where "rv_reg_a1 \<equiv> 11"
abbreviation (input) rv_reg_a2 :: u8 where "rv_reg_a2 \<equiv> 12"
abbreviation (input) rv_reg_a7 :: u8 where "rv_reg_a7 \<equiv> 17"
abbreviation (input) N_RV_REGS :: u8 where "N_RV_REGS \<equiv> 32"

abbreviation set_X :: "u8 \<Rightarrow> u32 \<Rightarrow> riscv \<Rightarrow> riscv" where
  "set_X r v s \<equiv> s\<lparr>X := (X s)(r := v)\<rparr>"

abbreviation set_F :: "u8 \<Rightarrow> u32 \<Rightarrow> riscv \<Rightarrow> riscv" where
  "set_F r v s \<equiv> s\<lparr>F := (F s)(r := v)\<rparr>"

text \<open>Privilege levels.\<close>

abbreviation (input) RV_PRIV_U_MODE :: u32 where "RV_PRIV_U_MODE \<equiv> 0"
abbreviation (input) RV_PRIV_S_MODE :: u32 where "RV_PRIV_S_MODE \<equiv> 1"
abbreviation (input) RV_PRIV_M_MODE :: u32 where "RV_PRIV_M_MODE \<equiv> 3"

section \<open>The emulator's public register interface (riscv.c)\<close>

definition rv_set_pc :: "riscv \<Rightarrow> u32 \<Rightarrow> riscv \<times> bool" where
  "rv_set_pc s p = (if p AND 1 \<noteq> 0 then (s, False) else (s\<lparr>PC := p\<rparr>, True))"

definition rv_get_pc :: "riscv \<Rightarrow> u32" where
  "rv_get_pc s = PC s"

definition rv_set_reg :: "riscv \<Rightarrow> u32 \<Rightarrow> u32 \<Rightarrow> riscv" where
  "rv_set_reg s r v = (if r < 32 \<and> r \<noteq> 0 then set_X (ucast r) v s else s)"

definition rv_get_reg :: "riscv \<Rightarrow> u32 \<Rightarrow> u32" where
  "rv_get_reg s r = (if r < 32 then X s (ucast r) else NOT 0)"

end
