(* ===== verification/Memory.thy ===== *)
theory Memory
  imports Rv_Types
begin

unbundle bit_operations_syntax

text \<open>
  The guest memory of \<^verbatim>\<open>io.c\<close> and \<^verbatim>\<open>io.h\<close>: the unchecked accessors the interpreter uses
  (\<^verbatim>\<open>memory_read_*\<close>, \<^verbatim>\<open>memory_write_*\<close>, \<^verbatim>\<open>memory_ifetch\<close>), the bounds-checked bulk operations
  the system calls use (\<^verbatim>\<open>memory_write\<close>, \<^verbatim>\<open>memory_fill\<close>), \<^verbatim>\<open>GUEST_RAM_CONTAINS\<close>, and the I/O
  callbacks \<^verbatim>\<open>on_mem_*\<close> of \<^verbatim>\<open>riscv.c\<close> that connect them to the machine.

  The mapping behind \<^verbatim>\<open>data_memory_base\<close> is a byte for every offset. An access past the end of
  the mapping kills the emulator's process; the model gives it a byte, so that a statement
  about such an access holds only of runs that survive it.
\<close>

type_synonym memory = "nat \<Rightarrow> u8"

section \<open>Little-endian copies\<close>

text \<open>\<^verbatim>\<open>memcpy\<close> between the mapping and an object of the host, \<^verbatim>\<open>memset\<close> on the mapping.\<close>

definition memcpy_from :: "memory \<Rightarrow> nat \<Rightarrow> nat \<Rightarrow> u8 list" where
  "memcpy_from m a n = map (\<lambda>i. m (a + i)) [0..<n]"

definition memcpy_to :: "memory \<Rightarrow> nat \<Rightarrow> u8 list \<Rightarrow> memory" where
  "memcpy_to m a bs = (\<lambda>k. if a \<le> k \<and> k < a + length bs then bs ! (k - a) else m k)"

text \<open>The object representation of an integer on a little-endian host.\<close>

fun of_le :: "u8 list \<Rightarrow> 'a::len word" where
  "of_le [] = 0"
| "of_le (b # bs) = ucast b OR shl (of_le bs) 8"

definition to_le :: "nat \<Rightarrow> 'a::len word \<Rightarrow> u8 list" where
  "to_le n w = map (\<lambda>i. ucast (shr w (8 * i))) [0..<n]"

section \<open>io.c and io.h\<close>

definition memory_ifetch :: "memory \<Rightarrow> u32 \<Rightarrow> u32" where
  "memory_ifetch m addr = of_le (memcpy_from m (unat addr) 4)"

definition memory_read_w :: "memory \<Rightarrow> u32 \<Rightarrow> u32" where
  "memory_read_w m addr = of_le (memcpy_from m (unat addr) 4)"

definition memory_read_s :: "memory \<Rightarrow> u32 \<Rightarrow> u16" where
  "memory_read_s m addr = of_le (memcpy_from m (unat addr) 2)"

definition memory_read_b :: "memory \<Rightarrow> u32 \<Rightarrow> u8" where
  "memory_read_b m addr = of_le (memcpy_from m (unat addr) 1)"

definition memory_write_w :: "memory \<Rightarrow> u32 \<Rightarrow> u32 \<Rightarrow> memory" where
  "memory_write_w m addr v = memcpy_to m (unat addr) (to_le 4 v)"

definition memory_write_s :: "memory \<Rightarrow> u32 \<Rightarrow> u16 \<Rightarrow> memory" where
  "memory_write_s m addr v = memcpy_to m (unat addr) (to_le 2 v)"

definition memory_write_b :: "memory \<Rightarrow> u32 \<Rightarrow> u8 \<Rightarrow> memory" where
  "memory_write_b m addr v = memcpy_to m (unat addr) (to_le 1 v)"

definition memory_read :: "memory \<Rightarrow> u32 \<Rightarrow> u32 \<Rightarrow> u8 list" where
  "memory_read m addr sz = memcpy_from m (unat addr) (unat sz)"

text \<open>
  The bulk writes compare in \<^verbatim>\<open>uint64_t\<close>: \<^verbatim>\<open>mem_size\<close> is 64 bits wide, so the difference does
  not wrap once the first comparison has passed.
\<close>

definition GUEST_RAM_CONTAINS :: "u64 \<Rightarrow> u32 \<Rightarrow> u32 \<Rightarrow> bool" where
  "GUEST_RAM_CONTAINS msize addr sz \<longleftrightarrow>
     ucast addr < msize \<and> ucast sz \<le> msize - (ucast addr :: u64)"

definition memory_write :: "u64 \<Rightarrow> memory \<Rightarrow> u32 \<Rightarrow> u8 list \<Rightarrow> u32 \<Rightarrow> memory \<times> bool" where
  "memory_write msize m addr src sz =
    (if ucast addr \<ge> msize \<or> ucast sz > msize - (ucast addr :: u64) then (m, False)
     else (memcpy_to m (unat addr) (take (unat sz) src), True))"

definition memory_fill :: "u64 \<Rightarrow> memory \<Rightarrow> u32 \<Rightarrow> u32 \<Rightarrow> u8 \<Rightarrow> memory \<times> bool" where
  "memory_fill msize m addr sz val =
    (if ucast addr \<ge> msize \<or> ucast sz > msize - (ucast addr :: u64) then (m, False)
     else (memcpy_to m (unat addr) (replicate (unat sz) val), True))"

section \<open>The I/O callbacks of riscv.c\<close>

definition mem_ifetch :: "riscv \<Rightarrow> u32 \<Rightarrow> u32" where
  [mem_defs]: "mem_ifetch rv addr = memory_ifetch (mem_base rv) addr"

definition mem_read_w :: "riscv \<Rightarrow> u32 \<Rightarrow> u32" where
  [mem_defs]: "mem_read_w rv addr = memory_read_w (mem_base rv) addr"

definition mem_read_s :: "riscv \<Rightarrow> u32 \<Rightarrow> u16" where
  [mem_defs]: "mem_read_s rv addr = memory_read_s (mem_base rv) addr"

definition mem_read_b :: "riscv \<Rightarrow> u32 \<Rightarrow> u8" where
  [mem_defs]: "mem_read_b rv addr = memory_read_b (mem_base rv) addr"

definition mem_write_w :: "riscv \<Rightarrow> u32 \<Rightarrow> u32 \<Rightarrow> riscv" where
  [mem_defs]: "mem_write_w rv addr v = rv\<lparr>mem_base := memory_write_w (mem_base rv) addr v\<rparr>"

definition mem_write_s :: "riscv \<Rightarrow> u32 \<Rightarrow> u16 \<Rightarrow> riscv" where
  [mem_defs]: "mem_write_s rv addr v = rv\<lparr>mem_base := memory_write_s (mem_base rv) addr v\<rparr>"

definition mem_write_b :: "riscv \<Rightarrow> u32 \<Rightarrow> u8 \<Rightarrow> riscv" where
  [mem_defs]: "mem_write_b rv addr v = rv\<lparr>mem_base := memory_write_b (mem_base rv) addr v\<rparr>"

section \<open>The RAM fast path of riscv\_private.h\<close>

text \<open>The handlers of the user-mode build read and write \<^verbatim>\<open>mem_base\<close> directly.\<close>

definition ram_read_w :: "riscv \<Rightarrow> u32 \<Rightarrow> u32" where
  [mem_defs]: "ram_read_w rv addr = of_le (memcpy_from (mem_base rv) (unat addr) 4)"

definition ram_read_s :: "riscv \<Rightarrow> u32 \<Rightarrow> u16" where
  [mem_defs]: "ram_read_s rv addr = of_le (memcpy_from (mem_base rv) (unat addr) 2)"

definition ram_read_b :: "riscv \<Rightarrow> u32 \<Rightarrow> u8" where
  [mem_defs]: "ram_read_b rv addr = mem_base rv (unat addr)"

definition ram_write_w :: "riscv \<Rightarrow> u32 \<Rightarrow> u32 \<Rightarrow> riscv" where
  [mem_defs]: "ram_write_w rv addr v =
    rv\<lparr>mem_base := memcpy_to (mem_base rv) (unat addr) (to_le 4 v)\<rparr>"

definition ram_write_s :: "riscv \<Rightarrow> u32 \<Rightarrow> u16 \<Rightarrow> riscv" where
  [mem_defs]: "ram_write_s rv addr v =
    rv\<lparr>mem_base := memcpy_to (mem_base rv) (unat addr) (to_le 2 v)\<rparr>"

definition ram_write_b :: "riscv \<Rightarrow> u32 \<Rightarrow> u8 \<Rightarrow> riscv" where
  [mem_defs]: "ram_write_b rv addr v = rv\<lparr>mem_base := (mem_base rv)(unat addr := v)\<rparr>"

section \<open>Copies and representations\<close>

lemma memcpy_from_simps [simp]:
  "length (memcpy_from m a n) = n"
  "i < n \<Longrightarrow> memcpy_from m a n ! i = m (a + i)"
  "memcpy_from m a 0 = []"
  by (simp_all add: memcpy_from_def)

lemma memcpy_from_Suc: "memcpy_from m a (Suc n) = m a # memcpy_from m (Suc a) n"
  by (rule nth_equalityI) (auto simp: nth_Cons split: nat.split)

lemma memcpy_from_numerals:
  "memcpy_from m a 1 = [m a]" "memcpy_from m a 2 = [m a, m (a + 1)]"
  "memcpy_from m a 4 = [m a, m (a + 1), m (a + 2), m (a + 3)]"
  by (simp_all add: memcpy_from_def upt_rec numeral_3_eq_3)

lemma to_le_simps [simp]:
  "length (to_le n w) = n" "i < n \<Longrightarrow> to_le n w ! i = ucast (shr w (8 * i))"
  by (simp_all add: to_le_def)

lemma to_le_0 [simp]: "to_le 0 w = []"
  by (simp add: to_le_def)

lemma to_le_Suc: "to_le (Suc n) w = ucast w # to_le n (shr w 8)"
  by (rule nth_equalityI) (auto simp: nth_Cons drop_bit_drop_bit ac_simps split: nat.split)

lemma bit_of_le:
  "bit (of_le bs :: 'a::len word) k \<longleftrightarrow>
     k < LENGTH('a) \<and> k < 8 * length bs \<and> bit (bs ! (k div 8)) (k mod 8)"
proof (induction bs arbitrary: k)
  case (Cons b bs)
  show ?case
  proof (cases "k < 8")
    case True
    then show ?thesis by (auto simp: bit_simps)
  next
    case False
    then have "k div 8 = Suc ((k - 8) div 8)" "k mod 8 = (k - 8) mod 8"
      by (simp_all add: div_if mod_if)
    with False Cons.IH [of "k - 8"] show ?thesis
      by (auto simp: bit_simps not_less dest: bit_imp_le_length)
  qed
qed simp

lemma of_le_to_le: "LENGTH('a) = 8 * n \<Longrightarrow> of_le (to_le n w) = (w :: 'a::len word)"
proof (rule bit_word_eqI)
  fix k assume "LENGTH('a) = 8 * n" "k < LENGTH('a)"
  moreover have "k mod 8 < LENGTH(8)" by simp
  ultimately show "bit (of_le (to_le n w) :: 'a word) k \<longleftrightarrow> bit w k"
    by (simp only: bit_of_le to_le_simps less_mult_imp_div_less bit_ucast_iff bit_drop_bit_eq o_def
      mult_div_mod_eq div_mult_mod_eq simp_thms mult.commute [of 8 n])
qed

lemma memcpy_from_to [simp]: "memcpy_from (memcpy_to m a bs) a (length bs) = bs"
  by (rule nth_equalityI) (simp_all add: memcpy_to_def)

lemma memcpy_from_to_disjoint:
  "a + n \<le> b \<or> b + length bs \<le> a \<Longrightarrow> memcpy_from (memcpy_to m b bs) a n = memcpy_from m a n"
  by (rule nth_equalityI) (auto simp: memcpy_to_def)

lemma memcpy_from_cong: "(\<And>i. i < n \<Longrightarrow> m' (a + i) = m (a + i)) \<Longrightarrow> memcpy_from m' a n = memcpy_from m a n"
  by (auto simp: memcpy_from_def)

lemma memcpy_to_append:
  "memcpy_to (memcpy_to m a bs) (a + length bs) cs = memcpy_to m a (bs @ cs)"
  by (rule ext) (auto simp: memcpy_to_def nth_append)

section \<open>The memory interface\<close>

text \<open>
  What the handlers, the misaligned-access emulation and the system calls rely on: a half word
  is two bytes, a word two half words, both little-endian, as long as the access does not run
  past the last guest address, and a byte read returns the byte written last.
\<close>

locale guest_memory =
  fixes read_b :: "'m \<Rightarrow> u32 \<Rightarrow> u8" and read_s :: "'m \<Rightarrow> u32 \<Rightarrow> u16" and read_w :: "'m \<Rightarrow> u32 \<Rightarrow> u32"
    and write_b :: "'m \<Rightarrow> u32 \<Rightarrow> u8 \<Rightarrow> 'm" and write_s :: "'m \<Rightarrow> u32 \<Rightarrow> u16 \<Rightarrow> 'm"
    and write_w :: "'m \<Rightarrow> u32 \<Rightarrow> u32 \<Rightarrow> 'm"
  assumes read_b_write_b: "read_b (write_b m a v) a' = (if a' = a then v else read_b m a')"
    and read_s_bytes: "unat a + 2 \<le> 2 ^ 32 \<Longrightarrow>
      read_s m a = ucast (read_b m a) OR shl (ucast (read_b m (a + 1))) 8"
    and read_w_halves: "unat a + 4 \<le> 2 ^ 32 \<Longrightarrow>
      read_w m a = ucast (read_s m a) OR shl (ucast (read_s m (a + 2))) 16"
    and write_s_bytes: "unat a + 2 \<le> 2 ^ 32 \<Longrightarrow>
      write_s m a h = write_b (write_b m a (ucast h)) (a + 1) (ucast (shr h 8))"
    and write_w_halves: "unat a + 4 \<le> 2 ^ 32 \<Longrightarrow>
      write_w m a w = write_s (write_s m a (ucast w)) (a + 2) (ucast (shr w 16))"
begin

lemma unat_succ:
  "unat (a::u32) + 4 \<le> 2 ^ 32 \<Longrightarrow> unat (a + 2) = unat a + 2"
  by (subst unat_add_lem [THEN iffD1]) simp_all

lemma read_w_bytes:
  assumes "unat a + 4 \<le> 2 ^ 32"
  shows "read_w m a = ucast (read_b m a) OR shl (ucast (read_b m (a + 1))) 8 OR
    shl (ucast (read_b m (a + 2))) 16 OR shl (ucast (read_b m (a + 3))) 24"
proof -
  have "unat (a + 2) + 2 \<le> 2 ^ 32" using unat_succ [OF assms] assms by simp
  moreover have "unat a + 2 \<le> 2 ^ 32" using assms by simp
  ultimately have *: "read_w m a = ucast (ucast (read_b m a) OR shl (ucast (read_b m (a + 1))) 8 :: u16) OR
      shl (ucast (ucast (read_b m (a + 2)) OR shl (ucast (read_b m (a + 3))) 8 :: u16)) 16"
    using read_w_halves [OF assms, of m] by (simp add: read_s_bytes add.assoc)
  show ?thesis unfolding * by (rule word32_eqI) (simp add: bit_simps bit_beyond)
qed

lemma write_w_bytes:
  assumes "unat a + 4 \<le> 2 ^ 32"
  shows "write_w m a w = write_b (write_b (write_b (write_b m a (ucast w)) (a + 1) (ucast (shr w 8)))
    (a + 2) (ucast (shr w 16))) (a + 3) (ucast (shr w 24))"
proof -
  have "unat (a + 2) + 2 \<le> 2 ^ 32" using unat_succ [OF assms] assms by simp
  moreover have "unat a + 2 \<le> 2 ^ 32" using assms by simp
  moreover have "(ucast (ucast w :: u16) :: u8) = ucast w"
    "(ucast (shr (ucast w :: u16) 8) :: u8) = ucast (shr w 8)"
    "(ucast (ucast (shr w 16) :: u16) :: u8) = ucast (shr w 16)"
    "(ucast (shr (ucast (shr w 16) :: u16) 8) :: u8) = ucast (shr w 24)"
    by (rule word8_eqI, simp add: bit_simps)+
  ultimately show ?thesis
    using write_w_halves [OF assms, of m w] by (simp add: write_s_bytes add.assoc)
qed

lemma read_w_write_w:
  assumes "unat a + 4 \<le> 2 ^ 32"
  shows "read_w (write_w m a w) a = w"
  unfolding read_w_bytes [OF assms] write_w_bytes [OF assms]
  by (simp add: read_b_write_b) (rule word32_eqI, simp add: bit_simps)

lemma read_b_write_w:
  assumes "unat a + 4 \<le> 2 ^ 32"
  shows "read_b (write_w m a w) a' =
    (if a' = a then ucast w else if a' = a + 1 then ucast (shr w 8)
     else if a' = a + 2 then ucast (shr w 16) else if a' = a + 3 then ucast (shr w 24)
     else read_b m a')"
  unfolding write_w_bytes [OF assms] by (auto simp: read_b_write_b)

end

text \<open>The accessors of \<^verbatim>\<open>io.c\<close> keep that contract.\<close>

lemma to_le_numerals:
  "to_le 1 w = [ucast w]" "to_le 2 w = [ucast w, ucast (shr w 8)]"
  "to_le 4 w = [ucast w, ucast (shr w 8), ucast (shr w 16), ucast (shr w 24)]"
  by (simp_all add: to_le_def upt_rec)

lemma memcpy_to_single: "memcpy_to m a [b] = m(a := b)"
  by (rule ext) (simp add: memcpy_to_def)

lemma memcpy_to_2: "memcpy_to m a [b, c] = m(a := b, Suc a := c)"
  using memcpy_to_append [of m a "[b]" "[c]"] by (simp add: memcpy_to_single)

lemma memcpy_to_4: "memcpy_to m a [b, c, d, e] = m(a := b, a + 1 := c, a + 2 := d, a + 3 := e)"
  using memcpy_to_append [of m a "[b, c]" "[d, e]"]
  by (simp add: memcpy_to_2 numeral_2_eq_2 numeral_3_eq_3)

lemma memory_read_b_eq: "memory_read_b m a = m (unat a)"
  unfolding memory_read_b_def memcpy_from_numerals by simp

lemma memory_read_s_eq: "memory_read_s m a = ucast (m (unat a)) OR shl (ucast (m (unat a + 1))) 8"
  unfolding memory_read_s_def memcpy_from_numerals by simp

lemma memory_read_w_eq:
  "memory_read_w m a = ucast (m (unat a)) OR shl (ucast (m (unat a + 1))) 8 OR
     shl (ucast (m (unat a + 2))) 16 OR shl (ucast (m (unat a + 3))) 24"
  unfolding memory_read_w_def memcpy_from_numerals
  by (rule word32_eqI) (simp add: bit_simps bit_beyond)

lemma memory_write_b_eq: "memory_write_b m a v = m(unat a := v)"
  by (simp add: memory_write_b_def to_le_numerals memcpy_to_single del: One_nat_def)

lemma memory_write_s_eq:
  "memory_write_s m a v = m(unat a := ucast v, unat a + 1 := ucast (shr v 8))"
  by (simp add: memory_write_s_def to_le_numerals memcpy_to_2)

lemma memory_write_w_eq:
  "memory_write_w m a v = m(unat a := ucast v, unat a + 1 := ucast (shr v 8),
     unat a + 2 := ucast (shr v 16), unat a + 3 := ucast (shr v 24))"
  by (simp add: memory_write_w_def to_le_numerals memcpy_to_4)

lemmas memory_eqs = memory_read_b_eq memory_read_s_eq memory_read_w_eq
  memory_write_b_eq memory_write_s_eq memory_write_w_eq

lemma unat_plus_small:
  "unat (a::u32) + n \<le> 2 ^ 32 \<Longrightarrow> k < n \<Longrightarrow> unat (a + of_nat k) = unat a + k"
  by (simp add: unat_word_ariths unat_of_nat)

lemmas unat_plus_1 = unat_plus_small [of a 2 1 for a, simplified]
lemmas unat_plus_2 = unat_plus_small [of a 4 2 for a, simplified]

interpretation ram: guest_memory memory_read_b memory_read_s memory_read_w
  memory_write_b memory_write_s memory_write_w
proof
  fix m :: memory and a a' :: u32 and v :: u8 and h :: u16 and w :: u32
  show "memory_read_b (memory_write_b m a v) a' = (if a' = a then v else memory_read_b m a')"
    using word_unat_eq_iff [of a' a] by (simp add: memory_eqs)
  show "unat a + 2 \<le> 2 ^ 32 \<Longrightarrow>
      memory_read_s m a = ucast (memory_read_b m a) OR shl (ucast (memory_read_b m (a + 1))) 8"
    by (simp add: memory_eqs unat_plus_1)
  show "unat a + 4 \<le> 2 ^ 32 \<Longrightarrow>
      memory_read_w m a = ucast (memory_read_s m a) OR shl (ucast (memory_read_s m (a + 2))) 16"
    by (rule word32_eqI) (simp add: memory_eqs unat_plus_2 bit_simps bit_beyond numeral_3_eq_3)
  show "unat a + 2 \<le> 2 ^ 32 \<Longrightarrow> memory_write_s m a h =
      memory_write_b (memory_write_b m a (ucast h)) (a + 1) (ucast (shr h 8))"
    by (simp add: memory_eqs unat_plus_1)
  have "(ucast (ucast w :: u16) :: u8) = ucast w"
    "(ucast (shr (ucast w :: u16) 8) :: u8) = ucast (shr w 8)"
    "(ucast (ucast (shr w 16) :: u16) :: u8) = ucast (shr w 16)"
    "(ucast (shr (ucast (shr w 16) :: u16) 8) :: u8) = ucast (shr w 24)"
    by (rule word8_eqI, simp add: bit_simps)+
  then show "unat a + 4 \<le> 2 ^ 32 \<Longrightarrow> memory_write_w m a w =
      memory_write_s (memory_write_s m a (ucast w)) (a + 2) (ucast (shr w 16))"
    by (simp add: memory_eqs unat_plus_2 numeral_3_eq_3)
qed

text \<open>The fast path and the I/O callbacks are the same functions of the memory.\<close>

lemma ram_eqs:
  "ram_read_w rv a = memory_read_w (mem_base rv) a"
  "ram_read_s rv a = memory_read_s (mem_base rv) a"
  "ram_read_b rv a = memory_read_b (mem_base rv) a"
  "ram_write_w rv a w = rv\<lparr>mem_base := memory_write_w (mem_base rv) a w\<rparr>"
  "ram_write_s rv a h = rv\<lparr>mem_base := memory_write_s (mem_base rv) a h\<rparr>"
  "ram_write_b rv a b = rv\<lparr>mem_base := memory_write_b (mem_base rv) a b\<rparr>"
  by (simp_all add: mem_defs memory_read_w_def memory_read_s_def memory_read_b_eq
    memory_write_w_def memory_write_s_def memory_write_b_eq)

interpretation fast: guest_memory ram_read_b ram_read_s ram_read_w
  ram_write_b ram_write_s ram_write_w
  by unfold_locales (simp_all add: ram_eqs ram.read_b_write_b ram.read_s_bytes ram.read_w_halves
    ram.write_s_bytes ram.write_w_halves)

interpretation io: guest_memory mem_read_b mem_read_s mem_read_w
  mem_write_b mem_write_s mem_write_w
  by unfold_locales (simp_all add: mem_defs ram.read_b_write_b ram.read_s_bytes ram.read_w_halves
    ram.write_s_bytes ram.write_w_halves)

end
