(* ===== verification/Decode.thy ===== *)
theory Decode
  imports Rv_Types
begin

unbundle bit_operations_syntax

text \<open>
  The instruction decoder, \<^verbatim>\<open>decode.c\<close>: field extraction, immediate reassembly, the format
  decoders, one decoder per major opcode and \<^verbatim>\<open>rv_decode\<close> with its two jump tables. A decoder
  updates the instruction it is given and returns whether the encoding is legal; the update
  stays even when it returns false, as in the source.
\<close>

section \<open>Fields and immediates of 32-bit instructions\<close>

definition decode_rd :: "u32 \<Rightarrow> u32" where
  [field_defs]: "decode_rd insn = shr (insn AND 0x00000F80) 7"

definition decode_rs1 :: "u32 \<Rightarrow> u32" where
  [field_defs]: "decode_rs1 insn = shr (insn AND 0x000F8000) 15"

definition decode_rs2 :: "u32 \<Rightarrow> u32" where
  [field_defs]: "decode_rs2 insn = shr (insn AND 0x01F00000) 20"

definition decode_funct3 :: "u32 \<Rightarrow> u32" where
  [field_defs]: "decode_funct3 insn = shr (insn AND 0x00007000) 12"

definition decode_funct7 :: "u32 \<Rightarrow> u32" where
  [field_defs]: "decode_funct7 insn = shr (insn AND 0xFE000000) 25"

definition decode_utype_imm :: "u32 \<Rightarrow> u32" where
  [field_defs]: "decode_utype_imm insn = insn AND 0xFFFFF000"

definition decode_jtype_imm :: "u32 \<Rightarrow> u32" where
  [field_defs]: "decode_jtype_imm insn =
    (let dst = 0;
         dst = dst OR (insn AND 0x80000000);
         dst = dst OR shl (insn AND 0x000FF000) 11;
         dst = dst OR shl (insn AND 0x00100000) 2;
         dst = dst OR shr (insn AND 0x7FE00000) 9
     in sar dst 11)"

definition decode_itype_imm :: "u32 \<Rightarrow> u32" where
  [field_defs]: "decode_itype_imm insn = sar (insn AND 0xFFF00000) 20"

definition decode_btype_imm :: "u32 \<Rightarrow> u32" where
  [field_defs]: "decode_btype_imm insn =
    (let dst = 0;
         dst = dst OR (insn AND 0x80000000);
         dst = dst OR shl (insn AND 0x00000080) 23;
         dst = dst OR shr (insn AND 0x7E000000) 1;
         dst = dst OR shl (insn AND 0x00000F00) 12
     in sar dst 19)"

definition decode_stype_imm :: "u32 \<Rightarrow> u32" where
  [field_defs]: "decode_stype_imm insn =
    (let dst = 0;
         dst = dst OR (insn AND 0xFE000000);
         dst = dst OR shl (insn AND 0x00000F80) 13
     in sar dst 20)"

definition decode_r4type_rs3 :: "u32 \<Rightarrow> u32" where
  [field_defs]: "decode_r4type_rs3 insn = shr (insn AND 0xF8000000) 27"

section \<open>Fields and immediates of 16-bit instructions\<close>

definition c_decode_rs1 :: "u16 \<Rightarrow> u16" where
  [field_defs]: "c_decode_rs1 insn = shr (insn AND 0x0F80) 7"

definition c_decode_rs2 :: "u16 \<Rightarrow> u16" where
  [field_defs]: "c_decode_rs2 insn = shr (insn AND 0x007C) 2"

definition c_decode_rd :: "u16 \<Rightarrow> u16" where
  [field_defs]: "c_decode_rd insn = shr (insn AND 0x0F80) 7"

definition c_decode_rs1c :: "u16 \<Rightarrow> u16" where
  [field_defs]: "c_decode_rs1c insn = shr (insn AND 0x0380) 7"

definition c_decode_rs2c :: "u16 \<Rightarrow> u16" where
  [field_defs]: "c_decode_rs2c insn = shr (insn AND 0x001C) 2"

definition c_decode_rdc :: "u16 \<Rightarrow> u16" where
  [field_defs]: "c_decode_rdc insn = shr (insn AND 0x001C) 2"

definition c_decode_caddi4spn_nzuimm :: "u16 \<Rightarrow> u16" where
  [field_defs]: "c_decode_caddi4spn_nzuimm insn =
    (let tmp = 0;
         tmp = tmp OR shr (insn AND 0x1800) 7;
         tmp = tmp OR shr (insn AND 0x0780) 1;
         tmp = tmp OR shr (insn AND 0x0040) 4;
         tmp = tmp OR shr (insn AND 0x0020) 2
     in tmp)"

text \<open>From here on a 16-bit operand is promoted to \<^verbatim>\<open>int\<close> before it is shifted.\<close>

definition c_decode_caddi16sp_nzimm :: "u16 \<Rightarrow> u32" where
  [field_defs]: "c_decode_caddi16sp_nzimm insn =
    (let w = (ucast insn :: u32);
         tmp = shr (w AND 0x1000) 3;
         tmp = tmp OR shr (w AND 0x40) 2;
         tmp = tmp OR shl (w AND 0x20) 1;
         tmp = tmp OR shl (w AND 0x18) 4;
         tmp = tmp OR shl (w AND 0x4) 3
     in if tmp AND 0x200 \<noteq> 0 then 0xFFFFFC00 OR tmp else tmp)"

definition c_decode_clui_nzimm :: "u16 \<Rightarrow> u32" where
  [field_defs]: "c_decode_clui_nzimm insn =
    (let w = (ucast insn :: u32);
         tmp = shl (w AND 0x1000) 5 OR shl (w AND 0x7C) 10
     in if tmp AND 0x20000 \<noteq> 0 then 0xFFFC0000 OR tmp else tmp)"

text \<open>\<^verbatim>\<open>sign_extend_h\<close>, \<^verbatim>\<open>sign_extend_b\<close>: keep the low 16 or 8 bits as a signed value.\<close>

definition sign_extend_h :: "u32 \<Rightarrow> u32" where
  [field_defs]: "sign_extend_h x = scast (ucast x :: u16)"

definition sign_extend_b :: "u32 \<Rightarrow> u32" where
  [field_defs]: "sign_extend_b x = scast (ucast x :: u8)"

definition c_decode_caddi_imm :: "u16 \<Rightarrow> u32" where
  [field_defs]: "c_decode_caddi_imm insn =
    (let mask = (shl (0x1000 AND insn) 3 :: u16);
         tmp = fold (\<lambda>i tmp. tmp OR (ucast (shr mask i) :: u32)) [0,1,2,3,4,5,6,7,8,9,10] 0;
         tmp = tmp OR ucast (shr (insn AND 0x007C) 2)
     in sign_extend_h tmp)"

definition c_decode_citype_imm :: "u16 \<Rightarrow> u32" where
  [field_defs]: "c_decode_citype_imm insn =
    (let w = (ucast insn :: u32);
         tmp = shr (w AND 0x1000) 7 OR shr (w AND 0x7C) 2
     in if tmp AND 0x20 \<noteq> 0 then 0xFFFFFFC0 OR tmp else tmp)"

definition c_decode_cjtype_imm :: "u16 \<Rightarrow> u32" where
  [field_defs]: "c_decode_cjtype_imm insn =
    (let tmp = (0 :: u16);
         tmp = tmp OR shr (insn AND 0x0038) 2;
         tmp = tmp OR shr (insn AND 0x0800) 7;
         tmp = tmp OR shl (insn AND 0x0004) 3;
         tmp = tmp OR shr (insn AND 0x0080) 1;
         tmp = tmp OR shl (insn AND 0x0040) 1;
         tmp = tmp OR shr (insn AND 0x0600) 1;
         tmp = tmp OR shl (insn AND 0x0100) 2;
         tmp = tmp OR shr (insn AND 0x1000) 1;
         tmp = fold (\<lambda>i tmp. tmp OR shl (0x0800 AND tmp) i) [1,2,3,4] tmp
     in scast tmp)"

definition c_decode_cbtype_shamt :: "u16 \<Rightarrow> u8" where
  [field_defs]: "c_decode_cbtype_shamt insn =
    (let tmp = (0 :: u8);
         tmp = tmp OR ucast (shr (insn AND 0x1000) 7);
         tmp = tmp OR ucast (shr (insn AND 0x007C) 2)
     in tmp)"

definition c_decode_cbtype_imm :: "u16 \<Rightarrow> u16" where
  [field_defs]: "c_decode_cbtype_imm insn =
    (let tmp = (0 :: u16);
         tmp = tmp OR shr (insn AND 0x0018) 2;
         tmp = tmp OR shr (insn AND 0x0C00) 7;
         tmp = tmp OR shl (insn AND 0x0004) 3;
         tmp = tmp OR shl (insn AND 0x0060) 1;
         tmp = tmp OR shr (insn AND 0x1000) 4
     in fold (\<lambda>i tmp. tmp OR shl (0x0100 AND tmp) i) [1,2,3,4,5,6,7,8] tmp)"

definition is_compressed :: "u32 \<Rightarrow> bool" where
  [field_defs]: "is_compressed insn \<longleftrightarrow> insn AND 0x3 \<noteq> 3"

section \<open>Instruction formats\<close>

definition decode_itype :: "rv_insn \<Rightarrow> u32 \<Rightarrow> rv_insn" where
  [format_defs]: "decode_itype ir insn =
    ir\<lparr>imm := decode_itype_imm insn, rs1 := ucast (decode_rs1 insn), rd := ucast (decode_rd insn)\<rparr>"

definition decode_utype :: "rv_insn \<Rightarrow> u32 \<Rightarrow> rv_insn" where
  [format_defs]: "decode_utype ir insn =
    ir\<lparr>imm := decode_utype_imm insn, rd := ucast (decode_rd insn)\<rparr>"

definition decode_stype :: "rv_insn \<Rightarrow> u32 \<Rightarrow> rv_insn" where
  [format_defs]: "decode_stype ir insn =
    ir\<lparr>imm := decode_stype_imm insn, rs2 := ucast (decode_rs2 insn), rs1 := ucast (decode_rs1 insn)\<rparr>"

definition decode_rtype :: "rv_insn \<Rightarrow> u32 \<Rightarrow> rv_insn" where
  [format_defs]: "decode_rtype ir insn =
    ir\<lparr>rs2 := ucast (decode_rs2 insn), rs1 := ucast (decode_rs1 insn), rd := ucast (decode_rd insn)\<rparr>"

definition decode_btype :: "rv_insn \<Rightarrow> u32 \<Rightarrow> rv_insn" where
  [format_defs]: "decode_btype ir insn =
    ir\<lparr>imm := decode_btype_imm insn, rs2 := ucast (decode_rs2 insn), rs1 := ucast (decode_rs1 insn)\<rparr>"

definition decode_jtype :: "rv_insn \<Rightarrow> u32 \<Rightarrow> rv_insn" where
  [format_defs]: "decode_jtype ir insn =
    ir\<lparr>imm := decode_jtype_imm insn, rd := ucast (decode_rd insn)\<rparr>"

definition decode_r4type :: "rv_insn \<Rightarrow> u32 \<Rightarrow> rv_insn" where
  [format_defs]: "decode_r4type ir insn =
    (set_rs3 (ucast (decode_r4type_rs3 insn))
      (ir\<lparr>rd := ucast (decode_rd insn), rs1 := ucast (decode_rs1 insn),
          rs2 := ucast (decode_rs2 insn)\<rparr>))\<lparr>rm := ucast (decode_funct3 insn)\<rparr>"

section \<open>Major opcodes of 32-bit instructions\<close>

text \<open>Set the opcode and accept; keep the instruction and reject.\<close>

abbreviation accept :: "rv_insn \<Rightarrow> opcode \<Rightarrow> rv_insn \<times> bool" where
  "accept ir c \<equiv> (ir\<lparr>opcode := c\<rparr>, True)"

abbreviation reject :: "rv_insn \<Rightarrow> rv_insn \<times> bool" where
  "reject ir \<equiv> (ir, False)"

definition op_load :: "rv_insn \<Rightarrow> u32 \<Rightarrow> rv_insn \<times> bool" where
  [op_defs]: "op_load i0 insn =
    (let ir = decode_itype i0 insn; f3 = decode_funct3 insn in
     if f3 = 0 then accept ir (I_op Rv_lb)
     else if f3 = 1 then accept ir (I_op Rv_lh)
     else if f3 = 2 then accept ir (I_op Rv_lw)
     else if f3 = 4 then accept ir (I_op Rv_lbu)
     else if f3 = 5 then accept ir (I_op Rv_lhu)
     else reject ir)"

definition op_op_imm :: "rv_insn \<Rightarrow> u32 \<Rightarrow> rv_insn \<times> bool" where
  [op_defs]: "op_op_imm i0 insn =
    (let ir = decode_itype i0 insn; f3 = decode_funct3 insn in
     if rd ir = rv_reg_zero then accept ir (I_op Rv_nop)
     else if f3 = 0 then accept ir (I_op Rv_addi)
     else if f3 = 1 then
       (if imm ir = 0x600 then accept ir (B_op Rv_clz)
        else if imm ir = 0x601 then accept ir (B_op Rv_ctz)
        else if imm ir = 0x602 then accept ir (B_op Rv_cpop)
        else if imm ir = 0x604 then accept ir (B_op Rv_sextb)
        else if imm ir = 0x605 then accept ir (B_op Rv_sexth)
        else if sar (imm ir) 5 = 0x24 then accept ir (B_op Rv_bclri)
        else if sar (imm ir) 5 = 0x34 then accept ir (B_op Rv_binvi)
        else if sar (imm ir) 5 = 0x14 then accept ir (B_op Rv_bseti)
        else (ir\<lparr>opcode := I_op Rv_slli\<rparr>, imm ir AND 0x20 = 0))
     else if f3 = 2 then accept ir (I_op Rv_slti)
     else if f3 = 3 then accept ir (I_op Rv_sltiu)
     else if f3 = 4 then accept ir (I_op Rv_xori)
     else if f3 = 5 then
       (if sar (imm ir) 5 = 0x30 then accept ir (B_op Rv_rori)
        else if imm ir = 0x287 then accept ir (B_op Rv_orcb)
        else if imm ir = 0x698 then accept ir (B_op Rv_rev8)
        else if sar (imm ir) 5 = 0x24 then accept ir (B_op Rv_bexti)
        else (ir\<lparr>opcode := if imm ir AND NOT 0x1F \<noteq> 0 then I_op Rv_srai else I_op Rv_srli\<rparr>,
              imm ir AND 0x20 = 0))
     else if f3 = 6 then accept ir (I_op Rv_ori)
     else if f3 = 7 then accept ir (I_op Rv_andi)
     else reject ir)"

definition op_auipc :: "rv_insn \<Rightarrow> u32 \<Rightarrow> rv_insn \<times> bool" where
  [op_defs]: "op_auipc i0 insn =
    (let ir = decode_utype i0 insn in
     if rd ir = rv_reg_zero then accept ir (I_op Rv_nop)
     else accept ir (I_op Rv_auipc))"

definition op_store :: "rv_insn \<Rightarrow> u32 \<Rightarrow> rv_insn \<times> bool" where
  [op_defs]: "op_store i0 insn =
    (let ir = decode_stype i0 insn; f3 = decode_funct3 insn in
     if f3 = 0 then accept ir (I_op Rv_sb)
     else if f3 = 1 then accept ir (I_op Rv_sh)
     else if f3 = 2 then accept ir (I_op Rv_sw)
     else reject ir)"

text \<open>
  \<^verbatim>\<open>op_op\<close>: a switch on \<^verbatim>\<open>funct7\<close> whose cases switch on \<^verbatim>\<open>funct3\<close>; \<^verbatim>\<open>funct3\<close> is narrowed to
  \<^verbatim>\<open>uint8_t\<close> before the switch.
\<close>

definition op_op_base :: "rv_insn \<Rightarrow> u8 \<Rightarrow> rv_insn \<times> bool" where
  [op_defs]: "op_op_base ir f3 =
    (if f3 = 0 then accept ir (I_op Rv_add)
     else if f3 = 1 then accept ir (I_op Rv_sll)
     else if f3 = 2 then accept ir (I_op Rv_slt)
     else if f3 = 3 then accept ir (I_op Rv_sltu)
     else if f3 = 4 then accept ir (I_op Rv_xor)
     else if f3 = 5 then accept ir (I_op Rv_srl)
     else if f3 = 6 then accept ir (I_op Rv_or)
     else if f3 = 7 then accept ir (I_op Rv_and)
     else reject ir)"

definition op_op_m :: "rv_insn \<Rightarrow> u8 \<Rightarrow> rv_insn \<times> bool" where
  [op_defs]: "op_op_m ir f3 =
    (if f3 = 0 then accept ir (M_op Rv_mul)
     else if f3 = 1 then accept ir (M_op Rv_mulh)
     else if f3 = 2 then accept ir (M_op Rv_mulhsu)
     else if f3 = 3 then accept ir (M_op Rv_mulhu)
     else if f3 = 4 then accept ir (M_op Rv_div)
     else if f3 = 5 then accept ir (M_op Rv_divu)
     else if f3 = 6 then accept ir (M_op Rv_rem)
     else if f3 = 7 then accept ir (M_op Rv_remu)
     else reject ir)"

definition op_op_b :: "rv_insn \<Rightarrow> u32 \<Rightarrow> u8 \<Rightarrow> rv_insn \<times> bool" where
  [op_defs]: "op_op_b ir f7 f3 =
    (if f7 = 0x10 then
       (if f3 = 2 then accept ir (B_op Rv_sh1add)
        else if f3 = 4 then accept ir (B_op Rv_sh2add)
        else if f3 = 6 then accept ir (B_op Rv_sh3add)
        else reject ir)
     else if f7 = 0x05 then
       (if f3 = 6 then accept ir (B_op Rv_max)
        else if f3 = 4 then accept ir (B_op Rv_min)
        else if f3 = 7 then accept ir (B_op Rv_maxu)
        else if f3 = 5 then accept ir (B_op Rv_minu)
        else if f3 = 1 then accept ir (B_op Rv_clmul)
        else if f3 = 3 then accept ir (B_op Rv_clmulh)
        else if f3 = 2 then accept ir (B_op Rv_clmulr)
        else reject ir)
     else if f7 = 0x30 then
       (if f3 = 1 then accept ir (B_op Rv_rol)
        else if f3 = 5 then accept ir (B_op Rv_ror)
        else reject ir)
     else if f7 = 0x04 then
       (if rs2 ir \<noteq> 0 then reject ir else accept ir (B_op Rv_zexth))
     else if f7 = 0x24 then
       (if f3 = 1 then accept ir (B_op Rv_bclr)
        else if f3 = 5 then accept ir (B_op Rv_bext)
        else reject ir)
     else if f7 = 0x34 then
       (if f3 \<noteq> 1 then reject ir else accept ir (B_op Rv_binv))
     else if f7 = 0x14 then
       (if f3 \<noteq> 1 then reject ir else accept ir (B_op Rv_bset))
     else if f7 = 0x20 then
       (if f3 = 0 then accept ir (I_op Rv_sub)
        else if f3 = 5 then accept ir (I_op Rv_sra)
        else if f3 = 7 then accept ir (B_op Rv_andn)
        else if f3 = 6 then accept ir (B_op Rv_orn)
        else if f3 = 4 then accept ir (B_op Rv_xnor)
        else reject ir)
     else reject ir)"

definition op_op :: "rv_insn \<Rightarrow> u32 \<Rightarrow> rv_insn \<times> bool" where
  [op_defs]: "op_op i0 insn =
    (let ir = decode_rtype i0 insn in
     if rd ir = rv_reg_zero then accept ir (I_op Rv_nop)
     else
       let f3 = (ucast (decode_funct3 insn) :: u8); f7 = decode_funct7 insn in
       if f7 = 0 then op_op_base ir f3
       else if f7 = 1 then op_op_m ir f3
       else op_op_b ir f7 f3)"

definition op_lui :: "rv_insn \<Rightarrow> u32 \<Rightarrow> rv_insn \<times> bool" where
  [op_defs]: "op_lui i0 insn =
    (let ir = decode_utype i0 insn in
     if rd ir = rv_reg_zero then accept ir (I_op Rv_nop)
     else accept ir (I_op Rv_lui))"

definition op_branch :: "rv_insn \<Rightarrow> u32 \<Rightarrow> rv_insn \<times> bool" where
  [op_defs]: "op_branch i0 insn =
    (let ir = decode_btype i0 insn; f3 = decode_funct3 insn in
     if f3 = 0 then accept ir (I_op Rv_beq)
     else if f3 = 1 then accept ir (I_op Rv_bne)
     else if f3 = 4 then accept ir (I_op Rv_blt)
     else if f3 = 5 then accept ir (I_op Rv_bge)
     else if f3 = 6 then accept ir (I_op Rv_bltu)
     else if f3 = 7 then accept ir (I_op Rv_bgeu)
     else reject ir)"

definition op_jalr :: "rv_insn \<Rightarrow> u32 \<Rightarrow> rv_insn \<times> bool" where
  [op_defs]: "op_jalr i0 insn = accept (decode_itype i0 insn) (I_op Rv_jalr)"

definition op_jal :: "rv_insn \<Rightarrow> u32 \<Rightarrow> rv_insn \<times> bool" where
  [op_defs]: "op_jal i0 insn = accept (decode_jtype i0 insn) (I_op Rv_jal)"

definition csr_is_writable :: "u32 \<Rightarrow> bool" where
  [op_defs]: "csr_is_writable csr \<longleftrightarrow> csr < 0xC00"

text \<open>
  \<^verbatim>\<open>op_system\<close> ends with the write check on every accepted encoding; its argument is the
  immediate, which the I-type decoder has sign-extended.
\<close>

definition op_system_opcode :: "rv_insn \<Rightarrow> u32 \<Rightarrow> opcode option" where
  [op_defs]: "op_system_opcode ir insn =
    (let f3 = decode_funct3 insn in
     if f3 = 0 then
       (if shr insn 25 = 0x09 then Some (S_op Rv_sfencevma)
        else if imm ir = 0 then Some (I_op Rv_ecall)
        else if imm ir = 1 then Some (I_op Rv_ebreak)
        else if imm ir = 0x105 then Some (S_op Rv_wfi)
        else if imm ir = 0x002 \<or> imm ir = 0x202 then None
        else if imm ir = 0x302 then Some (S_op Rv_mret)
        else None)
     else if f3 = 1 then Some (S_op Rv_csrrw)
     else if f3 = 2 then Some (S_op Rv_csrrs)
     else if f3 = 3 then Some (S_op Rv_csrrc)
     else if f3 = 5 then Some (S_op Rv_csrrwi)
     else if f3 = 6 then Some (S_op Rv_csrrsi)
     else if f3 = 7 then Some (S_op Rv_csrrci)
     else None)"

definition op_system :: "rv_insn \<Rightarrow> u32 \<Rightarrow> rv_insn \<times> bool" where
  [op_defs]: "op_system i0 insn =
    (let ir = decode_itype i0 insn in
     case op_system_opcode ir insn of
       None \<Rightarrow> reject ir
     | Some c \<Rightarrow> (ir\<lparr>opcode := c\<rparr>, csr_is_writable (imm ir) \<or> rs1 ir = rv_reg_zero))"

definition op_misc_mem :: "rv_insn \<Rightarrow> u32 \<Rightarrow> rv_insn \<times> bool" where
  [op_defs]: "op_misc_mem ir insn =
    (let f3 = decode_funct3 insn in
     if f3 = 0 then accept ir (I_op Rv_fence)
     else if f3 = 1 then accept ir (S_op Rv_fencei)
     else reject ir)"

definition op_amo :: "rv_insn \<Rightarrow> u32 \<Rightarrow> rv_insn \<times> bool" where
  [op_defs]: "op_amo i0 insn =
    (let ir = decode_rtype i0 insn; f5 = shr (decode_funct7 insn) 2 AND 0x1F in
     if f5 = 0x02 then accept ir (A_op Rv_lrw)
     else if f5 = 0x03 then accept ir (A_op Rv_scw)
     else if f5 = 0x01 then accept ir (A_op Rv_amoswapw)
     else if f5 = 0x00 then accept ir (A_op Rv_amoaddw)
     else if f5 = 0x04 then accept ir (A_op Rv_amoxorw)
     else if f5 = 0x0C then accept ir (A_op Rv_amoandw)
     else if f5 = 0x08 then accept ir (A_op Rv_amoorw)
     else if f5 = 0x10 then accept ir (A_op Rv_amominw)
     else if f5 = 0x14 then accept ir (A_op Rv_amomaxw)
     else if f5 = 0x18 then accept ir (A_op Rv_amominuw)
     else if f5 = 0x1C then accept ir (A_op Rv_amomaxuw)
     else reject ir)"

definition op_load_fp :: "rv_insn \<Rightarrow> u32 \<Rightarrow> rv_insn \<times> bool" where
  [op_defs]: "op_load_fp i0 insn = accept (decode_itype i0 insn) (F_op Rv_flw)"

definition op_store_fp :: "rv_insn \<Rightarrow> u32 \<Rightarrow> rv_insn \<times> bool" where
  [op_defs]: "op_store_fp i0 insn = accept (decode_stype i0 insn) (F_op Rv_fsw)"

definition op_op_fp :: "rv_insn \<Rightarrow> u32 \<Rightarrow> rv_insn \<times> bool" where
  [op_defs]: "op_op_fp i0 insn =
    (let ir = decode_rtype (i0\<lparr>rm := ucast (decode_funct3 insn)\<rparr>) insn; f7 = decode_funct7 insn in
     if f7 = 0x00 then accept ir (F_op Rv_fadds)
     else if f7 = 0x04 then accept ir (F_op Rv_fsubs)
     else if f7 = 0x08 then accept ir (F_op Rv_fmuls)
     else if f7 = 0x0C then accept ir (F_op Rv_fdivs)
     else if f7 = 0x2C then accept ir (F_op Rv_fsqrts)
     else if f7 = 0x10 then
       (if rm ir = 0 then accept ir (F_op Rv_fsgnjs)
        else if rm ir = 1 then accept ir (F_op Rv_fsgnjns)
        else if rm ir = 2 then accept ir (F_op Rv_fsgnjxs)
        else reject ir)
     else if f7 = 0x60 then
       (if rs2 ir = 0 then accept ir (F_op Rv_fcvtws)
        else if rs2 ir = 1 then accept ir (F_op Rv_fcvtwus)
        else reject ir)
     else if f7 = 0x14 then
       (if rm ir = 0 then accept ir (F_op Rv_fmins)
        else if rm ir = 1 then accept ir (F_op Rv_fmaxs)
        else reject ir)
     else if f7 = 0x70 then
       (if rm ir = 0 then accept ir (F_op Rv_fmvxw)
        else if rm ir = 1 then accept ir (F_op Rv_fclasss)
        else reject ir)
     else if f7 = 0x50 then
       (if rm ir = 2 then accept ir (F_op Rv_feqs)
        else if rm ir = 1 then accept ir (F_op Rv_flts)
        else if rm ir = 0 then accept ir (F_op Rv_fles)
        else reject ir)
     else if f7 = 0x68 then
       (if rs2 ir = 0 then accept ir (F_op Rv_fcvtsw)
        else if rs2 ir = 1 then accept ir (F_op Rv_fcvtswu)
        else reject ir)
     else if f7 = 0x78 then accept ir (F_op Rv_fmvwx)
     else reject ir)"

definition op_madd :: "rv_insn \<Rightarrow> u32 \<Rightarrow> rv_insn \<times> bool" where
  [op_defs]: "op_madd i0 insn = accept (decode_r4type i0 insn) (F_op Rv_fmadds)"

definition op_msub :: "rv_insn \<Rightarrow> u32 \<Rightarrow> rv_insn \<times> bool" where
  [op_defs]: "op_msub i0 insn = accept (decode_r4type i0 insn) (F_op Rv_fmsubs)"

definition op_nmadd :: "rv_insn \<Rightarrow> u32 \<Rightarrow> rv_insn \<times> bool" where
  [op_defs]: "op_nmadd i0 insn = accept (decode_r4type i0 insn) (F_op Rv_fnmadds)"

definition op_nmsub :: "rv_insn \<Rightarrow> u32 \<Rightarrow> rv_insn \<times> bool" where
  [op_defs]: "op_nmsub i0 insn = accept (decode_r4type i0 insn) (F_op Rv_fnmsubs)"

section \<open>Major opcodes of 16-bit instructions\<close>

definition op_caddi :: "rv_insn \<Rightarrow> u32 \<Rightarrow> rv_insn \<times> bool" where
  [op_defs]: "op_caddi i0 insn =
    (let ir = i0\<lparr>rd := ucast (c_decode_rd (ucast insn))\<rparr> in
     if rd ir = 0 then accept ir (C_op Rv_cnop)
     else accept (ir\<lparr>imm := c_decode_citype_imm (ucast insn)\<rparr>) (C_op Rv_caddi))"

definition op_caddi4spn :: "rv_insn \<Rightarrow> u32 \<Rightarrow> rv_insn \<times> bool" where
  [op_defs]: "op_caddi4spn i0 insn =
    (let ir = i0\<lparr>imm := ucast (c_decode_caddi4spn_nzuimm (ucast insn)),
                  rd := ucast (c_decode_rdc (ucast insn) OR 0x08)\<rparr> in
     if imm ir = 0 then reject ir else accept ir (C_op Rv_caddi4spn))"

definition op_cli :: "rv_insn \<Rightarrow> u32 \<Rightarrow> rv_insn \<times> bool" where
  [op_defs]: "op_cli i0 insn =
    accept (i0\<lparr>imm := c_decode_citype_imm (ucast insn), rd := ucast (c_decode_rd (ucast insn))\<rparr>)
      (C_op Rv_cli)"

definition op_clui :: "rv_insn \<Rightarrow> u32 \<Rightarrow> rv_insn \<times> bool" where
  [op_defs]: "op_clui i0 insn =
    (let ir = i0\<lparr>rd := ucast (c_decode_rd (ucast insn))\<rparr> in
     if rd ir = 0 then accept ir (C_op Rv_cnop)
     else if rd ir = 2 then
       (let ir = ir\<lparr>imm := c_decode_caddi16sp_nzimm (ucast insn)\<rparr> in
        if imm ir = 0 then reject ir else accept ir (C_op Rv_caddi16sp))
     else
       (let ir = ir\<lparr>imm := c_decode_clui_nzimm (ucast insn)\<rparr> in
        if imm ir = 0 then reject ir else accept ir (C_op Rv_clui)))"

text \<open>
  The decoder's result: the updated instruction and its verdict, or the abort of a failed
  \<^verbatim>\<open>assert\<close> (the build never defines \<^verbatim>\<open>NDEBUG\<close>). Only \<^verbatim>\<open>op_cmisc_alu\<close> can abort.
\<close>

datatype decode_result = Decoded rv_insn bool | Aborted

fun decoded :: "rv_insn \<times> bool \<Rightarrow> decode_result" where
  "decoded (ir, b) = Decoded ir b"

definition op_cmisc_alu :: "rv_insn \<Rightarrow> u32 \<Rightarrow> decode_result" where
  [op_defs]: "op_cmisc_alu i0 insn =
    (let f2 = (ucast (shr (insn AND 0x0C00) 10) :: u8) in
     if f2 = 0 then
       (let ir = i0\<lparr>shamt := c_decode_cbtype_shamt (ucast insn),
                     rs1 := ucast (c_decode_rs1c (ucast insn) OR 0x08)\<rparr> in
        if shamt ir AND 0x20 \<noteq> 0 then Decoded ir False
        else Decoded (ir\<lparr>opcode := if rs1 ir = 0 \<or> shamt ir = 0 then C_op Rv_cnop
                                    else C_op Rv_csrli\<rparr>) True)
     else if f2 = 1 then
       (let ir = i0\<lparr>shamt := c_decode_cbtype_shamt (ucast insn),
                     rs1 := ucast (c_decode_rs1 (ucast insn))\<rparr> in
        if shamt ir AND 0x20 \<noteq> 0 then Decoded ir False
        else Decoded (ir\<lparr>opcode := C_op Rv_csrai\<rparr>) True)
     else if f2 = 2 then
       Decoded (i0\<lparr>rs1 := ucast (c_decode_rs1c (ucast insn) OR 0x08),
                    imm := c_decode_caddi_imm (ucast insn),
                    opcode := C_op Rv_candi\<rparr>) True
     else
       (let ir = i0\<lparr>rs1 := ucast (c_decode_rs1c (ucast insn) OR 0x08),
                     rs2 := ucast (c_decode_rs2c (ucast insn) OR 0x08)\<rparr>;
            ir = ir\<lparr>rd := rs1 ir\<rparr>;
            k = shr (insn AND 0x1000) 10 OR shr (insn AND 0x0060) 5 in
        if k = 0 then Decoded (ir\<lparr>opcode := C_op Rv_csub\<rparr>) True
        else if k = 1 then Decoded (ir\<lparr>opcode := C_op Rv_cxor\<rparr>) True
        else if k = 2 then Decoded (ir\<lparr>opcode := C_op Rv_cor\<rparr>) True
        else if k = 3 then Decoded (ir\<lparr>opcode := C_op Rv_cand\<rparr>) True
        else Aborted))"

definition op_cslli :: "rv_insn \<Rightarrow> u32 \<Rightarrow> rv_insn \<times> bool" where
  [op_defs]: "op_cslli i0 insn =
    (let tmp = 0;
         tmp = tmp OR shr (insn AND 0x1000) 7;
         tmp = tmp OR shr (insn AND 0x7C) 2;
         ir = i0\<lparr>imm := tmp, rd := ucast (c_decode_rd (ucast insn))\<rparr> in
     accept ir (if rd ir \<noteq> 0 then C_op Rv_cslli else C_op Rv_cnop))"

text \<open>The offsets of the 16-bit loads and stores are assembled in a \<^verbatim>\<open>uint16_t\<close> or \<^verbatim>\<open>uint32_t\<close>.\<close>

definition op_clwsp :: "rv_insn \<Rightarrow> u32 \<Rightarrow> rv_insn \<times> bool" where
  [op_defs]: "op_clwsp i0 insn =
    (let tmp = (0 :: u16);
         tmp = tmp OR ucast (shr (insn AND 0x70) 2);
         tmp = tmp OR ucast (shl (insn AND 0x0C) 4);
         tmp = tmp OR ucast (shr (insn AND 0x1000) 7);
         ir = i0\<lparr>imm := ucast tmp, rd := ucast (c_decode_rd (ucast insn))\<rparr> in
     accept ir (if rd ir \<noteq> 0 then C_op Rv_clwsp else C_op Rv_cnop))"

definition op_cswsp :: "rv_insn \<Rightarrow> u32 \<Rightarrow> rv_insn \<times> bool" where
  [op_defs]: "op_cswsp i0 insn =
    accept (i0\<lparr>imm := shr (insn AND 0x1E00) 7 OR shr (insn AND 0x180) 1,
                rs2 := ucast (c_decode_rs2 (ucast insn))\<rparr>) (C_op Rv_cswsp)"

definition op_clw :: "rv_insn \<Rightarrow> u32 \<Rightarrow> rv_insn \<times> bool" where
  [op_defs]: "op_clw i0 insn =
    (let tmp = (0 :: u16);
         tmp = tmp OR ucast (shr (insn AND 0x40) 4);
         tmp = tmp OR ucast (shr (insn AND 0x1C00) 7);
         tmp = tmp OR ucast (shl (insn AND 0x20) 1) in
     accept (i0\<lparr>imm := ucast tmp, rd := ucast (c_decode_rdc (ucast insn) OR 0x08),
                 rs1 := ucast (c_decode_rs1c (ucast insn) OR 0x08)\<rparr>) (C_op Rv_clw))"

definition op_csw :: "rv_insn \<Rightarrow> u32 \<Rightarrow> rv_insn \<times> bool" where
  [op_defs]: "op_csw i0 insn =
    (let tmp = 0;
         tmp = tmp OR shr (insn AND 0x40) 4;
         tmp = tmp OR shr (insn AND 0x1C00) 7;
         tmp = tmp OR shl (insn AND 0x20) 1 in
     accept (i0\<lparr>imm := tmp, rs1 := ucast (c_decode_rs1c (ucast insn) OR 0x08),
                 rs2 := ucast (c_decode_rs2c (ucast insn) OR 0x08)\<rparr>) (C_op Rv_csw))"

definition op_cj :: "rv_insn \<Rightarrow> u32 \<Rightarrow> rv_insn \<times> bool" where
  [op_defs]: "op_cj i0 insn =
    accept (i0\<lparr>imm := c_decode_cjtype_imm (ucast insn)\<rparr>) (C_op Rv_cj)"

definition op_cjal :: "rv_insn \<Rightarrow> u32 \<Rightarrow> rv_insn \<times> bool" where
  [op_defs]: "op_cjal i0 insn =
    accept (i0\<lparr>imm := sign_extend_h (c_decode_cjtype_imm (ucast insn))\<rparr>) (C_op Rv_cjal)"

definition op_ccr :: "rv_insn \<Rightarrow> u32 \<Rightarrow> rv_insn \<times> bool" where
  [op_defs]: "op_ccr i0 insn =
    (let ir = i0\<lparr>rs1 := ucast (c_decode_rs1 (ucast insn)),
                  rs2 := ucast (c_decode_rs2 (ucast insn))\<rparr>;
         ir = ir\<lparr>rd := rs1 ir\<rparr> in
     if shr (insn AND 0x1000) 12 = 0 then
       (if rs2 ir = 0 then
          (if rs1 ir = 0 then reject ir else accept ir (C_op Rv_cjr))
        else accept ir (if rd ir \<noteq> 0 then C_op Rv_cmv else C_op Rv_cnop))
     else if rs1 ir = 0 \<and> rs2 ir = 0 then accept ir (I_op Rv_ebreak)
     else if rs1 ir \<noteq> 0 \<and> rs2 ir \<noteq> 0 then
       accept ir (if rd ir \<noteq> 0 then C_op Rv_cadd else C_op Rv_cnop)
     else if rs1 ir \<noteq> 0 \<and> rs2 ir = 0 then accept ir (C_op Rv_cjalr)
     else accept ir (C_op Rv_cnop))"

definition op_cbeqz :: "rv_insn \<Rightarrow> u32 \<Rightarrow> rv_insn \<times> bool" where
  [op_defs]: "op_cbeqz i0 insn =
    accept (i0\<lparr>imm := sign_extend_h (ucast (c_decode_cbtype_imm (ucast insn))),
                rs1 := ucast (c_decode_rs1c (ucast insn) OR 0x08)\<rparr>) (C_op Rv_cbeqz)"

definition op_cbnez :: "rv_insn \<Rightarrow> u32 \<Rightarrow> rv_insn \<times> bool" where
  [op_defs]: "op_cbnez i0 insn =
    accept (i0\<lparr>imm := sign_extend_h (ucast (c_decode_cbtype_imm (ucast insn))),
                rs1 := ucast (c_decode_rs1c (ucast insn) OR 0x08)\<rparr>) (C_op Rv_cbnez)"

definition op_cflwsp :: "rv_insn \<Rightarrow> u32 \<Rightarrow> rv_insn \<times> bool" where
  [op_defs]: "op_cflwsp i0 insn =
    (let tmp = (0 :: u16);
         tmp = tmp OR ucast (shr (insn AND 0x70) 2);
         tmp = tmp OR ucast (shl (insn AND 0x0C) 4);
         tmp = tmp OR ucast (shr (insn AND 0x1000) 7) in
     accept (i0\<lparr>imm := ucast tmp, rd := ucast (c_decode_rd (ucast insn))\<rparr>) (C_op Rv_cflwsp))"

definition op_cfswsp :: "rv_insn \<Rightarrow> u32 \<Rightarrow> rv_insn \<times> bool" where
  [op_defs]: "op_cfswsp i0 insn =
    accept (i0\<lparr>imm := shr (insn AND 0x1E00) 7 OR shr (insn AND 0x180) 1,
                rs2 := ucast (c_decode_rs2 (ucast insn))\<rparr>) (C_op Rv_cfswsp)"

definition op_cflw :: "rv_insn \<Rightarrow> u32 \<Rightarrow> rv_insn \<times> bool" where
  [op_defs]: "op_cflw i0 insn =
    (let tmp = (0 :: u16);
         tmp = tmp OR ucast (shr (insn AND 0x40) 4);
         tmp = tmp OR ucast (shr (insn AND 0x1C00) 7);
         tmp = tmp OR ucast (shl (insn AND 0x20) 1) in
     accept (i0\<lparr>imm := ucast tmp, rd := ucast (c_decode_rdc (ucast insn) OR 0x08),
                 rs1 := ucast (c_decode_rs1c (ucast insn) OR 0x08)\<rparr>) (C_op Rv_cflw))"

definition op_cfsw :: "rv_insn \<Rightarrow> u32 \<Rightarrow> rv_insn \<times> bool" where
  [op_defs]: "op_cfsw i0 insn =
    (let tmp = 0;
         tmp = tmp OR shr (insn AND 0x40) 4;
         tmp = tmp OR shr (insn AND 0x1C00) 7;
         tmp = tmp OR shl (insn AND 0x20) 1 in
     accept (i0\<lparr>imm := tmp, rs1 := ucast (c_decode_rs1c (ucast insn) OR 0x08),
                 rs2 := ucast (c_decode_rs2c (ucast insn) OR 0x08)\<rparr>) (C_op Rv_cfsw))"

definition op_unimp :: "rv_insn \<Rightarrow> u32 \<Rightarrow> rv_insn \<times> bool" where
  [op_defs]: "op_unimp ir insn = (ir, False)"

section \<open>The jump tables and rv\_decode\<close>

type_synonym decode_t = "rv_insn \<Rightarrow> u32 \<Rightarrow> decode_result"

text \<open>\<open>OP f\<close>: the table entry of a decoder that cannot abort.\<close>

definition OP :: "(rv_insn \<Rightarrow> u32 \<Rightarrow> rv_insn \<times> bool) \<Rightarrow> decode_t" where
  "OP f = (\<lambda>ir insn. decoded (f ir insn))"

definition rv_jump_table :: "decode_t list" where
  "rv_jump_table =
   [OP op_load,   OP op_load_fp,  OP op_unimp, OP op_misc_mem, OP op_op_imm, OP op_auipc, OP op_unimp, OP op_unimp,
    OP op_store,  OP op_store_fp, OP op_unimp, OP op_amo,      OP op_op,     OP op_lui,   OP op_unimp, OP op_unimp,
    OP op_madd,   OP op_msub,     OP op_nmsub, OP op_nmadd,    OP op_op_fp,  OP op_unimp, OP op_unimp, OP op_unimp,
    OP op_branch, OP op_jalr,     OP op_unimp, OP op_jal,      OP op_system, OP op_unimp, OP op_unimp, OP op_unimp]"

definition rvc_jump_table :: "decode_t list" where
  "rvc_jump_table =
   [OP op_caddi4spn, OP op_caddi,  OP op_cslli,  OP op_unimp,
    OP op_unimp,     OP op_cjal,   OP op_unimp,  OP op_unimp,
    OP op_clw,       OP op_cli,    OP op_clwsp,  OP op_unimp,
    OP op_cflw,      OP op_clui,   OP op_cflwsp, OP op_unimp,
    OP op_unimp,     op_cmisc_alu, OP op_ccr,    OP op_unimp,
    OP op_unimp,     OP op_cj,     OP op_unimp,  OP op_unimp,
    OP op_csw,       OP op_cbeqz,  OP op_cswsp,  OP op_unimp,
    OP op_cfsw,      OP op_cbnez,  OP op_cfswsp, OP op_unimp]"

definition rv_decode :: "rv_insn \<Rightarrow> u32 \<Rightarrow> decode_result" where
  "rv_decode ir insn =
    (if is_compressed insn then
       (let insn = insn AND 0x0000FFFF;
            c_index = (ucast (shr (insn AND 0xE000) 11 OR (insn AND 0x3)) :: u16)
        in (rvc_jump_table ! unat c_index) ir insn)
     else
       (let index = shr (insn AND 0x7C) 2
        in (rv_jump_table ! unat index) ir insn))"

end
