(* ===== verification/Trap.thy ===== *)
theory Trap
  imports Memory Decode
begin

unbundle bit_operations_syntax

text \<open>
  Traps of the user-mode build (\<^verbatim>\<open>emulate.c\<close>): raising a trap
  (\<^verbatim>\<open>SET_CAUSE_AND_TVAL_THEN_TRAP\<close>), \<^verbatim>\<open>_trap_handler\<close>, the default handler that emulates
  misaligned accesses when no vector is configured, and the \<^verbatim>\<open>ebreak\<close>, \<^verbatim>\<open>ecall\<close>, \<^verbatim>\<open>memset\<close> and
  \<^verbatim>\<open>memcpy\<close> callbacks.

  The default handler decodes the faulting instruction again, so it can run into the
  decoder's abort: the functions return \<^const>\<open>None\<close> when the process is aborted.
\<close>

section \<open>Codes\<close>

abbreviation (input) ILLEGAL_INSN :: u32 where "ILLEGAL_INSN \<equiv> 2"
abbreviation (input) BREAKPOINT :: u32 where "BREAKPOINT \<equiv> 3"
abbreviation (input) LOAD_MISALIGNED :: u32 where "LOAD_MISALIGNED \<equiv> 4"
abbreviation (input) STORE_MISALIGNED :: u32 where "STORE_MISALIGNED \<equiv> 6"
abbreviation (input) ECALL_M :: u32 where "ECALL_M \<equiv> 11"

abbreviation (input) MSTATUS_MIE :: u32 where "MSTATUS_MIE \<equiv> 8"
abbreviation (input) MSTATUS_MPIE :: u32 where "MSTATUS_MPIE \<equiv> 0x80"
abbreviation (input) MSTATUS_MPP :: u32 where "MSTATUS_MPP \<equiv> 0x1800"
abbreviation (input) SSTATUS_SIE :: u32 where "SSTATUS_SIE \<equiv> 2"
abbreviation (input) SSTATUS_SPIE :: u32 where "SSTATUS_SPIE \<equiv> 0x20"
abbreviation (input) SSTATUS_SPP :: u32 where "SSTATUS_SPP \<equiv> 0x100"

definition RV_PRIV_IS_U_OR_S_MODE :: "riscv \<Rightarrow> bool" where
  "RV_PRIV_IS_U_OR_S_MODE rv \<longleftrightarrow> priv_mode rv \<le> RV_PRIV_S_MODE"

section \<open>Misaligned accesses\<close>

text \<open>The byte loops \<^verbatim>\<open>value |= read_b(addr + i) << (i * 8)\<close> and \<^verbatim>\<open>write_b(addr + i, value >> (i * 8))\<close>.\<close>

definition read_b_loop :: "riscv \<Rightarrow> u32 \<Rightarrow> nat list \<Rightarrow> u32" where
  "read_b_loop rv addr is =
    fold (\<lambda>i value. value OR shl (ucast (mem_read_b rv (addr + of_nat i))) (i * 8)) is 0"

definition write_b_loop :: "riscv \<Rightarrow> u32 \<Rightarrow> u32 \<Rightarrow> nat list \<Rightarrow> riscv" where
  "write_b_loop rv addr value is =
    fold (\<lambda>i rv. mem_write_b rv (addr + of_nat i) (ucast (shr value (i * 8) AND 0xFF))) is rv"

definition emulate_misaligned_load :: "riscv \<Rightarrow> rv_insn \<Rightarrow> u32 \<Rightarrow> riscv \<times> bool" where
  "emulate_misaligned_load rv ir addr =
    (if opcode ir = I_op Rv_lw \<or> opcode ir = C_op Rv_clw \<or> opcode ir = C_op Rv_clwsp then
       (if addr AND 1 = 0 then
          (let value = ucast (mem_read_s rv addr);
               value = value OR shl (ucast (mem_read_s rv (addr + 2))) 16
           in (set_X (rd ir) value rv, True))
        else (set_X (rd ir) (read_b_loop rv addr [0,1,2,3]) rv, True))
     else if opcode ir = I_op Rv_lh then
       (set_X (rd ir) (sign_extend_h (read_b_loop rv addr [0,1])) rv, True)
     else if opcode ir = I_op Rv_lhu then
       (set_X (rd ir) (read_b_loop rv addr [0,1]) rv, True)
     else (rv, False))"

definition emulate_misaligned_store :: "riscv \<Rightarrow> rv_insn \<Rightarrow> u32 \<Rightarrow> riscv \<times> bool" where
  "emulate_misaligned_store rv ir addr =
    (if opcode ir = I_op Rv_sw \<or> opcode ir = C_op Rv_csw \<or> opcode ir = C_op Rv_cswsp then
       (let value = X rv (rs2 ir) in
        if addr AND 1 = 0 then
          (let rv = mem_write_s rv addr (ucast (value AND 0xFFFF));
               rv = mem_write_s rv (addr + 2) (ucast (shr value 16 AND 0xFFFF))
           in (rv, True))
        else (write_b_loop rv addr value [0,1,2,3], True))
     else if opcode ir = I_op Rv_sh then
       (write_b_loop rv addr (X rv (rs2 ir)) [0,1], True)
     else (rv, False))"

text \<open>
  Both exits of the default handler advance \<^verbatim>\<open>mepc\<close> past the instruction and continue
  there; they differ in whether the access was emulated.
\<close>

definition skip_insn :: "riscv \<Rightarrow> riscv" where
  "skip_insn rv =
    (let rv = rv\<lparr>csr_mepc := csr_mepc rv + (if compressed rv then 2 else 4)\<rparr>
     in rv\<lparr>PC := csr_mepc rv\<rparr>)"

definition rv_trap_default_handler :: "riscv \<Rightarrow> riscv option" where
  "rv_trap_default_handler rv =
    (let cause = csr_mcause rv; tval = csr_mtval rv; insn_addr = csr_mepc rv in
     if cause = LOAD_MISALIGNED \<or> cause = STORE_MISALIGNED then
       (let insn = mem_ifetch rv insn_addr in
        if insn = 0 then Some (skip_insn rv)
        else case rv_decode ir0 insn of
          Aborted \<Rightarrow> None
        | Decoded ir ok \<Rightarrow>
            (if \<not> ok then Some (skip_insn rv)
             else
               (let (rv', handled) =
                  (if cause = LOAD_MISALIGNED then emulate_misaligned_load rv ir tval
                   else emulate_misaligned_store rv ir tval)
                in if handled then Some (skip_insn rv') else Some (skip_insn rv'))))
     else Some (skip_insn rv))"

section \<open>Entering a trap\<close>

definition trap_enter_s :: "riscv \<Rightarrow> riscv" where
  "trap_enter_s rv =
    (let sstatus_sie = shr (csr_sstatus rv AND SSTATUS_SIE) 1;
         rv = rv\<lparr>csr_sstatus := csr_sstatus rv OR shl sstatus_sie 5\<rparr>;
         rv = rv\<lparr>csr_sstatus := csr_sstatus rv AND NOT SSTATUS_SIE\<rparr>;
         rv = rv\<lparr>csr_sstatus := csr_sstatus rv OR shl (priv_mode rv) 8\<rparr>;
         rv = rv\<lparr>priv_mode := RV_PRIV_S_MODE\<rparr>
     in rv\<lparr>csr_sepc := PC rv\<rparr>)"

definition trap_enter_m :: "riscv \<Rightarrow> riscv" where
  "trap_enter_m rv =
    (let mstatus_mie = shr (csr_mstatus rv AND MSTATUS_MIE) 3;
         rv = rv\<lparr>csr_mstatus := csr_mstatus rv OR shl mstatus_mie 7\<rparr>;
         rv = rv\<lparr>csr_mstatus := csr_mstatus rv AND NOT MSTATUS_MIE\<rparr>;
         rv = rv\<lparr>csr_mstatus := csr_mstatus rv OR shl (priv_mode rv) 11\<rparr>;
         rv = rv\<lparr>priv_mode := RV_PRIV_M_MODE\<rparr>
     in rv\<lparr>csr_mepc := PC rv\<rparr>)"

text \<open>The switch on the vector mode; modes 2 and 3 have no case and leave the PC.\<close>

definition trap_vector :: "riscv \<Rightarrow> u32 \<Rightarrow> u32 \<Rightarrow> u32 \<Rightarrow> riscv" where
  "trap_vector rv base mode cause =
    (if mode = 0 then rv\<lparr>PC := base\<rparr>
     else if mode = 1 then rv\<lparr>PC := base + 4 * (cause AND 0x7FFFFFFF)\<rparr>
     else rv)"

definition trap_handler :: "riscv \<Rightarrow> riscv option" where
  "trap_handler rv =
    (if RV_PRIV_IS_U_OR_S_MODE rv then
       (let rv = trap_enter_s rv
        in Some (trap_vector rv (csr_stvec rv AND NOT 0x3) (csr_stvec rv AND 0x3) (csr_scause rv)))
     else
       (let rv = trap_enter_m rv in
        if csr_mtvec rv = 0 then rv_trap_default_handler rv
        else Some (trap_vector rv (csr_mtvec rv AND NOT 0x3) (csr_mtvec rv AND 0x3) (csr_mcause rv))))"

definition set_cause_and_tval :: "riscv \<Rightarrow> u32 \<Rightarrow> u32 \<Rightarrow> riscv" where
  "set_cause_and_tval rv cause tval =
    (if RV_PRIV_IS_U_OR_S_MODE rv then rv\<lparr>csr_scause := cause, csr_stval := tval\<rparr>
     else rv\<lparr>csr_mcause := cause, csr_mtval := tval\<rparr>)"

definition SET_CAUSE_AND_TVAL_THEN_TRAP :: "riscv \<Rightarrow> u32 \<Rightarrow> u32 \<Rightarrow> riscv option" where
  "SET_CAUSE_AND_TVAL_THEN_TRAP rv cause tval = trap_handler (set_cause_and_tval rv cause tval)"

section \<open>Callbacks\<close>

definition ebreak_handler :: "riscv \<Rightarrow> riscv option" where
  "ebreak_handler rv = SET_CAUSE_AND_TVAL_THEN_TRAP rv BREAKPOINT (PC rv)"

text \<open>\<^verbatim>\<open>syscall_handler\<close> (\<^verbatim>\<open>syscall.c\<close>, host I/O) is a parameter.\<close>

definition ecall_handler :: "(riscv \<Rightarrow> riscv) \<Rightarrow> riscv \<Rightarrow> riscv option" where
  "ecall_handler syscall_handler rv =
    map_option syscall_handler (SET_CAUSE_AND_TVAL_THEN_TRAP rv ECALL_M 0)"

definition memset_handler :: "riscv \<Rightarrow> riscv option" where
  "memset_handler rv =
    (let dest = X rv rv_reg_a0; value = X rv rv_reg_a1; count = X rv rv_reg_a2 in
     if ucast dest \<ge> mem_size rv \<or> ucast count > mem_size rv - (ucast dest :: u64) then
       SET_CAUSE_AND_TVAL_THEN_TRAP rv STORE_MISALIGNED dest
     else
       (let rv = rv\<lparr>mem_base := memcpy_to (mem_base rv) (unat dest)
                      (replicate (unat count) (ucast value))\<rparr>
        in Some (rv\<lparr>PC := X rv rv_reg_ra AND NOT 1\<rparr>)))"

text \<open>
  Overlapping ranges are undefined for the host's \<^verbatim>\<open>memcpy\<close>; the model copies the source as it
  was before the call.
\<close>

definition memcpy_handler :: "riscv \<Rightarrow> riscv option" where
  "memcpy_handler rv =
    (let dest = X rv rv_reg_a0; src = X rv rv_reg_a1; count = X rv rv_reg_a2 in
     if ucast dest \<ge> mem_size rv \<or> ucast count > mem_size rv - (ucast dest :: u64) then
       SET_CAUSE_AND_TVAL_THEN_TRAP rv STORE_MISALIGNED dest
     else if ucast src \<ge> mem_size rv \<or> ucast count > mem_size rv - (ucast src :: u64) then
       SET_CAUSE_AND_TVAL_THEN_TRAP rv LOAD_MISALIGNED src
     else
       (let rv = rv\<lparr>mem_base := memcpy_to (mem_base rv) (unat dest)
                      (memcpy_from (mem_base rv) (unat src) (unat count))\<rparr>
        in Some (rv\<lparr>PC := X rv rv_reg_ra AND NOT 1\<rparr>)))"

lemmas trap_defs = trap_handler_def set_cause_and_tval_def SET_CAUSE_AND_TVAL_THEN_TRAP_def
  trap_enter_m_def trap_enter_s_def trap_vector_def RV_PRIV_IS_U_OR_S_MODE_def

section \<open>The emulation is the direct access\<close>

text \<open>
  Where the access stays below the top of the address space, the byte and half-word
  emulation reads and writes what the direct access would have.
\<close>

lemma read_b_loop_4:
  assumes "unat addr + 4 \<le> 2 ^ 32"
  shows "read_b_loop rv addr [0,1,2,3] = mem_read_w rv addr"
  unfolding io.read_w_bytes [OF assms] by (simp add: read_b_loop_def or.assoc)

lemma read_b_loop_2:
  assumes "unat addr + 2 \<le> 2 ^ 32"
  shows "read_b_loop rv addr [0,1] = ucast (mem_read_s rv addr)"
  unfolding io.read_s_bytes [OF assms]
  by (simp add: read_b_loop_def) (rule word32_eqI, simp add: bit_simps bit_beyond)

lemma ucast_and_FF: "(ucast (w AND 0xFF :: u32) :: u8) = ucast w"
  "(ucast (w AND 0xFFFF) :: u16) = ucast w"
  by (rule word8_eqI, simp add: bit_simps) (rule word16_eqI, simp add: bit_simps)

lemma write_b_loop_4:
  assumes "unat addr + 4 \<le> 2 ^ 32"
  shows "write_b_loop rv addr v [0,1,2,3] = mem_write_w rv addr v"
  unfolding io.write_w_bytes [OF assms] by (simp add: write_b_loop_def ucast_and_FF)

lemma write_b_loop_2:
  assumes "unat addr + 2 \<le> 2 ^ 32"
  shows "write_b_loop rv addr v [0,1] = mem_write_s rv addr (ucast v)"
proof -
  have "(ucast (ucast v :: u16) :: u8) = ucast v"
    "(ucast (shr (ucast v :: u16) 8) :: u8) = ucast (shr v 8)"
    by (rule word8_eqI, simp add: bit_simps)+
  then show ?thesis
    unfolding io.write_s_bytes [OF assms] by (simp add: write_b_loop_def ucast_and_FF)
qed

end
