(* ===== verification/Csr.thy ===== *)
theory Csr
  imports Rv_Types
begin

unbundle bit_operations_syntax

text \<open>
  Control and status registers (\<^verbatim>\<open>emulate.c\<close>): \<^verbatim>\<open>csr_get_ptr\<close> returns a pointer to the 32-bit
  cell that holds a CSR, or \<^verbatim>\<open>NULL\<close>; the three read-modify-write functions read and write
  through it. A pointer is a value of \<open>csr_ptr\<close>, one constructor per cell: \<^verbatim>\<open>CSR_CYCLE\<close> and
  \<^verbatim>\<open>CSR_INSTRET\<close> are two names of the same cell, and so are \<^verbatim>\<open>CSR_FFLAGS\<close> and \<^verbatim>\<open>CSR_FCSR\<close>.
  The host clock is a parameter: \<open>host_time n\<close> is the value of \<^verbatim>\<open>rv_gettimeofday\<close> in
  microseconds when the instruction with cycle count \<open>n\<close> reads it.
\<close>

datatype csr_ptr =
    P_mstatus | P_mtvec | P_misa | P_medeleg | P_mideleg | P_mscratch | P_mepc | P_mcause | P_mtval | P_mip
  | P_cycle_lo | P_cycle_hi | P_time_lo | P_time_hi | P_fcsr
  | P_sstatus | P_sie | P_stvec | P_scounteren | P_sscratch | P_sepc | P_scause | P_stval | P_sip | P_satp

fun csr_load :: "csr_ptr \<Rightarrow> riscv \<Rightarrow> u32" where
  "csr_load P_mstatus rv = csr_mstatus rv"
| "csr_load P_mtvec rv = csr_mtvec rv"
| "csr_load P_misa rv = csr_misa rv"
| "csr_load P_medeleg rv = csr_medeleg rv"
| "csr_load P_mideleg rv = csr_mideleg rv"
| "csr_load P_mscratch rv = csr_mscratch rv"
| "csr_load P_mepc rv = csr_mepc rv"
| "csr_load P_mcause rv = csr_mcause rv"
| "csr_load P_mtval rv = csr_mtval rv"
| "csr_load P_mip rv = csr_mip rv"
| "csr_load P_fcsr rv = csr_fcsr rv"
| "csr_load P_sstatus rv = csr_sstatus rv"
| "csr_load P_sie rv = csr_sie rv"
| "csr_load P_stvec rv = csr_stvec rv"
| "csr_load P_scounteren rv = csr_scounteren rv"
| "csr_load P_sscratch rv = csr_sscratch rv"
| "csr_load P_sepc rv = csr_sepc rv"
| "csr_load P_scause rv = csr_scause rv"
| "csr_load P_stval rv = csr_stval rv"
| "csr_load P_sip rv = csr_sip rv"
| "csr_load P_satp rv = csr_satp rv"
| "csr_load P_cycle_lo rv = ucast (csr_cycle rv)"
| "csr_load P_cycle_hi rv = ucast (shr (csr_cycle rv) 32)"
| "csr_load P_time_lo rv = csr_time_lo rv"
| "csr_load P_time_hi rv = csr_time_hi rv"

fun csr_store :: "csr_ptr \<Rightarrow> u32 \<Rightarrow> riscv \<Rightarrow> riscv" where
  "csr_store P_mstatus v rv = rv\<lparr>csr_mstatus := v\<rparr>"
| "csr_store P_mtvec v rv = rv\<lparr>csr_mtvec := v\<rparr>"
| "csr_store P_misa v rv = rv\<lparr>csr_misa := v\<rparr>"
| "csr_store P_medeleg v rv = rv\<lparr>csr_medeleg := v\<rparr>"
| "csr_store P_mideleg v rv = rv\<lparr>csr_mideleg := v\<rparr>"
| "csr_store P_mscratch v rv = rv\<lparr>csr_mscratch := v\<rparr>"
| "csr_store P_mepc v rv = rv\<lparr>csr_mepc := v\<rparr>"
| "csr_store P_mcause v rv = rv\<lparr>csr_mcause := v\<rparr>"
| "csr_store P_mtval v rv = rv\<lparr>csr_mtval := v\<rparr>"
| "csr_store P_mip v rv = rv\<lparr>csr_mip := v\<rparr>"
| "csr_store P_fcsr v rv = rv\<lparr>csr_fcsr := v\<rparr>"
| "csr_store P_sstatus v rv = rv\<lparr>csr_sstatus := v\<rparr>"
| "csr_store P_sie v rv = rv\<lparr>csr_sie := v\<rparr>"
| "csr_store P_stvec v rv = rv\<lparr>csr_stvec := v\<rparr>"
| "csr_store P_scounteren v rv = rv\<lparr>csr_scounteren := v\<rparr>"
| "csr_store P_sscratch v rv = rv\<lparr>csr_sscratch := v\<rparr>"
| "csr_store P_sepc v rv = rv\<lparr>csr_sepc := v\<rparr>"
| "csr_store P_scause v rv = rv\<lparr>csr_scause := v\<rparr>"
| "csr_store P_stval v rv = rv\<lparr>csr_stval := v\<rparr>"
| "csr_store P_sip v rv = rv\<lparr>csr_sip := v\<rparr>"
| "csr_store P_satp v rv = rv\<lparr>csr_satp := v\<rparr>"
| "csr_store P_cycle_lo v rv = rv\<lparr>csr_cycle := (csr_cycle rv AND 0xFFFFFFFF00000000) OR ucast v\<rparr>"
| "csr_store P_cycle_hi v rv = rv\<lparr>csr_cycle := (csr_cycle rv AND 0xFFFFFFFF) OR shl (ucast v) 32\<rparr>"
| "csr_store P_time_lo v rv = rv\<lparr>csr_time_lo := v\<rparr>"
| "csr_store P_time_hi v rv = rv\<lparr>csr_time_hi := v\<rparr>"

definition update_time :: "(u64 \<Rightarrow> u64) \<Rightarrow> riscv \<Rightarrow> riscv" where
  "update_time host_time rv =
    (let rv = rv\<lparr>timer := host_time (csr_cycle rv)\<rparr>
     in rv\<lparr>csr_time_lo := ucast (timer rv AND 0xFFFFFFFF), csr_time_hi := ucast (shr (timer rv) 32)\<rparr>)"

definition csr_get_ptr :: "(u64 \<Rightarrow> u64) \<Rightarrow> riscv \<Rightarrow> u32 \<Rightarrow> riscv \<times> csr_ptr option" where
  "csr_get_ptr host_time rv csr =
    (let c = csr AND 0xFFF in
     if c = 0x300 then (rv, Some P_mstatus)
     else if c = 0x305 then (rv, Some P_mtvec)
     else if c = 0x301 then (rv, Some P_misa)
     else if c = 0x302 then (rv, Some P_medeleg)
     else if c = 0x303 then (rv, Some P_mideleg)
     else if c = 0x340 then (rv, Some P_mscratch)
     else if c = 0x341 then (rv, Some P_mepc)
     else if c = 0x342 then (rv, Some P_mcause)
     else if c = 0x343 then (rv, Some P_mtval)
     else if c = 0x344 then (rv, Some P_mip)
     else if c = 0xC00 then (rv, Some P_cycle_lo)
     else if c = 0xC80 then (rv, Some P_cycle_hi)
     else if c = 0xC01 then (update_time host_time rv, Some P_time_lo)
     else if c = 0xC81 then (update_time host_time rv, Some P_time_hi)
     else if c = 0xC02 then (rv, Some P_cycle_lo)
     else if c = 0xC82 then (rv, Some P_cycle_hi)
     else if c = 0x001 then (rv, Some P_fcsr)
     else if c = 0x003 then (rv, Some P_fcsr)
     else if c = 0x100 then (rv, Some P_sstatus)
     else if c = 0x104 then (rv, Some P_sie)
     else if c = 0x105 then (rv, Some P_stvec)
     else if c = 0x106 then (rv, Some P_scounteren)
     else if c = 0x140 then (rv, Some P_sscratch)
     else if c = 0x141 then (rv, Some P_sepc)
     else if c = 0x142 then (rv, Some P_scause)
     else if c = 0x143 then (rv, Some P_stval)
     else if c = 0x144 then (rv, Some P_sip)
     else if c = 0x180 then (rv, Some P_satp)
     else (rv, None))"

definition csr_sync_cycle :: "riscv \<Rightarrow> u32 \<Rightarrow> u64 \<Rightarrow> riscv" where
  "csr_sync_cycle rv csr cycle =
    (if csr AND 0xFFF \<in> {0xC00, 0xC80, 0xC02, 0xC82, 0xC01, 0xC81}
     then (if csr_cycle rv \<noteq> cycle then rv\<lparr>csr_cycle := cycle\<rparr> else rv) else rv)"

abbreviation (input) FFLAG_MASK :: u32 where "FFLAG_MASK \<equiv> 0x1F"
abbreviation (input) CSR_FFLAGS :: u32 where "CSR_FFLAGS \<equiv> 1"

definition csr_csrrw :: "(u64 \<Rightarrow> u64) \<Rightarrow> riscv \<Rightarrow> u32 \<Rightarrow> u32 \<Rightarrow> u64 \<Rightarrow> riscv \<times> u32" where
  "csr_csrrw host_time rv csr val cycle =
    (let rv = csr_sync_cycle rv csr cycle in
     case csr_get_ptr host_time rv csr of
       (rv, None) \<Rightarrow> (rv, 0)
     | (rv, Some c) \<Rightarrow>
         (let out = csr_load c rv;
              out = (if csr = CSR_FFLAGS then out AND FFLAG_MASK else out)
          in (csr_store c (val) rv, out)))"

definition csr_csrrs :: "(u64 \<Rightarrow> u64) \<Rightarrow> riscv \<Rightarrow> u32 \<Rightarrow> u32 \<Rightarrow> u64 \<Rightarrow> riscv \<times> u32" where
  "csr_csrrs host_time rv csr val cycle =
    (let rv = csr_sync_cycle rv csr cycle in
     case csr_get_ptr host_time rv csr of
       (rv, None) \<Rightarrow> (rv, 0)
     | (rv, Some c) \<Rightarrow>
         (let out = csr_load c rv;
              out = (if csr = CSR_FFLAGS then out AND FFLAG_MASK else out)
          in (csr_store c (csr_load c rv OR val) rv, out)))"

definition csr_csrrc :: "(u64 \<Rightarrow> u64) \<Rightarrow> riscv \<Rightarrow> u32 \<Rightarrow> u32 \<Rightarrow> u64 \<Rightarrow> riscv \<times> u32" where
  "csr_csrrc host_time rv csr val cycle =
    (let rv = csr_sync_cycle rv csr cycle in
     case csr_get_ptr host_time rv csr of
       (rv, None) \<Rightarrow> (rv, 0)
     | (rv, Some c) \<Rightarrow>
         (let out = csr_load c rv;
              out = (if csr = CSR_FFLAGS then out AND FFLAG_MASK else out)
          in (csr_store c (csr_load c rv AND NOT val) rv, out)))"

section \<open>Cells\<close>

lemma csr_load_store [simp]: "csr_load c (csr_store c v rv) = v"
proof (cases c)
  case P_cycle_lo
  have "(ucast (csr_cycle rv AND 0xFFFFFFFF00000000 OR ucast v) :: u32) = v"
    by (rule word32_eqI) (simp add: bit_simps)
  with P_cycle_lo show ?thesis by simp
next
  case P_cycle_hi
  have "(ucast (shr (csr_cycle rv AND 0xFFFFFFFF OR shl (ucast v) 32) 32) :: u32) = v"
    by (rule word32_eqI) (simp add: bit_simps)
  with P_cycle_hi show ?thesis by simp
qed simp_all

lemma csr_load_store_other: "c \<noteq> d \<Longrightarrow> csr_load c (csr_store d v rv) = csr_load c rv"
proof -
  have "(ucast (csr_cycle rv AND 0xFFFFFFFF OR shl (ucast v) 32) :: u32) = ucast (csr_cycle rv)"
    "(ucast (shr (csr_cycle rv AND 0xFFFFFFFF00000000 OR ucast v) 32) :: u32) =
     ucast (shr (csr_cycle rv) 32)"
    by (rule word32_eqI, simp add: bit_simps bit_beyond)+
  then show "c \<noteq> d \<Longrightarrow> csr_load c (csr_store d v rv) = csr_load c rv"
    by (cases c; cases d) simp_all
qed

text \<open>The CSR functions change neither the integer registers nor the memory.\<close>

lemma csr_store_frame [simp]:
  "X (csr_store c v rv) = X rv" "mem_base (csr_store c v rv) = mem_base rv"
  "PC (csr_store c v rv) = PC rv" "halt (csr_store c v rv) = halt rv"
  by (cases c; simp)+

lemma csr_get_ptr_frame:
  "csr_get_ptr ht rv csr = (rv', p) \<Longrightarrow>
   X rv' = X rv \<and> mem_base rv' = mem_base rv \<and> PC rv' = PC rv \<and> halt rv' = halt rv"
  by (auto simp: csr_get_ptr_def update_time_def Let_def split: if_splits)

end
