(* ===== verification/Softfp.thy ===== *)
theory Softfp
  imports Rv_Types
begin

unbundle bit_operations_syntax

text \<open>
  The floating-point glue of \<^verbatim>\<open>softfp.h\<close> (classification, accrued flags, rounding mode) and the
  comparisons of the SoftFloat library the handlers call. Its rounding arithmetic is in theory Softfloat.
\<close>

abbreviation (input) FMASK_SIGN :: u32 where "FMASK_SIGN \<equiv> 0x80000000"
abbreviation (input) FMASK_EXPN :: u32 where "FMASK_EXPN \<equiv> 0x7F800000"
abbreviation (input) FMASK_FRAC :: u32 where "FMASK_FRAC \<equiv> 0x007FFFFF"
abbreviation (input) FMASK_QNAN :: u32 where "FMASK_QNAN \<equiv> 0x00400000"
abbreviation (input) FFLAG_INVALID_OP :: u32 where "FFLAG_INVALID_OP \<equiv> 16"
abbreviation (input) FFLAG_DIV_BY_ZERO :: u32 where "FFLAG_DIV_BY_ZERO \<equiv> 8"
abbreviation (input) FFLAG_OVERFLOW :: u32 where "FFLAG_OVERFLOW \<equiv> 4"
abbreviation (input) FFLAG_UNDERFLOW :: u32 where "FFLAG_UNDERFLOW \<equiv> 2"
abbreviation (input) FFLAG_INEXACT :: u32 where "FFLAG_INEXACT \<equiv> 1"
abbreviation (input) RV_NAN :: u32 where "RV_NAN \<equiv> 0x7FC00000"

section \<open>softfp.h\<close>

definition calc_fclass :: "u32 \<Rightarrow> u32" where
  "calc_fclass f =
    (let sign = f AND FMASK_SIGN; expn = f AND FMASK_EXPN; frac = f AND FMASK_FRAC in
     if expn \<noteq> 0 then
       (if expn \<noteq> FMASK_EXPN then (if sign \<noteq> 0 then 0x002 else 0x040)
        else if frac \<noteq> 0 then (if frac AND FMASK_QNAN \<noteq> 0 then 0x200 else 0x100)
        else if sign = 0 then 0x080
        else 0x001)
     else if frac \<noteq> 0 then (if sign \<noteq> 0 then 0x004 else 0x020)
     else (if sign \<noteq> 0 then 0x008 else 0x010))"

definition is_nan :: "u32 \<Rightarrow> bool" where
  "is_nan f \<longleftrightarrow> f AND FMASK_EXPN = FMASK_EXPN \<and> f AND FMASK_FRAC \<noteq> 0"

definition set_fflag :: "riscv \<Rightarrow> riscv" where
  "set_fflag rv =
    (let fl = softfloat_exceptionFlags rv;
         or_if = (\<lambda>b m rv. if b then rv\<lparr>csr_fcsr := csr_fcsr rv OR m\<rparr> else rv);
         rv = or_if (fl AND 16 \<noteq> 0) FFLAG_INVALID_OP rv;
         rv = or_if (fl AND 8 \<noteq> 0) FFLAG_DIV_BY_ZERO rv;
         rv = or_if (fl AND 4 \<noteq> 0) FFLAG_OVERFLOW rv;
         rv = or_if (fl AND 2 \<noteq> 0) FFLAG_UNDERFLOW rv;
         rv = or_if (fl AND 1 \<noteq> 0) FFLAG_INEXACT rv
     in rv\<lparr>softfloat_exceptionFlags := 0\<rparr>)"

text \<open>\<^const>\<open>None\<close>: the \<^verbatim>\<open>__UNREACHABLE\<close> default, undefined behaviour of the emulator.\<close>

definition set_rounding_mode :: "riscv \<Rightarrow> u8 \<Rightarrow> riscv option" where
  "set_rounding_mode rv rm0 =
    (let frm = shr (csr_fcsr rv) 5 AND NOT 8;
         rm = (if rm0 = 7 then ucast frm else rm0) in
     if rm = 0 then Some (rv\<lparr>softfloat_roundingMode := 0\<rparr>)
     else if rm = 1 then Some (rv\<lparr>softfloat_roundingMode := 1\<rparr>)
     else if rm = 2 then Some (rv\<lparr>softfloat_roundingMode := 2\<rparr>)
     else if rm = 3 then Some (rv\<lparr>softfloat_roundingMode := 3\<rparr>)
     else if rm = 4 then Some (rv\<lparr>softfloat_roundingMode := 4\<rparr>)
     else None)"

section \<open>SoftFloat comparisons\<close>

definition softfloat_raiseFlags :: "u8 \<Rightarrow> riscv \<Rightarrow> riscv" where
  "softfloat_raiseFlags fl rv = rv\<lparr>softfloat_exceptionFlags := softfloat_exceptionFlags rv OR fl\<rparr>"

definition isNaNF32UI :: "u32 \<Rightarrow> bool" where
  "isNaNF32UI a \<longleftrightarrow> NOT a AND 0x7F800000 = 0 \<and> a AND 0x007FFFFF \<noteq> 0"

definition softfloat_isSigNaNF32UI :: "u32 \<Rightarrow> bool" where
  "softfloat_isSigNaNF32UI a \<longleftrightarrow> a AND 0x7FC00000 = 0x7F800000 \<and> a AND 0x003FFFFF \<noteq> 0"

definition signF32UI :: "u32 \<Rightarrow> bool" where
  "signF32UI a \<longleftrightarrow> shr a 31 \<noteq> 0"

definition f32_isSignalingNaN :: "u32 \<Rightarrow> bool" where
  "f32_isSignalingNaN a = softfloat_isSigNaNF32UI a"

definition f32_eq :: "riscv \<Rightarrow> u32 \<Rightarrow> u32 \<Rightarrow> riscv \<times> bool" where
  "f32_eq rv a b =
    (if isNaNF32UI a \<or> isNaNF32UI b then
       ((if softfloat_isSigNaNF32UI a \<or> softfloat_isSigNaNF32UI b
         then softfloat_raiseFlags 16 rv else rv), False)
     else (rv, a = b \<or> shl (a OR b) 1 = 0))"

definition f32_lt :: "riscv \<Rightarrow> u32 \<Rightarrow> u32 \<Rightarrow> riscv \<times> bool" where
  "f32_lt rv a b =
    (if isNaNF32UI a \<or> isNaNF32UI b then (softfloat_raiseFlags 16 rv, False)
     else
       let signA = signF32UI a; signB = signF32UI b in
       (rv, if signA \<noteq> signB then signA \<and> shl (a OR b) 1 \<noteq> 0
            else a \<noteq> b \<and> signA \<noteq> (a < b)))"

definition f32_le :: "riscv \<Rightarrow> u32 \<Rightarrow> u32 \<Rightarrow> riscv \<times> bool" where
  "f32_le rv a b =
    (if isNaNF32UI a \<or> isNaNF32UI b then (softfloat_raiseFlags 16 rv, False)
     else
       let signA = signF32UI a; signB = signF32UI b in
       (rv, if signA \<noteq> signB then signA \<or> shl (a OR b) 1 = 0
            else a = b \<or> signA \<noteq> (a < b)))"

definition f32_lt_quiet :: "riscv \<Rightarrow> u32 \<Rightarrow> u32 \<Rightarrow> riscv \<times> bool" where
  "f32_lt_quiet rv a b =
    (if isNaNF32UI a \<or> isNaNF32UI b then
       ((if softfloat_isSigNaNF32UI a \<or> softfloat_isSigNaNF32UI b
         then softfloat_raiseFlags 16 rv else rv), False)
     else
       let signA = signF32UI a; signB = signF32UI b in
       (rv, if signA \<noteq> signB then signA \<and> shl (a OR b) 1 \<noteq> 0
            else a \<noteq> b \<and> signA \<noteq> (a < b)))"

lemmas softfp_defs = set_fflag_def set_rounding_mode_def softfloat_raiseFlags_def
  f32_eq_def f32_lt_def f32_le_def f32_lt_quiet_def

text \<open>The accrued flags: the five low bits of SoftFloat's flags, which are then cleared.\<close>

lemma or_if_flag: "(if b then rv\<lparr>csr_fcsr := csr_fcsr rv OR m\<rparr> else rv) =
    rv\<lparr>csr_fcsr := csr_fcsr rv OR (if b then m else 0)\<rparr>"
  by simp

lemma and_flag: "(fl AND 16 \<noteq> 0) = bit fl 4" "(fl AND 8 \<noteq> 0) = bit fl 3" "(fl AND 4 \<noteq> 0) = bit fl 2"
  "(fl AND 2 \<noteq> 0) = bit fl 1" "(fl AND 1 \<noteq> 0) = bit fl 0" for fl :: u8
  using and_exp_eq_0 [of fl 4] and_exp_eq_0 [of fl 3] and_exp_eq_0 [of fl 2] and_exp_eq_0 [of fl 1]
    and_exp_eq_0 [of fl 0] by simp_all

lemma set_fflag_eq:
  "set_fflag rv = rv\<lparr>csr_fcsr := csr_fcsr rv OR ucast (softfloat_exceptionFlags rv AND 0x1F),
     softfloat_exceptionFlags := 0\<rparr>"
proof -
  let ?f = "softfloat_exceptionFlags rv"
  have "(((((w OR (if bit ?f 4 then 16 else 0)) OR (if bit ?f 3 then 8 else 0)) OR
      (if bit ?f 2 then 4 else 0)) OR (if bit ?f 1 then 2 else 0)) OR (if bit ?f 0 then 1 else 0)) =
    w OR ucast (?f AND 0x1F)" for w :: u32
    by (rule word32_eqI) (simp add: bit_simps bit_beyond)
  then show ?thesis
    unfolding set_fflag_def Let_def or_if_flag and_flag by simp
qed

end
