(* ===== verification/Softfloat.thy ===== *)
theory Softfloat
  imports Softfp
begin

unbundle bit_operations_syntax

text \<open>
  The single-precision arithmetic of the SoftFloat library the handlers call, in the configuration of
  the build: the RISC-V specialisation, 64-bit integers, the 64-by-32-bit division, tininess detected after
  rounding. Each function takes the global rounding mode and returns the result and the exception
  flags it raises, which the library ORs into its global.

  \<^verbatim>\<open>uint_fast32_t\<close> and \<^verbatim>\<open>uint_fast64_t\<close> are 64 bits wide on the host. Exponents and shift counts (\<^verbatim>\<open>int_fast16_t\<close>,
  \<^verbatim>\<open>int_fast8_t\<close>) are integers; the narrowings the code makes of them are written out.
\<close>

section \<open>Primitives\<close>

definition softfloat_shiftRightJam32 :: "u32 \<Rightarrow> nat \<Rightarrow> u32" where
  "softfloat_shiftRightJam32 a dist =
    (if dist < 31 then shr a dist OR (if shl a ((32 - dist) mod 32) \<noteq> 0 then 1 else 0) else if a \<noteq> 0 then 1 else 0)"

definition softfloat_shiftRightJam64 :: "u64 \<Rightarrow> nat \<Rightarrow> u64" where
  "softfloat_shiftRightJam64 a dist =
    (if dist < 63 then shr a dist OR (if shl a ((64 - dist) mod 64) \<noteq> 0 then 1 else 0) else if a \<noteq> 0 then 1 else 0)"

definition softfloat_shortShiftRightJam64 :: "u64 \<Rightarrow> nat \<Rightarrow> u64" where
  "softfloat_shortShiftRightJam64 a dist = shr a dist OR (if a AND (shl 1 dist - 1) \<noteq> 0 then 1 else 0)"

definition softfloat_countLeadingZeros8 :: "nat list" where
  "softfloat_countLeadingZeros8 = [8, 7] @ replicate 2 6 @ replicate 4 5 @ replicate 8 4 @ replicate 16 3 @
     replicate 32 2 @ replicate 64 1 @ replicate 128 0"

definition softfloat_countLeadingZeros32 :: "u32 \<Rightarrow> nat" where
  "softfloat_countLeadingZeros32 a =
    (let (count, a) = (if a < 0x10000 then (16, shl a 16) else (0, a));
         (count, a) = (if a < 0x1000000 then (count + 8, shl a 8) else (count, a))
     in count + softfloat_countLeadingZeros8 ! unat (shr a 24))"

definition softfloat_countLeadingZeros64 :: "u64 \<Rightarrow> nat" where
  "softfloat_countLeadingZeros64 a =
    (let a32 = ucast (shr a 32) :: u32;
         (count, a32) = (if a32 = 0 then (32, ucast a) else (0, a32));
         (count, a32) = (if a32 < 0x10000 then (count + 16, shl a32 16) else (count, a32));
         (count, a32) = (if a32 < 0x1000000 then (count + 8, shl a32 8) else (count, a32))
     in count + softfloat_countLeadingZeros8 ! unat (shr a32 24))"

section \<open>Fields\<close>

definition expF32UI :: "u32 \<Rightarrow> int" where
  "expF32UI a = uint (shr a 23 AND 0xFF)"

definition fracF32UI :: "u32 \<Rightarrow> u64" where
  "fracF32UI a = ucast (a AND 0x007FFFFF)"

definition packToF32UI :: "bool \<Rightarrow> int \<Rightarrow> u64 \<Rightarrow> u32" where
  "packToF32UI sign exp sig = shl (if sign then 1 else 0) 31 + shl (word_of_int exp) 23 + ucast sig"

abbreviation (input) defaultNaNF32UI :: u32 where "defaultNaNF32UI \<equiv> 0x7FC00000"
abbreviation (input) round_near_even :: u8 where "round_near_even \<equiv> 0"
abbreviation (input) round_min :: u8 where "round_min \<equiv> 2"
abbreviation (input) round_max :: u8 where "round_max \<equiv> 3"
abbreviation (input) round_near_maxMag :: u8 where "round_near_maxMag \<equiv> 4"
abbreviation (input) round_odd :: u8 where "round_odd \<equiv> 6"
abbreviation (input) flag_inexact :: u8 where "flag_inexact \<equiv> 1"
abbreviation (input) flag_underflow :: u8 where "flag_underflow \<equiv> 2"
abbreviation (input) flag_overflow :: u8 where "flag_overflow \<equiv> 4"
abbreviation (input) flag_infinite :: u8 where "flag_infinite \<equiv> 8"
abbreviation (input) flag_invalid :: u8 where "flag_invalid \<equiv> 16"

definition softfloat_propagateNaNF32UI :: "u32 \<Rightarrow> u32 \<Rightarrow> u32 \<times> u8" where
  "softfloat_propagateNaNF32UI uiA uiB =
    (defaultNaNF32UI, if softfloat_isSigNaNF32UI uiA \<or> softfloat_isSigNaNF32UI uiB then flag_invalid else 0)"

definition softfloat_normSubnormalF32Sig :: "u64 \<Rightarrow> int \<times> u64" where
  "softfloat_normSubnormalF32Sig sig =
    (let shiftDist = int (softfloat_countLeadingZeros32 (ucast sig)) - 8 in (1 - shiftDist, shl sig (nat shiftDist)))"

section \<open>Rounding\<close>

text \<open>The end of \<^verbatim>\<open>softfloat_roundPackToF32\<close>: \<open>fl\<close> are the flags raised before.\<close>

definition roundPack_tail :: "u8 \<Rightarrow> bool \<Rightarrow> int \<Rightarrow> u64 \<Rightarrow> u8 \<Rightarrow> u8 \<Rightarrow> u8 \<Rightarrow> u32 \<times> u8" where
  "roundPack_tail roundingMode sign exp sig roundIncrement roundBits fl =
    (let roundNearEven = (roundingMode = round_near_even);
         sig = shr (sig + ucast roundIncrement) 7;
         fl = (if roundBits \<noteq> 0 then fl OR flag_inexact else fl) in
     if roundBits \<noteq> 0 \<and> roundingMode = round_odd then (packToF32UI sign exp (sig OR 1), fl)
     else
       (let sig = sig AND NOT (if roundBits XOR 0x40 = 0 \<and> roundNearEven then 1 else 0);
            exp = (if sig = 0 then 0 else exp)
        in (packToF32UI sign exp sig, fl)))"

definition softfloat_roundPackToF32 :: "u8 \<Rightarrow> bool \<Rightarrow> int \<Rightarrow> u64 \<Rightarrow> u32 \<times> u8" where
  "softfloat_roundPackToF32 roundingMode sign exp sig =
    (let roundNearEven = (roundingMode = round_near_even);
         roundIncrement =
           (if \<not> roundNearEven \<and> roundingMode \<noteq> round_near_maxMag
            then (if roundingMode = (if sign then round_min else round_max) then 0x7F else 0) else 0x40);
         roundBits = ucast (sig AND 0x7F) in
     if 0xFD \<le> (word_of_int exp :: u32) then
       (if exp < 0 then
          (let isTiny = exp < - 1 \<or> sig + ucast roundIncrement < 0x80000000;
               sig = ucast (softfloat_shiftRightJam32 (ucast sig) (nat (- exp)));
               roundBits = ucast (sig AND 0x7F)
           in roundPack_tail roundingMode sign 0 sig roundIncrement roundBits
                (if isTiny \<and> roundBits \<noteq> 0 then flag_underflow else 0))
        else if 0xFD < exp \<or> 0x80000000 \<le> sig + ucast roundIncrement then
          (packToF32UI sign 0xFF 0 - (if roundIncrement = 0 then 1 else 0), flag_overflow OR flag_inexact)
        else roundPack_tail roundingMode sign exp sig roundIncrement roundBits 0)
     else roundPack_tail roundingMode sign exp sig roundIncrement roundBits 0)"

definition softfloat_normRoundPackToF32 :: "u8 \<Rightarrow> bool \<Rightarrow> int \<Rightarrow> u64 \<Rightarrow> u32 \<times> u8" where
  "softfloat_normRoundPackToF32 roundingMode sign exp sig =
    (let shiftDist = int (softfloat_countLeadingZeros32 (ucast sig)) - 1;
         exp = exp - shiftDist in
     if 7 \<le> shiftDist \<and> (word_of_int exp :: u32) < 0xFD
     then (packToF32UI sign (if sig \<noteq> 0 then exp else 0) (shl sig (nat (shiftDist - 7))), 0)
     else softfloat_roundPackToF32 roundingMode sign exp (shl sig (nat shiftDist)))"

section \<open>Addition and subtraction\<close>

definition softfloat_addMagsF32 :: "u8 \<Rightarrow> u32 \<Rightarrow> u32 \<Rightarrow> u32 \<times> u8" where
  "softfloat_addMagsF32 roundingMode uiA uiB =
    (let expA = expF32UI uiA; sigA = fracF32UI uiA; expB = expF32UI uiB; sigB = fracF32UI uiB;
         expDiff = expA - expB; signZ = signF32UI uiA in
     if expDiff = 0 then
       (if expA = 0 then (uiA + ucast sigB, 0)
        else if expA = 0xFF then
          (if sigA OR sigB \<noteq> 0 then softfloat_propagateNaNF32UI uiA uiB else (uiA, 0))
        else
          (let expZ = expA; sigZ = 0x01000000 + sigA + sigB in
           if sigZ AND 1 = 0 \<and> expZ < 0xFE then (packToF32UI signZ expZ (shr sigZ 1), 0)
           else softfloat_roundPackToF32 roundingMode signZ expZ (shl sigZ 6)))
     else
       (let sigA = shl sigA 6; sigB = shl sigB 6;
            finish = (\<lambda>expZ sigA sigB.
              let sigZ = 0x20000000 + sigA + sigB in
              if sigZ < 0x40000000 then softfloat_roundPackToF32 roundingMode signZ (expZ - 1) (shl sigZ 1)
              else softfloat_roundPackToF32 roundingMode signZ expZ sigZ) in
        if expDiff < 0 then
          (if expB = 0xFF then
             (if sigB \<noteq> 0 then softfloat_propagateNaNF32UI uiA uiB else (packToF32UI signZ 0xFF 0, 0))
           else
             (let sigA = sigA + (if expA \<noteq> 0 then 0x20000000 else sigA)
              in finish expB (ucast (softfloat_shiftRightJam32 (ucast sigA) (nat (- expDiff)))) sigB))
        else
          (if expA = 0xFF then
             (if sigA \<noteq> 0 then softfloat_propagateNaNF32UI uiA uiB else (uiA, 0))
           else
             (let sigB = sigB + (if expB \<noteq> 0 then 0x20000000 else sigB)
              in finish expA sigA (ucast (softfloat_shiftRightJam32 (ucast sigB) (nat expDiff)))))))"

definition softfloat_subMagsF32 :: "u8 \<Rightarrow> u32 \<Rightarrow> u32 \<Rightarrow> u32 \<times> u8" where
  "softfloat_subMagsF32 roundingMode uiA uiB =
    (let expA = expF32UI uiA; sigA = fracF32UI uiA; expB = expF32UI uiB; sigB = fracF32UI uiB;
         expDiff = expA - expB in
     if expDiff = 0 then
       (if expA = 0xFF then
          (if sigA OR sigB \<noteq> 0 then softfloat_propagateNaNF32UI uiA uiB else (defaultNaNF32UI, flag_invalid))
        else
          (let sigDiff = sigA - sigB in
           if sigDiff = 0 then (packToF32UI (roundingMode = round_min) 0 0, 0)
           else
             (let expA = (if expA \<noteq> 0 then expA - 1 else expA);
                  signZ = signF32UI uiA;
                  (signZ, sigDiff) = (if sigDiff <s 0 then (\<not> signZ, - sigDiff) else (signZ, sigDiff));
                  shiftDist = int (softfloat_countLeadingZeros32 (ucast sigDiff)) - 8;
                  expZ = expA - shiftDist;
                  (shiftDist, expZ) = (if expZ < 0 then (expA, 0) else (shiftDist, expZ))
              in (packToF32UI signZ expZ (shl sigDiff (nat shiftDist)), 0))))
     else
       (let signZ = signF32UI uiA; sigA = shl sigA 7; sigB = shl sigB 7 in
        if expDiff < 0 then
          (let signZ = (\<not> signZ) in
           if expB = 0xFF then
             (if sigB \<noteq> 0 then softfloat_propagateNaNF32UI uiA uiB else (packToF32UI signZ 0xFF 0, 0))
           else
             (let expZ = expB - 1; sigX = sigB OR 0x40000000;
                  sigY = sigA + (if expA \<noteq> 0 then 0x40000000 else sigA)
              in softfloat_normRoundPackToF32 roundingMode signZ expZ
                   (sigX - ucast (softfloat_shiftRightJam32 (ucast sigY) (nat (- expDiff))))))
        else
          (if expA = 0xFF then
             (if sigA \<noteq> 0 then softfloat_propagateNaNF32UI uiA uiB else (uiA, 0))
           else
             (let expZ = expA - 1; sigX = sigA OR 0x40000000;
                  sigY = sigB + (if expB \<noteq> 0 then 0x40000000 else sigB)
              in softfloat_normRoundPackToF32 roundingMode signZ expZ
                   (sigX - ucast (softfloat_shiftRightJam32 (ucast sigY) (nat expDiff)))))))"

definition f32_add :: "u8 \<Rightarrow> u32 \<Rightarrow> u32 \<Rightarrow> u32 \<times> u8" where
  "f32_add roundingMode uiA uiB =
    (if signF32UI (uiA XOR uiB) then softfloat_subMagsF32 roundingMode uiA uiB
     else softfloat_addMagsF32 roundingMode uiA uiB)"

definition f32_sub :: "u8 \<Rightarrow> u32 \<Rightarrow> u32 \<Rightarrow> u32 \<times> u8" where
  "f32_sub roundingMode uiA uiB =
    (if signF32UI (uiA XOR uiB) then softfloat_addMagsF32 roundingMode uiA uiB
     else softfloat_subMagsF32 roundingMode uiA uiB)"

section \<open>Multiplication and division\<close>

text \<open>Both normalise subnormal operands first; \<^verbatim>\<open>None\<close> stands for the jump to the label \<^verbatim>\<open>zero\<close>.\<close>

definition norm_operand :: "int \<Rightarrow> u64 \<Rightarrow> (int \<times> u64) option" where
  "norm_operand exp sig =
    (if exp = 0 then (if sig = 0 then None else Some (softfloat_normSubnormalF32Sig sig)) else Some (exp, sig))"

definition f32_mul :: "u8 \<Rightarrow> u32 \<Rightarrow> u32 \<Rightarrow> u32 \<times> u8" where
  "f32_mul roundingMode uiA uiB =
    (let signA = signF32UI uiA; expA = expF32UI uiA; sigA = fracF32UI uiA;
         signB = signF32UI uiB; expB = expF32UI uiB; sigB = fracF32UI uiB;
         signZ = (signA \<noteq> signB);
         propagateNaN = softfloat_propagateNaNF32UI uiA uiB;
         infArg = (\<lambda>magBits. if \<not> magBits then (defaultNaNF32UI, flag_invalid) else (packToF32UI signZ 0xFF 0, 0));
         zero = (packToF32UI signZ 0 0, 0) in
     if expA = 0xFF then
       (if sigA \<noteq> 0 \<or> expB = 0xFF \<and> sigB \<noteq> 0 then propagateNaN else infArg (expB \<noteq> 0 \<or> sigB \<noteq> 0))
     else if expB = 0xFF then
       (if sigB \<noteq> 0 then propagateNaN else infArg (expA \<noteq> 0 \<or> sigA \<noteq> 0))
     else
       (case norm_operand expA sigA of
          None \<Rightarrow> zero
        | Some (expA, sigA) \<Rightarrow>
            (case norm_operand expB sigB of
               None \<Rightarrow> zero
             | Some (expB, sigB) \<Rightarrow>
                 (let expZ = expA + expB - 0x7F;
                      sigA = shl (sigA OR 0x00800000) 7;
                      sigB = shl (sigB OR 0x00800000) 8;
                      sigZ = softfloat_shortShiftRightJam64 (sigA * sigB) 32 in
                  if sigZ < 0x40000000 then softfloat_roundPackToF32 roundingMode signZ (expZ - 1) (shl sigZ 1)
                  else softfloat_roundPackToF32 roundingMode signZ expZ sigZ))))"

definition f32_div :: "u8 \<Rightarrow> u32 \<Rightarrow> u32 \<Rightarrow> u32 \<times> u8" where
  "f32_div roundingMode uiA uiB =
    (let signA = signF32UI uiA; expA = expF32UI uiA; sigA = fracF32UI uiA;
         signB = signF32UI uiB; expB = expF32UI uiB; sigB = fracF32UI uiB;
         signZ = (signA \<noteq> signB);
         propagateNaN = softfloat_propagateNaNF32UI uiA uiB;
         invalid = (defaultNaNF32UI, flag_invalid);
         infinity = packToF32UI signZ 0xFF 0;
         zero = (packToF32UI signZ 0 0, 0) in
     if expA = 0xFF then
       (if sigA \<noteq> 0 then propagateNaN
        else if expB = 0xFF then (if sigB \<noteq> 0 then propagateNaN else invalid)
        else (infinity, 0))
     else if expB = 0xFF then
       (if sigB \<noteq> 0 then propagateNaN else zero)
     else
       (case norm_operand expB sigB of
          None \<Rightarrow> if expA = 0 \<and> sigA = 0 then invalid else (infinity, flag_infinite)
        | Some (expB, sigB) \<Rightarrow>
            (case norm_operand expA sigA of
               None \<Rightarrow> zero
             | Some (expA, sigA) \<Rightarrow>
                 (let expZ = expA - expB + 0x7E;
                      sigA = sigA OR 0x00800000;
                      sigB = sigB OR 0x00800000;
                      (expZ, sig64A) = (if sigA < sigB then (expZ - 1, shl sigA 31) else (expZ, shl sigA 30));
                      sigZ = sig64A div sigB;
                      sigZ = (if sigZ AND 0x3F = 0 then sigZ OR (if sigB * sigZ \<noteq> sig64A then 1 else 0) else sigZ)
                  in softfloat_roundPackToF32 roundingMode signZ expZ sigZ))))"

section \<open>Fused multiplication and addition\<close>

text \<open>
  The part of \<^verbatim>\<open>softfloat_mulAddF32\<close> after the special cases: a nonzero product and a nonzero addend. The
  last test of the outer case distinction is the label \<^verbatim>\<open>completeCancellation\<close>.
\<close>

definition mulAdd_sum :: "u8 \<Rightarrow> bool \<Rightarrow> int \<Rightarrow> u64 \<Rightarrow> bool \<Rightarrow> int \<Rightarrow> u64 \<Rightarrow> u32 \<times> u8" where
  "mulAdd_sum roundingMode signProd expProd sigProd signC expC sigC =
    (let expDiff = expProd - expC in
     if signProd = signC then
       (let (expZ, sigZ) =
          (if expDiff \<le> 0 then (expC, sigC + softfloat_shiftRightJam64 sigProd (nat (32 - expDiff)))
           else (expProd, softfloat_shortShiftRightJam64 (sigProd + softfloat_shiftRightJam64 (shl sigC 32) (nat expDiff)) 32)) in
        if sigZ < 0x40000000 then softfloat_roundPackToF32 roundingMode signProd (expZ - 1) (shl sigZ 1)
        else softfloat_roundPackToF32 roundingMode signProd expZ sigZ)
     else
       (let sig64C = shl sigC 32;
            (signZ, expZ, sig64Z) =
              (if expDiff < 0 then (signC, expC, sig64C - softfloat_shiftRightJam64 sigProd (nat (- expDiff)))
               else if expDiff = 0 then
                 (let sig64Z = sigProd - sig64C in
                  if sig64Z AND 0x8000000000000000 \<noteq> 0 then (\<not> signProd, expProd, - sig64Z)
                  else (signProd, expProd, sig64Z))
               else (signProd, expProd, sigProd - softfloat_shiftRightJam64 sig64C (nat expDiff))) in
        if expDiff = 0 \<and> sig64Z = 0 then (packToF32UI (roundingMode = round_min) 0 0, 0)
        else
          (let shiftDist = int (softfloat_countLeadingZeros64 sig64Z) - 1;
               expZ = expZ - shiftDist;
               shiftDist = shiftDist - 32;
               sigZ = (if shiftDist < 0 then softfloat_shortShiftRightJam64 sig64Z (nat (- shiftDist))
                       else shl sig64Z (nat shiftDist))
           in softfloat_roundPackToF32 roundingMode signZ expZ sigZ)))"

definition softfloat_mulAddF32 :: "u8 \<Rightarrow> u32 \<Rightarrow> u32 \<Rightarrow> u32 \<Rightarrow> u8 \<Rightarrow> u32 \<times> u8" where
  "softfloat_mulAddF32 roundingMode uiA uiB uiC op =
    (let signA = signF32UI uiA; expA = expF32UI uiA; sigA = fracF32UI uiA;
         signB = signF32UI uiB; expB = expF32UI uiB; sigB = fracF32UI uiB;
         signC = (signF32UI uiC \<noteq> (op = 1)); expC = expF32UI uiC; sigC = fracF32UI uiC;
         signProd = ((signA \<noteq> signB) \<noteq> (op = 2));
         propagateNaN_ZC = (\<lambda>(uiZ, fl). let (z, fl') = softfloat_propagateNaNF32UI uiZ uiC in (z, fl OR fl'));
         propagateNaN_ABC = propagateNaN_ZC (softfloat_propagateNaNF32UI uiA uiB);
         infProdArg = (\<lambda>magBits.
           let uiZ = packToF32UI signProd 0xFF 0 in
           if magBits \<and> expC \<noteq> 0xFF then (uiZ, 0)
           else if magBits \<and> sigC \<noteq> 0 then propagateNaN_ZC (uiZ, 0)
           else if magBits \<and> signProd = signC then (uiZ, 0)
           else propagateNaN_ZC (defaultNaNF32UI, flag_invalid));
         zeroProd =
           (if expC = 0 \<and> sigC = 0 \<and> signProd \<noteq> signC then (packToF32UI (roundingMode = round_min) 0 0, 0) else (uiC, 0)) in
     if expA = 0xFF then
       (if sigA \<noteq> 0 \<or> expB = 0xFF \<and> sigB \<noteq> 0 then propagateNaN_ABC else infProdArg (expB \<noteq> 0 \<or> sigB \<noteq> 0))
     else if expB = 0xFF then
       (if sigB \<noteq> 0 then propagateNaN_ABC else infProdArg (expA \<noteq> 0 \<or> sigA \<noteq> 0))
     else if expC = 0xFF then
       (if sigC \<noteq> 0 then propagateNaN_ZC (0, 0) else (uiC, 0))
     else
       (case norm_operand expA sigA of
          None \<Rightarrow> zeroProd
        | Some (expA, sigA) \<Rightarrow>
            (case norm_operand expB sigB of
               None \<Rightarrow> zeroProd
             | Some (expB, sigB) \<Rightarrow>
                 (let expProd = expA + expB - 0x7E;
                      sigA = shl (sigA OR 0x00800000) 7;
                      sigB = shl (sigB OR 0x00800000) 7;
                      sigProd = sigA * sigB;
                      (expProd, sigProd) =
                        (if sigProd < 0x2000000000000000 then (expProd - 1, shl sigProd 1) else (expProd, sigProd)) in
                  case norm_operand expC sigC of
                    None \<Rightarrow>
                      softfloat_roundPackToF32 roundingMode signProd (expProd - 1) (softfloat_shortShiftRightJam64 sigProd 31)
                  | Some (expC, sigC) \<Rightarrow>
                      mulAdd_sum roundingMode signProd expProd sigProd signC expC (shl (sigC OR 0x00800000) 6)))))"

definition f32_mulAdd :: "u8 \<Rightarrow> u32 \<Rightarrow> u32 \<Rightarrow> u32 \<Rightarrow> u32 \<times> u8" where
  "f32_mulAdd roundingMode uiA uiB uiC = softfloat_mulAddF32 roundingMode uiA uiB uiC 0"

section \<open>Square root\<close>

definition softfloat_approxRecipSqrt_1k0s :: "u16 list" where
  "softfloat_approxRecipSqrt_1k0s =
    [0xB4C9, 0xFFAB, 0xAA7D, 0xF11C, 0xA1C5, 0xE4C7, 0x9A43, 0xDA29,
     0x93B5, 0xD0E5, 0x8DED, 0xC8B7, 0x88C6, 0xC16D, 0x8424, 0xBAE1]"

definition softfloat_approxRecipSqrt_1k1s :: "u16 list" where
  "softfloat_approxRecipSqrt_1k1s =
    [0xA5A5, 0xEA42, 0x8C21, 0xC62D, 0x788F, 0xAA7F, 0x6928, 0x94B6,
     0x5CC7, 0x8335, 0x52A6, 0x74E2, 0x4A3E, 0x68FE, 0x432B, 0x5EFD]"

definition softfloat_approxRecipSqrt32_1 :: "nat \<Rightarrow> u32 \<Rightarrow> u32" where
  "softfloat_approxRecipSqrt32_1 oddExpA a =
    (let index = unat (shr a 27 AND 0xE) + oddExpA;
         eps = ucast (shr a 12) :: u16;
         r0 = ucast ((ucast (softfloat_approxRecipSqrt_1k0s ! index) :: u64) -
                shr (ucast (softfloat_approxRecipSqrt_1k1s ! index) * ucast eps) 20) :: u16;
         ESqrR0 = (ucast r0 * ucast r0 :: u64);
         ESqrR0 = (if oddExpA = 0 then shl ESqrR0 1 else ESqrR0);
         sigma0 = ucast (NOT (shr (ucast (ucast ESqrR0 :: u32) * ucast a :: u64) 23)) :: u32;
         r = shl (ucast r0) 16 + shr (ucast r0 * ucast sigma0) 25 :: u64;
         sqrSigma0 = ucast (shr (ucast sigma0 * ucast sigma0 :: u64) 32) :: u32;
         r = r + shr (ucast (ucast (shr r 1 + shr r 3 - shl (ucast r0) 14) :: u32) * ucast sqrSigma0) 48
     in if r AND 0x80000000 = 0 then 0x80000000 else ucast r)"

definition f32_sqrt :: "u8 \<Rightarrow> u32 \<Rightarrow> u32 \<times> u8" where
  "f32_sqrt roundingMode uiA =
    (let signA = signF32UI uiA; expA = expF32UI uiA; sigA = fracF32UI uiA;
         invalid = (defaultNaNF32UI, flag_invalid) in
     if expA = 0xFF then
       (if sigA \<noteq> 0 then softfloat_propagateNaNF32UI uiA 0 else if \<not> signA then (uiA, 0) else invalid)
     else if signA then (if expA = 0 \<and> sigA = 0 then (uiA, 0) else invalid)
     else
       (case norm_operand expA sigA of
          None \<Rightarrow> (uiA, 0)
        | Some (expA, sigA) \<Rightarrow>
            (let expZ = (expA - 0x7F) div 2 + 0x7E;
                 expA = expA mod 2;
                 sigA = shl (sigA OR 0x00800000) 8;
                 sigZ = shr (sigA * ucast (softfloat_approxRecipSqrt32_1 (nat expA) (ucast sigA))) 32;
                 sigZ = (if expA \<noteq> 0 then shr sigZ 1 else sigZ);
                 sigZ = sigZ + 2;
                 sigZ =
                   (if sigZ AND 0x3F < 2 then
                      (let shiftedSigZ = shr sigZ 2;
                           negRem = ucast (shiftedSigZ * shiftedSigZ) :: u32;
                           sigZ = sigZ AND NOT 3
                       in if negRem AND 0x80000000 \<noteq> 0 then sigZ OR 1
                          else if negRem \<noteq> 0 then sigZ - 1 else sigZ)
                    else sigZ)
             in softfloat_roundPackToF32 roundingMode False expZ sigZ)))"

section \<open>Conversions\<close>

definition softfloat_roundToI32 :: "bool \<Rightarrow> u64 \<Rightarrow> u8 \<Rightarrow> bool \<Rightarrow> u32 \<times> u8" where
  "softfloat_roundToI32 sign sig roundingMode exact =
    (let roundIncrement =
           (if roundingMode \<noteq> round_near_maxMag \<and> roundingMode \<noteq> round_near_even then
              (if (if sign then roundingMode = round_min \<or> roundingMode = round_odd else roundingMode = round_max)
               then 0xFFF else 0)
            else 0x800);
         roundBits = sig AND 0xFFF;
         sig = sig + roundIncrement;
         invalid = (if sign then 0x80000000 else 0x7FFFFFFF, flag_invalid) in
     if sig AND 0xFFFFF00000000000 \<noteq> 0 then invalid
     else
       (let sig32 = shr sig 12;
            sig32 = (if roundBits = 0x800 \<and> roundingMode = round_near_even then sig32 AND NOT 1 else sig32);
            z = ucast (if sign then - sig32 else sig32) :: u32 in
        if z \<noteq> 0 \<and> (z <s 0) \<noteq> sign then invalid
        else if roundBits \<noteq> 0 then
          (if roundingMode = round_odd then z OR 1 else z, if exact then flag_inexact else 0)
        else (z, 0)))"

definition softfloat_roundToUI32 :: "bool \<Rightarrow> u64 \<Rightarrow> u8 \<Rightarrow> bool \<Rightarrow> u32 \<times> u8" where
  "softfloat_roundToUI32 sign sig roundingMode exact =
    (let directed = (roundingMode \<noteq> round_near_maxMag \<and> roundingMode \<noteq> round_near_even);
         roundIncrement = (if directed then (if \<not> sign \<and> roundingMode = round_max then 0xFFF else 0) else 0x800);
         invalid = (if sign then 0 else 0xFFFFFFFF, flag_invalid) in
     if directed \<and> sign \<and> sig = 0 then (0, 0)
     else if directed \<and> sign \<and> (roundingMode = round_min \<or> roundingMode = round_odd) then invalid
     else
       (let roundBits = sig AND 0xFFF;
            sig = sig + roundIncrement in
        if sig AND 0xFFFFF00000000000 \<noteq> 0 then invalid
        else
          (let z = shr sig 12;
               z = (if roundBits = 0x800 \<and> roundingMode = round_near_even then z AND NOT 1 else z) in
           if sign \<and> z \<noteq> 0 then invalid
           else if roundBits \<noteq> 0 then
             (ucast (if roundingMode = round_odd then z OR 1 else z), if exact then flag_inexact else 0)
           else (ucast z, 0))))"

text \<open>The significand as a fixed-point number with 12 fraction bits; a NaN counts as positive.\<close>

definition f32_to_i32 :: "u32 \<Rightarrow> u8 \<Rightarrow> bool \<Rightarrow> u32 \<times> u8" where
  "f32_to_i32 uiA roundingMode exact =
    (let sign = signF32UI uiA; exp = expF32UI uiA; sig = fracF32UI uiA;
         sign = (if exp = 0xFF \<and> sig \<noteq> 0 then False else sign);
         sig = (if exp \<noteq> 0 then sig OR 0x00800000 else sig);
         sig64 = shl sig 32;
         shiftDist = 0xAA - exp;
         sig64 = (if 0 < shiftDist then softfloat_shiftRightJam64 sig64 (nat shiftDist) else sig64)
     in softfloat_roundToI32 sign sig64 roundingMode exact)"

definition f32_to_ui32 :: "u32 \<Rightarrow> u8 \<Rightarrow> bool \<Rightarrow> u32 \<times> u8" where
  "f32_to_ui32 uiA roundingMode exact =
    (let sign = signF32UI uiA; exp = expF32UI uiA; sig = fracF32UI uiA;
         sign = (if exp = 0xFF \<and> sig \<noteq> 0 then False else sign);
         sig = (if exp \<noteq> 0 then sig OR 0x00800000 else sig);
         sig64 = shl sig 32;
         shiftDist = 0xAA - exp;
         sig64 = (if 0 < shiftDist then softfloat_shiftRightJam64 sig64 (nat shiftDist) else sig64)
     in softfloat_roundToUI32 sign sig64 roundingMode exact)"

definition i32_to_f32 :: "u8 \<Rightarrow> u32 \<Rightarrow> u32 \<times> u8" where
  "i32_to_f32 roundingMode a =
    (let sign = (a <s 0) in
     if a AND 0x7FFFFFFF = 0 then (if sign then packToF32UI True 0x9E 0 else 0, 0)
     else
       (let absA = (if sign then - scast a else scast a) in softfloat_normRoundPackToF32 roundingMode sign 0x9C absA))"

definition ui32_to_f32 :: "u8 \<Rightarrow> u32 \<Rightarrow> u32 \<times> u8" where
  "ui32_to_f32 roundingMode a =
    (if a = 0 then (0, 0)
     else if a AND 0x80000000 \<noteq> 0 then
       softfloat_roundPackToF32 roundingMode False 0x9D (ucast (shr a 1 OR (a AND 1)))
     else softfloat_normRoundPackToF32 roundingMode False 0x9C (ucast a))"

end
