(* ===== verification/Interp.thy ===== *)
theory Interp
  imports Trap Csr Softfloat "HOL-Library.Signed_Division"
begin

unbundle bit_operations_syntax

text \<open>
  The interpreter's instruction handlers, \<^verbatim>\<open>rv32_template.c\<close>: one definition \<open>do_x\<close> per
  \<^verbatim>\<open>RVOP(x, { ... })\<close>, its right-hand side the body between the braces. The \<^verbatim>\<open>RVOP\<close> macro around
  the bodies (cycle count, advance of the PC, choice of the next handler) is \<open>RVOP\<close> below; the
  tail calls between handlers are in theory Block.

  A body ends in one of the ways the source has: it falls through to \<^verbatim>\<open>nextop\<close>, jumps to
  \<^verbatim>\<open>end_op\<close>, returns, tail-calls the first handler of a chained block, or looks its target up
  in the branch history table (\<^verbatim>\<open>LOOKUP_OR_UPDATE_BRANCH_HISTORY_TABLE\<close>, then \<^verbatim>\<open>end_op\<close>). \<open>Abort\<close>
  is a failed assertion, \<open>Undefined\<close> is C's undefined behaviour (\<^verbatim>\<open>__UNREACHABLE\<close>, a shift by the
  width or more whose value depends on the host).
\<close>

datatype outcome =
    Next riscv u64 u32
  | Fuse_next riscv u64 u32
  | End_op riscv u64 u32
  | Ret bool riscv
  | Tail block_ptr riscv u64 u32
  | Bht riscv u64 u32
  | Abort
  | Undefined

text \<open>
  The environment: the host clock and \<^verbatim>\<open>syscall_handler\<close>.
\<close>

record env =
  host_time :: "u64 \<Rightarrow> u64"
  syscall_handler :: "riscv \<Rightarrow> riscv"

type_synonym handler = "env \<Rightarrow> riscv \<Rightarrow> rv_insn \<Rightarrow> u64 \<Rightarrow> u32 \<Rightarrow> outcome"

text \<open>Return \<^verbatim>\<open>b\<close> after a callback that may abort.\<close>

fun ret_opt :: "bool \<Rightarrow> riscv option \<Rightarrow> outcome" where
  "ret_opt b (Some rv) = Ret b rv"
| "ret_opt b None = Abort"

text \<open>\<^verbatim>\<open>RV_EXC_MISALIGN_HANDLER(mask, type, compress, 1)\<close> in front of the rest of a body.\<close>

definition RV_EXC_MISALIGN_HANDLER ::
    "u32 \<Rightarrow> u32 \<Rightarrow> bool \<Rightarrow> riscv \<Rightarrow> u32 \<Rightarrow> u64 \<Rightarrow> u32 \<Rightarrow> outcome \<Rightarrow> outcome" where
  [do_defs]: "RV_EXC_MISALIGN_HANDLER msk cause compress rv addr cycle p rest =
    (if \<not> allow_misalign rv \<and> addr AND msk \<noteq> 0 then
       ret_opt False (SET_CAUSE_AND_TVAL_THEN_TRAP
         (rv\<lparr>compressed := compress, csr_cycle := cycle, PC := p\<rparr>) cause addr)
     else rest)"

section \<open>RV32I\<close>

definition do_nop :: handler where
  [do_defs]: "do_nop env rv ir cycle p =
    Next (set_X rv_reg_zero 0 rv) cycle p"

definition do_lui :: handler where
  [do_defs]: "do_lui env rv ir cycle p =
    Next (set_X (rd ir) (imm ir) rv) cycle p"

definition do_auipc :: handler where
  [do_defs]: "do_auipc env rv ir cycle p =
    Next (set_X (rd ir) (imm ir + p) rv) cycle p"

definition do_jal :: handler where
  [do_defs]: "do_jal env rv ir cycle p =
    (let rv = (if rd ir \<noteq> 0 then set_X (rd ir) (p + 4) rv else rv);
         p' = p + imm ir in
     case branch_taken ir of
       Some taken \<Rightarrow> Tail taken (rv\<lparr>last_pc := p'\<rparr>) cycle p'
     | None \<Rightarrow> End_op rv cycle p')"

definition do_jalr :: handler where
  [do_defs]: "do_jalr env rv ir cycle p =
    (let p' = (X rv (rs1 ir) + imm ir) AND NOT 1;
         rv = (if rd ir \<noteq> 0 then set_X (rd ir) (p + 4) rv else rv)
     in Bht rv cycle p')"

text \<open>
  \<^verbatim>\<open>BRANCH_FUNC\<close>: the condition is the one under which the branch is not taken. In the
  user-mode build the tail calls inside the macro are empty, so both arms reach \<^verbatim>\<open>end_op\<close>.
\<close>

definition BRANCH_FUNC :: "bool \<Rightarrow> riscv \<Rightarrow> rv_insn \<Rightarrow> u64 \<Rightarrow> u32 \<Rightarrow> outcome" where
  [do_defs]: "BRANCH_FUNC untaken_cond rv ir cycle p =
    (if untaken_cond then
       (let rv = rv\<lparr>is_branch_taken := False\<rparr> in
        case branch_untaken ir of
          None \<Rightarrow> Next rv cycle p
        | Some untaken \<Rightarrow> End_op rv cycle (p + 4))
     else End_op (rv\<lparr>is_branch_taken := True\<rparr>) cycle (p + imm ir))"


definition do_beq :: handler where
  [do_defs]: "do_beq env rv ir cycle p =
    BRANCH_FUNC (X rv (rs1 ir) \<noteq> X rv (rs2 ir)) rv ir cycle p"

definition do_bne :: handler where
  [do_defs]: "do_bne env rv ir cycle p =
    BRANCH_FUNC (X rv (rs1 ir) = X rv (rs2 ir)) rv ir cycle p"

definition do_blt :: handler where
  [do_defs]: "do_blt env rv ir cycle p =
    BRANCH_FUNC (sint (X rv (rs1 ir)) \<ge> sint (X rv (rs2 ir))) rv ir cycle p"

definition do_bge :: handler where
  [do_defs]: "do_bge env rv ir cycle p =
    BRANCH_FUNC (sint (X rv (rs1 ir)) < sint (X rv (rs2 ir))) rv ir cycle p"

definition do_bltu :: handler where
  [do_defs]: "do_bltu env rv ir cycle p =
    BRANCH_FUNC (X rv (rs1 ir) \<ge> X rv (rs2 ir)) rv ir cycle p"

definition do_bgeu :: handler where
  [do_defs]: "do_bgeu env rv ir cycle p =
    BRANCH_FUNC (X rv (rs1 ir) < X rv (rs2 ir)) rv ir cycle p"

definition do_lb :: handler where
  [do_defs]: "do_lb env rv ir cycle p =
    (let addr = X rv (rs1 ir) + imm ir in
     Next (set_X (rd ir) (sign_extend_b (ucast (ram_read_b rv addr))) rv) cycle p)"

definition do_lh :: handler where
  [do_defs]: "do_lh env rv ir cycle p =
    (let addr = X rv (rs1 ir) + imm ir in
     RV_EXC_MISALIGN_HANDLER 1 LOAD_MISALIGNED False rv addr cycle p
       (Next (set_X (rd ir) (sign_extend_h (ucast (ram_read_s rv addr))) rv) cycle p))"

definition do_lw :: handler where
  [do_defs]: "do_lw env rv ir cycle p =
    (let addr = X rv (rs1 ir) + imm ir in
     RV_EXC_MISALIGN_HANDLER 3 LOAD_MISALIGNED False rv addr cycle p
       (Next (set_X (rd ir) (ram_read_w rv addr) rv) cycle p))"

definition do_lbu :: handler where
  [do_defs]: "do_lbu env rv ir cycle p =
    (let addr = X rv (rs1 ir) + imm ir in
     Next (set_X (rd ir) (ucast (ram_read_b rv addr)) rv) cycle p)"

definition do_lhu :: handler where
  [do_defs]: "do_lhu env rv ir cycle p =
    (let addr = X rv (rs1 ir) + imm ir in
     RV_EXC_MISALIGN_HANDLER 1 LOAD_MISALIGNED False rv addr cycle p
       (Next (set_X (rd ir) (ucast (ram_read_s rv addr)) rv) cycle p))"

definition do_sb :: handler where
  [do_defs]: "do_sb env rv ir cycle p =
    (let addr = X rv (rs1 ir) + imm ir in
     Next (ram_write_b rv addr (ucast (X rv (rs2 ir)))) cycle p)"

definition do_sh :: handler where
  [do_defs]: "do_sh env rv ir cycle p =
    (let addr = X rv (rs1 ir) + imm ir in
     RV_EXC_MISALIGN_HANDLER 1 STORE_MISALIGNED False rv addr cycle p
       (Next (ram_write_s rv addr (ucast (X rv (rs2 ir)))) cycle p))"

definition do_sw :: handler where
  [do_defs]: "do_sw env rv ir cycle p =
    (let addr = X rv (rs1 ir) + imm ir in
     RV_EXC_MISALIGN_HANDLER 3 STORE_MISALIGNED False rv addr cycle p
       (Next (ram_write_w rv addr (X rv (rs2 ir))) cycle p))"

definition do_addi :: handler where
  [do_defs]: "do_addi env rv ir cycle p =
    Next (set_X (rd ir) (X rv (rs1 ir) + imm ir) rv) cycle p"

definition do_slti :: handler where
  [do_defs]: "do_slti env rv ir cycle p =
    Next (set_X (rd ir) (if sint (X rv (rs1 ir)) < sint (imm ir) then 1 else 0) rv) cycle p"

definition do_sltiu :: handler where
  [do_defs]: "do_sltiu env rv ir cycle p =
    Next (set_X (rd ir) (if X rv (rs1 ir) < imm ir then 1 else 0) rv) cycle p"

definition do_xori :: handler where
  [do_defs]: "do_xori env rv ir cycle p =
    Next (set_X (rd ir) (X rv (rs1 ir) XOR imm ir) rv) cycle p"

definition do_ori :: handler where
  [do_defs]: "do_ori env rv ir cycle p =
    Next (set_X (rd ir) (X rv (rs1 ir) OR imm ir) rv) cycle p"

definition do_andi :: handler where
  [do_defs]: "do_andi env rv ir cycle p =
    Next (set_X (rd ir) (X rv (rs1 ir) AND imm ir) rv) cycle p"

definition shift_func :: "riscv \<Rightarrow> rv_insn \<Rightarrow> riscv option" where
  [do_defs]: "shift_func rv ir =
    (if opcode ir = I_op Rv_slli then
       Some (set_X (rd ir) (shl (X rv (rs1 ir)) (unat (imm ir AND 0x1F))) rv)
     else if opcode ir = I_op Rv_srli then
       Some (set_X (rd ir) (shr (X rv (rs1 ir)) (unat (imm ir AND 0x1F))) rv)
     else if opcode ir = I_op Rv_srai then
       Some (set_X (rd ir) (sar (X rv (rs1 ir)) (unat (imm ir AND 0x1F))) rv)
     else None)"

definition next_opt :: "riscv option \<Rightarrow> u64 \<Rightarrow> u32 \<Rightarrow> outcome" where
  [do_defs]: "next_opt s cycle p = (case s of Some rv \<Rightarrow> Next rv cycle p | None \<Rightarrow> Undefined)"


definition do_slli :: handler where
  [do_defs]: "do_slli env rv ir cycle p =
    next_opt (shift_func rv ir) cycle p"

definition do_srli :: handler where
  [do_defs]: "do_srli env rv ir cycle p =
    next_opt (shift_func rv ir) cycle p"

definition do_srai :: handler where
  [do_defs]: "do_srai env rv ir cycle p =
    next_opt (shift_func rv ir) cycle p"

definition do_add :: handler where
  [do_defs]: "do_add env rv ir cycle p =
    Next (set_X (rd ir) (X rv (rs1 ir) + X rv (rs2 ir)) rv) cycle p"

definition do_sub :: handler where
  [do_defs]: "do_sub env rv ir cycle p =
    Next (set_X (rd ir) (X rv (rs1 ir) - X rv (rs2 ir)) rv) cycle p"

definition do_sll :: handler where
  [do_defs]: "do_sll env rv ir cycle p =
    Next (set_X (rd ir) (shl (X rv (rs1 ir)) (unat (X rv (rs2 ir) AND 0x1F))) rv) cycle p"

definition do_slt :: handler where
  [do_defs]: "do_slt env rv ir cycle p =
    Next (set_X (rd ir) (if sint (X rv (rs1 ir)) < sint (X rv (rs2 ir)) then 1 else 0) rv) cycle p"

definition do_sltu :: handler where
  [do_defs]: "do_sltu env rv ir cycle p =
    Next (set_X (rd ir) (if X rv (rs1 ir) < X rv (rs2 ir) then 1 else 0) rv) cycle p"

definition do_xor :: handler where
  [do_defs]: "do_xor env rv ir cycle p =
    Next (set_X (rd ir) (X rv (rs1 ir) XOR X rv (rs2 ir)) rv) cycle p"

definition do_srl :: handler where
  [do_defs]: "do_srl env rv ir cycle p =
    Next (set_X (rd ir) (shr (X rv (rs1 ir)) (unat (X rv (rs2 ir) AND 0x1F))) rv) cycle p"

definition do_sra :: handler where
  [do_defs]: "do_sra env rv ir cycle p =
    Next (set_X (rd ir) (sar (X rv (rs1 ir)) (unat (X rv (rs2 ir) AND 0x1F))) rv) cycle p"

definition do_or :: handler where
  [do_defs]: "do_or env rv ir cycle p =
    Next (set_X (rd ir) (X rv (rs1 ir) OR X rv (rs2 ir)) rv) cycle p"

definition do_and :: handler where
  [do_defs]: "do_and env rv ir cycle p =
    Next (set_X (rd ir) (X rv (rs1 ir) AND X rv (rs2 ir)) rv) cycle p"

definition do_fence :: handler where
  [do_defs]: "do_fence env rv ir cycle p =
    End_op rv cycle (p + 4)"

definition do_ecall :: handler where
  [do_defs]: "do_ecall env rv ir cycle p =
    ret_opt True (ecall_handler (syscall_handler env)
       (rv\<lparr>compressed := False, csr_cycle := cycle, PC := p\<rparr>))"

definition do_ebreak :: handler where
  [do_defs]: "do_ebreak env rv ir cycle p =
    ret_opt True (ebreak_handler (rv\<lparr>compressed := False, csr_cycle := cycle, PC := p\<rparr>))"

section \<open>Privileged instructions, Zifencei and Zicsr\<close>

definition do_wfi :: handler where
  [do_defs]: "do_wfi env rv ir cycle p =
    End_op rv cycle (p + 4)"

definition do_uret :: handler where
  [do_defs]: "do_uret env rv ir cycle p =
    Ret False rv"

definition do_hret :: handler where
  [do_defs]: "do_hret env rv ir cycle p =
    Ret False rv"

definition do_mret :: handler where
  [do_defs]: "do_mret env rv ir cycle p =
    (let rv = rv\<lparr>priv_mode := shr (csr_mstatus rv AND MSTATUS_MPP) 11\<rparr>;
         rv = rv\<lparr>csr_mstatus := csr_mstatus rv AND NOT MSTATUS_MPP\<rparr>;
         mstatus_mpie = shr (csr_mstatus rv AND MSTATUS_MPIE) 7;
         rv = rv\<lparr>csr_mstatus := csr_mstatus rv OR shl mstatus_mpie 3\<rparr>;
         rv = rv\<lparr>csr_mstatus := csr_mstatus rv OR MSTATUS_MPIE\<rparr>
     in Ret True (rv\<lparr>PC := csr_mepc rv\<rparr>))"

definition do_sfencevma :: handler where
  [do_defs]: "do_sfencevma env rv ir cycle p =
    End_op rv cycle (p + 4)"

definition do_fencei :: handler where
  [do_defs]: "do_fencei env rv ir cycle p =
    Ret True (rv\<lparr>csr_cycle := cycle, PC := p + 4\<rparr>)"

definition do_csrrw :: handler where
  [do_defs]: "do_csrrw env rv ir cycle p =
    (let (rv, tmp) = csr_csrrw (host_time env) rv (imm ir) (X rv (rs1 ir)) cycle
     in Next (set_X (rd ir) (if rd ir \<noteq> 0 then tmp else X rv (rd ir)) rv) cycle p)"

definition do_csrrs :: handler where
  [do_defs]: "do_csrrs env rv ir cycle p =
    (let (rv, tmp) = csr_csrrs (host_time env) rv (imm ir) (if rs1 ir = rv_reg_zero then 0 else X rv (rs1 ir)) cycle
     in Next (set_X (rd ir) (if rd ir \<noteq> 0 then tmp else X rv (rd ir)) rv) cycle p)"

definition do_csrrc :: handler where
  [do_defs]: "do_csrrc env rv ir cycle p =
    (let (rv, tmp) = csr_csrrc (host_time env) rv (imm ir) (if rs1 ir = rv_reg_zero then 0 else X rv (rs1 ir)) cycle
     in Next (set_X (rd ir) (if rd ir \<noteq> 0 then tmp else X rv (rd ir)) rv) cycle p)"

definition do_csrrwi :: handler where
  [do_defs]: "do_csrrwi env rv ir cycle p =
    (let (rv, tmp) = csr_csrrw (host_time env) rv (imm ir) (ucast (rs1 ir)) cycle
     in Next (set_X (rd ir) (if rd ir \<noteq> 0 then tmp else X rv (rd ir)) rv) cycle p)"

definition do_csrrsi :: handler where
  [do_defs]: "do_csrrsi env rv ir cycle p =
    (let (rv, tmp) = csr_csrrs (host_time env) rv (imm ir) (ucast (rs1 ir)) cycle
     in Next (set_X (rd ir) (if rd ir \<noteq> 0 then tmp else X rv (rd ir)) rv) cycle p)"

definition do_csrrci :: handler where
  [do_defs]: "do_csrrci env rv ir cycle p =
    (let (rv, tmp) = csr_csrrc (host_time env) rv (imm ir) (ucast (rs1 ir)) cycle
     in Next (set_X (rd ir) (if rd ir \<noteq> 0 then tmp else X rv (rd ir)) rv) cycle p)"

section \<open>RV32M\<close>

definition do_mul :: handler where
  [do_defs]: "do_mul env rv ir cycle p =
    Next (set_X (rd ir) (ucast (((scast (X rv (rs1 ir)) :: u64) * scast (X rv (rs2 ir))) AND 0xFFFFFFFF)) rv) cycle p"

definition do_mulh :: handler where
  [do_defs]: "do_mulh env rv ir cycle p =
    Next (set_X (rd ir) (ucast (shr ((scast (X rv (rs1 ir)) :: u64) * scast (X rv (rs2 ir))) 32)) rv) cycle p"

definition do_mulhsu :: handler where
  [do_defs]: "do_mulhsu env rv ir cycle p =
    Next (set_X (rd ir) (ucast (shr ((scast (X rv (rs1 ir)) :: u64) * ucast (X rv (rs2 ir))) 32)) rv) cycle p"

definition do_mulhu :: handler where
  [do_defs]: "do_mulhu env rv ir cycle p =
    Next (set_X (rd ir) (ucast (shr ((ucast (X rv (rs1 ir)) :: u64) * ucast (X rv (rs2 ir))) 32)) rv) cycle p"

definition do_div :: handler where
  [do_defs]: "do_div env rv ir cycle p =
    (let dividend = X rv (rs1 ir); divisor = X rv (rs2 ir) in
     Next (set_X (rd ir)
       (if divisor = 0 then NOT 0
        else if divisor = - 1 \<and> X rv (rs1 ir) = 0x80000000 then X rv (rs1 ir)
        else word_of_int (sint dividend sdiv sint divisor)) rv) cycle p)"

definition do_divu :: handler where
  [do_defs]: "do_divu env rv ir cycle p =
    (let udividend = X rv (rs1 ir); udivisor = X rv (rs2 ir) in
     Next (set_X (rd ir) (if udivisor = 0 then NOT 0 else udividend div udivisor) rv) cycle p)"

definition do_rem :: handler where
  [do_defs]: "do_rem env rv ir cycle p =
    (let dividend = X rv (rs1 ir); divisor = X rv (rs2 ir) in
     Next (set_X (rd ir)
       (if divisor = 0 then dividend
        else if divisor = - 1 \<and> X rv (rs1 ir) = 0x80000000 then 0
        else word_of_int (sint dividend smod sint divisor)) rv) cycle p)"

definition do_remu :: handler where
  [do_defs]: "do_remu env rv ir cycle p =
    (let udividend = X rv (rs1 ir); udivisor = X rv (rs2 ir) in
     Next (set_X (rd ir) (if udivisor = 0 then udividend else udividend mod udivisor) rv) cycle p)"

section \<open>RV32A\<close>

definition do_lrw :: handler where
  [do_defs]: "do_lrw env rv ir cycle p =
    (let addr = X rv (rs1 ir) in
     RV_EXC_MISALIGN_HANDLER 3 LOAD_MISALIGNED False rv addr cycle p
       (Next (if rd ir \<noteq> 0 then set_X (rd ir) (ram_read_w rv addr) rv else rv) cycle p))"

definition do_scw :: handler where
  [do_defs]: "do_scw env rv ir cycle p =
    (let addr = X rv (rs1 ir) in
     RV_EXC_MISALIGN_HANDLER 3 STORE_MISALIGNED False rv addr cycle p
       (let value = X rv (rs2 ir);
            rv = ram_write_w rv addr value
        in Next (set_X (rd ir) 0 rv) cycle p))"

text \<open>
  The nine read-modify-write instructions share their text up to the value they store, the
  function \<open>res\<close> of the old word and \<open>rs2\<close>.
\<close>

definition amo_body :: "(u32 \<Rightarrow> u32 \<Rightarrow> u32) \<Rightarrow> handler" where
  [do_defs]: "amo_body res env rv ir cycle p =
    (let addr = X rv (rs1 ir) in
     RV_EXC_MISALIGN_HANDLER 3 LOAD_MISALIGNED False rv addr cycle p
       (let value1 = ram_read_w rv addr;
            value2 = X rv (rs2 ir);
            rv = (if rd ir \<noteq> 0 then set_X (rd ir) value1 rv else rv)
        in Next (ram_write_w rv addr (res value1 value2)) cycle p))"


definition do_amoswapw :: handler where
  [do_defs]: "do_amoswapw env rv ir cycle p =
    amo_body (\<lambda>value1 value2. value2) env rv ir cycle p"

definition do_amoaddw :: handler where
  [do_defs]: "do_amoaddw env rv ir cycle p =
    amo_body (\<lambda>value1 value2. value1 + value2) env rv ir cycle p"

definition do_amoxorw :: handler where
  [do_defs]: "do_amoxorw env rv ir cycle p =
    amo_body (\<lambda>value1 value2. value1 XOR value2) env rv ir cycle p"

definition do_amoandw :: handler where
  [do_defs]: "do_amoandw env rv ir cycle p =
    amo_body (\<lambda>value1 value2. value1 AND value2) env rv ir cycle p"

definition do_amoorw :: handler where
  [do_defs]: "do_amoorw env rv ir cycle p =
    amo_body (\<lambda>value1 value2. value1 OR value2) env rv ir cycle p"

definition do_amominw :: handler where
  [do_defs]: "do_amominw env rv ir cycle p =
    amo_body (\<lambda>value1 value2. if sint value1 < sint value2 then value1 else value2) env rv ir cycle p"

definition do_amomaxw :: handler where
  [do_defs]: "do_amomaxw env rv ir cycle p =
    amo_body (\<lambda>value1 value2. if sint value1 > sint value2 then value1 else value2) env rv ir cycle p"

definition do_amominuw :: handler where
  [do_defs]: "do_amominuw env rv ir cycle p =
    amo_body (\<lambda>value1 value2. if value1 < value2 then value1 else value2) env rv ir cycle p"

definition do_amomaxuw :: handler where
  [do_defs]: "do_amomaxuw env rv ir cycle p =
    amo_body (\<lambda>value1 value2. if value1 > value2 then value1 else value2) env rv ir cycle p"

section \<open>RV32F\<close>

definition do_flw :: handler where
  [do_defs]: "do_flw env rv ir cycle p =
    (let addr = X rv (rs1 ir) + imm ir in
     RV_EXC_MISALIGN_HANDLER 3 LOAD_MISALIGNED False rv addr cycle p
       (Next (set_F (rd ir) (ram_read_w rv addr) rv) cycle p))"

definition do_fsw :: handler where
  [do_defs]: "do_fsw env rv ir cycle p =
    (let addr = X rv (rs1 ir) + imm ir in
     RV_EXC_MISALIGN_HANDLER 3 STORE_MISALIGNED False rv addr cycle p
       (Next (ram_write_w rv addr (F rv (rs2 ir))) cycle p))"

text \<open>The rounding arithmetic: set the mode, store the result, accrue the flags.\<close>

definition fp_round :: "riscv \<Rightarrow> rv_insn \<Rightarrow> (riscv \<Rightarrow> riscv) \<Rightarrow> u64 \<Rightarrow> u32 \<Rightarrow> outcome" where
  [do_defs]: "fp_round rv ir op cycle p =
    (case set_rounding_mode rv (rm ir) of
       None \<Rightarrow> Undefined
     | Some rv \<Rightarrow> Next (set_fflag (op rv)) cycle p)"

definition set_F_flags :: "u8 \<Rightarrow> u32 \<times> u8 \<Rightarrow> riscv \<Rightarrow> riscv" where
  [do_defs]: "set_F_flags r vf rv = set_F r (fst vf) (softfloat_raiseFlags (snd vf) rv)"

definition set_X_flags :: "u8 \<Rightarrow> u32 \<times> u8 \<Rightarrow> riscv \<Rightarrow> riscv" where
  [do_defs]: "set_X_flags r vf rv =
    (let rv = softfloat_raiseFlags (snd vf) rv in if r \<noteq> 0 then set_X r (fst vf) rv else rv)"


definition do_fmadds :: handler where
  [do_defs]: "do_fmadds env rv ir cycle p =
    fp_round rv ir (\<lambda>rv. set_F_flags (rd ir)
       (f32_mulAdd (softfloat_roundingMode rv) (F rv (rs1 ir)) (F rv (rs2 ir)) (F rv (rs3 ir))) rv) cycle p"

definition do_fmsubs :: handler where
  [do_defs]: "do_fmsubs env rv ir cycle p =
    fp_round rv ir (\<lambda>rv. set_F_flags (rd ir)
       (f32_mulAdd (softfloat_roundingMode rv) (F rv (rs1 ir)) (F rv (rs2 ir)) (F rv (rs3 ir) XOR FMASK_SIGN)) rv) cycle p"

definition do_fnmsubs :: handler where
  [do_defs]: "do_fnmsubs env rv ir cycle p =
    fp_round rv ir (\<lambda>rv. set_F_flags (rd ir)
       (f32_mulAdd (softfloat_roundingMode rv) (F rv (rs1 ir) XOR FMASK_SIGN) (F rv (rs2 ir)) (F rv (rs3 ir))) rv) cycle p"

definition do_fnmadds :: handler where
  [do_defs]: "do_fnmadds env rv ir cycle p =
    fp_round rv ir (\<lambda>rv. set_F_flags (rd ir)
       (f32_mulAdd (softfloat_roundingMode rv) (F rv (rs1 ir) XOR FMASK_SIGN) (F rv (rs2 ir)) (F rv (rs3 ir) XOR FMASK_SIGN)) rv) cycle p"

definition do_fadds :: handler where
  [do_defs]: "do_fadds env rv ir cycle p =
    fp_round rv ir (\<lambda>rv. set_F_flags (rd ir)
       (f32_add (softfloat_roundingMode rv) (F rv (rs1 ir)) (F rv (rs2 ir))) rv) cycle p"

definition do_fsubs :: handler where
  [do_defs]: "do_fsubs env rv ir cycle p =
    fp_round rv ir (\<lambda>rv. set_F_flags (rd ir)
       (f32_sub (softfloat_roundingMode rv) (F rv (rs1 ir)) (F rv (rs2 ir))) rv) cycle p"

definition do_fmuls :: handler where
  [do_defs]: "do_fmuls env rv ir cycle p =
    fp_round rv ir (\<lambda>rv. set_F_flags (rd ir)
       (f32_mul (softfloat_roundingMode rv) (F rv (rs1 ir)) (F rv (rs2 ir))) rv) cycle p"

definition do_fdivs :: handler where
  [do_defs]: "do_fdivs env rv ir cycle p =
    fp_round rv ir (\<lambda>rv. set_F_flags (rd ir)
       (f32_div (softfloat_roundingMode rv) (F rv (rs1 ir)) (F rv (rs2 ir))) rv) cycle p"

definition do_fsqrts :: handler where
  [do_defs]: "do_fsqrts env rv ir cycle p =
    fp_round rv ir (\<lambda>rv. set_F_flags (rd ir)
       (f32_sqrt (softfloat_roundingMode rv) (F rv (rs1 ir))) rv) cycle p"

definition do_fsgnjs :: handler where
  [do_defs]: "do_fsgnjs env rv ir cycle p =
    Next (set_F (rd ir)
       ((F rv (rs1 ir) AND NOT FMASK_SIGN) OR (F rv (rs2 ir) AND FMASK_SIGN)) rv) cycle p"

definition do_fsgnjns :: handler where
  [do_defs]: "do_fsgnjns env rv ir cycle p =
    Next (set_F (rd ir)
       ((F rv (rs1 ir) AND NOT FMASK_SIGN) OR (NOT (F rv (rs2 ir)) AND FMASK_SIGN)) rv) cycle p"

definition do_fsgnjxs :: handler where
  [do_defs]: "do_fsgnjxs env rv ir cycle p =
    Next (set_F (rd ir)
       (F rv (rs1 ir) XOR (F rv (rs2 ir) AND FMASK_SIGN)) rv) cycle p"

text \<open>
  \<^verbatim>\<open>f32_lt_quiet(x, y) || (f32_eq(a, b) && sign)\<close>: C evaluates \<^verbatim>\<open>f32_eq\<close>, which may raise a flag,
  only when the first comparison is false.
\<close>

definition lt_or_eq_sign :: "riscv \<Rightarrow> u32 \<Rightarrow> u32 \<Rightarrow> u32 \<Rightarrow> u32 \<Rightarrow> u32 \<Rightarrow> riscv \<times> bool" where
  [do_defs]: "lt_or_eq_sign rv x y a b s =
    (case f32_lt_quiet rv x y of
       (rv, True) \<Rightarrow> (rv, True)
     | (rv, False) \<Rightarrow> (let (rv, e) = f32_eq rv a b in (rv, e \<and> s AND FMASK_SIGN \<noteq> 0)))"


definition do_fmins :: handler where
  [do_defs]: "do_fmins env rv ir cycle p =
    (let a = F rv (rs1 ir); b = F rv (rs2 ir);
         rv = (if f32_isSignalingNaN a \<or> f32_isSignalingNaN b
               then rv\<lparr>csr_fcsr := csr_fcsr rv OR FFLAG_INVALID_OP\<rparr> else rv);
         (rv, first) = lt_or_eq_sign rv a b a b a
     in if is_nan a \<and> is_nan b then Next (set_F (rd ir) RV_NAN rv) cycle p
        else Next (set_F (rd ir) (if first \<or> is_nan b then a else b) rv) cycle p)"

definition do_fmaxs :: handler where
  [do_defs]: "do_fmaxs env rv ir cycle p =
    (let a = F rv (rs1 ir); b = F rv (rs2 ir);
         rv = (if f32_isSignalingNaN a \<or> f32_isSignalingNaN b
               then rv\<lparr>csr_fcsr := csr_fcsr rv OR FFLAG_INVALID_OP\<rparr> else rv);
         (rv, first) = lt_or_eq_sign rv b a a b b
     in if is_nan a \<and> is_nan b then Next (set_F (rd ir) RV_NAN rv) cycle p
        else Next (set_F (rd ir) (if first \<or> is_nan b then a else b) rv) cycle p)"

definition do_fcvtws :: handler where
  [do_defs]: "do_fcvtws env rv ir cycle p =
    fp_round rv ir (\<lambda>rv. set_X_flags (rd ir)
       (f32_to_i32 (F rv (rs1 ir)) (softfloat_roundingMode rv) True) rv) cycle p"

definition do_fcvtwus :: handler where
  [do_defs]: "do_fcvtwus env rv ir cycle p =
    fp_round rv ir (\<lambda>rv. set_X_flags (rd ir)
       (f32_to_ui32 (F rv (rs1 ir)) (softfloat_roundingMode rv) True) rv) cycle p"

definition do_fmvxw :: handler where
  [do_defs]: "do_fmvxw env rv ir cycle p =
    Next (if rd ir \<noteq> 0 then set_X (rd ir) (F rv (rs1 ir)) rv else rv) cycle p"

definition do_feqs :: handler where
  [do_defs]: "do_feqs env rv ir cycle p =
    (let (rv, r) = f32_eq rv (F rv (rs1 ir)) (F rv (rs2 ir));
         rv = (if rd ir \<noteq> 0 then set_X (rd ir) (if r then 1 else 0) rv else rv)
     in Next (set_fflag rv) cycle p)"

definition do_flts :: handler where
  [do_defs]: "do_flts env rv ir cycle p =
    (let (rv, r) = f32_lt rv (F rv (rs1 ir)) (F rv (rs2 ir));
         rv = (if rd ir \<noteq> 0 then set_X (rd ir) (if r then 1 else 0) rv else rv)
     in Next (set_fflag rv) cycle p)"

definition do_fles :: handler where
  [do_defs]: "do_fles env rv ir cycle p =
    (let (rv, r) = f32_le rv (F rv (rs1 ir)) (F rv (rs2 ir));
         rv = (if rd ir \<noteq> 0 then set_X (rd ir) (if r then 1 else 0) rv else rv)
     in Next (set_fflag rv) cycle p)"

definition do_fclasss :: handler where
  [do_defs]: "do_fclasss env rv ir cycle p =
    Next (if rd ir \<noteq> 0 then set_X (rd ir) (calc_fclass (F rv (rs1 ir))) rv else rv) cycle p"

definition do_fcvtsw :: handler where
  [do_defs]: "do_fcvtsw env rv ir cycle p =
    fp_round rv ir (\<lambda>rv. set_F_flags (rd ir)
       (i32_to_f32 (softfloat_roundingMode rv) (X rv (rs1 ir))) rv) cycle p"

definition do_fcvtswu :: handler where
  [do_defs]: "do_fcvtswu env rv ir cycle p =
    fp_round rv ir (\<lambda>rv. set_F_flags (rd ir)
       (ui32_to_f32 (softfloat_roundingMode rv) (X rv (rs1 ir))) rv) cycle p"

definition do_fmvwx :: handler where
  [do_defs]: "do_fmvwx env rv ir cycle p =
    Next (set_F (rd ir) (X rv (rs1 ir)) rv) cycle p"

section \<open>RV32C\<close>

definition do_caddi4spn :: handler where
  [do_defs]: "do_caddi4spn env rv ir cycle p =
    Next (set_X (rd ir) (X rv rv_reg_sp + ucast (ucast (imm ir) :: u16)) rv) cycle p"

definition do_clw :: handler where
  [do_defs]: "do_clw env rv ir cycle p =
    (let addr = X rv (rs1 ir) + imm ir in
     RV_EXC_MISALIGN_HANDLER 3 LOAD_MISALIGNED True rv addr cycle p
       (Next (set_X (rd ir) (ram_read_w rv addr) rv) cycle p))"

definition do_csw :: handler where
  [do_defs]: "do_csw env rv ir cycle p =
    (let addr = X rv (rs1 ir) + imm ir in
     RV_EXC_MISALIGN_HANDLER 3 STORE_MISALIGNED True rv addr cycle p
       (Next (ram_write_w rv addr (X rv (rs2 ir))) cycle p))"

definition do_cnop :: handler where
  [do_defs]: "do_cnop env rv ir cycle p =
    Next rv cycle p"

definition do_caddi :: handler where
  [do_defs]: "do_caddi env rv ir cycle p =
    Next (set_X (rd ir) (X rv (rd ir) + scast (ucast (imm ir) :: u16)) rv) cycle p"

definition do_cjal :: handler where
  [do_defs]: "do_cjal env rv ir cycle p =
    (let rv = set_X rv_reg_ra (p + 2) rv;
         p' = p + imm ir in
     case branch_taken ir of
       Some taken \<Rightarrow> Tail taken (rv\<lparr>last_pc := p'\<rparr>) cycle p'
     | None \<Rightarrow> End_op rv cycle p')"

definition do_cli :: handler where
  [do_defs]: "do_cli env rv ir cycle p =
    Next (set_X (rd ir) (imm ir) rv) cycle p"

definition do_caddi16sp :: handler where
  [do_defs]: "do_caddi16sp env rv ir cycle p =
    Next (set_X (rd ir) (X rv (rd ir) + imm ir) rv) cycle p"

definition do_clui :: handler where
  [do_defs]: "do_clui env rv ir cycle p =
    Next (set_X (rd ir) (imm ir) rv) cycle p"

definition do_csrli :: handler where
  [do_defs]: "do_csrli env rv ir cycle p =
    Next (set_X (rs1 ir) (shr (X rv (rs1 ir)) (unat (shamt ir))) rv) cycle p"

text \<open>The loop of \<^verbatim>\<open>C.SRAI\<close> fills the vacated bits one by one with the sign.\<close>


definition do_csrai :: handler where
  [do_defs]: "do_csrai env rv ir cycle p =
    (let mask = 0x80000000 AND X rv (rs1 ir);
         rv = set_X (rs1 ir) (shr (X rv (rs1 ir)) (unat (shamt ir))) rv
     in Next (fold (\<lambda>i rv. set_X (rs1 ir) (X rv (rs1 ir) OR shr mask i) rv)
                [0..<unat (shamt ir)] rv) cycle p)"

definition do_candi :: handler where
  [do_defs]: "do_candi env rv ir cycle p =
    Next (set_X (rs1 ir) (X rv (rs1 ir) AND imm ir) rv) cycle p"

definition do_csub :: handler where
  [do_defs]: "do_csub env rv ir cycle p =
    Next (set_X (rd ir) (X rv (rs1 ir) - X rv (rs2 ir)) rv) cycle p"

definition do_cxor :: handler where
  [do_defs]: "do_cxor env rv ir cycle p =
    Next (set_X (rd ir) (X rv (rs1 ir) XOR X rv (rs2 ir)) rv) cycle p"

definition do_cor :: handler where
  [do_defs]: "do_cor env rv ir cycle p =
    Next (set_X (rd ir) (X rv (rs1 ir) OR X rv (rs2 ir)) rv) cycle p"

definition do_cand :: handler where
  [do_defs]: "do_cand env rv ir cycle p =
    Next (set_X (rd ir) (X rv (rs1 ir) AND X rv (rs2 ir)) rv) cycle p"

definition do_cj :: handler where
  [do_defs]: "do_cj env rv ir cycle p =
    (let p' = p + imm ir in
     case branch_taken ir of
       Some taken \<Rightarrow> Tail taken (rv\<lparr>last_pc := p'\<rparr>) cycle p'
     | None \<Rightarrow> End_op rv cycle p')"

definition do_cbeqz :: handler where
  [do_defs]: "do_cbeqz env rv ir cycle p =
    (if X rv (rs1 ir) \<noteq> 0 then
       (let rv = rv\<lparr>is_branch_taken := False\<rparr> in
        case branch_untaken ir of
          None \<Rightarrow> Next rv cycle p
        | Some untaken \<Rightarrow> Tail untaken (rv\<lparr>last_pc := p + 2\<rparr>) cycle (p + 2))
     else
       (let rv = rv\<lparr>is_branch_taken := True\<rparr>; p' = p + imm ir in
        case branch_taken ir of
          Some taken \<Rightarrow> Tail taken (rv\<lparr>last_pc := p'\<rparr>) cycle p'
        | None \<Rightarrow> End_op rv cycle p'))"

definition do_cbnez :: handler where
  [do_defs]: "do_cbnez env rv ir cycle p =
    (if X rv (rs1 ir) = 0 then
       (let rv = rv\<lparr>is_branch_taken := False\<rparr> in
        case branch_untaken ir of
          None \<Rightarrow> Next rv cycle p
        | Some untaken \<Rightarrow> Tail untaken (rv\<lparr>last_pc := p + 2\<rparr>) cycle (p + 2))
     else
       (let rv = rv\<lparr>is_branch_taken := True\<rparr>; p' = p + imm ir in
        case branch_taken ir of
          Some taken \<Rightarrow> Tail taken (rv\<lparr>last_pc := p'\<rparr>) cycle p'
        | None \<Rightarrow> End_op rv cycle p'))"

definition do_cslli :: handler where
  [do_defs]: "do_cslli env rv ir cycle p =
    (if unat (ucast (imm ir) :: u8) < 32 then
       Next (set_X (rd ir) (shl (X rv (rd ir)) (unat (ucast (imm ir) :: u8))) rv) cycle p
     else Undefined)"

definition do_clwsp :: handler where
  [do_defs]: "do_clwsp env rv ir cycle p =
    (let addr = X rv rv_reg_sp + imm ir in
     RV_EXC_MISALIGN_HANDLER 3 LOAD_MISALIGNED True rv addr cycle p
       (Next (set_X (rd ir) (ram_read_w rv addr) rv) cycle p))"

definition do_cjr :: handler where
  [do_defs]: "do_cjr env rv ir cycle p =
    Bht rv cycle (X rv (rs1 ir))"

definition do_cmv :: handler where
  [do_defs]: "do_cmv env rv ir cycle p =
    Next (set_X (rd ir) (X rv (rs2 ir)) rv) cycle p"

definition do_cebreak :: handler where
  [do_defs]: "do_cebreak env rv ir cycle p =
    ret_opt True (ebreak_handler (rv\<lparr>compressed := True, csr_cycle := cycle, PC := p\<rparr>))"

definition do_cjalr :: handler where
  [do_defs]: "do_cjalr env rv ir cycle p =
    (let jump_to = X rv (rs1 ir);
         rv = set_X rv_reg_ra (p + 2) rv
     in Bht rv cycle jump_to)"

definition do_cadd :: handler where
  [do_defs]: "do_cadd env rv ir cycle p =
    Next (set_X (rd ir) (X rv (rs1 ir) + X rv (rs2 ir)) rv) cycle p"

definition do_cswsp :: handler where
  [do_defs]: "do_cswsp env rv ir cycle p =
    (let addr = X rv rv_reg_sp + imm ir in
     RV_EXC_MISALIGN_HANDLER 3 STORE_MISALIGNED True rv addr cycle p
       (Next (ram_write_w rv addr (X rv (rs2 ir))) cycle p))"

definition do_cflwsp :: handler where
  [do_defs]: "do_cflwsp env rv ir cycle p =
    (let addr = X rv rv_reg_sp + imm ir in
     RV_EXC_MISALIGN_HANDLER 3 LOAD_MISALIGNED False rv addr cycle p
       (Next (set_F (rd ir) (ram_read_w rv addr) rv) cycle p))"

definition do_cfswsp :: handler where
  [do_defs]: "do_cfswsp env rv ir cycle p =
    (let addr = X rv rv_reg_sp + imm ir in
     RV_EXC_MISALIGN_HANDLER 3 STORE_MISALIGNED False rv addr cycle p
       (Next (ram_write_w rv addr (F rv (rs2 ir))) cycle p))"

definition do_cflw :: handler where
  [do_defs]: "do_cflw env rv ir cycle p =
    (let addr = X rv (rs1 ir) + imm ir in
     RV_EXC_MISALIGN_HANDLER 3 LOAD_MISALIGNED False rv addr cycle p
       (Next (set_F (rd ir) (ram_read_w rv addr) rv) cycle p))"

definition do_cfsw :: handler where
  [do_defs]: "do_cfsw env rv ir cycle p =
    (let addr = X rv (rs1 ir) + imm ir in
     RV_EXC_MISALIGN_HANDLER 3 STORE_MISALIGNED False rv addr cycle p
       (Next (ram_write_w rv addr (F rv (rs2 ir))) cycle p))"

section \<open>Zba, Zbb, Zbc, Zbs\<close>

definition do_sh1add :: handler where
  [do_defs]: "do_sh1add env rv ir cycle p =
    Next (set_X (rd ir) (shl (X rv (rs1 ir)) 1 + X rv (rs2 ir)) rv) cycle p"

definition do_sh2add :: handler where
  [do_defs]: "do_sh2add env rv ir cycle p =
    Next (set_X (rd ir) (shl (X rv (rs1 ir)) 2 + X rv (rs2 ir)) rv) cycle p"

definition do_sh3add :: handler where
  [do_defs]: "do_sh3add env rv ir cycle p =
    Next (set_X (rd ir) (shl (X rv (rs1 ir)) 3 + X rv (rs2 ir)) rv) cycle p"

definition do_andn :: handler where
  [do_defs]: "do_andn env rv ir cycle p =
    Next (set_X (rd ir) (X rv (rs1 ir) AND NOT (X rv (rs2 ir))) rv) cycle p"

definition do_orn :: handler where
  [do_defs]: "do_orn env rv ir cycle p =
    Next (set_X (rd ir) (X rv (rs1 ir) OR NOT (X rv (rs2 ir))) rv) cycle p"

definition do_xnor :: handler where
  [do_defs]: "do_xnor env rv ir cycle p =
    Next (set_X (rd ir) (NOT (X rv (rs1 ir) XOR X rv (rs2 ir))) rv) cycle p"

text \<open>The compiler builtins behind \<^verbatim>\<open>rv_clz\<close>, \<^verbatim>\<open>rv_ctz\<close> and \<^verbatim>\<open>rv_popcount\<close> (\<^verbatim>\<open>common.h\<close>).\<close>

definition rv_clz :: "u32 \<Rightarrow> u32" where
  "rv_clz v = of_nat (length (takeWhile (\<lambda>i. \<not> bit v i) (rev [0..<32])))"

definition rv_ctz :: "u32 \<Rightarrow> u32" where
  "rv_ctz v = of_nat (length (takeWhile (\<lambda>i. \<not> bit v i) [0..<32]))"

definition rv_popcount :: "u32 \<Rightarrow> u32" where
  "rv_popcount v = of_nat (length (filter (\<lambda>i. bit v i) [0..<32]))"


definition do_clz :: handler where
  [do_defs]: "do_clz env rv ir cycle p =
    Next (set_X (rd ir) (if X rv (rs1 ir) \<noteq> 0 then rv_clz (X rv (rs1 ir)) else 32) rv) cycle p"

definition do_ctz :: handler where
  [do_defs]: "do_ctz env rv ir cycle p =
    Next (set_X (rd ir) (if X rv (rs1 ir) \<noteq> 0 then rv_ctz (X rv (rs1 ir)) else 32) rv) cycle p"

definition do_cpop :: handler where
  [do_defs]: "do_cpop env rv ir cycle p =
    Next (set_X (rd ir) (rv_popcount (X rv (rs1 ir))) rv) cycle p"

definition do_max :: handler where
  [do_defs]: "do_max env rv ir cycle p =
    Next (set_X (rd ir) (if sint (X rv (rs1 ir)) > sint (X rv (rs2 ir)) then X rv (rs1 ir) else X rv (rs2 ir)) rv) cycle p"

definition do_min :: handler where
  [do_defs]: "do_min env rv ir cycle p =
    Next (set_X (rd ir) (if sint (X rv (rs1 ir)) < sint (X rv (rs2 ir)) then X rv (rs1 ir) else X rv (rs2 ir)) rv) cycle p"

definition do_maxu :: handler where
  [do_defs]: "do_maxu env rv ir cycle p =
    Next (set_X (rd ir) (if X rv (rs1 ir) > X rv (rs2 ir) then X rv (rs1 ir) else X rv (rs2 ir)) rv) cycle p"

definition do_minu :: handler where
  [do_defs]: "do_minu env rv ir cycle p =
    Next (set_X (rd ir) (if X rv (rs1 ir) < X rv (rs2 ir) then X rv (rs1 ir) else X rv (rs2 ir)) rv) cycle p"

definition do_sextb :: handler where
  [do_defs]: "do_sextb env rv ir cycle p =
    (let rv = set_X (rd ir) (X rv (rs1 ir) AND 0xFF) rv
     in Next (if X rv (rs1 ir) AND 0x80 \<noteq> 0 then set_X (rd ir) (X rv (rd ir) OR 0xFFFFFF00) rv else rv)
          cycle p)"

definition do_sexth :: handler where
  [do_defs]: "do_sexth env rv ir cycle p =
    (let rv = set_X (rd ir) (X rv (rs1 ir) AND 0xFFFF) rv
     in Next (if X rv (rs1 ir) AND 0x8000 \<noteq> 0 then set_X (rd ir) (X rv (rd ir) OR 0xFFFF0000) rv else rv)
          cycle p)"

definition do_zexth :: handler where
  [do_defs]: "do_zexth env rv ir cycle p =
    Next (set_X (rd ir) (X rv (rs1 ir) AND 0x0000FFFF) rv) cycle p"

text \<open>
  A rotation by 0 shifts by 32 in the other direction: undefined in C, and 0 or the operand
  itself on hosts; the disjunction is the operand in both cases. The model takes 0.
\<close>


definition do_rol :: handler where
  [do_defs]: "do_rol env rv ir cycle p =
    (let shamt = unat (X rv (rs2 ir) AND 0x1F) in
     Next (set_X (rd ir) (shl (X rv (rs1 ir)) shamt OR shr (X rv (rs1 ir)) (32 - shamt)) rv) cycle p)"

definition do_ror :: handler where
  [do_defs]: "do_ror env rv ir cycle p =
    (let shamt = unat (X rv (rs2 ir) AND 0x1F) in
     Next (set_X (rd ir) (shr (X rv (rs1 ir)) shamt OR shl (X rv (rs1 ir)) (32 - shamt)) rv) cycle p)"

definition do_rori :: handler where
  [do_defs]: "do_rori env rv ir cycle p =
    (let shamt = unat (imm ir AND 0x1F) in
     Next (set_X (rd ir) (shr (X rv (rs1 ir)) shamt OR shl (X rv (rs1 ir)) (32 - shamt)) rv) cycle p)"

definition do_orcb :: handler where
  [do_defs]: "do_orcb env rv ir cycle p =
    (let x = X rv (rs1 ir);
         rv = set_X (rd ir) 0 rv
     in Next (fold (\<lambda>i rv. if x AND shl 0xFF (i * 8) \<noteq> 0
                             then set_X (rd ir) (X rv (rd ir) OR shl 0xFF (i * 8)) rv else rv)
                [0,1,2,3] rv) cycle p)"

definition do_rev8 :: handler where
  [do_defs]: "do_rev8 env rv ir cycle p =
    Next (set_X (rd ir) (shl (X rv (rs1 ir) AND 0xFF) 24 OR shl (X rv (rs1 ir) AND 0xFF00) 8 OR
        shr (X rv (rs1 ir) AND 0xFF0000) 8 OR shr (X rv (rs1 ir) AND 0xFF000000) 24) rv) cycle p"

definition do_clmul :: handler where
  [do_defs]: "do_clmul env rv ir cycle p =
    Next (set_X (rd ir)
       (fold (\<lambda>i output. if shr (X rv (rs2 ir)) i AND 1 \<noteq> 0
                           then output XOR shl (X rv (rs1 ir)) i else output) [0..<32] 0) rv) cycle p"

definition do_clmulh :: handler where
  [do_defs]: "do_clmulh env rv ir cycle p =
    Next (set_X (rd ir)
       (fold (\<lambda>i output. if shr (X rv (rs2 ir)) i AND 1 \<noteq> 0
                           then output XOR shr (X rv (rs1 ir)) (32 - i) else output) [1..<32] 0) rv) cycle p"

definition do_clmulr :: handler where
  [do_defs]: "do_clmulr env rv ir cycle p =
    Next (set_X (rd ir)
       (fold (\<lambda>i output. if shr (X rv (rs2 ir)) i AND 1 \<noteq> 0
                           then output XOR shr (X rv (rs1 ir)) (32 - i - 1) else output) [0..<32] 0) rv) cycle p"

definition do_bclr :: handler where
  [do_defs]: "do_bclr env rv ir cycle p =
    (let index = unat (X rv (rs2 ir) AND 31) in
     Next (set_X (rd ir) (X rv (rs1 ir) AND NOT (shl 1 index)) rv) cycle p)"

definition do_bclri :: handler where
  [do_defs]: "do_bclri env rv ir cycle p =
    (let index = unat (imm ir AND 31) in
     Next (set_X (rd ir) (X rv (rs1 ir) AND NOT (shl 1 index)) rv) cycle p)"

definition do_bext :: handler where
  [do_defs]: "do_bext env rv ir cycle p =
    (let index = unat (X rv (rs2 ir) AND 31) in
     Next (set_X (rd ir) (shr (X rv (rs1 ir)) index AND 1) rv) cycle p)"

definition do_bexti :: handler where
  [do_defs]: "do_bexti env rv ir cycle p =
    (let index = unat (imm ir AND 31) in
     Next (set_X (rd ir) (shr (X rv (rs1 ir)) index AND 1) rv) cycle p)"

definition do_binv :: handler where
  [do_defs]: "do_binv env rv ir cycle p =
    (let index = unat (X rv (rs2 ir) AND 31) in
     Next (set_X (rd ir) (X rv (rs1 ir) XOR shl 1 index) rv) cycle p)"

definition do_binvi :: handler where
  [do_defs]: "do_binvi env rv ir cycle p =
    (let index = unat (imm ir AND 31) in
     Next (set_X (rd ir) (X rv (rs1 ir) XOR shl 1 index) rv) cycle p)"

definition do_bset :: handler where
  [do_defs]: "do_bset env rv ir cycle p =
    (let index = unat (X rv (rs2 ir) AND 31) in
     Next (set_X (rd ir) (X rv (rs1 ir) OR shl 1 index) rv) cycle p)"

definition do_bseti :: handler where
  [do_defs]: "do_bseti env rv ir cycle p =
    (let index = unat (imm ir AND 31) in
     Next (set_X (rd ir) (X rv (rs1 ir) OR shl 1 index) rv) cycle p)"

section \<open>Dispatch\<close>

text \<open>\<^verbatim>\<open>dispatch_table\<close>: the handler of each opcode of \<^verbatim>\<open>RV_INSN_LIST\<close>. The fused opcodes are in theory Fusion.\<close>

fun do_base :: "base_op \<Rightarrow> handler" where
  "do_base Rv_nop = do_nop"
| "do_base Rv_lui = do_lui"
| "do_base Rv_auipc = do_auipc"
| "do_base Rv_jal = do_jal"
| "do_base Rv_jalr = do_jalr"
| "do_base Rv_beq = do_beq"
| "do_base Rv_bne = do_bne"
| "do_base Rv_blt = do_blt"
| "do_base Rv_bge = do_bge"
| "do_base Rv_bltu = do_bltu"
| "do_base Rv_bgeu = do_bgeu"
| "do_base Rv_lb = do_lb"
| "do_base Rv_lh = do_lh"
| "do_base Rv_lw = do_lw"
| "do_base Rv_lbu = do_lbu"
| "do_base Rv_lhu = do_lhu"
| "do_base Rv_sb = do_sb"
| "do_base Rv_sh = do_sh"
| "do_base Rv_sw = do_sw"
| "do_base Rv_addi = do_addi"
| "do_base Rv_slti = do_slti"
| "do_base Rv_sltiu = do_sltiu"
| "do_base Rv_xori = do_xori"
| "do_base Rv_ori = do_ori"
| "do_base Rv_andi = do_andi"
| "do_base Rv_slli = do_slli"
| "do_base Rv_srli = do_srli"
| "do_base Rv_srai = do_srai"
| "do_base Rv_add = do_add"
| "do_base Rv_sub = do_sub"
| "do_base Rv_sll = do_sll"
| "do_base Rv_slt = do_slt"
| "do_base Rv_sltu = do_sltu"
| "do_base Rv_xor = do_xor"
| "do_base Rv_srl = do_srl"
| "do_base Rv_sra = do_sra"
| "do_base Rv_or = do_or"
| "do_base Rv_and = do_and"
| "do_base Rv_fence = do_fence"
| "do_base Rv_ecall = do_ecall"
| "do_base Rv_ebreak = do_ebreak"

fun do_sys :: "sys_op \<Rightarrow> handler" where
  "do_sys Rv_wfi = do_wfi"
| "do_sys Rv_uret = do_uret"
| "do_sys Rv_hret = do_hret"
| "do_sys Rv_mret = do_mret"
| "do_sys Rv_sfencevma = do_sfencevma"
| "do_sys Rv_fencei = do_fencei"
| "do_sys Rv_csrrw = do_csrrw"
| "do_sys Rv_csrrs = do_csrrs"
| "do_sys Rv_csrrc = do_csrrc"
| "do_sys Rv_csrrwi = do_csrrwi"
| "do_sys Rv_csrrsi = do_csrrsi"
| "do_sys Rv_csrrci = do_csrrci"

fun do_bit :: "bit_op \<Rightarrow> handler" where
  "do_bit Rv_sh1add = do_sh1add"
| "do_bit Rv_sh2add = do_sh2add"
| "do_bit Rv_sh3add = do_sh3add"
| "do_bit Rv_andn = do_andn"
| "do_bit Rv_orn = do_orn"
| "do_bit Rv_xnor = do_xnor"
| "do_bit Rv_clz = do_clz"
| "do_bit Rv_ctz = do_ctz"
| "do_bit Rv_cpop = do_cpop"
| "do_bit Rv_max = do_max"
| "do_bit Rv_maxu = do_maxu"
| "do_bit Rv_min = do_min"
| "do_bit Rv_minu = do_minu"
| "do_bit Rv_sextb = do_sextb"
| "do_bit Rv_sexth = do_sexth"
| "do_bit Rv_zexth = do_zexth"
| "do_bit Rv_rol = do_rol"
| "do_bit Rv_ror = do_ror"
| "do_bit Rv_rori = do_rori"
| "do_bit Rv_orcb = do_orcb"
| "do_bit Rv_rev8 = do_rev8"
| "do_bit Rv_clmul = do_clmul"
| "do_bit Rv_clmulh = do_clmulh"
| "do_bit Rv_clmulr = do_clmulr"
| "do_bit Rv_bclr = do_bclr"
| "do_bit Rv_bclri = do_bclri"
| "do_bit Rv_bext = do_bext"
| "do_bit Rv_bexti = do_bexti"
| "do_bit Rv_binv = do_binv"
| "do_bit Rv_binvi = do_binvi"
| "do_bit Rv_bset = do_bset"
| "do_bit Rv_bseti = do_bseti"

fun do_mul_ext :: "mul_op \<Rightarrow> handler" where
  "do_mul_ext Rv_mul = do_mul"
| "do_mul_ext Rv_mulh = do_mulh"
| "do_mul_ext Rv_mulhsu = do_mulhsu"
| "do_mul_ext Rv_mulhu = do_mulhu"
| "do_mul_ext Rv_div = do_div"
| "do_mul_ext Rv_divu = do_divu"
| "do_mul_ext Rv_rem = do_rem"
| "do_mul_ext Rv_remu = do_remu"

fun do_amo :: "amo_op \<Rightarrow> handler" where
  "do_amo Rv_lrw = do_lrw"
| "do_amo Rv_scw = do_scw"
| "do_amo Rv_amoswapw = do_amoswapw"
| "do_amo Rv_amoaddw = do_amoaddw"
| "do_amo Rv_amoxorw = do_amoxorw"
| "do_amo Rv_amoandw = do_amoandw"
| "do_amo Rv_amoorw = do_amoorw"
| "do_amo Rv_amominw = do_amominw"
| "do_amo Rv_amomaxw = do_amomaxw"
| "do_amo Rv_amominuw = do_amominuw"
| "do_amo Rv_amomaxuw = do_amomaxuw"

fun do_fp :: "fp_op \<Rightarrow> handler" where
  "do_fp Rv_flw = do_flw"
| "do_fp Rv_fsw = do_fsw"
| "do_fp Rv_fmadds = do_fmadds"
| "do_fp Rv_fmsubs = do_fmsubs"
| "do_fp Rv_fnmsubs = do_fnmsubs"
| "do_fp Rv_fnmadds = do_fnmadds"
| "do_fp Rv_fadds = do_fadds"
| "do_fp Rv_fsubs = do_fsubs"
| "do_fp Rv_fmuls = do_fmuls"
| "do_fp Rv_fdivs = do_fdivs"
| "do_fp Rv_fsqrts = do_fsqrts"
| "do_fp Rv_fsgnjs = do_fsgnjs"
| "do_fp Rv_fsgnjns = do_fsgnjns"
| "do_fp Rv_fsgnjxs = do_fsgnjxs"
| "do_fp Rv_fmins = do_fmins"
| "do_fp Rv_fmaxs = do_fmaxs"
| "do_fp Rv_fcvtws = do_fcvtws"
| "do_fp Rv_fcvtwus = do_fcvtwus"
| "do_fp Rv_fmvxw = do_fmvxw"
| "do_fp Rv_feqs = do_feqs"
| "do_fp Rv_flts = do_flts"
| "do_fp Rv_fles = do_fles"
| "do_fp Rv_fclasss = do_fclasss"
| "do_fp Rv_fcvtsw = do_fcvtsw"
| "do_fp Rv_fcvtswu = do_fcvtswu"
| "do_fp Rv_fmvwx = do_fmvwx"

fun do_c :: "c_op \<Rightarrow> handler" where
  "do_c Rv_caddi4spn = do_caddi4spn"
| "do_c Rv_clw = do_clw"
| "do_c Rv_csw = do_csw"
| "do_c Rv_cnop = do_cnop"
| "do_c Rv_caddi = do_caddi"
| "do_c Rv_cjal = do_cjal"
| "do_c Rv_cli = do_cli"
| "do_c Rv_caddi16sp = do_caddi16sp"
| "do_c Rv_clui = do_clui"
| "do_c Rv_csrli = do_csrli"
| "do_c Rv_csrai = do_csrai"
| "do_c Rv_candi = do_candi"
| "do_c Rv_csub = do_csub"
| "do_c Rv_cxor = do_cxor"
| "do_c Rv_cor = do_cor"
| "do_c Rv_cand = do_cand"
| "do_c Rv_cj = do_cj"
| "do_c Rv_cbeqz = do_cbeqz"
| "do_c Rv_cbnez = do_cbnez"
| "do_c Rv_cslli = do_cslli"
| "do_c Rv_clwsp = do_clwsp"
| "do_c Rv_cjr = do_cjr"
| "do_c Rv_cmv = do_cmv"
| "do_c Rv_cebreak = do_cebreak"
| "do_c Rv_cjalr = do_cjalr"
| "do_c Rv_cadd = do_cadd"
| "do_c Rv_cswsp = do_cswsp"
| "do_c Rv_cflwsp = do_cflwsp"
| "do_c Rv_cfswsp = do_cfswsp"
| "do_c Rv_cflw = do_cflw"
| "do_c Rv_cfsw = do_cfsw"

text \<open>
  The \<^verbatim>\<open>RVOP\<close> macro: count the cycle, run the body, and at \<^verbatim>\<open>nextop\<close> advance the PC by the length
  of the instruction.
\<close>

definition RVOP :: "u32 \<Rightarrow> handler \<Rightarrow> handler" where
  "RVOP len body env rv ir cycle p =
    (case body env rv ir (cycle + 1) p of
       Next rv cycle p \<Rightarrow> Next rv cycle (p + len)
     | r \<Rightarrow> r)"


end
