(* ===== verification/Exec.thy ===== *)
theory Exec
  imports Interp
begin

unbundle bit_operations_syntax

text \<open>
  The handlers of the fused instructions (\<^verbatim>\<open>emulate.c\<close>, \<open>do_fuse1\<close> to \<open>do_fuse12\<close>), the dispatch
  table, and the execution of a block: the chain of tail calls that \<^verbatim>\<open>RVOP\<close> and
  \<^verbatim>\<open>fuse_next_or_stop\<close> make from one instruction of the block's list to the next, up to the
  first \<^verbatim>\<open>return\<close> or the first tail call that leaves the block.
\<close>

section \<open>Fused handlers\<close>

text \<open>\<open>fuse_entries\<close>: the entries the loops \<^verbatim>\<open>for (i = 0; i < ir->imm2; i++)\<close> visit.\<close>

definition fuse_entries :: "rv_insn \<Rightarrow> opcode_fuse list" where
  [fuse_defs]: "fuse_entries ir = take (unat (imm2 ir)) (fuse ir)"

definition do_fuse1 :: handler where
  [fuse_defs]: "do_fuse1 env rv ir cycle p =
    (let cycle = cycle + scast (imm2 ir);
         rv = fold (\<lambda>f rv. set_X (f_rd f) (f_imm f) rv) (fuse_entries ir) rv
     in Fuse_next rv cycle (p + imm2 ir * 4))"

definition do_fuse2 :: handler where
  [fuse_defs]: "do_fuse2 env rv ir cycle p =
    (let cycle = cycle + 2;
         rv = set_X (rd ir) (imm ir) rv;
         rv = set_X (rs2 ir) (X rv (rd ir) + X rv (rs1 ir)) rv
     in Fuse_next rv cycle (p + 8))"

fun fuse3_loop :: "opcode_fuse list \<Rightarrow> riscv \<Rightarrow> u64 \<Rightarrow> u32 \<Rightarrow> (riscv \<Rightarrow> outcome) \<Rightarrow> outcome" where
  "fuse3_loop [] rv cycle p rest = rest rv"
| "fuse3_loop (f # fs) rv cycle p rest =
    (let addr = X rv (f_rs1 f) + f_imm f in
     RV_EXC_MISALIGN_HANDLER 3 STORE_MISALIGNED False rv addr cycle p
       (let value = X rv (f_rs2 f)
        in fuse3_loop fs (ram_write_w rv addr value) cycle p rest))"

definition do_fuse3 :: handler where
  [fuse_defs]: "do_fuse3 env rv ir cycle p =
    (let cycle = cycle + scast (imm2 ir)
     in fuse3_loop (fuse_entries ir) rv cycle p
          (\<lambda>rv. Fuse_next rv cycle (p + imm2 ir * 4)))"

fun fuse4_loop :: "opcode_fuse list \<Rightarrow> riscv \<Rightarrow> u64 \<Rightarrow> u32 \<Rightarrow> (riscv \<Rightarrow> outcome) \<Rightarrow> outcome" where
  "fuse4_loop [] rv cycle p rest = rest rv"
| "fuse4_loop (f # fs) rv cycle p rest =
    (let addr = X rv (f_rs1 f) + f_imm f in
     RV_EXC_MISALIGN_HANDLER 3 LOAD_MISALIGNED False rv addr cycle p
       (fuse4_loop fs (set_X (f_rd f) (ram_read_w rv addr) rv) cycle p rest))"

definition do_fuse4 :: handler where
  [fuse_defs]: "do_fuse4 env rv ir cycle p =
    (let cycle = cycle + scast (imm2 ir)
     in fuse4_loop (fuse_entries ir) rv cycle p
          (\<lambda>rv. Fuse_next rv cycle (p + imm2 ir * 4)))"

definition fuse_shift_exec :: "riscv \<Rightarrow> opcode_fuse \<Rightarrow> riscv option" where
  [fuse_defs]: "fuse_shift_exec rv f =
    (if f_opcode f = I_op Rv_slli then
       Some (set_X (f_rd f) (shl (X rv (f_rs1 f)) (unat (f_imm f AND 0x1F))) rv)
     else if f_opcode f = I_op Rv_srli then
       Some (set_X (f_rd f) (shr (X rv (f_rs1 f)) (unat (f_imm f AND 0x1F))) rv)
     else if f_opcode f = I_op Rv_srai then
       Some (set_X (f_rd f) (sar (X rv (f_rs1 f)) (unat (f_imm f AND 0x1F))) rv)
     else None)"

fun fuse5_loop :: "opcode_fuse list \<Rightarrow> riscv \<Rightarrow> riscv option" where
  "fuse5_loop [] rv = Some rv"
| "fuse5_loop (f # fs) rv =
    (case fuse_shift_exec rv f of None \<Rightarrow> None | Some rv \<Rightarrow> fuse5_loop fs rv)"

definition do_fuse5 :: handler where
  [fuse_defs]: "do_fuse5 env rv ir cycle p =
    (let cycle = cycle + scast (imm2 ir) in
     case fuse5_loop (fuse_entries ir) rv of
       None \<Rightarrow> Undefined
     | Some rv \<Rightarrow> Fuse_next rv cycle (p + imm2 ir * 4))"

definition do_fuse6 :: handler where
  [fuse_defs]: "do_fuse6 env rv ir cycle p =
    (let cycle = cycle + 2;
         rv = set_X rv_reg_a7 (imm ir) rv;
         rv = rv\<lparr>compressed := False, csr_cycle := cycle, PC := p + 4\<rparr>
     in ret_opt True (ecall_handler (syscall_handler env) rv))"

definition do_fuse7 :: handler where
  [fuse_defs]: "do_fuse7 env rv ir cycle p =
    (let cycle = cycle + scast (imm2 ir);
         rv = fold (\<lambda>f rv. set_X (f_rd f) (X rv (f_rs1 f) + f_imm f) rv) (fuse_entries ir) rv
     in Fuse_next rv cycle (p + imm2 ir * 4))"

definition do_fuse8 :: handler where
  [fuse_defs]: "do_fuse8 env rv ir cycle p =
    Fuse_next (set_X (rd ir) (imm ir + imm2 ir) rv) (cycle + 2) (p + 8)"

definition do_fuse9 :: handler where
  [fuse_defs]: "do_fuse9 env rv ir cycle p =
    (let cycle = cycle + 2;
         rv = set_X (rd ir) (imm ir) rv;
         addr = imm ir + imm2 ir in
     RV_EXC_MISALIGN_HANDLER 3 LOAD_MISALIGNED False rv addr cycle p
       (Fuse_next (set_X (rs2 ir) (ram_read_w rv addr) rv) cycle (p + 8)))"

definition do_fuse10 :: handler where
  [fuse_defs]: "do_fuse10 env rv ir cycle p =
    (let cycle = cycle + 2;
         rv = set_X (rd ir) (imm ir) rv;
         addr = imm ir + imm2 ir in
     RV_EXC_MISALIGN_HANDLER 3 STORE_MISALIGNED False rv addr cycle p
       (let value = X rv (rs1 ir)
        in Fuse_next (ram_write_w rv addr value) cycle (p + 8)))"

definition do_fuse11 :: handler where
  [fuse_defs]: "do_fuse11 env rv ir cycle p =
    (let cycle = cycle + 2;
         addr = X rv (rs1 ir) + imm ir in
     RV_EXC_MISALIGN_HANDLER 3 LOAD_MISALIGNED False rv addr cycle p
       (let rv = set_X (rd ir) (ram_read_w rv addr) rv;
            rv = set_X (rs1 ir) (X rv (rs1 ir) + imm2 ir) rv
        in Fuse_next rv cycle (p + 8)))"

definition sync :: "riscv \<Rightarrow> u64 \<Rightarrow> u32 \<Rightarrow> outcome" where
  [fuse_defs]: "sync rv cycle p = Ret True (rv\<lparr>csr_cycle := cycle, PC := p\<rparr>)"

definition do_fuse12 :: handler where
  [fuse_defs]: "do_fuse12 env rv ir cycle p =
    (let cycle = cycle + 2;
         rv = set_X (rd ir) (X rv (rs1 ir) + imm ir) rv in
     if X rv (rd ir) \<noteq> 0 then
       (let rv = rv\<lparr>is_branch_taken := True\<rparr>; p' = p + 4 + imm2 ir in
        case branch_taken ir of
          Some taken \<Rightarrow> Tail taken (rv\<lparr>last_pc := p'\<rparr>) cycle p'
        | None \<Rightarrow> sync rv cycle p')
     else
       (let rv = rv\<lparr>is_branch_taken := False\<rparr>; p' = p + 8 in
        case branch_untaken ir of
          Some untaken \<Rightarrow> Tail untaken (rv\<lparr>last_pc := p'\<rparr>) cycle p'
        | None \<Rightarrow> sync rv cycle p'))"

fun do_fuse :: "fuse_op \<Rightarrow> handler" where
  "do_fuse Rv_fuse1 = do_fuse1"
| "do_fuse Rv_fuse2 = do_fuse2"
| "do_fuse Rv_fuse3 = do_fuse3"
| "do_fuse Rv_fuse4 = do_fuse4"
| "do_fuse Rv_fuse5 = do_fuse5"
| "do_fuse Rv_fuse6 = do_fuse6"
| "do_fuse Rv_fuse7 = do_fuse7"
| "do_fuse Rv_fuse8 = do_fuse8"
| "do_fuse Rv_fuse9 = do_fuse9"
| "do_fuse Rv_fuse10 = do_fuse10"
| "do_fuse Rv_fuse11 = do_fuse11"
| "do_fuse Rv_fuse12 = do_fuse12"

section \<open>Dispatch\<close>

fun dispatch_op :: "opcode \<Rightarrow> handler" where
  "dispatch_op (I_op b) = RVOP 4 (do_base b)"
| "dispatch_op (S_op b) = RVOP 4 (do_sys b)"
| "dispatch_op (B_op b) = RVOP 4 (do_bit b)"
| "dispatch_op (M_op b) = RVOP 4 (do_mul_ext b)"
| "dispatch_op (A_op b) = RVOP 4 (do_amo b)"
| "dispatch_op (F_op b) = RVOP 4 (do_fp b)"
| "dispatch_op (C_op b) = RVOP 2 (do_c b)"
| "dispatch_op (Fuse_op b) = do_fuse b"

definition dispatch :: handler where
  "dispatch env rv ir = dispatch_op (opcode ir) env rv ir"

section \<open>A block's chain of handlers\<close>

text \<open>
  The label \<^verbatim>\<open>end_op\<close>: a block cut at a page boundary falls through to the block chained behind
  it; otherwise the cycle count and the PC are written back.
\<close>

definition end_op :: "rv_insn \<Rightarrow> riscv \<Rightarrow> u64 \<Rightarrow> u32 \<Rightarrow> outcome" where
  "end_op ir rv cycle p =
    (if \<not> insn_is_branch (opcode ir) then
       (case branch_taken ir of
          Some taken \<Rightarrow> Tail taken (rv\<lparr>last_pc := p\<rparr>) cycle p
        | None \<Rightarrow> sync rv cycle p)
     else sync rv cycle p)"

fun exec :: "env \<Rightarrow> rv_insn list \<Rightarrow> riscv \<Rightarrow> u64 \<Rightarrow> u32 \<Rightarrow> outcome" where
  "exec env [] rv cycle p = Undefined"
| "exec env (ir # irs) rv cycle p =
    (case dispatch env rv ir cycle p of
       Next rv cycle p \<Rightarrow> (if irs = [] then end_op ir rv cycle p else exec env irs rv cycle p)
     | Fuse_next rv cycle p \<Rightarrow> (if irs = [] then sync rv cycle p else exec env irs rv cycle p)
     | End_op rv cycle p \<Rightarrow> end_op ir rv cycle p
     | r \<Rightarrow> r)"

end
