(* ===== verification/Constopt.thy ===== *)
theory Constopt
  imports Exec
begin

unbundle bit_operations_syntax

text \<open>
  Constant propagation inside a block (\<^verbatim>\<open>rv32_constopt.c\<close>): one definition \<open>constopt_x\<close> per
  \<^verbatim>\<open>CONSTOPT(x, { ... })\<close>, and \<^verbatim>\<open>optimize_constant\<close> of \<^verbatim>\<open>emulate.c\<close>, which folds them over the
  instructions of a block. An instruction whose operands are known becomes \<^verbatim>\<open>lui\<close> (\<^verbatim>\<open>clui\<close> for
  a 16-bit one, so that the length stays) with the whole result as immediate; a branch with
  known operands becomes an unconditional jump.
\<close>

record constopt_info =
  is_constant :: "u8 \<Rightarrow> bool"
  const_val :: "u8 \<Rightarrow> u32"

type_synonym constopt_func = "rv_insn \<Rightarrow> constopt_info \<Rightarrow> rv_insn \<times> constopt_info"

definition not_constant :: "u8 \<Rightarrow> constopt_info \<Rightarrow> constopt_info" where
  [constopt_defs]: "not_constant r info = info\<lparr>is_constant := (is_constant info)(r := False)\<rparr>"

definition set_constant :: "u8 \<Rightarrow> u32 \<Rightarrow> constopt_info \<Rightarrow> constopt_info" where
  [constopt_defs]: "set_constant r v info =
    info\<lparr>is_constant := (is_constant info)(r := True), const_val := (const_val info)(r := v)\<rparr>"

text \<open>Become a constant load of \<open>v\<close>, 32 or 16 bits long.\<close>

definition to_lui :: "rv_insn \<Rightarrow> u32 \<Rightarrow> rv_insn" where
  [constopt_defs]: "to_lui ir v = ir\<lparr>imm := v, opcode := I_op Rv_lui\<rparr>"

definition to_clui :: "rv_insn \<Rightarrow> u32 \<Rightarrow> rv_insn" where
  [constopt_defs]: "to_clui ir v = ir\<lparr>imm := v, opcode := C_op Rv_clui\<rparr>"

section \<open>RV32I\<close>

definition constopt_nop :: constopt_func where
  [constopt_defs]: "constopt_nop ir info =
    (ir, info)"

definition constopt_lui :: constopt_func where
  [constopt_defs]: "constopt_lui ir info =
    (ir, set_constant (rd ir) (imm ir) info)"

definition constopt_auipc :: constopt_func where
  [constopt_defs]: "constopt_auipc ir info =
    (let v = imm ir + pc ir in (to_lui ir v, set_constant (rd ir) v info))"

definition constopt_jal :: constopt_func where
  [constopt_defs]: "constopt_jal ir info =
    (ir, if rd ir \<noteq> 0 then set_constant (rd ir) (pc ir + 4) info else info)"

definition constopt_jalr :: constopt_func where
  [constopt_defs]: "constopt_jalr ir info =
    (ir, if rd ir \<noteq> 0 then set_constant (rd ir) (pc ir + 4) info else info)"

text \<open>\<^verbatim>\<open>OPT_BRANCH_FUNC\<close>, with the condition under which the branch is not taken.\<close>

definition OPT_BRANCH_FUNC :: "(u32 \<Rightarrow> u32 \<Rightarrow> bool) \<Rightarrow> constopt_func" where
  [constopt_defs]: "OPT_BRANCH_FUNC untaken_cond ir info =
    (if is_constant info (rs1 ir) \<and> is_constant info (rs2 ir) then
       (ir\<lparr>imm := if untaken_cond (const_val info (rs1 ir)) (const_val info (rs2 ir)) then 4 else imm ir,
           opcode := I_op Rv_jal\<rparr>, info)
     else (ir, info))"

definition constopt_beq :: constopt_func where
  [constopt_defs]: "constopt_beq ir info =
    OPT_BRANCH_FUNC (\<lambda>x y. x \<noteq> y) ir info"

definition constopt_bne :: constopt_func where
  [constopt_defs]: "constopt_bne ir info =
    OPT_BRANCH_FUNC (\<lambda>x y. x = y) ir info"

definition constopt_blt :: constopt_func where
  [constopt_defs]: "constopt_blt ir info =
    OPT_BRANCH_FUNC (\<lambda>x y. sint x \<ge> sint y) ir info"

definition constopt_bge :: constopt_func where
  [constopt_defs]: "constopt_bge ir info =
    OPT_BRANCH_FUNC (\<lambda>x y. sint x < sint y) ir info"

definition constopt_bltu :: constopt_func where
  [constopt_defs]: "constopt_bltu ir info =
    OPT_BRANCH_FUNC (\<lambda>x y. x \<ge> y) ir info"

definition constopt_bgeu :: constopt_func where
  [constopt_defs]: "constopt_bgeu ir info =
    OPT_BRANCH_FUNC (\<lambda>x y. x < y) ir info"

definition constopt_lb :: constopt_func where
  [constopt_defs]: "constopt_lb ir info =
    (ir, not_constant (rd ir) info)"

definition constopt_lh :: constopt_func where
  [constopt_defs]: "constopt_lh ir info =
    (ir, not_constant (rd ir) info)"

definition constopt_lw :: constopt_func where
  [constopt_defs]: "constopt_lw ir info =
    (ir, not_constant (rd ir) info)"

definition constopt_lbu :: constopt_func where
  [constopt_defs]: "constopt_lbu ir info =
    (ir, not_constant (rd ir) info)"

definition constopt_lhu :: constopt_func where
  [constopt_defs]: "constopt_lhu ir info =
    (ir, not_constant (rd ir) info)"

definition constopt_sb :: constopt_func where
  [constopt_defs]: "constopt_sb ir info =
    (ir, info)"

definition constopt_sh :: constopt_func where
  [constopt_defs]: "constopt_sh ir info =
    (ir, info)"

definition constopt_sw :: constopt_func where
  [constopt_defs]: "constopt_sw ir info =
    (ir, info)"

definition constopt_addi :: constopt_func where
  [constopt_defs]: "constopt_addi ir info =
    (if is_constant info (rs1 ir) then
       (let v = imm ir + const_val info (rs1 ir) in (to_lui ir v, set_constant (rd ir) v info))
     else (ir, not_constant (rd ir) info))"

definition constopt_slti :: constopt_func where
  [constopt_defs]: "constopt_slti ir info =
    (if is_constant info (rs1 ir) then
       (let v = if sint (const_val info (rs1 ir)) < sint (imm ir) then 1 else 0 in (to_lui ir v, set_constant (rd ir) v info))
     else (ir, not_constant (rd ir) info))"

definition constopt_sltiu :: constopt_func where
  [constopt_defs]: "constopt_sltiu ir info =
    (if is_constant info (rs1 ir) then
       (let v = if const_val info (rs1 ir) < imm ir then 1 else 0 in (to_lui ir v, set_constant (rd ir) v info))
     else (ir, not_constant (rd ir) info))"

definition constopt_xori :: constopt_func where
  [constopt_defs]: "constopt_xori ir info =
    (if is_constant info (rs1 ir) then
       (let v = imm ir XOR const_val info (rs1 ir) in (to_lui ir v, set_constant (rd ir) v info))
     else (ir, not_constant (rd ir) info))"

definition constopt_ori :: constopt_func where
  [constopt_defs]: "constopt_ori ir info =
    (if is_constant info (rs1 ir) then
       (let v = imm ir OR const_val info (rs1 ir) in (to_lui ir v, set_constant (rd ir) v info))
     else (ir, not_constant (rd ir) info))"

definition constopt_andi :: constopt_func where
  [constopt_defs]: "constopt_andi ir info =
    (if is_constant info (rs1 ir) then
       (let v = imm ir AND const_val info (rs1 ir) in (to_lui ir v, set_constant (rd ir) v info))
     else (ir, not_constant (rd ir) info))"

definition constopt_slli :: constopt_func where
  [constopt_defs]: "constopt_slli ir info =
    (if is_constant info (rs1 ir) then
       (let v = shl (const_val info (rs1 ir)) (unat (imm ir AND 0x1F)) in (to_lui ir v, set_constant (rd ir) v info))
     else (ir, not_constant (rd ir) info))"

definition constopt_srli :: constopt_func where
  [constopt_defs]: "constopt_srli ir info =
    (if is_constant info (rs1 ir) then
       (let v = shr (const_val info (rs1 ir)) (unat (imm ir AND 0x1F)) in (to_lui ir v, set_constant (rd ir) v info))
     else (ir, not_constant (rd ir) info))"

definition constopt_srai :: constopt_func where
  [constopt_defs]: "constopt_srai ir info =
    (if is_constant info (rs1 ir) then
       (let v = sar (const_val info (rs1 ir)) (unat (imm ir AND 0x1F)) in (to_lui ir v, set_constant (rd ir) v info))
     else (ir, not_constant (rd ir) info))"

definition constopt_add :: constopt_func where
  [constopt_defs]: "constopt_add ir info =
    (if is_constant info (rs1 ir) \<and> is_constant info (rs2 ir) then
       (let v = const_val info (rs1 ir) + const_val info (rs2 ir) in (to_lui ir v, set_constant (rd ir) v info))
     else (ir, not_constant (rd ir) info))"

definition constopt_sub :: constopt_func where
  [constopt_defs]: "constopt_sub ir info =
    (if is_constant info (rs1 ir) \<and> is_constant info (rs2 ir) then
       (let v = const_val info (rs1 ir) - const_val info (rs2 ir) in (to_lui ir v, set_constant (rd ir) v info))
     else (ir, not_constant (rd ir) info))"

definition constopt_sll :: constopt_func where
  [constopt_defs]: "constopt_sll ir info =
    (if is_constant info (rs1 ir) \<and> is_constant info (rs2 ir) then
       (let v = shl (const_val info (rs1 ir)) (unat (const_val info (rs2 ir) AND 0x1F)) in (to_lui ir v, set_constant (rd ir) v info))
     else (ir, not_constant (rd ir) info))"

definition constopt_slt :: constopt_func where
  [constopt_defs]: "constopt_slt ir info =
    (if is_constant info (rs1 ir) \<and> is_constant info (rs2 ir) then
       (let v = if sint (const_val info (rs1 ir)) < sint (const_val info (rs2 ir)) then 1 else 0 in (to_lui ir v, set_constant (rd ir) v info))
     else (ir, not_constant (rd ir) info))"

definition constopt_sltu :: constopt_func where
  [constopt_defs]: "constopt_sltu ir info =
    (if is_constant info (rs1 ir) \<and> is_constant info (rs2 ir) then
       (let v = if const_val info (rs1 ir) < const_val info (rs2 ir) then 1 else 0 in (to_lui ir v, set_constant (rd ir) v info))
     else (ir, not_constant (rd ir) info))"

definition constopt_xor :: constopt_func where
  [constopt_defs]: "constopt_xor ir info =
    (if is_constant info (rs1 ir) \<and> is_constant info (rs2 ir) then
       (let v = const_val info (rs1 ir) XOR const_val info (rs2 ir) in (to_lui ir v, set_constant (rd ir) v info))
     else (ir, not_constant (rd ir) info))"

definition constopt_srl :: constopt_func where
  [constopt_defs]: "constopt_srl ir info =
    (if is_constant info (rs1 ir) \<and> is_constant info (rs2 ir) then
       (let v = shr (const_val info (rs1 ir)) (unat (const_val info (rs2 ir) AND 0x1F)) in (to_lui ir v, set_constant (rd ir) v info))
     else (ir, not_constant (rd ir) info))"

definition constopt_sra :: constopt_func where
  [constopt_defs]: "constopt_sra ir info =
    (if is_constant info (rs1 ir) \<and> is_constant info (rs2 ir) then
       (let v = sar (const_val info (rs1 ir)) (unat (const_val info (rs2 ir) AND 0x1F)) in (to_lui ir v, set_constant (rd ir) v info))
     else (ir, not_constant (rd ir) info))"

definition constopt_or :: constopt_func where
  [constopt_defs]: "constopt_or ir info =
    (if is_constant info (rs1 ir) \<and> is_constant info (rs2 ir) then
       (let v = const_val info (rs1 ir) OR const_val info (rs2 ir) in (to_lui ir v, set_constant (rd ir) v info))
     else (ir, not_constant (rd ir) info))"

definition constopt_and :: constopt_func where
  [constopt_defs]: "constopt_and ir info =
    (if is_constant info (rs1 ir) \<and> is_constant info (rs2 ir) then
       (let v = const_val info (rs1 ir) AND const_val info (rs2 ir) in (to_lui ir v, set_constant (rd ir) v info))
     else (ir, not_constant (rd ir) info))"

definition constopt_fence :: constopt_func where
  [constopt_defs]: "constopt_fence ir info =
    (ir, info)"

definition constopt_ecall :: constopt_func where
  [constopt_defs]: "constopt_ecall ir info =
    (ir, info)"

definition constopt_ebreak :: constopt_func where
  [constopt_defs]: "constopt_ebreak ir info =
    (ir, info)"

section \<open>Privileged instructions, Zifencei and Zicsr\<close>

definition constopt_wfi :: constopt_func where
  [constopt_defs]: "constopt_wfi ir info =
    (ir, info)"

definition constopt_uret :: constopt_func where
  [constopt_defs]: "constopt_uret ir info =
    (ir, info)"

definition constopt_hret :: constopt_func where
  [constopt_defs]: "constopt_hret ir info =
    (ir, info)"

definition constopt_mret :: constopt_func where
  [constopt_defs]: "constopt_mret ir info =
    (ir, info)"

definition constopt_sfencevma :: constopt_func where
  [constopt_defs]: "constopt_sfencevma ir info =
    (ir, info)"

definition constopt_fencei :: constopt_func where
  [constopt_defs]: "constopt_fencei ir info =
    (ir, info)"

definition constopt_csrrw :: constopt_func where
  [constopt_defs]: "constopt_csrrw ir info =
    (ir, not_constant (rd ir) info)"

definition constopt_csrrs :: constopt_func where
  [constopt_defs]: "constopt_csrrs ir info =
    (ir, not_constant (rd ir) info)"

definition constopt_csrrc :: constopt_func where
  [constopt_defs]: "constopt_csrrc ir info =
    (ir, not_constant (rd ir) info)"

definition constopt_csrrwi :: constopt_func where
  [constopt_defs]: "constopt_csrrwi ir info =
    (ir, not_constant (rd ir) info)"

definition constopt_csrrsi :: constopt_func where
  [constopt_defs]: "constopt_csrrsi ir info =
    (ir, not_constant (rd ir) info)"

definition constopt_csrrci :: constopt_func where
  [constopt_defs]: "constopt_csrrci ir info =
    (ir, not_constant (rd ir) info)"

section \<open>RV32M\<close>

definition constopt_mul :: constopt_func where
  [constopt_defs]: "constopt_mul ir info =
    (if is_constant info (rs1 ir) \<and> is_constant info (rs2 ir) then
       (let v = ucast (((scast (const_val info (rs1 ir)) :: u64) * scast (const_val info (rs2 ir))) AND 0xFFFFFFFF) in (to_lui ir v, set_constant (rd ir) v info))
     else (ir, not_constant (rd ir) info))"

definition constopt_mulh :: constopt_func where
  [constopt_defs]: "constopt_mulh ir info =
    (if is_constant info (rs1 ir) \<and> is_constant info (rs2 ir) then
       (let v = ucast (shr ((scast (const_val info (rs1 ir)) :: u64) * scast (const_val info (rs2 ir))) 32) in (to_lui ir v, set_constant (rd ir) v info))
     else (ir, not_constant (rd ir) info))"

definition constopt_mulhsu :: constopt_func where
  [constopt_defs]: "constopt_mulhsu ir info =
    (if is_constant info (rs1 ir) \<and> is_constant info (rs2 ir) then
       (let v = ucast (shr ((scast (const_val info (rs1 ir)) :: u64) * ucast (const_val info (rs2 ir))) 32) in (to_lui ir v, set_constant (rd ir) v info))
     else (ir, not_constant (rd ir) info))"

text \<open>
  The product of two \<^verbatim>\<open>int64_t\<close> values can leave their range here, which C leaves undefined; the
  model takes it modulo \<open>2 ^ 64\<close>, as hosts do.
\<close>

definition constopt_mulhu :: constopt_func where
  [constopt_defs]: "constopt_mulhu ir info =
    (if is_constant info (rs1 ir) \<and> is_constant info (rs2 ir) then
       (let v = ucast (sar ((ucast (const_val info (rs1 ir)) :: u64) * ucast (const_val info (rs2 ir))) 32) in (to_lui ir v, set_constant (rd ir) v info))
     else (ir, not_constant (rd ir) info))"

definition constopt_div :: constopt_func where
  [constopt_defs]: "constopt_div ir info =
    (if is_constant info (rs1 ir) \<and> is_constant info (rs2 ir) then
       (let v = if const_val info (rs2 ir) = 0 then NOT 0
               else if const_val info (rs2 ir) = - 1 \<and> const_val info (rs1 ir) = 0x80000000 then const_val info (rs1 ir)
               else word_of_int (sint (const_val info (rs1 ir)) sdiv sint (const_val info (rs2 ir))) in (to_lui ir v, set_constant (rd ir) v info))
     else (ir, not_constant (rd ir) info))"

definition constopt_divu :: constopt_func where
  [constopt_defs]: "constopt_divu ir info =
    (if is_constant info (rs1 ir) \<and> is_constant info (rs2 ir) then
       (let v = if const_val info (rs2 ir) = 0 then NOT 0 else const_val info (rs1 ir) div const_val info (rs2 ir) in (to_lui ir v, set_constant (rd ir) v info))
     else (ir, not_constant (rd ir) info))"

definition constopt_rem :: constopt_func where
  [constopt_defs]: "constopt_rem ir info =
    (if is_constant info (rs1 ir) \<and> is_constant info (rs2 ir) then
       (let v = if const_val info (rs2 ir) = 0 then const_val info (rs1 ir)
               else if const_val info (rs2 ir) = - 1 \<and> const_val info (rs1 ir) = 0x80000000 then 0
               else word_of_int (sint (const_val info (rs1 ir)) smod sint (const_val info (rs2 ir))) in (to_lui ir v, set_constant (rd ir) v info))
     else (ir, not_constant (rd ir) info))"

definition constopt_remu :: constopt_func where
  [constopt_defs]: "constopt_remu ir info =
    (if is_constant info (rs1 ir) \<and> is_constant info (rs2 ir) then
       (let v = if const_val info (rs2 ir) = 0 then const_val info (rs1 ir) else const_val info (rs1 ir) mod const_val info (rs2 ir) in (to_lui ir v, set_constant (rd ir) v info))
     else (ir, not_constant (rd ir) info))"

section \<open>RV32A\<close>

definition constopt_lrw :: constopt_func where
  [constopt_defs]: "constopt_lrw ir info =
    (ir, if rd ir \<noteq> 0 then not_constant (rd ir) info else info)"

definition constopt_scw :: constopt_func where
  [constopt_defs]: "constopt_scw ir info =
    (ir, info)"

definition constopt_amoswapw :: constopt_func where
  [constopt_defs]: "constopt_amoswapw ir info =
    (ir, if rd ir \<noteq> 0 then not_constant (rd ir) info else info)"

definition constopt_amoaddw :: constopt_func where
  [constopt_defs]: "constopt_amoaddw ir info =
    (ir, if rd ir \<noteq> 0 then not_constant (rd ir) info else info)"

definition constopt_amoxorw :: constopt_func where
  [constopt_defs]: "constopt_amoxorw ir info =
    (ir, if rd ir \<noteq> 0 then not_constant (rd ir) info else info)"

definition constopt_amoandw :: constopt_func where
  [constopt_defs]: "constopt_amoandw ir info =
    (ir, if rd ir \<noteq> 0 then not_constant (rd ir) info else info)"

definition constopt_amoorw :: constopt_func where
  [constopt_defs]: "constopt_amoorw ir info =
    (ir, if rd ir \<noteq> 0 then not_constant (rd ir) info else info)"

definition constopt_amominw :: constopt_func where
  [constopt_defs]: "constopt_amominw ir info =
    (ir, if rd ir \<noteq> 0 then not_constant (rd ir) info else info)"

definition constopt_amomaxw :: constopt_func where
  [constopt_defs]: "constopt_amomaxw ir info =
    (ir, if rd ir \<noteq> 0 then not_constant (rd ir) info else info)"

definition constopt_amominuw :: constopt_func where
  [constopt_defs]: "constopt_amominuw ir info =
    (ir, if rd ir \<noteq> 0 then not_constant (rd ir) info else info)"

definition constopt_amomaxuw :: constopt_func where
  [constopt_defs]: "constopt_amomaxuw ir info =
    (ir, if rd ir \<noteq> 0 then not_constant (rd ir) info else info)"

section \<open>RV32F\<close>

definition constopt_flw :: constopt_func where
  [constopt_defs]: "constopt_flw ir info =
    (ir, info)"

definition constopt_fsw :: constopt_func where
  [constopt_defs]: "constopt_fsw ir info =
    (ir, info)"

definition constopt_fmadds :: constopt_func where
  [constopt_defs]: "constopt_fmadds ir info =
    (ir, info)"

definition constopt_fmsubs :: constopt_func where
  [constopt_defs]: "constopt_fmsubs ir info =
    (ir, info)"

definition constopt_fnmsubs :: constopt_func where
  [constopt_defs]: "constopt_fnmsubs ir info =
    (ir, info)"

definition constopt_fnmadds :: constopt_func where
  [constopt_defs]: "constopt_fnmadds ir info =
    (ir, info)"

definition constopt_fadds :: constopt_func where
  [constopt_defs]: "constopt_fadds ir info =
    (ir, info)"

definition constopt_fsubs :: constopt_func where
  [constopt_defs]: "constopt_fsubs ir info =
    (ir, info)"

definition constopt_fmuls :: constopt_func where
  [constopt_defs]: "constopt_fmuls ir info =
    (ir, info)"

definition constopt_fdivs :: constopt_func where
  [constopt_defs]: "constopt_fdivs ir info =
    (ir, info)"

definition constopt_fsqrts :: constopt_func where
  [constopt_defs]: "constopt_fsqrts ir info =
    (ir, info)"

definition constopt_fsgnjs :: constopt_func where
  [constopt_defs]: "constopt_fsgnjs ir info =
    (ir, info)"

definition constopt_fsgnjns :: constopt_func where
  [constopt_defs]: "constopt_fsgnjns ir info =
    (ir, info)"

definition constopt_fsgnjxs :: constopt_func where
  [constopt_defs]: "constopt_fsgnjxs ir info =
    (ir, info)"

definition constopt_fmins :: constopt_func where
  [constopt_defs]: "constopt_fmins ir info =
    (ir, info)"

definition constopt_fmaxs :: constopt_func where
  [constopt_defs]: "constopt_fmaxs ir info =
    (ir, info)"

definition constopt_fcvtws :: constopt_func where
  [constopt_defs]: "constopt_fcvtws ir info =
    (ir, if rd ir \<noteq> 0 then not_constant (rd ir) info else info)"

definition constopt_fcvtwus :: constopt_func where
  [constopt_defs]: "constopt_fcvtwus ir info =
    (ir, if rd ir \<noteq> 0 then not_constant (rd ir) info else info)"

definition constopt_fmvxw :: constopt_func where
  [constopt_defs]: "constopt_fmvxw ir info =
    (ir, if rd ir \<noteq> 0 then not_constant (rd ir) info else info)"

definition constopt_feqs :: constopt_func where
  [constopt_defs]: "constopt_feqs ir info =
    (ir, if rd ir \<noteq> 0 then not_constant (rd ir) info else info)"

definition constopt_flts :: constopt_func where
  [constopt_defs]: "constopt_flts ir info =
    (ir, if rd ir \<noteq> 0 then not_constant (rd ir) info else info)"

definition constopt_fles :: constopt_func where
  [constopt_defs]: "constopt_fles ir info =
    (ir, if rd ir \<noteq> 0 then not_constant (rd ir) info else info)"

definition constopt_fclasss :: constopt_func where
  [constopt_defs]: "constopt_fclasss ir info =
    (ir, if rd ir \<noteq> 0 then not_constant (rd ir) info else info)"

definition constopt_fcvtsw :: constopt_func where
  [constopt_defs]: "constopt_fcvtsw ir info =
    (ir, info)"

definition constopt_fcvtswu :: constopt_func where
  [constopt_defs]: "constopt_fcvtswu ir info =
    (ir, info)"

definition constopt_fmvwx :: constopt_func where
  [constopt_defs]: "constopt_fmvwx ir info =
    (ir, info)"

section \<open>RV32C\<close>

definition constopt_caddi4spn :: constopt_func where
  [constopt_defs]: "constopt_caddi4spn ir info =
    (if is_constant info rv_reg_sp then
       (let v = const_val info rv_reg_sp + ucast (ucast (imm ir) :: u16)
        in (to_clui ir v, set_constant (rd ir) v info))
     else (ir, not_constant (rd ir) info))"

definition constopt_clw :: constopt_func where
  [constopt_defs]: "constopt_clw ir info =
    (ir, not_constant (rd ir) info)"

definition constopt_csw :: constopt_func where
  [constopt_defs]: "constopt_csw ir info =
    (ir, info)"

definition constopt_cnop :: constopt_func where
  [constopt_defs]: "constopt_cnop ir info =
    (ir, info)"

text \<open>
  The rules that update a register in place set its value and leave \<^verbatim>\<open>is_constant\<close>, which is
  true already.
\<close>

definition set_const_val :: "u8 \<Rightarrow> u32 \<Rightarrow> constopt_info \<Rightarrow> constopt_info" where
  [constopt_defs]: "set_const_val r v info = info\<lparr>const_val := (const_val info)(r := v)\<rparr>"

definition constopt_caddi :: constopt_func where
  [constopt_defs]: "constopt_caddi ir info =
    (if is_constant info (rd ir) then
       (let v = const_val info (rd ir) + scast (ucast (imm ir) :: u16) in (to_clui ir v, set_const_val (rd ir) v info))
     else (ir, info))"

definition constopt_cjal :: constopt_func where
  [constopt_defs]: "constopt_cjal ir info =
    (ir, set_constant rv_reg_ra (pc ir + 2) info)"

definition constopt_cli :: constopt_func where
  [constopt_defs]: "constopt_cli ir info =
    (ir, set_constant (rd ir) (imm ir) info)"

definition constopt_caddi16sp :: constopt_func where
  [constopt_defs]: "constopt_caddi16sp ir info =
    (if is_constant info (rd ir) then
       (let v = const_val info (rd ir) + imm ir in (to_clui ir v, set_const_val (rd ir) v info))
     else (ir, info))"

definition constopt_clui :: constopt_func where
  [constopt_defs]: "constopt_clui ir info =
    (ir, set_constant (rd ir) (imm ir) info)"

definition constopt_csrli :: constopt_func where
  [constopt_defs]: "constopt_csrli ir info =
    (if is_constant info (rs1 ir) then
       (let v = shr (const_val info (rs1 ir)) (unat (shamt ir))
        in (to_clui (ir\<lparr>rd := rs1 ir\<rparr>) v, set_const_val (rs1 ir) v info))
     else (ir, info))"

definition constopt_csrai :: constopt_func where
  [constopt_defs]: "constopt_csrai ir info =
    (if is_constant info (rs1 ir) then
       (let v = fold (\<lambda>i v. v OR shr (0x80000000 AND const_val info (rs1 ir)) i) [0..<unat (shamt ir)]
                 (shr (const_val info (rs1 ir)) (unat (shamt ir)))
        in (to_clui (ir\<lparr>rd := rs1 ir\<rparr>) v, set_const_val (rs1 ir) v info))
     else (ir, info))"

definition constopt_candi :: constopt_func where
  [constopt_defs]: "constopt_candi ir info =
    (if is_constant info (rs1 ir) then
       (let v = const_val info (rs1 ir) AND imm ir
        in (to_clui (ir\<lparr>rd := rs1 ir\<rparr>) v, set_const_val (rs1 ir) v info))
     else (ir, info))"

definition constopt_csub :: constopt_func where
  [constopt_defs]: "constopt_csub ir info =
    (if is_constant info (rs1 ir) \<and> is_constant info (rs2 ir) then
       (let v = const_val info (rs1 ir) - const_val info (rs2 ir) in (to_clui ir v, set_constant (rd ir) v info))
     else (ir, not_constant (rd ir) info))"

definition constopt_cxor :: constopt_func where
  [constopt_defs]: "constopt_cxor ir info =
    (if is_constant info (rs1 ir) \<and> is_constant info (rs2 ir) then
       (let v = const_val info (rs1 ir) XOR const_val info (rs2 ir) in (to_clui ir v, set_constant (rd ir) v info))
     else (ir, not_constant (rd ir) info))"

definition constopt_cor :: constopt_func where
  [constopt_defs]: "constopt_cor ir info =
    (if is_constant info (rs1 ir) \<and> is_constant info (rs2 ir) then
       (let v = const_val info (rs1 ir) OR const_val info (rs2 ir) in (to_clui ir v, set_constant (rd ir) v info))
     else (ir, not_constant (rd ir) info))"

definition constopt_cand :: constopt_func where
  [constopt_defs]: "constopt_cand ir info =
    (if is_constant info (rs1 ir) \<and> is_constant info (rs2 ir) then
       (let v = const_val info (rs1 ir) AND const_val info (rs2 ir) in (to_clui ir v, set_constant (rd ir) v info))
     else (ir, not_constant (rd ir) info))"

definition constopt_cj :: constopt_func where
  [constopt_defs]: "constopt_cj ir info =
    (ir, info)"

definition constopt_cbeqz :: constopt_func where
  [constopt_defs]: "constopt_cbeqz ir info =
    (if is_constant info (rs1 ir) then
       (ir\<lparr>imm := if const_val info (rs1 ir) \<noteq> 0 then 2 else imm ir, opcode := C_op Rv_cj\<rparr>, info)
     else (ir, info))"

definition constopt_cbnez :: constopt_func where
  [constopt_defs]: "constopt_cbnez ir info =
    (if is_constant info (rs1 ir) then
       (ir\<lparr>imm := if const_val info (rs1 ir) = 0 then 2 else imm ir, opcode := C_op Rv_cj\<rparr>, info)
     else (ir, info))"

definition constopt_cslli :: constopt_func where
  [constopt_defs]: "constopt_cslli ir info =
    (if is_constant info (rd ir) then
       (let v = shl (const_val info (rd ir)) (unat (ucast (imm ir) :: u8)) in (to_clui ir v, set_const_val (rd ir) v info))
     else (ir, info))"

definition constopt_clwsp :: constopt_func where
  [constopt_defs]: "constopt_clwsp ir info =
    (ir, not_constant (rd ir) info)"

definition constopt_cjr :: constopt_func where
  [constopt_defs]: "constopt_cjr ir info =
    (ir, info)"

definition constopt_cmv :: constopt_func where
  [constopt_defs]: "constopt_cmv ir info =
    (if is_constant info (rs2 ir) then
       (let v = const_val info (rs2 ir) in (to_clui ir v, set_constant (rd ir) v info))
     else (ir, not_constant (rd ir) info))"

definition constopt_cebreak :: constopt_func where
  [constopt_defs]: "constopt_cebreak ir info =
    (ir, info)"

definition constopt_cjalr :: constopt_func where
  [constopt_defs]: "constopt_cjalr ir info =
    (ir, info\<lparr>is_constant := (is_constant info)(rv_reg_ra := True),
               const_val := (const_val info)(rd ir := pc ir + 2)\<rparr>)"

definition constopt_cadd :: constopt_func where
  [constopt_defs]: "constopt_cadd ir info =
    (if is_constant info (rs1 ir) \<and> is_constant info (rs2 ir) then
       (let v = const_val info (rs1 ir) + const_val info (rs2 ir) in (to_clui ir v, set_constant (rd ir) v info))
     else (ir, not_constant (rd ir) info))"

definition constopt_cswsp :: constopt_func where
  [constopt_defs]: "constopt_cswsp ir info =
    (ir, info)"

definition constopt_cflwsp :: constopt_func where
  [constopt_defs]: "constopt_cflwsp ir info =
    (ir, info)"

definition constopt_cfswsp :: constopt_func where
  [constopt_defs]: "constopt_cfswsp ir info =
    (ir, info)"

definition constopt_cflw :: constopt_func where
  [constopt_defs]: "constopt_cflw ir info =
    (ir, info)"

definition constopt_cfsw :: constopt_func where
  [constopt_defs]: "constopt_cfsw ir info =
    (ir, info)"

section \<open>Zba, Zbb, Zbc, Zbs\<close>

definition constopt_sh1add :: constopt_func where
  [constopt_defs]: "constopt_sh1add ir info =
    (ir, if rd ir \<noteq> 0 then not_constant (rd ir) info else info)"

definition constopt_sh2add :: constopt_func where
  [constopt_defs]: "constopt_sh2add ir info =
    (ir, if rd ir \<noteq> 0 then not_constant (rd ir) info else info)"

definition constopt_sh3add :: constopt_func where
  [constopt_defs]: "constopt_sh3add ir info =
    (ir, if rd ir \<noteq> 0 then not_constant (rd ir) info else info)"

definition constopt_andn :: constopt_func where
  [constopt_defs]: "constopt_andn ir info =
    (ir, if rd ir \<noteq> 0 then not_constant (rd ir) info else info)"

definition constopt_orn :: constopt_func where
  [constopt_defs]: "constopt_orn ir info =
    (ir, if rd ir \<noteq> 0 then not_constant (rd ir) info else info)"

definition constopt_xnor :: constopt_func where
  [constopt_defs]: "constopt_xnor ir info =
    (ir, if rd ir \<noteq> 0 then not_constant (rd ir) info else info)"

definition constopt_clz :: constopt_func where
  [constopt_defs]: "constopt_clz ir info =
    (ir, if rd ir \<noteq> 0 then not_constant (rd ir) info else info)"

definition constopt_ctz :: constopt_func where
  [constopt_defs]: "constopt_ctz ir info =
    (ir, if rd ir \<noteq> 0 then not_constant (rd ir) info else info)"

definition constopt_cpop :: constopt_func where
  [constopt_defs]: "constopt_cpop ir info =
    (ir, if rd ir \<noteq> 0 then not_constant (rd ir) info else info)"

definition constopt_max :: constopt_func where
  [constopt_defs]: "constopt_max ir info =
    (ir, if rd ir \<noteq> 0 then not_constant (rd ir) info else info)"

definition constopt_maxu :: constopt_func where
  [constopt_defs]: "constopt_maxu ir info =
    (ir, if rd ir \<noteq> 0 then not_constant (rd ir) info else info)"

definition constopt_min :: constopt_func where
  [constopt_defs]: "constopt_min ir info =
    (ir, if rd ir \<noteq> 0 then not_constant (rd ir) info else info)"

definition constopt_minu :: constopt_func where
  [constopt_defs]: "constopt_minu ir info =
    (ir, if rd ir \<noteq> 0 then not_constant (rd ir) info else info)"

definition constopt_sextb :: constopt_func where
  [constopt_defs]: "constopt_sextb ir info =
    (ir, if rd ir \<noteq> 0 then not_constant (rd ir) info else info)"

definition constopt_sexth :: constopt_func where
  [constopt_defs]: "constopt_sexth ir info =
    (ir, if rd ir \<noteq> 0 then not_constant (rd ir) info else info)"

definition constopt_zexth :: constopt_func where
  [constopt_defs]: "constopt_zexth ir info =
    (ir, if rd ir \<noteq> 0 then not_constant (rd ir) info else info)"

definition constopt_rol :: constopt_func where
  [constopt_defs]: "constopt_rol ir info =
    (ir, if rd ir \<noteq> 0 then not_constant (rd ir) info else info)"

definition constopt_ror :: constopt_func where
  [constopt_defs]: "constopt_ror ir info =
    (ir, if rd ir \<noteq> 0 then not_constant (rd ir) info else info)"

definition constopt_rori :: constopt_func where
  [constopt_defs]: "constopt_rori ir info =
    (ir, if rd ir \<noteq> 0 then not_constant (rd ir) info else info)"

definition constopt_orcb :: constopt_func where
  [constopt_defs]: "constopt_orcb ir info =
    (ir, if rd ir \<noteq> 0 then not_constant (rd ir) info else info)"

definition constopt_rev8 :: constopt_func where
  [constopt_defs]: "constopt_rev8 ir info =
    (ir, if rd ir \<noteq> 0 then not_constant (rd ir) info else info)"

definition constopt_clmul :: constopt_func where
  [constopt_defs]: "constopt_clmul ir info =
    (ir, if rd ir \<noteq> 0 then not_constant (rd ir) info else info)"

definition constopt_clmulh :: constopt_func where
  [constopt_defs]: "constopt_clmulh ir info =
    (ir, if rd ir \<noteq> 0 then not_constant (rd ir) info else info)"

definition constopt_clmulr :: constopt_func where
  [constopt_defs]: "constopt_clmulr ir info =
    (ir, if rd ir \<noteq> 0 then not_constant (rd ir) info else info)"

definition constopt_bclr :: constopt_func where
  [constopt_defs]: "constopt_bclr ir info =
    (ir, if rd ir \<noteq> 0 then not_constant (rd ir) info else info)"

definition constopt_bclri :: constopt_func where
  [constopt_defs]: "constopt_bclri ir info =
    (ir, if rd ir \<noteq> 0 then not_constant (rd ir) info else info)"

definition constopt_bext :: constopt_func where
  [constopt_defs]: "constopt_bext ir info =
    (ir, if rd ir \<noteq> 0 then not_constant (rd ir) info else info)"

definition constopt_bexti :: constopt_func where
  [constopt_defs]: "constopt_bexti ir info =
    (ir, if rd ir \<noteq> 0 then not_constant (rd ir) info else info)"

definition constopt_binv :: constopt_func where
  [constopt_defs]: "constopt_binv ir info =
    (ir, if rd ir \<noteq> 0 then not_constant (rd ir) info else info)"

definition constopt_binvi :: constopt_func where
  [constopt_defs]: "constopt_binvi ir info =
    (ir, if rd ir \<noteq> 0 then not_constant (rd ir) info else info)"

definition constopt_bset :: constopt_func where
  [constopt_defs]: "constopt_bset ir info =
    (ir, if rd ir \<noteq> 0 then not_constant (rd ir) info else info)"

definition constopt_bseti :: constopt_func where
  [constopt_defs]: "constopt_bseti ir info =
    (ir, if rd ir \<noteq> 0 then not_constant (rd ir) info else info)"

section \<open>The table and the pass\<close>

fun constopt_base_op :: "base_op \<Rightarrow> constopt_func" where
  "constopt_base_op Rv_nop = constopt_nop"
| "constopt_base_op Rv_lui = constopt_lui"
| "constopt_base_op Rv_auipc = constopt_auipc"
| "constopt_base_op Rv_jal = constopt_jal"
| "constopt_base_op Rv_jalr = constopt_jalr"
| "constopt_base_op Rv_beq = constopt_beq"
| "constopt_base_op Rv_bne = constopt_bne"
| "constopt_base_op Rv_blt = constopt_blt"
| "constopt_base_op Rv_bge = constopt_bge"
| "constopt_base_op Rv_bltu = constopt_bltu"
| "constopt_base_op Rv_bgeu = constopt_bgeu"
| "constopt_base_op Rv_lb = constopt_lb"
| "constopt_base_op Rv_lh = constopt_lh"
| "constopt_base_op Rv_lw = constopt_lw"
| "constopt_base_op Rv_lbu = constopt_lbu"
| "constopt_base_op Rv_lhu = constopt_lhu"
| "constopt_base_op Rv_sb = constopt_sb"
| "constopt_base_op Rv_sh = constopt_sh"
| "constopt_base_op Rv_sw = constopt_sw"
| "constopt_base_op Rv_addi = constopt_addi"
| "constopt_base_op Rv_slti = constopt_slti"
| "constopt_base_op Rv_sltiu = constopt_sltiu"
| "constopt_base_op Rv_xori = constopt_xori"
| "constopt_base_op Rv_ori = constopt_ori"
| "constopt_base_op Rv_andi = constopt_andi"
| "constopt_base_op Rv_slli = constopt_slli"
| "constopt_base_op Rv_srli = constopt_srli"
| "constopt_base_op Rv_srai = constopt_srai"
| "constopt_base_op Rv_add = constopt_add"
| "constopt_base_op Rv_sub = constopt_sub"
| "constopt_base_op Rv_sll = constopt_sll"
| "constopt_base_op Rv_slt = constopt_slt"
| "constopt_base_op Rv_sltu = constopt_sltu"
| "constopt_base_op Rv_xor = constopt_xor"
| "constopt_base_op Rv_srl = constopt_srl"
| "constopt_base_op Rv_sra = constopt_sra"
| "constopt_base_op Rv_or = constopt_or"
| "constopt_base_op Rv_and = constopt_and"
| "constopt_base_op Rv_fence = constopt_fence"
| "constopt_base_op Rv_ecall = constopt_ecall"
| "constopt_base_op Rv_ebreak = constopt_ebreak"

fun constopt_sys_op :: "sys_op \<Rightarrow> constopt_func" where
  "constopt_sys_op Rv_wfi = constopt_wfi"
| "constopt_sys_op Rv_uret = constopt_uret"
| "constopt_sys_op Rv_hret = constopt_hret"
| "constopt_sys_op Rv_mret = constopt_mret"
| "constopt_sys_op Rv_sfencevma = constopt_sfencevma"
| "constopt_sys_op Rv_fencei = constopt_fencei"
| "constopt_sys_op Rv_csrrw = constopt_csrrw"
| "constopt_sys_op Rv_csrrs = constopt_csrrs"
| "constopt_sys_op Rv_csrrc = constopt_csrrc"
| "constopt_sys_op Rv_csrrwi = constopt_csrrwi"
| "constopt_sys_op Rv_csrrsi = constopt_csrrsi"
| "constopt_sys_op Rv_csrrci = constopt_csrrci"

fun constopt_bit_op :: "bit_op \<Rightarrow> constopt_func" where
  "constopt_bit_op Rv_sh1add = constopt_sh1add"
| "constopt_bit_op Rv_sh2add = constopt_sh2add"
| "constopt_bit_op Rv_sh3add = constopt_sh3add"
| "constopt_bit_op Rv_andn = constopt_andn"
| "constopt_bit_op Rv_orn = constopt_orn"
| "constopt_bit_op Rv_xnor = constopt_xnor"
| "constopt_bit_op Rv_clz = constopt_clz"
| "constopt_bit_op Rv_ctz = constopt_ctz"
| "constopt_bit_op Rv_cpop = constopt_cpop"
| "constopt_bit_op Rv_max = constopt_max"
| "constopt_bit_op Rv_maxu = constopt_maxu"
| "constopt_bit_op Rv_min = constopt_min"
| "constopt_bit_op Rv_minu = constopt_minu"
| "constopt_bit_op Rv_sextb = constopt_sextb"
| "constopt_bit_op Rv_sexth = constopt_sexth"
| "constopt_bit_op Rv_zexth = constopt_zexth"
| "constopt_bit_op Rv_rol = constopt_rol"
| "constopt_bit_op Rv_ror = constopt_ror"
| "constopt_bit_op Rv_rori = constopt_rori"
| "constopt_bit_op Rv_orcb = constopt_orcb"
| "constopt_bit_op Rv_rev8 = constopt_rev8"
| "constopt_bit_op Rv_clmul = constopt_clmul"
| "constopt_bit_op Rv_clmulh = constopt_clmulh"
| "constopt_bit_op Rv_clmulr = constopt_clmulr"
| "constopt_bit_op Rv_bclr = constopt_bclr"
| "constopt_bit_op Rv_bclri = constopt_bclri"
| "constopt_bit_op Rv_bext = constopt_bext"
| "constopt_bit_op Rv_bexti = constopt_bexti"
| "constopt_bit_op Rv_binv = constopt_binv"
| "constopt_bit_op Rv_binvi = constopt_binvi"
| "constopt_bit_op Rv_bset = constopt_bset"
| "constopt_bit_op Rv_bseti = constopt_bseti"

fun constopt_mul_op :: "mul_op \<Rightarrow> constopt_func" where
  "constopt_mul_op Rv_mul = constopt_mul"
| "constopt_mul_op Rv_mulh = constopt_mulh"
| "constopt_mul_op Rv_mulhsu = constopt_mulhsu"
| "constopt_mul_op Rv_mulhu = constopt_mulhu"
| "constopt_mul_op Rv_div = constopt_div"
| "constopt_mul_op Rv_divu = constopt_divu"
| "constopt_mul_op Rv_rem = constopt_rem"
| "constopt_mul_op Rv_remu = constopt_remu"

fun constopt_amo_op :: "amo_op \<Rightarrow> constopt_func" where
  "constopt_amo_op Rv_lrw = constopt_lrw"
| "constopt_amo_op Rv_scw = constopt_scw"
| "constopt_amo_op Rv_amoswapw = constopt_amoswapw"
| "constopt_amo_op Rv_amoaddw = constopt_amoaddw"
| "constopt_amo_op Rv_amoxorw = constopt_amoxorw"
| "constopt_amo_op Rv_amoandw = constopt_amoandw"
| "constopt_amo_op Rv_amoorw = constopt_amoorw"
| "constopt_amo_op Rv_amominw = constopt_amominw"
| "constopt_amo_op Rv_amomaxw = constopt_amomaxw"
| "constopt_amo_op Rv_amominuw = constopt_amominuw"
| "constopt_amo_op Rv_amomaxuw = constopt_amomaxuw"

fun constopt_fp_op :: "fp_op \<Rightarrow> constopt_func" where
  "constopt_fp_op Rv_flw = constopt_flw"
| "constopt_fp_op Rv_fsw = constopt_fsw"
| "constopt_fp_op Rv_fmadds = constopt_fmadds"
| "constopt_fp_op Rv_fmsubs = constopt_fmsubs"
| "constopt_fp_op Rv_fnmsubs = constopt_fnmsubs"
| "constopt_fp_op Rv_fnmadds = constopt_fnmadds"
| "constopt_fp_op Rv_fadds = constopt_fadds"
| "constopt_fp_op Rv_fsubs = constopt_fsubs"
| "constopt_fp_op Rv_fmuls = constopt_fmuls"
| "constopt_fp_op Rv_fdivs = constopt_fdivs"
| "constopt_fp_op Rv_fsqrts = constopt_fsqrts"
| "constopt_fp_op Rv_fsgnjs = constopt_fsgnjs"
| "constopt_fp_op Rv_fsgnjns = constopt_fsgnjns"
| "constopt_fp_op Rv_fsgnjxs = constopt_fsgnjxs"
| "constopt_fp_op Rv_fmins = constopt_fmins"
| "constopt_fp_op Rv_fmaxs = constopt_fmaxs"
| "constopt_fp_op Rv_fcvtws = constopt_fcvtws"
| "constopt_fp_op Rv_fcvtwus = constopt_fcvtwus"
| "constopt_fp_op Rv_fmvxw = constopt_fmvxw"
| "constopt_fp_op Rv_feqs = constopt_feqs"
| "constopt_fp_op Rv_flts = constopt_flts"
| "constopt_fp_op Rv_fles = constopt_fles"
| "constopt_fp_op Rv_fclasss = constopt_fclasss"
| "constopt_fp_op Rv_fcvtsw = constopt_fcvtsw"
| "constopt_fp_op Rv_fcvtswu = constopt_fcvtswu"
| "constopt_fp_op Rv_fmvwx = constopt_fmvwx"

fun constopt_c_op :: "c_op \<Rightarrow> constopt_func" where
  "constopt_c_op Rv_caddi4spn = constopt_caddi4spn"
| "constopt_c_op Rv_clw = constopt_clw"
| "constopt_c_op Rv_csw = constopt_csw"
| "constopt_c_op Rv_cnop = constopt_cnop"
| "constopt_c_op Rv_caddi = constopt_caddi"
| "constopt_c_op Rv_cjal = constopt_cjal"
| "constopt_c_op Rv_cli = constopt_cli"
| "constopt_c_op Rv_caddi16sp = constopt_caddi16sp"
| "constopt_c_op Rv_clui = constopt_clui"
| "constopt_c_op Rv_csrli = constopt_csrli"
| "constopt_c_op Rv_csrai = constopt_csrai"
| "constopt_c_op Rv_candi = constopt_candi"
| "constopt_c_op Rv_csub = constopt_csub"
| "constopt_c_op Rv_cxor = constopt_cxor"
| "constopt_c_op Rv_cor = constopt_cor"
| "constopt_c_op Rv_cand = constopt_cand"
| "constopt_c_op Rv_cj = constopt_cj"
| "constopt_c_op Rv_cbeqz = constopt_cbeqz"
| "constopt_c_op Rv_cbnez = constopt_cbnez"
| "constopt_c_op Rv_cslli = constopt_cslli"
| "constopt_c_op Rv_clwsp = constopt_clwsp"
| "constopt_c_op Rv_cjr = constopt_cjr"
| "constopt_c_op Rv_cmv = constopt_cmv"
| "constopt_c_op Rv_cebreak = constopt_cebreak"
| "constopt_c_op Rv_cjalr = constopt_cjalr"
| "constopt_c_op Rv_cadd = constopt_cadd"
| "constopt_c_op Rv_cswsp = constopt_cswsp"
| "constopt_c_op Rv_cflwsp = constopt_cflwsp"
| "constopt_c_op Rv_cfswsp = constopt_cfswsp"
| "constopt_c_op Rv_cflw = constopt_cflw"
| "constopt_c_op Rv_cfsw = constopt_cfsw"

text \<open>
  \<^verbatim>\<open>constopt_table\<close> has an entry for every opcode of \<^verbatim>\<open>RV_INSN_LIST\<close>; the pass runs before fusion,
  so a fused opcode does not occur and is left alone.
\<close>

fun constopt_table :: "opcode \<Rightarrow> constopt_func" where
  "constopt_table (I_op b) = constopt_base_op b"
| "constopt_table (S_op b) = constopt_sys_op b"
| "constopt_table (B_op b) = constopt_bit_op b"
| "constopt_table (M_op b) = constopt_mul_op b"
| "constopt_table (A_op b) = constopt_amo_op b"
| "constopt_table (F_op b) = constopt_fp_op b"
| "constopt_table (C_op b) = constopt_c_op b"
| "constopt_table (Fuse_op b) = (\<lambda>ir info. (ir, info))"

definition info0 :: constopt_info where
  "info0 = \<lparr>is_constant = (\<lambda>r. r = 0), const_val = (\<lambda>r. 0)\<rparr>"

fun constopt_loop :: "rv_insn list \<Rightarrow> constopt_info \<Rightarrow> rv_insn list" where
  "constopt_loop [] info = []"
| "constopt_loop (ir # irs) info =
    (case constopt_table (opcode ir) ir info of (ir', info') \<Rightarrow> ir' # constopt_loop irs info')"

text \<open>\<^verbatim>\<open>optimize_constant\<close> asserts \<^verbatim>\<open>rv->X[0] == 0\<close>: \<^const>\<open>None\<close> is the abort.\<close>

definition optimize_constant :: "riscv \<Rightarrow> rv_insn list \<Rightarrow> rv_insn list option" where
  "optimize_constant rv irs = (if X rv 0 = 0 then Some (constopt_loop irs info0) else None)"

end
