(* ===== verification/Fusion.thy ===== *)
theory Fusion
  imports Exec
begin

unbundle bit_operations_syntax

text \<open>
  Macro-operation fusion (\<^verbatim>\<open>match_pattern\<close> in \<^verbatim>\<open>emulate.c\<close>): adjacent instructions of a block are
  rewritten to one fused instruction. The block is the list of its instructions: the loop
  visits an instruction \<open>ir\<close> with the list \<open>rest\<close> behind it, \<^verbatim>\<open>remove_next_nth_ir(n)\<close> drops \<open>n\<close>
  elements of \<open>rest\<close>, and the loop stops before the last instruction
  (\<^verbatim>\<open>i < block->n_insn - 1\<close>).
\<close>

section \<open>The pass\<close>

definition copy_fuse :: "rv_insn \<Rightarrow> opcode_fuse" where
  "copy_fuse ir = \<lparr>f_imm = imm ir, f_rd = rd ir, f_rs1 = rs1 ir, f_rs2 = rs2 ir, f_opcode = opcode ir\<rparr>"

definition count_consecutive_insn :: "rv_insn list \<Rightarrow> opcode \<Rightarrow> nat" where
  "count_consecutive_insn rest c = 1 + length (takeWhile (\<lambda>n. opcode n = c) rest)"

definition is_shift_imm :: "rv_insn \<Rightarrow> bool" where
  "is_shift_imm ir \<longleftrightarrow> opcode ir = I_op Rv_slli \<or> opcode ir = I_op Rv_srli \<or> opcode ir = I_op Rv_srai"

definition count_consecutive_shift :: "rv_insn list \<Rightarrow> nat" where
  "count_consecutive_shift rest = 1 + length (takeWhile is_shift_imm rest)"

definition remove_next_nth_ir :: "nat \<Rightarrow> rv_insn list \<Rightarrow> rv_insn list" where
  "remove_next_nth_ir n rest = drop n rest"

abbreviation (input) FUSE_MAX_ENTRIES :: nat where "FUSE_MAX_ENTRIES \<equiv> 16"

text \<open>\<open>alloc ir\<close>: whether \<^verbatim>\<open>mpool_alloc(rv->fuse_mp)\<close> yields a slot when \<open>ir\<close> is to be fused.\<close>

definition try_fuse_sequence ::
    "(rv_insn \<Rightarrow> bool) \<Rightarrow> rv_insn \<Rightarrow> rv_insn list \<Rightarrow> nat \<Rightarrow> opcode \<Rightarrow> rv_insn \<times> rv_insn list" where
  "try_fuse_sequence alloc ir rest count fuse_opcode =
    (if count \<le> 1 then (ir, rest)
     else if count > FUSE_MAX_ENTRIES then (ir, rest)
     else if \<not> alloc ir then (ir, rest)
     else (ir\<lparr>fuse := map copy_fuse (ir # take (count - 1) rest),
              opcode := fuse_opcode, imm2 := of_nat count\<rparr>,
           remove_next_nth_ir (count - 1) rest))"

definition match_lui :: "(rv_insn \<Rightarrow> bool) \<Rightarrow> rv_insn \<Rightarrow> rv_insn \<Rightarrow> rv_insn list \<Rightarrow> rv_insn \<times> rv_insn list" where
  "match_lui alloc ir next_ir rest =
    (if opcode next_ir = I_op Rv_add then
       (if rd ir = rs2 next_ir \<or> rd ir = rs1 next_ir then
          (ir\<lparr>opcode := Fuse_op Rv_fuse2, rs2 := rd next_ir,
              rs1 := if rd ir = rs2 next_ir then rs1 next_ir else rs2 next_ir\<rparr>,
           remove_next_nth_ir 1 rest)
        else (ir, rest))
     else if opcode next_ir = I_op Rv_addi then
       (if rd ir \<noteq> rv_reg_zero \<and> rd ir = rs1 next_ir \<and> rd ir = rd next_ir then
          (ir\<lparr>imm2 := imm next_ir, opcode := Fuse_op Rv_fuse8\<rparr>, remove_next_nth_ir 1 rest)
        else (ir, rest))
     else if opcode next_ir = I_op Rv_lw then
       (if rd ir \<noteq> rv_reg_zero \<and> rd ir = rs1 next_ir then
          (ir\<lparr>imm2 := imm next_ir, rs2 := rd next_ir, opcode := Fuse_op Rv_fuse9\<rparr>,
           remove_next_nth_ir 1 rest)
        else (ir, rest))
     else if opcode next_ir = I_op Rv_sw then
       (if rd ir \<noteq> rv_reg_zero \<and> rd ir = rs1 next_ir \<and> rd ir \<noteq> rs2 next_ir then
          (ir\<lparr>imm2 := imm next_ir, rs1 := rs2 next_ir, opcode := Fuse_op Rv_fuse10\<rparr>,
           remove_next_nth_ir 1 rest)
        else (ir, rest))
     else if opcode next_ir = I_op Rv_lui then
       try_fuse_sequence alloc ir rest (count_consecutive_insn rest (I_op Rv_lui)) (Fuse_op Rv_fuse1)
     else (ir, rest))"

definition match_lw :: "(rv_insn \<Rightarrow> bool) \<Rightarrow> rv_insn \<Rightarrow> rv_insn \<Rightarrow> rv_insn list \<Rightarrow> rv_insn \<times> rv_insn list" where
  "match_lw alloc ir next_ir rest =
    (if opcode next_ir = I_op Rv_addi \<and> rs1 ir = rs1 next_ir \<and> rs1 next_ir = rd next_ir \<and>
        rd ir \<noteq> rs1 ir then
       (ir\<lparr>imm2 := imm next_ir, opcode := Fuse_op Rv_fuse11\<rparr>, remove_next_nth_ir 1 rest)
     else
       try_fuse_sequence alloc ir rest (count_consecutive_insn rest (I_op Rv_lw)) (Fuse_op Rv_fuse4))"

definition match_addi :: "(rv_insn \<Rightarrow> bool) \<Rightarrow> rv_insn \<Rightarrow> rv_insn \<Rightarrow> rv_insn list \<Rightarrow> rv_insn \<times> rv_insn list" where
  "match_addi alloc ir next_ir rest =
    (if rd ir = rv_reg_a7 \<and> rs1 ir = rv_reg_zero \<and> opcode next_ir = I_op Rv_ecall then
       (ir\<lparr>opcode := Fuse_op Rv_fuse6\<rparr>, remove_next_nth_ir 1 rest)
     else if opcode next_ir = I_op Rv_bne \<and> rd ir \<noteq> rv_reg_zero \<and> rd ir = rs1 next_ir \<and>
        rs2 next_ir = rv_reg_zero then
       (ir\<lparr>imm2 := imm next_ir, opcode := Fuse_op Rv_fuse12,
           branch_taken := branch_taken next_ir, branch_untaken := branch_untaken next_ir\<rparr>,
        remove_next_nth_ir 1 rest)
     else
       try_fuse_sequence alloc ir rest (count_consecutive_insn rest (I_op Rv_addi)) (Fuse_op Rv_fuse7))"

text \<open>One iteration of the loop, at \<open>ir\<close> with the non-empty list \<open>rest\<close> behind it.\<close>

definition match_one :: "(rv_insn \<Rightarrow> bool) \<Rightarrow> rv_insn \<Rightarrow> rv_insn list \<Rightarrow> rv_insn \<times> rv_insn list" where
  "match_one alloc ir rest =
    (let next_ir = hd rest in
     if opcode ir = I_op Rv_lui then match_lui alloc ir next_ir rest
     else if opcode ir = I_op Rv_sw then
       try_fuse_sequence alloc ir rest (count_consecutive_insn rest (I_op Rv_sw)) (Fuse_op Rv_fuse3)
     else if opcode ir = I_op Rv_lw then match_lw alloc ir next_ir rest
     else if is_shift_imm ir then
       try_fuse_sequence alloc ir rest (count_consecutive_shift rest) (Fuse_op Rv_fuse5)
     else if opcode ir = I_op Rv_addi then match_addi alloc ir next_ir rest
     else (ir, rest))"

lemma try_fuse_length [simp]: "length (snd (try_fuse_sequence alloc ir rest n c)) \<le> length rest"
  by (auto simp: try_fuse_sequence_def remove_next_nth_ir_def)

lemma match_lui_length [simp]: "length (snd (match_lui alloc ir n rest)) \<le> length rest"
  by (simp add: match_lui_def remove_next_nth_ir_def)

lemma match_lw_length [simp]: "length (snd (match_lw alloc ir n rest)) \<le> length rest"
  by (simp add: match_lw_def remove_next_nth_ir_def)

lemma match_addi_length [simp]: "length (snd (match_addi alloc ir n rest)) \<le> length rest"
  by (simp add: match_addi_def remove_next_nth_ir_def)

lemma match_one_length: "length (snd (match_one alloc ir rest)) \<le> length rest"
  by (simp add: match_one_def Let_def)

lemma match_one_decreases:
  "(ir', rest') = match_one alloc ir (n # rest) \<Longrightarrow> length rest' < Suc (Suc (length rest))"
  using match_one_length [of alloc ir "n # rest"] by (metis le_imp_less_Suc length_Cons snd_conv)

function (sequential) match_pattern :: "(rv_insn \<Rightarrow> bool) \<Rightarrow> rv_insn list \<Rightarrow> rv_insn list" where
  "match_pattern alloc (ir # next_ir # rest) =
    (case match_one alloc ir (next_ir # rest) of
       (ir', rest') \<Rightarrow> ir' # match_pattern alloc rest')"
| "match_pattern alloc irs = irs"
  by pat_completeness auto
termination
  by (relation "measure (\<lambda>(alloc, irs). length irs)") (simp_all add: match_one_decreases)

end
