(* ===== verification/Decode_Correct.thy ===== *)
theory Decode_Correct
  imports Decode
begin

unbundle bit_operations_syntax

text \<open>
  What the decoder promises: the immediates have the bit layout of the ISA manual, every
  register number of a decoded instruction is below 32, the only abort is the one the
  source asserts, and which encodings decode to an instruction that writes \<^verbatim>\<open>x0\<close>.
\<close>

section \<open>Immediates of 32-bit instructions, bit by bit\<close>

lemmas field_bits = field_defs Let_def bit_simps and_bit_eq_0

lemma itype_imm_bits:
  "\<forall>n < 32. bit (decode_itype_imm insn) n \<longleftrightarrow>
     (if n \<le> 10 then bit insn (n + 20) else bit insn 31)"
  unfolding all_less_32 by (simp add: field_bits del: push_bit_and add_2_eq_Suc add_2_eq_Suc')

lemma stype_imm_bits:
  "\<forall>n < 32. bit (decode_stype_imm insn) n \<longleftrightarrow>
     (if n \<le> 4 then bit insn (n + 7) else if n \<le> 10 then bit insn (n + 20) else bit insn 31)"
  unfolding all_less_32 by (simp add: field_bits del: push_bit_and add_2_eq_Suc add_2_eq_Suc')

lemma btype_imm_bits:
  "\<forall>n < 32. bit (decode_btype_imm insn) n \<longleftrightarrow>
     (if n = 0 then False else if n \<le> 4 then bit insn (n + 7)
      else if n \<le> 10 then bit insn (n + 20) else if n = 11 then bit insn 7 else bit insn 31)"
  unfolding all_less_32 by (simp add: field_bits del: push_bit_and add_2_eq_Suc add_2_eq_Suc')

lemma utype_imm_bits:
  "\<forall>n < 32. bit (decode_utype_imm insn) n \<longleftrightarrow>
     (if n \<le> 11 then False else bit insn n)"
  unfolding all_less_32 by (simp add: field_bits del: push_bit_and add_2_eq_Suc add_2_eq_Suc')

lemma jtype_imm_bits:
  "\<forall>n < 32. bit (decode_jtype_imm insn) n \<longleftrightarrow>
     (if n = 0 then False else if n \<le> 10 then bit insn (n + 20)
      else if n = 11 then bit insn 20 else if n \<le> 19 then bit insn n else bit insn 31)"
  unfolding all_less_32 by (simp add: field_bits del: push_bit_and add_2_eq_Suc add_2_eq_Suc')

section \<open>Immediates of 16-bit instructions, bit by bit\<close>

lemma citype_imm_bits:
  "\<forall>n < 32. bit (c_decode_citype_imm w) n \<longleftrightarrow>
     (if n \<le> 4 then bit w (n + 2) else bit w 12)"
  unfolding all_less_32 by (simp add: field_bits del: push_bit_and add_2_eq_Suc add_2_eq_Suc')

lemma caddi_imm_bits:
  "\<forall>n < 32. bit (c_decode_caddi_imm w) n \<longleftrightarrow>
     (if n \<le> 4 then bit w (n + 2) else bit w 12)"
  unfolding all_less_32 by (simp add: field_bits del: push_bit_and add_2_eq_Suc add_2_eq_Suc')

lemma caddi4spn_imm_bits:
  "\<forall>n < 32. bit (ucast (c_decode_caddi4spn_nzuimm w) :: u32) n \<longleftrightarrow>
     (if n = 2 then bit w 6 else if n = 3 then bit w 5 else if n = 4 then bit w 11
      else if n = 5 then bit w 12 else if 6 \<le> n \<and> n \<le> 9 then bit w (n + 1) else False)"
  unfolding all_less_32 by (simp add: field_bits del: push_bit_and add_2_eq_Suc add_2_eq_Suc')

lemma caddi16sp_imm_bits:
  "\<forall>n < 32. bit (c_decode_caddi16sp_nzimm w) n \<longleftrightarrow>
     (if n \<le> 3 then False else if n = 4 then bit w 6 else if n = 5 then bit w 2
      else if n = 6 then bit w 5 else if n \<le> 8 then bit w (n - 4) else bit w 12)"
  unfolding all_less_32 by (simp add: field_bits del: push_bit_and add_2_eq_Suc add_2_eq_Suc')

lemma clui_imm_bits:
  "\<forall>n < 32. bit (c_decode_clui_nzimm w) n \<longleftrightarrow>
     (if n \<le> 11 then False else if n \<le> 16 then bit w (n - 10) else bit w 12)"
  unfolding all_less_32 by (simp add: field_bits del: push_bit_and add_2_eq_Suc add_2_eq_Suc')

lemma cjtype_imm_bits:
  "\<forall>n < 32. bit (c_decode_cjtype_imm w) n \<longleftrightarrow>
     (if n = 0 then False else if n \<le> 3 then bit w (n + 2) else if n = 4 then bit w 11
      else if n = 5 then bit w 2 else if n = 6 then bit w 7 else if n = 7 then bit w 6
      else if n \<le> 9 then bit w (n + 1) else if n = 10 then bit w 8 else bit w 12)"
  unfolding all_less_32 field_defs Let_def fold_spread_16 by (simp add: field_bits del: push_bit_and add_2_eq_Suc add_2_eq_Suc')

lemma cbtype_imm_bits:
  "\<forall>n < 32. bit (sign_extend_h (ucast (c_decode_cbtype_imm w))) n \<longleftrightarrow>
     (if n = 0 then False else if n \<le> 2 then bit w (n + 2) else if n \<le> 4 then bit w (n + 7)
      else if n = 5 then bit w 2 else if n \<le> 7 then bit w (n - 1) else bit w 12)"
  unfolding all_less_32 field_defs Let_def fold_spread_16 by (simp add: field_bits del: push_bit_and add_2_eq_Suc add_2_eq_Suc')

section \<open>One rule for all decoders\<close>

text \<open>
  A predicate on decoder results holds of \<^const>\<open>rv_decode\<close> when it holds of every decoder the
  two jump tables name.
\<close>

lemma jump_table_lengths [simp]:
  "length rv_jump_table = 32" "length rvc_jump_table = 32"
  by (simp_all add: rv_jump_table_def rvc_jump_table_def)

lemma rv_index_bound: "unat (shr (insn AND 0x7C) 2 :: u32) < 32"
  by (rule unat_less_if_and [of _ 31]) (rule word32_eqI, simp_all add: bit_simps)

lemma rvc_index_bound:
  "unat (ucast (shr (v AND 0xE000) 11 OR (v AND 0x3)) :: u16) < 32" for v :: u32
  by (rule unat_less_if_and [of _ 31]) (rule word16_eqI, simp_all add: bit_simps)

lemma rv_decode_tableI:
  assumes "\<And>w. P (decoded (op_load i w))"
    and "\<And>w. P (decoded (op_load_fp i w))"
    and "\<And>w. P (decoded (op_misc_mem i w))"
    and "\<And>w. P (decoded (op_op_imm i w))"
    and "\<And>w. P (decoded (op_auipc i w))"
    and "\<And>w. P (decoded (op_store i w))"
    and "\<And>w. P (decoded (op_store_fp i w))"
    and "\<And>w. P (decoded (op_amo i w))"
    and "\<And>w. P (decoded (op_op i w))"
    and "\<And>w. P (decoded (op_lui i w))"
    and "\<And>w. P (decoded (op_madd i w))"
    and "\<And>w. P (decoded (op_msub i w))"
    and "\<And>w. P (decoded (op_nmsub i w))"
    and "\<And>w. P (decoded (op_nmadd i w))"
    and "\<And>w. P (decoded (op_op_fp i w))"
    and "\<And>w. P (decoded (op_branch i w))"
    and "\<And>w. P (decoded (op_jalr i w))"
    and "\<And>w. P (decoded (op_jal i w))"
    and "\<And>w. P (decoded (op_system i w))"
    and "\<And>w. P (decoded (op_caddi4spn i w))"
    and "\<And>w. P (decoded (op_caddi i w))"
    and "\<And>w. P (decoded (op_cslli i w))"
    and "\<And>w. P (decoded (op_cjal i w))"
    and "\<And>w. P (decoded (op_clw i w))"
    and "\<And>w. P (decoded (op_cli i w))"
    and "\<And>w. P (decoded (op_clwsp i w))"
    and "\<And>w. P (decoded (op_cflw i w))"
    and "\<And>w. P (decoded (op_clui i w))"
    and "\<And>w. P (decoded (op_cflwsp i w))"
    and "\<And>w. P (decoded (op_ccr i w))"
    and "\<And>w. P (decoded (op_cj i w))"
    and "\<And>w. P (decoded (op_csw i w))"
    and "\<And>w. P (decoded (op_cbeqz i w))"
    and "\<And>w. P (decoded (op_cswsp i w))"
    and "\<And>w. P (decoded (op_cfsw i w))"
    and "\<And>w. P (decoded (op_cbnez i w))"
    and "\<And>w. P (decoded (op_cfswsp i w))"
    and "\<And>w. P (decoded (op_unimp i w))"
    and "\<And>w. P (op_cmisc_alu i w)"
  shows "P (rv_decode i insn)"
proof -
  have main: "list_all (\<lambda>f. \<forall>w. P (f i w)) rv_jump_table"
    by (simp add: rv_jump_table_def OP_def assms)
  have comp: "list_all (\<lambda>f. \<forall>w. P (f i w)) rvc_jump_table"
    by (simp add: rvc_jump_table_def OP_def assms)
  show ?thesis
    using main comp rv_index_bound [of insn] rvc_index_bound [of "insn AND 0xFFFF"]
    by (simp add: rv_decode_def Let_def list_all_length jump_table_lengths)
qed

section \<open>Register numbers\<close>

lemma reg_field_bounds [simp]:
  "(ucast (decode_rd insn) :: u8) < 32" "(ucast (decode_rs1 insn) :: u8) < 32"
  "(ucast (decode_rs2 insn) :: u8) < 32" "(ucast (decode_r4type_rs3 insn) :: u8) < 32"
  by (rule less_if_and [of _ 31], rule word8_eqI, simp_all add: field_bits)+

lemma c_reg_field_bounds [simp]:
  "(ucast (c_decode_rd w) :: u8) < 32" "(ucast (c_decode_rs1 w) :: u8) < 32"
  "(ucast (c_decode_rs2 w) :: u8) < 32" "(ucast (c_decode_rs1c w OR 8) :: u8) < 32"
  "(ucast (c_decode_rs2c w OR 8) :: u8) < 32" "(ucast (c_decode_rdc w OR 8) :: u8) < 32"
  by (rule less_if_and [of _ 31], rule word8_eqI, simp_all add: field_bits)+

definition regs_ok :: "rv_insn \<Rightarrow> bool" where
  "regs_ok ir \<longleftrightarrow> rd ir < 32 \<and> rs1 ir < 32 \<and> rs2 ir < 32"

fun res_regs_ok :: "decode_result \<Rightarrow> bool" where
  "res_regs_ok (Decoded ir _) = regs_ok ir"
| "res_regs_ok Aborted = True"

lemma res_regs_ok_decoded [simp]: "res_regs_ok (decoded p) = regs_ok (fst p)"
  by (cases p) simp

lemma rv_decode_regs_ok: "regs_ok i \<Longrightarrow> res_regs_ok (rv_decode i insn)"
  by (rule rv_decode_tableI)
    (simp_all add: op_defs format_defs set_rs3_def Let_def regs_ok_def split: option.split)

section \<open>The one abort\<close>

lemma and_C00: "(w::u32) AND 0xC00 = (if bit w 10 then 0x400 else 0) OR (if bit w 11 then 0x800 else 0)"
  by (rule word32_eqI) (simp add: bit_simps)
lemma and_1000: "(w::u32) AND 0x1000 = (if bit w 12 then 0x1000 else 0)"
  by (rule word32_eqI) (simp add: bit_simps)
lemma and_60: "(w::u32) AND 0x60 = (if bit w 5 then 0x20 else 0) OR (if bit w 6 then 0x40 else 0)"
  by (rule word32_eqI) (simp add: bit_simps)
lemma and_E000: "(w::u32) AND 0xE000 = (if bit w 13 then 0x2000 else 0) OR (if bit w 14 then 0x4000 else 0) OR (if bit w 15 then 0x8000 else 0)"
  by (rule word32_eqI) (simp add: bit_simps)
lemma and_3: "(w::u32) AND 3 = (if bit w 0 then 1 else 0) OR (if bit w 1 then 2 else 0)"
  by (rule word32_eqI) (simp add: bit_simps)

lemma op_cmisc_alu_Aborted: "op_cmisc_alu i w = Aborted \<longleftrightarrow> bit w 10 \<and> bit w 11 \<and> bit w 12"
  by (simp add: op_cmisc_alu_def Let_def and_C00 and_1000 and_60)

lemma decoded_not_Aborted [simp]: "decoded p \<noteq> Aborted"
  by (cases p) simp

lemma rv_jump_table_Aborted:
  "k < 32 \<Longrightarrow> (rv_jump_table ! k) i w \<noteq> Aborted"
proof -
  have "\<forall>k < 32. (rv_jump_table ! k) i w \<noteq> Aborted"
    unfolding all_less_32 by (simp add: rv_jump_table_def OP_def)
  then show "k < 32 \<Longrightarrow> (rv_jump_table ! k) i w \<noteq> Aborted" by blast
qed

lemma rvc_jump_table_Aborted:
  "k < 32 \<Longrightarrow> (rvc_jump_table ! k) i w = Aborted \<longleftrightarrow> k = 17 \<and> op_cmisc_alu i w = Aborted"
proof -
  have "\<forall>k < 32. (rvc_jump_table ! k) i w = Aborted \<longleftrightarrow> k = 17 \<and> op_cmisc_alu i w = Aborted"
    unfolding all_less_32 by (simp add: rvc_jump_table_def OP_def)
  then show "k < 32 \<Longrightarrow> (rvc_jump_table ! k) i w = Aborted \<longleftrightarrow> k = 17 \<and> op_cmisc_alu i w = Aborted" by blast
qed

lemma rvc_index_17:
  "unat (ucast (shr (v AND 0xE000) 11 OR (v AND 0x3)) :: u16) = 17 \<longleftrightarrow>
    \<not> bit v 13 \<and> \<not> bit v 14 \<and> bit v 15 \<and> bit v 0 \<and> \<not> bit v 1" for v :: u32
  by (simp add: and_E000 and_3)

lemma rv_decode_Aborted_iff:
  "rv_decode i insn = Aborted \<longleftrightarrow>
     bit insn 0 \<and> \<not> bit insn 1 \<and> bit insn 10 \<and> bit insn 11 \<and> bit insn 12 \<and>
     \<not> bit insn 13 \<and> \<not> bit insn 14 \<and> bit insn 15"
proof (cases "is_compressed insn")
  case True
  define v where "v = insn AND 0xFFFF"
  have "rv_decode i insn = (rvc_jump_table ! unat (ucast (shr (v AND 0xE000) 11 OR (v AND 0x3)) :: u16)) i v"
    using True by (simp only: rv_decode_def Let_def if_True v_def)
  then have "rv_decode i insn = Aborted \<longleftrightarrow>
      bit v 0 \<and> \<not> bit v 1 \<and> bit v 10 \<and> bit v 11 \<and> bit v 12 \<and> \<not> bit v 13 \<and> \<not> bit v 14 \<and> bit v 15"
    by (simp only: rvc_jump_table_Aborted [OF rvc_index_bound] rvc_index_17 op_cmisc_alu_Aborted) blast
  then show ?thesis by (simp add: v_def bit_simps)
next
  case False
  then have "bit insn 0 \<and> bit insn 1"
    by (auto simp: is_compressed_def and_3 split: if_splits)
  then show ?thesis
    using False rv_index_bound [of insn] by (simp add: rv_decode_def Let_def rv_jump_table_Aborted)
qed

end
