(* ===== verification/Block.thy ===== *)
theory Block
  imports Exec Constopt Fusion Decode_Correct
begin

unbundle bit_operations_syntax

text \<open>
  Basic blocks (\<^verbatim>\<open>emulate.c\<close>): \<^verbatim>\<open>block_translate\<close> decodes the instructions from the PC on up to a
  branch, the end of the 4 KiB page, an instruction word 0 or an illegal instruction;
  \<^verbatim>\<open>block_find_or_translate\<close> runs the two passes over a new block. Memory pools are not modelled:
  an allocation of the block or of an instruction succeeds. \<^verbatim>\<open>rv_step_debug\<close> is the single-step
  entry point of the debugger build, the reference the blocks are compared with.
\<close>

section \<open>Translation\<close>

datatype stop_reason = Fetch_zero | Illegal u32 | Branch_end | Page_end | Decode_abort

definition page_end :: "u32 \<Rightarrow> u32" where
  "page_end start = (start AND NOT 0xFFF) + 0x1000"

lemma page_end_no_wrap: "unat (page_end start) + 4096 \<le> 2 ^ 32"
proof -
  have "(page_end start) AND NOT 0xFFF = page_end start"
  proof -
    have "start AND NOT 0xFFF = shl (shr start 12) 12"
      by (rule word32_eqI) (simp add: bit_simps)
    then have "page_end start = shl (shr start 12 + 1) 12"
      by (simp add: page_end_def push_bit_eq_mult algebra_simps)
    then show ?thesis
      by (auto intro: word32_eqI simp: bit_simps)
  qed
  then have "page_end start \<le> NOT 0xFFF" by (metis and_mask_le)
  then show ?thesis by (simp add: word_le_nat_alt)
qed

text \<open>
  The body of the \<^verbatim>\<open>while (true)\<close> loop, from the address \<open>a = block->pc_end\<close>: the instructions
  still to be appended, the final \<^verbatim>\<open>pc_end\<close> and the reason to stop.
\<close>

definition insn_bytes :: "u32 \<Rightarrow> u32" where
  "insn_bytes insn = (if is_compressed insn then 2 else 4)"

lemma translate_decreases:
  assumes "a + k < page_end start" "k = 2 \<or> k = 4"
  shows "unat (page_end start - (a + k)) < unat (page_end start - a)"
proof -
  let ?d = "page_end start - a"
  have k: "unat k = 2 \<or> unat k = 4" using assms(2) by auto
  have "\<not> unat ?d < unat k"
  proof
    assume small: "unat ?d < unat k"
    then have "unat (k - ?d) = unat k - unat ?d" by (simp add: unat_sub word_le_nat_alt)
    then have "unat (page_end start) + unat (k - ?d) < 2 ^ LENGTH(32)"
      using page_end_no_wrap [of start] k by auto
    then have "unat (page_end start + (k - ?d)) = unat (page_end start) + unat (k - ?d)"
      by (simp only: unat_add_lem)
    then have "unat (page_end start) \<le> unat (a + k)" by (simp add: algebra_simps)
    with assms(1) show False by (simp add: word_less_nat_alt)
  qed
  then have "unat (?d - k) = unat ?d - unat k" by (simp add: unat_sub word_le_nat_alt)
  with \<open>\<not> unat ?d < unat k\<close> k show ?thesis by (auto simp: algebra_simps)
qed

function translate_loop :: "memory \<Rightarrow> u32 \<Rightarrow> u32 \<Rightarrow> rv_insn list \<times> u32 \<times> stop_reason" where
  "translate_loop m start a =
    (let insn = memory_ifetch m a in
     if insn = 0 then ([], a, Fetch_zero)
     else case rv_decode ir0 insn of
       Aborted \<Rightarrow> ([], a, Decode_abort)
     | Decoded ir ok \<Rightarrow>
         (if \<not> ok then ([], a, Illegal insn)
          else
            (let ir = ir\<lparr>pc := a\<rparr>; a' = a + insn_bytes insn in
             if insn_is_branch (opcode ir) then ([ir], a', Branch_end)
             else if a' \<ge> page_end start then ([ir], a', Page_end)
             else case translate_loop m start a' of (irs, e, r) \<Rightarrow> (ir # irs, e, r))))"
  by auto
termination
  by (relation "measure (\<lambda>(m, start, a). unat (page_end start - a))")
    (auto simp: insn_bytes_def not_le intro!: translate_decreases)

declare translate_loop.simps [simp del]

text \<open>\<^verbatim>\<open>block_t\<close>; \<^verbatim>\<open>n_insn\<close> is the length of the list, \<^verbatim>\<open>ir_head\<close> and \<^verbatim>\<open>ir_tail\<close> its ends.\<close>

record block =
  pc_start :: u32
  pc_end :: u32
  ir_list :: "rv_insn list"
  page_terminated :: bool
  cycle_cost :: u32

text \<open>
  The machine changes when the translation meets an illegal instruction: the trap is raised
  at once. \<^const>\<open>None\<close>: the process is aborted. The second component is the block, if any
  instruction was decoded.
\<close>

definition block_translate :: "riscv \<Rightarrow> (riscv \<times> block option) option" where
  "block_translate rv =
    (case translate_loop (mem_base rv) (PC rv) (PC rv) of (is, e, r) \<Rightarrow>
       let b = (if is = [] then None
                else Some \<lparr>pc_start = PC rv, pc_end = e, ir_list = is,
                           page_terminated = (r = Page_end), cycle_cost = of_nat (length is)\<rparr>) in
       case r of
         Decode_abort \<Rightarrow> None
       | Illegal insn \<Rightarrow>
           map_option (\<lambda>rv. (rv, b))
             (SET_CAUSE_AND_TVAL_THEN_TRAP (rv\<lparr>compressed := is_compressed insn\<rparr>) ILLEGAL_INSN insn)
       | _ \<Rightarrow> Some (rv, b))"

text \<open>The new-block path of \<^verbatim>\<open>block_find_or_translate\<close>: translate, propagate constants, fuse.\<close>

definition new_block :: "(rv_insn \<Rightarrow> bool) \<Rightarrow> riscv \<Rightarrow> (riscv \<times> block option) option" where
  "new_block alloc rv =
    (case block_translate rv of
       None \<Rightarrow> None
     | Some (rv, None) \<Rightarrow> Some (rv, None)
     | Some (rv, Some b) \<Rightarrow>
         (case optimize_constant rv (ir_list b) of
            None \<Rightarrow> None
          | Some is \<Rightarrow> Some (rv, Some (b\<lparr>ir_list := match_pattern alloc is\<rparr>))))"

section \<open>Single steps\<close>

text \<open>
  A handler called with \<^verbatim>\<open>ir.next = NULL\<close>; the debugger build skips the branch history table,
  so an indirect jump goes to \<^verbatim>\<open>end_op\<close>. \<^verbatim>\<open>rv_step_debug\<close> ignores what the handler returns.
\<close>

fun debug_result :: "outcome \<Rightarrow> riscv option" where
  "debug_result (Ret b rv) = Some rv"
| "debug_result (Bht rv c p) = Some (rv\<lparr>csr_cycle := c, PC := p\<rparr>)"
| "debug_result _ = None"

definition rv_step_debug :: "env \<Rightarrow> riscv \<Rightarrow> riscv option" where
  "rv_step_debug env rv =
    (let rv = (if PC rv = exit_addr rv then rv\<lparr>on_exit := True\<rparr> else rv);
         insn = mem_ifetch rv (PC rv) in
     if insn = 0 then Some rv
     else case rv_decode ir0 insn of
       Aborted \<Rightarrow> None
     | Decoded ir ok \<Rightarrow>
         (if \<not> ok then
            SET_CAUSE_AND_TVAL_THEN_TRAP (rv\<lparr>compressed := is_compressed insn\<rparr>) ILLEGAL_INSN insn
          else debug_result (exec env [ir\<lparr>pc := PC rv\<rparr>] rv (csr_cycle rv) (PC rv))))"

end
