(* ===== verification/Zero_Reg.thy ===== *)
theory Zero_Reg
  imports Exec Decode_Correct
begin

unbundle bit_operations_syntax

text \<open>
  The zero register. No handler of an unconditional write tests \<^verbatim>\<open>rd\<close>; \<^verbatim>\<open>x0\<close> reads as 0 only
  because the decoder turns most instructions with destination \<^verbatim>\<open>x0\<close> into a no-op. This theory
  says which instructions keep \<^verbatim>\<open>X[0] = 0\<close> and which encodings the decoder lets through.
\<close>

fun base_writes_rd :: "base_op \<Rightarrow> bool" where
  "base_writes_rd Rv_nop = False"
| "base_writes_rd Rv_jal = False"
| "base_writes_rd Rv_jalr = False"
| "base_writes_rd Rv_beq = False"
| "base_writes_rd Rv_bne = False"
| "base_writes_rd Rv_blt = False"
| "base_writes_rd Rv_bge = False"
| "base_writes_rd Rv_bltu = False"
| "base_writes_rd Rv_bgeu = False"
| "base_writes_rd Rv_sb = False"
| "base_writes_rd Rv_sh = False"
| "base_writes_rd Rv_sw = False"
| "base_writes_rd Rv_fence = False"
| "base_writes_rd Rv_ecall = False"
| "base_writes_rd Rv_ebreak = False"
| "base_writes_rd _ = True"

fun c_writes_rd :: "c_op \<Rightarrow> bool" where
  "c_writes_rd Rv_caddi4spn = True"
| "c_writes_rd Rv_clw = True"
| "c_writes_rd Rv_caddi = True"
| "c_writes_rd Rv_cli = True"
| "c_writes_rd Rv_caddi16sp = True"
| "c_writes_rd Rv_clui = True"
| "c_writes_rd Rv_csub = True"
| "c_writes_rd Rv_cxor = True"
| "c_writes_rd Rv_cor = True"
| "c_writes_rd Rv_cand = True"
| "c_writes_rd Rv_cslli = True"
| "c_writes_rd Rv_clwsp = True"
| "c_writes_rd Rv_cmv = True"
| "c_writes_rd Rv_cadd = True"
| "c_writes_rd _ = False"

text \<open>The opcodes whose handler writes \<open>X[rd]\<close>, or \<open>X[rs1]\<close>, without a test for \<^verbatim>\<open>x0\<close>.\<close>

fun writes_rd :: "opcode \<Rightarrow> bool" where
  "writes_rd (I_op b) = base_writes_rd b"
| "writes_rd (B_op b) = True"
| "writes_rd (M_op b) = True"
| "writes_rd (C_op b) = c_writes_rd b"
| "writes_rd (Fuse_op b) = True"
| "writes_rd _ = False"

definition writes_rs1 :: "opcode \<Rightarrow> bool" where
  "writes_rs1 c \<longleftrightarrow> c = C_op Rv_csrli \<or> c = C_op Rv_csrai \<or> c = C_op Rv_candi"

fun is_fused :: "opcode \<Rightarrow> bool" where
  "is_fused (Fuse_op b) = True"
| "is_fused _ = False"

definition x0_safe :: "rv_insn \<Rightarrow> bool" where
  "x0_safe ir \<longleftrightarrow> \<not> is_fused (opcode ir) \<and> (writes_rd (opcode ir) \<longrightarrow> rd ir \<noteq> 0) \<and>
     (writes_rs1 (opcode ir) \<longrightarrow> rs1 ir \<noteq> 0)"

lemmas plain_defs = dispatch_def RVOP_def do_defs Let_def

lemma ret_opt_neq [simp]:
  "ret_opt b s \<noteq> Next rv c p" "ret_opt b s \<noteq> Fuse_next rv c p" "ret_opt b s \<noteq> End_op rv c p"
  "ret_opt b s \<noteq> Undefined" "ret_opt b s \<noteq> Tail t rv c p" "ret_opt b s \<noteq> Bht rv c p"
  by (cases s; simp)+

lemma X_frames [simp]:
  "X (ram_write_b rv a b) = X rv" "X (ram_write_s rv a h) = X rv" "X (ram_write_w rv a w) = X rv"
  "X (softfloat_raiseFlags fl rv) = X rv" "X (set_fflag rv) = X rv"
  by (simp_all add: mem_defs softfp_defs Let_def)

lemma set_rounding_mode_X: "set_rounding_mode rv m = Some rv' \<Longrightarrow> X rv' = X rv"
  by (auto simp: set_rounding_mode_def Let_def split: if_splits)

lemma X_compare:
  "f32_eq rv a b = (rv', r) \<Longrightarrow> X rv' = X rv" "f32_lt rv a b = (rv', r) \<Longrightarrow> X rv' = X rv"
  "f32_le rv a b = (rv', r) \<Longrightarrow> X rv' = X rv" "f32_lt_quiet rv a b = (rv', r) \<Longrightarrow> X rv' = X rv"
  by (auto simp: softfp_defs Let_def split: if_splits)

lemma X_csr:
  "csr_csrrw ht rv csr v c = (rv', out) \<Longrightarrow> X rv' = X rv"
  "csr_csrrs ht rv csr v c = (rv', out) \<Longrightarrow> X rv' = X rv"
  "csr_csrrc ht rv csr v c = (rv', out) \<Longrightarrow> X rv' = X rv"
  by (auto simp: csr_csrrw_def csr_csrrs_def csr_csrrc_def csr_sync_cycle_def Let_def
      dest!: csr_get_ptr_frame split: prod.splits option.splits if_splits)

lemma fold_or_set_X:
  "fold (\<lambda>i rv. set_X r (X rv r OR f i) rv) is rv = set_X r (fold (\<lambda>i v. v OR f i) is (X rv r)) rv"
  by (induction "is" arbitrary: rv) simp_all

lemma fold_if_or_set_X:
  "fold (\<lambda>i rv. if b i then set_X r (X rv r OR g i) rv else rv) is rv =
   set_X r (fold (\<lambda>i v. if b i then v OR g i else v) is (X rv r)) rv"
  by (induction "is" arbitrary: rv) simp_all

lemma fold_set_X_0:
  "X rv 0 = 0 \<Longrightarrow> r \<noteq> 0 \<Longrightarrow> X (fold (\<lambda>i rv. set_X r (g i rv) rv) is rv) 0 = 0"
  by (induction "is" arbitrary: rv) simp_all

lemma fold_if_set_X_0:
  "X rv 0 = 0 \<Longrightarrow> r \<noteq> 0 \<Longrightarrow>
   X (fold (\<lambda>i rv. if b i then set_X r (g i rv) rv else rv) is rv) 0 = 0"
  by (induction "is" arbitrary: rv) simp_all

lemma do_base_x0:
  "do_base b env rv ir c p = Next rv' c' p' \<Longrightarrow> X rv 0 = 0 \<Longrightarrow> base_writes_rd b \<longrightarrow> rd ir \<noteq> 0 \<Longrightarrow>
   X rv' 0 = 0"
  by (cases b) (auto simp: do_defs Let_def split: if_splits option.splits)

lemma do_sys_x0:
  "do_sys b env rv ir c p = Next rv' c' p' \<Longrightarrow> X rv 0 = 0 \<Longrightarrow> X rv' 0 = 0"
  by (cases b) (auto simp: do_defs Let_def dest!: X_csr split: if_splits prod.splits)

lemma do_bit_x0:
  "do_bit b env rv ir c p = Next rv' c' p' \<Longrightarrow> X rv 0 = 0 \<Longrightarrow> rd ir \<noteq> 0 \<Longrightarrow> X rv' 0 = 0"
  by (cases b) (auto simp: do_defs Let_def fold_if_set_X_0 split: if_splits)

lemma do_mul_ext_x0:
  "do_mul_ext b env rv ir c p = Next rv' c' p' \<Longrightarrow> X rv 0 = 0 \<Longrightarrow> rd ir \<noteq> 0 \<Longrightarrow> X rv' 0 = 0"
  by (cases b) (auto simp: do_defs Let_def)

lemma do_amo_x0:
  "do_amo b env rv ir c p = Next rv' c' p' \<Longrightarrow> X rv 0 = 0 \<Longrightarrow> X rv' 0 = 0"
  by (cases b) (auto simp: do_defs Let_def split: if_splits)

lemma do_fp_x0:
  "do_fp b env rv ir c p = Next rv' c' p' \<Longrightarrow> X rv 0 = 0 \<Longrightarrow> X rv' 0 = 0"
  by (cases b) (auto simp: do_defs Let_def dest!: set_rounding_mode_X X_compare
      split: if_splits option.splits prod.splits bool.splits)

lemma do_c_x0:
  "do_c b env rv ir c p = Next rv' c' p' \<Longrightarrow> X rv 0 = 0 \<Longrightarrow> c_writes_rd b \<longrightarrow> rd ir \<noteq> 0 \<Longrightarrow>
   writes_rs1 (C_op b) \<longrightarrow> rs1 ir \<noteq> 0 \<Longrightarrow> X rv' 0 = 0"
  by (cases b) (auto simp: do_defs Let_def writes_rs1_def fold_set_X_0 split: if_splits option.splits)

text \<open>A handler of a safe instruction that goes on to the next one keeps \<^verbatim>\<open>X[0] = 0\<close>.\<close>

lemma RVOP_Next:
  "RVOP len h env rv ir c p = Next rv' c' p' \<Longrightarrow> \<exists>c'' p''. h env rv ir (c + 1) p = Next rv' c'' p''"
  by (auto simp: RVOP_def split: outcome.splits)

lemma dispatch_x0:
  assumes "dispatch env rv ir c p = Next rv' c' p'" "X rv 0 = 0" "x0_safe ir"
  shows "X rv' 0 = 0"
  using assms
  by (cases "opcode ir") (auto simp: dispatch_def x0_safe_def dest!: RVOP_Next
      dest: do_base_x0 do_sys_x0 do_bit_x0 do_mul_ext_x0 do_amo_x0 do_fp_x0 do_c_x0)

section \<open>What the decoder lets through\<close>

text \<open>
  Loads into \<^verbatim>\<open>x0\<close> and \<^verbatim>\<open>C.LI\<close> with destination \<^verbatim>\<open>x0\<close> are decoded to writing instructions.
\<close>

definition x0_hole :: "rv_insn \<Rightarrow> bool" where
  "x0_hole ir \<longleftrightarrow> rd ir = 0 \<and> opcode ir \<in> {I_op Rv_lb, I_op Rv_lh, I_op Rv_lw, I_op Rv_lbu,
     I_op Rv_lhu, C_op Rv_cli}"

fun res_x0 :: "decode_result \<Rightarrow> bool" where
  "res_x0 (Decoded ir ok) \<longleftrightarrow> (ok \<longrightarrow> x0_safe ir \<or> x0_hole ir)"
| "res_x0 Aborted = True"

lemma res_x0_decoded [simp]: "res_x0 (decoded q) \<longleftrightarrow> (snd q \<longrightarrow> x0_safe (fst q) \<or> x0_hole (fst q))"
  by (cases q) simp

lemma neq_0_if_bit: "bit w n \<Longrightarrow> w \<noteq> 0"
  by auto

lemma c_reg_nonzero [simp]:
  "(ucast (c_decode_rdc w OR 8) :: u8) \<noteq> 0" "(ucast (c_decode_rs1c w OR 8) :: u8) \<noteq> 0"
  by (rule neq_0_if_bit [of _ 3], simp add: bit_simps)+

lemma csrai_rs1_nonzero:
  "(ucast (shr (w AND 0xC00) 10) :: u8) = 1 \<Longrightarrow> (ucast (c_decode_rs1 (ucast w)) :: u8) \<noteq> 0" for w :: u32
  by (rule neq_0_if_bit [of _ 3]) (auto simp: field_bits and_C00 split: if_splits)

lemma op_cmisc_alu_x0: "res_x0 (op_cmisc_alu i w)"
  by (simp add: op_cmisc_alu_def Let_def x0_safe_def writes_rs1_def csrai_rs1_nonzero)

lemma rv_decode_x0: "res_x0 (rv_decode i insn)"
proof (rule rv_decode_tableI)
  fix w
  show "res_x0 (decoded (op_op_fp i w))"
    by (simp add: op_op_fp_def Let_def x0_safe_def writes_rs1_def)
  show "res_x0 (decoded (op_system i w))"
    by (simp add: op_system_def op_system_opcode_def Let_def x0_safe_def writes_rs1_def split: option.split)
  show "res_x0 (decoded (op_amo i w))"
    by (simp add: op_amo_def Let_def x0_safe_def writes_rs1_def)
  show "res_x0 (decoded (op_op i w))"
    by (simp add: op_op_def op_op_base_def op_op_m_def op_op_b_def Let_def x0_safe_def writes_rs1_def)
  show "res_x0 (op_cmisc_alu i w)"
    by (rule op_cmisc_alu_x0)
qed (simp_all add: op_defs Let_def x0_safe_def x0_hole_def writes_rs1_def)


end
