(* ===== verification/Block_Pass.thy ===== *)
theory Block_Pass
  imports Zero_Reg
begin

unbundle bit_operations_syntax

text \<open>
  Facts about the execution of a block that its two rewriting passes, constant propagation
  and fusion, rely on: what a freshly translated block looks like, how execution goes on
  from one instruction to the next, and the simulation argument for a pass that rewrites
  instructions one by one while it carries information forward.
\<close>

section \<open>Fresh blocks\<close>

text \<open>
  \<open>continue\<close>: what execution does behind an instruction that does not leave the block.
  \<open>clean\<close>: an outcome other than an abort or the \<^verbatim>\<open>return false\<close> of a handler that raised a trap.
\<close>

definition continue :: "env \<Rightarrow> rv_insn list \<Rightarrow> riscv \<Rightarrow> u64 \<Rightarrow> u32 \<Rightarrow> outcome" where
  "continue env rest rv cycle p = (if rest = [] then sync rv cycle p else exec env rest rv cycle p)"

definition clean :: "outcome \<Rightarrow> bool" where
  "clean r \<longleftrightarrow> (case r of Ret b rv \<Rightarrow> b | Abort \<Rightarrow> False | _ \<Rightarrow> True)"

lemma clean_simps [simp]:
  "clean (Ret b rv) = b" "\<not> clean Abort" "\<not> clean (ret_opt False s)"
  by (simp_all add: clean_def) (cases s; simp add: clean_def)

definition unchained :: "rv_insn \<Rightarrow> bool" where
  "unchained ir \<longleftrightarrow> branch_taken ir = None \<and> branch_untaken ir = None"

lemma end_op_unchained [simp]: "unchained ir \<Longrightarrow> end_op ir rv c p = sync rv c p"
  by (simp add: end_op_def unchained_def)

lemma exec_next:
  "dispatch env rv ir c p = Next rv' c' p' \<Longrightarrow> unchained ir \<Longrightarrow>
   exec env (ir # rest) rv c p = continue env rest rv' c' p'"
  by (simp add: continue_def)

lemma exec_fuse_next:
  "dispatch env rv ir c p = Fuse_next rv' c' p' \<Longrightarrow>
   exec env (ir # rest) rv c p = continue env rest rv' c' p'"
  by (simp add: continue_def)

lemma continue_Cons [simp]: "continue env (ir # rest) rv c p = exec env (ir # rest) rv c p"
  by (simp add: continue_def)

text \<open>Only fused handlers end with \<^verbatim>\<open>fuse_next_or_stop\<close>.\<close>

lemma do_not_fuse_next:
  "do_base b env rv ir c p \<noteq> Fuse_next rv' c' p'" "do_sys y env rv ir c p \<noteq> Fuse_next rv' c' p'"
  "do_bit x env rv ir c p \<noteq> Fuse_next rv' c' p'" "do_mul_ext m env rv ir c p \<noteq> Fuse_next rv' c' p'"
  "do_amo a env rv ir c p \<noteq> Fuse_next rv' c' p'" "do_fp f env rv ir c p \<noteq> Fuse_next rv' c' p'"
  "do_c z env rv ir c p \<noteq> Fuse_next rv' c' p'"
        apply (cases b; simp add: do_defs Let_def split: option.split)
       apply (cases y; simp add: do_defs Let_def split: prod.split)
      apply (cases x; simp add: do_defs Let_def)
     apply (cases m; simp add: do_defs Let_def)
    apply (cases a; simp add: do_defs Let_def)
   apply (cases f; simp add: do_defs Let_def split: option.split prod.split)
  apply (cases z; simp add: do_defs Let_def split: option.split)
  done

lemma dispatch_not_fuse_next:
  "\<not> is_fused (opcode ir) \<Longrightarrow> dispatch env rv ir c p \<noteq> Fuse_next rv' c' p'"
  by (cases "opcode ir") (auto simp: dispatch_def RVOP_def do_not_fuse_next split: outcome.splits)

text \<open>
  A block as \<^verbatim>\<open>block_translate\<close> leaves it when no instruction of it falls into the gap of the
  decoder's treatment of \<^verbatim>\<open>x0\<close>: not chained yet, and with a branch at most at the end.
\<close>

definition wf_block :: "rv_insn list \<Rightarrow> bool" where
  "wf_block irs \<longleftrightarrow> irs \<noteq> [] \<and> (\<forall>ir \<in> set irs. unchained ir \<and> x0_safe ir) \<and>
     (\<forall>ir \<in> set (butlast irs). \<not> insn_is_branch (opcode ir))"

lemma wf_block_tail: "wf_block (ks @ xs) \<Longrightarrow> xs \<noteq> [] \<Longrightarrow> wf_block xs"
  by (auto simp: wf_block_def butlast_append)

lemma wf_block_Cons:
  "wf_block (ir # irs) \<longleftrightarrow> unchained ir \<and> x0_safe ir \<and>
     (irs \<noteq> [] \<longrightarrow> \<not> insn_is_branch (opcode ir) \<and> wf_block irs)"
  by (auto simp: wf_block_def)

section \<open>The PC along a block\<close>

lemma do_Next_pc:
  "do_base b env rv ir c p = Next rv' c' p' \<Longrightarrow> c' = c \<and> p' = p"
  "do_sys y env rv ir c p = Next rv' c' p' \<Longrightarrow> c' = c \<and> p' = p"
  "do_bit x env rv ir c p = Next rv' c' p' \<Longrightarrow> c' = c \<and> p' = p"
  "do_mul_ext m env rv ir c p = Next rv' c' p' \<Longrightarrow> c' = c \<and> p' = p"
  "do_amo a env rv ir c p = Next rv' c' p' \<Longrightarrow> c' = c \<and> p' = p"
  "do_fp f env rv ir c p = Next rv' c' p' \<Longrightarrow> c' = c \<and> p' = p"
  "do_c z env rv ir c p = Next rv' c' p' \<Longrightarrow> c' = c \<and> p' = p"
        apply (cases b; auto simp: do_defs Let_def split: option.splits if_splits)
       apply (cases y; auto simp: do_defs Let_def split: prod.splits if_splits)
      apply (cases x; auto simp: do_defs Let_def split: if_splits)
     apply (cases m; auto simp: do_defs Let_def split: if_splits)
    apply (cases a; auto simp: do_defs Let_def split: if_splits)
   apply (cases f; auto simp: do_defs Let_def split: option.splits prod.splits if_splits)
  apply (cases z; auto simp: do_defs Let_def split: option.splits if_splits)
  done

lemma dispatch_Next_pc:
  assumes "dispatch env rv ir c p = Next rv' c' p'" "\<not> is_fused (opcode ir)"
  shows "c' = c + 1 \<and> p' = p + rv_insn_len (opcode ir)"
  using assms
  by (cases "opcode ir") (auto simp: dispatch_def RVOP_def dest: do_Next_pc split: outcome.splits)

text \<open>The recorded PCs of a block that starts at \<open>p\<close>.\<close>

fun pcs_from :: "u32 \<Rightarrow> rv_insn list \<Rightarrow> bool" where
  "pcs_from p [] = True"
| "pcs_from p (ir # irs) \<longleftrightarrow> pc ir = p \<and> pcs_from (p + rv_insn_len (opcode ir)) irs"

section \<open>Passes that rewrite instruction by instruction\<close>

text \<open>Outcomes up to the flag \<^verbatim>\<open>is_branch_taken\<close>, which a folded branch no longer sets.\<close>

fun erase :: "outcome \<Rightarrow> outcome" where
  "erase (Next rv c p) = Next (rv\<lparr>is_branch_taken := False\<rparr>) c p"
| "erase (Fuse_next rv c p) = Fuse_next (rv\<lparr>is_branch_taken := False\<rparr>) c p"
| "erase (End_op rv c p) = End_op (rv\<lparr>is_branch_taken := False\<rparr>) c p"
| "erase (Ret b rv) = Ret b (rv\<lparr>is_branch_taken := False\<rparr>)"
| "erase (Tail t rv c p) = Tail t (rv\<lparr>is_branch_taken := False\<rparr>) c p"
| "erase (Bht rv c p) = Bht (rv\<lparr>is_branch_taken := False\<rparr>) c p"
| "erase Abort = Abort"
| "erase Undefined = Undefined"

text \<open>
  \<open>step\<close> rewrites an instruction and updates the information; \<open>inv\<close> relates the information to
  the machine. A branch (which ends the block) may change its flag, any other instruction
  must do exactly what it did.
\<close>

locale block_pass =
  fixes step :: "rv_insn \<Rightarrow> 'i \<Rightarrow> rv_insn \<times> 'i"
    and inv :: "'i \<Rightarrow> riscv \<Rightarrow> bool"
    and ok :: "rv_insn \<Rightarrow> bool"
  assumes step_unchained: "unchained ir \<Longrightarrow> unchained (fst (step ir i))"
    and step_plain: "ok ir \<Longrightarrow> x0_safe ir \<Longrightarrow> \<not> insn_is_branch (opcode ir) \<Longrightarrow> inv i rv \<Longrightarrow>
      dispatch env rv ir c (pc ir) \<noteq> Undefined \<Longrightarrow>
      dispatch env rv (fst (step ir i)) c (pc ir) = dispatch env rv ir c (pc ir)"
    and step_inv: "ok ir \<Longrightarrow> x0_safe ir \<Longrightarrow> \<not> insn_is_branch (opcode ir) \<Longrightarrow> inv i rv \<Longrightarrow>
      dispatch env rv ir c (pc ir) = Next rv' c' p' \<Longrightarrow> inv (snd (step ir i)) rv'"
    and step_branch: "ok ir \<Longrightarrow> unchained ir \<Longrightarrow> insn_is_branch (opcode ir) \<Longrightarrow> inv i rv \<Longrightarrow>
      erase (exec env [fst (step ir i)] rv c (pc ir)) = erase (exec env [ir] rv c (pc ir))"
begin

fun pass :: "rv_insn list \<Rightarrow> 'i \<Rightarrow> rv_insn list" where
  "pass [] i = []"
| "pass (ir # irs) i = (case step ir i of (ir', i') \<Rightarrow> ir' # pass irs i')"

lemma pass_Nil_iff [simp]: "pass irs i = [] \<longleftrightarrow> irs = []"
  by (cases irs) (auto split: prod.split)

lemma exec_single:
  assumes "unchained ir" "unchained ir'" "dispatch env rv ir' c p = dispatch env rv ir c p"
  shows "exec env [ir'] rv c p = exec env [ir] rv c p"
  using assms by (simp split: outcome.split)

lemma pass_exec:
  assumes "wf_block irs" "pcs_from p irs" "\<forall>ir \<in> set irs. ok ir" "inv i rv"
    and "exec env irs rv c p \<noteq> Undefined"
  shows "erase (exec env (pass irs i) rv c p) = erase (exec env irs rv c p)"
  using assms
proof (induction irs arbitrary: i rv c p)
  case (Cons ir irs)
  obtain ir' i' where st: "step ir i = (ir', i')" by fastforce
  have pc: "pc ir = p" and uc: "unchained ir" "unchained ir'" and safe: "x0_safe ir"
    using Cons.prems(1,2) step_unchained [of ir i] st by (auto simp: wf_block_Cons)
  show ?case
  proof (cases "insn_is_branch (opcode ir)")
    case True
    with Cons.prems have "irs = []" by (auto simp: wf_block_Cons)
    then show ?thesis
      using step_branch [of ir i rv env c] True Cons.prems(3,4) uc st pc by (simp del: exec.simps)
  next
    case False
    have "dispatch env rv ir c p \<noteq> Undefined" using Cons.prems(5) by auto
    then have same: "dispatch env rv ir' c p = dispatch env rv ir c p"
      using step_plain [of ir i rv env c] False Cons.prems(3,4) safe st pc by simp
    show ?thesis
    proof (cases "irs = []")
      case True
      then show ?thesis using exec_single [OF uc same] st by (simp del: exec.simps)
    next
      case False
      show ?thesis
      proof (cases "dispatch env rv ir c p")
        case (Next rv' c' p')
        then have "inv i' rv'" "p' = p + rv_insn_len (opcode ir)"
          using step_inv [of ir i rv env c rv' c' p'] \<open>\<not> insn_is_branch (opcode ir)\<close> Cons.prems(3,4)
            safe st pc dispatch_Next_pc [OF Next] by (auto simp: x0_safe_def)
        with Next same False Cons.IH [of p' i' rv' c'] Cons.prems st show ?thesis
          by (auto simp: wf_block_Cons)
      next
        case (Fuse_next rv' c' p')
        then show ?thesis using safe dispatch_not_fuse_next [of ir env rv c p rv' c' p'] by (simp add: x0_safe_def)
      qed (use same st uc in simp_all)
    qed
  qed
qed (simp add: wf_block_def)

end

end
