(* ===== verification/Constopt_Correct.thy ===== *)
theory Constopt_Correct
  imports Constopt Block_Pass
begin

unbundle bit_operations_syntax

text \<open>
  Constant propagation keeps the meaning of a block. The information is right when every
  register marked constant holds its recorded value; each rule keeps that and rewrites its
  instruction to one with the same effect, except that a branch turned into a jump no longer
  sets \<^verbatim>\<open>is_branch_taken\<close>. The one rule that forgets to drop a register, \<^verbatim>\<open>SC.W\<close>, is excluded.
\<close>

definition const_inv :: "constopt_info \<Rightarrow> riscv \<Rightarrow> bool" where
  "const_inv info rv \<longleftrightarrow> X rv 0 = 0 \<and> (\<forall>r. is_constant info r \<longrightarrow> X rv r = const_val info r)"

definition const_ok :: "rv_insn \<Rightarrow> bool" where
  "const_ok ir \<longleftrightarrow> \<not> (opcode ir = A_op Rv_scw \<and> rd ir \<noteq> 0) \<and>
     (opcode ir \<in> {I_op Rv_beq, I_op Rv_bne, I_op Rv_blt, I_op Rv_bge, I_op Rv_bltu, I_op Rv_bgeu}
        \<longrightarrow> rd ir = 0)"

lemma const_invD: "const_inv info rv \<Longrightarrow> is_constant info r \<Longrightarrow> X rv r = const_val info r"
  by (simp add: const_inv_def)

lemma fold_if_set_X_other:
  "r \<noteq> r' \<Longrightarrow> X (fold (\<lambda>i rv. if b i then set_X r (g i rv) rv else rv) is rv) r' = X rv r'"
  by (induction "is" arbitrary: rv) simp_all

lemma ucast_sar_shr_32: "(ucast (sar w 32) :: u32) = ucast (shr w 32)" for w :: u64
  by (rule word32_eqI) (simp add: bit_simps)

lemma rvop_cong: "h env rv ir = h' env rv ir' \<Longrightarrow> RVOP len h env rv ir c p = RVOP len h' env rv ir' c p"
  by (simp add: RVOP_def)

section \<open>Each rule keeps the effect of its instruction\<close>

lemma constopt_base_plain:
  assumes "const_inv info rv" "\<not> base_is_branch b" "opcode ir = I_op b"
  shows "dispatch env rv (fst (constopt_base_op b ir info)) c (pc ir) = dispatch env rv ir c (pc ir)"
  using assms const_invD [OF assms(1)]
  by (cases b) (simp_all add: constopt_defs plain_defs ac_simps)

lemma constopt_mul_plain:
  assumes "const_inv info rv" "opcode ir = M_op b"
  shows "dispatch env rv (fst (constopt_mul_op b ir info)) c (pc ir) = dispatch env rv ir c (pc ir)"
  using assms const_invD [OF assms(1)]
  by (cases b) (simp_all add: constopt_defs plain_defs ucast_sar_shr_32)

lemma constopt_c_plain:
  assumes "const_inv info rv" "\<not> c_is_branch b" "opcode ir = C_op b"
    and "dispatch env rv ir c (pc ir) \<noteq> Undefined"
  shows "dispatch env rv (fst (constopt_c_op b ir info)) c (pc ir) = dispatch env rv ir c (pc ir)"
  using assms const_invD [OF assms(1)]
  by (cases b) (simp_all add: constopt_defs plain_defs fold_or_set_X split: if_splits)

lemma constopt_other_plain [simp]:
  "fst (constopt_sys_op y ir info) = ir" "fst (constopt_bit_op x ir info) = ir"
  "fst (constopt_amo_op a ir info) = ir" "fst (constopt_fp_op f ir info) = ir"
     apply (cases y; simp add: constopt_defs)
    apply (cases x; simp add: constopt_defs)
   apply (cases a; simp add: constopt_defs)
  apply (cases f; simp add: constopt_defs)
  done

section \<open>Each rule keeps the information right\<close>

lemma const_inv_not_constant:
  "const_inv info rv \<Longrightarrow> X rv' 0 = 0 \<Longrightarrow> (\<And>s. s \<noteq> r \<Longrightarrow> X rv' s = X rv s) \<Longrightarrow>
   const_inv (not_constant r info) rv'"
  by (auto simp: const_inv_def not_constant_def)

lemma const_inv_set:
  "const_inv info rv \<Longrightarrow> r \<noteq> 0 \<Longrightarrow> const_inv (set_constant r v info) (set_X r v rv)"
  by (auto simp: const_inv_def set_constant_def)

lemma const_inv_frame: "const_inv info rv \<Longrightarrow> X rv' = X rv \<Longrightarrow> const_inv info rv'"
  by (simp add: const_inv_def)

lemma constopt_base_inv:
  assumes "const_inv info rv" "\<not> base_is_branch b" "base_writes_rd b \<longrightarrow> rd ir \<noteq> 0"
    and "opcode ir = I_op b" "do_base b env rv ir c (pc ir) = Next rv' c' p'"
  shows "const_inv (snd (constopt_base_op b ir info)) rv'"
  using assms const_invD [OF assms(1)]
  by (cases b) (auto simp: constopt_defs do_defs Let_def const_inv_def ac_simps split: if_splits)

lemma constopt_mul_inv:
  assumes "const_inv info rv" "rd ir \<noteq> 0" "do_mul_ext b env rv ir c p = Next rv' c' p'"
  shows "const_inv (snd (constopt_mul_op b ir info)) rv'"
  using assms const_invD [OF assms(1)]
  by (cases b) (auto simp: constopt_defs do_defs Let_def const_inv_def ucast_sar_shr_32)

lemma constopt_bit_inv:
  assumes "const_inv info rv" "rd ir \<noteq> 0" "do_bit b env rv ir c p = Next rv' c' p'"
  shows "const_inv (snd (constopt_bit_op b ir info)) rv'"
  using assms
  by (cases b) (auto simp: constopt_defs do_defs Let_def const_inv_def fold_if_set_X_0 fold_if_set_X_other)

lemma constopt_sys_inv:
  assumes "const_inv info rv" "do_sys b env rv ir c p = Next rv' c' p'"
  shows "const_inv (snd (constopt_sys_op b ir info)) rv'"
  using assms
  by (cases b) (auto simp: constopt_defs do_defs Let_def const_inv_def dest!: X_csr
      split: prod.splits if_splits)

lemma constopt_amo_inv:
  assumes "const_inv info rv" "\<not> (b = Rv_scw \<and> rd ir \<noteq> 0)" "do_amo b env rv ir c p = Next rv' c' p'"
  shows "const_inv (snd (constopt_amo_op b ir info)) rv'"
  using assms
  by (cases b) (auto simp: constopt_defs do_defs Let_def const_inv_def split: if_splits)

lemma constopt_fp_inv:
  assumes "const_inv info rv" "do_fp b env rv ir c p = Next rv' c' p'"
  shows "const_inv (snd (constopt_fp_op b ir info)) rv'"
  using assms
  by (cases b) (auto simp: constopt_defs do_defs Let_def const_inv_def
      dest!: set_rounding_mode_X X_compare split: if_splits option.splits prod.splits bool.splits)

lemma constopt_c_inv:
  assumes "const_inv info rv" "\<not> c_is_branch b" "c_writes_rd b \<longrightarrow> rd ir \<noteq> 0"
    and "writes_rs1 (C_op b) \<longrightarrow> rs1 ir \<noteq> 0" "do_c b env rv ir c p = Next rv' c' p'"
  shows "const_inv (snd (constopt_c_op b ir info)) rv'"
  using assms const_invD [OF assms(1)]
  by (cases b) (auto simp: constopt_defs do_defs Let_def const_inv_def writes_rs1_def fold_or_set_X
      split: if_splits)

section \<open>The pass\<close>

abbreviation constopt_step :: "rv_insn \<Rightarrow> constopt_info \<Rightarrow> rv_insn \<times> constopt_info" where
  "constopt_step ir info \<equiv> constopt_table (opcode ir) ir info"

lemma constopt_base_branch:
  assumes "const_inv info rv" "base_is_branch b" "const_ok ir" "unchained ir" "opcode ir = I_op b"
  shows "erase (exec env [fst (constopt_base_op b ir info)] rv c (pc ir)) =
    erase (exec env [ir] rv c (pc ir))"
  using assms const_invD [OF assms(1)]
  by (cases b) (auto simp: constopt_defs plain_defs const_ok_def unchained_def end_op_def sync_def)

lemma constopt_c_branch:
  assumes "const_inv info rv" "c_is_branch b" "unchained ir" "opcode ir = C_op b"
  shows "erase (exec env [fst (constopt_c_op b ir info)] rv c (pc ir)) =
    erase (exec env [ir] rv c (pc ir))"
  using assms const_invD [OF assms(1)]
  by (cases b) (auto simp: constopt_defs plain_defs unchained_def end_op_def sync_def)

lemma constopt_unchained:
  "unchained ir \<Longrightarrow> unchained (fst (constopt_base_op b ir info))"
  "unchained ir \<Longrightarrow> unchained (fst (constopt_mul_op m ir info))"
  "unchained ir \<Longrightarrow> unchained (fst (constopt_c_op z ir info))"
    apply (cases b; simp add: constopt_defs Let_def unchained_def)
   apply (cases m; simp add: constopt_defs Let_def unchained_def)
  apply (cases z; simp add: constopt_defs Let_def unchained_def)
  done

interpretation constopt: block_pass constopt_step const_inv const_ok
proof
  fix ir info rv env c rv' c' p'
  show "unchained ir \<Longrightarrow> unchained (fst (constopt_step ir info))"
    by (cases "opcode ir") (simp_all add: constopt_unchained)
  assume inv: "const_inv info rv"
  show "erase (exec env [fst (constopt_step ir info)] rv c (pc ir)) = erase (exec env [ir] rv c (pc ir))"
    if "const_ok ir" "unchained ir" "insn_is_branch (opcode ir)"
    using that inv constopt_base_branch [of info rv _ ir env c] constopt_c_branch [of info rv _ ir env c]
    by (cases "opcode ir") (simp_all del: exec.simps)
  assume ok: "const_ok ir" "x0_safe ir" "\<not> insn_is_branch (opcode ir)"
  show "dispatch env rv (fst (constopt_step ir info)) c (pc ir) = dispatch env rv ir c (pc ir)"
    if "dispatch env rv ir c (pc ir) \<noteq> Undefined"
    using that inv ok
    by (cases "opcode ir") (simp_all add: constopt_base_plain constopt_mul_plain constopt_c_plain)
  show "const_inv (snd (constopt_step ir info)) rv'" if "dispatch env rv ir c (pc ir) = Next rv' c' p'"
    using that inv ok
    by (cases "opcode ir") (auto simp: dispatch_def x0_safe_def const_ok_def dest!: RVOP_Next
      intro: constopt_base_inv constopt_mul_inv constopt_c_inv constopt_sys_inv constopt_bit_inv
        constopt_amo_inv constopt_fp_inv)
qed

lemma constopt_loop_pass: "constopt_loop irs info = constopt.pass irs info"
  by (induction irs arbitrary: info) (auto split: prod.split)

lemma const_inv_info0: "X rv 0 = 0 \<Longrightarrow> const_inv info0 rv"
  by (simp add: const_inv_def info0_def)

end
