(* ===== verification/Sample.thy ===== *)
theory Sample
  imports Zero_Reg
begin

unbundle bit_operations_syntax

text \<open>
  A concrete machine and environment on which the hypotheses of the properties are shown to
  hold: the machine is a zeroed \<^verbatim>\<open>riscv_t\<close> in machine mode with 64 KiB of zeroed memory, as
  \<^verbatim>\<open>rv_create\<close> leaves it before the program is loaded; the environment has a clock that stands
  still and system calls that do nothing.
\<close>

definition rv0 :: riscv where
  "rv0 = \<lparr>halt = False, X = (\<lambda>r. 0), PC = 0, timer = 0, F = (\<lambda>r. 0), csr_fcsr = 0, csr_cycle = 0,
     csr_time_lo = 0, csr_time_hi = 0, csr_mstatus = 0, csr_mtvec = 0, csr_misa = 0, csr_mtval = 0,
     csr_mcause = 0, csr_mscratch = 0, csr_mepc = 0, csr_mip = 0, csr_mideleg = 0, csr_medeleg = 0,
     csr_mvendorid = 0, csr_marchid = 0, csr_mimpid = 0, csr_sstatus = 0, csr_stvec = 0, csr_sip = 0,
     csr_sie = 0, csr_scounteren = 0, csr_sscratch = 0, csr_sepc = 0, csr_scause = 0, csr_stval = 0,
     csr_satp = 0, priv_mode = 3, compressed = False, mem_base = (\<lambda>a. 0), mem_size = 0x10000,
     allow_misalign = False, exit_addr = 0, on_exit = False, is_branch_taken = False, last_pc = 0,
     softfloat_roundingMode = 0, softfloat_exceptionFlags = 0\<rparr>"

lemma rv0_simps [simp]:
  "halt rv0 = False" "X rv0 r = 0" "PC rv0 = 0" "F rv0 r = 0" "csr_fcsr rv0 = 0" "csr_cycle rv0 = 0"
  "csr_mstatus rv0 = 0" "csr_mtvec rv0 = 0" "csr_mepc rv0 = 0" "priv_mode rv0 = 3"
  "csr_mcause rv0 = 0" "csr_mtval rv0 = 0" "csr_sstatus rv0 = 0" "csr_stvec rv0 = 0"
  "compressed rv0 = False" "mem_base rv0 a = 0" "mem_size rv0 = 0x10000" "allow_misalign rv0 = False"
  "exit_addr rv0 = 0" "on_exit rv0 = False" "is_branch_taken rv0 = False"
  "softfloat_roundingMode rv0 = 0" "softfloat_exceptionFlags rv0 = 0"
  by (simp_all add: rv0_def)

definition env0 :: env where
  "env0 = \<lparr>host_time = (\<lambda>c. 0), syscall_handler = (\<lambda>rv. rv)\<rparr>"

text \<open>Sample instructions: \<^verbatim>\<open>lui x5, 0x12345\<close>, \<^verbatim>\<open>addi x5, x5, 8\<close>, \<^verbatim>\<open>lw x6, 8(x0)\<close>.\<close>

definition lui5 :: rv_insn where
  "lui5 = ir0\<lparr>opcode := I_op Rv_lui, rd := 5, imm := 0x12345000\<rparr>"

definition addi5 :: rv_insn where
  "addi5 = ir0\<lparr>opcode := I_op Rv_addi, rd := 5, rs1 := 5, imm := 8, pc := 4\<rparr>"

lemmas sample_defs = lui5_def addi5_def

end
