(* ===== verification/Block_Correct.thy ===== *)
theory Block_Correct
  imports Block Constopt_Correct Sample
begin

unbundle bit_operations_syntax

text \<open>
  What \<^verbatim>\<open>block_translate\<close> produces: the instructions of a block are the decoded words of the
  memory from the block's start on, at consecutive addresses, with a branch at most at the end,
  all of them starting in one 4 KiB page, and at most 2048 of them.
\<close>

section \<open>What the decoder leaves alone\<close>

fun dec_ok :: "u32 \<Rightarrow> decode_result \<Rightarrow> bool" where
  "dec_ok k (Decoded ir ok) \<longleftrightarrow> unchained ir \<and> (ok \<longrightarrow>
     \<not> is_fused (opcode ir) \<and> (rv_insn_len (opcode ir) = k \<or> opcode ir = I_op Rv_ebreak) \<and>
     (opcode ir \<in> {I_op Rv_beq, I_op Rv_bne, I_op Rv_blt, I_op Rv_bge, I_op Rv_bltu, I_op Rv_bgeu}
        \<longrightarrow> rd ir = 0))"
| "dec_ok k Aborted = True"

lemma dec_ok_decoded [simp]: "dec_ok k (decoded q) = dec_ok k (Decoded (fst q) (snd q))"
  by (cases q) simp

lemma unchained_simps [simp]:
  "unchained (ir\<lparr>opcode := a\<rparr>) = unchained ir" "unchained (ir\<lparr>imm := v\<rparr>) = unchained ir"
  "unchained (ir\<lparr>rd := r\<rparr>) = unchained ir" "unchained (ir\<lparr>rs1 := r\<rparr>) = unchained ir"
  "unchained (ir\<lparr>rs2 := r\<rparr>) = unchained ir" "unchained (ir\<lparr>rm := r\<rparr>) = unchained ir"
  "unchained (ir\<lparr>shamt := r\<rparr>) = unchained ir" "unchained (set_rs3 r ir) = unchained ir"
  "unchained (ir\<lparr>pc := v\<rparr>) = unchained ir" "unchained ir0"
  by (simp_all add: unchained_def set_rs3_def)

lemma format_unchained [simp]:
  "unchained (decode_itype i w) = unchained i" "unchained (decode_utype i w) = unchained i"
  "unchained (decode_stype i w) = unchained i" "unchained (decode_rtype i w) = unchained i"
  "unchained (decode_btype i w) = unchained i" "unchained (decode_jtype i w) = unchained i"
  "unchained (decode_r4type i w) = unchained i" "rd (decode_btype i w) = rd i"
  by (simp_all add: format_defs)

lemma rv_jump_table_ok: "list_all (\<lambda>f. \<forall>w. dec_ok 4 (f ir0 w)) rv_jump_table"
proof -
  have "dec_ok 4 (decoded (op_op ir0 w))" for w
    by (simp add: op_op_def op_op_base_def op_op_m_def op_op_b_def Let_def)
  moreover have "dec_ok 4 (decoded (op_system ir0 w))" for w
    by (simp add: op_system_def op_system_opcode_def Let_def split: option.split)
  moreover have "dec_ok 4 (decoded (op_op_fp ir0 w))" "dec_ok 4 (decoded (op_amo ir0 w))" for w
    by (simp_all add: op_op_fp_def op_amo_def Let_def)
  moreover have "dec_ok 4 (decoded (op_branch ir0 w))" "dec_ok 4 (decoded (op_op_imm ir0 w))" for w
    by (simp_all add: op_branch_def op_op_imm_def Let_def)
  moreover have "dec_ok 4 (decoded (op_load ir0 w))" "dec_ok 4 (decoded (op_load_fp ir0 w))"
    "dec_ok 4 (decoded (op_misc_mem ir0 w))" "dec_ok 4 (decoded (op_auipc ir0 w))"
    "dec_ok 4 (decoded (op_store ir0 w))" "dec_ok 4 (decoded (op_store_fp ir0 w))"
    "dec_ok 4 (decoded (op_lui ir0 w))" "dec_ok 4 (decoded (op_madd ir0 w))"
    "dec_ok 4 (decoded (op_msub ir0 w))" "dec_ok 4 (decoded (op_nmsub ir0 w))"
    "dec_ok 4 (decoded (op_nmadd ir0 w))" "dec_ok 4 (decoded (op_jalr ir0 w))"
    "dec_ok 4 (decoded (op_jal ir0 w))" "dec_ok 4 (decoded (op_unimp ir0 w))" for w
    by (simp_all add: op_load_def op_load_fp_def op_misc_mem_def op_auipc_def op_store_def op_store_fp_def
        op_lui_def op_madd_def op_msub_def op_nmsub_def op_nmadd_def op_jalr_def op_jal_def op_unimp_def Let_def)
  ultimately show ?thesis
    by (simp add: rv_jump_table_def OP_def del: dec_ok_decoded)
qed

lemma rvc_jump_table_ok: "list_all (\<lambda>f. \<forall>w. dec_ok 2 (f ir0 w)) rvc_jump_table"
  by (simp add: rvc_jump_table_def OP_def op_defs op_cmisc_alu_def Let_def)

lemma rv_decode_ok: "dec_ok (insn_bytes insn) (rv_decode ir0 insn)"
  using rv_jump_table_ok rvc_jump_table_ok rv_index_bound [of insn] rvc_index_bound [of "insn AND 0xFFFF"]
  by (simp add: rv_decode_def insn_bytes_def Let_def list_all_length del: dec_ok.simps)

section \<open>The shape of a translated block\<close>

definition decoded_at :: "memory \<Rightarrow> rv_insn \<Rightarrow> bool" where
  "decoded_at m ir \<longleftrightarrow> memory_ifetch m (pc ir) \<noteq> 0 \<and>
     (\<exists>ir'. rv_decode ir0 (memory_ifetch m (pc ir)) = Decoded ir' True \<and> ir = ir'\<lparr>pc := pc ir\<rparr>)"

lemma decoded_at_ok:
  assumes "decoded_at m ir"
  shows "unchained ir" "\<not> is_fused (opcode ir)" "x0_safe ir \<or> x0_hole ir"
    "opcode ir \<noteq> I_op Rv_ebreak \<Longrightarrow> rv_insn_len (opcode ir) = insn_bytes (memory_ifetch m (pc ir))"
    "\<not> (opcode ir = A_op Rv_scw \<and> rd ir \<noteq> 0) \<Longrightarrow> const_ok ir"
proof -
  obtain ir' where d: "rv_decode ir0 (memory_ifetch m (pc ir)) = Decoded ir' True" and ir: "ir = ir'\<lparr>pc := pc ir\<rparr>"
    using assms by (auto simp: decoded_at_def)
  have f: "opcode ir' = opcode ir" "rd ir' = rd ir" "rs1 ir' = rs1 ir" "unchained ir' = unchained ir"
    by (subst ir; simp)+
  have "dec_ok (insn_bytes (memory_ifetch m (pc ir))) (Decoded ir' True)" "res_x0 (Decoded ir' True)"
    using rv_decode_ok [of "memory_ifetch m (pc ir)"] rv_decode_x0 [of ir0 "memory_ifetch m (pc ir)"] d by simp_all
  then show "unchained ir" "\<not> is_fused (opcode ir)" "x0_safe ir \<or> x0_hole ir"
    "opcode ir \<noteq> I_op Rv_ebreak \<Longrightarrow> rv_insn_len (opcode ir) = insn_bytes (memory_ifetch m (pc ir))"
    "\<not> (opcode ir = A_op Rv_scw \<and> rd ir \<noteq> 0) \<Longrightarrow> const_ok ir"
    using f by (simp_all add: x0_safe_def x0_hole_def const_ok_def)
qed

lemma translate_loop_cases:
  assumes "translate_loop m start a = (irs, e, r)"
  obtains (stop) "irs = []" "e = a" "r \<noteq> Branch_end" "r \<noteq> Page_end"
  | (last) ir where "irs = [ir]" "pc ir = a" "decoded_at m ir" "e = a + insn_bytes (memory_ifetch m a)"
      "r = (if insn_is_branch (opcode ir) then Branch_end else Page_end)"
  | (more) ir irs' where "irs = ir # irs'" "pc ir = a" "decoded_at m ir" "\<not> insn_is_branch (opcode ir)"
      "a + insn_bytes (memory_ifetch m a) < page_end start"
      "translate_loop m start (a + insn_bytes (memory_ifetch m a)) = (irs', e, r)"
proof (cases "rv_decode ir0 (memory_ifetch m a)")
  case (Decoded ir ok)
  let ?ir = "ir\<lparr>pc := a\<rparr>"
  show thesis
  proof (cases "memory_ifetch m a = 0 \<or> \<not> ok")
    case True
    with Decoded assms stop show thesis
      by (subst (asm) translate_loop.simps) (auto simp: Let_def split: if_splits)
  next
    case False
    then have d: "decoded_at m ?ir" using Decoded by (auto simp: decoded_at_def)
    show thesis
    proof (cases "insn_is_branch (opcode ir) \<or> page_end start \<le> a + insn_bytes (memory_ifetch m a)")
      case True
      with False Decoded assms last [of ?ir] d show thesis
        by (subst (asm) translate_loop.simps) (auto simp: Let_def split: if_splits)
    next
      case go: False
      obtain irs' where "translate_loop m start (a + insn_bytes (memory_ifetch m a)) = (irs', e, r)"
        "irs = ?ir # irs'"
        using go False Decoded assms
        by (subst (asm) translate_loop.simps) (auto simp: Let_def split: if_splits prod.splits)
      with go d more [of ?ir irs'] show thesis by auto
    qed
  qed
next
  case Aborted
  with assms stop show thesis
    by (subst (asm) translate_loop.simps) (auto simp: Let_def split: if_splits)
qed

lemma translate_loop_shape:
  "translate_loop m start a = (irs, e, r) \<Longrightarrow>
   pcs_from a irs \<and> (\<forall>ir \<in> set irs. decoded_at m ir) \<and>
   (\<forall>ir \<in> set (butlast irs). \<not> insn_is_branch (opcode ir))"
proof (induction irs arbitrary: a)
  case (Cons ir irs)
  from Cons.prems show ?case
  proof (cases rule: translate_loop_cases)
    case (more ir' irs')
    moreover have "opcode ir \<noteq> I_op Rv_ebreak" using more by auto
    ultimately show ?thesis using Cons.IH decoded_at_ok(4) [of m ir] by auto
  qed simp_all
qed simp

section \<open>One page\<close>

definition page_of :: "u32 \<Rightarrow> nat" where
  "page_of a = unat a div 4096"

lemma page_of_less: "page_of a < 2 ^ 20"
proof -
  have "unat a < 2 ^ 32" using unsigned_less [of a, where 'a = nat] by simp
  then show ?thesis by (simp add: page_of_def)
qed

lemma unat_page_end: "unat (page_end start) = (page_of start + 1) * 4096 mod 2 ^ 32"
proof -
  have "start AND NOT 0xFFF = shl (shr start 12) 12"
    by (rule word32_eqI) (simp add: bit_simps)
  then have "page_end start = (start div 4096 + 1) * 4096"
    by (simp add: page_end_def push_bit_eq_mult drop_bit_eq_div algebra_simps)
  then show ?thesis
    by (simp add: page_of_def unat_word_ariths unat_div mod_simps add.commute [of 4096])
qed

lemma page_step:
  assumes "page_of a = page_of start" "a + k < page_end start" "k = 2 \<or> k = 4"
  shows "page_of (a + k) = page_of start" "unat (a + k) = unat a + unat k"
proof -
  have k: "unat k = 2 \<or> unat k = 4" using assms(3) by auto
  have lt: "unat (a + k) < unat (page_end start)" using assms(2) by (simp add: word_less_nat_alt)
  have pe: "unat (page_end start) = (page_of start + 1) * 4096"
  proof -
    have "page_of start < 2 ^ 20" by (rule page_of_less)
    moreover have "unat (page_end start) \<noteq> 0" using lt by linarith
    ultimately have "page_of start + 1 < 2 ^ 20"
      unfolding unat_page_end by (cases "page_of start + 1 = 2 ^ 20") auto
    then show ?thesis unfolding unat_page_end by (intro mod_less) simp
  qed
  have "unat (page_end start) + 4096 \<le> 2 ^ 32" by (rule page_end_no_wrap)
  moreover have "unat a < (page_of start + 1) * 4096"
    using assms(1) unfolding page_of_def [of a] by auto
  ultimately have "unat a + unat k < 2 ^ 32" using k pe by auto
  then show u: "unat (a + k) = unat a + unat k" by (simp add: unat_word_ariths)
  show "page_of (a + k) = page_of start"
    using u lt pe k assms(1) unfolding page_of_def by auto
qed

lemma translate_loop_page:
  "translate_loop m start a = (irs, e, r) \<Longrightarrow> page_of a = page_of start \<Longrightarrow>
   (\<forall>ir \<in> set irs. page_of (pc ir) = page_of start) \<and>
   2 * length irs + unat a \<le> (page_of start + 1) * 4096 + 1"
proof (induction irs arbitrary: a)
  case Nil
  then have "unat a < (page_of start + 1) * 4096" unfolding page_of_def [of a] by auto
  then show ?case by simp
next
  case (Cons ir irs)
  have a: "unat a < (page_of start + 1) * 4096" using Cons.prems(2) unfolding page_of_def [of a] by auto
  have k: "insn_bytes (memory_ifetch m a) = 2 \<or> insn_bytes (memory_ifetch m a) = 4"
    by (simp add: insn_bytes_def)
  from Cons.prems(1) show ?case
  proof (cases rule: translate_loop_cases)
    case (more ir' irs')
    note st = page_step [OF Cons.prems(2) more(5) k]
    from Cons.IH [OF _ st(1)] more have "(\<forall>ir \<in> set irs. page_of (pc ir) = page_of start)"
      "2 * length irs + unat (a + insn_bytes (memory_ifetch m a)) \<le> (page_of start + 1) * 4096 + 1"
      by auto
    with more st(2) k Cons.prems(2) show ?thesis by auto
  qed (use Cons.prems(2) a in auto)
qed

end
