(* ===== verification/Fusion_Correct.thy ===== *)
theory Fusion_Correct
  imports Fusion Block_Pass
begin
unbundle bit_operations_syntax

lemma exec_straight:
  assumes "gs \<noteq> []"
    and "\<forall>g \<in> set gs. unchained g \<and> (\<forall>rv c p. dispatch env rv g c p = Next (h g rv) (c + 1) (p + 4))"
  shows "exec env (gs @ rest) rv c p =
    continue env rest (fold h gs rv) (c + of_nat (length gs)) (p + of_nat (length gs) * 4)"
  using assms
proof (induction gs arbitrary: rv c p rule: list_nonempty_induct)
  case (single g)
  then show ?case by (simp add: continue_def)
next
  case (cons g gs)
  then show ?case by (simp add: exec_next continue_def algebra_simps)
qed

lemma dispatch_simps:
  "opcode ir = I_op Rv_lui \<Longrightarrow> dispatch env rv ir c p = Next (set_X (rd ir) (imm ir) rv) (c + 1) (p + 4)"
  "opcode ir = I_op Rv_addi \<Longrightarrow>
     dispatch env rv ir c p = Next (set_X (rd ir) (X rv (rs1 ir) + imm ir) rv) (c + 1) (p + 4)"
  "opcode ir = I_op Rv_add \<Longrightarrow>
     dispatch env rv ir c p = Next (set_X (rd ir) (X rv (rs1 ir) + X rv (rs2 ir)) rv) (c + 1) (p + 4)"
  "is_shift_imm ir \<Longrightarrow>
     dispatch env rv ir c p = Next (the (fuse_shift_exec rv (copy_fuse ir))) (c + 1) (p + 4)"
  by (auto simp: plain_defs is_shift_imm_def fuse_defs copy_fuse_def)

lemma dispatch_sw:
  "opcode ir = I_op Rv_sw \<Longrightarrow> dispatch env rv ir c p =
    (if \<not> allow_misalign rv \<and> (X rv (rs1 ir) + imm ir) AND 3 \<noteq> 0 then
       ret_opt False (SET_CAUSE_AND_TVAL_THEN_TRAP (rv\<lparr>compressed := False, csr_cycle := c + 1, PC := p\<rparr>)
         STORE_MISALIGNED (X rv (rs1 ir) + imm ir))
     else Next (ram_write_w rv (X rv (rs1 ir) + imm ir) (X rv (rs2 ir))) (c + 1) (p + 4))"
  by (auto simp: plain_defs split: outcome.splits)

lemma dispatch_lw:
  "opcode ir = I_op Rv_lw \<Longrightarrow> dispatch env rv ir c p =
    (if \<not> allow_misalign rv \<and> (X rv (rs1 ir) + imm ir) AND 3 \<noteq> 0 then
       ret_opt False (SET_CAUSE_AND_TVAL_THEN_TRAP (rv\<lparr>compressed := False, csr_cycle := c + 1, PC := p\<rparr>)
         LOAD_MISALIGNED (X rv (rs1 ir) + imm ir))
     else Next (set_X (rd ir) (ram_read_w rv (X rv (rs1 ir) + imm ir)) rv) (c + 1) (p + 4))"
  by (auto simp: plain_defs split: outcome.splits)

lemma exec_ret:
  "dispatch env rv ir c p = ret_opt b s \<Longrightarrow> exec env (ir # rest) rv c p = ret_opt b s"
  by (cases s) simp_all

abbreviation aligned_ok :: "riscv \<Rightarrow> u32 \<Rightarrow> bool" where
  "aligned_ok rv addr \<equiv> allow_misalign rv \<or> addr AND 3 = 0"

lemma exec_sw:
  assumes "opcode ir = I_op Rv_sw" "unchained ir" "clean (exec env (ir # rest) rv c p)"
  shows "aligned_ok rv (X rv (rs1 ir) + imm ir)"
    and "exec env (ir # rest) rv c p =
      continue env rest (ram_write_w rv (X rv (rs1 ir) + imm ir) (X rv (rs2 ir))) (c + 1) (p + 4)"
proof -
  show "aligned_ok rv (X rv (rs1 ir) + imm ir)"
  proof (rule ccontr)
    assume "\<not> ?thesis"
    with assms(3) show False
      by (simp add: exec_ret [OF dispatch_sw [OF assms(1), THEN trans, OF if_P]] del: exec.simps)
  qed
  then show "exec env (ir # rest) rv c p =
      continue env rest (ram_write_w rv (X rv (rs1 ir) + imm ir) (X rv (rs2 ir))) (c + 1) (p + 4)"
    using assms by (intro exec_next) (auto simp: dispatch_sw)
qed

lemma exec_lw:
  assumes "opcode ir = I_op Rv_lw" "unchained ir" "clean (exec env (ir # rest) rv c p)"
  shows "aligned_ok rv (X rv (rs1 ir) + imm ir)"
    and "exec env (ir # rest) rv c p =
      continue env rest (set_X (rd ir) (ram_read_w rv (X rv (rs1 ir) + imm ir)) rv) (c + 1) (p + 4)"
proof -
  show "aligned_ok rv (X rv (rs1 ir) + imm ir)"
  proof (rule ccontr)
    assume "\<not> ?thesis"
    with assms(3) show False
      by (simp add: exec_ret [OF dispatch_lw [OF assms(1), THEN trans, OF if_P]] del: exec.simps)
  qed
  then show "exec env (ir # rest) rv c p =
      continue env rest (set_X (rd ir) (ram_read_w rv (X rv (rs1 ir) + imm ir)) rv) (c + 1) (p + 4)"
    using assms by (intro exec_next) (auto simp: dispatch_lw)
qed

lemma exec_sw_seq:
  assumes "gs \<noteq> []" "\<forall>g \<in> set gs. unchained g \<and> opcode g = I_op Rv_sw"
    and "clean (exec env (gs @ rest) rv c p)"
  shows "\<exists>rv'. exec env (gs @ rest) rv c p =
      continue env rest rv' (c + of_nat (length gs)) (p + of_nat (length gs) * 4) \<and>
    (\<forall>c' p' k. fuse3_loop (map copy_fuse gs) rv c' p' k = k rv')"
  using assms
proof (induction gs arbitrary: rv c p rule: list_nonempty_induct)
  case (single g)
  then show ?case using exec_sw [of g env rest rv c p]
    by (auto simp: RV_EXC_MISALIGN_HANDLER_def copy_fuse_def Let_def simp del: exec.simps)
next
  case (cons g gs)
  let ?rv = "ram_write_w rv (X rv (rs1 g) + imm g) (X rv (rs2 g))"
  have step: "exec env ((g # gs) @ rest) rv c p = exec env (gs @ rest) ?rv (c + 1) (p + 4)"
    and ok: "aligned_ok rv (X rv (rs1 g) + imm g)"
    using exec_sw [of g env "gs @ rest" rv c p] cons.prems cons.hyps
    by (auto simp: continue_def simp del: exec.simps)
  show ?case
    using cons.IH [of ?rv "c + 1" "p + 4"] cons.prems ok unfolding step
    by (auto simp: RV_EXC_MISALIGN_HANDLER_def copy_fuse_def Let_def algebra_simps
        simp del: exec.simps)
qed

lemma exec_lw_seq:
  assumes "gs \<noteq> []" "\<forall>g \<in> set gs. unchained g \<and> opcode g = I_op Rv_lw"
    and "clean (exec env (gs @ rest) rv c p)"
  shows "\<exists>rv'. exec env (gs @ rest) rv c p =
      continue env rest rv' (c + of_nat (length gs)) (p + of_nat (length gs) * 4) \<and>
    (\<forall>c' p' k. fuse4_loop (map copy_fuse gs) rv c' p' k = k rv')"
  using assms
proof (induction gs arbitrary: rv c p rule: list_nonempty_induct)
  case (single g)
  then show ?case using exec_lw [of g env rest rv c p]
    by (auto simp: RV_EXC_MISALIGN_HANDLER_def copy_fuse_def Let_def simp del: exec.simps)
next
  case (cons g gs)
  let ?rv = "set_X (rd g) (ram_read_w rv (X rv (rs1 g) + imm g)) rv"
  have step: "exec env ((g # gs) @ rest) rv c p = exec env (gs @ rest) ?rv (c + 1) (p + 4)"
    and ok: "aligned_ok rv (X rv (rs1 g) + imm g)"
    using exec_lw [of g env "gs @ rest" rv c p] cons.prems cons.hyps
    by (auto simp: continue_def simp del: exec.simps)
  show ?case
    using cons.IH [of ?rv "c + 1" "p + 4"] cons.prems ok unfolding step
    by (auto simp: RV_EXC_MISALIGN_HANDLER_def copy_fuse_def Let_def algebra_simps
        simp del: exec.simps)
qed


lemma dispatch_fuse:
  "opcode ir = Fuse_op b \<Longrightarrow> dispatch env rv ir c p = do_fuse b env rv ir c p"
  by (simp add: dispatch_def)

lemma scast_small: "n \<le> 16 \<Longrightarrow> scast (of_nat n :: u32) = (of_nat n :: u64)"
proof -
  have "\<forall>n \<in> set [0..<17]. scast (of_nat n :: u32) = (of_nat n :: u64)"
    by code_simp
  then show "n \<le> 16 \<Longrightarrow> scast (of_nat n :: u32) = (of_nat n :: u64)" by auto
qed

lemma fuse_entries_seq:
  "count \<le> 16 \<Longrightarrow> length gs = count \<Longrightarrow>
   fuse_entries (ir\<lparr>fuse := map copy_fuse gs, opcode := o', imm2 := of_nat count\<rparr>) = map copy_fuse gs"
  by (simp add: fuse_entries_def unat_of_nat)

lemma takeWhile_prefix:
  "n \<le> length (takeWhile P xs) \<Longrightarrow> x \<in> set (take n xs) \<Longrightarrow> P x"
  by (metis in_set_takeD set_takeWhileD takeWhile_eq_take take_take min.absorb1)

lemma fuse5_loop_seq:
  "\<forall>g \<in> set gs. is_shift_imm g \<Longrightarrow>
   fuse5_loop (map copy_fuse gs) rv = Some (fold (\<lambda>g rv. the (fuse_shift_exec rv (copy_fuse g))) gs rv)"
  by (induction gs arbitrary: rv) (auto simp: fuse_shift_exec_def is_shift_imm_def copy_fuse_def)

text \<open>What the five sequence fusions have in common.\<close>

definition fused_seq :: "opcode \<Rightarrow> rv_insn list \<Rightarrow> rv_insn" where
  "fused_seq o' gs = (hd gs)\<lparr>fuse := map copy_fuse gs, opcode := o', imm2 := of_nat (length gs)\<rparr>"

lemma fused_seq_simps [simp]:
  "opcode (fused_seq o' gs) = o'" "imm2 (fused_seq o' gs) = of_nat (length gs)"
  "length gs \<le> 16 \<Longrightarrow> fuse_entries (fused_seq o' gs) = map copy_fuse gs"
  by (simp_all add: fused_seq_def fuse_entries_seq)

lemma exec_fuse1:
  assumes "gs \<noteq> []" "length gs \<le> 16" "\<forall>g \<in> set gs. unchained g \<and> opcode g = I_op Rv_lui"
  shows "exec env (fused_seq (Fuse_op Rv_fuse1) gs # rest) rv c p = exec env (gs @ rest) rv c p"
  using assms exec_straight [of gs env "\<lambda>g rv. set_X (rd g) (imm g) rv" rest rv c p]
  by (simp add: dispatch_simps exec_fuse_next dispatch_fuse do_fuse1_def Let_def scast_small fold_map
      comp_def copy_fuse_def del: exec.simps)

lemma exec_fuse7:
  assumes "gs \<noteq> []" "length gs \<le> 16" "\<forall>g \<in> set gs. unchained g \<and> opcode g = I_op Rv_addi"
  shows "exec env (fused_seq (Fuse_op Rv_fuse7) gs # rest) rv c p = exec env (gs @ rest) rv c p"
  using assms exec_straight [of gs env "\<lambda>g rv. set_X (rd g) (X rv (rs1 g) + imm g) rv" rest rv c p]
  by (simp add: dispatch_simps exec_fuse_next dispatch_fuse do_fuse7_def Let_def scast_small fold_map
      comp_def copy_fuse_def del: exec.simps)

lemma exec_fuse5:
  assumes "gs \<noteq> []" "length gs \<le> 16" "\<forall>g \<in> set gs. unchained g \<and> is_shift_imm g"
  shows "exec env (fused_seq (Fuse_op Rv_fuse5) gs # rest) rv c p = exec env (gs @ rest) rv c p"
  using assms fuse5_loop_seq [of gs rv]
    exec_straight [of gs env "\<lambda>g rv. the (fuse_shift_exec rv (copy_fuse g))" rest rv c p]
  by (simp add: dispatch_simps exec_fuse_next dispatch_fuse do_fuse5_def Let_def scast_small
      del: exec.simps)

lemma exec_fuse3:
  assumes "gs \<noteq> []" "length gs \<le> 16" "\<forall>g \<in> set gs. unchained g \<and> opcode g = I_op Rv_sw"
    and "clean (exec env (gs @ rest) rv c p)"
  shows "exec env (fused_seq (Fuse_op Rv_fuse3) gs # rest) rv c p = exec env (gs @ rest) rv c p"
  using assms(1-3) exec_sw_seq [OF assms(1,3,4)]
  by (auto simp: exec_fuse_next dispatch_fuse do_fuse3_def Let_def scast_small simp del: exec.simps)

lemma exec_fuse4:
  assumes "gs \<noteq> []" "length gs \<le> 16" "\<forall>g \<in> set gs. unchained g \<and> opcode g = I_op Rv_lw"
    and "clean (exec env (gs @ rest) rv c p)"
  shows "exec env (fused_seq (Fuse_op Rv_fuse4) gs # rest) rv c p = exec env (gs @ rest) rv c p"
  using assms(1-3) exec_lw_seq [OF assms(1,3,4)]
  by (auto simp: exec_fuse_next dispatch_fuse do_fuse4_def Let_def scast_small simp del: exec.simps)


text \<open>The pair fusions.\<close>

lemma exec_fuse2:
  assumes "opcode ir = I_op Rv_lui" "opcode n = I_op Rv_add" "unchained ir" "unchained n"
    and "rd ir = rs2 n \<or> rd ir = rs1 n"
  shows "exec env (ir\<lparr>opcode := Fuse_op Rv_fuse2, rs2 := rd n,
      rs1 := if rd ir = rs2 n then rs1 n else rs2 n\<rparr> # rest) rv c p = exec env (ir # n # rest) rv c p"
  using assms
  by (auto simp: exec_next exec_fuse_next dispatch_simps dispatch_fuse do_fuse2_def Let_def
      algebra_simps simp del: exec.simps)

lemma exec_fuse8:
  assumes "opcode ir = I_op Rv_lui" "opcode n = I_op Rv_addi" "unchained ir" "unchained n"
    and "rd ir = rs1 n" "rd ir = rd n"
  shows "exec env (ir\<lparr>imm2 := imm n, opcode := Fuse_op Rv_fuse8\<rparr> # rest) rv c p =
    exec env (ir # n # rest) rv c p"
  using assms(1-4) assms(5,6) [symmetric]
  by (simp add: exec_next exec_fuse_next dispatch_simps dispatch_fuse do_fuse8_def
      algebra_simps del: exec.simps)

lemma exec_fuse9:
  assumes "opcode ir = I_op Rv_lui" "opcode n = I_op Rv_lw" "unchained ir" "unchained n"
    and "rd ir = rs1 n" "clean (exec env (ir # n # rest) rv c p)"
  shows "exec env (ir\<lparr>imm2 := imm n, rs2 := rd n, opcode := Fuse_op Rv_fuse9\<rparr> # rest) rv c p =
    exec env (ir # n # rest) rv c p"
  using assms(1-4,6) assms(5) [symmetric]
    exec_lw [of n env rest "set_X (rd ir) (imm ir) rv" "c + 1" "p + 4"]
  by (auto simp: exec_next exec_fuse_next dispatch_simps dispatch_fuse do_fuse9_def
      RV_EXC_MISALIGN_HANDLER_def Let_def algebra_simps simp del: exec.simps)

lemma exec_fuse10:
  assumes "opcode ir = I_op Rv_lui" "opcode n = I_op Rv_sw" "unchained ir" "unchained n"
    and "rd ir = rs1 n" "clean (exec env (ir # n # rest) rv c p)"
  shows "exec env (ir\<lparr>imm2 := imm n, rs1 := rs2 n, opcode := Fuse_op Rv_fuse10\<rparr> # rest) rv c p =
    exec env (ir # n # rest) rv c p"
  using assms(1-4,6) assms(5) [symmetric]
    exec_sw [of n env rest "set_X (rd ir) (imm ir) rv" "c + 1" "p + 4"]
  by (auto simp: exec_next exec_fuse_next dispatch_simps dispatch_fuse do_fuse10_def
      RV_EXC_MISALIGN_HANDLER_def Let_def algebra_simps simp del: exec.simps)

lemma exec_fuse11:
  assumes "opcode ir = I_op Rv_lw" "opcode n = I_op Rv_addi" "unchained ir" "unchained n"
    and "rs1 ir = rs1 n" "rs1 n = rd n" "clean (exec env (ir # n # rest) rv c p)"
  shows "exec env (ir\<lparr>imm2 := imm n, opcode := Fuse_op Rv_fuse11\<rparr> # rest) rv c p =
    exec env (ir # n # rest) rv c p"
  using assms(1-4,7) assms(5,6) [symmetric] exec_lw [of ir env "n # rest" rv c p]
  by (auto simp: exec_next exec_fuse_next dispatch_simps dispatch_fuse do_fuse11_def
      RV_EXC_MISALIGN_HANDLER_def Let_def algebra_simps simp del: exec.simps)

lemma exec_fuse6:
  assumes "opcode ir = I_op Rv_addi" "opcode n = I_op Rv_ecall" "unchained ir"
    and "rd ir = 17" "rs1 ir = 0" "X rv 0 = 0"
  shows "exec env (ir\<lparr>opcode := Fuse_op Rv_fuse6\<rparr> # rest) rv c p = exec env (ir # n # rest) rv c p"
proof -
  let ?s = "ecall_handler (syscall_handler env)
    (set_X 17 (imm ir) rv\<lparr>compressed := False, csr_cycle := c + 2, PC := p + 4\<rparr>)"
  have "exec env (ir # n # rest) rv c p = exec env (n # rest) (set_X 17 (imm ir) rv) (c + 1) (p + 4)"
    using assms by (simp add: exec_next dispatch_simps del: exec.simps)
  moreover have "dispatch env (set_X 17 (imm ir) rv) n (c + 1) (p + 4) = ret_opt True ?s"
    using assms by (cases ?s) (simp_all add: plain_defs add.commute [of 2 c])
  moreover have "dispatch env rv (ir\<lparr>opcode := Fuse_op Rv_fuse6\<rparr>) c p = ret_opt True ?s"
    by (simp add: dispatch_fuse do_fuse6_def)
  ultimately show ?thesis by (simp only: exec_ret)
qed

lemma exec_fuse12:
  assumes "opcode ir = I_op Rv_addi" "opcode n = I_op Rv_bne" "unchained ir" "unchained n"
    and "rd ir \<noteq> 0" "rd ir = rs1 n" "rs2 n = 0" "X rv 0 = 0"
  shows "exec env [ir\<lparr>imm2 := imm n, opcode := Fuse_op Rv_fuse12,
      branch_taken := branch_taken n, branch_untaken := branch_untaken n\<rparr>] rv c p =
    exec env [ir, n] rv c p"
  using assms
  by (simp add: dispatch_simps dispatch_fuse do_fuse12_def end_op_def unchained_def)
    (simp add: plain_defs end_op_def sync_def algebra_simps)


section \<open>The pass\<close>

text \<open>
  \<open>fuse_group env ir rest q\<close>: the first instruction of \<open>q\<close> replaces \<open>ir\<close> and the part of \<open>rest\<close> that
  is missing in the second component, whatever comes behind.
\<close>

definition fuse_group :: "env \<Rightarrow> rv_insn \<Rightarrow> rv_insn list \<Rightarrow> rv_insn \<times> rv_insn list \<Rightarrow> bool" where
  "fuse_group env ir rest q \<longleftrightarrow> (\<exists>ks. rest = ks @ snd q \<and>
     (\<forall>rest2 rv c p. (snd q = [] \<longrightarrow> rest2 = []) \<longrightarrow> X rv 0 = 0 \<longrightarrow>
        clean (exec env (ir # ks @ rest2) rv c p) \<longrightarrow>
        exec env (fst q # rest2) rv c p = exec env (ir # ks @ rest2) rv c p))"

lemma fuse_group_id [simp]: "fuse_group env ir rest (ir, rest)"
  unfolding fuse_group_def by (rule exI [of _ "[]"]) simp

lemma fuse_group_pair:
  assumes "\<And>rest2 rv c p. (rest' = [] \<longrightarrow> rest2 = []) \<Longrightarrow> X rv 0 = 0 \<Longrightarrow>
      clean (exec env (ir # n # rest2) rv c p) \<Longrightarrow>
      exec env (ir' # rest2) rv c p = exec env (ir # n # rest2) rv c p"
  shows "fuse_group env ir (n # rest') (ir', rest')"
  unfolding fuse_group_def using assms by (intro exI [of _ "[n]"]) simp

lemma fuse_group_if:
  "(b \<Longrightarrow> fuse_group env ir rest q1) \<Longrightarrow> (\<not> b \<Longrightarrow> fuse_group env ir rest q2) \<Longrightarrow>
   fuse_group env ir rest (if b then q1 else q2)"
  by simp

lemma remove_next_1 [simp]: "remove_next_nth_ir 1 (n # rest) = rest"
  by (simp add: remove_next_nth_ir_def)

lemma fuse_group_try_fuse:
  assumes seq: "\<And>gs rest rv c p. gs \<noteq> [] \<Longrightarrow> length gs \<le> 16 \<Longrightarrow> \<forall>g \<in> set gs. unchained g \<and> Q g \<Longrightarrow>
      clean (exec env (gs @ rest) rv c p) \<Longrightarrow>
      exec env (fused_seq o' gs # rest) rv c p = exec env (gs @ rest) rv c p"
    and "Q ir" "\<forall>g \<in> set (ir # rest). unchained g" "count = 1 + length (takeWhile Q rest)"
  shows "fuse_group env ir rest (try_fuse_sequence alloc ir rest count o')"
proof (cases "count \<le> 1 \<or> count > 16 \<or> \<not> alloc ir")
  case True
  then show ?thesis by (auto simp: try_fuse_sequence_def)
next
  case False
  let ?ks = "take (count - 1) rest"
  have len: "length (ir # ?ks) = count"
    using False assms(4) length_takeWhile_le [of Q rest] by simp
  then have eq: "try_fuse_sequence alloc ir rest count o' =
      (fused_seq o' (ir # ?ks), drop (count - 1) rest)"
    using False by (simp add: try_fuse_sequence_def fused_seq_def remove_next_nth_ir_def)
  have "\<forall>g \<in> set (ir # ?ks). unchained g \<and> Q g"
    using assms(2-4) takeWhile_prefix [of "count - 1" Q rest] by (auto dest: in_set_takeD)
  then have "exec env (fused_seq o' (ir # ?ks) # rest2) rv c p = exec env ((ir # ?ks) @ rest2) rv c p"
    if "clean (exec env ((ir # ?ks) @ rest2) rv c p)" for rest2 rv c p
    using False len that by (intro seq) auto
  then show ?thesis
    unfolding fuse_group_def eq by (intro exI [of _ ?ks]) simp
qed

lemma fuse_group_match_lui:
  assumes "opcode ir = I_op Rv_lui" "\<forall>g \<in> set (ir # n # rest). unchained g"
  shows "fuse_group env ir (n # rest) (match_lui alloc ir n (n # rest))"
proof -
  have uc: "unchained ir" "unchained n" using assms by auto
  have "fuse_group env ir (n # rest) (try_fuse_sequence alloc ir (n # rest)
      (count_consecutive_insn (n # rest) (I_op Rv_lui)) (Fuse_op Rv_fuse1))"
    by (rule fuse_group_try_fuse [where Q = "\<lambda>g. opcode g = I_op Rv_lui"])
      (use assms in \<open>simp_all add: exec_fuse1 count_consecutive_insn_def del: exec.simps\<close>)
  moreover have "fuse_group env ir (n # rest) (ir\<lparr>opcode := Fuse_op Rv_fuse2, rs2 := rd n,
      rs1 := if rd ir = rs2 n then rs1 n else rs2 n\<rparr>, rest)"
    if "opcode n = I_op Rv_add" "rd ir = rs2 n \<or> rd ir = rs1 n"
    by (rule fuse_group_pair, rule exec_fuse2 [OF assms(1) that(1) uc that(2)])
  moreover have "fuse_group env ir (n # rest) (ir\<lparr>imm2 := imm n, opcode := Fuse_op Rv_fuse8\<rparr>, rest)"
    if "opcode n = I_op Rv_addi" "rd ir = rs1 n" "rd ir = rd n"
    by (rule fuse_group_pair, rule exec_fuse8 [OF assms(1) that(1) uc that(2,3)])
  moreover have "fuse_group env ir (n # rest)
      (ir\<lparr>imm2 := imm n, rs2 := rd n, opcode := Fuse_op Rv_fuse9\<rparr>, rest)"
    if "opcode n = I_op Rv_lw" "rd ir = rs1 n"
    by (rule fuse_group_pair, rule exec_fuse9 [OF assms(1) that(1) uc that(2)])
  moreover have "fuse_group env ir (n # rest)
      (ir\<lparr>imm2 := imm n, rs1 := rs2 n, opcode := Fuse_op Rv_fuse10\<rparr>, rest)"
    if "opcode n = I_op Rv_sw" "rd ir = rs1 n"
    by (rule fuse_group_pair, rule exec_fuse10 [OF assms(1) that(1) uc that(2)])
  ultimately show ?thesis
    unfolding match_lui_def remove_next_1 by (intro fuse_group_if) (blast intro: fuse_group_id)+
qed

lemma fuse_group_match_lw:
  assumes "opcode ir = I_op Rv_lw" "\<forall>g \<in> set (ir # n # rest). unchained g"
  shows "fuse_group env ir (n # rest) (match_lw alloc ir n (n # rest))"
proof -
  have uc: "unchained ir" "unchained n" using assms by auto
  have "fuse_group env ir (n # rest) (try_fuse_sequence alloc ir (n # rest)
      (count_consecutive_insn (n # rest) (I_op Rv_lw)) (Fuse_op Rv_fuse4))"
    by (rule fuse_group_try_fuse [where Q = "\<lambda>g. opcode g = I_op Rv_lw"])
      (use assms in \<open>simp_all add: exec_fuse4 count_consecutive_insn_def del: exec.simps\<close>)
  moreover have "fuse_group env ir (n # rest) (ir\<lparr>imm2 := imm n, opcode := Fuse_op Rv_fuse11\<rparr>, rest)"
    if "opcode n = I_op Rv_addi" "rs1 ir = rs1 n" "rs1 n = rd n"
    by (rule fuse_group_pair, rule exec_fuse11 [OF assms(1) that(1) uc that(2,3)])
  ultimately show ?thesis
    unfolding match_lw_def remove_next_1 by (intro fuse_group_if) (blast intro: fuse_group_id)+
qed

lemma fuse_group_match_addi:
  assumes "opcode ir = I_op Rv_addi" "\<forall>g \<in> set (ir # n # rest). unchained g"
    and "insn_is_branch (opcode n) \<longrightarrow> rest = []"
  shows "fuse_group env ir (n # rest) (match_addi alloc ir n (n # rest))"
proof -
  have "fuse_group env ir (n # rest) (try_fuse_sequence alloc ir (n # rest)
      (count_consecutive_insn (n # rest) (I_op Rv_addi)) (Fuse_op Rv_fuse7))"
    by (rule fuse_group_try_fuse [where Q = "\<lambda>g. opcode g = I_op Rv_addi"])
      (use assms in \<open>simp_all add: exec_fuse7 count_consecutive_insn_def del: exec.simps\<close>)
  moreover have "fuse_group env ir (n # rest) (ir\<lparr>opcode := Fuse_op Rv_fuse6\<rparr>, rest)"
    if "rd ir = 17" "rs1 ir = 0" "opcode n = I_op Rv_ecall"
    using assms that by (intro fuse_group_pair exec_fuse6) auto
  moreover have "fuse_group env ir (n # rest) (ir\<lparr>imm2 := imm n, opcode := Fuse_op Rv_fuse12,
      branch_taken := branch_taken n, branch_untaken := branch_untaken n\<rparr>, rest)"
    if "opcode n = I_op Rv_bne" "rd ir \<noteq> 0" "rd ir = rs1 n" "rs2 n = 0"
    using assms that exec_fuse12 [of ir n] by (intro fuse_group_pair) (auto simp del: exec.simps)
  ultimately show ?thesis
    unfolding match_addi_def remove_next_1 by (intro fuse_group_if) (blast intro: fuse_group_id)+
qed

lemma fuse_group_match_one:
  assumes "\<forall>g \<in> set (ir # n # rest). unchained g" "insn_is_branch (opcode n) \<longrightarrow> rest = []"
  shows "fuse_group env ir (n # rest) (match_one alloc ir (n # rest))"
proof -
  have "fuse_group env ir (n # rest) (try_fuse_sequence alloc ir (n # rest)
      (count_consecutive_insn (n # rest) (I_op Rv_sw)) (Fuse_op Rv_fuse3))" if "opcode ir = I_op Rv_sw"
    by (rule fuse_group_try_fuse [where Q = "\<lambda>g. opcode g = I_op Rv_sw"])
      (use assms that in \<open>simp_all add: exec_fuse3 count_consecutive_insn_def del: exec.simps\<close>)
  moreover have "fuse_group env ir (n # rest) (try_fuse_sequence alloc ir (n # rest)
      (count_consecutive_shift (n # rest)) (Fuse_op Rv_fuse5))" if "is_shift_imm ir"
    by (rule fuse_group_try_fuse [where Q = is_shift_imm])
      (use assms that in \<open>simp_all add: exec_fuse5 count_consecutive_shift_def del: exec.simps\<close>)
  ultimately show ?thesis
    using assms by (simp add: match_one_def fuse_group_match_lui fuse_group_match_lw fuse_group_match_addi)
qed

text \<open>Replacing what follows a safe prefix.\<close>

lemma exec_cong_append:
  assumes "\<forall>g \<in> set ks. x0_safe g" "X rv 0 = 0" "xs = [] \<longleftrightarrow> ys = []"
    and "\<And>rv c p. X rv 0 = 0 \<Longrightarrow> clean (exec env xs rv c p) \<Longrightarrow> exec env ys rv c p = exec env xs rv c p"
    and "clean (exec env (ks @ xs) rv c p)"
  shows "exec env (ks @ ys) rv c p = exec env (ks @ xs) rv c p"
  using assms(1,2,5)
proof (induction ks arbitrary: rv c p)
  case Nil
  then show ?case using assms(4) by simp
next
  case (Cons k ks)
  show ?case
  proof (cases "dispatch env rv k c p")
    case (Next rv' c' p')
    have x0: "X rv' 0 = 0"
      using dispatch_x0 [OF Next] Cons.prems(1,2) by simp
    show ?thesis
    proof (cases "ks = [] \<and> xs = []")
      case False
      with Next assms(3) have "exec env ((k # ks) @ zs) rv c p = exec env (ks @ zs) rv' c' p'"
        if "zs = xs \<or> zs = ys" for zs
        using that by auto
      then show ?thesis
        using Cons.IH [of rv' c' p'] Cons.prems(1,3) x0 by simp
    qed (use assms(3) in simp)
  next
    case (Fuse_next rv' c' p')
    with Cons.prems show ?thesis by (auto simp: x0_safe_def dispatch_not_fuse_next)
  qed (use assms(3) in simp_all)
qed


lemma match_pattern_Nil_iff [simp]: "match_pattern alloc irs = [] \<longleftrightarrow> irs = []"
  by (cases "(alloc, irs)" rule: match_pattern.cases) (auto split: prod.split)

lemma match_pattern_exec:
  assumes "wf_block irs" "X rv 0 = 0" "clean (exec env irs rv c p)"
  shows "exec env (match_pattern alloc irs) rv c p = exec env irs rv c p"
  using assms
proof (induction alloc irs arbitrary: rv c p rule: match_pattern.induct)
  case (1 alloc ir n rest)
  obtain ir' rest' where m: "match_one alloc ir (n # rest) = (ir', rest')" by fastforce
  have "fuse_group env ir (n # rest) (match_one alloc ir (n # rest))"
    using 1(2) by (intro fuse_group_match_one) (auto simp: wf_block_def split: if_splits)
  then obtain ks where ks: "n # rest = ks @ rest'"
    and grp: "\<And>rest2 rv c p. (rest' = [] \<longrightarrow> rest2 = []) \<Longrightarrow> X rv 0 = 0 \<Longrightarrow>
        clean (exec env (ir # ks @ rest2) rv c p) \<Longrightarrow>
        exec env (ir' # rest2) rv c p = exec env (ir # ks @ rest2) rv c p"
    unfolding m fuse_group_def by auto
  let ?m = "match_pattern alloc rest'"
  have safe: "\<forall>g \<in> set (ir # ks). x0_safe g"
    using 1(2) ks by (auto simp: wf_block_def)
  have ih: "exec env ?m rv c p = exec env rest' rv c p"
    if "X rv 0 = 0" "clean (exec env rest' rv c p)" for rv c p
    using 1(1) [OF m [symmetric], of rv c p] that wf_block_tail [of "ir # ks" rest'] 1(2) ks
    by (cases "rest' = []") auto
  have pre: "exec env ((ir # ks) @ ?m) rv c p = exec env ((ir # ks) @ rest') rv c p"
    by (rule exec_cong_append [OF safe 1(3)]) (use ih 1(4) ks in \<open>simp_all del: exec.simps\<close>)
  have "exec env (ir' # ?m) rv c p = exec env (ir # ks @ ?m) rv c p"
    using 1(3,4) pre ks by (intro grp) (simp_all del: exec.simps)
  moreover have "match_pattern alloc (ir # n # rest) = ir' # ?m" by (simp add: m)
  ultimately show ?case using pre by (simp only: ks append_Cons)
qed simp_all

end
