(* ===== verification/Sync.thy ===== *)
theory Sync
  imports Zero_Reg
begin

unbundle bit_operations_syntax

text \<open>
  Inside a block the handlers keep the cycle count and the PC in arguments; the fields
  \<^verbatim>\<open>csr_cycle\<close> and \<^verbatim>\<open>PC\<close> of the machine are stale until a handler returns. This theory shows that
  no handler but those of \<^verbatim>\<open>mret\<close>, \<^verbatim>\<open>uret\<close> and \<^verbatim>\<open>hret\<close> reads the stale fields: a handler that returns
  to the step loop writes them itself, any other has the same effect for every value of them.
\<close>

section \<open>Outcomes up to the stale fields\<close>

abbreviation at :: "u64 \<Rightarrow> u32 \<Rightarrow> riscv \<Rightarrow> riscv" where
  "at c p rv \<equiv> rv\<lparr>csr_cycle := c, PC := p\<rparr>"

fun scrub :: "outcome \<Rightarrow> outcome" where
  "scrub (Next rv c p) = Next (at 0 0 rv) c p"
| "scrub (Fuse_next rv c p) = Fuse_next (at 0 0 rv) c p"
| "scrub (End_op rv c p) = End_op (at 0 0 rv) c p"
| "scrub (Ret b rv) = Ret b rv"
| "scrub (Tail t rv c p) = Tail t (at 0 0 rv) c p"
| "scrub (Bht rv c p) = Bht (at 0 0 rv) c p"
| "scrub Abort = Abort"
| "scrub Undefined = Undefined"

section \<open>The handlers\<close>

lemma do_base_scrub: "scrub (do_base b env (at a q rv) ir c p) = scrub (do_base b env rv ir c p)"
  by (cases b) (auto simp: do_defs mem_defs Let_def split: option.split)

lemma do_orcb_eq:
  "do_orcb env rv ir c p = Next (set_X (rd ir) (fold (\<lambda>i v. if X rv (rs1 ir) AND shl 0xFF (i * 8) \<noteq> 0
     then v OR shl 0xFF (i * 8) else v) [0,1,2,3] 0) rv) c p"
  unfolding do_orcb_def Let_def fold_if_or_set_X by simp

lemma do_bit_scrub: "scrub (do_bit b env (at a q rv) ir c p) = scrub (do_bit b env rv ir c p)"
  by (cases b) (simp_all add: do_orcb_eq do_defs Let_def cong: if_cong
      del: do_orcb_def upt_rec_numeral fold_simps)

lemma do_mul_scrub: "scrub (do_mul_ext b env (at a q rv) ir c p) = scrub (do_mul_ext b env rv ir c p)"
  by (cases b) (simp_all add: do_defs Let_def)

lemma do_amo_scrub: "scrub (do_amo b env (at a q rv) ir c p) = scrub (do_amo b env rv ir c p)"
  by (cases b) (simp_all add: do_defs mem_defs Let_def)

lemma set_fflag_at: "set_fflag (at a q rv) = at a q (set_fflag rv)"
  by (simp add: set_fflag_eq)

lemma fp_at:
  "softfloat_raiseFlags fl (at a q rv) = at a q (softfloat_raiseFlags fl rv)"
  "set_rounding_mode (at a q rv) m = map_option (at a q) (set_rounding_mode rv m)"
  "f32_eq (at a q rv) x y = apfst (at a q) (f32_eq rv x y)"
  "f32_lt (at a q rv) x y = apfst (at a q) (f32_lt rv x y)"
  "f32_le (at a q rv) x y = apfst (at a q) (f32_le rv x y)"
  "f32_lt_quiet (at a q rv) x y = apfst (at a q) (f32_lt_quiet rv x y)"
  by (simp_all add: set_rounding_mode_def softfloat_raiseFlags_def f32_eq_def f32_lt_def f32_le_def
      f32_lt_quiet_def Let_def)

lemma upd_at:
  "(at a q rv)\<lparr>F := f\<rparr> = at a q (rv\<lparr>F := f\<rparr>)" "(at a q rv)\<lparr>X := g\<rparr> = at a q (rv\<lparr>X := g\<rparr>)"
  "(at a q rv)\<lparr>csr_fcsr := w\<rparr> = at a q (rv\<lparr>csr_fcsr := w\<rparr>)"
  by simp_all

lemma lt_or_eq_sign_at: "lt_or_eq_sign (at a q rv) x y u v w = apfst (at a q) (lt_or_eq_sign rv x y u v w)"
  by (simp add: lt_or_eq_sign_def fp_at split: prod.split bool.split)

lemma case_apfst: "(case apfst g z of (x, y) \<Rightarrow> h x y) = (case z of (x, y) \<Rightarrow> h (g x) y)"
  by (cases z) simp

lemma do_fp_scrub: "scrub (do_fp b env (at a q rv) ir c p) = scrub (do_fp b env rv ir c p)"
  by (cases b) (auto simp: do_defs mem_defs Let_def fp_at set_fflag_at upd_at lt_or_eq_sign_at case_apfst
      simp del: lt_or_eq_sign_def split: option.split prod.split)

lemma do_c_scrub: "scrub (do_c b env (at a q rv) ir c p) = scrub (do_c b env rv ir c p)"
  by (cases b) (auto simp: do_defs mem_defs Let_def fold_or_set_X split: option.split)

lemma csr_sync_cell:
  "csr AND 0xFFF \<in> {0xC00, 0xC80, 0xC02, 0xC82, 0xC01, 0xC81} \<Longrightarrow> csr_sync_cycle rv csr c = rv\<lparr>csr_cycle := c\<rparr>"
  "csr AND 0xFFF \<notin> {0xC00, 0xC80, 0xC02, 0xC82, 0xC01, 0xC81} \<Longrightarrow> csr_sync_cycle rv csr c = rv"
  by (auto simp: csr_sync_cycle_def)

lemma csr_get_ptr_scrub:
  assumes "csr AND 0xFFF \<notin> {0xC00, 0xC80, 0xC02, 0xC82, 0xC01, 0xC81}"
  obtains d where "csr_get_ptr ht rv csr = (rv, d)" "csr_get_ptr ht (at a q rv) csr = (at a q rv, d)"
    "d \<noteq> Some P_cycle_lo" "d \<noteq> Some P_cycle_hi"
proof
  show "csr_get_ptr ht rv csr = (rv, snd (csr_get_ptr ht rv csr))"
    "csr_get_ptr ht (at a q rv) csr = (at a q rv, snd (csr_get_ptr ht rv csr))"
    "snd (csr_get_ptr ht rv csr) \<noteq> Some P_cycle_lo" "snd (csr_get_ptr ht rv csr) \<noteq> Some P_cycle_hi"
    using assms by (simp_all add: csr_get_ptr_def Let_def)
qed

lemma csr_load_at [simp]: "r \<noteq> P_cycle_lo \<Longrightarrow> r \<noteq> P_cycle_hi \<Longrightarrow> csr_load r (at a q rv) = csr_load r rv"
  by (cases r) simp_all

lemma csr_store_at: "r \<noteq> P_cycle_lo \<Longrightarrow> r \<noteq> P_cycle_hi \<Longrightarrow> csr_store r v (at a q rv) = at a q (csr_store r v rv)"
  by (cases r) simp_all

lemma csr_store_PC: "csr_store r v (rv\<lparr>PC := q\<rparr>) = (csr_store r v rv)\<lparr>PC := q\<rparr>"
   "csr_load r (rv\<lparr>PC := q\<rparr>) = csr_load r rv"
  by (cases r; simp)+

lemma csr_get_ptr_PC: "csr_get_ptr ht (rv\<lparr>PC := q\<rparr>) csr =
   ((fst (csr_get_ptr ht rv csr))\<lparr>PC := q\<rparr>, snd (csr_get_ptr ht rv csr))"
  by (simp add: csr_get_ptr_def update_time_def Let_def)

lemma csr_access_scrub:
  assumes "\<And>rv. acc rv = (let rv = csr_sync_cycle rv csr c in
     case csr_get_ptr ht rv csr of
       (rv, None) \<Rightarrow> (rv, 0)
     | (rv, Some d) \<Rightarrow> (csr_store d (f (csr_load d rv)) rv, g (csr_load d rv)))"
  shows "snd (acc (at a q rv)) = snd (acc rv)" "at 0 0 (fst (acc (at a q rv))) = at 0 0 (fst (acc rv))"
proof -
  have "snd (acc (at a q rv)) = snd (acc rv) \<and> at 0 0 (fst (acc (at a q rv))) = at 0 0 (fst (acc rv))"
  proof (cases "csr AND 0xFFF \<in> {0xC00, 0xC80, 0xC02, 0xC82, 0xC01, 0xC81}")
    case True
    have s: "csr_sync_cycle (at a q rv) csr c = (rv\<lparr>csr_cycle := c\<rparr>)\<lparr>PC := q\<rparr>"
       "csr_sync_cycle rv csr c = rv\<lparr>csr_cycle := c\<rparr>"
      using csr_sync_cell(1) [OF True] by simp_all
    show ?thesis
      unfolding assms s Let_def csr_get_ptr_PC
      by (simp add: csr_store_PC split: prod.split option.split)
  next
    case False
    then obtain d where d: "csr_get_ptr ht rv csr = (rv, d)" "csr_get_ptr ht (at a q rv) csr = (at a q rv, d)"
      "d \<noteq> Some P_cycle_lo" "d \<noteq> Some P_cycle_hi"
      by (rule csr_get_ptr_scrub)
    show ?thesis
      unfolding assms csr_sync_cell(2) [OF False] Let_def d(1,2)
      using d(3,4) by (auto simp: csr_store_at split: option.split)
  qed
  then show "snd (acc (at a q rv)) = snd (acc rv)" "at 0 0 (fst (acc (at a q rv))) = at 0 0 (fst (acc rv))"
    by auto
qed

lemma csr_fun_scrub:
  "snd (csr_csrrw ht (at a q rv) csr v c) = snd (csr_csrrw ht rv csr v c)"
  "at 0 0 (fst (csr_csrrw ht (at a q rv) csr v c)) = at 0 0 (fst (csr_csrrw ht rv csr v c))"
  "snd (csr_csrrs ht (at a q rv) csr v c) = snd (csr_csrrs ht rv csr v c)"
  "at 0 0 (fst (csr_csrrs ht (at a q rv) csr v c)) = at 0 0 (fst (csr_csrrs ht rv csr v c))"
  "snd (csr_csrrc ht (at a q rv) csr v c) = snd (csr_csrrc ht rv csr v c)"
  "at 0 0 (fst (csr_csrrc ht (at a q rv) csr v c)) = at 0 0 (fst (csr_csrrc ht rv csr v c))"
  unfolding csr_csrrw_def csr_csrrs_def csr_csrrc_def
  by (rule csr_access_scrub, simp add: Let_def)+

lemma scrub_csr_result:
  assumes "snd z = snd z'" "at 0 0 (fst z) = at 0 0 (fst z')"
  shows "scrub (case z of (rv, tmp) \<Rightarrow> Next (set_X r (if r \<noteq> 0 then tmp else X rv r) rv) c p) =
    scrub (case z' of (rv, tmp) \<Rightarrow> Next (set_X r (if r \<noteq> 0 then tmp else X rv r) rv) c p)"
proof -
  have "X (fst z) = X (fst z')"
    using arg_cong [OF assms(2), of X] by simp
  moreover have "at 0 0 (set_X r v (fst z)) = at 0 0 (set_X r v (fst z'))" if "X (fst z) = X (fst z')" for v
    using arg_cong [OF assms(2), of "set_X r v"] that by (simp add: upd_at)
  ultimately show ?thesis
    using assms(1) by (simp add: case_prod_beta)
qed

lemma do_sys_scrub:
  assumes "b \<notin> {Rv_mret, Rv_uret, Rv_hret}"
  shows "scrub (do_sys b env (at a q rv) ir c p) = scrub (do_sys b env rv ir c p)"
  using assms
  by (cases b) (simp_all add: do_defs scrub_csr_result [OF csr_fun_scrub(1,2)]
      scrub_csr_result [OF csr_fun_scrub(3,4)] scrub_csr_result [OF csr_fun_scrub(5,6)])

definition synced :: "rv_insn \<Rightarrow> bool" where
  "synced ir \<longleftrightarrow> opcode ir \<notin> {S_op Rv_mret, S_op Rv_uret, S_op Rv_hret} \<and> \<not> is_fused (opcode ir)"

lemma RVOP_scrub:
  assumes "scrub (h env (at a q rv) ir (c + 1) p) = scrub (h env rv ir (c + 1) p)"
  shows "scrub (RVOP len h env (at a q rv) ir c p) = scrub (RVOP len h env rv ir c p)"
  using assms
  by (cases "h env (at a q rv) ir (c + 1) p"; cases "h env rv ir (c + 1) p") (simp_all add: RVOP_def)

lemma dispatch_scrub:
  "synced ir \<Longrightarrow> scrub (dispatch env (at a q rv) ir c p) = scrub (dispatch env rv ir c p)"
  unfolding dispatch_def
  by (cases "opcode ir") (auto simp: synced_def intro!: RVOP_scrub do_base_scrub do_sys_scrub
      do_bit_scrub do_mul_scrub do_amo_scrub do_fp_scrub do_c_scrub)

end
