(* ===== verification/Block_Steps.thy ===== *)
theory Block_Steps
  imports Block_Correct Fusion_Correct Sync
begin

unbundle bit_operations_syntax

text \<open>
  A new block, after constant propagation and fusion, does what single-stepping through the
  same code does: the refinement of \<^verbatim>\<open>rv_step_debug\<close> by translated blocks.
\<close>

section \<open>Handlers do not move the exit address\<close>

lemma exit_frames [simp]:
  "exit_addr (ram_write_b rv a b) = exit_addr rv" "exit_addr (ram_write_s rv a h) = exit_addr rv"
  "exit_addr (ram_write_w rv a w) = exit_addr rv" "exit_addr (softfloat_raiseFlags fl rv) = exit_addr rv"
  "exit_addr (set_fflag rv) = exit_addr rv" "exit_addr (csr_store d v rv) = exit_addr rv"
  by (simp_all add: mem_defs softfloat_raiseFlags_def set_fflag_eq) (cases d; simp)

lemma exit_compare:
  "f32_eq rv a b = (rv', r) \<Longrightarrow> exit_addr rv' = exit_addr rv"
  "f32_lt rv a b = (rv', r) \<Longrightarrow> exit_addr rv' = exit_addr rv"
  "f32_le rv a b = (rv', r) \<Longrightarrow> exit_addr rv' = exit_addr rv"
  "f32_lt_quiet rv a b = (rv', r) \<Longrightarrow> exit_addr rv' = exit_addr rv"
  "set_rounding_mode rv m = Some rv' \<Longrightarrow> exit_addr rv' = exit_addr rv"
  "csr_get_ptr ht rv csr = (rv', d) \<Longrightarrow> exit_addr rv' = exit_addr rv"
  by (auto simp: f32_eq_def f32_lt_def f32_le_def f32_lt_quiet_def set_rounding_mode_def csr_get_ptr_def
      update_time_def Let_def split: if_splits)

lemma exit_csr:
  "csr_csrrw ht rv csr v c = (rv', out) \<Longrightarrow> exit_addr rv' = exit_addr rv"
  "csr_csrrs ht rv csr v c = (rv', out) \<Longrightarrow> exit_addr rv' = exit_addr rv"
  "csr_csrrc ht rv csr v c = (rv', out) \<Longrightarrow> exit_addr rv' = exit_addr rv"
  by (auto simp: csr_csrrw_def csr_csrrs_def csr_csrrc_def csr_sync_cycle_def Let_def
      dest!: exit_compare(6) split: prod.splits option.splits if_splits)

lemma fold_set_X_exit:
  "exit_addr (fold (\<lambda>i rv. set_X r (g i rv) rv) is rv) = exit_addr rv"
  "exit_addr (fold (\<lambda>i rv. if b i then set_X r (g i rv) rv else rv) is rv) = exit_addr rv"
  by (induction "is" arbitrary: rv) simp_all

lemma do_exit:
  "do_base b env rv ir c p = Next rv' c' p' \<Longrightarrow> exit_addr rv' = exit_addr rv"
  "do_sys y env rv ir c p = Next rv' c' p' \<Longrightarrow> exit_addr rv' = exit_addr rv"
  "do_bit x env rv ir c p = Next rv' c' p' \<Longrightarrow> exit_addr rv' = exit_addr rv"
  "do_mul_ext m env rv ir c p = Next rv' c' p' \<Longrightarrow> exit_addr rv' = exit_addr rv"
  "do_amo a env rv ir c p = Next rv' c' p' \<Longrightarrow> exit_addr rv' = exit_addr rv"
  "do_fp f env rv ir c p = Next rv' c' p' \<Longrightarrow> exit_addr rv' = exit_addr rv"
  "do_c z env rv ir c p = Next rv' c' p' \<Longrightarrow> exit_addr rv' = exit_addr rv"
        apply (cases b; auto simp: do_defs Let_def split: option.splits if_splits)
       apply (cases y; auto simp: do_defs Let_def dest!: exit_csr split: prod.splits if_splits)
      apply (cases x; auto simp: do_defs Let_def fold_set_X_exit split: if_splits)
     apply (cases m; auto simp: do_defs Let_def split: if_splits)
    apply (cases a; auto simp: do_defs Let_def split: if_splits)
   apply (cases f; auto simp: do_defs Let_def dest!: exit_compare
     split: option.splits prod.splits if_splits bool.splits)
  apply (cases z; auto simp: do_defs Let_def fold_set_X_exit split: option.splits if_splits)
  done

lemma dispatch_exit:
  assumes "dispatch env rv ir c p = Next rv' c' p'" "\<not> is_fused (opcode ir)"
  shows "exit_addr rv' = exit_addr rv"
  using assms
  by (cases "opcode ir") (auto simp: dispatch_def dest!: RVOP_Next dest: do_exit)

section \<open>A block is a sequence of single steps\<close>

fun debug_steps :: "env \<Rightarrow> nat \<Rightarrow> riscv \<Rightarrow> riscv option" where
  "debug_steps env 0 rv = Some rv"
| "debug_steps env (Suc n) rv =
    (case rv_step_debug env rv of None \<Rightarrow> None | Some rv' \<Rightarrow> debug_steps env n rv')"

text \<open>No instruction of the block overwrites a later one of it while the block runs.\<close>

fun code_kept :: "env \<Rightarrow> rv_insn list \<Rightarrow> riscv \<Rightarrow> u64 \<Rightarrow> u32 \<Rightarrow> bool" where
  "code_kept env [] rv c p = True"
| "code_kept env (ir # irs) rv c p =
    (case dispatch env rv ir c p of
       Next rv' c' p' \<Rightarrow>
         (\<forall>jr \<in> set irs. memory_ifetch (mem_base rv') (pc jr) = memory_ifetch (mem_base rv) (pc jr)) \<and>
         code_kept env irs rv' c' p'
     | _ \<Rightarrow> True)"

lemma scrub_at_eq: "at 0 0 rv = at 0 0 rv' \<Longrightarrow> at c p rv = at c p rv'"
  by (drule arg_cong [where f = "\<lambda>rv. at c p rv"]) simp

lemma rv_step_debug_decoded:
  assumes "decoded_at (mem_base rv) ir" "PC rv = pc ir" "exit_addr rv \<noteq> pc ir"
  shows "rv_step_debug env rv = debug_result (exec env [ir] rv (csr_cycle rv) (pc ir))"
  using assms by (auto simp: rv_step_debug_def decoded_at_def mem_ifetch_def Let_def simp del: exec.simps)

lemma decoded_at_cong:
  "decoded_at m ir \<Longrightarrow> memory_ifetch m' (pc ir) = memory_ifetch m (pc ir) \<Longrightarrow> decoded_at m' ir"
  by (simp add: decoded_at_def)


lemma exec_single_scrub:
  assumes "synced ir" "unchained ir"
  shows "debug_result (exec env [ir] (at c p rv) c p) = debug_result (exec env [ir] rv c p)"
proof -
  note sc = dispatch_scrub [OF assms(1), where env = env and a = c and q = p and rv = rv and c = c and p = p]
  show ?thesis
    using sc assms(2)
    by (cases "dispatch env (at c p rv) ir c p"; cases "dispatch env rv ir c p")
      (auto simp: sync_def dest: scrub_at_eq)
qed

lemma exec_debug_steps:
  assumes "irs \<noteq> []" "pcs_from p irs" "\<forall>ir \<in> set irs. decoded_at (mem_base rv) ir \<and> synced ir"
    and "\<forall>ir \<in> set irs. pc ir \<noteq> exit_addr rv" "code_kept env irs rv c p"
  shows "\<exists>n. 0 < n \<and> n \<le> length irs \<and>
    debug_steps env n (at c p rv) = debug_result (exec env irs rv c p)"
  using assms
proof (induction irs arbitrary: rv c p)
  case (Cons ir irs)
  have ir: "pc ir = p" "decoded_at (mem_base rv) ir" "synced ir" "exit_addr rv \<noteq> pc ir"
    using Cons.prems by auto
  then have uc: "unchained ir" and nf: "\<not> is_fused (opcode ir)" using decoded_at_ok by auto
  have one: "rv_step_debug env (at c p rv) = debug_result (exec env [ir] rv c p)"
    using rv_step_debug_decoded [of "at c p rv" ir env] ir exec_single_scrub [OF ir(3) uc]
    by (simp del: exec.simps)
  show ?case
  proof (cases "irs \<noteq> [] \<and> (\<exists>rv' c' p'. dispatch env rv ir c p = Next rv' c' p')")
    case True
    then obtain rv' c' p' where nx: "dispatch env rv ir c p = Next rv' c' p'" by blast
    have p': "p' = p + rv_insn_len (opcode ir)" using dispatch_Next_pc [OF nx nf] by simp
    have "\<exists>n. 0 < n \<and> n \<le> length irs \<and> debug_steps env n (at c' p' rv') = debug_result (exec env irs rv' c' p')"
      using True Cons.prems nx p' dispatch_exit [OF nx nf]
      by (intro Cons.IH) (auto intro: decoded_at_cong)
    then obtain n where n: "0 < n" "n \<le> length irs"
      "debug_steps env n (at c' p' rv') = debug_result (exec env irs rv' c' p')" by blast
    have "rv_step_debug env (at c p rv) = Some (at c' p' rv')"
      using one nx uc by (simp add: sync_def)
    then have "debug_steps env (Suc n) (at c p rv) = debug_result (exec env (ir # irs) rv c p)"
      using True n(3) nx by simp
    then show ?thesis using n(1,2) by (intro exI [of _ "Suc n"]) simp
  next
    case False
    then have "exec env (ir # irs) rv c p = exec env [ir] rv c p"
      using nf by (auto simp: dispatch_not_fuse_next split: outcome.split)
    then have "debug_steps env 1 (at c p rv) = debug_result (exec env (ir # irs) rv c p)"
      using one by (simp del: exec.simps split: option.split)
    then show ?thesis by (intro exI [of _ 1]) simp
  qed
qed simp

section \<open>The passes in front\<close>

lemma constopt_base_safe:
  assumes "opcode ir = I_op b" "x0_safe ir"
  shows "x0_safe (fst (constopt_base_op b ir info))"
    "\<not> base_is_branch b \<Longrightarrow> \<not> insn_is_branch (opcode (fst (constopt_base_op b ir info)))"
  using assms
  by (cases b; simp add: constopt_defs Let_def x0_safe_def writes_rs1_def)+

lemma constopt_mul_safe:
  assumes "opcode ir = M_op b" "x0_safe ir"
  shows "x0_safe (fst (constopt_mul_op b ir info))"
    "\<not> insn_is_branch (opcode (fst (constopt_mul_op b ir info)))"
  using assms
  by (cases b; simp add: constopt_defs Let_def x0_safe_def writes_rs1_def)+

lemma constopt_c_safe:
  assumes "opcode ir = C_op b" "x0_safe ir"
  shows "x0_safe (fst (constopt_c_op b ir info))"
    "\<not> c_is_branch b \<Longrightarrow> \<not> insn_is_branch (opcode (fst (constopt_c_op b ir info)))"
  using assms
  by (cases b; simp add: constopt_defs Let_def x0_safe_def writes_rs1_def)+

lemma constopt_step_safe:
  assumes "x0_safe ir"
  shows "x0_safe (fst (constopt_step ir info))"
    "\<not> insn_is_branch (opcode ir) \<Longrightarrow> \<not> insn_is_branch (opcode (fst (constopt_step ir info)))"
  using assms by (cases "opcode ir"; simp add: constopt_base_safe constopt_mul_safe constopt_c_safe)+

lemma constopt_loop_Nil_iff [simp]: "constopt_loop irs info = [] \<longleftrightarrow> irs = []"
  by (cases irs) (auto split: prod.split)

lemma constopt_loop_wf: "wf_block irs \<Longrightarrow> wf_block (constopt_loop irs info)"
proof (induction irs arbitrary: info)
  case (Cons ir irs)
  obtain ir' info' where st: "constopt_step ir info = (ir', info')" by fastforce
  have "x0_safe ir" "unchained ir" using Cons.prems by (simp_all add: wf_block_Cons)
  then have "x0_safe ir'" "unchained ir'" "\<not> insn_is_branch (opcode ir) \<Longrightarrow> \<not> insn_is_branch (opcode ir')"
    using constopt_step_safe [of ir info] constopt.step_unchained [of ir info] st by auto
  with Cons st show ?case by (auto simp: wf_block_Cons)
qed (simp add: wf_block_def)

lemma clean_erase [simp]: "clean (erase r) = clean r"
  by (cases r) (simp_all add: clean_def)

abbreviation forget :: "riscv \<Rightarrow> riscv" where
  "forget rv \<equiv> rv\<lparr>is_branch_taken := False\<rparr>"

lemma debug_result_erase: "debug_result (erase r) = map_option forget (debug_result r)"
  by (cases r) simp_all

lemma passes_exec:
  assumes "wf_block irs" "pcs_from p irs" "\<forall>ir \<in> set irs. const_ok ir" "X rv 0 = 0"
    and "clean (exec env irs rv c p)" "exec env irs rv c p \<noteq> Undefined"
  shows "erase (exec env (match_pattern alloc (constopt_loop irs info0)) rv c p) = erase (exec env irs rv c p)"
proof -
  have e: "erase (exec env (constopt_loop irs info0) rv c p) = erase (exec env irs rv c p)"
    using constopt.pass_exec [OF assms(1-3) const_inv_info0 [OF assms(4)] assms(6)]
    by (simp add: constopt_loop_pass del: exec.simps)
  then have "clean (exec env (constopt_loop irs info0) rv c p)"
    using assms(5) by (metis clean_erase)
  from match_pattern_exec [OF constopt_loop_wf [OF assms(1)] assms(4) this] e show ?thesis
    by simp
qed

text \<open>
  The block \<open>b\<close> that \<^verbatim>\<open>block_find_or_translate\<close> makes at the machine's PC: what it does is what
  some number of single steps does.
\<close>

definition code_of :: "riscv \<Rightarrow> rv_insn list" where
  "code_of rv = fst (translate_loop (mem_base rv) (PC rv) (PC rv))"

definition plain_insn :: "rv_insn \<Rightarrow> bool" where
  "plain_insn ir \<longleftrightarrow> \<not> x0_hole ir \<and> \<not> (opcode ir = A_op Rv_scw \<and> rd ir \<noteq> 0) \<and>
     opcode ir \<notin> {S_op Rv_mret, S_op Rv_uret, S_op Rv_hret}"

lemma code_of_facts:
  assumes "code_of rv \<noteq> []" "\<forall>ir \<in> set (code_of rv). plain_insn ir"
  shows "wf_block (code_of rv)" "pcs_from (PC rv) (code_of rv)" "\<forall>ir \<in> set (code_of rv). const_ok ir"
    "\<forall>ir \<in> set (code_of rv). decoded_at (mem_base rv) ir \<and> synced ir"
proof -
  obtain e r where t: "translate_loop (mem_base rv) (PC rv) (PC rv) = (code_of rv, e, r)"
    by (metis code_of_def prod.collapse)
  note sh = translate_loop_shape [OF t]
  then show "pcs_from (PC rv) (code_of rv)" by blast
  have d: "decoded_at (mem_base rv) ir" "plain_insn ir" if "ir \<in> set (code_of rv)" for ir
    using that sh assms(2) by auto
  have f: "unchained ir \<and> x0_safe ir \<and> const_ok ir \<and> synced ir" if "ir \<in> set (code_of rv)" for ir
    using decoded_at_ok [OF d(1) [OF that]] d(2) [OF that] by (auto simp: plain_insn_def synced_def)
  with d(1) show "\<forall>ir \<in> set (code_of rv). const_ok ir"
    "\<forall>ir \<in> set (code_of rv). decoded_at (mem_base rv) ir \<and> synced ir" by auto
  show "wf_block (code_of rv)"
    unfolding wf_block_def using assms(1) sh f by auto
qed

lemma new_block_code:
  assumes "new_block alloc rv = Some (rv, Some b)"
  shows "X rv 0 = 0" "code_of rv \<noteq> []" "ir_list b = match_pattern alloc (constopt_loop (code_of rv) info0)"
proof -
  obtain irs e r where t: "translate_loop (mem_base rv) (PC rv) (PC rv) = (irs, e, r)"
    by (metis prod.collapse)
  obtain b0 where b0: "block_translate rv = Some (rv, Some b0)" "optimize_constant rv (ir_list b0) \<noteq> None"
    "b = b0\<lparr>ir_list := match_pattern alloc (the (optimize_constant rv (ir_list b0)))\<rparr>"
    using assms by (auto simp: new_block_def split: option.splits)
  then have "irs \<noteq> []" "ir_list b0 = irs"
    by (auto simp: block_translate_def t Let_def split: stop_reason.splits if_splits)
  with b0 t show "X rv 0 = 0" "code_of rv \<noteq> []"
    "ir_list b = match_pattern alloc (constopt_loop (code_of rv) info0)"
    by (auto simp: code_of_def optimize_constant_def split: if_splits)
qed

lemma new_block_steps:
  assumes "new_block alloc rv = Some (rv, Some b)"
    and "\<forall>ir \<in> set (code_of rv). plain_insn ir \<and> pc ir \<noteq> exit_addr rv"
    and "code_kept env (code_of rv) rv (csr_cycle rv) (PC rv)"
    and "clean (exec env (code_of rv) rv (csr_cycle rv) (PC rv))"
    and "exec env (code_of rv) rv (csr_cycle rv) (PC rv) \<noteq> Undefined"
  shows "\<exists>n. 0 < n \<and> n \<le> length (code_of rv) \<and>
    map_option forget (debug_result (exec env (ir_list b) rv (csr_cycle rv) (PC rv))) =
    map_option forget (debug_steps env n rv)"
proof -
  note nb = new_block_code [OF assms(1)]
  note cf = code_of_facts [OF nb(2)]
  have pl: "\<forall>ir \<in> set (code_of rv). plain_insn ir" using assms(2) by blast
  have e: "erase (exec env (ir_list b) rv (csr_cycle rv) (PC rv)) =
      erase (exec env (code_of rv) rv (csr_cycle rv) (PC rv))"
    unfolding nb(3) using passes_exec [OF cf(1-3) [OF pl] nb(1) assms(4,5)] .
  obtain n where n: "0 < n" "n \<le> length (code_of rv)"
    "debug_steps env n (at (csr_cycle rv) (PC rv) rv) = debug_result (exec env (code_of rv) rv (csr_cycle rv) (PC rv))"
    using exec_debug_steps [OF nb(2) cf(2) [OF pl] cf(4) [OF pl]] assms(2,3) by blast
  show ?thesis
    using n debug_result_erase arg_cong [OF e, of debug_result] by (intro exI [of _ n]) (simp del: exec.simps)
qed

end
