(* ===== verification/Block_Props.thy ===== *)
theory Block_Props
  imports Block_Steps
begin

unbundle bit_operations_syntax

text \<open>
  What \<^verbatim>\<open>block_translate\<close> and the passes behind it promise: the shape and size of a block, and
  that running it is single-stepping through the code it was made from.
\<close>

section \<open>A sample program\<close>

text \<open>\<^verbatim>\<open>lui x5, 0x12345; addi x5, x5, 8; jal x0, 0\<close> at address 0.\<close>

definition rv_blk :: riscv where
  "rv_blk = rv0\<lparr>exit_addr := 0x100, mem_base := (\<lambda>a. 0)(0 := 0xB7, 1 := 0x52, 2 := 0x34, 3 := 0x12,
     4 := 0x93, 5 := 0x82, 6 := 0x82, 8 := 0x6F)\<rparr>"

definition jal8 :: rv_insn where
  "jal8 = ir0\<lparr>opcode := I_op Rv_jal, pc := 8\<rparr>"

lemma rv_blk_simps [simp]:
  "X rv_blk r = 0" "PC rv_blk = 0" "csr_cycle rv_blk = 0" "exit_addr rv_blk = 0x100" "priv_mode rv_blk = 3"
  by (simp_all add: rv_blk_def)

lemma rv_blk_fetch:
  "memory_ifetch (mem_base rv_blk) 0 = 0x123452B7" "memory_ifetch (mem_base rv_blk) 4 = 0x00828293"
  "memory_ifetch (mem_base rv_blk) 8 = 0x6F"
  by (simp_all add: memory_ifetch_def memcpy_from_numerals rv_blk_def)

lemma rv_blk_decode:
  "rv_decode ir0 0x123452B7 = Decoded lui5 True"
  "rv_decode ir0 0x00828293 = Decoded (addi5\<lparr>pc := 0\<rparr>) True"
  "rv_decode ir0 0x6F = Decoded (jal8\<lparr>pc := 0\<rparr>) True"
  by (simp_all add: rv_decode_def is_compressed_def rv_jump_table_def OP_def op_lui_def op_op_imm_def op_jal_def
      format_defs field_defs sample_defs jal8_def sign_extend_h_def)

lemma rv_blk_code: "translate_loop (mem_base rv_blk) 0 0 = ([lui5, addi5, jal8], 12, Branch_end)"
  by (subst translate_loop.simps, simp add: rv_blk_fetch rv_blk_decode sample_defs insn_bytes_def is_compressed_def page_end_def,
      subst translate_loop.simps, simp add: rv_blk_fetch rv_blk_decode sample_defs insn_bytes_def is_compressed_def page_end_def,
      subst translate_loop.simps, simp add: rv_blk_fetch rv_blk_decode sample_defs insn_bytes_def is_compressed_def page_end_def jal8_def)


section \<open>Shape of a block\<close>

text \<open>
  C36. A translated block is straight-line code of one page: it starts at the PC, its
  instructions follow each other in memory, each is what the decoder makes of the word at its
  address, all of them start in the 4 KiB page of the first, there are at least one and at most
  2048, and none but the last is a branch.
\<close>

theorem block_shape:
  assumes "block_translate rv = Some (rv', Some b)"
  shows "pc_start b = PC rv \<and> pcs_from (PC rv) (ir_list b) \<and>
    (\<forall>ir \<in> set (ir_list b). decoded_at (mem_base rv) ir \<and> page_of (pc ir) = page_of (PC rv)) \<and>
    (\<forall>ir \<in> set (butlast (ir_list b)). \<not> insn_is_branch (opcode ir)) \<and>
    0 < length (ir_list b) \<and> length (ir_list b) \<le> 2048 \<and> cycle_cost b = of_nat (length (ir_list b))"
proof -
  obtain irs e r where t: "translate_loop (mem_base rv) (PC rv) (PC rv) = (irs, e, r)"
    by (metis prod.collapse)
  have b: "ir_list b = irs" "irs \<noteq> []" "pc_start b = PC rv" "cycle_cost b = of_nat (length irs)"
    using assms by (auto simp: block_translate_def t Let_def split: stop_reason.splits if_splits)
  note pg = translate_loop_page [OF t refl]
  have "page_of (PC rv) * 4096 \<le> unat (PC rv)" by (simp add: page_of_def)
  with pg have "length irs \<le> 2048" by simp
  with b pg translate_loop_shape [OF t] show ?thesis by simp
qed

theorem block_shape_witness:
  "\<exists>b. block_translate rv_blk = Some (rv_blk, Some b) \<and> length (ir_list b) \<le> 2048"
proof -
  let ?b = "\<lparr>pc_start = 0, pc_end = 12, ir_list = [lui5, addi5, jal8], page_terminated = False, cycle_cost = 3\<rparr>"
  have "block_translate rv_blk = Some (rv_blk, Some ?b)" by (simp add: block_translate_def rv_blk_code)
  with block_shape [OF this] show ?thesis by blast
qed

section \<open>Blocks refine single steps\<close>

text \<open>
  C1. Translated code refines single-stepping: let the step loop make a new block at the PC.
  If no instruction of it is one of the known exceptions (a write to x0, \<^verbatim>\<open>sc.w\<close> with a
  destination, a trap return), the block does not overwrite its own code and it runs without
  a trap inside, then running the block, after constant propagation and fusion, leaves the
  machine (registers, memory, CSRs, cycle count, PC) that between 1 and \<open>n\<close> single steps of
  \<^verbatim>\<open>rv_step_debug\<close> leave, where \<open>n\<close> is the number of instructions decoded, up to the flag
  \<^verbatim>\<open>is_branch_taken\<close>.
\<close>

theorem block_refines_steps:
  assumes "new_block alloc rv = Some (rv, Some b)"
    and "\<forall>ir \<in> set (code_of rv). plain_insn ir \<and> pc ir \<noteq> exit_addr rv"
    and "code_kept env (code_of rv) rv (csr_cycle rv) (PC rv)"
    and "clean (exec env (code_of rv) rv (csr_cycle rv) (PC rv))"
    and "exec env (code_of rv) rv (csr_cycle rv) (PC rv) \<noteq> Undefined"
  shows "\<exists>n. 0 < n \<and> n \<le> length (code_of rv) \<and>
    map_option forget (debug_result (exec env (ir_list b) rv (csr_cycle rv) (PC rv))) =
    map_option forget (debug_steps env n rv)"
  using assms by (rule new_block_steps)

lemma rv_blk_new: "\<exists>b. new_block (\<lambda>ir. True) rv_blk = Some (rv_blk, Some b)"
  by (simp add: new_block_def block_translate_def rv_blk_code optimize_constant_def)

lemma rv_blk_run:
  "exec env0 [lui5, addi5, jal8] rv_blk 0 0 = sync (set_X 5 0x12345008 rv_blk) 3 8"
  "code_kept env0 [lui5, addi5, jal8] rv_blk 0 0"
  by (simp_all add: plain_defs sample_defs jal8_def end_op_def Let_def)

theorem block_refines_steps_witness:
  "\<exists>b n. new_block (\<lambda>ir. True) rv_blk = Some (rv_blk, Some b) \<and> n \<le> 3 \<and>
    map_option forget (debug_result (exec env0 (ir_list b) rv_blk 0 0)) =
    map_option forget (debug_steps env0 n rv_blk)"
proof -
  obtain b where b: "new_block (\<lambda>ir. True) rv_blk = Some (rv_blk, Some b)" using rv_blk_new by blast
  have c: "code_of rv_blk = [lui5, addi5, jal8]" by (simp add: code_of_def rv_blk_code)
  have "\<forall>ir \<in> set (code_of rv_blk). plain_insn ir \<and> pc ir \<noteq> exit_addr rv_blk"
    by (simp add: c plain_insn_def x0_hole_def sample_defs jal8_def)
  then have "\<exists>n. 0 < n \<and> n \<le> length (code_of rv_blk) \<and>
      map_option forget (debug_result (exec env0 (ir_list b) rv_blk (csr_cycle rv_blk) (PC rv_blk))) =
      map_option forget (debug_steps env0 n rv_blk)"
    by (rule block_refines_steps [OF b]) (simp_all add: c rv_blk_run sync_def del: exec.simps code_kept.simps)
  with b show ?thesis by (simp add: c numeral_3_eq_3 del: exec.simps) blast
qed

end
