(* ===== verification/Mem_Correct.thy ===== *)
theory Mem_Correct
  imports Block_Correct
begin

unbundle bit_operations_syntax

text \<open>
  Loads, stores and atomics. A misaligned load or store traps into the default handler, which
  decodes the instruction again and emulates it with smaller accesses: the theory shows that
  the program cannot tell the difference. The atomics return the old word and store the
  combined one.
\<close>

section \<open>The emulated access is the direct one\<close>

lemma mem_ram: "mem_read_w rv a = ram_read_w rv a" "mem_read_s rv a = ram_read_s rv a"
  "mem_write_w rv a w = ram_write_w rv a w" "mem_write_s rv a h = ram_write_s rv a h"
  by (simp_all add: mem_defs memory_read_w_def memory_read_s_def memory_write_w_def memory_write_s_def)

lemma emulate_load_word:
  assumes "opcode ir \<in> {I_op Rv_lw, C_op Rv_clw, C_op Rv_clwsp}" "unat addr + 4 \<le> 2 ^ 32"
  shows "emulate_misaligned_load rv ir addr = (set_X (rd ir) (ram_read_w rv addr) rv, True)"
  using assms(1) io.read_w_halves [OF assms(2), of rv] read_b_loop_4 [OF assms(2), of rv]
  by (auto simp: emulate_misaligned_load_def mem_ram)

lemma emulate_load_half:
  assumes "unat addr + 2 \<le> 2 ^ 32"
  shows "opcode ir = I_op Rv_lh \<Longrightarrow> emulate_misaligned_load rv ir addr =
      (set_X (rd ir) (sign_extend_h (ucast (ram_read_s rv addr))) rv, True)"
    "opcode ir = I_op Rv_lhu \<Longrightarrow> emulate_misaligned_load rv ir addr =
      (set_X (rd ir) (ucast (ram_read_s rv addr)) rv, True)"
  using read_b_loop_2 [OF assms, of rv] by (simp_all add: emulate_misaligned_load_def mem_ram)

lemma emulate_store_word:
  assumes "opcode ir \<in> {I_op Rv_sw, C_op Rv_csw, C_op Rv_cswsp}" "unat addr + 4 \<le> 2 ^ 32"
  shows "emulate_misaligned_store rv ir addr = (ram_write_w rv addr (X rv (rs2 ir)), True)"
  using assms(1) io.write_w_halves [OF assms(2), of rv "X rv (rs2 ir)"]
    write_b_loop_4 [OF assms(2), of rv "X rv (rs2 ir)"]
  by (auto simp: emulate_misaligned_store_def mem_ram Let_def ucast_and_FF)

lemma emulate_store_half:
  assumes "opcode ir = I_op Rv_sh" "unat addr + 2 \<le> 2 ^ 32"
  shows "emulate_misaligned_store rv ir addr = (ram_write_s rv addr (ucast (X rv (rs2 ir))), True)"
  using assms(1) write_b_loop_2 [OF assms(2), of rv "X rv (rs2 ir)"]
  by (simp add: emulate_misaligned_store_def mem_ram)

section \<open>Through the trap\<close>

lemma emulate_cong:
  "emulate_misaligned_load rv (ir\<lparr>pc := q\<rparr>) a = emulate_misaligned_load rv ir a"
  "emulate_misaligned_store rv (ir\<lparr>pc := q\<rparr>) a = emulate_misaligned_store rv ir a"
  by (simp_all add: emulate_misaligned_load_def emulate_misaligned_store_def)

text \<open>The machine the default handler starts from.\<close>

definition trapped :: "riscv \<Rightarrow> bool \<Rightarrow> u64 \<Rightarrow> u32 \<Rightarrow> u32 \<Rightarrow> u32 \<Rightarrow> riscv" where
  "trapped rv k c p cause addr =
    trap_enter_m (rv\<lparr>compressed := k, csr_cycle := c, PC := p, csr_mcause := cause, csr_mtval := addr\<rparr>)"

lemma trapped_simps [simp]:
  "X (trapped rv k c p cause addr) = X rv" "mem_base (trapped rv k c p cause addr) = mem_base rv"
  "F (trapped rv k c p cause addr) = F rv" "csr_mepc (trapped rv k c p cause addr) = p"
  "csr_mcause (trapped rv k c p cause addr) = cause" "csr_mtval (trapped rv k c p cause addr) = addr"
  "compressed (trapped rv k c p cause addr) = k" "csr_cycle (trapped rv k c p cause addr) = c"
  "csr_mtvec (trapped rv k c p cause addr) = csr_mtvec rv"
  "csr_fcsr (trapped rv k c p cause addr) = csr_fcsr rv"
  by (simp_all add: trapped_def trap_enter_m_def Let_def)

lemma ram_same:
  "ram_read_w (trapped rv k c p cause addr) a = ram_read_w rv a"
  "ram_read_s (trapped rv k c p cause addr) a = ram_read_s rv a"
  "ram_read_w (rv\<lparr>allow_misalign := t\<rparr>) a = ram_read_w rv a"
  "ram_read_s (rv\<lparr>allow_misalign := t\<rparr>) a = ram_read_s rv a"
  "X (ram_write_w rv a w) = X rv" "X (ram_write_s rv a h) = X rv"
  "F (ram_write_w rv a w) = F rv" "F (ram_write_s rv a h) = F rv"
  "csr_fcsr (ram_write_w rv a w) = csr_fcsr rv" "csr_fcsr (ram_write_s rv a h) = csr_fcsr rv"
  "csr_mepc (ram_write_w rv a w) = csr_mepc rv" "csr_mepc (ram_write_s rv a h) = csr_mepc rv"
  "compressed (ram_write_w rv a w) = compressed rv" "compressed (ram_write_s rv a h) = compressed rv"
  "csr_cycle (ram_write_w rv a w) = csr_cycle rv" "csr_cycle (ram_write_s rv a h) = csr_cycle rv"
  "mem_base (ram_write_w rv a w) = memcpy_to (mem_base rv) (unat a) (to_le 4 w)"
  "mem_base (ram_write_s rv a h) = memcpy_to (mem_base rv) (unat a) (to_le 2 h)"
  by (simp_all add: mem_defs)

lemma machine_mode: "priv_mode rv = 3 \<Longrightarrow> \<not> RV_PRIV_IS_U_OR_S_MODE rv"
  by (simp add: RV_PRIV_IS_U_OR_S_MODE_def word_le_nat_alt)

lemma misaligned_trap:
  assumes "decoded_at (mem_base rv) ir" "pc ir = p" "priv_mode rv = 3" "csr_mtvec rv = 0"
    and "cause = LOAD_MISALIGNED \<and> emulate_misaligned_load (trapped rv k c p cause addr) ir addr = (rv', True) \<or>
      cause = STORE_MISALIGNED \<and> emulate_misaligned_store (trapped rv k c p cause addr) ir addr = (rv', True)"
  shows "SET_CAUSE_AND_TVAL_THEN_TRAP (rv\<lparr>compressed := k, csr_cycle := c, PC := p\<rparr>) cause addr =
    Some (skip_insn rv')"
proof -
  obtain ir' where d: "memory_ifetch (mem_base rv) p \<noteq> 0"
      "rv_decode ir0 (memory_ifetch (mem_base rv) p) = Decoded ir' True" "ir = ir'\<lparr>pc := p\<rparr>"
    using assms(1,2) by (auto simp: decoded_at_def)
  have "SET_CAUSE_AND_TVAL_THEN_TRAP (rv\<lparr>compressed := k, csr_cycle := c, PC := p\<rparr>) cause addr =
      rv_trap_default_handler (trapped rv k c p cause addr)"
    using assms(3,4) by (simp add: SET_CAUSE_AND_TVAL_THEN_TRAP_def set_cause_and_tval_def trap_handler_def
        machine_mode trapped_def trap_enter_m_def Let_def)
  also have "\<dots> = Some (skip_insn rv')"
    using assms(5) d by (auto simp: rv_trap_default_handler_def mem_ifetch_def Let_def emulate_cong)
  finally show ?thesis .
qed


text \<open>The instructions the default handler emulates, and the size of their access.\<close>

definition access_addr :: "riscv \<Rightarrow> rv_insn \<Rightarrow> u32" where
  "access_addr rv ir =
    (if opcode ir \<in> {C_op Rv_clwsp, C_op Rv_cswsp} then X rv 2 + imm ir else X rv (rs1 ir) + imm ir)"

fun access_size :: "opcode \<Rightarrow> nat" where
  "access_size (I_op Rv_lw) = 4" | "access_size (I_op Rv_sw) = 4"
| "access_size (I_op Rv_lh) = 2" | "access_size (I_op Rv_lhu) = 2" | "access_size (I_op Rv_sh) = 2"
| "access_size (C_op Rv_clw) = 4" | "access_size (C_op Rv_clwsp) = 4"
| "access_size (C_op Rv_csw) = 4" | "access_size (C_op Rv_cswsp) = 4"
| "access_size _ = 0"

definition same_to_program :: "riscv \<Rightarrow> riscv \<Rightarrow> bool" where
  "same_to_program a b \<longleftrightarrow> X a = X b \<and> F a = F b \<and> mem_base a = mem_base b \<and> csr_fcsr a = csr_fcsr b"

lemma skip_simps [simp]:
  "X (skip_insn rv) = X rv" "F (skip_insn rv) = F rv" "mem_base (skip_insn rv) = mem_base rv"
  "csr_cycle (skip_insn rv) = csr_cycle rv" "csr_fcsr (skip_insn rv) = csr_fcsr rv"
  "PC (skip_insn rv) = csr_mepc rv + (if compressed rv then 2 else 4)"
  by (simp_all add: skip_insn_def)

text \<open>
  C6. Misaligned accesses are transparent: in machine mode without a trap vector, a misaligned
  \<^verbatim>\<open>lw\<close>, \<^verbatim>\<open>lh\<close>, \<^verbatim>\<open>lhu\<close>, \<^verbatim>\<open>sw\<close>, \<^verbatim>\<open>sh\<close>, \<^verbatim>\<open>c.lw\<close>, \<^verbatim>\<open>c.lwsp\<close>, \<^verbatim>\<open>c.sw\<close> or \<^verbatim>\<open>c.swsp\<close> that does not wrap around the address
  space traps, is emulated byte by byte or half word by half word, and leaves the registers,
  the memory, the PC and the cycle count as the access would have on a machine that allows
  misaligned accesses.
\<close>

theorem misaligned_transparent:
  assumes "decoded_at (mem_base rv) ir" "pc ir = p" "priv_mode rv = 3" "csr_mtvec rv = 0"
    and "0 < access_size (opcode ir)" "unat (access_addr rv ir) + access_size (opcode ir) \<le> 2 ^ 32"
    and "access_addr rv ir AND (of_nat (access_size (opcode ir)) - 1) \<noteq> 0" "\<not> allow_misalign rv"
    and "dispatch env (rv\<lparr>allow_misalign := True\<rparr>) ir c p = Next rvd c' p'"
  shows "\<exists>rv'. dispatch env rv ir c p = Ret False rv' \<and> same_to_program rv' rvd \<and>
    PC rv' = p' \<and> csr_cycle rv' = c'"
proof -
  note tr = misaligned_trap [OF assms(1-4)]
  have "opcode ir \<in> {I_op Rv_lw, I_op Rv_sw, I_op Rv_lh, I_op Rv_lhu, I_op Rv_sh, C_op Rv_clw, C_op Rv_clwsp,
      C_op Rv_csw, C_op Rv_cswsp}"
    using assms(5) by (cases "opcode ir" rule: access_size.cases) auto
  then consider "opcode ir = I_op Rv_lw" | "opcode ir = I_op Rv_sw" | "opcode ir = I_op Rv_lh"
    | "opcode ir = I_op Rv_lhu" | "opcode ir = I_op Rv_sh" | "opcode ir = C_op Rv_clw"
    | "opcode ir = C_op Rv_clwsp" | "opcode ir = C_op Rv_csw" | "opcode ir = C_op Rv_cswsp" by auto
  then show ?thesis
  proof cases
    case 1
    with assms(6-9) tr [OF disjI1 [OF conjI [OF refl emulate_load_word]]] show ?thesis
      by (auto simp: plain_defs access_addr_def same_to_program_def ram_same)
  next
    case 2
    with assms(6-9) tr [OF disjI2 [OF conjI [OF refl emulate_store_word]]] show ?thesis
      by (auto simp: plain_defs access_addr_def same_to_program_def ram_same)
  next
    case 3
    with assms(6-9) tr [OF disjI1 [OF conjI [OF refl emulate_load_half(1)]]] show ?thesis
      by (auto simp: plain_defs access_addr_def same_to_program_def ram_same)
  next
    case 4
    with assms(6-9) tr [OF disjI1 [OF conjI [OF refl emulate_load_half(2)]]] show ?thesis
      by (auto simp: plain_defs access_addr_def same_to_program_def ram_same)
  next
    case 5
    with assms(6-9) tr [OF disjI2 [OF conjI [OF refl emulate_store_half]]] show ?thesis
      by (auto simp: plain_defs access_addr_def same_to_program_def ram_same)
  next
    case 6
    with assms(6-9) tr [OF disjI1 [OF conjI [OF refl emulate_load_word]]] show ?thesis
      by (auto simp: plain_defs access_addr_def same_to_program_def ram_same)
  next
    case 7
    with assms(6-9) tr [OF disjI1 [OF conjI [OF refl emulate_load_word]]] show ?thesis
      by (auto simp: plain_defs access_addr_def same_to_program_def ram_same)
  next
    case 8
    with assms(6-9) tr [OF disjI2 [OF conjI [OF refl emulate_store_word]]] show ?thesis
      by (auto simp: plain_defs access_addr_def same_to_program_def ram_same)
  next
    case 9
    with assms(6-9) tr [OF disjI2 [OF conjI [OF refl emulate_store_word]]] show ?thesis
      by (auto simp: plain_defs access_addr_def same_to_program_def ram_same)
  qed
qed


definition rv_mis :: riscv where
  "rv_mis = rv0\<lparr>mem_base := (\<lambda>a. 0)(0 := 0x83, 1 := 0x21, 2 := 0x10)\<rparr>"

definition lw_mis :: rv_insn where
  "lw_mis = ir0\<lparr>opcode := I_op Rv_lw, rd := 3, imm := 1\<rparr>"

lemma decoded_lw_mis: "decoded_at (mem_base rv_mis) lw_mis"
proof -
  have "memory_ifetch (mem_base rv_mis) 0 = 0x00102183"
    by (simp add: memory_ifetch_def memcpy_from_numerals rv_mis_def)
  moreover have "rv_decode ir0 0x00102183 = Decoded lw_mis True"
    by (simp add: rv_decode_def is_compressed_def rv_jump_table_def OP_def op_load_def format_defs field_defs lw_mis_def)
  ultimately show ?thesis by (simp add: decoded_at_def lw_mis_def)
qed

theorem misaligned_transparent_witness:
  "\<exists>rv'. dispatch env0 rv_mis lw_mis 0 0 = Ret False rv' \<and> X rv' 3 = 0x1021 \<and> PC rv' = 4 \<and> csr_cycle rv' = 1"
proof -
  have "dispatch env0 (rv_mis\<lparr>allow_misalign := True\<rparr>) lw_mis 0 0 =
      Next (set_X 3 0x1021 (rv_mis\<lparr>allow_misalign := True\<rparr>)) 1 4"
    by (simp add: plain_defs lw_mis_def rv_mis_def mem_defs memcpy_from_numerals)
  with misaligned_transparent [OF decoded_lw_mis, of 0 env0 0] show ?thesis
    by (auto simp: lw_mis_def access_addr_def rv_mis_def same_to_program_def)
qed

section \<open>Atomics\<close>

fun amo_spec :: "amo_op \<Rightarrow> u32 \<Rightarrow> u32 \<Rightarrow> u32" where
  "amo_spec Rv_amoswapw old v = v"
| "amo_spec Rv_amoaddw old v = old + v"
| "amo_spec Rv_amoxorw old v = old XOR v"
| "amo_spec Rv_amoandw old v = old AND v"
| "amo_spec Rv_amoorw old v = old OR v"
| "amo_spec Rv_amominw old v = word_of_int (min (sint old) (sint v))"
| "amo_spec Rv_amomaxw old v = word_of_int (max (sint old) (sint v))"
| "amo_spec Rv_amominuw old v = word_of_int (min (uint old) (uint v))"
| "amo_spec Rv_amomaxuw old v = word_of_int (max (uint old) (uint v))"
| "amo_spec Rv_lrw old v = old"
| "amo_spec Rv_scw old v = v"

lemma aligned_top:
  fixes a :: u32
  assumes "a AND 3 = 0"
  shows "unat a + 4 \<le> 2 ^ 32"
proof -
  have "take_bit 2 a = 0" using assms by (simp add: take_bit_eq_mask mask_eq_exp_minus_1)
  then have "take_bit 2 (unat a) = 0" by (metis take_bit_of_nat take_bit_nat_eq_self_iff unsigned_0 unsigned_take_bit_eq)
  then have "4 dvd unat a" by (simp add: take_bit_eq_mod dvd_eq_mod_eq_0)
  moreover have "unat a < 2 ^ 32" using unsigned_less [of a] by simp
  ultimately show ?thesis by (auto elim!: dvdE)
qed

lemma amo_dispatch:
  assumes "opcode ir = A_op a" "a \<noteq> Rv_lrw" "a \<noteq> Rv_scw" "X rv (rs1 ir) AND 3 = 0"
  shows "dispatch env rv ir c p = Next (ram_write_w
     (if rd ir \<noteq> 0 then set_X (rd ir) (ram_read_w rv (X rv (rs1 ir))) rv else rv) (X rv (rs1 ir))
     (amo_spec a (ram_read_w rv (X rv (rs1 ir))) (X rv (rs2 ir)))) (c + 1) (p + 4)"
  using assms by (cases a) (auto simp: plain_defs min_def max_def word_less_alt Let_def)

text \<open>
  C12. Atomic operations at an aligned address write the old word to \<^verbatim>\<open>rd\<close> (unless \<^verbatim>\<open>rd\<close> is x0),
  leave the combination of the old word and \<^verbatim>\<open>rs2\<close> in memory, where minimum and maximum are those
  of the signed or unsigned values, and change no other byte and no other register.
\<close>

theorem amo_correct:
  assumes "opcode ir = A_op a" "a \<noteq> Rv_lrw" "a \<noteq> Rv_scw" "X rv (rs1 ir) AND 3 = 0"
  shows "\<exists>rv'. dispatch env rv ir c p = Next rv' (c + 1) (p + 4) \<and>
    X rv' = (if rd ir \<noteq> 0 then (X rv)(rd ir := mem_read_w rv (X rv (rs1 ir))) else X rv) \<and>
    mem_read_w rv' (X rv (rs1 ir)) = amo_spec a (mem_read_w rv (X rv (rs1 ir))) (X rv (rs2 ir)) \<and>
    (\<forall>b. b - X rv (rs1 ir) \<ge> 4 \<longrightarrow> mem_read_b rv' b = mem_read_b rv b)"
proof -
  let ?a = "X rv (rs1 ir)"
  let ?rv = "if rd ir \<noteq> 0 then set_X (rd ir) (ram_read_w rv ?a) rv else rv"
  let ?w = "amo_spec a (ram_read_w rv ?a) (X rv (rs2 ir))"
  note top = aligned_top [OF assms(4)]
  have "mem_read_b (mem_write_w ?rv ?a ?w) b = mem_read_b rv b" if "b - ?a \<ge> 4" for b
  proof -
    have "b \<noteq> ?a" "b \<noteq> ?a + 1" "b \<noteq> ?a + 2" "b \<noteq> ?a + 3"
      using that by (auto simp: word_le_nat_alt)
    then show ?thesis unfolding io.read_b_write_w [OF top] by (simp add: mem_defs)
  qed
  then show ?thesis
    using amo_dispatch [OF assms] io.read_w_write_w [OF top, of ?rv ?w]
    by (auto simp: mem_ram [symmetric] ram_same mem_defs)
qed

theorem amo_correct_witness:
  "\<exists>rv'. dispatch env0 (rv0\<lparr>X := (\<lambda>r. 0)(1 := 8, 2 := - 1), mem_base := (\<lambda>a. 0)(8 := 5)\<rparr>)
       (ir0\<lparr>opcode := A_op Rv_amominw, rd := 3, rs1 := 1, rs2 := 2\<rparr>) 0 0 = Next rv' 1 4 \<and>
     X rv' 3 = 5 \<and> mem_read_w rv' 8 = 0xFFFFFFFF"
  using amo_correct [of "ir0\<lparr>opcode := A_op Rv_amominw, rd := 3, rs1 := 1, rs2 := 2\<rparr>" Rv_amominw
      "rv0\<lparr>X := (\<lambda>r. 0)(1 := 8, 2 := - 1), mem_base := (\<lambda>a. 0)(8 := 5)\<rparr>" env0 0 0]
  by (auto simp: mem_defs memory_read_w_eq)

section \<open>Bulk transfers\<close>

lemma in_ram:
  fixes a n :: u32 and ms :: u64
  shows "\<not> (ucast a \<ge> ms \<or> ucast n > ms - (ucast a :: u64)) \<longleftrightarrow>
    unat a < unat ms \<and> unat a + unat n \<le> unat ms"
proof -
  have u: "unat (ucast x :: u64) = unat x" for x :: u32
    using order.strict_trans [OF unsigned_less [of x], of "2 ^ 64 :: nat"]
    by (simp add: unsigned_ucast_eq take_bit_nat_eq_self)
  have "unat (ms - ucast a) = unat ms - unat a" if "unat a < unat ms"
    using that u [of a] by (simp add: unat_sub word_le_nat_alt)
  then show ?thesis by (auto simp: word_le_nat_alt word_less_nat_alt u)
qed

text \<open>
  C39. The bulk writes that system calls use are contained: \<^verbatim>\<open>memory_write\<close> succeeds exactly when
  the range lies inside the guest memory (where \<^verbatim>\<open>GUEST_RAM_CONTAINS\<close> holds), changes no byte
  outside the range, and what it wrote is read back; when it fails nothing changes. The same
  holds of \<^verbatim>\<open>memory_fill\<close>.
\<close>

theorem bulk_write_contained:
  assumes "length src = unat sz"
  shows "(GUEST_RAM_CONTAINS ms addr sz \<longleftrightarrow> unat addr < unat ms \<and> unat addr + unat sz \<le> unat ms) \<and>
    snd (memory_write ms m addr src sz) = GUEST_RAM_CONTAINS ms addr sz \<and>
    snd (memory_fill ms m addr sz val) = GUEST_RAM_CONTAINS ms addr sz \<and>
    (\<forall>k. fst (memory_write ms m addr src sz) k \<noteq> m k \<or> fst (memory_fill ms m addr sz val) k \<noteq> m k \<longrightarrow>
      GUEST_RAM_CONTAINS ms addr sz \<and> unat addr \<le> k \<and> k < unat addr + unat sz \<and> k < unat ms) \<and>
    (GUEST_RAM_CONTAINS ms addr sz \<longrightarrow>
      memory_read (fst (memory_write ms m addr src sz)) addr sz = src \<and>
      memory_read (fst (memory_fill ms m addr sz val)) addr sz = replicate (unat sz) val)"
proof -
  note r = in_ram [of ms addr sz]
  have g: "GUEST_RAM_CONTAINS ms addr sz \<longleftrightarrow> \<not> (ucast addr \<ge> ms \<or> ucast sz > ms - (ucast addr :: u64))"
    by (auto simp: GUEST_RAM_CONTAINS_def)
  have c: "GUEST_RAM_CONTAINS ms addr sz \<longleftrightarrow> unat addr < unat ms \<and> unat addr + unat sz \<le> unat ms"
    using g r by simp
  have w: "memory_write ms m addr src sz =
      (if GUEST_RAM_CONTAINS ms addr sz then (memcpy_to m (unat addr) src, True) else (m, False))"
    using assms unfolding g memory_write_def by auto
  have f: "memory_fill ms m addr sz val = (if GUEST_RAM_CONTAINS ms addr sz
      then (memcpy_to m (unat addr) (replicate (unat sz) val), True) else (m, False))"
    unfolding g memory_fill_def by auto
  have readback: "memory_read (memcpy_to m (unat addr) bs) addr sz = bs" if "length bs = unat sz" for bs
    using that memcpy_from_to [of m "unat addr" bs] by (simp add: memory_read_def)
  show ?thesis
    using c assms readback by (auto simp: w f memcpy_to_def)
qed

theorem bulk_write_contained_witness:
  "memory_read (fst (memory_write 16 (\<lambda>a. 0) 13 [1, 2, 3] 3)) 13 3 = [1, 2, 3]"
  using bulk_write_contained [of "[1, 2, 3]" 3 16 13 "\<lambda>a. 0"] by (simp add: GUEST_RAM_CONTAINS_def)

end
