(* ===== verification/Sys_Correct.thy ===== *)
theory Sys_Correct
  imports Mem_Correct
begin

unbundle bit_operations_syntax

text \<open>
  Control and status registers and traps: what \<^verbatim>\<open>csrrw\<close>, \<^verbatim>\<open>csrrs\<close> and \<^verbatim>\<open>csrrc\<close> read and write,
  where a trap goes, and what returning from it restores.
\<close>

section \<open>The registers by their numbers\<close>

text \<open>
  The control and status registers as the privileged and the floating-point chapters of the ISA
  number them, each with the variable that keeps it. The counters and the clock are not variables
  of their own, and \<^verbatim>\<open>fflags\<close> is a part of \<^verbatim>\<open>fcsr\<close>.
\<close>

definition csr_numbers :: "(u32 \<times> (riscv \<Rightarrow> u32)) list" where
  "csr_numbers =
    [(0x003, csr_fcsr),
     (0x100, csr_sstatus), (0x104, csr_sie), (0x105, csr_stvec), (0x106, csr_scounteren),
     (0x140, csr_sscratch), (0x141, csr_sepc), (0x142, csr_scause), (0x143, csr_stval), (0x144, csr_sip),
     (0x180, csr_satp),
     (0x300, csr_mstatus), (0x301, csr_misa), (0x302, csr_medeleg), (0x303, csr_mideleg), (0x305, csr_mtvec),
     (0x340, csr_mscratch), (0x341, csr_mepc), (0x342, csr_mcause), (0x343, csr_mtval), (0x344, csr_mip)]"

definition csr_value :: "riscv \<Rightarrow> u32 \<Rightarrow> u32 option" where
  "csr_value rv n = map_option (\<lambda>f. f rv) (map_of csr_numbers n)"

text \<open>The read-only counters and the clock: what a read after \<open>c\<close> instructions gives.\<close>

definition counter_value :: "(u64 \<Rightarrow> u64) \<Rightarrow> u64 \<Rightarrow> u32 \<Rightarrow> u32 option" where
  "counter_value ht c n = map_of
    [(0xC00, ucast c), (0xC80, ucast (shr c 32)), (0xC02, ucast c), (0xC82, ucast (shr c 32)),
     (0xC01, ucast (ht c)), (0xC81, ucast (shr (ht c) 32))] n"

definition csr_write_op :: "sys_op \<Rightarrow> u32 \<Rightarrow> u32 \<Rightarrow> u32" where
  "csr_write_op y old v =
    (if y \<in> {Rv_csrrw, Rv_csrrwi} then v
     else if y \<in> {Rv_csrrs, Rv_csrrsi} then old OR v else old AND NOT v)"

definition csr_operand :: "sys_op \<Rightarrow> rv_insn \<Rightarrow> riscv \<Rightarrow> u32" where
  "csr_operand y ir rv = (if y \<in> {Rv_csrrw, Rv_csrrs, Rv_csrrc} then X rv (rs1 ir) else ucast (rs1 ir))"

abbreviation (input) csr_ops :: "sys_op set" where
  "csr_ops \<equiv> {Rv_csrrw, Rv_csrrs, Rv_csrrc, Rv_csrrwi, Rv_csrrsi, Rv_csrrci}"

text \<open>The cells behind the numbers of the table.\<close>

fun cell_number :: "csr_ptr \<Rightarrow> u32 option" where
  "cell_number P_mstatus = Some 0x300" | "cell_number P_misa = Some 0x301" | "cell_number P_medeleg = Some 0x302"
| "cell_number P_mideleg = Some 0x303" | "cell_number P_mtvec = Some 0x305" | "cell_number P_mscratch = Some 0x340"
| "cell_number P_mepc = Some 0x341" | "cell_number P_mcause = Some 0x342" | "cell_number P_mtval = Some 0x343"
| "cell_number P_mip = Some 0x344" | "cell_number P_fcsr = Some 0x003" | "cell_number P_sstatus = Some 0x100"
| "cell_number P_sie = Some 0x104" | "cell_number P_stvec = Some 0x105" | "cell_number P_scounteren = Some 0x106"
| "cell_number P_sscratch = Some 0x140" | "cell_number P_sepc = Some 0x141" | "cell_number P_scause = Some 0x142"
| "cell_number P_stval = Some 0x143" | "cell_number P_sip = Some 0x144" | "cell_number P_satp = Some 0x180"
| "cell_number P_cycle_lo = None" | "cell_number P_cycle_hi = None" | "cell_number P_time_lo = None"
| "cell_number P_time_hi = None"

lemma csr_value_cell: "cell_number d = Some n \<Longrightarrow> csr_value rv n = Some (csr_load d rv)"
  by (cases d) (auto simp: csr_value_def csr_numbers_def)

lemma csr_value_store:
  "cell_number d = Some n \<Longrightarrow> csr_value (csr_store d v rv) m = (if m = n then Some v else csr_value rv m)"
  by (cases d; simp add: csr_value_def csr_numbers_def)

lemma csr_store_rest: "cell_number d = Some n \<Longrightarrow> csr_cycle (csr_store d v rv) = csr_cycle rv \<and>
    F (csr_store d v rv) = F rv \<and> priv_mode (csr_store d v rv) = priv_mode rv"
  by (cases d) auto

text \<open>The four kinds of numbers.\<close>

lemma csr_get_numbered:
  assumes "csr_value rv (csr AND 0xFFF) = Some old"
  obtains d where "csr_get_ptr ht rv csr = (rv, Some d)" "cell_number d = Some (csr AND 0xFFF)"
    "csr_sync_cycle rv csr c = rv" "csr \<noteq> 1"
proof -
  have "csr AND 0xFFF \<in> fst ` set csr_numbers"
    using assms by (auto simp: csr_value_def dest!: map_of_SomeD intro: rev_image_eqI)
  then have "\<exists>d. csr_get_ptr ht rv csr = (rv, Some d) \<and> cell_number d = Some (csr AND 0xFFF)" "csr_sync_cycle rv csr c = rv"
    by (auto simp: csr_numbers_def csr_get_ptr_def csr_sync_cycle_def)
  moreover have "csr \<noteq> 1" using assms by (auto simp: csr_value_def csr_numbers_def)
  ultimately show thesis using that by blast
qed

lemma csr_get_fflags: "csr_get_ptr ht rv 1 = (rv, Some P_fcsr)" "csr_sync_cycle rv 1 c = rv"
  by (simp_all add: csr_get_ptr_def csr_sync_cycle_def)

lemma csr_get_none:
  assumes "csr_value rv (csr AND 0xFFF) = None" "counter_value ht c (csr AND 0xFFF) = None" "csr AND 0xFFF \<noteq> 1"
  shows "csr_get_ptr ht rv csr = (rv, None)" "csr_sync_cycle rv csr c = rv"
proof -
  have "csr AND 0xFFF \<notin> fst ` set csr_numbers" using assms(1) by (simp add: csr_value_def map_of_eq_None_iff)
  moreover have "csr AND 0xFFF \<notin> {0xC00, 0xC80, 0xC02, 0xC82, 0xC01, 0xC81}"
    using assms(2) unfolding counter_value_def map_of_eq_None_iff by simp
  ultimately show "csr_get_ptr ht rv csr = (rv, None)" "csr_sync_cycle rv csr c = rv"
    using assms(3) by (simp_all add: csr_numbers_def csr_get_ptr_def csr_sync_cycle_def)
qed

lemma word64_eqI:
  fixes a b :: u64
  assumes "list_all (\<lambda>n. bit a n \<longleftrightarrow> bit b n) [0,1,2,3,4,5,6,7,8,9,10,11,12,13,14,15,16,17,18,19,20,21,22,23,24,25,26,27,28,29,30,31,
     32,33,34,35,36,37,38,39,40,41,42,43,44,45,46,47,48,49,50,51,52,53,54,55,56,57,58,59,60,61,62,63]"
  shows "a = b"
proof (rule bit_word_eqI)
  fix n assume "n < LENGTH(64)"
  then have "n \<in> set [0..<64]" by simp
  moreover have "[0..<64] = [0,1,2,3,4,5,6,7,8,9,10,11,12,13,14,15,16,17,18,19,20,21,22,23,24,25,26,27,28,29,30,31,
     32,33,34,35,36,37,38,39,40,41,42,43,44,45,46,47,48,49,50,51,52,53,54,55,56,57,58,59,60,61,62,63]" by code_simp
  ultimately show "bit a n \<longleftrightarrow> bit b n" using assms by (simp only: list_all_iff)
qed

lemma cycle_store_back: "csr_store P_cycle_lo (ucast (csr_cycle rv)) rv = rv"
  "csr_store P_cycle_hi (ucast (shr (csr_cycle rv) 32)) rv = rv"
proof -
  have "(c AND 0xFFFFFFFF00000000) OR ucast (ucast c :: u32) = c" for c :: u64
    by (rule word64_eqI) (simp add: bit_simps)
  moreover have "(c AND 0xFFFFFFFF) OR shl (ucast (ucast (shr c 32) :: u32)) 32 = c" for c :: u64
    by (rule word64_eqI) (simp add: bit_simps)
  ultimately show "csr_store P_cycle_lo (ucast (csr_cycle rv)) rv = rv"
    "csr_store P_cycle_hi (ucast (shr (csr_cycle rv) 32)) rv = rv" by simp_all
qed

lemma csr_get_counter:
  assumes "counter_value ht c (csr AND 0xFFF) = Some v"
  obtains rv' d where "csr_get_ptr ht (csr_sync_cycle rv csr c) csr = (rv', Some d)" "csr_load d rv' = v"
    "csr_store d v rv' = rv'" "csr \<noteq> 1" "\<And>n. csr_value rv' n = csr_value rv n" "csr_cycle rv' = c"
    "F rv' = F rv" "priv_mode rv' = priv_mode rv"
proof -
  let ?c = "csr AND 0xFFF" and ?rv = "rv\<lparr>csr_cycle := c\<rparr>"
  have "csr \<noteq> 1" using assms by (auto simp: counter_value_def)
  have s: "csr_sync_cycle rv csr c = ?rv" if "?c \<in> {0xC00, 0xC80, 0xC02, 0xC82, 0xC01, 0xC81}"
    using that by (simp add: csr_sync_cycle_def)
  have v: "csr_value (update_time ht ?rv) n = csr_value rv n" "csr_value ?rv n = csr_value rv n" for n
    by (simp_all add: csr_value_def csr_numbers_def update_time_def Let_def)
  consider "?c = 0xC00 \<or> ?c = 0xC02" | "?c = 0xC80 \<or> ?c = 0xC82" | "?c = 0xC01" | "?c = 0xC81"
    using assms by (auto simp: counter_value_def split: if_splits)
  then show thesis
  proof cases
    case 1
    then show thesis using assms s v cycle_store_back(1) [of ?rv] \<open>csr \<noteq> 1\<close>
      by (intro that [of ?rv P_cycle_lo]) (auto simp: csr_get_ptr_def counter_value_def)
  next
    case 2
    then show thesis using assms s v cycle_store_back(2) [of ?rv] \<open>csr \<noteq> 1\<close>
      by (intro that [of ?rv P_cycle_hi]) (auto simp: csr_get_ptr_def counter_value_def)
  next
    case 3
    have "(ucast (ht c AND 0xFFFFFFFF) :: u32) = ucast (ht c)" by (rule word32_eqI) (simp add: bit_simps)
    with 3 show thesis using assms s v \<open>csr \<noteq> 1\<close>
      by (intro that [of "update_time ht ?rv" P_time_lo])
        (auto simp: csr_get_ptr_def counter_value_def update_time_def Let_def)
  next
    case 4
    then show thesis using assms s v \<open>csr \<noteq> 1\<close>
      by (intro that [of "update_time ht ?rv" P_time_hi])
        (auto simp: csr_get_ptr_def counter_value_def update_time_def Let_def)
  qed
qed

section \<open>The instructions\<close>

text \<open>The value an instruction reads: \<^verbatim>\<open>fflags\<close> shows the low five bits of its cell.\<close>

definition csr_view :: "u32 \<Rightarrow> u32 \<Rightarrow> u32" where
  "csr_view csr v = (if csr = 1 then v AND 0x1F else v)"

lemma csr_functions:
  assumes "csr_get_ptr ht (csr_sync_cycle rv csr c) csr = (rv1, Some d)"
  shows "csr_csrrw ht rv csr v c = (csr_store d v rv1, csr_view csr (csr_load d rv1))"
    "csr_csrrs ht rv csr v c = (csr_store d (csr_load d rv1 OR v) rv1, csr_view csr (csr_load d rv1))"
    "csr_csrrc ht rv csr v c = (csr_store d (csr_load d rv1 AND NOT v) rv1, csr_view csr (csr_load d rv1))"
  using assms by (simp_all add: csr_csrrw_def csr_csrrs_def csr_csrrc_def csr_view_def Let_def)

lemma csr_sync_frame [simp]: "X (csr_sync_cycle rv csr c) = X rv" "mem_base (csr_sync_cycle rv csr c) = mem_base rv"
  by (simp_all add: csr_sync_cycle_def)

lemma csr_dispatch:
  assumes "opcode ir = S_op y" "y \<in> csr_ops" "X rv 0 = 0"
    and "csr_get_ptr (host_time env) (csr_sync_cycle rv (imm ir) (c + 1)) (imm ir) = (rv1, Some d)"
  shows "dispatch env rv ir c p = Next (set_X (rd ir)
     (if rd ir = 0 then 0 else csr_view (imm ir) (csr_load d rv1))
     (csr_store d (csr_write_op y (csr_load d rv1) (csr_operand y ir rv)) rv1)) (c + 1) (p + 4)"
  using assms(1-3) csr_functions [OF assms(4)] csr_get_ptr_frame [OF assms(4)]
  by (elim insertE emptyE) (simp_all add: plain_defs csr_write_op_def csr_operand_def)

lemma csr_dispatch_none:
  assumes "opcode ir = S_op y" "y \<in> csr_ops" "X rv 0 = 0"
    and "csr_get_ptr (host_time env) rv (imm ir) = (rv, None)" "csr_sync_cycle rv (imm ir) (c + 1) = rv"
  shows "dispatch env rv ir c p = Next (set_X (rd ir) 0 rv) (c + 1) (p + 4)"
  using assms by (elim insertE emptyE) (simp_all add: plain_defs csr_csrrw_def csr_csrrs_def csr_csrrc_def)

lemma csr_value_X [simp]: "csr_value (rv\<lparr>X := x\<rparr>) n = csr_value rv n"
  by (simp add: csr_value_def csr_numbers_def)

text \<open>What the instruction \<open>y\<close> has to make of the machine, by the kind of the number it addresses.\<close>

definition csr_effect :: "(u64 \<Rightarrow> u64) \<Rightarrow> sys_op \<Rightarrow> rv_insn \<Rightarrow> u64 \<Rightarrow> riscv \<Rightarrow> riscv \<Rightarrow> bool" where
  "csr_effect ht y ir c rv rv' \<longleftrightarrow>
    (let n = imm ir AND 0xFFF; v = csr_operand y ir rv; shown = (\<lambda>x. (X rv)(rd ir := if rd ir = 0 then 0 else x)) in
     (case csr_value rv n of
        Some old \<Rightarrow> X rv' = shown old \<and> csr_value rv' n = Some (csr_write_op y old v) \<and>
          (\<forall>m. m \<noteq> n \<longrightarrow> csr_value rv' m = csr_value rv m) \<and> csr_cycle rv' = csr_cycle rv
      | None \<Rightarrow>
          (imm ir = 1 \<longrightarrow> X rv' = shown (csr_fcsr rv AND 0x1F) \<and> csr_fcsr rv' = csr_write_op y (csr_fcsr rv) v \<and>
             (\<forall>m. m \<noteq> 0x003 \<longrightarrow> csr_value rv' m = csr_value rv m) \<and> csr_cycle rv' = csr_cycle rv) \<and>
          (\<forall>t. counter_value ht c n = Some t \<and> y \<in> {Rv_csrrs, Rv_csrrc} \<and> rs1 ir = 0 \<longrightarrow>
             X rv' = shown t \<and> (\<forall>m. csr_value rv' m = csr_value rv m) \<and> csr_cycle rv' = c) \<and>
          (n \<noteq> 1 \<and> counter_value ht c n = None \<longrightarrow>
             X rv' = shown 0 \<and> (\<forall>m. csr_value rv' m = csr_value rv m) \<and> csr_cycle rv' = csr_cycle rv)))"

text \<open>
  C16. The CSR instructions are the read-modify-write operations of Zicsr on the register that the
  ISA gives the number. For the 21 registers of the table: the old value goes to \<^verbatim>\<open>rd\<close> unless
  \<^verbatim>\<open>rd\<close> is x0, the register is replaced, or'ed or masked with the operand (a register, or the
  five-bit immediate), and every register with another number keeps its value. \<^verbatim>\<open>fflags\<close> (number 1) reads as the
  low five bits of \<^verbatim>\<open>fcsr\<close>, but a write goes to the whole of \<^verbatim>\<open>fcsr\<close>. A read of a counter
  or of the clock (a set or clear with x0) gives the low or high half of the instruction count or of the host's time.
  Every other number reads as 0 and ignores the write. Memory is unchanged.
\<close>

theorem csr_access:
  assumes "opcode ir = S_op y" "y \<in> csr_ops" "X rv 0 = 0"
  shows "\<exists>rv'. dispatch env rv ir c p = Next rv' (c + 1) (p + 4) \<and> mem_base rv' = mem_base rv \<and>
    csr_effect (host_time env) y ir (c + 1) rv rv'"
proof -
  let ?n = "imm ir AND 0xFFF" and ?ht = "host_time env"
  consider (reg) old where "csr_value rv ?n = Some old" | (flags) "imm ir = 1"
    | (count) t where "csr_value rv ?n = None" "counter_value ?ht (c + 1) ?n = Some t"
    | (none) "csr_value rv ?n = None" "counter_value ?ht (c + 1) ?n = None" "?n \<noteq> 1"
    | (spare) "csr_value rv ?n = None" "?n = 1" "imm ir \<noteq> 1"
    by (cases "csr_value rv ?n"; cases "counter_value ?ht (c + 1) ?n"; cases "?n = 1") auto
  then show ?thesis
  proof cases
    case (reg old)
    obtain d where d: "csr_get_ptr ?ht rv (imm ir) = (rv, Some d)" "cell_number d = Some ?n"
      "csr_sync_cycle rv (imm ir) (c + 1) = rv" "imm ir \<noteq> 1" by (rule csr_get_numbered [OF reg])
    have "csr_load d rv = old" using csr_value_cell [OF d(2), of rv] reg by simp
    with reg d csr_dispatch [OF assms, of env c rv d p] show ?thesis
      by (simp add: csr_effect_def csr_view_def csr_value_store csr_store_rest)
  next
    case flags
    have "csr_value rv 1 = None" by (simp add: csr_value_def csr_numbers_def)
    moreover have "csr_value (rv\<lparr>csr_fcsr := v\<rparr>) m = csr_value rv m" if "m \<noteq> 3" for v m
      using csr_value_store [of P_fcsr 3 v rv m] that by simp
    ultimately show ?thesis
      using csr_dispatch [OF assms, of env c rv P_fcsr p] flags csr_get_fflags
      by (simp add: csr_effect_def csr_view_def counter_value_def)
  next
    case (count t)
    obtain rv1 d where d: "csr_get_ptr ?ht (csr_sync_cycle rv (imm ir) (c + 1)) (imm ir) = (rv1, Some d)" "csr_load d rv1 = t"
      "csr_store d t rv1 = rv1" "imm ir \<noteq> 1" "\<And>n. csr_value rv1 n = csr_value rv n" "csr_cycle rv1 = c + 1"
      using csr_get_counter [OF count(2), of rv] by blast
    have "y = Rv_csrrs \<or> y = Rv_csrrc \<Longrightarrow> rs1 ir = 0 \<Longrightarrow> csr_write_op y t (csr_operand y ir rv) = t"
      using assms(3) by (auto simp: csr_write_op_def csr_operand_def)
    with count d csr_dispatch [OF assms d(1), of p] csr_get_ptr_frame [OF d(1)] show ?thesis
      by (auto simp: csr_effect_def csr_view_def)
  next
    case none
    then show ?thesis using csr_dispatch_none [OF assms csr_get_none [OF none]]
      by (auto simp: csr_effect_def)
  next
    case spare
    have "counter_value ?ht (c + 1) 1 = None" by (simp add: counter_value_def)
    moreover have "csr_get_ptr ?ht rv (imm ir) = (rv, Some P_fcsr)" "csr_sync_cycle rv (imm ir) (c + 1) = rv"
      using spare(2) by (simp_all add: csr_get_ptr_def csr_sync_cycle_def)
    ultimately show ?thesis
      using csr_dispatch [OF assms, of env c rv P_fcsr p] spare by (simp add: csr_effect_def)
  qed
qed

theorem csr_access_witness:
  "\<exists>rv'. dispatch env0 (rv0\<lparr>X := (\<lambda>r. 0)(1 := 0x80), csr_mepc := 8\<rparr>)
      (ir0\<lparr>opcode := S_op Rv_csrrs, rd := 2, rs1 := 1, imm := 0x341\<rparr>) 0 0 = Next rv' 1 4 \<and>
    X rv' 2 = 8 \<and> csr_mepc rv' = 0x88 \<and> csr_mtvec rv' = 0"
proof -
  let ?rv = "rv0\<lparr>X := (\<lambda>r. 0)(1 := 0x80), csr_mepc := 8\<rparr>"
  have "csr_value ?rv 0x341 = Some 8" "csr_value ?rv 0x305 = Some 0" by (simp_all add: csr_value_def csr_numbers_def)
  moreover have "csr_value rv' 0x341 = Some (csr_mepc rv')" "csr_value rv' 0x305 = Some (csr_mtvec rv')" for rv'
    by (simp_all add: csr_value_def csr_numbers_def)
  ultimately show ?thesis
    using csr_access [of "ir0\<lparr>opcode := S_op Rv_csrrs, rd := 2, rs1 := 1, imm := 0x341\<rparr>" Rv_csrrs ?rv env0 0 0]
    by (auto simp: csr_effect_def csr_write_op_def csr_operand_def dest: spec [of _ "0x305"])
qed

section \<open>Traps\<close>



text \<open>
  C18. Returning from a machine-mode trap: when the handler ends in \<^verbatim>\<open>mret\<close> with \<^verbatim>\<open>mepc\<close> and \<^verbatim>\<open>mstatus\<close> as the
  trap left them, execution goes on at the PC of the trap in machine mode, and the
  interrupt-enable bit is what it was, provided \<^verbatim>\<open>MPIE\<close> was clear before the trap: the trap never
  clears \<^verbatim>\<open>MPIE\<close>, and \<^verbatim>\<open>mret\<close> only sets \<^verbatim>\<open>MIE\<close>.
\<close>

theorem trap_return:
  assumes "priv_mode rv = 3" "csr_mtvec rv \<noteq> 0"
    and "SET_CAUSE_AND_TVAL_THEN_TRAP rv cause tval = Some rvt"
    and "csr_mepc rvh = csr_mepc rvt" "csr_mstatus rvh = csr_mstatus rvt"
    and "opcode ir = S_op Rv_mret"
  shows "\<exists>rv'. dispatch env rvh ir c p = Ret True rv' \<and> PC rv' = PC rv \<and> priv_mode rv' = 3 \<and>
    X rv' = X rvh \<and> mem_base rv' = mem_base rvh \<and> bit (csr_mstatus rv') 7 \<and>
    bit (csr_mstatus rv') 3 = (bit (csr_mstatus rv) 3 \<or> bit (csr_mstatus rv) 7)"
proof -
  have t: "csr_mepc rvh = PC rv" "csr_mstatus rvh =
      ((csr_mstatus rv OR shl (shr (csr_mstatus rv AND 8) 3) 7) AND NOT 8) OR shl 3 11"
    using assms(1-5) by (auto simp: SET_CAUSE_AND_TVAL_THEN_TRAP_def set_cause_and_tval_def trap_handler_def
        machine_mode trap_enter_m_def trap_vector_def Let_def split: if_splits)
  have mpp: "shr (csr_mstatus rvh AND 0x1800) 11 = 3"
    unfolding t by (rule word32_eqI) (simp add: bit_simps)
  show ?thesis
    using assms(6) t(1) mpp by (simp add: plain_defs Let_def bit_simps) (auto simp: t(2) bit_simps)
qed

theorem trap_return_witness:
  "\<exists>rvt rv'. SET_CAUSE_AND_TVAL_THEN_TRAP (rv0\<lparr>csr_mtvec := 0x800, PC := 0x40, csr_mstatus := 8\<rparr>) 2 7 = Some rvt \<and>
    dispatch env0 rvt (ir0\<lparr>opcode := S_op Rv_mret\<rparr>) 0 0x800 = Ret True rv' \<and>
    PC rv' = 0x40 \<and> priv_mode rv' = 3 \<and> bit (csr_mstatus rv') 3"
proof -
  let ?rv = "rv0\<lparr>csr_mtvec := 0x800, PC := 0x40, csr_mstatus := 8\<rparr>"
  obtain rvt where t: "SET_CAUSE_AND_TVAL_THEN_TRAP ?rv 2 7 = Some rvt"
    by (auto simp: SET_CAUSE_AND_TVAL_THEN_TRAP_def set_cause_and_tval_def trap_handler_def machine_mode
        trap_enter_m_def Let_def)
  have "bit (8 :: u32) 3" by simp
  with trap_return [of ?rv 2 7 rvt rvt "ir0\<lparr>opcode := S_op Rv_mret\<rparr>" env0 0 "0x800"] t show ?thesis
    by auto
qed

end
