(* ===== verification/Fp_Correct.thy ===== *)
theory Fp_Correct
  imports Sample
begin

unbundle bit_operations_syntax

text \<open>
  Single-precision comparisons, minimum, maximum and classification against the numbers the
  bit patterns stand for.
\<close>

section \<open>The value of a pattern\<close>

text \<open>
  The value scaled by \<open>2 ^ 149\<close>, an integer: \<open>f mag\<close> of the 31 low bits, exponent field \<open>e\<close> and
  fraction field \<open>m\<close>, is \<open>m\<close> for a subnormal number and \<open>(2 ^ 23 + m) * 2 ^ (e - 1)\<close> for a normal
  one. Infinity gets the value \<open>2 ^ 277\<close>, above every finite one.
\<close>

definition fmag :: "nat \<Rightarrow> int" where
  "fmag m = (if m div 2 ^ 23 = 0 then int (m mod 2 ^ 23)
     else int (2 ^ 23 + m mod 2 ^ 23) * 2 ^ (m div 2 ^ 23 - 1))"

definition mag :: "u32 \<Rightarrow> nat" where
  "mag f = unat f mod 2 ^ 31"

definition fval :: "u32 \<Rightarrow> int" where
  "fval f = (if bit f 31 then - fmag (mag f) else fmag (mag f))"

lemma fmag_Suc: "fmag m < fmag (Suc m)"
proof (cases "m mod 2 ^ 23 = 2 ^ 23 - 1")
  case True
  then have "Suc m mod 2 ^ 23 = 0" "Suc m div 2 ^ 23 = Suc (m div 2 ^ 23)"
    by (simp_all add: mod_Suc div_Suc)
  moreover have "(2 :: int) ^ (m div 2 ^ 23) = 2 * 2 ^ (m div 2 ^ 23 - 1)" if "m div 2 ^ 23 \<noteq> 0"
    using that by (cases "m div 2 ^ 23") simp_all
  ultimately show ?thesis using True by (auto simp: fmag_def)
next
  case False
  then have "Suc m mod 2 ^ 23 = Suc (m mod 2 ^ 23)" "Suc m div 2 ^ 23 = m div 2 ^ 23"
    by (simp_all add: mod_Suc div_Suc)
  then show ?thesis by (simp add: fmag_def)
qed

lemma fmag_less [simp]: "fmag m < fmag n \<longleftrightarrow> m < n"
  using lift_Suc_mono_less_iff [of fmag] fmag_Suc by blast

lemma fmag_eq [simp]: "fmag m = fmag n \<longleftrightarrow> m = n"
  by (metis fmag_less linorder_neq_iff)

lemma fmag_le [simp]: "fmag m \<le> fmag n \<longleftrightarrow> m \<le> n"
  by (metis fmag_less linorder_not_le)

lemma fmag_0: "fmag 0 = 0"
  by (simp add: fmag_def)

lemma fmag_pos: "0 \<le> fmag m" "0 < fmag m \<longleftrightarrow> 0 < m"
  using fmag_less [of 0 m] by (cases "m = 0"; simp add: fmag_0 del: fmag_less)+

lemma unat_mag: "unat f = mag f + (if bit f 31 then 2 ^ 31 else 0)"
proof -
  have lt: "unat f div 2 ^ 31 < 2" using unsigned_less [of f, where 'a = nat] by simp
  have "bit f 31 \<longleftrightarrow> odd (unat f div 2 ^ 31)"
    using bit_iff_odd [of "unat f" 31] by (simp add: bit_unsigned_iff)
  with lt have "unat f div 2 ^ 31 = (if bit f 31 then 1 else 0)"
    by (auto simp: less_2_cases_iff)
  then show ?thesis
    using div_mult_mod_eq [of "unat f" "2 ^ 31"] by (cases "bit f 31") (simp_all add: mag_def)
qed

lemma shl_1_mag: "shl f 1 = 0 \<longleftrightarrow> mag f = 0" for f :: u32
proof -
  have "unat (shl f 1) = 2 * unat f mod 2 ^ 32"
    by (simp add: push_bit_eq_mult unat_word_ariths mult.commute)
  also have "\<dots> = 2 * mag f" by (simp add: mag_def mult_mod_right)
  finally show ?thesis by (simp add: word_unat_eq_iff)
qed

lemma shl_or_mag: "shl (a OR b) 1 = 0 \<longleftrightarrow> mag a = 0 \<and> mag b = 0" for a b :: u32
  by (simp only: push_bit_or or_eq_0_iff shl_1_mag)

lemma sign_bit: "signF32UI a = bit a 31"
proof -
  have "bit (shr a 31) n = (n = 0 \<and> bit a 31)" for n
    using bit_imp_le_length [of a "31 + n"] by (auto simp: bit_simps)
  then show ?thesis
    unfolding signF32UI_def by (metis bit_eqI bit_0_eq bot_apply bot_bool_def)
qed

lemma order_mag:
  "bit a 31 = bit b 31 \<Longrightarrow> a < b \<longleftrightarrow> mag a < mag b"
  "bit a 31 = bit b 31 \<Longrightarrow> a = b \<longleftrightarrow> mag a = mag b" for a b :: u32
  by (simp_all add: word_less_nat_alt word_unat_eq_iff unat_mag [of a] unat_mag [of b])

text \<open>SoftFloat's integer comparisons compare the values.\<close>

lemma compare_values:
  assumes "\<not> isNaNF32UI a" "\<not> isNaNF32UI b"
  shows "f32_eq rv a b = (rv, fval a = fval b)" "f32_lt rv a b = (rv, fval a < fval b)"
    "f32_le rv a b = (rv, fval a \<le> fval b)" "f32_lt_quiet rv a b = (rv, fval a < fval b)"
proof -
  note fp = fmag_pos [of "mag a"] fmag_pos [of "mag b"]
  have eq: "(a = b \<or> shl (a OR b) 1 = 0) = (fval a = fval b)"
    using fp order_mag(2) [of a b] unfolding shl_or_mag
    by (cases "bit a 31"; cases "bit b 31") (auto simp: fval_def fmag_0)
  have lt: "(if signF32UI a \<noteq> signF32UI b then signF32UI a \<and> shl (a OR b) 1 \<noteq> 0
      else a \<noteq> b \<and> signF32UI a \<noteq> (a < b)) = (fval a < fval b)"
    using fp order_mag [of a b] unfolding shl_or_mag sign_bit
    by (cases "bit a 31"; cases "bit b 31") (auto simp: fval_def fmag_0)
  have le: "(if signF32UI a \<noteq> signF32UI b then signF32UI a \<or> shl (a OR b) 1 = 0
      else a = b \<or> signF32UI a \<noteq> (a < b)) = (fval a \<le> fval b)"
    using fp order_mag [of a b] unfolding shl_or_mag sign_bit
    by (cases "bit a 31"; cases "bit b 31") (auto simp: fval_def fmag_0)
  show "f32_eq rv a b = (rv, fval a = fval b)" "f32_lt rv a b = (rv, fval a < fval b)"
    "f32_le rv a b = (rv, fval a \<le> fval b)" "f32_lt_quiet rv a b = (rv, fval a < fval b)"
    using assms eq lt le by (simp_all add: f32_eq_def f32_lt_def f32_le_def f32_lt_quiet_def Let_def)
qed


section \<open>Fields\<close>

definition fexp :: "u32 \<Rightarrow> nat" where
  "fexp f = mag f div 2 ^ 23"

definition ffrac :: "u32 \<Rightarrow> nat" where
  "ffrac f = mag f mod 2 ^ 23"

lemma fexp_eq: "fexp f = unat (take_bit 8 (shr f 23))"
proof -
  have "fexp f = drop_bit 23 (take_bit 31 (unat f))"
    by (simp add: fexp_def mag_def drop_bit_eq_div take_bit_eq_mod)
  also have "\<dots> = take_bit 8 (drop_bit 23 (unat f))" by (simp add: drop_bit_take_bit)
  finally show ?thesis
    using take_bit_nat_eq_self [of "unat f" 32] unsigned_less [of f, where 'a = nat]
    by (simp add: unsigned_take_bit_eq unsigned_drop_bit_eq)
qed

lemma ffrac_eq: "ffrac f = unat (take_bit 23 f)"
proof -
  have "ffrac f = take_bit 23 (take_bit 31 (unat f))"
    by (simp add: ffrac_def mag_def take_bit_eq_mod)
  then show ?thesis by (simp add: unsigned_take_bit_eq)
qed

lemma field_tests:
  "(f AND 0x7F800000 = 0) = (fexp f = 0)" "(f AND 0x7F800000 = 0x7F800000) = (fexp f = 255)"
  "(f AND 0x7FFFFF = 0) = (ffrac f = 0)" "(f AND 0x80000000 = 0) = (\<not> bit f 31)"
  "((f AND 0x7FFFFF) AND 0x400000 = 0) = (ffrac f < 2 ^ 22)" for f :: u32
proof -
  have e: "f AND 0x7F800000 = shl (take_bit 8 (shr f 23)) 23"
    by (rule word32_eqI) (simp add: bit_simps)
  have "fexp f < 256" using unsigned_less [of f, where 'a = nat] by (simp add: fexp_def mag_def div_less_iff_less_mult)
  then have "unat (f AND 0x7F800000) = fexp f * 2 ^ 23"
    by (simp add: e push_bit_eq_mult unat_word_ariths fexp_eq)
  then show "(f AND 0x7F800000 = 0) = (fexp f = 0)" "(f AND 0x7F800000 = 0x7F800000) = (fexp f = 255)"
    by (auto simp: word_unat_eq_iff)
  have "f AND 0x7FFFFF = take_bit 23 f"
    by (rule word32_eqI) (simp add: bit_simps)
  then show "(f AND 0x7FFFFF = 0) = (ffrac f = 0)"
    by (simp add: ffrac_eq word_unat_eq_iff)
  show "(f AND 0x80000000 = 0) = (\<not> bit f 31)"
    using and_exp_eq_0 [of f 31] by simp
  have "(f AND 0x7FFFFF) AND 0x400000 = f AND 2 ^ 22" by (rule word32_eqI) (simp add: bit_simps)
  then have "((f AND 0x7FFFFF) AND 0x400000 = 0) = (\<not> bit (ffrac f) 22)"
    by (simp only: and_exp_eq_0 ffrac_eq) (simp add: bit_simps)
  moreover have "ffrac f div 2 ^ 22 < 2" by (simp add: ffrac_def div_less_iff_less_mult)
  then have "bit (ffrac f) 22 \<longleftrightarrow> \<not> ffrac f < 2 ^ 22"
    unfolding bit_iff_odd by (auto simp: less_2_cases_iff div_eq_0_iff)
  ultimately show "((f AND 0x7FFFFF) AND 0x400000 = 0) = (ffrac f < 2 ^ 22)" by simp
qed


lemma nan_tests:
  "isNaNF32UI f \<longleftrightarrow> fexp f = 255 \<and> ffrac f \<noteq> 0" "is_nan f \<longleftrightarrow> fexp f = 255 \<and> ffrac f \<noteq> 0"
proof -
  have "(NOT f AND 0x7F800000 = 0) = (f AND 0x7F800000 = 0x7F800000)"
    unfolding bit_eq_iff by (auto simp: bit_simps)
  then show "isNaNF32UI f \<longleftrightarrow> fexp f = 255 \<and> ffrac f \<noteq> 0" "is_nan f \<longleftrightarrow> fexp f = 255 \<and> ffrac f \<noteq> 0"
    unfolding isNaNF32UI_def is_nan_def field_tests by (simp_all only: field_tests)
qed

section \<open>Comparisons\<close>

text \<open>The result and the invalid-operation flag of the three comparison instructions.\<close>

fun fp_relation :: "fp_op \<Rightarrow> int \<Rightarrow> int \<Rightarrow> bool" where
  "fp_relation Rv_feqs x y \<longleftrightarrow> x = y"
| "fp_relation Rv_flts x y \<longleftrightarrow> x < y"
| "fp_relation Rv_fles x y \<longleftrightarrow> x \<le> y"
| "fp_relation _ x y \<longleftrightarrow> False"

definition fnan :: "u32 \<Rightarrow> bool" where
  "fnan f \<longleftrightarrow> fexp f = 255 \<and> ffrac f \<noteq> 0"

definition fsnan :: "u32 \<Rightarrow> bool" where
  "fsnan f \<longleftrightarrow> fexp f = 255 \<and> ffrac f \<noteq> 0 \<and> ffrac f < 2 ^ 22"

lemma snan_test: "softfloat_isSigNaNF32UI f = fsnan f"
proof -
  have e: "f AND 0x7F800000 = (f AND 0x7FC00000) AND 0x7F800000" "f AND 0x400000 = (f AND 0x7FC00000) AND 0x400000"
    "f AND 0x7FC00000 = (f AND 0x7F800000) OR (f AND 0x400000)"
    "f AND 0x7FFFFF = (f AND 0x3FFFFF) OR (f AND 0x400000)" "(f AND 0x7FFFFF) AND 0x400000 = f AND 0x400000"
    by (rule word32_eqI, simp add: bit_simps)+
  have "f AND 0x7FC00000 = 0x7F800000 \<longleftrightarrow> f AND 0x7F800000 = 0x7F800000 \<and> f AND 0x400000 = 0"
  proof
    assume *: "f AND 0x7FC00000 = 0x7F800000"
    have "(f AND 0x7FC00000) AND 0x7F800000 = 0x7F800000" "(f AND 0x7FC00000) AND 0x400000 = 0"
      unfolding * by simp_all
    then show "f AND 0x7F800000 = 0x7F800000 \<and> f AND 0x400000 = 0" using e(1,2) by simp
  next
    assume *: "f AND 0x7F800000 = 0x7F800000 \<and> f AND 0x400000 = 0"
    then show "f AND 0x7FC00000 = 0x7F800000" unfolding e(3) by simp
  qed
  moreover have "f AND 0x7FFFFF = 0 \<longleftrightarrow> f AND 0x3FFFFF = 0" if "f AND 0x400000 = 0"
    using that by (simp add: e(4))
  ultimately have "(f AND 0x7FC00000 = 0x7F800000 \<and> f AND 0x3FFFFF \<noteq> 0) =
    (f AND 0x7F800000 = 0x7F800000 \<and> f AND 0x7FFFFF \<noteq> 0 \<and> (f AND 0x7FFFFF) AND 0x400000 = 0)"
    unfolding e(5) by blast
  then show ?thesis
    unfolding softfloat_isSigNaNF32UI_def fsnan_def field_tests by simp
qed


lemma nan_is: "isNaNF32UI f = fnan f" "is_nan f = fnan f" "fsnan f \<Longrightarrow> fnan f"
  by (simp_all add: nan_tests fnan_def fsnan_def)

lemma compare_fnan: "\<not> fnan a \<Longrightarrow> \<not> fnan b \<Longrightarrow>
  f32_eq rv a b = (rv, fval a = fval b) \<and> f32_lt rv a b = (rv, fval a < fval b) \<and>
  f32_le rv a b = (rv, fval a \<le> fval b) \<and> f32_lt_quiet rv a b = (rv, fval a < fval b)"
  using compare_values [of a b rv] by (simp add: nan_is)

lemma compare_nan: "fnan a \<or> fnan b \<Longrightarrow>
  f32_eq rv a b = (if fsnan a \<or> fsnan b then softfloat_raiseFlags 16 rv else rv, False) \<and>
  f32_lt rv a b = (softfloat_raiseFlags 16 rv, False) \<and> f32_le rv a b = (softfloat_raiseFlags 16 rv, False) \<and>
  f32_lt_quiet rv a b = (if fsnan a \<or> fsnan b then softfloat_raiseFlags 16 rv else rv, False)"
  by (auto simp: f32_eq_def f32_lt_def f32_le_def f32_lt_quiet_def nan_is snan_test)

text \<open>
  C13. The comparisons \<^verbatim>\<open>feq.s\<close>, \<^verbatim>\<open>flt.s\<close>, \<^verbatim>\<open>fle.s\<close> compare the values of the operands (so +0 and -0 are
  equal); with a NaN operand the result is 0, and the invalid-operation flag accrues, for \<^verbatim>\<open>feq.s\<close>
  only if one operand is a signalling NaN. No other flag changes; no flag of an
  earlier operation may be waiting to be collected.
\<close>

theorem fp_compare:
  assumes "opcode ir = F_op f" "f \<in> {Rv_feqs, Rv_flts, Rv_fles}" "softfloat_exceptionFlags rv = 0"
    and "a = F rv (rs1 ir)" "b = F rv (rs2 ir)"
  shows "\<exists>rv'. dispatch env rv ir c p = Next rv' (c + 1) (p + 4) \<and>
    X rv' = (if rd ir = 0 then X rv else (X rv)(rd ir :=
       if \<not> fnan a \<and> \<not> fnan b \<and> fp_relation f (fval a) (fval b) then 1 else 0)) \<and>
    csr_fcsr rv' = csr_fcsr rv OR
      (if fsnan a \<or> fsnan b \<or> (f \<noteq> Rv_feqs \<and> (fnan a \<or> fnan b)) then 16 else 0) \<and>
    F rv' = F rv \<and> mem_base rv' = mem_base rv \<and> softfloat_exceptionFlags rv' = 0"
proof (cases "fnan a \<or> fnan b")
  case True
  then show ?thesis
    using assms compare_nan [of a b rv] nan_is(3) [of a] nan_is(3) [of b]
    by (auto simp: plain_defs set_fflag_eq softfloat_raiseFlags_def)
next
  case False
  then show ?thesis
    using assms compare_fnan [of a b rv] nan_is(3) [of a] nan_is(3) [of b]
    by (auto simp: plain_defs set_fflag_eq)
qed


theorem fp_compare_witness:
  "\<exists>rv'. dispatch env0 (rv0\<lparr>F := (\<lambda>r. 0)(1 := 0x80000000, 2 := 0x7F800001)\<rparr>)
      (ir0\<lparr>opcode := F_op Rv_flts, rd := 3, rs1 := 1, rs2 := 2\<rparr>) 0 0 = Next rv' 1 4 \<and>
    X rv' 3 = 0 \<and> csr_fcsr rv' = 16"
proof -
  have "fsnan 0x7F800001" "fnan 0x7F800001"
    by (simp_all add: fsnan_def fnan_def fexp_def ffrac_def mag_def)
  then show ?thesis
    using fp_compare [of "ir0\<lparr>opcode := F_op Rv_flts, rd := 3, rs1 := 1, rs2 := 2\<rparr>" Rv_flts
        "rv0\<lparr>F := (\<lambda>r. 0)(1 := 0x80000000, 2 := 0x7F800001)\<rparr>" _ _ env0 0 0, OF _ _ _ refl refl]
    by auto
qed

section \<open>Minimum and maximum\<close>

text \<open>The order of the values in which -0 is below +0.\<close>

definition fkey :: "u32 \<Rightarrow> int" where
  "fkey f = 2 * fval f + (if bit f 31 then 0 else 1)"

lemma fval_neg_zero: "fval a = fval b \<Longrightarrow> bit a 31 \<noteq> bit b 31 \<Longrightarrow> mag a = 0 \<and> mag b = 0"
  using fmag_pos [of "mag a"] fmag_pos [of "mag b"] by (auto simp: fval_def split: if_splits)

lemma fkey_eq: "fkey a = fkey b \<longleftrightarrow> a = b"
proof
  assume *: "fkey a = fkey b"
  then have s: "bit a 31 = bit b 31" unfolding fkey_def by (auto split: if_splits) presburger+
  with * have "fval a = fval b" by (simp add: fkey_def)
  with s show "a = b" using order_mag(2) [of a b] by (auto simp: fval_def split: if_splits)
qed simp

lemma fkey_less: "fkey a < fkey b \<longleftrightarrow> fval a < fval b \<or> (fval a = fval b \<and> bit a 31 \<and> \<not> bit b 31)"
  unfolding fkey_def by auto

lemma fkey_le: "fkey a \<le> fkey b \<longleftrightarrow> fval a < fval b \<or> (fval a = fval b \<and> bit a 31 \<and> \<not> bit b 31) \<or> a = b"
  unfolding le_less fkey_eq fkey_less by blast

lemma fval_inj: "fval a = fval b \<Longrightarrow> bit a 31 = bit b 31 \<Longrightarrow> a = b"
  using order_mag(2) [of a b] by (auto simp: fval_def split: if_splits)

lemma pick_min: "(if fval a < fval b \<or> (fval a = fval b \<and> bit a 31) then a else b) =
    (if fkey a \<le> fkey b then a else b)"
  unfolding fkey_le using fval_inj [of a b] by (cases "bit a 31"; cases "bit b 31") auto

lemma pick_max: "(if fval b < fval a \<or> (fval a = fval b \<and> bit b 31) then a else b) =
    (if fkey a \<le> fkey b then b else a)"
  unfolding fkey_le using fval_inj [of a b] by (cases "bit a 31"; cases "bit b 31") auto

fun fp_pick :: "fp_op \<Rightarrow> u32 \<Rightarrow> u32 \<Rightarrow> u32" where
  "fp_pick Rv_fmins a b = (if fkey a \<le> fkey b then a else b)"
| "fp_pick Rv_fmaxs a b = (if fkey a \<le> fkey b then b else a)"
| "fp_pick _ a b = 0"

text \<open>
  C14. \<^verbatim>\<open>fmin.s\<close> and \<^verbatim>\<open>fmax.s\<close> return the smaller and the larger operand, where -0 is below +0; one NaN
  operand is ignored, two give the canonical NaN; a signalling NaN raises the
  invalid-operation flag.
\<close>

theorem fp_min_max:
  assumes "opcode ir = F_op f" "f \<in> {Rv_fmins, Rv_fmaxs}" "a = F rv (rs1 ir)" "b = F rv (rs2 ir)"
  shows "\<exists>rv'. dispatch env rv ir c p = Next rv' (c + 1) (p + 4) \<and>
    F rv' = (F rv)(rd ir := if fnan a \<and> fnan b then 0x7FC00000 else if fnan a then b
       else if fnan b then a else fp_pick f a b) \<and>
    csr_fcsr rv' = csr_fcsr rv OR (if fsnan a \<or> fsnan b then 16 else 0) \<and>
    X rv' = X rv \<and> mem_base rv' = mem_base rv"
proof (cases "fnan a \<or> fnan b")
  case True
  let ?rv = "if fsnan a \<or> fsnan b then rv\<lparr>csr_fcsr := csr_fcsr rv OR 16\<rparr> else rv"
  from True show ?thesis
    using assms compare_nan [of a b] compare_nan [of b a]
    by (auto simp: plain_defs nan_is f32_isSignalingNaN_def snan_test softfloat_raiseFlags_def lt_or_eq_sign_def)
next
  case False
  then have "\<not> fsnan a" "\<not> fsnan b" using nan_is(3) by auto
  moreover have le: "lt_or_eq_sign rv a b a b a = (rv, fval a < fval b \<or> (fval a = fval b \<and> bit a 31))"
    "lt_or_eq_sign rv b a a b b = (rv, fval b < fval a \<or> (fval a = fval b \<and> bit b 31))"
    using False compare_fnan [of a b rv] compare_fnan [of b a rv]
    by (auto simp: lt_or_eq_sign_def field_tests split: bool.split)
  ultimately have
    "do_fmins env rv ir c p = Next (set_F (rd ir) (fp_pick Rv_fmins a b) rv) c p"
    "do_fmaxs env rv ir c p = Next (set_F (rd ir) (fp_pick Rv_fmaxs a b) rv) c p" for c p
    using False unfolding do_fmins_def do_fmaxs_def Let_def assms(3,4) [symmetric]
    by (simp_all add: le nan_is f32_isSignalingNaN_def snan_test pick_min pick_max del: lt_or_eq_sign_def)
  with False \<open>\<not> fsnan a\<close> \<open>\<not> fsnan b\<close> assms(1,2) show ?thesis
    by (auto simp: dispatch_def RVOP_def simp del: fp_pick.simps)
qed

theorem fp_min_max_witness:
  "\<exists>rv'. dispatch env0 (rv0\<lparr>F := (\<lambda>r. 0)(1 := 0, 2 := 0x80000000)\<rparr>)
      (ir0\<lparr>opcode := F_op Rv_fmins, rd := 3, rs1 := 1, rs2 := 2\<rparr>) 0 0 = Next rv' 1 4 \<and>
    F rv' 3 = 0x80000000"
proof -
  have "\<not> fnan 0" "\<not> fnan 0x80000000" "\<not> fkey 0 \<le> fkey 0x80000000"
    by (simp_all add: fnan_def fexp_def ffrac_def mag_def fkey_def fval_def fmag_def)
  then show ?thesis
    using fp_min_max [of "ir0\<lparr>opcode := F_op Rv_fmins, rd := 3, rs1 := 1, rs2 := 2\<rparr>" Rv_fmins _
        "rv0\<lparr>F := (\<lambda>r. 0)(1 := 0, 2 := 0x80000000)\<rparr>" _ env0 0 0, OF _ _ refl refl]
    by auto
qed

section \<open>Classification\<close>

definition fclass_index :: "u32 \<Rightarrow> nat" where
  "fclass_index f =
    (if fexp f = 255 then
       (if ffrac f = 0 then (if bit f 31 then 0 else 7) else if ffrac f < 2 ^ 22 then 8 else 9)
     else if fexp f = 0 then
       (if ffrac f = 0 then (if bit f 31 then 3 else 4) else (if bit f 31 then 2 else 5))
     else (if bit f 31 then 1 else 6))"

text \<open>
  C15. \<^verbatim>\<open>fclass.s\<close> sets exactly the bit of the class of its operand: negative infinity, normal,
  subnormal and zero (0 to 3), positive zero, subnormal, normal and infinity (4 to 7),
  signalling and quiet NaN (8, 9).
\<close>

theorem fp_class:
  assumes "opcode ir = F_op Rv_fclasss"
  shows "dispatch env rv ir c p = Next
    (if rd ir = 0 then rv else set_X (rd ir) (2 ^ fclass_index (F rv (rs1 ir))) rv) (c + 1) (p + 4)"
proof -
  have "calc_fclass f = 2 ^ fclass_index f" for f
    unfolding calc_fclass_def Let_def fclass_index_def field_tests by simp
  then show ?thesis using assms by (simp add: plain_defs)
qed

theorem fp_class_witness:
  "dispatch env0 (rv0\<lparr>F := (\<lambda>r. 0x7F800001)\<rparr>) (ir0\<lparr>opcode := F_op Rv_fclasss, rd := 3\<rparr>) 0 0 =
    Next (set_X 3 0x100 (rv0\<lparr>F := (\<lambda>r. 0x7F800001)\<rparr>)) 1 4"
  by (subst fp_class) (simp_all add: fclass_index_def fexp_def ffrac_def mag_def)

end
