(* ===== verification/Defects.thy ===== *)
theory Defects
  imports Block_Props Sys_Correct Fp_Correct
begin

unbundle bit_operations_syntax

text \<open>
  Places where the code departs from the ISA or from its own comments, each shown on the model.
  They are the reason for the hypotheses of the properties of the other theories.
\<close>

section \<open>The zero register\<close>

text \<open>
  A load with destination x0 writes the zero register, and the assertion at the entry of
  \<^verbatim>\<open>optimize_constant\<close> then aborts the emulator on the next new block.
\<close>

lemma load_to_x0_aborts:
  "\<exists>lw rv'. rv_decode ir0 0x00802003 = Decoded lw True \<and>
    dispatch env0 (rv0\<lparr>mem_base := (\<lambda>a. 0)(8 := 1)\<rparr>) lw 0 0 = Next rv' 1 4 \<and> X rv' 0 = 1 \<and>
    (\<forall>irs. optimize_constant rv' irs = None)"
  by (auto simp: rv_decode_def rv_jump_table_def OP_def op_load_def format_defs field_defs
      plain_defs mem_defs memcpy_from_numerals optimize_constant_def)

section \<open>Constant propagation\<close>

text \<open>
  \<^verbatim>\<open>CONSTOPT(scw, {})\<close> keeps the destination of \<^verbatim>\<open>sc.w\<close> as a known constant although the
  instruction writes 0 to it: the copy to x7 becomes a load of the stale constant.
\<close>

lemma scw_constant_stale:
  "\<exists>irs rv1 rv2. optimize_constant rv0 [lui5, ir0\<lparr>opcode := A_op Rv_scw, rd := 5, pc := 4\<rparr>,
       ir0\<lparr>opcode := I_op Rv_addi, rd := 7, rs1 := 5, pc := 8\<rparr>] = Some irs \<and>
    exec env0 [lui5, ir0\<lparr>opcode := A_op Rv_scw, rd := 5, pc := 4\<rparr>,
       ir0\<lparr>opcode := I_op Rv_addi, rd := 7, rs1 := 5, pc := 8\<rparr>] rv0 0 0 = Ret True rv1 \<and>
    exec env0 irs rv0 0 0 = Ret True rv2 \<and> X rv1 7 = 0 \<and> X rv2 7 = 0x12345000"
  by (simp add: optimize_constant_def constopt_defs sample_defs plain_defs mem_defs end_op_def sync_def)

section \<open>Decoder\<close>

text \<open>
  \<^verbatim>\<open>csr_is_writable\<close> is given the sign-extended immediate: a write to a read-write CSR from 0x800
  on (here \<^verbatim>\<open>csrrw x1, 0x800, x2\<close>) is rejected as illegal.
\<close>

lemma csr_0x800_rejected: "\<exists>ir. rv_decode ir0 0x800110F3 = Decoded ir False"
  by (simp add: rv_decode_def rv_jump_table_def OP_def op_system_def op_system_opcode_def csr_is_writable_def
      format_defs field_defs word_less_nat_alt)

text \<open>
  \<^verbatim>\<open>C.EBREAK\<close> is decoded to the 32-bit \<^verbatim>\<open>ebreak\<close>: the default handler skips 4 bytes, not 2.
\<close>

lemma cebreak_skips_4:
  "\<exists>ir rv'. rv_decode ir0 0x9002 = Decoded ir True \<and> dispatch env0 rv0 ir 0 0 = Ret True rv' \<and> PC rv' = 4"
  by (simp add: rv_decode_def rvc_jump_table_def OP_def op_ccr_def format_defs field_defs plain_defs
      ebreak_handler_def SET_CAUSE_AND_TVAL_THEN_TRAP_def set_cause_and_tval_def trap_handler_def machine_mode
      trap_enter_m_def rv_trap_default_handler_def skip_insn_def)


section \<open>Translation\<close>

text \<open>
  An illegal instruction raises its trap when the block is translated, before the instructions
  in front of it have run: \<^verbatim>\<open>mepc\<close> is the start of the block, the PC is already that of the
  handler, and the block with the instructions in front is executed with it.
\<close>

lemma illegal_traps_early:
  "\<exists>rv' b. block_translate (rv0\<lparr>csr_mtvec := 0x800, mem_base := (\<lambda>a. 0)(4096 := 0xB7, 4097 := 0x52, 4098 := 0x34,
       4099 := 0x12, 4100 := 0xFF, 4101 := 0xFF, 4102 := 0xFF, 4103 := 0xFF), PC := 4096\<rparr>) = Some (rv', Some b) \<and>
    ir_list b = [lui5\<lparr>pc := 4096\<rparr>] \<and> X rv' 5 = 0 \<and> csr_mepc rv' = 4096 \<and> PC rv' = 0x800"
proof -
  let ?m = "(\<lambda>a. 0)(4096 := 0xB7, 4097 := 0x52, 4098 := 0x34, 4099 := 0x12, 4100 := 0xFF, 4101 := 0xFF,
    4102 := 0xFF, 4103 := 0xFF)"
  have f: "memory_ifetch ?m 4096 = 0x123452B7" "memory_ifetch ?m 4100 = 0xFFFFFFFF"
    by (simp_all add: memory_ifetch_def memcpy_from_numerals)
  have "\<exists>ir. rv_decode ir0 0xFFFFFFFF = Decoded ir False"
    by (simp add: rv_decode_def is_compressed_def rv_jump_table_def OP_def op_unimp_def)
  then have t: "translate_loop ?m 4096 4096 = ([lui5\<lparr>pc := 4096\<rparr>], 4100, Illegal 0xFFFFFFFF)"
    by (subst translate_loop.simps, simp add: f rv_blk_decode sample_defs insn_bytes_def is_compressed_def page_end_def)
      (subst translate_loop.simps, auto simp: f)
  show ?thesis
    using t by (simp add: block_translate_def SET_CAUSE_AND_TVAL_THEN_TRAP_def set_cause_and_tval_def
        trap_handler_def machine_mode trap_enter_m_def trap_vector_def Let_def)
qed

section \<open>Misaligned atomics\<close>

text \<open>
  The default handler emulates loads and stores only: a misaligned atomic is skipped, with
  neither its register nor its memory effect.
\<close>

lemma misaligned_amo_skipped:
  assumes "decoded_at (mem_base rv) ir" "pc ir = p" "priv_mode rv = 3" "csr_mtvec rv = 0" "\<not> allow_misalign rv"
    and "opcode ir = A_op a" "a \<noteq> Rv_scw" "X rv (rs1 ir) AND 3 \<noteq> 0"
  shows "\<exists>rv'. dispatch env rv ir c p = Ret False rv' \<and> X rv' = X rv \<and> mem_base rv' = mem_base rv \<and> PC rv' = p + 4"
proof -
  obtain ir' where d: "memory_ifetch (mem_base rv) p \<noteq> 0"
      "rv_decode ir0 (memory_ifetch (mem_base rv) p) = Decoded ir' True" "ir = ir'\<lparr>pc := p\<rparr>"
    using assms(1,2) by (auto simp: decoded_at_def)
  have "opcode ir' = A_op a" using d(3) assms(6) by simp
  then show ?thesis
    using assms(3-8) d(1,2)
    by (cases a) (auto simp: plain_defs SET_CAUSE_AND_TVAL_THEN_TRAP_def set_cause_and_tval_def trap_handler_def
        machine_mode trap_enter_m_def rv_trap_default_handler_def mem_ifetch_def emulate_misaligned_load_def
        skip_insn_def Let_def)
qed

definition rv_amo :: riscv where
  "rv_amo = rv0\<lparr>mem_base := (\<lambda>a. 0)(0 := 0xAF, 1 := 0xA1, 2 := 0x20), X := (\<lambda>r. 0)(1 := 6, 2 := 7)\<rparr>"

lemma misaligned_amo_at_one:
  "\<exists>ir rv'. rv_decode ir0 0x0020A1AF = Decoded ir True \<and> opcode ir = A_op Rv_amoaddw \<and>
    dispatch env0 rv_amo ir 0 0 = Ret False rv' \<and> X rv' = X rv_amo \<and> PC rv' = 4"
proof -
  let ?ir = "ir0\<lparr>opcode := A_op Rv_amoaddw, rd := 3, rs1 := 1, rs2 := 2\<rparr>"
  have f: "memory_ifetch (mem_base rv_amo) 0 = 0x0020A1AF"
    by (simp add: memory_ifetch_def memcpy_from_numerals rv_amo_def)
  have d: "rv_decode ir0 0x0020A1AF = Decoded ?ir True"
    by (simp add: rv_decode_def is_compressed_def rv_jump_table_def OP_def op_amo_def format_defs field_defs)
  have "decoded_at (mem_base rv_amo) ?ir" using f d by (simp add: decoded_at_def)
  from misaligned_amo_skipped [OF this, of 0 Rv_amoaddw env0 0] d show ?thesis
    by (auto simp: rv_amo_def)
qed

section \<open>Floating-point state\<close>

text \<open>There is no \<^verbatim>\<open>frm\<close> register, and a write of \<^verbatim>\<open>fflags\<close> replaces the rounding mode too.\<close>

lemma frm_missing: "csr_csrrw ht rv 2 v c = (rv, 0)"
  by (simp add: csr_csrrw_def csr_sync_cycle_def csr_get_ptr_def)

lemma fflags_write_clears_frm: "csr_csrrw ht rv 1 0 c = (rv\<lparr>csr_fcsr := 0\<rparr>, csr_fcsr rv AND 0x1F)"
  by (simp add: csr_csrrw_def csr_sync_cycle_def csr_get_ptr_def)

text \<open>\<^verbatim>\<open>fmin.s\<close> with a signalling NaN leaves SoftFloat's own flag set for the next operation to collect.\<close>

lemma fmin_leaves_flag:
  "\<exists>rv'. dispatch env0 (rv0\<lparr>F := (\<lambda>r. 0x7F800001)\<rparr>) (ir0\<lparr>opcode := F_op Rv_fmins\<rparr>) 0 0 = Next rv' 1 4 \<and>
    softfloat_exceptionFlags rv' = 16"
proof -
  have "fsnan 0x7F800001" "fnan 0x7F800001"
    by (simp_all add: fsnan_def fnan_def fexp_def ffrac_def mag_def)
  then show ?thesis
    using compare_nan [of "0x7F800001" "0x7F800001"]
    by (simp add: plain_defs nan_is f32_isSignalingNaN_def snan_test softfloat_raiseFlags_def)
qed

end
