(* ===== verification/Arith_Correct.thy ===== *)
theory Arith_Correct
  imports Sample
begin

unbundle bit_operations_syntax

text \<open>
  The integer arithmetic of the handlers against the ISA's definitions over the integers and
  over bits: multiplication and division (RV32M), rotations, carry-less products, counts and
  byte operations (Zbb, Zbc), single bits (Zbs) and the arithmetic shift of \<^verbatim>\<open>C.SRAI\<close>.
\<close>

section \<open>RV32M\<close>

text \<open>The results over the integers, from the signed and unsigned readings of the operands.\<close>

fun mul_spec :: "mul_op \<Rightarrow> u32 \<Rightarrow> u32 \<Rightarrow> int" where
  "mul_spec Rv_mul a b = sint a * sint b"
| "mul_spec Rv_mulh a b = (sint a * sint b) div 2 ^ 32"
| "mul_spec Rv_mulhsu a b = (sint a * uint b) div 2 ^ 32"
| "mul_spec Rv_mulhu a b = (uint a * uint b) div 2 ^ 32"
| "mul_spec Rv_div a b = (if b = 0 then - 1 else sint a sdiv sint b)"
| "mul_spec Rv_divu a b = (if b = 0 then 2 ^ 32 - 1 else uint a div uint b)"
| "mul_spec Rv_rem a b = (if b = 0 then sint a else sint a smod sint b)"
| "mul_spec Rv_remu a b = (if b = 0 then uint a else uint a mod uint b)"

lemma shr_word_of_int:
  "(ucast (shr (word_of_int k :: u64) 32) :: u32) = word_of_int (k div 2 ^ 32)"
proof -
  have "k div 2 ^ 32 = drop_bit 32 k" by (simp add: drop_bit_eq_div)
  then show ?thesis
    by (auto intro!: bit_word_eqI simp: bit_simps ac_simps)
qed

lemma mulh_values:
  fixes a b :: u32
  shows "(ucast (shr ((scast a :: u64) * scast b) 32) :: u32) = word_of_int ((sint a * sint b) div 2 ^ 32)"
    "(ucast (shr ((scast a :: u64) * ucast b) 32) :: u32) = word_of_int ((sint a * uint b) div 2 ^ 32)"
    "(ucast (shr ((ucast a :: u64) * ucast b) 32) :: u32) = word_of_int ((uint a * uint b) div 2 ^ 32)"
  by (simp_all only: shr_word_of_int [symmetric] of_int_mult of_int_sint of_int_uint)

lemma mul_value:
  "(ucast (((scast a :: u64) * scast b) AND 0xFFFFFFFF) :: u32) = word_of_int (sint a * sint b)"
  for a b :: u32
proof -
  have "(ucast (w AND 0xFFFFFFFF) :: u32) = ucast w" for w :: u64
    by (rule word32_eqI) (simp add: bit_simps)
  moreover have "(scast a :: u64) * scast b = word_of_int (sint a * sint b)"
    by (simp only: of_int_mult of_int_sint)
  moreover have "(ucast (word_of_int k :: u64) :: u32) = word_of_int k" for k
    by (rule bit_word_eqI) (simp add: bit_simps)
  ultimately show ?thesis by (simp only:)
qed

lemma div_values:
  fixes a b :: u32
  shows "(if b = 0 then NOT 0 else if b = - 1 \<and> a = 0x80000000 then a
      else word_of_int (sint a sdiv sint b)) = word_of_int (mul_spec Rv_div a b)"
    "(if b = 0 then NOT 0 else a div b) = word_of_int (mul_spec Rv_divu a b)"
    "(if b = 0 then a else if b = - 1 \<and> a = 0x80000000 then 0
      else word_of_int (sint a smod sint b)) = word_of_int (mul_spec Rv_rem a b)"
    "(if b = 0 then a else a mod b) = word_of_int (mul_spec Rv_remu a b)"
proof -
  have m: "sint (0x80000000 :: u32) = - 0x80000000" "sint (- 1 :: u32) = - 1" by simp_all
  have "(- 0x80000000 :: int) sdiv - 1 = 0x80000000" "(- 0x80000000 :: int) smod - 1 = 0"
    by (simp_all add: signed_divide_int_def signed_modulo_int_def)
  then show "(if b = 0 then NOT 0 else if b = - 1 \<and> a = 0x80000000 then a
      else word_of_int (sint a sdiv sint b)) = word_of_int (mul_spec Rv_div a b)"
    "(if b = 0 then a else if b = - 1 \<and> a = 0x80000000 then 0
      else word_of_int (sint a smod sint b)) = word_of_int (mul_spec Rv_rem a b)"
    using m by auto
  show "(if b = 0 then NOT 0 else a div b) = word_of_int (mul_spec Rv_divu a b)"
    "(if b = 0 then a else a mod b) = word_of_int (mul_spec Rv_remu a b)"
    by (simp_all add: word_div_def word_mod_def)
qed

text \<open>
  C7. RV32M computes what the ISA defines over the integers: the product modulo 2^32, the upper
  halves of the signed, mixed and unsigned 64-bit products, and quotient and remainder rounded
  towards zero with the special cases of division by zero (all ones, the dividend) and signed
  overflow (which wraps). Only \<^verbatim>\<open>rd\<close>, the cycle count and the PC change.
\<close>

theorem rv32m_correct:
  "opcode ir = M_op m \<Longrightarrow> dispatch env rv ir c p =
     Next (set_X (rd ir) (word_of_int (mul_spec m (X rv (rs1 ir)) (X rv (rs2 ir)))) rv) (c + 1) (p + 4)"
  by (cases m; simp only: plain_defs dispatch_op.simps do_mul_ext.simps outcome.case mul_value mulh_values
      div_values; simp only: mul_spec.simps)

theorem rv32m_correct_witness:
  "dispatch env0 (rv0\<lparr>X := (\<lambda>r. 0)(1 := 0x80000000, 2 := - 1)\<rparr>)
     (ir0\<lparr>opcode := M_op Rv_div, rd := 3, rs1 := 1, rs2 := 2\<rparr>) 0 0 =
   Next (rv0\<lparr>X := (\<lambda>r. 0)(1 := 0x80000000, 2 := - 1, 3 := 0x80000000)\<rparr>) 1 4"
  by (subst rv32m_correct [where m = Rv_div]) (simp_all add: signed_divide_int_def)

section \<open>Carry-less products\<close>

text \<open>The 64-bit carry-less product: the sum modulo 2 of the shifted multiplicands.\<close>

definition clmul64 :: "u32 \<Rightarrow> u32 \<Rightarrow> u64" where
  "clmul64 a b = fold (\<lambda>i acc. if bit b i then acc XOR shl (ucast a) i else acc) [0..<32] 0"

lemma shr_and_1: "(shr b i AND 1 \<noteq> 0) = bit b i" for b :: u32
  by (simp add: bit_iff_odd_drop_bit and_one_eq odd_iff_mod_2_eq_one)

lemma fold_xor_bit:
  "bit (fold (\<lambda>i acc. if P i then acc XOR g i else acc) is acc) n \<longleftrightarrow>
   (bit acc n \<noteq> odd (length (filter (\<lambda>i. P i \<and> bit (g i) n) is)))" for acc :: "'a::len word"
  by (induction "is" arbitrary: acc) (auto simp: bit_simps)

lemma clmul64_bit:
  assumes "m < 64"
  shows "bit (clmul64 a b) m \<longleftrightarrow> odd (length (filter (\<lambda>i. bit b i \<and> i \<le> m \<and> bit a (m - i)) [0..<32]))"
proof -
  have "bit (shl (ucast a :: u64) i) m = (i \<le> m \<and> bit a (m - i))" for i
    using assms bit_imp_le_length [of a "m - i"] by (auto simp: bit_simps)
  then show ?thesis
    unfolding clmul64_def fold_xor_bit by (simp del: upt_rec_numeral)
qed

lemma clmul_fold:
  assumes "m < 64" "k < 32" "\<And>i. i < 32 \<Longrightarrow> (k \<le> i \<and> bit (g i) n) = (i \<le> m \<and> bit a (m - i))"
  shows "bit (fold (\<lambda>i output. if shr b i AND 1 \<noteq> 0 then output XOR g i else output) [k..<32] (0 :: u32)) n =
    bit (clmul64 a b) m"
proof -
  have "[0..<32] = [0..<k] @ [k..<32]"
    using upt_add_eq_append [of 0 k "32 - k"] assms(2) by (simp del: upt_rec_numeral)
  then have "filter (\<lambda>i. k \<le> i) [0..<32] = [k..<32]"
    by (simp del: upt_rec_numeral add: filter_empty_conv filter_id_conv)
  then have "filter (\<lambda>i. bit b i \<and> bit (g i) n) [k..<32] =
      filter (\<lambda>i. bit b i \<and> bit (g i) n) (filter (\<lambda>i. k \<le> i) [0..<32])" by (simp only:)
  also have "\<dots> = filter (\<lambda>i. bit b i \<and> (i \<le> m \<and> bit a (m - i))) [0..<32]"
    unfolding filter_filter by (rule filter_cong) (use assms(3) in auto)
  finally show ?thesis
    unfolding clmul64_bit [OF assms(1)] shr_and_1 fold_xor_bit by (simp del: upt_rec_numeral)
qed

lemma clmul_values:
  fixes a b :: u32
  shows "fold (\<lambda>i output. if shr b i AND 1 \<noteq> 0 then output XOR shl a i else output) [0..<32] 0 =
      (ucast (clmul64 a b) :: u32)" (is "?l = _")
    "fold (\<lambda>i output. if shr b i AND 1 \<noteq> 0 then output XOR shr a (32 - i) else output) [1..<32] 0 =
      (ucast (shr (clmul64 a b) 32) :: u32)" (is "?h = _")
    "fold (\<lambda>i output. if shr b i AND 1 \<noteq> 0 then output XOR shr a (32 - i - 1) else output) [0..<32] 0 =
      (ucast (shr (clmul64 a b) 31) :: u32)" (is "?r = _")
proof -
  have a: "\<not> bit a k" if "32 \<le> k" for k using that bit_beyond(3) by blast
  have "bit ?l n = bit (clmul64 a b) n" if "n < 32" for n
    by (rule clmul_fold) (use that in \<open>auto simp: bit_simps\<close>)
  then show "?l = ucast (clmul64 a b)"
    by (auto intro!: bit_word_eqI simp: bit_simps simp del: upt_rec_numeral)
  have "bit ?h n = bit (clmul64 a b) (32 + n)" if "n < 32" for n
    by (rule clmul_fold) (use that a in \<open>auto simp: bit_simps Suc_le_eq intro: gr0I\<close>)
  then show "?h = ucast (shr (clmul64 a b) 32)"
    by (auto intro!: bit_word_eqI simp: bit_simps simp del: upt_rec_numeral)
  have "bit ?r n = bit (clmul64 a b) (31 + n)" if "n < 32" for n
    by (rule clmul_fold) (use that a in \<open>auto simp: bit_simps\<close>)
  then show "?r = ucast (shr (clmul64 a b) 31)"
    by (auto intro!: bit_word_eqI simp: bit_simps simp del: upt_rec_numeral)
qed

section \<open>Zbb, Zbc, Zbs\<close>

lemma rotate_values:
  fixes x :: u32
  assumes "n < 32"
  shows "shl x n OR shr x (32 - n) = word_rotl n x" "shr x n OR shl x (32 - n) = word_rotr n x"
proof -
  have m: "(k + 32 - n) mod 32 = (if n \<le> k then k - n else 32 + k - n)" if "k < 32" for k
    using assms that by (auto simp: mod_if)
  have "\<not> bit x (32 + k - n)" if "n \<le> k" for k using that by (intro bit_beyond(3)) simp
  then show "shl x n OR shr x (32 - n) = word_rotl n x"
    using assms m by (auto intro!: bit_word_eqI simp: bit_simps split: if_splits)
  have m': "(k + n) mod 32 = (if k + n < 32 then k + n else k + n - 32)" if "k < 32" for k
    using assms that by (auto simp: mod_if)
  have "\<not> bit x (n + k)" if "\<not> k + n < 32" for k using that by (intro bit_beyond(3)) simp
  then show "shr x n OR shl x (32 - n) = word_rotr n x"
    using assms m' by (auto intro!: bit_word_eqI simp: bit_simps ac_simps split: if_splits)
qed

lemma split_upt_32: "k < 32 \<Longrightarrow> [0..<32] = [0..<k] @ k # [Suc k..<32]"
  using upt_add_eq_append [of 0 k "32 - k"] by (simp del: upt_rec_numeral add: upt_conv_Cons)

lemma bits_of_word:
  fixes a :: u32
  assumes "a \<noteq> 0"
  shows "finite {i. bit a i}" "Min {i. bit a i} < 32" "Max {i. bit a i} < 32"
    "bit a (Min {i. bit a i})" "bit a (Max {i. bit a i})"
proof -
  have sub: "{i. bit a i} \<subseteq> {..<32}" using bit_beyond(3) [of _ a] by (auto simp: not_le [symmetric])
  then show fin: "finite {i. bit a i}" using finite_subset by blast
  have ne: "{i. bit a i} \<noteq> {}" using assms by (auto simp: bit_eq_iff)
  have "Min {i. bit a i} \<in> {i. bit a i}" "Max {i. bit a i} \<in> {i. bit a i}"
    using Min_in [OF fin ne] Max_in [OF fin ne] by simp_all
  with sub show "Min {i. bit a i} < 32" "Max {i. bit a i} < 32"
    "bit a (Min {i. bit a i})" "bit a (Max {i. bit a i})" by auto
qed

lemma takeWhile_stop: "\<forall>x \<in> set xs. P x \<Longrightarrow> \<not> P y \<Longrightarrow> takeWhile P (xs @ y # ys) = xs"
  by (induction xs) simp_all

lemma count_values:
  fixes a :: u32
  shows "a \<noteq> 0 \<Longrightarrow> rv_ctz a = of_nat (Min {i. bit a i})"
    "a \<noteq> 0 \<Longrightarrow> rv_clz a = of_nat (31 - Max {i. bit a i})"
    "rv_popcount a = of_nat (card {i. bit a i})"
proof -
  assume a: "a \<noteq> 0"
  note b = bits_of_word [OF a]
  define m M where "m = Min {i. bit a i}" and "M = Max {i. bit a i}"
  have m: "m < 32" "bit a m" "\<forall>i < m. \<not> bit a i"
    using b Min_le [OF b(1)] by (auto simp: m_def not_le [symmetric])
  have M: "M < 32" "bit a M" "\<forall>i > M. \<not> bit a i"
    using b Max_ge [OF b(1)] by (auto simp: M_def not_le [symmetric])
  have "takeWhile (\<lambda>i. \<not> bit a i) ([0..<m] @ m # [Suc m..<32]) = [0..<m]"
    by (rule takeWhile_stop) (use m in auto)
  then show "rv_ctz a = of_nat (Min {i. bit a i})"
    unfolding rv_ctz_def split_upt_32 [OF m(1)] m_def [symmetric]
    by (simp only: length_upt minus_nat.diff_0)
  have "takeWhile (\<lambda>i. \<not> bit a i) (rev [Suc M..<32] @ M # rev [0..<M]) = rev [Suc M..<32]"
    by (rule takeWhile_stop) (use M in \<open>auto simp: Suc_le_eq\<close>)
  moreover have "rev [0..<32] = rev [Suc M..<32] @ M # rev [0..<M]"
    unfolding split_upt_32 [OF M(1)] by (simp only: rev_append rev.simps append_assoc append_Cons append_Nil)
  ultimately show "rv_clz a = of_nat (31 - Max {i. bit a i})"
    unfolding rv_clz_def M_def [symmetric] by (simp only: length_rev length_upt) simp
next
  have "{i. bit a i} = set (filter (\<lambda>i. bit a i) [0..<32])"
    using bit_beyond(3) [of _ a] by (auto simp: not_le [symmetric])
  then show "rv_popcount a = of_nat (card {i. bit a i})"
    unfolding rv_popcount_def by (simp add: distinct_card [symmetric] del: upt_rec_numeral)
qed

text \<open>
  The ISA's definitions, with the second operand \<open>b\<close> the value of \<^verbatim>\<open>rs2\<close> or the immediate.
\<close>

fun bit_imm :: "bit_op \<Rightarrow> bool" where
  "bit_imm Rv_rori = True" | "bit_imm Rv_bclri = True" | "bit_imm Rv_bexti = True"
| "bit_imm Rv_binvi = True" | "bit_imm Rv_bseti = True" | "bit_imm _ = False"

fun bit_spec :: "bit_op \<Rightarrow> u32 \<Rightarrow> u32 \<Rightarrow> u32" where
  "bit_spec Rv_sh1add a b = 2 * a + b"
| "bit_spec Rv_sh2add a b = 4 * a + b"
| "bit_spec Rv_sh3add a b = 8 * a + b"
| "bit_spec Rv_andn a b = a AND NOT b"
| "bit_spec Rv_orn a b = a OR NOT b"
| "bit_spec Rv_xnor a b = NOT (a XOR b)"
| "bit_spec Rv_clz a b = of_nat (if a = 0 then 32 else 31 - Max {i. bit a i})"
| "bit_spec Rv_ctz a b = of_nat (if a = 0 then 32 else Min {i. bit a i})"
| "bit_spec Rv_cpop a b = of_nat (card {i. bit a i})"
| "bit_spec Rv_max a b = word_of_int (max (sint a) (sint b))"
| "bit_spec Rv_maxu a b = max a b"
| "bit_spec Rv_min a b = word_of_int (min (sint a) (sint b))"
| "bit_spec Rv_minu a b = min a b"
| "bit_spec Rv_sextb a b = scast (ucast a :: u8)"
| "bit_spec Rv_sexth a b = scast (ucast a :: u16)"
| "bit_spec Rv_zexth a b = ucast (ucast a :: u16)"
| "bit_spec Rv_rol a b = word_rotl (unat b mod 32) a"
| "bit_spec Rv_ror a b = word_rotr (unat b mod 32) a"
| "bit_spec Rv_rori a b = word_rotr (unat b mod 32) a"
| "bit_spec Rv_orcb a b = of_le (map (\<lambda>x. if x = 0 then 0 else 0xFF) (to_le 4 a))"
| "bit_spec Rv_rev8 a b = of_le (rev (to_le 4 a))"
| "bit_spec Rv_clmul a b = ucast (clmul64 a b)"
| "bit_spec Rv_clmulh a b = ucast (shr (clmul64 a b) 32)"
| "bit_spec Rv_clmulr a b = ucast (shr (clmul64 a b) 31)"
| "bit_spec Rv_bclr a b = unset_bit (unat b mod 32) a"
| "bit_spec Rv_bclri a b = unset_bit (unat b mod 32) a"
| "bit_spec Rv_bext a b = of_bool (bit a (unat b mod 32))"
| "bit_spec Rv_bexti a b = of_bool (bit a (unat b mod 32))"
| "bit_spec Rv_binv a b = flip_bit (unat b mod 32) a"
| "bit_spec Rv_binvi a b = flip_bit (unat b mod 32) a"
| "bit_spec Rv_bset a b = set_bit (unat b mod 32) a"
| "bit_spec Rv_bseti a b = set_bit (unat b mod 32) a"

lemma unat_and_31: "unat (b AND 31) = unat b mod 32" "unat (b AND 0x1F) = unat b mod 32" for b :: u32
proof -
  have "b AND 31 = take_bit 5 b" by (rule word32_eqI) (simp add: bit_simps)
  then show "unat (b AND 31) = unat b mod 32" by (simp add: take_bit_eq_mod unat_mod)
  then show "unat (b AND 0x1F) = unat b mod 32" by simp
qed

lemma byte_zero:
  fixes x :: u32
  shows "(ucast x :: u8) = 0 \<longleftrightarrow> x AND 0xFF = 0" "(ucast (shr x 8) :: u8) = 0 \<longleftrightarrow> x AND 0xFF00 = 0"
    "(ucast (shr x 16) :: u8) = 0 \<longleftrightarrow> x AND 0xFF0000 = 0" "(ucast (shr x 24) :: u8) = 0 \<longleftrightarrow> x AND 0xFF000000 = 0"
proof -
  have "x AND 0xFF = ucast (ucast x :: u8)" "x AND 0xFF00 = shl (ucast (ucast (shr x 8) :: u8)) 8"
    "x AND 0xFF0000 = shl (ucast (ucast (shr x 16) :: u8)) 16"
    "x AND 0xFF000000 = shl (ucast (ucast (shr x 24) :: u8)) 24"
    by (rule word32_eqI, simp add: bit_simps)+
  moreover have "(ucast x :: u8) = ucast (x AND 0xFF)" "(ucast (shr x 8) :: u8) = ucast (shr (x AND 0xFF00) 8)"
    "(ucast (shr x 16) :: u8) = ucast (shr (x AND 0xFF0000) 16)"
    "(ucast (shr x 24) :: u8) = ucast (shr (x AND 0xFF000000) 24)"
    by (rule word8_eqI, simp add: bit_simps)+
  ultimately show "(ucast x :: u8) = 0 \<longleftrightarrow> x AND 0xFF = 0" "(ucast (shr x 8) :: u8) = 0 \<longleftrightarrow> x AND 0xFF00 = 0"
    "(ucast (shr x 16) :: u8) = 0 \<longleftrightarrow> x AND 0xFF0000 = 0" "(ucast (shr x 24) :: u8) = 0 \<longleftrightarrow> x AND 0xFF000000 = 0"
    by (metis drop_bit_of_0 push_bit_of_0 unsigned_0)+
qed

lemma orcb_value:
  "fold (\<lambda>i v. if x AND shl 0xFF (i * 8) \<noteq> 0 then v OR shl 0xFF (i * 8) else v) [0,1,2,3] (0 :: u32) =
   of_le (map (\<lambda>x. if x = 0 then 0 else 0xFF) (to_le 4 x))" for x :: u32
  by (simp add: to_le_numerals byte_zero(2-4) byte_zero(1) [of x])

lemma rev8_value:
  "shl (x AND 0xFF) 24 OR shl (x AND 0xFF00) 8 OR shr (x AND 0xFF0000) 8 OR shr (x AND 0xFF000000) 24 =
   of_le (rev (to_le 4 x))" for x :: u32
  by (simp add: to_le_numerals) (rule word32_eqI, simp add: bit_simps)

lemma sext_values:
  fixes x :: u32
  shows "(if x AND 0x80 \<noteq> 0 then x AND 0xFF OR 0xFFFFFF00 else x AND 0xFF) = scast (ucast x :: u8)"
    "(if x AND 0x8000 \<noteq> 0 then x AND 0xFFFF OR 0xFFFF0000 else x AND 0xFFFF) = scast (ucast x :: u16)"
    "x AND 0xFFFF = ucast (ucast x :: u16)"
proof -
  have "(x AND 0x80 \<noteq> 0) = bit x 7" "(x AND 0x8000 \<noteq> 0) = bit x 15"
    using and_exp_eq_0 [of x 7] and_exp_eq_0 [of x 15] by simp_all
  then show "(if x AND 0x80 \<noteq> 0 then x AND 0xFF OR 0xFFFFFF00 else x AND 0xFF) = scast (ucast x :: u8)"
    "(if x AND 0x8000 \<noteq> 0 then x AND 0xFFFF OR 0xFFFF0000 else x AND 0xFFFF) = scast (ucast x :: u16)"
    "x AND 0xFFFF = ucast (ucast x :: u16)"
    by (simp_all, auto intro!: word32_eqI simp: bit_simps)
qed

lemma sext_rd:
  "do_sextb env rv ir c p = Next (set_X (rd ir) (scast (ucast (X rv (rs1 ir)) :: u8)) rv) c p"
  "do_sexth env rv ir c p = Next (set_X (rd ir) (scast (ucast (X rv (rs1 ir)) :: u16)) rv) c p"
  unfolding sext_values [symmetric] by (simp_all add: do_defs Let_def and.assoc)

lemma minmax_values:
  fixes a b :: u32
  shows "(if sint a > sint b then a else b) = word_of_int (max (sint a) (sint b))"
    "(if sint a < sint b then a else b) = word_of_int (min (sint a) (sint b))"
    "(if a > b then a else b) = max a b" "(if a < b then a else b) = min a b"
  by (auto simp: max_def min_def)

lemma single_bit_values:
  fixes a :: u32
  shows "a AND NOT (shl 1 k) = unset_bit k a" "shr a k AND 1 = of_bool (bit a k)"
    "a XOR shl 1 k = flip_bit k a" "a OR shl 1 k = set_bit k a"
  by (simp_all add: unset_bit_eq_and_not flip_bit_eq_xor set_bit_eq_or and_one_eq bit_iff_odd_drop_bit
      odd_iff_mod_2_eq_one of_bool_odd_eq_mod_2)

lemma rotate_mod:
  fixes x b :: u32
  shows "shl x (unat b mod 32) OR shr x (32 - unat b mod 32) = word_rotl (unat b mod 32) x"
    "shr x (unat b mod 32) OR shl x (32 - unat b mod 32) = word_rotr (unat b mod 32) x"
  by (rule rotate_values; simp)+

lemma count_cases:
  fixes a :: u32
  shows "(if a \<noteq> 0 then rv_clz a else 32) = of_nat (if a = 0 then 32 else 31 - Max {i. bit a i})"
    "(if a \<noteq> 0 then rv_ctz a else 32) = of_nat (if a = 0 then 32 else Min {i. bit a i})"
  using count_values(1,2) [of a] by auto

lemma shifted_adds:
  fixes a b :: u32
  shows "shl a 1 + b = 2 * a + b" "shl a 2 + b = 4 * a + b" "shl a 3 + b = 8 * a + b"
  by (simp_all add: push_bit_eq_mult)

lemma orcb_rd: "do_orcb env rv ir c p = Next (set_X (rd ir)
      (of_le (map (\<lambda>x. if x = 0 then 0 else 0xFF) (to_le 4 (X rv (rs1 ir))))) rv) c p"
  unfolding do_orcb_def Let_def fold_if_or_set_X orcb_value [symmetric] by simp

lemma clmul_rd:
  "do_clmul env rv ir c p = Next (set_X (rd ir) (ucast (clmul64 (X rv (rs1 ir)) (X rv (rs2 ir)))) rv) c p"
  "do_clmulh env rv ir c p =
     Next (set_X (rd ir) (ucast (shr (clmul64 (X rv (rs1 ir)) (X rv (rs2 ir))) 32)) rv) c p"
  "do_clmulr env rv ir c p =
     Next (set_X (rd ir) (ucast (shr (clmul64 (X rv (rs1 ir)) (X rv (rs2 ir))) 31)) rv) c p"
  unfolding do_clmul_def do_clmulh_def do_clmulr_def clmul_values by (rule refl)+

lemmas bit_values = sext_rd orcb_rd clmul_rd rev8_value minmax_values single_bit_values unat_and_31
  rotate_mod count_cases count_values(3) shifted_adds sext_values(3)

lemma do_bit_spec:
  "do_bit z env rv ir c p =
   Next (set_X (rd ir) (bit_spec z (X rv (rs1 ir)) (if bit_imm z then imm ir else X rv (rs2 ir))) rv) c p"
  apply (cases z)
                      apply (simp_all only: do_bit.simps bit_imm.simps if_False if_True bit_spec.simps
      do_sh1add_def do_sh2add_def do_sh3add_def do_andn_def do_orn_def do_xnor_def do_clz_def do_ctz_def
      do_cpop_def do_max_def do_maxu_def do_min_def do_minu_def do_zexth_def do_rol_def do_ror_def do_rori_def
      do_rev8_def do_bclr_def do_bclri_def do_bext_def do_bexti_def
      do_binv_def do_binvi_def do_bset_def do_bseti_def Let_def bit_values)
  done

text \<open>
  C11. Zba, Zbb, Zbc and Zbs compute what the ISA defines: shifted adds, logic with complement,
  leading and trailing zeros and population count of the set of one-bits, signed and unsigned
  minimum and maximum, extensions, rotations by the amount modulo 32, the byte-wise or and
  byte reversal, the low, high and reversed part of the 64-bit carry-less product, and single
  bits at an index modulo 32. Only \<^verbatim>\<open>rd\<close>, the cycle count and the PC change.
\<close>

theorem zb_correct:
  "opcode ir = B_op z \<Longrightarrow> dispatch env rv ir c p =
     Next (set_X (rd ir) (bit_spec z (X rv (rs1 ir)) (if bit_imm z then imm ir else X rv (rs2 ir))) rv)
       (c + 1) (p + 4)"
  by (simp add: dispatch_def RVOP_def do_bit_spec)


theorem zb_correct_witness:
  "dispatch env0 (rv0\<lparr>X := (\<lambda>r. 0)(1 := 0x11223344)\<rparr>)
     (ir0\<lparr>opcode := B_op Rv_rev8, rd := 3, rs1 := 1\<rparr>) 0 0 =
   Next (rv0\<lparr>X := (\<lambda>r. 0)(1 := 0x11223344, 3 := 0x44332211)\<rparr>) 1 4"
  by (subst zb_correct [where z = Rv_rev8]) (simp_all add: to_le_numerals)

section \<open>C.SRAI\<close>

text \<open>The loop that fills in the sign, one shifted copy of it per position.\<close>

lemma fold_or_bit:
  "bit (fold (\<lambda>i v. v OR g i) is v) n \<longleftrightarrow> bit v n \<or> (\<exists>i \<in> set is. bit (g i) n)" for v :: "'a::len word"
  by (induction "is" arbitrary: v) (auto simp: bit_simps)

lemma csrai_value:
  fixes x :: u32
  assumes "k \<le> 32"
  shows "fold (\<lambda>i v. v OR shr (0x80000000 AND x) i) [0..<k] (shr x k) = sar x k"
proof (rule bit_word_eqI)
  fix n assume n: "n < LENGTH(32)"
  have s: "bit (shr (0x80000000 AND x) i) n \<longleftrightarrow> i + n = 31 \<and> bit x 31" for i
  proof -
    have "(0x80000000 :: u32) = 2 ^ 31" by simp
    then have b: "bit (0x80000000 :: u32) j \<longleftrightarrow> j = 31" for j
      by (simp only: bit_exp_iff) auto
    show ?thesis unfolding bit_drop_bit_eq comp_apply bit_and_iff b by auto
  qed
  show "bit (fold (\<lambda>i v. v OR shr (0x80000000 AND x) i) [0..<k] (shr x k)) n = bit (sar x k) n"
  proof (cases "32 - k \<le> n")
    case True
    then have "\<exists>i \<in> set [0..<k]. i + n = 31"
      using n assms by (intro bexI [of _ "31 - n"]) auto
    with True n assms bit_beyond(3) [of "k + n" x] show ?thesis
      unfolding fold_or_bit s unfolding bit_signed_drop_bit_iff bit_drop_bit_eq comp_apply by (simp del: upt_rec_numeral)
  next
    case False
    then have "\<not> (\<exists>i \<in> set [0..<k]. i + n = 31)" by auto
    with False show ?thesis
      unfolding fold_or_bit s unfolding bit_signed_drop_bit_iff bit_drop_bit_eq comp_apply by (simp del: upt_rec_numeral)
  qed
qed

text \<open>
  The loop of \<^verbatim>\<open>C.SRAI\<close> is the arithmetic right shift: the register is divided by
  \<open>2 ^ shamt\<close> and rounded down, for every shift amount the encoding can hold.
\<close>

lemma csrai_correct:
  assumes "opcode ir = C_op Rv_csrai" "shamt ir \<le> 32"
  shows "\<exists>rv'. dispatch env rv ir c p = Next rv' (c + 1) (p + 2) \<and>
    rv' = set_X (rs1 ir) (X rv' (rs1 ir)) rv \<and>
    sint (X rv' (rs1 ir)) = sint (X rv (rs1 ir)) div 2 ^ unat (shamt ir)"
proof -
  let ?v = "sar (X rv (rs1 ir)) (unat (shamt ir))"
  have "unat (shamt ir) \<le> 32" using assms(2) by (simp add: word_le_nat_alt)
  then have "dispatch env rv ir c p = Next (set_X (rs1 ir) ?v rv) (c + 1) (p + 2)"
    using assms(1) csrai_value [of "unat (shamt ir)" "X rv (rs1 ir)"]
    by (simp add: dispatch_def RVOP_def do_csrai_def Let_def fold_or_set_X)
  then show ?thesis
    by (intro exI [of _ "set_X (rs1 ir) ?v rv"]) (simp add: sint_signed_drop_bit_eq drop_bit_eq_div)
qed


end
