(* ===== verification/Encode.thy ===== *)
theory Encode
  imports Sample
begin

unbundle bit_operations_syntax

text \<open>
  An assembler for the 32-bit formats of the ISA manual (R, I, S, B, U, J), as a
  specification of the decoder: \<^verbatim>\<open>rv_decode\<close> recovers from an encoded instruction its opcode, its
  registers and its sign-extended immediate.
\<close>

section \<open>Formats\<close>

type_synonym reg = "5 word"

definition enc_r :: "7 word \<Rightarrow> reg \<Rightarrow> reg \<Rightarrow> 3 word \<Rightarrow> reg \<Rightarrow> 7 word \<Rightarrow> u32" where
  "enc_r f7 r2 r1 f3 r opc = shl (ucast f7) 25 OR shl (ucast r2) 20 OR shl (ucast r1) 15 OR
     shl (ucast f3) 12 OR shl (ucast r) 7 OR ucast opc"

definition enc_i :: "12 word \<Rightarrow> reg \<Rightarrow> 3 word \<Rightarrow> reg \<Rightarrow> 7 word \<Rightarrow> u32" where
  "enc_i i r1 f3 r opc = enc_r (ucast (shr i 5)) (ucast i) r1 f3 r opc"

definition enc_s :: "12 word \<Rightarrow> reg \<Rightarrow> reg \<Rightarrow> 3 word \<Rightarrow> 7 word \<Rightarrow> u32" where
  "enc_s i r2 r1 f3 opc = enc_r (ucast (shr i 5)) r2 r1 f3 (ucast i) opc"

text \<open>A branch or jump offset is even; its bit 0 is not encoded.\<close>

definition enc_b :: "13 word \<Rightarrow> reg \<Rightarrow> reg \<Rightarrow> 3 word \<Rightarrow> 7 word \<Rightarrow> u32" where
  "enc_b i r2 r1 f3 opc = shl (of_bool (bit i 12)) 31 OR shl (ucast (shr i 5) AND 0x3F) 25 OR
     shl (ucast r2) 20 OR shl (ucast r1) 15 OR shl (ucast f3) 12 OR
     shl (ucast (shr i 1) AND 0xF) 8 OR shl (of_bool (bit i 11)) 7 OR ucast opc"

definition enc_u :: "20 word \<Rightarrow> reg \<Rightarrow> 7 word \<Rightarrow> u32" where
  "enc_u i r opc = shl (ucast i) 12 OR shl (ucast r) 7 OR ucast opc"

definition enc_j :: "21 word \<Rightarrow> reg \<Rightarrow> 7 word \<Rightarrow> u32" where
  "enc_j i r opc = shl (of_bool (bit i 20)) 31 OR shl (ucast (shr i 1) AND 0x3FF) 21 OR
     shl (of_bool (bit i 11)) 20 OR shl (ucast (shr i 12) AND 0xFF) 12 OR shl (ucast r) 7 OR ucast opc"

lemma bit_beyond_fields:
  "3 \<le> n \<Longrightarrow> \<not> bit (f3 :: 3 word) n" "5 \<le> n \<Longrightarrow> \<not> bit (r :: 5 word) n" "7 \<le> n \<Longrightarrow> \<not> bit (f7 :: 7 word) n"
  "12 \<le> n \<Longrightarrow> \<not> bit (i12 :: 12 word) n" "13 \<le> n \<Longrightarrow> \<not> bit (i13 :: 13 word) n"
  "20 \<le> n \<Longrightarrow> \<not> bit (i20 :: 20 word) n" "21 \<le> n \<Longrightarrow> \<not> bit (i21 :: 21 word) n"
  by (auto dest: bit_imp_le_length)

lemmas enc_bits = field_bits bit_beyond_fields

lemma enc_r_fields:
  "decode_rd (enc_r f7 r2 r1 f3 r opc) = ucast r" "decode_rs1 (enc_r f7 r2 r1 f3 r opc) = ucast r1"
  "decode_rs2 (enc_r f7 r2 r1 f3 r opc) = ucast r2" "decode_funct3 (enc_r f7 r2 r1 f3 r opc) = ucast f3"
  "decode_funct7 (enc_r f7 r2 r1 f3 r opc) = ucast f7"
  "enc_r f7 r2 r1 f3 r opc AND 3 = ucast opc AND 3"
  "shr (enc_r f7 r2 r1 f3 r opc AND 0x7C) 2 = shr (ucast opc) 2"
  by (rule word32_eqI, simp add: enc_r_def enc_bits)+

lemma enc_i_fields:
  "decode_rd (enc_i i r1 f3 r opc) = ucast r" "decode_rs1 (enc_i i r1 f3 r opc) = ucast r1"
  "decode_funct3 (enc_i i r1 f3 r opc) = ucast f3"
  "enc_i i r1 f3 r opc AND 3 = ucast opc AND 3" "shr (enc_i i r1 f3 r opc AND 0x7C) 2 = shr (ucast opc) 2"
  by (simp_all only: enc_i_def enc_r_fields)

lemma enc_s_fields:
  "decode_rs2 (enc_s i r2 r1 f3 opc) = ucast r2" "decode_rs1 (enc_s i r2 r1 f3 opc) = ucast r1"
  "decode_funct3 (enc_s i r2 r1 f3 opc) = ucast f3"
  "enc_s i r2 r1 f3 opc AND 3 = ucast opc AND 3" "shr (enc_s i r2 r1 f3 opc AND 0x7C) 2 = shr (ucast opc) 2"
  by (simp_all only: enc_s_def enc_r_fields)

lemma enc_i_imm: "decode_itype_imm (enc_i i r1 f3 r opc) = scast i"
  by (rule word32_eqI) (simp add: enc_i_def enc_r_def enc_bits)

lemma enc_s_imm: "decode_stype_imm (enc_s i r2 r1 f3 opc) = scast i"
  by (rule word32_eqI) (simp add: enc_s_def enc_r_def enc_bits)

lemma enc_b_fields:
  "decode_rs1 (enc_b i r2 r1 f3 opc) = ucast r1" "decode_rs2 (enc_b i r2 r1 f3 opc) = ucast r2"
  "decode_funct3 (enc_b i r2 r1 f3 opc) = ucast f3"
  "enc_b i r2 r1 f3 opc AND 3 = ucast opc AND 3" "shr (enc_b i r2 r1 f3 opc AND 0x7C) 2 = shr (ucast opc) 2"
  by (rule word32_eqI, simp add: enc_b_def enc_bits)+

lemma enc_b_imm: "\<not> bit i 0 \<Longrightarrow> decode_btype_imm (enc_b i r2 r1 f3 opc) = scast i"
  by (rule word32_eqI) (simp add: enc_b_def enc_bits, simp add: numeral_2_eq_2)

lemma enc_u_fields:
  "decode_rd (enc_u i r opc) = ucast r" "decode_utype_imm (enc_u i r opc) = shl (ucast i) 12"
  "enc_u i r opc AND 3 = ucast opc AND 3" "shr (enc_u i r opc AND 0x7C) 2 = shr (ucast opc) 2"
  by (rule word32_eqI, simp add: enc_u_def enc_bits)+

lemma enc_j_fields:
  "decode_rd (enc_j i r opc) = ucast r"
  "enc_j i r opc AND 3 = ucast opc AND 3" "shr (enc_j i r opc AND 0x7C) 2 = shr (ucast opc) 2"
  by (rule word32_eqI, simp add: enc_j_def enc_bits)+

lemma enc_j_imm: "\<not> bit i 0 \<Longrightarrow> decode_jtype_imm (enc_j i r opc) = scast i"
  by (rule word32_eqI) (simp add: enc_j_def enc_bits, simp add: numeral_2_eq_2)

section \<open>Instructions\<close>

text \<open>The codes of the ISA manual: \<^verbatim>\<open>funct7\<close> and \<^verbatim>\<open>funct3\<close> of major opcode OP, \<^verbatim>\<open>funct3\<close> of the others.\<close>

fun r_code :: "opcode \<Rightarrow> (7 word \<times> 3 word) option" where
  "r_code (I_op Rv_add) = Some (0, 0)"
| "r_code (I_op Rv_sub) = Some (0x20, 0)"
| "r_code (I_op Rv_sll) = Some (0, 1)"
| "r_code (I_op Rv_slt) = Some (0, 2)"
| "r_code (I_op Rv_sltu) = Some (0, 3)"
| "r_code (I_op Rv_xor) = Some (0, 4)"
| "r_code (I_op Rv_srl) = Some (0, 5)"
| "r_code (I_op Rv_sra) = Some (0x20, 5)"
| "r_code (I_op Rv_or) = Some (0, 6)"
| "r_code (I_op Rv_and) = Some (0, 7)"
| "r_code (M_op Rv_mul) = Some (1, 0)"
| "r_code (M_op Rv_mulh) = Some (1, 1)"
| "r_code (M_op Rv_mulhsu) = Some (1, 2)"
| "r_code (M_op Rv_mulhu) = Some (1, 3)"
| "r_code (M_op Rv_div) = Some (1, 4)"
| "r_code (M_op Rv_divu) = Some (1, 5)"
| "r_code (M_op Rv_rem) = Some (1, 6)"
| "r_code (M_op Rv_remu) = Some (1, 7)"
| "r_code (B_op Rv_sh1add) = Some (0x10, 2)"
| "r_code (B_op Rv_sh2add) = Some (0x10, 4)"
| "r_code (B_op Rv_sh3add) = Some (0x10, 6)"
| "r_code (B_op Rv_andn) = Some (0x20, 7)"
| "r_code (B_op Rv_orn) = Some (0x20, 6)"
| "r_code (B_op Rv_xnor) = Some (0x20, 4)"
| "r_code (B_op Rv_min) = Some (5, 4)"
| "r_code (B_op Rv_minu) = Some (5, 5)"
| "r_code (B_op Rv_max) = Some (5, 6)"
| "r_code (B_op Rv_maxu) = Some (5, 7)"
| "r_code (B_op Rv_clmul) = Some (5, 1)"
| "r_code (B_op Rv_clmulr) = Some (5, 2)"
| "r_code (B_op Rv_clmulh) = Some (5, 3)"
| "r_code (B_op Rv_rol) = Some (0x30, 1)"
| "r_code (B_op Rv_ror) = Some (0x30, 5)"
| "r_code (B_op Rv_bclr) = Some (0x24, 1)"
| "r_code (B_op Rv_bext) = Some (0x24, 5)"
| "r_code (B_op Rv_binv) = Some (0x34, 1)"
| "r_code (B_op Rv_bset) = Some (0x14, 1)"
| "r_code _ = None"

fun i_code :: "base_op \<Rightarrow> (3 word \<times> 7 word) option" where
  "i_code Rv_addi = Some (0, 0x13)"
| "i_code Rv_slti = Some (2, 0x13)"
| "i_code Rv_sltiu = Some (3, 0x13)"
| "i_code Rv_xori = Some (4, 0x13)"
| "i_code Rv_ori = Some (6, 0x13)"
| "i_code Rv_andi = Some (7, 0x13)"
| "i_code Rv_lb = Some (0, 0x03)"
| "i_code Rv_lh = Some (1, 0x03)"
| "i_code Rv_lw = Some (2, 0x03)"
| "i_code Rv_lbu = Some (4, 0x03)"
| "i_code Rv_lhu = Some (5, 0x03)"
| "i_code Rv_jalr = Some (0, 0x67)"
| "i_code _ = None"

fun s_code :: "base_op \<Rightarrow> 3 word option" where
  "s_code Rv_sb = Some 0" | "s_code Rv_sh = Some 1" | "s_code Rv_sw = Some 2" | "s_code _ = None"

fun b_code :: "base_op \<Rightarrow> 3 word option" where
  "b_code Rv_beq = Some 0" | "b_code Rv_bne = Some 1" | "b_code Rv_blt = Some 4"
| "b_code Rv_bge = Some 5" | "b_code Rv_bltu = Some 6" | "b_code Rv_bgeu = Some 7" | "b_code _ = None"

fun u_code :: "base_op \<Rightarrow> 7 word option" where
  "u_code Rv_lui = Some 0x37" | "u_code Rv_auipc = Some 0x17" | "u_code _ = None"

datatype asm =
    R_asm opcode reg reg reg
  | I_asm base_op reg reg "12 word"
  | S_asm base_op reg reg "12 word"
  | B_asm base_op reg reg "13 word"
  | U_asm base_op reg "20 word"
  | J_asm reg "21 word"

fun encode :: "asm \<Rightarrow> u32 option" where
  "encode (R_asm c r r1 r2) = map_option (\<lambda>(f7, f3). enc_r f7 r2 r1 f3 r 0x33) (r_code c)"
| "encode (I_asm c r r1 i) = map_option (\<lambda>(f3, opc). enc_i i r1 f3 r opc) (i_code c)"
| "encode (S_asm c r1 r2 i) = map_option (\<lambda>f3. enc_s i r2 r1 f3 0x23) (s_code c)"
| "encode (B_asm c r1 r2 i) = (if bit i 0 then None else map_option (\<lambda>f3. enc_b i r2 r1 f3 0x63) (b_code c))"
| "encode (U_asm c r i) = map_option (\<lambda>opc. enc_u i r opc) (u_code c)"
| "encode (J_asm r i) = (if bit i 0 then None else Some (enc_j i r 0x6F))"

text \<open>What the decoder is to recover; with destination \<^verbatim>\<open>x0\<close>, the computing instructions become \<^verbatim>\<open>nop\<close>.\<close>

definition or_nop :: "reg \<Rightarrow> opcode \<Rightarrow> opcode" where
  "or_nop r c = (if r = 0 then I_op Rv_nop else c)"

fun meaning :: "asm \<Rightarrow> rv_insn" where
  "meaning (R_asm c r r1 r2) =
     ir0\<lparr>rd := ucast r, rs1 := ucast r1, rs2 := ucast r2, opcode := or_nop r c\<rparr>"
| "meaning (I_asm c r r1 i) =
     ir0\<lparr>rd := ucast r, rs1 := ucast r1, imm := scast i,
         opcode := if snd (the (i_code c)) = 0x13 then or_nop r (I_op c) else I_op c\<rparr>"
| "meaning (S_asm c r1 r2 i) = ir0\<lparr>rs1 := ucast r1, rs2 := ucast r2, imm := scast i, opcode := I_op c\<rparr>"
| "meaning (B_asm c r1 r2 i) = ir0\<lparr>rs1 := ucast r1, rs2 := ucast r2, imm := scast i, opcode := I_op c\<rparr>"
| "meaning (U_asm c r i) = ir0\<lparr>rd := ucast r, imm := shl (ucast i) 12, opcode := or_nop r (I_op c)\<rparr>"
| "meaning (J_asm r i) = ir0\<lparr>rd := ucast r, imm := scast i, opcode := I_op Rv_jal\<rparr>"

lemma ucast_reg [simp]:
  "(ucast (ucast r :: u32) :: u8) = ucast (r :: reg)" "(ucast r :: u8) = 0 \<longleftrightarrow> r = 0"
proof -
  show "(ucast (ucast r :: u32) :: u8) = ucast r" by (rule word8_eqI) (simp add: enc_bits)
  have "ucast (ucast r :: u8) = r" by (rule bit_word_eqI) (simp add: bit_simps)
  then show "(ucast r :: u8) = 0 \<longleftrightarrow> r = 0" by (metis unsigned_0)
qed

lemma decode_major:
  assumes "w AND 3 = ucast (opc :: 7 word) AND 3" "shr (w AND 0x7C) 2 = shr (ucast opc) 2"
    and "ucast opc AND 3 = (3 :: u32)"
  shows "rv_decode i w = (rv_jump_table ! unat (shr (ucast opc) 2 :: u32)) i w"
  unfolding rv_decode_def is_compressed_def assms Let_def by simp

lemmas decode_enc = decode_major [OF enc_r_fields(6,7)] decode_major [OF enc_i_fields(4,5)]
  decode_major [OF enc_s_fields(4,5)] decode_major [OF enc_b_fields(4,5)]
  decode_major [OF enc_u_fields(3,4)] decode_major [OF enc_j_fields(2,3)]

lemma op_op_enc:
  "r_code c = Some (f7, f3) \<Longrightarrow>
   op_op ir0 (enc_r f7 r2 r1 f3 r 0x33) = (meaning (R_asm c r r1 r2), True)"
  by (cases c rule: r_code.cases) (auto simp: op_op_def op_op_base_def op_op_m_def op_op_b_def Let_def
      decode_rtype_def enc_r_fields or_nop_def)

lemma op_imm_enc:
  "i_code c = Some (f3, 0x13) \<Longrightarrow> op_op_imm ir0 (enc_i i r1 f3 r 0x13) = (meaning (I_asm c r r1 i), True)"
  by (cases c) (auto simp: op_op_imm_def Let_def decode_itype_def enc_i_fields enc_i_imm or_nop_def)

lemma op_load_enc:
  "i_code c = Some (f3, 0x03) \<Longrightarrow> op_load ir0 (enc_i i r1 f3 r 0x03) = (meaning (I_asm c r r1 i), True)"
  by (cases c) (auto simp: op_load_def Let_def decode_itype_def enc_i_fields enc_i_imm)

lemma op_jalr_enc:
  "i_code c = Some (f3, 0x67) \<Longrightarrow> op_jalr ir0 (enc_i i r1 f3 r 0x67) = (meaning (I_asm c r r1 i), True)"
  by (cases c) (auto simp: op_jalr_def Let_def decode_itype_def enc_i_fields enc_i_imm)

lemma op_store_enc:
  "s_code c = Some f3 \<Longrightarrow> op_store ir0 (enc_s i r2 r1 f3 0x23) = (meaning (S_asm c r1 r2 i), True)"
  by (cases c) (auto simp: op_store_def Let_def decode_stype_def enc_s_fields enc_s_imm)

lemma op_branch_enc:
  "b_code c = Some f3 \<Longrightarrow> \<not> bit i 0 \<Longrightarrow>
   op_branch ir0 (enc_b i r2 r1 f3 0x63) = (meaning (B_asm c r1 r2 i), True)"
  by (cases c) (auto simp: op_branch_def Let_def decode_btype_def enc_b_fields enc_b_imm)

text \<open>
  C5. The decoder inverts the encoding of the ISA manual: for every instruction of the formats
  R (RV32I, M, Zba, Zbb, Zbc, Zbs), I (immediate arithmetic, loads, \<^verbatim>\<open>jalr\<close>), S, B, U and J, with
  any registers and any immediate, decoding the encoded word yields the opcode, the registers
  and the sign-extended immediate, and the word is legal.
\<close>

theorem decode_encode:
  assumes "encode a = Some w"
  shows "rv_decode ir0 w = Decoded (meaning a) True"
proof (cases a)
  case (R_asm c r r1 r2)
  with assms show ?thesis
    by (auto simp: decode_enc rv_jump_table_def OP_def op_op_enc simp del: meaning.simps)
next
  case (I_asm c r r1 i)
  with assms obtain f3 opc where c: "i_code c = Some (f3, opc)" "w = enc_i i r1 f3 r opc" by auto
  then have "opc = 0x13 \<or> opc = 0x03 \<or> opc = 0x67" by (cases c) auto
  with c I_asm show ?thesis
    by (auto simp: decode_enc rv_jump_table_def OP_def op_imm_enc op_load_enc op_jalr_enc
        simp del: meaning.simps)
next
  case (S_asm c r1 r2 i)
  with assms show ?thesis
    by (auto simp: decode_enc rv_jump_table_def OP_def op_store_enc
        simp del: meaning.simps)
next
  case (B_asm c r1 r2 i)
  with assms show ?thesis
    by (auto simp: decode_enc rv_jump_table_def OP_def op_branch_enc simp del: meaning.simps split: if_splits)
next
  case (U_asm c r i)
  with assms show ?thesis
    by (cases c) (auto simp: decode_enc rv_jump_table_def OP_def op_lui_def op_auipc_def Let_def
        decode_utype_def enc_u_fields or_nop_def)
next
  case (J_asm r i)
  with assms show ?thesis
    by (auto simp: decode_enc rv_jump_table_def OP_def op_jal_def decode_jtype_def enc_j_fields enc_j_imm
        split: if_splits)
qed

theorem decode_encode_witness:
  "encode (I_asm Rv_addi 5 6 0xFFF) = Some 0xFFF30293 \<and>
   rv_decode ir0 0xFFF30293 = Decoded (ir0\<lparr>rd := 5, rs1 := 6, imm := - 1, opcode := I_op Rv_addi\<rparr>) True"
  using decode_encode [of "I_asm Rv_addi 5 6 0xFFF" "0xFFF30293"]
  by (simp add: enc_i_def enc_r_def or_nop_def)

end
