(* ===== verification/Block_Map.thy ===== *)
theory Block_Map
  imports Block
begin

unbundle bit_operations_syntax

text \<open>
  Where translated blocks are kept (\<^verbatim>\<open>emulate.c\<close>, \<^verbatim>\<open>riscv.c\<close>): the open-addressing hash table
  \<^verbatim>\<open>block_map\<close> with linear probing, and in front of it the direct-mapped cache \<^verbatim>\<open>block_l1\<close> of tags
  and pointers. A pointer to a block is a number; \<open>blocks\<close> gives the block it points to, and
  \<open>n_blocks\<close> is the number the next \<^verbatim>\<open>block_alloc\<close> returns.

  The loops of \<^verbatim>\<open>block_insert\<close> and \<^verbatim>\<open>block_find\<close> have no bound: on a full table they would never
  end, which is the value \<^const>\<open>None\<close> here. The theory shows that the table always has room.
\<close>

section \<open>State\<close>

record block_cache =
  blocks :: "block_ptr \<Rightarrow> block"
  n_blocks :: block_ptr
  block_capacity :: u32
  map_size :: u32
  map_slots :: "block_ptr option list"
  l1_tags :: "u32 list"
  l1_ptrs :: "block_ptr option list"

abbreviation (input) BLOCK_MAP_CAPACITY_BITS :: nat where "BLOCK_MAP_CAPACITY_BITS \<equiv> 10"
abbreviation (input) BLOCK_L1_SIZE :: nat where "BLOCK_L1_SIZE \<equiv> 256"
abbreviation (input) BLOCK_L1_INVALID_TAG :: u32 where "BLOCK_L1_INVALID_TAG \<equiv> 0xFFFFFFFF"

definition map_hash :: "u32 \<Rightarrow> u32" where
  "map_hash val = shr (val * 0x61C88647) (32 - BLOCK_MAP_CAPACITY_BITS) AND (2 ^ BLOCK_MAP_CAPACITY_BITS - 1)"

definition l1_index :: "u32 \<Rightarrow> nat" where
  "l1_index addr = unat (shr addr 1 AND 0xFF)"

definition block_map_init :: "nat \<Rightarrow> block_cache \<Rightarrow> block_cache" where
  "block_map_init bits bc = bc\<lparr>block_capacity := 2 ^ bits, map_size := 0, map_slots := replicate (2 ^ bits) None\<rparr>"

text \<open>The loop of \<^verbatim>\<open>rv_create\<close> that invalidates the first-level cache; \<^verbatim>\<open>block_map_clear\<close> ends with the same.\<close>

definition block_l1_init :: "block_cache \<Rightarrow> block_cache" where
  "block_l1_init bc = bc\<lparr>l1_tags := replicate BLOCK_L1_SIZE BLOCK_L1_INVALID_TAG,
     l1_ptrs := replicate BLOCK_L1_SIZE None\<rparr>"

section \<open>Operations\<close>

definition block_l1_update :: "block_cache \<Rightarrow> block_ptr \<Rightarrow> block_cache" where
  "block_l1_update bc b =
    (let idx = l1_index (pc_start (blocks bc b))
     in bc\<lparr>l1_tags := (l1_tags bc)[idx := pc_start (blocks bc b)], l1_ptrs := (l1_ptrs bc)[idx := Some b]\<rparr>)"

partial_function (option) insert_loop ::
    "block_ptr option list \<Rightarrow> u32 \<Rightarrow> block_ptr \<Rightarrow> u32 \<Rightarrow> block_ptr option list option" where
  "insert_loop slots msk b index =
    (if slots ! unat (index AND msk) = None then Some (slots[unat (index AND msk) := Some b])
     else insert_loop slots msk b (index + 1))"

definition block_insert :: "block_cache \<Rightarrow> block_ptr \<Rightarrow> block_cache option" where
  "block_insert bc b =
    (case insert_loop (map_slots bc) (block_capacity bc - 1) b (map_hash (pc_start (blocks bc b))) of
       None \<Rightarrow> None
     | Some slots \<Rightarrow> Some (block_l1_update (bc\<lparr>map_slots := slots, map_size := map_size bc + 1\<rparr>) b))"

partial_function (option) find_loop ::
    "(block_ptr \<Rightarrow> block) \<Rightarrow> block_ptr option list \<Rightarrow> u32 \<Rightarrow> u32 \<Rightarrow> u32 \<Rightarrow> block_ptr option option" where
  "find_loop bs slots msk addr index =
    (case slots ! unat (index AND msk) of
       None \<Rightarrow> Some None
     | Some b \<Rightarrow> (if pc_start (bs b) = addr then Some (Some b) else find_loop bs slots msk addr (index + 1)))"

definition block_find :: "block_cache \<Rightarrow> u32 \<Rightarrow> block_ptr option option" where
  "block_find bc addr = find_loop (blocks bc) (map_slots bc) (block_capacity bc - 1) addr (map_hash addr)"

definition block_lookup_or_find :: "block_cache \<Rightarrow> u32 \<Rightarrow> (block_cache \<times> block_ptr option) option" where
  "block_lookup_or_find bc addr =
    (let idx = l1_index addr in
     if l1_tags bc ! idx = addr then Some (bc, l1_ptrs bc ! idx)
     else case block_find bc addr of
       None \<Rightarrow> None
     | Some None \<Rightarrow> Some (bc, None)
     | Some (Some b) \<Rightarrow>
         Some (bc\<lparr>l1_tags := (l1_tags bc)[idx := addr], l1_ptrs := (l1_ptrs bc)[idx := Some b]\<rparr>, Some b))"

definition block_map_clear :: "block_cache \<Rightarrow> block_cache" where
  "block_map_clear bc = block_l1_init (bc\<lparr>map_slots := map (\<lambda>s. None) (map_slots bc), map_size := 0\<rparr>)"

text \<open>
  The guard \<^verbatim>\<open>map->size * 1.25 > map->block_capacity\<close>: the product is exact in \<^verbatim>\<open>double\<close>, so it is
  the comparison of integers below.
\<close>

definition map_is_full :: "block_cache \<Rightarrow> bool" where
  "map_is_full bc \<longleftrightarrow> 5 * unat (map_size bc) > 4 * unat (block_capacity bc)"

text \<open>\<^verbatim>\<open>block_alloc\<close> and the block that \<^verbatim>\<open>new_block\<close> has filled in.\<close>

definition block_alloc :: "block_cache \<Rightarrow> block \<Rightarrow> block_cache \<times> block_ptr" where
  "block_alloc bc b = (bc\<lparr>blocks := (blocks bc)(n_blocks bc := b), n_blocks := n_blocks bc + 1\<rparr>, n_blocks bc)"

section \<open>Probing\<close>

definition probe :: "u32 \<Rightarrow> nat \<Rightarrow> nat" where
  "probe h k = unat ((h + of_nat k) AND 1023)"

lemma and_1023: "unat (w AND 1023) = unat w mod 1024" for w :: u32
proof -
  have "w AND 1023 = take_bit 10 w" by (simp add: take_bit_eq_mask mask_eq_exp_minus_1)
  then have "unat (w AND 1023) = take_bit 10 (unat w)" by (simp only: unsigned_take_bit_eq)
  then show ?thesis by (simp add: take_bit_eq_mod)
qed

lemma probe_eq: "probe h k = (unat h + k) mod 1024"
proof -
  have "unat (h + of_nat k) = (unat h + k) mod 2 ^ 32"
    by (simp add: unat_word_ariths unat_of_nat mod_simps)
  moreover have "(1024 :: nat) dvd 2 ^ 32" by simp
  ultimately show ?thesis unfolding probe_def and_1023 by (simp add: mod_mod_cancel)
qed

lemma probe_bound [simp]: "probe h k < 1024"
  by (simp add: probe_eq)

lemma mod_add_inj:
  assumes "(u + j) mod n = (u + k) mod n" "j < n" "k < n"
  shows "j = (k :: nat)"
proof -
  have "k' \<le> j'" if "(u + j') mod n = (u + k') mod n" "k' < n" for j' k' :: nat
  proof (rule ccontr)
    assume *: "\<not> k' \<le> j'"
    with that(1) mod_eq_dvd_iff_nat [of "u + j'" "u + k'" n] have "n dvd k' - j'" by (auto simp: add.commute)
    with * that(2) show False by (auto dest: dvd_imp_le)
  qed
  from this [of j k] this [of k j] assms show ?thesis by auto
qed

lemma probe_inj: "probe h j = probe h k \<Longrightarrow> j < 1024 \<Longrightarrow> k < 1024 \<Longrightarrow> j = k"
  unfolding probe_eq by (rule mod_add_inj)

lemma probe_surj: "i < 1024 \<Longrightarrow> \<exists>k < 1024. probe h k = i"
proof -
  have "probe h ` {..<1024} = {..<1024}"
    by (rule endo_inj_surj) (auto intro!: inj_onI dest: probe_inj)
  then show "i < 1024 \<Longrightarrow> \<exists>k < 1024. probe h k = i" by (metis imageE lessThan_iff)
qed


lemma insert_loop_skip:
  "(\<And>j. j < k \<Longrightarrow> slots ! probe h j \<noteq> None) \<Longrightarrow>
   insert_loop slots 1023 b h = insert_loop slots 1023 b (h + of_nat k)"
proof (induction k)
  case (Suc k)
  have "slots ! unat ((h + of_nat k) AND 1023) \<noteq> None" using Suc.prems [of k] by (simp add: probe_def)
  then have "insert_loop slots 1023 b (h + of_nat k) = insert_loop slots 1023 b (h + of_nat (Suc k))"
    by (subst insert_loop.simps) (auto simp: ac_simps)
  with Suc show ?case by simp
qed simp

lemma find_loop_skip:
  "(\<And>j. j < k \<Longrightarrow> \<exists>b. slots ! probe h j = Some b \<and> pc_start (bs b) \<noteq> addr) \<Longrightarrow>
   find_loop bs slots 1023 addr h = find_loop bs slots 1023 addr (h + of_nat k)"
proof (induction k)
  case (Suc k)
  obtain b where "slots ! unat ((h + of_nat k) AND 1023) = Some b" "pc_start (bs b) \<noteq> addr"
    using Suc.prems [of k] by (auto simp: probe_def)
  then have "find_loop bs slots 1023 addr (h + of_nat k) = find_loop bs slots 1023 addr (h + of_nat (Suc k))"
    by (subst find_loop.simps) (simp add: ac_simps)
  with Suc show ?case by simp
qed simp

section \<open>The table as a finite map\<close>

text \<open>
  The invariant of a linear-probing table: every entry is reached from its hash over occupied
  slots only, and no two entries have the same key.
\<close>

definition slots_ok :: "(block_ptr \<Rightarrow> block) \<Rightarrow> block_ptr option list \<Rightarrow> bool" where
  "slots_ok bs slots \<longleftrightarrow> length slots = 1024 \<and>
    (\<forall>i < 1024. \<forall>b. slots ! i = Some b \<longrightarrow>
       (\<exists>k < 1024. probe (map_hash (pc_start (bs b))) k = i \<and>
          (\<forall>j < k. slots ! probe (map_hash (pc_start (bs b))) j \<noteq> None))) \<and>
    (\<forall>i < 1024. \<forall>j < 1024. \<forall>b c. slots ! i = Some b \<longrightarrow> slots ! j = Some c \<longrightarrow>
       pc_start (bs b) = pc_start (bs c) \<longrightarrow> i = j)"

lemma slots_ok_unique:
  "slots_ok bs slots \<Longrightarrow> slots ! i = Some b \<Longrightarrow> slots ! j = Some c \<Longrightarrow> pc_start (bs b) = pc_start (bs c) \<Longrightarrow>
   i < 1024 \<Longrightarrow> j < 1024 \<Longrightarrow> i = j"
  unfolding slots_ok_def by blast

lemma slots_ok_reach:
  assumes "slots_ok bs slots" "slots ! i = Some b" "i < 1024"
  obtains k where "k < 1024" "probe (map_hash (pc_start (bs b))) k = i"
    "\<And>j. j < k \<Longrightarrow> slots ! probe (map_hash (pc_start (bs b))) j \<noteq> None"
  using assms unfolding slots_ok_def by blast

definition occupied :: "block_ptr option list \<Rightarrow> nat" where
  "occupied slots = length (filter (\<lambda>s. s \<noteq> None) slots)"

definition slots_map :: "(block_ptr \<Rightarrow> block) \<Rightarrow> block_ptr option list \<Rightarrow> u32 \<Rightarrow> block_ptr option" where
  "slots_map bs slots addr =
    Option.bind (List.find (\<lambda>s. case s of None \<Rightarrow> False | Some b \<Rightarrow> pc_start (bs b) = addr) slots) id"

lemma slots_map_Some:
  assumes "slots_ok bs slots"
  shows "slots_map bs slots addr = Some b \<longleftrightarrow> (\<exists>i < 1024. slots ! i = Some b \<and> pc_start (bs b) = addr)"
proof
  assume "slots_map bs slots addr = Some b"
  then show "\<exists>i < 1024. slots ! i = Some b \<and> pc_start (bs b) = addr"
    using assms by (auto simp: slots_map_def slots_ok_def find_Some_iff bind_eq_Some_conv split: option.splits)
next
  assume "\<exists>i < 1024. slots ! i = Some b \<and> pc_start (bs b) = addr"
  then obtain i where i: "i < 1024" "slots ! i = Some b" "pc_start (bs b) = addr" by blast
  have len: "length slots = 1024" using assms by (simp add: slots_ok_def)
  have other: "\<not> (case slots ! j of None \<Rightarrow> False | Some c \<Rightarrow> pc_start (bs c) = addr)" if "j < i" for j
  proof
    assume "case slots ! j of None \<Rightarrow> False | Some c \<Rightarrow> pc_start (bs c) = addr"
    then obtain c where "slots ! j = Some c" "pc_start (bs c) = addr" by (auto split: option.splits)
    with slots_ok_unique [OF assms, of j c i b] i that show False by simp
  qed
  have "List.find (\<lambda>s. case s of None \<Rightarrow> False | Some b \<Rightarrow> pc_start (bs b) = addr) slots = Some (Some b)"
    unfolding find_Some_iff using i len other by (intro exI [of _ i]) simp
  then show "slots_map bs slots addr = Some b" by (simp add: slots_map_def)
qed

lemma slots_map_None:
  assumes "slots_ok bs slots"
  shows "slots_map bs slots addr = None \<longleftrightarrow> (\<forall>i < 1024. \<forall>b. slots ! i = Some b \<longrightarrow> pc_start (bs b) \<noteq> addr)"
  using slots_map_Some [OF assms, of addr] by (metis not_None_eq)

lemma first_free:
  assumes "length slots = 1024" "occupied slots < 1024"
  obtains k where "k < 1024" "slots ! probe h k = None" "\<And>j. j < k \<Longrightarrow> slots ! probe h j \<noteq> None"
proof -
  have "\<exists>s \<in> set slots. s = None"
  proof (rule ccontr)
    assume "\<not> (\<exists>s \<in> set slots. s = None)"
    then have "filter (\<lambda>s. s \<noteq> None) slots = slots" unfolding filter_id_conv by metis
    with assms show False by (simp add: occupied_def)
  qed
  then obtain i where "i < 1024" "slots ! i = None" using assms(1) by (auto simp: in_set_conv_nth)
  then have ex: "\<exists>k. k < 1024 \<and> slots ! probe h k = None" using probe_surj [of i h] by blast
  define k where "k = (LEAST k. k < 1024 \<and> slots ! probe h k = None)"
  have "k < 1024 \<and> slots ! probe h k = None" unfolding k_def by (rule LeastI_ex [OF ex])
  moreover have "slots ! probe h j \<noteq> None" if "j < k" for j
    using not_less_Least [of j "\<lambda>k. k < 1024 \<and> slots ! probe h k = None"] that calculation
    unfolding k_def [symmetric] by auto
  ultimately show thesis using that by blast
qed

lemma find_loop_correct:
  assumes "slots_ok bs slots" "occupied slots < 1024"
  shows "find_loop bs slots 1023 addr (map_hash addr) = Some (slots_map bs slots addr)"
proof (cases "slots_map bs slots addr")
  case None
  obtain k where k: "k < 1024" "slots ! probe (map_hash addr) k = None"
    "\<And>j. j < k \<Longrightarrow> slots ! probe (map_hash addr) j \<noteq> None"
    using first_free assms by (metis slots_ok_def)
  have "\<exists>b. slots ! probe (map_hash addr) j = Some b \<and> pc_start (bs b) \<noteq> addr" if "j < k" for j
    using k(3) [OF that] None slots_map_None [OF assms(1), of addr] by (metis option.exhaust probe_bound)
  then have "find_loop bs slots 1023 addr (map_hash addr) = find_loop bs slots 1023 addr (map_hash addr + of_nat k)"
    by (rule find_loop_skip)
  with k(2) None show ?thesis by (subst (asm) (2) find_loop.simps) (simp add: probe_def)
next
  case (Some b)
  then obtain i where i: "i < 1024" "slots ! i = Some b" "pc_start (bs b) = addr"
    using slots_map_Some [OF assms(1)] by blast
  then obtain k where k: "k < 1024" "probe (map_hash addr) k = i"
    "\<And>j. j < k \<Longrightarrow> slots ! probe (map_hash addr) j \<noteq> None"
    using slots_ok_reach [OF assms(1), of i b] by metis
  have "\<exists>c. slots ! probe (map_hash addr) j = Some c \<and> pc_start (bs c) \<noteq> addr" if "j < k" for j
  proof -
    have "probe (map_hash addr) j \<noteq> i" using probe_inj [of "map_hash addr" j k] that k(1,2) by auto
    moreover have "slots ! probe (map_hash addr) j \<noteq> None" by (rule k(3) [OF that])
    then obtain c where "slots ! probe (map_hash addr) j = Some c" by blast
    ultimately show ?thesis using slots_ok_unique [OF assms(1), of "probe (map_hash addr) j" c i b] i by auto
  qed
  then have "find_loop bs slots 1023 addr (map_hash addr) = find_loop bs slots 1023 addr (map_hash addr + of_nat k)"
    by (rule find_loop_skip)
  with k(2) i Some show ?thesis by (subst (asm) (2) find_loop.simps) (simp add: probe_def)
qed


lemma insert_loop_correct:
  assumes "slots_ok bs slots" "occupied slots < 1024" "slots_map bs slots (pc_start (bs b)) = None"
  shows "\<exists>slots'. insert_loop slots 1023 b (map_hash (pc_start (bs b))) = Some slots' \<and>
    slots_ok bs slots' \<and> occupied slots' = Suc (occupied slots) \<and>
    slots_map bs slots' = (slots_map bs slots)(pc_start (bs b) \<mapsto> b)"
proof -
  let ?h = "map_hash (pc_start (bs b))"
  have len: "length slots = 1024" using assms(1) by (simp add: slots_ok_def)
  obtain k where k: "k < 1024" "slots ! probe ?h k = None" "\<And>j. j < k \<Longrightarrow> slots ! probe ?h j \<noteq> None"
    using first_free [OF len assms(2)] by blast
  let ?i = "probe ?h k"
  let ?s = "slots[?i := Some b]"
  have nth: "?s ! j = (if j = ?i then Some b else slots ! j)" if "j < 1024" for j
    using that len by simp
  have "insert_loop slots 1023 b ?h = insert_loop slots 1023 b (?h + of_nat k)"
    using k(3) by (rule insert_loop_skip)
  then have ins: "insert_loop slots 1023 b ?h = Some ?s"
    using k(2) by (subst (asm) (2) insert_loop.simps) (simp add: probe_def)
  note new = slots_map_None [OF assms(1), THEN iffD1, OF assms(3)]
  have ok: "slots_ok bs ?s"
    unfolding slots_ok_def
  proof (intro conjI allI impI)
    show "length ?s = 1024" using len by simp
  next
    fix i c assume i: "i < 1024" "?s ! i = Some c"
    show "\<exists>k<1024. probe (map_hash (pc_start (bs c))) k = i \<and>
        (\<forall>j<k. ?s ! probe (map_hash (pc_start (bs c))) j \<noteq> None)"
    proof (cases "i = ?i")
      case True
      with i nth have "c = b" by simp
      with True k show ?thesis by (intro exI [of _ k]) (auto simp: nth)
    next
      case False
      with i nth have "slots ! i = Some c" by simp
      from slots_ok_reach [OF assms(1) this i(1)] show ?thesis by (metis nth probe_bound option.distinct(1))
    qed
  next
    fix i j c d assume a: "i < 1024" "j < 1024" "?s ! i = Some c" "?s ! j = Some d" "pc_start (bs c) = pc_start (bs d)"
    show "i = j"
    proof (cases "i = ?i \<or> j = ?i")
      case True
      with a new show ?thesis by (auto simp: nth split: if_splits)
    next
      case False
      with a show ?thesis using slots_ok_unique [OF assms(1)] by (auto simp: nth)
    qed
  qed
  have "slots_map bs ?s addr = Some c \<longleftrightarrow> ((slots_map bs slots)(pc_start (bs b) \<mapsto> b)) addr = Some c" for addr c
  proof (cases "addr = pc_start (bs b)")
    case True
    then have "slots_map bs ?s addr = Some b"
      unfolding slots_map_Some [OF ok] using nth [of ?i] by (intro exI [of _ ?i]) simp
    with True show ?thesis by auto
  next
    case False
    have "?s ! i = Some c \<longleftrightarrow> slots ! i = Some c" if "i < 1024" "pc_start (bs c) = addr" for i
      using that False k(2) by (auto simp: nth)
    with False show ?thesis
      unfolding slots_map_Some [OF ok] fun_upd_other [OF False] slots_map_Some [OF assms(1)] by blast
  qed
  then have "slots_map bs ?s = (slots_map bs slots)(pc_start (bs b) \<mapsto> b)"
    by (intro ext option.expand [OF _]) (metis not_None_eq option.sel)+
  moreover have "occupied ?s = Suc (occupied slots)"
  proof -
    have "slots = take ?i slots @ None # drop (Suc ?i) slots"
      using id_take_nth_drop [of ?i slots] k(2) len by simp
    moreover have "?s = take ?i slots @ Some b # drop (Suc ?i) slots"
      using upd_conv_take_nth_drop [of ?i slots "Some b"] len by simp
    moreover have "occupied (xs @ Some b # ys) = Suc (occupied (xs @ None # ys))" for xs ys
      by (simp add: occupied_def)
    ultimately show ?thesis by metis
  qed
  ultimately show ?thesis using ins ok by blast
qed


section \<open>The interface of the table\<close>

text \<open>
  What the step loop needs of the place where blocks are kept: a partial map from addresses to
  blocks that can be searched, extended and emptied, and whose operations end.
\<close>

locale block_store =
  fixes ok :: "'m \<Rightarrow> bool" and room :: "'m \<Rightarrow> bool" and key :: "'m \<Rightarrow> block_ptr \<Rightarrow> u32"
    and contents :: "'m \<Rightarrow> u32 \<Rightarrow> block_ptr option"
    and find :: "'m \<Rightarrow> u32 \<Rightarrow> block_ptr option option"
    and insert :: "'m \<Rightarrow> block_ptr \<Rightarrow> 'm option" and clear :: "'m \<Rightarrow> 'm"
  assumes find_contents: "ok m \<Longrightarrow> room m \<Longrightarrow> find m addr = Some (contents m addr)"
    and insert_contents: "ok m \<Longrightarrow> room m \<Longrightarrow> contents m (key m b) = None \<Longrightarrow>
      \<exists>m'. insert m b = Some m' \<and> ok m' \<and> contents m' = (contents m)(key m b \<mapsto> b)"
    and clear_contents: "ok m \<Longrightarrow> ok (clear m) \<and> room (clear m) \<and> contents (clear m) = Map.empty"
begin

lemma insert_then_find:
  assumes "ok m" "room m" "contents m (key m b) = None" "insert m b = Some m'" "room m'"
  shows "find m' (key m b) = Some (Some b)" "addr \<noteq> key m b \<Longrightarrow> find m' addr = find m addr"
  using insert_contents [OF assms(1-3)] assms find_contents [OF _ assms(5)] find_contents [OF assms(1,2)] by auto

lemma clear_then_find: "ok m \<Longrightarrow> find (clear m) addr = Some None"
  using clear_contents [of m] find_contents [of "clear m" addr] by simp

end

text \<open>
  The invariant of the whole cache: a well-formed table whose counter counts its entries, and a
  first-level cache whose every entry agrees with the table. An entry counts for the addresses
  of its index only; the invalid tag belongs to index 255, where it stands for the (absent)
  block at its own address until that slot is filled.
\<close>

definition cache_map :: "block_cache \<Rightarrow> u32 \<Rightarrow> block_ptr option" where
  "cache_map bc = slots_map (blocks bc) (map_slots bc)"

definition l1_ok :: "block_cache \<Rightarrow> bool" where
  "l1_ok bc \<longleftrightarrow> length (l1_tags bc) = 256 \<and> length (l1_ptrs bc) = 256 \<and>
    (\<forall>addr. l1_tags bc ! l1_index addr = addr \<longrightarrow> l1_ptrs bc ! l1_index addr = cache_map bc addr)"

definition cache_ok :: "block_cache \<Rightarrow> bool" where
  "cache_ok bc \<longleftrightarrow> block_capacity bc = 1024 \<and> slots_ok (blocks bc) (map_slots bc) \<and>
    occupied (map_slots bc) = unat (map_size bc) \<and> l1_ok bc"

definition cache_room :: "block_cache \<Rightarrow> bool" where
  "cache_room bc \<longleftrightarrow> unat (map_size bc) < 1024"

lemma l1_index_bound [simp]: "l1_index addr < 256"
proof -
  have "shr addr 1 AND 0xFF = take_bit 8 (shr addr 1)"
    by (simp add: take_bit_eq_mask mask_eq_exp_minus_1)
  then have "l1_index addr = take_bit 8 (unat (shr addr 1))"
    unfolding l1_index_def by (simp only: unsigned_take_bit_eq)
  then show ?thesis using take_bit_nat_less_exp [of 8 "unat (shr addr 1)"] by simp
qed

lemma l1_fill:
  assumes "l1_ok bc" "cache_map bc addr = Some b"
  shows "l1_ok (bc\<lparr>l1_tags := (l1_tags bc)[l1_index addr := addr], l1_ptrs := (l1_ptrs bc)[l1_index addr := Some b]\<rparr>)"
  unfolding l1_ok_def
proof (intro conjI allI impI; simp?)
  show "length (l1_tags bc) = 256" "length (l1_ptrs bc) = 256" using assms(1) by (simp_all add: l1_ok_def)
  fix a assume *: "(l1_tags bc)[l1_index addr := addr] ! l1_index a = a"
  show "(l1_ptrs bc)[l1_index addr := Some b] ! l1_index a = cache_map (bc\<lparr>l1_tags := (l1_tags bc)[l1_index addr := addr],
      l1_ptrs := (l1_ptrs bc)[l1_index addr := Some b]\<rparr>) a"
    using assms * by (cases "l1_index a = l1_index addr") (auto simp: l1_ok_def cache_map_def)
qed

lemma block_find_correct: "cache_ok bc \<Longrightarrow> cache_room bc \<Longrightarrow> block_find bc addr = Some (cache_map bc addr)"
  using find_loop_correct [of "blocks bc" "map_slots bc"]
  by (simp add: block_find_def cache_ok_def cache_room_def cache_map_def)

lemma l1_ok_empty: "l1_tags bc = replicate 256 BLOCK_L1_INVALID_TAG \<Longrightarrow> l1_ptrs bc = replicate 256 None \<Longrightarrow>
  cache_map bc = Map.empty \<Longrightarrow> l1_ok bc"
  by (simp add: l1_ok_def)

lemma slots_empty: "slots_ok bs (replicate 1024 None)" "slots_map bs (replicate 1024 None) = Map.empty"
  "occupied (replicate 1024 None) = 0"
proof -
  show ok: "slots_ok bs (replicate 1024 None)" by (simp add: slots_ok_def)
  show "slots_map bs (replicate 1024 None) = Map.empty"
    using slots_map_None [OF ok] by auto
qed (simp add: occupied_def filter_empty_conv)

lemma block_map_clear_correct:
  assumes "cache_ok bc"
  shows "cache_ok (block_map_clear bc)" "cache_room (block_map_clear bc)" "cache_map (block_map_clear bc) = Map.empty"
proof -
  have "map (\<lambda>s. None :: block_ptr option) (map_slots bc) = replicate 1024 None"
    using assms by (simp add: cache_ok_def slots_ok_def map_replicate_const)
  then show "cache_ok (block_map_clear bc)" "cache_room (block_map_clear bc)" "cache_map (block_map_clear bc) = Map.empty"
    using assms slots_empty(1,2) [of "blocks bc"] slots_empty(3)
    by (auto simp: cache_ok_def cache_room_def block_map_clear_def block_l1_init_def cache_map_def intro!: l1_ok_empty)
qed

lemma block_map_init_correct:
  "cache_ok (block_l1_init (block_map_init 10 bc))" "cache_room (block_l1_init (block_map_init 10 bc))"
  "cache_map (block_l1_init (block_map_init 10 bc)) = Map.empty"
  using slots_empty(1,2) [of "blocks bc"] slots_empty(3)
  by (auto simp: cache_ok_def cache_room_def block_map_init_def block_l1_init_def cache_map_def intro!: l1_ok_empty)

lemma block_insert_correct:
  assumes "cache_ok bc" "cache_room bc" "cache_map bc (pc_start (blocks bc b)) = None"
  shows "\<exists>bc'. block_insert bc b = Some bc' \<and> cache_ok bc' \<and> cache_map bc' = (cache_map bc)(pc_start (blocks bc b) \<mapsto> b) \<and>
    map_size bc' = map_size bc + 1 \<and> blocks bc' = blocks bc \<and> n_blocks bc' = n_blocks bc"
proof -
  let ?a = "pc_start (blocks bc b)"
  obtain slots where s: "insert_loop (map_slots bc) 1023 b (map_hash ?a) = Some slots"
    "slots_ok (blocks bc) slots" "occupied slots = Suc (occupied (map_slots bc))"
    "slots_map (blocks bc) slots = (cache_map bc)(?a \<mapsto> b)"
    using insert_loop_correct [of "blocks bc" "map_slots bc" b] assms
    by (auto simp: cache_ok_def cache_room_def cache_map_def)
  let ?bc = "bc\<lparr>map_slots := slots, map_size := map_size bc + 1\<rparr>"
  have ins: "block_insert bc b = Some (block_l1_update ?bc b)"
    using assms(1) s(1) by (simp add: block_insert_def cache_ok_def)
  have "unat (map_size bc + 1) = Suc (unat (map_size bc))"
    using assms(2) by (simp add: cache_room_def unat_word_ariths)
  moreover have "l1_ok (block_l1_update ?bc b)"
    unfolding l1_ok_def block_l1_update_def Let_def
  proof (intro conjI allI impI; simp?)
    show "length (l1_tags bc) = 256" "length (l1_ptrs bc) = 256"
      using assms(1) by (simp_all add: cache_ok_def l1_ok_def)
    then show "(l1_ptrs bc)[l1_index ?a := Some b] ! l1_index x = cache_map (?bc\<lparr>l1_tags := (l1_tags bc)[l1_index ?a := ?a],
        l1_ptrs := (l1_ptrs bc)[l1_index ?a := Some b]\<rparr>) x"
      if "(l1_tags bc)[l1_index ?a := ?a] ! l1_index x = x" for x
      using that assms(1) s(4) by (cases "l1_index x = l1_index ?a")
        (auto simp: cache_ok_def l1_ok_def cache_map_def)
  qed
  ultimately show ?thesis
    using ins assms(1) s by (auto simp: cache_ok_def block_l1_update_def cache_map_def Let_def)
qed

interpretation block_map: block_store cache_ok cache_room "\<lambda>bc b. pc_start (blocks bc b)" cache_map
  block_find block_insert block_map_clear
  by unfold_locales (auto simp: block_find_correct block_map_clear_correct dest: block_insert_correct)


lemma lookup_correct:
  assumes "cache_ok bc" "cache_room bc"
  shows "\<exists>bc'. block_lookup_or_find bc addr = Some (bc', cache_map bc addr) \<and> cache_ok bc' \<and>
    cache_map bc' = cache_map bc \<and> map_size bc' = map_size bc \<and> blocks bc' = blocks bc \<and> n_blocks bc' = n_blocks bc"
proof (cases "l1_tags bc ! l1_index addr = addr \<or> cache_map bc addr = None")
  case True
  with assms show ?thesis
    by (auto simp: block_lookup_or_find_def Let_def block_find_correct cache_ok_def l1_ok_def)
next
  case False
  then obtain b where b: "cache_map bc addr = Some b" "l1_tags bc ! l1_index addr \<noteq> addr" by auto
  let ?bc = "bc\<lparr>l1_tags := (l1_tags bc)[l1_index addr := addr], l1_ptrs := (l1_ptrs bc)[l1_index addr := Some b]\<rparr>"
  have "block_lookup_or_find bc addr = Some (?bc, Some b)"
    using b assms by (simp add: block_lookup_or_find_def Let_def block_find_correct)
  moreover have "cache_ok ?bc"
    using assms l1_fill [of bc addr b] b(1) by (simp add: cache_ok_def)
  ultimately show ?thesis using b(1) by (simp add: cache_map_def)
qed

section \<open>Properties\<close>

text \<open>
  C20. The block map refines a finite map: on a well-formed table with a free slot, \<^verbatim>\<open>block_find\<close>
  ends and returns the block stored for an address, or none; \<^verbatim>\<open>block_insert\<close> of a block with a new
  address ends, keeps the table well-formed and adds exactly that entry; \<^verbatim>\<open>block_map_clear\<close> empties it.
\<close>

theorem block_map_refines:
  assumes "cache_ok bc" "cache_room bc" "cache_map bc (pc_start (blocks bc b)) = None"
  shows "block_find bc addr = Some (cache_map bc addr) \<and>
    (\<exists>bc'. block_insert bc b = Some bc' \<and> cache_ok bc' \<and>
       cache_map bc' = (cache_map bc)(pc_start (blocks bc b) \<mapsto> b)) \<and>
    cache_ok (block_map_clear bc) \<and> cache_map (block_map_clear bc) = Map.empty \<and>
    block_find (block_map_clear bc) addr = Some None"
  using block_map.find_contents [OF assms(1,2)] block_map.insert_contents [OF assms]
    block_map.clear_contents [OF assms(1)] block_map.clear_then_find [OF assms(1)] by simp

definition bc0 :: block_cache where
  "bc0 = block_l1_init (block_map_init BLOCK_MAP_CAPACITY_BITS \<lparr>blocks = (\<lambda>b. \<lparr>pc_start = of_nat b, pc_end = 0, ir_list = [], page_terminated = False,
     cycle_cost = 0\<rparr>), n_blocks = 0, block_capacity = 0, map_size = 0, map_slots = [], l1_tags = [], l1_ptrs = []\<rparr>)"

lemma bc0_ok: "cache_ok bc0" "cache_room bc0" "cache_map bc0 = Map.empty"
  by (simp_all add: bc0_def block_map_init_correct)

theorem block_map_refines_witness:
  "\<exists>bc'. block_insert bc0 7 = Some bc' \<and> cache_map bc' 7 = Some 7 \<and> block_find bc0 7 = Some None"
proof -
  have "pc_start (blocks bc0 7) = 7" by (simp add: bc0_def block_map_init_def block_l1_init_def)
  with block_map_refines [OF bc0_ok(1,2), of 7 7] bc0_ok show ?thesis by auto
qed

text \<open>
  C21. The first-level cache is coherent: \<^verbatim>\<open>block_lookup_or_find\<close> returns what the table holds for
  the address, whatever was cached before, and keeps the invariant of cache and table.
\<close>

theorem l1_coherent:
  assumes "cache_ok bc" "cache_room bc"
  shows "\<exists>bc'. block_lookup_or_find bc addr = Some (bc', cache_map bc addr) \<and> cache_ok bc' \<and> cache_map bc' = cache_map bc"
  using lookup_correct [OF assms] by blast

theorem l1_coherent_witness:
  "\<exists>bc'. block_lookup_or_find bc0 0xFFFFFFFF = Some (bc', None) \<and> cache_ok bc'"
  using l1_coherent [OF bc0_ok(1,2), of "0xFFFFFFFF"] unfolding bc0_ok(3) by blast

end
