(* ===== verification/Step.thy ===== *)
theory Step
  imports Block_Map
begin

unbundle bit_operations_syntax

text \<open>
  The step loop (\<^verbatim>\<open>emulate.c\<close>, \<^verbatim>\<open>rv_step\<close>): find or make the block at the PC, link the previous block
  to it, run the chain of blocks. A block's tail instruction is linked to the block that followed
  it (\<^verbatim>\<open>branch_taken\<close>, \<^verbatim>\<open>branch_untaken\<close>); an indirect jump has a branch history table of 16 tags and
  targets. \<open>bht b\<close> is the table of the tail instruction of block \<open>b\<close>.

  A chain of linked blocks may run forever, and so may the loop: not returning is \<^const>\<open>None\<close>. A
  failed assertion or undefined behaviour is \<open>Crash\<close>. The garbage collector of the memory
  mapping, which runs every 65536 steps, is host memory management.
\<close>

section \<open>State\<close>

datatype 'a run = Crash | Ok 'a

record emu =
  rvs :: riscv
  bcache :: block_cache
  bht :: "block_ptr \<Rightarrow> (u32 \<times> block_ptr option) list"
  prev :: "block_ptr option"

abbreviation (input) HISTORY_SIZE :: nat where "HISTORY_SIZE \<equiv> 16"

definition bht_init :: "(u32 \<times> block_ptr option) list" where
  "bht_init = replicate HISTORY_SIZE (- 1, None)"

definition insn_is_unconditional_branch :: "opcode \<Rightarrow> bool" where
  "insn_is_unconditional_branch c \<longleftrightarrow>
     c \<in> {I_op Rv_ecall, I_op Rv_ebreak, I_op Rv_jal, I_op Rv_jalr, S_op Rv_mret, S_op Rv_csrrw,
          C_op Rv_cj, C_op Rv_cjalr, C_op Rv_cjal, C_op Rv_cjr, C_op Rv_cebreak}"

definition insn_is_direct_branch :: "opcode \<Rightarrow> bool" where
  "insn_is_direct_branch c \<longleftrightarrow> c \<in> {I_op Rv_jal, C_op Rv_cjal, C_op Rv_cj}"

section \<open>Finding a block\<close>

definition block_find_or_translate :: "(rv_insn \<Rightarrow> bool) \<Rightarrow> emu \<Rightarrow> (emu \<times> block_ptr option) run option" where
  "block_find_or_translate alloc s =
    (case block_lookup_or_find (bcache s) (PC (rvs s)) of
       None \<Rightarrow> None
     | Some (bc, Some b) \<Rightarrow> Some (Ok (s\<lparr>bcache := bc\<rparr>, Some b))
     | Some (bc, None) \<Rightarrow>
         (let s = (if map_is_full bc then s\<lparr>bcache := block_map_clear bc, prev := None\<rparr> else s\<lparr>bcache := bc\<rparr>) in
          case new_block alloc (rvs s) of
            None \<Rightarrow> Some Crash
          | Some (rv, None) \<Rightarrow> Some (Ok (s\<lparr>rvs := rv\<rparr>, None))
          | Some (rv, Some blk) \<Rightarrow>
              (let (bc, b) = block_alloc (bcache s) blk in
               case block_insert bc b of
                 None \<Rightarrow> None
               | Some bc \<Rightarrow>
                   Some (Ok (s\<lparr>rvs := rv, bcache := bc, bht := (bht s)(b := bht_init)\<rparr>, Some b)))))"

section \<open>Linking\<close>

definition set_tail :: "(rv_insn \<Rightarrow> rv_insn) \<Rightarrow> block_ptr \<Rightarrow> block_cache \<Rightarrow> block_cache" where
  "set_tail f b bc =
    (let blk = blocks bc b
     in bc\<lparr>blocks := (blocks bc)(b := blk\<lparr>ir_list := butlast (ir_list blk) @ [f (last (ir_list blk))]\<rparr>)\<rparr>)"

definition chain_blocks :: "emu \<Rightarrow> block_ptr \<Rightarrow> emu" where
  "chain_blocks s b =
    (case prev s of
       None \<Rightarrow> s
     | Some q \<Rightarrow>
         (let blk = blocks (bcache s) q; last_ir = last (ir_list blk);
              taken = (\<lambda>s. s\<lparr>bcache := set_tail (\<lambda>ir. ir\<lparr>branch_taken := Some b\<rparr>) q (bcache s)\<rparr>);
              untaken = (\<lambda>s. s\<lparr>bcache := set_tail (\<lambda>ir. ir\<lparr>branch_untaken := Some b\<rparr>) q (bcache s)\<rparr>) in
          if page_terminated blk then (if branch_taken last_ir = None then taken s else s)
          else if \<not> insn_is_unconditional_branch (opcode last_ir) then
            (if is_branch_taken (rvs s) \<and> branch_taken last_ir = None then taken s
             else if \<not> is_branch_taken (rvs s) \<and> branch_untaken last_ir = None then untaken s
             else s)
          else if insn_is_direct_branch (opcode last_ir) then
            (if branch_taken last_ir = None then taken s else s)
          else s))"

section \<open>Running a chain of blocks\<close>

text \<open>
  \<^verbatim>\<open>LOOKUP_OR_UPDATE_BRANCH_HISTORY_TABLE\<close>: the target of an indirect jump to \<open>p\<close> from block \<open>b\<close>, and
  the updated table.
\<close>

definition bht_lookup :: "emu \<Rightarrow> block_ptr \<Rightarrow> u32 \<Rightarrow> (emu \<times> block_ptr option) option" where
  "bht_lookup s b p =
    (let bht_idx = unat (shr p 2 AND (of_nat HISTORY_SIZE - 1)); e = bht s b ! bht_idx in
     if fst e = p \<and> snd e \<noteq> None then Some (s, snd e)
     else case block_find (bcache s) p of
       None \<Rightarrow> None
     | Some None \<Rightarrow> Some (s, None)
     | Some (Some t) \<Rightarrow> Some (s\<lparr>bht := (bht s)(b := (bht s b)[bht_idx := (p, Some t)])\<rparr>, Some t))"

partial_function (option) run_chain ::
    "env \<Rightarrow> block_ptr \<Rightarrow> emu \<Rightarrow> u64 \<Rightarrow> u32 \<Rightarrow> (emu \<times> bool) run option" where
  "run_chain env b s cycle p =
    (case exec env (ir_list (blocks (bcache s) b)) (rvs s) cycle p of
       Ret k rv \<Rightarrow> Some (Ok (s\<lparr>rvs := rv\<rparr>, k))
     | Tail t rv c q \<Rightarrow> run_chain env t (s\<lparr>rvs := rv\<rparr>) c q
     | Bht rv c q \<Rightarrow>
         (case bht_lookup (s\<lparr>rvs := rv\<rparr>) b q of
            None \<Rightarrow> None
          | Some (s, Some t) \<Rightarrow> run_chain env t s c q
          | Some (s, None) \<Rightarrow> Some (Ok (s\<lparr>rvs := (rvs s)\<lparr>csr_cycle := c, PC := q\<rparr>\<rparr>, True)))
     | _ \<Rightarrow> Some Crash)"

section \<open>The loop\<close>

text \<open>One iteration; the flag of the result says whether the loop goes on.\<close>

definition refresh_prev :: "emu \<Rightarrow> emu option" where
  "refresh_prev s =
    (case prev s of
       None \<Rightarrow> Some s
     | Some q \<Rightarrow>
         (if pc_start (blocks (bcache s) q) \<noteq> last_pc (rvs s) then
            (case block_lookup_or_find (bcache s) (last_pc (rvs s)) of
               None \<Rightarrow> None
             | Some (bc, r) \<Rightarrow> Some (s\<lparr>bcache := bc, prev := r\<rparr>))
          else Some s))"

definition enter_block :: "emu \<Rightarrow> block_ptr \<Rightarrow> emu" where
  "enter_block s b =
    (let rv = rvs s;
         rv = (if pc (hd (ir_list (blocks (bcache s) b))) = exit_addr rv then rv\<lparr>on_exit := True\<rparr> else rv);
         s = chain_blocks (s\<lparr>rvs := rv\<rparr>) b
     in s\<lparr>rvs := (rvs s)\<lparr>last_pc := PC (rvs s)\<rparr>\<rparr>)"

definition rv_step_body :: "env \<Rightarrow> (rv_insn \<Rightarrow> bool) \<Rightarrow> emu \<Rightarrow> (emu \<times> bool) run option" where
  "rv_step_body env alloc s =
    (case refresh_prev s of
       None \<Rightarrow> None
     | Some s \<Rightarrow>
         (case block_find_or_translate alloc s of
            None \<Rightarrow> None
          | Some Crash \<Rightarrow> Some Crash
          | Some (Ok (s, None)) \<Rightarrow> Some (Ok (s\<lparr>rvs := (rvs s)\<lparr>halt := True\<rparr>\<rparr>, False))
          | Some (Ok (s, Some b)) \<Rightarrow>
              (let s = enter_block s b in
               case run_chain env b s (csr_cycle (rvs s)) (PC (rvs s)) of
                 None \<Rightarrow> None
               | Some Crash \<Rightarrow> Some Crash
               | Some (Ok (s, k)) \<Rightarrow> Some (Ok (s\<lparr>prev := if k then Some b else None\<rparr>, k)))))"

partial_function (option) rv_step_loop ::
    "env \<Rightarrow> (rv_insn \<Rightarrow> bool) \<Rightarrow> u64 \<Rightarrow> emu \<Rightarrow> emu run option" where
  "rv_step_loop env alloc cycles_target s =
    (if csr_cycle (rvs s) < cycles_target \<and> \<not> halt (rvs s) then
       (case rv_step_body env alloc s of
          None \<Rightarrow> None
        | Some Crash \<Rightarrow> Some Crash
        | Some (Ok (s, k)) \<Rightarrow> (if k then rv_step_loop env alloc cycles_target s else Some (Ok s)))
     else Some (Ok s))"

definition rv_step :: "env \<Rightarrow> (rv_insn \<Rightarrow> bool) \<Rightarrow> u32 \<Rightarrow> emu \<Rightarrow> emu run option" where
  "rv_step env alloc cycles s = rv_step_loop env alloc (csr_cycle (rvs s) + ucast cycles) s"

end
