(* ===== verification/Chain.thy ===== *)
theory Chain
  imports Step Block_Steps
begin

unbundle bit_operations_syntax

text \<open>
  Chained blocks. The links that the step loop installs in the tail instruction of a block, and
  the entries of the branch history tables, always lead to the block that a lookup of the
  target address would find, so following them is the same as returning to the loop.
\<close>

section \<open>Where a block ends\<close>

text \<open>The bytes an instruction, fused or not, covers.\<close>

definition step_len :: "rv_insn \<Rightarrow> u32" where
  "step_len ir = (case opcode ir of
     Fuse_op f \<Rightarrow> (if f \<in> {Rv_fuse1, Rv_fuse3, Rv_fuse4, Rv_fuse5, Rv_fuse7} then imm2 ir * 4 else 8)
   | c \<Rightarrow> rv_insn_len c)"

fun pcs_chain :: "u32 \<Rightarrow> rv_insn list \<Rightarrow> bool" where
  "pcs_chain p [] = True"
| "pcs_chain p (ir # irs) \<longleftrightarrow> pc ir = p \<and> pcs_chain (p + step_len ir) irs"

text \<open>
  An instruction that can stand before the end of a block. \<^verbatim>\<open>wfi\<close> is no branch for
  \<^verbatim>\<open>insn_is_branch\<close>, but its handler returns to the loop: what follows it in a block is never reached.
\<close>

definition body_ok :: "rv_insn \<Rightarrow> bool" where
  "body_ok ir \<longleftrightarrow> \<not> insn_is_branch (opcode ir) \<and>
     opcode ir \<notin> {S_op Rv_wfi, Fuse_op Rv_fuse6, Fuse_op Rv_fuse12}"

text \<open>The address a link of the tail instruction is followed for, if the handler uses the link.\<close>

definition taken_target :: "rv_insn \<Rightarrow> u32 option" where
  "taken_target ir =
    (if opcode ir \<in> {I_op Rv_jal, C_op Rv_cjal, C_op Rv_cj, C_op Rv_cbeqz, C_op Rv_cbnez} then Some (pc ir + imm ir)
     else if opcode ir = Fuse_op Rv_fuse12 then Some (pc ir + 4 + imm2 ir)
     else if is_fused (opcode ir) \<or> insn_is_branch (opcode ir) then None
     else Some (pc ir + rv_insn_len (opcode ir)))"

definition untaken_target :: "rv_insn \<Rightarrow> u32 option" where
  "untaken_target ir =
    (if opcode ir \<in> {C_op Rv_cbeqz, C_op Rv_cbnez} then Some (pc ir + 2)
     else if opcode ir = Fuse_op Rv_fuse12 then Some (pc ir + 8)
     else None)"

text \<open>The machine is where the tail instruction says it should be.\<close>

definition settled :: "rv_insn \<Rightarrow> riscv \<Rightarrow> bool" where
  "settled ir rv \<longleftrightarrow>
    (case (taken_target ir, untaken_target ir) of
       (Some x, None) \<Rightarrow> PC rv = x
     | (Some x, Some y) \<Rightarrow> PC rv = (if is_branch_taken rv then x else y)
     | _ \<Rightarrow> True)"

section \<open>Handlers\<close>

text \<open>The outcomes of an instruction that does not end its block: go on, or a trap.\<close>

fun goes_on :: "outcome \<Rightarrow> bool" where
  "goes_on (Next rv c p) = True"
| "goes_on (Fuse_next rv c p) = True"
| "goes_on (Ret k rv) = (\<not> k)"
| "goes_on Abort = True"
| "goes_on Undefined = True"
| "goes_on _ = False"

lemma goes_on_ret_opt [simp]: "goes_on (ret_opt False s)"
  by (cases s) simp_all

lemma goes_on_misalign [simp]:
  "goes_on rest \<Longrightarrow> goes_on (RV_EXC_MISALIGN_HANDLER m cause k rv addr c p rest)"
  by (simp add: RV_EXC_MISALIGN_HANDLER_def)

lemma do_body:
  "\<not> base_is_branch b \<Longrightarrow> goes_on (do_base b env rv ir c p)"
  "\<not> sys_is_branch y \<Longrightarrow> y \<noteq> Rv_wfi \<Longrightarrow> goes_on (do_sys y env rv ir c p)"
  "goes_on (do_bit x env rv ir c p)"
  "goes_on (do_mul_ext m env rv ir c p)"
  "goes_on (do_amo a env rv ir c p)"
  "goes_on (do_fp f env rv ir c p)"
  "\<not> c_is_branch z \<Longrightarrow> goes_on (do_c z env rv ir c p)"
        apply (cases b; simp add: do_defs Let_def)
       apply (cases y; simp add: do_defs Let_def split: prod.split)
      apply (cases x; simp add: do_defs Let_def)
     apply (cases m; simp add: do_defs Let_def)
    apply (cases a; simp add: do_defs Let_def)
   apply (cases f; simp add: do_defs Let_def split: option.split prod.split)
  apply (cases z; simp add: do_defs Let_def)
  done

lemma goes_on_RVOP: "goes_on (h env rv ir (c + 1) p) \<Longrightarrow> goes_on (RVOP len h env rv ir c p)"
  by (cases "h env rv ir (c + 1) p") (simp_all add: RVOP_def)

lemma fuse_loops_go_on:
  "(\<And>rv. goes_on (rest rv)) \<Longrightarrow> goes_on (fuse3_loop fs rv c p rest)"
  "(\<And>rv. goes_on (rest rv)) \<Longrightarrow> goes_on (fuse4_loop fs rv c p rest)"
  by (induction fs arbitrary: rv) (simp_all add: Let_def)

lemma dispatch_body: "body_ok ir \<Longrightarrow> goes_on (dispatch env rv ir c p)"
proof (cases "opcode ir")
  case (Fuse_op f)
  assume "body_ok ir"
  with Fuse_op show ?thesis
    by (cases f) (simp_all add: body_ok_def dispatch_def fuse_defs Let_def fuse_loops_go_on split: option.split)
qed (auto simp: body_ok_def dispatch_def intro!: goes_on_RVOP do_body)

section \<open>The PC at the tail\<close>

lemma fuse_loops_pc:
  "fuse3_loop fs rv c p (\<lambda>rv. Fuse_next rv c' q) \<noteq> Next rv' c'' q'"
  "fuse4_loop fs rv c p (\<lambda>rv. Fuse_next rv c' q) \<noteq> Next rv' c'' q'"
  "fuse3_loop fs rv c p (\<lambda>rv. Fuse_next rv c' q) = Fuse_next rv' c'' q' \<Longrightarrow> q' = q"
  "fuse4_loop fs rv c p (\<lambda>rv. Fuse_next rv c' q) = Fuse_next rv' c'' q' \<Longrightarrow> q' = q"
  by (induction fs arbitrary: rv) (auto simp: RV_EXC_MISALIGN_HANDLER_def Let_def split: if_splits)

lemma dispatch_step_pc:
  "dispatch env rv ir c p = Next rv' c' p' \<Longrightarrow> p' = p + step_len ir"
  "dispatch env rv ir c p = Fuse_next rv' c' p' \<Longrightarrow> p' = p + step_len ir"
proof -
  show "p' = p + step_len ir" if "dispatch env rv ir c p = Next rv' c' p'"
  proof (cases "is_fused (opcode ir)")
    case True
    then obtain f where "opcode ir = Fuse_op f" by (cases "opcode ir") auto
    with that show ?thesis
      by (cases f) (auto simp: dispatch_def fuse_defs Let_def RV_EXC_MISALIGN_HANDLER_def fuse_loops_pc
          split: option.splits if_splits)
  qed (use dispatch_Next_pc [OF that] in \<open>auto simp: step_len_def split: opcode.split\<close>)
  show "p' = p + step_len ir" if "dispatch env rv ir c p = Fuse_next rv' c' p'"
  proof (cases "is_fused (opcode ir)")
    case True
    then obtain f where "opcode ir = Fuse_op f" by (cases "opcode ir") auto
    with that show ?thesis
      by (cases f) (auto simp: step_len_def dispatch_def fuse_defs Let_def RV_EXC_MISALIGN_HANDLER_def
          dest: fuse_loops_pc(3,4) split: option.splits if_splits)
  qed (use dispatch_not_fuse_next that in blast)
qed


text \<open>An outcome that leaves the block comes from its tail instruction, run at its own address.\<close>

lemma exec_tail:
  assumes "irs \<noteq> []" "\<forall>ir \<in> set (butlast irs). body_ok ir" "pcs_chain p irs" "\<not> goes_on (exec env irs rv c p)"
  shows "\<exists>rv1 c1. exec env irs rv c p = exec env [last irs] rv1 c1 (pc (last irs))"
  using assms
proof (induction irs arbitrary: rv c p)
  case (Cons ir irs)
  show ?case
  proof (cases "irs = []")
    case True
    with Cons.prems(3) show ?thesis by auto
  next
    case False
    then have b: "body_ok ir" "\<forall>ir \<in> set (butlast irs). body_ok ir" using Cons.prems(2) by auto
    have go: "goes_on (dispatch env rv ir c p)" by (rule dispatch_body [OF b(1)])
    then have "(\<exists>rv' c' p'. dispatch env rv ir c p = Next rv' c' p' \<or> dispatch env rv ir c p = Fuse_next rv' c' p')"
      using Cons.prems(4) by (cases "dispatch env rv ir c p") auto
    then obtain rv' c' p' where d: "dispatch env rv ir c p = Next rv' c' p' \<or> dispatch env rv ir c p = Fuse_next rv' c' p'"
      by blast
    then have e: "exec env (ir # irs) rv c p = exec env irs rv' c' p'" using False by auto
    have "p' = p + step_len ir" using d dispatch_step_pc by metis
    then show ?thesis
      using Cons.IH [OF False b(2), of p' rv' c'] Cons.prems(3,4) e False by (simp del: exec.simps)
  qed
qed simp

section \<open>The tail\<close>

lemma dispatch_Tail:
  assumes "dispatch env rv ir c (pc ir) = Tail t rv' c' q"
  shows "(branch_taken ir = Some t \<and> taken_target ir = Some q \<or> branch_untaken ir = Some t \<and> untaken_target ir = Some q) \<and>
    last_pc rv' = q"
proof -
  have b: "insn_is_branch (opcode ir) \<or> opcode ir = Fuse_op Rv_fuse12 \<or> opcode ir = Fuse_op Rv_fuse6 \<or> opcode ir = S_op Rv_wfi"
    using assms dispatch_body [of ir env rv c "pc ir"] by (auto simp: body_ok_def)
  show ?thesis
  proof (cases "opcode ir")
    case (I_op b)
    with b assms show ?thesis
      by (cases b) (auto simp: plain_defs taken_target_def untaken_target_def split: option.splits if_splits outcome.splits)
  next
    case (S_op b)
    with b assms show ?thesis
      by (cases b) (auto simp: plain_defs split: prod.splits)
  next
    case (C_op b)
    with b assms show ?thesis
      by (cases b) (auto simp: plain_defs taken_target_def untaken_target_def split: option.splits if_splits outcome.splits)
  next
    case (Fuse_op f)
    with b assms show ?thesis
      by (auto simp: dispatch_def fuse_defs Let_def taken_target_def untaken_target_def
          split: option.splits if_splits)
  qed (use b in simp_all)
qed

lemma dispatch_Next_plain: "dispatch env rv ir c p = Next rv' c' p' \<Longrightarrow> \<not> is_fused (opcode ir)"
proof
  assume n: "dispatch env rv ir c p = Next rv' c' p'" "is_fused (opcode ir)"
  then obtain f where "opcode ir = Fuse_op f" by (cases "opcode ir") auto
  with n show False
    by (cases f) (auto simp: dispatch_def fuse_defs Let_def RV_EXC_MISALIGN_HANDLER_def fuse_loops_pc
        split: option.splits if_splits)
qed

lemma dispatch_End_op:
  assumes "dispatch env rv ir c p = End_op rv' c' p'" "\<not> insn_is_branch (opcode ir)"
  shows "opcode ir = S_op Rv_wfi" "p' = p + 4"
proof -
  have "opcode ir \<in> {S_op Rv_wfi, Fuse_op Rv_fuse6, Fuse_op Rv_fuse12}"
    using assms dispatch_body [of ir env rv c p] by (auto simp: body_ok_def)
  then show "opcode ir = S_op Rv_wfi" "p' = p + 4"
    using assms by (auto simp: plain_defs fuse_defs split: option.splits if_splits)
qed

lemma exec_Tail:
  assumes "exec env [ir] rv c (pc ir) = Tail t rv' c' q"
  shows "(branch_taken ir = Some t \<and> taken_target ir = Some q \<or> branch_untaken ir = Some t \<and> untaken_target ir = Some q) \<and>
    last_pc rv' = q"
proof (cases "dispatch env rv ir c (pc ir)")
  case (Tail t' rv1 c1 q1)
  with assms dispatch_Tail show ?thesis by simp
next
  case (Next rv1 c1 p1)
  with assms dispatch_Next_plain [OF Next] dispatch_step_pc(1) [OF Next] show ?thesis
    by (cases "opcode ir") (auto simp: end_op_def sync_def taken_target_def step_len_def split: if_splits option.splits)
next
  case (End_op rv1 c1 p1)
  with assms dispatch_End_op [OF End_op] show ?thesis
    by (auto simp: end_op_def sync_def taken_target_def split: if_splits option.splits)
qed (use assms in \<open>auto simp: sync_def\<close>)

lemma dispatch_Ret_settled:
  assumes "dispatch env rv ir c (pc ir) = Ret True rv'"
  shows "settled ir rv'"
proof -
  have b: "insn_is_branch (opcode ir) \<or> opcode ir = Fuse_op Rv_fuse12 \<or> opcode ir = Fuse_op Rv_fuse6 \<or> opcode ir = S_op Rv_wfi"
    using assms dispatch_body [of ir env rv c "pc ir"] by (auto simp: body_ok_def)
  show ?thesis
  proof (cases "opcode ir")
    case (I_op b)
    with b assms show ?thesis
      by (cases b) (auto simp: plain_defs settled_def taken_target_def untaken_target_def split: option.splits if_splits)
  next
    case (S_op b)
    with b assms show ?thesis
      by (cases b) (auto simp: plain_defs settled_def taken_target_def split: prod.splits)
  next
    case (C_op b)
    with b assms show ?thesis
      by (cases b) (auto simp: plain_defs settled_def taken_target_def untaken_target_def split: option.splits if_splits)
  next
    case (Fuse_op f)
    with b assms show ?thesis
      by (auto simp: dispatch_def fuse_defs Let_def settled_def taken_target_def untaken_target_def
          split: option.splits if_splits)
  qed (use b in simp_all)
qed

lemma dispatch_End_op_settled:
  assumes "dispatch env rv ir c (pc ir) = End_op rv' c' p'"
  shows "settled ir (rv'\<lparr>csr_cycle := c', PC := p'\<rparr>)"
proof (cases "insn_is_branch (opcode ir)")
  case True
  show ?thesis
  proof (cases "opcode ir")
    case (I_op b)
    with assms True show ?thesis
      by (cases b) (auto simp: plain_defs settled_def taken_target_def untaken_target_def split: option.splits if_splits)
  next
    case (S_op b)
    with assms True show ?thesis
      by (cases b) (auto simp: plain_defs settled_def taken_target_def untaken_target_def split: prod.splits)
  next
    case (C_op b)
    with assms True show ?thesis
      by (cases b) (auto simp: plain_defs settled_def taken_target_def untaken_target_def split: option.splits if_splits)
  qed (use True in simp_all)
next
  case False
  with dispatch_End_op [OF assms] show ?thesis
    by (simp add: settled_def taken_target_def untaken_target_def)
qed

lemma exec_Ret_settled:
  assumes "exec env [ir] rv c (pc ir) = Ret True rv'"
  shows "settled ir rv'"
proof (cases "dispatch env rv ir c (pc ir)")
  case (Ret k rv1)
  with assms dispatch_Ret_settled show ?thesis by simp
next
  case (End_op rv1 c1 p1)
  with assms dispatch_End_op_settled [OF End_op] show ?thesis
    by (auto simp: end_op_def sync_def split: if_splits option.splits)
next
  case (Next rv1 c1 p1)
  then have pl: "\<not> is_fused (opcode ir)" "p1 = pc ir + step_len ir"
    using dispatch_Next_plain dispatch_step_pc(1) by blast+
  have rv': "rv' = rv1\<lparr>csr_cycle := c1, PC := p1\<rparr>"
    using assms Next by (auto simp: end_op_def sync_def split: if_splits option.splits)
  show ?thesis
  proof (cases "insn_is_branch (opcode ir)")
    case False
    with pl rv' show ?thesis
      by (cases "opcode ir") (auto simp: settled_def taken_target_def untaken_target_def step_len_def)
  next
    case True
    show ?thesis
    proof (cases "opcode ir")
      case (I_op b)
      with Next True show ?thesis
        by (cases b) (auto simp: plain_defs settled_def taken_target_def untaken_target_def split: option.splits if_splits)
    next
      case (S_op b)
      with True show ?thesis by (simp add: settled_def taken_target_def)
    next
      case (C_op b)
      with Next True rv' show ?thesis
        by (cases b) (auto simp: plain_defs settled_def taken_target_def untaken_target_def split: option.splits if_splits)
    qed (use True in simp_all)
  qed
next
  case (Fuse_next rv1 c1 p1)
  then have "is_fused (opcode ir)" using dispatch_not_fuse_next by metis
  moreover have "opcode ir \<noteq> Fuse_op Rv_fuse12"
    using Fuse_next by (auto simp: dispatch_def fuse_defs Let_def split: option.splits if_splits)
  ultimately show ?thesis by (cases "opcode ir") (simp_all add: settled_def taken_target_def)
qed (use assms in simp_all)

lemma exec_Bht_indirect:
  assumes "exec env [ir] rv c (pc ir) = Bht rv' c' q"
  shows "taken_target ir = None"
proof -
  have d: "dispatch env rv ir c (pc ir) = Bht rv' c' q"
    using assms by (auto simp: end_op_def sync_def split: outcome.splits if_splits option.splits)
  have b: "insn_is_branch (opcode ir) \<or> opcode ir = Fuse_op Rv_fuse12 \<or> opcode ir = Fuse_op Rv_fuse6 \<or> opcode ir = S_op Rv_wfi"
    using d dispatch_body [of ir env rv c "pc ir"] by (auto simp: body_ok_def)
  show ?thesis
  proof (cases "opcode ir")
    case (I_op b)
    with b d show ?thesis
      by (cases b) (auto simp: plain_defs taken_target_def split: option.splits if_splits outcome.splits)
  next
    case (S_op b)
    with b d show ?thesis
      by (cases b) (auto simp: plain_defs taken_target_def split: prod.splits)
  next
    case (C_op b)
    with b d show ?thesis
      by (cases b) (auto simp: plain_defs taken_target_def split: option.splits if_splits)
  next
    case (Fuse_op f)
    with b d show ?thesis
      by (auto simp: dispatch_def fuse_defs Let_def taken_target_def split: option.splits if_splits)
  qed (use b in simp_all)
qed


section \<open>The address of the last block\<close>

text \<open>
  No handler but a tail call writes \<^verbatim>\<open>last_pc\<close>, a variable of \<^verbatim>\<open>emulate.c\<close> that system calls cannot
  reach.
\<close>

definition env_keeps_last :: "env \<Rightarrow> bool" where
  "env_keeps_last env \<longleftrightarrow> (\<forall>rv. last_pc (syscall_handler env rv) = last_pc rv)"

fun keeps_last :: "u32 \<Rightarrow> outcome \<Rightarrow> bool" where
  "keeps_last l (Next rv c p) = (last_pc rv = l)"
| "keeps_last l (Fuse_next rv c p) = (last_pc rv = l)"
| "keeps_last l (End_op rv c p) = (last_pc rv = l)"
| "keeps_last l (Ret k rv) = (last_pc rv = l)"
| "keeps_last l (Bht rv c p) = (last_pc rv = l)"
| "keeps_last l _ = True"

lemma last_frames [simp]:
  "last_pc (ram_write_b rv a b) = last_pc rv" "last_pc (ram_write_s rv a h) = last_pc rv"
  "last_pc (ram_write_w rv a w) = last_pc rv" "last_pc (softfloat_raiseFlags fl rv) = last_pc rv"
  "last_pc (set_fflag rv) = last_pc rv" "last_pc (csr_store d v rv) = last_pc rv"
  by (simp_all add: mem_defs softfloat_raiseFlags_def set_fflag_eq) (cases d; simp)

lemma last_compare:
  "f32_eq rv a b = (rv', r) \<Longrightarrow> last_pc rv' = last_pc rv"
  "f32_lt rv a b = (rv', r) \<Longrightarrow> last_pc rv' = last_pc rv"
  "f32_le rv a b = (rv', r) \<Longrightarrow> last_pc rv' = last_pc rv"
  "f32_lt_quiet rv a b = (rv', r) \<Longrightarrow> last_pc rv' = last_pc rv"
  "set_rounding_mode rv m = Some rv' \<Longrightarrow> last_pc rv' = last_pc rv"
  "csr_get_ptr ht rv csr = (rv', d') \<Longrightarrow> last_pc rv' = last_pc rv"
  by (auto simp: f32_eq_def f32_lt_def f32_le_def f32_lt_quiet_def set_rounding_mode_def csr_get_ptr_def
      update_time_def Let_def split: if_splits)

lemma last_csr:
  "csr_csrrw ht rv csr v c = (rv', out) \<Longrightarrow> last_pc rv' = last_pc rv"
  "csr_csrrs ht rv csr v c = (rv', out) \<Longrightarrow> last_pc rv' = last_pc rv"
  "csr_csrrc ht rv csr v c = (rv', out) \<Longrightarrow> last_pc rv' = last_pc rv"
  by (auto simp: csr_csrrw_def csr_csrrs_def csr_csrrc_def csr_sync_cycle_def Let_def
      dest!: last_compare(6) split: prod.splits option.splits if_splits)

lemma last_fold:
  "last_pc (fold (\<lambda>i rv. set_X r (g i rv) rv) is rv) = last_pc rv"
  "last_pc (fold (\<lambda>i rv. if b i then set_X r (g i rv) rv else rv) is rv) = last_pc rv"
  "last_pc (fold (\<lambda>f rv. set_X (h f) (g f rv) rv) fs rv) = last_pc rv"
  by (induction "is" arbitrary: rv) (simp_all, induction fs arbitrary: rv, simp_all)

lemma last_mem [simp]: "last_pc (mem_write_b rv a b) = last_pc rv" "last_pc (mem_write_s rv a h) = last_pc rv"
  by (simp_all add: mem_defs)

lemma last_emulate:
  "emulate_misaligned_load rv ir a = (rv', k) \<Longrightarrow> last_pc rv' = last_pc rv"
  "emulate_misaligned_store rv ir a = (rv', k) \<Longrightarrow> last_pc rv' = last_pc rv"
  by (auto simp: emulate_misaligned_load_def emulate_misaligned_store_def write_b_loop_def Let_def split: if_splits)

lemma last_trap: "SET_CAUSE_AND_TVAL_THEN_TRAP rv cause tval = Some rv' \<Longrightarrow> last_pc rv' = last_pc rv"
  by (auto simp: SET_CAUSE_AND_TVAL_THEN_TRAP_def set_cause_and_tval_def trap_handler_def trap_enter_m_def
      trap_enter_s_def trap_vector_def rv_trap_default_handler_def skip_insn_def Let_def
      dest: last_emulate split: if_splits decode_result.splits prod.splits)

lemma last_ret_opt [simp]:
  "last_pc rv = l \<Longrightarrow> keeps_last l (ret_opt k (SET_CAUSE_AND_TVAL_THEN_TRAP rv cause tval))"
  by (cases "SET_CAUSE_AND_TVAL_THEN_TRAP rv cause tval") (auto dest: last_trap)

lemma last_callbacks:
  "env_keeps_last env \<Longrightarrow> ecall_handler (syscall_handler env) rv = Some rv' \<Longrightarrow> last_pc rv' = last_pc rv"
  "ebreak_handler rv = Some rv' \<Longrightarrow> last_pc rv' = last_pc rv"
  by (auto simp: ecall_handler_def ebreak_handler_def env_keeps_last_def dest: last_trap)

lemma last_ret_callback:
  "env_keeps_last env \<Longrightarrow> last_pc rv = l \<Longrightarrow> keeps_last l (ret_opt k (ecall_handler (syscall_handler env) rv))"
  "last_pc rv = l \<Longrightarrow> keeps_last l (ret_opt k (ebreak_handler rv))"
   apply (cases "ecall_handler (syscall_handler env) rv"; auto dest: last_callbacks)
  apply (cases "ebreak_handler rv"; auto dest: last_callbacks)
  done

lemma do_last:
  assumes "env_keeps_last env"
  shows "keeps_last (last_pc rv) (do_base b env rv ir c p)"
    "keeps_last (last_pc rv) (do_sys y env rv ir c p)"
    "keeps_last (last_pc rv) (do_bit x env rv ir c p)"
    "keeps_last (last_pc rv) (do_mul_ext m env rv ir c p)"
    "keeps_last (last_pc rv) (do_amo a env rv ir c p)"
    "keeps_last (last_pc rv) (do_fp f env rv ir c p)"
    "keeps_last (last_pc rv) (do_c z env rv ir c p)"
        apply (cases b; simp add: do_defs Let_def last_ret_callback assms split: option.split)
       apply (cases y; auto simp: do_defs Let_def dest!: last_csr split: prod.split)
      apply (cases x; simp add: do_defs Let_def last_fold)
     apply (cases m; simp add: do_defs Let_def)
    apply (cases a; simp add: do_defs Let_def)
   apply (cases f; auto simp: do_defs Let_def dest!: last_compare split: option.split prod.split bool.split)
  apply (cases z; simp add: do_defs Let_def last_fold last_ret_callback assms split: option.split)
  done


lemma last_fuse_loops:
  "(\<And>rv. last_pc rv = l \<Longrightarrow> keeps_last l (rest rv)) \<Longrightarrow> last_pc rv = l \<Longrightarrow> keeps_last l (fuse3_loop fs rv c p rest)"
  "(\<And>rv. last_pc rv = l \<Longrightarrow> keeps_last l (rest rv)) \<Longrightarrow> last_pc rv = l \<Longrightarrow> keeps_last l (fuse4_loop fs rv c p rest)"
  by (induction fs arbitrary: rv) (auto simp: RV_EXC_MISALIGN_HANDLER_def Let_def)

lemma last_fuse5: "fuse5_loop fs rv = Some rv' \<Longrightarrow> last_pc rv' = last_pc rv"
  by (induction fs arbitrary: rv) (auto simp: fuse_shift_exec_def split: if_splits option.splits)

lemma keeps_last_RVOP: "keeps_last l (h env rv ir (c + 1) p) \<Longrightarrow> keeps_last l (RVOP len h env rv ir c p)"
  by (cases "h env rv ir (c + 1) p") (simp_all add: RVOP_def)

lemma dispatch_last:
  assumes "env_keeps_last env"
  shows "keeps_last (last_pc rv) (dispatch env rv ir c p)"
proof (cases "opcode ir")
  case (Fuse_op f)
  then show ?thesis
    using assms
    by (cases f) (auto simp: dispatch_def do_fuse1_def do_fuse2_def do_fuse3_def do_fuse4_def do_fuse5_def do_fuse6_def
        do_fuse7_def do_fuse8_def do_fuse9_def do_fuse10_def do_fuse11_def do_fuse12_def sync_def Let_def
        RV_EXC_MISALIGN_HANDLER_def last_fold last_ret_callback intro!: last_fuse_loops
        dest: last_fuse5 split: option.split)
qed (auto simp: dispatch_def intro!: keeps_last_RVOP do_last [OF assms])

lemma last_sync: "last_pc rv = l \<Longrightarrow> keeps_last l (sync rv c p)" "last_pc rv = l \<Longrightarrow> keeps_last l (end_op ir rv c p)"
  by (auto simp: end_op_def sync_def split: option.split)

lemma exec_last:
  assumes "env_keeps_last env"
  shows "last_pc rv = l \<Longrightarrow> keeps_last l (exec env irs rv c p)"
proof (induction irs arbitrary: rv c p)
  case (Cons ir irs)
  have d: "keeps_last l (dispatch env rv ir c p)" using dispatch_last [OF assms] Cons.prems by blast
  then show ?case
    using Cons.IH by (cases "dispatch env rv ir c p") (auto simp: last_sync)
qed simp

section \<open>Well-linked blocks\<close>

definition block_ok :: "block \<Rightarrow> bool" where
  "block_ok blk \<longleftrightarrow> ir_list blk \<noteq> [] \<and> (\<forall>ir \<in> set (butlast (ir_list blk)). body_ok ir) \<and>
     pcs_chain (pc_start blk) (ir_list blk) \<and>
     (page_terminated blk \<longrightarrow> untaken_target (last (ir_list blk)) = None)"

text \<open>\<open>m\<close> is the table: every link that can be followed leads to the entry of its target.\<close>

definition linked_ok :: "(u32 \<Rightarrow> block_ptr option) \<Rightarrow> rv_insn \<Rightarrow> bool" where
  "linked_ok m ir \<longleftrightarrow>
    (\<forall>x t. taken_target ir = Some x \<longrightarrow> branch_taken ir = Some t \<longrightarrow> m x = Some t) \<and>
    (\<forall>x t. untaken_target ir = Some x \<longrightarrow> branch_untaken ir = Some t \<longrightarrow> m x = Some t)"

definition history_ok :: "(u32 \<Rightarrow> block_ptr option) \<Rightarrow> (u32 \<times> block_ptr option) list \<Rightarrow> bool" where
  "history_ok m h \<longleftrightarrow> length h = 16 \<and> (\<forall>i < 16. snd (h ! i) \<noteq> None \<longrightarrow> m (fst (h ! i)) = snd (h ! i))"

definition links_ok :: "emu \<Rightarrow> bool" where
  "links_ok s \<longleftrightarrow> (\<forall>a b. cache_map (bcache s) a = Some b \<longrightarrow>
     pc_start (blocks (bcache s) b) = a \<and> b < n_blocks (bcache s) \<and> block_ok (blocks (bcache s) b) \<and>
     linked_ok (cache_map (bcache s)) (last (ir_list (blocks (bcache s) b))) \<and>
     history_ok (cache_map (bcache s)) (bht s b))"

text \<open>
  What the loop knows of the block it ran last: if the table still has a block at \<^verbatim>\<open>last_pc\<close>, the
  machine is where the tail of that block sent it, or the tail is an indirect jump.
\<close>

definition prev_ok :: "emu \<Rightarrow> bool" where
  "prev_ok s \<longleftrightarrow> (\<forall>q. prev s = Some q \<longrightarrow>
     (\<forall>z. cache_map (bcache s) (last_pc (rvs s)) = Some z \<longrightarrow> settled (last (ir_list (blocks (bcache s) z))) (rvs s)) \<and>
     (pc_start (blocks (bcache s) q) = last_pc (rvs s) \<longrightarrow> cache_map (bcache s) (last_pc (rvs s)) = Some q))"

definition emu_ok :: "emu \<Rightarrow> bool" where
  "emu_ok s \<longleftrightarrow> cache_ok (bcache s) \<and> unat (map_size (bcache s)) \<le> 820 \<and> links_ok s \<and> prev_ok s"

lemma emu_room: "unat (map_size bc) \<le> 820 \<Longrightarrow> cache_room bc"
  by (simp add: cache_room_def)

section \<open>Following links\<close>

text \<open>The reference: every transfer of control looks its target up in the table.\<close>

partial_function (option) run_ref ::
    "env \<Rightarrow> block_cache \<Rightarrow> block_ptr \<Rightarrow> riscv \<Rightarrow> u64 \<Rightarrow> u32 \<Rightarrow> (riscv \<times> bool) run option" where
  "run_ref env bc b rv cycle p =
    (case exec env (ir_list (blocks bc b)) rv cycle p of
       Ret k rv \<Rightarrow> Some (Ok (rv, k))
     | Tail t rv c q \<Rightarrow>
         (case cache_map bc q of
            None \<Rightarrow> Some Crash
          | Some t \<Rightarrow> run_ref env bc t rv c q)
     | Bht rv c q \<Rightarrow>
         (case cache_map bc q of
            None \<Rightarrow> Some (Ok (rv\<lparr>csr_cycle := c, PC := q\<rparr>, True))
          | Some t \<Rightarrow> run_ref env bc t rv c q)
     | _ \<Rightarrow> Some Crash)"

lemma history_okD: "history_ok m h \<Longrightarrow> i < 16 \<Longrightarrow> snd (h ! i) \<noteq> None \<Longrightarrow> m (fst (h ! i)) = snd (h ! i)"
  by (simp add: history_ok_def)

lemma history_ok_update:
  assumes "history_ok m h" "m q = Some t"
  shows "history_ok m (h[j := (q, Some t)])"
  unfolding history_ok_def
proof (intro conjI allI impI)
  fix i assume "i < 16" "snd (h[j := (q, Some t)] ! i) \<noteq> None"
  then show "m (fst (h[j := (q, Some t)] ! i)) = snd (h[j := (q, Some t)] ! i)"
    using assms history_okD [OF assms(1)] by (cases "i = j") (auto simp: history_ok_def)
qed (use assms in \<open>simp add: history_ok_def\<close>)

lemma bht_lookup_correct:
  assumes "cache_ok (bcache s)" "cache_room (bcache s)" "links_ok s" "cache_map (bcache s) a = Some b"
  shows "\<exists>s'. bht_lookup s b q = Some (s', cache_map (bcache s) q) \<and> links_ok s' \<and>
    bcache s' = bcache s \<and> rvs s' = rvs s \<and> prev s' = prev s"
proof -
  let ?i = "unat (shr q 2 AND 15)"
  have h: "history_ok (cache_map (bcache s)) (bht s b)" using assms(3,4) by (simp add: links_ok_def)
  have i: "?i < 16"
  proof -
    have "shr q 2 AND 15 = take_bit 4 (shr q 2)" by (simp add: take_bit_eq_mask mask_eq_exp_minus_1)
    then have "?i = take_bit 4 (unat (shr q 2))" by (simp only: unsigned_take_bit_eq)
    then show ?thesis using take_bit_nat_less_exp [of 4 "unat (shr q 2)"] by simp
  qed
  have f: "block_find (bcache s) q = Some (cache_map (bcache s) q)"
    using block_map.find_contents [OF assms(1,2)] .
  show ?thesis
  proof (cases "fst (bht s b ! ?i) = q \<and> snd (bht s b ! ?i) \<noteq> None")
    case True
    then have "cache_map (bcache s) q = snd (bht s b ! ?i)"
      using history_okD [OF h i] by simp
    moreover have "bht_lookup s b q = Some (s, snd (bht s b ! ?i))"
      using True by (simp add: bht_lookup_def Let_def)
    ultimately show ?thesis using assms(3) by auto
  next
    case False
    show ?thesis
    proof (cases "cache_map (bcache s) q")
      case None
      with False f assms(3) show ?thesis by (auto simp: bht_lookup_def Let_def)
    next
      case (Some t)
      let ?h = "(bht s b)[?i := (q, Some t)]"
      have "history_ok (cache_map (bcache s)) ?h"
        using history_ok_update [OF h Some] .
      with assms(3) have "links_ok (s\<lparr>bht := (bht s)(b := ?h)\<rparr>)" by (simp add: links_ok_def)
      with False f Some show ?thesis by (auto simp: bht_lookup_def Let_def)
    qed
  qed
qed


text \<open>
  The state in which a block of the chain starts: it is the table's block for the PC, and the
  block at \<^verbatim>\<open>last_pc\<close> is this block or one that ends in an indirect jump.
\<close>

definition chain_at :: "emu \<Rightarrow> block_ptr \<Rightarrow> u32 \<Rightarrow> bool" where
  "chain_at s b p \<longleftrightarrow> cache_map (bcache s) p = Some b \<and>
    (\<exists>z. cache_map (bcache s) (last_pc (rvs s)) = Some z \<and>
       (z = b \<or> taken_target (last (ir_list (blocks (bcache s) z))) = None))"

definition chain_post :: "emu \<Rightarrow> emu \<Rightarrow> bool \<Rightarrow> bool" where
  "chain_post s s' k \<longleftrightarrow> bcache s' = bcache s \<and> prev s' = prev s \<and> links_ok s' \<and>
    (k \<longrightarrow> (\<forall>z. cache_map (bcache s) (last_pc (rvs s')) = Some z \<longrightarrow>
       settled (last (ir_list (blocks (bcache s) z))) (rvs s')))"

lemma settled_None: "taken_target ir = None \<Longrightarrow> settled ir rv"
  by (simp add: settled_def)

lemma links_okD:
  assumes "links_ok s" "cache_map (bcache s) p = Some b"
  shows "block_ok (blocks (bcache s) b)" "pc_start (blocks (bcache s) b) = p"
    "linked_ok (cache_map (bcache s)) (last (ir_list (blocks (bcache s) b)))"
  using assms by (simp_all add: links_ok_def)

lemma links_ok_rvs [simp]: "links_ok (s\<lparr>rvs := rv\<rparr>) = links_ok s"
  by (simp add: links_ok_def)

lemma chain_exec:
  assumes "links_ok s" "cache_map (bcache s) p = Some b"
    and "r = exec env (ir_list (blocks (bcache s) b)) rv c p" "\<not> goes_on r"
  shows "\<exists>rv1 c1. r = exec env [last (ir_list (blocks (bcache s) b))] rv1 c1 (pc (last (ir_list (blocks (bcache s) b))))"
  using links_okD [OF assms(1,2)] exec_tail [of "ir_list (blocks (bcache s) b)" p env rv c] assms(3,4)
  by (simp add: block_ok_def del: exec.simps)

lemma chain_Tail:
  assumes "links_ok s" "cache_map (bcache s) p = Some b"
    and "exec env (ir_list (blocks (bcache s) b)) rv c p = Tail t rv' c' q"
  shows "cache_map (bcache s) q = Some t" "last_pc rv' = q"
proof -
  obtain rv1 c1 where "exec env [last (ir_list (blocks (bcache s) b))] rv1 c1
      (pc (last (ir_list (blocks (bcache s) b)))) = Tail t rv' c' q"
    using chain_exec [OF assms(1,2) refl, of env rv c] assms(3) by auto
  from exec_Tail [OF this] links_okD(3) [OF assms(1,2)]
  show "cache_map (bcache s) q = Some t" "last_pc rv' = q" by (auto simp: linked_ok_def)
qed

lemma chain_Bht:
  assumes "links_ok s" "cache_map (bcache s) p = Some b"
    and "exec env (ir_list (blocks (bcache s) b)) rv c p = Bht rv' c' q"
  shows "taken_target (last (ir_list (blocks (bcache s) b))) = None"
proof -
  obtain rv1 c1 where "exec env [last (ir_list (blocks (bcache s) b))] rv1 c1
      (pc (last (ir_list (blocks (bcache s) b)))) = Bht rv' c' q"
    using chain_exec [OF assms(1,2) refl, of env rv c] assms(3) by auto
  then show ?thesis by (rule exec_Bht_indirect)
qed

lemma chain_Ret:
  assumes "links_ok s" "cache_map (bcache s) p = Some b"
    and "exec env (ir_list (blocks (bcache s) b)) rv c p = Ret True rv'"
  shows "settled (last (ir_list (blocks (bcache s) b))) rv'"
proof -
  obtain rv1 c1 where "exec env [last (ir_list (blocks (bcache s) b))] rv1 c1
      (pc (last (ir_list (blocks (bcache s) b)))) = Ret True rv'"
    using chain_exec [OF assms(1,2) refl, of env rv c] assms(3) by auto
  then show ?thesis by (rule exec_Ret_settled)
qed

text \<open>One block of the chain, seen from both sides.\<close>

lemma chain_step:
  assumes env: "env_keeps_last env"
    and ok: "cache_ok (bcache s)" "cache_room (bcache s)" "links_ok s" "chain_at s b p"
    and r: "exec env (ir_list (blocks (bcache s) b)) (rvs s) c p = r"
  shows
    "r = Ret k rv \<Longrightarrow> chain_post s (s\<lparr>rvs := rv\<rparr>) k"
    "r = Tail t rv c' q \<Longrightarrow> cache_map (bcache s) q = Some t \<and> chain_at (s\<lparr>rvs := rv\<rparr>) t q"
    "r = Bht rv c' q \<Longrightarrow> \<exists>s'. bht_lookup (s\<lparr>rvs := rv\<rparr>) b q = Some (s', cache_map (bcache s) q) \<and>
       links_ok s' \<and> bcache s' = bcache s \<and> rvs s' = rv \<and> prev s' = prev s \<and>
       (\<forall>t. cache_map (bcache s) q = Some t \<longrightarrow> chain_at s' t q) \<and>
       chain_post s (s'\<lparr>rvs := rv\<lparr>csr_cycle := c', PC := q\<rparr>\<rparr>) True"
proof -
  from ok(4) obtain z where b: "cache_map (bcache s) p = Some b"
    and z: "cache_map (bcache s) (last_pc (rvs s)) = Some z"
    and zb: "z = b \<or> taken_target (last (ir_list (blocks (bcache s) z))) = None"
    by (auto simp: chain_at_def)
  have l: "keeps_last (last_pc (rvs s)) r" using exec_last [OF env refl] r by blast
  show "chain_post s (s\<lparr>rvs := rv\<rparr>) k" if "r = Ret k rv"
    using that l z zb ok(3) r chain_Ret [OF ok(3) b] by (auto simp: chain_post_def settled_None)
  show "cache_map (bcache s) q = Some t \<and> chain_at (s\<lparr>rvs := rv\<rparr>) t q" if "r = Tail t rv c' q"
    using chain_Tail [OF ok(3) b] r that by (simp add: chain_at_def)
  show "\<exists>s'. bht_lookup (s\<lparr>rvs := rv\<rparr>) b q = Some (s', cache_map (bcache s) q) \<and>
       links_ok s' \<and> bcache s' = bcache s \<and> rvs s' = rv \<and> prev s' = prev s \<and>
       (\<forall>t. cache_map (bcache s) q = Some t \<longrightarrow> chain_at s' t q) \<and>
       chain_post s (s'\<lparr>rvs := rv\<lparr>csr_cycle := c', PC := q\<rparr>\<rparr>) True" if bht: "r = Bht rv c' q"
  proof -
    have tt: "taken_target (last (ir_list (blocks (bcache s) z))) = None"
      using chain_Bht [OF ok(3) b, of env "rvs s" c rv c' q] r bht zb by auto
    have lp: "last_pc rv = last_pc (rvs s)" using l bht by simp
    obtain s' where "bht_lookup (s\<lparr>rvs := rv\<rparr>) b q = Some (s', cache_map (bcache s) q)" "links_ok s'"
      "bcache s' = bcache s" "rvs s' = rv" "prev s' = prev s"
      using bht_lookup_correct [of "s\<lparr>rvs := rv\<rparr>" p b q] ok b by auto
    then show ?thesis
      using tt lp z by (auto simp: chain_at_def chain_post_def settled_None)
  qed
qed

lemma chain_post_trans: "chain_post s' s'' k \<Longrightarrow> bcache s' = bcache s \<Longrightarrow> prev s' = prev s \<Longrightarrow> chain_post s s'' k"
  by (simp add: chain_post_def)

definition chain_agrees :: "emu \<Rightarrow> (emu \<times> bool) run \<Rightarrow> (riscv \<times> bool) run \<Rightarrow> bool" where
  "chain_agrees s r r' \<longleftrightarrow> (case r of
      Crash \<Rightarrow> r' = Crash
    | Ok (s', k) \<Rightarrow> r' = Ok (rvs s', k) \<and> chain_post s s' k)"

lemma chain_agrees_trans:
  "chain_agrees s' r r' \<Longrightarrow> bcache s' = bcache s \<Longrightarrow> prev s' = prev s \<Longrightarrow> chain_agrees s r r'"
  by (auto simp: chain_agrees_def chain_post_def split: run.splits)

definition chain_start :: "emu \<Rightarrow> block_ptr \<Rightarrow> u32 \<Rightarrow> bool" where
  "chain_start s b p \<longleftrightarrow> cache_ok (bcache s) \<and> cache_room (bcache s) \<and> links_ok s \<and> chain_at s b p"

lemma run_chain_ref:
  assumes "env_keeps_last env"
  shows "run_chain env b s c p = Some r \<Longrightarrow> chain_start s b p \<Longrightarrow>
    \<exists>r'. run_ref env (bcache s) b (rvs s) c p = Some r' \<and> chain_agrees s r r'"
proof -
  define P where "P env b s c p r \<longleftrightarrow> (env_keeps_last env \<longrightarrow> chain_start s b p \<longrightarrow>
    (\<exists>r'. run_ref env (bcache s) b (rvs s) c p = Some r' \<and> chain_agrees s r r'))" for env b s c p r
  have "P env b s c p r" if "run_chain env b s c p = Some r"
  proof (rule run_chain.raw_induct [where P = P, OF _ that])
    fix rec :: "env \<Rightarrow> block_ptr \<Rightarrow> emu \<Rightarrow> u64 \<Rightarrow> u32 \<Rightarrow> (emu \<times> bool) run option"
      and env b s c p r
    assume IH: "\<And>env b s c p r. rec env b s c p = Some r \<Longrightarrow> P env b s c p r"
      and step: "(case exec env (ir_list (blocks (bcache s) b)) (rvs s) c p of
       Ret k rv \<Rightarrow> Some (Ok (s\<lparr>rvs := rv\<rparr>, k))
     | Tail t rv c q \<Rightarrow> rec env t (s\<lparr>rvs := rv\<rparr>) c q
     | Bht rv c q \<Rightarrow>
         (case bht_lookup (s\<lparr>rvs := rv\<rparr>) b q of
            None \<Rightarrow> None
          | Some (s, Some t) \<Rightarrow> rec env t s c q
          | Some (s, None) \<Rightarrow> Some (Ok (s\<lparr>rvs := (rvs s)\<lparr>csr_cycle := c, PC := q\<rparr>\<rparr>, True)))
     | _ \<Rightarrow> Some Crash) = Some r"
    show "P env b s c p r"
      unfolding P_def
    proof (intro impI)
      assume env: "env_keeps_last env" and start: "chain_start s b p"
      then have ok: "cache_ok (bcache s)" "cache_room (bcache s)" "links_ok s" "chain_at s b p"
        by (simp_all add: chain_start_def)
      note cs = chain_step [OF env ok refl]
      show "\<exists>r'. run_ref env (bcache s) b (rvs s) c p = Some r' \<and> chain_agrees s r r'"
      proof (cases "exec env (ir_list (blocks (bcache s) b)) (rvs s) c p")
        case (Ret k rv)
        then show ?thesis using step cs(1) by (auto simp: run_ref.simps chain_agrees_def)
      next
        case (Tail t rv c' q)
        then have t: "cache_map (bcache s) q = Some t" and at': "chain_at (s\<lparr>rvs := rv\<rparr>) t q" using cs(2) by blast+
        have "P env t (s\<lparr>rvs := rv\<rparr>) c' q r" using IH step Tail by simp
        then obtain r' where "run_ref env (bcache s) t rv c' q = Some r'" "chain_agrees (s\<lparr>rvs := rv\<rparr>) r r'"
          using env at' ok by (auto simp: P_def chain_start_def)
        with Tail t show ?thesis by (auto simp: run_ref.simps [of env _ b] intro: chain_agrees_trans)
      next
        case (Bht rv c' q)
        obtain s' where s': "bht_lookup (s\<lparr>rvs := rv\<rparr>) b q = Some (s', cache_map (bcache s) q)" "links_ok s'"
          "bcache s' = bcache s" "rvs s' = rv" "prev s' = prev s"
          "\<forall>t. cache_map (bcache s) q = Some t \<longrightarrow> chain_at s' t q"
          "chain_post s (s'\<lparr>rvs := rv\<lparr>csr_cycle := c', PC := q\<rparr>\<rparr>) True"
          using cs(3) [OF Bht] by blast
        show ?thesis
        proof (cases "cache_map (bcache s) q")
          case None
          then show ?thesis using step Bht s' by (auto simp: run_ref.simps chain_agrees_def)
        next
          case (Some t)
          have "P env t s' c' q r" using IH step Bht s'(1) Some by simp
          then obtain r' where "run_ref env (bcache s) t rv c' q = Some r'" "chain_agrees s' r r'"
            using env s' Some ok by (auto simp: P_def chain_start_def)
          with Bht Some s' show ?thesis by (auto simp: run_ref.simps [of env _ b] intro: chain_agrees_trans)
        qed
      qed (use step in \<open>auto simp: run_ref.simps chain_agrees_def\<close>)
    qed
  qed
  then show "run_chain env b s c p = Some r \<Longrightarrow> chain_start s b p \<Longrightarrow>
    \<exists>r'. run_ref env (bcache s) b (rvs s) c p = Some r' \<and> chain_agrees s r r'" using assms by (simp add: P_def)
qed

lemma run_ref_chain:
  assumes "env_keeps_last env" "run_ref env bc b rv c p = Some r'"
    and "chain_start s b p" "bcache s = bc" "rvs s = rv"
  shows "\<exists>r. run_chain env b s c p = Some r"
proof -
  define P where "P env bc b rv c p (r' :: (riscv \<times> bool) run) \<longleftrightarrow> (env_keeps_last env \<longrightarrow>
    (\<forall>s. chain_start s b p \<longrightarrow> bcache s = bc \<longrightarrow> rvs s = rv \<longrightarrow> (\<exists>r. run_chain env b s c p = Some r)))"
    for env bc b rv c p r'
  have "P env bc b rv c p r'"
  proof (rule run_ref.raw_induct [where P = P, OF _ assms(2)])
    fix rec :: "env \<Rightarrow> block_cache \<Rightarrow> block_ptr \<Rightarrow> riscv \<Rightarrow> u64 \<Rightarrow> u32 \<Rightarrow> (riscv \<times> bool) run option"
      and env bc b rv c p r'
    assume IH: "\<And>env bc b rv c p r'. rec env bc b rv c p = Some r' \<Longrightarrow> P env bc b rv c p r'"
      and step: "(case exec env (ir_list (blocks bc b)) rv c p of
       Ret k rv \<Rightarrow> Some (Ok (rv, k))
     | Tail t rv c q \<Rightarrow>
         (case cache_map bc q of
            None \<Rightarrow> Some Crash
          | Some t \<Rightarrow> rec env bc t rv c q)
     | Bht rv c q \<Rightarrow>
         (case cache_map bc q of
            None \<Rightarrow> Some (Ok (rv\<lparr>csr_cycle := c, PC := q\<rparr>, True))
          | Some t \<Rightarrow> rec env bc t rv c q)
     | _ \<Rightarrow> Some Crash) = Some r'"
    show "P env bc b rv c p r'"
      unfolding P_def
    proof (intro impI allI)
      fix s
      assume env: "env_keeps_last env" and start: "chain_start s b p" and eq: "bcache s = bc" "rvs s = rv"
      then have ok: "cache_ok (bcache s)" "cache_room (bcache s)" "links_ok s" "chain_at s b p"
        by (simp_all add: chain_start_def)
      note cs = chain_step [OF env ok refl]
      show "\<exists>r. run_chain env b s c p = Some r"
      proof (cases "exec env (ir_list (blocks (bcache s) b)) (rvs s) c p")
        case (Tail t rv' c' q)
        then have t: "cache_map (bcache s) q = Some t" and at': "chain_at (s\<lparr>rvs := rv'\<rparr>) t q" using cs(2) by blast+
        have "P env bc t rv' c' q r'" using IH step Tail t eq by simp
        then have "\<exists>r. run_chain env t (s\<lparr>rvs := rv'\<rparr>) c' q = Some r"
          using env at' ok eq by (simp add: P_def chain_start_def)
        with Tail show ?thesis by (simp add: run_chain.simps [of env b s])
      next
        case (Bht rv' c' q)
        obtain s' where s': "bht_lookup (s\<lparr>rvs := rv'\<rparr>) b q = Some (s', cache_map (bcache s) q)" "links_ok s'"
          "bcache s' = bcache s" "rvs s' = rv'" "\<forall>t. cache_map (bcache s) q = Some t \<longrightarrow> chain_at s' t q"
          using cs(3) [OF Bht] by blast
        show ?thesis
        proof (cases "cache_map (bcache s) q")
          case None
          then show ?thesis using Bht s' by (simp add: run_chain.simps [of env b s])
        next
          case (Some t)
          have "P env bc t rv' c' q r'" using IH step Bht Some eq by simp
          then have "\<exists>r. run_chain env t s' c' q = Some r"
            using env s' Some ok eq by (simp add: P_def chain_start_def)
          with Bht Some s' show ?thesis by (simp add: run_chain.simps [of env b s])
        qed
      qed (simp_all add: run_chain.simps)
    qed
  qed
  then show ?thesis using assms by (simp add: P_def)
qed

definition run_result :: "(emu \<times> bool) run \<Rightarrow> (riscv \<times> bool) run" where
  "run_result r = (case r of Crash \<Rightarrow> Crash | Ok (s, k) \<Rightarrow> Ok (rvs s, k))"

lemma chain_agrees_result: "chain_agrees s r r' \<Longrightarrow> r' = run_result r"
  by (auto simp: chain_agrees_def run_result_def split: run.splits)

lemma run_chain_eq:
  assumes "env_keeps_last env" "chain_start s b p"
  shows "map_option run_result (run_chain env b s c p) = run_ref env (bcache s) b (rvs s) c p"
proof (cases "run_chain env b s c p")
  case None
  then show ?thesis using run_ref_chain [OF assms(1) _ assms(2) refl refl, of c]
    by (cases "run_ref env (bcache s) b (rvs s) c p") auto
next
  case (Some r)
  then show ?thesis using run_chain_ref [OF assms(1) Some assms(2)] by (auto dest: chain_agrees_result)
qed

end
