(* ===== verification/Step_Inv.thy ===== *)
theory Step_Inv
  imports Chain
begin

unbundle bit_operations_syntax

text \<open>
  The invariant of the step loop: the blocks it makes are well formed, the links it installs
  lead to the blocks of the table, and so one iteration of the loop is one lookup per transfer
  of control.
\<close>

section \<open>New blocks\<close>

text \<open>What \<^verbatim>\<open>optimize_constant\<close> keeps of an instruction.\<close>

definition same_shape :: "rv_insn \<Rightarrow> rv_insn \<Rightarrow> bool" where
  "same_shape ir ir' \<longleftrightarrow> pc ir' = pc ir \<and> rv_insn_len (opcode ir') = rv_insn_len (opcode ir) \<and>
     is_fused (opcode ir') = is_fused (opcode ir) \<and>
     insn_is_branch (opcode ir') = insn_is_branch (opcode ir) \<and>
     (opcode ir' = S_op Rv_wfi \<longrightarrow> opcode ir = S_op Rv_wfi) \<and> (unchained ir \<longrightarrow> unchained ir')"

lemma constopt_shape:
  "opcode ir = I_op b \<Longrightarrow> same_shape ir (fst (constopt_base_op b ir info))"
  "opcode ir = M_op m \<Longrightarrow> same_shape ir (fst (constopt_mul_op m ir info))"
  "opcode ir = C_op z \<Longrightarrow> same_shape ir (fst (constopt_c_op z ir info))"
    apply (cases b; simp add: same_shape_def constopt_defs Let_def unchained_def)
   apply (cases m; simp add: same_shape_def constopt_defs Let_def unchained_def)
  apply (cases z; simp add: same_shape_def constopt_defs Let_def unchained_def)
  done

lemma constopt_step_shape: "same_shape ir (fst (constopt_step ir info))"
  using constopt_shape [of ir] by (cases "opcode ir") (simp_all add: same_shape_def)

text \<open>Code as the two passes find it: consecutive, unlinked and with no branch before its end.\<close>

definition straight :: "u32 \<Rightarrow> rv_insn list \<Rightarrow> bool" where
  "straight p irs \<longleftrightarrow> pcs_from p irs \<and> (\<forall>ir \<in> set irs. unchained ir \<and> \<not> is_fused (opcode ir)) \<and>
     (\<forall>ir \<in> set (butlast irs). \<not> insn_is_branch (opcode ir) \<and> opcode ir \<noteq> S_op Rv_wfi)"

lemma straight_Cons:
  "straight p (ir # irs) \<longleftrightarrow> pc ir = p \<and> unchained ir \<and> \<not> is_fused (opcode ir) \<and>
     (irs \<noteq> [] \<longrightarrow> \<not> insn_is_branch (opcode ir) \<and> opcode ir \<noteq> S_op Rv_wfi) \<and>
     straight (p + rv_insn_len (opcode ir)) irs"
  by (auto simp: straight_def)

lemma straight_Nil [simp]: "straight p []"
  by (simp add: straight_def)

lemma constopt_loop_Cons:
  obtains ir' info' where "same_shape ir ir'" "constopt_loop (ir # irs) info = ir' # constopt_loop irs info'"
  using constopt_step_shape [of ir info] by (cases "constopt_step ir info") simp

lemma constopt_loop_straight: "straight p irs \<Longrightarrow> straight p (constopt_loop irs info)"
proof (induction irs arbitrary: p info)
  case (Cons ir irs)
  obtain ir' info' where "same_shape ir ir'" and eq: "constopt_loop (ir # irs) info = ir' # constopt_loop irs info'"
    by (rule constopt_loop_Cons)
  with Cons show ?case unfolding eq by (auto simp: straight_Cons same_shape_def)
qed simp

lemma constopt_loop_last:
  "irs \<noteq> [] \<Longrightarrow> insn_is_branch (opcode (last (constopt_loop irs info))) = insn_is_branch (opcode (last irs))"
proof (induction irs arbitrary: info)
  case (Cons ir irs)
  obtain ir' info' where "same_shape ir ir'" and eq: "constopt_loop (ir # irs) info = ir' # constopt_loop irs info'"
    by (rule constopt_loop_Cons)
  with Cons show ?case unfolding eq by (auto simp: same_shape_def)
qed simp

text \<open>A fused instruction covers the bytes of the instructions it replaces.\<close>

lemma straight_drop:
  "straight p irs \<Longrightarrow> \<forall>g \<in> set (take n irs). rv_insn_len (opcode g) = 4 \<Longrightarrow> n \<le> length irs \<Longrightarrow>
   straight (p + of_nat n * 4) (drop n irs)"
proof (induction n arbitrary: p irs)
  case (Suc n)
  then obtain ir irs' where irs: "irs = ir # irs'" by (cases irs) auto
  with Suc show ?case using Suc.IH [of "p + 4" irs'] by (auto simp: straight_Cons algebra_simps)
qed simp

text \<open>What one round of fusion makes of the code at \<open>p\<close>: an instruction and the code behind it.\<close>

definition fused_ok :: "u32 \<Rightarrow> rv_insn list \<Rightarrow> rv_insn \<times> rv_insn list \<Rightarrow> bool" where
  "fused_ok p irs q \<longleftrightarrow> (case q of (ir', rest') \<Rightarrow>
     pc ir' = p \<and> unchained ir' \<and> straight (p + step_len ir') rest' \<and>
     (rest' = [] \<longrightarrow> \<not> insn_is_branch (opcode (last irs)) \<longrightarrow> untaken_target ir' = None) \<and>
     (rest' \<noteq> [] \<longrightarrow> body_ok ir' \<and> last rest' = last irs))"

lemma step_len_plain: "\<not> is_fused (opcode ir) \<Longrightarrow> step_len ir = rv_insn_len (opcode ir)"
  by (cases "opcode ir") (simp_all add: step_len_def)

lemma fused_ok_id:
  assumes "straight p (ir # n # rest)"
  shows "fused_ok p (ir # n # rest) (ir, n # rest)"
  using assms by (auto simp: fused_ok_def straight_Cons step_len_plain body_ok_def)

lemma fused_ok_pair:
  assumes "straight p (ir # n # rest)" "rv_insn_len (opcode ir) = 4" "rv_insn_len (opcode n) = 4"
    and "pc ir' = pc ir" "unchained ir'" "step_len ir' = 8"
    and "insn_is_branch (opcode n) \<or> body_ok ir' \<and> untaken_target ir' = None"
  shows "fused_ok p (ir # n # rest) (ir', rest)"
  using assms by (auto simp: fused_ok_def straight_Cons algebra_simps)

lemma fused_ok_seq:
  assumes "straight p (ir # rest)" "rest \<noteq> []" "Q ir" "\<And>g. Q g \<Longrightarrow> rv_insn_len (opcode g) = 4"
    and "count = 1 + length (takeWhile Q rest)"
    and "f \<in> {Rv_fuse1, Rv_fuse3, Rv_fuse4, Rv_fuse5, Rv_fuse7}"
  shows "fused_ok p (ir # rest) (try_fuse_sequence alloc ir rest count (Fuse_op f))"
proof (cases "count \<le> 1 \<or> count > 16 \<or> \<not> alloc ir")
  case True
  then show ?thesis using assms(1,2) fused_ok_id [of p ir "hd rest" "tl rest"]
    by (auto simp: try_fuse_sequence_def)
next
  case False
  have "\<forall>g \<in> set (take count (ir # rest)). rv_insn_len (opcode g) = 4"
    using assms(3-5) takeWhile_prefix [of "count - 1" Q rest] False
    by (cases count) auto
  moreover have "count \<le> length (ir # rest)"
    using assms(5) length_takeWhile_le [of Q rest] by simp
  ultimately have "straight (p + of_nat count * 4) (drop count (ir # rest))"
    using straight_drop [OF assms(1)] by blast
  moreover have "drop count (ir # rest) = drop (count - 1) rest" using False by (cases count) auto
  ultimately show ?thesis
    using False assms(1,6) by (auto simp: try_fuse_sequence_def fused_ok_def remove_next_nth_ir_def straight_Cons
        step_len_def untaken_target_def body_ok_def unchained_def)
qed

lemmas fuse_shape_defs = step_len_def untaken_target_def body_ok_def unchained_def

lemma fused_ok_match_lui:
  assumes "straight p (ir # n # rest)" "opcode ir = I_op Rv_lui"
  shows "fused_ok p (ir # n # rest) (match_lui alloc ir n (n # rest))"
proof (cases "opcode n = I_op Rv_lui")
  case True
  have "fused_ok p (ir # n # rest) (try_fuse_sequence alloc ir (n # rest)
      (count_consecutive_insn (n # rest) (I_op Rv_lui)) (Fuse_op Rv_fuse1))"
    using assms by (intro fused_ok_seq [where Q = "\<lambda>g. opcode g = I_op Rv_lui"])
      (auto simp: count_consecutive_insn_def)
  with True show ?thesis by (simp add: match_lui_def)
next
  case False
  then show ?thesis
    using assms fused_ok_id [OF assms(1)]
    by (auto simp: match_lui_def fuse_shape_defs remove_next_nth_ir_def straight_Cons
        intro!: fused_ok_pair)
qed

lemma fused_ok_match_lw:
  assumes "straight p (ir # n # rest)" "opcode ir = I_op Rv_lw"
  shows "fused_ok p (ir # n # rest) (match_lw alloc ir n (n # rest))"
proof -
  have "fused_ok p (ir # n # rest) (try_fuse_sequence alloc ir (n # rest)
      (count_consecutive_insn (n # rest) (I_op Rv_lw)) (Fuse_op Rv_fuse4))"
    using assms by (intro fused_ok_seq [where Q = "\<lambda>g. opcode g = I_op Rv_lw"])
      (auto simp: count_consecutive_insn_def)
  then show ?thesis
    using assms by (auto simp: match_lw_def fuse_shape_defs remove_next_nth_ir_def straight_Cons
        intro!: fused_ok_pair)
qed

lemma fused_ok_match_addi:
  assumes "straight p (ir # n # rest)" "opcode ir = I_op Rv_addi"
  shows "fused_ok p (ir # n # rest) (match_addi alloc ir n (n # rest))"
proof -
  have "fused_ok p (ir # n # rest) (try_fuse_sequence alloc ir (n # rest)
      (count_consecutive_insn (n # rest) (I_op Rv_addi)) (Fuse_op Rv_fuse7))"
    using assms by (intro fused_ok_seq [where Q = "\<lambda>g. opcode g = I_op Rv_addi"])
      (auto simp: count_consecutive_insn_def)
  then show ?thesis
    using assms by (auto simp: match_addi_def fuse_shape_defs remove_next_nth_ir_def straight_Cons
        intro!: fused_ok_pair)
qed

lemma fused_ok_match_one:
  assumes "straight p (ir # n # rest)"
  shows "fused_ok p (ir # n # rest) (match_one alloc ir (n # rest))"
proof -
  have "fused_ok p (ir # n # rest) (try_fuse_sequence alloc ir (n # rest)
      (count_consecutive_insn (n # rest) (I_op Rv_sw)) (Fuse_op Rv_fuse3))" if "opcode ir = I_op Rv_sw"
    using assms that by (intro fused_ok_seq [where Q = "\<lambda>g. opcode g = I_op Rv_sw"])
      (auto simp: count_consecutive_insn_def)
  moreover have "fused_ok p (ir # n # rest) (try_fuse_sequence alloc ir (n # rest)
      (count_consecutive_shift (n # rest)) (Fuse_op Rv_fuse5))" if "is_shift_imm ir"
    using assms that by (intro fused_ok_seq [where Q = is_shift_imm])
      (auto simp: count_consecutive_shift_def is_shift_imm_def)
  ultimately show ?thesis
    using fused_ok_match_lui [OF assms] fused_ok_match_lw [OF assms] fused_ok_match_addi [OF assms] fused_ok_id [OF assms]
    by (simp add: match_one_def Let_def)
qed

lemma match_pattern_block:
  "straight p irs \<Longrightarrow> irs \<noteq> [] \<Longrightarrow>
   pcs_chain p (match_pattern alloc irs) \<and> (\<forall>ir \<in> set (butlast (match_pattern alloc irs)). body_ok ir) \<and>
   unchained (last (match_pattern alloc irs)) \<and>
   (\<not> insn_is_branch (opcode (last irs)) \<longrightarrow> untaken_target (last (match_pattern alloc irs)) = None)"
proof (induction alloc irs arbitrary: p rule: match_pattern.induct)
  case (1 alloc ir n rest)
  obtain ir' rest' where m: "match_one alloc ir (n # rest) = (ir', rest')" by fastforce
  have f: "fused_ok p (ir # n # rest) (ir', rest')" using fused_ok_match_one [OF "1.prems"(1)] m by metis
  show ?case
  proof (cases "rest' = []")
    case True
    with f m show ?thesis by (auto simp: fused_ok_def)
  next
    case False
    with f have f': "pc ir' = p" "straight (p + step_len ir') rest'" "body_ok ir'" "last rest' = last (n # rest)"
      by (auto simp: fused_ok_def)
    from "1.IH" [OF m [symmetric] f'(2) False] f' False m show ?thesis by auto
  qed
qed (auto simp: straight_Cons untaken_target_def split: if_splits)

text \<open>
  \<open>quiet\<close>: the code at the PC can be translated without raising a trap (which would move the PC
  away from the block being made), and has no \<^verbatim>\<open>wfi\<close> in the middle.
\<close>

definition quiet :: "riscv \<Rightarrow> bool" where
  "quiet rv \<longleftrightarrow> (case translate_loop (mem_base rv) (PC rv) (PC rv) of (irs, e, r) \<Rightarrow>
     (\<forall>insn. r \<noteq> Illegal insn) \<and> (\<forall>ir \<in> set (butlast irs). opcode ir \<noteq> S_op Rv_wfi))"

text \<open>
  \<open>calm\<close>: if the loop is about to translate a block, the code is quiet. What is already in the table
  is run as it is.
\<close>

definition calm :: "emu \<Rightarrow> bool" where
  "calm s \<longleftrightarrow> (cache_map (bcache s) (PC (rvs s)) = None \<longrightarrow> quiet (rvs s))"

lemma translate_loop_page_end:
  "translate_loop m start a = (irs, e, Page_end) \<Longrightarrow> irs \<noteq> [] \<and> \<not> insn_is_branch (opcode (last irs))"
proof (induction irs arbitrary: a)
  case Nil
  then show ?case by (cases rule: translate_loop_cases) simp_all
next
  case (Cons ir irs)
  from Cons.prems show ?case
  proof (cases rule: translate_loop_cases)
    case (more ir' irs')
    then show ?thesis using Cons.IH by auto
  qed (auto split: if_splits)
qed

lemma new_block_ok:
  assumes "quiet rv" "new_block alloc rv = Some (rv', b)"
  shows "rv' = rv"
    "b = Some blk \<Longrightarrow> block_ok blk \<and> pc_start blk = PC rv \<and> unchained (last (ir_list blk))"
proof -
  obtain irs e r where t: "translate_loop (mem_base rv) (PC rv) (PC rv) = (irs, e, r)" by (metis prod.collapse)
  have q: "\<forall>insn. r \<noteq> Illegal insn" "\<forall>ir \<in> set (butlast irs). opcode ir \<noteq> S_op Rv_wfi"
    using assms(1) by (simp_all add: quiet_def t)
  then show "rv' = rv"
    using assms(2) by (auto simp: new_block_def block_translate_def t Let_def split: stop_reason.splits option.splits if_splits)
  note sh = translate_loop_shape [OF t]
  have st: "straight (PC rv) irs"
    using sh q(2) decoded_at_ok(1,2) by (auto simp: straight_def)
  assume b: "b = Some blk"
  let ?irs = "constopt_loop irs info0"
  have blk: "irs \<noteq> []" "ir_list blk = match_pattern alloc ?irs" "pc_start blk = PC rv" "page_terminated blk = (r = Page_end)"
    using assms(2) b q(1)
    by (auto simp: new_block_def block_translate_def t Let_def optimize_constant_def split: stop_reason.splits option.splits if_splits)
  show "block_ok blk \<and> pc_start blk = PC rv \<and> unchained (last (ir_list blk))"
    using match_pattern_block [OF constopt_loop_straight [OF st], of info0 alloc] blk constopt_loop_last [OF blk(1), of info0]
      translate_loop_page_end [of "mem_base rv" "PC rv" "PC rv" irs e] t by (auto simp: block_ok_def)
qed

section \<open>Changes to the blocks\<close>

text \<open>The table reads nothing of its blocks but their addresses.\<close>

lemma slots_cong:
  assumes "\<And>b. Some b \<in> set slots \<Longrightarrow> pc_start (bs' b) = pc_start (bs b)"
  shows "slots_ok bs' slots = slots_ok bs slots" "slots_map bs' slots = slots_map bs slots"
proof -
  have e: "pc_start (bs' b) = pc_start (bs b)" if "length slots = 1024" "i < 1024" "slots ! i = Some b" for i b
    using that assms [of b] nth_mem [of i slots] by metis
  show "slots_ok bs' slots = slots_ok bs slots"
    unfolding slots_ok_def by (intro conj_cong refl) (auto simp: e)
  have "(case x of None \<Rightarrow> False | Some b \<Rightarrow> pc_start (bs' b) = addr) =
      (case x of None \<Rightarrow> False | Some b \<Rightarrow> pc_start (bs b) = addr)" if "x \<in> set slots" for x addr
    using that assms by (auto split: option.splits)
  then show "slots_map bs' slots = slots_map bs slots"
    by (intro ext) (simp add: slots_map_def cong: List.find_cong)
qed

lemma cache_cong:
  assumes "\<And>b. Some b \<in> set (map_slots bc) \<Longrightarrow> pc_start (bs b) = pc_start (blocks bc b)"
  shows "cache_map (bc\<lparr>blocks := bs, n_blocks := n\<rparr>) = cache_map bc"
    "cache_ok (bc\<lparr>blocks := bs, n_blocks := n\<rparr>) = cache_ok bc"
proof -
  show m: "cache_map (bc\<lparr>blocks := bs, n_blocks := n\<rparr>) = cache_map bc"
    using slots_cong(2) [of "map_slots bc", OF assms] by (simp add: cache_map_def)
  show "cache_ok (bc\<lparr>blocks := bs, n_blocks := n\<rparr>) = cache_ok bc"
    unfolding cache_ok_def l1_ok_def m using slots_cong(1) [of "map_slots bc", OF assms] by simp
qed

lemma set_tail_simps [simp]:
  "pc_start (blocks (set_tail f q bc) b) = pc_start (blocks bc b)"
  "page_terminated (blocks (set_tail f q bc) b) = page_terminated (blocks bc b)"
  "n_blocks (set_tail f q bc) = n_blocks bc" "map_size (set_tail f q bc) = map_size bc"
  by (simp_all add: set_tail_def Let_def)

lemma set_tail_cache [simp]:
  "cache_map (set_tail f q bc) = cache_map bc" "cache_ok (set_tail f q bc) = cache_ok bc"
proof -
  let ?bs = "blocks (set_tail f q bc)"
  have eq: "set_tail f q bc = bc\<lparr>blocks := ?bs, n_blocks := n_blocks bc\<rparr>" by (simp add: set_tail_def Let_def)
  have "cache_map (bc\<lparr>blocks := ?bs, n_blocks := n_blocks bc\<rparr>) = cache_map bc"
    "cache_ok (bc\<lparr>blocks := ?bs, n_blocks := n_blocks bc\<rparr>) = cache_ok bc"
    by (rule cache_cong; simp)+
  then show "cache_map (set_tail f q bc) = cache_map bc" "cache_ok (set_tail f q bc) = cache_ok bc"
    using eq by simp_all
qed

lemma set_tail_ir_list:
  "ir_list (blocks (set_tail f q bc) b) = (if b = q then butlast (ir_list (blocks bc b)) @ [f (last (ir_list (blocks bc b)))]
     else ir_list (blocks bc b))"
  by (simp add: set_tail_def Let_def)

text \<open>A change of the links of an instruction.\<close>

definition relink :: "(rv_insn \<Rightarrow> rv_insn) \<Rightarrow> bool" where
  "relink f \<longleftrightarrow> (\<forall>ir. opcode (f ir) = opcode ir \<and> pc (f ir) = pc ir \<and> imm (f ir) = imm ir \<and> imm2 (f ir) = imm2 ir)"

lemma relink_simps:
  assumes "relink f"
  shows "taken_target (f ir) = taken_target ir" "untaken_target (f ir) = untaken_target ir"
    "settled (f ir) rv = settled ir rv"
  using assms by (simp_all add: relink_def taken_target_def untaken_target_def settled_def)

lemma pcs_chain_append: "pcs_chain p (xs @ [x]) = (pcs_chain p xs \<and> pc x = p + sum_list (map step_len xs))"
  by (induction xs arbitrary: p) (auto simp: algebra_simps)

lemma block_ok_relink:
  assumes "relink f" "block_ok blk"
  shows "block_ok (blk\<lparr>ir_list := butlast (ir_list blk) @ [f (last (ir_list blk))]\<rparr>)"
proof -
  have "pcs_chain (pc_start blk) (butlast (ir_list blk) @ [last (ir_list blk)])"
    using assms(2) by (simp add: block_ok_def)
  then have "pcs_chain (pc_start blk) (butlast (ir_list blk) @ [f (last (ir_list blk))])"
    using assms(1) by (simp add: pcs_chain_append relink_def)
  with assms show ?thesis by (simp add: block_ok_def relink_simps)
qed

lemma links_ok_set_tail:
  assumes "links_ok s" "relink f"
    and "linked_ok (cache_map (bcache s)) (f (last (ir_list (blocks (bcache s) q))))"
  shows "links_ok (s\<lparr>bcache := set_tail f q (bcache s)\<rparr>)"
  unfolding links_ok_def
proof (intro allI impI; simp)
  fix a b assume b: "cache_map (bcache s) a = Some b"
  have "blocks (set_tail f q (bcache s)) q =
      (blocks (bcache s) q)\<lparr>ir_list := butlast (ir_list (blocks (bcache s) q)) @ [f (last (ir_list (blocks (bcache s) q)))]\<rparr>"
    "b \<noteq> q \<Longrightarrow> blocks (set_tail f q (bcache s)) b = blocks (bcache s) b"
    by (simp_all add: set_tail_def Let_def)
  with assms b show "pc_start (blocks (bcache s) b) = a \<and> b < n_blocks (bcache s) \<and>
      block_ok (blocks (set_tail f q (bcache s)) b) \<and>
      linked_ok (cache_map (bcache s)) (last (ir_list (blocks (set_tail f q (bcache s)) b))) \<and>
      history_ok (cache_map (bcache s)) (bht s b)"
    by (cases "b = q") (auto simp: links_ok_def block_ok_relink)
qed

section \<open>The table\<close>

text \<open>
  What holds of the table in every state of the loop, whatever code it translates: it is well
  formed, it has room, and every block stands under its own address.
\<close>

definition table_ok :: "emu \<Rightarrow> bool" where
  "table_ok s \<longleftrightarrow> cache_ok (bcache s) \<and> unat (map_size (bcache s)) \<le> 820 \<and>
     (\<forall>a b. cache_map (bcache s) a = Some b \<longrightarrow> pc_start (blocks (bcache s) b) = a \<and> b < n_blocks (bcache s))"

text \<open>
  Finding a block, on the map from addresses to blocks instead of the hash table and its
  first-level cache: the machine, and unless there is no code, the block, the map and the code.
\<close>

definition find_spec :: "(rv_insn \<Rightarrow> bool) \<Rightarrow> emu \<Rightarrow>
    (riscv \<times> (block_ptr \<times> (u32 \<Rightarrow> block_ptr option) \<times> (block_ptr \<Rightarrow> block)) option) run" where
  "find_spec alloc s =
    (let m = cache_map (bcache s); code = blocks (bcache s); n = n_blocks (bcache s) in
     case m (PC (rvs s)) of
       Some b \<Rightarrow> Ok (rvs s, Some (b, m, code))
     | None \<Rightarrow>
         (case new_block alloc (rvs s) of
            None \<Rightarrow> Crash
          | Some (rv, None) \<Rightarrow> Ok (rv, None)
          | Some (rv, Some blk) \<Rightarrow>
              Ok (rv, Some (n, (if map_is_full (bcache s) then Map.empty else m)(PC (rvs s) \<mapsto> n), code(n := blk)))))"

lemma table_ok_cong:
  "cache_ok (bcache s') \<Longrightarrow> cache_map (bcache s') = cache_map (bcache s) \<Longrightarrow> map_size (bcache s') = map_size (bcache s) \<Longrightarrow>
   (\<And>b. pc_start (blocks (bcache s') b) = pc_start (blocks (bcache s) b)) \<Longrightarrow> n_blocks (bcache s') = n_blocks (bcache s) \<Longrightarrow>
   table_ok s \<Longrightarrow> table_ok s'"
  by (simp add: table_ok_def)

lemma table_ok_frame [simp]: "table_ok (s\<lparr>rvs := rv\<rparr>) = table_ok s" "table_ok (s\<lparr>prev := p\<rparr>) = table_ok s"
  by (simp_all add: table_ok_def)

lemma table_lookup:
  assumes "table_ok s"
  obtains bc where "block_lookup_or_find (bcache s) a = Some (bc, cache_map (bcache s) a)" "cache_ok bc"
    "cache_map bc = cache_map (bcache s)" "map_size bc = map_size (bcache s)"
    "blocks bc = blocks (bcache s)" "n_blocks bc = n_blocks (bcache s)" "table_ok (s\<lparr>bcache := bc\<rparr>)"
proof -
  from assms have "cache_ok (bcache s)" "cache_room (bcache s)" by (simp_all add: table_ok_def cache_room_def)
  from lookup_correct [OF this, of a] obtain bc where
    "block_lookup_or_find (bcache s) a = Some (bc, cache_map (bcache s) a)" "cache_ok bc"
    "cache_map bc = cache_map (bcache s)" "map_size bc = map_size (bcache s)"
    "blocks bc = blocks (bcache s)" "n_blocks bc = n_blocks (bcache s)" by blast
  moreover from this have "table_ok (s\<lparr>bcache := bc\<rparr>)" using table_ok_cong [of "s\<lparr>bcache := bc\<rparr>" s] assms by simp
  ultimately show thesis using that by blast
qed

lemma table_insert:
  assumes tab: "table_ok s" and size: "unat (map_size (bcache s)) \<le> 819"
    and new: "cache_map (bcache s) (pc_start blk) = None"
    and al: "block_alloc (bcache s) blk = (bc, b)"
  obtains bc' where "block_insert bc b = Some bc'" "cache_ok bc'" "cache_map bc' = (cache_map (bcache s))(pc_start blk \<mapsto> b)"
    "map_size bc' = map_size (bcache s) + 1" "blocks bc' = (blocks (bcache s))(b := blk)" "n_blocks bc' = b + 1"
    "b = n_blocks (bcache s)" "unat (map_size (bcache s) + 1) \<le> 820"
proof -
  let ?bc = "bcache s"
  from tab have ok: "cache_ok ?bc" by (simp add: table_ok_def)
  have b: "b = n_blocks ?bc" and bc: "bc = ?bc\<lparr>blocks := (blocks ?bc)(b := blk), n_blocks := n_blocks ?bc + 1\<rparr>"
    using al by (auto simp: block_alloc_def)
  have slot: "c \<noteq> b" if c: "Some c \<in> set (map_slots ?bc)" for c
  proof -
    obtain i where "i < 1024" "map_slots ?bc ! i = Some c"
      using c ok by (auto simp: in_set_conv_nth cache_ok_def slots_ok_def)
    then have "cache_map ?bc (pc_start (blocks ?bc c)) = Some c"
      unfolding cache_map_def using slots_map_Some [of "blocks ?bc" "map_slots ?bc"] ok by (auto simp: cache_ok_def)
    with tab b show ?thesis by (auto simp: table_ok_def)
  qed
  have m: "cache_map bc = cache_map ?bc" and bok: "cache_ok bc"
    unfolding bc using ok cache_cong [of ?bc "(blocks ?bc)(b := blk)" "n_blocks ?bc + 1"] slot by auto
  have "unat (map_size ?bc + 1) \<le> 820" using size by (simp add: unat_word_ariths)
  then show thesis
    using block_insert_correct [OF bok, of b] new size m bc b that by (auto simp: cache_room_def)
qed

lemma table_extend:
  assumes "table_ok s" "cache_ok bc'" "cache_map bc' = (cache_map (bcache s))(pc_start blk \<mapsto> b)"
    "unat (map_size bc') \<le> 820" "blocks bc' = (blocks (bcache s))(b := blk)" "n_blocks bc' = b + 1" "b = n_blocks (bcache s)"
  shows "table_ok (s\<lparr>rvs := rv, bcache := bc', bht := h\<rparr>)"
proof -
  have "pc_start (blocks (bcache s) c) = a \<and> c < b" if "cache_map (bcache s) a = Some c" for a c
    using assms(1,7) that by (simp add: table_ok_def)
  then have "pc_start (((blocks (bcache s))(b := blk)) c) = a \<and> c < b + 1"
    if "((cache_map (bcache s))(pc_start blk \<mapsto> b)) a = Some c" for a c
    using that by (fastforce split: if_splits)
  with assms(2-6) show ?thesis by (simp add: table_ok_def)
qed

lemma table_clear: "cache_ok (bcache s) \<Longrightarrow> table_ok (s\<lparr>bcache := block_map_clear (bcache s), prev := p\<rparr>)"
  using block_map_clear_correct [of "bcache s"]
  by (simp add: table_ok_def) (simp add: block_map_clear_def block_l1_init_def)

lemma map_not_full: "cache_ok bc \<Longrightarrow> \<not> map_is_full bc \<Longrightarrow> unat (map_size bc) \<le> 819"
  by (simp add: map_is_full_def cache_ok_def)

lemma map_full_cong: "cache_ok bc \<Longrightarrow> cache_ok bc' \<Longrightarrow> map_size bc' = map_size bc \<Longrightarrow> map_is_full bc' = map_is_full bc"
  by (simp add: map_is_full_def cache_ok_def)

lemma clear_blocks [simp]: "blocks (block_map_clear bc) = blocks bc" "n_blocks (block_map_clear bc) = n_blocks bc"
  "map_size (block_map_clear bc) = 0"
  by (simp_all add: block_map_clear_def block_l1_init_def)

text \<open>The address of a new block is the PC at which the translation started, trap or not.\<close>

lemma new_block_start: "new_block alloc rv = Some (rv', Some blk) \<Longrightarrow> pc_start blk = PC rv"
  by (auto simp: new_block_def block_translate_def Let_def split: prod.splits stop_reason.splits option.splits if_splits)

lemma find_or_translate_spec:
  assumes "table_ok s"
  shows "case find_spec alloc s of
      Crash \<Rightarrow> block_find_or_translate alloc s = Some Crash
    | Ok (rv, None) \<Rightarrow> \<exists>s'. block_find_or_translate alloc s = Some (Ok (s', None)) \<and> rvs s' = rv \<and> table_ok s'
    | Ok (rv, Some (b, m, code)) \<Rightarrow> \<exists>s'. block_find_or_translate alloc s = Some (Ok (s', Some b)) \<and> rvs s' = rv \<and>
        table_ok s' \<and> cache_map (bcache s') = m \<and> blocks (bcache s') = code \<and>
        (\<not> map_is_full (bcache s) \<longrightarrow> prev s' = prev s \<and> unat (map_size (bcache s')) \<le> unat (map_size (bcache s)) + 1)"
proof -
  obtain bc where bc: "block_lookup_or_find (bcache s) (PC (rvs s)) = Some (bc, cache_map (bcache s) (PC (rvs s)))"
    "cache_ok bc" "cache_map bc = cache_map (bcache s)" "map_size bc = map_size (bcache s)"
    "blocks bc = blocks (bcache s)" "n_blocks bc = n_blocks (bcache s)" "table_ok (s\<lparr>bcache := bc\<rparr>)"
    using table_lookup [OF assms, of "PC (rvs s)"] by blast
  show ?thesis
  proof (cases "cache_map (bcache s) (PC (rvs s))")
    case (Some b)
    with bc show ?thesis by (auto simp: find_spec_def block_find_or_translate_def)
  next
    case None
    let ?s = "if map_is_full bc then s\<lparr>bcache := block_map_clear bc, prev := None\<rparr> else s\<lparr>bcache := bc\<rparr>"
    have full: "map_is_full (bcache s) = map_is_full bc"
      using map_full_cong [of bc "bcache s"] bc assms by (simp add: table_ok_def)
    have tab: "table_ok ?s" using bc(7) table_clear [of "s\<lparr>bcache := bc\<rparr>" None] bc(2) by simp
    have size: "unat (map_size (bcache ?s)) \<le> 819" using map_not_full [OF bc(2)] by simp
    have m: "cache_map (bcache ?s) = (if map_is_full bc then Map.empty else cache_map (bcache s))"
      using bc(3) block_map_clear_correct(3) [OF bc(2)] by simp
    have frame: "rvs ?s = rvs s" "blocks (bcache ?s) = blocks (bcache s)" "n_blocks (bcache ?s) = n_blocks (bcache s)"
      using bc by simp_all
    have eq: "block_find_or_translate alloc s = (case new_block alloc (rvs s) of
            None \<Rightarrow> Some Crash
          | Some (rv, None) \<Rightarrow> Some (Ok (?s\<lparr>rvs := rv\<rparr>, None))
          | Some (rv, Some blk) \<Rightarrow>
              (let (bc, b) = block_alloc (bcache ?s) blk in
               case block_insert bc b of
                 None \<Rightarrow> None
               | Some bc \<Rightarrow>
                   Some (Ok (?s\<lparr>rvs := rv, bcache := bc, bht := (bht ?s)(b := bht_init)\<rparr>, Some b))))"
      using bc(1) None by (simp add: block_find_or_translate_def Let_def split: option.split)
    consider "new_block alloc (rvs s) = None" | rv where "new_block alloc (rvs s) = Some (rv, None)"
      | rv blk where "new_block alloc (rvs s) = Some (rv, Some blk)" by (metis option.exhaust prod.collapse)
    then show ?thesis
    proof cases
      case (2 rv)
      have "table_ok (?s\<lparr>rvs := rv\<rparr>)" using tab by (simp add: table_ok_def split: if_splits)
      with 2 None show ?thesis unfolding eq by (simp add: find_spec_def)
    next
      case (3 rv blk)
      have at': "pc_start blk = PC (rvs s)" using new_block_start [OF 3] .
      obtain bc1 b where al: "block_alloc (bcache ?s) blk = (bc1, b)" by fastforce
      have new: "cache_map (bcache ?s) (pc_start blk) = None" using None m at' by simp
      obtain bc' where ins: "block_insert bc1 b = Some bc'" "cache_ok bc'" "cache_map bc' = (cache_map (bcache ?s))(pc_start blk \<mapsto> b)"
        "map_size bc' = map_size (bcache ?s) + 1" "blocks bc' = (blocks (bcache ?s))(b := blk)" "n_blocks bc' = b + 1"
        "b = n_blocks (bcache ?s)" "unat (map_size (bcache ?s) + 1) \<le> 820"
        using table_insert [OF tab size new al] by blast
      let ?s' = "?s\<lparr>rvs := rv, bcache := bc', bht := (bht ?s)(b := bht_init)\<rparr>"
      have "table_ok ?s'" using table_extend [OF tab ins(2,3) _ ins(5-7)] ins(4,8) by simp
      moreover have "block_find_or_translate alloc s = Some (Ok (?s', Some b))" using eq 3 al ins(1) by simp
      moreover have "find_spec alloc s = Ok (rv, Some (b, cache_map bc', blocks bc'))"
        unfolding ins(3,5) m frame at' using None 3 full ins(7) frame(3) by (simp add: find_spec_def Let_def)
      moreover have "\<not> map_is_full bc \<Longrightarrow> unat (map_size bc') \<le> unat (map_size (bcache s)) + 1"
        using ins(4) bc(4) by (simp add: unat_word_ariths)
      ultimately show ?thesis using ins(4) bc(4) full by simp
    qed (use eq None in \<open>simp add: find_spec_def\<close>)
  qed
qed

lemma find_spec_cong:
  assumes "rvs s' = rvs s" "cache_map (bcache s') = cache_map (bcache s)" "blocks (bcache s') = blocks (bcache s)"
    "n_blocks (bcache s') = n_blocks (bcache s)" "map_is_full (bcache s') = map_is_full (bcache s)"
  shows "find_spec alloc s' = find_spec alloc s"
  unfolding find_spec_def assms by (rule refl)

lemma refresh_prev_table:
  assumes "table_ok s"
  obtains s' where "refresh_prev s = Some s'" "table_ok s'" "rvs s' = rvs s" "cache_map (bcache s') = cache_map (bcache s)"
    "find_spec alloc s' = find_spec alloc s"
proof -
  obtain bc where bc: "block_lookup_or_find (bcache s) (last_pc (rvs s)) = Some (bc, cache_map (bcache s) (last_pc (rvs s)))"
    "cache_ok bc" "cache_map bc = cache_map (bcache s)" "map_size bc = map_size (bcache s)"
    "blocks bc = blocks (bcache s)" "n_blocks bc = n_blocks (bcache s)" "table_ok (s\<lparr>bcache := bc\<rparr>)"
    using table_lookup [OF assms] by blast
  let ?s = "s\<lparr>bcache := bc, prev := cache_map (bcache s) (last_pc (rvs s))\<rparr>"
  have "map_is_full bc = map_is_full (bcache s)"
    using map_full_cong [of "bcache s" bc] bc assms by (simp add: table_ok_def)
  then have "find_spec alloc ?s = find_spec alloc s" using bc find_spec_cong [of ?s s alloc] by simp
  moreover have "table_ok ?s" using bc(7) by (simp add: table_ok_def)
  ultimately show thesis
    using that [OF _ assms refl refl refl] that [of ?s] bc(1,3)
    by (cases "prev s"; cases "pc_start (blocks (bcache s) (the (prev s))) = last_pc (rvs s)") (simp_all add: refresh_prev_def)
qed

lemma chain_blocks_table:
  "table_ok (chain_blocks s b) = table_ok s" "cache_map (bcache (chain_blocks s b)) = cache_map (bcache s)"
  "rvs (chain_blocks s b) = rvs s"
  by (auto simp: chain_blocks_def Let_def table_ok_def split: option.splits)

lemma enter_block_table:
  "table_ok (enter_block s b) = table_ok s" "cache_map (bcache (enter_block s b)) = cache_map (bcache s)"
  by (simp_all add: enter_block_def Let_def chain_blocks_table)

lemma run_chain_frame:
  assumes "run_chain env b s c p = Some (Ok (s', k))"
  shows "bcache s' = bcache s \<and> prev s' = prev s"
proof -
  define P where "P env b s c p r \<longleftrightarrow> (\<forall>s' k. r = Ok (s', k) \<longrightarrow> bcache s' = bcache s \<and> prev s' = prev s)"
    for env :: env and b :: block_ptr and s :: emu and c :: u64 and p :: u32 and r :: "(emu \<times> bool) run"
  have "P env b s c p (Ok (s', k))"
  proof (rule run_chain.raw_induct [where P = P, OF _ assms])
    fix rec :: "env \<Rightarrow> block_ptr \<Rightarrow> emu \<Rightarrow> u64 \<Rightarrow> u32 \<Rightarrow> (emu \<times> bool) run option"
      and env b s c p r
    assume IH: "\<And>env b s c p r. rec env b s c p = Some r \<Longrightarrow> P env b s c p r"
      and step: "(case exec env (ir_list (blocks (bcache s) b)) (rvs s) c p of
       Ret k rv \<Rightarrow> Some (Ok (s\<lparr>rvs := rv\<rparr>, k))
     | Tail t rv c q \<Rightarrow> rec env t (s\<lparr>rvs := rv\<rparr>) c q
     | Bht rv c q \<Rightarrow>
         (case bht_lookup (s\<lparr>rvs := rv\<rparr>) b q of
            None \<Rightarrow> None
          | Some (s, Some t) \<Rightarrow> rec env t s c q
          | Some (s, None) \<Rightarrow> Some (Ok (s\<lparr>rvs := (rvs s)\<lparr>csr_cycle := c, PC := q\<rparr>\<rparr>, True)))
     | _ \<Rightarrow> Some Crash) = Some r"
    have bht: "bcache s' = bcache s \<and> prev s' = prev s" if "bht_lookup (s\<lparr>rvs := rv\<rparr>) b q = Some (s', t)" for rv q s' t
      using that by (auto simp: bht_lookup_def Let_def split: if_splits option.splits)
    show "P env b s c p r"
    proof (cases "exec env (ir_list (blocks (bcache s) b)) (rvs s) c p")
      case (Tail t rv c' q)
      with step IH [of env t "s\<lparr>rvs := rv\<rparr>" c' q r] show ?thesis by (simp add: P_def)
    next
      case (Bht rv c' q)
      with step obtain s1 t where l: "bht_lookup (s\<lparr>rvs := rv\<rparr>) b q = Some (s1, t)" by (auto split: option.splits)
      with step Bht bht [OF l] IH [of env "the t" s1 c' q r] show ?thesis by (cases t) (auto simp: P_def)
    qed (use step in \<open>auto simp: P_def\<close>)
  qed
  then show ?thesis by (simp add: P_def)
qed

text \<open>One iteration keeps the table, with no assumption on the code.\<close>

lemma rv_step_body_table:
  assumes "table_ok s" "rv_step_body env alloc s = Some (Ok (s', k))"
  shows "table_ok s'"
proof -
  obtain sa where sa: "refresh_prev s = Some sa" "table_ok sa" "find_spec alloc sa = find_spec alloc s"
    using refresh_prev_table [OF assms(1)] by metis
  note f = find_or_translate_spec [OF sa(2), of alloc]
  obtain sb ob where sb: "block_find_or_translate alloc sa = Some (Ok (sb, ob))"
    using assms(2) sa(1) by (auto simp: rv_step_body_def split: option.splits run.splits)
  have tb: "table_ok sb" using f sb by (cases "find_spec alloc sa") (auto split: option.splits prod.splits)
  show ?thesis
  proof (cases ob)
    case None
    with assms(2) sa(1) sb tb show ?thesis by (auto simp: rv_step_body_def table_ok_def)
  next
    case (Some b)
    let ?s = "enter_block sb b"
    obtain s2 where r: "run_chain env b ?s (csr_cycle (rvs ?s)) (PC (rvs ?s)) = Some (Ok (s2, k))"
      and s': "s' = s2\<lparr>prev := if k then Some b else None\<rparr>"
      using assms(2) sa(1) sb Some by (auto simp: rv_step_body_def Let_def split: option.splits run.splits)
    have "table_ok ?s" using tb by (simp add: enter_block_table)
    with run_chain_frame [OF r] s' show ?thesis by (simp add: table_ok_def)
  qed
qed

section \<open>One iteration\<close>

text \<open>Between the refresh of \<^verbatim>\<open>prev\<close> and the run of the next block.\<close>

definition mid_ok :: "emu \<Rightarrow> bool" where
  "mid_ok s \<longleftrightarrow> cache_ok (bcache s) \<and> unat (map_size (bcache s)) \<le> 820 \<and> links_ok s \<and>
     (\<forall>q. prev s = Some q \<longrightarrow> cache_map (bcache s) (last_pc (rvs s)) = Some q \<and>
        settled (last (ir_list (blocks (bcache s) q))) (rvs s))"

lemma links_ok_cong:
  "links_ok s \<Longrightarrow> cache_map (bcache s') = cache_map (bcache s) \<Longrightarrow> blocks (bcache s') = blocks (bcache s) \<Longrightarrow>
   n_blocks (bcache s') = n_blocks (bcache s) \<Longrightarrow> bht s' = bht s \<Longrightarrow> links_ok s'"
  by (simp add: links_ok_def)

lemma refresh_prev_ok:
  assumes "emu_ok s"
  shows "\<exists>s'. refresh_prev s = Some s' \<and> mid_ok s' \<and> rvs s' = rvs s"
proof (cases "prev s")
  case None
  with assms show ?thesis by (simp add: refresh_prev_def mid_ok_def emu_ok_def)
next
  case (Some q)
  from assms have ok: "cache_ok (bcache s)" "unat (map_size (bcache s)) \<le> 820" "links_ok s" "prev_ok s"
    by (simp_all add: emu_ok_def)
  show ?thesis
  proof (cases "pc_start (blocks (bcache s) q) = last_pc (rvs s)")
    case True
    with Some ok show ?thesis by (simp add: refresh_prev_def mid_ok_def prev_ok_def)
  next
    case False
    obtain bc where bc: "block_lookup_or_find (bcache s) (last_pc (rvs s)) = Some (bc, cache_map (bcache s) (last_pc (rvs s)))"
      "cache_ok bc" "cache_map bc = cache_map (bcache s)" "map_size bc = map_size (bcache s)"
      "blocks bc = blocks (bcache s)" "n_blocks bc = n_blocks (bcache s)"
      using lookup_correct [OF ok(1) emu_room [OF ok(2)]] by blast
    let ?s = "s\<lparr>bcache := bc, prev := cache_map (bcache s) (last_pc (rvs s))\<rparr>"
    have "links_ok ?s" using ok(3) bc by (simp add: links_ok_def)
    with False Some bc ok show ?thesis
      by (auto simp: refresh_prev_def mid_ok_def prev_ok_def)
  qed
qed

lemma linked_ok_unchained: "unchained ir \<Longrightarrow> linked_ok m ir"
  by (simp add: linked_ok_def unchained_def)

lemma linked_ok_extend: "linked_ok m ir \<Longrightarrow> m a = None \<Longrightarrow> linked_ok (m(a \<mapsto> b)) ir"
  by (auto simp: linked_ok_def)

lemma history_ok_extend: "history_ok m h \<Longrightarrow> m a = None \<Longrightarrow> history_ok (m(a \<mapsto> b)) h"
  unfolding history_ok_def by (metis fun_upd_other)

lemma history_ok_init: "history_ok m bht_init"
  by (simp add: history_ok_def bht_init_def)

lemma mid_table_ok: "mid_ok s \<Longrightarrow> table_ok s"
  by (simp add: mid_ok_def links_ok_def table_ok_def)

lemma emu_table_ok: "emu_ok s \<Longrightarrow> table_ok s"
  by (simp add: emu_ok_def links_ok_def table_ok_def)

text \<open>Adding a new block keeps every link, because its address was not in the table.\<close>

lemma add_block_ok:
  assumes mid: "mid_ok s" and size: "unat (map_size (bcache s)) \<le> 819"
    and new: "cache_map (bcache s) (pc_start blk) = None" "block_ok blk" "unchained (last (ir_list blk))"
    and al: "block_alloc (bcache s) blk = (bc, b)"
  shows "\<exists>bc'. block_insert bc b = Some bc' \<and> mid_ok (s\<lparr>bcache := bc', bht := (bht s)(b := bht_init)\<rparr>) \<and>
    cache_map bc' (pc_start blk) = Some b"
proof -
  let ?bc = "bcache s" and ?a = "pc_start blk"
  from mid have ok: "cache_ok ?bc" "links_ok s" by (simp_all add: mid_ok_def)
  obtain bc' where ins: "block_insert bc b = Some bc'" "cache_ok bc'" "cache_map bc' = (cache_map ?bc)(?a \<mapsto> b)"
    "map_size bc' = map_size ?bc + 1" "blocks bc' = (blocks ?bc)(b := blk)" "n_blocks bc' = b + 1"
    and b: "b = n_blocks ?bc" and room: "unat (map_size ?bc + 1) \<le> 820"
    using table_insert [OF mid_table_ok [OF mid] size new(1) al] by blast
  have old: "c < b" if "cache_map ?bc a = Some c" for a c using that ok(2) b by (simp add: links_ok_def)
  have "links_ok (s\<lparr>bcache := bc', bht := (bht s)(b := bht_init)\<rparr>)"
    unfolding links_ok_def
  proof (intro allI impI)
    fix a c assume "cache_map (bcache (s\<lparr>bcache := bc', bht := (bht s)(b := bht_init)\<rparr>)) a = Some c"
    then have c: "(if a = ?a then c = b else cache_map ?bc a = Some c)" using ins(3) by (auto split: if_splits)
    show "pc_start (blocks (bcache (s\<lparr>bcache := bc', bht := (bht s)(b := bht_init)\<rparr>)) c) = a \<and>
       c < n_blocks (bcache (s\<lparr>bcache := bc', bht := (bht s)(b := bht_init)\<rparr>)) \<and>
       block_ok (blocks (bcache (s\<lparr>bcache := bc', bht := (bht s)(b := bht_init)\<rparr>)) c) \<and>
       linked_ok (cache_map (bcache (s\<lparr>bcache := bc', bht := (bht s)(b := bht_init)\<rparr>)))
         (last (ir_list (blocks (bcache (s\<lparr>bcache := bc', bht := (bht s)(b := bht_init)\<rparr>)) c))) \<and>
       history_ok (cache_map (bcache (s\<lparr>bcache := bc', bht := (bht s)(b := bht_init)\<rparr>)))
         (bht (s\<lparr>bcache := bc', bht := (bht s)(b := bht_init)\<rparr>) c)"
    proof (cases "a = ?a")
      case True
      with c ins new show ?thesis by (simp add: linked_ok_unchained history_ok_init)
    next
      case False
      with c have c: "cache_map ?bc a = Some c" by simp
      from old [OF this] ok(2) c ins new(1) show ?thesis
        by (auto simp: links_ok_def linked_ok_extend history_ok_extend)
    qed
  qed
  moreover have "cache_map bc' (last_pc (rvs s)) = Some q \<and> settled (last (ir_list (blocks bc' q))) (rvs s)"
    if "prev s = Some q" for q
    using that mid old [of "last_pc (rvs s)" q] ins new(1) by (auto simp: mid_ok_def)
  ultimately show ?thesis using ins room by (auto simp: mid_ok_def)
qed

lemma mid_ok_clear: "cache_ok (bcache s) \<Longrightarrow> mid_ok (s\<lparr>bcache := block_map_clear (bcache s), prev := None\<rparr>)"
  using block_map_clear_correct [of "bcache s"]
  by (simp add: mid_ok_def links_ok_def)

lemma mid_ok_lookup:
  assumes "mid_ok s"
  shows "\<exists>bc. block_lookup_or_find (bcache s) a = Some (bc, cache_map (bcache s) a) \<and>
    mid_ok (s\<lparr>bcache := bc\<rparr>) \<and> cache_map bc = cache_map (bcache s)"
proof -
  have ok: "cache_ok (bcache s)" "unat (map_size (bcache s)) \<le> 820" using assms by (simp_all add: mid_ok_def)
  from lookup_correct [OF ok(1) emu_room [OF ok(2)]] obtain bc where
    "block_lookup_or_find (bcache s) a = Some (bc, cache_map (bcache s) a)" "cache_ok bc"
    "cache_map bc = cache_map (bcache s)" "map_size bc = map_size (bcache s)"
    "blocks bc = blocks (bcache s)" "n_blocks bc = n_blocks (bcache s)" by blast
  with assms show ?thesis
    by (auto simp: mid_ok_def links_ok_def)
qed

lemma find_or_translate_ok:
  assumes "mid_ok s" "calm s"
  shows "\<exists>r. block_find_or_translate alloc s = Some r \<and>
    (r = Crash \<and> new_block alloc (rvs s) = None \<or>
     (\<exists>s' b. r = Ok (s', b) \<and> mid_ok s' \<and> rvs s' = rvs s \<and>
       (b = None \<longrightarrow> new_block alloc (rvs s) = Some (rvs s, None)) \<and>
       (b \<noteq> None \<longrightarrow> cache_map (bcache s') (PC (rvs s)) = b)))"
proof -
  obtain bc where bc: "block_lookup_or_find (bcache s) (PC (rvs s)) = Some (bc, cache_map (bcache s) (PC (rvs s)))"
    "mid_ok (s\<lparr>bcache := bc\<rparr>)" "cache_map bc = cache_map (bcache s)"
    using mid_ok_lookup [OF assms(1)] by blast
  show ?thesis
  proof (cases "cache_map (bcache s) (PC (rvs s))")
    case (Some b)
    with bc show ?thesis by (auto simp: block_find_or_translate_def)
  next
    case None
    with assms(2) have quiet: "quiet (rvs s)" by (simp add: calm_def)
    let ?s = "if map_is_full bc then s\<lparr>bcache := block_map_clear bc, prev := None\<rparr> else s\<lparr>bcache := bc\<rparr>"
    have c: "cache_ok bc" using bc(2) by (simp add: mid_ok_def)
    have mid: "mid_ok ?s"
      using bc(2) mid_ok_clear [of "s\<lparr>bcache := bc\<rparr>"] by (simp add: mid_ok_def)
    have size: "unat (map_size (bcache ?s)) \<le> 819"
      using map_not_full [OF c] by simp
    have new: "cache_map (bcache ?s) (PC (rvs s)) = None"
      using None bc(3) block_map_clear_correct [OF c] by simp
    have eq: "block_find_or_translate alloc s = (case new_block alloc (rvs s) of
            None \<Rightarrow> Some Crash
          | Some (rv, None) \<Rightarrow> Some (Ok (?s\<lparr>rvs := rv\<rparr>, None))
          | Some (rv, Some blk) \<Rightarrow>
              (let (bc, b) = block_alloc (bcache ?s) blk in
               case block_insert bc b of
                 None \<Rightarrow> None
               | Some bc \<Rightarrow>
                   Some (Ok (?s\<lparr>rvs := rv, bcache := bc, bht := (bht ?s)(b := bht_init)\<rparr>, Some b))))"
      using bc(1) None by (simp add: block_find_or_translate_def Let_def split: option.split)
    show ?thesis
    proof (cases "new_block alloc (rvs s)")
      case None
      then show ?thesis unfolding eq by simp
    next
      case (Some p)
      obtain rv ob where p: "p = (rv, ob)" by (cases p)
      with Some quiet have rv: "rv = rvs s" using new_block_ok(1) by blast
      have s': "?s\<lparr>rvs := rvs s\<rparr> = ?s" by simp
      show ?thesis
      proof (cases ob)
        case None
        with Some p rv mid show ?thesis unfolding eq by (simp split: if_splits)
      next
        case blk: (Some blk)
        with Some p quiet have nb: "block_ok blk" "pc_start blk = PC (rvs s)" "unchained (last (ir_list blk))"
          using new_block_ok(2) by blast+
        obtain bc1 b where al: "block_alloc (bcache ?s) blk = (bc1, b)" by fastforce
        obtain bc' where "block_insert bc1 b = Some bc'" "mid_ok (?s\<lparr>bcache := bc', bht := (bht ?s)(b := bht_init)\<rparr>)"
          "cache_map bc' (PC (rvs s)) = Some b"
          using add_block_ok [OF mid size _ nb(1,3) al] new nb(2) by auto
        with Some p rv blk al s' show ?thesis unfolding eq by (simp split: if_splits)
      qed
    qed
  qed
qed

lemma relink_links [simp]:
  "relink (\<lambda>ir. ir\<lparr>branch_taken := t\<rparr>)" "relink (\<lambda>ir. ir\<lparr>branch_untaken := t\<rparr>)"
  by (simp_all add: relink_def)

lemma settled_taken:
  "settled ir rv \<Longrightarrow> untaken_target ir = None \<or> is_branch_taken rv \<Longrightarrow> taken_target ir = Some x \<Longrightarrow> PC rv = x"
  by (auto simp: settled_def split: option.splits)

lemma settled_untaken:
  "settled ir rv \<Longrightarrow> \<not> is_branch_taken rv \<Longrightarrow> untaken_target ir = Some x \<Longrightarrow> PC rv = x"
  by (auto simp: settled_def untaken_target_def taken_target_def split: option.splits if_splits)

lemma direct_branch_target: "insn_is_direct_branch (opcode ir) \<Longrightarrow> untaken_target ir = None"
  by (auto simp: insn_is_direct_branch_def untaken_target_def)

lemma linked_taken:
  assumes "linked_ok m ir" "settled ir rv" "untaken_target ir = None \<or> is_branch_taken rv" "m (PC rv) = Some b"
  shows "linked_ok m (ir\<lparr>branch_taken := Some b\<rparr>)"
  using assms settled_taken [OF assms(2,3)] relink_simps(1,2) [OF relink_links(1)] unfolding linked_ok_def by auto

lemma linked_untaken:
  assumes "linked_ok m ir" "settled ir rv" "\<not> is_branch_taken rv" "m (PC rv) = Some b"
  shows "linked_ok m (ir\<lparr>branch_untaken := Some b\<rparr>)"
  using assms settled_untaken [OF assms(2,3)] relink_simps(1,2) [OF relink_links(2)] unfolding linked_ok_def by auto

lemma chain_blocks_ok:
  assumes "mid_ok s" "cache_map (bcache s) (PC (rvs s)) = Some b"
  shows "links_ok (chain_blocks s b) \<and> cache_ok (bcache (chain_blocks s b)) \<and>
    map_size (bcache (chain_blocks s b)) = map_size (bcache s) \<and>
    cache_map (bcache (chain_blocks s b)) = cache_map (bcache s) \<and> rvs (chain_blocks s b) = rvs s"
proof (cases "prev s")
  case None
  with assms show ?thesis by (simp add: chain_blocks_def mid_ok_def)
next
  case (Some q)
  let ?ir = "last (ir_list (blocks (bcache s) q))"
  from assms(1) Some have ok: "cache_ok (bcache s)" "links_ok s" and q: "cache_map (bcache s) (last_pc (rvs s)) = Some q"
    and st: "settled ?ir (rvs s)" by (simp_all add: mid_ok_def)
  note d = links_okD [OF ok(2) q]
  have t: "links_ok (s\<lparr>bcache := set_tail (\<lambda>ir. ir\<lparr>branch_taken := Some b\<rparr>) q (bcache s)\<rparr>)"
    if "untaken_target ?ir = None \<or> is_branch_taken (rvs s)"
    using links_ok_set_tail [OF ok(2) relink_links(1)] linked_taken [OF d(3) st that assms(2)] .
  have u: "links_ok (s\<lparr>bcache := set_tail (\<lambda>ir. ir\<lparr>branch_untaken := Some b\<rparr>) q (bcache s)\<rparr>)"
    if "\<not> is_branch_taken (rvs s)"
    using links_ok_set_tail [OF ok(2) relink_links(2)] linked_untaken [OF d(3) st that assms(2)] .
  have pt: "page_terminated (blocks (bcache s) q) \<Longrightarrow> untaken_target ?ir = None" using d(1) by (simp add: block_ok_def)
  show ?thesis
    using Some t u pt ok direct_branch_target [of ?ir] by (auto simp: chain_blocks_def Let_def)
qed

lemma settled_frames [simp]:
  "settled ir (rv\<lparr>on_exit := x\<rparr>) = settled ir rv" "settled ir (rv\<lparr>halt := x\<rparr>) = settled ir rv"
  by (simp_all add: settled_def split: option.split)

text \<open>Linking changes nothing of a block but the link fields of its tail.\<close>

definition unlinked :: "block \<Rightarrow> block" where
  "unlinked blk = blk\<lparr>ir_list := map (\<lambda>ir. ir\<lparr>branch_taken := None, branch_untaken := None\<rparr>) (ir_list blk)\<rparr>"

lemma unlinked_set_tail:
  assumes "ir_list (blocks bc q) \<noteq> []"
  shows "unlinked (blocks (set_tail (branch_taken_update (\<lambda>_. t)) q bc) c) = unlinked (blocks bc c)"
    "unlinked (blocks (set_tail (branch_untaken_update (\<lambda>_. t)) q bc) c) = unlinked (blocks bc c)"
proof -
  obtain irs ir where "ir_list (blocks bc q) = irs @ [ir]" using assms by (metis append_butlast_last_id)
  then show "unlinked (blocks (set_tail (branch_taken_update (\<lambda>_. t)) q bc) c) = unlinked (blocks bc c)"
    "unlinked (blocks (set_tail (branch_untaken_update (\<lambda>_. t)) q bc) c) = unlinked (blocks bc c)"
    by (auto simp: unlinked_def set_tail_def Let_def)
qed

lemma chain_blocks_unlinked:
  assumes "mid_ok s"
  shows "unlinked (blocks (bcache (chain_blocks s b)) c) = unlinked (blocks (bcache s) c)"
proof (cases "prev s")
  case (Some q)
  with assms have "cache_map (bcache s) (last_pc (rvs s)) = Some q" "links_ok s" by (simp_all add: mid_ok_def)
  then have "ir_list (blocks (bcache s) q) \<noteq> []" by (simp add: links_ok_def block_ok_def)
  with Some show ?thesis by (simp add: chain_blocks_def Let_def unlinked_set_tail)
qed (simp add: chain_blocks_def)

text \<open>The machine with which the code of a block starts.\<close>

definition entry :: "riscv \<Rightarrow> riscv" where
  "entry rv = rv\<lparr>on_exit := on_exit rv \<or> PC rv = exit_addr rv, last_pc := PC rv\<rparr>"

lemma enter_block_ok:
  assumes "mid_ok s" "cache_map (bcache s) (PC (rvs s)) = Some b"
  shows "chain_start (enter_block s b) b (PC (rvs s))" "unat (map_size (bcache (enter_block s b))) \<le> 820"
    "cache_map (bcache (enter_block s b)) = cache_map (bcache s)"
    "unlinked (blocks (bcache (enter_block s b)) c) = unlinked (blocks (bcache s) c)"
    "rvs (enter_block s b) = entry (rvs s)"
proof -
  have "block_ok (blocks (bcache s) b)" "pc_start (blocks (bcache s) b) = PC (rvs s)"
    using assms links_okD by (auto simp: mid_ok_def)
  then have hd: "pc (hd (ir_list (blocks (bcache s) b))) = PC (rvs s)"
    by (cases "ir_list (blocks (bcache s) b)") (auto simp: block_ok_def)
  let ?rv = "(rvs s)\<lparr>on_exit := on_exit (rvs s) \<or> PC (rvs s) = exit_addr (rvs s)\<rparr>"
  let ?s = "chain_blocks (s\<lparr>rvs := ?rv\<rparr>) b"
  have mid: "mid_ok (s\<lparr>rvs := ?rv\<rparr>)" using assms(1) by (simp add: mid_ok_def)
  with assms(2) have ok: "links_ok ?s" "cache_ok (bcache ?s)" "map_size (bcache ?s) = map_size (bcache s)"
    "cache_map (bcache ?s) = cache_map (bcache s)" "rvs ?s = ?rv"
    using chain_blocks_ok [of "s\<lparr>rvs := ?rv\<rparr>" b] by simp_all
  have "(if pc (hd (ir_list (blocks (bcache s) b))) = exit_addr (rvs s) then (rvs s)\<lparr>on_exit := True\<rparr> else rvs s) = ?rv"
    by (simp add: hd)
  then have e: "enter_block s b = ?s\<lparr>rvs := ?rv\<lparr>last_pc := PC (rvs s)\<rparr>\<rparr>"
    using ok(5) by (simp add: enter_block_def Let_def)
  have size: "unat (map_size (bcache s)) \<le> 820" using assms(1) by (simp add: mid_ok_def)
  show "unlinked (blocks (bcache (enter_block s b)) c) = unlinked (blocks (bcache s) c)"
    unfolding e using chain_blocks_unlinked [OF mid, of b c] by simp
  show "rvs (enter_block s b) = entry (rvs s)" unfolding e by (simp add: entry_def)
  show "chain_start (enter_block s b) b (PC (rvs s))" "unat (map_size (bcache (enter_block s b))) \<le> 820"
    "cache_map (bcache (enter_block s b)) = cache_map (bcache s)"
    unfolding e using ok size assms(2) by (simp_all add: chain_start_def chain_at_def emu_room)
qed

lemma mid_emu_ok: "mid_ok s \<Longrightarrow> emu_ok s"
  by (auto simp: mid_ok_def emu_ok_def prev_ok_def)

text \<open>
  One iteration: it aborts, or finds no code and halts, or enters the block of the table for the
  PC, and then does what a lookup at every transfer of control would do.
\<close>

lemma rv_step_body_cases:
  assumes "env_keeps_last env" "emu_ok s" "calm s"
  obtains (crash) "find_spec alloc s = Crash" "rv_step_body env alloc s = Some Crash"
  | (no_code) s' where "find_spec alloc s = Ok (rvs s, None)" "rv_step_body env alloc s = Some (Ok (s', False))"
      "emu_ok s'" "rvs s' = (rvs s)\<lparr>halt := True\<rparr>"
  | (runs) sa sb b m code where "find_spec alloc s = Ok (rvs s, Some (b, m, code))"
      "refresh_prev s = Some sa" "block_find_or_translate alloc sa = Some (Ok (sb, Some b))"
      "m (PC (rvs s)) = Some b" "cache_map (bcache (enter_block sb b)) = m"
      "\<forall>c. unlinked (blocks (bcache (enter_block sb b)) c) = unlinked (code c)"
      "rvs (enter_block sb b) = entry (rvs s)"
      "chain_start (enter_block sb b) b (PC (rvs s))" "unat (map_size (bcache (enter_block sb b))) \<le> 820"
      "rv_step_body env alloc s = map_option (\<lambda>r. case r of Crash \<Rightarrow> Crash
         | Ok (s', k) \<Rightarrow> Ok (s'\<lparr>prev := if k then Some b else None\<rparr>, k))
           (run_chain env b (enter_block sb b) (csr_cycle (rvs s)) (PC (rvs s)))"
proof -
  obtain sa where sa: "refresh_prev s = Some sa" "mid_ok sa" "rvs sa = rvs s" using refresh_prev_ok [OF assms(2)] by blast
  have sa': "cache_map (bcache sa) = cache_map (bcache s)" "find_spec alloc sa = find_spec alloc s"
    using refresh_prev_table [OF emu_table_ok [OF assms(2)]] sa(1) by (metis option.inject)+
  have calm: "calm sa" using assms(3) sa(3) sa'(1) by (simp add: calm_def)
  note f = find_or_translate_spec [OF mid_table_ok [OF sa(2)], of alloc, unfolded sa'(2)]
  from find_or_translate_ok [OF sa(2) calm, of alloc]
  consider "block_find_or_translate alloc sa = Some Crash"
    | s' where "block_find_or_translate alloc sa = Some (Ok (s', None))" "mid_ok s'" "rvs s' = rvs s"
    | s' b where "block_find_or_translate alloc sa = Some (Ok (s', Some b))" "mid_ok s'" "rvs s' = rvs s"
        "cache_map (bcache s') (PC (rvs s)) = Some b"
    unfolding sa(3) by force
  then show thesis
  proof cases
    case 1
    with f sa(1) crash show thesis by (auto simp: rv_step_body_def split: run.splits option.splits prod.splits)
  next
    case (2 s')
    let ?s = "s'\<lparr>rvs := (rvs s')\<lparr>halt := True\<rparr>\<rparr>"
    have "emu_ok ?s" using 2 mid_emu_ok [of ?s] by (simp add: mid_ok_def)
    moreover have "find_spec alloc s = Ok (rvs s, None)"
      using f 2 by (cases "find_spec alloc s") (auto split: option.splits prod.splits)
    moreover have "rv_step_body env alloc s = Some (Ok (?s, False))" using 2 sa(1) by (simp add: rv_step_body_def)
    ultimately show thesis using no_code 2(3) by simp
  next
    case (3 s' b)
    have spec: "find_spec alloc s = Ok (rvs s, Some (b, cache_map (bcache s'), blocks (bcache s')))"
      using f 3 by (cases "find_spec alloc s") (auto split: option.splits prod.splits)
    have "cache_map (bcache s') (PC (rvs s')) = Some b" using 3(3,4) by simp
    note e = enter_block_ok [OF 3(2) this]
    have body: "rv_step_body env alloc s = map_option (\<lambda>r. case r of Crash \<Rightarrow> Crash
         | Ok (s', k) \<Rightarrow> Ok (s'\<lparr>prev := if k then Some b else None\<rparr>, k))
           (run_chain env b (enter_block s' b) (csr_cycle (rvs s)) (PC (rvs s)))"
      using 3(1,3) sa(1) e(5) by (simp add: rv_step_body_def Let_def entry_def split: option.splits run.splits)
    show thesis
      by (rule runs [OF spec sa(1) 3(1,4) e(3) _ _ _ e(2) body]) (use e(1,4,5) 3(3) in simp_all)
  qed
qed

lemma rv_step_body_inv:
  assumes "env_keeps_last env" "emu_ok s" "calm s" "rv_step_body env alloc s = Some (Ok (s', k))"
  shows "emu_ok s'"
  using assms(1-3)
proof (cases rule: rv_step_body_cases [where alloc = alloc])
  case (runs sa sb b m code)
  let ?s = "enter_block sb b"
  obtain s2 where r: "run_chain env b ?s (csr_cycle (rvs s)) (PC (rvs s)) = Some (Ok (s2, k))"
    and s': "s' = s2\<lparr>prev := if k then Some b else None\<rparr>"
    using runs(10) assms(4)
    by (cases "run_chain env b ?s (csr_cycle (rvs s)) (PC (rvs s))") (auto split: run.splits)
  from run_chain_ref [OF assms(1) r runs(8)] have post: "chain_post ?s s2 k" by (auto simp: chain_agrees_def)
  have "pc_start (blocks (bcache ?s) b) = PC (rvs s)"
    using runs(4,5,8) by (auto simp: chain_start_def dest: links_okD(2))
  with post s' runs(4,5,8,9) show ?thesis
    by (auto simp: emu_ok_def chain_post_def chain_start_def prev_ok_def links_ok_def)
qed (use assms(4) in auto)

lemma rv_step_body_ref:
  assumes "env_keeps_last env" "chain_start s1 b p"
    and "r = map_option (\<lambda>r. case r of Crash \<Rightarrow> Crash | Ok (s', k) \<Rightarrow> Ok (s'\<lparr>prev := if k then Some b else None\<rparr>, k))
      (run_chain env b s1 c p)"
  shows "map_option run_result r = run_ref env (bcache s1) b (rvs s1) c p"
  using run_chain_eq [OF assms(1,2), of c] unfolding assms(3)
  by (cases "run_chain env b s1 c p") (auto simp: run_result_def split: run.splits)

end
