(* ===== verification/Step_Props.thy ===== *)
theory Step_Props
  imports Step_Inv Block_Props
begin

unbundle bit_operations_syntax

text \<open>
  What the step loop promises: finding the next block always ends and the table stays well formed,
  whatever the guest's code is; and as long as no translation meets an illegal instruction or a
  \<^verbatim>\<open>wfi\<close> in the middle of a block, every link leads where the table leads, so following links is
  looking up the table.
\<close>

section \<open>Reachable states\<close>

text \<open>One iteration of the loop as a step of a transition system.\<close>

inductive loop_step :: "env \<Rightarrow> (rv_insn \<Rightarrow> bool) \<Rightarrow> emu \<Rightarrow> emu \<Rightarrow> bool" for env alloc where
  iterate: "\<not> halt (rvs s) \<Longrightarrow> rv_step_body env alloc s = Some (Ok (s', k)) \<Longrightarrow> loop_step env alloc s s'"

inductive reachable :: "env \<Rightarrow> (rv_insn \<Rightarrow> bool) \<Rightarrow> emu \<Rightarrow> emu \<Rightarrow> bool" for env alloc s where
  start: "reachable env alloc s s"
| more: "reachable env alloc s s' \<Longrightarrow> loop_step env alloc s' s'' \<Longrightarrow> reachable env alloc s s''"

text \<open>The states that are reached by calm iterations only.\<close>

inductive calm_reachable :: "env \<Rightarrow> (rv_insn \<Rightarrow> bool) \<Rightarrow> emu \<Rightarrow> emu \<Rightarrow> bool" for env alloc s where
  calm_start: "calm_reachable env alloc s s"
| calm_more: "calm_reachable env alloc s s' \<Longrightarrow> calm s' \<Longrightarrow> loop_step env alloc s' s'' \<Longrightarrow> calm_reachable env alloc s s''"

inductive_cases loop_stepE: "loop_step env alloc s s'"

lemma calm_is_reachable: "calm_reachable env alloc s s' \<Longrightarrow> reachable env alloc s s'"
  by (induction rule: calm_reachable.induct) (auto intro: reachable.intros)

lemma reachable_table_ok:
  assumes "reachable env alloc s s'" "table_ok s"
  shows "table_ok s'"
  using assms(1)
proof (induction rule: reachable.induct)
  case (more s' s'')
  from more.hyps(2) more.IH show ?case by (auto elim!: loop_stepE intro: rv_step_body_table)
qed (rule assms(2))

lemma calm_reachable_ok:
  assumes "calm_reachable env alloc s s'" "env_keeps_last env" "emu_ok s"
  shows "emu_ok s'"
  using assms(1)
proof (induction rule: calm_reachable.induct)
  case (calm_more s' s'')
  from calm_more.hyps(2,3) calm_more.IH show ?case by (auto elim!: loop_stepE intro: rv_step_body_inv [OF assms(2)])
qed (rule assms(3))

section \<open>A sample run\<close>

text \<open>
  The sample program of two instructions and a jump to itself, with an empty table: the first
  iteration runs the block at 0, the second makes the block at 8 and links the first block to it.
\<close>

definition emu0 :: emu where
  "emu0 = \<lparr>rvs = rv_blk, bcache = bc0, bht = (\<lambda>b. bht_init), prev = None\<rparr>"

lemma emu0_ok: "emu_ok emu0"
  using bc0_ok by (simp add: emu0_def emu_ok_def links_ok_def prev_ok_def)
    (simp add: bc0_def block_map_init_def block_l1_init_def)

lemma rv_blk_quiet: "quiet rv_blk"
  by (simp add: quiet_def rv_blk_code sample_defs)

lemma env0_keeps_last: "env_keeps_last env0"
  by (simp add: env_keeps_last_def env0_def)

text \<open>An iteration that translates a block and runs it to a return.\<close>

lemma iterate_new:
  assumes s: "table_ok s" "refresh_prev s = Some s" "\<not> map_is_full (bcache s)" "cache_map (bcache s) (PC (rvs s)) = None"
    and n: "n = n_blocks (bcache s)" "prev s \<noteq> Some n"
    and blk: "new_block alloc (rvs s) = Some (rvs s, Some blk)" "pc (hd (ir_list blk)) = PC (rvs s)"
    and run: "exec env (ir_list blk) (entry (rvs s)) (csr_cycle (rvs s)) (PC (rvs s)) = Ret True rv'"
  obtains s' sb where "rv_step_body env alloc s = Some (Ok (s', True))" "rvs s' = rv'" "prev s' = Some n"
    "cache_map (bcache s') = (cache_map (bcache s))(PC (rvs s) \<mapsto> n)"
    "bcache s' = bcache (chain_blocks sb n)" "prev sb = prev s" "blocks (bcache sb) = (blocks (bcache s))(n := blk)"
    "unat (map_size (bcache s')) \<le> unat (map_size (bcache s)) + 1"
proof -
  have "find_spec alloc s = Ok (rvs s, Some (n, (cache_map (bcache s))(PC (rvs s) \<mapsto> n), (blocks (bcache s))(n := blk)))"
    using s(3,4) blk(1) n(1) by (simp add: find_spec_def Let_def)
  with find_or_translate_spec [OF s(1), of alloc] s(3) obtain sb where
    sb: "block_find_or_translate alloc s = Some (Ok (sb, Some n))" "rvs sb = rvs s"
    "cache_map (bcache sb) = (cache_map (bcache s))(PC (rvs s) \<mapsto> n)" "blocks (bcache sb) = (blocks (bcache s))(n := blk)"
    "prev sb = prev s" "unat (map_size (bcache sb)) \<le> unat (map_size (bcache s)) + 1" by auto
  let ?rv = "(rvs s)\<lparr>on_exit := on_exit (rvs s) \<or> PC (rvs s) = exit_addr (rvs s)\<rparr>"
  let ?sb = "sb\<lparr>rvs := ?rv\<rparr>"
  let ?s = "enter_block sb n"
  have "(if pc (hd (ir_list (blocks (bcache sb) n))) = exit_addr (rvs s) then (rvs s)\<lparr>on_exit := True\<rparr> else rvs s) = ?rv"
    using blk(2) sb(4) by simp
  then have e: "?s = (chain_blocks ?sb n)\<lparr>rvs := entry (rvs s)\<rparr>"
    using sb(2) by (simp add: enter_block_def Let_def chain_blocks_table entry_def)
  have c: "blocks (bcache ?s) n = blk" "map_size (bcache ?s) = map_size (bcache sb)"
    using sb(4,5) n(2) unfolding e by (auto simp: chain_blocks_def set_tail_def Let_def split: option.splits)
  have "run_chain env n ?s (csr_cycle (rvs s)) (PC (rvs s)) = Some (Ok (?s\<lparr>rvs := rv'\<rparr>, True))"
    using run c(1) by (simp add: run_chain.simps e)
  then have "rv_step_body env alloc s = Some (Ok (?s\<lparr>rvs := rv', prev := Some n\<rparr>, True))"
    using s(2) sb(1) by (simp add: rv_step_body_def Let_def) (simp add: e entry_def)
  then show thesis
    by (rule that [of _ ?sb]) (use sb c in \<open>simp_all add: enter_block_table\<close>, simp add: e)
qed

lemma sample_first_block:
  "\<exists>irs. new_block (\<lambda>ir. True) rv_blk = Some (rv_blk, Some \<lparr>pc_start = 0, pc_end = 12, ir_list = irs @ [jal8],
     page_terminated = False, cycle_cost = 3\<rparr>) \<and> pc (hd (irs @ [jal8])) = 0 \<and>
     exec env0 (irs @ [jal8]) (entry rv_blk) 0 0 = Ret True ((set_X 5 0x12345008 (entry rv_blk))\<lparr>PC := 8, csr_cycle := 3\<rparr>)"
  by (simp add: new_block_def block_translate_def rv_blk_code optimize_constant_def)
    (simp add: sample_defs jal8_def constopt_defs info0_def match_one_def match_lui_def Let_def try_fuse_sequence_def
      count_consecutive_insn_def remove_next_nth_ir_def plain_defs do_fuse1_def copy_fuse_def end_op_def sync_def
      fuse_entries_def)

lemma sample_second_block:
  assumes "mem_base rv = mem_base rv_blk" "PC rv = 8" "X rv 0 = 0"
  shows "new_block (\<lambda>ir. True) rv = Some (rv, Some \<lparr>pc_start = 8, pc_end = 12, ir_list = [jal8],
      page_terminated = False, cycle_cost = 1\<rparr>)" "quiet rv"
    "exec env0 [jal8] rv c 8 = Ret True (rv\<lparr>PC := 8, csr_cycle := c + 1\<rparr>)"
proof -
  have "translate_loop (mem_base rv_blk) 8 8 = ([jal8], 12, Branch_end)"
    by (subst translate_loop.simps, simp add: rv_blk_fetch rv_blk_decode insn_bytes_def is_compressed_def page_end_def jal8_def)
  then have t: "translate_loop (mem_base rv) (PC rv) (PC rv) = ([jal8], 12, Branch_end)" by (simp add: assms)
  show "new_block (\<lambda>ir. True) rv = Some (rv, Some \<lparr>pc_start = 8, pc_end = 12, ir_list = [jal8],
      page_terminated = False, cycle_cost = 1\<rparr>)"
    using assms t by (simp add: new_block_def block_translate_def optimize_constant_def jal8_def constopt_defs info0_def)
  show "quiet rv" using t by (simp add: quiet_def)
  show "exec env0 [jal8] rv c 8 = Ret True (rv\<lparr>PC := 8, csr_cycle := c + 1\<rparr>)"
    by (simp add: plain_defs jal8_def end_op_def sync_def Let_def)
qed

lemma sample_first_iteration:
  obtains s irs where "loop_step env0 (\<lambda>ir. True) emu0 s" "table_ok s" "cache_map (bcache s) = [0 \<mapsto> 0]"
    "ir_list (blocks (bcache s) 0) = irs @ [jal8]" "\<not> page_terminated (blocks (bcache s) 0)" "prev s = Some 0"
    "rvs s = (set_X 5 0x12345008 (entry rv_blk))\<lparr>PC := 8, csr_cycle := 3\<rparr>" "\<not> map_is_full (bcache s)"
proof -
  have e: "rvs emu0 = rv_blk" "bcache emu0 = bc0" "prev emu0 = None" by (simp_all add: emu0_def)
  have bc: "n_blocks bc0 = 0" "map_size bc0 = 0" "block_capacity bc0 = 1024"
    by (simp_all add: bc0_def block_map_init_def block_l1_init_def)
  obtain irs where b: "new_block (\<lambda>ir. True) rv_blk = Some (rv_blk, Some \<lparr>pc_start = 0, pc_end = 12, ir_list = irs @ [jal8],
      page_terminated = False, cycle_cost = 3\<rparr>)" (is "_ = Some (_, Some ?blk)")
    and r: "pc (hd (irs @ [jal8])) = 0"
      "exec env0 (irs @ [jal8]) (entry rv_blk) 0 0 = Ret True ((set_X 5 0x12345008 (entry rv_blk))\<lparr>PC := 8, csr_cycle := 3\<rparr>)"
    using sample_first_block by blast
  have "refresh_prev emu0 = Some emu0" "\<not> map_is_full (bcache emu0)"
    using e bc by (simp_all add: refresh_prev_def map_is_full_def)
  then obtain s sb where s: "rv_step_body env0 (\<lambda>ir. True) emu0 = Some (Ok (s, True))"
    "rvs s = (set_X 5 0x12345008 (entry rv_blk))\<lparr>PC := 8, csr_cycle := 3\<rparr>" "prev s = Some 0" "cache_map (bcache s) = [0 \<mapsto> 0]"
    "bcache s = bcache (chain_blocks sb 0)" "prev sb = None" "blocks (bcache sb) = (blocks bc0)(0 := ?blk)"
    "unat (map_size (bcache s)) \<le> 1"
    using iterate_new [OF emu_table_ok [OF emu0_ok], of 0 "\<lambda>ir. True" ?blk env0] b r e bc bc0_ok(3)
    by (simp del: exec.simps) blast
  have "loop_step env0 (\<lambda>ir. True) emu0 s" using s(1) e(1) by (intro loop_step.iterate) (simp_all add: rv_blk_def)
  moreover have "table_ok s" using rv_step_body_table [OF emu_table_ok [OF emu0_ok] s(1)] .
  moreover have "blocks (bcache s) 0 = ?blk" using s(5-7) by (simp add: chain_blocks_def)
  moreover from calculation(2) s(8) have "\<not> map_is_full (bcache s)"
    by (simp add: table_ok_def cache_ok_def map_is_full_def)
  ultimately show thesis using that s(2-4) by simp
qed

lemma jal8_link: "insn_is_unconditional_branch (opcode jal8)" "insn_is_direct_branch (opcode jal8)" "branch_taken jal8 = None"
  by (simp_all add: insn_is_unconditional_branch_def insn_is_direct_branch_def jal8_def)

text \<open>After the second iteration the tail of the first block has a link.\<close>

lemma sample_linked:
  obtains s b where "calm_reachable env0 (\<lambda>ir. True) emu0 s" "cache_map (bcache s) 0 = Some 0"
    "taken_target (last (ir_list (blocks (bcache s) 0))) = Some 8"
    "branch_taken (last (ir_list (blocks (bcache s) 0))) = Some b"
proof -
  obtain s irs where st: "loop_step env0 (\<lambda>ir. True) emu0 s" and s: "table_ok s" "cache_map (bcache s) = [0 \<mapsto> 0]"
    "ir_list (blocks (bcache s) 0) = irs @ [jal8]" "\<not> page_terminated (blocks (bcache s) 0)" "prev s = Some 0"
    "rvs s = (set_X 5 0x12345008 (entry rv_blk))\<lparr>PC := 8, csr_cycle := 3\<rparr>" "\<not> map_is_full (bcache s)"
    using sample_first_iteration by blast
  let ?n = "n_blocks (bcache s)"
  have rv: "mem_base (rvs s) = mem_base rv_blk" "PC (rvs s) = 8" "X (rvs s) 0 = 0" "csr_cycle (rvs s) = 3" "last_pc (rvs s) = 0"
    "halt (rvs s) = False"
    unfolding s(6) by (simp_all add: entry_def) (simp add: rv_blk_def)
  note blk = sample_second_block [OF rv(1-3)]
  have blk': "exec env0 [jal8] (entry (rvs s)) 3 8 = Ret True ((entry (rvs s))\<lparr>PC := 8, csr_cycle := 3 + 1\<rparr>)"
    by (rule sample_second_block(3)) (simp_all add: entry_def rv)
  have "pc_start (blocks (bcache s) 0) = 0" "0 < ?n" using s(1,2) by (simp_all add: table_ok_def)
  then have refresh: "refresh_prev s = Some s" and n: "?n \<noteq> 0" using s(5) rv(5) by (simp_all add: refresh_prev_def)
  have new: "cache_map (bcache s) (PC (rvs s)) = None" "prev s \<noteq> Some ?n" using s(2,5) rv(2) n by simp_all
  have run: "pc (hd (ir_list \<lparr>pc_start = 8, pc_end = 12, ir_list = [jal8], page_terminated = False, cycle_cost = 1\<rparr>)) = PC (rvs s)"
    "exec env0 (ir_list \<lparr>pc_start = 8, pc_end = 12, ir_list = [jal8], page_terminated = False, cycle_cost = 1\<rparr>)
       (entry (rvs s)) (csr_cycle (rvs s)) (PC (rvs s)) = Ret True ((entry (rvs s))\<lparr>PC := 8, csr_cycle := 3 + 1\<rparr>)"
    using blk' rv(2,4) by (simp add: jal8_def, simp only: block.simps)
  obtain s2 sb where s2: "rv_step_body env0 (\<lambda>ir. True) s = Some (Ok (s2, True))"
    "cache_map (bcache s2) = (cache_map (bcache s))(PC (rvs s) \<mapsto> ?n)" "bcache s2 = bcache (chain_blocks sb ?n)" "prev sb = prev s"
    and "blocks (bcache sb) = (blocks (bcache s))(?n := \<lparr>pc_start = 8, pc_end = 12, ir_list = [jal8], page_terminated = False, cycle_cost = 1\<rparr>)"
    by (rule iterate_new [OF s(1) refresh s(7) new(1) refl new(2) blk(1) run])
  with n have sb: "prev sb = Some 0" "blocks (bcache sb) 0 = blocks (bcache s) 0" using s(5) by simp_all
  have "calm emu0" "calm s" using rv_blk_quiet blk(2) by (simp_all add: calm_def emu0_def)
  then have "calm_reachable env0 (\<lambda>ir. True) emu0 s2"
    using st s2(1) rv(6) by (blast intro: calm_reachable.intros loop_step.intros)
  moreover have "bcache s2 = set_tail (\<lambda>ir. ir\<lparr>branch_taken := Some ?n\<rparr>) 0 (bcache sb)"
    unfolding s2(3) using sb s(4) by (simp add: chain_blocks_def Let_def s(3) jal8_link)
  then have "last (ir_list (blocks (bcache s2) 0)) = jal8\<lparr>branch_taken := Some ?n\<rparr>"
    using sb(2) s(3) by (simp add: set_tail_ir_list)
  ultimately show thesis using that s2(2) s(2) rv(2) by (simp add: taken_target_def jal8_def)
qed

section \<open>Properties\<close>

text \<open>
  C2. Chaining does not change what runs. The state is one that the loop reaches without ever
  translating a block with an illegal instruction in it or a \<^verbatim>\<open>wfi\<close> in its middle, and the same
  holds of the block it is about to translate. Then the iteration does what \<open>find_spec\<close> says of the
  map of the table and of the machine: it aborts the process because the translation does; or
  there is no code at the PC and it halts; or the block is the map's block for the PC, a newly translated one if
  there is none, which is added to the map (emptied first if it is full). In the last case the
  table in force is that map, the code of every block is unchanged up to the link
  fields of its tail, the machine is the old one with \<^verbatim>\<open>last_pc\<close> and the exit flag set, and the
  result (machine and continuation flag) and running forever are those of a run that follows no link and
  no history table but looks every target up in this map; where a tail has no link yet, both return to the loop.
\<close>

theorem step_by_lookup:
  assumes "env_keeps_last env" "emu_ok s0" "calm_reachable env alloc s0 s" "calm s"
  shows "case find_spec alloc s of
      Crash \<Rightarrow> rv_step_body env alloc s = Some Crash
    | Ok (rv, None) \<Rightarrow> \<exists>s'. rv_step_body env alloc s = Some (Ok (s', False)) \<and> rvs s' = (rvs s)\<lparr>halt := True\<rparr>
    | Ok (rv, Some (b, m, code)) \<Rightarrow> m (PC (rvs s)) = Some b \<and>
        (\<exists>sa sb. refresh_prev s = Some sa \<and> block_find_or_translate alloc sa = Some (Ok (sb, Some b)) \<and>
          cache_map (bcache (enter_block sb b)) = m \<and>
          (\<forall>c. unlinked (blocks (bcache (enter_block sb b)) c) = unlinked (code c)) \<and>
          rvs (enter_block sb b) = entry (rvs s) \<and>
          map_option run_result (rv_step_body env alloc s) =
            run_ref env (bcache (enter_block sb b)) b (entry (rvs s)) (csr_cycle (rvs s)) (PC (rvs s)))"
proof -
  have ok: "emu_ok s" using calm_reachable_ok [OF assms(3,1,2)] .
  from assms(1) ok assms(4) show ?thesis
  proof (cases rule: rv_step_body_cases [where alloc = alloc])
    case (runs sa sb b m code)
    have "map_option run_result (rv_step_body env alloc s) =
        run_ref env (bcache (enter_block sb b)) b (entry (rvs s)) (csr_cycle (rvs s)) (PC (rvs s))"
      using rv_step_body_ref [OF assms(1) runs(8) runs(10)] unfolding runs(7) .
    with runs(1-7) show ?thesis by auto
  qed auto
qed

text \<open>
  C19. The invariant of the step loop. In every state the loop can reach, whatever the guest's
  code is: the table and the first-level cache agree, at most 820 of the 1024 slots are used, and every block
  stands in the table under its own address. In every state it reaches without having
  translated a block with an illegal instruction in it or a \<^verbatim>\<open>wfi\<close> in its middle, moreover, every link that a handler
  follows leads to the block that the table holds for the target: the links of the tail
  instruction and the filled entries of its branch history table.
\<close>

theorem loop_invariant:
  assumes "env_keeps_last env" "emu_ok s0" "reachable env alloc s0 s"
  shows "cache_ok (bcache s) \<and> unat (map_size (bcache s)) \<le> 820 \<and>
    (\<forall>a b. cache_map (bcache s) a = Some b \<longrightarrow> pc_start (blocks (bcache s) b) = a \<and> b < n_blocks (bcache s)) \<and>
    (calm_reachable env alloc s0 s \<longrightarrow>
      (\<forall>a b. cache_map (bcache s) a = Some b \<longrightarrow> block_ok (blocks (bcache s) b) \<and>
         linked_ok (cache_map (bcache s)) (last (ir_list (blocks (bcache s) b))) \<and>
         history_ok (cache_map (bcache s)) (bht s b)))"
  using reachable_table_ok [OF assms(3) emu_table_ok [OF assms(2)]] calm_reachable_ok [OF _ assms(1,2), of alloc s]
  by (simp add: table_ok_def emu_ok_def links_ok_def)

text \<open>
  C35. The searches of the step loop end. In every state the loop can reach, whatever the guest's
  code is, the unbounded probing loops behind the refresh of \<^verbatim>\<open>prev\<close> and behind
  \<^verbatim>\<open>block_find_or_translate\<close> (lookup and insertion) return; if a block is found, so does the
  lookup of any target in the branch history table of any block while it runs; and the iteration
  runs forever only if the chain of guest code does.
\<close>

theorem searches_end:
  assumes "table_ok s0" "reachable env alloc s0 s"
  shows "\<exists>s1 r. refresh_prev s = Some s1 \<and> block_find_or_translate alloc s1 = Some r \<and>
    (\<forall>s2 b. r = Ok (s2, Some b) \<longrightarrow>
       (\<forall>s' c q. bcache s' = bcache (enter_block s2 b) \<longrightarrow> bht_lookup s' c q \<noteq> None) \<and>
       (\<forall>cyc p s' k. run_chain env b (enter_block s2 b) cyc p = Some (Ok (s', k)) \<longrightarrow> bcache s' = bcache (enter_block s2 b))) \<and>
    (rv_step_body env alloc s = None \<longrightarrow>
       (\<exists>s2 b. r = Ok (s2, Some b) \<and>
          run_chain env b (enter_block s2 b) (csr_cycle (rvs (enter_block s2 b))) (PC (rvs (enter_block s2 b))) = None))"
proof -
  obtain s1 where s1: "refresh_prev s = Some s1" "table_ok s1"
    using refresh_prev_table [OF reachable_table_ok [OF assms(2,1)]] by blast
  note f = find_or_translate_spec [OF s1(2), of alloc]
  obtain r where r: "block_find_or_translate alloc s1 = Some r" "\<And>s2 b. r = Ok (s2, b) \<Longrightarrow> table_ok s2"
    using f by (cases "find_spec alloc s1") (auto split: option.splits prod.splits)
  have "bht_lookup s' c q \<noteq> None" if "r = Ok (s2, Some b)" "bcache s' = bcache (enter_block s2 b)" for s2 b s' c q
  proof -
    have "table_ok (enter_block s2 b)" using r(2) that(1) by (simp add: enter_block_table)
    then have "block_find (bcache s') q = Some (cache_map (bcache s') q)"
      unfolding that(2) by (auto simp: table_ok_def emu_room intro: block_find_correct)
    then show ?thesis by (simp add: bht_lookup_def Let_def split: option.split)
  qed
  moreover have "\<exists>s2 b. r = Ok (s2, Some b) \<and> run_chain env b (enter_block s2 b)
      (csr_cycle (rvs (enter_block s2 b))) (PC (rvs (enter_block s2 b))) = None" if "rv_step_body env alloc s = None"
    using that s1(1) r(1) by (auto simp: rv_step_body_def Let_def split: run.splits option.splits)
  ultimately show ?thesis
    using s1(1) r(1) run_chain_frame by (intro exI [of _ s1] exI [of _ r]) blast
qed

theorem step_by_lookup_witness:
  "\<exists>sa sb. refresh_prev emu0 = Some sa \<and> block_find_or_translate (\<lambda>ir. True) sa = Some (Ok (sb, Some 0)) \<and>
     cache_map (bcache (enter_block sb 0)) = [0 \<mapsto> 0] \<and>
     map_option run_result (rv_step_body env0 (\<lambda>ir. True) emu0) = run_ref env0 (bcache (enter_block sb 0)) 0 (entry rv_blk) 0 0"
proof -
  have e: "rvs emu0 = rv_blk" "bcache emu0 = bc0" by (simp_all add: emu0_def)
  have bc: "n_blocks bc0 = 0" "map_size bc0 = 0" by (simp_all add: bc0_def block_map_init_def block_l1_init_def)
  have "calm emu0" using e rv_blk_quiet by (simp add: calm_def)
  from step_by_lookup [OF env0_keeps_last emu0_ok calm_start this, of "\<lambda>ir. True"] rv_blk_new
  show ?thesis by (auto simp: find_spec_def e bc bc0_ok map_is_full_def)
qed

theorem loop_invariant_witness:
  "\<exists>s b. calm_reachable env0 (\<lambda>ir. True) emu0 s \<and> branch_taken (last (ir_list (blocks (bcache s) 0))) = Some b \<and>
     cache_map (bcache s) 8 = Some b \<and> pc_start (blocks (bcache s) b) = 8"
proof -
  obtain s b where s: "calm_reachable env0 (\<lambda>ir. True) emu0 s" "cache_map (bcache s) 0 = Some 0"
    "taken_target (last (ir_list (blocks (bcache s) 0))) = Some 8"
    "branch_taken (last (ir_list (blocks (bcache s) 0))) = Some b" by (rule sample_linked)
  note inv = loop_invariant [OF env0_keeps_last emu0_ok calm_is_reachable [OF s(1)]]
  from inv s(1,2) have "linked_ok (cache_map (bcache s)) (last (ir_list (blocks (bcache s) 0)))" by blast
  with s(3,4) have "cache_map (bcache s) 8 = Some b" by (simp add: linked_ok_def)
  with inv s(1,4) show ?thesis by blast
qed

theorem searches_end_witness:
  "\<exists>s s1 r. loop_step env0 (\<lambda>ir. True) emu0 s \<and> prev s = Some 0 \<and>
     refresh_prev s = Some s1 \<and> block_find_or_translate (\<lambda>ir. True) s1 = Some r"
proof -
  obtain s where s: "loop_step env0 (\<lambda>ir. True) emu0 s" "prev s = Some 0" using sample_first_iteration by blast
  then have "reachable env0 (\<lambda>ir. True) emu0 s" by (blast intro: reachable.intros)
  from searches_end [OF emu_table_ok [OF emu0_ok] this] s show ?thesis by blast
qed

end
