(* ===== verification/Rb_Map.thy ===== *)
theory Rb_Map
  imports Prelude "HOL-Library.Monad_Syntax"
begin

unbundle bit_operations_syntax

text \<open>
  The ordered map (\<^verbatim>\<open>map.c\<close>, \<^verbatim>\<open>map.h\<close>): a left-leaning red-black tree without parent pointers, used
  for file descriptors, symbols and breakpoints, and the breakpoint table (\<^verbatim>\<open>breakpoint.c\<close>).

  A node is the tree below it; the colour, which the code packs into the lowest bit of the right
  pointer, is a field. Each operation of the code that reads or writes a node through a pointer
  is a function into \<open>option\<close>, with \<^const>\<open>None\<close> for a NULL pointer or a failed assertion. The array
  of the search path is a list with the deepest entry first. No two pointers of a tree lead to
  the same node, so a write through the path is a new value of that entry; \<open>plug\<close> rebuilds the
  ancestors that the code leaves alone. A key or a value is one value of its C type.
\<close>

section \<open>Nodes\<close>

datatype map_color = RB_BLACK | RB_RED

datatype map_cmp = MAP_CMP_LESS | MAP_CMP_EQUAL | MAP_CMP_GREATER

datatype ('k, 'v) map_node =
  Null
| Node (clr: map_color) (lft: "('k, 'v) map_node") (nkey: 'k) (ndata: 'v) (rgt: "('k, 'v) map_node")

fun rb_node_get_left :: "('k, 'v) map_node \<Rightarrow> ('k, 'v) map_node option" where
  "rb_node_get_left Null = None"
| "rb_node_get_left (Node c l k v r) = Some l"

fun rb_node_set_left :: "('k, 'v) map_node \<Rightarrow> ('k, 'v) map_node \<Rightarrow> ('k, 'v) map_node option" where
  "rb_node_set_left Null l' = None"
| "rb_node_set_left (Node c l k v r) l' = Some (Node c l' k v r)"

fun rb_node_get_right :: "('k, 'v) map_node \<Rightarrow> ('k, 'v) map_node option" where
  "rb_node_get_right Null = None"
| "rb_node_get_right (Node c l k v r) = Some r"

fun rb_node_set_right :: "('k, 'v) map_node \<Rightarrow> ('k, 'v) map_node \<Rightarrow> ('k, 'v) map_node option" where
  "rb_node_set_right Null r' = None"
| "rb_node_set_right (Node c l k v r) r' = Some (Node c l k v r')"

fun rb_node_get_color :: "('k, 'v) map_node \<Rightarrow> map_color option" where
  "rb_node_get_color Null = None"
| "rb_node_get_color (Node c l k v r) = Some c"

fun rb_node_set_color :: "map_color \<Rightarrow> ('k, 'v) map_node \<Rightarrow> ('k, 'v) map_node option" where
  "rb_node_set_color c' Null = None"
| "rb_node_set_color c' (Node c l k v r) = Some (Node c' l k v r)"

definition rb_node_set_red :: "('k, 'v) map_node \<Rightarrow> ('k, 'v) map_node option" where
  "rb_node_set_red = rb_node_set_color RB_RED"

definition rb_node_set_black :: "('k, 'v) map_node \<Rightarrow> ('k, 'v) map_node option" where
  "rb_node_set_black = rb_node_set_color RB_BLACK"

definition RB_IS_RED :: "('k, 'v) map_node \<Rightarrow> bool option" where
  "RB_IS_RED n = map_option (\<lambda>c. c = RB_RED) (rb_node_get_color n)"

definition RB_IS_BLACK :: "('k, 'v) map_node \<Rightarrow> bool option" where
  "RB_IS_BLACK n = map_option (\<lambda>c. c = RB_BLACK) (rb_node_get_color n)"

text \<open>\<^verbatim>\<open>node && RB_IS_RED(node)\<close>\<close>

definition is_red :: "('k, 'v) map_node \<Rightarrow> bool" where
  "is_red n \<longleftrightarrow> RB_IS_RED n = Some True"

text \<open>The rotations return the new root of the subtree.\<close>

definition rb_node_rotate_left :: "('k, 'v) map_node \<Rightarrow> ('k, 'v) map_node option" where
  "rb_node_rotate_left x = do {
     r \<leftarrow> rb_node_get_right x;
     rl \<leftarrow> rb_node_get_left r;
     x \<leftarrow> rb_node_set_right x rl;
     rb_node_set_left r x }"

definition rb_node_rotate_right :: "('k, 'v) map_node \<Rightarrow> ('k, 'v) map_node option" where
  "rb_node_rotate_right x = do {
     r \<leftarrow> rb_node_get_left x;
     rr \<leftarrow> rb_node_get_right r;
     x \<leftarrow> rb_node_set_left x rr;
     rb_node_set_right r x }"

definition rb_node_init :: "'k \<Rightarrow> 'v \<Rightarrow> ('k, 'v) map_node" where
  "rb_node_init k v = Node RB_RED Null k v Null"

section \<open>Paths\<close>

type_synonym ('k, 'v) path = "(('k, 'v) map_node \<times> map_cmp) list"

abbreviation (input) RB_MAX_DEPTH :: nat where "RB_MAX_DEPTH \<equiv> 128"

fun put :: "('k, 'v) map_node \<Rightarrow> map_cmp \<Rightarrow> ('k, 'v) map_node \<Rightarrow> ('k, 'v) map_node option" where
  "put n c t = (if c = MAP_CMP_LESS then rb_node_set_left n t else rb_node_set_right n t)"

fun plug :: "('k, 'v) map_node \<Rightarrow> ('k, 'v) path \<Rightarrow> ('k, 'v) map_node option" where
  "plug t [] = Some t"
| "plug t ((n, c) # path) = do { n' \<leftarrow> put n c t; plug n' path }"

section \<open>Insertion\<close>

record ('k, 'v) map_internal =
  root :: "('k, 'v) map_node"
  key_size :: u64
  data_size :: u64
  msize :: u64
  comparator :: "'k \<Rightarrow> 'k \<Rightarrow> map_cmp"

datatype ('k, 'v) insert_point = Exists "('k, 'v) map_node" | Too_deep | At "('k, 'v) path"

fun insert_search :: "('k \<Rightarrow> 'k \<Rightarrow> map_cmp) \<Rightarrow> 'k \<Rightarrow> nat \<Rightarrow> ('k, 'v) map_node \<Rightarrow> ('k, 'v) path \<Rightarrow> ('k, 'v) insert_point" where
  "insert_search cmp key depth Null path = (if depth \<ge> RB_MAX_DEPTH - 1 then Too_deep else At path)"
| "insert_search cmp key depth (Node c l k v r) path =
    (if depth \<ge> RB_MAX_DEPTH - 1 then Too_deep
     else case cmp key k of
       MAP_CMP_LESS \<Rightarrow> insert_search cmp key (depth + 1) l ((Node c l k v r, MAP_CMP_LESS) # path)
     | MAP_CMP_GREATER \<Rightarrow> insert_search cmp key (depth + 1) r ((Node c l k v r, MAP_CMP_GREATER) # path)
     | MAP_CMP_EQUAL \<Rightarrow> Exists (Node c l k v r))"

definition rb_insert_unique :: "('k, 'v) map_internal \<Rightarrow> 'k \<Rightarrow> ('k, 'v) insert_point" where
  "rb_insert_unique rb key = insert_search (comparator rb) key 0 (root rb) []"

text \<open>The layout of a node, its key and its data in one block of memory; \<^const>\<open>None\<close> on overflow.\<close>

definition node_layout :: "u64 \<Rightarrow> u64 \<Rightarrow> u64 option" where
  "node_layout ksize vsize =
    (let align_mask = 7;
         key_offset = (32 + align_mask) AND NOT align_mask;
         data_offset = (key_offset + ksize + align_mask) AND NOT align_mask;
         total_size = data_offset + vsize
     in if total_size < vsize \<or> total_size < ksize then None else Some total_size)"

definition map_create_node :: "(u64 \<Rightarrow> bool) \<Rightarrow> 'k \<Rightarrow> 'v \<Rightarrow> u64 \<Rightarrow> u64 \<Rightarrow> ('k, 'v) map_node option" where
  "map_create_node alloc key val ksize vsize =
    (case node_layout ksize vsize of
       None \<Rightarrow> None
     | Some total_size \<Rightarrow> (if alloc total_size then Some (rb_node_init key val) else None))"

fun insert_fix :: "('k, 'v) map_node \<Rightarrow> ('k, 'v) path \<Rightarrow> ('k, 'v) map_node option" where
  "insert_fix child [] = Some child"
| "insert_fix child ((cnode, cmp) # path) =
    (if cmp = MAP_CMP_LESS then do {
       cnode \<leftarrow> rb_node_set_left cnode child;
       black \<leftarrow> RB_IS_BLACK child;
       if black then plug cnode path
       else do {
         leftleft \<leftarrow> rb_node_get_left child;
         if is_red leftleft then do {
           leftleft \<leftarrow> rb_node_set_black leftleft;
           left \<leftarrow> rb_node_set_left child leftleft;
           cnode \<leftarrow> rb_node_set_left cnode left;
           tnode \<leftarrow> rb_node_rotate_right cnode;
           insert_fix tnode path }
         else insert_fix cnode path }}
     else do {
       cnode \<leftarrow> rb_node_set_right cnode child;
       black \<leftarrow> RB_IS_BLACK child;
       if black then plug cnode path
       else do {
         left \<leftarrow> rb_node_get_left cnode;
         if is_red left then do {
           left \<leftarrow> rb_node_set_black left;
           right \<leftarrow> rb_node_set_black child;
           cnode \<leftarrow> rb_node_set_left cnode left;
           cnode \<leftarrow> rb_node_set_right cnode right;
           cnode \<leftarrow> rb_node_set_red cnode;
           insert_fix cnode path }
         else do {
           tcolor \<leftarrow> rb_node_get_color cnode;
           cnode \<leftarrow> rb_node_set_red cnode;
           tnode \<leftarrow> rb_node_rotate_left cnode;
           tnode \<leftarrow> rb_node_set_color tcolor tnode;
           insert_fix tnode path }}})"

text \<open>
  The result of an operation: the map and what it returns, or \<^const>\<open>None\<close> for undefined behaviour.
  A handle that is NULL is \<^const>\<open>None\<close> as an argument.
\<close>

definition map_insert :: "(u64 \<Rightarrow> bool) \<Rightarrow> ('k, 'v) map_internal option \<Rightarrow> 'k \<Rightarrow> 'v \<Rightarrow>
    (('k, 'v) map_internal option \<times> bool) option" where
  "map_insert alloc obj key val =
    (case obj of
       None \<Rightarrow> Some (None, False)
     | Some m \<Rightarrow>
         (case rb_insert_unique m key of
            Too_deep \<Rightarrow> Some (Some m, False)
          | Exists n \<Rightarrow> Some (Some m, False)
          | At path \<Rightarrow>
              (case map_create_node alloc key val (key_size m) (data_size m) of
                 None \<Rightarrow> Some (Some m, False)
               | Some node \<Rightarrow> do {
                   t \<leftarrow> insert_fix node path;
                   t \<leftarrow> rb_node_set_black t;
                   Some (Some (m\<lparr>root := t, msize := msize m + 1\<rparr>), True) })))"

section \<open>Removal\<close>

text \<open>The way down to the node with the key, and from there to its successor.\<close>

fun remove_search :: "('k \<Rightarrow> 'k \<Rightarrow> map_cmp) \<Rightarrow> 'k \<Rightarrow> ('k, 'v) map_node \<Rightarrow> ('k, 'v) path \<Rightarrow>
    (('k, 'v) map_node \<times> ('k, 'v) path) option" where
  "remove_search cmp key Null path = None"
| "remove_search cmp key (Node c l k v r) path =
    (case cmp key k of
       MAP_CMP_LESS \<Rightarrow> remove_search cmp key l ((Node c l k v r, MAP_CMP_LESS) # path)
     | MAP_CMP_GREATER \<Rightarrow> remove_search cmp key r ((Node c l k v r, MAP_CMP_GREATER) # path)
     | MAP_CMP_EQUAL \<Rightarrow> Some (Node c l k v r, path))"

fun leftmost_path :: "('k, 'v) map_node \<Rightarrow> ('k, 'v) path \<Rightarrow> ('k, 'v) path" where
  "leftmost_path Null path = path"
| "leftmost_path (Node c l k v r) path = leftmost_path l ((Node c l k v r, MAP_CMP_LESS) # path)"

fun remove_fix :: "('k, 'v) map_node \<Rightarrow> ('k, 'v) path \<Rightarrow> ('k, 'v) map_node option" where
  "remove_fix child [] = do { black \<leftarrow> RB_IS_BLACK child; if black then Some child else None }"
| "remove_fix child ((n, cmp) # path) =
    (if cmp = MAP_CMP_EQUAL then None
     else if cmp = MAP_CMP_LESS then do {
       n \<leftarrow> rb_node_set_left n child;
       red \<leftarrow> RB_IS_RED n;
       right \<leftarrow> rb_node_get_right n;
       rightleft \<leftarrow> rb_node_get_left right;
       if red then do {
         tnode \<leftarrow> (if is_red rightleft then do {
             n \<leftarrow> rb_node_set_black n;
             tnode \<leftarrow> rb_node_rotate_right right;
             n \<leftarrow> rb_node_set_right n tnode;
             rb_node_rotate_left n }
           else rb_node_rotate_left n);
         if path = [] then None else plug tnode path }
       else if is_red rightleft then do {
         rightleft \<leftarrow> rb_node_set_black rightleft;
         right \<leftarrow> rb_node_set_left right rightleft;
         tnode \<leftarrow> rb_node_rotate_right right;
         n \<leftarrow> rb_node_set_right n tnode;
         tnode \<leftarrow> rb_node_rotate_left n;
         plug tnode path }
       else do {
         n \<leftarrow> rb_node_set_red n;
         tnode \<leftarrow> rb_node_rotate_left n;
         remove_fix tnode path }}
     else do {
       n \<leftarrow> rb_node_set_right n child;
       left \<leftarrow> rb_node_get_left n;
       left_red \<leftarrow> RB_IS_RED left;
       red \<leftarrow> RB_IS_RED n;
       if left_red then do {
         leftright \<leftarrow> rb_node_get_right left;
         leftrightleft \<leftarrow> rb_node_get_left leftright;
         tnode \<leftarrow> (if is_red leftrightleft then do {
             leftrightleft \<leftarrow> rb_node_set_black leftrightleft;
             leftright \<leftarrow> rb_node_set_left leftright leftrightleft;
             left \<leftarrow> rb_node_set_right left leftright;
             n \<leftarrow> rb_node_set_left n left;
             unode \<leftarrow> rb_node_rotate_right n;
             n \<leftarrow> rb_node_get_right unode;
             tnode \<leftarrow> rb_node_rotate_right n;
             unode \<leftarrow> rb_node_set_right unode tnode;
             rb_node_rotate_left unode }
           else do {
             leftright \<leftarrow> rb_node_set_red leftright;
             left \<leftarrow> rb_node_set_right left leftright;
             n \<leftarrow> rb_node_set_left n left;
             tnode \<leftarrow> rb_node_rotate_right n;
             rb_node_set_black tnode });
         plug tnode path }
       else do {
         leftleft \<leftarrow> rb_node_get_left left;
         if red then
           (if is_red leftleft then do {
              n \<leftarrow> rb_node_set_black n;
              leftleft \<leftarrow> rb_node_set_black leftleft;
              left \<leftarrow> rb_node_set_red left;
              left \<leftarrow> rb_node_set_left left leftleft;
              n \<leftarrow> rb_node_set_left n left;
              tnode \<leftarrow> rb_node_rotate_right n;
              if path = [] then None else plug tnode path }
            else do {
              left \<leftarrow> rb_node_set_red left;
              n \<leftarrow> rb_node_set_left n left;
              n \<leftarrow> rb_node_set_black n;
              plug n path })
         else if is_red leftleft then do {
           leftleft \<leftarrow> rb_node_set_black leftleft;
           left \<leftarrow> rb_node_set_left left leftleft;
           n \<leftarrow> rb_node_set_left n left;
           tnode \<leftarrow> rb_node_rotate_right n;
           plug tnode path }
         else do {
           left \<leftarrow> rb_node_set_red left;
           n \<leftarrow> rb_node_set_left n left;
           remove_fix n path }}})"

text \<open>
  \<open>color\<close> is the colour of the node that is cut off behind \<open>path\<close>; the path has room for
  \<^verbatim>\<open>RB_MAX_DEPTH\<close> entries, the last of them the NULL below the deepest node.
\<close>

definition prune :: "map_color \<Rightarrow> ('k, 'v) path \<Rightarrow> ('k, 'v) map_node option" where
  "prune color path =
    (if color = RB_RED then
       (case path of
          (n, MAP_CMP_LESS) # rest \<Rightarrow> do { n \<leftarrow> rb_node_set_left n Null; plug n rest }
        | _ \<Rightarrow> None)
     else remove_fix Null path)"

definition rb_remove :: "('k \<Rightarrow> 'k \<Rightarrow> map_cmp) \<Rightarrow> ('k, 'v) map_node \<Rightarrow> 'k \<Rightarrow> ('k, 'v) map_node option" where
  "rb_remove cmp t key = do {
     (node, anc) \<leftarrow> remove_search cmp key t [];
     left \<leftarrow> rb_node_get_left node;
     right \<leftarrow> rb_node_get_right node;
     color \<leftarrow> rb_node_get_color node;
     let below = leftmost_path right [];
     if length anc + length below + 2 > RB_MAX_DEPTH then None
     else case below of
       (succ, _) # mid \<Rightarrow> do {
         tcolor \<leftarrow> rb_node_get_color succ;
         succ \<leftarrow> rb_node_set_color color succ;
         succ \<leftarrow> rb_node_set_left succ left;
         succ \<leftarrow> rb_node_set_right succ right;
         prune tcolor (mid @ (succ, MAP_CMP_GREATER) # anc) }
     | [] \<Rightarrow>
         (if left \<noteq> Null then do {
            black \<leftarrow> RB_IS_BLACK node;
            red \<leftarrow> RB_IS_RED left;
            if \<not> black \<or> \<not> red then None
            else do { left \<leftarrow> rb_node_set_black left; plug left anc } }
          else if anc = [] then Some Null
          else prune color anc) }"

section \<open>The interface\<close>

definition map_new :: "(u64 \<Rightarrow> bool) \<Rightarrow> u64 \<Rightarrow> u64 \<Rightarrow> ('k \<Rightarrow> 'k \<Rightarrow> map_cmp) option \<Rightarrow> ('k, 'v) map_internal option" where
  "map_new alloc ksize dsize cmp =
    (if ksize = 0 \<or> dsize = 0 \<or> cmp = None then None
     else let max_size = (- 1) div 4 in
     if ksize > max_size \<or> dsize > max_size \<or> ksize + dsize > max_size - 32 then None
     else if \<not> alloc 40 then None
     else Some \<lparr>root = Null, key_size = ksize, data_size = dsize, msize = 0, comparator = the cmp\<rparr>)"

text \<open>
  An iterator points to a node, which is known by its key: keys never change and are unique.
  \<open>node_at\<close> is the node behind the pointer, \<^const>\<open>None\<close> if it is no longer in the tree.
\<close>

fun map_find_loop :: "('k \<Rightarrow> 'k \<Rightarrow> map_cmp) \<Rightarrow> 'k \<Rightarrow> ('k, 'v) map_node \<Rightarrow> ('k, 'v) map_node" where
  "map_find_loop cmp key Null = Null"
| "map_find_loop cmp key (Node c l k v r) =
    (case cmp key k of
       MAP_CMP_EQUAL \<Rightarrow> Node c l k v r
     | MAP_CMP_LESS \<Rightarrow> map_find_loop cmp key l
     | MAP_CMP_GREATER \<Rightarrow> map_find_loop cmp key r)"

definition iter_of :: "('k, 'v) map_node \<Rightarrow> 'k option" where
  "iter_of n = (if n = Null then None else Some (nkey n))"

definition node_at :: "('k, 'v) map_internal \<Rightarrow> 'k \<Rightarrow> ('k, 'v) map_node option" where
  "node_at m key = (case map_find_loop (comparator m) key (root m) of Null \<Rightarrow> None | n \<Rightarrow> Some n)"

definition map_find :: "('k, 'v) map_internal option \<Rightarrow> 'k \<Rightarrow> 'k option" where
  "map_find obj key =
    (case obj of None \<Rightarrow> None | Some m \<Rightarrow> iter_of (map_find_loop (comparator m) key (root m)))"

definition map_iter_value :: "('k, 'v) map_internal option \<Rightarrow> 'k option \<Rightarrow> 'v option" where
  "map_iter_value obj it = do { m \<leftarrow> obj; key \<leftarrow> it; n \<leftarrow> node_at m key; Some (ndata n) }"

definition map_empty :: "('k, 'v) map_internal option \<Rightarrow> bool" where
  "map_empty obj = (case obj of None \<Rightarrow> True | Some m \<Rightarrow> root m = Null)"

definition map_at_end :: "'k option \<Rightarrow> bool" where
  "map_at_end it = (it = None)"

definition map_erase :: "('k, 'v) map_internal option \<Rightarrow> 'k option \<Rightarrow> (('k, 'v) map_internal option \<times> 'k option) option" where
  "map_erase obj it =
    (case (obj, it) of
       (Some m, Some key) \<Rightarrow>
         (if msize m = 0 then Some (obj, it)
          else do {
            t \<leftarrow> rb_remove (comparator m) (root m) key;
            Some (Some (m\<lparr>root := t, msize := msize m - 1\<rparr>), None) })
     | _ \<Rightarrow> Some (obj, it))"

definition map_clear :: "('k, 'v) map_internal option \<Rightarrow> ('k, 'v) map_internal option" where
  "map_clear obj = map_option (\<lambda>m. m\<lparr>root := Null, msize := 0\<rparr>) obj"

definition map_delete :: "('k, 'v) map_internal option \<Rightarrow> ('k, 'v) map_internal option" where
  "map_delete obj = (case map_clear obj of None \<Rightarrow> None | Some m \<Rightarrow> None)"

definition rb_map_size :: "('k, 'v) map_internal option \<Rightarrow> u64" where
  "rb_map_size obj = (case obj of None \<Rightarrow> 0 | Some m \<Rightarrow> msize m)"

fun leftmost :: "('k, 'v) map_node \<Rightarrow> ('k, 'v) map_node" where
  "leftmost Null = Null"
| "leftmost (Node c l k v r) = (if l = Null then Node c l k v r else leftmost l)"

fun rightmost :: "('k, 'v) map_node \<Rightarrow> ('k, 'v) map_node" where
  "rightmost Null = Null"
| "rightmost (Node c l k v r) = (if r = Null then Node c l k v r else rightmost r)"

definition map_first :: "('k, 'v) map_internal option \<Rightarrow> 'k option" where
  "map_first obj = (case obj of None \<Rightarrow> None | Some m \<Rightarrow> iter_of (leftmost (root m)))"

definition map_last :: "('k, 'v) map_internal option \<Rightarrow> 'k option" where
  "map_last obj = (case obj of None \<Rightarrow> None | Some m \<Rightarrow> iter_of (rightmost (root m)))"

fun succ_search :: "('k \<Rightarrow> 'k \<Rightarrow> map_cmp) \<Rightarrow> 'k \<Rightarrow> ('k, 'v) map_node \<Rightarrow> ('k, 'v) map_node \<Rightarrow> ('k, 'v) map_node" where
  "succ_search cmp key Null succ = succ"
| "succ_search cmp key (Node c l k v r) succ =
    (case cmp key k of
       MAP_CMP_LESS \<Rightarrow> succ_search cmp key l (Node c l k v r)
     | MAP_CMP_GREATER \<Rightarrow> succ_search cmp key r succ
     | MAP_CMP_EQUAL \<Rightarrow> succ)"

fun pred_search :: "('k \<Rightarrow> 'k \<Rightarrow> map_cmp) \<Rightarrow> 'k \<Rightarrow> ('k, 'v) map_node \<Rightarrow> ('k, 'v) map_node \<Rightarrow> ('k, 'v) map_node" where
  "pred_search cmp key Null pred = pred"
| "pred_search cmp key (Node c l k v r) pred =
    (case cmp key k of
       MAP_CMP_GREATER \<Rightarrow> pred_search cmp key r (Node c l k v r)
     | MAP_CMP_LESS \<Rightarrow> pred_search cmp key l pred
     | MAP_CMP_EQUAL \<Rightarrow> pred)"

text \<open>\<^const>\<open>None\<close>: the iterator points to a node that is no longer there.\<close>

definition map_next :: "('k, 'v) map_internal option \<Rightarrow> 'k option \<Rightarrow> 'k option option" where
  "map_next obj it =
    (case (obj, it) of
       (Some m, Some key) \<Rightarrow> do {
         node \<leftarrow> node_at m key;
         right \<leftarrow> rb_node_get_right node;
         Some (iter_of (if right \<noteq> Null then leftmost right else succ_search (comparator m) key (root m) Null)) }
     | _ \<Rightarrow> Some None)"

definition map_prev :: "('k, 'v) map_internal option \<Rightarrow> 'k option \<Rightarrow> 'k option option" where
  "map_prev obj it =
    (case (obj, it) of
       (Some m, Some key) \<Rightarrow> do {
         node \<leftarrow> node_at m key;
         left \<leftarrow> rb_node_get_left node;
         Some (iter_of (if left \<noteq> Null then rightmost left else pred_search (comparator m) key (root m) Null)) }
     | _ \<Rightarrow> Some None)"

text \<open>The comparison functions of \<^verbatim>\<open>map.h\<close>: \<^verbatim>\<open>(a > b) - (a < b)\<close> on signed and unsigned integers.\<close>

definition cmp_of_int :: "int \<Rightarrow> map_cmp" where
  "cmp_of_int d = (if d = - 1 then MAP_CMP_LESS else if d = 0 then MAP_CMP_EQUAL else MAP_CMP_GREATER)"

definition map_cmp_int :: "u32 \<Rightarrow> u32 \<Rightarrow> map_cmp" where
  "map_cmp_int a b = cmp_of_int (of_bool (sint a > sint b) - of_bool (sint a < sint b))"

definition map_cmp_uint :: "u32 \<Rightarrow> u32 \<Rightarrow> map_cmp" where
  "map_cmp_uint a b = cmp_of_int (of_bool (a > b) - of_bool (a < b))"

section \<open>Breakpoints\<close>

record breakpoint =
  bp_addr :: u32
  orig_insn :: u32

definition breakpoint_cmp :: "u32 \<Rightarrow> u32 \<Rightarrow> map_cmp" where
  "breakpoint_cmp a b = (if a < b then MAP_CMP_LESS else if a > b then MAP_CMP_GREATER else MAP_CMP_EQUAL)"

definition breakpoint_map_new :: "(u64 \<Rightarrow> bool) \<Rightarrow> (u32, breakpoint) map_internal option" where
  "breakpoint_map_new alloc = map_new alloc 4 8 (Some breakpoint_cmp)"

definition breakpoint_map_insert :: "(u64 \<Rightarrow> bool) \<Rightarrow> (u32, breakpoint) map_internal option \<Rightarrow> u32 \<Rightarrow>
    ((u32, breakpoint) map_internal option \<times> bool) option" where
  "breakpoint_map_insert alloc m addr =
    (let it = map_find m addr in
     if \<not> map_at_end it then Some (m, False)
     else map_insert alloc m addr \<lparr>bp_addr = addr, orig_insn = 0\<rparr>)"

definition breakpoint_map_find_it :: "(u32, breakpoint) map_internal option \<Rightarrow> u32 \<Rightarrow> u32 option \<times> bool" where
  "breakpoint_map_find_it m addr = (let it = map_find m addr in (it, \<not> map_at_end it))"

text \<open>
  \<^verbatim>\<open>map_iter_value(&it, breakpoint_t *)\<close> reads the stored \<^verbatim>\<open>breakpoint_t\<close> as if it were a pointer: on
  a 64-bit host its two words, \<^verbatim>\<open>addr\<close> in the lower half.
\<close>

definition breakpoint_map_find :: "(u32, breakpoint) map_internal option \<Rightarrow> u32 \<Rightarrow> u64 option" where
  "breakpoint_map_find m addr =
    (case breakpoint_map_find_it m addr of
       (it, found) \<Rightarrow>
         (if \<not> found then Some 0
          else do { bp \<leftarrow> map_iter_value m it; Some (ucast (bp_addr bp) OR shl (ucast (orig_insn bp)) 32) }))"

definition breakpoint_map_del :: "(u32, breakpoint) map_internal option \<Rightarrow> u32 \<Rightarrow>
    ((u32, breakpoint) map_internal option \<times> bool) option" where
  "breakpoint_map_del m addr =
    (case breakpoint_map_find_it m addr of
       (it, found) \<Rightarrow> (if \<not> found then Some (m, False) else do { (m, it) \<leftarrow> map_erase m it; Some (m, True) }))"

end
