(* ===== verification/Rb_Correct.thy ===== *)
theory Rb_Correct
  imports Rb_Map
begin

unbundle bit_operations_syntax

text \<open>
  The red-black tree keeps its invariant and implements a finite map: insertion and removal never
  meet a NULL pointer or a failed assertion, they keep the tree balanced and sorted, and
  the array of the search path is large enough.
\<close>

section \<open>The invariant\<close>

fun bheight :: "('k, 'v) map_node \<Rightarrow> nat" where
  "bheight Null = 0"
| "bheight (Node c l k v r) = bheight l + (if c = RB_BLACK then 1 else 0)"

text \<open>Left-leaning: no right child is red, no red node has a red child.\<close>

fun llrb :: "('k, 'v) map_node \<Rightarrow> bool" where
  "llrb Null = True"
| "llrb (Node c l k v r) \<longleftrightarrow> llrb l \<and> llrb r \<and> bheight l = bheight r \<and> \<not> is_red r \<and> (c = RB_RED \<longrightarrow> \<not> is_red l)"

fun inorder :: "('k, 'v) map_node \<Rightarrow> ('k \<times> 'v) list" where
  "inorder Null = []"
| "inorder (Node c l k v r) = inorder l @ (k, v) # inorder r"

lemma node_simps [simp]:
  "rb_node_set_red (Node c l k v r) = Some (Node RB_RED l k v r)"
  "rb_node_set_black (Node c l k v r) = Some (Node RB_BLACK l k v r)"
  "rb_node_set_red Null = None" "rb_node_set_black Null = None"
  "RB_IS_RED (Node c l k v r) = Some (c = RB_RED)" "RB_IS_BLACK (Node c l k v r) = Some (c = RB_BLACK)"
  "RB_IS_RED Null = None" "RB_IS_BLACK Null = None"
  "is_red (Node c l k v r) = (c = RB_RED)" "\<not> is_red Null"
  "rb_node_rotate_left (Node c l k v (Node c' l' k' v' r')) = Some (Node c' (Node c l k v l') k' v' r')"
  "rb_node_rotate_right (Node c (Node c' l' k' v' r') k v r) = Some (Node c' l' k' v' (Node c r' k v r))"
  "rb_node_rotate_left (Node c l k v Null) = None" "rb_node_rotate_right (Node c Null k v r) = None"
  "rb_node_rotate_left Null = None" "rb_node_rotate_right Null = None"
  by (simp_all add: rb_node_set_red_def rb_node_set_black_def RB_IS_RED_def RB_IS_BLACK_def is_red_def
      rb_node_rotate_left_def rb_node_rotate_right_def)

lemma map_color_neq [simp]: "(c \<noteq> RB_BLACK) = (c = RB_RED)" "(c \<noteq> RB_RED) = (c = RB_BLACK)"
  by (cases c; simp)+

lemma bheight_0: "llrb t \<Longrightarrow> \<not> is_red t \<Longrightarrow> bheight t = 0 \<Longrightarrow> t = Null"
  by (cases t) auto

lemma bheight_pos: "llrb t \<Longrightarrow> 0 < bheight t \<Longrightarrow> \<exists>c l k v r. t = Node c l k v r"
  by (cases t) auto

section \<open>Contexts\<close>

fun pre :: "('k, 'v) path \<Rightarrow> ('k \<times> 'v) list" where
  "pre [] = []"
| "pre ((n, c) # p) = pre p @ (if c = MAP_CMP_LESS then [] else inorder (lft n) @ [(nkey n, ndata n)])"

fun post :: "('k, 'v) path \<Rightarrow> ('k \<times> 'v) list" where
  "post [] = []"
| "post ((n, c) # p) = (if c = MAP_CMP_LESS then (nkey n, ndata n) # inorder (rgt n) else []) @ post p"

lemma plug_Cons [simp]: "plug t ((Node c l k v r, d) # p) = plug (if d = MAP_CMP_LESS then Node c t k v r else Node c l k v t) p"
  by simp

lemma plug_Null [simp]: "plug t ((Null, d) # p) = None"
  by simp

lemma plug_inorder: "plug t p = Some t' \<Longrightarrow> inorder t' = pre p @ inorder t @ post p"
proof (induction t p rule: plug.induct)
  case (2 t n c path)
  then show ?case by (cases n) (auto split: if_splits)
qed simp

lemma plug_append: "plug t (p @ q) = Option.bind (plug t p) (\<lambda>t. plug t q)"
proof (induction t p rule: plug.induct)
  case (2 t n c path)
  then show ?case by (cases n) auto
qed simp

text \<open>An entry of a path that can be plugged, with the subtree put into it.\<close>

definition put_in :: "('k, 'v) map_node \<Rightarrow> map_cmp \<Rightarrow> ('k, 'v) map_node \<Rightarrow> ('k, 'v) map_node" where
  "put_in m c t = (if c = MAP_CMP_LESS then Node (clr m) t (nkey m) (ndata m) (rgt m)
     else Node (clr m) (lft m) (nkey m) (ndata m) t)"

lemma plug_ConsE:
  assumes "plug t ((m, c) # p) = Some T"
  obtains d l k v r where "m = Node d l k v r" "plug (put_in m c t) p = Some T"
  using assms by (cases m) (auto simp: put_in_def split: if_splits)

lemma put_in_Node [simp]: "put_in (Node d l k v r) c t = (if c = MAP_CMP_LESS then Node d t k v r else Node d l k v t)"
  by (simp add: put_in_def)

lemma pre_append: "pre (p @ q) = pre q @ pre p"
  by (induction p rule: pre.induct) auto

lemma post_append: "post (p @ q) = post p @ post q"
  by (induction p rule: post.induct) auto

lemma llrb_plug: "plug t p = Some T \<Longrightarrow> llrb T \<Longrightarrow> llrb t"
proof (induction t p rule: plug.induct)
  case (2 t n c path)
  then show ?case by (cases n) (auto split: if_splits)
qed simp

text \<open>What can stand for \<open>o\<close> anywhere.\<close>

definition fits :: "('k, 'v) map_node \<Rightarrow> ('k, 'v) map_node \<Rightarrow> bool" where
  "fits t n \<longleftrightarrow> llrb n \<and> bheight n = bheight t \<and> (is_red n \<longrightarrow> is_red t)"

lemma plug_fits:
  "plug t p = Some T \<Longrightarrow> llrb T \<Longrightarrow> fits t n \<Longrightarrow> \<exists>T'. plug n p = Some T' \<and> fits T T'"
proof (induction p arbitrary: t n)
  case (Cons e p)
  obtain m c where e: "e = (m, c)" by (cases e)
  obtain d l k v r where m: "m = Node d l k v r" and up: "plug (put_in m c t) p = Some T"
    using Cons.prems(1) unfolding e by (rule plug_ConsE)
  from llrb_plug [OF up Cons.prems(2)] Cons.prems(3) have "fits (put_in m c t) (put_in m c n)"
    unfolding m by (auto simp: fits_def split: if_splits)
  from Cons.IH [OF up Cons.prems(2) this] m e show ?case by (cases "c = MAP_CMP_LESS") simp_all
qed simp

section \<open>Insertion\<close>

lemma insert_fix_inorder:
  "insert_fix n p = Some t \<Longrightarrow> inorder t = pre p @ inorder n @ post p"
proof (induction p arbitrary: n)
  case (Cons e p)
  obtain m c where e: "e = (m, c)" by (cases e)
  obtain d l k v r where m: "m = Node d l k v r" using Cons.prems by (cases m) (auto simp: e split: if_splits)
  obtain d' l' k' v' r' where n: "n = Node d' l' k' v' r'" using Cons.prems by (cases n) (auto simp: e m split: if_splits)
  show ?case
    using Cons.prems unfolding e m n
    by (cases l'; cases l) (auto dest: plug_inorder Cons.IH split: if_splits)
qed simp

text \<open>
  The subtree that replaces \<open>t\<close> on the way up: of the same black height, and broken at most at
  its root, which may be red above a red left child if \<open>t\<close> was red.
\<close>

definition grown :: "('k, 'v) map_node \<Rightarrow> ('k, 'v) map_node \<Rightarrow> bool" where
  "grown t n \<longleftrightarrow> n \<noteq> Null \<and> llrb (lft n) \<and> llrb (rgt n) \<and> bheight (lft n) = bheight (rgt n) \<and> \<not> is_red (rgt n) \<and>
     bheight n = bheight t \<and> (is_red t \<or> llrb n)"

lemma insert_fix_step:
  assumes "llrb (put_in m c t)" "grown t n" "m \<noteq> Null"
  shows "insert_fix n ((m, c) # p) = plug (put_in m c n) p \<and> fits (put_in m c t) (put_in m c n) \<or>
    (\<exists>n'. insert_fix n ((m, c) # p) = insert_fix n' p \<and> grown (put_in m c t) n')"
proof -
  obtain d l k v r where m: "m = Node d l k v r" using assms(3) by (cases m) auto
  obtain d' l' k' v' r' where n: "n = Node d' l' k' v' r'" using assms(2) by (cases n) (auto simp: grown_def)
  show ?thesis
    using assms(1,2) unfolding m n
    by (cases l'; cases l; cases d; cases d') (auto simp: grown_def fits_def split: if_splits)
qed

lemma fits_grown: "fits t n \<Longrightarrow> n \<noteq> Null \<Longrightarrow> grown t n"
  by (cases n) (auto simp: fits_def grown_def)

lemma insert_fix_grown:
  "plug t p = Some T \<Longrightarrow> llrb T \<Longrightarrow> grown t n \<Longrightarrow> \<exists>T'. insert_fix n p = Some T' \<and> grown T T'"
proof (induction p arbitrary: t n)
  case (Cons e p)
  obtain m c where e: "e = (m, c)" by (cases e)
  obtain d l k v r where m: "m = Node d l k v r" and up: "plug (put_in m c t) p = Some T"
    using Cons.prems(1) unfolding e by (rule plug_ConsE)
  note ll = llrb_plug [OF up Cons.prems(2)]
  from insert_fix_step [OF ll Cons.prems(3), of p] m consider
      "insert_fix n (e # p) = plug (put_in m c n) p" "fits (put_in m c t) (put_in m c n)"
    | n' where "insert_fix n (e # p) = insert_fix n' p" "grown (put_in m c t) n'" unfolding e by blast
  then show ?case
  proof cases
    case 1
    obtain T' where T': "plug (put_in m c n) p = Some T'" "fits T T'"
      using plug_fits [OF up Cons.prems(2) 1(2)] by blast
    from plug_inorder [OF this(1)] have "inorder T' \<noteq> []" by (simp add: m)
    then have "T' \<noteq> Null" by auto
    with T' 1 show ?thesis using fits_grown by auto
  next
    case 2
    with Cons.IH [OF up Cons.prems(2)] show ?thesis by auto
  qed
qed auto

section \<open>Removal\<close>

lemma remove_fix_inorder:
  "remove_fix n p = Some t \<Longrightarrow> inorder t = pre p @ inorder n @ post p"
proof (induction p arbitrary: n)
  case Nil
  then show ?case by (auto split: bind_splits if_splits)
next
  case (Cons e p)
  obtain m c where e: "e = (m, c)" by (cases e)
  obtain d l k v r where m: "m = Node d l k v r" using Cons.prems by (cases m) (auto simp: e split: if_splits)
  show ?case
  proof (cases "c = MAP_CMP_LESS")
    case True
    obtain d' l' k' v' r' where r: "r = Node d' l' k' v' r'" using Cons.prems True by (cases r) (auto simp: e m split: if_splits)
    show ?thesis
      using Cons.prems unfolding e m r
      by (cases l') (auto simp: True dest: plug_inorder Cons.IH split: if_splits)
  next
    case False
    obtain d' l' k' v' r' where l: "l = Node d' l' k' v' r'" using Cons.prems False by (cases l) (auto simp: e m split: if_splits)
    show ?thesis
    proof (cases d')
      case RB_RED
      then obtain d2 l2 k2 v2 r2 where r': "r' = Node d2 l2 k2 v2 r2" using Cons.prems False
        by (cases r') (auto simp: e m l split: if_splits)
      show ?thesis
        using Cons.prems unfolding e m l r'
        by (cases l2) (auto simp: False RB_RED dest: plug_inorder split: if_splits)
    next
      case RB_BLACK
      show ?thesis
        using Cons.prems unfolding e m l
        by (cases l') (auto simp: False RB_BLACK dest: plug_inorder Cons.IH split: if_splits)
    qed
  qed
qed

text \<open>The subtree that replaces the black \<open>t\<close> on the way up: one black node short.\<close>

definition shrunk :: "('k, 'v) map_node \<Rightarrow> ('k, 'v) map_node \<Rightarrow> bool" where
  "shrunk t n \<longleftrightarrow> llrb n \<and> bheight t = bheight n + 1 \<and> \<not> is_red n \<and> \<not> is_red t"

lemma remove_fix_step:
  assumes "llrb (put_in m c t)" "shrunk t n" "m \<noteq> Null" "c \<noteq> MAP_CMP_EQUAL" "p = [] \<longrightarrow> \<not> is_red (put_in m c t)"
  shows "(\<exists>n'. remove_fix n ((m, c) # p) = plug n' p \<and> fits (put_in m c t) n') \<or>
    (\<exists>n'. remove_fix n ((m, c) # p) = remove_fix n' p \<and> shrunk (put_in m c t) n' \<and> n' \<noteq> Null)"
proof -
  obtain d l k v r where m: "m = Node d l k v r" using assms(3) by (cases m) auto
  show ?thesis
  proof (cases "c = MAP_CMP_LESS")
    case True
    have "bheight r = bheight n + 1" "llrb r" "\<not> is_red r" using assms(1,2) True by (auto simp: m shrunk_def)
    then obtain d' l' k' v' r' where r: "r = Node d' l' k' v' r'" using bheight_pos [of r] by auto
    show ?thesis
      using assms(1,2,5) unfolding m r
      by (cases l'; cases d) (auto simp: True shrunk_def fits_def split: if_splits)
  next
    case False
    have "bheight l = bheight n + 1" "llrb l" using assms(1,2) False by (auto simp: m shrunk_def)
    then obtain d' l' k' v' r' where l: "l = Node d' l' k' v' r'" using bheight_pos [of l] by auto
    show ?thesis
    proof (cases d')
      case RB_RED
      then have "bheight r' = bheight n + 1" "llrb r'" using assms(1,2) False by (auto simp: m l shrunk_def)
      then obtain d2 l2 k2 v2 r2 where r': "r' = Node d2 l2 k2 v2 r2" using bheight_pos [of r'] by auto
      show ?thesis
        using assms(1,2,4,5) unfolding m l r'
        by (cases l2; cases d; cases d2) (auto simp: False RB_RED shrunk_def fits_def split: if_splits)
    next
      case RB_BLACK
      show ?thesis
        using assms(1,2,4,5) unfolding m l
        by (cases l'; cases d) (auto simp: False RB_BLACK shrunk_def fits_def split: if_splits)
    qed
  qed
qed

lemma remove_fix_ok:
  "plug t p = Some T \<Longrightarrow> llrb T \<Longrightarrow> \<not> is_red T \<Longrightarrow> shrunk t n \<Longrightarrow> \<forall>(m, c) \<in> set p. c \<noteq> MAP_CMP_EQUAL \<Longrightarrow>
   n \<noteq> Null \<or> p \<noteq> [] \<Longrightarrow> \<exists>T'. remove_fix n p = Some T' \<and> llrb T' \<and> \<not> is_red T'"
proof (induction p arbitrary: t n)
  case Nil
  then show ?case by (cases n) (auto simp: shrunk_def)
next
  case (Cons e p)
  obtain m c where e: "e = (m, c)" by (cases e)
  obtain d l k v r where m: "m = Node d l k v r" and up: "plug (put_in m c t) p = Some T"
    using Cons.prems(1) unfolding e by (rule plug_ConsE)
  note ll = llrb_plug [OF up Cons.prems(2)]
  have "p = [] \<longrightarrow> \<not> is_red (put_in m c t)" using up Cons.prems(3) by auto
  from remove_fix_step [OF ll Cons.prems(4) _ _ this] m Cons.prems(5) e consider
      n' where "remove_fix n (e # p) = plug n' p" "fits (put_in m c t) n'"
    | n' where "remove_fix n (e # p) = remove_fix n' p" "shrunk (put_in m c t) n'" "n' \<noteq> Null" by auto
  then show ?case
  proof cases
    case 1
    from plug_fits [OF up Cons.prems(2) 1(2)] 1(1) Cons.prems(3) show ?thesis by (auto simp: fits_def)
  next
    case 2
    from Cons.IH [OF up Cons.prems(2,3) 2(2)] 2(1,3) Cons.prems(5) show ?thesis by auto
  qed
qed

lemma prune_ok:
  assumes "plug (Node color Null k v Null) p = Some T" "llrb T" "\<not> is_red T" "\<forall>(m, c) \<in> set p. c \<noteq> MAP_CMP_EQUAL" "p \<noteq> []"
  shows "\<exists>T'. prune color p = Some T' \<and> llrb T' \<and> \<not> is_red T'"
proof (cases color)
  case RB_BLACK
  have "shrunk (Node RB_BLACK Null k v Null) Null" by (simp add: shrunk_def)
  from remove_fix_ok [OF assms(1-3) [unfolded RB_BLACK] this assms(4)] assms(5) show ?thesis
    by (simp add: prune_def RB_BLACK)
next
  case RB_RED
  obtain m c q where p: "p = (m, c) # q" using assms(5) by (cases p) auto
  obtain d l k' v' r where m: "m = Node d l k' v' r" and up: "plug (put_in m c (Node color Null k v Null)) q = Some T"
    using assms(1) unfolding p by (rule plug_ConsE)
  note ll = llrb_plug [OF up assms(2)]
  have c: "c = MAP_CMP_LESS" using ll RB_RED assms(4) by (cases c) (auto simp: m p)
  have "fits (put_in m c (Node color Null k v Null)) (put_in m c Null)"
    using ll by (auto simp: m c fits_def RB_RED)
  from plug_fits [OF up assms(2) this] assms(3) show ?thesis
    by (auto simp: prune_def RB_RED p c m fits_def)
qed

lemma prune_inorder: "prune color p = Some t \<Longrightarrow> inorder t = pre p @ post p"
proof (cases "color = RB_RED")
  case True
  assume a: "prune color p = Some t"
  obtain n rest where p: "p = (n, MAP_CMP_LESS) # rest"
    using a True by (auto simp: prune_def split: list.splits prod.splits map_cmp.splits)
  show ?thesis using a True by (cases n) (auto simp: prune_def p dest: plug_inorder)
next
  case False
  then show "prune color p = Some t \<Longrightarrow> ?thesis" by (auto simp: prune_def dest: remove_fix_inorder)
qed

text \<open>The way to the successor.\<close>

lemma leftmost_path_append: "leftmost_path t p = leftmost_path t [] @ p"
proof (induction t arbitrary: p)
  case (Node c l k v r)
  then show ?case by (metis append.assoc append_Cons append_Nil leftmost_path.simps(2))
qed simp

lemma leftmost_path_shape:
  "t \<noteq> Null \<Longrightarrow> \<exists>c k v r mid. leftmost_path t [] = (Node c Null k v r, MAP_CMP_LESS) # mid \<and>
     plug (Node c Null k v r) mid = Some t \<and> (\<forall>(m, d) \<in> set mid. d = MAP_CMP_LESS)"
proof (induction t)
  case (Node c l k v r)
  show ?case
  proof (cases "l = Null")
    case False
    with Node.IH(1) obtain c' k' v' r' mid where IH: "leftmost_path l [] = (Node c' Null k' v' r', MAP_CMP_LESS) # mid"
      "plug (Node c' Null k' v' r') mid = Some l" "\<forall>(m, d) \<in> set mid. d = MAP_CMP_LESS" by blast
    have "leftmost_path (Node c l k v r) [] =
        (Node c' Null k' v' r', MAP_CMP_LESS) # mid @ [(Node c l k v r, MAP_CMP_LESS)]"
      using IH(1) leftmost_path_append [of l "[(Node c l k v r, MAP_CMP_LESS)]"] by simp
    moreover have "plug (Node c' Null k' v' r') (mid @ [(Node c l k v r, MAP_CMP_LESS)]) = Some (Node c l k v r)"
      using IH(2) by (simp add: plug_append)
    ultimately show ?thesis using IH(3) by (intro exI [of _ c'] exI [of _ k'] exI [of _ v'] exI [of _ r'] exI) auto
  qed simp
qed simp

lemma pre_less: "\<forall>(m, d) \<in> set p. d = MAP_CMP_LESS \<Longrightarrow> pre p = []"
  by (induction p rule: pre.induct) auto

lemma remove_search_plug:
  "remove_search cmp key t p = Some (node, anc) \<Longrightarrow> plug t p = plug node anc"
proof (induction t arbitrary: p)
  case (Node c l k v r)
  show ?case
    using Node.prems Node.IH(1) [of "(Node c l k v r, MAP_CMP_LESS) # p"]
      Node.IH(2) [of "(Node c l k v r, MAP_CMP_GREATER) # p"] by (auto split: map_cmp.splits)
qed simp

lemma remove_search_shape:
  "remove_search cmp key t p = Some (node, anc) \<Longrightarrow> \<forall>(m, d) \<in> set p. d \<noteq> MAP_CMP_EQUAL \<Longrightarrow>
   node \<noteq> Null \<and> cmp key (nkey node) = MAP_CMP_EQUAL \<and> (\<forall>(m, d) \<in> set anc. d \<noteq> MAP_CMP_EQUAL)"
proof (induction t arbitrary: p)
  case (Node c l k v r)
  show ?case
  proof (cases "cmp key k")
    case MAP_CMP_LESS
    with Node.IH(1) [of "(Node c l k v r, MAP_CMP_LESS) # p"] Node.prems show ?thesis by simp
  next
    case MAP_CMP_GREATER
    with Node.IH(2) [of "(Node c l k v r, MAP_CMP_GREATER) # p"] Node.prems show ?thesis by simp
  next
    case MAP_CMP_EQUAL
    with Node.prems show ?thesis by auto
  qed
qed simp

section \<open>Height\<close>

fun height :: "('k, 'v) map_node \<Rightarrow> nat" where
  "height Null = 0"
| "height (Node c l k v r) = Suc (max (height l) (height r))"

lemma height_bheight: "llrb t \<Longrightarrow> height t \<le> 2 * bheight t + (if is_red t then 1 else 0)"
  by (induction t) (auto split: if_splits)

lemma bheight_size: "llrb t \<Longrightarrow> 2 ^ bheight t \<le> length (inorder t) + 1"
  by (induction t) (auto split: if_splits)

text \<open>A tree of at most \<open>2\<^sup>6\<^sup>3 - 1\<close> nodes is at most 126 nodes deep.\<close>

lemma height_bound:
  assumes "llrb t" "\<not> is_red t" "length (inorder t) < 2 ^ 63"
  shows "height t \<le> 126"
proof -
  have "(2 :: nat) ^ bheight t \<le> 2 ^ 63" using bheight_size [OF assms(1)] assms(3) by simp
  then have "bheight t \<le> 63" by (rule power_le_imp_le_exp [rotated]) simp
  with height_bheight [OF assms(1)] assms(2) show ?thesis by simp
qed

lemma leftmost_path_length: "length (leftmost_path t p) \<le> length p + height t"
proof (induction t arbitrary: p)
  case (Node c l k v r)
  from Node.IH(1) [of "(Node c l k v r, MAP_CMP_LESS) # p"] show ?case by simp
qed simp

lemma remove_search_length:
  "remove_search cmp key t p = Some (node, anc) \<Longrightarrow> length anc + height node \<le> length p + height t"
proof (induction t arbitrary: p)
  case (Node c l k v r)
  show ?case
    using Node.prems Node.IH(1) [of "(Node c l k v r, MAP_CMP_LESS) # p"]
      Node.IH(2) [of "(Node c l k v r, MAP_CMP_GREATER) # p"]
    by (auto split: map_cmp.splits)
qed simp

text \<open>Removal succeeds, keeps the invariant and removes exactly one entry.\<close>

lemma rb_remove_ok:
  assumes ll: "llrb t" "\<not> is_red t" "height t \<le> 126" and rs: "remove_search cmp key t [] = Some (node, anc)"
  shows "\<exists>t' xs ys. rb_remove cmp t key = Some t' \<and> llrb t' \<and> \<not> is_red t' \<and>
    inorder t = xs @ (nkey node, ndata node) # ys \<and> inorder t' = xs @ ys \<and> cmp key (nkey node) = MAP_CMP_EQUAL"
proof -
  have pl: "plug node anc = Some t" using remove_search_plug [OF rs] by simp
  have sh: "node \<noteq> Null" "cmp key (nkey node) = MAP_CMP_EQUAL" "\<forall>(m, d) \<in> set anc. d \<noteq> MAP_CMP_EQUAL"
    using remove_search_shape [OF rs] by auto
  obtain c l k v r where node: "node = Node c l k v r" using sh(1) by (cases node) auto
  have lln: "llrb node" using llrb_plug [OF pl ll(1)] .
  have io: "inorder t = pre anc @ (inorder l @ (k, v) # inorder r) @ post anc" using plug_inorder [OF pl] node by simp
  have len: "\<not> length anc + length (leftmost_path r []) + 2 > 128"
    using remove_search_length [OF rs] leftmost_path_length [of r "[]"] ll(3) by (simp add: node)
  show ?thesis
  proof (cases "r = Null")
    case False
    obtain cs ks vs rs' mid where s: "leftmost_path r [] = (Node cs Null ks vs rs', MAP_CMP_LESS) # mid"
      "plug (Node cs Null ks vs rs') mid = Some r" "\<forall>(m, d) \<in> set mid. d = MAP_CMP_LESS"
      using leftmost_path_shape [OF False] by blast
    have "llrb (Node cs Null ks vs rs')" using llrb_plug [OF s(2)] lln node by simp
    then have rs': "rs' = Null" using bheight_0 [of rs'] by auto
    let ?succ = "Node c l ks vs r"
    let ?p = "mid @ (?succ, MAP_CMP_GREATER) # anc"
    have "fits node ?succ" using lln by (simp add: node fits_def)
    from plug_fits [OF pl ll(1) this] obtain T where T: "plug ?succ anc = Some T" "llrb T" "\<not> is_red T"
      using ll(2) by (auto simp: fits_def)
    have "plug (Node cs Null ks vs Null) ?p = Some T" using s(2) T(1) rs' by (simp add: plug_append)
    then obtain t' where t': "prune cs ?p = Some t'" "llrb t'" "\<not> is_red t'"
      using prune_ok [of cs ks vs ?p T] T sh(3) s(3) by fastforce
    have "rb_remove cmp t key = prune cs ?p" using len by (simp add: rb_remove_def rs node s(1))
    moreover have "inorder r = (ks, vs) # post mid"
      using plug_inorder [OF s(2)] pre_less [OF s(3)] rs' by simp
    moreover have "inorder t' = pre anc @ inorder l @ (ks, vs) # post mid @ post anc"
      using prune_inorder [OF t'(1)] pre_less [OF s(3)] by (simp add: pre_append post_append)
    ultimately show ?thesis using t' io sh(2) node
      by (intro exI [of _ t'] exI [of _ "pre anc @ inorder l"] exI [of _ "inorder r @ post anc"]) simp
  next
    case r: True
    show ?thesis
    proof (cases "l = Null")
      case False
      have "bheight l = 0" "llrb l" using lln by (simp_all add: node r)
      then obtain k' v' l' r' where l: "l = Node RB_RED l' k' v' r'" using False by (cases l) (auto split: if_splits)
      then have c: "c = RB_BLACK" using lln by (cases c) (simp_all add: node r)
      have "fits node (Node RB_BLACK l' k' v' r')" using lln by (simp add: node r l c fits_def)
      from plug_fits [OF pl ll(1) this] obtain t' where t': "plug (Node RB_BLACK l' k' v' r') anc = Some t'" "llrb t'" "\<not> is_red t'"
        using ll(2) by (auto simp: fits_def)
      have "rb_remove cmp t key = Some t'" using len t'(1) by (simp add: rb_remove_def rs node r l c)
      moreover have "inorder t' = pre anc @ inorder l @ post anc" using plug_inorder [OF t'(1)] l by simp
      ultimately show ?thesis using t' io sh(2) node r
        by (intro exI [of _ t'] exI [of _ "pre anc @ inorder l"] exI [of _ "post anc"]) simp
    next
      case l: True
      show ?thesis
      proof (cases "anc = []")
        case True
        then have "rb_remove cmp t key = Some Null" using len by (simp add: rb_remove_def rs node r l)
        with io sh(2) node r l True show ?thesis by simp
      next
        case False
        obtain t' where t': "prune c anc = Some t'" "llrb t'" "\<not> is_red t'"
          using prune_ok [of c k v anc t] pl ll sh(3) False by (auto simp: node r l)
        have "rb_remove cmp t key = Some t'" using len t'(1) False by (simp add: rb_remove_def rs node r l)
        with t' prune_inorder [OF t'(1)] io sh(2) node r l show ?thesis
          by (intro exI [of _ t'] exI [of _ "pre anc"] exI [of _ "post anc"]) simp
      qed
    qed
  qed
qed

section \<open>Search\<close>

text \<open>What the tree needs of the comparison of keys: a total order.\<close>

locale key_order =
  fixes cmp :: "'k \<Rightarrow> 'k \<Rightarrow> map_cmp"
  assumes equal_iff: "cmp a b = MAP_CMP_EQUAL \<longleftrightarrow> a = b"
    and flip: "cmp a b = MAP_CMP_GREATER \<longleftrightarrow> cmp b a = MAP_CMP_LESS"
    and trans: "cmp a b = MAP_CMP_LESS \<Longrightarrow> cmp b c = MAP_CMP_LESS \<Longrightarrow> cmp a c = MAP_CMP_LESS"

definition keys :: "('k \<times> 'v) list \<Rightarrow> 'k set" where
  "keys xs = fst ` set xs"

definition ascending :: "('k \<Rightarrow> 'k \<Rightarrow> map_cmp) \<Rightarrow> ('k \<times> 'v) list \<Rightarrow> bool" where
  "ascending cmp xs \<longleftrightarrow> sorted_wrt (\<lambda>a b. cmp (fst a) (fst b) = MAP_CMP_LESS) xs"

lemma keys_simps [simp]: "keys [] = {}" "keys (x # xs) = insert (fst x) (keys xs)" "keys (xs @ ys) = keys xs \<union> keys ys"
  by (auto simp: keys_def)

context key_order
begin

lemma same [simp]: "cmp a a = MAP_CMP_EQUAL"
  by (simp add: equal_iff)

lemma ascending_simps [simp]:
  "ascending cmp []" "ascending cmp (x # xs) \<longleftrightarrow> (\<forall>k \<in> keys xs. cmp (fst x) k = MAP_CMP_LESS) \<and> ascending cmp xs"
  "ascending cmp (xs @ ys) \<longleftrightarrow> ascending cmp xs \<and> ascending cmp ys \<and> (\<forall>a \<in> keys xs. \<forall>b \<in> keys ys. cmp a b = MAP_CMP_LESS)"
  by (auto simp: ascending_def keys_def sorted_wrt_append)

text \<open>\<open>key\<close> lies between what is left and what is right of the path.\<close>

definition between :: "'k \<Rightarrow> ('k, 'v) path \<Rightarrow> bool" where
  "between key p \<longleftrightarrow> (\<forall>k \<in> keys (pre p). cmp k key = MAP_CMP_LESS) \<and> (\<forall>k \<in> keys (post p). cmp key k = MAP_CMP_LESS)"

lemma between_Nil [simp]: "between key []"
  by (simp add: between_def)

lemma between_less:
  "between key p \<Longrightarrow> ascending cmp (inorder (Node c l k v r)) \<Longrightarrow> cmp key k = MAP_CMP_LESS \<Longrightarrow>
   between key ((Node c l k v r, MAP_CMP_LESS) # p)"
  by (auto simp: between_def intro: trans)

lemma between_greater:
  "between key p \<Longrightarrow> ascending cmp (inorder (Node c l k v r)) \<Longrightarrow> cmp key k = MAP_CMP_GREATER \<Longrightarrow>
   between key ((Node c l k v r, MAP_CMP_GREATER) # p)"
  by (auto simp: between_def flip intro: trans)

lemma not_between: "between key p \<Longrightarrow> key \<notin> keys (pre p) \<and> key \<notin> keys (post p)"
  by (auto simp: between_def)

lemma insert_search_At:
  "insert_search cmp key depth t p = At q \<Longrightarrow> between key p \<Longrightarrow> ascending cmp (inorder t) \<Longrightarrow>
   between key q \<and> plug Null q = plug t p"
proof (induction t arbitrary: p depth)
  case (Node c l k v r)
  show ?case
  proof (cases "cmp key k")
    case MAP_CMP_LESS
    with Node.prems Node.IH(1) [of "depth + 1" "(Node c l k v r, MAP_CMP_LESS) # p"] between_less [OF Node.prems(2,3)]
    show ?thesis by (simp split: if_splits)
  next
    case MAP_CMP_GREATER
    with Node.prems Node.IH(2) [of "depth + 1" "(Node c l k v r, MAP_CMP_GREATER) # p"] between_greater [OF Node.prems(2,3)]
    show ?thesis by (simp split: if_splits)
  qed (use Node.prems in \<open>simp split: if_splits\<close>)
qed (auto split: if_splits)

lemma insert_search_cases:
  "ascending cmp (inorder t) \<Longrightarrow> depth + height t \<le> 126 \<Longrightarrow>
   (if key \<in> keys (inorder t) then \<exists>n. insert_search cmp key depth t p = Exists n
    else \<exists>q. insert_search cmp key depth t p = At q)"
proof (induction t arbitrary: p depth)
  case (Node c l k v r)
  have l: "key \<notin> keys (inorder r)" if "cmp key k = MAP_CMP_LESS"
    using that Node.prems(1) by (auto dest: trans)
  have r: "key \<notin> keys (inorder l)" if "cmp key k = MAP_CMP_GREATER"
    using that Node.prems(1) by (auto simp: flip dest: trans)
  show ?case
  proof (cases "cmp key k")
    case MAP_CMP_LESS
    with Node.prems Node.IH(1) [of "depth + 1" "(Node c l k v r, MAP_CMP_LESS) # p"] l
    show ?thesis by auto
  next
    case MAP_CMP_GREATER
    with Node.prems Node.IH(2) [of "depth + 1" "(Node c l k v r, MAP_CMP_GREATER) # p"] r
    show ?thesis by auto
  next
    case MAP_CMP_EQUAL
    with Node.prems show ?thesis by (simp add: equal_iff)
  qed
qed simp

lemma remove_search_cases:
  "ascending cmp (inorder t) \<Longrightarrow>
   (if key \<in> keys (inorder t) then \<exists>n anc. remove_search cmp key t p = Some (n, anc) else remove_search cmp key t p = None)"
proof (induction t arbitrary: p)
  case (Node c l k v r)
  have l: "key \<notin> keys (inorder r)" if "cmp key k = MAP_CMP_LESS"
    using that Node.prems(1) by (auto dest: trans)
  have r: "key \<notin> keys (inorder l)" if "cmp key k = MAP_CMP_GREATER"
    using that Node.prems(1) by (auto simp: flip dest: trans)
  show ?case
    using Node l r by (cases "cmp key k") (auto simp: equal_iff)
qed simp

end

lemma map_find_loop_search:
  "map_find_loop cmp key t = (case remove_search cmp key t p of None \<Rightarrow> Null | Some (n, anc) \<Rightarrow> n)"
  by (induction t arbitrary: p) (auto split: map_cmp.split)

end
