(* ===== verification/Rb_Props.thy ===== *)
theory Rb_Props
  imports Rb_Correct
begin

unbundle bit_operations_syntax

text \<open>
  What the ordered map promises its users: a finite map from keys to values under insertion,
  removal and search, iteration in the order of the keys, and the breakpoint table on top.
\<close>

section \<open>The map behind the tree\<close>

definition map_ok :: "('k, 'v) map_internal \<Rightarrow> bool" where
  "map_ok m \<longleftrightarrow> llrb (root m) \<and> \<not> is_red (root m) \<and> ascending (comparator m) (inorder (root m)) \<and>
     length (inorder (root m)) = unat (msize m)"

text \<open>Far more nodes than a 64-bit host can hold.\<close>

definition map_room :: "('k, 'v) map_internal \<Rightarrow> bool" where
  "map_room m \<longleftrightarrow> unat (msize m) < 2 ^ 63"

definition entries :: "('k, 'v) map_internal \<Rightarrow> 'k \<Rightarrow> 'v option" where
  "entries m = map_of (inorder (root m))"

lemma map_of_insert: "key \<notin> keys xs \<Longrightarrow> map_of (xs @ (key, v) # ys) = (map_of (xs @ ys))(key \<mapsto> v)"
  by (induction xs) auto

lemma map_of_remove: "key \<notin> keys xs \<Longrightarrow> key \<notin> keys ys \<Longrightarrow> map_of (xs @ ys) = (map_of (xs @ (key, v) # ys))(key := None)"
  by (induction xs) (auto simp: map_of_eq_None_iff keys_def)

lemma keys_map_of: "map_of xs key = None \<longleftrightarrow> key \<notin> keys xs"
  by (simp add: keys_def map_of_eq_None_iff)

lemma map_ok_height: "map_ok m \<Longrightarrow> map_room m \<Longrightarrow> height (root m) \<le> 126"
  by (rule height_bound) (auto simp: map_ok_def map_room_def)

context key_order
begin

lemma insert_ok:
  assumes "map_ok m" "map_room m" "comparator m = cmp"
    and "new = (entries m key = None \<and> map_create_node alloc key val (key_size m) (data_size m) \<noteq> None)"
  shows "\<exists>m'. map_insert alloc (Some m) key val = Some (Some m', new) \<and> map_ok m' \<and> comparator m' = cmp \<and>
    (if new then entries m' = (entries m)(key \<mapsto> val) \<and> msize m' = msize m + 1 else m' = m)"
proof -
  have asc: "ascending cmp (inorder (root m))" using assms(1,3) by (simp add: map_ok_def)
  note cs = insert_search_cases [OF asc, of 0 key "[]"]
  show ?thesis
  proof (cases "entries m key = None")
    case False
    then obtain n where "rb_insert_unique m key = Exists n"
      using cs map_ok_height [OF assms(1,2)] by (auto simp: rb_insert_unique_def assms(3) entries_def keys_map_of)
    with False assms show ?thesis by (simp add: map_insert_def)
  next
    case True
    then obtain q where q: "rb_insert_unique m key = At q"
      using cs map_ok_height [OF assms(1,2)] by (auto simp: rb_insert_unique_def assms(3) entries_def keys_map_of)
    then have bt: "between key q" "plug Null q = Some (root m)"
      using insert_search_At [OF _ between_Nil asc] by (auto simp: rb_insert_unique_def assms(3))
    show ?thesis
    proof (cases "map_create_node alloc key val (key_size m) (data_size m)")
      case None
      with q True assms show ?thesis by (simp add: map_insert_def)
    next
      case (Some n)
      then have n: "n = Node RB_RED Null key val Null"
        by (auto simp: map_create_node_def rb_node_init_def split: option.splits if_splits)
      have "grown Null n" by (simp add: grown_def n)
      then obtain t where t: "insert_fix n q = Some t" "grown (root m) t"
        using insert_fix_grown [OF bt(2)] assms(1) by (auto simp: map_ok_def)
      then obtain c l k v r where tn: "t = Node c l k v r" by (cases t) (auto simp: grown_def)
      let ?t = "Node RB_BLACK l k v r"
      have io: "inorder (root m) = pre q @ post q" "inorder ?t = pre q @ (key, val) # post q"
        using plug_inorder [OF bt(2)] insert_fix_inorder [OF t(1)] by (simp_all add: n tn)
      have "llrb ?t" using t(2) by (simp add: grown_def tn)
      moreover have "ascending cmp (inorder ?t)"
        using asc bt(1) unfolding io by (auto simp: between_def)
      moreover have "unat (msize m + 1) = unat (msize m) + 1"
        using assms(2) by (simp add: map_room_def unat_word_ariths)
      moreover have "length (inorder ?t) = unat (msize m) + 1"
        using assms(1) unfolding map_ok_def io by simp
      ultimately have "map_ok (m\<lparr>root := ?t, msize := msize m + 1\<rparr>)" using assms(3) by (simp add: map_ok_def)
      moreover have "entries (m\<lparr>root := ?t, msize := msize m + 1\<rparr>) = (entries m)(key \<mapsto> val)"
        using map_of_insert [of key "pre q" val "post q"] not_between [OF bt(1)] io by (simp add: entries_def)
      ultimately show ?thesis using q Some t(1) True assms(3,4) by (simp add: map_insert_def tn)
    qed
  qed
qed

lemma find_ok:
  assumes "map_ok m" "comparator m = cmp"
  shows "map_find (Some m) key = (if entries m key = None then None else Some key)"
    "map_iter_value (Some m) (map_find (Some m) key) = entries m key"
proof -
  have asc: "ascending cmp (inorder (root m))" using assms by (simp add: map_ok_def)
  have "map_find (Some m) key = (if entries m key = None then None else Some key) \<and>
    map_iter_value (Some m) (map_find (Some m) key) = entries m key"
  proof (cases "entries m key = None")
    case True
    then have "map_find_loop cmp key (root m) = Null"
      using remove_search_cases [OF asc, of key "[]"] map_find_loop_search [of cmp key "root m" "[]"]
      by (auto simp: entries_def keys_map_of)
    with True assms(2) show ?thesis by (simp add: map_find_def iter_of_def map_iter_value_def)
  next
    case False
    then obtain n anc where rs: "remove_search cmp key (root m) [] = Some (n, anc)"
      using remove_search_cases [OF asc, of key "[]"] by (auto simp: entries_def keys_map_of split: if_splits)
    have n: "map_find_loop cmp key (root m) = n" using rs map_find_loop_search [of cmp key "root m" "[]"] by simp
    have sh: "n \<noteq> Null" "nkey n = key" using remove_search_shape [OF rs] by (auto simp: equal_iff)
    obtain c l v r where nn: "n = Node c l key v r" using sh by (cases n) auto
    have io: "inorder (root m) = (pre anc @ inorder l) @ (key, v) # (inorder r @ post anc)"
      using plug_inorder [of n anc "root m"] remove_search_plug [OF rs] by (simp add: nn)
    have "key \<notin> keys (pre anc @ inorder l)" using asc unfolding io by auto
    from map_of_insert [OF this, of v "inorder r @ post anc"] have "entries m key = Some v"
      by (simp only: entries_def io fun_upd_same)
    with n nn sh assms(2) show ?thesis
      by (simp add: map_find_def iter_of_def map_iter_value_def node_at_def)
  qed
  then show "map_find (Some m) key = (if entries m key = None then None else Some key)"
    "map_iter_value (Some m) (map_find (Some m) key) = entries m key" by blast+
qed

lemma erase_ok:
  assumes "map_ok m" "map_room m" "comparator m = cmp" "entries m key \<noteq> None"
  shows "\<exists>m'. map_erase (Some m) (Some key) = Some (Some m', None) \<and> map_ok m' \<and> comparator m' = cmp \<and>
    entries m' = (entries m)(key := None) \<and> msize m' = msize m - 1"
proof -
  have asc: "ascending cmp (inorder (root m))" using assms by (simp add: map_ok_def)
  obtain n anc where rs: "remove_search cmp key (root m) [] = Some (n, anc)"
    using remove_search_cases [OF asc, of key "[]"] assms(4) by (auto simp: entries_def keys_map_of split: if_splits)
  obtain t xs ys where t: "rb_remove cmp (root m) key = Some t" "llrb t" "\<not> is_red t"
    "inorder (root m) = xs @ (nkey n, ndata n) # ys" "inorder t = xs @ ys" "cmp key (nkey n) = MAP_CMP_EQUAL"
    using rb_remove_ok [OF _ _ map_ok_height [OF assms(1,2)] rs] assms(1) by (auto simp: map_ok_def)
  have k: "nkey n = key" using t(6) by (simp add: equal_iff)
  have nin: "key \<notin> keys xs" "key \<notin> keys ys" using asc unfolding t(4) k by auto
  have size: "unat (msize m) = Suc (length (xs @ ys))" using assms(1) t(4) by (simp add: map_ok_def)
  then have "msize m \<noteq> 0" by auto
  then have "unat (msize m - 1) = length (xs @ ys)" using size by (simp add: unat_minus_one)
  then have "map_ok (m\<lparr>root := t, msize := msize m - 1\<rparr>)"
    using t asc assms(3) by (simp add: map_ok_def)
  moreover have "entries (m\<lparr>root := t, msize := msize m - 1\<rparr>) = (entries m)(key := None)"
    using map_of_remove [OF nin, of "ndata n"] by (simp add: entries_def t(4,5) k)
  ultimately show ?thesis using t(1) \<open>msize m \<noteq> 0\<close> assms(3) by (simp add: map_erase_def)
qed

end

section \<open>Iteration\<close>

definition first_key :: "('k \<times> 'v) list \<Rightarrow> 'k option" where
  "first_key xs = (if xs = [] then None else Some (fst (hd xs)))"

definition last_key :: "('k \<times> 'v) list \<Rightarrow> 'k option" where
  "last_key xs = (if xs = [] then None else Some (fst (last xs)))"

lemma inorder_Nil [simp]: "inorder t = [] \<longleftrightarrow> t = Null"
  by (cases t) auto

lemma leftmost_first: "iter_of (leftmost t) = first_key (inorder t)"
proof (induction t)
  case (Node c l k v r)
  then show ?case by (auto simp: iter_of_def first_key_def)
qed (simp add: iter_of_def first_key_def)

lemma rightmost_last: "iter_of (rightmost t) = last_key (inorder t)"
proof (induction t)
  case (Node c l k v r)
  then show ?case by (auto simp: iter_of_def last_key_def)
qed (simp add: iter_of_def last_key_def)

lemma key_simps [simp]:
  "iter_of (Node c l k v r) = Some k" "first_key ((k, v) # xs) = Some k" "last_key (xs @ [(k, v)]) = Some k"
  by (simp_all add: iter_of_def first_key_def last_key_def)

lemma succ_search_post:
  "remove_search cmp key t p = Some (n, anc) \<Longrightarrow> iter_of s = first_key (post p) \<Longrightarrow>
   iter_of (succ_search cmp key t s) = first_key (post anc)"
proof (induction t arbitrary: p s)
  case (Node c l k v r)
  show ?case
    using Node.prems Node.IH(1) [of "(Node c l k v r, MAP_CMP_LESS) # p" "Node c l k v r"]
      Node.IH(2) [of "(Node c l k v r, MAP_CMP_GREATER) # p" s]
    by (cases "cmp key k") auto
qed simp

lemma pred_search_pre:
  "remove_search cmp key t p = Some (n, anc) \<Longrightarrow> iter_of s = last_key (pre p) \<Longrightarrow>
   iter_of (pred_search cmp key t s) = last_key (pre anc)"
proof (induction t arbitrary: p s)
  case (Node c l k v r)
  show ?case
    using Node.prems Node.IH(1) [of "(Node c l k v r, MAP_CMP_LESS) # p" s]
      Node.IH(2) [of "(Node c l k v r, MAP_CMP_GREATER) # p" "Node c l k v r"]
    by (cases "cmp key k") (auto simp flip: append_assoc)
qed simp

lemma first_key_append: "first_key (xs @ ys) = (if xs = [] then first_key ys else first_key xs)"
  by (simp add: first_key_def)

lemma last_key_append: "last_key (xs @ ys) = (if ys = [] then last_key xs else last_key ys)"
  by (simp add: last_key_def)

text \<open>The place of a key in an association list without repetition.\<close>

lemma split_unique:
  "xs @ (k, v) # ys = xs' @ (k, v') # ys' \<Longrightarrow> k \<notin> keys xs \<Longrightarrow> k \<notin> keys xs' \<Longrightarrow> xs = xs' \<and> v = v' \<and> ys = ys'"
  by (induction xs arbitrary: xs') (auto simp: Cons_eq_append_conv append_eq_Cons_conv)

context key_order
begin

lemma step_ok:
  assumes "map_ok m" "comparator m = cmp" "inorder (root m) = xs @ (key, v) # ys"
  shows "map_next (Some m) (Some key) = Some (first_key ys)" "map_prev (Some m) (Some key) = Some (last_key xs)"
proof -
  have asc: "ascending cmp (inorder (root m))" using assms by (simp add: map_ok_def)
  obtain n anc where rs: "remove_search cmp key (root m) [] = Some (n, anc)"
    using remove_search_cases [OF asc, of key "[]"] assms(3) by (auto split: if_splits)
  have sh: "n \<noteq> Null" "nkey n = key" using remove_search_shape [OF rs] by (auto simp: equal_iff)
  obtain c l w r where n: "n = Node c l key w r" using sh by (cases n) auto
  have at': "node_at m key = Some n"
    using rs map_find_loop_search [of cmp key "root m" "[]"] n assms(2) by (simp add: node_at_def)
  have io: "inorder (root m) = (pre anc @ inorder l) @ (key, w) # (inorder r @ post anc)"
    using plug_inorder [of n anc "root m"] remove_search_plug [OF rs] by (simp add: n)
  have "key \<notin> keys xs" "key \<notin> keys (pre anc @ inorder l)" "key \<notin> keys ys"
    using asc assms(3) asc [unfolded io] by auto
  then have "xs = pre anc @ inorder l" "ys = inorder r @ post anc"
    using split_unique [of xs key v ys "pre anc @ inorder l" w "inorder r @ post anc"] io assms(3) by simp_all
  moreover have "iter_of (succ_search cmp key (root m) Null) = first_key (post anc)"
    "iter_of (pred_search cmp key (root m) Null) = last_key (pre anc)"
    by (rule succ_search_post [OF rs] pred_search_pre [OF rs]; simp add: iter_of_def first_key_def last_key_def)+
  ultimately show "map_next (Some m) (Some key) = Some (first_key ys)" "map_prev (Some m) (Some key) = Some (last_key xs)"
    using at' assms(2)
    by (auto simp: map_next_def map_prev_def n leftmost_first rightmost_last first_key_append last_key_append)
qed

end

section \<open>The comparisons of the program\<close>

lemma sint_eq_iff: "sint a = sint b \<longleftrightarrow> a = b" for a b :: u32
  by (metis signed_word_eqI)

lemma map_cmp_cases:
  "map_cmp_int a b = (if sint a < sint b then MAP_CMP_LESS else if a = b then MAP_CMP_EQUAL else MAP_CMP_GREATER)"
  "map_cmp_uint a b = (if a < b then MAP_CMP_LESS else if a = b then MAP_CMP_EQUAL else MAP_CMP_GREATER)"
  by (auto simp: map_cmp_int_def map_cmp_uint_def cmp_of_int_def sint_eq_iff)

interpretation int_keys: key_order map_cmp_int
  by unfold_locales (auto simp: map_cmp_cases simp flip: sint_eq_iff split: if_splits)

interpretation uint_keys: key_order map_cmp_uint
  by unfold_locales (auto simp: map_cmp_cases split: if_splits)

interpretation breakpoint_keys: key_order breakpoint_cmp
  by unfold_locales (auto simp: breakpoint_cmp_def split: if_splits)

definition program_order :: "(u32 \<Rightarrow> u32 \<Rightarrow> map_cmp) \<Rightarrow> bool" where
  "program_order cmp \<longleftrightarrow> cmp = map_cmp_int \<or> cmp = map_cmp_uint \<or> cmp = breakpoint_cmp"

lemma program_order_keys: "program_order cmp \<Longrightarrow> key_order cmp"
  using int_keys.key_order_axioms uint_keys.key_order_axioms breakpoint_keys.key_order_axioms
  by (auto simp: program_order_def)

section \<open>Properties\<close>

text \<open>
  C22. The red-black tree implements a finite map: on a well-formed map of fewer than \<open>2\<^sup>6\<^sup>3\<close>
  entries with one of the program's key orders, \<^verbatim>\<open>map_insert\<close> adds an entry for a new key if memory
  is available and otherwise changes nothing and returns false; \<^verbatim>\<open>map_find\<close> finds exactly the keys
  that are there, with their values; and \<^verbatim>\<open>map_erase\<close> of a key that is there removes exactly it.
  Both updates keep the tree well formed (sorted, left-leaning, balanced, counted), meet no NULL
  pointer and no failed assertion, and stay inside the path array of 128 entries.
\<close>

theorem rb_map_refines:
  assumes "map_ok m" "map_room m" "program_order (comparator m)"
  shows "map_find (Some m) key = (if entries m key = None then None else Some key) \<and>
    map_iter_value (Some m) (map_find (Some m) key) = entries m key \<and>
    (\<exists>m' ok. map_insert alloc (Some m) key val = Some (Some m', ok) \<and> map_ok m' \<and>
       ok = (entries m key = None \<and> map_create_node alloc key val (key_size m) (data_size m) \<noteq> None) \<and>
       entries m' = (if ok then (entries m)(key \<mapsto> val) else entries m)) \<and>
    (entries m key \<noteq> None \<longrightarrow> (\<exists>m'. map_erase (Some m) (map_find (Some m) key) = Some (Some m', None) \<and> map_ok m' \<and>
       entries m' = (entries m)(key := None)))"
proof -
  note ko = program_order_keys [OF assms(3)]
  note f = key_order.find_ok [OF ko assms(1) refl, of key]
  have "\<exists>m' ok. map_insert alloc (Some m) key val = Some (Some m', ok) \<and> map_ok m' \<and>
       ok = (entries m key = None \<and> map_create_node alloc key val (key_size m) (data_size m) \<noteq> None) \<and>
       entries m' = (if ok then (entries m)(key \<mapsto> val) else entries m)"
    using key_order.insert_ok [OF ko assms(1,2) refl refl, of alloc key val] by (auto split: if_splits)
  moreover have "\<exists>m'. map_erase (Some m) (map_find (Some m) key) = Some (Some m', None) \<and> map_ok m' \<and>
       entries m' = (entries m)(key := None)" if "entries m key \<noteq> None"
    using key_order.erase_ok [OF ko assms(1,2) refl that] f(1) that by auto
  ultimately show ?thesis using f by blast
qed

text \<open>
  C23. Iteration goes through the keys in ascending order, each once: \<^verbatim>\<open>map_first\<close> and \<^verbatim>\<open>map_last\<close> point to
  the smallest and the largest key, \<^verbatim>\<open>map_next\<close> and \<^verbatim>\<open>map_prev\<close> to the neighbour of a key, or to the end.
\<close>

theorem rb_map_iterates:
  assumes "map_ok m" "program_order (comparator m)" "ks = map fst (inorder (root m))"
  shows "sorted_wrt (\<lambda>a b. comparator m a b = MAP_CMP_LESS) ks \<and> set ks = dom (entries m) \<and>
    map_first (Some m) = (if ks = [] then None else Some (hd ks)) \<and>
    map_last (Some m) = (if ks = [] then None else Some (last ks)) \<and>
    (\<forall>i < length ks. map_next (Some m) (Some (ks ! i)) = Some (if Suc i < length ks then Some (ks ! Suc i) else None) \<and>
       map_prev (Some m) (Some (ks ! i)) = Some (if i = 0 then None else Some (ks ! (i - 1))))"
proof (intro conjI allI impI)
  note ko = program_order_keys [OF assms(2)]
  let ?io = "inorder (root m)"
  show "sorted_wrt (\<lambda>a b. comparator m a b = MAP_CMP_LESS) ks"
    using assms(1) by (simp add: assms(3) map_ok_def ascending_def sorted_wrt_map)
  show "set ks = dom (entries m)" by (simp add: assms(3) entries_def dom_map_of_conv_image_fst)
  show "map_first (Some m) = (if ks = [] then None else Some (hd ks))"
    "map_last (Some m) = (if ks = [] then None else Some (last ks))"
    by (auto simp: map_first_def map_last_def leftmost_first rightmost_last first_key_def last_key_def assms(3)
        hd_map last_map)
  fix i assume i: "i < length ks"
  have "?io = take i ?io @ (fst (?io ! i), snd (?io ! i)) # drop (Suc i) ?io"
    using i id_take_nth_drop [of i ?io] by (simp add: assms(3))
  note st = key_order.step_ok [OF ko assms(1) refl this]
  have k: "ks ! i = fst (?io ! i)" using i by (simp add: assms(3))
  show "map_next (Some m) (Some (ks ! i)) = Some (if Suc i < length ks then Some (ks ! Suc i) else None)"
    using st(1) i unfolding k by (auto simp: first_key_def assms(3) hd_drop_conv_nth)
  show "map_prev (Some m) (Some (ks ! i)) = Some (if i = 0 then None else Some (ks ! (i - 1)))"
    using st(2) i unfolding k by (auto simp: last_key_def assms(3) last_conv_nth)
qed

text \<open>
  The breakpoint table answers with the breakpoint instead of a pointer to it: after a
  breakpoint was set at an address, \<^verbatim>\<open>breakpoint_map_find\<close> returns the number of that address as a
  pointer, so the debugger sees every breakpoint but the one at address 0, for which the
  result is NULL.
\<close>

lemma breakpoint_found:
  assumes "map_ok m" "map_room m" "comparator m = breakpoint_cmp"
    and "breakpoint_map_insert alloc (Some m) addr = Some (m', True)"
  shows "breakpoint_map_find m' addr = Some (ucast addr) \<and> (breakpoint_map_find m' addr = Some 0 \<longleftrightarrow> addr = 0)"
proof -
  let ?bp = "\<lparr>bp_addr = addr, orig_insn = 0\<rparr>"
  have ins: "map_insert alloc (Some m) addr ?bp = Some (m', True)"
    using assms(4) by (auto simp: breakpoint_map_insert_def Let_def split: if_splits)
  obtain m2 where m2: "m' = Some m2" "map_ok m2" "comparator m2 = breakpoint_cmp" "entries m2 addr = Some ?bp"
    using breakpoint_keys.insert_ok [OF assms(1-3) refl, of alloc addr ?bp] ins by (auto split: if_splits)
  have "breakpoint_map_find m' addr = Some (ucast addr)"
    using breakpoint_keys.find_ok [OF m2(2,3), of addr] m2(1,4)
    by (simp add: breakpoint_map_find_def breakpoint_map_find_it_def Let_def map_at_end_def)
  moreover have "ucast addr = (0 :: u64) \<longleftrightarrow> addr = 0" using bit_imp_le_length [of addr] by (fastforce simp: bit_eq_iff bit_simps)
  ultimately show ?thesis by simp
qed

section \<open>Instances\<close>

text \<open>A map with the entries 3 and 5.\<close>

definition bp_map :: "(u32, breakpoint) map_internal" where
  "bp_map = \<lparr>root = Node RB_BLACK (Node RB_RED Null 3 \<lparr>bp_addr = 3, orig_insn = 0\<rparr> Null) 5 \<lparr>bp_addr = 5, orig_insn = 0\<rparr> Null,
     key_size = 4, data_size = 8, msize = 2, comparator = breakpoint_cmp\<rparr>"

lemma bp_map_ok: "map_ok bp_map" "map_room bp_map" "comparator bp_map = breakpoint_cmp" "program_order (comparator bp_map)"
  by (simp_all add: bp_map_def map_ok_def map_room_def breakpoint_keys.ascending_simps program_order_def)
    (simp add: breakpoint_cmp_def)

theorem rb_map_refines_witness:
  "entries bp_map 5 \<noteq> None \<and>
   (\<exists>m'. map_erase (Some bp_map) (map_find (Some bp_map) 5) = Some (Some m', None) \<and> entries m' 5 = None)"
proof -
  have "entries bp_map 5 \<noteq> None" by (simp add: entries_def bp_map_def)
  with rb_map_refines [OF bp_map_ok(1,2,4), of 5 "\<lambda>n. True"] show ?thesis by fastforce
qed

theorem rb_map_iterates_witness:
  "map_first (Some bp_map) = Some 3 \<and> map_next (Some bp_map) (Some 3) = Some (Some 5) \<and>
   map_next (Some bp_map) (Some 5) = Some None"
proof -
  have "map fst (inorder (root bp_map)) = [3, 5]" by (simp add: bp_map_def)
  from rb_map_iterates [OF bp_map_ok(1,4) this [symmetric]] show ?thesis
    by (auto simp: All_less_Suc numeral_2_eq_2)
qed

lemma breakpoint_at_zero:
  "\<exists>m'. breakpoint_map_insert (\<lambda>n. True) (Some bp_map) 0 = Some (m', True) \<and> breakpoint_map_find m' 0 = Some 0"
proof -
  have "\<exists>m'. breakpoint_map_insert (\<lambda>n. True) (Some bp_map) 0 = Some (m', True)"
    by (simp add: bp_map_def breakpoint_map_insert_def map_find_def iter_of_def breakpoint_cmp_def map_at_end_def
        map_insert_def rb_insert_unique_def map_create_node_def node_layout_def rb_node_init_def Let_def)
  with breakpoint_found [OF bp_map_ok(1-3), of "\<lambda>n. True" 0] show ?thesis by auto
qed

end
