(* ===== verification/Path.thy ===== *)
theory Path
  imports Prelude "HOL-Library.Monad_Syntax"
begin

text \<open>
  Path cleaning (\<^verbatim>\<open>utils.c\<close>, \<^verbatim>\<open>sanitize_path\<close>). The input is the C string without its terminator; the
  buffer \<^verbatim>\<open>ret\<close> is a list of its \<^verbatim>\<open>n + 1\<close> bytes, and a write outside it is \<^const>\<open>None\<close>. An index into
  the input is below \<^verbatim>\<open>n\<close> wherever the code reads.
\<close>

section \<open>The code\<close>

abbreviation (input) MAX_PATH_LEN :: nat where "MAX_PATH_LEN \<equiv> 1024"
abbreviation (input) NUL :: char where "NUL \<equiv> CHR 0x00"

definition put_char :: "string \<Rightarrow> nat \<Rightarrow> char \<Rightarrow> string option" where
  "put_char ret w c = (if w < length ret then Some (ret[w := c]) else None)"

text \<open>\<^verbatim>\<open>while (w > dotdot && ret[w] != '/') w--;\<close>\<close>

fun backtrack :: "string \<Rightarrow> nat \<Rightarrow> nat \<Rightarrow> nat" where
  "backtrack ret dotdot 0 = 0"
| "backtrack ret dotdot (Suc w) =
    (if Suc w > dotdot \<and> ret ! Suc w \<noteq> CHR ''/'' then backtrack ret dotdot w else Suc w)"

text \<open>\<^verbatim>\<open>for (; r < n && input[r] != '/'; r++) ret[w++] = input[r];\<close>\<close>

function copy_elem :: "string \<Rightarrow> nat \<Rightarrow> string \<Rightarrow> nat \<Rightarrow> nat \<Rightarrow> (string \<times> nat \<times> nat) option" where
  "copy_elem input n ret w r =
    (if r < n \<and> input ! r \<noteq> CHR ''/'' then do {
       ret \<leftarrow> put_char ret w (input ! r);
       copy_elem input n ret (w + 1) (r + 1) }
     else Some (ret, w, r))"
  by pat_completeness auto
termination by (relation "measure (\<lambda>(input, n, ret, w, r). n - r)") auto

declare copy_elem.simps [simp del]

lemma copy_elem_r: "copy_elem input n ret w r = Some (ret', w', r') \<Longrightarrow> r \<le> r'"
proof (induction input n ret w r rule: copy_elem.induct)
  case (1 input n ret w r)
  show ?case
  proof (cases "r < n \<and> input ! r \<noteq> CHR ''/''")
    case True
    then obtain ret2 where "put_char ret w (input ! r) = Some ret2" "copy_elem input n ret2 (w + 1) (r + 1) = Some (ret', w', r')"
      using "1.prems" by (subst (asm) copy_elem.simps) (auto split: bind_splits)
    from "1.IH" [OF True this] show ?thesis by simp
  next
    case False
    with "1.prems" show ?thesis by (subst (asm) copy_elem.simps) auto
  qed
qed

lemma copy_elem_progress:
  assumes "copy_elem input n ret w r = Some (ret', w', r')" "r < n" "input ! r \<noteq> CHR ''/''"
  shows "r < r'"
proof -
  obtain ret2 where "copy_elem input n ret2 (w + 1) (r + 1) = Some (ret', w', r')"
    using assms by (subst (asm) copy_elem.simps) (auto split: bind_splits)
  from copy_elem_r [OF this] show ?thesis by simp
qed

text \<open>The main loop: buffer, write index, read index and the place where \<^verbatim>\<open>..\<close> must stop.\<close>

function sanitize_loop :: "string \<Rightarrow> nat \<Rightarrow> bool \<Rightarrow> string \<Rightarrow> nat \<Rightarrow> nat \<Rightarrow> nat \<Rightarrow> (string \<times> nat) option" where
  "sanitize_loop input n is_root ret w r dotdot =
    (if \<not> r < n then Some (ret, w)
     else if input ! r = CHR ''/'' then sanitize_loop input n is_root ret w (r + 1) dotdot
     else if input ! r = CHR ''.'' \<and> (r + 1 = n \<or> input ! (r + 1) = CHR ''/'') then
       sanitize_loop input n is_root ret w (r + 1) dotdot
     else if input ! r = CHR ''.'' \<and> input ! (r + 1) = CHR ''.'' \<and> (r + 2 = n \<or> input ! (r + 2) = CHR ''/'') then
       (if w > dotdot then
          sanitize_loop input n is_root ret (backtrack ret dotdot (w - 1)) (r + 2) dotdot
        else if \<not> is_root then do {
          (ret, w) \<leftarrow> (if w > 0 then do { ret \<leftarrow> put_char ret w (CHR ''/''); Some (ret, w + 1) } else Some (ret, w));
          ret \<leftarrow> put_char ret w (CHR ''.'');
          ret \<leftarrow> put_char ret (w + 1) (CHR ''.'');
          sanitize_loop input n is_root ret (w + 2) (r + 2) (w + 2) }
        else sanitize_loop input n is_root ret w (r + 2) dotdot)
     else do {
       (ret, w) \<leftarrow> (if is_root \<and> w \<noteq> 1 \<or> \<not> is_root \<and> w \<noteq> 0
         then do { ret \<leftarrow> put_char ret w (CHR ''/''); Some (ret, w + 1) } else Some (ret, w));
       (ret, w, r') \<leftarrow> copy_elem input n ret w r;
       sanitize_loop input n is_root ret w r' dotdot })"
  by pat_completeness auto
termination
  by (relation "measure (\<lambda>(input, n, is_root, ret, w, r, dotdot). n - r)")
    (auto dest!: copy_elem_progress)

declare sanitize_loop.simps [simp del]

text \<open>
  The buffer that is returned. \<open>alloc n\<close>: whether \<^verbatim>\<open>calloc\<close> yields \<open>n\<close> bytes; the outer \<^const>\<open>None\<close> is a
  write outside the buffer, the inner one the NULL of a failed allocation.
\<close>

definition sanitize_path :: "(nat \<Rightarrow> bool) \<Rightarrow> string \<Rightarrow> string option option" where
  "sanitize_path alloc input =
    (let n = min (length input) MAX_PATH_LEN in
     if \<not> alloc (n + 1) then Some None
     else let ret = replicate (n + 1) NUL in
     if n = 0 then Some (Some (ret[0 := CHR ''.'']))
     else let is_root = (input ! 0 = CHR ''/'') in do {
       (ret, w, r, dotdot) \<leftarrow> (if is_root then do { ret \<leftarrow> put_char ret 0 (CHR ''/''); Some (ret, 1, 1, 1) }
         else Some (ret, 0, 0, 0));
       (ret, w) \<leftarrow> sanitize_loop input n is_root ret w r dotdot;
       (ret, w) \<leftarrow> (if w = 0 then do { ret \<leftarrow> put_char ret w (CHR ''.''); Some (ret, w + 1) } else Some (ret, w));
       if w \<le> length ret then Some (Some (take w ret @ replicate (n + 1 - w) NUL)) else None })"

text \<open>The C string in a buffer: \<^const>\<open>None\<close> if it has no terminator.\<close>

definition c_string :: "string \<Rightarrow> string option" where
  "c_string buf = (if NUL \<in> set buf then Some (takeWhile (\<lambda>c. c \<noteq> NUL) buf) else None)"

section \<open>The specification\<close>

text \<open>The elements of a path, and the stack of elements that is left of them.\<close>

function elems :: "string \<Rightarrow> string list" where
  "elems [] = []"
| "elems (c # s) =
    (if c = CHR ''/'' then elems s
     else takeWhile (\<lambda>c. c \<noteq> CHR ''/'') (c # s) # elems (dropWhile (\<lambda>c. c \<noteq> CHR ''/'') (c # s)))"
  by pat_completeness auto
termination
  by (relation "measure length") (auto simp: length_dropWhile_le le_imp_less_Suc)

definition push_elem :: "bool \<Rightarrow> string list \<Rightarrow> string \<Rightarrow> string list" where
  "push_elem is_root st e =
    (if e = ''.'' then st
     else if e = ''..'' then
       (if st \<noteq> [] \<and> last st \<noteq> ''..'' then butlast st
        else if is_root then st else st @ [''..''])
     else st @ [e])"

fun join :: "string list \<Rightarrow> string" where
  "join [] = []"
| "join [e] = e"
| "join (e # es) = e @ CHR ''/'' # join es"

definition render :: "bool \<Rightarrow> string list \<Rightarrow> string" where
  "render is_root st = (if is_root then ''/'' else []) @ join st"

definition clean_path :: "string \<Rightarrow> string" where
  "clean_path s =
    (let is_root = (s \<noteq> [] \<and> hd s = CHR ''/'');
         out = render is_root (foldl (push_elem is_root) [] (elems s))
     in if out = [] then ''.'' else out)"

end
