(* ===== verification/Path_Correct.thy ===== *)
theory Path_Correct
  imports Path
begin

text \<open>
  \<^verbatim>\<open>sanitize_path\<close> stays inside its buffer and computes the lexical normal form of the path.
\<close>

section \<open>Rendering\<close>

lemma join_snoc: "join (st @ [e]) = join st @ (if st = [] then [] else ''/'') @ e"
  by (induction st rule: join.induct) auto

lemma render_snoc: "render root (st @ [e]) = render root st @ (if st = [] then [] else ''/'') @ e"
  by (simp add: render_def join_snoc)

lemma render_Nil: "render root [] = (if root then ''/'' else [])"
  by (simp add: render_def)

text \<open>A name that can be pushed, and a stack: parent references first, then names.\<close>

definition name :: "string \<Rightarrow> bool" where
  "name e \<longleftrightarrow> e \<noteq> [] \<and> CHR ''/'' \<notin> set e \<and> e \<noteq> ''.'' \<and> e \<noteq> ''..''"

definition stack :: "bool \<Rightarrow> nat \<Rightarrow> string list \<Rightarrow> bool" where
  "stack root k st \<longleftrightarrow> (\<exists>es. st = replicate k ''..'' @ es \<and> (\<forall>e \<in> set es. name e) \<and> (root \<longrightarrow> k = 0))"

lemma stack_elem:
  assumes "stack root k st" "e \<in> set st"
  shows "e \<noteq> [] \<and> CHR ''/'' \<notin> set e"
proof -
  obtain es where "st = replicate k ''..'' @ es" "\<forall>e \<in> set es. name e" using assms(1) by (auto simp: stack_def)
  with assms(2) consider "e = ''..''" | "name e" by (auto split: if_splits)
  then show ?thesis by cases (simp_all add: name_def)
qed

lemma join_Nil_iff: "(\<forall>e \<in> set st. e \<noteq> []) \<Longrightarrow> join st = [] \<longleftrightarrow> st = []"
  by (induction st rule: join.induct) auto

lemma render_length_iff:
  "stack root k st \<Longrightarrow> length (render root st) = (if root then 1 else 0) \<longleftrightarrow> st = []"
  using join_Nil_iff [of st] stack_elem [of root k st] by (auto simp: render_def)

lemma render_mono: "length (render root xs) \<le> length (render root (xs @ ys))"
proof (induction ys rule: rev_induct)
  case (snoc y ys)
  then show ?case using render_snoc [of root "xs @ ys" y] by simp
qed simp

section \<open>The loops\<close>

lemma backtrack_stop:
  "(\<And>i. k < i \<Longrightarrow> i \<le> k + j \<Longrightarrow> ret ! i \<noteq> CHR ''/'') \<Longrightarrow> d \<le> k \<Longrightarrow> k = d \<or> ret ! k = CHR ''/'' \<Longrightarrow>
   backtrack ret d (k + j) = k"
proof (induction j)
  case 0
  then show ?case by (cases k) auto
next
  case (Suc j)
  then show ?case by simp
qed

lemma nth_of_take: "take w ret = xs \<Longrightarrow> i < length xs \<Longrightarrow> ret ! i = xs ! i"
  by auto

lemma copy_elem_copies:
  assumes "w + length (takeWhile (\<lambda>c. c \<noteq> CHR ''/'') (drop r s)) \<le> length ret" "n \<le> length input" "s = take n input"
  shows "\<exists>ret'. copy_elem input n ret w r =
      Some (ret', w + length (takeWhile (\<lambda>c. c \<noteq> CHR ''/'') (drop r s)), r + length (takeWhile (\<lambda>c. c \<noteq> CHR ''/'') (drop r s))) \<and>
    length ret' = length ret \<and>
    take (w + length (takeWhile (\<lambda>c. c \<noteq> CHR ''/'') (drop r s))) ret' = take w ret @ takeWhile (\<lambda>c. c \<noteq> CHR ''/'') (drop r s)"
  using assms
proof (induction input n ret w r rule: copy_elem.induct)
  case (1 input n ret w r)
  let ?e = "\<lambda>r. takeWhile (\<lambda>c. c \<noteq> CHR ''/'') (drop r s)"
  show ?case
  proof (cases "r < n \<and> input ! r \<noteq> CHR ''/''")
    case True
    have dr: "drop r s = input ! r # drop (r + 1) s"
      using True "1.prems"(2,3) by (simp add: Cons_nth_drop_Suc [symmetric])
    then have e: "?e r = input ! r # ?e (r + 1)" using True by simp
    have w: "w < length ret" "w + 1 + length (?e (r + 1)) \<le> length ret" using "1.prems"(1) by (simp_all add: e)
    have p: "put_char ret w (input ! r) = Some (ret[w := input ! r])" using w(1) by (simp add: put_char_def)
    from "1.IH" [OF True p _ "1.prems"(2,3)] w(2) obtain ret' where
      "copy_elem input n (ret[w := input ! r]) (w + 1) (r + 1) = Some (ret', w + 1 + length (?e (r + 1)), r + 1 + length (?e (r + 1)))"
      "length ret' = length ret" "take (w + 1 + length (?e (r + 1))) ret' = take (w + 1) (ret[w := input ! r]) @ ?e (r + 1)"
      by auto
    moreover have "take (w + 1) (ret[w := input ! r]) = take w ret @ [input ! r]"
      using w(1) by (simp add: take_Suc_conv_app_nth)
    ultimately show ?thesis using True p by (subst copy_elem.simps) (simp add: e)
  next
    case False
    have "?e r = []"
    proof (cases "r < n")
      case True
      then have "drop r s = input ! r # drop (r + 1) s"
        using "1.prems"(2,3) by (simp add: Cons_nth_drop_Suc [symmetric])
      with True False show ?thesis by simp
    qed (use "1.prems"(3) in simp)
    with False show ?thesis by (subst copy_elem.simps) auto
  qed
qed

section \<open>The invariant of the main loop\<close>

definition path_inv :: "nat \<Rightarrow> string \<Rightarrow> bool \<Rightarrow> nat \<Rightarrow> string list \<Rightarrow> string \<Rightarrow> nat \<Rightarrow> nat \<Rightarrow> nat \<Rightarrow> bool" where
  "path_inv n s root k st ret w r dotdot \<longleftrightarrow>
     length ret = n + 1 \<and> w = length (render root st) \<and> take w ret = render root st \<and>
     stack root k st \<and> dotdot = length (render root (replicate k ''..'')) \<and> r \<le> n \<and> w \<le> r \<and>
     (r < n \<and> s ! r \<noteq> CHR ''/'' \<longrightarrow> st = [] \<or> w < r)"

lemma backtrack_pops:
  assumes "path_inv n s root k st ret w r dotdot" "w > dotdot"
  shows "st \<noteq> [] \<and> last st \<noteq> ''..'' \<and> stack root k (butlast st) \<and>
    backtrack ret dotdot (w - 1) = length (render root (butlast st))"
proof -
  have inv: "length ret = n + 1" "w = length (render root st)" "take w ret = render root st" "stack root k st"
    "dotdot = length (render root (replicate k ''..''))" using assms(1) unfolding path_inv_def by blast+
  obtain es where es: "st = replicate k ''..'' @ es" "\<forall>e \<in> set es. name e" "root \<longrightarrow> k = 0"
    using inv(4) by (auto simp: stack_def)
  have "es \<noteq> []" using assms(2) inv(2,5) es(1) by auto
  then obtain fs e where fe: "es = fs @ [e]" by (metis rev_exhaust)
  let ?b = "replicate k ''..'' @ fs"
  have st: "st = ?b @ [e]" and nm: "name e" using es fe by simp_all
  have bl: "butlast st = ?b" "last st = e" by (simp_all add: st butlast_append)
  have sb: "stack root k ?b" using es fe by (auto simp: stack_def)
  let ?base = "render root ?b" and ?sep = "if ?b = [] then [] else ''/''"
  have rend: "render root st = ?base @ ?sep @ e" unfolding st by (rule render_snoc)
  have at: "ret ! i = (?base @ ?sep @ e) ! i" if "i < length (?base @ ?sep @ e)" for i
    using nth_of_take [OF inv(3)] that rend by simp
  have e: "e \<noteq> []" "CHR ''/'' \<notin> set e" using nm by (simp_all add: name_def)
  have dd: "dotdot \<le> length ?base" unfolding inv(5) by (rule render_mono)
  have no: "ret ! i \<noteq> CHR ''/''" if "length ?base < i" "i < length (?base @ ?sep @ e)" for i
  proof -
    have "(?base @ ?sep @ e) ! i \<in> set e"
      using that by (auto simp: nth_append split: if_splits intro!: nth_mem)
    with at [OF that(2)] e(2) show ?thesis by metis
  qed
  have "backtrack ret dotdot (length ?base + (length ?sep + length e - 1)) = length ?base"
  proof (rule backtrack_stop)
    show "length ?base = dotdot \<or> ret ! length ?base = CHR ''/''"
    proof (cases "?b = []")
      case True
      then show ?thesis by (simp add: inv(5))
    next
      case False
      then show ?thesis using at [of "length ?base"] e(1) by (auto simp: nth_append)
    qed
  qed (use dd no e(1) in auto)
  moreover have "w - 1 = length ?base + (length ?sep + length e - 1)"
    using e(1) by (cases e) (auto simp: inv(2) rend)
  ultimately show ?thesis using nm sb bl st by (auto simp: name_def)
qed

lemma path_inv_pop:
  assumes "path_inv n s root k st ret w r dotdot" "w > dotdot" "r + 2 \<le> n" "r + 2 = n \<or> s ! (r + 2) = CHR ''/''"
  shows "path_inv n s root k (butlast st) ret (backtrack ret dotdot (w - 1)) (r + 2) dotdot"
proof -
  note b = backtrack_pops [OF assms(1,2)]
  have inv: "length ret = n + 1" "w = length (render root st)" "take w ret = render root st" "w \<le> r"
    "dotdot = length (render root (replicate k ''..''))" using assms(1) unfolding path_inv_def by blast+
  have "st = butlast st @ [last st]" using b by simp
  then have rd: "render root st = render root (butlast st) @ (if butlast st = [] then [] else ''/'') @ last st"
    using render_snoc [of root "butlast st" "last st"] by simp
  then have le: "length (render root (butlast st)) \<le> w" using inv(2) by simp
  have "take (length (render root (butlast st))) ret = take (length (render root (butlast st))) (take w ret)"
    using le by (simp add: min.absorb1)
  also have "\<dots> = render root (butlast st)" unfolding inv(3) by (subst rd) simp
  finally show ?thesis using b inv assms(3,4) le by (auto simp: path_inv_def)
qed

text \<open>Appending an element, with a separator in front of it where one is needed.\<close>

lemma put_sep:
  assumes "path_inv n s root k st ret w r dotdot" "r < n" "s ! r \<noteq> CHR ''/''"
  obtains ret1 where
    "(if st \<noteq> [] then do { ret \<leftarrow> put_char ret w (CHR ''/''); Some (ret, w + 1) } else Some (ret, w)) =
       Some (ret1, length (render root st @ (if st = [] then [] else ''/'')))"
    "length ret1 = n + 1" "take (length (render root st @ (if st = [] then [] else ''/''))) ret1 =
       render root st @ (if st = [] then [] else ''/'')"
    "length (render root st @ (if st = [] then [] else ''/'')) \<le> r"
proof -
  have inv: "length ret = n + 1" "w = length (render root st)" "take w ret = render root st" "w \<le> r" "st = [] \<or> w < r"
    using assms unfolding path_inv_def by blast+
  show thesis
  proof (cases "st = []")
    case True
    with that [of ret] inv show thesis by simp
  next
    case False
    then have "w < length ret" using inv assms(2) by simp
    with that [of "ret[w := CHR ''/'']"] False inv show thesis
      by (simp add: put_char_def take_Suc_conv_app_nth)
  qed
qed

lemma sep_guard:
  assumes "path_inv n s root k st ret w r dotdot"
  shows "(root \<and> w \<noteq> 1 \<or> \<not> root \<and> w \<noteq> 0) \<longleftrightarrow> st \<noteq> []" "\<not> root \<Longrightarrow> w > 0 \<longleftrightarrow> st \<noteq> []"
    "\<not> w > dotdot \<Longrightarrow> st = replicate k ''..''"
proof -
  have inv: "w = length (render root st)" "stack root k st" "dotdot = length (render root (replicate k ''..''))"
    using assms unfolding path_inv_def by blast+
  show "(root \<and> w \<noteq> 1 \<or> \<not> root \<and> w \<noteq> 0) \<longleftrightarrow> st \<noteq> []" "\<not> root \<Longrightarrow> w > 0 \<longleftrightarrow> st \<noteq> []"
    using render_length_iff [OF inv(2)] inv(1) by (cases root; simp)+
  obtain es where es: "st = replicate k ''..'' @ es" "\<forall>e \<in> set es. name e" using inv(2) by (auto simp: stack_def)
  assume le: "\<not> w > dotdot"
  have "es = []"
  proof (rule ccontr)
    assume "es \<noteq> []"
    then obtain e fs where e: "es = e # fs" by (cases es) auto
    have "length (render root (replicate k ''..'')) < length (render root (replicate k ''..'' @ [e]))"
      using es(2) by (simp add: e render_snoc name_def)
    also have "\<dots> \<le> length (render root st)" using render_mono [of root "replicate k ''..'' @ [e]" fs] by (simp add: es(1) e)
    finally show False using le inv by simp
  qed
  then show "st = replicate k ''..''" using es(1) by simp
qed

lemma stack_name: "stack root k st \<Longrightarrow> name e \<Longrightarrow> stack root k (st @ [e])"
  by (force simp: stack_def)

lemma path_inv_name:
  assumes inv: "path_inv n s root k st ret w r dotdot" "r < n" "s ! r \<noteq> CHR ''/''"
    and inp: "n \<le> length input" "s = take n input"
    and e: "e = takeWhile (\<lambda>c. c \<noteq> CHR ''/'') (drop r s)" "name e"
  shows "\<exists>ret1 w1 ret'. (if root \<and> w \<noteq> 1 \<or> \<not> root \<and> w \<noteq> 0
      then do { ret \<leftarrow> put_char ret w (CHR ''/''); Some (ret, w + 1) } else Some (ret, w)) = Some (ret1, w1) \<and>
    copy_elem input n ret1 w1 r = Some (ret', w1 + length e, r + length e) \<and>
    path_inv n s root k (st @ [e]) ret' (w1 + length e) (r + length e) dotdot"
proof -
  let ?p = "render root st @ (if st = [] then [] else ''/'')"
  obtain ret1 where r1: "(if st \<noteq> [] then do { ret \<leftarrow> put_char ret w (CHR ''/''); Some (ret, w + 1) } else Some (ret, w)) =
      Some (ret1, length ?p)" "length ret1 = n + 1" "take (length ?p) ret1 = ?p" "length ?p \<le> r"
    by (rule put_sep [OF inv])
  have len: "r + length e \<le> n"
    using length_takeWhile_le [of "\<lambda>c. c \<noteq> CHR ''/''" "drop r s"] inp inv(2) by (simp add: e(1))
  obtain ret' where c: "copy_elem input n ret1 (length ?p) r = Some (ret', length ?p + length e, r + length e)"
    "length ret' = length ret1" "take (length ?p + length e) ret' = take (length ?p) ret1 @ e"
    using copy_elem_copies [OF _ inp, of "length ?p" r ret1] r1(2,4) len by (auto simp: e(1))
  have slash: "s ! (r + length e) = CHR ''/''" if "r + length e < n"
  proof -
    have "length e < length (drop r s)" using that inp by simp
    then have "\<not> (drop r s ! length e \<noteq> CHR ''/'')"
      using nth_length_takeWhile [of "\<lambda>c. c \<noteq> CHR ''/''" "drop r s"] by (simp add: e(1))
    then show ?thesis using that inp by simp
  qed
  have "path_inv n s root k (st @ [e]) ret' (length ?p + length e) (r + length e) dotdot"
    using inv(1) r1(2-4) c(2,3) len slash stack_name [OF _ e(2)]
    unfolding path_inv_def by (auto simp: render_snoc)
  with r1(1) c(1) sep_guard(1) [OF inv(1)] show ?thesis by (intro exI [of _ ret1] exI [of _ "length ?p"] exI [of _ ret']) simp
qed

lemma path_inv_dotdot:
  assumes inv: "path_inv n s False k st ret w r dotdot" "r < n" "s ! r \<noteq> CHR ''/''" "\<not> w > dotdot"
    and r: "r + 2 \<le> n" "r + 2 = n \<or> s ! (r + 2) = CHR ''/''"
  shows "\<exists>ret1 w1 ret2 ret3. (if w > 0 then do { ret \<leftarrow> put_char ret w (CHR ''/''); Some (ret, w + 1) } else Some (ret, w)) =
      Some (ret1, w1) \<and> put_char ret1 w1 (CHR ''.'') = Some ret2 \<and> put_char ret2 (w1 + 1) (CHR ''.'') = Some ret3 \<and>
    path_inv n s False (Suc k) (st @ [''..'']) ret3 (w1 + 2) (r + 2) (w1 + 2)"
proof -
  let ?p = "render False st @ (if st = [] then [] else ''/'')"
  obtain ret1 where r1: "(if st \<noteq> [] then do { ret \<leftarrow> put_char ret w (CHR ''/''); Some (ret, w + 1) } else Some (ret, w)) =
      Some (ret1, length ?p)" "length ret1 = n + 1" "take (length ?p) ret1 = ?p" "length ?p \<le> r"
    by (rule put_sep [OF inv(1-3)])
  let ?w = "length ?p"
  let ?r2 = "ret1[?w := CHR ''.'']" let ?r3 = "?r2[?w + 1 := CHR ''.'']"
  have p: "put_char ret1 ?w (CHR ''.'') = Some ?r2" "put_char ?r2 (?w + 1) (CHR ''.'') = Some ?r3"
    using r1(2,4) r(1) by (simp_all add: put_char_def)
  have tk: "take (?w + 2) ?r3 = ?p @ ''..''"
  proof -
    have "take (?w + 2) ?r3 = take (?w + 1) ?r3 @ [?r3 ! (?w + 1)]" using r1(2,4) r(1) by (simp add: take_Suc_conv_app_nth)
    also have "take (?w + 1) ?r3 = take (?w + 1) ?r2" by simp
    also have "take (?w + 1) ?r2 = take ?w ret1 @ [CHR ''.'']" using r1(2,4) r(1) by (simp add: take_Suc_conv_app_nth)
    finally show ?thesis using r1(2,3,4) r(1) by simp
  qed
  have st: "st = replicate k ''..''" using sep_guard(3) [OF inv(1,4)] .
  have st': "st @ [''..''] = replicate (Suc k) ''..''" by (simp add: st replicate_append_same)
  have rd: "render False (st @ [''..'']) = ?p @ ''..''" by (simp add: render_snoc)
  have "path_inv n s False (Suc k) (st @ [''..'']) ?r3 (?w + 2) (r + 2) (?w + 2)"
    unfolding path_inv_def
  proof (intro conjI)
    show "stack False (Suc k) (st @ [''..''])" unfolding st' by (simp add: stack_def)
    show "?w + 2 = length (render False (replicate (Suc k) ''..''))" unfolding st' [symmetric] rd by simp
    show "take (?w + 2) ?r3 = render False (st @ [''..''])" using tk rd by simp
    show "r + 2 < n \<and> s ! (r + 2) \<noteq> CHR ''/'' \<longrightarrow> st @ [''..''] = [] \<or> ?w + 2 < r + 2" using r(2) by auto
  qed (use r1 r(1) rd in simp_all)
  with r1(1) p sep_guard(2) [OF inv(1)] show ?thesis
    by (intro exI [of _ ret1] exI [of _ "?w"] exI [of _ "?r2"] exI [of _ "?r3"]) simp
qed

lemma push_dots: "push_elem False (replicate k ''..'') ''..'' = replicate k ''..'' @ [''..'']"
  by (cases k) (simp_all add: push_elem_def last_replicate del: replicate.simps)

lemma elems_drop:
  assumes "r < length s" "s ! r \<noteq> CHR ''/''" "e = takeWhile (\<lambda>c. c \<noteq> CHR ''/'') (drop r s)"
  shows "elems (drop r s) = e # elems (drop (r + length e) s)"
proof -
  have d: "drop r s = s ! r # drop (Suc r) s" using assms(1) by (simp add: Cons_nth_drop_Suc)
  have "dropWhile (\<lambda>c. c \<noteq> CHR ''/'') (drop r s) = drop (length e) (drop r s)"
    by (simp only: assms(3) dropWhile_eq_drop)
  then show ?thesis using assms(2) unfolding d by (simp add: assms(3) d add.commute)
qed

lemma elem_dot:
  assumes "r < length s" "s ! r = CHR ''.''" "r + 1 = length s \<or> s ! (r + 1) = CHR ''/''"
  shows "takeWhile (\<lambda>c. c \<noteq> CHR ''/'') (drop r s) = ''.''"
proof -
  have "drop r s = CHR ''.'' # drop (Suc r) s" using assms by (simp flip: Cons_nth_drop_Suc)
  moreover have "takeWhile (\<lambda>c. c \<noteq> CHR ''/'') (drop (Suc r) s) = []"
    using assms(3) by (cases "Suc r < length s") (auto simp flip: Cons_nth_drop_Suc)
  ultimately show ?thesis by simp
qed

lemma elem_dotdot:
  assumes "r + 1 < length s" "s ! r = CHR ''.''" "s ! (r + 1) = CHR ''.''" "r + 2 = length s \<or> s ! (r + 2) = CHR ''/''"
  shows "takeWhile (\<lambda>c. c \<noteq> CHR ''/'') (drop r s) = ''..''"
  using elem_dot [of "r + 1" s] assms by (simp flip: Cons_nth_drop_Suc)

lemma elem_name:
  assumes "r < length s" "s ! r \<noteq> CHR ''/''"
    and "\<not> (s ! r = CHR ''.'' \<and> (r + 1 = length s \<or> s ! (r + 1) = CHR ''/''))"
    and "\<not> (s ! r = CHR ''.'' \<and> s ! (r + 1) = CHR ''.'' \<and> (r + 2 = length s \<or> s ! (r + 2) = CHR ''/''))"
  shows "name (takeWhile (\<lambda>c. c \<noteq> CHR ''/'') (drop r s))"
proof -
  let ?e = "takeWhile (\<lambda>c. c \<noteq> CHR ''/'') (drop r s)"
  have d: "drop r s = s ! r # drop (Suc r) s" using assms(1) by (simp add: Cons_nth_drop_Suc)
  have at: "s ! (r + i) = ?e ! i" if "i < length ?e" for i
    using takeWhile_nth [OF that] that length_takeWhile_le [of "\<lambda>c. c \<noteq> CHR ''/''" "drop r s"] by simp
  have stop: "r + length ?e = length s \<or> s ! (r + length ?e) = CHR ''/''"
    using nth_length_takeWhile [of "\<lambda>c. c \<noteq> CHR ''/''" "drop r s"] length_takeWhile_le [of "\<lambda>c. c \<noteq> CHR ''/''" "drop r s"] assms(1)
    by (cases "length ?e < length (drop r s)") auto
  have "?e \<noteq> ''.''" using at [of 0] stop assms(3) by auto
  moreover have "?e \<noteq> ''..''" using at [of 0] at [of 1] stop assms(4) by (auto simp: numeral_2_eq_2)
  moreover have "?e \<noteq> []" using assms(2) by (simp add: d)
  ultimately show ?thesis by (auto simp: name_def dest: set_takeWhileD)
qed

lemma sanitize_loop_correct:
  assumes "n \<le> length input" "s = take n input" "path_inv n s root k st ret w r dotdot"
  shows "\<exists>ret' k'. sanitize_loop input n root ret w r dotdot =
      Some (ret', length (render root (foldl (push_elem root) st (elems (drop r s))))) \<and> length ret' = n + 1 \<and>
    take (length (render root (foldl (push_elem root) st (elems (drop r s))))) ret' =
      render root (foldl (push_elem root) st (elems (drop r s))) \<and>
    length (render root (foldl (push_elem root) st (elems (drop r s)))) \<le> n \<and>
    stack root k' (foldl (push_elem root) st (elems (drop r s)))"
  using assms
proof (induction input n root ret w r dotdot arbitrary: st k rule: sanitize_loop.induct)
  case (1 input n root ret w r dotdot)
  note inp = "1.prems"(1,2) and inv = "1.prems"(3)
  have ls: "length s = n" using inp by simp
  have eq: "s ! i = input ! i" if "i < n" for i using that inp by simp
  show ?case
  proof (cases "r < n")
    case False
    then have "drop r s = []" using ls by simp
    with False inv show ?thesis by (subst sanitize_loop.simps) (auto simp: path_inv_def)
  next
    case rn: True
    show ?thesis
    proof (cases "input ! r = CHR ''/''")
      case True
      have d: "elems (drop r s) = elems (drop (r + 1) s)"
        using rn True ls eq [OF rn] by (simp flip: Cons_nth_drop_Suc)
      have "path_inv n s root k st ret w (r + 1) dotdot" using inv rn by (auto simp: path_inv_def)
      from "1.IH"(1) [OF _ True inp this] rn True show ?thesis
        unfolding d by (subst sanitize_loop.simps) simp
    next
      case ns: False
      then have sn: "s ! r \<noteq> CHR ''/''" using eq [OF rn] by simp
      show ?thesis
      proof (cases "input ! r = CHR ''.'' \<and> (r + 1 = n \<or> input ! (r + 1) = CHR ''/'')")
        case True
        then have e: "takeWhile (\<lambda>c. c \<noteq> CHR ''/'') (drop r s) = ''.''"
          using elem_dot [of r s] rn ls eq by (cases "r + 1 < n") auto
        have d: "foldl (push_elem root) st (elems (drop r s)) = foldl (push_elem root) st (elems (drop (r + 1) s))"
          using elems_drop [OF _ sn e [symmetric]] rn ls by (simp add: push_elem_def)
        have "path_inv n s root k st ret w (r + 1) dotdot"
          using inv rn True eq [of "r + 1"] by (auto simp: path_inv_def)
        from "1.IH"(2) [OF _ ns True inp this] rn ns True show ?thesis
          unfolding d by (subst sanitize_loop.simps) simp
      next
        case nd: False
        show ?thesis
        proof (cases "input ! r = CHR ''.'' \<and> input ! (r + 1) = CHR ''.'' \<and> (r + 2 = n \<or> input ! (r + 2) = CHR ''/'')")
          case dd: True
          have r1: "r + 1 < n" using nd dd rn by auto
          then have r2: "r + 2 \<le> n" "r + 2 = n \<or> s ! (r + 2) = CHR ''/''" using dd eq [of "r + 2"] by (cases "r + 2 < n"; auto)+
          have e: "takeWhile (\<lambda>c. c \<noteq> CHR ''/'') (drop r s) = ''..''"
            using elem_dotdot [of r s] dd r1 r2 ls eq by auto
          have d: "foldl (push_elem root) st (elems (drop r s)) =
              foldl (push_elem root) (push_elem root st ''..'') (elems (drop (r + 2) s))"
            using elems_drop [OF _ sn e [symmetric]] rn ls by simp
          show ?thesis
          proof (cases "w > dotdot")
            case True
            note b = backtrack_pops [OF inv True]
            have p: "push_elem root st ''..'' = butlast st" using b by (simp add: push_elem_def)
            from "1.IH"(3) [OF _ ns nd dd True inp path_inv_pop [OF inv True r2]] rn ns nd dd True show ?thesis
              unfolding d p by (subst sanitize_loop.simps) simp
          next
            case low: False
            note g = sep_guard(3) [OF inv low]
            show ?thesis
            proof (cases root)
              case True
              have "k = 0" using inv True by (auto simp: path_inv_def stack_def)
              then have p: "push_elem root st ''..'' = st" using g True by (simp add: push_elem_def)
              have "path_inv n s root k st ret w (r + 2) dotdot" using inv r2 by (auto simp: path_inv_def)
              from "1.IH"(5) [OF _ ns nd dd low _ inp this] rn ns nd dd low True show ?thesis
                unfolding d p by (subst sanitize_loop.simps) simp
            next
              case False
              have p: "push_elem root st ''..'' = st @ [''..'']" using g False push_dots [of k] by simp
              obtain ret1 w1 ret2 ret3 where x: "(if w > 0 then do { ret \<leftarrow> put_char ret w (CHR ''/''); Some (ret, w + 1) } else Some (ret, w)) =
                Some (ret1, w1)" "put_char ret1 w1 (CHR ''.'') = Some ret2" "put_char ret2 (w1 + 1) (CHR ''.'') = Some ret3"
                "path_inv n s root (Suc k) (st @ [''..'']) ret3 (w1 + 2) (r + 2) (w1 + 2)"
                using path_inv_dotdot [of n s k st ret w r dotdot] inv rn sn low r2 False by auto
              from "1.IH"(4) [OF _ ns nd dd low False x(1) _ x(2,3) inp x(4)] rn ns nd dd low False x(1-3) show ?thesis
                unfolding d p by (subst sanitize_loop.simps) simp
            qed
          qed
        next
          case nn: False
          let ?e = "takeWhile (\<lambda>c. c \<noteq> CHR ''/'') (drop r s)"
          have nm: "name ?e"
          proof (rule elem_name)
            show "\<not> (s ! r = CHR ''.'' \<and> (r + 1 = length s \<or> s ! (r + 1) = CHR ''/''))"
              using nd ls eq [OF rn] eq [of "r + 1"] rn by (cases "r + 1 < n") auto
            show "\<not> (s ! r = CHR ''.'' \<and> s ! (r + 1) = CHR ''.'' \<and> (r + 2 = length s \<or> s ! (r + 2) = CHR ''/''))"
              using nd nn ls eq [OF rn] eq [of "r + 1"] eq [of "r + 2"] rn
              by (cases "r + 1 < n"; cases "r + 2 < n") auto
          qed (use rn sn ls in auto)
          have d: "foldl (push_elem root) st (elems (drop r s)) =
              foldl (push_elem root) (st @ [?e]) (elems (drop (r + length ?e) s))"
            using elems_drop [OF _ sn refl] rn ls nm by (simp add: push_elem_def name_def)
          obtain ret1 w1 ret' where x: "(if root \<and> w \<noteq> 1 \<or> \<not> root \<and> w \<noteq> 0
              then do { ret \<leftarrow> put_char ret w (CHR ''/''); Some (ret, w + 1) } else Some (ret, w)) = Some (ret1, w1)"
            "copy_elem input n ret1 w1 r = Some (ret', w1 + length ?e, r + length ?e)"
            "path_inv n s root k (st @ [?e]) ret' (w1 + length ?e) (r + length ?e) dotdot"
            using path_inv_name [OF inv rn sn inp refl nm] by blast
          have "sanitize_loop input n root ret w r dotdot =
              sanitize_loop input n root ret' (w1 + length ?e) (r + length ?e) dotdot"
            by (subst sanitize_loop.simps)
              (simp only: rn ns nd nn x(1,2) not_True_eq_False if_True if_False Option.bind.simps case_prod_conv)
          with "1.IH"(6) [OF _ ns nd nn x(1) _ x(2) _ _ inp x(3)] rn show ?thesis
            unfolding d by simp
        qed
      qed
    qed
  qed
qed

section \<open>Properties\<close>

lemma sanitize_path_buffer:
  assumes "alloc (min (length input) 1024 + 1)" "input \<noteq> []"
  shows "\<exists>z. sanitize_path alloc input = Some (Some (clean_path (take 1024 input) @ replicate (Suc z) NUL)) \<and>
    length (clean_path (take 1024 input) @ replicate (Suc z) NUL) = min (length input) 1024 + 1"
proof -
  define n where "n = min (length input) 1024"
  let ?root = "input ! 0 = CHR ''/''"
  let ?s = "take n input"
  let ?ret = "replicate (n + 1) NUL"
  have n: "0 < n" "n \<le> length input" "alloc (n + 1)" using assms by (simp_all add: n_def)
  have s: "?s = take 1024 input" by (simp add: n_def min_def)
  have ne: "?s \<noteq> []" "hd ?s = input ! 0" using assms(2) n(1) by (simp_all add: hd_conv_nth)
  let ?r = "if ?root then 1 else 0 :: nat"
  let ?ret0 = "if ?root then ?ret[0 := CHR ''/''] else ?ret"
  have inv: "path_inv n ?s ?root 0 [] ?ret0 ?r ?r ?r"
    using n(1) by (auto simp: path_inv_def render_Nil stack_def take_Suc_conv_app_nth Suc_le_eq)
  have el: "elems (drop ?r ?s) = elems ?s"
    using ne by (cases ?s) auto
  let ?st = "foldl (push_elem ?root) [] (elems ?s)"
  let ?out = "render ?root ?st"
  obtain ret' where l: "sanitize_loop input n ?root ?ret0 ?r ?r ?r = Some (ret', length ?out)" "length ret' = n + 1"
    "take (length ?out) ret' = ?out" "length ?out \<le> n"
    using sanitize_loop_correct [OF n(2) refl inv] unfolding el by blast
  have cp: "clean_path (take 1024 input) = (if ?out = [] then ''.'' else ?out)"
    using ne by (simp add: clean_path_def Let_def flip: s)
  have "\<exists>z. sanitize_path alloc input = Some (Some ((if ?out = [] then ''.'' else ?out) @ replicate (Suc z) NUL)) \<and>
    length ((if ?out = [] then ''.'' else ?out) @ replicate (Suc z) NUL) = n + 1"
  proof (cases "?out = []")
    case True
    have "sanitize_path alloc input = Some (Some (take 1 (ret'[0 := CHR ''.'']) @ replicate n NUL))"
      using n l True by (cases ?root) (simp_all add: sanitize_path_def Let_def put_char_def flip: n_def)
    moreover have "take 1 (ret'[0 := CHR ''.'']) = ''.''" using l(2) by (cases ret') auto
    ultimately show ?thesis using n(1) True by (intro exI [of _ "n - 1"]) simp
  next
    case False
    have "sanitize_path alloc input = Some (Some (?out @ replicate (n + 1 - length ?out) NUL))"
      using n l False by (cases ?root) (simp_all add: sanitize_path_def Let_def put_char_def flip: n_def)
    then show ?thesis using l(4) False by (intro exI [of _ "n - length ?out"]) (simp add: Suc_diff_le)
  qed
  then show ?thesis unfolding cp by (simp add: n_def)
qed

lemma elems_Cons:
  "c \<noteq> CHR ''/'' \<Longrightarrow> elems (c # s) = (c # takeWhile (\<lambda>c. c \<noteq> CHR ''/'') s) # elems (dropWhile (\<lambda>c. c \<noteq> CHR ''/'') s)"
  "elems (CHR ''/'' # s) = elems s"
  by simp_all

lemma elems_append:
  assumes "e \<noteq> []" "CHR ''/'' \<notin> set e"
  shows "elems (e @ CHR ''/'' # s) = e # elems s" "elems e = [e]"
proof -
  obtain c e' where e: "e = c # e'" "c \<noteq> CHR ''/''" "CHR ''/'' \<notin> set e'" using assms by (cases e) auto
  have "takeWhile (\<lambda>c. c \<noteq> CHR ''/'') (e' @ CHR ''/'' # s) = e'" "dropWhile (\<lambda>c. c \<noteq> CHR ''/'') (e' @ CHR ''/'' # s) = CHR ''/'' # s"
    using e(3) by (induction e') auto
  then show "elems (e @ CHR ''/'' # s) = e # elems s" using e by (simp add: elems_Cons del: elems.simps(2))
  have "takeWhile (\<lambda>c. c \<noteq> CHR ''/'') e' = e'" "dropWhile (\<lambda>c. c \<noteq> CHR ''/'') e' = []"
    using e(3) by (induction e') auto
  then show "elems e = [e]" using e by (simp only: elems_Cons elems.simps(1) not_False_eq_True)
qed

lemma elems_join: "\<forall>e \<in> set st. e \<noteq> [] \<and> CHR ''/'' \<notin> set e \<Longrightarrow> elems (join st) = st"
  by (induction st rule: join.induct) (auto simp: elems_append simp del: elems.simps(2))

lemma elems_render: "stack root k st \<Longrightarrow> elems (render root st) = st"
  using elems_join [of st] stack_elem [of root k st] by (auto simp: render_def)

lemma elems_shape: "e \<in> set (elems s) \<Longrightarrow> e \<noteq> [] \<and> CHR ''/'' \<notin> set e"
  by (induction s rule: elems.induct) (auto dest: set_takeWhileD split: if_splits)

lemma push_elem_stack:
  assumes "stack root k st" "e \<noteq> [] \<and> CHR ''/'' \<notin> set e"
  shows "\<exists>k'. stack root k' (push_elem root st e)"
proof (cases "e = ''.'' \<or> e = ''..''")
  case False
  then have "name e" using assms(2) by (simp add: name_def)
  with False stack_name [OF assms(1)] show ?thesis by (auto simp: push_elem_def)
next
  case True
  obtain es where es: "st = replicate k ''..'' @ es" "\<forall>e \<in> set es. name e" "root \<longrightarrow> k = 0"
    using assms(1) by (auto simp: stack_def)
  show ?thesis
  proof (cases "es = []")
    case False
    then have "stack root k (butlast st)" using es by (auto simp: stack_def butlast_append dest: in_set_butlastD)
    moreover have "last st \<noteq> ''..''" using es False by (auto simp: name_def)
    ultimately show ?thesis using True assms(1) es False by (auto simp: push_elem_def)
  next
    case e: True
    then have "stack root (if root then 0 else Suc k) (if root then st else st @ [''..''])"
      using es by (auto simp: stack_def replicate_append_same)
    moreover have "st \<noteq> [] \<Longrightarrow> last st = ''..''" using es e by (simp add: last_replicate)
    ultimately show ?thesis using True assms(1) unfolding push_elem_def by auto
  qed
qed

lemma foldl_push_stack:
  "stack root k st \<Longrightarrow> \<forall>e \<in> set es. e \<noteq> [] \<and> CHR ''/'' \<notin> set e \<Longrightarrow> \<exists>k'. stack root k' (foldl (push_elem root) st es)"
proof (induction es arbitrary: st k)
  case (Cons e es)
  obtain k' where "stack root k' (push_elem root st e)" using push_elem_stack [OF Cons.prems(1)] Cons.prems(2) by auto
  with Cons.IH Cons.prems(2) show ?case by simp
qed auto

lemma foldl_push_id:
  assumes "stack root k st"
  shows "foldl (push_elem root) [] st = st"
proof -
  obtain es where es: "st = replicate k ''..'' @ es" "\<forall>e \<in> set es. name e" "root \<longrightarrow> k = 0"
    using assms by (auto simp: stack_def)
  have "foldl (push_elem root) xs es = xs @ es" for xs
    using es(2) by (induction es arbitrary: xs) (auto simp: push_elem_def name_def)
  moreover have "foldl (push_elem root) [] (replicate k ''..'') = replicate k ''..''"
    using es(3)
  proof (induction k)
    case (Suc k)
    have "replicate (Suc k) ''..'' = replicate k ''..'' @ [''..'']" by (simp add: replicate_append_same)
    with Suc push_dots [of k] show ?case by (cases root) (simp_all del: replicate.simps)
  qed simp
  ultimately show ?thesis unfolding es(1) by simp
qed

lemma clean_path_stack:
  obtains k st where "stack (s \<noteq> [] \<and> hd s = CHR ''/'') k st" "st = foldl (push_elem (s \<noteq> [] \<and> hd s = CHR ''/'')) [] (elems s)"
proof -
  have "stack (s \<noteq> [] \<and> hd s = CHR ''/'') 0 []" by (simp add: stack_def)
  from foldl_push_stack [OF this, of "elems s"] elems_shape that show thesis by blast
qed

lemma clean_path_facts:
  "clean_path (clean_path s) = clean_path s"
  "s \<noteq> [] \<Longrightarrow> hd s = CHR ''/'' \<Longrightarrow> hd (clean_path s) = CHR ''/'' \<and> ''..'' \<notin> set (elems (clean_path s))"
proof -
  let ?root = "s \<noteq> [] \<and> hd s = CHR ''/''"
  obtain k st where st: "stack ?root k st" "st = foldl (push_elem ?root) [] (elems s)" by (rule clean_path_stack)
  have c: "clean_path s = (if render ?root st = [] then ''.'' else render ?root st)"
    by (simp add: clean_path_def Let_def st(2))
  have ro: "render ?root st \<noteq> [] \<Longrightarrow> (hd (render ?root st) = CHR ''/'') = ?root"
  proof -
    assume ne: "render ?root st \<noteq> []"
    show ?thesis
    proof (cases ?root)
      case False
      then have "join st \<noteq> []" using ne by (simp add: render_def)
      then obtain e es where es: "st = e # es" by (cases st) auto
      then have "e \<noteq> []" "CHR ''/'' \<notin> set e" using stack_elem [OF st(1), of e] by simp_all
      with es have "hd (join st) \<noteq> CHR ''/''" by (cases es; cases e) auto
      with False show ?thesis by (auto simp: render_def)
    qed (simp add: render_def)
  qed
  show "clean_path (clean_path s) = clean_path s"
  proof (cases "render ?root st = []")
    case True
    then show ?thesis by (simp add: c) (simp add: clean_path_def push_elem_def render_def)
  next
    case False
    then show ?thesis
      using ro foldl_push_id [OF st(1)] elems_render [OF st(1)] unfolding c by (simp add: clean_path_def Let_def)
  qed
  assume root: "s \<noteq> []" "hd s = CHR ''/''"
  then have "k = 0" using st(1) by (auto simp: stack_def)
  then have "''..'' \<notin> set st" using st(1) by (auto simp: stack_def name_def)
  then show "hd (clean_path s) = CHR ''/'' \<and> ''..'' \<notin> set (elems (clean_path s))"
    using root elems_render [OF st(1)] unfolding c by (simp add: render_def)
qed

lemma elems_set: "e \<in> set (elems s) \<Longrightarrow> set e \<subseteq> set s"
proof (induction s rule: elems.induct)
  case (2 c s)
  show ?case
  proof (cases "c = CHR ''/''")
    case False
    then consider "e = takeWhile (\<lambda>c. c \<noteq> CHR ''/'') (c # s)" | "e \<in> set (elems (dropWhile (\<lambda>c. c \<noteq> CHR ''/'') (c # s)))"
      using "2.prems" by auto
    then show ?thesis
    proof cases
      case 1
      then show ?thesis by (auto dest: set_takeWhileD)
    next
      case 2
      from "2.IH"(2) [OF False this] show ?thesis using set_dropWhileD by fast
    qed
  qed (use 2 in auto)
qed simp

lemma push_elem_set: "set (concat (push_elem root st e)) \<subseteq> set (concat st) \<union> set e"
  by (auto simp: push_elem_def dest: in_set_butlastD)

lemma foldl_push_set: "set (concat (foldl (push_elem root) st es)) \<subseteq> set (concat st) \<union> set (concat es)"
proof (induction es arbitrary: st)
  case (Cons e es)
  from Cons [of "push_elem root st e"] push_elem_set [of root st e] show ?case by auto
qed simp

lemma join_set: "set (join st) \<subseteq> {CHR ''/''} \<union> set (concat st)"
  by (induction st rule: join.induct) auto

lemma clean_path_set: "set (clean_path s) \<subseteq> {CHR ''/'', CHR ''.''} \<union> set s"
proof -
  let ?root = "s \<noteq> [] \<and> hd s = CHR ''/''"
  have "set (join (foldl (push_elem ?root) [] (elems s))) \<subseteq> {CHR ''/''} \<union> set s"
    using join_set [of "foldl (push_elem ?root) [] (elems s)"] foldl_push_set [of ?root "[]" "elems s"]
    by (auto dest!: elems_set subsetD)
  then show ?thesis by (auto simp: clean_path_def render_def Let_def split: if_splits)
qed

lemma c_string_length:
  assumes "c_string buf = Some p"
  shows "length p < length buf" "NUL \<notin> set p"
proof -
  have *: "NUL \<in> set buf" "p = takeWhile (\<lambda>c. c \<noteq> NUL) buf" using assms by (auto simp: c_string_def split: if_splits)
  then have "dropWhile (\<lambda>c. c \<noteq> NUL) buf \<noteq> []" by (auto simp: dropWhile_eq_Nil_conv)
  moreover have "length buf = length p + length (dropWhile (\<lambda>c. c \<noteq> NUL) buf)"
    unfolding *(2) length_append [symmetric] takeWhile_dropWhile_id ..
  ultimately show "length p < length buf" by simp
  show "NUL \<notin> set p" using *(2) by (auto dest: set_takeWhileD)
qed

lemma c_string_padded: "NUL \<notin> set s \<Longrightarrow> c_string (s @ replicate (Suc z) NUL) = Some s"
  by (auto simp: c_string_def takeWhile_append)

lemma sanitize_path_correct_aux:
  assumes "NUL \<notin> set input" "input \<noteq> []" "alloc (min (length input) 1024 + 1)"
  shows "\<exists>buf. sanitize_path alloc input = Some (Some buf) \<and> length buf = min (length input) 1024 + 1 \<and>
    c_string buf = Some (clean_path (take 1024 input))"
proof -
  have "NUL \<notin> set (clean_path (take 1024 input))"
    using clean_path_set [of "take 1024 input"] assms(1) by (auto dest: in_set_takeD)
  with sanitize_path_buffer [of alloc input, OF assms(3,2)] c_string_padded show ?thesis by blast
qed

text \<open>
  C28. Cleaning a path is the lexical rule of the interface: for a non-empty C string and a successful
  allocation, \<^verbatim>\<open>sanitize_path\<close> ends without writing outside its buffer of \<open>n + 1\<close> bytes, where \<open>n\<close> is the
  length of the input or the bound 1024, and leaves there a terminated string: the elements of
  the first 1024 bytes, with empty and \<^verbatim>\<open>.\<close> elements dropped, each \<^verbatim>\<open>..\<close> cancelled against the
  element in front of it, dropped at the root, and \<^verbatim>\<open>.\<close> for the empty path.
\<close>

theorem sanitize_path_correct:
  assumes "NUL \<notin> set input" "input \<noteq> []" "alloc (min (length input) 1024 + 1)"
  shows "\<exists>buf. sanitize_path alloc input = Some (Some buf) \<and> length buf = min (length input) 1024 + 1 \<and>
    c_string buf = Some (clean_path (take 1024 input))"
  using assms by (rule sanitize_path_correct_aux)

theorem sanitize_path_correct_witness:
  "\<exists>buf. sanitize_path (\<lambda>n. True) ''a//b/../../../c/.'' = Some (Some buf) \<and> c_string buf = Some ''../c''"
  using sanitize_path_correct [of "''a//b/../../../c/.''" "\<lambda>n. True"]
  by (auto simp: clean_path_def push_elem_def render_def)

text \<open>
  C29. A rooted path cannot climb out of its root: what \<^verbatim>\<open>sanitize_path\<close> makes of a path that starts with
  a slash starts with a slash and has no \<^verbatim>\<open>..\<close> element, and cleaning it once more does not change it.
\<close>

theorem sanitize_no_escape:
  assumes "NUL \<notin> set input" "input \<noteq> []" "hd input = CHR ''/''"
    and "sanitize_path (\<lambda>n. True) input = Some (Some buf)" "c_string buf = Some p"
  shows "hd p = CHR ''/'' \<and> ''..'' \<notin> set (elems p) \<and>
    (\<exists>buf'. sanitize_path (\<lambda>n. True) p = Some (Some buf') \<and> c_string buf' = Some p)"
proof -
  let ?s = "take 1024 input"
  have buf: "length buf = min (length input) 1024 + 1" "c_string buf = Some (clean_path ?s)"
    using sanitize_path_correct_aux [OF assms(1,2), of "\<lambda>n. True"] assms(4) by simp_all
  then have p: "p = clean_path ?s" using assms(5) by simp
  have ne: "?s \<noteq> []" "hd ?s = CHR ''/''" using assms(2,3) by (cases input; simp)+
  note f = clean_path_facts(2) [OF ne]
  have "p \<noteq> []" by (simp add: p clean_path_def Let_def)
  moreover have "NUL \<notin> set p" "length p \<le> 1024"
    using c_string_length [OF assms(5)] buf(1) by simp_all
  ultimately show ?thesis
    using sanitize_path_correct_aux [of p "\<lambda>n. True"] f clean_path_facts(1) [of ?s] by (auto simp: p)
qed

theorem sanitize_no_escape_witness:
  "\<exists>buf. sanitize_path (\<lambda>n. True) ''/../etc/./..//x'' = Some (Some buf) \<and> c_string buf = Some ''/x'' \<and>
     ''..'' \<notin> set (elems ''/x'')"
proof -
  obtain buf where "sanitize_path (\<lambda>n. True) ''/../etc/./..//x'' = Some (Some buf)" "c_string buf = Some ''/x''"
    using sanitize_path_correct_aux [of "''/../etc/./..//x''" "\<lambda>n. True"]
    by (auto simp: clean_path_def push_elem_def render_def)
  with sanitize_no_escape [of "''/../etc/./..//x''" buf "''/x''"] show ?thesis by auto
qed

text \<open>The empty path is the exception: its one-byte buffer holds a dot and no terminator.\<close>

lemma sanitize_path_empty:
  "sanitize_path (\<lambda>n. True) [] = Some (Some ''.'')" "c_string ''.'' = None"
  by (simp_all add: sanitize_path_def c_string_def)

end
