(* ===== verification/Syscall.thy ===== *)
theory Syscall
  imports Memory Rb_Map "HOL-Library.Signed_Division"
begin

unbundle bit_operations_syntax

text \<open>
  The system calls of the user-mode build (\<^verbatim>\<open>syscall.c\<close>), the clock helpers of \<^verbatim>\<open>utils.c\<close> they use and
  the redirection of the standard streams (\<^verbatim>\<open>rv_remap_stdstream\<close> of \<^verbatim>\<open>riscv.c\<close>).

  The host's C library is a parameter: a record of the functions the code calls, over an
  abstract state of the host. A \<^verbatim>\<open>FILE *\<close> is a number.
\<close>

section \<open>The host and the state\<close>

record 'w host =
  fopen :: "'w \<Rightarrow> u8 list \<Rightarrow> string \<Rightarrow> 'w \<times> nat option"
  fclose :: "'w \<Rightarrow> nat \<Rightarrow> 'w \<times> bool"
  fread :: "'w \<Rightarrow> nat \<Rightarrow> nat \<Rightarrow> 'w \<times> u8 list"
  fwrite :: "'w \<Rightarrow> nat \<Rightarrow> u8 list \<Rightarrow> 'w \<times> nat"
  ferror :: "'w \<Rightarrow> nat \<Rightarrow> bool"
  fseek :: "'w \<Rightarrow> nat \<Rightarrow> u64 \<Rightarrow> u32 \<Rightarrow> 'w \<times> bool"
  ftell :: "'w \<Rightarrow> nat \<Rightarrow> u64"
  host_clock :: "'w \<Rightarrow> u64 \<times> u64"
  host_alloc :: "u64 \<Rightarrow> bool"
  host_fileno :: "nat \<Rightarrow> u32"

text \<open>
  The fields of \<^verbatim>\<open>vm_attr_t\<close> the system calls change, the static buffer \<^verbatim>\<open>tmp\<close>, and the host.
  \<^verbatim>\<open>exit_addr\<close>, \<^verbatim>\<open>on_exit\<close>, \<^verbatim>\<open>mem\<close> and \<^verbatim>\<open>mem_size\<close> are fields of the machine.
\<close>

record 'w vm_attr =
  fd_map :: "(u32, nat) map_internal option"
  break_addr :: u32
  exit_code :: u32
  vm_error :: u32
  fd_stdin :: u32
  fd_stdout :: u32
  fd_stderr :: u32
  tmp :: "u8 list"
  world :: 'w

text \<open>A failed assertion, an access outside \<^verbatim>\<open>tmp\<close> or a broken tree end the model's execution.\<close>

datatype 'w sys_result = Sys riscv "'w vm_attr" | Sys_abort | Sys_undefined

abbreviation (input) PREALLOC_SIZE :: nat where "PREALLOC_SIZE \<equiv> 4096"

section \<open>Clocks (utils.c)\<close>

definition get_time_info :: "'w host \<Rightarrow> 'w \<Rightarrow> u32 \<times> u32" where
  "get_time_info h w = (let (sec, nsec) = host_clock h w in (ucast sec, ucast nsec))"

definition rv_gettimeofday :: "'w host \<Rightarrow> 'w \<Rightarrow> u64 \<times> u64" where
  "rv_gettimeofday h w =
    (let (tv_sec, tv_nsec) = get_time_info h w in (scast tv_sec, word_of_int (sint tv_nsec sdiv 1000)))"

definition rv_clock_gettime :: "'w host \<Rightarrow> 'w \<Rightarrow> u64 \<times> u64" where
  "rv_clock_gettime h w = (let (tv_sec, tv_nsec) = get_time_info h w in (scast tv_sec, scast tv_nsec))"

section \<open>File descriptors\<close>

text \<open>\<^verbatim>\<open>for (int i = 3;; ++i)\<close>; counting past the largest \<^verbatim>\<open>int\<close> is undefined.\<close>

function find_free_fd_from :: "(u32, nat) map_internal option \<Rightarrow> nat \<Rightarrow> u32 option" where
  "find_free_fd_from fds i =
    (if i \<ge> 2 ^ 31 then None
     else if map_at_end (map_find fds (of_nat i)) then Some (of_nat i)
     else find_free_fd_from fds (i + 1))"
  by pat_completeness auto
termination by (relation "measure (\<lambda>(fds, i). 2 ^ 31 - i)") auto

declare find_free_fd_from.simps [simp del]

definition find_free_fd :: "'w vm_attr \<Rightarrow> u32 option" where
  "find_free_fd attr = find_free_fd_from (fd_map attr) 3"

definition get_mode_str :: "u32 \<Rightarrow> string option" where
  "get_mode_str flags =
    (let m = flags AND 3 in
     if m = 0 then Some ''rb'' else if m = 1 then Some ''wb'' else if m = 2 then Some ''a+'' else None)"

section \<open>The calls\<close>

abbreviation (input) ret_reg :: "riscv \<Rightarrow> u32 \<Rightarrow> riscv" where
  "ret_reg rv v \<equiv> rv_set_reg rv 10 v"

lemma unat_minus_chunk: "of_nat PREALLOC_SIZE < (count :: u32) \<Longrightarrow> unat (count - of_nat PREALLOC_SIZE) = unat count - PREALLOC_SIZE"
  by (simp add: unat_sub word_less_nat_alt word_le_nat_alt)

lemma chunk_less: "of_nat PREALLOC_SIZE < (count :: u32) \<Longrightarrow> PREALLOC_SIZE < unat count"
  by (simp add: word_less_nat_alt)

text \<open>
  The loop over full buffers: what is left to write and what has been written, or \<^const>\<open>None\<close> on an
  error of the host.
\<close>

function write_loop :: "'w host \<Rightarrow> riscv \<Rightarrow> nat \<Rightarrow> u32 \<Rightarrow> 'w vm_attr \<Rightarrow> u32 \<Rightarrow> u32 \<Rightarrow> 'w vm_attr \<times> (u32 \<times> u32) option" where
  "write_loop h rv handle buffer attr count total_write =
    (if count > of_nat PREALLOC_SIZE then
       (let buf = memory_read (mem_base rv) (buffer + total_write) (of_nat PREALLOC_SIZE);
            (w, written) = fwrite h (world attr) handle buf;
            attr = attr\<lparr>tmp := buf, world := w\<rparr>
        in if written \<noteq> PREALLOC_SIZE \<and> ferror h w handle then (attr, None)
           else write_loop h rv handle buffer attr (count - of_nat PREALLOC_SIZE) (total_write + of_nat written))
     else (attr, Some (count, total_write)))"
  by pat_completeness auto
termination
  by (relation "measure (\<lambda>(h, rv, handle, buffer, attr, count, total). unat count)")
    (auto simp: unat_minus_chunk [simplified] dest: chunk_less [simplified])

declare write_loop.simps [simp del]

definition syscall_write :: "'w host \<Rightarrow> riscv \<Rightarrow> 'w vm_attr \<Rightarrow> 'w sys_result" where
  "syscall_write h rv attr =
    (let fd = rv_get_reg rv 10; buffer = rv_get_reg rv 11; count = rv_get_reg rv 12;
         it = map_find (fd_map attr) fd
     in if map_at_end it then Sys (ret_reg rv (- 1)) attr
        else case map_iter_value (fd_map attr) it of
          None \<Rightarrow> Sys_undefined
        | Some handle \<Rightarrow>
            (case write_loop h rv handle buffer attr count 0 of
               (attr, None) \<Rightarrow> Sys (ret_reg rv (- 1)) attr
             | (attr, Some (count, total_write)) \<Rightarrow>
                 (let buf = memory_read (mem_base rv) (buffer + total_write) count;
                      (w, written) = fwrite h (world attr) handle buf;
                      attr = attr\<lparr>tmp := buf @ drop (length buf) (tmp attr), world := w\<rparr>
                  in if written \<noteq> unat count \<and> ferror h w handle then Sys (ret_reg rv (- 1)) attr
                     else let total_write = total_write + of_nat written in
                       if total_write \<noteq> rv_get_reg rv 12 then Sys_abort
                       else Sys (ret_reg rv total_write) attr)))"

definition rv_halt :: "riscv \<Rightarrow> riscv" where
  "rv_halt rv = rv\<lparr>halt := True\<rparr>"

definition syscall_exit :: "riscv \<Rightarrow> 'w vm_attr \<Rightarrow> 'w sys_result" where
  "syscall_exit rv attr = (let rv = rv_halt rv in Sys rv (attr\<lparr>exit_code := rv_get_reg rv 10\<rparr>))"

definition syscall_brk :: "riscv \<Rightarrow> 'w vm_attr \<Rightarrow> 'w sys_result" where
  "syscall_brk rv attr =
    (let increment = rv_get_reg rv 10;
         attr = (if increment \<noteq> 0 then attr\<lparr>break_addr := increment\<rparr> else attr)
     in Sys (ret_reg rv (break_addr attr)) attr)"

definition syscall_gettimeofday :: "'w host \<Rightarrow> riscv \<Rightarrow> 'w vm_attr \<Rightarrow> 'w sys_result" where
  "syscall_gettimeofday h rv attr =
    (let tv = rv_get_reg rv 10;
         rv = (if tv \<noteq> 0 then
                 let (tv_sec, tv_usec) = rv_gettimeofday h (world attr);
                     rv = rv\<lparr>mem_base := memory_write_w (mem_base rv) (tv + 0) (ucast tv_sec)\<rparr>
                 in rv\<lparr>mem_base := memory_write_w (mem_base rv) (tv + 8) (ucast tv_usec)\<rparr>
               else rv)
     in Sys (ret_reg rv 0) attr)"

abbreviation (input) CLOCK_REALTIME :: u32 where "CLOCK_REALTIME \<equiv> 0"
abbreviation (input) CLOCK_MONOTONIC :: u32 where "CLOCK_MONOTONIC \<equiv> 1"

definition syscall_clock_gettime :: "'w host \<Rightarrow> riscv \<Rightarrow> 'w vm_attr \<Rightarrow> 'w sys_result" where
  "syscall_clock_gettime h rv attr =
    (let id = rv_get_reg rv 10; tp = rv_get_reg rv 11 in
     if id \<noteq> CLOCK_REALTIME \<and> id \<noteq> CLOCK_MONOTONIC then Sys (ret_reg rv (- 1)) attr
     else let
         rv = (if tp \<noteq> 0 then
                 let (tv_sec, tv_nsec) = rv_clock_gettime h (world attr);
                     rv = rv\<lparr>mem_base := memory_write_w (mem_base rv) (tp + 0) (ucast tv_sec)\<rparr>
                 in rv\<lparr>mem_base := memory_write_w (mem_base rv) (tp + 8) (ucast tv_nsec)\<rparr>
               else rv)
     in Sys (ret_reg rv 0) attr)"

definition syscall_close :: "'w host \<Rightarrow> riscv \<Rightarrow> 'w vm_attr \<Rightarrow> 'w sys_result" where
  "syscall_close h rv attr =
    (let fd = rv_get_reg rv 10 in
     if fd < 3 \<and> \<not> on_exit rv \<and> exit_addr rv \<noteq> 0 then Sys (ret_reg rv (- 1)) attr
     else if fd \<ge> 3 then
       (let it = map_find (fd_map attr) fd in
        if \<not> map_at_end it then
          (case map_iter_value (fd_map attr) it of
             None \<Rightarrow> Sys_undefined
           | Some handle \<Rightarrow>
               (let (w, failed) = fclose h (world attr) handle; attr = attr\<lparr>world := w\<rparr> in
                if failed then Sys (ret_reg rv (- 1)) attr
                else case map_erase (fd_map attr) it of
                  None \<Rightarrow> Sys_undefined
                | Some (fds, _) \<Rightarrow> Sys (ret_reg (ret_reg rv 0) 0) (attr\<lparr>fd_map := fds\<rparr>)))
        else Sys (ret_reg rv 0) attr)
     else Sys (ret_reg rv 0) attr)"

text \<open>\<^verbatim>\<open>offset\<close> is an unsigned 32-bit number that becomes the \<^verbatim>\<open>long\<close> argument of \<^verbatim>\<open>fseek\<close>.\<close>

definition syscall_lseek :: "'w host \<Rightarrow> riscv \<Rightarrow> 'w vm_attr \<Rightarrow> 'w sys_result" where
  "syscall_lseek h rv attr =
    (let fd = rv_get_reg rv 10; offset = rv_get_reg rv 11; whence = rv_get_reg rv 12;
         it = map_find (fd_map attr) fd
     in if map_at_end it then Sys (ret_reg rv (- 1)) attr
        else case map_iter_value (fd_map attr) it of
          None \<Rightarrow> Sys_undefined
        | Some handle \<Rightarrow>
            (let (w, failed) = fseek h (world attr) handle (ucast offset) whence; attr = attr\<lparr>world := w\<rparr> in
             if failed then Sys (ret_reg rv (- 1)) attr
             else let pos = ftell h w handle in
               if pos = - 1 then Sys (ret_reg rv (- 1)) attr
               else Sys (ret_reg rv (ucast pos)) attr))"

text \<open>
  Bytes from the host go to \<^verbatim>\<open>tmp\<close> first: more of them than its size are a buffer overflow. A
  result of the loop is the rest to read and what has been read, or the failure of a write to
  guest memory.
\<close>

datatype ('s, 'w) read_result = Read_on 's "'w vm_attr" u32 u32 | Read_fault 's "'w vm_attr" | Read_overflow

definition read_chunk :: "'w host \<Rightarrow> nat \<Rightarrow> u32 \<Rightarrow> nat \<Rightarrow> riscv \<Rightarrow> 'w vm_attr \<Rightarrow> (riscv \<times> 'w vm_attr \<times> nat \<times> bool) option" where
  "read_chunk h handle addr n rv attr =
    (let (w, bs) = fread h (world attr) handle n; r = length bs in
     if r > PREALLOC_SIZE then None
     else let attr = attr\<lparr>tmp := bs @ drop r (tmp attr), world := w\<rparr>;
              (m, ok) = memory_write (mem_size rv) (mem_base rv) addr bs (of_nat r)
          in Some (rv\<lparr>mem_base := m\<rparr>, attr, r, ok))"

text \<open>\<^verbatim>\<open>fread\<close> returns at most what it is asked for; a loop that would get more stops as an overflow.\<close>

function read_loop :: "'w host \<Rightarrow> nat \<Rightarrow> u32 \<Rightarrow> riscv \<Rightarrow> 'w vm_attr \<Rightarrow> u32 \<Rightarrow> u32 \<Rightarrow> (riscv, 'w) read_result" where
  "read_loop h handle buf rv attr count total_read =
    (if count > of_nat PREALLOC_SIZE then
       (case read_chunk h handle (buf + total_read) PREALLOC_SIZE rv attr of
          None \<Rightarrow> Read_overflow
        | Some (rv, attr, r, ok) \<Rightarrow>
            (if \<not> ok then Read_fault rv attr
             else let count' = count - of_nat r; total_read' = total_read + of_nat r in
               if r \<noteq> PREALLOC_SIZE then Read_on rv attr count' total_read'
               else read_loop h handle buf rv attr count' total_read'))
     else Read_on rv attr count total_read)"
  by pat_completeness auto
termination
  by (relation "measure (\<lambda>(h, handle, buf, rv, attr, count, total). unat count)")
    (auto simp: unat_minus_chunk [simplified] dest: chunk_less [simplified])

declare read_loop.simps [simp del]

definition syscall_read :: "'w host \<Rightarrow> riscv \<Rightarrow> 'w vm_attr \<Rightarrow> 'w sys_result" where
  "syscall_read h rv attr =
    (let fd = rv_get_reg rv 10; buf = rv_get_reg rv 11; count = rv_get_reg rv 12;
         it = map_find (fd_map attr) fd
     in if map_at_end it then Sys (ret_reg rv (- 1)) attr
        else case map_iter_value (fd_map attr) it of
          None \<Rightarrow> Sys_undefined
        | Some handle \<Rightarrow>
            (case read_loop h handle buf rv attr count 0 of
               Read_overflow \<Rightarrow> Sys_undefined
             | Read_fault rv attr \<Rightarrow> Sys (ret_reg rv (- 1)) attr
             | Read_on rv attr count total_read \<Rightarrow>
                 (case read_chunk h handle (buf + total_read) (unat count) rv attr of
                    None \<Rightarrow> Sys_undefined
                  | Some (rv, attr, r, ok) \<Rightarrow>
                      (if \<not> ok then Sys (ret_reg rv (- 1)) attr
                       else let total_read = total_read + of_nat r in
                         if total_read \<noteq> rv_get_reg rv 12 \<and> ferror h (world attr) handle
                         then Sys (ret_reg rv (- 1)) attr
                         else Sys (ret_reg rv total_read) attr))))"

definition syscall_fstat :: "riscv \<Rightarrow> 'w vm_attr \<Rightarrow> 'w sys_result" where
  "syscall_fstat rv attr = Sys rv attr"

text \<open>\<^verbatim>\<open>strnlen\<close> on guest memory.\<close>

definition guest_strnlen :: "memory \<Rightarrow> nat \<Rightarrow> nat \<Rightarrow> nat" where
  "guest_strnlen m a max_len = length (takeWhile (\<lambda>i. m (a + i) \<noteq> 0) [0..<max_len])"

definition syscall_open :: "'w host \<Rightarrow> riscv \<Rightarrow> 'w vm_attr \<Rightarrow> 'w sys_result" where
  "syscall_open h rv attr =
    (let name = rv_get_reg rv 10; flags = rv_get_reg rv 11 in
     if ucast name \<ge> mem_size rv then Sys (ret_reg rv (- 1)) attr
     else
       (let max_len = unat (mem_size rv - ucast name);
            name_len = guest_strnlen (mem_base rv) (unat name) max_len
        in if name_len = max_len then Sys (ret_reg rv (- 1)) attr
           else if \<not> host_alloc h (of_nat name_len + 1) then Sys (ret_reg rv (- 1)) attr
           else let name_str = memory_read (mem_base rv) name (of_nat name_len) in
           (case get_mode_str flags of
              None \<Rightarrow> Sys (ret_reg rv (- 1)) attr
            | Some mode_str \<Rightarrow>
                (case fopen h (world attr) name_str mode_str of
                   (w, None) \<Rightarrow> Sys (ret_reg rv (- 1)) (attr\<lparr>world := w\<rparr>)
                 | (w, Some handle) \<Rightarrow>
                     (let attr = attr\<lparr>world := w\<rparr> in
                      case find_free_fd attr of
                        None \<Rightarrow> Sys_undefined
                      | Some fd \<Rightarrow>
                          (case map_insert (host_alloc h) (fd_map attr) fd handle of
                             None \<Rightarrow> Sys_undefined
                           | Some (fds, _) \<Rightarrow> Sys (ret_reg rv fd) (attr\<lparr>fd_map := fds\<rparr>)))))))"

section \<open>Dispatch\<close>

definition syscall_dispatch :: "'w host \<Rightarrow> riscv \<Rightarrow> 'w vm_attr \<Rightarrow> 'w sys_result" where
  "syscall_dispatch h rv attr =
    (let syscall = rv_get_reg rv 17 in
     if syscall = 57 then syscall_close h rv attr
     else if syscall = 62 then syscall_lseek h rv attr
     else if syscall = 63 then syscall_read h rv attr
     else if syscall = 64 then syscall_write h rv attr
     else if syscall = 80 then syscall_fstat rv attr
     else if syscall = 93 then syscall_exit rv attr
     else if syscall = 169 then syscall_gettimeofday h rv attr
     else if syscall = 214 then syscall_brk rv attr
     else if syscall = 403 then syscall_clock_gettime h rv attr
     else if syscall = 1024 then syscall_open h rv attr
     else Sys rv attr)"

definition user_syscall_handler :: "'w host \<Rightarrow> riscv \<Rightarrow> 'w vm_attr \<Rightarrow> 'w sys_result" where
  "user_syscall_handler h rv attr =
    (case syscall_dispatch h rv attr of
       Sys rv attr \<Rightarrow> Sys rv (attr\<lparr>vm_error := rv_get_reg rv 10\<rparr>)
     | r \<Rightarrow> r)"

section \<open>Standard streams (riscv.c)\<close>

text \<open>
  \<^verbatim>\<open>rv_remap_stdstream\<close>: a list of descriptors and streams, of which only 0, 1 and 2 count. \<^const>\<open>None\<close> is
  the failed assertion on a stream without a descriptor; the log stream is not modelled.
\<close>

fun rv_remap_stdstream :: "'w host \<Rightarrow> (u32 \<times> nat option) list \<Rightarrow> 'w vm_attr \<Rightarrow> 'w vm_attr option" where
  "rv_remap_stdstream h [] attr = Some attr"
| "rv_remap_stdstream h ((fd, file) # fsp) attr =
    (case file of
       None \<Rightarrow> rv_remap_stdstream h fsp attr
     | Some file \<Rightarrow>
         (if fd \<noteq> 0 \<and> fd \<noteq> 1 \<and> fd \<noteq> 2 then rv_remap_stdstream h fsp attr
          else do {
            let it = map_find (fd_map attr) fd;
            (fds, _) \<leftarrow> (if \<not> map_at_end it then map_erase (fd_map attr) it else Some (fd_map attr, it));
            (fds, _) \<leftarrow> map_insert (host_alloc h) fds fd file;
            let attr = attr\<lparr>fd_map := fds\<rparr>;
            let new_fd = host_fileno h file;
            if new_fd = - 1 then None
            else rv_remap_stdstream h fsp
              (if fd = 0 then attr\<lparr>fd_stdin := new_fd\<rparr>
               else if fd = 1 then attr\<lparr>fd_stdout := new_fd\<rparr>
               else attr\<lparr>fd_stderr := new_fd\<rparr>) }))"

end
