(* ===== verification/Syscall_Correct.thy ===== *)
theory Syscall_Correct
  imports Syscall Rb_Props Mem_Correct Chain Sample
begin

unbundle bit_operations_syntax

text \<open>
  The system calls against what a guest expects of them: which descriptors are handed out, which
  bytes reach a file and which come from it, and what a call can change at all. What a property
  needs of the host's library is a hypothesis; a concrete host at the end satisfies them.
\<close>

section \<open>Registers and memory\<close>

lemma ret_reg_simps [simp]:
  "rv_set_reg rv 10 v = set_X 10 v rv"
  "rv_get_reg rv 10 = X rv 10" "rv_get_reg rv 11 = X rv 11" "rv_get_reg rv 12 = X rv 12" "rv_get_reg rv 17 = X rv 17"
  by (simp_all add: rv_set_reg_def rv_get_reg_def)

lemma memcpy_from_append: "memcpy_from m a (n + k) = memcpy_from m a n @ memcpy_from m (a + n) k"
  by (rule nth_equalityI) (auto simp: nth_append)

lemma memcpy_to_Nil [simp]: "memcpy_to m a [] = m"
  by (rule ext) (auto simp: memcpy_to_def)

lemma unat_add_bound: "unat (a :: u32) + unat b < 2 ^ 32 \<Longrightarrow> unat (a + b) = unat a + unat b"
  by (simp add: unat_word_ariths)

lemma streams_only:
  "a1 = a\<lparr>tmp := tmp a1, world := world a1\<rparr> \<Longrightarrow> fd_map a1 = fd_map a"
  "a1 = a\<lparr>tmp := tmp a1, world := world a1\<rparr> \<Longrightarrow> a2 = a1\<lparr>tmp := tmp a2, world := world a2\<rparr> \<Longrightarrow>
    a2 = a\<lparr>tmp := tmp a2, world := world a2\<rparr>"
  subgoal by (drule arg_cong [where f = fd_map]) simp
  subgoal premises p by (subst p(2), subst p(1)) simp
  done

section \<open>Writing\<close>

text \<open>A host that accepts every byte; \<open>content\<close>: what has been written to a stream.\<close>

definition appends :: "'w host \<Rightarrow> ('w \<Rightarrow> nat \<Rightarrow> u8 list) \<Rightarrow> bool" where
  "appends h content \<longleftrightarrow> (\<forall>w f bs. snd (fwrite h w f bs) = length bs \<and>
     content (fst (fwrite h w f bs)) = (content w)(f := content w f @ bs))"

lemma write_loop_appends:
  assumes "appends h content" "unat buffer + unat tot + unat count \<le> 2 ^ 32"
  shows "\<exists>attr' c. write_loop h rv f buffer attr count tot = (attr', Some (c, tot + (count - c))) \<and>
    unat c \<le> 4096 \<and> unat c \<le> unat count \<and>
    content (world attr') = (content (world attr))(f := content (world attr) f @
      memcpy_from (mem_base rv) (unat buffer + unat tot) (unat count - unat c)) \<and>
    attr' = attr\<lparr>tmp := tmp attr', world := world attr'\<rparr>"
  using assms
proof (induction h rv f buffer attr count tot rule: write_loop.induct)
  case (1 h rv f buffer attr count tot)
  show ?case
  proof (cases "of_nat 4096 < count")
    case False
    then have "unat count \<le> 4096" by (simp add: word_less_nat_alt)
    with False show ?thesis by (intro exI [of _ attr] exI [of _ count]) (simp add: write_loop.simps [of h rv f buffer attr count tot])
  next
    case True
    let ?buf = "memory_read (mem_base rv) (buffer + tot) (of_nat 4096)"
    have gt: "4096 < unat count" using chunk_less True by blast
    have cnt: "unat (count - of_nat 4096) = unat count - 4096" by (rule unat_minus_chunk [OF True])
    have tot: "unat (tot + of_nat 4096) = unat tot + 4096" "unat (buffer + tot) = unat buffer + unat tot"
      using unat_add_bound [of tot "of_nat 4096"] unat_add_bound [of buffer tot] gt "1.prems"(2) by simp_all
    have buf: "?buf = memcpy_from (mem_base rv) (unat buffer + unat tot) 4096" by (simp add: memory_read_def tot(2))
    obtain w where w: "fwrite h (world attr) f ?buf = (w, 4096)"
      "content w = (content (world attr))(f := content (world attr) f @ ?buf)"
      using "1.prems"(1) unfolding appends_def buf by (metis memcpy_from_simps(1) prod.collapse)
    let ?attr = "attr\<lparr>tmp := ?buf, world := w\<rparr>"
    have step: "write_loop h rv f buffer attr count tot = write_loop h rv f buffer ?attr (count - of_nat 4096) (tot + of_nat 4096)"
      using True w(1) by (subst write_loop.simps) simp
    have b: "unat buffer + unat (tot + of_nat 4096) + unat (count - of_nat 4096) \<le> 2 ^ 32"
      using "1.prems"(2) gt unfolding cnt tot(1) by simp
    have nf: "\<not> (4096 \<noteq> (4096 :: nat) \<and> ferror h w f)" by simp
    obtain attr' c where ih: "write_loop h rv f buffer ?attr (count - of_nat 4096) (tot + of_nat 4096) =
        (attr', Some (c, tot + of_nat 4096 + (count - of_nat 4096 - c)))" "unat c \<le> 4096" "unat c \<le> unat (count - of_nat 4096)"
      "content (world attr') = (content (world ?attr))(f := content (world ?attr) f @
        memcpy_from (mem_base rv) (unat buffer + unat (tot + of_nat 4096)) (unat (count - of_nat 4096) - unat c))"
      "attr' = ?attr\<lparr>tmp := tmp attr', world := world attr'\<rparr>"
      using "1.IH" [OF True refl refl w(1) [symmetric] refl nf "1.prems"(1) b] by blast
    have c: "unat count - unat c = 4096 + (unat count - 4096 - unat c)" using ih(3) gt cnt by simp
    have "content (world attr') = (content (world attr))(f := content (world attr) f @
        memcpy_from (mem_base rv) (unat buffer + unat tot) (unat count - unat c))"
      unfolding ih(4) c memcpy_from_append cnt tot(1) by (simp add: w(2) buf [simplified] add.assoc)
    moreover have "attr' = attr\<lparr>tmp := tmp attr', world := world attr'\<rparr>" using ih(5) by simp
    moreover have "unat c \<le> unat count" using ih(3) cnt by simp
    ultimately show ?thesis using ih(1,2) unfolding step by (intro exI [of _ attr'] exI [of _ c]) simp
  qed
qed

lemma find_in_table:
  assumes "map_ok m" "comparator m = map_cmp_int" "entries m fd = Some f"
  shows "map_find (Some m) fd = Some fd" "map_iter_value (Some m) (Some fd) = Some f"
  using int_keys.find_ok [OF assms(1,2), of fd] assms(3) by simp_all

lemma write_out_aux:
  assumes h: "appends h content" and tab: "fd_map attr = Some m" "map_ok m" "comparator m = map_cmp_int"
    and "entries m (X rv 10) = Some f" "unat (X rv 11) + unat (X rv 12) \<le> 2 ^ 32"
  shows "\<exists>attr'. syscall_write h rv attr = Sys (set_X 10 (X rv 12) rv) attr' \<and>
    content (world attr') = (content (world attr))(f := content (world attr) f @
      memcpy_from (mem_base rv) (unat (X rv 11)) (unat (X rv 12))) \<and> fd_map attr' = fd_map attr"
proof -
  note fd = find_in_table [OF tab(2,3) assms(5)]
  let ?b = "X rv 11" and ?n = "X rv 12"
  have "unat ?b + unat (0 :: u32) + unat ?n \<le> 2 ^ 32" using assms(6) by simp
  from write_loop_appends [OF h this, of rv f attr] obtain attr1 c where
    wl: "write_loop h rv f ?b attr ?n 0 = (attr1, Some (c, ?n - c))" and c: "unat c \<le> 4096" "unat c \<le> unat ?n"
    and ct: "content (world attr1) = (content (world attr))(f := content (world attr) f @
      memcpy_from (mem_base rv) (unat ?b) (unat ?n - unat c))"
    and a1: "attr1 = attr\<lparr>tmp := tmp attr1, world := world attr1\<rparr>" by auto
  have nc: "unat (?n - c) = unat ?n - unat c" using c(2) by (simp add: unat_sub word_le_nat_alt)
  have rest: "memory_read (mem_base rv) (?b + (?n - c)) c = memcpy_from (mem_base rv) (unat ?b + (unat ?n - unat c)) (unat c)"
  proof (cases "unat c = 0")
    case False
    then have "unat (?b + (?n - c)) = unat ?b + (unat ?n - unat c)"
      using unat_add_bound [of ?b "?n - c"] assms(6) c(2) unfolding nc by simp
    then show ?thesis by (simp add: memory_read_def)
  qed (simp add: memory_read_def)
  let ?buf = "memory_read (mem_base rv) (?b + (?n - c)) c"
  obtain w where w: "fwrite h (world attr1) f ?buf = (w, unat c)"
    "content w = (content (world attr1))(f := content (world attr1) f @ ?buf)"
    using h unfolding appends_def rest by (metis memcpy_from_simps(1) prod.collapse)
  have "content w = (content (world attr))(f := content (world attr) f @ memcpy_from (mem_base rv) (unat ?b) (unat ?n))"
    using memcpy_from_append [of "mem_base rv" "unat ?b" "unat ?n - unat c" "unat c"] c(2)
    unfolding w(2) ct rest by (simp del: memcpy_from_simps)
  moreover have "fd_map attr1 = fd_map attr" by (rule streams_only(1) [OF a1])
  ultimately show ?thesis using fd wl w(1) tab(1)
    by (auto simp: syscall_write_def Let_def map_at_end_def)
qed

section \<open>Reading\<close>

text \<open>A host file at some position: \<open>content\<close> is what is still to be read.\<close>

definition supplies :: "'w host \<Rightarrow> ('w \<Rightarrow> nat \<Rightarrow> u8 list) \<Rightarrow> bool" where
  "supplies h content \<longleftrightarrow> (\<forall>w f n. snd (fread h w f n) = take n (content w f) \<and> \<not> ferror h w f \<and>
     content (fst (fread h w f n)) = (content w)(f := drop n (content w f)))"

lemma memory_write_ok:
  assumes "unat addr < unat ms" "unat addr + length bs \<le> unat ms" "length bs < 2 ^ 32"
  shows "memory_write ms m addr bs (of_nat (length bs)) = (memcpy_to m (unat addr) bs, True)"
proof -
  have "unat (of_nat (length bs) :: u32) = length bs"
    using assms(3) by (simp add: unat_of_nat take_bit_nat_eq_self)
  with in_ram [where a = addr and n = "of_nat (length bs)" and ms = ms] assms(1,2) show ?thesis by (auto simp: memory_write_def)
qed

lemma read_chunk_ok:
  assumes "supplies h content" "n \<le> 4096 \<or> length (content (world attr) f) \<le> 4096"
    and "unat addr < unat (mem_size rv)" "unat addr + n \<le> unat (mem_size rv)"
  shows "\<exists>attr'. read_chunk h f addr n rv attr =
      Some (rv\<lparr>mem_base := memcpy_to (mem_base rv) (unat addr) (take n (content (world attr) f))\<rparr>, attr',
        min n (length (content (world attr) f)), True) \<and>
    content (world attr') = (content (world attr))(f := drop n (content (world attr) f)) \<and>
    attr' = attr\<lparr>tmp := tmp attr', world := world attr'\<rparr>"
proof -
  let ?cs = "content (world attr) f"
  obtain w where w: "fread h (world attr) f n = (w, take n ?cs)" "content w = (content (world attr))(f := drop n ?cs)"
    using assms(1) unfolding supplies_def by (metis prod.collapse)
  have len: "\<not> 4096 < length (take n ?cs)" "unat addr + length (take n ?cs) \<le> unat (mem_size rv)"
    using assms(2,4) by auto
  then have "length (take n ?cs) \<le> 4096" by linarith
  then have "length (take n ?cs) < 2 ^ 32" by (rule le_less_trans) simp
  note mw = memory_write_ok [OF assms(3) len(2) this, of "mem_base rv"]
  let ?attr = "attr\<lparr>tmp := take n ?cs @ drop (length (take n ?cs)) (tmp attr), world := w\<rparr>"
  have "read_chunk h f addr n rv attr = Some (rv\<lparr>mem_base := memcpy_to (mem_base rv) (unat addr) (take n ?cs)\<rparr>, ?attr,
      length (take n ?cs), True)"
    unfolding read_chunk_def Let_def w(1) case_prod_conv using len(1) mw by simp
  then show ?thesis using w(2) by (intro exI [of _ ?attr]) (simp add: min.commute)
qed

lemma read_loop_supplies:
  assumes "supplies h content" "0 < unat count" "unat buf + unat tot + unat count \<le> unat (mem_size rv)" "unat (mem_size rv) \<le> 2 ^ 32"
  shows "\<exists>k attr'. read_loop h f buf rv attr count tot =
      Read_on (rv\<lparr>mem_base := memcpy_to (mem_base rv) (unat buf + unat tot) (take k (content (world attr) f))\<rparr>) attr'
        (count - of_nat k) (tot + of_nat k) \<and>
    k < unat count \<and> k \<le> length (content (world attr) f) \<and>
    content (world attr') = (content (world attr))(f := drop k (content (world attr) f)) \<and>
    attr' = attr\<lparr>tmp := tmp attr', world := world attr'\<rparr> \<and>
    (unat count - k \<le> 4096 \<or> k = length (content (world attr) f))"
  using assms
proof (induction h f buf rv attr count tot rule: read_loop.induct)
  case (1 h f buf rv attr count tot)
  let ?cs = "content (world attr) f"
  show ?case
  proof (cases "of_nat 4096 < count")
    case False
    then have "unat count \<le> 4096" by (simp add: word_less_nat_alt)
    with False "1.prems"(2) show ?thesis
      by (intro exI [of _ 0] exI [of _ attr]) (simp add: read_loop.simps [of h f buf rv attr count tot])
  next
    case True
    have gt: "4096 < unat count" using chunk_less True by blast
    have cnt: "unat (count - of_nat 4096) = unat count - 4096" by (rule unat_minus_chunk [OF True])
    have tot: "unat (tot + of_nat 4096) = unat tot + 4096" "unat (buf + tot) = unat buf + unat tot"
      using unat_add_bound [of tot "of_nat 4096"] unat_add_bound [of buf tot] gt "1.prems"(3,4) by simp_all
    have ad: "unat (buf + tot) < unat (mem_size rv)" "unat (buf + tot) + 4096 \<le> unat (mem_size rv)"
      using gt "1.prems"(3) unfolding tot(2) by simp_all
    let ?rv = "rv\<lparr>mem_base := memcpy_to (mem_base rv) (unat buf + unat tot) (take 4096 ?cs)\<rparr>"
    obtain attr1 where ch: "read_chunk h f (buf + tot) 4096 rv attr = Some (?rv, attr1, min 4096 (length ?cs), True)"
      "content (world attr1) = (content (world attr))(f := drop 4096 ?cs)" "attr1 = attr\<lparr>tmp := tmp attr1, world := world attr1\<rparr>"
      using read_chunk_ok [OF "1.prems"(1) _ ad, of attr f] unfolding tot(2) by auto
    show ?thesis
    proof (cases "4096 \<le> length ?cs")
      case False
      then have "read_loop h f buf rv attr count tot = Read_on ?rv attr1 (count - of_nat (length ?cs)) (tot + of_nat (length ?cs))"
        using True ch(1) by (subst read_loop.simps) simp
      with False gt ch(2,3) show ?thesis by (intro exI [of _ "length ?cs"] exI [of _ attr1]) simp
    next
      case le: True
      then have mn: "min 4096 (length ?cs) = 4096" by simp
      have step: "read_loop h f buf rv attr count tot = read_loop h f buf ?rv attr1 (count - of_nat 4096) (tot + of_nat 4096)"
        using True ch(1) mn by (subst read_loop.simps) simp
      have pr: "0 < unat (count - of_nat 4096)" "unat buf + unat (tot + of_nat 4096) + unat (count - of_nat 4096) \<le> unat (mem_size ?rv)"
        "unat (mem_size ?rv) \<le> 2 ^ 32" using gt "1.prems"(3,4) unfolding cnt tot(1) by simp_all
      have tt: "\<not> \<not> True" "\<not> (4096 :: nat) \<noteq> 4096" by simp_all
      obtain k attr' where ih: "read_loop h f buf ?rv attr1 (count - of_nat 4096) (tot + of_nat 4096) =
          Read_on (?rv\<lparr>mem_base := memcpy_to (mem_base ?rv) (unat buf + unat (tot + of_nat 4096)) (take k (content (world attr1) f))\<rparr>) attr'
            (count - of_nat 4096 - of_nat k) (tot + of_nat 4096 + of_nat k)"
        "k < unat (count - of_nat 4096)" "k \<le> length (content (world attr1) f)"
        "content (world attr') = (content (world attr1))(f := drop k (content (world attr1) f))"
        "attr' = attr1\<lparr>tmp := tmp attr', world := world attr'\<rparr>"
        "unat (count - of_nat 4096) - k \<le> 4096 \<or> k = length (content (world attr1) f)"
        using "1.IH" [OF True ch(1) [unfolded mn] refl refl refl tt(1) refl refl tt(2) "1.prems"(1) pr] by blast
      have cs1: "content (world attr1) f = drop 4096 ?cs" by (simp add: ch(2))
      have "memcpy_to (mem_base ?rv) (unat buf + unat (tot + of_nat 4096)) (take k (drop 4096 ?cs)) =
          memcpy_to (mem_base rv) (unat buf + unat tot) (take (4096 + k) ?cs)"
        using memcpy_to_append [of "mem_base rv" "unat buf + unat tot" "take 4096 ?cs" "take k (drop 4096 ?cs)"] le
        unfolding tot(1) by (simp add: take_add add.assoc)
      moreover have "attr' = attr\<lparr>tmp := tmp attr', world := world attr'\<rparr>" by (rule streams_only(2) [OF ch(3) ih(5)])
      ultimately show ?thesis
        using ih(1-4,6) le gt unfolding step cs1 cnt
        by (intro exI [of _ "4096 + k"] exI [of _ attr']) (auto simp: ch(2) algebra_simps)
    qed
  qed
qed

lemma read_in_aux:
  assumes h: "supplies h content" and tab: "fd_map attr = Some m" "map_ok m" "comparator m = map_cmp_int"
    and "entries m (X rv 10) = Some f" "0 < X rv 12"
    and ram: "unat (X rv 11) + unat (X rv 12) \<le> unat (mem_size rv)" "unat (mem_size rv) \<le> 2 ^ 32"
    and bs: "bs = take (unat (X rv 12)) (content (world attr) f)"
  shows "\<exists>attr'. syscall_read h rv attr =
      Sys (set_X 10 (of_nat (length bs)) (rv\<lparr>mem_base := memcpy_to (mem_base rv) (unat (X rv 11)) bs\<rparr>)) attr' \<and>
    content (world attr') = (content (world attr))(f := drop (length bs) (content (world attr) f)) \<and> fd_map attr' = fd_map attr"
proof -
  note fd = find_in_table [OF tab(2,3) assms(5)]
  let ?b = "X rv 11" and ?n = "X rv 12" and ?cs = "content (world attr) f"
  have n0: "0 < unat ?n" using assms(6) by (simp add: word_less_nat_alt)
  have "unat ?b + unat (0 :: u32) + unat ?n \<le> unat (mem_size rv)" using ram(1) by simp
  from read_loop_supplies [OF h n0 this ram(2), of f attr] obtain k attr1 where
    rl: "read_loop h f ?b rv attr ?n 0 =
      Read_on (rv\<lparr>mem_base := memcpy_to (mem_base rv) (unat ?b) (take k ?cs)\<rparr>) attr1 (?n - of_nat k) (of_nat k)"
    and k: "k < unat ?n" "k \<le> length ?cs" "unat ?n - k \<le> 4096 \<or> k = length ?cs"
    and ct: "content (world attr1) = (content (world attr))(f := drop k ?cs)"
    and a1: "attr1 = attr\<lparr>tmp := tmp attr1, world := world attr1\<rparr>" by auto
  have uk: "unat (of_nat k :: u32) = k" using k(1) unsigned_less [of ?n, where 'a = nat] by (simp add: unat_of_nat take_bit_nat_eq_self)
  have nk: "unat (?n - of_nat k) = unat ?n - k" using k(1) uk by (simp add: unat_sub word_le_nat_alt)
  have bk: "unat (?b + of_nat k) = unat ?b + k" using unat_add_bound [of ?b "of_nat k"] uk k(1) ram by simp
  let ?rv = "rv\<lparr>mem_base := memcpy_to (mem_base rv) (unat ?b) (take k ?cs)\<rparr>"
  have "unat ?n - k \<le> 4096 \<or> length (content (world attr1) f) \<le> 4096" using k by (auto simp: ct)
  moreover have "unat (?b + of_nat k) < unat (mem_size ?rv)" "unat (?b + of_nat k) + (unat ?n - k) \<le> unat (mem_size ?rv)"
    using ram(1) k(1) unfolding bk by simp_all
  ultimately obtain attr2 where ch: "read_chunk h f (?b + of_nat k) (unat ?n - k) ?rv attr1 =
      Some (?rv\<lparr>mem_base := memcpy_to (mem_base ?rv) (unat ?b + k) (take (unat ?n - k) (drop k ?cs))\<rparr>, attr2,
        min (unat ?n - k) (length ?cs - k), True)"
    "content (world attr2) = (content (world attr1))(f := drop (unat ?n - k) (drop k ?cs))"
    "attr2 = attr1\<lparr>tmp := tmp attr2, world := world attr2\<rparr>"
    using read_chunk_ok [OF h, of "unat ?n - k" attr1 f "?b + of_nat k" ?rv] unfolding bk by (auto simp: ct)
  have mem: "memcpy_to (mem_base ?rv) (unat ?b + k) (take (unat ?n - k) (drop k ?cs)) = memcpy_to (mem_base rv) (unat ?b) bs"
    using memcpy_to_append [of "mem_base rv" "unat ?b" "take k ?cs" "take (unat ?n - k) (drop k ?cs)"] k(1,2)
      take_add [of k "unat ?n - k" ?cs] by (simp add: bs)
  have len: "of_nat k + of_nat (min (unat ?n - k) (length ?cs - k)) = (of_nat (length bs) :: u32)"
  proof -
    have "k + min (unat ?n - k) (length ?cs - k) = length bs" using k(1,2) by (simp add: bs)
    then show ?thesis by (simp flip: of_nat_add)
  qed
  have "content (world attr2) = (content (world attr))(f := drop (length bs) ?cs)"
    using k(1,2) by (auto simp: ch(2) ct bs min_def)
  moreover have "fd_map attr2 = fd_map attr" using streams_only(1) [OF ch(3)] streams_only(1) [OF a1] by simp
  moreover have "\<not> ferror h (world attr2) f" using h by (simp add: supplies_def)
  ultimately show ?thesis using fd rl ch(1) tab(1) len mem
    by (auto simp: syscall_read_def Let_def map_at_end_def nk)
qed

section \<open>The descriptor table\<close>

definition table_ok :: "(u32, nat) map_internal \<Rightarrow> bool" where
  "table_ok m \<longleftrightarrow> map_ok m \<and> comparator m = map_cmp_int \<and> key_size m = 4 \<and> data_size m = 8"

lemma find_free_least:
  assumes "table_ok m" "i \<le> j" "j < 2 ^ 31" "entries m (of_nat j) = None"
  shows "\<exists>k. find_free_fd_from (Some m) i = Some (of_nat k) \<and> i \<le> k \<and> k \<le> j \<and> entries m (of_nat k) = None \<and>
    (\<forall>l. i \<le> l \<and> l < k \<longrightarrow> entries m (of_nat l) \<noteq> None)"
  using assms(2-)
proof (induction "j - i" arbitrary: i)
  case 0
  then show ?case
    using int_keys.find_ok(1) [of m "of_nat i"] assms(1)
    by (intro exI [of _ i]) (auto simp: find_free_fd_from.simps table_ok_def map_at_end_def)
next
  case (Suc d)
  have f: "map_find (Some m) (of_nat i) = (if entries m (of_nat i) = None then None else Some (of_nat i))"
    using int_keys.find_ok(1) [of m "of_nat i"] assms(1) by (simp add: table_ok_def)
  show ?case
  proof (cases "entries m (of_nat i) = None")
    case True
    with f Suc.prems(1,2) show ?thesis
      by (intro exI [of _ i]) (auto simp: find_free_fd_from.simps map_at_end_def)
  next
    case False
    have "d = j - Suc i" "Suc i \<le> j" using Suc.hyps(2) by simp_all
    from Suc.hyps(1) [OF this Suc.prems(2,3)] obtain k where
      k: "find_free_fd_from (Some m) (Suc i) = Some (of_nat k)" "Suc i \<le> k" "k \<le> j" "entries m (of_nat k) = None"
        "\<forall>l. Suc i \<le> l \<and> l < k \<longrightarrow> entries m (of_nat l) \<noteq> None" by blast
    have "find_free_fd_from (Some m) i = find_free_fd_from (Some m) (Suc i)"
      using False f Suc.prems by (subst find_free_fd_from.simps) (auto simp: map_at_end_def)
    moreover have "entries m (of_nat l) \<noteq> None" if "i \<le> l" "l < k" for l
      using k(5) False that by (cases "l = i") auto
    ultimately show ?thesis using k(1-4) by (intro exI [of _ k]) simp
  qed
qed

lemma free_fd_exists:
  assumes "map_ok m" "unat (msize m) < 2 ^ 31 - 3"
  shows "\<exists>j. 3 \<le> j \<and> j < 2 ^ 31 \<and> entries m (of_nat j :: u32) = None"
proof (rule ccontr)
  assume *: "\<nexists>j. 3 \<le> j \<and> j < 2 ^ 31 \<and> entries m (of_nat j :: u32) = None"
  let ?S = "(of_nat :: nat \<Rightarrow> u32) ` {3..<2 ^ 31}"
  have "inj_on (of_nat :: nat \<Rightarrow> u32) {3..<2 ^ 31}"
  proof (rule inj_onI)
    fix x y :: nat assume *: "x \<in> {3..<2 ^ 31}" "y \<in> {3..<2 ^ 31}" "(of_nat x :: u32) = of_nat y"
    have "unat (of_nat z :: u32) = z" if "z \<in> {3..<2 ^ 31}" for z
      using that by (simp add: unat_of_nat take_bit_nat_eq_self)
    from this [OF *(1)] this [OF *(2)] *(3) show "x = y" by metis
  qed
  then have "card ?S = 2 ^ 31 - 3" by (simp only: card_image card_atLeastLessThan)
  moreover have "?S \<subseteq> dom (entries m)" using * by auto
  moreover have "finite (dom (entries m))" "card (dom (entries m)) \<le> unat (msize m)"
    using assms(1) card_length [of "map fst (inorder (root m))"]
    by (simp_all add: entries_def finite_dom_map_of dom_map_of_conv_image_fst map_ok_def)
  ultimately show False using assms(2) card_mono [of "dom (entries m)" ?S] by linarith
qed

lemma node_layout_fd: "map_create_node alloc key val 4 8 \<noteq> None \<longleftrightarrow> alloc 48"
  by (simp add: map_create_node_def node_layout_def Let_def)

lemma map_sizes:
  "map_insert alloc (Some m) key val = Some (Some m', ok) \<Longrightarrow> key_size m' = key_size m \<and> data_size m' = data_size m"
  "map_erase (Some m) (Some key) = Some (Some m', it) \<Longrightarrow> key_size m' = key_size m \<and> data_size m' = data_size m"
  by (auto simp: map_insert_def map_erase_def split: insert_point.splits option.splits bind_splits if_splits)

lemma insert_fd:
  assumes "table_ok m" "map_room m" "entries m fd = None" "alloc 48"
  shows "\<exists>m'. map_insert alloc (Some m) fd f = Some (Some m', True) \<and> table_ok m' \<and>
    entries m' = (entries m)(fd \<mapsto> f) \<and> msize m' = msize m + 1"
proof -
  have m: "map_ok m" "comparator m = map_cmp_int" "key_size m = 4" "data_size m = 8" using assms(1) by (simp_all add: table_ok_def)
  have new: "True = (entries m fd = None \<and> map_create_node alloc fd f (key_size m) (data_size m) \<noteq> None)"
    unfolding m(3,4) using node_layout_fd [of alloc fd f] assms(3,4) by blast
  obtain m' where "map_insert alloc (Some m) fd f = Some (Some m', True)" "map_ok m'" "comparator m' = map_cmp_int"
    "entries m' = (entries m)(fd \<mapsto> f)" "msize m' = msize m + 1"
    using int_keys.insert_ok [OF m(1) assms(2) m(2) new] by auto
  with map_sizes(1) [OF this(1)] m(3,4) show ?thesis by (auto simp: table_ok_def)
qed

lemma erase_fd:
  assumes "table_ok m" "map_room m" "entries m fd = Some f"
  shows "\<exists>m'. map_erase (Some m) (Some fd) = Some (Some m', None) \<and> table_ok m' \<and> entries m' = (entries m)(fd := None)"
proof -
  have m: "map_ok m" "comparator m = map_cmp_int" "key_size m = 4" "data_size m = 8" using assms(1) by (simp_all add: table_ok_def)
  obtain m' where "map_erase (Some m) (Some fd) = Some (Some m', None)" "map_ok m'" "comparator m' = map_cmp_int"
    "entries m' = (entries m)(fd := None)"
    using int_keys.erase_ok [OF m(1) assms(2) m(2)] assms(3) by auto
  with map_sizes(2) [OF this(1)] m(3,4) show ?thesis by (auto simp: table_ok_def)
qed

text \<open>The path argument of \<^verbatim>\<open>open\<close>: a terminated string inside guest memory.\<close>

definition guest_string :: "riscv \<Rightarrow> u32 \<Rightarrow> u8 list \<Rightarrow> bool" where
  "guest_string rv a s \<longleftrightarrow> unat a + length s < unat (mem_size rv) \<and> 0 \<notin> set s \<and>
     memcpy_from (mem_base rv) (unat a) (length s) = s \<and> mem_base rv (unat a + length s) = 0 \<and> length s < 2 ^ 32"

lemma guest_strnlen_string:
  assumes "guest_string rv a s" "length s < k"
  shows "guest_strnlen (mem_base rv) (unat a) k = length s"
proof -
  have nz: "mem_base rv (unat a + i) \<noteq> 0" if "i < length s" for i
    using assms(1) that unfolding guest_string_def by (metis memcpy_from_simps(2) nth_mem)
  have "[0..<k] = [0..<length s] @ length s # [Suc (length s)..<k]"
    using upt_add_eq_append [of 0 "length s" "k - length s"] upt_conv_Cons [OF assms(2)] assms(2) by simp
  moreover have "takeWhile (\<lambda>i. mem_base rv (unat a + i) \<noteq> 0) ([0..<length s] @ length s # [Suc (length s)..<k]) =
      [0..<length s] @ takeWhile (\<lambda>i. mem_base rv (unat a + i) \<noteq> 0) (length s # [Suc (length s)..<k])"
    by (rule takeWhile_append2) (use nz in simp)
  ultimately have "takeWhile (\<lambda>i. mem_base rv (unat a + i) \<noteq> 0) [0..<k] = [0..<length s]"
    using assms(1) by (simp add: guest_string_def)
  then show ?thesis by (simp add: guest_strnlen_def)
qed

lemma open_aux:
  assumes h: "fopen h (world attr) path mode = (w, Some f)" "host_alloc h (of_nat (length path) + 1)" "host_alloc h 48"
    and "guest_string rv (X rv 10) path" "get_mode_str (X rv 11) = Some mode"
    and tab: "fd_map attr = Some m" "table_ok m" "unat (msize m) < 2 ^ 31 - 3"
  shows "\<exists>fd m'. syscall_open h rv attr = Sys (set_X 10 (of_nat fd) rv) (attr\<lparr>world := w, fd_map := Some m'\<rparr>) \<and>
    3 \<le> fd \<and> fd < 2 ^ 31 \<and> entries m (of_nat fd) = None \<and> (\<forall>l. 3 \<le> l \<and> l < fd \<longrightarrow> entries m (of_nat l) \<noteq> None) \<and>
    table_ok m' \<and> entries m' = (entries m)(of_nat fd \<mapsto> f) \<and> msize m' = msize m + 1"
proof -
  let ?a = "X rv 10"
  have g: "unat ?a + length path < unat (mem_size rv)" "length path < 2 ^ 32"
    "memcpy_from (mem_base rv) (unat ?a) (length path) = path" using assms(4) by (simp_all add: guest_string_def)
  have ua: "unat (ucast ?a :: u64) = unat ?a"
    using order.strict_trans [OF unsigned_less [of ?a, where 'a = nat], of "2 ^ 64 :: nat"]
    by (simp add: unsigned_ucast_eq take_bit_nat_eq_self)
  have lt: "\<not> mem_size rv \<le> ucast ?a" using g(1) ua by (simp add: word_le_nat_alt)
  then have ml: "unat (mem_size rv - ucast ?a) = unat (mem_size rv) - unat ?a" using ua by (simp add: unat_sub)
  have sl: "guest_strnlen (mem_base rv) (unat ?a) (unat (mem_size rv) - unat ?a) = length path"
    by (rule guest_strnlen_string [OF assms(4)]) (use g(1) in simp)
  have nm: "memory_read (mem_base rv) ?a (of_nat (length path)) = path"
    using g(2,3) by (simp add: memory_read_def unat_of_nat take_bit_nat_eq_self)
  obtain j where "3 \<le> j" "j < 2 ^ 31" "entries m (of_nat j :: u32) = None"
    using free_fd_exists tab(2,3) by (auto simp: table_ok_def)
  from find_free_least [OF tab(2) this] obtain fd where
    fd: "find_free_fd_from (Some m) 3 = Some (of_nat fd)" "3 \<le> fd" "fd < 2 ^ 31" "entries m (of_nat fd) = None"
      "\<forall>l. 3 \<le> l \<and> l < fd \<longrightarrow> entries m (of_nat l) \<noteq> None" using \<open>j < 2 ^ 31\<close> by (meson le_less_trans)
  have "map_room m" using tab(3) by (simp add: map_room_def)
  from insert_fd [where alloc = "host_alloc h" and f = f, OF tab(2) this fd(4) h(3)] obtain m' where
    m': "map_insert (host_alloc h) (Some m) (of_nat fd) f = Some (Some m', True)" "table_ok m'"
      "entries m' = (entries m)(of_nat fd \<mapsto> f)" "msize m' = msize m + 1" by blast
  have "syscall_open h rv attr = Sys (set_X 10 (of_nat fd) rv) (attr\<lparr>world := w, fd_map := Some m'\<rparr>)"
    using lt g(1) h assms(5) tab(1) fd(1) m'(1)
    by (simp add: syscall_open_def Let_def ml sl nm find_free_fd_def)
  with fd m' show ?thesis by blast
qed

lemma close_aux:
  assumes "fclose h (world attr) f = (w, False)" "\<not> X rv 10 < 3"
    and tab: "fd_map attr = Some m" "table_ok m" "map_room m" "entries m (X rv 10) = Some f"
  shows "\<exists>m'. syscall_close h rv attr = Sys (set_X 10 0 rv) (attr\<lparr>world := w, fd_map := Some m'\<rparr>) \<and>
    table_ok m' \<and> entries m' = (entries m)(X rv 10 := None)"
proof -
  have "map_find (Some m) (X rv 10) = Some (X rv 10)" "map_iter_value (Some m) (Some (X rv 10)) = Some f"
    using find_in_table tab(2,4) by (auto simp: table_ok_def)
  moreover obtain m' where "map_erase (Some m) (Some (X rv 10)) = Some (Some m', None)" "table_ok m'" "entries m' = (entries m)(X rv 10 := None)"
    using erase_fd [OF tab(2-4)] by blast
  ultimately show ?thesis using assms(1,2) tab(1)
    by (intro exI [of _ m']) (simp add: syscall_close_def Let_def map_at_end_def)
qed

section \<open>What a call can change\<close>

text \<open>A change of guest memory inside its bounds.\<close>

definition in_bounds :: "riscv \<Rightarrow> riscv \<Rightarrow> bool" where
  "in_bounds rv rv' \<longleftrightarrow> (\<exists>m. rv' = rv\<lparr>mem_base := m\<rparr> \<and> (\<forall>k. unat (mem_size rv) \<le> k \<longrightarrow> m k = mem_base rv k))"

lemma in_bounds_refl: "in_bounds rv rv"
  by (auto simp: in_bounds_def intro: exI [of _ "mem_base rv"])

lemma in_bounds_trans: "in_bounds rv rv' \<Longrightarrow> in_bounds rv' rv'' \<Longrightarrow> in_bounds rv rv''"
  by (auto simp: in_bounds_def)

lemma read_chunk_frame:
  assumes "read_chunk h f addr n rv attr = Some (rv', attr', r, ok)"
  shows "in_bounds rv rv'" "fd_map attr' = fd_map attr"
proof -
  obtain w bs where w: "fread h (world attr) f n = (w, bs)" by (cases "fread h (world attr) f n")
  obtain m ok' where mw: "memory_write (mem_size rv) (mem_base rv) addr bs (of_nat (length bs)) = (m, ok')"
    by (cases "memory_write (mem_size rv) (mem_base rv) addr bs (of_nat (length bs))")
  have r: "length bs \<le> 4096" "rv' = rv\<lparr>mem_base := m\<rparr>" "fd_map attr' = fd_map attr"
    using assms by (auto simp: read_chunk_def w mw Let_def split: if_splits)
  have "unat (of_nat (length bs) :: u32) = length bs" using r(1) by (simp add: unat_of_nat take_bit_nat_eq_self)
  then have "m k = mem_base rv k" if "unat (mem_size rv) \<le> k" for k
    using mw that in_ram [where a = addr and n = "of_nat (length bs)" and ms = "mem_size rv"]
    by (auto simp: memory_write_def memcpy_to_def split: if_splits)
  with r(2) show "in_bounds rv rv'" by (auto simp: in_bounds_def)
  show "fd_map attr' = fd_map attr" by (rule r(3))
qed

lemma read_loop_frame:
  "(\<forall>rv' attr' c t. read_loop h f buf rv attr count tot = Read_on rv' attr' c t \<longrightarrow> in_bounds rv rv' \<and> fd_map attr' = fd_map attr) \<and>
   (\<forall>rv' attr'. read_loop h f buf rv attr count tot = Read_fault rv' attr' \<longrightarrow> in_bounds rv rv' \<and> fd_map attr' = fd_map attr)"
proof (induction h f buf rv attr count tot rule: read_loop.induct)
  case (1 h f buf rv attr count tot)
  show ?case
  proof (cases "of_nat 4096 < count")
    case True
    show ?thesis
    proof (cases "read_chunk h f (buf + tot) 4096 rv attr")
      case None
      with True show ?thesis by (subst (1 2) read_loop.simps) simp
    next
      case (Some a)
      then obtain rv1 attr1 r ok where ch: "read_chunk h f (buf + tot) 4096 rv attr = Some (rv1, attr1, r, ok)" by (cases a) auto
      note fr = read_chunk_frame [OF ch]
      show ?thesis
      proof (cases "ok \<and> r = 4096")
        case False
        with True ch fr show ?thesis by (subst (1 2) read_loop.simps) auto
      next
        case t: True
        then have tt: "\<not> \<not> ok" "\<not> r \<noteq> 4096" by simp_all
        have eq: "read_loop h f buf rv attr count tot = read_loop h f buf rv1 attr1 (count - of_nat r) (tot + of_nat r)"
          using True ch t by (subst read_loop.simps) simp
        show ?thesis
          using "1.IH" [OF True ch refl refl refl tt(1) refl refl tt(2)] in_bounds_trans [OF fr(1)] unfolding eq fr(2) by blast
      qed
    qed
  qed (subst (1 2) read_loop.simps, simp add: in_bounds_refl)
qed

lemma write_loop_fd_map: "fd_map (fst (write_loop h rv f buf attr count tot)) = fd_map attr"
proof (induction h rv f buf attr count tot rule: write_loop.induct)
  case (1 h rv f buf attr count tot)
  let ?buf = "memory_read (mem_base rv) (buf + tot) (of_nat 4096)"
  obtain w n where w: "fwrite h (world attr) f ?buf = (w, n)" by (cases "fwrite h (world attr) f ?buf")
  show ?case
  proof (cases "of_nat 4096 < count \<and> \<not> (n \<noteq> 4096 \<and> ferror h w f)")
    case True
    then have t: "of_nat 4096 < count" "\<not> (n \<noteq> 4096 \<and> ferror h w f)" by blast+
    then have "write_loop h rv f buf attr count tot =
        write_loop h rv f buf (attr\<lparr>tmp := ?buf, world := w\<rparr>) (count - of_nat 4096) (tot + of_nat n)"
      using w by (subst write_loop.simps) (simp only: Let_def case_prod_conv if_True if_False)
    with "1.IH" [OF t(1) refl refl w [symmetric] refl t(2)] show ?thesis by simp
  next
    case False
    with w show ?thesis by (subst write_loop.simps) (auto simp: Let_def)
  qed
qed

lemma write_frame: "syscall_write h rv attr = Sys rv' attr' \<Longrightarrow> (\<exists>v. rv' = set_X 10 v rv) \<and> fd_map attr' = fd_map attr"
  using write_loop_fd_map [of h rv "the (map_iter_value (fd_map attr) (map_find (fd_map attr) (X rv 10)))" "X rv 11" attr "X rv 12" 0]
  by (auto simp: syscall_write_def Let_def split: option.splits prod.splits if_splits)

lemma read_frame:
  assumes "syscall_read h rv attr = Sys rv' attr'"
  shows "\<exists>v rv1. rv' = set_X 10 v rv1 \<and> in_bounds rv rv1 \<and> fd_map attr' = fd_map attr"
proof (cases "map_iter_value (fd_map attr) (map_find (fd_map attr) (X rv 10))")
  case None
  with assms show ?thesis by (auto simp: syscall_read_def Let_def intro: in_bounds_refl split: if_splits)
next
  case (Some f)
  let ?rl = "read_loop h f (X rv 11) rv attr (X rv 12) 0"
  note fr = read_loop_frame [of h f "X rv 11" rv attr "X rv 12" 0]
  show ?thesis
  proof (cases ?rl)
    case (Read_on rv1 attr1 c t)
    with fr have r1: "in_bounds rv rv1" "fd_map attr1 = fd_map attr" by blast+
    show ?thesis
    proof (cases "read_chunk h f (X rv 11 + t) (unat c) rv1 attr1")
      case None
      with assms Some Read_on show ?thesis by (auto simp: syscall_read_def Let_def intro: in_bounds_refl split: if_splits)
    next
      case ch: (Some a)
      obtain rv2 attr2 r ok where a: "a = (rv2, attr2, r, ok)" by (cases a)
      note r2 = read_chunk_frame [OF ch [unfolded a]]
      have "in_bounds rv rv2" by (rule in_bounds_trans [OF r1(1) r2(1)])
      with assms Some Read_on ch a r1(2) r2(2) show ?thesis
        by (auto simp: syscall_read_def Let_def intro: in_bounds_refl split: if_splits)
    qed
  next
    case (Read_fault rv1 attr1)
    with fr have "in_bounds rv rv1" "fd_map attr1 = fd_map attr" by blast+
    with assms Some Read_fault show ?thesis
      by (auto simp: syscall_read_def Let_def intro: in_bounds_refl split: if_splits)
  next
    case Read_overflow
    with assms Some show ?thesis by (auto simp: syscall_read_def Let_def intro: in_bounds_refl split: if_splits)
  qed
qed

lemma other_frames:
  "syscall_lseek h rv attr = Sys rv' attr' \<Longrightarrow> (\<exists>v. rv' = set_X 10 v rv) \<and> fd_map attr' = fd_map attr"
  "syscall_close h rv attr = Sys rv' attr' \<Longrightarrow> \<exists>v. rv' = set_X 10 v rv"
  "syscall_open h rv attr = Sys rv' attr' \<Longrightarrow> \<exists>v. rv' = set_X 10 v rv"
  by (auto simp: syscall_lseek_def syscall_close_def syscall_open_def Let_def split: option.splits prod.splits if_splits)

definition framed :: "riscv \<Rightarrow> 'w vm_attr \<Rightarrow> riscv \<Rightarrow> 'w vm_attr \<Rightarrow> bool" where
  "framed rv attr rv' attr' \<longleftrightarrow>
    (\<exists>v m. rv' = rv\<lparr>X := (X rv)(10 := v), mem_base := m, halt := halt rv \<or> X rv 17 = 93\<rparr> \<and>
      (X rv 17 \<notin> {63, 169, 403} \<longrightarrow> m = mem_base rv) \<and>
      (X rv 17 = 63 \<longrightarrow> (\<forall>k. unat (mem_size rv) \<le> k \<longrightarrow> m k = mem_base rv k)) \<and>
      (X rv 17 \<notin> {57, 1024} \<longrightarrow> fd_map attr' = fd_map attr))"

lemma framed_reg:
  "X rv 17 \<noteq> 93 \<Longrightarrow> (X rv 17 \<in> {57, 1024} \<or> fd_map attr' = fd_map attr) \<Longrightarrow> framed rv attr (set_X 10 v rv) attr'"
  unfolding framed_def by (intro exI [of _ v] exI [of _ "mem_base rv"]) auto

lemma framed_mem:
  assumes "X rv 17 \<in> {63, 169, 403}" "fd_map attr' = fd_map attr" "X rv 17 = 63 \<Longrightarrow> \<forall>k. unat (mem_size rv) \<le> k \<longrightarrow> m k = mem_base rv k"
  shows "framed rv attr (rv\<lparr>mem_base := m, X := (X rv)(10 := v)\<rparr>) attr'"
  unfolding framed_def using assms by (intro exI [of _ v] exI [of _ m]) auto

lemma framed_calls:
  "syscall_close h rv attr = Sys rv' attr' \<Longrightarrow> X rv 17 = 57 \<Longrightarrow> framed rv attr rv' attr'"
  "syscall_lseek h rv attr = Sys rv' attr' \<Longrightarrow> X rv 17 = 62 \<Longrightarrow> framed rv attr rv' attr'"
  "syscall_write h rv attr = Sys rv' attr' \<Longrightarrow> X rv 17 = 64 \<Longrightarrow> framed rv attr rv' attr'"
  "syscall_open h rv attr = Sys rv' attr' \<Longrightarrow> X rv 17 = 1024 \<Longrightarrow> framed rv attr rv' attr'"
  "syscall_brk rv attr = Sys rv' attr' \<Longrightarrow> X rv 17 = 214 \<Longrightarrow> framed rv attr rv' attr'"
  subgoal by (drule other_frames(2)) (auto intro!: framed_reg)
  subgoal by (drule other_frames(1)) (auto intro!: framed_reg)
  subgoal by (drule write_frame) (auto intro!: framed_reg)
  subgoal by (drule other_frames(3)) (auto intro!: framed_reg)
  subgoal using framed_reg [of rv attr' attr "break_addr attr'"] by (auto simp: syscall_brk_def Let_def split: if_splits)
  done

lemma framed_read: "syscall_read h rv attr = Sys rv' attr' \<Longrightarrow> X rv 17 = 63 \<Longrightarrow> framed rv attr rv' attr'"
  by (drule read_frame) (auto simp: in_bounds_def intro!: framed_mem)

lemma framed_clock:
  "syscall_gettimeofday h rv attr = Sys rv' attr' \<Longrightarrow> X rv 17 = 169 \<Longrightarrow> framed rv attr rv' attr'"
  "syscall_clock_gettime h rv attr = Sys rv' attr' \<Longrightarrow> X rv 17 = 403 \<Longrightarrow> framed rv attr rv' attr'"
  by (auto simp: syscall_gettimeofday_def syscall_clock_gettime_def Let_def intro!: framed_mem framed_reg
      split: prod.splits if_splits)

lemma framed_id: "X rv 17 \<noteq> 93 \<Longrightarrow> framed rv attr rv attr"
  using framed_reg [of rv attr attr "X rv 10"] by simp

lemma framed_exit: "syscall_exit rv attr = Sys rv' attr' \<Longrightarrow> X rv 17 = 93 \<Longrightarrow> framed rv attr rv' attr'"
  by (auto simp: framed_def syscall_exit_def rv_halt_def Let_def intro: exI [of _ "X rv 10"] exI [of _ "mem_base rv"])

lemma framed_dispatch: "syscall_dispatch h rv attr = Sys rv' attr' \<Longrightarrow> framed rv attr rv' attr'"
  unfolding syscall_dispatch_def Let_def ret_reg_simps
  by (auto split: if_splits simp: syscall_fstat_def intro: framed_calls framed_read framed_clock framed_exit framed_id)

text \<open>
  The step loop asks of the environment that a system call leaves \<^verbatim>\<open>last_pc\<close> alone: the handler of
  the program does, with any host and in any state of the descriptor table.
\<close>

lemma user_syscalls_keep_last:
  "env_keeps_last (env\<lparr>syscall_handler := \<lambda>rv. case user_syscall_handler h rv attr of Sys rv' attr' \<Rightarrow> rv' | _ \<Rightarrow> rv\<rparr>)"
proof -
  have "last_pc rv' = last_pc rv" if "user_syscall_handler h rv attr = Sys rv' attr'" for rv rv' attr'
    using that framed_dispatch [of h rv attr]
    by (auto simp: user_syscall_handler_def framed_def split: sys_result.splits)
  then show ?thesis by (auto simp: env_keeps_last_def split: sys_result.splits)
qed

section \<open>Properties\<close>

text \<open>
  C24. What a system call can change: whatever the host does, a call that returns has changed at most
  the result register, guest memory and the halt flag. Only \<^verbatim>\<open>exit\<close> halts; only \<^verbatim>\<open>read\<close> and the two clock
  calls write memory, \<^verbatim>\<open>read\<close> never outside the guest's memory; only \<^verbatim>\<open>open\<close> and \<^verbatim>\<open>close\<close> change the
  descriptor table.
\<close>

theorem syscall_frame:
  assumes "user_syscall_handler h rv attr = Sys rv' attr'"
  shows "\<exists>v m. rv' = rv\<lparr>X := (X rv)(10 := v), mem_base := m, halt := halt rv \<or> X rv 17 = 93\<rparr> \<and>
      (X rv 17 \<notin> {63, 169, 403} \<longrightarrow> m = mem_base rv) \<and>
      (X rv 17 = 63 \<longrightarrow> (\<forall>k. unat (mem_size rv) \<le> k \<longrightarrow> m k = mem_base rv k)) \<and>
      (X rv 17 \<notin> {57, 1024} \<longrightarrow> fd_map attr' = fd_map attr)"
proof -
  obtain attr1 where a: "syscall_dispatch h rv attr = Sys rv' attr1" "fd_map attr' = fd_map attr1"
    using assms by (auto simp: user_syscall_handler_def split: sys_result.splits)
  from framed_dispatch [OF a(1)] show ?thesis unfolding framed_def a(2) .
qed

text \<open>
  C25. \<^verbatim>\<open>write\<close> delivers the buffer: on an open descriptor and a host that accepts what it is given, the
  guest's \<open>count\<close> bytes from \<open>buffer\<close> on are appended to the stream behind the descriptor, in order and
  once, across all chunks of 4096 bytes; the call returns \<open>count\<close> and its final assertion holds.
\<close>

theorem file_write:
  assumes "appends h content" "fd_map attr = Some m" "table_ok m" "entries m (X rv 10) = Some f"
    and "X rv 17 = 64" "unat (X rv 11) + unat (X rv 12) \<le> 2 ^ 32"
  shows "\<exists>attr'. user_syscall_handler h rv attr = Sys (set_X 10 (X rv 12) rv) attr' \<and>
    content (world attr') = (content (world attr))(f := content (world attr) f @
      memcpy_from (mem_base rv) (unat (X rv 11)) (unat (X rv 12))) \<and> fd_map attr' = fd_map attr"
proof -
  have m: "map_ok m" "comparator m = map_cmp_int" using assms(3) by (simp_all add: table_ok_def)
  from write_out_aux [OF assms(1,2) m assms(4,6)] show ?thesis
    by (auto simp: user_syscall_handler_def syscall_dispatch_def assms(5))
qed

text \<open>
  C26. \<^verbatim>\<open>read\<close> fetches the file: with a buffer inside guest memory and a host file that supplies its
  bytes in order, the next \<open>count\<close> bytes of the file, or as many as there are, land at the buffer
  and nowhere else, the call returns their number and the file stands behind them. The static
  buffer of 4096 bytes is never overrun.
\<close>

theorem file_read:
  assumes "supplies h content" "fd_map attr = Some m" "table_ok m" "entries m (X rv 10) = Some f"
    and "X rv 17 = 63" "0 < X rv 12" "unat (X rv 11) + unat (X rv 12) \<le> unat (mem_size rv)" "unat (mem_size rv) \<le> 2 ^ 32"
    and "bs = take (unat (X rv 12)) (content (world attr) f)"
  shows "\<exists>attr'. user_syscall_handler h rv attr =
      Sys (set_X 10 (of_nat (length bs)) (rv\<lparr>mem_base := memcpy_to (mem_base rv) (unat (X rv 11)) bs\<rparr>)) attr' \<and>
    content (world attr') = (content (world attr))(f := drop (length bs) (content (world attr) f)) \<and> fd_map attr' = fd_map attr"
proof -
  have m: "map_ok m" "comparator m = map_cmp_int" using assms(3) by (simp_all add: table_ok_def)
  from read_in_aux [OF assms(1,2) m assms(4,6-9)] show ?thesis
    by (auto simp: user_syscall_handler_def syscall_dispatch_def assms(5))
qed

text \<open>
  C27. \<^verbatim>\<open>open\<close> always finds a descriptor and \<^verbatim>\<open>close\<close> gives it back: with fewer than \<open>2\<^sup>3\<^sup>1 - 3\<close> descriptors in
  use, opening a file the host can open ends and returns the smallest free number from 3 on,
  bound to the new stream with all other descriptors kept; closing that number returns 0 and
  leaves the descriptors as they were.
\<close>

theorem open_close:
  assumes "fopen h (world attr) path mode = (w, Some f)" "host_alloc h = (\<lambda>n. True)" "fclose h w f = (w', False)"
    and "X rv 17 = 1024" "guest_string rv (X rv 10) path" "get_mode_str (X rv 11) = Some mode"
    and tab: "fd_map attr = Some m" "table_ok m" "unat (msize m) < 2 ^ 31 - 3"
  shows "\<exists>fd attr1 m1 attr2 m2. user_syscall_handler h rv attr = Sys (set_X 10 fd rv) attr1 \<and>
    3 \<le> unat fd \<and> entries m fd = None \<and> (\<forall>l. 3 \<le> l \<and> l < unat fd \<longrightarrow> entries m (of_nat l) \<noteq> None) \<and>
    fd_map attr1 = Some m1 \<and> table_ok m1 \<and> entries m1 = (entries m)(fd \<mapsto> f) \<and>
    user_syscall_handler h (rv\<lparr>X := (X rv)(17 := 57, 10 := fd)\<rparr>) attr1 = Sys (rv\<lparr>X := (X rv)(17 := 57, 10 := 0)\<rparr>) attr2 \<and>
    fd_map attr2 = Some m2 \<and> table_ok m2 \<and> entries m2 = entries m"
proof -
  from open_aux [OF assms(1) _ _ assms(5,6) tab] assms(2) obtain fd m1 where
    o: "syscall_open h rv attr = Sys (set_X 10 (of_nat fd) rv) (attr\<lparr>world := w, fd_map := Some m1\<rparr>)"
    "3 \<le> fd" "fd < 2 ^ 31" "entries m (of_nat fd) = None" "\<forall>l. 3 \<le> l \<and> l < fd \<longrightarrow> entries m (of_nat l) \<noteq> None"
    "table_ok m1" "entries m1 = (entries m)(of_nat fd \<mapsto> f)" "msize m1 = msize m + 1" by auto
  let ?fd = "of_nat fd :: u32"
  let ?attr1 = "attr\<lparr>world := w, fd_map := Some m1, vm_error := ?fd\<rparr>"
  let ?rv = "rv\<lparr>X := (X rv)(17 := 57, 10 := ?fd)\<rparr>"
  have u: "unat ?fd = fd" using o(3) by (simp add: unat_of_nat take_bit_nat_eq_self)
  then have ge: "\<not> ?fd < 3" using o(2) by (simp add: word_less_nat_alt)
  have room: "map_room m1" using tab(3) o(8) by (simp add: map_room_def unat_word_ariths)
  have c: "fclose h (world ?attr1) f = (w', False)" "\<not> X ?rv 10 < 3" "fd_map ?attr1 = Some m1" "entries m1 (X ?rv 10) = Some f"
    using assms(3) ge o(7) by simp_all
  from close_aux [OF c(1-3) o(6) room c(4)] obtain m2 where
    m2: "syscall_close h ?rv ?attr1 = Sys (set_X 10 0 ?rv) (?attr1\<lparr>world := w', fd_map := Some m2\<rparr>)" "table_ok m2"
    "entries m2 = (entries m1)(?fd := None)" by auto
  have "entries m2 = entries m" using o(4) by (auto simp: m2(3) o(7))
  moreover have "user_syscall_handler h rv attr = Sys (set_X 10 ?fd rv) ?attr1"
    using o(1) by (simp add: user_syscall_handler_def syscall_dispatch_def assms(4))
  moreover have "user_syscall_handler h ?rv ?attr1 =
      Sys (rv\<lparr>X := (X rv)(17 := 57, 10 := 0)\<rparr>) (?attr1\<lparr>world := w', fd_map := Some m2, vm_error := 0\<rparr>)"
    using m2(1) by (simp add: user_syscall_handler_def syscall_dispatch_def fun_upd_twist)
  ultimately show ?thesis using o(2,4-7) m2(2) u
    by (intro exI [of _ ?fd] exI [of _ ?attr1] exI [of _ m1] exI [of _ "?attr1\<lparr>world := w', fd_map := Some m2, vm_error := 0\<rparr>"] exI [of _ m2]) simp
qed

section \<open>Instances\<close>

text \<open>
  A host whose streams are lists of bytes, a table with descriptor 1 and a machine with the given
  call number and arguments.
\<close>

definition mem_host :: "(nat \<Rightarrow> u8 list) host" where
  "mem_host = \<lparr>fopen = (\<lambda>w p m. (w, Some 7)), fclose = (\<lambda>w f. (w, False)),
     fread = (\<lambda>w f n. (w(f := drop n (w f)), take n (w f))),
     fwrite = (\<lambda>w f bs. (w(f := w f @ bs), length bs)), ferror = (\<lambda>w f. False),
     fseek = (\<lambda>w f off wh. (w, False)), ftell = (\<lambda>w f. 0), host_clock = (\<lambda>w. (5, 6)),
     host_alloc = (\<lambda>n. True), host_fileno = (\<lambda>f. of_nat f)\<rparr>"

definition fds0 :: "(u32, nat) map_internal" where
  "fds0 = \<lparr>root = Node RB_BLACK Null 1 1 Null, key_size = 4, data_size = 8, msize = 1, comparator = map_cmp_int\<rparr>"

definition attr0 :: "(nat \<Rightarrow> u8 list) vm_attr" where
  "attr0 = \<lparr>fd_map = Some fds0, break_addr = 0, exit_code = 0, vm_error = 0, fd_stdin = 0, fd_stdout = 1, fd_stderr = 2,
     tmp = replicate 4096 0, world = (\<lambda>f. [65, 66, 67])\<rparr>"

definition rv_call :: "u32 \<Rightarrow> u32 \<Rightarrow> u32 \<Rightarrow> u32 \<Rightarrow> riscv" where
  "rv_call n a0 a1 a2 = rv0\<lparr>X := (X rv0)(17 := n, 10 := a0, 11 := a1, 12 := a2)\<rparr>"

lemma host0_simps [simp]:
  "fopen mem_host w p m = (w, Some 7)" "fclose mem_host w f = (w, False)" "host_alloc mem_host = (\<lambda>n. True)"
  "appends mem_host (\<lambda>w. w)" "supplies mem_host (\<lambda>w. w)"
  by (simp_all add: mem_host_def appends_def supplies_def)

lemma attr0_simps [simp]: "fd_map attr0 = Some fds0" "world attr0 = (\<lambda>f. [65, 66, 67])"
  by (simp_all add: attr0_def)

lemma fds0_simps [simp]: "table_ok fds0" "entries fds0 1 = Some 1" "msize fds0 = 1"
  by (simp_all add: table_ok_def map_ok_def fds0_def entries_def int_keys.ascending_simps)

lemma rv_call_simps [simp]:
  "X (rv_call n a0 a1 a2) 17 = n" "X (rv_call n a0 a1 a2) 10 = a0" "X (rv_call n a0 a1 a2) 11 = a1"
  "X (rv_call n a0 a1 a2) 12 = a2" "mem_size (rv_call n a0 a1 a2) = 0x10000" "mem_base (rv_call n a0 a1 a2) = (\<lambda>a. 0)"
  by (simp_all add: rv_call_def rv0_def)

theorem file_write_witness:
  "\<exists>attr'. user_syscall_handler mem_host (rv_call 64 1 0x100 2) attr0 = Sys (set_X 10 2 (rv_call 64 1 0x100 2)) attr' \<and>
     world attr' 1 = [65, 66, 67, 0, 0]"
proof -
  have "memcpy_from (\<lambda>a. 0) 256 2 = [0, 0]" by (simp add: memcpy_from_numerals)
  with file_write [of mem_host "\<lambda>w. w" attr0 fds0 "rv_call 64 1 0x100 2" 1] show ?thesis by auto
qed

theorem file_read_witness:
  "\<exists>attr'. user_syscall_handler mem_host (rv_call 63 1 0x100 5000) attr0 =
     Sys (set_X 10 3 ((rv_call 63 1 0x100 5000)\<lparr>mem_base := memcpy_to (\<lambda>a. 0) 0x100 [65, 66, 67]\<rparr>)) attr'"
  using file_read [of mem_host "\<lambda>w. w" attr0 fds0 "rv_call 63 1 0x100 5000" 1 "[65, 66, 67]"] by auto

theorem syscall_frame_witness:
  "\<exists>rv' attr'. user_syscall_handler mem_host (rv_call 214 0x8000 0 0) attr0 = Sys rv' attr' \<and>
     mem_base rv' = mem_base (rv_call 214 0x8000 0 0) \<and> fd_map attr' = fd_map attr0"
proof -
  let ?rv = "rv_call 214 0x8000 0 0"
  have "\<exists>rv' attr'. user_syscall_handler mem_host ?rv attr0 = Sys rv' attr'"
    by (simp add: user_syscall_handler_def syscall_dispatch_def syscall_brk_def Let_def)
  then obtain rv' attr' where r: "user_syscall_handler mem_host ?rv attr0 = Sys rv' attr'" by blast
  from syscall_frame [OF this] r show ?thesis by auto
qed

theorem open_close_witness:
  "\<exists>fd attr1. user_syscall_handler mem_host (rv_call 1024 0x100 0 0) attr0 = Sys (set_X 10 fd (rv_call 1024 0x100 0 0)) attr1 \<and>
     3 \<le> unat fd"
proof -
  have "guest_string (rv_call 1024 0x100 0 0) 0x100 []" by (simp add: guest_string_def)
  moreover have "get_mode_str 0 = Some ''rb''" by (simp add: get_mode_str_def)
  ultimately show ?thesis
    using open_close [of mem_host attr0 "[]" "''rb''" "world attr0" 7 "world attr0" "rv_call 1024 0x100 0 0" fds0] by auto
qed

section \<open>Departures\<close>

text \<open>
  The loop of \<^verbatim>\<open>read\<close> ends after a short read, and the final \<^verbatim>\<open>fread\<close> then asks for all that is left: on a
  stream that delivers more after a short read (a terminal, a pipe), it overruns \<^verbatim>\<open>tmp\<close>.
\<close>

lemma read_overflow:
  assumes "fd_map attr = Some m" "table_ok m" "entries m (X rv 10) = Some f" "4096 < X rv 12"
    and "fread h (world attr) f 4096 = (w1, bs)" "length bs < 4096"
    and "memory_write (mem_size rv) (mem_base rv) (X rv 11) bs (of_nat (length bs)) = (mb, True)"
    and "4096 < length (snd (fread h w1 f (unat (X rv 12 - of_nat (length bs)))))"
  shows "syscall_read h rv attr = Sys_undefined"
proof -
  have fd: "map_find (Some m) (X rv 10) = Some (X rv 10)" "map_iter_value (Some m) (Some (X rv 10)) = Some f"
    using find_in_table assms(2,3) by (auto simp: table_ok_def)
  let ?attr = "attr\<lparr>tmp := bs @ drop (length bs) (tmp attr), world := w1\<rparr>"
  have "read_chunk h f (X rv 11 + 0) 4096 rv attr = Some (rv\<lparr>mem_base := mb\<rparr>, ?attr, length bs, True)"
    using assms(5-7) by (simp add: read_chunk_def Let_def)
  then have rl: "read_loop h f (X rv 11) rv attr (X rv 12) 0 =
      Read_on (rv\<lparr>mem_base := mb\<rparr>) ?attr (X rv 12 - of_nat (length bs)) (of_nat (length bs))"
    using assms(4,6) by (subst read_loop.simps) simp
  have "read_chunk h f (X rv 11 + of_nat (length bs)) (unat (X rv 12 - of_nat (length bs))) (rv\<lparr>mem_base := mb\<rparr>) ?attr = None"
    using assms(8) by (auto simp: read_chunk_def split: prod.splits)
  with fd rl assms(1) show ?thesis by (simp add: syscall_read_def Let_def map_at_end_def)
qed

text \<open>A negative offset of \<^verbatim>\<open>lseek\<close> reaches the host as a large positive one.\<close>

lemma lseek_negative:
  assumes "fd_map attr = Some m" "table_ok m" "entries m (X rv 10) = Some f" "X rv 11 = - 1"
    and "fseek h (world attr) f 0xFFFFFFFF (X rv 12) = (w, True)"
  shows "syscall_lseek h rv attr = Sys (set_X 10 (- 1) rv) (attr\<lparr>world := w\<rparr>)"
proof -
  have "map_find (Some m) (X rv 10) = Some (X rv 10)" "map_iter_value (Some m) (Some (X rv 10)) = Some f"
    using find_in_table assms(2,3) by (auto simp: table_ok_def)
  moreover have "ucast (- 1 :: u32) = (0xFFFFFFFF :: u64)" by (simp add: unsigned_minus_1_eq_mask mask_eq_exp_minus_1)
  ultimately show ?thesis using assms by (simp add: syscall_lseek_def Let_def map_at_end_def)
qed

end
