(* ===== verification/Mmu.thy ===== *)
theory Mmu
  imports Trap
begin

unbundle bit_operations_syntax

text \<open>
  The memory management unit of the system build (\<^verbatim>\<open>system.c\<close>, with memory-mapped devices): the Sv32
  page-table walk, the permission checks, the two translation look-aside buffers and the
  translation of data addresses and instruction fetches.

  A pointer to a page-table entry is its offset in guest memory; NULL is \<^const>\<open>None\<close>. Entering a trap
  runs the guest's handler inside the emulator until it returns, so \<^verbatim>\<open>on_trap\<close> is a parameter.
\<close>

section \<open>State\<close>

record tlb_entry =
  te_vpn :: u32
  te_ppn :: u32
  te_pte_addr :: u32
  te_perm :: u8
  te_valid :: bool
  te_dirty :: bool
  te_level :: u8

record system =
  core :: riscv
  dtlb :: "nat \<Rightarrow> tlb_entry"
  itlb :: "nat \<Rightarrow> tlb_entry"
  last_csr_sepc :: u32
  is_trapped :: bool
  need_retranslate :: bool
  need_handle_signal :: bool

abbreviation (input) TLB_SIZE :: nat where "TLB_SIZE \<equiv> 64"
abbreviation (input) TLB_MASK :: u32 where "TLB_MASK \<equiv> 63"
abbreviation (input) RV_PG_SHIFT :: nat where "RV_PG_SHIFT \<equiv> 12"
abbreviation (input) PTE_V :: u32 where "PTE_V \<equiv> 1"
abbreviation (input) PTE_R :: u32 where "PTE_R \<equiv> 2"
abbreviation (input) PTE_W :: u32 where "PTE_W \<equiv> 4"
abbreviation (input) PTE_X :: u32 where "PTE_X \<equiv> 8"
abbreviation (input) PTE_U :: u32 where "PTE_U \<equiv> 0x10"
abbreviation (input) PTE_A :: u32 where "PTE_A \<equiv> 0x40"
abbreviation (input) PTE_D :: u32 where "PTE_D \<equiv> 0x80"
abbreviation (input) PAGEFAULT_INSN :: u32 where "PAGEFAULT_INSN \<equiv> 12"
abbreviation (input) PAGEFAULT_LOAD :: u32 where "PAGEFAULT_LOAD \<equiv> 13"
abbreviation (input) PAGEFAULT_STORE :: u32 where "PAGEFAULT_STORE \<equiv> 15"
abbreviation (input) SSTATUS_SUM :: u32 where "SSTATUS_SUM \<equiv> 0x40000"
abbreviation (input) SSTATUS_MXR :: u32 where "SSTATUS_MXR \<equiv> 0x80000"

text \<open>\<^verbatim>\<open>*pte\<close> and \<^verbatim>\<open>*pte |= bits\<close>.\<close>

definition pte_at :: "'a system_scheme \<Rightarrow> u32 \<Rightarrow> u32" where
  "pte_at s pte = memory_read_w (mem_base (core s)) pte"

definition mark_pte :: "u32 \<Rightarrow> u32 \<Rightarrow> 'a system_scheme \<Rightarrow> 'a system_scheme" where
  "mark_pte pte bits s =
    s\<lparr>core := (core s)\<lparr>mem_base := memory_write_w (mem_base (core s)) pte (pte_at s pte OR bits)\<rparr>\<rparr>"

section \<open>Translation look-aside buffers\<close>

definition no_entry :: tlb_entry where
  "no_entry = \<lparr>te_vpn = 0, te_ppn = 0, te_pte_addr = 0, te_perm = 0, te_valid = False, te_dirty = False, te_level = 0\<rparr>"

definition mmu_tlb_flush_all :: "'a system_scheme \<Rightarrow> 'a system_scheme" where
  "mmu_tlb_flush_all s = s\<lparr>dtlb := (\<lambda>i. no_entry), itlb := (\<lambda>i. no_entry)\<rparr>"

definition mmu_tlb_flush :: "'a system_scheme \<Rightarrow> u32 \<Rightarrow> 'a system_scheme" where
  "mmu_tlb_flush s vaddr =
    (let vpn = shr vaddr RV_PG_SHIFT; idx = unat (vpn AND TLB_MASK);
         s = (if te_valid (dtlb s idx) \<and> te_vpn (dtlb s idx) = vpn
              then s\<lparr>dtlb := (dtlb s)(idx := (dtlb s idx)\<lparr>te_valid := False\<rparr>)\<rparr> else s)
     in if te_valid (itlb s idx) \<and> te_vpn (itlb s idx) = vpn
        then s\<lparr>itlb := (itlb s)(idx := (itlb s idx)\<lparr>te_valid := False\<rparr>)\<rparr> else s)"

text \<open>The address of a hit, and whether there is one.\<close>

definition tlb_offset :: "tlb_entry \<Rightarrow> u32 \<Rightarrow> u32" where
  "tlb_offset e vaddr = (if te_level e = 1 then vaddr AND mask (RV_PG_SHIFT + 10) else vaddr AND mask RV_PG_SHIFT)"

definition dtlb_lookup :: "'a system_scheme \<Rightarrow> u32 \<Rightarrow> bool \<Rightarrow> 'a system_scheme \<times> u32 \<times> bool" where
  "dtlb_lookup s vaddr write =
    (let vpn = shr vaddr RV_PG_SHIFT; idx = unat (vpn AND TLB_MASK); entry = dtlb s idx in
     if te_valid entry \<and> te_vpn entry = vpn then
       (let needed = (if write then 4 else 2) in
        if te_perm entry AND needed = 0 then (s, 0, False)
        else
          (let s = (if write \<and> \<not> te_dirty entry
                    then (mark_pte (te_pte_addr entry) PTE_D s)\<lparr>dtlb := (dtlb s)(idx := entry\<lparr>te_dirty := True\<rparr>)\<rparr>
                    else s)
           in (s, te_ppn entry OR tlb_offset entry vaddr, True)))
     else (s, 0, False))"

definition itlb_lookup :: "'a system_scheme \<Rightarrow> u32 \<Rightarrow> u32 \<times> bool" where
  "itlb_lookup s vaddr =
    (let vpn = shr vaddr RV_PG_SHIFT; idx = unat (vpn AND TLB_MASK); entry = itlb s idx in
     if te_valid entry \<and> te_vpn entry = vpn then
       (if te_perm entry AND 8 = 0 then (0, False)
        else (te_ppn entry OR tlb_offset entry vaddr, True))
     else (0, False))"

definition tlb_entry_for :: "'a system_scheme \<Rightarrow> u32 \<Rightarrow> u32 \<Rightarrow> u32 \<Rightarrow> tlb_entry" where
  "tlb_entry_for s vaddr pte level =
    \<lparr>te_vpn = shr vaddr RV_PG_SHIFT,
     te_ppn = shl (shr (pte_at s pte) (RV_PG_SHIFT - 2)) RV_PG_SHIFT,
     te_pte_addr = pte,
     te_perm = ucast (pte_at s pte AND (PTE_R OR PTE_W OR PTE_X OR PTE_U)),
     te_valid = True,
     te_dirty = (pte_at s pte AND PTE_D \<noteq> 0),
     te_level = ucast level\<rparr>"

definition dtlb_populate :: "'a system_scheme \<Rightarrow> u32 \<Rightarrow> u32 \<Rightarrow> u32 \<Rightarrow> 'a system_scheme" where
  "dtlb_populate s vaddr pte level =
    (let idx = unat (shr vaddr RV_PG_SHIFT AND TLB_MASK)
     in s\<lparr>dtlb := (dtlb s)(idx := tlb_entry_for s vaddr pte level)\<rparr>)"

definition itlb_populate :: "'a system_scheme \<Rightarrow> u32 \<Rightarrow> u32 \<Rightarrow> u32 \<Rightarrow> 'a system_scheme" where
  "itlb_populate s vaddr pte level =
    (let idx = unat (shr vaddr RV_PG_SHIFT AND TLB_MASK)
     in s\<lparr>itlb := (itlb s)(idx := tlb_entry_for s vaddr pte level)\<rparr>)"

section \<open>Page tables\<close>

definition ppn_is_valid :: "'a system_scheme \<Rightarrow> u32 \<Rightarrow> bool" where
  "ppn_is_valid s ppn = (let nr_pg_max = ucast (mem_size (core s) div 4096) in ppn < nr_pg_max)"

definition PAGE_TABLE :: "'a system_scheme \<Rightarrow> u32 \<Rightarrow> u32 option" where
  "PAGE_TABLE s ppn = (if ppn_is_valid s ppn then Some (shl ppn RV_PG_SHIFT) else None)"

text \<open>The loop over the levels: \<open>i\<close> counts down to 0; the result is the leaf entry and its level.\<close>

fun walk_loop :: "'a system_scheme \<Rightarrow> u32 \<Rightarrow> nat \<Rightarrow> u32 \<Rightarrow> (u32 \<times> u32) option" where
  "walk_loop s vaddr i page_table =
    (let level = 2 - of_nat i;
         vpn = shr (shr vaddr RV_PG_SHIFT) (i * (RV_PG_SHIFT - 2)) AND mask 10;
         pte = page_table + 4 * vpn;
         XWRV_bit = pte_at s pte AND mask 4
     in if XWRV_bit = 1 then
          (case PAGE_TABLE s (shr (pte_at s pte) (RV_PG_SHIFT - 2)) of
             None \<Rightarrow> None
           | Some page_table \<Rightarrow> (case i of 0 \<Rightarrow> None | Suc j \<Rightarrow> walk_loop s vaddr j page_table))
        else if XWRV_bit = 3 \<or> XWRV_bit = 7 \<or> XWRV_bit = 9 \<or> XWRV_bit = 11 \<or> XWRV_bit = 15 then
          (let ppn = shr (pte_at s pte) (RV_PG_SHIFT - 2) in
           if level = 1 \<and> ppn AND mask 10 \<noteq> 0 then None else Some (pte, level))
        else None)"

declare walk_loop.simps [simp del]

definition mmu_walk :: "'a system_scheme \<Rightarrow> u32 \<Rightarrow> (u32 \<times> u32) option" where
  "mmu_walk s vaddr =
    (let ppn = csr_satp (core s) AND mask 22 in
     case PAGE_TABLE s ppn of None \<Rightarrow> None | Some page_table \<Rightarrow> walk_loop s vaddr 1 page_table)"

section \<open>Checks and traps\<close>

type_synonym 'a on_trap = "'a system_scheme \<Rightarrow> 'a system_scheme"

definition sys_trap :: "'a on_trap \<Rightarrow> u32 \<Rightarrow> u32 \<Rightarrow> 'a system_scheme \<Rightarrow> 'a system_scheme" where
  "sys_trap on_trap cause tval s =
    on_trap (s\<lparr>is_trapped := True, core := set_cause_and_tval (core s) cause tval\<rparr>)"

definition access_cause :: "u32 \<Rightarrow> u32" where
  "access_cause access_bits =
    (if access_bits = PTE_R then PAGEFAULT_LOAD else if access_bits = PTE_W then PAGEFAULT_STORE else PAGEFAULT_INSN)"

text \<open>The check without the trap it raises.\<close>

definition pte_permits :: "'a system_scheme \<Rightarrow> u32 option \<Rightarrow> u32 \<Rightarrow> bool" where
  "pte_permits s pte access_bits =
    (case pte of
       None \<Rightarrow> False
     | Some p \<Rightarrow>
         (let v = pte_at s p; sstatus = csr_sstatus (core s) in
          if v AND PTE_V = 0 then False
          else if v AND access_bits = 0 then False
          else if SSTATUS_MXR AND sstatus = 0 \<and> v AND PTE_R = 0 \<and> access_bits = PTE_R \<or>
              SSTATUS_MXR AND sstatus \<noteq> 0 \<and> (v AND PTE_R) OR (v AND PTE_X) = 0 \<and> access_bits = PTE_R then False
          else if priv_mode (core s) = RV_PRIV_S_MODE \<and> SSTATUS_SUM AND sstatus = 0 \<and> v AND PTE_U \<noteq> 0 then False
          else True))"

definition mmu_fault_check :: "'a on_trap \<Rightarrow> 'a system_scheme \<Rightarrow> u32 option \<Rightarrow> u32 \<Rightarrow> u32 \<Rightarrow> 'a system_scheme \<times> bool" where
  "mmu_fault_check on_trap s pte vaddr access_bits =
    (if pte_permits s pte access_bits then (s, True)
     else (sys_trap on_trap (access_cause access_bits) vaddr s, False))"

definition CHECK_PENDING_SIGNAL :: "'a system_scheme \<Rightarrow> 'a system_scheme" where
  "CHECK_PENDING_SIGNAL s = s\<lparr>need_handle_signal := csr_sepc (core s) \<noteq> last_csr_sepc s\<rparr>"

section \<open>Translation\<close>

definition get_ppn_and_offset :: "'a system_scheme \<Rightarrow> u32 \<Rightarrow> u32 \<Rightarrow> u32 \<Rightarrow> u32" where
  "get_ppn_and_offset s pte level vaddr =
    (let ppn = shl (shr (pte_at s pte) (RV_PG_SHIFT - 2)) RV_PG_SHIFT;
         offset = (if level = 1 then vaddr AND mask (RV_PG_SHIFT + 10) else vaddr AND mask RV_PG_SHIFT)
     in ppn OR offset)"

text \<open>
  \<^verbatim>\<open>rw\<close> is true for a read. The end of the function after a successful walk is \<open>translate_leaf\<close>.
\<close>

definition translate_leaf :: "'a system_scheme \<Rightarrow> u32 \<Rightarrow> bool \<Rightarrow> u32 \<Rightarrow> u32 \<Rightarrow> 'a system_scheme \<times> u32" where
  "translate_leaf s vaddr rw pte level =
    (let s = (if pte_at s pte AND PTE_A = 0 then mark_pte pte PTE_A s else s);
         s = (if \<not> rw \<and> pte_at s pte AND PTE_D = 0 then mark_pte pte PTE_D s else s);
         s = dtlb_populate s vaddr pte level
     in (s, get_ppn_and_offset s pte level vaddr))"

definition mmu_translate :: "'a on_trap \<Rightarrow> 'a system_scheme \<Rightarrow> u32 \<Rightarrow> bool \<Rightarrow> 'a system_scheme \<times> u32" where
  "mmu_translate on_trap s vaddr rw =
    (if csr_satp (core s) = 0 then (s, vaddr)
     else case dtlb_lookup s vaddr (\<not> rw) of (s, paddr, hit) \<Rightarrow>
       if hit then (s, paddr)
       else
         (let bits = (if rw then PTE_R else PTE_W);
              walk = mmu_walk s vaddr;
              (s, ok) = mmu_fault_check on_trap s (map_option fst walk) vaddr bits
          in if ok then
               (case walk of None \<Rightarrow> (s, 0) | Some (pte, level) \<Rightarrow> translate_leaf s vaddr rw pte level)
             else
               (let s = CHECK_PENDING_SIGNAL s in
                if need_handle_signal s then (s, 0)
                else
                  (let walk = mmu_walk s vaddr;
                       (s, ok) = mmu_fault_check on_trap s (map_option fst walk) vaddr bits
                   in case walk of
                        None \<Rightarrow> (s\<lparr>need_handle_signal := True\<rparr>, 0)
                      | Some (pte, level) \<Rightarrow>
                          (if ok then translate_leaf s vaddr rw pte level
                           else (s\<lparr>need_handle_signal := True\<rparr>, 0))))))"

definition ifetch_leaf :: "'a system_scheme \<Rightarrow> u32 \<Rightarrow> u32 \<Rightarrow> u32 \<Rightarrow> 'a system_scheme \<times> u32" where
  "ifetch_leaf s vaddr pte level =
    (let s = (if pte_at s pte AND PTE_A = 0 then mark_pte pte PTE_A s else s);
         s = itlb_populate s vaddr pte level
     in (s, memory_ifetch (mem_base (core s)) (get_ppn_and_offset s pte level vaddr)))"

definition mmu_ifetch :: "'a on_trap \<Rightarrow> 'a system_scheme \<Rightarrow> u32 \<Rightarrow> 'a system_scheme \<times> u32" where
  "mmu_ifetch on_trap s vaddr =
    (if csr_satp (core s) = 0 then (s, memory_ifetch (mem_base (core s)) vaddr)
     else if need_retranslate s then (s, 0)
     else case itlb_lookup s vaddr of (paddr, hit) \<Rightarrow>
       if hit then (s, memory_ifetch (mem_base (core s)) paddr)
       else
         (let walk = mmu_walk s vaddr;
              (s, ok) = mmu_fault_check on_trap s (map_option fst walk) vaddr PTE_X
          in if ok then
               (case walk of None \<Rightarrow> (s, 0) | Some (pte, level) \<Rightarrow> ifetch_leaf s vaddr pte level)
             else
               (let s = CHECK_PENDING_SIGNAL s in
                if need_handle_signal s then (s, 0)
                else
                  (let walk = mmu_walk s vaddr in
                   case walk of
                     None \<Rightarrow> (s\<lparr>need_retranslate := True, need_handle_signal := True\<rparr>, 0)
                   | Some (pte, level) \<Rightarrow>
                       (let (s, ok) = mmu_fault_check on_trap s (Some pte) vaddr PTE_X in
                        if ok then ifetch_leaf s vaddr pte level
                        else (s\<lparr>need_retranslate := True, need_handle_signal := True\<rparr>, 0))))))"

end
