(* ===== verification/Mmu_Correct.thy ===== *)
theory Mmu_Correct
  imports Mmu Sample
begin

unbundle bit_operations_syntax

text \<open>
  The walk is the Sv32 algorithm of the privileged architecture, and translation through the
  look-aside buffer gives the address of a fresh walk as long as the buffer agrees with the page
  tables, which every translation keeps and a flush restores.
\<close>

section \<open>Entries in memory\<close>

lemma unat_word_arith:
  fixes a b :: u32
  shows "unat a + unat b < 2 ^ 32 \<Longrightarrow> unat (a + b) = unat a + unat b"
    "unat a * unat b < 2 ^ 32 \<Longrightarrow> unat (a * b) = unat a * unat b"
  by (simp_all add: unat_word_ariths)

lemma and_3_mod: "(p :: u32) AND 3 = 0 \<longleftrightarrow> unat p mod 4 = 0"
proof -
  have "unat (p AND mask 2) = unat p mod 2 ^ 2"
    by (subst take_bit_eq_mask [symmetric], subst unsigned_take_bit_eq) (rule take_bit_eq_mod)
  then have "unat (p AND 3) = unat p mod 4" by (simp add: mask_eq_exp_minus_1)
  moreover have "p AND 3 = 0 \<longleftrightarrow> unat (p AND 3) = 0" by (simp only: unat_eq_zero)
  ultimately show ?thesis by simp
qed

lemma pte_at_mark:
  assumes "p AND 3 = 0" "q AND 3 = 0"
  shows "pte_at (mark_pte p bits s) q = (if q = p then pte_at s p OR bits else pte_at s q)"
proof (cases "q = p")
  case True
  have "of_le (to_le 4 (pte_at s p OR bits)) = pte_at s p OR bits" by (rule of_le_to_le) simp
  moreover have "memcpy_from (memcpy_to m a (to_le 4 v)) a 4 = to_le 4 v" for m a and v :: u32
    using memcpy_from_to [of m a "to_le 4 v"] by simp
  ultimately show ?thesis using True by (simp add: pte_at_def mark_pte_def memory_read_w_def memory_write_w_def)
next
  case False
  then have "unat q + 4 \<le> unat p \<or> unat p + 4 \<le> unat q"
    using assms unfolding and_3_mod by (simp only: word_unat_eq_iff) presburger
  then have "memcpy_from (memcpy_to m (unat p) (to_le 4 v)) (unat q) 4 = memcpy_from m (unat q) 4" for m and v :: u32
    using memcpy_from_to_disjoint [of "unat q" 4 "unat p" "to_le 4 v" m] by simp
  with False show ?thesis by (simp add: pte_at_def mark_pte_def memory_read_w_def memory_write_w_def)
qed

lemma mark_pte_simps [simp]:
  "csr_satp (core (mark_pte p bits s)) = csr_satp (core s)" "mem_size (core (mark_pte p bits s)) = mem_size (core s)"
  "csr_sstatus (core (mark_pte p bits s)) = csr_sstatus (core s)" "priv_mode (core (mark_pte p bits s)) = priv_mode (core s)"
  "dtlb (mark_pte p bits s) = dtlb s" "itlb (mark_pte p bits s) = itlb s"
  by (simp_all add: mark_pte_def)

section \<open>The walk\<close>

text \<open>
  The algorithm of the privileged architecture for Sv32, on numbers: page tables at \<open>a * 4096\<close>,
  two levels, an entry is invalid without V or with W and not R, a leaf has R or X, a leaf at the
  first level must be aligned. Tables outside the \<open>pages\<close> pages of memory cannot be read.
\<close>

definition leaf_or_bad :: "u32 \<Rightarrow> bool option" where
  "leaf_or_bad v = (if \<not> bit v 0 \<or> (\<not> bit v 1 \<and> bit v 2) then None else Some (bit v 1 \<or> bit v 3))"

definition sv32_entry :: "memory \<Rightarrow> nat \<Rightarrow> nat \<Rightarrow> nat \<times> u32" where
  "sv32_entry m a vpn = (a * 4096 + vpn * 4, of_le (memcpy_from m (a * 4096 + vpn * 4) 4))"

definition sv32_walk :: "nat \<Rightarrow> memory \<Rightarrow> u32 \<Rightarrow> u32 \<Rightarrow> (nat \<times> u32 \<times> nat) option" where
  "sv32_walk pages m satp va =
    (let a = unat satp mod 2 ^ 22 in
     if a \<ge> pages then None
     else let (p1, v1) = sv32_entry m a (unat va div 2 ^ 22) in
     case leaf_or_bad v1 of
       None \<Rightarrow> None
     | Some True \<Rightarrow> (if unat v1 div 2 ^ 10 mod 2 ^ 10 \<noteq> 0 then None else Some (p1, v1, 1))
     | Some False \<Rightarrow>
         (let a = unat v1 div 2 ^ 10 in
          if a \<ge> pages then None
          else let (p0, v0) = sv32_entry m a (unat va div 2 ^ 12 mod 2 ^ 10) in
          (case leaf_or_bad v0 of Some True \<Rightarrow> Some (p0, v0, 0) | _ \<Rightarrow> None)))"

text \<open>The 34-bit physical address.\<close>

definition sv32_address :: "u32 \<Rightarrow> nat \<Rightarrow> u32 \<Rightarrow> nat" where
  "sv32_address v i va =
    (if i = 1 then unat v div 2 ^ 20 * 2 ^ 22 + unat va mod 2 ^ 22
     else unat v div 2 ^ 10 * 2 ^ 12 + unat va mod 2 ^ 12)"

lemma unat_shr: "unat (shr (v :: u32) n) = unat v div 2 ^ n"
  by (subst unat_drop_bit_eq) (rule drop_bit_eq_div)

lemma unat_and_mask: "unat ((v :: u32) AND mask n) = unat v mod 2 ^ n"
  by (subst take_bit_eq_mask [symmetric], subst unsigned_take_bit_eq) (rule take_bit_eq_mod)

lemma and_mask_4: "(v :: u32) AND mask 4 = (if bit v 0 then 1 else 0) OR (if bit v 1 then 2 else 0) OR
    (if bit v 2 then 4 else 0) OR (if bit v 3 then 8 else 0)"
  by (rule word32_eqI) (simp add: bit_simps)

lemma xwrv_cases:
  fixes v :: u32
  shows "v AND mask 4 = 1 \<longleftrightarrow> leaf_or_bad v = Some False"
    "(v AND mask 4 = 3 \<or> v AND mask 4 = 7 \<or> v AND mask 4 = 9 \<or> v AND mask 4 = 11 \<or> v AND mask 4 = 15) \<longleftrightarrow>
      leaf_or_bad v = Some True"
  by (simp_all add: and_mask_4 leaf_or_bad_def)

lemma xwrv_exclusive: "leaf_or_bad v = Some True \<Longrightarrow> v AND mask 4 \<noteq> 1"
  by (simp add: xwrv_cases(1))

lemma page_valid:
  assumes "unat (mem_size (core s)) \<le> 2 ^ 32"
  shows "ppn_is_valid s ppn \<longleftrightarrow> unat ppn < unat (mem_size (core s)) div 4096"
proof -
  have "unat (mem_size (core s) div 4096) = unat (mem_size (core s)) div 4096" by (simp add: unat_div)
  moreover from this have "unat (ucast (mem_size (core s) div 4096) :: u32) = unat (mem_size (core s) div 4096)"
    using assms by (simp add: unsigned_ucast_eq take_bit_nat_eq_self)
  ultimately show ?thesis by (simp add: ppn_is_valid_def Let_def word_less_nat_alt)
qed

text \<open>The offset of an entry: no wrap-around, and a multiple of four.\<close>

lemma entry_offset:
  assumes "unat (mem_size (core s)) \<le> 2 ^ 32" "ppn_is_valid s ppn" "unat vpn < 1024"
  shows "unat (shl ppn 12 + 4 * vpn) = unat ppn * 4096 + unat vpn * 4" "(shl ppn 12 + 4 * vpn) AND 3 = 0"
proof -
  have "unat ppn < 2 ^ 20" using page_valid [OF assms(1)] assms(1,2) by auto
  then have "unat (shl ppn 12) = unat ppn * 4096"
    by (subst unsigned_push_bit_eq) (simp add: push_bit_eq_mult take_bit_nat_eq_self)
  moreover have "unat (4 * vpn) = unat vpn * 4" using assms(3) by (simp add: unat_word_ariths)
  ultimately show u: "unat (shl ppn 12 + 4 * vpn) = unat ppn * 4096 + unat vpn * 4"
    using unat_word_arith(1) [of "shl ppn 12" "4 * vpn"] \<open>unat ppn < 2 ^ 20\<close> assms(3) by simp
  have "unat ppn * 4096 + unat vpn * 4 = (unat ppn * 1024 + unat vpn) * 4" by simp
  then show "(shl ppn 12 + 4 * vpn) AND 3 = 0" unfolding and_3_mod u by simp
qed

lemma vpn_unat:
  "unat (shr (shr vaddr 12) (1 * (12 - 2)) AND mask 10) = unat vaddr div 2 ^ 22"
  "unat (shr (shr vaddr 12) (0 * (12 - 2)) AND mask 10) = unat vaddr div 2 ^ 12 mod 2 ^ 10" for vaddr :: u32
proof -
  have "unat vaddr div 2 ^ 22 < 2 ^ 10" using unsigned_less [of vaddr, where 'a = nat] by simp
  then show "unat (shr (shr vaddr 12) (1 * (12 - 2)) AND mask 10) = unat vaddr div 2 ^ 22"
    by (simp add: unat_and_mask unat_shr div_mult2_eq [symmetric] del: drop_bit_drop_bit take_bit_eq_mask)
  show "unat (shr (shr vaddr 12) (0 * (12 - 2)) AND mask 10) = unat vaddr div 2 ^ 12 mod 2 ^ 10"
    by (simp add: unat_and_mask unat_shr)
qed

abbreviation (input) pte_addr1 :: "u32 \<Rightarrow> u32 \<Rightarrow> u32" where
  "pte_addr1 ppn vaddr \<equiv> shl ppn 12 + 4 * (shr (shr vaddr 12) (1 * (12 - 2)) AND mask 10)"

abbreviation (input) pte_addr0 :: "u32 \<Rightarrow> u32 \<Rightarrow> u32" where
  "pte_addr0 ppn vaddr \<equiv> shl ppn 12 + 4 * (shr (shr vaddr 12) (0 * (12 - 2)) AND mask 10)"

lemma walk_loop_0:
  "walk_loop s vaddr 0 (shl ppn 12) =
    (if leaf_or_bad (pte_at s (pte_addr0 ppn vaddr)) = Some True then Some (pte_addr0 ppn vaddr, 2) else None)"
  by (subst walk_loop.simps) (simp add: Let_def xwrv_cases split: option.split)

lemma walk_loop_1:
  "walk_loop s vaddr 1 (shl ppn 12) =
    (let p = pte_addr1 ppn vaddr; v = pte_at s p in
     case leaf_or_bad v of
       None \<Rightarrow> None
     | Some True \<Rightarrow> (if shr v 10 AND mask 10 \<noteq> 0 then None else Some (p, 1))
     | Some False \<Rightarrow> (if ppn_is_valid s (shr v 10) then walk_loop s vaddr 0 (shl (shr v 10) 12) else None))"
  by (subst walk_loop.simps) (simp only: Let_def xwrv_cases PAGE_TABLE_def, simp split: option.split bool.split)

lemma mmu_walk_levels:
  "mmu_walk s vaddr =
    (if ppn_is_valid s (csr_satp (core s) AND mask 22) then walk_loop s vaddr 1 (shl (csr_satp (core s) AND mask 22) 12) else None)"
  by (simp add: mmu_walk_def PAGE_TABLE_def Let_def)

lemma sv32_entry_at:
  assumes "unat (mem_size (core s)) \<le> 2 ^ 32" "ppn_is_valid s ppn"
  shows "sv32_entry (mem_base (core s)) (unat ppn) (unat vaddr div 2 ^ 22) = (unat (pte_addr1 ppn vaddr), pte_at s (pte_addr1 ppn vaddr))"
    "sv32_entry (mem_base (core s)) (unat ppn) (unat vaddr div 2 ^ 12 mod 2 ^ 10) = (unat (pte_addr0 ppn vaddr), pte_at s (pte_addr0 ppn vaddr))"
proof -
  have "unat vaddr div 2 ^ 22 < 1024" using unsigned_less [of vaddr, where 'a = nat] by simp
  then show "sv32_entry (mem_base (core s)) (unat ppn) (unat vaddr div 2 ^ 22) = (unat (pte_addr1 ppn vaddr), pte_at s (pte_addr1 ppn vaddr))"
    using entry_offset(1) [OF assms, unfolded vpn_unat, of "shr (shr vaddr 12) (1 * (12 - 2)) AND mask 10"]
    unfolding vpn_unat by (simp add: sv32_entry_def pte_at_def memory_read_w_def)
  have "unat vaddr div 2 ^ 12 mod 2 ^ 10 < 1024" by simp
  then show "sv32_entry (mem_base (core s)) (unat ppn) (unat vaddr div 2 ^ 12 mod 2 ^ 10) = (unat (pte_addr0 ppn vaddr), pte_at s (pte_addr0 ppn vaddr))"
    using entry_offset(1) [OF assms, of "shr (shr vaddr 12) (0 * (12 - 2)) AND mask 10"]
    unfolding vpn_unat by (simp add: sv32_entry_def pte_at_def memory_read_w_def)
qed

lemma mmu_walk_sv32:
  assumes "unat (mem_size (core s)) \<le> 2 ^ 32"
  shows "map_option (\<lambda>(p, level). (unat p, pte_at s p, 2 - unat level)) (mmu_walk s vaddr) =
    sv32_walk (unat (mem_size (core s)) div 4096) (mem_base (core s)) (csr_satp (core s)) vaddr"
proof (cases "ppn_is_valid s (csr_satp (core s) AND mask 22)")
  case False
  then show ?thesis using page_valid [OF assms] by (simp add: mmu_walk_levels sv32_walk_def Let_def unat_and_mask)
next
  case True
  let ?a = "csr_satp (core s) AND mask 22"
  have ua: "unat (csr_satp (core s)) mod 2 ^ 22 = unat ?a" "\<not> unat (mem_size (core s)) div 4096 \<le> unat ?a"
    using True page_valid [OF assms, of ?a] by (simp_all add: unat_and_mask)
  define p where "p = pte_addr1 ?a vaddr"
  define v where "v = pte_at s p"
  have e1: "sv32_entry (mem_base (core s)) (unat ?a) (unat vaddr div 2 ^ 22) = (unat p, v)"
    using sv32_entry_at(1) [OF assms True] by (simp only: p_def v_def)
  have w: "mmu_walk s vaddr = (case leaf_or_bad v of
       None \<Rightarrow> None
     | Some True \<Rightarrow> (if shr v 10 AND mask 10 \<noteq> 0 then None else Some (p, 1))
     | Some False \<Rightarrow> (if ppn_is_valid s (shr v 10) then walk_loop s vaddr 0 (shl (shr v 10) 12) else None))"
    using True unfolding mmu_walk_levels walk_loop_1 Let_def p_def v_def by simp
  have al: "shr v 10 AND mask 10 = 0 \<longleftrightarrow> unat v div 2 ^ 10 mod 2 ^ 10 = 0"
    unfolding unat_shr [symmetric] unat_and_mask [symmetric] by (simp only: unat_eq_zero)
  note pv = page_valid [OF assms, of "shr v 10", unfolded unat_shr]
  have rest: "map_option (\<lambda>(p, level). (unat p, pte_at s p, 2 - unat level)) (walk_loop s vaddr 0 (shl (shr v 10) 12)) =
      (let (p0, v0) = sv32_entry (mem_base (core s)) (unat v div 2 ^ 10) (unat vaddr div 2 ^ 12 mod 2 ^ 10) in
        (case leaf_or_bad v0 of Some True \<Rightarrow> Some (p0, v0, 0) | _ \<Rightarrow> None))" if "ppn_is_valid s (shr v 10)"
    using sv32_entry_at(2) [OF assms that] unfolding unat_shr walk_loop_0 by (simp split: option.split bool.split)
  show ?thesis
    unfolding sv32_walk_def Let_def ua(1) e1 case_prod_conv w
    using ua(2) al pv rest v_def [symmetric] by (auto simp: Let_def split: option.splits bool.splits)
qed

lemma mmu_walk_cases:
  assumes "mmu_walk s vaddr = Some (p, level)"
  shows "\<exists>ppn. ppn_is_valid s ppn \<and> leaf_or_bad (pte_at s p) = Some True \<and>
    (p = pte_addr1 ppn vaddr \<and> level = 1 \<and> shr (pte_at s p) 10 AND mask 10 = 0 \<or> p = pte_addr0 ppn vaddr \<and> level = 2)"
proof -
  define a where "a = csr_satp (core s) AND mask 22"
  define q where "q = pte_addr1 a vaddr"
  define v where "v = pte_at s q"
  have va: "ppn_is_valid s a" and w: "walk_loop s vaddr 1 (shl a 12) = Some (p, level)"
    using assms unfolding mmu_walk_levels a_def [symmetric] by (auto split: if_splits)
  consider "leaf_or_bad v = Some True" "p = q" "level = 1" "shr v 10 AND mask 10 = 0"
    | "ppn_is_valid s (shr v 10)" "walk_loop s vaddr 0 (shl (shr v 10) 12) = Some (p, level)"
    using w unfolding walk_loop_1 Let_def q_def [symmetric] v_def [symmetric]
    by (auto split: option.splits bool.splits if_splits)
  then show ?thesis
  proof cases
    case 1
    then show ?thesis using va by (intro exI [of _ a]) (simp only: v_def q_def simp_thms)
  next
    case 2
    define b where "b = shr v 10"
    define r where "r = pte_addr0 b vaddr"
    have "p = r" "level = 2" "leaf_or_bad (pte_at s r) = Some True"
      using 2(2) unfolding walk_loop_0 b_def [symmetric] r_def [symmetric] by (auto split: if_splits)
    then show ?thesis using 2(1) by (intro exI [of _ b]) (simp only: b_def r_def simp_thms)
  qed
qed

lemma mmu_walk_Some:
  assumes "mmu_walk s vaddr = Some (p, level)" "unat (mem_size (core s)) \<le> 2 ^ 32"
  shows "p AND 3 = 0" "level = 1 \<or> level = 2" "leaf_or_bad (pte_at s p) = Some True"
proof -
  obtain ppn where ppn: "ppn_is_valid s ppn" "leaf_or_bad (pte_at s p) = Some True"
    "p = pte_addr1 ppn vaddr \<and> level = 1 \<and> shr (pte_at s p) 10 AND mask 10 = 0 \<or> p = pte_addr0 ppn vaddr \<and> level = 2" using mmu_walk_cases [OF assms(1)] by blast
  have "pte_addr1 ppn vaddr AND 3 = 0" "pte_addr0 ppn vaddr AND 3 = 0"
    by (rule entry_offset(2) [OF assms(2) ppn(1)]; simp add: unat_and_mask)+
  with ppn(3) show "p AND 3 = 0" by metis
  show "level = 1 \<or> level = 2" using ppn(3) by blast
  show "leaf_or_bad (pte_at s p) = Some True" by (rule ppn(2))
qed

text \<open>Only bits that the accessed and dirty flags leave alone decide a walk.\<close>

definition flag_bits :: "u32 \<Rightarrow> bool" where
  "flag_bits b \<longleftrightarrow> b = PTE_A \<or> b = PTE_D"

lemma flag_bits_entry:
  assumes "flag_bits b"
  shows "leaf_or_bad (v OR b) = leaf_or_bad v" "shr (v OR b) 10 = shr v 10" "(v OR b) AND 0x1E = v AND 0x1E" "shr b 10 = 0"
proof -
  have b: "\<not> bit b 0" "\<not> bit b 1" "\<not> bit b 2" "\<not> bit b 3" "\<not> bit b 4" "shr b 10 = 0"
    using assms by (auto simp: flag_bits_def)
  show "leaf_or_bad (v OR b) = leaf_or_bad v" using b by (simp add: leaf_or_bad_def bit_or_iff)
  show "shr (v OR b) 10 = shr v 10" using b(6) by simp
  show "(v OR b) AND 0x1E = v AND 0x1E" by (rule word32_eqI) (use b in \<open>simp add: bit_simps\<close>)
  show "shr b 10 = 0" by (rule b(6))
qed

lemma mmu_walk_cong:
  assumes "csr_satp (core s') = csr_satp (core s)" "mem_size (core s') = mem_size (core s)" "unat (mem_size (core s)) \<le> 2 ^ 32"
    and "\<And>q. q AND 3 = 0 \<Longrightarrow> leaf_or_bad (pte_at s' q) = leaf_or_bad (pte_at s q) \<and> shr (pte_at s' q) 10 = shr (pte_at s q) 10"
  shows "mmu_walk s' vaddr = mmu_walk s vaddr"
proof -
  have pv: "ppn_is_valid s' = ppn_is_valid s" using assms(2) by (simp add: ppn_is_valid_def fun_eq_iff)
  have al: "pte_addr1 ppn vaddr AND 3 = 0" "pte_addr0 ppn vaddr AND 3 = 0" if "ppn_is_valid s ppn" for ppn
    by (rule entry_offset(2) [OF assms(3) that]; simp add: unat_and_mask)+
  have w0: "walk_loop s' vaddr 0 (shl ppn 12) = walk_loop s vaddr 0 (shl ppn 12)" if "ppn_is_valid s ppn" for ppn
    using assms(4) [OF al(2) [OF that]] by (simp add: walk_loop_0)
  have w1: "walk_loop s' vaddr 1 (shl ppn 12) = walk_loop s vaddr 1 (shl ppn 12)" if "ppn_is_valid s ppn" for ppn
    using assms(4) [OF al(1) [OF that]] w0 pv unfolding walk_loop_1 Let_def by (auto split: option.splits bool.splits)
  then show ?thesis unfolding mmu_walk_levels assms(1) pv by (simp del: push_bit_and One_nat_def)
qed

lemma mmu_walk_mark:
  assumes "flag_bits b" "p AND 3 = 0" "unat (mem_size (core s)) \<le> 2 ^ 32"
  shows "mmu_walk (mark_pte p b s) vaddr = mmu_walk s vaddr"
  by (rule mmu_walk_cong) (use assms in \<open>auto simp: pte_at_mark flag_bits_entry\<close>)

lemma mmu_walk_page: "mmu_walk s (shl (shr vaddr 12) 12) = mmu_walk s vaddr"
proof -
  have "shr (shl (shr vaddr 12) 12) 12 = shr vaddr 12"
    by (rule word32_eqI) (simp add: bit_simps bit_beyond)
  then show ?thesis unfolding mmu_walk_levels walk_loop_1 walk_loop_0 by (simp only: drop_bit_drop_bit [symmetric])
qed

section \<open>The look-aside buffers\<close>

text \<open>
  A valid entry agrees with the page tables: the walk for its page ends at the entry it was made
  from, which still has the cached frame and permissions and is marked as accessed, and as dirty
  if the buffer says so.
\<close>

definition entry_ok :: "'a system_scheme \<Rightarrow> tlb_entry \<Rightarrow> bool" where
  "entry_ok s e \<longleftrightarrow> (te_valid e \<longrightarrow>
    (\<exists>level. mmu_walk s (shl (te_vpn e) 12) = Some (te_pte_addr e, level) \<and> te_level e = ucast level \<and>
       te_ppn e = shl (shr (pte_at s (te_pte_addr e)) 10) 12 \<and>
       te_perm e = ucast (pte_at s (te_pte_addr e) AND 0x1E) \<and>
       pte_at s (te_pte_addr e) AND PTE_A \<noteq> 0 \<and>
       (te_dirty e \<longrightarrow> pte_at s (te_pte_addr e) AND PTE_D \<noteq> 0)))"

definition tlb_ok :: "'a system_scheme \<Rightarrow> bool" where
  "tlb_ok s \<longleftrightarrow> (\<forall>i. entry_ok s (dtlb s i) \<and> entry_ok s (itlb s i)) \<and> unat (mem_size (core s)) \<le> 2 ^ 32"

lemma or_and_nonzero: "(v :: u32) AND x \<noteq> 0 \<Longrightarrow> (v OR b) AND x \<noteq> 0"
  by (auto simp: bit_eq_iff bit_simps)

lemma entry_ok_mark:
  assumes "entry_ok s e" "flag_bits b" "p AND 3 = 0" "unat (mem_size (core s)) \<le> 2 ^ 32"
  shows "entry_ok (mark_pte p b s) e"
proof (cases "te_valid e")
  case True
  then obtain level where l: "mmu_walk s (shl (te_vpn e) 12) = Some (te_pte_addr e, level)" "te_level e = ucast level"
    "te_ppn e = shl (shr (pte_at s (te_pte_addr e)) 10) 12" "te_perm e = ucast (pte_at s (te_pte_addr e) AND 0x1E)"
    "pte_at s (te_pte_addr e) AND PTE_A \<noteq> 0" "te_dirty e \<longrightarrow> pte_at s (te_pte_addr e) AND PTE_D \<noteq> 0"
    using assms(1) by (auto simp: entry_ok_def)
  have al: "te_pte_addr e AND 3 = 0" by (rule mmu_walk_Some(1) [OF l(1) assms(4)])
  have pa: "pte_at (mark_pte p b s) (te_pte_addr e) = (if te_pte_addr e = p then pte_at s p OR b else pte_at s (te_pte_addr e))"
    by (rule pte_at_mark [OF assms(3) al])
  have "mmu_walk (mark_pte p b s) (shl (te_vpn e) 12) = Some (te_pte_addr e, level)"
    using l(1) mmu_walk_mark [OF assms(2-4)] by simp
  then show ?thesis using l(2-6) unfolding entry_ok_def pa
    by (auto simp: flag_bits_entry [OF assms(2)] or_and_nonzero)
qed (simp add: entry_ok_def)

lemma to_le_of_le:
  assumes "LENGTH('a::len) = 8 * length bs"
  shows "to_le (length bs) (of_le bs :: 'a word) = bs"
proof (rule nth_equalityI)
  fix i assume i: "i < length (to_le (length bs) (of_le bs :: 'a word))"
  show "to_le (length bs) (of_le bs :: 'a word) ! i = bs ! i"
  proof (rule bit_word_eqI)
    fix k assume "k < LENGTH(8)"
    then have k: "k < 8" "(8 * i + k) div 8 = i" "(8 * i + k) mod 8 = k" "8 * i + k < 8 * length bs"
      using i by simp_all
    then show "bit (to_le (length bs) (of_le bs :: 'a word) ! i) k \<longleftrightarrow> bit (bs ! i) k"
      using i assms by (simp add: bit_ucast_iff bit_drop_bit_eq bit_of_le)
  qed
qed simp

lemma memory_word_writes:
  "memory_write_w m p (memory_read_w m p) = m" "memory_write_w (memory_write_w m p v) p w = memory_write_w m p w"
  using to_le_of_le [of "memcpy_from m (unat p) 4", where 'a = 32]
  by (auto simp: memory_write_w_def memory_read_w_def memcpy_to_def fun_eq_iff)

lemma mark_mark:
  assumes "p AND 3 = 0"
  shows "mark_pte p c (mark_pte p b s) = mark_pte p (b OR c) s"
  using pte_at_mark [OF assms assms, of b s]
  by (simp add: mark_pte_def memory_word_writes or.assoc)

lemma mark_set: "pte_at s p OR b = pte_at s p \<Longrightarrow> mark_pte p b s = s"
  by (simp add: mark_pte_def) (simp add: pte_at_def memory_word_writes)

lemma flag_set: "flag_bits b \<Longrightarrow> v AND b \<noteq> 0 \<Longrightarrow> v OR b = v"
proof -
  assume "flag_bits b" "v AND b \<noteq> 0"
  then obtain k where "b = 2 ^ k" "bit v k"
    using and_exp_eq_0 [of v 6] and_exp_eq_0 [of v 7] that [of 6] that [of 7] by (auto simp: flag_bits_def)
  then show ?thesis by (intro bit_word_eqI) (auto simp: bit_simps)
qed

lemma mark_if: "flag_bits b \<Longrightarrow> (if pte_at s p AND b = 0 then mark_pte p b s else s) = mark_pte p b s"
  using mark_set [of s p b] flag_set [of b "pte_at s p"] by auto

text \<open>A walk depends on the machine, not on the buffers.\<close>

lemma core_cong:
  assumes "core s' = core s"
  shows "pte_at s' = pte_at s" "PAGE_TABLE s' = PAGE_TABLE s" "walk_loop s' vaddr i t = walk_loop s vaddr i t"
    "mmu_walk s' vaddr = mmu_walk s vaddr" "entry_ok s' e = entry_ok s e" "pte_permits s' = pte_permits s"
proof -
  show p: "pte_at s' = pte_at s" "PAGE_TABLE s' = PAGE_TABLE s"
    using assms by (simp_all add: pte_at_def PAGE_TABLE_def ppn_is_valid_def fun_eq_iff)
  show w: "walk_loop s' vaddr i t = walk_loop s vaddr i t" for vaddr i t
    by (induction i arbitrary: t; subst (1 2) walk_loop.simps; simp only: p nat.case)
  show m: "mmu_walk s' vaddr = mmu_walk s vaddr" for vaddr by (simp add: mmu_walk_def assms p w split: option.split)
  show "entry_ok s' e = entry_ok s e" by (simp add: entry_ok_def m p)
  show "pte_permits s' = pte_permits s" by (intro ext) (simp only: pte_permits_def p assms)
qed

lemma populated_ok:
  assumes "mmu_walk s vaddr = Some (p, level)" "pte_at s p AND PTE_A \<noteq> 0"
  shows "entry_ok s (tlb_entry_for s vaddr p level)"
  using assms mmu_walk_page [of s vaddr] by (simp add: entry_ok_def tlb_entry_for_def)

section \<open>Translation of data addresses\<close>

lemma perm_needed:
  "(ucast (v AND 0x1E) :: u8) AND 4 = 0 \<longleftrightarrow> v AND PTE_W = 0" "(ucast (v AND 0x1E) :: u8) AND 2 = 0 \<longleftrightarrow> v AND PTE_R = 0"
  "(ucast (v AND 0x1E) :: u8) AND 8 = 0 \<longleftrightarrow> v AND PTE_X = 0" for v :: u32
  using and_exp_eq_0 [of "ucast (v AND 0x1E) :: u8" 2] and_exp_eq_0 [of "ucast (v AND 0x1E) :: u8" 1]
    and_exp_eq_0 [of "ucast (v AND 0x1E) :: u8" 3] and_exp_eq_0 [of v 2] and_exp_eq_0 [of v 1] and_exp_eq_0 [of v 3]
  by (simp_all add: bit_simps)

text \<open>What a data access does to its entry: mark it as accessed, and as dirty if it is a write.\<close>

definition access_marks :: "bool \<Rightarrow> u32" where
  "access_marks rw = (if rw then PTE_A else PTE_A OR PTE_D)"

lemma tlb_ok_cong:
  assumes "core s' = core (mark_pte p b s)" "\<And>i. entry_ok s' (dtlb s' i)" "itlb s' = itlb s"
    and "tlb_ok s" "p AND 3 = 0" "\<And>e. entry_ok s e \<Longrightarrow> entry_ok (mark_pte p b s) e"
  shows "tlb_ok s'"
  using assms(2-) core_cong(5) [OF assms(1)] by (auto simp: tlb_ok_def assms(1))

lemma translate_leaf_ok:
  assumes "tlb_ok s" "mmu_walk s vaddr = Some (p, level)"
  shows "\<exists>s'. translate_leaf s vaddr rw p level = (s', get_ppn_and_offset s p level vaddr) \<and>
    core s' = core (mark_pte p (access_marks rw) s) \<and> tlb_ok s'"
proof -
  have ms: "unat (mem_size (core s)) \<le> 2 ^ 32" using assms(1) by (simp add: tlb_ok_def)
  note al = mmu_walk_Some(1) [OF assms(2) ms]
  have fb: "flag_bits PTE_A" "flag_bits PTE_D" by (simp_all add: flag_bits_def)
  let ?m = "mark_pte p (access_marks rw) s"
  have "(if \<not> rw \<and> pte_at (mark_pte p PTE_A s) p AND PTE_D = 0 then mark_pte p PTE_D (mark_pte p PTE_A s) else mark_pte p PTE_A s) = ?m"
    using mark_if [OF fb(2), of "mark_pte p PTE_A s" p] mark_mark [OF al, of PTE_D PTE_A s] by (auto simp: access_marks_def)
  then have tl: "translate_leaf s vaddr rw p level =
      (dtlb_populate ?m vaddr p level, get_ppn_and_offset (dtlb_populate ?m vaddr p level) p level vaddr)"
    unfolding translate_leaf_def Let_def mark_if [OF fb(1)] by simp
  have eo: "entry_ok ?m e" if "entry_ok s e" for e
    using entry_ok_mark [OF entry_ok_mark [OF that fb(1) al ms] fb(2) al] entry_ok_mark [OF that fb(1) al ms] ms mark_mark [OF al, of PTE_D PTE_A s]
    by (simp add: access_marks_def)
  have wm: "mmu_walk ?m vaddr = Some (p, level)"
    using mmu_walk_mark [OF fb(2) al, of "mark_pte p PTE_A s"] mmu_walk_mark [OF fb(1) al ms] ms assms(2) mark_mark [OF al, of PTE_D PTE_A s]
    by (simp add: access_marks_def)
  have pa: "pte_at ?m p = pte_at s p OR access_marks rw" by (simp add: pte_at_mark [OF al al])
  have "pte_at ?m p AND PTE_A \<noteq> 0"
    using and_exp_eq_0 [of "pte_at s p OR access_marks rw" 6] unfolding pa by (auto simp: access_marks_def bit_simps split: if_splits)
  note pop = populated_ok [OF wm this]
  have sh: "shr (pte_at ?m p) 10 = shr (pte_at s p) 10"
    unfolding pa by (simp add: access_marks_def)
  have co: "core (dtlb_populate ?m vaddr p level) = core ?m" by (simp add: dtlb_populate_def Let_def)
  have ppn: "get_ppn_and_offset (dtlb_populate ?m vaddr p level) p level vaddr = get_ppn_and_offset s p level vaddr"
    using sh by (simp add: get_ppn_and_offset_def core_cong(1) [OF co])
  have "tlb_ok (dtlb_populate ?m vaddr p level)"
    by (rule tlb_ok_cong [of _ p "access_marks rw" s])
      (use eo pop assms(1) al in \<open>auto simp: dtlb_populate_def Let_def tlb_ok_def core_cong(5) [of "_\<lparr>dtlb := _\<rparr>" ?m]\<close>)
  then show ?thesis using tl ppn by (auto simp: dtlb_populate_def Let_def)
qed

text \<open>A hit is for the entry the walk finds, and it is a hit exactly if the entry permits the access.\<close>

lemma dtlb_lookup_hit:
  assumes "tlb_ok s" "mmu_walk s vaddr = Some (p, level)" "dtlb_lookup s vaddr (\<not> rw) = (s', pa, True)"
  shows "pa = get_ppn_and_offset s p level vaddr" "core s' = core (mark_pte p (access_marks rw) s)" "tlb_ok s'"
    "pte_at s p AND (if rw then PTE_R else PTE_W) \<noteq> 0"
proof -
  have ms: "unat (mem_size (core s)) \<le> 2 ^ 32" using assms(1) by (simp add: tlb_ok_def)
  note al = mmu_walk_Some(1) [OF assms(2) ms]
  have fb: "flag_bits PTE_A" "flag_bits PTE_D" by (simp_all add: flag_bits_def)
  define i where "i = unat (shr vaddr 12 AND TLB_MASK)"
  define e where "e = dtlb s i"
  have hit: "te_valid e" "te_vpn e = shr vaddr 12" "te_perm e AND (if rw then 2 else 4) \<noteq> 0"
    "pa = te_ppn e OR tlb_offset e vaddr"
    "s' = (if \<not> rw \<and> \<not> te_dirty e then (mark_pte (te_pte_addr e) PTE_D s)\<lparr>dtlb := (dtlb s)(i := e\<lparr>te_dirty := True\<rparr>)\<rparr> else s)"
    using assms(3) unfolding dtlb_lookup_def Let_def i_def [symmetric] e_def [symmetric] by (auto split: if_splits)
  have "entry_ok s e" using assms(1) by (simp add: tlb_ok_def e_def)
  then have eo: "te_pte_addr e = p" "te_level e = ucast level" "te_ppn e = shl (shr (pte_at s p) 10) 12"
    "te_perm e = ucast (pte_at s p AND 0x1E)" "pte_at s p AND PTE_A \<noteq> 0" "te_dirty e \<longrightarrow> pte_at s p AND PTE_D \<noteq> 0"
    using hit(1,2) assms(2) mmu_walk_page [of s vaddr] by (auto simp: entry_ok_def)
  show "pte_at s p AND (if rw then PTE_R else PTE_W) \<noteq> 0" using hit(3) perm_needed [of "pte_at s p"] by (simp add: eo(4) split: if_splits)
  have "level = 1 \<or> level = 2" by (rule mmu_walk_Some(2) [OF assms(2) ms])
  then have "te_level e = 1 \<longleftrightarrow> level = 1" unfolding eo(2) by auto
  then show "pa = get_ppn_and_offset s p level vaddr"
    unfolding hit(4) get_ppn_and_offset_def tlb_offset_def eo(3) by simp
  have a: "pte_at s p OR PTE_A = pte_at s p" by (rule flag_set [OF fb(1) eo(5)])
  have ad: "pte_at s p OR (PTE_A OR PTE_D) = pte_at s p OR PTE_D" by (simp only: a flip: or.assoc)
  have d: "te_dirty e \<Longrightarrow> pte_at s p OR PTE_D = pte_at s p" using flag_set [OF fb(2)] eo(6) by blast
  have mk: "core s' = core (mark_pte p (access_marks rw) s) \<and> tlb_ok s'"
  proof (cases "\<not> rw \<and> \<not> te_dirty e")
    case False
    then have "pte_at s p OR access_marks rw = pte_at s p" using a ad d by (auto simp: access_marks_def)
    with False show ?thesis using mark_set [of s p "access_marks rw"] assms(1) hit(5) by auto
  next
    case True
    have c: "mark_pte p (access_marks rw) s = mark_pte p PTE_D s" using True ad by (simp add: access_marks_def mark_pte_def)
    have en: "entry_ok (mark_pte p PTE_D s) f" if "entry_ok s f" for f by (rule entry_ok_mark [OF that fb(2) al ms])
    have "pte_at (mark_pte p PTE_D s) p AND PTE_D \<noteq> 0"
      using and_exp_eq_0 [of "pte_at s p OR PTE_D" 7] by (simp add: pte_at_mark [OF al al] bit_simps)
    then have "entry_ok (mark_pte p PTE_D s) (e\<lparr>te_dirty := True\<rparr>)"
      using en [OF \<open>entry_ok s e\<close>] by (auto simp: entry_ok_def eo(1))
    with True show ?thesis using en assms(1) unfolding hit(5) eo(1) c
      by (auto simp: tlb_ok_def core_cong(5) [of "_\<lparr>dtlb := _\<rparr>" "mark_pte p PTE_D s"])
  qed
  then show "core s' = core (mark_pte p (access_marks rw) s)" "tlb_ok s'" by blast+
qed

lemma mmu_translate_ok:
  assumes "tlb_ok s" "csr_satp (core s) \<noteq> 0" "mmu_walk s vaddr = Some (p, level)"
    and "pte_permits s (Some p) (if rw then PTE_R else PTE_W)"
  shows "\<exists>s'. mmu_translate on_trap s vaddr rw = (s', get_ppn_and_offset s p level vaddr) \<and>
    core s' = core (mark_pte p (access_marks rw) s) \<and> tlb_ok s'"
proof (cases "dtlb_lookup s vaddr (\<not> rw)")
  case (fields s1 pa hit)
  show ?thesis
  proof (cases hit)
    case True
    with fields dtlb_lookup_hit [OF assms(1,3)] assms(2) show ?thesis by (auto simp: mmu_translate_def)
  next
    case False
    then have "s1 = s" using fields by (auto simp: dtlb_lookup_def Let_def split: if_splits)
    then have "mmu_translate on_trap s vaddr rw = translate_leaf s vaddr rw p level"
      using False fields assms(2-4) by (auto simp: mmu_translate_def mmu_fault_check_def Let_def split: if_splits)
    with translate_leaf_ok [OF assms(1,3), of rw] show ?thesis by simp
  qed
qed

section \<open>Physical addresses\<close>

lemma frame_or_offset:
  fixes w va :: u32
  assumes "unat w * 2 ^ 12 = k * 2 ^ n" "n \<le> 32"
  shows "unat (shl w 12 OR (va AND mask n)) = (k * 2 ^ n + unat va mod 2 ^ n) mod 2 ^ 32"
proof -
  have a: "unat (shl w 12) = take_bit 32 (push_bit n k)"
    unfolding unsigned_push_bit_eq using assms(1) by (simp add: push_bit_eq_mult)
  have b: "unat (va AND mask n) = take_bit n (unat va)"
    by (simp only: unat_and_mask take_bit_eq_mod)
  have d: "push_bit n k AND take_bit n (unat va) = 0" by (rule bit_eqI) (auto simp: bit_simps)
  have "unat (shl w 12 OR (va AND mask n)) = take_bit 32 (push_bit n k) OR take_bit n (unat va)"
    unfolding unsigned_or_eq a b ..
  also have "\<dots> = take_bit 32 (push_bit n k OR take_bit n (unat va))"
    using assms(2) by (simp add: take_bit_or min_def)
  also have "\<dots> = take_bit 32 (push_bit n k + take_bit n (unat va))" using disjunctive_add_eq_or [OF d] by simp
  finally show ?thesis by (simp only: take_bit_eq_mod push_bit_eq_mult)
qed

lemma address_sv32:
  assumes "mmu_walk s vaddr = Some (p, level)"
  shows "unat (get_ppn_and_offset s p level vaddr) = sv32_address (pte_at s p) (2 - unat level) vaddr mod 2 ^ 32"
proof -
  let ?v = "pte_at s p"
  show ?thesis
  proof (cases "level = 1")
    case True
    have "shr ?v 10 AND mask 10 = 0" using mmu_walk_cases [OF assms] True by auto
    then have "unat ?v div 2 ^ 10 mod 2 ^ 10 = 0"
      unfolding unat_shr [symmetric] unat_and_mask [symmetric] by (simp only: unat_eq_zero)
    then have "unat (shr ?v 10) = unat ?v div 2 ^ 20 * 2 ^ 10"
      using div_mult_mod_eq [of "unat ?v div 2 ^ 10" "2 ^ 10"] unfolding unat_shr by (simp add: div_mult2_eq [symmetric])
    then have "unat (shr ?v 10) * 2 ^ 12 = unat ?v div 2 ^ 20 * 2 ^ 22" by simp
    from frame_or_offset [OF this] True show ?thesis by (simp add: get_ppn_and_offset_def sv32_address_def)
  next
    case False
    then have "level = 2" using mmu_walk_cases [OF assms] by blast
    moreover have "unat (shr ?v 10) * 2 ^ 12 = unat ?v div 2 ^ 10 * 2 ^ 12" by (simp only: unat_shr)
    from frame_or_offset [OF this] False calculation show ?thesis by (simp add: get_ppn_and_offset_def sv32_address_def)
  qed
qed

section \<open>Instruction fetch\<close>

lemma itlb_lookup_hit:
  assumes "tlb_ok s" "mmu_walk s vaddr = Some (p, level)" "itlb_lookup s vaddr = (pa, True)"
  shows "pa = get_ppn_and_offset s p level vaddr" "mark_pte p PTE_A s = s"
proof -
  have ms: "unat (mem_size (core s)) \<le> 2 ^ 32" using assms(1) by (simp add: tlb_ok_def)
  define e where "e = itlb s (unat (shr vaddr 12 AND TLB_MASK))"
  have hit: "te_valid e" "te_vpn e = shr vaddr 12" "pa = te_ppn e OR tlb_offset e vaddr"
    using assms(3) unfolding itlb_lookup_def Let_def e_def [symmetric] by (auto split: if_splits)
  have "entry_ok s e" using assms(1) by (simp add: tlb_ok_def e_def)
  then have eo: "te_pte_addr e = p" "te_level e = ucast level" "te_ppn e = shl (shr (pte_at s p) 10) 12" "pte_at s p AND PTE_A \<noteq> 0"
    using hit(1,2) assms(2) mmu_walk_page [of s vaddr] by (auto simp: entry_ok_def)
  have "te_level e = 1 \<longleftrightarrow> level = 1" using mmu_walk_Some(2) [OF assms(2) ms] unfolding eo(2) by auto
  then show "pa = get_ppn_and_offset s p level vaddr"
    unfolding hit(3) get_ppn_and_offset_def tlb_offset_def eo(3) by simp
  show "mark_pte p PTE_A s = s" using mark_set flag_set [OF _ eo(4)] by (simp add: flag_bits_def)
qed

text \<open>A fetch reads the word at the translated address and marks the entry as accessed.\<close>

lemma mmu_ifetch_ok:
  assumes "tlb_ok s" "csr_satp (core s) \<noteq> 0" "\<not> need_retranslate s" "mmu_walk s vaddr = Some (p, level)"
    and "pte_permits s (Some p) PTE_X"
  shows "\<exists>s'. mmu_ifetch on_trap s vaddr = (s', memory_ifetch (mem_base (core s')) (get_ppn_and_offset s p level vaddr)) \<and>
    core s' = core (mark_pte p PTE_A s) \<and> tlb_ok s'"
proof (cases "itlb_lookup s vaddr")
  case (Pair pa hit)
  have ms: "unat (mem_size (core s)) \<le> 2 ^ 32" using assms(1) by (simp add: tlb_ok_def)
  note al = mmu_walk_Some(1) [OF assms(4) ms]
  have fb: "flag_bits PTE_A" by (simp add: flag_bits_def)
  show ?thesis
  proof (cases hit)
    case True
    with Pair itlb_lookup_hit [OF assms(1,4)] assms(1-3) show ?thesis by (auto simp: mmu_ifetch_def)
  next
    case False
    let ?m = "mark_pte p PTE_A s"
    let ?s = "itlb_populate ?m vaddr p level"
    have eo: "entry_ok ?m e" if "entry_ok s e" for e by (rule entry_ok_mark [OF that fb al ms])
    have "pte_at ?m p AND PTE_A \<noteq> 0"
      using and_exp_eq_0 [of "pte_at s p OR PTE_A" 6] by (simp add: pte_at_mark [OF al al] bit_simps)
    then have pop: "entry_ok ?m (tlb_entry_for ?m vaddr p level)"
      using populated_ok [of ?m vaddr p level] mmu_walk_mark [OF fb al ms] assms(4) by simp
    have co: "core ?s = core ?m" by (simp add: itlb_populate_def Let_def)
    have ok: "tlb_ok ?s" using eo pop assms(1) core_cong(5) [OF co]
      by (auto simp: tlb_ok_def co) (auto simp: itlb_populate_def Let_def)
    have "get_ppn_and_offset ?s p level vaddr = get_ppn_and_offset s p level vaddr"
      by (simp add: get_ppn_and_offset_def core_cong(1) [OF co] pte_at_mark [OF al al])
    moreover have "mmu_ifetch on_trap s vaddr = ifetch_leaf s vaddr p level"
      using False Pair assms(2-5) by (auto simp: mmu_ifetch_def mmu_fault_check_def Let_def)
    ultimately show ?thesis using ok co
      by (intro exI [of _ ?s]) (simp only: ifetch_leaf_def Let_def mark_if [OF fb] simp_thms)
  qed
qed

section \<open>Flushing\<close>

lemma flush_all_ok: "unat (mem_size (core s)) \<le> 2 ^ 32 \<Longrightarrow> tlb_ok (mmu_tlb_flush_all s)"
  by (simp add: tlb_ok_def mmu_tlb_flush_all_def entry_ok_def no_entry_def)

text \<open>
  A selective flush drops the entry of one page of 4 KiB: entries for other pages stay, also for
  the other pages of the same superpage, whose page-table entry is the same.
\<close>

lemma flush_one_page:
  assumes "unat (shr vaddr 12 AND TLB_MASK) \<noteq> unat (shr vaddr' 12 AND TLB_MASK)"
  shows "snd (dtlb_lookup (mmu_tlb_flush s vaddr) vaddr' write) = snd (dtlb_lookup s vaddr' write)"
  using assms by (auto simp: mmu_tlb_flush_def dtlb_lookup_def Let_def)

section \<open>Properties\<close>

text \<open>
  C30. The page-table walk is Sv32: in memory of at most 4 GiB, \<^verbatim>\<open>mmu_walk\<close> finds a leaf exactly when the
  algorithm of the privileged architecture does, at the same address and level, and returns NULL
  in every case in which the architecture raises a page fault or an access fault on a table.
\<close>

theorem walk_sv32:
  assumes "unat (mem_size (core s)) \<le> 2 ^ 32"
  shows "map_option (\<lambda>(p, level). (unat p, pte_at s p, 2 - unat level)) (mmu_walk s vaddr) =
    sv32_walk (unat (mem_size (core s)) div 4096) (mem_base (core s)) (csr_satp (core s)) vaddr"
  using assms by (rule mmu_walk_sv32)

text \<open>
  C31. Translation through the buffer is translation: as long as the buffer agrees with the page tables,
  for an address that Sv32 translates, with the access permitted, \<^verbatim>\<open>mmu_translate\<close> returns the low 32
  bits of the architecture's physical address, raises no trap, and changes nothing of the machine
  but the accessed and, for a write, dirty bit of the leaf entry, whether the buffer has the page
  or not; and the buffer still agrees with the tables afterwards.
\<close>

theorem translate_correct:
  assumes "tlb_ok s" "csr_satp (core s) \<noteq> 0"
    and "sv32_walk (unat (mem_size (core s)) div 4096) (mem_base (core s)) (csr_satp (core s)) vaddr = Some (p, v, i)"
    and "bit v (if rw then 1 else 2)"
    and "\<not> (priv_mode (core s) = 1 \<and> \<not> bit (csr_sstatus (core s)) 18 \<and> bit v 4)"
  shows "\<exists>s' pa. mmu_translate on_trap s vaddr rw = (s', pa) \<and> unat pa = sv32_address v i vaddr mod 2 ^ 32 \<and>
    core s' = (core s)\<lparr>mem_base := memory_write_w (mem_base (core s)) (of_nat p) (v OR (if rw then 0x40 else 0xC0))\<rparr> \<and> tlb_ok s'"
proof -
  have ms: "unat (mem_size (core s)) \<le> 2 ^ 32" using assms(1) by (simp add: tlb_ok_def)
  obtain q level where w: "mmu_walk s vaddr = Some (q, level)" "p = unat q" "v = pte_at s q" "i = 2 - unat level"
    using assms(3) unfolding mmu_walk_sv32 [OF ms, symmetric] by auto
  have v0: "bit v 0" using mmu_walk_Some(3) [OF w(1) ms] by (auto simp: w(3) leaf_or_bad_def split: if_splits)
  have b: "v AND 1 \<noteq> 0" "v AND 2 = 0 \<longleftrightarrow> \<not> bit v 1" "v AND 4 = 0 \<longleftrightarrow> \<not> bit v 2" "v AND 0x10 = 0 \<longleftrightarrow> \<not> bit v 4"
    "0x40000 AND csr_sstatus (core s) = 0 \<longleftrightarrow> \<not> bit (csr_sstatus (core s)) 18"
    using and_exp_eq_0 [of v 0] and_exp_eq_0 [of v 1] and_exp_eq_0 [of v 2] and_exp_eq_0 [of v 4]
      and_exp_eq_0 [of "csr_sstatus (core s)" 18] v0 by (simp_all add: and.commute)
  have "pte_permits s (Some q) (if rw then PTE_R else PTE_W)"
    using assms(4,5) b by (cases rw) (auto simp: pte_permits_def Let_def or_eq_0_iff simp flip: w(3))
  from mmu_translate_ok [OF assms(1,2) w(1) this, of on_trap] obtain s' where
    "mmu_translate on_trap s vaddr rw = (s', get_ppn_and_offset s q level vaddr)"
    "core s' = core (mark_pte q (access_marks rw) s)" "tlb_ok s'" by blast
  moreover have "of_nat p = q" by (simp add: w(2))
  ultimately show ?thesis using address_sv32 [OF w(1)]
    by (simp add: mark_pte_def access_marks_def w(3,4))
qed

section \<open>An instance\<close>

text \<open>A root table at page 1 that maps the superpage at \<open>0x400000\<close> to address 0, in supervisor mode.\<close>

definition sys0 :: system where
  "sys0 = \<lparr>core = rv0\<lparr>mem_base := (\<lambda>a. if a = 0x1004 then 0x0F else 0), csr_satp := 0x80000001, priv_mode := 1\<rparr>,
     dtlb = (\<lambda>i. no_entry), itlb = (\<lambda>i. no_entry), last_csr_sepc = 0, is_trapped = False,
     need_retranslate = False, need_handle_signal = False\<rparr>"

lemma sys0_walk: "sv32_walk 16 (mem_base (core sys0)) (csr_satp (core sys0)) 0x400123 = Some (0x1004, 0x0F, 1)"
  by (simp add: sys0_def sv32_walk_def sv32_entry_def memcpy_from_numerals leaf_or_bad_def)

lemma sys0_ok: "tlb_ok sys0" "unat (mem_size (core sys0)) = 0x10000"
  by (simp_all add: sys0_def tlb_ok_def entry_ok_def no_entry_def)

theorem walk_sv32_witness:
  "map_option (\<lambda>(p, level). (unat p, pte_at sys0 p, 2 - unat level)) (mmu_walk sys0 0x400123) = Some (0x1004, 0x0F, 1)"
  using walk_sv32 [of sys0 "0x400123"] sys0_ok(2) sys0_walk by simp

theorem translate_correct_witness:
  "\<exists>s' pa. mmu_translate (\<lambda>s. s) sys0 0x400123 False = (s', pa) \<and> unat pa = 0x123 \<and> tlb_ok s'"
proof -
  have "csr_satp (core sys0) \<noteq> 0" "bit (0x0F :: u32) 2" "\<not> bit (0x0F :: u32) 4" by (simp_all add: sys0_def)
  with translate_correct [OF sys0_ok(1), of "0x400123" "0x1004" "0x0F" 1 False "\<lambda>s. s"] sys0_walk sys0_ok(2) show ?thesis
    by (auto simp: sv32_address_def)
qed

section \<open>Departures from the architecture\<close>

text \<open>User mode may read a page without the U bit.\<close>

lemma user_reads_supervisor:
  assumes "priv_mode (core s) = 0" "bit (pte_at s p) 0" "bit (pte_at s p) 1"
  shows "pte_permits s (Some p) PTE_R"
  using and_exp_eq_0 [of "pte_at s p" 0] and_exp_eq_0 [of "pte_at s p" 1] assms by (simp add: pte_permits_def Let_def or_eq_0_iff)

text \<open>MXR does not make an executable page readable.\<close>

lemma mxr_without_effect: "\<not> bit (pte_at s p) 1 \<Longrightarrow> \<not> pte_permits s (Some p) PTE_R"
  using and_exp_eq_0 [of "pte_at s p" 1] by (simp add: pte_permits_def Let_def)

text \<open>A hit does not look at the privilege mode: SUM is checked only on a miss.\<close>

lemma hit_ignores_mode:
  "snd (dtlb_lookup (s\<lparr>core := (core s)\<lparr>priv_mode := m, csr_sstatus := x\<rparr>\<rparr>) vaddr write) = snd (dtlb_lookup s vaddr write)"
  by (simp add: dtlb_lookup_def Let_def)

end
