(* ===== verification/Virtio.thy ===== *)
theory Virtio
  imports Memory "HOL-Library.Monad_Syntax"
begin

unbundle bit_operations_syntax

text \<open>
  The block device (\<^verbatim>\<open>devices/virtio-blk.c\<close>, \<^verbatim>\<open>devices/virtio.h\<close>): its registers, the queue it shares with the
  guest's driver, and the requests it serves on the mapped disk image.

  Guest memory is a byte for every offset, \<open>rs\<close> bytes of it exist; the disk image has \<open>vb_limit\<close> bytes. An
  access outside either, a division by zero, or an access outside the configuration words is
  undefined and gives \<^const>\<open>None\<close>.
\<close>

section \<open>State\<close>

record virtio_blk_queue =
  queue_num :: u32
  queue_desc :: u32
  queue_avail :: u32
  queue_used :: u32
  last_avail :: u16
  ready :: bool

text \<open>The configuration structure is kept as its 17 words; the capacity is the first two of them.\<close>

record virtio_blk =
  device_features :: u32
  device_features_sel :: u32
  driver_features :: u32
  driver_features_sel :: u32
  queue_sel :: u32
  queues :: "nat \<Rightarrow> virtio_blk_queue"
  vb_status :: u32
  vb_interrupt_status :: u32
  disk :: memory
  vb_limit :: nat
  config :: "u32 list"

record virtq_desc =
  d_addr :: u64
  d_len :: u32
  d_flags :: u16
  d_next :: u16

abbreviation (input) DISK_BLK_SIZE :: nat where "DISK_BLK_SIZE \<equiv> 512"
abbreviation (input) VBLK_QUEUE_NUM_MAX :: u32 where "VBLK_QUEUE_NUM_MAX \<equiv> 1024"
abbreviation (input) VIRTIO_STATUS_DRIVER_OK :: u32 where "VIRTIO_STATUS_DRIVER_OK \<equiv> 4"
abbreviation (input) VIRTIO_STATUS_DEVICE_NEEDS_RESET :: u32 where "VIRTIO_STATUS_DEVICE_NEEDS_RESET \<equiv> 64"
abbreviation (input) VIRTIO_INT_USED_RING :: u32 where "VIRTIO_INT_USED_RING \<equiv> 1"
abbreviation (input) VIRTIO_INT_CONF_CHANGE :: u32 where "VIRTIO_INT_CONF_CHANGE \<equiv> 2"
abbreviation (input) VIRTIO_DESC_F_NEXT :: u16 where "VIRTIO_DESC_F_NEXT \<equiv> 1"
abbreviation (input) VIRTIO_BLK_T_IN :: u32 where "VIRTIO_BLK_T_IN \<equiv> 0"
abbreviation (input) VIRTIO_BLK_T_OUT :: u32 where "VIRTIO_BLK_T_OUT \<equiv> 1"
abbreviation (input) VIRTIO_BLK_S_OK :: u8 where "VIRTIO_BLK_S_OK \<equiv> 0"
abbreviation (input) VIRTIO_BLK_S_IOERR :: u8 where "VIRTIO_BLK_S_IOERR \<equiv> 1"
abbreviation (input) VIRTIO_BLK_S_UNSUPP :: u8 where "VIRTIO_BLK_S_UNSUPP \<equiv> 2"
abbreviation (input) VIRTIO_BLK_F_RO :: u32 where "VIRTIO_BLK_F_RO \<equiv> 0x20"

definition empty_queue :: virtio_blk_queue where
  "empty_queue = \<lparr>queue_num = 0, queue_desc = 0, queue_avail = 0, queue_used = 0, last_avail = 0, ready = False\<rparr>"

definition capacity :: "virtio_blk \<Rightarrow> u64" where
  "capacity vblk = ucast (config vblk ! 0) OR shl (ucast (config vblk ! 1)) 32"

text \<open>\<^verbatim>\<open>VBLK_QUEUE\<close>, and the update of the selected queue.\<close>

definition VBLK_QUEUE :: "virtio_blk \<Rightarrow> virtio_blk_queue" where
  "VBLK_QUEUE vblk = queues vblk (unat (queue_sel vblk))"

definition upd_queue :: "nat \<Rightarrow> (virtio_blk_queue \<Rightarrow> virtio_blk_queue) \<Rightarrow> virtio_blk \<Rightarrow> virtio_blk" where
  "upd_queue i f vblk = vblk\<lparr>queues := (queues vblk)(i := f (queues vblk i))\<rparr>"

section \<open>Checked accesses\<close>

text \<open>\<^verbatim>\<open>ram[i]\<close> with \<^verbatim>\<open>uint32_t *ram\<close>, and a copy between the disk and memory.\<close>

definition in_area :: "nat \<Rightarrow> nat \<Rightarrow> nat \<Rightarrow> bool" where
  "in_area lim a n \<longleftrightarrow> a + n \<le> lim"

definition get_area :: "nat \<Rightarrow> memory \<Rightarrow> nat \<Rightarrow> nat \<Rightarrow> u8 list option" where
  "get_area lim m a n = (if in_area lim a n then Some (memcpy_from m a n) else None)"

definition put_area :: "nat \<Rightarrow> memory \<Rightarrow> nat \<Rightarrow> u8 list \<Rightarrow> memory option" where
  "put_area lim m a bs = (if in_area lim a (length bs) then Some (memcpy_to m a bs) else None)"

definition ram_word :: "nat \<Rightarrow> memory \<Rightarrow> u32 \<Rightarrow> u32 option" where
  "ram_word rs ram i = map_option of_le (get_area rs ram (4 * unat i) 4)"

definition set_ram_word :: "nat \<Rightarrow> memory \<Rightarrow> u32 \<Rightarrow> u32 \<Rightarrow> memory option" where
  "set_ram_word rs ram i v = put_area rs ram (4 * unat i) (to_le 4 v)"

section \<open>Requests\<close>

definition virtio_blk_set_fail :: "virtio_blk \<Rightarrow> virtio_blk" where
  "virtio_blk_set_fail vblk =
    (let vblk = vblk\<lparr>vb_status := vb_status vblk OR VIRTIO_STATUS_DEVICE_NEEDS_RESET\<rparr>
     in if vb_status vblk AND VIRTIO_STATUS_DRIVER_OK \<noteq> 0
        then vblk\<lparr>vb_interrupt_status := vb_interrupt_status vblk OR VIRTIO_INT_CONF_CHANGE\<rparr> else vblk)"

definition vblk_preprocess :: "nat \<Rightarrow> virtio_blk \<Rightarrow> u32 \<Rightarrow> virtio_blk \<times> u32" where
  "vblk_preprocess rs vblk addr =
    (if rs \<le> unat addr \<or> addr AND 3 \<noteq> 0 then (virtio_blk_set_fail vblk, 0) else (vblk, shr addr 2))"

definition virtio_blk_update_status :: "virtio_blk \<Rightarrow> u32 \<Rightarrow> virtio_blk" where
  "virtio_blk_update_status vblk status =
    (let vblk = vblk\<lparr>vb_status := vb_status vblk OR status\<rparr> in
     if status \<noteq> 0 then vblk
     else vblk\<lparr>device_features_sel := 0, driver_features := 0, driver_features_sel := 0, queue_sel := 0,
            queues := (\<lambda>i. empty_queue), vb_status := 0, vb_interrupt_status := 0,
            config := (config vblk)[0 := ucast (capacity vblk), 1 := 0]\<rparr>)"

definition virtio_blk_write_handler :: "nat \<Rightarrow> virtio_blk \<Rightarrow> memory \<Rightarrow> u64 \<Rightarrow> u64 \<Rightarrow> u32 \<Rightarrow> (virtio_blk \<times> memory) option" where
  "virtio_blk_write_handler rs vblk ram sector desc_addr len =
    do { bs \<leftarrow> get_area rs ram (unat desc_addr) (unat len);
         d \<leftarrow> put_area (vb_limit vblk) (disk vblk) (unat sector * DISK_BLK_SIZE) bs;
         Some (vblk\<lparr>disk := d\<rparr>, ram) }"

definition virtio_blk_read_handler :: "nat \<Rightarrow> virtio_blk \<Rightarrow> memory \<Rightarrow> u64 \<Rightarrow> u64 \<Rightarrow> u32 \<Rightarrow> (virtio_blk \<times> memory) option" where
  "virtio_blk_read_handler rs vblk ram sector desc_addr len =
    do { bs \<leftarrow> get_area (vb_limit vblk) (disk vblk) (unat sector * DISK_BLK_SIZE) (unat len);
         ram \<leftarrow> put_area rs ram (unat desc_addr) bs;
         Some (vblk, ram) }"

text \<open>\<^verbatim>\<open>struct virtq_desc\<close> at a word index, and the chain of three of them.\<close>

definition desc_at :: "nat \<Rightarrow> memory \<Rightarrow> u32 \<Rightarrow> virtq_desc option" where
  "desc_at rs ram i =
    do { bs \<leftarrow> get_area rs ram (4 * unat i) 16;
         Some \<lparr>d_addr = of_le (take 8 bs), d_len = of_le (take 4 (drop 8 bs)),
               d_flags = of_le (take 2 (drop 12 bs)), d_next = of_le (take 2 (drop 14 bs))\<rparr> }"

fun collect_descs :: "nat \<Rightarrow> nat \<Rightarrow> memory \<Rightarrow> virtio_blk_queue \<Rightarrow> u16 \<Rightarrow> virtq_desc list option" where
  "collect_descs 0 rs ram queue desc_idx = Some []"
| "collect_descs (Suc n) rs ram queue desc_idx =
    do { d \<leftarrow> desc_at rs ram (queue_desc queue + ucast desc_idx * 4);
         ds \<leftarrow> collect_descs n rs ram queue (d_next d);
         Some (d # ds) }"

text \<open>The result is the device, memory, whether the request succeeded, and \<^verbatim>\<open>*plen\<close>.\<close>

type_synonym desc_result = "virtio_blk \<times> memory \<times> bool \<times> u32"

definition desc_status :: "nat \<Rightarrow> virtio_blk \<Rightarrow> memory \<Rightarrow> u64 \<Rightarrow> u8 \<Rightarrow> bool \<Rightarrow> u32 \<Rightarrow> desc_result option" where
  "desc_status rs vblk ram addr v ok len =
    do { ram \<leftarrow> put_area rs ram (unat addr) [v]; Some (vblk, ram, ok, len) }"

definition serve_request ::
  "nat \<Rightarrow> virtio_blk \<Rightarrow> memory \<Rightarrow> u32 \<Rightarrow> u64 \<Rightarrow> virtq_desc \<Rightarrow> u64 \<Rightarrow> desc_result option" where
  "serve_request rs vblk ram type sector d1 status =
    (if sector > capacity vblk - 1 then desc_status rs vblk ram status VIRTIO_BLK_S_IOERR False 0
     else if type = VIRTIO_BLK_T_IN then
       do { (vblk, ram) \<leftarrow> virtio_blk_read_handler rs vblk ram sector (d_addr d1) (d_len d1);
            desc_status rs vblk ram status VIRTIO_BLK_S_OK True (d_len d1) }
     else if type = VIRTIO_BLK_T_OUT then
       (if device_features vblk AND VIRTIO_BLK_F_RO \<noteq> 0
        then desc_status rs vblk ram status VIRTIO_BLK_S_IOERR False 0
        else do { (vblk, ram) \<leftarrow> virtio_blk_write_handler rs vblk ram sector (d_addr d1) (d_len d1);
                  desc_status rs vblk ram status VIRTIO_BLK_S_OK True (d_len d1) })
     else desc_status rs vblk ram status VIRTIO_BLK_S_UNSUPP False 0)"

definition virtio_blk_desc_handler ::
  "nat \<Rightarrow> virtio_blk \<Rightarrow> memory \<Rightarrow> virtio_blk_queue \<Rightarrow> u16 \<Rightarrow> desc_result option" where
  "virtio_blk_desc_handler rs vblk ram queue desc_idx =
    do { ds \<leftarrow> collect_descs 3 rs ram queue desc_idx;
         let d0 = ds ! 0; d1 = ds ! 1; d2 = ds ! 2 in
         if d_flags d0 AND VIRTIO_DESC_F_NEXT = 0 \<or> d_flags d1 AND VIRTIO_DESC_F_NEXT = 0 \<or>
            d_flags d2 AND VIRTIO_DESC_F_NEXT \<noteq> 0
         then Some (virtio_blk_set_fail vblk, ram, False, 0)
         else do { header \<leftarrow> get_area rs ram (unat (d_addr d0)) 16;
                   serve_request rs vblk ram (of_le (take 4 header)) (of_le (drop 8 header)) d1 (d_addr d2) } }"

text \<open>
  The loop over the new requests; \<open>Inl\<close> is the early return after a failed request, \<open>Inr\<close> the
  device, memory and the new value of \<^verbatim>\<open>new_used\<close>.
\<close>

lemma set_fail_queues [simp]: "queues (virtio_blk_set_fail vblk) = queues vblk"
  by (simp add: virtio_blk_set_fail_def Let_def)

lemma serve_request_queues:
  "serve_request rs vblk ram t sector d status = Some (vblk', ram', ok, len) \<Longrightarrow> queues vblk' = queues vblk"
  by (auto simp: serve_request_def virtio_blk_read_handler_def virtio_blk_write_handler_def desc_status_def
      bind_eq_Some_conv split: if_splits)

lemma desc_handler_queues:
  "virtio_blk_desc_handler rs vblk ram q i = Some (vblk', ram', ok, len) \<Longrightarrow> queues vblk' = queues vblk"
  by (auto simp: virtio_blk_desc_handler_def Let_def bind_eq_Some_conv simp del: collect_descs.simps
      dest: serve_request_queues split: if_splits)

lemma unat_dist_decr: "a \<noteq> b \<Longrightarrow> unat (b - (a + 1)) < unat (b - a)" for a b :: "'a::len word"
  using measure_unat [of "b - a"] by (simp add: algebra_simps)

function notify_loop ::
  "nat \<Rightarrow> nat \<Rightarrow> virtio_blk \<Rightarrow> memory \<Rightarrow> u16 \<Rightarrow> u16 \<Rightarrow> (virtio_blk \<times> memory + virtio_blk \<times> memory \<times> u16) option" where
  "notify_loop rs index vblk ram new_avail new_used =
    (let queue = queues vblk index; queue_idx = ucast (ucast (last_avail queue) mod queue_num queue) :: u16 in
     if last_avail queue = new_avail then Some (Inr (vblk, ram, new_used))
     else if queue_num queue = 0 then None
     else
       do { w \<leftarrow> ram_word rs ram (queue_avail queue + 1 + ucast (queue_idx div 2));
            let buffer_idx = ucast (shr w (16 * unat (queue_idx mod 2))) :: u16;
                vq_used_addr = queue_used queue + 1 + (ucast new_used mod queue_num queue) * 2 in
            case virtio_blk_desc_handler rs vblk ram queue buffer_idx of
              None \<Rightarrow> None
            | Some (vblk, ram, ok, len) \<Rightarrow>
                if \<not> ok then Some (Inl (virtio_blk_set_fail vblk, ram))
                else
                  do { ram \<leftarrow> set_ram_word rs ram vq_used_addr (ucast buffer_idx);
                       ram \<leftarrow> set_ram_word rs ram (vq_used_addr + 1) len;
                       notify_loop rs index (upd_queue index (\<lambda>q. q\<lparr>last_avail := last_avail q + 1\<rparr>) vblk)
                         ram new_avail (new_used + 1) } })"
  by pat_completeness auto

termination
  by (relation "measure (\<lambda>(rs, i, v, ram, na, nu). unat (na - last_avail (queues v i)))")
    (auto simp: upd_queue_def dest!: desc_handler_queues intro: unat_dist_decr)

declare notify_loop.simps [simp del]

definition virtio_queue_notify_handler :: "nat \<Rightarrow> virtio_blk \<Rightarrow> memory \<Rightarrow> nat \<Rightarrow> (virtio_blk \<times> memory) option" where
  "virtio_queue_notify_handler rs vblk ram index =
    (let queue = queues vblk index in
     if vb_status vblk AND VIRTIO_STATUS_DEVICE_NEEDS_RESET \<noteq> 0 then Some (vblk, ram)
     else if \<not> (vb_status vblk AND VIRTIO_STATUS_DRIVER_OK \<noteq> 0 \<and> ready queue) then Some (virtio_blk_set_fail vblk, ram)
     else
       do { w \<leftarrow> ram_word rs ram (queue_avail queue);
            let new_avail = ucast (shr w 16) :: u16 in
            if uint new_avail - uint (last_avail queue) > uint (ucast (queue_num queue) :: u16)
            then Some (virtio_blk_set_fail vblk, ram)
            else if last_avail queue = new_avail then Some (vblk, ram)
            else
              do { u \<leftarrow> ram_word rs ram (queue_used queue);
                   r \<leftarrow> notify_loop rs index vblk ram new_avail (ucast (shr u 16));
                   case r of
                     Inl (vblk, ram) \<Rightarrow> Some (vblk, ram)
                   | Inr (vblk, ram, new_used) \<Rightarrow>
                       do { u \<leftarrow> ram_word rs ram (queue_used queue);
                            ram \<leftarrow> set_ram_word rs ram (queue_used queue) (u AND mask 16);
                            u \<leftarrow> ram_word rs ram (queue_used queue);
                            ram \<leftarrow> set_ram_word rs ram (queue_used queue) (u OR shl (ucast new_used) 16);
                            w \<leftarrow> ram_word rs ram (queue_avail queue);
                            Some (if w AND 1 = 0
                                  then vblk\<lparr>vb_interrupt_status := vb_interrupt_status vblk OR VIRTIO_INT_USED_RING\<rparr>
                                  else vblk, ram) } } })"

section \<open>Registers\<close>

text \<open>\<^verbatim>\<open>((uint32_t *) VBLK_PRIV(vblk))[addr - VIRTIO_Config]\<close>: the subtraction wraps.\<close>

definition config_index :: "virtio_blk \<Rightarrow> u32 \<Rightarrow> nat option" where
  "config_index vblk addr =
    (let i = unat (addr - 0x40) in if i < length (config vblk) then Some i else None)"

definition virtio_blk_read :: "virtio_blk \<Rightarrow> u32 \<Rightarrow> u32 option" where
  "virtio_blk_read vblk addr =
    (let addr = shr addr 2 in
     if addr = 0x00 then Some 0x74726976
     else if addr = 0x01 then Some 2
     else if addr = 0x02 then Some 2
     else if addr = 0x03 then Some 0x12345678
     else if addr = 0x04 then
       Some (if device_features_sel vblk = 0 then 0 OR device_features vblk
             else if device_features_sel vblk = 1 then 1 else 0)
     else if addr = 0x0D then Some VBLK_QUEUE_NUM_MAX
     else if addr = 0x11 then Some (if ready (VBLK_QUEUE vblk) then 1 else 0)
     else if addr = 0x18 then Some (vb_interrupt_status vblk)
     else if addr = 0x1C then Some (vb_status vblk)
     else if addr = 0x3F then Some 0
     else map_option (\<lambda>i. config vblk ! i) (config_index vblk addr))"

definition set_queue :: "(virtio_blk_queue \<Rightarrow> virtio_blk_queue) \<Rightarrow> virtio_blk \<Rightarrow> virtio_blk" where
  "set_queue f vblk = upd_queue (unat (queue_sel vblk)) f vblk"

definition fail_if :: "bool \<Rightarrow> virtio_blk \<Rightarrow> virtio_blk" where
  "fail_if c vblk = (if c then virtio_blk_set_fail vblk else vblk)"

definition virtio_blk_write :: "nat \<Rightarrow> virtio_blk \<Rightarrow> memory \<Rightarrow> u32 \<Rightarrow> u32 \<Rightarrow> (virtio_blk \<times> memory) option" where
  "virtio_blk_write rs vblk ram addr val =
    (let addr = shr addr 2 in
     if addr = 0x05 then Some (vblk\<lparr>device_features_sel := val\<rparr>, ram)
     else if addr = 0x08 then Some (if driver_features_sel vblk = 0 then vblk\<lparr>driver_features := val\<rparr> else vblk, ram)
     else if addr = 0x09 then Some (vblk\<lparr>driver_features_sel := val\<rparr>, ram)
     else if addr = 0x0C then Some (if val < 2 then vblk\<lparr>queue_sel := val\<rparr> else virtio_blk_set_fail vblk, ram)
     else if addr = 0x0E then
       Some (if val > 0 \<and> val \<le> VBLK_QUEUE_NUM_MAX then set_queue (\<lambda>q. q\<lparr>queue_num := val\<rparr>) vblk
             else virtio_blk_set_fail vblk, ram)
     else if addr = 0x11 then
       (let vblk = set_queue (\<lambda>q. q\<lparr>ready := val AND 1 \<noteq> 0\<rparr>) vblk in
        if val AND 1 \<noteq> 0 then
          do { w \<leftarrow> ram_word rs ram (queue_avail (VBLK_QUEUE vblk));
               Some (set_queue (\<lambda>q. q\<lparr>last_avail := ucast (shr w 16)\<rparr>) vblk, ram) }
        else Some (vblk, ram))
     else if addr = 0x20 then
       (let (vblk, a) = vblk_preprocess rs vblk val in Some (set_queue (\<lambda>q. q\<lparr>queue_desc := a\<rparr>) vblk, ram))
     else if addr = 0x21 then Some (fail_if (val \<noteq> 0) vblk, ram)
     else if addr = 0x24 then
       (let (vblk, a) = vblk_preprocess rs vblk val in Some (set_queue (\<lambda>q. q\<lparr>queue_avail := a\<rparr>) vblk, ram))
     else if addr = 0x25 then Some (fail_if (val \<noteq> 0) vblk, ram)
     else if addr = 0x28 then
       (let (vblk, a) = vblk_preprocess rs vblk val in Some (set_queue (\<lambda>q. q\<lparr>queue_used := a\<rparr>) vblk, ram))
     else if addr = 0x29 then Some (fail_if (val \<noteq> 0) vblk, ram)
     else if addr = 0x14 then
       (if val < 2 then virtio_queue_notify_handler rs vblk ram (unat val) else Some (virtio_blk_set_fail vblk, ram))
     else if addr = 0x19 then
       Some (vblk\<lparr>vb_interrupt_status := vb_interrupt_status vblk AND NOT val\<rparr>, ram)
     else if addr = 0x1C then Some (virtio_blk_update_status vblk val, ram)
     else do { i \<leftarrow> config_index vblk addr; Some (vblk\<lparr>config := (config vblk)[i := val]\<rparr>, ram) })"

text \<open>
  The device after \<open>vblk_new\<close> and a successful \<^verbatim>\<open>virtio_blk_init\<close> on an image of \<open>size\<close> bytes (with no image,
  the size and the capacity are 0).
\<close>

definition vblk_new :: virtio_blk where
  "vblk_new = \<lparr>device_features = 0, device_features_sel = 0, driver_features = 0, driver_features_sel = 0, queue_sel = 0,
     queues = (\<lambda>i. empty_queue), vb_status = 0, vb_interrupt_status = 0, disk = (\<lambda>i. 0), vb_limit = 0, config = replicate 17 0\<rparr>"

definition set_capacity :: "u64 \<Rightarrow> virtio_blk \<Rightarrow> virtio_blk" where
  "set_capacity c vblk = vblk\<lparr>config := (config vblk)[0 := ucast c, 1 := ucast (shr c 32)]\<rparr>"

definition virtio_blk_init :: "virtio_blk \<Rightarrow> (memory \<times> u64) option \<Rightarrow> bool \<Rightarrow> virtio_blk" where
  "virtio_blk_init vblk disk_file readonly =
    (let vblk = vblk\<lparr>config := replicate 17 0\<rparr> in
     case disk_file of
       None \<Rightarrow> set_capacity 0 vblk
     | Some (img, disk_size) \<Rightarrow>
         (let vblk = vblk\<lparr>config := (config vblk)[15 := ucast disk_size, 16 := ucast (shr disk_size 32)], disk := img,
                vb_limit := unat disk_size\<rparr>;
              vblk = set_capacity ((disk_size - 1) div 512 + 1) vblk
          in if readonly then vblk\<lparr>device_features := VIRTIO_BLK_F_RO\<rparr> else vblk))"

end
