(* ===== verification/Devices.thy ===== *)
theory Devices
  imports Mmu Virtio Interp Syscall
begin

unbundle bit_operations_syntax

text \<open>
  The peripherals of the system build: the interrupt controller (\<^verbatim>\<open>devices/plic.c\<close>), the serial port
  (\<^verbatim>\<open>devices/uart.c\<close>) and the real-time clock (\<^verbatim>\<open>devices/rtc.c\<close>), the update of their interrupts and the
  dispatch of memory-mapped accesses (\<^verbatim>\<open>system.c\<close>, \<^verbatim>\<open>system.h\<close>), and the interrupt check of the step loop
  (\<^verbatim>\<open>emulate.c\<close>).

  The console and the wall clock of the host are parameters over an abstract state.
\<close>

section \<open>Interrupt controller\<close>

record plic =
  masked :: u32
  ip :: u32
  ie :: u32
  active :: u32

abbreviation (input) PLIC_INTR_PENDING :: u32 where "PLIC_INTR_PENDING \<equiv> 0x1000"
abbreviation (input) PLIC_INTR_ENABLE :: u32 where "PLIC_INTR_ENABLE \<equiv> 0x2000"
abbreviation (input) PLIC_INTR_PRIORITY_THRESHOLD :: u32 where "PLIC_INTR_PRIORITY_THRESHOLD \<equiv> 0x200000"
abbreviation (input) PLIC_INTR_CLAIM_OR_COMPLETE :: u32 where "PLIC_INTR_CLAIM_OR_COMPLETE \<equiv> 0x200004"
abbreviation (input) SIP_SEIP :: u32 where "SIP_SEIP \<equiv> 0x200"

text \<open>The controller and the register \<^verbatim>\<open>sip\<close> of the hart it reports to.\<close>

definition plic_update_interrupts :: "plic \<Rightarrow> u32 \<Rightarrow> plic \<times> u32" where
  "plic_update_interrupts pl sip =
    (let pl = pl\<lparr>ip := ip pl OR (active pl AND NOT (masked pl))\<rparr>;
         pl = pl\<lparr>masked := masked pl OR active pl\<rparr>
     in (pl, if ip pl AND ie pl \<noteq> 0 then sip OR SIP_SEIP else sip AND NOT SIP_SEIP))"

definition plic_read :: "plic \<Rightarrow> u32 \<Rightarrow> plic \<times> u32" where
  "plic_read pl addr =
    (if addr = PLIC_INTR_PENDING then (pl, ip pl)
     else if addr = PLIC_INTR_ENABLE then (pl, ie pl)
     else if addr = PLIC_INTR_PRIORITY_THRESHOLD then (pl, 0)
     else if addr = PLIC_INTR_CLAIM_OR_COMPLETE then
       (let intr_candidate = ip pl AND ie pl in
        if intr_candidate \<noteq> 0 then
          (let n = rv_ctz intr_candidate in (pl\<lparr>ip := ip pl AND NOT (shl 1 (unat n))\<rparr>, n))
        else (pl, 0))
     else (pl, 0))"

text \<open>A shift by 32 or more is undefined: \<^const>\<open>None\<close>.\<close>

definition plic_write :: "plic \<Rightarrow> u32 \<Rightarrow> u32 \<Rightarrow> plic option" where
  "plic_write pl addr val =
    (if addr = PLIC_INTR_ENABLE then Some (pl\<lparr>ie := val AND NOT 1\<rparr>)
     else if addr = PLIC_INTR_PRIORITY_THRESHOLD then Some pl
     else if addr = PLIC_INTR_CLAIM_OR_COMPLETE then
       (if val \<ge> 32 then None
        else if ie pl AND shl 1 (unat val) \<noteq> 0 then Some (pl\<lparr>masked := masked pl AND NOT (shl 1 (unat val))\<rparr>)
        else Some pl)
     else Some pl)"

definition plic_new :: plic where
  "plic_new = \<lparr>masked = 0, ip = 0, ie = 0, active = 0\<rparr>"

section \<open>Serial port\<close>

record u8250_state =
  dll :: u8
  dlh :: u8
  lcr :: u8
  ier :: u8
  current_intr :: u8
  pending_intrs :: u8
  mcr :: u8
  in_ready :: bool

text \<open>The host side: is input waiting, the next byte (0 if the read fails), \<^verbatim>\<open>getchar\<close>, a byte of output.\<close>

record 'w console =
  con_poll :: "'w \<Rightarrow> bool"
  con_read :: "'w \<Rightarrow> 'w \<times> u8"
  con_getchar :: "'w \<Rightarrow> 'w \<times> u32"
  con_write :: "'w \<Rightarrow> u8 \<Rightarrow> 'w"
  con_nsec :: "'w \<Rightarrow> u64"

definition ilog2 :: "u32 \<Rightarrow> u8" where
  "ilog2 x = 31 - ucast (rv_clz x)"

definition u8250_update_interrupts :: "u8250_state \<Rightarrow> u8250_state" where
  "u8250_update_interrupts uart =
    (let uart = (if in_ready uart then uart\<lparr>pending_intrs := pending_intrs uart OR 1\<rparr>
                 else uart\<lparr>pending_intrs := pending_intrs uart AND NOT 1\<rparr>);
         uart = uart\<lparr>pending_intrs := pending_intrs uart AND ier uart\<rparr>
     in if pending_intrs uart \<noteq> 0 then uart\<lparr>current_intr := ilog2 (ucast (pending_intrs uart))\<rparr> else uart)"

definition u8250_check_ready :: "'w console \<Rightarrow> 'w \<Rightarrow> u8250_state \<Rightarrow> u8250_state" where
  "u8250_check_ready con w uart = (if in_ready uart then uart else if con_poll con w then uart\<lparr>in_ready := True\<rparr> else uart)"

text \<open>Ctrl-a x ends the process: \<^const>\<open>None\<close>.\<close>

definition u8250_handle_in :: "'w console \<Rightarrow> 'w \<Rightarrow> u8250_state \<Rightarrow> ('w \<times> u8250_state \<times> u8) option" where
  "u8250_handle_in con w uart =
    (let uart = u8250_check_ready con w uart in
     if \<not> in_ready uart then Some (w, uart, 0)
     else
       (let (w, val) = con_read con w; uart = uart\<lparr>in_ready := False\<rparr> in
        if val = 1 then
          (let uart = u8250_check_ready con w uart; (w, c) = con_getchar con w
           in if c = 120 then None else Some (w, uart, val))
        else Some (w, uart, val)))"

definition u8250_read :: "'w console \<Rightarrow> 'w \<Rightarrow> u8250_state \<Rightarrow> u32 \<Rightarrow> ('w \<times> u8250_state \<times> u32) option" where
  "u8250_read con w uart addr =
    (if addr = 0 then
       (if lcr uart AND 0x80 \<noteq> 0 then Some (w, uart, ucast (dll uart))
        else case u8250_handle_in con w uart of None \<Rightarrow> None | Some (w, uart, v) \<Rightarrow> Some (w, uart, ucast v))
     else if addr = 1 then
       Some (w, uart, if lcr uart AND 0x80 \<noteq> 0 then ucast (dlh uart) else ucast (ier uart))
     else if addr = 2 then
       (let ret = shl (current_intr uart) 1 OR (if pending_intrs uart \<noteq> 0 then 0 else 1);
            uart = (if current_intr uart = 1
                    then uart\<lparr>pending_intrs := pending_intrs uart AND NOT (shl 1 (unat (current_intr uart)))\<rparr> else uart)
        in Some (w, uart, ucast ret))
     else if addr = 3 then Some (w, uart, ucast (lcr uart))
     else if addr = 4 then Some (w, uart, ucast (mcr uart))
     else if addr = 5 then Some (w, uart, 0x60 OR (if in_ready uart then 1 else 0))
     else if addr = 6 then Some (w, uart, 0xB0)
     else Some (w, uart, 0))"

definition u8250_write :: "'w console \<Rightarrow> 'w \<Rightarrow> u8250_state \<Rightarrow> u32 \<Rightarrow> u32 \<Rightarrow> 'w \<times> u8250_state" where
  "u8250_write con w uart addr val =
    (if addr = 0 then
       (if lcr uart AND 0x80 \<noteq> 0 then (w, uart\<lparr>dll := ucast val\<rparr>)
        else (con_write con w (ucast val), uart\<lparr>pending_intrs := pending_intrs uart OR 2\<rparr>))
     else if addr = 1 then
       (if lcr uart AND 0x80 \<noteq> 0 then (w, uart\<lparr>dlh := ucast val\<rparr>) else (w, uart\<lparr>ier := ucast val\<rparr>))
     else if addr = 3 then (w, uart\<lparr>lcr := ucast val\<rparr>)
     else if addr = 4 then (w, uart\<lparr>mcr := ucast val\<rparr>)
     else (w, uart))"

section \<open>Real-time clock\<close>

record rtc =
  time_low :: u32
  time_high :: u32
  alarm_low :: u32
  alarm_high :: u32
  irq_enabled :: u32
  alarm_status :: u32
  interrupt_status :: u32
  clock_offset :: u64

text \<open>\<open>con_nsec\<close> is the host's time in nanoseconds; \<open>now\<close> is the file-scope variable \<^verbatim>\<open>now_nsec\<close>.\<close>

definition rtc_get_now_nsec :: "'w console \<Rightarrow> 'w \<Rightarrow> rtc \<Rightarrow> u64" where
  "rtc_get_now_nsec con w r = con_nsec con w + clock_offset r"

definition rtc_alarm_fire :: "rtc \<Rightarrow> u64 \<Rightarrow> bool" where
  "rtc_alarm_fire r now \<longleftrightarrow> irq_enabled r \<noteq> 0 \<and> now \<ge> shl (ucast (alarm_high r)) 32 OR ucast (alarm_low r)"

definition rtc_read :: "'w console \<Rightarrow> 'w \<Rightarrow> u64 \<Rightarrow> rtc \<Rightarrow> u32 \<Rightarrow> u64 \<times> rtc \<times> u32" where
  "rtc_read con w now r addr =
    (if addr = 0 then
       (let now = rtc_get_now_nsec con w r; r = r\<lparr>time_low := ucast (now AND mask 32)\<rparr> in (now, r, time_low r))
     else if addr = 4 then (let r = r\<lparr>time_high := ucast (shr now 32)\<rparr> in (now, r, time_high r))
     else if addr = 8 then (now, r, alarm_low r)
     else if addr = 0x0C then (now, r, alarm_high r)
     else if addr = 0x18 then (now, r, alarm_status r)
     else (now, r, 0))"

definition rtc_write :: "'w console \<Rightarrow> 'w \<Rightarrow> u64 \<Rightarrow> rtc \<Rightarrow> u32 \<Rightarrow> u32 \<Rightarrow> u64 \<times> rtc" where
  "rtc_write con w now r addr val =
    (if addr = 0 then
       (let now = rtc_get_now_nsec con w r
        in (now, r\<lparr>clock_offset := clock_offset r + (ucast val - (now AND mask 32))\<rparr>))
     else if addr = 4 then
       (now, r\<lparr>clock_offset := clock_offset r + (shl (ucast val) 32 - (now AND shl (mask 32) 32))\<rparr>)
     else if addr = 8 then (now, r\<lparr>alarm_low := val\<rparr>)
     else if addr = 0x0C then (now, r\<lparr>alarm_high := val\<rparr>)
     else if addr = 0x10 then (now, r\<lparr>irq_enabled := val\<rparr>)
     else if addr = 0x14 then (now, r\<lparr>alarm_status := 0\<rparr>)
     else if addr = 0x1C then (now, r\<lparr>interrupt_status := 0\<rparr>)
     else (now, r))"

definition rtc_new :: "'w console \<Rightarrow> 'w \<Rightarrow> u64 \<times> rtc" where
  "rtc_new con w =
    (let r = \<lparr>time_low = 0, time_high = 0, alarm_low = 0, alarm_high = 0, irq_enabled = 0, alarm_status = 0,
               interrupt_status = 0, clock_offset = 0\<rparr>;
         now = rtc_get_now_nsec con w r
     in (now, r\<lparr>time_low := ucast (now AND mask 32), time_high := ucast (shr now 32)\<rparr>))"

section \<open>The board\<close>

text \<open>The hart with its peripherals: the fields of \<^verbatim>\<open>vm_attr_t\<close> the system build uses.\<close>

record 'w board = system +
  b_plic :: plic
  b_uart :: u8250_state
  b_rtc :: rtc
  now_nsec :: u64
  b_vblk :: "virtio_blk list"
  vblk_irq_base :: u32
  vblk_mmio_base_hi :: u32
  vblk_mmio_max_hi :: u32
  b_host :: 'w
  timer_offset :: u64
  vm_timer :: u64
  peripheral_update_ctr :: u32

text \<open>The console can end the process; an access to no device, or undefined behaviour in one, is \<open>Unreachable\<close>.\<close>

datatype 'a io_result = Io 'a | Process_exit | Unreachable

definition set_core :: "(riscv \<Rightarrow> riscv) \<Rightarrow> 'w board \<Rightarrow> 'w board" where
  "set_core f b = b\<lparr>core := f (core b)\<rparr>"

definition update_plic :: "'w board \<Rightarrow> 'w board" where
  "update_plic b =
    (let (pl, sip) = plic_update_interrupts (b_plic b) (csr_sip (core b))
     in set_core (\<lambda>rv. rv\<lparr>csr_sip := sip\<rparr>) (b\<lparr>b_plic := pl\<rparr>))"

text \<open>A device raises or drops its line; bit 1 is the serial port, bit 2 the clock.\<close>

definition set_line :: "u32 \<Rightarrow> bool \<Rightarrow> 'w board \<Rightarrow> 'w board" where
  "set_line irq on b =
    b\<lparr>b_plic := (b_plic b)\<lparr>active := (if on then active (b_plic b) OR irq else active (b_plic b) AND NOT irq)\<rparr>\<rparr>"

definition emu_update_uart_interrupts :: "'w board \<Rightarrow> 'w board" where
  "emu_update_uart_interrupts b =
    (let b = b\<lparr>b_uart := u8250_update_interrupts (b_uart b)\<rparr>
     in update_plic (set_line 2 (pending_intrs (b_uart b) \<noteq> 0) b))"

definition emu_update_rtc_interrupts :: "'w board \<Rightarrow> 'w board" where
  "emu_update_rtc_interrupts b = update_plic (set_line 4 (interrupt_status (b_rtc b) \<noteq> 0) b)"

text \<open>A line number of 32 or more is an undefined shift in C; the model has no line for it.\<close>

definition emu_update_vblk_interrupts :: "'w board \<Rightarrow> 'w board" where
  "emu_update_vblk_interrupts b =
    fold (\<lambda>i b. update_plic (set_line (shl 1 (unat (vblk_irq_base b) + i)) (vb_interrupt_status (b_vblk b ! i) \<noteq> 0) b))
      [0..<length (b_vblk b)] b"

text \<open>Which device an address of the window at \<^verbatim>\<open>0xF0000000\<close> belongs to.\<close>

datatype device = Dev_plic | Dev_uart | Dev_rtc | Dev_vblk nat

definition mmio_device :: "'w board \<Rightarrow> u32 \<Rightarrow> device option" where
  "mmio_device b addr =
    (if shr addr 28 \<noteq> 0xF then None
     else let hi = shr addr 20 AND mask 8 in
       if b_vblk b \<noteq> [] \<and> hi \<ge> vblk_mmio_base_hi b \<and> hi \<le> vblk_mmio_max_hi b
       then (let i = unat (hi - vblk_mmio_base_hi b) in if i < length (b_vblk b) then Some (Dev_vblk i) else None)
       else if hi = 0 \<or> hi = 2 then Some Dev_plic
       else if hi = 0x40 then Some Dev_uart
       else if hi = 0x41 then Some Dev_rtc
       else None)"

definition MMIO_READ :: "'w console \<Rightarrow> 'w board \<Rightarrow> u32 \<Rightarrow> ('w board \<times> u32) io_result" where
  "MMIO_READ con b addr =
    (case mmio_device b addr of
       None \<Rightarrow> Unreachable
     | Some Dev_plic \<Rightarrow>
         (let (pl, v) = plic_read (b_plic b) (addr AND 0x3FFFFFF) in Io (update_plic (b\<lparr>b_plic := pl\<rparr>), v))
     | Some Dev_uart \<Rightarrow>
         (case u8250_read con (b_host b) (b_uart b) (addr AND 0xFFFFF) of
            None \<Rightarrow> Process_exit
          | Some (w, uart, v) \<Rightarrow> Io (emu_update_uart_interrupts (b\<lparr>b_host := w, b_uart := uart\<rparr>), v))
     | Some (Dev_vblk i) \<Rightarrow>
         (case virtio_blk_read (b_vblk b ! i) (addr AND 0xFFFFF) of
            None \<Rightarrow> Unreachable
          | Some v \<Rightarrow> Io (emu_update_vblk_interrupts b, v))
     | Some Dev_rtc \<Rightarrow>
         (let (now, r, v) = rtc_read con (b_host b) (now_nsec b) (b_rtc b) (addr AND 0xFFFFF)
          in Io (emu_update_rtc_interrupts (b\<lparr>now_nsec := now, b_rtc := r\<rparr>), v)))"

definition MMIO_WRITE :: "'w console \<Rightarrow> 'w board \<Rightarrow> u32 \<Rightarrow> u32 \<Rightarrow> 'w board io_result" where
  "MMIO_WRITE con b addr val =
    (case mmio_device b addr of
       None \<Rightarrow> Unreachable
     | Some Dev_plic \<Rightarrow>
         (case plic_write (b_plic b) (addr AND 0x3FFFFFF) val of
            None \<Rightarrow> Unreachable
          | Some pl \<Rightarrow> Io (update_plic (b\<lparr>b_plic := pl\<rparr>)))
     | Some Dev_uart \<Rightarrow>
         (let (w, uart) = u8250_write con (b_host b) (b_uart b) (addr AND 0xFFFFF) val
          in Io (emu_update_uart_interrupts (b\<lparr>b_host := w, b_uart := uart\<rparr>)))
     | Some (Dev_vblk i) \<Rightarrow>
         (case virtio_blk_write (unat (mem_size (core b))) (b_vblk b ! i) (mem_base (core b)) (addr AND 0xFFFFF) val of
            None \<Rightarrow> Unreachable
          | Some (v, ram) \<Rightarrow>
              Io (emu_update_vblk_interrupts (set_core (\<lambda>rv. rv\<lparr>mem_base := ram\<rparr>) (b\<lparr>b_vblk := (b_vblk b)[i := v]\<rparr>))))
     | Some Dev_rtc \<Rightarrow>
         (let (now, r) = rtc_write con (b_host b) (now_nsec b) (b_rtc b) (addr AND 0xFFFFF) val
          in Io (emu_update_rtc_interrupts (b\<lparr>now_nsec := now, b_rtc := r\<rparr>))))"

section \<open>Memory callbacks\<close>

text \<open>
  The accesses of the system build: translation, then guest memory or a device. \<open>mmu_read\<close> and \<open>mmu_write\<close>
  are the common text of the callbacks, over the width and the accessor of \<^verbatim>\<open>io.c\<close>.
\<close>

type_synonym 'w trap_entry = "'w board \<Rightarrow> 'w board"

definition mmu_read ::
  "u32 \<Rightarrow> (memory \<Rightarrow> u32 \<Rightarrow> u32) \<Rightarrow> 'w trap_entry \<Rightarrow> 'w console \<Rightarrow> 'w board \<Rightarrow> u32 \<Rightarrow> ('w board \<times> u32) io_result" where
  "mmu_read n read on_trap con b vaddr =
    (let (b, addr) = mmu_translate on_trap b vaddr True in
     if need_handle_signal b then Io (b, 0)
     else if GUEST_RAM_CONTAINS (mem_size (core b)) addr n then Io (b, read (mem_base (core b)) addr)
     else MMIO_READ con b addr)"

definition mmu_read_w :: "'w trap_entry \<Rightarrow> 'w console \<Rightarrow> 'w board \<Rightarrow> u32 \<Rightarrow> ('w board \<times> u32) io_result" where
  "mmu_read_w = mmu_read 4 memory_read_w"

text \<open>The return types of the narrow reads cut a device's answer to their width.\<close>

fun narrow :: "nat \<Rightarrow> ('w board \<times> u32) io_result \<Rightarrow> ('w board \<times> u32) io_result" where
  "narrow n (Io (b, v)) = Io (b, v AND mask n)"
| "narrow n r = r"

definition mmu_read_s :: "'w trap_entry \<Rightarrow> 'w console \<Rightarrow> 'w board \<Rightarrow> u32 \<Rightarrow> ('w board \<times> u32) io_result" where
  "mmu_read_s on_trap con b vaddr = narrow 16 (mmu_read 2 (\<lambda>m a. ucast (memory_read_s m a)) on_trap con b vaddr)"

definition mmu_read_b :: "'w trap_entry \<Rightarrow> 'w console \<Rightarrow> 'w board \<Rightarrow> u32 \<Rightarrow> ('w board \<times> u32) io_result" where
  "mmu_read_b on_trap con b vaddr = narrow 8 (mmu_read 1 (\<lambda>m a. ucast (memory_read_b m a)) on_trap con b vaddr)"

definition mmu_write ::
  "u32 \<Rightarrow> (memory \<Rightarrow> u32 \<Rightarrow> memory) \<Rightarrow> 'w trap_entry \<Rightarrow> 'w console \<Rightarrow> 'w board \<Rightarrow> u32 \<Rightarrow> u32 \<Rightarrow> 'w board io_result" where
  "mmu_write n write on_trap con b vaddr val =
    (let (b, addr) = mmu_translate on_trap b vaddr False in
     if need_handle_signal b then Io b
     else if GUEST_RAM_CONTAINS (mem_size (core b)) addr n
     then Io (set_core (\<lambda>rv. rv\<lparr>mem_base := write (mem_base rv) addr\<rparr>) b)
     else MMIO_WRITE con b addr val)"

definition mmu_write_w :: "'w trap_entry \<Rightarrow> 'w console \<Rightarrow> 'w board \<Rightarrow> u32 \<Rightarrow> u32 \<Rightarrow> 'w board io_result" where
  "mmu_write_w on_trap con b vaddr val = mmu_write 4 (\<lambda>m a. memory_write_w m a val) on_trap con b vaddr val"

definition mmu_write_s :: "'w trap_entry \<Rightarrow> 'w console \<Rightarrow> 'w board \<Rightarrow> u32 \<Rightarrow> u16 \<Rightarrow> 'w board io_result" where
  "mmu_write_s on_trap con b vaddr val = mmu_write 2 (\<lambda>m a. memory_write_s m a val) on_trap con b vaddr (ucast val)"

definition mmu_write_b :: "'w trap_entry \<Rightarrow> 'w console \<Rightarrow> 'w board \<Rightarrow> u32 \<Rightarrow> u8 \<Rightarrow> 'w board io_result" where
  "mmu_write_b on_trap con b vaddr val = mmu_write 1 (\<lambda>m a. memory_write_b m a val) on_trap con b vaddr (ucast val)"

section \<open>Interrupts\<close>

abbreviation (input) RV_INT_STI :: u32 where "RV_INT_STI \<equiv> 0x20"
abbreviation (input) SUPERVISOR_SW_INTR :: u32 where "SUPERVISOR_SW_INTR \<equiv> 0x80000001"
abbreviation (input) SUPERVISOR_TIMER_INTR :: u32 where "SUPERVISOR_TIMER_INTR \<equiv> 0x80000005"
abbreviation (input) SUPERVISOR_EXTERNAL_INTR :: u32 where "SUPERVISOR_EXTERNAL_INTR \<equiv> 0x80000009"

definition rv_has_plic_trap :: "riscv \<Rightarrow> bool" where
  "rv_has_plic_trap rv \<longleftrightarrow> (csr_sstatus rv AND SSTATUS_SIE \<noteq> 0 \<or> priv_mode rv = 0) \<and> csr_sip rv AND csr_sie rv \<noteq> 0"

definition poll_uart :: "'w console \<Rightarrow> 'w board \<Rightarrow> 'w board" where
  "poll_uart con b =
    (let b = b\<lparr>b_uart := u8250_check_ready con (b_host b) (b_uart b)\<rparr>
     in if in_ready (b_uart b) then emu_update_uart_interrupts b else b)"

definition poll_rtc :: "'w console \<Rightarrow> 'w board \<Rightarrow> 'w board" where
  "poll_rtc con b =
    (if irq_enabled (b_rtc b) \<noteq> 0 then
       (let now = rtc_get_now_nsec con (b_host b) (b_rtc b) in
        if rtc_alarm_fire (b_rtc b) now
        then emu_update_rtc_interrupts (b\<lparr>b_rtc := (b_rtc b)\<lparr>alarm_status := 1, interrupt_status := 1\<rparr>\<rparr>)
        else b)
     else b)"

definition update_peripherals :: "'w console \<Rightarrow> 'w board \<Rightarrow> 'w board" where
  "update_peripherals con b =
    (if peripheral_update_ctr b = 0 then poll_rtc con (poll_uart con (b\<lparr>peripheral_update_ctr := 64\<rparr>))
     else b\<lparr>peripheral_update_ctr := peripheral_update_ctr b - 1\<rparr>)"

definition update_timer :: "'w board \<Rightarrow> 'w board" where
  "update_timer b =
    (let current_timer = csr_cycle (core b) + timer_offset b
     in set_core (\<lambda>rv. rv\<lparr>csr_sip := (if current_timer > vm_timer b then csr_sip rv OR RV_INT_STI
                                    else csr_sip rv AND NOT RV_INT_STI)\<rparr>) b)"

definition take_interrupt :: "'w trap_entry \<Rightarrow> 'w board \<Rightarrow> 'w board" where
  "take_interrupt on_trap b =
    (if rv_has_plic_trap (core b) then
       (let intr_idx = ilog2 (csr_sip (core b) AND csr_sie (core b)) in
        if intr_idx = 1 then sys_trap on_trap SUPERVISOR_SW_INTR 0 b
        else if intr_idx = 5 then sys_trap on_trap SUPERVISOR_TIMER_INTR 0 b
        else if intr_idx = 9 then sys_trap on_trap SUPERVISOR_EXTERNAL_INTR 0 b
        else b)
     else b)"

definition rv_check_interrupt :: "'w trap_entry \<Rightarrow> 'w console \<Rightarrow> 'w board \<Rightarrow> 'w board" where
  "rv_check_interrupt on_trap con b = take_interrupt on_trap (update_timer (update_peripherals con b))"

section \<open>Supervisor calls\<close>

text \<open>The SBI calls of \<^verbatim>\<open>syscall.c\<close>; the result is in \<^verbatim>\<open>a0\<close> (error) and \<^verbatim>\<open>a1\<close> (value).\<close>

abbreviation (input) SBI_SUCCESS :: u32 where "SBI_SUCCESS \<equiv> 0"
abbreviation (input) SBI_ERR_NOT_SUPPORTED :: u32 where "SBI_ERR_NOT_SUPPORTED \<equiv> - 2"

definition sbi_result :: "u32 \<Rightarrow> u32 \<Rightarrow> riscv \<Rightarrow> riscv" where
  "sbi_result err v rv = rv_set_reg (rv_set_reg rv 10 err) 11 v"

definition syscall_sbi_timer :: "'w board \<Rightarrow> 'w board" where
  "syscall_sbi_timer b =
    (let rv = core b; fid = rv_get_reg rv 16; a0 = rv_get_reg rv 10; a1 = rv_get_reg rv 11 in
     if fid = 0 then set_core (sbi_result SBI_SUCCESS 0) (b\<lparr>vm_timer := shl (ucast a1) 32 OR ucast a0\<rparr>)
     else set_core (sbi_result SBI_ERR_NOT_SUPPORTED 0) b)"

definition syscall_sbi_base :: "riscv \<Rightarrow> riscv" where
  "syscall_sbi_base rv =
    (let fid = rv_get_reg rv 16 in
     if fid = 1 then sbi_result SBI_SUCCESS 0x999 rv
     else if fid = 2 then sbi_result SBI_SUCCESS 1 rv
     else if fid = 4 then sbi_result SBI_SUCCESS (csr_mvendorid rv) rv
     else if fid = 5 then sbi_result SBI_SUCCESS (csr_marchid rv) rv
     else if fid = 6 then sbi_result SBI_SUCCESS (csr_mimpid rv) rv
     else if fid = 0 then sbi_result SBI_SUCCESS 3 rv
     else if fid = 3 then
       (let eid = rv_get_reg rv 10
        in sbi_result SBI_SUCCESS (if eid = 0x10 \<or> eid = 0x54494D45 \<or> eid = 0x53525354 then 1 else 0) rv)
     else sbi_result SBI_ERR_NOT_SUPPORTED 0 rv)"

definition syscall_sbi_rst :: "riscv \<Rightarrow> riscv" where
  "syscall_sbi_rst rv =
    (if rv_get_reg rv 16 = 0 then sbi_result SBI_SUCCESS 0 (rv_halt rv)
     else sbi_result SBI_ERR_NOT_SUPPORTED 0 rv)"

end
