(* ===== verification/Devices_Correct.thy ===== *)
theory Devices_Correct
  imports Devices Arith_Correct Sample
begin

unbundle bit_operations_syntax

text \<open>
  The interrupt controller under every sequence of device accesses and updates, with a driver that
  completes only interrupts it has claimed.
\<close>

section \<open>Gateways\<close>

text \<open>
  The controller against the set of interrupts in service: a source is masked exactly while it is
  pending or in service, never both, and an active line is masked.
\<close>

definition gateways_ok :: "plic \<Rightarrow> nat set \<Rightarrow> bool" where
  "gateways_ok pl S \<longleftrightarrow>
    (\<forall>n. bit (masked pl) n \<longleftrightarrow> bit (ip pl) n \<or> n \<in> S) \<and>
    (\<forall>n. bit (ip pl) n \<longrightarrow> n \<notin> S) \<and>
    (\<forall>n. bit (active pl) n \<longrightarrow> bit (masked pl) n) \<and> \<not> bit (ie pl) 0"

lemma bit_and_not [simp]: "bit (a AND NOT b) n \<longleftrightarrow> bit a n \<and> \<not> bit b n" for a b :: "'a::len word"
  using bit_imp_le_length [of a n] by (auto simp: bit_simps)

lemma and_eq_0_bits: "a AND b = 0 \<longleftrightarrow> (\<nexists>n. bit a n \<and> bit b n)" for a b :: u32
proof
  assume "a AND b = 0"
  then show "\<nexists>n. bit a n \<and> bit b n" by (metis bit_0_eq bit_and_iff bot_apply bot_bool_def)
qed (auto intro!: bit_word_eqI simp: bit_and_iff)

text \<open>What the controller does between two updates: the lines change arbitrarily.\<close>

definition gateways_pre :: "plic \<Rightarrow> nat set \<Rightarrow> bool" where
  "gateways_pre pl S \<longleftrightarrow>
    (\<forall>n. bit (masked pl) n \<longleftrightarrow> bit (ip pl) n \<or> n \<in> S) \<and> (\<forall>n. bit (ip pl) n \<longrightarrow> n \<notin> S) \<and> \<not> bit (ie pl) 0"

lemma gateways_ok_pre: "gateways_ok pl S \<Longrightarrow> gateways_pre pl S"
  by (simp add: gateways_ok_def gateways_pre_def)

lemma gateways_pre_active [simp]: "gateways_pre (pl\<lparr>active := a\<rparr>) S = gateways_pre pl S"
  by (simp add: gateways_pre_def)

lemma update_gateways:
  assumes "gateways_pre pl S" "plic_update_interrupts pl sip = (pl', sip')"
  shows "gateways_ok pl' S" "ie pl' = ie pl" "active pl' = active pl"
    "bit sip' 9 \<longleftrightarrow> (\<exists>n. bit (ip pl') n \<and> bit (ie pl') n)"
proof -
  have pl': "pl' = pl\<lparr>ip := ip pl OR (active pl AND NOT (masked pl)), masked := masked pl OR active pl\<rparr>"
    and sip': "sip' = (if ip pl' AND ie pl' \<noteq> 0 then sip OR 0x200 else sip AND NOT 0x200)"
    using assms(2) by (auto simp: plic_update_interrupts_def Let_def)
  show "gateways_ok pl' S" using assms(1)
    by (auto simp: pl' gateways_ok_def gateways_pre_def bit_or_iff)
  show "ie pl' = ie pl" "active pl' = active pl" by (simp_all add: pl')
  have "ip pl' AND ie pl' \<noteq> 0 \<longleftrightarrow> (\<exists>n. bit (ip pl') n \<and> bit (ie pl') n)" by (simp add: and_eq_0_bits)
  moreover have "bit (sip OR 0x200) 9" "\<not> bit (sip AND NOT 0x200) 9"
    unfolding bit_or_iff bit_and_not by simp_all
  ultimately show "bit sip' 9 \<longleftrightarrow> (\<exists>n. bit (ip pl') n \<and> bit (ie pl') n)" by (simp only: sip' split: if_split) blast
qed

lemma claim_gateways:
  assumes "gateways_ok pl S" "plic_read pl PLIC_INTR_CLAIM_OR_COMPLETE = (pl', v)"
  shows "if \<exists>n. bit (ip pl) n \<and> bit (ie pl) n
    then unat v = (LEAST n. bit (ip pl) n \<and> bit (ie pl) n) \<and> v \<noteq> 0 \<and> unat v \<notin> S \<and> gateways_pre pl' (insert (unat v) S)
    else v = 0 \<and> pl' = pl"
proof -
  let ?c = "ip pl AND ie pl"
  let ?P = "\<lambda>n. bit (ip pl) n \<and> bit (ie pl) n"
  have c: "?c = 0 \<longleftrightarrow> (\<nexists>n. ?P n)" by (rule and_eq_0_bits)
  show ?thesis
  proof (cases "?c = 0")
    case True
    with assms(2) c show ?thesis by (auto simp: plic_read_def)
  next
    case False
    then obtain k where k: "?P k" using c by blast
    have eq: "{i. bit ?c i} = Collect ?P" by (auto simp: bit_and_iff)
    have "finite (Collect ?P)" by (rule finite_subset [of _ "{..<32}"]) (auto dest: bit_imp_le_length)
    then have ctz: "rv_ctz ?c = of_nat (Least ?P)"
      using count_values(1) [OF False] k by (simp only: eq) (subst Least_Min, auto)
    define m where "m = Least ?P"
    have m: "?P m" using LeastI [of ?P, OF k] by (simp add: m_def)
    then have "m < 32" using bit_imp_le_length [of "ip pl" m] by simp
    then have um: "unat (of_nat m :: u32) = m" by (simp add: unat_of_nat)
    have "m \<noteq> 0" using m assms(1) by (auto simp: gateways_ok_def intro: ccontr)
    have "m \<notin> S" using m assms(1) by (simp add: gateways_ok_def)
    have v: "v = of_nat m" "pl' = pl\<lparr>ip := ip pl AND NOT (shl 1 m)\<rparr>"
      using assms(2) False ctz um by (auto simp: plic_read_def Let_def m_def)
    have "gateways_pre pl' (insert m S)"
      using assms(1) m \<open>m < 32\<close> by (auto simp: v gateways_ok_def gateways_pre_def bit_exp_iff)
    moreover have "(of_nat m :: u32) \<noteq> 0" using \<open>m \<noteq> 0\<close> um by auto
    ultimately show ?thesis using k \<open>m \<notin> S\<close> by (auto simp: v um m_def [symmetric])
  qed
qed

lemma read_gateways:
  "plic_read pl addr = (pl', v) \<Longrightarrow> addr \<noteq> PLIC_INTR_CLAIM_OR_COMPLETE \<Longrightarrow> pl' = pl"
  by (auto simp: plic_read_def split: if_splits)

lemma complete_gateways:
  assumes "gateways_ok pl S" "plic_write pl PLIC_INTR_CLAIM_OR_COMPLETE v = Some pl'" "unat v \<in> S"
  shows "gateways_pre pl' (if bit (ie pl) (unat v) then S - {unat v} else S)"
proof -
  have v: "unat v < 32" using assms(2) by (auto simp: plic_write_def word_le_nat_alt not_le split: if_splits)
  have "ie pl AND shl 1 (unat v) \<noteq> 0 \<longleftrightarrow> bit (ie pl) (unat v)"
    using v by (auto simp: and_eq_0_bits bit_exp_iff)
  with assms(2) v have "pl' = (if bit (ie pl) (unat v) then pl\<lparr>masked := masked pl AND NOT (shl 1 (unat v))\<rparr> else pl)"
    by (auto simp: plic_write_def split: if_splits)
  with assms(1,3) v show ?thesis by (auto simp: gateways_ok_def gateways_pre_def bit_exp_iff)
qed

lemma write_gateways:
  assumes "gateways_ok pl S" "plic_write pl addr v = Some pl'" "addr \<noteq> PLIC_INTR_CLAIM_OR_COMPLETE"
  shows "gateways_pre pl' S"
proof -
  have "\<not> bit (v AND NOT 1) 0" by (simp only: bit_and_not) simp
  with assms show ?thesis by (auto simp: plic_write_def gateways_ok_def gateways_pre_def split: if_splits)
qed

section \<open>The board\<close>

definition deliverable :: "'w board \<Rightarrow> nat \<Rightarrow> bool" where
  "deliverable b n \<longleftrightarrow> bit (ip (b_plic b)) n \<and> bit (ie (b_plic b)) n"

text \<open>The external interrupt of the hart follows the controller.\<close>

definition board_ok :: "'w board \<Rightarrow> nat set \<Rightarrow> bool" where
  "board_ok b S \<longleftrightarrow> gateways_ok (b_plic b) S \<and> (bit (csr_sip (core b)) 9 \<longleftrightarrow> (\<exists>n. deliverable b n))"

lemma board_okD: "board_ok b S \<Longrightarrow> gateways_pre (b_plic b) S"
  by (simp add: board_ok_def gateways_ok_pre)

lemma update_plic_ok:
  assumes "gateways_pre (b_plic b) S"
  shows "board_ok (update_plic b) S"
proof (cases "plic_update_interrupts (b_plic b) (csr_sip (core b))")
  case (Pair pl sip)
  with update_gateways [OF assms Pair] show ?thesis
    by (simp add: update_plic_def board_ok_def deliverable_def set_core_def)
qed

lemma set_line_pre [simp]: "gateways_pre (b_plic (set_line irq on b)) S = gateways_pre (b_plic b) S"
  by (simp add: set_line_def)

lemma device_update_ok:
  assumes "gateways_pre (b_plic b) S"
  shows "board_ok (emu_update_uart_interrupts b) S" "board_ok (emu_update_rtc_interrupts b) S"
  using assms by (simp_all add: emu_update_uart_interrupts_def emu_update_rtc_interrupts_def Let_def update_plic_ok)

lemma vblk_update_ok:
  assumes "gateways_pre (b_plic b) S" "b_vblk b \<noteq> []"
  shows "board_ok (emu_update_vblk_interrupts b) S"
proof -
  have later: "board_ok b S \<Longrightarrow>
      board_ok (fold (\<lambda>i b. update_plic (set_line (f i b) (g i b) b)) is b) S" for f g "is" and b :: "'a board"
    by (induction "is" arbitrary: b) (simp_all add: update_plic_ok board_okD)
  have "[0..<length (b_vblk b)] = 0 # [Suc 0..<length (b_vblk b)]" using assms(2) by (simp add: upt_conv_Cons)
  moreover have "board_ok (update_plic (set_line irq on b)) S" for irq on using assms(1) by (simp add: update_plic_ok)
  ultimately show ?thesis unfolding emu_update_vblk_interrupts_def by (simp only: fold_Cons o_apply later)
qed

text \<open>
  The accesses of the guest, the updates of the step loop, and what the hart does in between: it
  may change everything but the controller, its own \<^verbatim>\<open>sip\<close> included, which is a writable register. The
  driver completes only interrupts in service; completing a disabled one has no effect.

  A state is the board, the set of interrupts in service, and whether the hart has changed its
  external-interrupt bit since the controller last set it, which every device access does.
\<close>

definition claim_access :: "'w board \<Rightarrow> u32 \<Rightarrow> bool" where
  "claim_access b addr \<longleftrightarrow> mmio_device b addr = Some Dev_plic \<and> addr AND 0x3FFFFFF = PLIC_INTR_CLAIM_OR_COMPLETE"

type_synonym 'w board_run = "'w board \<times> nat set \<times> bool"

inductive board_step :: "'w console \<Rightarrow> 'w board_run \<Rightarrow> 'w board_run \<Rightarrow> bool" for con where
  step_read: "MMIO_READ con b addr = Io (b', v) \<Longrightarrow>
    board_step con (b, S, w) (b', if claim_access b addr \<and> v \<noteq> 0 then insert (unat v) S else S, False)"
| step_write: "MMIO_WRITE con b addr v = Io b' \<Longrightarrow> claim_access b addr \<longrightarrow> unat v \<in> S \<Longrightarrow>
    board_step con (b, S, w) (b', if claim_access b addr \<and> bit (ie (b_plic b)) (unat v) then S - {unat v} else S, False)"
| step_tick: "board_step con (b, S, w) (update_timer (update_peripherals con b), S, w)"
| step_hart: "b_plic b' = b_plic b \<Longrightarrow>
    board_step con (b, S, w) (b', S, w \<or> bit (csr_sip (core b')) 9 \<noteq> bit (csr_sip (core b)) 9)"

fun board_inv :: "'w board_run \<Rightarrow> bool" where
  "board_inv (b, S, w) \<longleftrightarrow> gateways_ok (b_plic b) S \<and> (\<not> w \<longrightarrow> board_ok b S)"

lemma board_ok_inv: "board_ok b S \<Longrightarrow> board_inv (b, S, w)"
  by (simp add: board_ok_def)

lemma claim_read_ok:
  assumes g: "gateways_ok (b_plic b) S" and "claim_access b addr" "MMIO_READ con b addr = Io (b', v)"
  shows "board_ok b' (if v \<noteq> 0 then insert (unat v) S else S)"
    "if \<exists>n. deliverable b n then unat v = (LEAST n. deliverable b n) \<and> v \<noteq> 0 \<and> unat v \<notin> S else v = 0"
proof -
  obtain pl where pl: "plic_read (b_plic b) PLIC_INTR_CLAIM_OR_COMPLETE = (pl, v)" "b' = update_plic (b\<lparr>b_plic := pl\<rparr>)"
    using assms(2,3) by (auto simp: MMIO_READ_def claim_access_def split: prod.splits)
  note c = claim_gateways [OF g pl(1)]
  then show "if \<exists>n. deliverable b n then unat v = (LEAST n. deliverable b n) \<and> v \<noteq> 0 \<and> unat v \<notin> S else v = 0"
    by (auto simp: deliverable_def split: if_splits)
  from c gateways_ok_pre [OF g] have "gateways_pre pl (if v \<noteq> 0 then insert (unat v) S else S)" by (auto split: if_splits)
  then show "board_ok b' (if v \<noteq> 0 then insert (unat v) S else S)"
    unfolding pl(2) by (intro update_plic_ok) simp
qed

lemma mmio_vblk: "mmio_device b addr = Some (Dev_vblk i) \<Longrightarrow> i < length (b_vblk b)"
  by (auto simp: mmio_device_def Let_def split: if_splits)

lemma read_ok:
  assumes "gateways_ok (b_plic b) S" "\<not> claim_access b addr" "MMIO_READ con b addr = Io (b', v)"
  shows "board_ok b' S"
proof -
  have "b_vblk b \<noteq> []" if "mmio_device b addr = Some (Dev_vblk i)" for i using mmio_vblk [OF that] by auto
  with assms(3,2) gateways_ok_pre [OF assms(1)] show ?thesis
    by (auto simp: MMIO_READ_def claim_access_def Let_def intro!: update_plic_ok device_update_ok vblk_update_ok
        dest: read_gateways split: option.splits device.splits prod.splits)
qed

lemma board_ok_cong: "board_ok b S \<Longrightarrow> b_plic b' = b_plic b \<Longrightarrow> bit (csr_sip (core b')) 9 = bit (csr_sip (core b)) 9 \<Longrightarrow> board_ok b' S"
  by (simp add: board_ok_def deliverable_def)

lemma write_ok:
  assumes g: "gateways_ok (b_plic b) S" and w: "MMIO_WRITE con b addr v = Io b'" "claim_access b addr \<longrightarrow> unat v \<in> S"
  shows "board_ok b' (if claim_access b addr \<and> bit (ie (b_plic b)) (unat v) then S - {unat v} else S)"
proof (cases "mmio_device b addr = Some Dev_plic")
  case True
  then obtain pl where pl: "plic_write (b_plic b) (addr AND 0x3FFFFFF) v = Some pl" "b' = update_plic (b\<lparr>b_plic := pl\<rparr>)"
    using w(1) by (auto simp: MMIO_WRITE_def split: option.splits)
  have "gateways_pre pl (if claim_access b addr \<and> bit (ie (b_plic b)) (unat v) then S - {unat v} else S)"
    using complete_gateways [OF g] write_gateways [OF g pl(1)] pl(1) w(2) True
    by (cases "claim_access b addr") (auto simp: claim_access_def)
  then show ?thesis unfolding pl(2) by (intro update_plic_ok) simp
next
  case False
  have "board_ok (emu_update_vblk_interrupts (set_core (\<lambda>rv. rv\<lparr>mem_base := ram\<rparr>) (b\<lparr>b_vblk := (b_vblk b)[i := vs]\<rparr>))) S"
    if "mmio_device b addr = Some (Dev_vblk i)" for ram vs i
    using mmio_vblk [OF that] gateways_ok_pre [OF g] by (intro vblk_update_ok) (auto simp: set_core_def)
  with False w(1) gateways_ok_pre [OF g] show ?thesis
    by (auto simp: MMIO_WRITE_def claim_access_def Let_def intro!: device_update_ok
        split: option.splits device.splits prod.splits)
qed

lemma poll_ok:
  assumes "board_ok b S"
  shows "board_ok (poll_uart con b) S" "board_ok (poll_rtc con b) S"
proof -
  have "board_ok (b\<lparr>b_uart := u\<rparr>) S" "gateways_pre (b_plic (b\<lparr>b_uart := u\<rparr>)) S" for u
    using assms by (simp_all add: board_ok_cong [OF assms] board_okD)
  then show "board_ok (poll_uart con b) S" unfolding poll_uart_def Let_def by (simp add: device_update_ok)
  have "board_ok (emu_update_rtc_interrupts (b\<lparr>b_rtc := r\<rparr>)) S" for r
    by (rule device_update_ok(2)) (simp add: board_okD [OF assms])
  with assms show "board_ok (poll_rtc con b) S" by (simp add: poll_rtc_def Let_def)
qed

lemma update_peripherals_ok:
  assumes "board_ok b S"
  shows "board_ok (update_peripherals con b) S"
proof -
  have "board_ok (b\<lparr>peripheral_update_ctr := c\<rparr>) S" for c by (rule board_ok_cong [OF assms]) simp_all
  then show ?thesis by (simp add: update_peripherals_def poll_ok)
qed

lemma tick_ok:
  assumes "board_ok b S"
  shows "board_ok (update_timer (update_peripherals con b)) S"
proof (rule board_ok_cong [OF update_peripherals_ok [OF assms]])
  have "bit (x OR 0x20) 9 = bit x 9" "bit (x AND NOT 0x20) 9 = bit x 9" for x :: u32
    unfolding bit_or_iff bit_and_not by simp_all
  then show "bit (csr_sip (core (update_timer (update_peripherals con b)))) 9 = bit (csr_sip (core (update_peripherals con b))) 9"
    by (simp add: update_timer_def set_core_def Let_def)
qed (simp add: update_timer_def set_core_def Let_def)

lemma tick_gateways:
  assumes "gateways_ok (b_plic b) S"
  shows "gateways_ok (b_plic (update_timer (update_peripherals con b))) S"
proof -
  have uart: "gateways_ok (b_plic (poll_uart con b)) S" if "gateways_ok (b_plic b) S" for b :: "'a board"
    using that device_update_ok(1) [of "b\<lparr>b_uart := u8250_check_ready con (b_host b) (b_uart b)\<rparr>" S]
    by (simp add: poll_uart_def Let_def gateways_ok_pre board_ok_def)
  have rtc: "gateways_ok (b_plic (poll_rtc con b)) S" if "gateways_ok (b_plic b) S" for b :: "'a board"
    using that device_update_ok(2) [of "b\<lparr>b_rtc := (b_rtc b)\<lparr>alarm_status := 1, interrupt_status := 1\<rparr>\<rparr>" S]
    by (simp add: poll_rtc_def Let_def gateways_ok_pre board_ok_def)
  have "gateways_ok (b_plic (update_peripherals con b)) S"
    using assms uart rtc by (simp add: update_peripherals_def)
  then show ?thesis by (simp add: update_timer_def set_core_def Let_def)
qed

lemma board_step_inv: "board_step con x y \<Longrightarrow> board_inv x \<Longrightarrow> board_inv y"
proof (induction rule: board_step.induct)
  case (step_read b addr b' v S w)
  then show ?case using claim_read_ok(1) [of b S addr con b' v] read_ok [of b S addr con b' v]
    by (cases "claim_access b addr") (auto simp del: board_inv.simps intro!: board_ok_inv simp: board_inv.simps [of b])
next
  case (step_write b addr v b' S w)
  then show ?case using write_ok [of b S con addr v b'] by (auto intro!: board_ok_inv simp del: board_inv.simps simp: board_inv.simps [of b])
next
  case (step_tick b S w)
  then show ?case using tick_ok [of b S con] tick_gateways [of b S con] by auto
next
  case (step_hart b' b S w)
  then show ?case using board_ok_cong [of b S b'] by auto
qed

lemma board_steps_inv: "(board_step con)\<^sup>*\<^sup>* x y \<Longrightarrow> board_inv x \<Longrightarrow> board_inv y"
  by (induction rule: rtranclp_induct) (auto dest: board_step_inv)

section \<open>Interrupt delivery\<close>

text \<open>
  C32. Interrupts are neither lost nor delivered twice: in every state the board reaches from reset
  under device accesses of the guest, updates of the step loop and any other steps of the hart, with a driver that
  completes only what it has claimed (\<open>S\<close> is what is in service), every active line is pending or in
  service, and a claim returns the lowest enabled pending source, which is not in service and no longer
  pending afterwards, or 0 if there is none. The external-interrupt bit of the hart's \<^verbatim>\<open>sip\<close> is set exactly
  while an enabled source is pending, unless the guest itself has changed that bit by a write to \<^verbatim>\<open>sip\<close>
  since the last device access (\<open>w\<close>); the next access to any device puts it right again.
\<close>

theorem interrupt_delivery:
  assumes "b_plic b0 = plic_new" "\<not> bit (csr_sip (core b0)) 9" "(board_step con)\<^sup>*\<^sup>* (b0, {}, False) (b, S, w)"
  shows "(w \<or> (bit (csr_sip (core b)) 9 \<longleftrightarrow> (\<exists>n. deliverable b n))) \<and>
    (\<forall>n. bit (active (b_plic b)) n \<longrightarrow> bit (ip (b_plic b)) n \<or> n \<in> S) \<and>
    (\<forall>addr b' v. claim_access b addr \<longrightarrow> MMIO_READ con b addr = Io (b', v) \<longrightarrow>
      (if \<exists>n. deliverable b n
       then unat v = (LEAST n. deliverable b n) \<and> v \<noteq> 0 \<and> unat v \<notin> S \<and> \<not> bit (ip (b_plic b')) (unat v)
       else v = 0)) \<and>
    (\<forall>addr b' v. MMIO_READ con b addr = Io (b', v) \<longrightarrow> (bit (csr_sip (core b')) 9 \<longleftrightarrow> (\<exists>n. deliverable b' n))) \<and>
    (\<forall>addr b' v. MMIO_WRITE con b addr v = Io b' \<longrightarrow> (claim_access b addr \<longrightarrow> unat v \<in> S) \<longrightarrow>
      (bit (csr_sip (core b')) 9 \<longleftrightarrow> (\<exists>n. deliverable b' n)))"
proof -
  have "board_inv (b0, {}, False)" using assms(1,2) by (simp add: board_ok_def gateways_ok_def deliverable_def plic_new_def)
  then have inv: "board_inv (b, S, w)" using board_steps_inv [OF assms(3)] by blast
  then have g: "gateways_ok (b_plic b) S" by simp
  have "if \<exists>n. deliverable b n
       then unat v = (LEAST n. deliverable b n) \<and> v \<noteq> 0 \<and> unat v \<notin> S \<and> \<not> bit (ip (b_plic b')) (unat v)
       else v = 0" if "claim_access b addr" "MMIO_READ con b addr = Io (b', v)" for addr b' v
    using claim_read_ok [OF g that] by (auto simp: board_ok_def gateways_ok_def split: if_splits)
  moreover have "bit (csr_sip (core b')) 9 \<longleftrightarrow> (\<exists>n. deliverable b' n)" if "MMIO_READ con b addr = Io (b', v)" for addr b' v
    using claim_read_ok(1) [OF g _ that] read_ok [OF g _ that] by (auto simp: board_ok_def)
  moreover have "bit (csr_sip (core b')) 9 \<longleftrightarrow> (\<exists>n. deliverable b' n)"
    if "MMIO_WRITE con b addr v = Io b'" "claim_access b addr \<longrightarrow> unat v \<in> S" for addr b' v
    using write_ok [OF g that] by (simp add: board_ok_def)
  moreover have "w \<or> (bit (csr_sip (core b)) 9 \<longleftrightarrow> (\<exists>n. deliverable b n))"
    "\<forall>n. bit (active (b_plic b)) n \<longrightarrow> bit (ip (b_plic b)) n \<or> n \<in> S"
    using inv g by (auto simp: board_ok_def gateways_ok_def)
  ultimately show ?thesis by blast
qed

text \<open>The write that makes the exception necessary: \<^verbatim>\<open>csrrw\<close> of 0 to \<^verbatim>\<open>sip\<close> takes a pending external interrupt away.\<close>

lemma sip_write_drops: "csr_sip (fst (csr_csrrw ht rv 0x144 0 c)) = 0"
  by (simp add: csr_csrrw_def csr_sync_cycle_def csr_get_ptr_def Let_def)

text \<open>A board whose serial port has sent a byte with its interrupt enabled.\<close>

definition con0 :: "u8 list console" where
  "con0 = \<lparr>con_poll = (\<lambda>w. False), con_read = (\<lambda>w. (w, 0)), con_getchar = (\<lambda>w. (w, 0)), con_write = (\<lambda>w b. w @ [b]),
    con_nsec = (\<lambda>w. 0)\<rparr>"

definition board0 :: "u8 list board" where
  "board0 = \<lparr>core = rv0, dtlb = (\<lambda>i. no_entry), itlb = (\<lambda>i. no_entry), last_csr_sepc = 0, is_trapped = False,
    need_retranslate = False, need_handle_signal = False, b_plic = plic_new,
    b_uart = \<lparr>dll = 0, dlh = 0, lcr = 0, ier = 0, current_intr = 0, pending_intrs = 0, mcr = 0, in_ready = False\<rparr>,
    b_rtc = snd (rtc_new con0 []), now_nsec = 0, b_vblk = [], vblk_irq_base = 3, vblk_mmio_base_hi = 0x42, vblk_mmio_max_hi = 0x42,
    b_host = [], timer_offset = 0, vm_timer = 0xFFFFFFFFFFFFFFF, peripheral_update_ctr = 64\<rparr>"

fun mmio_writes :: "'w console \<Rightarrow> 'w board \<Rightarrow> (u32 \<times> u32) list \<Rightarrow> 'w board option" where
  "mmio_writes con b [] = Some b"
| "mmio_writes con b ((a, v) # ws) = (case MMIO_WRITE con b a v of Io b' \<Rightarrow> mmio_writes con b' ws | _ \<Rightarrow> None)"

lemma mmio_writes_steps:
  "mmio_writes con b ws = Some b' \<Longrightarrow> \<forall>(a, v) \<in> set ws. a AND 0x3FFFFFF \<noteq> PLIC_INTR_CLAIM_OR_COMPLETE \<Longrightarrow>
    (board_step con)\<^sup>*\<^sup>* (b, S, False) (b', S, False)"
proof (induction con b ws rule: mmio_writes.induct)
  case (2 con b a v ws)
  then obtain b1 where b1: "MMIO_WRITE con b a v = Io b1" "mmio_writes con b1 ws = Some b'" by (auto split: io_result.splits)
  have "\<not> claim_access b a" using 2(3) by (simp add: claim_access_def)
  then have "board_step con (b, S, False) (b1, S, False)" using step_write [OF b1(1), of S False] by simp
  with 2(1) [OF b1] 2(3) show ?case by (auto intro: converse_rtranclp_into_rtranclp)
qed simp

definition sent_byte :: "u8 list board option" where
  "sent_byte = mmio_writes con0 board0 [(0xF0002000, 2), (0xF4000001, 2), (0xF4000000, 65)]"

lemma sent_byte_run: "case sent_byte of None \<Rightarrow> False
  | Some b \<Rightarrow> csr_sip (core b) = 0x200 \<and> b_host b = [65] \<and> mmio_device b 0xF0200004 = Some Dev_plic"
  by code_simp

theorem interrupt_delivery_witness:
  "\<exists>b. sent_byte = Some b \<and> (\<exists>n. deliverable b n) \<and>
    (\<forall>b' v. MMIO_READ con0 b 0xF0200004 = Io (b', v) \<longrightarrow> v \<noteq> 0)"
proof -
  obtain b where b: "sent_byte = Some b" "csr_sip (core b) = 0x200" "mmio_device b 0xF0200004 = Some Dev_plic"
    using sent_byte_run by (auto split: option.splits)
  have c: "claim_access b 0xF0200004" using b(3) by (simp add: claim_access_def)
  have "b_plic board0 = plic_new" "\<not> bit (csr_sip (core board0)) 9" by (simp_all add: board0_def rv0_def)
  moreover have "(board_step con0)\<^sup>*\<^sup>* (board0, {}, False) (b, {}, False)"
    by (rule mmio_writes_steps [OF b(1) [unfolded sent_byte_def]]) simp
  ultimately have d: "bit (csr_sip (core b)) 9 \<longleftrightarrow> (\<exists>n. deliverable b n)"
    "\<forall>b' v. MMIO_READ con0 b 0xF0200004 = Io (b', v) \<longrightarrow> (\<exists>n. deliverable b n) \<longrightarrow> v \<noteq> 0"
    using interrupt_delivery [of board0 con0 b "{}" False] c by presburger+
  have "bit (csr_sip (core b)) 9" by (simp add: b(2))
  with b(1) d show ?thesis by blast
qed

section \<open>Clock\<close>

text \<open>Setting the time, low word first, makes the clock run on from the time written.\<close>

lemma rtc_set_time:
  assumes "rtc_write con w now r 0 lo = (now1, r1)" "rtc_write con w' now1 r1 4 hi = (now2, r2)"
  shows "rtc_get_now_nsec con w'' r2 = (shl (ucast hi) 32 OR ucast lo) + (con_nsec con w'' - con_nsec con w)"
proof -
  define N where "N = con_nsec con w + clock_offset r"
  have r2: "clock_offset r2 = clock_offset r + (ucast lo - (N AND mask 32)) + (shl (ucast hi) 32 - (N AND shl (mask 32) 32))"
    using assms by (auto simp: rtc_write_def rtc_get_now_nsec_def N_def Let_def)
  have "N = (N AND mask 32) + (N AND shl (mask 32) 32)"
    by (subst disjunctive_add) (auto intro!: bit_word_eqI simp: bit_simps)
  moreover have "shl (ucast hi) 32 OR ucast lo = shl (ucast hi :: u64) 32 + ucast lo"
    by (rule disjunctive_add [symmetric]) (auto simp: bit_simps dest: bit_imp_le_length)
  ultimately show ?thesis unfolding rtc_get_now_nsec_def r2 N_def [symmetric] by (simp add: N_def algebra_simps)
qed

text \<open>
  High word first uses a reading of the clock taken earlier: here 5 seconds have passed since, and the
  clock is 4.3 seconds (one unit of the high word) ahead of the time written.
\<close>

lemma rtc_high_first:
  "\<exists>con (w :: nat) r1 r2 n1 n2. con_nsec con w = 5000000000 \<and>
     rtc_write con w 0 (snd (rtc_new con (0 :: nat))) 4 7 = (n1, r1) \<and> rtc_write con w n1 r1 0 0 = (n2, r2) \<and>
     rtc_get_now_nsec con w r2 = shl 8 32"
proof -
  define con :: "nat console" where "con = \<lparr>con_poll = (\<lambda>w. False), con_read = (\<lambda>w. (w, 0)), con_getchar = (\<lambda>w. (w, 0)),
    con_write = (\<lambda>w b. w), con_nsec = (\<lambda>w. of_nat w)\<rparr>"
  have "con_nsec con n = of_nat n" for n by (simp add: con_def)
  then show ?thesis
    by (intro exI [of _ con] exI [of _ 5000000000])
      (simp add: rtc_new_def rtc_write_def rtc_get_now_nsec_def Let_def mask_eq_exp_minus_1)
qed

section \<open>Device window and priorities\<close>

text \<open>
  The window of the block devices is one slot too long: its last address belongs to no device, and
  the access reads past the end of the array of devices.
\<close>

lemma vblk_past_end:
  assumes "b_vblk b \<noteq> []" "vblk_mmio_max_hi b = vblk_mmio_base_hi b + of_nat (length (b_vblk b))"
    "shr addr 28 = 0xF" "shr addr 20 AND mask 8 = vblk_mmio_max_hi b" "vblk_mmio_base_hi b \<le> vblk_mmio_max_hi b"
    "length (b_vblk b) < 2 ^ 32"
  shows "MMIO_READ con b addr = Unreachable"
proof -
  have "unat (of_nat (length (b_vblk b)) :: u32) = length (b_vblk b)"
    using assms(6) by (simp add: unat_of_nat)
  with assms show ?thesis by (simp add: MMIO_READ_def mmio_device_def Let_def)
qed

text \<open>With a timer and a software interrupt pending the timer is taken, where the architecture puts the software
  interrupt first.\<close>

lemma timer_before_software:
  assumes "csr_sip (core b) AND csr_sie (core b) = 0x22" "csr_sstatus (core b) AND SSTATUS_SIE \<noteq> 0"
  shows "take_interrupt on_trap b = sys_trap on_trap SUPERVISOR_TIMER_INTR 0 b"
proof -
  have "ilog2 0x22 = 5" by code_simp
  with assms show ?thesis by (simp add: take_interrupt_def rv_has_plic_trap_def)
qed

text \<open>Setting the timer: its interrupt is pending from the first cycle after the time set.\<close>

lemma sbi_timer_pending:
  assumes "X (core b) 16 = 0" "X (core b) 10 = lo" "X (core b) 11 = hi" "b' = syscall_sbi_timer b"
  shows "X (core b') 10 = 0 \<and>
    (bit (csr_sip (core (update_timer (b'\<lparr>core := (core b')\<lparr>csr_cycle := c\<rparr>\<rparr>)))) 5 \<longleftrightarrow>
     shl (ucast hi) 32 OR ucast lo < c + timer_offset b)"
proof -
  have "bit (x OR 0x20) 5" "\<not> bit (x AND NOT 0x20) 5" for x :: u32 unfolding bit_or_iff bit_and_not by simp_all
  then show ?thesis using assms(1-3)
    by (simp add: assms(4) syscall_sbi_timer_def sbi_result_def rv_get_reg_def rv_set_reg_def set_core_def update_timer_def Let_def)
qed

end
