(* ===== verification/Virtio_Correct.thy ===== *)
theory Virtio_Correct
  imports Virtio
begin

unbundle bit_operations_syntax

text \<open>
  The block device against its specification: the requests a driver has put into the available ring
  are carried out on the disk in order, and the used ring reports them.
\<close>

section \<open>Requests and what they mean\<close>

record blk_req =
  rq_head :: u16
  rq_type :: u32
  rq_sector :: u64
  rq_addr :: u64
  rq_len :: u32
  rq_status :: u64

text \<open>Position \<open>k\<close> of the available ring holds the request: ring slot, descriptor chain, header.\<close>

definition posted :: "nat \<Rightarrow> memory \<Rightarrow> virtio_blk_queue \<Rightarrow> u16 \<Rightarrow> blk_req \<Rightarrow> bool" where
  "posted rs m q k r \<longleftrightarrow>
    (let i = ucast (ucast k mod queue_num q) :: u16 in
     \<exists>w. ram_word rs m (queue_avail q + 1 + ucast (i div 2)) = Some w \<and> ucast (shr w (16 * unat (i mod 2))) = rq_head r) \<and>
    (\<exists>d0 d1 d2 h. collect_descs 3 rs m q (rq_head r) = Some [d0, d1, d2] \<and>
      bit (d_flags d0) 0 \<and> bit (d_flags d1) 0 \<and> \<not> bit (d_flags d2) 0 \<and>
      get_area rs m (unat (d_addr d0)) 16 = Some h \<and> of_le (take 4 h) = rq_type r \<and> of_le (drop 8 h) = rq_sector r \<and>
      d_addr d1 = rq_addr r \<and> d_len d1 = rq_len r \<and> d_addr d2 = rq_status r)"

definition request_ok :: "nat \<Rightarrow> virtio_blk \<Rightarrow> blk_req \<Rightarrow> bool" where
  "request_ok rs v r \<longleftrightarrow>
    (rq_type r = VIRTIO_BLK_T_IN \<or> rq_type r = VIRTIO_BLK_T_OUT \<and> device_features v AND VIRTIO_BLK_F_RO = 0) \<and>
    rq_sector r \<le> capacity v - 1 \<and> unat (rq_sector r) * 512 + unat (rq_len r) \<le> vb_limit v \<and>
    unat (rq_addr r) + unat (rq_len r) \<le> rs \<and> unat (rq_status r) < rs"

text \<open>The meaning of a request on the disk and guest memory, as virtio defines it.\<close>

definition disk_op :: "blk_req \<Rightarrow> memory \<times> memory \<Rightarrow> memory \<times> memory" where
  "disk_op r s =
    (let (d, m) = s; at_disk = unat (rq_sector r) * 512; at_ram = unat (rq_addr r); n = unat (rq_len r);
         (d, m) = (if rq_type r = VIRTIO_BLK_T_IN then (d, memcpy_to m at_ram (memcpy_from d at_disk n))
                   else (memcpy_to d at_disk (memcpy_from m at_ram n), m))
     in (d, m(unat (rq_status r) := 0)))"

definition request_writes :: "blk_req \<Rightarrow> nat set" where
  "request_writes r =
    (if rq_type r = VIRTIO_BLK_T_IN then {unat (rq_addr r)..<unat (rq_addr r) + unat (rq_len r)} else {}) \<union> {unat (rq_status r)}"

definition request_touches :: "blk_req \<Rightarrow> nat set" where
  "request_touches r = {unat (rq_addr r)..<unat (rq_addr r) + unat (rq_len r)} \<union> {unat (rq_status r)}"

text \<open>The used ring, and the entry for position \<open>k\<close> of it.\<close>

definition used_ring :: "virtio_blk_queue \<Rightarrow> nat set" where
  "used_ring q = {4 * unat (queue_used q)..<4 * (unat (queue_used q) + 1 + 2 * unat (queue_num q))}"

definition used_slot :: "virtio_blk_queue \<Rightarrow> u16 \<Rightarrow> nat" where
  "used_slot q k = 4 * (unat (queue_used q) + 1 + 2 * (unat k mod unat (queue_num q)))"

definition ring_ok :: "nat \<Rightarrow> virtio_blk_queue \<Rightarrow> bool" where
  "ring_ok rs q \<longleftrightarrow> 0 < queue_num q \<and> queue_num q \<le> VBLK_QUEUE_NUM_MAX \<and> unat (queue_num q) dvd 2 ^ 16 \<and>
    4 * (unat (queue_used q) + 1 + 2 * unat (queue_num q)) \<le> rs \<and> rs \<le> 2 ^ 32"

text \<open>
  What the driver guarantees: the requests can be read from the bytes in \<open>P\<close> alone, and the device writes to
  none of these bytes; the used ring is apart from both.
\<close>

definition driver_ok :: "nat \<Rightarrow> virtio_blk \<Rightarrow> virtio_blk_queue \<Rightarrow> nat set \<Rightarrow> memory \<Rightarrow> u16 \<Rightarrow> blk_req list \<Rightarrow> bool" where
  "driver_ok rs v q P ram la reqs \<longleftrightarrow>
    (\<forall>k < length reqs. \<forall>m. (\<forall>a \<in> P. m a = ram a) \<longrightarrow> posted rs m q (la + of_nat k) (reqs ! k)) \<and>
    (\<forall>r \<in> set reqs. request_ok rs v r \<and> request_writes r \<inter> P = {} \<and> request_touches r \<inter> used_ring q = {}) \<and>
    used_ring q \<inter> P = {}"

section \<open>One request\<close>

lemma desc_status_ok: "unat a < rs \<Longrightarrow> desc_status rs v m a x ok len = Some (v, m(unat a := x), ok, len)"
  by (auto simp: desc_status_def put_area_def in_area_def memcpy_to_def fun_eq_iff)

lemma serve_request_ok:
  assumes "request_ok rs v r" "d_addr d1 = rq_addr r" "d_len d1 = rq_len r" "disk_op r (disk v, m) = (d', m')"
  shows "serve_request rs v m (rq_type r) (rq_sector r) d1 (rq_status r) = Some (v\<lparr>disk := d'\<rparr>, m', True, rq_len r)"
  using assms by (auto simp: serve_request_def request_ok_def disk_op_def desc_status_ok virtio_blk_read_handler_def
      virtio_blk_write_handler_def get_area_def put_area_def in_area_def not_less split: if_splits)

lemma flag_next: "f AND VIRTIO_DESC_F_NEXT = 0 \<longleftrightarrow> \<not> bit f 0" for f :: u16
  using and_exp_eq_0 [of f 0] by simp

lemma desc_handler_ok:
  assumes "posted rs m q k r" "request_ok rs v r" "disk_op r (disk v, m) = (d', m')"
  shows "virtio_blk_desc_handler rs v m q (rq_head r) = Some (v\<lparr>disk := d'\<rparr>, m', True, rq_len r)"
proof -
  obtain d0 d1 d2 h where d: "collect_descs 3 rs m q (rq_head r) = Some [d0, d1, d2]"
    "bit (d_flags d0) 0" "bit (d_flags d1) 0" "\<not> bit (d_flags d2) 0"
    "get_area rs m (unat (d_addr d0)) 16 = Some h" "of_le (take 4 h) = rq_type r" "of_le (drop 8 h) = rq_sector r"
    "d_addr d1 = rq_addr r" "d_len d1 = rq_len r" "d_addr d2 = rq_status r"
    using assms(1) unfolding posted_def by blast
  from serve_request_ok [OF assms(2) d(8,9) assms(3)] d show ?thesis
    by (simp add: virtio_blk_desc_handler_def flag_next del: collect_descs.simps)
qed

lemma writes_touch: "request_writes r \<subseteq> request_touches r"
  by (auto simp: request_writes_def request_touches_def)

lemma disk_op_frame:
  assumes "disk_op r (d, m) = (d', m')" "a \<notin> request_writes r"
  shows "m' a = m a"
  using assms by (auto simp: disk_op_def request_writes_def memcpy_to_def Let_def split: if_splits)

lemma disk_op_cong:
  assumes "disk_op r (d, m) = (d', m')" "\<forall>a. a \<notin> U \<longrightarrow> m a = ma a" "request_touches r \<inter> U = {}"
  shows "\<exists>ma'. disk_op r (d, ma) = (d', ma') \<and> (\<forall>a. a \<notin> U \<longrightarrow> m' a = ma' a)"
proof -
  have "memcpy_from m (unat (rq_addr r)) (unat (rq_len r)) = memcpy_from ma (unat (rq_addr r)) (unat (rq_len r))"
    using assms(2,3) by (intro memcpy_from_cong) (fastforce simp: request_touches_def disjoint_iff)
  with assms(1,2) show ?thesis by (auto simp: disk_op_def memcpy_to_def Let_def split: if_splits)
qed

section \<open>The used ring\<close>

lemma unat_ucast_16_32: "unat (ucast k :: u32) = unat k" for k :: u16
proof -
  have "unat k < 2 ^ LENGTH(16)" by (rule unsigned_less)
  then show ?thesis by (simp add: unsigned_ucast_eq take_bit_nat_eq_self)
qed

lemma unat_of_small: "x < 2 ^ 32 \<Longrightarrow> unat (of_nat x :: u32) = x"
  by (simp add: unat_of_nat)

lemma used_index:
  assumes "ring_ok rs q"
  shows "4 * unat (queue_used q + 1 + (ucast nu mod queue_num q) * 2) = used_slot q nu"
    "4 * unat (queue_used q + 1 + (ucast nu mod queue_num q) * 2 + 1) = used_slot q nu + 4"
    "used_slot q nu + 8 \<le> 4 * (unat (queue_used q) + 1 + 2 * unat (queue_num q))"
proof -
  define n :: nat and u :: nat and j :: u32
    where "n = unat (queue_num q)" and "u = unat (queue_used q)" and "j = ucast nu mod queue_num q"
  have r: "0 < n" "4 * (u + 1 + 2 * n) \<le> 2 ^ 32"
    using assms by (auto simp: ring_ok_def n_def u_def word_greater_zero_iff unat_gt_0)
  have j: "unat j = unat nu mod n" by (simp add: j_def n_def unat_mod unat_ucast_16_32)
  then have "unat j < n" using r(1) by simp
  then have b: "u + 1 + 2 * unat j + 1 < 2 ^ 32" "u + 2 * unat j + 3 \<le> u + 1 + 2 * n" using r(2) by simp_all
  have u: "queue_used q = of_nat u" "j = of_nat (unat j)" by (simp_all add: u_def)
  have "queue_used q + 1 + j * 2 = of_nat (u + 1 + 2 * unat j)" by (subst u(1), subst (1) u(2)) (simp add: algebra_simps)
  moreover have "queue_used q + 1 + j * 2 + 1 = of_nat (u + 1 + 2 * unat j + 1)"
    by (subst u(1), subst (1) u(2)) (simp add: algebra_simps)
  ultimately have "unat (queue_used q + 1 + j * 2) = u + 1 + 2 * unat j" "unat (queue_used q + 1 + j * 2 + 1) = u + 1 + 2 * unat j + 1"
    using b(1) by (simp_all only: unat_of_small)
  with j b(2) show "4 * unat (queue_used q + 1 + (ucast nu mod queue_num q) * 2) = used_slot q nu"
    "4 * unat (queue_used q + 1 + (ucast nu mod queue_num q) * 2 + 1) = used_slot q nu + 4"
    "used_slot q nu + 8 \<le> 4 * (unat (queue_used q) + 1 + 2 * unat (queue_num q))"
    unfolding used_slot_def j_def [symmetric] n_def [symmetric] u_def [symmetric] by (simp_all add: j)
qed

lemma set_used:
  assumes "ring_ok rs q"
  shows "(do { m \<leftarrow> set_ram_word rs m (queue_used q + 1 + (ucast nu mod queue_num q) * 2) x;
               m \<leftarrow> set_ram_word rs m (queue_used q + 1 + (ucast nu mod queue_num q) * 2 + 1) y; f m }) =
    f (memcpy_to m (used_slot q nu) (to_le 4 x @ to_le 4 y))"
proof -
  have "used_slot q nu + 8 \<le> rs" using used_index(3) [OF assms, of nu] assms by (simp add: ring_ok_def)
  moreover have "memcpy_to (memcpy_to m a (to_le 4 x)) (a + 4) (to_le 4 y) = memcpy_to m a (to_le 4 x @ to_le 4 y)" for a
    using memcpy_to_append [of m a "to_le 4 x" "to_le 4 y"] by (simp only: to_le_simps)
  ultimately show ?thesis
    unfolding set_ram_word_def put_area_def in_area_def used_index [OF assms] by (simp add: to_le_simps del: to_le_numerals)
qed

lemma used_slot_sub: "ring_ok rs q \<Longrightarrow> {used_slot q k..<used_slot q k + 8} \<subseteq> used_ring q"
  using used_index(3) [of rs q k] by (auto simp: used_ring_def used_slot_def)

lemma used_slot_distinct:
  assumes "ring_ok rs q" "k < unat (queue_num q)" "j < k"
  shows "{used_slot q (nu + of_nat j)..<used_slot q (nu + of_nat j) + 8} \<inter>
    {used_slot q (nu + of_nat k)..<used_slot q (nu + of_nat k) + 8} = {}"
proof -
  define n where "n = unat (queue_num q)"
  have n: "n dvd 65536" using assms(1) by (simp add: ring_ok_def n_def)
  have m: "unat (nu + of_nat i) mod n = (unat nu + i) mod n" for i
  proof -
    have "unat (nu + of_nat i) = (unat nu + i) mod 65536" by (simp add: unat_word_ariths unat_of_nat mod_add_right_eq)
    then show ?thesis by (simp add: mod_mod_cancel [OF n])
  qed
  have "(unat nu + j) mod n \<noteq> (unat nu + k) mod n"
  proof
    assume "(unat nu + j) mod n = (unat nu + k) mod n"
    then have "n dvd k - j" using mod_eq_dvd_iff_nat [of "unat nu + j" "unat nu + k" n] assms(3) by (metis add_diff_cancel_left less_imp_le nat_add_left_cancel_le)
    with assms(2,3) show False by (auto simp: n_def dest: dvd_imp_le)
  qed
  then show ?thesis by (auto simp: used_slot_def m n_def [symmetric])
qed

section \<open>The loop\<close>

lemma queue_upd_simps [simp]:
  "collect_descs n rs m (q\<lparr>last_avail := la\<rparr>) i = collect_descs n rs m q i"
  "posted rs m (q\<lparr>last_avail := la\<rparr>) k r = posted rs m q k r"
  "virtio_blk_desc_handler rs v m (q\<lparr>last_avail := la\<rparr>) i = virtio_blk_desc_handler rs v m q i"
proof -
  show c: "collect_descs n rs m (q\<lparr>last_avail := la\<rparr>) i = collect_descs n rs m q i" for n i
    by (induction n arbitrary: i) (simp_all del: not_gr_zero)
  show "posted rs m (q\<lparr>last_avail := la\<rparr>) k r = posted rs m q k r"
    unfolding posted_def c by simp
  show "virtio_blk_desc_handler rs v m (q\<lparr>last_avail := la\<rparr>) i = virtio_blk_desc_handler rs v m q i"
    unfolding virtio_blk_desc_handler_def c by simp
qed

definition used_entry :: "blk_req \<Rightarrow> u8 list" where
  "used_entry r = to_le 4 (ucast (rq_head r) :: u32) @ to_le 4 (rq_len r)"

lemma notify_step:
  assumes "ring_ok rs q" "posted rs ram q la r" "request_ok rs v r" "disk_op r (disk v, ram) = (d', m')"
    "queues v i = q\<lparr>last_avail := la\<rparr>" "la \<noteq> na"
  shows "notify_loop rs i v ram na nu =
    notify_loop rs i (v\<lparr>disk := d', queues := (queues v)(i := q\<lparr>last_avail := la + 1\<rparr>)\<rparr>)
      (memcpy_to m' (used_slot q nu) (used_entry r)) na (nu + 1)"
proof -
  obtain w where w: "ram_word rs ram (queue_avail q + 1 + ucast ((ucast (ucast la mod queue_num q) :: u16) div 2)) = Some w"
    "ucast (shr w (16 * unat ((ucast (ucast la mod queue_num q) :: u16) mod 2))) = rq_head r"
    using assms(2) unfolding posted_def Let_def by blast
  have q0: "queue_num q \<noteq> 0" using assms(1) by (auto simp: ring_ok_def)
  have "upd_queue i (\<lambda>q. q\<lparr>last_avail := last_avail q + 1\<rparr>) (v\<lparr>disk := d'\<rparr>) =
      v\<lparr>disk := d', queues := (queues v)(i := q\<lparr>last_avail := la + 1\<rparr>)\<rparr>"
    using assms(5) by (simp add: upd_queue_def)
  with w q0 desc_handler_ok [OF assms(2-4)] assms(5,6)
    set_used [OF assms(1), where m = m' and x = "ucast (rq_head r)" and y = "rq_len r" and nu = nu]
  show ?thesis by (subst notify_loop.simps) (simp add: Let_def used_entry_def)
qed

lemma driver_ok_tail:
  assumes "driver_ok rs v q P ram la (r # reqs)" "\<forall>a \<in> P. ram' a = ram a"
    "device_features v' = device_features v" "capacity v' = capacity v" "vb_limit v' = vb_limit v"
  shows "driver_ok rs v' q P ram' (la + 1) reqs"
proof -
  have "posted rs m q (la + 1 + of_nat k) (reqs ! k)" if "k < length reqs" "\<forall>a \<in> P. m a = ram' a" for k m
    using assms(1,2) that unfolding driver_ok_def by (auto dest: spec [of _ "Suc k"] simp: algebra_simps)
  with assms show ?thesis by (auto simp: driver_ok_def request_ok_def)
qed

lemma first_request:
  assumes "ring_ok rs q" "driver_ok rs v q P ram la (r # reqs)" "queues v i = q\<lparr>last_avail := la\<rparr>"
    "Suc (length reqs) \<le> unat (queue_num q)" "\<forall>a. a \<notin> used_ring q \<longrightarrow> ram a = ma a" "disk_op r (disk v, ma) = (d1, ma1)"
  shows "\<exists>ram2. notify_loop rs i v ram (la + of_nat (length (r # reqs))) nu =
      notify_loop rs i (v\<lparr>disk := d1, queues := (queues v)(i := q\<lparr>last_avail := la + 1\<rparr>)\<rparr>) ram2 (la + 1 + of_nat (length reqs)) (nu + 1) \<and>
    (\<forall>a. a \<notin> used_ring q \<longrightarrow> ram2 a = ma1 a) \<and> memcpy_from ram2 (used_slot q nu) 8 = used_entry r \<and>
    (\<forall>a \<in> used_ring q. a \<notin> {used_slot q nu..<used_slot q nu + 8} \<longrightarrow> ram2 a = ram a) \<and> (\<forall>a \<in> P. ram2 a = ram a)"
proof -
  obtain d2 m1 where op: "disk_op r (disk v, ram) = (d2, m1)" by fastforce
  have drv: "request_ok rs v r" "request_writes r \<inter> P = {}" "request_touches r \<inter> used_ring q = {}" "used_ring q \<inter> P = {}"
    "posted rs ram q la r"
    using assms(2) unfolding driver_ok_def by (auto dest: spec [of _ 0])
  have d: "d2 = d1" "\<forall>a. a \<notin> used_ring q \<longrightarrow> m1 a = ma1 a" using disk_op_cong [OF op assms(5) drv(3)] assms(6) by auto
  define ram2 where "ram2 = memcpy_to m1 (used_slot q nu) (used_entry r)"
  have len: "length (used_entry r) = 8" by (simp add: used_entry_def)
  have out: "ram2 a = m1 a" if "a \<notin> {used_slot q nu..<used_slot q nu + 8}" for a
    using that by (auto simp: ram2_def memcpy_to_def len)
  note sub = used_slot_sub [OF assms(1), of nu] and kept = disk_op_frame [OF op]
  have "Suc (length reqs) < 2 ^ 16" using assms(1,4) by (auto simp: ring_ok_def word_le_nat_alt)
  then have "(of_nat (Suc (length reqs)) :: u16) \<noteq> 0" by (simp add: unat_of_nat word_unat_eq_iff del: of_nat_Suc)
  then have "notify_loop rs i v ram (la + of_nat (length (r # reqs))) nu =
      notify_loop rs i (v\<lparr>disk := d1, queues := (queues v)(i := q\<lparr>last_avail := la + 1\<rparr>)\<rparr>) ram2 (la + 1 + of_nat (length reqs)) (nu + 1)"
    using notify_step [OF assms(1) drv(5,1) op assms(3)] by (simp add: ram2_def d algebra_simps)
  moreover have "\<forall>a. a \<notin> used_ring q \<longrightarrow> ram2 a = ma1 a" using out sub d(2) by (metis subsetD)
  moreover have "memcpy_from ram2 (used_slot q nu) 8 = used_entry r"
    using memcpy_from_to [of m1 "used_slot q nu" "used_entry r"] by (simp add: ram2_def len)
  moreover have "\<forall>a \<in> used_ring q. a \<notin> {used_slot q nu..<used_slot q nu + 8} \<longrightarrow> ram2 a = ram a"
    using out kept drv(3) writes_touch [of r] by (metis disjoint_iff subsetD)
  moreover have "\<forall>a \<in> P. ram2 a = ram a" using out sub drv(2,4) kept by (metis disjoint_iff subsetD)
  ultimately show ?thesis by blast
qed

lemma notify_loop_serves:
  assumes "ring_ok rs q" "driver_ok rs v q P ram la reqs" "queues v i = q\<lparr>last_avail := la\<rparr>"
    "length reqs \<le> unat (queue_num q)" "\<forall>a. a \<notin> used_ring q \<longrightarrow> ram a = ma a"
    "fold disk_op reqs (disk v, ma) = (d', ma')"
  shows "\<exists>ram'. notify_loop rs i v ram (la + of_nat (length reqs)) nu =
      Some (Inr (v\<lparr>disk := d', queues := (queues v)(i := q\<lparr>last_avail := la + of_nat (length reqs)\<rparr>)\<rparr>, ram',
        nu + of_nat (length reqs))) \<and>
    (\<forall>a. a \<notin> used_ring q \<longrightarrow> ram' a = ma' a) \<and>
    (\<forall>k < length reqs. memcpy_from ram' (used_slot q (nu + of_nat k)) 8 = used_entry (reqs ! k)) \<and>
    (\<forall>a \<in> used_ring q. (\<forall>k < length reqs. a \<notin> {used_slot q (nu + of_nat k)..<used_slot q (nu + of_nat k) + 8}) \<longrightarrow> ram' a = ram a) \<and>
    (\<forall>a \<in> P. ram' a = ram a)"
  using assms
proof (induction reqs arbitrary: v ram ma la nu)
  case Nil
  then have "(queues v)(i := q\<lparr>last_avail := la\<rparr>) = queues v" by (simp add: fun_upd_idem)
  with Nil show ?case by (subst notify_loop.simps) auto
next
  case (Cons r reqs)
  let ?n = "length reqs" and ?slot = "\<lambda>k. {used_slot q k..<used_slot q k + 8}"
  obtain d1 ma1 where ma1: "disk_op r (disk v, ma) = (d1, ma1)" by fastforce
  have n: "Suc ?n \<le> unat (queue_num q)" using Cons.prems(4) by simp
  define v2 where "v2 = v\<lparr>disk := d1, queues := (queues v)(i := q\<lparr>last_avail := la + 1\<rparr>)\<rparr>"
  obtain ram2 where st: "notify_loop rs i v ram (la + of_nat (length (r # reqs))) nu = notify_loop rs i v2 ram2 (la + 1 + of_nat ?n) (nu + 1)"
    "\<forall>a. a \<notin> used_ring q \<longrightarrow> ram2 a = ma1 a" "memcpy_from ram2 (used_slot q nu) 8 = used_entry r"
    "\<forall>a \<in> used_ring q. a \<notin> ?slot nu \<longrightarrow> ram2 a = ram a" "\<forall>a \<in> P. ram2 a = ram a"
    using first_request [OF Cons.prems(1-3) n Cons.prems(5) ma1, of nu] unfolding v2_def by blast
  have drv2: "driver_ok rs v2 q P ram2 (la + 1) reqs"
    by (rule driver_ok_tail [OF Cons.prems(2) st(5)]) (simp_all add: v2_def capacity_def)
  have v2: "queues v2 i = q\<lparr>last_avail := la + 1\<rparr>" "fold disk_op reqs (disk v2, ma1) = (d', ma')"
    using Cons.prems(6) ma1 by (simp_all add: v2_def)
  have slots: "nu + 1 + of_nat k = nu + of_nat (Suc k)" for k by (simp add: algebra_simps)
  obtain ram' where IH:
    "notify_loop rs i v2 ram2 (la + 1 + of_nat ?n) (nu + 1) =
      Some (Inr (v2\<lparr>disk := d', queues := (queues v2)(i := q\<lparr>last_avail := la + 1 + of_nat ?n\<rparr>)\<rparr>, ram', nu + 1 + of_nat ?n))"
    "\<forall>a. a \<notin> used_ring q \<longrightarrow> ram' a = ma' a"
    "\<forall>k < ?n. memcpy_from ram' (used_slot q (nu + of_nat (Suc k))) 8 = used_entry (reqs ! k)"
    "\<forall>a \<in> used_ring q. (\<forall>k < ?n. a \<notin> ?slot (nu + of_nat (Suc k))) \<longrightarrow> ram' a = ram2 a"
    "\<forall>a \<in> P. ram' a = ram2 a"
    using Cons.IH [OF Cons.prems(1) drv2 v2(1) Suc_leD [OF n] st(2) v2(2), of "nu + 1"] unfolding slots by blast
  have apart: "a \<notin> ?slot (nu + of_nat (Suc k))" if "k < ?n" "a \<in> ?slot nu" for k a
    using used_slot_distinct [OF Cons.prems(1), of "Suc k" 0 nu] that n by auto
  have "ram' a = ram2 a" if "a \<in> ?slot nu" for a
    using IH(4) used_slot_sub [OF Cons.prems(1), of nu] apart that by blast
  then have head: "memcpy_from ram' (used_slot q nu) 8 = used_entry r"
    using memcpy_from_cong [of 8 ram' "used_slot q nu" ram2] st(3) by simp
  have entries: "\<forall>k < length (r # reqs). memcpy_from ram' (used_slot q (nu + of_nat k)) 8 = used_entry ((r # reqs) ! k)"
    using head IH(3) by (auto simp: less_Suc_eq_0_disj simp del: of_nat_Suc)
  have rest: "ram' a = ram a" if "a \<in> used_ring q" "\<forall>k < length (r # reqs). a \<notin> ?slot (nu + of_nat k)" for a
    using IH(4) st(4) that(1) that(2) [rule_format, of 0] that(2) [rule_format, of "Suc _"] by (simp del: of_nat_Suc)
  have "notify_loop rs i v ram (la + of_nat (length (r # reqs))) nu =
      Some (Inr (v\<lparr>disk := d', queues := (queues v)(i := q\<lparr>last_avail := la + of_nat (length (r # reqs))\<rparr>)\<rparr>, ram',
        nu + of_nat (length (r # reqs))))"
    unfolding st(1) IH(1) by (simp add: v2_def algebra_simps)
  moreover have "\<forall>a \<in> P. ram' a = ram a" using IH(5) st(5) by simp
  ultimately show ?case using IH(2) entries rest by blast
qed

section \<open>The device carries out its queue\<close>

lemma ram_word_agree:
  "ram_word rs m i = Some w \<Longrightarrow> \<forall>a \<in> {4 * unat i..<4 * unat i + 4}. m' a = m a \<Longrightarrow> ram_word rs m' i = Some w"
  using memcpy_from_cong [of 4 m' "4 * unat i" m] by (auto simp: ram_word_def get_area_def split: if_splits)

lemma avail_check:
  assumes "n \<le> unat (queue_num q)" "queue_num q \<le> VBLK_QUEUE_NUM_MAX"
  shows "\<not> uint (la + of_nat n :: u16) - uint la > uint (ucast (queue_num q) :: u16)"
proof -
  have "unat (queue_num q) \<le> 1024" using assms(2) by (simp add: word_le_nat_alt)
  then have q: "unat (ucast (queue_num q) :: u16) = unat (queue_num q)" by (simp add: unsigned_ucast_eq take_bit_nat_eq_self)
  have u: "uint x = int (unat x)" for x :: u16 by simp
  have "unat (la + of_nat n) \<le> unat la + n" by (simp add: unat_word_ariths unat_of_nat mod_add_right_eq)
  then have "int (unat (la + of_nat n)) - int (unat la) \<le> int (unat (queue_num q))" using assms(1) by linarith
  then show ?thesis unfolding u [of "ucast (queue_num q)"] u [of "la + of_nat n"] u [of la] q by linarith
qed

lemma flag_next32: "f AND 1 = 0 \<longleftrightarrow> \<not> bit f 0" for f :: u32
  using and_exp_eq_0 [of f 0] by simp

text \<open>The last steps of a notification: the index of the used ring and the interrupt.\<close>

definition new_index :: "u32 \<Rightarrow> u16 \<Rightarrow> u32" where
  "new_index u n = (u AND mask 16) OR shl (ucast n) 16"

lemma set_word_again:
  assumes "ram_word rs m i = Some u"
  shows "\<exists>m'. set_ram_word rs m i x = Some m' \<and> m' = memcpy_to m (4 * unat i) (to_le 4 x) \<and> ram_word rs m' i = Some x"
proof -
  have in_rs: "in_area rs (4 * unat i) 4" using assms by (auto simp: ram_word_def get_area_def split: if_splits)
  have "memcpy_from (memcpy_to m (4 * unat i) (to_le 4 x)) (4 * unat i) 4 = to_le 4 x"
    using memcpy_from_to [of m "4 * unat i" "to_le 4 x"] by (simp only: to_le_simps)
  moreover have "of_le (to_le 4 x) = x" by (rule of_le_to_le) simp
  ultimately show ?thesis using in_rs by (simp add: set_ram_word_def put_area_def ram_word_def get_area_def to_le_simps)
qed

lemma memcpy_to_twice: "length as = length bs \<Longrightarrow> memcpy_to (memcpy_to m a as) a bs = memcpy_to m a bs"
  by (auto simp: memcpy_to_def fun_eq_iff)

lemma set_index:
  assumes "ram_word rs m i = Some u" "ram_word rs (memcpy_to m (4 * unat i) (to_le 4 (new_index u n))) j = Some w"
  shows "(do { u \<leftarrow> ram_word rs m i; m \<leftarrow> set_ram_word rs m i (u AND mask 16); u \<leftarrow> ram_word rs m i;
               m \<leftarrow> set_ram_word rs m i (u OR shl (ucast n) 16); w \<leftarrow> ram_word rs m j; f m w }) =
    f (memcpy_to m (4 * unat i) (to_le 4 (new_index u n))) w"
proof -
  obtain m1 where m1: "set_ram_word rs m i (u AND mask 16) = Some m1" "m1 = memcpy_to m (4 * unat i) (to_le 4 (u AND mask 16))"
    "ram_word rs m1 i = Some (u AND mask 16)" using set_word_again [OF assms(1)] by blast
  obtain m2 where m2: "set_ram_word rs m1 i (new_index u n) = Some m2" "m2 = memcpy_to m1 (4 * unat i) (to_le 4 (new_index u n))"
    using set_word_again [OF m1(3)] by blast
  have "m2 = memcpy_to m (4 * unat i) (to_le 4 (new_index u n))"
    unfolding m2(2) m1(2) by (rule memcpy_to_twice) (simp only: to_le_simps)
  with assms m1(1,3) m2(1) show ?thesis by (simp add: new_index_def)
qed

lemma notify_handler_served:
  assumes "vb_status v AND VIRTIO_STATUS_DEVICE_NEEDS_RESET = 0" "vb_status v AND VIRTIO_STATUS_DRIVER_OK \<noteq> 0"
    "queues v i = q" "ready q" "ram_word rs ram (queue_avail q) = Some w" "ucast (shr w 16) = na"
    "\<not> uint na - uint (last_avail q) > uint (ucast (queue_num q) :: u16)" "last_avail q \<noteq> na"
    "ram_word rs ram (queue_used q) = Some u" "notify_loop rs i v ram na (ucast (shr u 16)) = Some (Inr (v1, ram1, nu))"
    "ram_word rs ram1 (queue_used q) = Some u" "ram' = memcpy_to ram1 (4 * unat (queue_used q)) (to_le 4 (new_index u nu))"
    "ram_word rs ram' (queue_avail q) = Some w"
  shows "virtio_queue_notify_handler rs v ram i =
    Some (v1\<lparr>vb_interrupt_status := vb_interrupt_status v1 OR (if bit w 0 then 0 else VIRTIO_INT_USED_RING)\<rparr>, ram')"
  unfolding virtio_queue_notify_handler_def Let_def assms(3)
  using assms(1,2,4-10) set_index [OF assms(11) assms(13) [unfolded assms(12)], folded assms(12),
      where f = "\<lambda>m w. Some (if w AND 1 = 0 then v1\<lparr>vb_interrupt_status := vb_interrupt_status v1 OR VIRTIO_INT_USED_RING\<rparr> else v1, m)"]
  by (simp del: bit_0 add: flag_next32)

text \<open>
  C33. A notification carries out the driver's requests: with a driver that keeps to the virtio rules
  (the requests \<open>reqs\<close> are in the available ring, their data lies in guest memory and on the disk, and the
  device is not told to overwrite its own queue), the device performs exactly the disk reads and
  writes of \<open>reqs\<close> in order, sets their status to 0, changes no other byte of guest memory outside the used ring, puts
  one entry per request there, advances both indices by their number, and requests an interrupt unless
  the driver has suppressed it.
\<close>

theorem vblk_serves:
  assumes "vb_status v AND VIRTIO_STATUS_DEVICE_NEEDS_RESET = 0" "vb_status v AND VIRTIO_STATUS_DRIVER_OK \<noteq> 0"
    and q: "queues v i = q" "ready q" "ring_ok rs q"
    and avail: "ram_word rs ram (queue_avail q) = Some w" "ucast (shr w 16) = last_avail q + of_nat (length reqs)"
      "{4 * unat (queue_avail q)..<4 * unat (queue_avail q) + 4} \<subseteq> P"
    and reqs: "reqs \<noteq> []" "length reqs \<le> unat (queue_num q)" "driver_ok rs v q P ram (last_avail q) reqs"
    and used: "ram_word rs ram (queue_used q) = Some u"
    and spec: "fold disk_op reqs (disk v, ram) = (d', m')"
  shows "\<exists>ram'. virtio_queue_notify_handler rs v ram i =
      Some (v\<lparr>disk := d', queues := (queues v)(i := q\<lparr>last_avail := last_avail q + of_nat (length reqs)\<rparr>),
        vb_interrupt_status := vb_interrupt_status v OR (if bit w 0 then 0 else VIRTIO_INT_USED_RING)\<rparr>, ram') \<and>
    (\<forall>a. a \<notin> used_ring q \<longrightarrow> ram' a = m' a) \<and>
    (\<forall>k < length reqs. memcpy_from ram' (used_slot q (ucast (shr u 16) + of_nat k)) 8 = used_entry (reqs ! k)) \<and>
    ram_word rs ram' (queue_used q) = Some (new_index u (ucast (shr u 16) + of_nat (length reqs)))"
proof -
  let ?n = "length reqs" and ?nu = "ucast (shr u 16) :: u16" and ?at = "4 * unat (queue_used q)"
  obtain ram1 where loop:
    "notify_loop rs i v ram (last_avail q + of_nat ?n) ?nu =
      Some (Inr (v\<lparr>disk := d', queues := (queues v)(i := q\<lparr>last_avail := last_avail q + of_nat ?n\<rparr>)\<rparr>, ram1, ?nu + of_nat ?n))"
    "\<forall>a. a \<notin> used_ring q \<longrightarrow> ram1 a = m' a"
    "\<forall>k < ?n. memcpy_from ram1 (used_slot q (?nu + of_nat k)) 8 = used_entry (reqs ! k)"
    "\<forall>a \<in> used_ring q. (\<forall>k < ?n. a \<notin> {used_slot q (?nu + of_nat k)..<used_slot q (?nu + of_nat k) + 8}) \<longrightarrow> ram1 a = ram a"
    "\<forall>a \<in> P. ram1 a = ram a"
    using notify_loop_serves [OF q(3) reqs(3) _ reqs(2) _ spec, of i ?nu] q(1) by auto
  define ram' where "ram' = memcpy_to ram1 ?at (to_le 4 (new_index u (?nu + of_nat ?n)))"
  have idx: "{?at..<?at + 4} \<subseteq> used_ring q" "a \<in> {?at..<?at + 4} \<Longrightarrow> a < used_slot q k" for a k
    by (auto simp: used_ring_def used_slot_def)
  have out: "ram' a = ram1 a" if "a \<notin> {?at..<?at + 4}" for a using that by (auto simp: ram'_def memcpy_to_def)
  have "ram1 a = ram a" if "a \<in> {?at..<?at + 4}" for a
    using loop(4) idx(1) idx(2) [OF that] that by (meson atLeastLessThan_iff not_le subsetD)
  then have u1: "ram_word rs ram1 (queue_used q) = Some u" using ram_word_agree [OF used] by blast
  have apart: "used_ring q \<inter> P = {}" using reqs(3) by (simp add: driver_ok_def)
  have w1: "ram_word rs ram' (queue_avail q) = Some w"
  proof (rule ram_word_agree [OF avail(1)], rule ballI)
    fix a assume "a \<in> {4 * unat (queue_avail q)..<4 * unat (queue_avail q) + 4}"
    then have "a \<in> P" using avail(3) by blast
    moreover from this have "a \<notin> {?at..<?at + 4}" using apart idx(1) by blast
    ultimately show "ram' a = ram a" using out [of a] loop(5) by simp
  qed
  have "(of_nat ?n :: u16) \<noteq> 0"
    using reqs(1,2) q(3) by (auto simp: ring_ok_def word_le_nat_alt word_unat_eq_iff unat_of_nat)
  then have "last_avail q \<noteq> last_avail q + of_nat ?n" by simp
  then have "virtio_queue_notify_handler rs v ram i =
      Some (v\<lparr>disk := d', queues := (queues v)(i := q\<lparr>last_avail := last_avail q + of_nat (length reqs)\<rparr>),
        vb_interrupt_status := vb_interrupt_status v OR (if bit w 0 then 0 else VIRTIO_INT_USED_RING)\<rparr>, ram')"
    using notify_handler_served [OF assms(1,2) q(1,2) avail(1,2) avail_check [OF reqs(2)] _ used loop(1) u1 ram'_def w1] q(3)
    by (simp add: ring_ok_def)
  moreover have "\<forall>a. a \<notin> used_ring q \<longrightarrow> ram' a = m' a" using loop(2) out idx(1) by (metis subsetD)
  moreover have "memcpy_from ram' (used_slot q (?nu + of_nat k)) 8 = memcpy_from ram1 (used_slot q (?nu + of_nat k)) 8" for k
    by (rule memcpy_from_cong, rule out) (auto simp: used_slot_def)
  moreover have "ram_word rs ram' (queue_used q) = Some (new_index u (?nu + of_nat ?n))"
    using set_word_again [OF u1] by (auto simp: ram'_def)
  ultimately show ?thesis using loop(3) by auto
qed

text \<open>A queue of one slot with a request to read four bytes of the first sector.\<close>

definition vq0 :: virtio_blk_queue where
  "vq0 = \<lparr>queue_num = 1, queue_desc = 0, queue_avail = 12, queue_used = 18, last_avail = 0, ready = True\<rparr>"

definition vram0 :: memory where
  "vram0 = (\<lambda>a. if a = 0 then 56 else if a = 8 then 16 else if a = 12 then 1 else if a = 14 then 1
     else if a = 16 then 84 else if a = 24 then 4 else if a = 28 then 3 else if a = 30 then 2
     else if a = 32 then 88 else if a = 40 then 1 else if a = 44 then 2 else if a = 50 then 1 else 0)"

definition vblk0 :: virtio_blk where
  "vblk0 = (virtio_blk_init vblk_new (Some (\<lambda>a. 7, 1024)) False)\<lparr>vb_status := 4, queues := (\<lambda>i. vq0)\<rparr>"

definition req0 :: blk_req where
  "req0 = \<lparr>rq_head = 0, rq_type = 0, rq_sector = 0, rq_addr = 84, rq_len = 4, rq_status = 88\<rparr>"

lemma vram0_reads:
  "ram_word 96 vram0 13 = Some 0" "ram_word 96 vram0 12 = Some 0x10000" "ram_word 96 vram0 18 = Some 0"
  "desc_at 96 vram0 0 = Some \<lparr>d_addr = 56, d_len = 16, d_flags = 1, d_next = 1\<rparr>"
  "desc_at 96 vram0 4 = Some \<lparr>d_addr = 84, d_len = 4, d_flags = 3, d_next = 2\<rparr>"
  "desc_at 96 vram0 8 = Some \<lparr>d_addr = 88, d_len = 1, d_flags = 2, d_next = 0\<rparr>"
  "get_area 96 vram0 56 16 = Some (replicate 16 0)"
  by code_simp+

lemma vram0_posted:
  assumes "\<forall>a \<in> {0..<72}. m a = vram0 a"
  shows "posted 96 m vq0 0 req0"
proof -
  have "get_area 96 m a n = get_area 96 vram0 a n" if "a + n \<le> 72" for a n
    unfolding get_area_def using assms that memcpy_from_cong [of n m a vram0] by simp
  then have r: "ram_word 96 m 13 = ram_word 96 vram0 13" "desc_at 96 m 0 = desc_at 96 vram0 0" "desc_at 96 m 4 = desc_at 96 vram0 4"
    "desc_at 96 m 8 = desc_at 96 vram0 8" "get_area 96 m 56 16 = get_area 96 vram0 56 16"
    by (simp_all add: ram_word_def desc_at_def)
  have "of_le (take 4 (replicate 16 0)) = (0 :: u32)" "of_le (drop 8 (replicate 16 0)) = (0 :: u64)" by code_simp+
  with r show ?thesis by (simp add: posted_def vq0_def req0_def vram0_reads numeral_3_eq_3)
qed

lemma vblk0_driver: "driver_ok 96 vblk0 vq0 {0..<72} vram0 0 [req0]"
proof -
  have "request_ok 96 vblk0 req0" by code_simp
  moreover have "request_writes req0 \<inter> {0..<72} = {}" "request_touches req0 \<inter> used_ring vq0 = {}" "used_ring vq0 \<inter> {0..<72} = {}"
    by (auto simp: request_writes_def request_touches_def used_ring_def req0_def vq0_def)
  ultimately show ?thesis using vram0_posted by (auto simp: driver_ok_def)
qed

theorem vblk_serves_witness:
  "\<exists>v' ram'. virtio_queue_notify_handler 96 vblk0 vram0 0 = Some (v', ram') \<and>
    memcpy_from ram' 84 4 = [7, 7, 7, 7] \<and> memcpy_from ram' 76 8 = used_entry req0"
proof -
  obtain d' m' where op: "fold disk_op [req0] (disk vblk0, vram0) = (d', m')" by fastforce
  have "map (snd (fold disk_op [req0] (disk vblk0, vram0))) [84, 85, 86, 87] = [7, 7, 7, 7]" by code_simp
  then have m': "m' 84 = 7" "m' 85 = 7" "m' 86 = 7" "m' 87 = 7" unfolding op by simp_all
  have rg: "ring_ok 96 vq0" by (simp add: ring_ok_def vq0_def)
  obtain ram' v' where *: "virtio_queue_notify_handler 96 vblk0 vram0 0 = Some (v', ram')"
    "\<forall>a. a \<notin> used_ring vq0 \<longrightarrow> ram' a = m' a"
    "\<forall>k < length [req0]. memcpy_from ram' (used_slot vq0 (ucast (shr 0 16 :: u32) + of_nat k)) 8 = used_entry ([req0] ! k)"
    using vblk_serves [OF _ _ _ _ rg _ _ _ _ _ _ _ op, of 0 "0x10000" "{0..<72}" 0] vblk0_driver vram0_reads
    by (auto simp: vblk0_def vq0_def)
  have "memcpy_from ram' 84 4 = [7, 7, 7, 7]"
    using *(2) by (simp add: m' memcpy_from_numerals used_ring_def vq0_def)
  moreover have "memcpy_from ram' 76 8 = used_entry req0" using *(3) by (simp add: used_slot_def vq0_def)
  ultimately show ?thesis using *(1) by blast
qed

section \<open>Unchecked requests\<close>

text \<open>
  Only the first sector of a request is compared with the capacity: a request that starts inside the
  disk and runs past its end copies beyond the mapping, and with no image every sector passes.
\<close>

lemma read_past_end:
  assumes "sector \<le> capacity v - 1" "vb_limit v < unat sector * 512 + unat (d_len d)"
  shows "serve_request rs v ram VIRTIO_BLK_T_IN sector d status = None"
  using assms by (auto simp: serve_request_def virtio_blk_read_handler_def get_area_def in_area_def not_less)

lemma no_image_unchecked: "\<not> sector > capacity (virtio_blk_init vblk_new None False) - 1"
proof -
  have "capacity (virtio_blk_init vblk_new None False) = 0" by code_simp
  then show ?thesis by (simp add: not_less)
qed

text \<open>A buffer address outside guest memory is added to the host's base address unchecked.\<close>

lemma buffer_outside:
  assumes "sector \<le> capacity v - 1" "rs < unat (d_addr d) + unat (d_len d)"
  shows "serve_request rs v ram VIRTIO_BLK_T_IN sector d status = None"
  using assms by (auto simp: serve_request_def virtio_blk_read_handler_def get_area_def put_area_def in_area_def not_less
      Option.bind_eq_None_conv)

text \<open>The available index may be behind the device's: the difference is negative and passes the check.\<close>

lemma index_behind: "new_avail < la \<Longrightarrow> \<not> uint new_avail - uint la > uint (ucast n :: u16)" for new_avail la :: u16
proof -
  assume "new_avail < la"
  then have "uint new_avail < uint la" by (simp add: word_less_def)
  moreover have "0 \<le> uint (ucast n :: u16)" by simp
  ultimately show ?thesis by linarith
qed

text \<open>A reset cuts the capacity to 32 bits; a write-only register cannot be read.\<close>

lemma reset_truncates: "capacity (virtio_blk_update_status (virtio_blk_init vblk_new (Some (img, 2 ^ 41 + 512)) False) 0) = 1"
  by (simp add: virtio_blk_update_status_def virtio_blk_init_def vblk_new_def set_capacity_def capacity_def Let_def)

lemma read_queue_sel: "length (config v) = 17 \<Longrightarrow> virtio_blk_read v 0x30 = None"
  by (simp add: virtio_blk_read_def config_index_def Let_def)

end
