(* ===== verification/Mpool.thy ===== *)
theory Mpool
  imports Memory "HOL-Library.Monad_Syntax"
begin

text \<open>
  The memory pool (\<^verbatim>\<open>mpool.c\<close>) the emulator takes its blocks and instructions from: fixed-size chunks, each
  behind the pointer of the free list, in arenas of whole pages.

  The host's memory is a byte for every address and the list of its mapped areas; a pointer is an
  address, NULL is 0. Writing or reading a list pointer outside the mapped areas is undefined and gives
  \<^const>\<open>None\<close>. Where the host maps a new arena, and with which contents, is a parameter, as is whether \<^verbatim>\<open>malloc\<close>
  succeeds. Sizes are numbers below \<open>2 ^ 64\<close>; the reductions are written where they can matter.
\<close>

section \<open>The host\<close>

record host_heap =
  areas :: "(nat \<times> nat) list"
  bytes :: memory

record allocator =
  al_arena :: "host_heap \<Rightarrow> nat \<Rightarrow> (nat \<times> memory) option"
  al_malloc :: "host_heap \<Rightarrow> bool"
  al_pagesize :: nat

abbreviation (input) SIZE_MAX :: nat where "SIZE_MAX \<equiv> 2 ^ 64 - 1"
abbreviation (input) CHUNK_HEADER :: nat where "CHUNK_HEADER \<equiv> 8"

definition in_areas :: "host_heap \<Rightarrow> nat \<Rightarrow> nat \<Rightarrow> bool" where
  "in_areas h a n \<longleftrightarrow> (\<exists>(p, sz) \<in> set (areas h). p \<le> a \<and> a + n \<le> p + sz)"

text \<open>The field \<^verbatim>\<open>next\<close> of a chunk.\<close>

definition set_next :: "host_heap \<Rightarrow> nat \<Rightarrow> nat \<Rightarrow> host_heap option" where
  "set_next h c v =
    (if in_areas h c CHUNK_HEADER then Some (h\<lparr>bytes := memcpy_to (bytes h) c (to_le 8 (of_nat v :: u64))\<rparr>) else None)"

definition get_next :: "host_heap \<Rightarrow> nat \<Rightarrow> nat option" where
  "get_next h c =
    (if in_areas h c CHUNK_HEADER then Some (unat (of_le (memcpy_from (bytes h) c 8) :: u64)) else None)"

definition mem_arena :: "allocator \<Rightarrow> host_heap \<Rightarrow> nat \<Rightarrow> (host_heap \<times> nat) option" where
  "mem_arena al h sz =
    (case al_arena al h sz of
       None \<Rightarrow> None
     | Some (p, new) \<Rightarrow>
         Some (h\<lparr>areas := (p, sz) # areas h, bytes := (\<lambda>a. if p \<le> a \<and> a < p + sz then new a else bytes h a)\<rparr>, p))"

section \<open>The pool\<close>

record mpool =
  chunk_count :: nat
  page_count :: nat
  chunk_size :: nat
  free_chunk_head :: nat
  area :: "nat list"

text \<open>The list is threaded through \<open>n\<close> further chunks; the last one is returned.\<close>

fun thread_chunks :: "nat \<Rightarrow> host_heap \<Rightarrow> nat \<Rightarrow> nat \<Rightarrow> (host_heap \<times> nat) option" where
  "thread_chunks 0 h step cur = Some (h, cur)"
| "thread_chunks (Suc n) h step cur =
    do { h \<leftarrow> set_next h cur (cur + step); thread_chunks n h step (cur + step) }"

text \<open>
  The outer option is undefined behaviour, the inner one a pool or NULL. \<^verbatim>\<open>chunk_count - 1\<close> wraps.
\<close>

definition mpool_create :: "allocator \<Rightarrow> host_heap \<Rightarrow> nat \<Rightarrow> nat \<Rightarrow> (host_heap \<times> mpool option) option" where
  "mpool_create al h pool_size csize =
    (if \<not> al_malloc al h then Some (h, None)
     else
       (let pgsz = al_pagesize al in
        if csize > SIZE_MAX - CHUNK_HEADER then Some (h, None)
        else
          (let pool_size = (if pool_size < csize + CHUNK_HEADER then (pool_size + CHUNK_HEADER) mod 2 ^ 64 else pool_size) in
           if pool_size > SIZE_MAX - pgsz + 1 then Some (h, None)
           else
             (let pages = (pool_size + pgsz - 1) div pgsz in
              if pages > SIZE_MAX div pgsz then Some (h, None)
              else
                (case mem_arena al h (pages * pgsz) of
                   None \<Rightarrow> Some (h, None)
                 | Some (h, p) \<Rightarrow>
                     (let count = pool_size div (CHUNK_HEADER + csize) in
                      do { (h, cur) \<leftarrow> thread_chunks ((count + SIZE_MAX) mod 2 ^ 64) h (CHUNK_HEADER + csize) p;
                           h \<leftarrow> set_next h cur 0;
                           Some (h, Some \<lparr>chunk_count = count, page_count = pages, chunk_size = csize,
                                          free_chunk_head = p, area = [p]\<rparr>) }))))))"

definition mpool_extend :: "allocator \<Rightarrow> host_heap \<Rightarrow> mpool \<Rightarrow> (host_heap \<times> mpool \<times> nat) option" where
  "mpool_extend al h mp =
    (let pool_size = page_count mp * al_pagesize al in
     case mem_arena al h pool_size of
       None \<Rightarrow> Some (h, mp, 0)
     | Some (h', p) \<Rightarrow>
         if \<not> al_malloc al h' then Some (h, mp, 0)
         else
           (let count = pool_size div (CHUNK_HEADER + chunk_size mp) in
            do { (h, cur) \<leftarrow> thread_chunks ((count + SIZE_MAX) mod 2 ^ 64) h' (CHUNK_HEADER + chunk_size mp) p;
                 Some (h, mp\<lparr>free_chunk_head := p, chunk_count := chunk_count mp + count, area := area mp @ [p]\<rparr>, p) }))"

definition mpool_alloc_helper :: "host_heap \<Rightarrow> mpool \<Rightarrow> (mpool \<times> nat) option" where
  "mpool_alloc_helper h mp =
    (let ptr = free_chunk_head mp + CHUNK_HEADER in
     do { nxt \<leftarrow> get_next h (free_chunk_head mp);
          Some (mp\<lparr>free_chunk_head := nxt, chunk_count := chunk_count mp - 1\<rparr>, ptr) })"

text \<open>The result pointer 0 is NULL. The guards make room for a chunk or give up.\<close>

definition mpool_alloc :: "allocator \<Rightarrow> host_heap \<Rightarrow> mpool \<Rightarrow> (host_heap \<times> mpool \<times> nat) option" where
  "mpool_alloc al h mp =
    do { (h, mp, ok) \<leftarrow> (if chunk_count mp = 0 then mpool_extend al h mp else Some (h, mp, 1));
         if ok = 0 then Some (h, mp, 0)
         else do { (mp, ptr) \<leftarrow> mpool_alloc_helper h mp; Some (h, mp, ptr) } }"

definition mpool_calloc :: "allocator \<Rightarrow> host_heap \<Rightarrow> mpool \<Rightarrow> (host_heap \<times> mpool \<times> nat) option" where
  "mpool_calloc al h mp =
    do { (h, mp, ok) \<leftarrow> (if chunk_count mp = 0 then mpool_extend al h mp else Some (h, mp, 1));
         if ok = 0 then Some (h, mp, 0)
         else
           do { (mp, ptr) \<leftarrow> mpool_alloc_helper h mp;
                if in_areas h ptr (chunk_size mp)
                then Some (h\<lparr>bytes := memcpy_to (bytes h) ptr (replicate (chunk_size mp) 0)\<rparr>, mp, ptr) else None } }"

definition mpool_free :: "host_heap \<Rightarrow> mpool \<Rightarrow> nat \<Rightarrow> (host_heap \<times> mpool) option" where
  "mpool_free h mp target =
    (if target = 0 then Some (h, mp)
     else
       (let ptr = target - CHUNK_HEADER in
        do { h \<leftarrow> set_next h ptr (free_chunk_head mp);
             Some (h, mp\<lparr>free_chunk_head := ptr, chunk_count := chunk_count mp + 1\<rparr>) }))"

text \<open>Destroying the pool unmaps every arena of its list.\<close>

definition mpool_destroy :: "host_heap \<Rightarrow> mpool \<Rightarrow> host_heap" where
  "mpool_destroy h mp = h\<lparr>areas := filter (\<lambda>(p, sz). p \<notin> set (area mp)) (areas h)\<rparr>"

end
