(* ===== verification/Mpool_Correct.thy ===== *)
theory Mpool_Correct
  imports Mpool
begin

text \<open>
  The chunks a pool has handed out are apart from each other and from the list of free chunks,
  whatever the client does with them.
\<close>

section \<open>Arenas and the list\<close>

text \<open>What the host guarantees of a new arena: it is nonempty address space that was not mapped.\<close>

definition allocator_ok :: "allocator \<Rightarrow> bool" where
  "allocator_ok al \<longleftrightarrow> 0 < al_pagesize al \<and>
    (\<forall>h sz p new. al_arena al h sz = Some (p, new) \<longrightarrow> 0 < p \<and> p + sz \<le> 2 ^ 64 \<and>
      (\<forall>(p', sz') \<in> set (areas h). p + sz \<le> p' \<or> p' + sz' \<le> p))"

fun chain :: "host_heap \<Rightarrow> nat \<Rightarrow> nat list \<Rightarrow> bool" where
  "chain h hp [] = True"
| "chain h hp (c # cs) = (hp = c \<and> (case get_next h c of None \<Rightarrow> False | Some n \<Rightarrow> chain h n cs))"

lemma chain_cong: "(\<And>c. c \<in> set cs \<Longrightarrow> get_next h' c = get_next h c) \<Longrightarrow> chain h' hp cs = chain h hp cs"
  by (induction cs arbitrary: hp) (auto split: option.splits)

lemma chain_last:
  assumes "\<And>c. c \<in> set cs \<Longrightarrow> get_next h' c = get_next h c" "get_next h' c \<noteq> None" "chain h hp (cs @ [c])"
  shows "chain h' hp (cs @ [c])"
  using assms by (induction cs arbitrary: hp) (auto split: option.splits)

lemma get_next_cong:
  "areas h' = areas h \<Longrightarrow> (\<And>i. i < 8 \<Longrightarrow> bytes h' (c + i) = bytes h (c + i)) \<Longrightarrow> get_next h' c = get_next h c"
  using memcpy_from_cong [of 8 "bytes h'" c "bytes h"] by (simp add: get_next_def in_areas_def)

lemma set_next_ok:
  assumes "in_areas h c 8"
  shows "\<exists>h'. set_next h c v = Some h' \<and> areas h' = areas h \<and> (\<forall>a. a \<notin> {c..<c + 8} \<longrightarrow> bytes h' a = bytes h a) \<and>
    (v < 2 ^ 64 \<longrightarrow> get_next h' c = Some v)"
proof -
  have "memcpy_from (memcpy_to m c (to_le 8 w)) c 8 = to_le 8 w" for m and w :: u64
    using memcpy_from_to [of m c "to_le 8 w"] by (simp only: to_le_simps)
  moreover have "of_le (to_le 8 w) = w" for w :: u64 by (rule of_le_to_le) simp
  ultimately show ?thesis using assms
    by (auto simp: set_next_def get_next_def in_areas_def unat_of_nat memcpy_to_def to_le_simps)
qed

lemma in_areas_sub:
  assumes "in_areas h a n" "a \<le> b" "b + m \<le> a + n"
  shows "in_areas h b m"
proof -
  obtain p sz where "(p, sz) \<in> set (areas h)" "p \<le> a" "a + n \<le> p + sz" using assms(1) by (auto simp: in_areas_def)
  with assms(2,3) show ?thesis unfolding in_areas_def by (intro bexI [of _ "(p, sz)"]) auto
qed

lemma in_areas_cong: "areas h' = areas h \<Longrightarrow> in_areas h' a n = in_areas h a n"
  by (simp add: in_areas_def)

lemma thread_ok:
  assumes "8 \<le> step" "in_areas h cur (Suc n * step)" "cur + Suc n * step \<le> 2 ^ 64"
  shows "\<exists>h'. thread_chunks n h step cur = Some (h', cur + n * step) \<and> areas h' = areas h \<and>
    (\<forall>a. a \<notin> {cur..<cur + n * step} \<longrightarrow> bytes h' a = bytes h a) \<and>
    chain h' cur (map (\<lambda>i. cur + i * step) [0..<Suc n])"
  using assms(2,3)
proof (induction n arbitrary: h cur)
  case 0
  then have "in_areas h cur 8" using assms(1) by (auto intro: in_areas_sub)
  then show ?case by (auto simp: get_next_def)
next
  case (Suc n)
  have "in_areas h cur 8" using Suc.prems(1) assms(1) by (auto intro: in_areas_sub)
  moreover have "cur + step < 2 ^ 64" using Suc.prems(2) assms(1) by simp
  ultimately obtain h1 where h1: "set_next h cur (cur + step) = Some h1" "areas h1 = areas h"
    "\<forall>a. a \<notin> {cur..<cur + 8} \<longrightarrow> bytes h1 a = bytes h a" "get_next h1 cur = Some (cur + step)"
    using set_next_ok [of h cur "cur + step"] by auto
  have "in_areas h1 (cur + step) (Suc n * step)"
    unfolding in_areas_cong [OF h1(2)] by (rule in_areas_sub [OF Suc.prems(1)]) simp_all
  moreover have "cur + step + Suc n * step \<le> 2 ^ 64" using Suc.prems(2) by simp
  ultimately obtain h' where h': "thread_chunks n h1 step (cur + step) = Some (h', cur + step + n * step)" "areas h' = areas h1"
    "\<forall>a. a \<notin> {cur + step..<cur + step + n * step} \<longrightarrow> bytes h' a = bytes h1 a"
    "chain h' (cur + step) (map (\<lambda>i. cur + step + i * step) [0..<Suc n])"
    using Suc.IH [of h1 "cur + step"] by blast
  have nx: "get_next h' cur = Some (cur + step)"
    using get_next_cong [of h' h1 cur] h'(2,3) h1(4) assms(1) by simp
  have "map (\<lambda>i. cur + i * step) [0..<Suc (Suc n)] = cur # map (\<lambda>i. cur + step + i * step) [0..<Suc n]"
    by (simp add: map_upt_Suc algebra_simps del: upt_Suc)
  then have "chain h' cur (map (\<lambda>i. cur + i * step) [0..<Suc (Suc n)])" using h'(4) nx by (simp del: upt_Suc)
  moreover have "bytes h' a = bytes h a" if "a \<notin> {cur..<cur + Suc n * step}" for a
  proof -
    have "a \<notin> {cur + step..<cur + step + n * step}" "a \<notin> {cur..<cur + 8}" using that assms(1) by auto
    then show ?thesis using h'(3) h1(3) by simp
  qed
  ultimately show ?case using h1(1,2) h'(1,2) by (simp add: algebra_simps del: upt_Suc)
qed

section \<open>The invariant\<close>

text \<open>
  A chunk is named by the pointer the client gets; its header is in the 8 bytes before. \<open>free\<close> are the
  chunks of the list, \<open>live\<close> the ones handed out.
\<close>

definition chunk_span :: "nat \<Rightarrow> nat \<Rightarrow> nat set" where
  "chunk_span n c = {c..<c + (8 + n)}"

definition chunks_apart :: "host_heap \<Rightarrow> nat \<Rightarrow> nat list \<Rightarrow> bool" where
  "chunks_apart h n cs \<longleftrightarrow> distinct cs \<and> (\<forall>c \<in> set cs. in_areas h c (8 + n) \<and> 0 < c \<and> c < 2 ^ 64) \<and>
    (\<forall>c \<in> set cs. \<forall>d \<in> set cs. c \<noteq> d \<longrightarrow> chunk_span n c \<inter> chunk_span n d = {})"

definition pool_ok :: "allocator \<Rightarrow> host_heap \<Rightarrow> mpool \<Rightarrow> nat list \<Rightarrow> nat list \<Rightarrow> bool" where
  "pool_ok al h mp free live \<longleftrightarrow> chain h (free_chunk_head mp) free \<and> length free = chunk_count mp \<and>
    chunks_apart h (chunk_size mp) (free @ live) \<and> free_chunk_head mp < 2 ^ 64 \<and>
    8 + chunk_size mp \<le> page_count mp * al_pagesize al \<and> page_count mp * al_pagesize al < 2 ^ 64"

lemma chunks_apart_perm: "set cs = set ds \<Longrightarrow> distinct ds \<Longrightarrow> chunks_apart h n cs \<Longrightarrow> chunks_apart h n ds"
  by (simp add: chunks_apart_def)

lemma chunks_apart_areas: "chunks_apart h n cs \<Longrightarrow> set (areas h) \<subseteq> set (areas h') \<Longrightarrow> chunks_apart h' n cs"
  unfolding chunks_apart_def in_areas_def by blast

lemma chunks_apartD:
  "chunks_apart h n cs \<Longrightarrow> c \<in> set cs \<Longrightarrow> d \<in> set cs \<Longrightarrow> c \<noteq> d \<Longrightarrow> a \<in> chunk_span n c \<Longrightarrow> a \<notin> chunk_span n d"
  unfolding chunks_apart_def by blast

text \<open>The list does not change when the bytes of its chunks do not.\<close>

lemma chain_frame:
  assumes "areas h' = areas h" "\<And>c a. c \<in> set cs \<Longrightarrow> a \<in> chunk_span n c \<Longrightarrow> bytes h' a = bytes h a"
  shows "chain h' hp cs = chain h hp cs"
  by (rule chain_cong, rule get_next_cong [OF assms(1)], rule assms(2)) (auto simp: chunk_span_def)

lemma get_next_bound: "get_next h c = Some v \<Longrightarrow> v < 2 ^ 64"
proof -
  have "unat (x :: u64) < 2 ^ LENGTH(64)" for x by (rule unsigned_less)
  then show "get_next h c = Some v \<Longrightarrow> v < 2 ^ 64" by (auto simp: get_next_def split: if_splits)
qed

lemma helper_ok:
  assumes "pool_ok al h mp (c # free) live"
  shows "\<exists>mp'. mpool_alloc_helper h mp = Some (mp', c + 8) \<and> pool_ok al h mp' free (c # live) \<and> chunk_size mp' = chunk_size mp"
proof -
  obtain v where v: "get_next h c = Some v" "chain h v free" "free_chunk_head mp = c"
    using assms by (auto simp: pool_ok_def split: option.splits)
  have "chunks_apart h (chunk_size mp) (free @ c # live)"
    by (rule chunks_apart_perm [of "c # free @ live"]) (use assms in \<open>auto simp: pool_ok_def chunks_apart_def\<close>)
  with v assms get_next_bound [OF v(1)] show ?thesis by (auto simp: pool_ok_def mpool_alloc_helper_def)
qed

lemma free_ok:
  assumes "pool_ok al h mp free live" "c \<in> set live"
  shows "\<exists>h' mp'. mpool_free h mp (c + 8) = Some (h', mp') \<and> pool_ok al h' mp' (c # free) (remove1 c live) \<and>
    chunk_size mp' = chunk_size mp \<and> (\<forall>a. a \<notin> chunk_span (chunk_size mp) c \<longrightarrow> bytes h' a = bytes h a)"
proof -
  have ap: "chunks_apart h (chunk_size mp) (free @ live)" using assms(1) by (simp add: pool_ok_def)
  then have "in_areas h c 8" using assms(2) by (auto simp: chunks_apart_def intro: in_areas_sub)
  then obtain h' where h': "set_next h c (free_chunk_head mp) = Some h'" "areas h' = areas h"
    "\<forall>a. a \<notin> {c..<c + 8} \<longrightarrow> bytes h' a = bytes h a" "get_next h' c = Some (free_chunk_head mp)"
    using set_next_ok [of h c "free_chunk_head mp"] assms(1) by (auto simp: pool_ok_def)
  have out: "bytes h' a = bytes h a" if "a \<notin> chunk_span (chunk_size mp) c" for a
    using h'(3) that by (auto simp: chunk_span_def)
  have "chain h' hp free = chain h hp free" for hp
  proof (rule chain_frame [OF h'(2), where n = "chunk_size mp"], rule out)
    fix d a assume "d \<in> set free" "a \<in> chunk_span (chunk_size mp) d"
    moreover from this have "c \<noteq> d" using ap assms(2) by (auto simp: chunks_apart_def)
    ultimately show "a \<notin> chunk_span (chunk_size mp) c" using chunks_apartD [OF ap, of d c] assms(2) by simp
  qed
  moreover have "chunks_apart h' (chunk_size mp) ((c # free) @ remove1 c live)"
  proof (rule chunks_apart_perm [OF _ _ chunks_apart_areas [OF ap]])
    show "set (free @ live) = set ((c # free) @ remove1 c live)" "distinct ((c # free) @ remove1 c live)"
      using ap assms(2) by (auto simp: chunks_apart_def)
  qed (simp add: h'(2))
  moreover have "0 < c" "c < 2 ^ 64" using ap assms(2) by (auto simp: chunks_apart_def)
  ultimately show ?thesis using assms(1) h'(1,4) out by (simp add: pool_ok_def mpool_free_def)
qed

section \<open>Growing the pool\<close>

definition new_chunks :: "nat \<Rightarrow> nat \<Rightarrow> nat \<Rightarrow> nat list" where
  "new_chunks p n k = map (\<lambda>i. p + i * (8 + n)) [0..<k]"

lemma new_chunks_apart:
  assumes "in_areas h p sz" "k * (8 + n) \<le> sz" "0 < p" "p + sz \<le> 2 ^ 64"
  shows "chunks_apart h n (new_chunks p n k)" "c \<in> set (new_chunks p n k) \<Longrightarrow> chunk_span n c \<subseteq> {p..<p + sz}"
proof -
  have fit: "i * (8 + n) + (8 + n) \<le> sz" if "i < k" for i
    using mult_le_mono1 [of "Suc i" k "8 + n"] assms(2) that by simp
  show "chunk_span n c \<subseteq> {p..<p + sz}" if "c \<in> set (new_chunks p n k)"
    using that by (auto simp: new_chunks_def chunk_span_def dest!: fit)
  have "i * (8 + n) + (8 + n) \<le> j * (8 + n)" if "i < j" for i j
    using mult_le_mono1 [of "Suc i" j "8 + n"] that by simp
  then have "chunk_span n (p + i * (8 + n)) \<inter> chunk_span n (p + j * (8 + n)) = {}" if "i \<noteq> j" for i j
    using that by (cases i j rule: linorder_cases) (force simp: chunk_span_def)+
  moreover have "in_areas h (p + i * (8 + n)) (8 + n)" "p + i * (8 + n) < 2 ^ 64" if "i < k" for i
    using fit [OF that] assms(4) by (auto intro: in_areas_sub [OF assms(1)])
  ultimately show "chunks_apart h n (new_chunks p n k)" using assms(3)
    by (auto simp: chunks_apart_def new_chunks_def distinct_map inj_on_def)
qed

lemma arena_ok:
  assumes "allocator_ok al" "mem_arena al h sz = Some (h', p)"
  shows "0 < p" "p + sz \<le> 2 ^ 64" "in_areas h' p sz" "set (areas h) \<subseteq> set (areas h')"
    "a \<notin> {p..<p + sz} \<Longrightarrow> bytes h' a = bytes h a" "in_areas h c n \<Longrightarrow> {c..<c + n} \<inter> {p..<p + sz} = {}"
proof -
  obtain new where new: "al_arena al h sz = Some (p, new)"
    "h' = h\<lparr>areas := (p, sz) # areas h, bytes := (\<lambda>a. if p \<le> a \<and> a < p + sz then new a else bytes h a)\<rparr>"
    using assms(2) by (auto simp: mem_arena_def split: option.splits)
  with assms(1) have p: "0 < p" "p + sz \<le> 2 ^ 64" "\<forall>(p', sz') \<in> set (areas h). p + sz \<le> p' \<or> p' + sz' \<le> p"
    unfolding allocator_ok_def by blast+
  then show "0 < p" "p + sz \<le> 2 ^ 64" by simp_all
  show "in_areas h' p sz" "set (areas h) \<subseteq> set (areas h')" by (auto simp: new(2) in_areas_def)
  show "a \<notin> {p..<p + sz} \<Longrightarrow> bytes h' a = bytes h a" by (auto simp: new(2))
  show "{c..<c + n} \<inter> {p..<p + sz} = {}" if "in_areas h c n" using that p(3) by (fastforce simp: in_areas_def)
qed

lemma chunks_apart_append:
  assumes "chunks_apart h n as" "chunks_apart h n bs" "\<And>c d. c \<in> set as \<Longrightarrow> d \<in> set bs \<Longrightarrow> chunk_span n c \<inter> chunk_span n d = {}"
  shows "chunks_apart h n (as @ bs)"
proof -
  have "c \<in> chunk_span n c" for c by (simp add: chunk_span_def)
  then have "set as \<inter> set bs = {}" using assms(3) by blast
  moreover have "chunk_span n c \<inter> chunk_span n d = {}" if "c \<in> set (as @ bs)" "d \<in> set (as @ bs)" "c \<noteq> d" for c d
    using that assms(3) [of c d] assms(3) [of d c] assms(1,2) unfolding chunks_apart_def set_append Un_iff by blast
  ultimately show ?thesis using assms(1,2) by (auto simp: chunks_apart_def)
qed

text \<open>A new arena becomes the list of free chunks.\<close>

lemma arena_chunks:
  assumes "allocator_ok al" "mem_arena al h sz = Some (h1, p)" "0 < k" "k * (8 + n) \<le> sz" "sz < 2 ^ 64"
    "chunks_apart h n live"
  shows "\<exists>h'. thread_chunks ((k + SIZE_MAX) mod 2 ^ 64) h1 (8 + n) p = Some (h', p + (k - 1) * (8 + n)) \<and>
    areas h' = areas h1 \<and> chain h' p (new_chunks p n k) \<and> chunks_apart h' n (new_chunks p n k @ live) \<and> p < 2 ^ 64 \<and> 0 < p \<and>
    (\<forall>c \<in> set live. \<forall>a \<in> chunk_span n c. bytes h' a = bytes h a)"
proof -
  note ar = arena_ok [OF assms(1,2)]
  have "k \<le> k * (8 + n)" by simp
  then have "k \<le> sz" using assms(4) by (rule le_trans)
  then have k: "(k + SIZE_MAX) mod 2 ^ 64 = k - 1" "Suc (k - 1) = k"
    using assms(3,5) by (auto simp: mod_if)
  have fits: "in_areas h1 p (Suc (k - 1) * (8 + n))" "p + Suc (k - 1) * (8 + n) \<le> 2 ^ 64"
    unfolding k(2) using in_areas_sub [OF ar(3), of p "k * (8 + n)"] ar(2) assms(4) by simp_all
  obtain h' where h': "thread_chunks (k - 1) h1 (8 + n) p = Some (h', p + (k - 1) * (8 + n))" "areas h' = areas h1"
    "\<forall>a. a \<notin> {p..<p + (k - 1) * (8 + n)} \<longrightarrow> bytes h' a = bytes h1 a" "chain h' p (new_chunks p n k)"
    using thread_ok [OF _ fits] k(2) by (auto simp: new_chunks_def)
  have in1: "in_areas h' p sz" using ar(3) by (simp add: in_areas_cong [OF h'(2)])
  note new = new_chunks_apart [OF in1 assms(4) ar(1,2)]
  have old: "chunk_span n c \<inter> {p..<p + sz} = {}" if "c \<in> set live" for c
    using ar(6) [of c "8 + n"] assms(6) that by (simp add: chunks_apart_def chunk_span_def)
  have "chunks_apart h' n (new_chunks p n k @ live)"
    using new(1) chunks_apart_areas [OF assms(6)] ar(4) h'(2) new(2) old by (intro chunks_apart_append) fastforce+
  moreover have "bytes h' a = bytes h a" if "c \<in> set live" "a \<in> chunk_span n c" for c a
  proof -
    have "a \<notin> {p..<p + sz}" using old [OF that(1)] that(2) by blast
    moreover have "(k - 1) * (8 + n) \<le> sz" by (rule le_trans [OF mult_le_mono1 assms(4)]) simp
    moreover from calculation have "a \<notin> {p..<p + (k - 1) * (8 + n)}" by auto
    ultimately show ?thesis using h'(3) ar(5) by simp
  qed
  moreover have "p < 2 ^ 64" using fits(2) by simp
  ultimately show ?thesis unfolding k(1) using h'(1,2,4) ar(1) by blast
qed

lemma extend_ok:
  assumes "allocator_ok al" "pool_ok al h mp [] live"
  shows "\<exists>h' mp' p. mpool_extend al h mp = Some (h', mp', p) \<and> chunk_size mp' = chunk_size mp \<and>
    (\<forall>c \<in> set live. \<forall>a \<in> chunk_span (chunk_size mp) c. bytes h' a = bytes h a) \<and>
    (if p = 0 then h' = h \<and> mp' = mp else \<exists>c free. pool_ok al h' mp' (c # free) live)"
proof -
  let ?n = "chunk_size mp" and ?sz = "page_count mp * al_pagesize al"
  define k where "k = ?sz div (8 + ?n)"
  have k: "0 < k" "k * (8 + ?n) \<le> ?sz" using assms(2) by (auto simp: k_def pool_ok_def div_greater_zero_iff)
  have sz: "?sz < 2 ^ 64" and ap: "chunks_apart h ?n live" and cc: "chunk_count mp = 0" using assms(2) by (simp_all add: pool_ok_def)
  show ?thesis
  proof (cases "mem_arena al h ?sz")
    case None
    then show ?thesis by (simp add: mpool_extend_def)
  next
    case (Some r)
    obtain h1 p where r: "r = (h1, p)" by fastforce
    with Some have ma: "mem_arena al h ?sz = Some (h1, p)" by simp
    show ?thesis
    proof (cases "al_malloc al h1")
      case False
      then show ?thesis using ma by (simp add: mpool_extend_def)
    next
      case True
      obtain h' where h': "thread_chunks ((k + SIZE_MAX) mod 2 ^ 64) h1 (8 + ?n) p = Some (h', p + (k - 1) * (8 + ?n))"
        "chain h' p (new_chunks p ?n k)" "chunks_apart h' ?n (new_chunks p ?n k @ live)" "p < 2 ^ 64" "0 < p"
        "\<forall>c \<in> set live. \<forall>a \<in> chunk_span ?n c. bytes h' a = bytes h a"
        using arena_chunks [OF assms(1) ma k sz ap] by blast
      let ?mp = "mp\<lparr>free_chunk_head := p, chunk_count := chunk_count mp + k, area := area mp @ [p]\<rparr>"
      have "pool_ok al h' ?mp (new_chunks p ?n k) live"
        using h' assms(2) cc by (auto simp: pool_ok_def new_chunks_def)
      moreover obtain c free where "new_chunks p ?n k = c # free" using k(1) by (cases "new_chunks p ?n k") (auto simp: new_chunks_def)
      moreover have "mpool_extend al h mp = Some (h', ?mp, p)" using ma True h'(1) by (simp add: mpool_extend_def k_def [symmetric] Let_def)
      ultimately show ?thesis using h'(5,6) by auto
    qed
  qed
qed

section \<open>Operations\<close>

lemma pool_ok_data:
  assumes "pool_ok al h mp free live" "areas h' = areas h"
    "\<And>c a. c \<in> set free \<Longrightarrow> a \<in> chunk_span (chunk_size mp) c \<Longrightarrow> bytes h' a = bytes h a"
  shows "pool_ok al h' mp free live"
proof -
  have "chain h' hp free = chain h hp free" for hp by (rule chain_frame [OF assms(2)]) (rule assms(3))
  then show ?thesis using assms(1) chunks_apart_areas [of h "chunk_size mp" "free @ live" h'] by (simp add: pool_ok_def assms(2))
qed

text \<open>Both allocations: a chunk that is not live, or NULL with nothing changed if the host has no memory left.\<close>

lemma alloc_ok:
  assumes "allocator_ok al" "pool_ok al h mp free live"
  shows "\<exists>h' mp' p. mpool_alloc al h mp = Some (h', mp', p) \<and> chunk_size mp' = chunk_size mp \<and>
    (\<forall>c \<in> set live. \<forall>a \<in> chunk_span (chunk_size mp) c. bytes h' a = bytes h a) \<and>
    (if p = 0 then h' = h \<and> mp' = mp \<and> free = [] else \<exists>c free'. p = c + 8 \<and> pool_ok al h' mp' free' (c # live))"
proof (cases free)
  case (Cons c cs)
  then obtain mp' where "mpool_alloc_helper h mp = Some (mp', c + 8)" "pool_ok al h mp' cs (c # live)" "chunk_size mp' = chunk_size mp"
    using helper_ok assms(2) by blast
  moreover have "chunk_count mp \<noteq> 0" using assms(2) Cons by (auto simp: pool_ok_def)
  ultimately show ?thesis by (auto simp: mpool_alloc_def)
next
  case Nil
  obtain h1 mp1 q where ex: "mpool_extend al h mp = Some (h1, mp1, q)" "chunk_size mp1 = chunk_size mp"
    "\<forall>c \<in> set live. \<forall>a \<in> chunk_span (chunk_size mp) c. bytes h1 a = bytes h a"
    "if q = 0 then h1 = h \<and> mp1 = mp else \<exists>c free. pool_ok al h1 mp1 (c # free) live"
    using extend_ok [OF assms(1)] assms(2) Nil by blast
  have cc: "chunk_count mp = 0" using assms(2) Nil by (simp add: pool_ok_def)
  show ?thesis
  proof (cases "q = 0")
    case True
    with ex cc Nil show ?thesis by (auto simp: mpool_alloc_def)
  next
    case False
    then obtain c cs where "pool_ok al h1 mp1 (c # cs) live" using ex(4) by auto
    then obtain mp' where "mpool_alloc_helper h1 mp1 = Some (mp', c + 8)" "pool_ok al h1 mp' cs (c # live)" "chunk_size mp' = chunk_size mp1"
      using helper_ok by blast
    with ex False cc show ?thesis by (auto simp: mpool_alloc_def)
  qed
qed

lemma calloc_alloc:
  "mpool_calloc al h mp =
    (case mpool_alloc al h mp of
       None \<Rightarrow> None
     | Some (h, mp, ptr) \<Rightarrow>
         if ptr = 0 then Some (h, mp, 0)
         else if in_areas h ptr (chunk_size mp)
         then Some (h\<lparr>bytes := memcpy_to (bytes h) ptr (replicate (chunk_size mp) 0)\<rparr>, mp, ptr) else None)"
proof -
  define g where "g = (if chunk_count mp = 0 then mpool_extend al h mp else Some (h, mp, 1))"
  show ?thesis
  proof (cases g)
    case None
    then show ?thesis by (simp add: mpool_calloc_def mpool_alloc_def g_def [symmetric])
  next
    case (Some r)
    obtain h1 mp1 ok where r: "r = (h1, mp1, ok)" by (cases r)
    show ?thesis
    proof (cases "mpool_alloc_helper h1 mp1")
      case None
      with Some r show ?thesis by (simp add: mpool_calloc_def mpool_alloc_def g_def [symmetric])
    next
      case (Some t)
      obtain mp2 ptr where t: "t = (mp2, ptr)" by (cases t)
      have "ptr \<noteq> 0" using Some t by (auto simp: mpool_alloc_helper_def bind_eq_Some_conv)
      with Some t r \<open>g = Some r\<close> show ?thesis by (simp add: mpool_calloc_def mpool_alloc_def g_def [symmetric])
    qed
  qed
qed

lemma end_chain:
  assumes "chunks_apart h n (cs @ [c])" "chain h hp (cs @ [c])"
  shows "\<exists>h'. set_next h c 0 = Some h' \<and> areas h' = areas h \<and> chain h' hp (cs @ [c])"
proof -
  have "in_areas h c 8" using assms(1) by (auto simp: chunks_apart_def intro: in_areas_sub)
  then obtain h' where h': "set_next h c 0 = Some h'" "areas h' = areas h"
    "\<forall>a. a \<notin> {c..<c + 8} \<longrightarrow> bytes h' a = bytes h a" "get_next h' c = Some 0"
    using set_next_ok [of h c 0] by auto
  have "get_next h' d = get_next h d" if "d \<in> set cs" for d
  proof (rule get_next_cong [OF h'(2)])
    have "d \<noteq> c" using assms(1) that by (auto simp: chunks_apart_def)
    then have apart: "a \<notin> chunk_span n c" if "a \<in> chunk_span n d" for a
      using chunks_apartD [OF assms(1), of d c] \<open>d \<in> set cs\<close> that by simp
    fix i :: nat assume "i < 8"
    then have "d + i \<notin> {c..<c + 8}" using apart [of "d + i"] by (auto simp: chunk_span_def)
    then show "bytes h' (d + i) = bytes h (d + i)" using h'(3) by blast
  qed
  then have "chain h' hp (cs @ [c])" by (rule chain_last [OF _ _ assms(2)]) (simp_all add: h'(4))
  with h'(1,2) show ?thesis by blast
qed

text \<open>A pool that has room for one chunk is created without a fault.\<close>

lemma create_ok:
  assumes "allocator_ok al" "n + 8 \<le> ps" "ps < 2 ^ 64"
  shows "\<exists>h' r. mpool_create al h ps n = Some (h', r) \<and>
    (case r of None \<Rightarrow> True | Some mp \<Rightarrow> chunk_size mp = n \<and> (\<exists>free. pool_ok al h' mp free []))"
proof -
  let ?pg = "al_pagesize al"
  define pages k where "pages = (ps + ?pg - 1) div ?pg" and "k = ps div (8 + n)"
  have pg: "0 < ?pg" using assms(1) by (simp add: allocator_ok_def)
  have k: "0 < k" "k * (8 + n) \<le> ps" using assms(2) by (auto simp: k_def div_greater_zero_iff)
  have "ps \<le> pages * ?pg"
    using pg div_mult_mod_eq [of "ps + ?pg - 1" ?pg] mod_less_divisor [OF pg, of "ps + ?pg - 1"] unfolding pages_def by linarith
  then have pages: "k * (8 + n) \<le> pages * ?pg" "8 + n \<le> pages * ?pg" using k(2) assms(2) by linarith+
  have "(if ps < n + 8 then (ps + 8) mod 2 ^ 64 else ps) = ps" using assms(2) by simp
  note create = mpool_create_def [of al h ps n, unfolded Let_def this, folded pages_def k_def]
  show ?thesis
  proof (cases "\<not> al_malloc al h \<or> n > SIZE_MAX - 8 \<or> ps > SIZE_MAX - ?pg + 1 \<or> pages > SIZE_MAX div ?pg \<or> mem_arena al h (pages * ?pg) = None")
    case True
    then have "mpool_create al h ps n = Some (h, None)"
      unfolding create by (auto split: option.splits)
    then show ?thesis by simp
  next
    case False
    then obtain h1 p where ma: "mem_arena al h (pages * ?pg) = Some (h1, p)" by auto
    have "pages * ?pg \<le> SIZE_MAX div ?pg * ?pg" using False by (intro mult_le_mono1) simp
    also have "\<dots> \<le> SIZE_MAX" by (rule div_times_less_eq_dividend)
    finally have sz: "pages * ?pg < 2 ^ 64" by simp
    obtain h2 where h2: "thread_chunks ((k + SIZE_MAX) mod 2 ^ 64) h1 (8 + n) p = Some (h2, p + (k - 1) * (8 + n))"
      "chain h2 p (new_chunks p n k)" "chunks_apart h2 n (new_chunks p n k)" "p < 2 ^ 64"
      using arena_chunks [OF assms(1) ma k(1) pages(1) sz, of "[]"] by (auto simp: chunks_apart_def)
    have nc: "new_chunks p n k = new_chunks p n (k - 1) @ [p + (k - 1) * (8 + n)]"
      using k(1) by (cases k) (simp_all add: new_chunks_def)
    obtain h3 where h3: "set_next h2 (p + (k - 1) * (8 + n)) 0 = Some h3" "areas h3 = areas h2" "chain h3 p (new_chunks p n k)"
      using end_chain [OF h2(3,2) [unfolded nc]] unfolding nc [symmetric] by blast
    have "pool_ok al h3 \<lparr>chunk_count = k, page_count = pages, chunk_size = n, free_chunk_head = p, area = [p]\<rparr> (new_chunks p n k) []"
      using h2(3,4) h3(2,3) pages(2) sz chunks_apart_areas [of h2 n "new_chunks p n k" h3] by (simp add: pool_ok_def new_chunks_def)
    moreover have "mpool_create al h ps n =
        Some (h3, Some \<lparr>chunk_count = k, page_count = pages, chunk_size = n, free_chunk_head = p, area = [p]\<rparr>)"
      unfolding create ma option.case prod.case h2(1) using False h3(1) by simp
    ultimately show ?thesis by auto
  qed
qed


section \<open>Safety of the pool\<close>

text \<open>
  A client: it allocates, frees chunks it holds, and writes to the chunks it holds. The last component is the
  list of pointers it holds.
\<close>

inductive pool_step :: "allocator \<Rightarrow> host_heap \<times> mpool \<times> nat list \<Rightarrow> host_heap \<times> mpool \<times> nat list \<Rightarrow> bool" for al where
  step_alloc: "mpool_alloc al h mp = Some (h', mp', p) \<Longrightarrow> pool_step al (h, mp, L) (h', mp', if p = 0 then L else p # L)"
| step_calloc: "mpool_calloc al h mp = Some (h', mp', p) \<Longrightarrow> pool_step al (h, mp, L) (h', mp', if p = 0 then L else p # L)"
| step_free: "p \<in> set L \<Longrightarrow> mpool_free h mp p = Some (h', mp') \<Longrightarrow> pool_step al (h, mp, L) (h', mp', remove1 p L)"
| step_use: "p \<in> set L \<Longrightarrow> (\<And>a. a \<notin> {p..<p + chunk_size mp} \<Longrightarrow> b a = bytes h a) \<Longrightarrow>
    pool_step al (h, mp, L) (h\<lparr>bytes := b\<rparr>, mp, L)"

definition pool_inv :: "allocator \<Rightarrow> nat \<Rightarrow> host_heap \<times> mpool \<times> nat list \<Rightarrow> bool" where
  "pool_inv al n s \<longleftrightarrow> (case s of (h, mp, L) \<Rightarrow>
    chunk_size mp = n \<and> (\<exists>free live. L = map (\<lambda>c. c + 8) live \<and> pool_ok al h mp free live))"

lemma data_span: "{c + 8..<c + 8 + n} \<subseteq> chunk_span n c"
  by (auto simp: chunk_span_def)

lemma remove1_map_inj: "inj f \<Longrightarrow> remove1 (f x) (map f xs) = map f (remove1 x xs)"
  by (induction xs) (auto dest: injD)

text \<open>What one allocation does, for both functions.\<close>

definition fresh_chunk :: "nat \<Rightarrow> host_heap \<Rightarrow> nat list \<Rightarrow> host_heap \<Rightarrow> nat \<Rightarrow> bool" where
  "fresh_chunk n h L h' p \<longleftrightarrow> p \<notin> set L \<and> (\<forall>q \<in> set L. \<forall>a \<in> {q..<q + n}. bytes h' a = bytes h a) \<and>
    (p = 0 \<or> in_areas h' p n \<and> (\<forall>q \<in> set L. {p..<p + n} \<inter> {q..<q + n} = {}))"

lemma pool_ok_pointers:
  assumes "pool_ok al h mp free live" "n = chunk_size mp"
  shows "distinct (map (\<lambda>c. c + 8) live)" "c \<in> set live \<Longrightarrow> in_areas h (c + 8) n"
    "c \<in> set live \<Longrightarrow> d \<in> set live \<Longrightarrow> c \<noteq> d \<Longrightarrow> {c + 8..<c + 8 + n} \<inter> {d + 8..<d + 8 + n} = {}"
proof -
  have ap: "chunks_apart h n (free @ live)" using assms by (simp add: pool_ok_def)
  then show "distinct (map (\<lambda>c. c + 8) live)" by (simp add: chunks_apart_def distinct_map inj_on_def)
  show "c \<in> set live \<Longrightarrow> in_areas h (c + 8) n" using ap by (auto simp: chunks_apart_def intro: in_areas_sub)
  assume "c \<in> set live" "d \<in> set live" "c \<noteq> d"
  then have "chunk_span n c \<inter> chunk_span n d = {}" using ap by (simp add: chunks_apart_def)
  then show "{c + 8..<c + 8 + n} \<inter> {d + 8..<d + 8 + n} = {}" using data_span [of c n] data_span [of d n] by blast
qed

lemma alloc_inv:
  assumes "allocator_ok al" "pool_inv al n (h, mp, L)"
  shows "\<exists>h' mp' p. mpool_alloc al h mp = Some (h', mp', p) \<and> pool_inv al n (h', mp', if p = 0 then L else p # L) \<and>
    fresh_chunk n h L h' p \<and> (p = 0 \<longrightarrow> chunk_count mp = 0)"
proof -
  obtain free live where L: "L = map (\<lambda>c. c + 8) live" "pool_ok al h mp free live" "chunk_size mp = n"
    using assms(2) by (auto simp: pool_inv_def)
  obtain h' mp' p where al: "mpool_alloc al h mp = Some (h', mp', p)" "chunk_size mp' = n"
    "\<forall>c \<in> set live. \<forall>a \<in> chunk_span n c. bytes h' a = bytes h a"
    "if p = 0 then h' = h \<and> mp' = mp \<and> free = [] else \<exists>c free'. p = c + 8 \<and> pool_ok al h' mp' free' (c # live)"
    using alloc_ok [OF assms(1) L(2)] L(3) by auto
  have keep: "\<forall>q \<in> set L. \<forall>a \<in> {q..<q + n}. bytes h' a = bytes h a"
    using al(3) data_span L(1) by fastforce
  show ?thesis
  proof (cases "p = 0")
    case True
    moreover have "chunk_count mp = 0" using True al(4) L(2) by (auto simp: pool_ok_def)
    ultimately show ?thesis using al keep L assms(2) by (auto simp: fresh_chunk_def)
  next
    case False
    then obtain c free' where c: "p = c + 8" "pool_ok al h' mp' free' (c # live)" using al(4) by auto
    note ptr = pool_ok_pointers [OF c(2) al(2) [symmetric]]
    have "p \<notin> set L" using ptr(1) by (auto simp: c(1) L(1))
    moreover have "{p..<p + n} \<inter> {q..<q + n} = {}" if "q \<in> set L" for q
    proof -
      obtain d where "q = d + 8" "d \<in> set live" using \<open>q \<in> set L\<close> by (auto simp: L(1))
      moreover from this have "c \<noteq> d" using ptr(1) by auto
      ultimately show ?thesis using ptr(3) [of c d] by (simp add: c(1))
    qed
    moreover have "pool_inv al n (h', mp', p # L)" unfolding pool_inv_def using c L(1) al(2) by (simp, intro exI [of _ free'] exI [of _ "c # live"]) simp
    ultimately show ?thesis using al(1) keep False ptr(2) [of c] by (auto simp: fresh_chunk_def c(1))
  qed
qed

lemma use_inv:
  assumes "pool_inv al n (h, mp, L)" "p \<in> set L" "\<And>a. a \<notin> {p..<p + n} \<Longrightarrow> bytes h' a = bytes h a" "areas h' = areas h"
  shows "pool_inv al n (h', mp, L)"
proof -
  obtain free live where L: "L = map (\<lambda>c. c + 8) live" "pool_ok al h mp free live" "chunk_size mp = n"
    using assms(1) by (auto simp: pool_inv_def)
  then obtain c where c: "p = c + 8" "c \<in> set live" using assms(2) by auto
  have ap: "chunks_apart h n (free @ live)" using L(2,3) by (simp add: pool_ok_def)
  have "pool_ok al h' mp free live"
  proof (rule pool_ok_data [OF L(2) assms(4)], unfold L(3))
    fix d a assume d: "d \<in> set free" "a \<in> chunk_span n d"
    moreover from d have "d \<noteq> c" using ap c(2) by (auto simp: chunks_apart_def)
    ultimately have "a \<notin> chunk_span n c" using chunks_apartD [OF ap, of d c a] c(2) by simp
    then have "a \<notin> {p..<p + n}" using data_span [of c n] unfolding c(1) by blast
    then show "bytes h' a = bytes h a" by (rule assms(3))
  qed
  with L show ?thesis by (auto simp: pool_inv_def)
qed

lemma calloc_inv:
  assumes "allocator_ok al" "pool_inv al n (h, mp, L)"
  shows "\<exists>h' mp' p. mpool_calloc al h mp = Some (h', mp', p) \<and> pool_inv al n (h', mp', if p = 0 then L else p # L) \<and>
    fresh_chunk n h L h' p \<and> (p \<noteq> 0 \<longrightarrow> (\<forall>a \<in> {p..<p + n}. bytes h' a = 0))"
proof -
  obtain h1 mp' p where al: "mpool_alloc al h mp = Some (h1, mp', p)" "pool_inv al n (h1, mp', if p = 0 then L else p # L)"
    "fresh_chunk n h L h1 p" using alloc_inv [OF assms] by blast
  show ?thesis
  proof (cases "p = 0")
    case True
    with al show ?thesis by (simp add: calloc_alloc)
  next
    case False
    define h2 where "h2 = h1\<lparr>bytes := memcpy_to (bytes h1) p (replicate n 0)\<rparr>"
    have cs: "chunk_size mp' = n" using al(2) by (simp add: pool_inv_def)
    have in2: "in_areas h2 a k = in_areas h1 a k" for a k by (rule in_areas_cong) (simp add: h2_def)
    have out: "bytes h2 a = bytes h1 a" if "a \<notin> {p..<p + n}" for a using that by (auto simp: h2_def memcpy_to_def)
    have zero: "bytes h2 a = 0" if "a \<in> {p..<p + n}" for a using that by (auto simp: h2_def memcpy_to_def)
    have fr: "p \<notin> set L" "in_areas h1 p n" "\<forall>q \<in> set L. {p..<p + n} \<inter> {q..<q + n} = {}"
      "\<forall>q \<in> set L. \<forall>a \<in> {q..<q + n}. bytes h1 a = bytes h a"
      using al(3) False unfolding fresh_chunk_def by blast+
    have keep: "\<forall>q \<in> set L. \<forall>a \<in> {q..<q + n}. bytes h2 a = bytes h a"
    proof (intro ballI)
      fix q a assume q: "q \<in> set L" "a \<in> {q..<q + n}"
      then have "a \<notin> {p..<p + n}" using fr(3) by blast
      then show "bytes h2 a = bytes h a" using out fr(4) q by simp
    qed
    have "pool_inv al n (h1, mp', p # L)" using al(2) False by simp
    then have "pool_inv al n (h2, mp', p # L)" by (rule use_inv [where p = p]) (simp_all add: out h2_def [THEN arg_cong [where f = areas]])
    moreover have "mpool_calloc al h mp = Some (h2, mp', p)"
      using al(1) fr(2) False cs by (simp add: calloc_alloc h2_def)
    moreover have "fresh_chunk n h L h2 p" unfolding fresh_chunk_def in2 using fr keep by blast
    ultimately show ?thesis using False zero by auto
  qed
qed

lemma free_inv:
  assumes "pool_inv al n (h, mp, L)" "p \<in> set L"
  shows "\<exists>h' mp'. mpool_free h mp p = Some (h', mp') \<and> pool_inv al n (h', mp', remove1 p L) \<and>
    (\<forall>q \<in> set L - {p}. \<forall>a \<in> {q..<q + n}. bytes h' a = bytes h a)"
proof -
  obtain free live where L: "L = map (\<lambda>c. c + 8) live" "pool_ok al h mp free live" "chunk_size mp = n"
    using assms(1) by (auto simp: pool_inv_def)
  then obtain c where c: "p = c + 8" "c \<in> set live" using assms(2) by auto
  obtain h' mp' where f: "mpool_free h mp p = Some (h', mp')" "pool_ok al h' mp' (c # free) (remove1 c live)" "chunk_size mp' = n"
    "\<forall>a. a \<notin> chunk_span n c \<longrightarrow> bytes h' a = bytes h a"
    using free_ok [OF L(2) c(2)] L(3) c(1) by auto
  have "remove1 p L = map (\<lambda>c. c + 8) (remove1 c live)" unfolding L(1) c(1) by (rule remove1_map_inj) (simp add: inj_def)
  then have "pool_inv al n (h', mp', remove1 p L)" using f(2,3) by (auto simp: pool_inv_def)
  moreover have "bytes h' a = bytes h a" if "q \<in> set L - {p}" "a \<in> {q..<q + n}" for q a
  proof -
    obtain d where d: "q = d + 8" "d \<in> set live" "d \<noteq> c" using \<open>q \<in> set L - {p}\<close> by (auto simp: L(1) c(1))
    have "a \<in> chunk_span n d" using that(2) data_span [of d n] by (auto simp: d(1))
    then have "a \<notin> chunk_span n c"
      using chunks_apartD [of h n "free @ live" d c a] L(2,3) c(2) d by (simp add: pool_ok_def)
    then show ?thesis using f(4) by blast
  qed
  ultimately show ?thesis using f(1) by blast
qed

lemma pool_step_inv: "pool_step al s s' \<Longrightarrow> allocator_ok al \<Longrightarrow> pool_inv al n s \<Longrightarrow> pool_inv al n s'"
proof (induction rule: pool_step.induct)
  case (step_alloc h mp h' mp' p L)
  then show ?case using alloc_inv [of al n h mp L] by auto
next
  case (step_calloc h mp h' mp' p L)
  then show ?case using calloc_inv [of al n h mp L] by auto
next
  case (step_free p L h mp h' mp')
  then show ?case using free_inv [of al n h mp L p] by auto
next
  case (step_use p L mp b h)
  then show ?case using use_inv [of al n h mp L p "h\<lparr>bytes := b\<rparr>"] by (auto simp: pool_inv_def)
qed

lemma pool_reach_inv: "(pool_step al)\<^sup>*\<^sup>* s s' \<Longrightarrow> allocator_ok al \<Longrightarrow> pool_inv al n s \<Longrightarrow> pool_inv al n s'"
  by (induction rule: rtranclp_induct) (auto intro: pool_step_inv)

lemma pool_inv_held:
  assumes "pool_inv al n (h, mp, L)"
  shows "distinct L" "\<forall>p \<in> set L. in_areas h p n" "\<forall>p \<in> set L. \<forall>q \<in> set L. p \<noteq> q \<longrightarrow> {p..<p + n} \<inter> {q..<q + n} = {}"
proof -
  obtain free live where L: "L = map (\<lambda>c. c + 8) live" "pool_ok al h mp free live" "n = chunk_size mp"
    using assms by (auto simp: pool_inv_def)
  note ptr = pool_ok_pointers [OF L(2,3)]
  show "distinct L" unfolding L(1) by (rule ptr(1))
  show "\<forall>p \<in> set L. in_areas h p n" using ptr(2) by (auto simp: L(1))
  show "\<forall>p \<in> set L. \<forall>q \<in> set L. p \<noteq> q \<longrightarrow> {p..<p + n} \<inter> {q..<q + n} = {}"
    using ptr(3) unfolding L(1) by (auto simp del: Int_iff disjoint_iff)
qed

lemma create_inv:
  assumes "allocator_ok al" "n + 8 \<le> ps" "ps < 2 ^ 64" "mpool_create al h0 ps n = Some (h1, Some mp1)"
  shows "pool_inv al n (h1, mp1, [])"
  using create_ok [OF assms(1-3), of h0] assms(4) by (auto simp: pool_inv_def)

section \<open>The pool is safe\<close>

text \<open>
  C34: the memory pool is memory safe. Create a pool whose size holds a chunk, on a host that maps new arenas
  apart from mapped memory, and let a client allocate, free and write to the chunks it holds in any
  order. At every moment the chunks it holds are distinct, mapped and apart from each other. An
  allocation always returns: with a chunk apart from the held ones, whose bytes it leaves alone, or
  with NULL, and then only when the free list was empty; a cleared one is all zero. Freeing a held chunk returns and leaves the bytes of the others alone.
\<close>

theorem mpool_safe:
  assumes "allocator_ok al" "n + 8 \<le> ps" "ps < 2 ^ 64" "mpool_create al h0 ps n = Some (h1, Some mp1)"
    "(pool_step al)\<^sup>*\<^sup>* (h1, mp1, []) (h, mp, L)"
  shows "distinct L \<and> (\<forall>p \<in> set L. in_areas h p n \<and> (\<forall>q \<in> set L. p \<noteq> q \<longrightarrow> {p..<p + n} \<inter> {q..<q + n} = {})) \<and>
    (\<exists>h' mp' p. mpool_alloc al h mp = Some (h', mp', p) \<and> fresh_chunk n h L h' p \<and> (p = 0 \<longrightarrow> chunk_count mp = 0)) \<and>
    (\<exists>h' mp' p. mpool_calloc al h mp = Some (h', mp', p) \<and> fresh_chunk n h L h' p \<and>
      (p \<noteq> 0 \<longrightarrow> (\<forall>a \<in> {p..<p + n}. bytes h' a = 0))) \<and>
    (\<forall>p \<in> set L. \<exists>h' mp'. mpool_free h mp p = Some (h', mp') \<and>
      (\<forall>q \<in> set L - {p}. \<forall>a \<in> {q..<q + n}. bytes h' a = bytes h a))"
proof -
  have inv: "pool_inv al n (h, mp, L)"
    using pool_reach_inv [OF assms(5,1)] create_inv [OF assms(1-4)] by blast
  have alloc: "\<exists>h' mp' p. mpool_alloc al h mp = Some (h', mp', p) \<and> fresh_chunk n h L h' p \<and> (p = 0 \<longrightarrow> chunk_count mp = 0)"
    using alloc_inv [OF assms(1) inv] by blast
  have calloc: "\<exists>h' mp' p. mpool_calloc al h mp = Some (h', mp', p) \<and> fresh_chunk n h L h' p \<and>
      (p \<noteq> 0 \<longrightarrow> (\<forall>a \<in> {p..<p + n}. bytes h' a = 0))" using calloc_inv [OF assms(1) inv] by blast
  have free: "\<forall>p \<in> set L. \<exists>h' mp'. mpool_free h mp p = Some (h', mp') \<and>
      (\<forall>q \<in> set L - {p}. \<forall>a \<in> {q..<q + n}. bytes h' a = bytes h a)" using free_inv [OF inv] by blast
  show ?thesis using pool_inv_held [OF inv] alloc calloc free by blast
qed

text \<open>
  A host that maps every arena behind all the mapped ones. The client takes two chunks of 16 bytes,
  clears the second and gives the first back.
\<close>

definition mpool_demo_allocator :: allocator where
  "mpool_demo_allocator = \<lparr>al_arena = (\<lambda>h sz.
      let p = fold (\<lambda>(p, sz) m. max m (p + sz)) (areas h) 4096 in if p + sz \<le> 2 ^ 64 then Some (p, \<lambda>_. 255) else None),
    al_malloc = (\<lambda>_. True), al_pagesize = 64\<rparr>"

lemma fold_max_ge: "m \<le> fold (\<lambda>(p, sz) m. max m (p + sz)) xs m" for m :: nat
  by (induction xs arbitrary: m) (auto, meson max.bounded_iff order_trans)

lemma fold_max_mem: "(p', sz') \<in> set xs \<Longrightarrow> p' + sz' \<le> fold (\<lambda>(p, sz) m. max m (p + sz)) xs (m :: nat)"
proof (induction xs arbitrary: m)
  case (Cons x xs)
  then show ?case using fold_max_ge [of "max m (p' + sz')" xs] by auto
qed simp

lemma mpool_demo_allocator_ok: "allocator_ok mpool_demo_allocator"
proof -
  have "4096 \<le> fold (\<lambda>(p, sz) m. max m (p + sz)) xs (4096 :: nat)" for xs by (rule fold_max_ge)
  then have "0 < fold (\<lambda>(p, sz) m. max m (p + sz)) xs (4096 :: nat)" for xs by (meson less_le_trans zero_less_numeral)
  then show ?thesis
    by (auto simp: allocator_ok_def mpool_demo_allocator_def Let_def fold_max_mem split: if_splits)
qed

definition mpool_demo_start :: host_heap where
  "mpool_demo_start = \<lparr>areas = [], bytes = (\<lambda>_. 0)\<rparr>"

definition mpool_demo :: "(host_heap \<times> mpool \<times> nat list) option" where
  "mpool_demo =
    do { (h, r) \<leftarrow> mpool_create mpool_demo_allocator mpool_demo_start 60 16;
         mp \<leftarrow> r;
         (h, mp, p) \<leftarrow> mpool_alloc mpool_demo_allocator h mp;
         (h, mp, q) \<leftarrow> mpool_calloc mpool_demo_allocator h mp;
         Some (h, mp, [q, p]) }"

lemma mpool_demo_runs:
  "(case mpool_demo of None \<Rightarrow> False | Some (h, mp, L) \<Rightarrow> L = [4128, 4104] \<and> chunk_count mp = 0)"
  by (simp add: mpool_demo_def mpool_create_def mpool_demo_allocator_def mpool_demo_start_def mem_arena_def set_next_def get_next_def
      in_areas_def mpool_alloc_def mpool_calloc_def mpool_alloc_helper_def memcpy_to_def memcpy_from_def upt_rec)

lemma mpool_demo_steps:
  "\<exists>h1 mp1 h mp. mpool_create mpool_demo_allocator mpool_demo_start 60 16 = Some (h1, Some mp1) \<and>
    (pool_step mpool_demo_allocator)\<^sup>*\<^sup>* (h1, mp1, []) (h, mp, [4128, 4104])"
proof -
  obtain h1 mp1 h2 mp2 p h mp q where c: "mpool_create mpool_demo_allocator mpool_demo_start 60 16 = Some (h1, Some mp1)"
    and a: "mpool_alloc mpool_demo_allocator h1 mp1 = Some (h2, mp2, p)"
    and b: "mpool_calloc mpool_demo_allocator h2 mp2 = Some (h, mp, q)" and L: "[q, p] = [4128, 4104]"
    using mpool_demo_runs by (auto simp: mpool_demo_def bind_eq_Some_conv split: option.splits)
  have "pool_step mpool_demo_allocator (h1, mp1, []) (h2, mp2, [4104])" using step_alloc [OF a, of "[]"] L by simp
  moreover have "pool_step mpool_demo_allocator (h2, mp2, [4104]) (h, mp, [4128, 4104])" using step_calloc [OF b, of "[4104]"] L by simp
  ultimately show ?thesis using c by (blast intro: rtranclp.intros)
qed

theorem mpool_safe_witness:
  "\<exists>h mp. in_areas h 4104 16 \<and> in_areas h 4128 16 \<and>
    (\<exists>h' mp' p. mpool_alloc mpool_demo_allocator h mp = Some (h', mp', p) \<and> fresh_chunk 16 h [4128, 4104] h' p) \<and>
    (\<exists>h' mp'. mpool_free h mp 4104 = Some (h', mp') \<and> (\<forall>a \<in> {4128..<4144}. bytes h' a = bytes h a))"
proof -
  obtain h1 mp1 h mp where s: "mpool_create mpool_demo_allocator mpool_demo_start 60 16 = Some (h1, Some mp1)"
    "(pool_step mpool_demo_allocator)\<^sup>*\<^sup>* (h1, mp1, []) (h, mp, [4128, 4104])" using mpool_demo_steps by blast
  have "16 + 8 \<le> (60 :: nat)" "(60 :: nat) < 2 ^ 64" by simp_all
  note safe = mpool_safe [OF mpool_demo_allocator_ok this s]
  have "in_areas h 4104 16 \<and> in_areas h 4128 16" using safe by simp
  moreover have "\<exists>h' mp' p. mpool_alloc mpool_demo_allocator h mp = Some (h', mp', p) \<and> fresh_chunk 16 h [4128, 4104] h' p"
    using safe by blast
  moreover have "\<exists>h' mp'. mpool_free h mp 4104 = Some (h', mp') \<and>
      (\<forall>q \<in> set [4128, 4104] - {4104}. \<forall>a \<in> {q..<q + 16}. bytes h' a = bytes h a)" using safe by (meson list.set_intros)
  then have "\<exists>h' mp'. mpool_free h mp 4104 = Some (h', mp') \<and> (\<forall>a \<in> {4128..<4144}. bytes h' a = bytes h a)" by fastforce
  ultimately show ?thesis by blast
qed

text \<open>
  The smallest pool goes wrong: a size below one chunk grows by the header only. With chunks of 16 bytes
  and a size of 8, the count of chunks is 0, the loop that threads the list runs \<open>2 ^ 64 - 1\<close> times
  and leaves the arena.
\<close>

lemma thread_leaves: "\<not> in_areas h (cur + k * step) 8 \<Longrightarrow> k < n \<Longrightarrow> thread_chunks n h step cur = None"
proof (induction k arbitrary: n h cur)
  case 0
  then show ?case by (cases n) (simp_all add: set_next_def)
next
  case (Suc k)
  obtain m where n: "n = Suc m" using Suc.prems(2) by (cases n) auto
  show ?case
  proof (cases "set_next h cur (cur + step)")
    case (Some h')
    then have "areas h' = areas h" by (auto simp: set_next_def split: if_splits)
    then have "\<not> in_areas h' (cur + step + k * step) 8" using Suc.prems(1) by (simp add: in_areas_def algebra_simps)
    then show ?thesis using Suc.IH [of h' "cur + step" m] Suc.prems(2) Some by (simp add: n)
  qed (simp add: n)
qed

lemma mpool_create_tiny:
  assumes "al_malloc al \<lparr>areas = [], bytes = m\<rparr>" "al_pagesize al = 4096" "al_arena al \<lparr>areas = [], bytes = m\<rparr> 4096 = Some (p, new)"
  shows "mpool_create al \<lparr>areas = [], bytes = m\<rparr> 8 16 = None"
proof -
  have "thread_chunks 18446744073709551615 h 24 p = None" if "areas h = [(p, 4096)]" for h
    by (rule thread_leaves [where k = 200]) (simp_all add: in_areas_def that)
  then show ?thesis using assms by (simp add: mpool_create_def mem_arena_def)
qed

end
