(* ===== verification/Float_Round.thy ===== *)
theory Float_Round
  imports Fp_Correct Complex_Main
begin

unbundle bit_operations_syntax

text \<open>
  What it means to round a number to single precision, and the facts the proofs about the library use:
  the result depends on the number only through comparisons with a grid, so the low bits of a
  significand may be replaced by a sticky bit.

  Numbers are in units of the smallest subnormal number, as the values \<open>fmag\<close> of theory Fp_Correct.
\<close>

section \<open>Rounding to an integer and to single precision\<close>

text \<open>The five rounding modes on a magnitude; \<open>s\<close> is the sign of the number.\<close>

definition round_int :: "u8 \<Rightarrow> bool \<Rightarrow> real \<Rightarrow> int" where
  "round_int mode s y =
    (if mode = 0 then
       (if 2 * (y - of_int \<lfloor>y\<rfloor>) < 1 \<or> 2 * (y - of_int \<lfloor>y\<rfloor>) = 1 \<and> even \<lfloor>y\<rfloor> then \<lfloor>y\<rfloor> else \<lfloor>y\<rfloor> + 1)
     else if mode = 4 then \<lfloor>y + 1 / 2\<rfloor>
     else if mode = (if s then 2 else 3) then \<lceil>y\<rceil>
     else \<lfloor>y\<rfloor>)"

text \<open>
  The last place of 24 significant bits, which the format cannot put below the smallest subnormal
  number; the rounded magnitude; whether the number would be below the smallest normal number if
  the exponent had no bound.
\<close>

definition last_place :: "real \<Rightarrow> int" where
  "last_place x = \<lfloor>log 2 x\<rfloor> - 23"

definition rounded :: "u8 \<Rightarrow> bool \<Rightarrow> real \<Rightarrow> int" where
  "rounded mode s x = round_int mode s (x / 2 ^ nat (last_place x)) * 2 ^ nat (last_place x)"

definition tiny :: "u8 \<Rightarrow> bool \<Rightarrow> real \<Rightarrow> bool" where
  "tiny mode s x \<longleftrightarrow> of_int (round_int mode s (x / 2 powi last_place x)) * 2 powi last_place x < (2 ^ 23 :: real)"

definition rounds_to :: "u8 \<Rightarrow> bool \<Rightarrow> real \<Rightarrow> u32 \<times> u8 \<Rightarrow> bool" where
  "rounds_to mode s x zf \<longleftrightarrow> (case zf of (z, fl) \<Rightarrow>
    bit z 31 = s \<and>
    (if 2 ^ 277 \<le> rounded mode s x then
       mag z = (if mode = 0 \<or> mode = 4 \<or> mode = (if s then 2 else 3) then 0x7F800000 else 0x7F7FFFFF) \<and> fl = 5
     else fexp z < 255 \<and> fmag (mag z) = rounded mode s x \<and>
       fl = (if of_int (rounded mode s x) = x then 0 else if tiny mode s x then 3 else 1)))"

section \<open>Numbers that a grid cannot tell apart\<close>

definition agree :: "nat \<Rightarrow> real \<Rightarrow> real \<Rightarrow> bool" where
  "agree k y z \<longleftrightarrow> (\<forall>h::int. (y < of_int h * 2 ^ k \<longleftrightarrow> z < of_int h * 2 ^ k) \<and> (of_int h * 2 ^ k < y \<longleftrightarrow> of_int h * 2 ^ k < z))"

lemma agreeI: "(\<And>h::int. y < of_int h * 2 ^ k \<longleftrightarrow> z < of_int h * 2 ^ k) \<Longrightarrow>
    (\<And>h::int. of_int h * 2 ^ k < y \<longleftrightarrow> of_int h * 2 ^ k < z) \<Longrightarrow> agree k y z"
  by (simp add: agree_def)

lemma agreeD: "agree k y z \<Longrightarrow> y < of_int h * 2 ^ k \<longleftrightarrow> z < of_int h * 2 ^ k"
  "agree k y z \<Longrightarrow> of_int h * 2 ^ k < y \<longleftrightarrow> of_int h * 2 ^ k < z"
  by (simp_all add: agree_def)

lemma agree_refl [simp]: "agree k y y"
  by (simp add: agree_def)

lemma agree_mono:
  assumes "agree k y z" "k \<le> n"
  shows "agree n y z"
  unfolding agree_def
proof (intro allI)
  fix h :: int
  have "of_int h * 2 ^ n = (of_int (h * 2 ^ (n - k)) * 2 ^ k :: real)" using assms(2) by (simp flip: power_add)
  then show "(y < of_int h * 2 ^ n \<longleftrightarrow> z < of_int h * 2 ^ n) \<and> (of_int h * 2 ^ n < y \<longleftrightarrow> of_int h * 2 ^ n < z)"
    using agreeD [OF assms(1)] by presburger
qed

lemma agree_add:
  assumes "agree k y z"
  shows "agree k (y + of_int (c * 2 ^ k)) (z + of_int (c * 2 ^ k))"
  using agreeD [OF assms, of "h - c" for h] by (auto simp: agree_def left_diff_distrib less_diff_eq diff_less_eq)

lemma agree_minus:
  assumes "agree k y z"
  shows "agree k (of_int (c * 2 ^ k) - y) (of_int (c * 2 ^ k) - z)"
proof (rule agreeI)
  fix h :: int
  show "of_int (c * 2 ^ k) - y < of_int h * 2 ^ k \<longleftrightarrow> of_int (c * 2 ^ k) - z < of_int h * 2 ^ k"
    using agreeD(2) [OF assms, of "c - h"] by (auto simp: left_diff_distrib)
  show "of_int h * 2 ^ k < of_int (c * 2 ^ k) - y \<longleftrightarrow> of_int h * 2 ^ k < of_int (c * 2 ^ k) - z"
    using agreeD(1) [OF assms, of "c - h"] by (auto simp: left_diff_distrib)
qed

lemma agree_scale: "agree (k + d) (y * 2 ^ d) (z * 2 ^ d) = agree k y z"
proof -
  have "(y * 2 ^ d < of_int h * 2 ^ (k + d)) = (y < of_int h * 2 ^ k)"
    "(of_int h * 2 ^ (k + d) < y * 2 ^ d) = (of_int h * 2 ^ k < y)" for y :: real and h
    by (simp_all add: power_add flip: mult.assoc)
  then show ?thesis by (simp add: agree_def)
qed

lemma agree_divide: "agree (k + d) y z \<Longrightarrow> agree k (y / 2 ^ d) (z / 2 ^ d)"
  using agree_scale [of k d "y / 2 ^ d" "z / 2 ^ d"] by simp

lemma agree_bounds:
  assumes "agree k y z"
  shows "of_int h * 2 ^ k \<le> y \<longleftrightarrow> of_int h * 2 ^ k \<le> z" "y < of_int h * 2 ^ k \<longleftrightarrow> z < of_int h * 2 ^ k"
    "y = of_int h * 2 ^ k \<longleftrightarrow> z = of_int h * 2 ^ k"
  using agreeD [OF assms, of h] by (auto simp: not_less [symmetric] order_eq_iff)

lemma agree_sym: "agree k y z \<Longrightarrow> agree k z y"
  by (simp add: agree_def)

lemma agree_floor_le:
  assumes "agree 0 y z"
  shows "\<lfloor>y\<rfloor> \<le> \<lfloor>z\<rfloor>" "\<lceil>z\<rceil> \<le> \<lceil>y\<rceil>"
proof -
  have "of_int \<lfloor>y\<rfloor> \<le> z" using agree_bounds(1) [OF assms, of "\<lfloor>y\<rfloor>"] by simp
  then show "\<lfloor>y\<rfloor> \<le> \<lfloor>z\<rfloor>" by (simp only: le_floor_iff)
  have "\<not> of_int \<lceil>y\<rceil> < z" using agreeD(2) [OF assms, of "\<lceil>y\<rceil>"] le_of_int_ceiling [of y] by (simp del: le_of_int_ceiling)
  then show "\<lceil>z\<rceil> \<le> \<lceil>y\<rceil>" by (simp only: ceiling_le_iff not_less)
qed

lemma agree_floor: "agree 0 y z \<Longrightarrow> \<lfloor>y\<rfloor> = \<lfloor>z\<rfloor>" "agree 0 y z \<Longrightarrow> \<lceil>y\<rceil> = \<lceil>z\<rceil>"
  by (simp_all add: agree_floor_le agree_sym antisym)

text \<open>Rounding looks at half units only.\<close>

lemma round_int_agree:
  assumes "agree 0 (2 * y) (2 * z)"
  shows "round_int mode s y = round_int mode s z"
proof -
  have a: "agree 0 y z" using agree_divide [of 0 1 "2 * y" "2 * z"] agree_mono [OF assms] by simp
  have f: "\<lfloor>y\<rfloor> = \<lfloor>z\<rfloor>" "\<lceil>y\<rceil> = \<lceil>z\<rceil>" using agree_floor [OF a] by simp_all
  have h: "2 * (y - of_int f) < 1 \<longleftrightarrow> 2 * (z - of_int f) < 1" "2 * (y - of_int f) = 1 \<longleftrightarrow> 2 * (z - of_int f) = 1" for f :: int
    using agree_bounds(2,3) [OF assms, of "2 * f + 1"] by (auto simp: algebra_simps)
  have "agree 0 (2 * y + 1) (2 * z + 1)" using agree_add [OF assms, of 1] by simp
  then have "agree 1 (2 * y + 1) (2 * z + 1)" by (rule agree_mono) simp
  then have "agree 0 ((2 * y + 1) / 2 ^ 1) ((2 * z + 1) / 2 ^ 1)" by (intro agree_divide) simp
  moreover have "(2 * y + 1) / 2 ^ 1 = y + 1 / 2" "(2 * z + 1) / 2 ^ 1 = z + 1 / 2" by (simp_all add: field_simps)
  ultimately have "agree 0 (y + 1 / 2) (z + 1 / 2)" by (simp only:)
  then have g: "\<lfloor>y + 1 / 2\<rfloor> = \<lfloor>z + 1 / 2\<rfloor>" by (rule agree_floor)
  show ?thesis unfolding round_int_def f h g by (rule refl)
qed

section \<open>Sticky bits\<close>

text \<open>A right shift that leaves a sticky bit in the last place.\<close>

definition jam :: "nat \<Rightarrow> nat \<Rightarrow> nat" where
  "jam a d = a div 2 ^ d OR (if a mod 2 ^ d \<noteq> 0 then 1 else 0)"

lemma jam_eq: "jam a d = a div 2 ^ d + (if a mod 2 ^ d \<noteq> 0 \<and> even (a div 2 ^ d) then 1 else 0)"
  by (auto simp: jam_def or_one_eq [where 'a = nat, simplified] elim!: evenE)

lemma div_bounds: "n div 2 ^ k * 2 ^ k \<le> n" "n < (n div 2 ^ k + 1) * 2 ^ k" for n k :: nat
proof -
  have "n div 2 ^ k * 2 ^ k + n mod 2 ^ k = n" "n mod 2 ^ k < 2 ^ k" by (rule div_mult_mod_eq) simp
  then show "n div 2 ^ k * 2 ^ k \<le> n" "n < (n div 2 ^ k + 1) * 2 ^ k" unfolding distrib_right by linarith+
qed

lemma pow2_swap: "x * 2 ^ m * 2 ^ n = x * 2 ^ n * 2 ^ m" for x :: nat
  by (simp add: mult_ac)

lemma pow2_room: "x * 2 ^ m < 2 ^ n \<Longrightarrow> 0 < x \<Longrightarrow> (x + 1) * 2 ^ m \<le> 2 ^ n" for x :: nat
proof -
  assume x: "x * 2 ^ m < 2 ^ n" "0 < x"
  have "1 * 2 ^ m \<le> x * 2 ^ m" using x(2) by (intro mult_le_mono1) simp
  also have "\<dots> < 2 ^ n" by (rule x(1))
  finally have "m < n" by simp
  then have "(2 :: nat) ^ n = 2 ^ (n - m) * 2 ^ m" by (simp flip: power_add)
  then show ?thesis using x(1) by (simp add: Suc_le_eq del: mult_Suc)
qed

lemma div_cmp:
  fixes a d :: nat and H :: int
  shows "int a < H * 2 ^ d \<longleftrightarrow> int (a div 2 ^ d) < H"
    "H * 2 ^ d < int a \<longleftrightarrow> H < int (a div 2 ^ d) \<or> H = int (a div 2 ^ d) \<and> a mod 2 ^ d \<noteq> 0"
proof -
  define q r where "q = int (a div 2 ^ d)" and "r = int (a mod 2 ^ d)"
  define p :: int where "p = 2 ^ d"
  have a: "int a = q * p + r" unfolding q_def r_def p_def
    using arg_cong [OF div_mult_mod_eq [of a "2 ^ d"], of int] by simp
  have "a mod 2 ^ d < 2 ^ d" by simp
  then have "int (a mod 2 ^ d) < int (2 ^ d)" by (simp only: of_nat_less_iff)
  then have r: "0 \<le> r" "r < p" unfolding r_def p_def by simp_all
  have lt: "x < y \<Longrightarrow> x * p + p \<le> y * p" for x y
    using mult_right_mono [of "x + 1" y p] r by (simp add: distrib_right)
  have "int a < H * p \<longleftrightarrow> q < H" using lt [of q H] lt [of H q] r unfolding a by (cases q H rule: linorder_cases) auto
  then show "int a < H * 2 ^ d \<longleftrightarrow> int (a div 2 ^ d) < H" by (simp add: p_def q_def)
  have "H * p < int a \<longleftrightarrow> H < q \<or> H = q \<and> r \<noteq> 0" using lt [of q H] lt [of H q] r unfolding a by (cases q H rule: linorder_cases) auto
  then show "H * 2 ^ d < int a \<longleftrightarrow> H < int (a div 2 ^ d) \<or> H = int (a div 2 ^ d) \<and> a mod 2 ^ d \<noteq> 0"
    by (simp add: p_def q_def r_def)
qed

lemma sticky_cmp:
  fixes q :: nat and h :: int
  shows "int q < 2 * h \<longleftrightarrow> int (q + (if b \<and> even q then 1 else 0)) < 2 * h"
    "2 * h < int q \<or> 2 * h = int q \<and> b \<longleftrightarrow> 2 * h < int (q + (if b \<and> even q then 1 else 0))"
proof -
  show "int q < 2 * h \<longleftrightarrow> int (q + (if b \<and> even q then 1 else 0)) < 2 * h" by (cases b; simp) presburger
  show "2 * h < int q \<or> 2 * h = int q \<and> b \<longleftrightarrow> 2 * h < int (q + (if b \<and> even q then 1 else 0))"
    by (cases b; simp) presburger
qed

lemma of_int_less_real: "real a < of_int k \<longleftrightarrow> int a < k" "of_int k < real a \<longleftrightarrow> k < int a"
  by linarith+

lemma agree_trans: "agree k x y \<Longrightarrow> agree k y z \<Longrightarrow> agree k x z"
  by (simp add: agree_def)

lemma agree_jam1: "agree 1 (real a / 2 ^ d) (real (jam a d))"
proof (rule agreeI)
  fix h :: int
  have "real a / 2 ^ d < of_int h * 2 ^ 1 \<longleftrightarrow> real a < of_int (2 * h * 2 ^ d)" by (simp add: field_simps)
  also have "\<dots> \<longleftrightarrow> int a < 2 * h * 2 ^ d" by (rule of_int_less_real)
  also have "\<dots> \<longleftrightarrow> int (jam a d) < 2 * h" unfolding div_cmp jam_eq by (rule sticky_cmp)
  also have "\<dots> \<longleftrightarrow> real (jam a d) < of_int (2 * h)" by (rule of_int_less_real [symmetric])
  finally show "real a / 2 ^ d < of_int h * 2 ^ 1 \<longleftrightarrow> real (jam a d) < of_int h * 2 ^ 1" by (simp add: mult.commute)
  have "of_int h * 2 ^ 1 < real a / 2 ^ d \<longleftrightarrow> of_int (2 * h * 2 ^ d) < real a" by (simp add: field_simps)
  also have "\<dots> \<longleftrightarrow> 2 * h * 2 ^ d < int a" by (rule of_int_less_real)
  also have "\<dots> \<longleftrightarrow> 2 * h < int (jam a d)" unfolding div_cmp jam_eq by (rule sticky_cmp)
  also have "\<dots> \<longleftrightarrow> of_int (2 * h) < real (jam a d)" by (rule of_int_less_real [symmetric])
  finally show "of_int h * 2 ^ 1 < real a / 2 ^ d \<longleftrightarrow> of_int h * 2 ^ 1 < real (jam a d)" by (simp add: mult.commute)
qed

lemma agree_jam:
  assumes "agree (k + d) y (real a)" "0 < k"
  shows "agree k (y / 2 ^ d) (real (jam a d))"
  using agree_trans [OF agree_divide [OF assms(1)] agree_mono [OF agree_jam1, of k]] assms(2) by simp

section \<open>Rounding as the library computes it\<close>

definition increment :: "u8 \<Rightarrow> bool \<Rightarrow> nat \<Rightarrow> nat" where
  "increment mode s k = (if mode = 0 \<or> mode = 4 then 2 ^ (k - 1) else if mode = (if s then 2 else 3) then 2 ^ k - 1 else 0)"

definition code_round :: "u8 \<Rightarrow> bool \<Rightarrow> nat \<Rightarrow> nat \<Rightarrow> nat" where
  "code_round mode s k a =
    (let t = (a + increment mode s k) div 2 ^ k
     in if a mod 2 ^ k = 2 ^ (k - 1) \<and> mode = 0 then 2 * (t div 2) else t)"

lemma round_int_code:
  assumes "0 < k"
  shows "round_int mode s (real a / 2 ^ k) = int (code_round mode s k a)"
proof -
  define q r P where "q = a div 2 ^ k" and "r = a mod 2 ^ k" and "P = (2 :: nat) ^ (k - 1)"
  have P: "2 ^ k = 2 * P" "0 < P" unfolding P_def using assms by (cases k; simp)+
  have r: "r < 2 * P" and a: "a = q * (2 * P) + r" unfolding q_def r_def P(1) [symmetric]
    by (simp, rule div_mult_mod_eq [symmetric])
  have P2: "(2 :: real) ^ k = real (2 * P)" using arg_cong [OF P(1), of real] by simp
  have "real a = real q * real (2 * P) + real r" by (simp add: a)
  then have y: "real a / 2 ^ k = real q + real r / real (2 * P)" unfolding P2 using P(2) by (simp add: add_divide_distrib)
  have fr: "0 \<le> real r / real (2 * P)" "real r / real (2 * P) < 1" using r P by simp_all
  have fl: "\<lfloor>real a / 2 ^ k\<rfloor> = int q" unfolding y using fr by linarith
  have ce: "\<lceil>real a / 2 ^ k\<rceil> = (if r = 0 then int q else int q + 1)"
  proof (cases "r = 0")
    case False
    then have "0 < real r / real (2 * P)" using P by simp
    then show ?thesis unfolding y using fr False by (simp, linarith)
  qed (simp add: y)
  have half: "\<lfloor>real a / 2 ^ k + 1 / 2\<rfloor> = (if r < P then int q else int q + 1)"
  proof -
    have "real r / real (2 * P) < 1 / 2 \<longleftrightarrow> r < P" using P by (simp add: field_simps)
    then show ?thesis unfolding y using fr by (cases "r < P"; simp; linarith)
  qed
  have d: "2 * (real a / 2 ^ k - of_int (int q)) < 1 \<longleftrightarrow> r < P" "2 * (real a / 2 ^ k - of_int (int q)) = 1 \<longleftrightarrow> r = P"
    unfolding y using P by (auto simp: field_simps)
  have up: "(a + 2 ^ (k - 1)) div 2 ^ k = (if r < P then q else q + 1)"
  proof -
    have "(q * (2 * P) + (r + P)) div (2 * P) = q + (r + P) div (2 * P)"
      by (rule div_mult_self3) (use P(2) in simp)
    moreover have "(r + P) div (2 * P) = (if r < P then 0 else 1)" using r by (auto intro!: div_nat_eqI)
    ultimately show ?thesis unfolding P(1) P_def [symmetric] a by (simp add: add.assoc)
  qed
  have ceil: "(a + (2 ^ k - 1)) div 2 ^ k = (if r = 0 then q else q + 1)"
  proof -
    have "(q * (2 * P) + (r + (2 * P - 1))) div (2 * P) = q + (r + (2 * P - 1)) div (2 * P)"
      by (rule div_mult_self3) (use P(2) in simp)
    moreover have "(r + (2 * P - 1)) div (2 * P) = (if r = 0 then 0 else 1)" using r P(2) by (auto intro!: div_nat_eqI)
    ultimately show ?thesis unfolding P(1) a by (simp add: add.assoc)
  qed
  have dn: "a div 2 ^ k = q" by (simp add: q_def)
  have md: "a mod 2 ^ k = r" "2 ^ (k - 1) = P" by (simp_all add: r_def P_def)
  consider "mode = 0" | "mode = 4" | "mode \<noteq> 0" "mode \<noteq> 4" "mode = (if s then 2 else 3)"
    | "mode \<noteq> 0" "mode \<noteq> 4" "mode \<noteq> (if s then 2 else 3)" by blast
  then show ?thesis
  proof cases
    case 1
    have "code_round mode s k a = (if r = P then 2 * ((q + 1) div 2) else if r < P then q else q + 1)"
      unfolding code_round_def increment_def Let_def md using 1 by (simp add: up [unfolded md])
    moreover have "round_int mode s (real a / 2 ^ k) = (if r < P \<or> r = P \<and> even q then int q else int q + 1)"
      unfolding round_int_def fl d using 1 by simp
    ultimately show ?thesis by (auto elim!: evenE oddE)
  next
    case 2
    then show ?thesis unfolding round_int_def code_round_def increment_def Let_def half md by (simp add: up [unfolded md])
  next
    case 3
    then have "increment mode s k = 2 ^ k - 1" by (simp add: increment_def)
    then have "code_round mode s k a = (if r = 0 then q else q + 1)" unfolding code_round_def Let_def using 3(1) by (simp only: ceil simp_thms if_False)
    moreover have "round_int mode s (real a / 2 ^ k) = (if r = 0 then int q else int q + 1)"
      unfolding round_int_def ce using 3 by (simp only: simp_thms if_False if_True refl)
    ultimately show ?thesis by simp
  next
    case 4
    then have "increment mode s k = 0" by (simp add: increment_def)
    moreover have "round_int mode s (real a / 2 ^ k) = int q" unfolding round_int_def fl using 4 by (simp only: simp_thms if_False)
    ultimately show ?thesis using 4 by (simp add: code_round_def dn)
  qed
qed

section \<open>Numbers of the format\<close>

text \<open>The pattern of \<open>m\<close> units of \<open>2 ^ q\<close>.\<close>

lemma fmag_pack:
  assumes "m \<le> 2 ^ 24" "2 ^ 23 \<le> m \<or> q = 0"
  shows "fmag (q * 2 ^ 23 + m) = int m * 2 ^ q"
proof -
  consider "m < 2 ^ 23" "q = 0" | n where "m = 2 ^ 23 + n" "n < 2 ^ 23" | "m = 2 ^ 24"
  proof (cases "m < 2 ^ 23 \<or> m = 2 ^ 24")
    case False
    then have "m < 2 ^ 24" "2 ^ 23 \<le> m" using assms(1) by auto
    moreover from this obtain n where "m = 2 ^ 23 + n" using le_Suc_ex by blast
    ultimately show thesis by (intro that(2) [of n]) simp_all
  qed (use assms that in auto)
  then show ?thesis
  proof cases
    case 1
    then show ?thesis by (simp add: fmag_def)
  next
    case 2
    have "q * 2 ^ 23 + m = Suc q * 2 ^ 23 + n" using 2 by simp
    then have "(q * 2 ^ 23 + m) div 2 ^ 23 = Suc q" "(q * 2 ^ 23 + m) mod 2 ^ 23 = n" using 2 by simp_all
    then show ?thesis using 2 unfolding fmag_def by simp
  next
    case 3
    have "q * 2 ^ 23 + m = Suc (Suc q) * 2 ^ 23" using 3 by simp
    then show ?thesis using 3 unfolding fmag_def by simp
  qed
qed

lemma floor_log_eq:
  assumes "2 powi e \<le> x" "x < 2 powi (e + 1)"
  shows "\<lfloor>log 2 x\<rfloor> = e"
proof -
  have "0 < x" using assms(1) by (smt (verit) zero_less_power_int)
  moreover have "2 powr of_int e \<le> x" "x < 2 powr (of_int e + 1)"
    using assms powr_real_of_int' [of 2 e] powr_real_of_int' [of 2 "e + 1"] by (simp_all add: add.commute)
  ultimately show ?thesis using floor_log_eq_powr_iff [of x 2 e] by simp
qed

lemma last_place_eq: "2 powi (e + 23) \<le> x \<Longrightarrow> x < 2 powi (e + 24) \<Longrightarrow> last_place x = e"
  using floor_log_eq [of "e + 23" x] by (simp add: last_place_def add.assoc)

text \<open>A number of the format is its own rounding.\<close>

lemma round_int_of_int [simp]: "round_int mode s (of_int n) = n"
  by (simp add: round_int_def)

lemma code_round_bounds:
  assumes "a < 2 ^ 31"
  shows "code_round mode s 7 a \<le> 2 ^ 24" "2 ^ 31 \<le> a + increment mode s 7 \<longleftrightarrow> code_round mode s 7 a = 2 ^ 24"
    "2 ^ 30 \<le> a \<Longrightarrow> 2 ^ 23 \<le> code_round mode s 7 a" "a < 2 ^ 30 \<Longrightarrow> code_round mode s 7 a \<le> 2 ^ 23"
proof -
  define t where "t = (a + increment mode s 7) div 2 ^ 7"
  have i: "increment mode s 7 \<le> 2 ^ 7 - 1" by (simp add: increment_def)
  have c: "code_round mode s 7 a = t \<or> code_round mode s 7 a = 2 * (t div 2)" by (simp add: code_round_def t_def Let_def)
  have t: "t \<le> 2 ^ 24" "2 ^ 31 \<le> a + increment mode s 7 \<longleftrightarrow> t = 2 ^ 24" "2 ^ 30 \<le> a \<Longrightarrow> 2 ^ 23 \<le> t" "a < 2 ^ 30 \<Longrightarrow> t \<le> 2 ^ 23"
  proof -
    have "t * 128 + (a + increment mode s 7) mod 128 = a + increment mode s 7" "(a + increment mode s 7) mod 128 < 128"
      unfolding t_def by (simp_all add: div_mult_mod_eq)
    then have b: "t * 128 \<le> a + increment mode s 7" "a + increment mode s 7 < t * 128 + 128" "increment mode s 7 \<le> 127"
      using i by (linarith, linarith, simp)
    show "t \<le> 2 ^ 24" "2 ^ 31 \<le> a + increment mode s 7 \<longleftrightarrow> t = 2 ^ 24" "2 ^ 30 \<le> a \<Longrightarrow> 2 ^ 23 \<le> t" "a < 2 ^ 30 \<Longrightarrow> t \<le> 2 ^ 23"
      using assms b by (simp_all, linarith+)
  qed
  show "code_round mode s 7 a \<le> 2 ^ 24" using c t(1) by linarith
  show "2 ^ 31 \<le> a + increment mode s 7 \<longleftrightarrow> code_round mode s 7 a = 2 ^ 24" using c t(1) unfolding t(2) by auto
  show "2 ^ 30 \<le> a \<Longrightarrow> 2 ^ 23 \<le> code_round mode s 7 a" using c t(3) by auto
  show "a < 2 ^ 30 \<Longrightarrow> code_round mode s 7 a \<le> 2 ^ 23" using c t(4) by auto
qed

lemma last_place_small: "0 < x \<Longrightarrow> x < 2 ^ 24 \<Longrightarrow> nat (last_place x) = 0"
proof -
  assume "0 < x" "x < 2 ^ 24"
  then have "log 2 x < log 2 (2 ^ 24)" by (subst log_less_cancel_iff) simp_all
  also have "log 2 (2 ^ 24) = 24" by (subst log_nat_power) simp_all
  finally show ?thesis by (simp add: last_place_def floor_le_iff)
qed

lemma fmag_unpack: "\<exists>m q. fmag p = int m * 2 ^ q \<and> m < 2 ^ 24 \<and> (2 ^ 23 \<le> m \<or> q = 0)"
proof (cases "p div 2 ^ 23 = 0")
  case True
  then show ?thesis by (intro exI [of _ "p mod 2 ^ 23"] exI [of _ 0]) (simp add: fmag_def)
next
  case False
  then show ?thesis by (intro exI [of _ "2 ^ 23 + p mod 2 ^ 23"] exI [of _ "p div 2 ^ 23 - 1"]) (simp add: fmag_def)
qed

lemma rounded_fmag: "0 < p \<Longrightarrow> rounded mode s (of_int (fmag p)) = fmag p"
proof -
  assume "0 < p"
  obtain m q where f: "fmag p = int m * 2 ^ q" and m: "m < 2 ^ 24" and n: "2 ^ 23 \<le> m \<or> q = 0" using fmag_unpack [of p] by auto
  have pos: "0 < m" using \<open>0 < p\<close> fmag_pos(2) [of p] unfolding f by (simp add: zero_less_mult_iff)
  have "nat (last_place (real m * 2 ^ q)) = q"
  proof (cases "2 ^ 23 \<le> m")
    case True
    have "2 ^ 23 \<le> real m" "real m < 2 ^ 24" using True m by simp_all
    then have "2 ^ 23 * 2 ^ q \<le> real m * 2 ^ q" "real m * 2 ^ q < 2 ^ 24 * 2 ^ q" by simp_all
    then have "last_place (real m * 2 ^ q) = int q"
      by (intro last_place_eq) (simp_all add: power_int_add mult.commute)
    then show ?thesis by simp
  next
    case False
    then show ?thesis using n m pos last_place_small [of "real m"] by simp
  qed
  then show ?thesis using round_int_of_int [of mode s "int m"] by (simp add: rounded_def f)
qed

lemma fmag_max: "p < 0x7F800000 \<Longrightarrow> fmag p < 2 ^ 277"
proof -
  have "fmag 0x7F800000 = 2 ^ 277" by (simp add: fmag_def)
  then show "p < 0x7F800000 \<Longrightarrow> fmag p < 2 ^ 277" using fmag_less [of p "0x7F800000"] by simp
qed

lemma fexp_finite: "fexp z < 255 \<longleftrightarrow> mag z < 0x7F800000"
  by (simp add: fexp_def div_less_iff_less_mult)

lemma rounds_exact:
  assumes "bit z 31 = s" "fexp z < 255" "x = of_int (fmag (mag z))" "0 < mag z"
  shows "rounds_to mode s x (z, 0)"
  using rounded_fmag [OF assms(4), of mode s] fmag_max [of "mag z"] assms by (simp add: rounds_to_def fexp_finite)

end
