(* ===== verification/Softfloat_Correct.thy ===== *)
theory Softfloat_Correct
  imports Float_Round Softfloat
begin

unbundle bit_operations_syntax

text \<open>
  The single-precision arithmetic of the library rounds the exact result, in every rounding mode and
  with the flags of the IEEE standard.
\<close>

section \<open>Primitives on numbers\<close>

lemma unat_push_mod: "unat (shl w n) = unat w * 2 ^ n mod 2 ^ LENGTH('a)" for w :: "'a::len word"
  by (subst unsigned_push_bit_eq) (simp only: take_bit_eq_mod push_bit_eq_mult)

lemma unat_push: "unat w * 2 ^ n < 2 ^ LENGTH('a) \<Longrightarrow> unat (shl w n) = unat w * 2 ^ n" for w :: "'a::len word"
  by (simp only: unat_push_mod mod_less)

lemma unat_drop: "unat (shr w n) = unat w div 2 ^ n" for w :: "'a::len word"
  by (subst unat_drop_bit_eq) (rule drop_bit_eq_div)

lemma unat_take: "unat (w AND mask n) = unat w mod 2 ^ n" for w :: "'a::len word"
  by (subst take_bit_eq_mask [symmetric], subst unsigned_take_bit_eq) (rule take_bit_eq_mod)

lemma unat_plus: "unat a + unat b < 2 ^ LENGTH('a) \<Longrightarrow> unat (a + b) = unat a + unat b" for a b :: "'a::len word"
  by (simp add: unat_word_ariths)

lemma unat_minus: "unat b \<le> unat a \<Longrightarrow> unat (a - b) = unat a - unat b" for a b :: "'a::len word"
  by (simp add: unat_sub word_le_nat_alt)

lemma unat_times: "unat a * unat b < 2 ^ LENGTH('a) \<Longrightarrow> unat (a * b) = unat a * unat b" for a b :: "'a::len word"
  by (simp add: unat_word_ariths)

lemma unat_narrow: "unat w < 2 ^ LENGTH('b) \<Longrightarrow> unat (ucast w :: 'b::len word) = unat w" for w :: "'a::len word"
  by (subst unsigned_ucast_eq) (simp only: take_bit_eq_mod mod_less)

lemma unat_64 [simp]: "unat (ucast w :: u64) = unat w" for w :: u32
proof -
  have "unat w < 2 ^ LENGTH(32)" by (rule unsigned_less)
  then show ?thesis by (intro unat_narrow) simp
qed

lemma low_bits_shl: "d < LENGTH('a) \<Longrightarrow> shl w (LENGTH('a) - d) = 0 \<longleftrightarrow> unat w mod 2 ^ d = 0" for w :: "'a::len word"
proof -
  assume d: "d < LENGTH('a)"
  have "shl w (LENGTH('a) - d) = 0 \<longleftrightarrow> unat w * 2 ^ (LENGTH('a) - d) mod 2 ^ LENGTH('a) = 0"
    by (simp only: unat_push_mod flip: unat_eq_0)
  also have "(2 :: nat) ^ LENGTH('a) = 2 ^ d * 2 ^ (LENGTH('a) - d)" using d by (simp flip: power_add)
  finally show ?thesis by (simp flip: mult_mod_left)
qed

lemma unat_or_bit: "unat (w OR (if b then 1 else 0)) = unat w OR (if b then 1 else 0)" for w :: "'a::len word"
  by (simp add: unsigned_or_eq)

lemma jam_large: "a < 2 ^ d \<Longrightarrow> jam a d = (if a \<noteq> 0 then 1 else 0)"
  by (simp add: jam_eq)

lemma shiftRightJam32_ok:
  assumes "0 < d" "unat a < 2 ^ 31"
  shows "unat (softfloat_shiftRightJam32 a d) = jam (unat a) d"
proof (cases "d < 31")
  case True
  then have "(32 - d) mod 32 = LENGTH(32) - d" using assms(1) by simp
  then have "shl a ((32 - d) mod 32) = 0 \<longleftrightarrow> unat a mod 2 ^ d = 0" using low_bits_shl [of d a] True by (simp only:) simp
  then show ?thesis using True by (simp add: softfloat_shiftRightJam32_def jam_def unat_or_bit unat_drop)
next
  case False
  then have "unat a < 2 ^ d" using assms(2) power_increasing [of 31 d "2 :: nat"] by simp
  then show ?thesis using False by (simp add: softfloat_shiftRightJam32_def jam_large unat_eq_0)
qed

lemma shiftRightJam64_ok:
  assumes "0 < d" "unat a < 2 ^ 63"
  shows "unat (softfloat_shiftRightJam64 a d) = jam (unat a) d"
proof (cases "d < 63")
  case True
  then have "(64 - d) mod 64 = LENGTH(64) - d" using assms(1) by simp
  then have "shl a ((64 - d) mod 64) = 0 \<longleftrightarrow> unat a mod 2 ^ d = 0" using low_bits_shl [of d a] True by (simp only:) simp
  then show ?thesis using True by (simp add: softfloat_shiftRightJam64_def jam_def unat_or_bit unat_drop)
next
  case False
  then have "unat a < 2 ^ d" using assms(2) power_increasing [of 63 d "2 :: nat"] by simp
  then show ?thesis using False by (simp add: softfloat_shiftRightJam64_def jam_large unat_eq_0)
qed

lemma shortShiftRightJam64_ok: "unat (softfloat_shortShiftRightJam64 a d) = jam (unat a) d"
proof -
  have "shl 1 d - 1 = (mask d :: u64)" by (simp add: mask_eq_exp_minus_1)
  then have "a AND (shl 1 d - 1) = 0 \<longleftrightarrow> unat a mod 2 ^ d = 0" by (simp only: unat_take flip: unat_eq_0)
  then show ?thesis by (simp add: softfloat_shortShiftRightJam64_def jam_def unat_or_bit unat_drop)
qed

text \<open>Counting leading zeros: shifting by the count puts the leading one into the top bit.\<close>

lemma clz8_ok: "0 < i \<Longrightarrow> i < 256 \<Longrightarrow> 2 ^ 7 \<le> i * 2 ^ (softfloat_countLeadingZeros8 ! i) \<and> (i + 1) * 2 ^ (softfloat_countLeadingZeros8 ! i) \<le> 2 ^ 8"
proof -
  assume i: "0 < i" "i < 256"
  then consider "i < 2" | "2 \<le> i" "i < 4" | "4 \<le> i" "i < 8" | "8 \<le> i" "i < 16" | "16 \<le> i" "i < 32"
    | "32 \<le> i" "i < 64" | "64 \<le> i" "i < 128" | "128 \<le> i" by linarith
  then have "\<exists>n \<le> 7. softfloat_countLeadingZeros8 ! i = n \<and> 2 ^ (7 - n) \<le> i \<and> i + 1 \<le> 2 ^ (8 - n)"
  proof cases
    case 1
    then show ?thesis using i by (intro exI [of _ 7]) (simp add: softfloat_countLeadingZeros8_def nth_Cons')
  next
    case 2
    then show ?thesis by (intro exI [of _ 6]) (simp add: softfloat_countLeadingZeros8_def nth_append; linarith?)
  next
    case 3
    then show ?thesis by (intro exI [of _ 5]) (simp add: softfloat_countLeadingZeros8_def nth_append; linarith?)
  next
    case 4
    then show ?thesis by (intro exI [of _ 4]) (simp add: softfloat_countLeadingZeros8_def nth_append; linarith?)
  next
    case 5
    then show ?thesis by (intro exI [of _ 3]) (simp add: softfloat_countLeadingZeros8_def nth_append; linarith?)
  next
    case 6
    then show ?thesis by (intro exI [of _ 2]) (simp add: softfloat_countLeadingZeros8_def nth_append; linarith?)
  next
    case 7
    then show ?thesis by (intro exI [of _ 1]) (simp add: softfloat_countLeadingZeros8_def nth_append; linarith?)
  next
    case 8
    define xs :: "nat list" where "xs = [8, 7] @ replicate 2 6 @ replicate 4 5 @ replicate 8 4 @ replicate 16 3 @ replicate 32 2 @ replicate 64 1"
    have "length xs = 128" by (simp add: xs_def)
    moreover have t: "softfloat_countLeadingZeros8 = xs @ replicate 128 0" by (simp only: softfloat_countLeadingZeros8_def xs_def append_assoc)
    ultimately have "softfloat_countLeadingZeros8 ! i = 0" unfolding t nth_append using 8 i by simp
    then show ?thesis using 8 i by simp
  qed
  then obtain n where n: "softfloat_countLeadingZeros8 ! i = n" "n \<le> 7" "2 ^ (7 - n) \<le> i" "i + 1 \<le> 2 ^ (8 - n)" by blast
  have "(2 :: nat) ^ 7 = 2 ^ (7 - n) * 2 ^ n" "(2 :: nat) ^ 8 = 2 ^ (8 - n) * 2 ^ n" using n(2) by (simp_all flip: power_add)
  then show ?thesis using mult_le_mono1 [OF n(3), of "2 ^ n"] mult_le_mono1 [OF n(4), of "2 ^ n"] by (simp only: n(1) simp_thms)
qed

text \<open>A step of the search: the operand is moved up by \<open>k\<close> bits if it is small.\<close>

lemma clz_step:
  fixes w :: u32
  assumes "unat L * 2 ^ k \<le> 2 ^ 32" "v = (if w < L then shl w k else w)" "n = (if w < L then k else 0)" "m \<le> unat w"
  shows "unat v = unat w * 2 ^ n" "min (m * 2 ^ k) (unat L) \<le> unat v"
proof -
  have "unat (shl w k) = unat w * 2 ^ k" if "w < L"
  proof (rule unat_push)
    have "unat w * 2 ^ k < unat L * 2 ^ k" using that by (simp add: word_less_nat_alt)
    also have "\<dots> \<le> 2 ^ LENGTH(32)" using assms(1) by simp
    finally show "unat w * 2 ^ k < 2 ^ LENGTH(32)" .
  qed
  then show "unat v = unat w * 2 ^ n" using assms(2,3) by simp
  then show "min (m * 2 ^ k) (unat L) \<le> unat v"
    using assms(2-4) by (cases "w < L") (auto simp: word_less_nat_alt min_le_iff_disj)
qed

lemma clz_tail:
  fixes w :: u32
  assumes "w \<noteq> 0" "v = (if w < 0x10000 then shl w 16 else w)" "u = (if v < 0x1000000 then shl v 8 else v)"
    "n = (if w < 0x10000 then 16 else 0) + (if v < 0x1000000 then 8 else 0) + softfloat_countLeadingZeros8 ! unat (shr u 24)"
  shows "2 ^ 31 \<le> unat w * 2 ^ n" "unat w * 2 ^ n < 2 ^ 32"
proof -
  have "1 \<le> unat w" using assms(1) by (simp add: Suc_le_eq unat_gt_0)
  note v = clz_step [OF _ assms(2) refl this, simplified]
  have "2 ^ 16 \<le> unat v" using v(2) by simp
  note u = clz_step [OF _ assms(3) refl this, simplified]
  define i where "i = unat u div 2 ^ 24"
  have u2: "2 ^ 24 \<le> unat u" "unat u < 2 ^ 32" using u(2) unsigned_less [of u, where 'a = nat] by simp_all
  then have i: "0 < i" "i < 256" unfolding i_def by (simp_all add: div_greater_zero_iff less_mult_imp_div_less)
  define c where "c = softfloat_countLeadingZeros8 ! i"
  have c: "2 ^ 7 \<le> i * 2 ^ c" "(i + 1) * 2 ^ c \<le> 2 ^ 8" using clz8_ok [OF i] by (simp_all add: c_def)
  have "unat w * 2 ^ n = unat u * 2 ^ c" unfolding u(1) v(1) assms(4) unat_drop i_def c_def by (simp add: power_add)
  moreover have "i * 2 ^ 24 \<le> unat u" "unat u < (i + 1) * 2 ^ 24"
    unfolding i_def by (rule div_bounds)+
  then have "i * 2 ^ c * 2 ^ 24 \<le> unat u * 2 ^ c" "unat u * 2 ^ c < (i + 1) * 2 ^ c * 2 ^ 24"
    unfolding pow2_swap [of _ c 24] by simp_all
  moreover have "2 ^ 31 \<le> i * 2 ^ c * 2 ^ 24" "(i + 1) * 2 ^ c * 2 ^ 24 \<le> 2 ^ 32"
    using mult_le_mono1 [OF c(1), of "2 ^ 24"] mult_le_mono1 [OF c(2), of "2 ^ 24"] by simp_all
  ultimately show "2 ^ 31 \<le> unat w * 2 ^ n" "unat w * 2 ^ n < 2 ^ 32" by linarith+
qed

lemma clz32_ok:
  assumes "a \<noteq> 0" "n = softfloat_countLeadingZeros32 a"
  shows "2 ^ 31 \<le> unat a * 2 ^ n" "unat a * 2 ^ n < 2 ^ 32"
proof -
  define v u where "v = (if a < 0x10000 then shl a 16 else a)" and "u = (if v < 0x1000000 then shl v 8 else v)"
  have "n = (if a < 0x10000 then 16 else 0) + (if v < 0x1000000 then 8 else 0) + softfloat_countLeadingZeros8 ! unat (shr u 24)"
    unfolding assms(2) softfloat_countLeadingZeros32_def u_def v_def by (simp add: Let_def)
  from clz_tail [OF assms(1) v_def u_def this] show "2 ^ 31 \<le> unat a * 2 ^ n" "unat a * 2 ^ n < 2 ^ 32" .
qed

lemma clz64_ok:
  assumes "a \<noteq> 0" "n = softfloat_countLeadingZeros64 a"
  shows "2 ^ 63 \<le> unat a * 2 ^ n" "unat a * 2 ^ n < 2 ^ 64"
proof -
  define h l :: u32 where "h = ucast (shr a 32)" and "l = ucast a"
  define w where "w = (if h = 0 then l else h)"
  define v u where "v = (if w < 0x10000 then shl w 16 else w)" and "u = (if v < 0x1000000 then shl v 8 else v)"
  define m where "m = (if w < 0x10000 then 16 else 0) + (if v < 0x1000000 then 8 else 0) + softfloat_countLeadingZeros8 ! unat (shr u 24)"
  have lt: "unat a < 2 ^ 64" using unsigned_less [of a, where 'a = nat] by simp
  have h: "unat h = unat a div 2 ^ 32" unfolding h_def unat_drop [symmetric] by (rule unat_narrow) (use lt in \<open>simp add: unat_drop less_mult_imp_div_less\<close>)
  have l: "unat l = unat a" if "h = 0" unfolding l_def by (rule unat_narrow) (use that h lt in \<open>simp add: unat_eq_0 [symmetric] div_eq_0_iff del: unat_eq_0\<close>)
  have n: "n = (if h = 0 then 32 else 0) + m"
    unfolding assms(2) softfloat_countLeadingZeros64_def m_def u_def v_def w_def h_def l_def by (simp add: Let_def)
  have "w \<noteq> 0" using l assms(1) by (auto simp: w_def unat_eq_0 [symmetric])
  from clz_tail [OF this v_def u_def m_def] have w: "2 ^ 31 \<le> unat w * 2 ^ m" "unat w * 2 ^ m < 2 ^ 32" .
  have "2 ^ 63 \<le> unat a * 2 ^ n \<and> unat a * 2 ^ n < 2 ^ 64"
  proof (cases "h = 0")
    case True
    then have "unat a * 2 ^ n = unat w * 2 ^ m * 2 ^ 32" using l by (simp add: n w_def power_add)
    then show ?thesis using w by simp
  next
    case False
    have "unat w * 2 ^ 32 \<le> unat a" "unat a < (unat w + 1) * 2 ^ 32"
      using False h div_bounds [of "unat a" 32] by (simp_all add: w_def)
    then have "unat w * 2 ^ m * 2 ^ 32 \<le> unat a * 2 ^ m" "unat a * 2 ^ m < (unat w + 1) * 2 ^ m * 2 ^ 32"
      unfolding pow2_swap [of _ m 32] by simp_all
    moreover have "(unat w + 1) * 2 ^ m \<le> 2 ^ 32" using w(2) \<open>w \<noteq> 0\<close> by (intro pow2_room) (simp_all add: unat_gt_0)
    then have "(unat w + 1) * 2 ^ m * 2 ^ 32 \<le> 2 ^ 64" using mult_le_mono1 [of "(unat w + 1) * 2 ^ m" "2 ^ 32" "2 ^ 32"] by simp
    moreover have "2 ^ 63 \<le> unat w * 2 ^ m * 2 ^ 32" using mult_le_mono1 [OF w(1), of "2 ^ 32"] by simp
    moreover have "n = m" using False by (simp add: n)
    ultimately show ?thesis by (simp only: \<open>n = m\<close>) linarith
  qed
  then show "2 ^ 63 \<le> unat a * 2 ^ n" "unat a * 2 ^ n < 2 ^ 64" by simp_all
qed

section \<open>Fields\<close>

lemma frac_ok: "unat (fracF32UI f) = ffrac f"
proof -
  have "unat (f AND 0x007FFFFF) = ffrac f" unfolding ffrac_eq by (simp add: take_bit_eq_mask mask_eq_exp_minus_1)
  then show ?thesis by (simp add: fracF32UI_def)
qed

lemma exp_ok: "expF32UI f = int (fexp f)"
  unfolding expF32UI_def fexp_eq by (simp add: take_bit_eq_mask mask_eq_exp_minus_1)

lemma field_bounds: "ffrac f < 2 ^ 23" "fexp f < 256" "mag f = fexp f * 2 ^ 23 + ffrac f" "mag f < 2 ^ 31"
proof -
  have "mag f div 2 ^ 23 < 256" unfolding mag_def by (rule less_mult_imp_div_less) simp
  then show "fexp f < 256" by (simp add: fexp_def)
  show "mag f = fexp f * 2 ^ 23 + ffrac f" unfolding fexp_def ffrac_def by (rule div_mult_mod_eq [symmetric])
qed (simp_all add: ffrac_def mag_def)

lemma sign_eq: "bit f 31 \<longleftrightarrow> 2 ^ 31 \<le> unat f" for f :: u32
  using unat_mag [of f] field_bounds(4) [of f] by (auto split: if_splits)

lemma pack_ok:
  assumes "0 \<le> e" "nat e * 2 ^ 23 + unat g < 2 ^ 31"
  shows "mag (packToF32UI s e g) = nat e * 2 ^ 23 + unat g" "bit (packToF32UI s e g) 31 = s"
proof -
  have e: "nat e < 256" using assms(2) by simp
  have we: "unat (word_of_int e :: u32) = nat e" using e assms(1) by (simp add: unsigned_of_int take_bit_int_eq_self nat_less_iff)
  have 1: "unat (shl (word_of_int e) 23 :: u32) = nat e * 2 ^ 23" using unat_push [of "word_of_int e :: u32" 23] e by (simp add: we)
  have 2: "unat (shl (if s then 1 else 0) 31 :: u32) = (if s then 2 ^ 31 else 0)" by simp
  have 3: "unat (ucast g :: u32) = unat g" using assms(2) by (intro unat_narrow) simp
  have 4: "unat (shl (if s then 1 else 0) 31 + shl (word_of_int e) 23 :: u32) = (if s then 2 ^ 31 else 0) + nat e * 2 ^ 23"
    using e by (subst unat_plus) (simp_all only: 1 2, simp)
  have u: "unat (packToF32UI s e g) = (if s then 2 ^ 31 else 0) + nat e * 2 ^ 23 + unat g"
    unfolding packToF32UI_def using assms(2) by (subst unat_plus) (simp_all only: 3 4, simp)
  show "mag (packToF32UI s e g) = nat e * 2 ^ 23 + unat g" unfolding mag_def u using assms(2) by (simp add: add.assoc)
  show "bit (packToF32UI s e g) 31 = s" unfolding sign_eq u using assms(2) by simp
qed

section \<open>Rounding and packing\<close>

lemma and_not_1: "unat (w AND NOT 1) = 2 * (unat w div 2)" for w :: u64
proof -
  have w: "w AND NOT 1 = shl (shr w 1) 1" by (rule bit_word_eqI) (auto simp: bit_simps)
  have "unat w div 2 * 2 \<le> unat w" "unat w < 2 ^ LENGTH(64)" by (simp, rule unsigned_less)
  then show ?thesis using unat_push [of "shr w 1" 1] unat_drop [of 1 w] unfolding w by simp
qed

lemma xor_zero: "a XOR b = 0 \<longleftrightarrow> a = b" for a b :: "'a::len word"
  by (auto simp: bit_eq_iff bit_simps)

lemma unat_8_64: "unat (ucast w :: u64) = unat w" for w :: u8
proof -
  have "unat w < 2 ^ LENGTH(8)" by (rule unsigned_less)
  then show ?thesis by (intro unat_narrow) simp
qed

lemma low7: "unat (ucast (g AND 0x7F) :: u8) = unat g mod 2 ^ 7" for g :: u64
proof -
  have "unat (g AND mask 7) = unat g mod 2 ^ 7" by (rule unat_take)
  then have "unat (g AND 0x7F) = unat g mod 2 ^ 7" by (simp add: mask_eq_exp_minus_1)
  then show ?thesis by (subst unat_narrow) (simp_all add: less_trans [OF mod_less_divisor])
qed

lemma tail_ok:
  assumes "unat g < 2 ^ 32" "mode \<noteq> 6"
  shows "roundPack_tail mode s e g (of_nat (increment mode s 7)) (ucast (g AND 0x7F)) fl =
    (packToF32UI s (if code_round mode s 7 (unat g) = 0 then 0 else e) (of_nat (code_round mode s 7 (unat g))),
     if unat g mod 2 ^ 7 = 0 then fl else fl OR 1)"
proof -
  define inc t where "inc = increment mode s 7" and "t = shr (g + ucast (of_nat inc :: u8)) 7"
  define rb :: u8 where "rb = ucast (g AND 0x7F)"
  have inc: "inc \<le> 127" by (simp add: inc_def increment_def)
  have "unat (ucast (of_nat inc :: u8) :: u64) = inc" using inc by (simp add: unat_8_64 unat_of_nat)
  then have t: "unat t = (unat g + inc) div 2 ^ 7" unfolding t_def unat_drop using inc assms(1) by (subst unat_plus) simp_all
  have u_rb: "unat rb = unat g mod 2 ^ 7" unfolding rb_def by (rule low7)
  have rb: "rb = 0 \<longleftrightarrow> unat g mod 2 ^ 7 = 0" unfolding u_rb [symmetric] by (simp add: unat_eq_0)
  have rb': "rb XOR 0x40 = 0 \<longleftrightarrow> unat g mod 2 ^ 7 = 2 ^ (7 - 1)" unfolding xor_zero u_rb [symmetric] by (simp add: word_unat_eq_iff)
  define u where "u = t AND NOT (if rb XOR 0x40 = 0 \<and> mode = 0 then 1 else 0)"
  have u_u: "unat u = code_round mode s 7 (unat g)"
    unfolding u_def code_round_def Let_def inc_def [symmetric] t [symmetric] rb' using and_not_1 [of t] by simp
  have u: "u = of_nat (code_round mode s 7 (unat g))" "u = 0 \<longleftrightarrow> code_round mode s 7 (unat g) = 0"
    unfolding u_u [symmetric] by (simp_all add: unat_eq_0)
  have "roundPack_tail mode s e g (of_nat inc) rb fl = (packToF32UI s (if u = 0 then 0 else e) u, if rb = 0 then fl else fl OR 1)"
    unfolding roundPack_tail_def Let_def t_def [symmetric] u_def using assms(2) by simp
  then show ?thesis unfolding u(2) rb by (simp only: u(1) inc_def rb_def)
qed

text \<open>
  The significand \<open>a\<close>, with the leading one in bit 30, stands for the number \<open>x\<close> at the exponent \<open>e\<close>: it may
  differ from the exact significand \<open>y\<close> below the place of half a unit, where it has a sticky bit.
\<close>

definition stands_for :: "nat \<Rightarrow> int \<Rightarrow> real \<Rightarrow> bool" where
  "stands_for a e x \<longleftrightarrow> (\<exists>y. 2 ^ 30 \<le> y \<and> y < 2 ^ 31 \<and> agree 6 y (real a) \<and> x = y * 2 powi (e - 7))"

lemma stands_bounds: "stands_for a e x \<Longrightarrow> 2 ^ 30 \<le> a" "stands_for a e x \<Longrightarrow> a < 2 ^ 31"
proof -
  assume "stands_for a e x"
  then obtain y where y: "2 ^ 30 \<le> y" "y < 2 ^ 31" "agree 6 y (real a)" by (auto simp: stands_for_def)
  have "2 ^ 30 \<le> real a" using agree_bounds(1) [OF y(3), of "2 ^ 24"] y(1) by simp
  then show "2 ^ 30 \<le> a" by simp
  have "real a < 2 ^ 31" using agree_bounds(2) [OF y(3), of "2 ^ 25"] y(2) by simp
  then show "a < 2 ^ 31" by simp
qed

lemma powi_shift: "2 powi (e + int n) = 2 ^ n * (2 powi e :: real)" "2 powi (e - int n) = (2 powi e :: real) / 2 ^ n"
  by (simp_all add: power_int_add power_int_diff)

lemma stands_place: "stands_for a e x \<Longrightarrow> last_place x = e"
proof -
  assume "stands_for a e x"
  then obtain y where y: "2 ^ 30 \<le> y" "y < 2 ^ 31" "x = y * 2 powi (e - 7)" by (auto simp: stands_for_def)
  have p: "2 powi (e + 23) = 2 ^ 30 * (2 powi (e - 7) :: real)" "2 powi (e + 24) = 2 ^ 31 * (2 powi (e - 7) :: real)"
    using powi_shift(1) [of "e - 7" 30] powi_shift(1) [of "e - 7" 31] by (simp_all add: add.commute)
  show ?thesis using y(1,2) by (intro last_place_eq) (simp_all only: p y(3), simp_all)
qed

lemma sticky_round_at:
  assumes "agree k z (real b)"
  shows "round_int mode s (z / 2 ^ Suc k) = int (code_round mode s (Suc k) b)"
    "real (code_round mode s (Suc k) b) = z / 2 ^ Suc k \<longleftrightarrow> b mod 2 ^ Suc k = 0"
proof -
  let ?m = "code_round mode s (Suc k) b"
  have "agree 0 (2 * (z / 2 ^ Suc k)) (2 * (real b / 2 ^ Suc k))" using agree_divide [of 0 k z "real b"] assms by simp
  then have "round_int mode s (z / 2 ^ Suc k) = round_int mode s (real b / 2 ^ Suc k)" by (rule round_int_agree)
  then show "round_int mode s (z / 2 ^ Suc k) = int ?m" using round_int_code [of "Suc k" mode s b] by simp
  have "real ?m = z / 2 ^ Suc k \<longleftrightarrow> z = of_int (2 * int ?m) * 2 ^ k" by (auto simp: field_simps)
  also have "\<dots> \<longleftrightarrow> real b = of_int (2 * int ?m) * 2 ^ k" by (rule agree_bounds(3) [OF assms])
  also have "\<dots> \<longleftrightarrow> real b = real (?m * 2 ^ Suc k)" by (simp add: mult_ac)
  also have "\<dots> \<longleftrightarrow> b = ?m * 2 ^ Suc k" by (rule of_nat_eq_iff)
  also have "\<dots> \<longleftrightarrow> b mod 2 ^ Suc k = 0"
  proof
    assume "b mod 2 ^ Suc k = 0"
    then have "2 ^ Suc k dvd b" by (rule mod_0_imp_dvd)
    then obtain n where "b = 2 ^ Suc k * n" by (rule dvdE)
    then have n: "b = n * 2 ^ Suc k" by simp
    then have "real b / 2 ^ Suc k = of_int (int n)" by simp
    then have "int ?m = int n" using round_int_code [of "Suc k" mode s b] round_int_of_int [of mode s "int n"] by simp
    then show "b = ?m * 2 ^ Suc k" using n by simp
  qed (metis mod_mult_self2_is_0)
  finally show "real ?m = z / 2 ^ Suc k \<longleftrightarrow> b mod 2 ^ Suc k = 0" .
qed

lemma sticky_round:
  assumes "agree 6 z (real b)"
  shows "round_int mode s (z / 2 ^ 7) = int (code_round mode s 7 b)" "real (code_round mode s 7 b) = z / 2 ^ 7 \<longleftrightarrow> b mod 2 ^ 7 = 0"
  using sticky_round_at [OF assms, of mode s] by simp_all

lemma stands_scaled: "stands_for a e x \<Longrightarrow> \<exists>y. agree 6 y (real a) \<and> x / 2 powi e = y / 2 ^ 7"
proof -
  assume "stands_for a e x"
  then obtain y where y: "agree 6 y (real a)" "x = y * 2 powi (e - 7)" by (auto simp: stands_for_def)
  have p: "2 powi (e - 7) = (2 powi e :: real) / 2 ^ 7" using powi_shift(2) [of e 7] by simp
  have "x / 2 powi e = y / 2 ^ 7" unfolding y(2) p by simp
  with y(1) show ?thesis by blast
qed

lemma stands_round: "stands_for a e x \<Longrightarrow> round_int mode s (x / 2 powi e) = int (code_round mode s 7 a)"
  using stands_scaled sticky_round(1) by metis

lemma stands_tiny:
  assumes "stands_for a e x"
  shows "tiny mode s x \<longleftrightarrow> e < - 1 \<or> e = - 1 \<and> a + increment mode s 7 < 2 ^ 31"
proof -
  let ?m = "code_round mode s 7 a"
  note b = code_round_bounds [OF stands_bounds(2) [OF assms], of mode s]
  have m: "2 ^ 23 \<le> real ?m" "real ?m \<le> 2 ^ 24" using b(1) b(3) [OF stands_bounds(1) [OF assms]] by simp_all
  have t: "tiny mode s x \<longleftrightarrow> real ?m * 2 powi e < 2 ^ 23" unfolding tiny_def stands_place [OF assms] stands_round [OF assms] by simp
  consider "0 \<le> e" | "e = - 1" | "e < - 1" by linarith
  then show ?thesis
  proof cases
    case 1
    then have "2 ^ 23 * 1 \<le> real ?m * 2 powi e" using m(1) by (intro mult_mono) (simp_all add: one_le_power_int)
    then show ?thesis using 1 unfolding t by simp
  next
    case 2
    then show ?thesis using b(1,2) unfolding t by (auto simp: power_int_minus)
  next
    case 3
    have "real ?m * 2 powi e \<le> 2 ^ 24 * 2 powi (- 2)" using 3 m(2) by (intro mult_mono power_int_increasing) simp_all
    then show ?thesis using 3 unfolding t by (simp add: power_int_minus)
  qed
qed

lemma stands_normal:
  assumes "stands_for a e x" "0 \<le> e"
  shows "rounded mode s x = int (code_round mode s 7 a) * 2 ^ nat e" "of_int (rounded mode s x) = x \<longleftrightarrow> a mod 2 ^ 7 = 0"
proof -
  have e: "2 powi e = (2 :: real) ^ nat e" using assms(2) by (simp add: power_int_def)
  show r: "rounded mode s x = int (code_round mode s 7 a) * 2 ^ nat e"
    unfolding rounded_def stands_place [OF assms(1)] using stands_round [OF assms(1), of mode s] by (simp only: e)
  obtain y where y: "agree 6 y (real a)" "x / 2 ^ nat e = y / 2 ^ 7" using stands_scaled [OF assms(1)] e by auto
  have "of_int (rounded mode s x) = x \<longleftrightarrow> real (code_round mode s 7 a) = x / 2 ^ nat e" unfolding r by (auto simp: field_simps)
  also have "\<dots> \<longleftrightarrow> a mod 2 ^ 7 = 0" unfolding y(2) by (rule sticky_round(2) [OF y(1)])
  finally show "of_int (rounded mode s x) = x \<longleftrightarrow> a mod 2 ^ 7 = 0" .
qed

text \<open>With a negative exponent the significand is shifted into the place of the subnormal numbers.\<close>

lemma stands_subnormal:
  assumes "stands_for a e x" "e < 0" "b = jam a (nat (- e))"
  shows "rounded mode s x = int (code_round mode s 7 b)" "of_int (rounded mode s x) = x \<longleftrightarrow> b mod 2 ^ 7 = 0" "b < 2 ^ 30"
proof -
  define n where "n = nat (- e)"
  have n: "0 < n" "e = - int n" using assms(2) by (simp_all add: n_def)
  obtain y where y: "agree 6 y (real a)" "x = y * 2 powi (e - 7)" using assms(1) by (auto simp: stands_for_def)
  have "2 powi (e - 7) = (1 :: real) / 2 ^ n / 2 ^ 7"
    unfolding n using powi_shift(2) [of 0 "n + 7"] by (simp add: power_add)
  then have x: "x = y / 2 ^ n / 2 ^ 7" by (simp add: y(2))
  have ag: "agree 6 (y / 2 ^ n) (real b)"
    unfolding assms(3) n_def [symmetric] using agree_mono [OF y(1), of "6 + n"] by (intro agree_jam) simp_all
  have q: "nat (last_place x) = 0" using stands_place [OF assms(1)] assms(2) by simp
  show r: "rounded mode s x = int (code_round mode s 7 b)" unfolding rounded_def q using sticky_round(1) [OF ag] by (simp add: x)
  show "of_int (rounded mode s x) = x \<longleftrightarrow> b mod 2 ^ 7 = 0" unfolding r using sticky_round(2) [OF ag] by (simp add: x)
  have "a div 2 ^ n \<le> a div 2 ^ 1" using n(1) by (intro div_le_mono2 power_increasing) simp_all
  then have "a div 2 ^ n < 2 ^ 30" using stands_bounds(2) [OF assms(1)] by simp
  then show "b < 2 ^ 30" unfolding assms(3) n_def [symmetric] jam_eq by (auto elim!: evenE)
qed

lemma increment_code:
  "(if \<not> mode = 0 \<and> mode \<noteq> 4 then (if mode = (if s then 2 else 3) then 0x7F else 0) else 0x40) = (of_nat (increment mode s 7) :: u8)"
  by (simp add: increment_def)

lemma unat_increment: "unat (ucast (of_nat (increment mode s 7) :: u8) :: u64) = increment mode s 7"
proof -
  have "increment mode s 7 \<le> 127" by (simp add: increment_def)
  then show ?thesis by (simp add: unat_8_64 unat_of_nat)
qed

lemma exp_test: "- (2 ^ 20) < e \<Longrightarrow> e < 2 ^ 20 \<Longrightarrow> 0xFD \<le> (word_of_int e :: u32) \<longleftrightarrow> e < 0 \<or> 0xFD \<le> e"
proof -
  assume e: "- (2 ^ 20) < e" "e < 2 ^ 20"
  have "0xFD \<le> (word_of_int e :: u32) \<longleftrightarrow> 0xFD \<le> e mod 2 ^ 32" by (simp add: word_le_def unsigned_of_int take_bit_eq_mod)
  also have "\<dots> \<longleftrightarrow> e < 0 \<or> 0xFD \<le> e"
  proof (cases "e < 0")
    case True
    then have "e mod 2 ^ 32 = e + 2 ^ 32" using e(1) mod_pos_pos_trivial [of "e + 2 ^ 32" "2 ^ 32"] by simp
    then show ?thesis using True e(1) by simp
  qed (use e(2) in simp)
  finally show ?thesis .
qed

lemma of_nat_code_round: "a < 2 ^ 31 \<Longrightarrow> unat (of_nat (code_round mode s 7 a) :: u64) = code_round mode s 7 a"
  using code_round_bounds(1) [of a mode s] by (simp add: unat_of_nat)

lemma round_normal:
  assumes "stands_for (unat g) e x" "0 \<le> e" "e < 0xFD \<or> e = 0xFD \<and> \<not> 2 ^ 31 \<le> unat g + increment mode s 7" "mode \<noteq> 6"
  shows "rounds_to mode s x (roundPack_tail mode s e g (of_nat (increment mode s 7)) (ucast (g AND 0x7F)) 0)"
proof -
  define m where "m = code_round mode s 7 (unat g)"
  have g: "2 ^ 30 \<le> unat g" "unat g < 2 ^ 31" using stands_bounds [OF assms(1)] by simp_all
  note b = code_round_bounds [OF g(2), of mode s, folded m_def]
  have u: "unat (of_nat m :: u64) = m" unfolding m_def by (rule of_nat_code_round [OF g(2)])
  have fit: "nat e * 2 ^ 23 + m < 0x7F800000"
    using assms(2,3) b(1,2) by (cases "e = 0xFD") auto
  define z where "z = packToF32UI s e (of_nat m)"
  have z: "mag z = nat e * 2 ^ 23 + m" "bit z 31 = s" unfolding z_def using pack_ok [OF assms(2), of "of_nat m"] fit by (simp_all add: u)
  have f: "fmag (mag z) = rounded mode s x"
    unfolding z(1) stands_normal(1) [OF assms(1,2)] m_def [symmetric] using b(1) b(3) [OF g(1)] by (intro fmag_pack) simp_all
  have fin: "fexp z < 255" "rounded mode s x < 2 ^ 277" using fmag_max [of "mag z"] f fit by (simp_all add: fexp_finite z(1))
  have "m \<noteq> 0" using b(3) [OF g(1)] by simp
  then have t: "roundPack_tail mode s e g (of_nat (increment mode s 7)) (ucast (g AND 0x7F)) 0 = (z, if unat g mod 2 ^ 7 = 0 then 0 else 1)"
    using tail_ok [of g mode s e 0] g(2) assms(4) by (simp add: z_def flip: m_def)
  have "\<not> tiny mode s x" using stands_tiny [OF assms(1)] assms(2) by simp
  then show ?thesis unfolding t rounds_to_def using z(2) f fin stands_normal(2) [OF assms(1,2), of mode s] by simp
qed

lemma round_overflow:
  assumes "stands_for (unat g) e x" "0xFD < e \<or> e = 0xFD \<and> 2 ^ 31 \<le> unat g + increment mode s 7"
  shows "rounds_to mode s x (packToF32UI s 0xFF 0 - (if (of_nat (increment mode s 7) :: u8) = 0 then 1 else 0), 5)"
proof -
  define m where "m = code_round mode s 7 (unat g)"
  have g: "2 ^ 30 \<le> unat g" "unat g < 2 ^ 31" using stands_bounds [OF assms(1)] by simp_all
  note b = code_round_bounds [OF g(2), of mode s, folded m_def]
  have "0 \<le> e" using assms(2) by auto
  then have r: "rounded mode s x = int m * 2 ^ nat e" using stands_normal(1) [OF assms(1)] by (simp add: m_def)
  have "2 ^ 277 \<le> int m * 2 ^ nat e"
  proof (cases "0xFD < e")
    case True
    have "(2 :: int) ^ 23 * 2 ^ 254 \<le> int m * 2 ^ nat e"
      using True b(3) [OF g(1)] by (intro mult_mono power_increasing) (simp_all add: nat_le_iff)
    then show ?thesis by simp
  next
    case False
    then have "nat e = 253" "m = 2 ^ 24" using assms(2) b(2) by auto
    then show ?thesis by simp
  qed
  moreover have i: "(of_nat (increment mode s 7) :: u8) = 0 \<longleftrightarrow> \<not> (mode = 0 \<or> mode = 4 \<or> mode = (if s then 2 else 3))"
    by (simp add: increment_def)
  moreover have p: "packToF32UI s 0xFF 0 = (if s then 0xFF800000 else 0x7F800000)" by (simp add: packToF32UI_def)
  ultimately show ?thesis unfolding rounds_to_def r p i by (simp add: sign_eq mag_def)
qed

lemma round_subnormal:
  assumes "stands_for (unat g) e x" "e < 0" "mode \<noteq> 6" "h = ucast (softfloat_shiftRightJam32 (ucast g) (nat (- e)))"
  shows "rounds_to mode s x (roundPack_tail mode s 0 h (of_nat (increment mode s 7)) (ucast (h AND 0x7F))
    (if (e < - 1 \<or> \<not> 2 ^ 31 \<le> unat g + increment mode s 7) \<and> (ucast (h AND 0x7F) :: u8) \<noteq> 0 then 2 else 0))"
proof -
  have g: "unat g < 2 ^ 31" using stands_bounds [OF assms(1)] by simp
  then have "unat (ucast g :: u32) = unat g" by (intro unat_narrow) simp
  then have h: "unat h = jam (unat g) (nat (- e))"
    unfolding assms(4) using shiftRightJam32_ok [of "nat (- e)" "ucast g"] assms(2) g by simp
  note sub = stands_subnormal(1,2) [OF assms(1,2) h, of mode s] stands_subnormal(3) [OF assms(1,2) h]
  define m where "m = code_round mode s 7 (unat h)"
  have m: "m \<le> 2 ^ 23" unfolding m_def using sub(3) by (intro code_round_bounds(4)) simp_all
  have u: "unat (of_nat m :: u64) = m" unfolding m_def using sub(3) by (intro of_nat_code_round) simp
  define z where "z = packToF32UI s 0 (of_nat m)"
  have z: "mag z = m" "bit z 31 = s" unfolding z_def using pack_ok [of 0 "of_nat m"] m by (simp_all add: u)
  have f: "fmag (mag z) = rounded mode s x" using fmag_pack [of m 0] m by (simp add: z(1) sub(1) flip: m_def)
  have fin: "fexp z < 255" "rounded mode s x < 2 ^ 277" using fmag_max [of "mag z"] f m by (simp_all add: fexp_finite z(1))
  have rb: "(ucast (h AND 0x7F) :: u8) = 0 \<longleftrightarrow> unat h mod 2 ^ 7 = 0" unfolding low7 [symmetric] by (simp add: unat_eq_0)
  have tn: "tiny mode s x \<longleftrightarrow> e < - 1 \<or> \<not> 2 ^ 31 \<le> unat g + increment mode s 7"
    using stands_tiny [OF assms(1), of mode s] assms(2) by (auto simp: not_le)
  have t: "roundPack_tail mode s 0 h (of_nat (increment mode s 7)) (ucast (h AND 0x7F)) fl =
      (z, if unat h mod 2 ^ 7 = 0 then fl else fl OR 1)" for fl
    using tail_ok [of h mode s 0 fl] sub(3) assms(3) by (simp add: z_def flip: m_def)
  show ?thesis unfolding t rounds_to_def rb tn [symmetric] using z(2) f fin sub(2) by simp
qed

lemma roundPack_ok:
  assumes x: "stands_for (unat g) e x" and e: "- (2 ^ 20) < e" "e < 2 ^ 20" and mode: "mode \<noteq> 6"
  shows "rounds_to mode s x (softfloat_roundPackToF32 mode s e g)"
proof -
  let ?i = "increment mode s 7"
  have g: "unat g < 2 ^ 31" using stands_bounds [OF x] by simp
  have gi: "unat (g + ucast (of_nat ?i :: u8)) = unat g + ?i"
    using g by (subst unat_plus) (simp_all add: unat_increment, simp add: increment_def)
  have carry: "0x80000000 \<le> g + ucast (of_nat ?i :: u8) \<longleftrightarrow> 2 ^ 31 \<le> unat g + ?i" by (simp add: word_le_nat_alt gi)
  have unfold: "softfloat_roundPackToF32 mode s e g =
    (if 0xFD \<le> (word_of_int e :: u32) then
       (if e < 0 then
          (let h = ucast (softfloat_shiftRightJam32 (ucast g) (nat (- e)))
           in roundPack_tail mode s 0 h (of_nat ?i) (ucast (h AND 0x7F))
                (if (e < - 1 \<or> \<not> 2 ^ 31 \<le> unat g + ?i) \<and> (ucast (h AND 0x7F) :: u8) \<noteq> 0 then 2 else 0))
        else if 0xFD < e \<or> 2 ^ 31 \<le> unat g + ?i then
          (packToF32UI s 0xFF 0 - (if (of_nat ?i :: u8) = 0 then 1 else 0), 5)
        else roundPack_tail mode s e g (of_nat ?i) (ucast (g AND 0x7F)) 0)
     else roundPack_tail mode s e g (of_nat ?i) (ucast (g AND 0x7F)) 0)"
    unfolding softfloat_roundPackToF32_def Let_def increment_code not_le [symmetric] carry by simp
  consider "e < 0" | "0 \<le> e" "e < 0xFD \<or> e = 0xFD \<and> \<not> 2 ^ 31 \<le> unat g + ?i" | "0xFD < e \<or> e = 0xFD \<and> 2 ^ 31 \<le> unat g + ?i"
    by linarith
  then show ?thesis
  proof cases
    case 1
    then show ?thesis unfolding unfold exp_test [OF e] Let_def using round_subnormal [OF x 1 mode refl, of s] by simp
  next
    case 2
    then show ?thesis unfolding unfold exp_test [OF e] using round_normal [OF x 2 mode] by auto
  next
    case 3
    then show ?thesis unfolding unfold exp_test [OF e] using round_overflow [OF x 3] by auto
  qed
qed

end
