(* ===== verification/Softfloat_Ops.thy ===== *)
theory Softfloat_Ops
  imports Softfloat_Correct
begin

unbundle bit_operations_syntax

text \<open>Operands in a common form; multiplication and division round the exact result.\<close>

section \<open>Operands\<close>

lemma bit_div: "bit g n \<longleftrightarrow> odd (unat g div 2 ^ n)" for g :: "'a::len word"
  by (simp add: bit_unsigned_iff flip: bit_iff_odd)

lemma or_exp: "(\<And>n. k \<le> n \<Longrightarrow> \<not> bit w n) \<Longrightarrow> w OR 2 ^ k = w + 2 ^ k" for w :: "'a::len word"
  by (rule disjunctive_add [symmetric]) (auto simp: bit_simps)

lemma or_exp_idem: "bit w k \<Longrightarrow> w OR 2 ^ k = w" for w :: "'a::len word"
  by (rule bit_word_eqI) (auto simp: bit_simps)

lemma or_hidden:
  fixes g :: u64
  shows "unat g < 2 ^ 23 \<Longrightarrow> unat (g OR 0x00800000) = unat g + 2 ^ 23"
    "2 ^ 23 \<le> unat g \<Longrightarrow> unat g < 2 ^ 24 \<Longrightarrow> g OR 0x00800000 = g"
proof -
  assume g: "unat g < 2 ^ 23"
  have "\<not> bit g n" if "23 \<le> n" for n
  proof -
    have "unat g div 2 ^ n = 0" using g power_increasing [OF that, of "2 :: nat"] by simp
    then show ?thesis by (simp add: bit_div)
  qed
  then have "g OR 2 ^ 23 = g + 2 ^ 23" by (rule or_exp)
  then have "g OR 0x00800000 = g + 0x00800000" by simp
  then show "unat (g OR 0x00800000) = unat g + 2 ^ 23" using g by (simp add: unat_plus)
next
  assume g: "2 ^ 23 \<le> unat g" "unat g < 2 ^ 24"
  then have "unat g div 2 ^ 23 = 1" by simp
  then have "bit g 23" by (simp add: bit_div)
  then have "g OR 2 ^ 23 = g" by (rule or_exp_idem)
  then show "g OR 0x00800000 = g" by simp
qed


text \<open>A normalised operand: a significand of 24 bits and an exponent that may be negative.\<close>

definition operand :: "u32 \<Rightarrow> int \<Rightarrow> nat \<Rightarrow> bool" where
  "operand f e m \<longleftrightarrow> 2 ^ 23 \<le> m \<and> m < 2 ^ 24 \<and> - 22 \<le> e \<and> e \<le> 254 \<and> of_int (fmag (mag f)) = real m * 2 powi (e - 1)"

lemma normSubnormal_ok:
  assumes "0 < unat g" "unat g < 2 ^ 23"
  shows "\<exists>e h. softfloat_normSubnormalF32Sig g = (e, h) \<and> 2 ^ 23 \<le> unat h \<and> unat h < 2 ^ 24 \<and> - 22 \<le> e \<and> e \<le> 1 \<and>
    real (unat g) = real (unat h) * 2 powi (e - 1)"
proof -
  define n where "n = softfloat_countLeadingZeros32 (ucast g)"
  have u: "unat (ucast g :: u32) = unat g" using assms(2) by (intro unat_narrow) simp
  then have "(ucast g :: u32) \<noteq> 0" using assms(1) by (auto simp: unat_eq_0 [symmetric])
  note c = clz32_ok [OF this n_def, unfolded u]
  have n: "8 \<le> n" "n < 32"
  proof -
    show "8 \<le> n"
    proof (rule ccontr)
      assume "\<not> 8 \<le> n"
      then have "unat g * 2 ^ n \<le> unat g * 2 ^ 8" by (intro mult_le_mono2 power_increasing) simp_all
      then have "2 ^ 31 \<le> unat g * 2 ^ 8" using c(1) by (rule order_trans [rotated])
      then show False using assms(2) by simp
    qed
    have "1 * 2 ^ n \<le> unat g * 2 ^ n" using assms(1) by (intro mult_le_mono1) simp
    then have "(2 :: nat) ^ n < 2 ^ 32" using c(2) by linarith
    then show "n < 32" by (rule power_less_imp_less_exp [rotated]) simp
  qed
  define d where "d = n - 8"
  have "(2 :: nat) ^ n = 2 ^ d * 2 ^ 8" unfolding power_add [symmetric] using n(1) by (simp add: d_def)
  then have e: "unat g * 2 ^ n = unat g * 2 ^ d * 2 ^ 8" by simp
  have h: "2 ^ 23 \<le> unat g * 2 ^ d" "unat g * 2 ^ d < 2 ^ 24" using c unfolding e by simp_all
  have "nat (int n - 8) = d" using n(1) by (simp add: d_def nat_diff_distrib')
  then have s: "softfloat_normSubnormalF32Sig g = (1 - int d, shl g d)"
    using n(1) by (simp add: softfloat_normSubnormalF32Sig_def d_def flip: n_def)
  have "unat (shl g d) = unat g * 2 ^ d" using h(2) by (intro unat_push) simp
  moreover have "d \<le> 23" using n(2) by (simp add: d_def)
  ultimately show ?thesis unfolding s using h powi_shift(2) [of 0 d]
    by (intro exI [of _ "1 - int d"] exI [of _ "shl g d"]) (simp add: power_int_minus divide_simps)
qed

lemma norm_ok:
  assumes "fexp f < 255"
  shows "mag f = 0 \<Longrightarrow> norm_operand (expF32UI f) (fracF32UI f) = None"
    "mag f \<noteq> 0 \<Longrightarrow> \<exists>e h. norm_operand (expF32UI f) (fracF32UI f) = Some (e, h) \<and> operand f e (unat (h OR 0x00800000))"
proof -
  note b = field_bounds [of f]
  have z: "fracF32UI f = 0 \<longleftrightarrow> ffrac f = 0" using frac_ok [of f] by (simp add: unat_eq_0 [symmetric])
  show "mag f = 0 \<Longrightarrow> norm_operand (expF32UI f) (fracF32UI f) = None"
    using b(3) z by (simp add: norm_operand_def exp_ok)
  assume nz: "mag f \<noteq> 0"
  show "\<exists>e h. norm_operand (expF32UI f) (fracF32UI f) = Some (e, h) \<and> operand f e (unat (h OR 0x00800000))"
  proof (cases "fexp f = 0")
    case True
    then have fr: "0 < ffrac f" using nz b(3) by simp
    then obtain e h where h: "softfloat_normSubnormalF32Sig (fracF32UI f) = (e, h)" "2 ^ 23 \<le> unat h" "unat h < 2 ^ 24"
      "- 22 \<le> e" "e \<le> 1" "real (ffrac f) = real (unat h) * 2 powi (e - 1)"
      using normSubnormal_ok [of "fracF32UI f"] b(1) by (auto simp: frac_ok)
    have "fmag (mag f) = int (ffrac f)" using True by (simp add: fmag_def fexp_def ffrac_def)
    then have "operand f e (unat (h OR 0x00800000))" using h by (simp add: operand_def or_hidden(2) del: div_eq_0_iff)
    then show ?thesis using h(1) True fr z by (simp add: norm_operand_def exp_ok)
  next
    case False
    have "fmag (mag f) = int (2 ^ 23 + ffrac f) * 2 ^ (fexp f - 1)" using False by (simp add: fmag_def fexp_def ffrac_def)
    moreover have "2 powi (int (fexp f) - 1) = (2 :: real) ^ (fexp f - 1)" using False by (simp add: power_int_def nat_diff_distrib')
    moreover have "unat (fracF32UI f OR 0x00800000) = ffrac f + 2 ^ 23" using or_hidden(1) [of "fracF32UI f"] b(1) by (simp add: frac_ok)
    ultimately have "operand f (int (fexp f)) (unat (fracF32UI f OR 0x00800000))"
      using b(1) assms by (simp add: operand_def add.commute)
    then show ?thesis using False by (simp add: norm_operand_def exp_ok)
  qed
qed

lemma sign_xor: "signF32UI (a XOR b) \<longleftrightarrow> bit a 31 \<noteq> bit b 31"
  by (simp add: sign_bit bit_simps)

text \<open>The last step of most operations moves the leading one from bit 29 to bit 30.\<close>

lemma norm1_ok:
  assumes "unat g = a" "agree 5 y (real a)" "2 ^ 29 \<le> y" "y < 2 ^ 31" "x = y * 2 powi (e - 7)" "- (2 ^ 19) < e" "e < 2 ^ 19" "mode \<noteq> 6"
  shows "rounds_to mode s x (if g < 0x40000000 then softfloat_roundPackToF32 mode s (e - 1) (shl g 1)
    else softfloat_roundPackToF32 mode s e g)"
proof (cases "g < 0x40000000")
  case True
  then have lt: "a < 2 ^ 30" by (simp add: word_less_nat_alt assms(1))
  then have y: "y < 2 ^ 30" using agree_bounds(2) [OF assms(2), of "2 ^ 25"] by simp
  have g: "unat (shl g 1) = a * 2" using lt unat_push [of g 1] by (simp add: assms(1))
  have "agree 6 (y * 2) (real (a * 2))" using agree_scale [of 5 1 y "real a"] assms(2) by simp
  moreover have "x = y * 2 * 2 powi (e - 1 - 7)" unfolding assms(5) using powi_shift(2) [of "e - 7" 1] by (simp add: algebra_simps)
  ultimately have "stands_for (unat (shl g 1)) (e - 1) x"
    unfolding stands_for_def g using assms(3) y by (intro exI [of _ "y * 2"]) simp
  then show ?thesis using True assms(6-8) by (simp add: roundPack_ok)
next
  case False
  then have "2 ^ 30 \<le> a" by (simp add: word_less_nat_alt assms(1))
  then have y: "2 ^ 30 \<le> y" using agree_bounds(1) [OF assms(2), of "2 ^ 25"] by simp
  then have "stands_for (unat g) e x"
    unfolding stands_for_def assms(1) using assms(4,5) agree_mono [OF assms(2), of 6] by (intro exI [of _ y]) simp
  then show ?thesis using False assms(6-8) by (simp add: roundPack_ok)
qed

section \<open>Multiplication\<close>

lemma powi_prod: "2 powi i * 2 powi j = (2 powi (i + j) :: real)"
  by (simp add: power_int_add)

lemma powi_move: "i + int m = j + int n \<Longrightarrow> 2 powi i * 2 ^ m = (2 powi j * 2 ^ n :: real)"
  using powi_shift(1) [of i m] powi_shift(1) [of j n] by (simp only: mult.commute)

lemma mul_round:
  fixes G H :: u64
  assumes a: "operand f eA (unat G)" and b: "operand f' eB (unat H)" and mode: "mode \<noteq> 6"
  shows "rounds_to mode s (of_int (fmag (mag f)) * of_int (fmag (mag f')) / 2 ^ 149)
    (let sigZ = softfloat_shortShiftRightJam64 (shl G 7 * shl H 8) 32 in
     if sigZ < 0x40000000 then softfloat_roundPackToF32 mode s (eA + eB - 0x7F - 1) (shl sigZ 1)
     else softfloat_roundPackToF32 mode s (eA + eB - 0x7F) sigZ)"
proof -
  define A B where "A = unat G" and "B = unat H"
  have A: "2 ^ 23 \<le> A" "A < 2 ^ 24" "- 22 \<le> eA" "eA \<le> 254" "of_int (fmag (mag f)) = real A * 2 powi (eA - 1)"
    and B: "2 ^ 23 \<le> B" "B < 2 ^ 24" "- 22 \<le> eB" "eB \<le> 254" "of_int (fmag (mag f')) = real B * 2 powi (eB - 1)"
    using a b by (simp_all add: operand_def A_def B_def del: of_nat_unat)
  have sA: "unat (shl G 7) = A * 2 ^ 7" and sB: "unat (shl H 8) = B * 2 ^ 8"
    using A(2) B(2) by (simp_all add: unat_push A_def B_def)
  have AB: "2 ^ 46 \<le> A * B" "A * B < 2 ^ 48"
    using mult_le_mono [OF A(1) B(1)] mult_strict_mono [OF A(2) B(2)] by simp_all
  have P: "unat (shl G 7 * shl H 8) = A * B * 2 ^ 15" using AB by (subst unat_times) (simp_all add: sA sB mult_ac)
  define y where "y = real (A * B) / 2 ^ 17"
  have y: "y = real (A * B * 2 ^ 15) / 2 ^ 32" by (simp add: y_def)
  have ag: "agree 5 y (real (jam (A * B * 2 ^ 15) 32))" unfolding y by (intro agree_mono [OF agree_jam1]) simp
  have bd: "2 ^ 29 \<le> y" "y < 2 ^ 31"
    unfolding y_def using AB by (simp_all add: divide_simps flip: of_nat_mult)
  have "2 powi (eA - 1) * 2 powi (eB - 1) = (2 powi (eA + eB - 0x7F - 7) * 2 ^ 132 :: real)"
    unfolding powi_prod using powi_move [of "eA - 1 + (eB - 1)" 0 "eA + eB - 0x7F - 7" 132] by simp
  then have x: "of_int (fmag (mag f)) * of_int (fmag (mag f')) / 2 ^ 149 = y * 2 powi (eA + eB - 0x7F - 7)"
    unfolding A(5) B(5) y_def by (simp add: mult_ac)
  show ?thesis unfolding Let_def using A(3,4) B(3,4) mode
    by (intro norm1_ok [OF _ ag bd x]) (simp_all add: shortShiftRightJam64_ok P)
qed

lemma f32_mul_ok:
  assumes "fexp a < 255" "fexp b < 255" "mag a \<noteq> 0" "mag b \<noteq> 0" "mode \<noteq> 6"
  shows "rounds_to mode (bit a 31 \<noteq> bit b 31) (of_int (fmag (mag a)) * of_int (fmag (mag b)) / 2 ^ 149) (f32_mul mode a b)"
proof -
  obtain eA g eB h where n: "norm_operand (expF32UI a) (fracF32UI a) = Some (eA, g)" "operand a eA (unat (g OR 0x00800000))"
    "norm_operand (expF32UI b) (fracF32UI b) = Some (eB, h)" "operand b eB (unat (h OR 0x00800000))"
    using norm_ok(2) [OF assms(1,3)] norm_ok(2) [OF assms(2,4)] by blast
  have "expF32UI a \<noteq> 0xFF" "expF32UI b \<noteq> 0xFF" using assms(1,2) by (simp_all add: exp_ok)
  then have "f32_mul mode a b = (let s = (bit a 31 \<noteq> bit b 31);
      sigZ = softfloat_shortShiftRightJam64 (shl (g OR 0x00800000) 7 * shl (h OR 0x00800000) 8) 32 in
     if sigZ < 0x40000000 then softfloat_roundPackToF32 mode s (eA + eB - 0x7F - 1) (shl sigZ 1)
     else softfloat_roundPackToF32 mode s (eA + eB - 0x7F) sigZ)"
    unfolding f32_mul_def Let_def n(1,3) sign_bit option.case prod.case by (simp only: if_False)
  then show ?thesis using mul_round [OF n(2,4) assms(5)] by (simp only: Let_def)
qed

section \<open>Division\<close>

text \<open>A quotient with a sticky bit where the grid could otherwise not see the remainder.\<close>

lemma agree_quotient:
  assumes "0 < M" "z = (if (S div M) mod 2 ^ k = 0 \<and> S div M * M \<noteq> S then S div M + 1 else S div M)" "0 < k"
  shows "agree k (real S / real M) (real z)"
proof -
  define q r where "q = S div M" and "r = S mod M"
  have S: "S = q * M + r" unfolding q_def r_def by (rule div_mult_mod_eq [symmetric])
  have r: "r < M" using assms(1) by (simp add: r_def)
  have x: "real S / real M = real q + real r / real M" using assms(1) by (simp add: S add_divide_distrib)
  have f: "0 \<le> real r / real M" "real r / real M < 1" "real r / real M = 0 \<longleftrightarrow> r = 0" using r by simp_all
  have z: "z = (if q mod 2 ^ k = 0 \<and> r \<noteq> 0 then q + 1 else q)" unfolding assms(2) q_def [symmetric] by (auto simp: S)
  have hit: "of_int h * 2 ^ k = (of_int (h * 2 ^ k) :: real)" for h by simp
  show ?thesis
  proof (rule agreeI)
    fix h :: int
    define H where "H = h * 2 ^ k"
    have dv: "q mod 2 ^ k = 0 \<longleftrightarrow> 2 ^ k dvd int q"
      using of_nat_dvd_iff [of "2 ^ k" q, where 'a = int] by (simp add: dvd_eq_mod_eq_0)
    have dH: "2 ^ k dvd H" by (simp add: H_def)
    have nz: "H \<noteq> int q + 1" if "q mod 2 ^ k = 0"
    proof
      assume "H = int q + 1"
      then have "2 ^ k dvd (1 :: int)" using dvd_diff [OF dH, of "int q"] that dv by simp
      then have "2 ^ k \<le> (1 :: int)" by (rule zdvd_imp_le) simp
      moreover have "1 < (2 :: int) ^ k" using assms(3) by simp
      ultimately show False by linarith
    qed
    have eq: "q mod 2 ^ k = 0" if "H = int q" using dH dv that by simp
    show "real S / real M < of_int h * 2 ^ k \<longleftrightarrow> real z < of_int h * 2 ^ k"
      unfolding hit H_def [symmetric] x of_int_less_real z using f nz eq by (auto; linarith)
    show "of_int h * 2 ^ k < real S / real M \<longleftrightarrow> of_int h * 2 ^ k < real z"
      unfolding hit H_def [symmetric] x of_int_less_real z using f nz eq by (auto; linarith)
  qed
qed

lemma and_3F: "unat (w AND 0x3F) = unat w mod 2 ^ 6" for w :: u64
  using unat_take [of w 6] by (simp add: mask_eq_exp_minus_1)

lemma unat_quotient: "unat (a div b) = unat a div unat b" for a b :: "'a::len word"
  by (simp add: unat_div)

lemma div_round:
  fixes G H :: u64
  assumes a: "operand f eA (unat G)" and b: "operand f' eB (unat H)" and mode: "mode \<noteq> 6"
    and S: "(e, S) = (if G < H then (eA - eB + 0x7E - 1, shl G 31) else (eA - eB + 0x7E, shl G 30))"
  shows "rounds_to mode s (of_int (fmag (mag f)) / of_int (fmag (mag f')) * 2 ^ 149)
    (softfloat_roundPackToF32 mode s e
      (if S div H AND 0x3F = 0 then S div H OR (if H * (S div H) \<noteq> S then 1 else 0) else S div H))"
proof -
  define A B where "A = unat G" and "B = unat H"
  have A: "2 ^ 23 \<le> A" "A < 2 ^ 24" "- 22 \<le> eA" "eA \<le> 254" "of_int (fmag (mag f)) = real A * 2 powi (eA - 1)"
    and B: "2 ^ 23 \<le> B" "B < 2 ^ 24" "- 22 \<le> eB" "eB \<le> 254" "of_int (fmag (mag f')) = real B * 2 powi (eB - 1)"
    using a b by (simp_all add: operand_def A_def B_def del: of_nat_unat)
  define n where "n = (if A < B then 31 else 30 :: nat)"
  have e: "e = eA - eB + 0x7E - (int n - 30)" and Sn: "S = shl G n"
    using S by (auto simp: n_def A_def B_def word_less_nat_alt split: if_splits)
  have uS: "unat S = A * 2 ^ n" unfolding Sn A_def using A(2) by (intro unat_push) (simp add: n_def A_def)
  define y where "y = real (A * 2 ^ n) / real B"
  have bd: "2 ^ 30 \<le> y" "y < 2 ^ 31" using A(1,2) B(1,2) by (auto simp: y_def n_def divide_simps split: if_splits)
  define q where "q = A * 2 ^ n div B"
  have uq: "unat (S div H) = q" by (simp add: unat_quotient uS q_def B_def)
  have qB: "q * B \<le> A * 2 ^ n" by (simp add: q_def)
  have "unat (H * (S div H)) = B * q"
    unfolding uq [symmetric] B_def by (rule unat_times) (use qB uS unsigned_less [of S, where 'a = nat] in \<open>simp add: uq B_def mult.commute\<close>)
  then have ne: "H * (S div H) \<noteq> S \<longleftrightarrow> q * B \<noteq> A * 2 ^ n" by (simp add: word_unat_eq_iff uS mult.commute)
  have c: "S div H AND 0x3F = 0 \<longleftrightarrow> q mod 2 ^ 6 = 0" unfolding uq [symmetric] and_3F [symmetric] by (simp add: unat_eq_0)
  define z where "z = (if S div H AND 0x3F = 0 then S div H OR (if H * (S div H) \<noteq> S then 1 else 0) else S div H)"
  have uz: "unat z = (if q mod 2 ^ 6 = 0 \<and> q * B \<noteq> A * 2 ^ n then q + 1 else q)"
  proof -
    have "even q" if "q mod 2 ^ 6 = 0" using mod_0_imp_dvd [OF that] by (rule dvd_trans [rotated]) simp
    then show ?thesis unfolding z_def c ne by (auto simp: unat_or_bit [where b = True, simplified] uq or_one_eq [where 'a = nat, simplified])
  qed
  have ag: "agree 6 y (real (unat z))" unfolding uz y_def q_def using B(1) by (intro agree_quotient) simp_all
  have "2 powi (eA - 1) * 2 ^ 149 = (2 powi (eB - 1) * 2 powi (e - 7) * 2 ^ n :: real)"
    unfolding powi_prod by (rule powi_move) (simp add: e)
  then have x: "of_int (fmag (mag f)) / of_int (fmag (mag f')) * 2 ^ 149 = y * 2 powi (e - 7)"
    unfolding A(5) B(5) y_def using B(1) by (simp add: field_simps)
  have "stands_for (unat z) e (of_int (fmag (mag f)) / of_int (fmag (mag f')) * 2 ^ 149)"
    unfolding stands_for_def x using bd ag by blast
  then show ?thesis unfolding z_def [symmetric] using A(3,4) B(3,4) mode by (intro roundPack_ok) (simp_all add: e n_def)
qed

lemma f32_div_ok:
  assumes "fexp a < 255" "fexp b < 255" "mag a \<noteq> 0" "mag b \<noteq> 0" "mode \<noteq> 6"
  shows "rounds_to mode (bit a 31 \<noteq> bit b 31) (of_int (fmag (mag a)) / of_int (fmag (mag b)) * 2 ^ 149) (f32_div mode a b)"
proof -
  obtain eA g eB h where n: "norm_operand (expF32UI a) (fracF32UI a) = Some (eA, g)" "operand a eA (unat (g OR 0x00800000))"
    "norm_operand (expF32UI b) (fracF32UI b) = Some (eB, h)" "operand b eB (unat (h OR 0x00800000))"
    using norm_ok(2) [OF assms(1,3)] norm_ok(2) [OF assms(2,4)] by blast
  define G H where "G = g OR 0x00800000" and "H = h OR 0x00800000"
  obtain e S where S: "(e, S) = (if G < H then (eA - eB + 0x7E - 1, shl G 31) else (eA - eB + 0x7E, shl G 30))" by (metis surj_pair)
  have "expF32UI a \<noteq> 0xFF" "expF32UI b \<noteq> 0xFF" using assms(1,2) by (simp_all add: exp_ok)
  then have "f32_div mode a b = softfloat_roundPackToF32 mode (bit a 31 \<noteq> bit b 31) e
      (if S div H AND 0x3F = 0 then S div H OR (if H * (S div H) \<noteq> S then 1 else 0) else S div H)"
    unfolding f32_div_def Let_def n(1,3) sign_bit option.case prod.case G_def [symmetric] H_def [symmetric] S [symmetric]
    by (simp only: if_False)
  then show ?thesis using div_round [OF n(2,4) [folded G_def H_def] assms(5) S] by (simp only:)
qed

end
