(* ===== verification/Softfloat_Add.thy ===== *)
theory Softfloat_Add
  imports Softfloat_Ops
begin

unbundle bit_operations_syntax

text \<open>Addition and subtraction of magnitudes.\<close>

section \<open>Exact results\<close>

definition lead :: "u32 \<Rightarrow> nat" where
  "lead f = (if fexp f = 0 then 2 * ffrac f else 2 ^ 23 + ffrac f)"

lemma lead_bound: "lead f < 2 ^ 24"
  using field_bounds(1) [of f] by (simp add: lead_def)

lemma fmag_lead: "of_int (fmag (mag f)) = real (lead f) * 2 powi (int (fexp f) - 1)"
proof (cases "fexp f = 0")
  case True
  then have "fmag (mag f) = int (ffrac f)" by (simp add: fmag_def fexp_def ffrac_def)
  then show ?thesis using True by (simp add: lead_def power_int_minus)
next
  case False
  have "fmag (mag f) = int (2 ^ 23 + ffrac f) * 2 ^ (fexp f - 1)" using False by (simp add: fmag_def fexp_def ffrac_def)
  moreover have "2 powi (int (fexp f) - 1) = (2 :: real) ^ (fexp f - 1)" using False by (simp add: power_int_def nat_diff_distrib')
  ultimately show ?thesis using False by (simp add: lead_def)
qed

lemma frac_shl: "k \<le> 8 \<Longrightarrow> unat (shl (fracF32UI f) k) = ffrac f * 2 ^ k"
proof -
  assume "k \<le> 8"
  then have "ffrac f * 2 ^ k < 2 ^ 23 * 2 ^ 8"
    using field_bounds(1) [of f] by (intro mult_less_le_imp_less power_increasing) simp_all
  then show ?thesis by (subst unat_push) (simp_all add: frac_ok)
qed

lemma lead_shl:
  "unat (shl (fracF32UI f) 6 + (if expF32UI f \<noteq> 0 then 0x20000000 else shl (fracF32UI f) 6)) = lead f * 2 ^ 6"
  "unat (shl (fracF32UI f) 7 + (if expF32UI f \<noteq> 0 then 0x40000000 else shl (fracF32UI f) 7)) = lead f * 2 ^ 7"
  using field_bounds(1) [of f] frac_shl [of 6 f] frac_shl [of 7 f] by (auto simp: unat_plus exp_ok lead_def)

lemma rounds_pack:
  assumes "m \<le> 2 ^ 24" "2 ^ 23 \<le> m \<or> q = 0" "q * 2 ^ 23 + m < 0x7F800000" "0 < m" "unat g = m" "x = real m * 2 ^ q"
  shows "rounds_to mode s x (packToF32UI s (int q) g, 0)"
proof (rule rounds_exact)
  note p = pack_ok [of "int q" g s, unfolded assms(5) nat_int]
  have z: "mag (packToF32UI s (int q) g) = q * 2 ^ 23 + m" "bit (packToF32UI s (int q) g) 31 = s" using p assms(3) by simp_all
  show "bit (packToF32UI s (int q) g) 31 = s" by (rule z(2))
  show "fexp (packToF32UI s (int q) g) < 255" using assms(3) by (simp add: fexp_finite z(1))
  show "x = of_int (fmag (mag (packToF32UI s (int q) g)))" unfolding z(1) fmag_pack [OF assms(1,2)] by (simp add: assms(6))
  show "0 < mag (packToF32UI s (int q) g)" using assms(4) by (simp add: z(1))
qed

lemma normRoundPack_ok:
  assumes "unat g = a" "0 < a" "a < 2 ^ 31" "y = real a \<or> 2 ^ 29 \<le> a \<and> agree 5 y (real a)" "x = y * 2 powi (e - 7)"
    "- (2 ^ 19) < e" "e < 2 ^ 19" "mode \<noteq> 6"
  shows "rounds_to mode s x (softfloat_normRoundPackToF32 mode s e g)"
proof -
  define n where "n = softfloat_countLeadingZeros32 (ucast g)"
  have u: "unat (ucast g :: u32) = a" using assms(1,3) unat_narrow [of g, where 'b = 32] by simp
  then have "(ucast g :: u32) \<noteq> 0" using assms(2) by (auto simp: unat_eq_0 [symmetric])
  note c = clz32_ok [OF this n_def, unfolded u]
  have "n \<noteq> 0" using c(1) assms(3) by (intro notI) simp
  then obtain d where d: "n = Suc d" using not0_implies_Suc by blast
  have b: "2 ^ 30 \<le> a * 2 ^ d" "a * 2 ^ d < 2 ^ 31" using c by (simp_all add: d)
  have "1 * 2 ^ d \<le> a * 2 ^ d" using assms(2) by (intro mult_le_mono1) simp
  then have "(2 :: nat) ^ d < 2 ^ 31" using b(2) by linarith
  then have d31: "d < 31" by (rule power_less_imp_less_exp [rotated]) simp
  have sh: "unat (shl g d) = a * 2 ^ d" using b(2) unat_push [of g d] by (simp add: assms(1))
  have small: "d \<le> 1" if "2 ^ 29 \<le> a"
  proof (rule ccontr)
    assume "\<not> d \<le> 1"
    then have "a * 2 ^ 2 \<le> a * 2 ^ d" by (intro mult_le_mono2 power_increasing) simp_all
    then have "a * 2 ^ 2 < 2 ^ 31" using b(2) by (rule le_less_trans)
    then show False using that by simp
  qed
  have ag: "agree 6 (y * 2 ^ d) (real (a * 2 ^ d))"
  proof (cases "y = real a")
    case False
    then have "d \<le> 1" "agree 5 y (real a)" using assms(4) small by auto
    then show ?thesis using agree_scale [of 5 d y "real a"] agree_mono [of "5 + d" "y * 2 ^ d" "real a * 2 ^ d" 6] by simp
  qed simp
  have sf: "stands_for (unat (shl g d)) (e - int d) x"
    unfolding stands_for_def sh
  proof (intro exI [of _ "y * 2 ^ d"] conjI)
    show "2 ^ 30 \<le> y * 2 ^ d" using agree_bounds(1) [OF ag, of "2 ^ 24"] b(1) by (simp flip: of_nat_mult of_nat_power)
    show "y * 2 ^ d < 2 ^ 31" using agree_bounds(2) [OF ag, of "2 ^ 25"] b(2) by (simp flip: of_nat_mult of_nat_power)
    show "x = y * 2 ^ d * 2 powi (e - int d - 7)" unfolding assms(5) using powi_move [of "e - 7" 0 "e - int d - 7" d] by simp
  qed (rule ag)
  have unfold: "softfloat_normRoundPackToF32 mode s e g =
    (if 7 \<le> d \<and> \<not> 0xFD \<le> (word_of_int (e - int d) :: u32) then (packToF32UI s (e - int d) (shl g (d - 7)), 0)
     else softfloat_roundPackToF32 mode s (e - int d) (shl g d))"
    unfolding softfloat_normRoundPackToF32_def Let_def n_def [symmetric] d using assms(1,2) by (auto simp: not_le nat_diff_distrib')
  show ?thesis
  proof (cases "7 \<le> d \<and> \<not> 0xFD \<le> (word_of_int (e - int d) :: u32)")
    case True
    then have e: "0 \<le> e - int d" "e - int d < 0xFD" using exp_test [of "e - int d"] assms(6,7) d31 by auto
    have y: "y = real a" using assms(4) small True by auto
    define m q where "m = a * 2 ^ (d - 7)" and "q = nat (e - int d)"
    have "a * 2 ^ d = m * 2 ^ 7" unfolding m_def mult.assoc power_add [symmetric] using True by simp
    then have m: "2 ^ 23 \<le> m" "m < 2 ^ 24" using b by simp_all
    have g: "unat (shl g (d - 7)) = m" unfolding m_def using m unat_push [of g "d - 7"] by (simp add: assms(1) m_def)
    have q: "e - int d = int q" "q < 0xFD" using e by (simp_all add: q_def)
    have "2 powi (e - 7) = (2 powi int q * 2 ^ (d - 7) :: real)"
      using powi_move [of "e - 7" 0 "int q" "d - 7"] True q(1) by simp
    then have "x = real m * 2 ^ q" unfolding assms(5) y m_def by simp
    then show ?thesis unfolding unfold q(1) [symmetric] using True m q(2) rounds_pack [of m q, OF _ _ _ _ g] by (simp add: q(1))
  next
    case False
    then show ?thesis unfolding unfold using roundPack_ok [OF sf] assms(6-8) d31 by (simp only: if_False) simp
  qed
qed

section \<open>Sums\<close>

text \<open>The operand with the smaller exponent is moved to the place of the other one, with a sticky bit.\<close>

lemma jam32_word:
  assumes "unat h = S" "S < 2 ^ 31" "0 < d"
  shows "unat (ucast (softfloat_shiftRightJam32 (ucast h) d) :: u64) = jam S d"
  using shiftRightJam32_ok [of d "ucast h"] unat_narrow [of h, where 'b = 32] assms by simp

lemma jam_le: "0 < d \<Longrightarrow> a < 2 ^ k \<Longrightarrow> 1 < k \<Longrightarrow> jam a d < 2 ^ (k - 1)"
proof -
  assume d: "0 < d" "a < 2 ^ k" "1 < k"
  then obtain j where j: "k = Suc j" "0 < j" by (cases k) auto
  have "a div 2 ^ d \<le> a div 2 ^ 1" using d(1) by (intro div_le_mono2 power_increasing) simp_all
  then have lt: "a div 2 ^ d < 2 ^ j" using d(2) j by (simp add: less_mult_imp_div_less)
  have ev: "even ((2 :: nat) ^ j)" using j(2) by simp
  have "even (a div 2 ^ d) \<Longrightarrow> a div 2 ^ d + 1 \<noteq> 2 ^ j" using ev by (metis even_plus_one_iff)
  then show ?thesis using lt j by (auto simp: jam_eq)
qed

lemma add_far:
  assumes g: "unat g = N * 2 ^ 6" "N < 2 ^ 23" and h: "unat h = S * 2 ^ 6" "S < 2 ^ 24" and d: "0 < d" and e: "0 < e" "e < 255"
    and x: "x = real (2 ^ 23 + N) * 2 powi (e - 1) + real S * 2 powi (e - 1 - int d)" and mode: "mode \<noteq> 6"
    and z: "z = 0x20000000 + g + ucast (softfloat_shiftRightJam32 (ucast h) d)"
  shows "rounds_to mode s x (if z < 0x40000000 then softfloat_roundPackToF32 mode s (e - 1) (shl z 1)
    else softfloat_roundPackToF32 mode s e z)"
proof -
  define j where "j = jam (S * 2 ^ 6) d"
  define w :: u64 where "w = ucast (softfloat_shiftRightJam32 (ucast h) d)"
  have j: "unat w = j" unfolding j_def w_def using h d by (intro jam32_word) simp_all
  have "j < 2 ^ (30 - 1)" unfolding j_def using h(2) d by (intro jam_le) simp_all
  moreover have "unat (0x20000000 + g) = 2 ^ 29 + N * 2 ^ 6" using g by (simp add: unat_plus)
  ultimately have uz: "unat z = 2 ^ 29 + N * 2 ^ 6 + j" unfolding z w_def [symmetric] using g(2) by (simp add: unat_plus j)
  define y where "y = real (S * 2 ^ 6) / 2 ^ d + of_int ((2 ^ 28 + int N * 2 ^ 5) * 2 ^ 1)"
  have c: "real (2 ^ 29 + N * 2 ^ 6 + j) = real j + of_int ((2 ^ 28 + int N * 2 ^ 5) * 2 ^ 1)" by simp
  have "agree 1 y (real (2 ^ 29 + N * 2 ^ 6 + j))"
    unfolding c unfolding y_def j_def by (rule agree_add [OF agree_jam1])
  then have ag: "agree 5 y (real (2 ^ 29 + N * 2 ^ 6 + j))" by (rule agree_mono) simp
  have sd: "0 \<le> real (S * 2 ^ 6) / 2 ^ d" "real (S * 2 ^ 6) / 2 ^ d < 2 ^ 30"
  proof -
    have "real (S * 2 ^ 6) / 2 ^ d \<le> real (S * 2 ^ 6) / 1" by (rule divide_left_mono) simp_all
    also have "\<dots> < 2 ^ 30" using h(2) by simp
    finally show "real (S * 2 ^ 6) / 2 ^ d < 2 ^ 30" .
  qed simp
  have bd: "2 ^ 29 \<le> y" "y < 2 ^ 31" using sd g(2) by (simp_all add: y_def)
  have "2 powi (e - 1) = (2 powi (e - 7) * 2 ^ 6 :: real)" "2 powi (e - 1 - int d) * 2 ^ d = (2 powi (e - 7) * 2 ^ 6 :: real)"
    using powi_move [of "e - 1" 0 "e - 7" 6] powi_move [of "e - 1 - int d" d "e - 7" 6] by simp_all
  then have xy: "x = y * 2 powi (e - 7)"
    unfolding x y_def by (simp add: field_simps)
  show ?thesis using e mode by (intro norm1_ok [OF uz ag bd xy]) simp_all
qed


lemma addMags_subnormal:
  assumes "fexp a = 0" "fexp b = 0" "mag a \<noteq> 0 \<or> mag b \<noteq> 0"
  shows "rounds_to mode (bit a 31) (of_int (fmag (mag a)) + of_int (fmag (mag b))) (softfloat_addMagsF32 mode a b)"
proof -
  let ?z = "a + ucast (fracF32UI b)"
  have ma: "mag a < 2 ^ 23" and mb: "mag b = ffrac b" "mag b < 2 ^ 23"
    using field_bounds(1,3) [of a] field_bounds(1,3) [of b] assms(1,2) by simp_all
  have fb: "unat (ucast (fracF32UI b) :: u32) = mag b"
    using unat_narrow [of "fracF32UI b", where 'b = 32] mb by (simp add: frac_ok)
  have "unat ?z = mag a + mag b + (if bit a 31 then 2 ^ 31 else 0)"
    using ma mb by (subst unat_plus) (simp_all only: fb unat_mag [of a], simp_all)
  then have z: "mag ?z = mag a + mag b" "bit ?z 31 = bit a 31"
    using ma mb by (simp_all add: mag_def [of ?z] sign_eq [of ?z])
  have "fmag (mag a) + fmag (mag b) = fmag (mag ?z)"
    unfolding z(1) using fmag_pack [of "mag a" 0] fmag_pack [of "mag b" 0] fmag_pack [of "mag a + mag b" 0] ma mb(2) by simp
  then have x: "of_int (fmag (mag a)) + of_int (fmag (mag b)) = (of_int (fmag (mag ?z)) :: real)" by (simp flip: of_int_add)
  have "softfloat_addMagsF32 mode a b = (?z, 0)"
    unfolding softfloat_addMagsF32_def Let_def using assms(1,2) by (simp add: exp_ok)
  moreover have "fexp ?z < 255" using ma mb by (simp add: fexp_finite z(1))
  ultimately show ?thesis using z assms(3) by (simp add: rounds_exact x)
qed

lemma addMags_same:
  assumes "fexp a = fexp b" "fexp a \<noteq> 0" "fexp a < 255" "mode \<noteq> 6"
  shows "rounds_to mode (bit a 31) (of_int (fmag (mag a)) + of_int (fmag (mag b))) (softfloat_addMagsF32 mode a b)"
proof -
  define s e m where "s = bit a 31" and "e = int (fexp a)" and "m = 2 ^ 24 + ffrac a + ffrac b"
  define x :: real where "x = of_int (fmag (mag a)) + of_int (fmag (mag b))"
  define g where "g = 0x01000000 + fracF32UI a + fracF32UI b"
  have fb: "ffrac a < 2 ^ 23" "ffrac b < 2 ^ 23" by (rule field_bounds)+
  then have "unat (0x01000000 + fracF32UI a) = 2 ^ 24 + ffrac a" by (simp add: unat_plus frac_ok)
  then have g: "unat g = m" unfolding g_def m_def using fb by (simp add: unat_plus frac_ok)
  have m: "2 ^ 24 \<le> m" "m < 2 ^ 25" using fb by (simp_all add: m_def)
  have x: "x = real m * 2 powi (e - 1)" using assms(1,2) by (simp add: x_def fmag_lead lead_def m_def e_def algebra_simps)
  have ev: "g AND 1 = 0 \<longleftrightarrow> even m"
    using unat_take [of g 1] by (simp add: g unat_eq_0 [symmetric] even_iff_mod_2_eq_zero mask_eq_exp_minus_1)
  have unfold: "softfloat_addMagsF32 mode a b = (if even m \<and> e < 0xFE then (packToF32UI s e (shr g 1), 0)
      else softfloat_roundPackToF32 mode s e (shl g 6))"
    unfolding softfloat_addMagsF32_def Let_def sign_bit s_def [symmetric] g_def [symmetric] ev using assms(1-3) by (simp add: exp_ok e_def)
  have "rounds_to mode s x (softfloat_addMagsF32 mode a b)"
  proof (cases "even m \<and> e < 0xFE")
    case True
    define n where "n = m div 2"
    have n: "m = 2 * n" using True by (simp add: n_def)
    have "x = real n * 2 ^ fexp a" unfolding x n e_def using powi_move [of "int (fexp a) - 1" 1 "int (fexp a)" 0] by simp
    then have "rounds_to mode s x (packToF32UI s (int (fexp a)) (shr g 1), 0)"
      using True m n e_def by (intro rounds_pack [of n]) (simp_all add: unat_drop [of 1 g, simplified] g)
    then show ?thesis unfolding unfold using True by (simp add: e_def)
  next
    case False
    have u: "unat (shl g 6) = m * 2 ^ 6" using m unat_push [of g 6] by (simp add: g)
    have "x = real (m * 2 ^ 6) * 2 powi (e - 7)" unfolding x using powi_move [of "e - 1" 0 "e - 7" 6] by simp
    then have "stands_for (unat (shl g 6)) e x"
      unfolding stands_for_def u using m by (intro exI [of _ "real (m * 2 ^ 6)"]) simp
    then show ?thesis unfolding unfold if_not_P [OF False] using assms(3,4) by (intro roundPack_ok) (simp_all add: e_def)
  qed
  then show ?thesis by (simp add: s_def x_def)
qed

lemma far_sum:
  assumes "fexp b < fexp a" "fexp a < 255" "mode \<noteq> 6"
    and z: "z = 0x20000000 + shl (fracF32UI a) 6 + ucast (softfloat_shiftRightJam32
      (ucast (shl (fracF32UI b) 6 + (if expF32UI b \<noteq> 0 then 0x20000000 else shl (fracF32UI b) 6))) (fexp a - fexp b))"
  shows "rounds_to mode s (of_int (fmag (mag a)) + of_int (fmag (mag b)))
    (if z < 0x40000000 then softfloat_roundPackToF32 mode s (int (fexp a) - 1) (shl z 1)
     else softfloat_roundPackToF32 mode s (int (fexp a)) z)"
proof (rule add_far [OF frac_shl [of 6 a] _ lead_shl(1) [of b] lead_bound _ _ _ _ assms(3) z])
  show "of_int (fmag (mag a)) + of_int (fmag (mag b)) =
      real (2 ^ 23 + ffrac a) * 2 powi (int (fexp a) - 1) + real (lead b) * 2 powi (int (fexp a) - 1 - int (fexp a - fexp b))"
    using assms(1) by (simp add: fmag_lead lead_def [of a] of_nat_diff)
qed (use assms(1,2) field_bounds(1) [of a] in simp_all)

lemma addMags_far:
  assumes "fexp a \<noteq> fexp b" "fexp a < 255" "fexp b < 255" "mode \<noteq> 6"
  shows "rounds_to mode (bit a 31) (of_int (fmag (mag a)) + of_int (fmag (mag b))) (softfloat_addMagsF32 mode a b)"
proof (cases "fexp a < fexp b")
  case True
  have e: "expF32UI a - expF32UI b \<noteq> 0" "expF32UI a - expF32UI b < 0" "expF32UI b \<noteq> 0xFF"
    "nat (- (expF32UI a - expF32UI b)) = fexp b - fexp a" using True assms(3) by (simp_all add: exp_ok)
  have c: "0x20000000 + u + v = 0x20000000 + v + u" for u v :: u64 by simp
  show ?thesis using far_sum [OF True assms(3,4) refl, of "bit a 31"]
    unfolding softfloat_addMagsF32_def Let_def sign_bit c [of _ "shl (fracF32UI b) 6"] e(4) using e(1-3)
    by (simp only: if_True if_False simp_thms add.commute [of "of_int (fmag (mag a))"] exp_ok [of b])
next
  case False
  then have e: "expF32UI a - expF32UI b \<noteq> 0" "\<not> expF32UI a - expF32UI b < 0" "expF32UI a \<noteq> 0xFF"
    "nat (expF32UI a - expF32UI b) = fexp a - fexp b" "fexp b < fexp a" using assms(1,2) by (simp_all add: exp_ok)
  show ?thesis using far_sum [OF e(5) assms(2,4) refl, of "bit a 31"]
    unfolding softfloat_addMagsF32_def Let_def sign_bit e(4) using e(1-3) by (simp only: if_True if_False simp_thms exp_ok [of a])
qed

lemma addMags_ok:
  assumes "fexp a < 255" "fexp b < 255" "mag a \<noteq> 0 \<or> mag b \<noteq> 0" "mode \<noteq> 6"
  shows "rounds_to mode (bit a 31) (of_int (fmag (mag a)) + of_int (fmag (mag b))) (softfloat_addMagsF32 mode a b)"
proof (cases "fexp a = fexp b")
  case True
  then show ?thesis using addMags_subnormal [of a b mode] addMags_same [of a b mode] assms by (cases "fexp a = 0") auto
qed (use addMags_far assms in blast)

section \<open>Differences\<close>

lemma or_top: "unat w < 2 ^ 30 \<Longrightarrow> unat (w OR 0x40000000) = unat w + 2 ^ 30" for w :: u64
proof -
  assume w: "unat w < 2 ^ 30"
  have "\<not> bit w n" if "30 \<le> n" for n
  proof -
    have "unat w div 2 ^ n = 0" using w power_increasing [OF that, of "2 :: nat"] by simp
    then show ?thesis by (simp add: bit_div)
  qed
  then have "w OR 2 ^ 30 = w + 2 ^ 30" by (rule or_exp)
  then have "w OR 0x40000000 = w + 0x40000000" by simp
  then show ?thesis using w by (simp add: unat_plus)
qed

lemma jam_shift: "jam (S * 2 ^ k) d \<le> S * 2 ^ k div 2 ^ d + 1"
  by (simp add: jam_eq)

lemma jam_exact: "d \<le> k \<Longrightarrow> real (jam (S * 2 ^ k) d) = real (S * 2 ^ k) / 2 ^ d"
proof -
  assume "d \<le> k"
  then have k: "(2 :: nat) ^ k = 2 ^ (k - d) * 2 ^ d" by (simp flip: power_add)
  have "S * 2 ^ k mod 2 ^ d = 0" "S * 2 ^ k div 2 ^ d = S * 2 ^ (k - d)" unfolding k by (simp_all flip: mult.assoc)
  then have j: "jam (S * 2 ^ k) d = S * 2 ^ (k - d)" by (simp add: jam_eq)
  have r: "real (S * 2 ^ k) = real (S * 2 ^ (k - d)) * 2 ^ d" unfolding k by simp
  show ?thesis unfolding j r by simp
qed

lemma sub_far:
  assumes g: "unat g = 2 ^ 30 + N * 2 ^ 7" "N < 2 ^ 23" and h: "unat h = S * 2 ^ 7" "S < 2 ^ 24" and d: "0 < d" and e: "0 < e" "e < 255"
    and x: "x = real (2 ^ 23 + N) * 2 powi (e - 1) - real S * 2 powi (e - 1 - int d)" and mode: "mode \<noteq> 6"
  shows "rounds_to mode s x (softfloat_normRoundPackToF32 mode s (e - 1) (g - ucast (softfloat_shiftRightJam32 (ucast h) d)))"
proof -
  define j a where "j = jam (S * 2 ^ 7) d" and "a = 2 ^ 30 + N * 2 ^ 7 - j"
  define w :: u64 where "w = ucast (softfloat_shiftRightJam32 (ucast h) d)"
  have j: "unat w = j" unfolding j_def w_def using h d by (intro jam32_word) simp_all
  have "j < 2 ^ (31 - 1)" unfolding j_def using h(2) d by (intro jam_le) simp_all
  then have a: "unat (g - w) = a" "0 < a" "a < 2 ^ 31" and ar: "real a = of_int ((2 ^ 29 + int N * 2 ^ 6) * 2 ^ 1) - real j"
    using g by (simp_all add: unat_minus j a_def of_nat_diff)
  define y where "y = of_int ((2 ^ 29 + int N * 2 ^ 6) * 2 ^ 1) - real (S * 2 ^ 7) / 2 ^ d"
  have "agree 1 y (real a)" unfolding ar unfolding y_def j_def by (rule agree_minus [OF agree_jam1])
  then have ag: "agree 5 y (real a)" by (rule agree_mono) simp
  have far: "y = real a \<or> 2 ^ 29 \<le> a \<and> agree 5 y (real a)"
  proof (cases "d \<le> 7")
    case True
    then have "y = real a" unfolding ar y_def j_def by (simp only: jam_exact)
    then show ?thesis by simp
  next
    case False
    have "S * 2 ^ 7 div 2 ^ d \<le> S * 2 ^ 7 div 2 ^ 8" using False by (intro div_le_mono2 power_increasing) simp_all
    then have "j \<le> S * 2 ^ 7 div 2 ^ 8 + 1" using jam_shift [of S 7 d] unfolding j_def by linarith
    then have "j \<le> 2 ^ 23" using h(2) by simp
    then have "2 ^ 29 \<le> a" unfolding a_def by simp
    then show ?thesis using ag by blast
  qed
  have "2 powi (e - 1) = (2 powi (e - 1 - 7) * 2 ^ 7 :: real)" "2 powi (e - 1 - int d) * 2 ^ d = (2 powi (e - 1 - 7) * 2 ^ 7 :: real)"
    using powi_move [of "e - 1" 0 "e - 1 - 7" 7] powi_move [of "e - 1 - int d" d "e - 1 - 7" 7] by simp_all
  then have xy: "x = y * 2 powi (e - 1 - 7)" unfolding x y_def by (simp add: field_simps)
  show ?thesis unfolding w_def [symmetric] using e mode by (intro normRoundPack_ok [OF a far xy]) simp_all
qed

lemma far_difference:
  assumes "fexp b < fexp a" "fexp a < 255" "mode \<noteq> 6"
  shows "rounds_to mode s (of_int (fmag (mag a)) - of_int (fmag (mag b)))
    (softfloat_normRoundPackToF32 mode s (int (fexp a) - 1) ((shl (fracF32UI a) 7 OR 0x40000000) - ucast (softfloat_shiftRightJam32
      (ucast (shl (fracF32UI b) 7 + (if expF32UI b \<noteq> 0 then 0x40000000 else shl (fracF32UI b) 7))) (fexp a - fexp b))))"
proof (rule sub_far [OF _ _ lead_shl(2) [of b] lead_bound _ _ _ _ assms(3)])
  show "unat (shl (fracF32UI a) 7 OR 0x40000000) = 2 ^ 30 + ffrac a * 2 ^ 7"
    using or_top [of "shl (fracF32UI a) 7"] frac_shl [of 7 a] field_bounds(1) [of a] by simp
  show "of_int (fmag (mag a)) - of_int (fmag (mag b)) =
      real (2 ^ 23 + ffrac a) * 2 powi (int (fexp a) - 1) - real (lead b) * 2 powi (int (fexp a) - 1 - int (fexp a - fexp b))"
    using assms(1) by (simp add: fmag_lead lead_def [of a] of_nat_diff)
qed (use assms(1,2) field_bounds(1) [of a] in simp_all)

text \<open>With equal exponents the difference is exact.\<close>

lemma sless_zero: "w <s 0 \<longleftrightarrow> 2 ^ 63 \<le> unat w" for w :: u64
proof -
  have "w <s 0 \<longleftrightarrow> bit w 63" using bit_last_iff [of w] by (simp add: word_sless_alt)
  also have "\<dots> \<longleftrightarrow> 2 ^ 63 \<le> unat w"
  proof -
    have "unat w div 2 ^ 63 < 2" using unsigned_less [of w, where 'a = nat] by (intro less_mult_imp_div_less) simp
    then have "odd (unat w div 2 ^ 63) \<longleftrightarrow> unat w div 2 ^ 63 \<noteq> 0" by (auto simp: less_2_cases_iff)
    then show ?thesis by (simp add: bit_div div_greater_zero_iff)
  qed
  finally show ?thesis .
qed

lemma diff_words:
  fixes g h :: u64
  assumes "unat g = m" "unat h = n" "m < 2 ^ 63" "n < 2 ^ 63" "m \<noteq> n"
  shows "g - h <s 0 \<longleftrightarrow> m < n" "unat (if g - h <s 0 then - (g - h) else g - h) = (if m < n then n - m else m - n)" "g - h \<noteq> 0"
proof -
  have le: "unat (g - h) = m - n" if "n \<le> m" using unat_minus [of h g] that assms by simp
  have ge: "unat (- (g - h)) = n - m" if "m \<le> n" using unat_minus [of g h] that assms by simp
  have neg: "2 ^ 63 \<le> unat (g - h)" if "m < n"
    using that assms by (simp add: unat_sub_if_size word_size word_le_nat_alt)
  show c: "g - h <s 0 \<longleftrightarrow> m < n" unfolding sless_zero using neg le assms by (cases "m < n") auto
  show "unat (if g - h <s 0 then - (g - h) else g - h) = (if m < n then n - m else m - n)" unfolding c using le ge by simp
  show "g - h \<noteq> 0" using assms by auto
qed

lemma exact_difference:
  assumes "unat w = D" "0 < D" "D < 2 ^ 23" "k \<le> 253"
    and "n = int (softfloat_countLeadingZeros32 (ucast w)) - 8" "x = real D * 2 ^ k"
    and "(d, e) = (if int k - n < 0 then (int k, 0) else (n, int k - n))"
  shows "rounds_to mode s x (packToF32UI s e (shl w (nat d)), 0)"
proof -
  define c where "c = softfloat_countLeadingZeros32 (ucast w)"
  have u: "unat (ucast w :: u32) = D" using assms(1,3) unat_narrow [of w, where 'b = 32] by simp
  then have "(ucast w :: u32) \<noteq> 0" using assms(2) by (auto simp: unat_eq_0 [symmetric])
  note cl = clz32_ok [OF this c_def, unfolded u]
  have c8: "8 \<le> c"
  proof (rule ccontr)
    assume "\<not> 8 \<le> c"
    then have "D * 2 ^ c \<le> D * 2 ^ 8" by (intro mult_le_mono2 power_increasing) simp_all
    then have "2 ^ 31 \<le> D * 2 ^ 8" using cl(1) by (rule order_trans [rotated])
    then show False using assms(3) by simp
  qed
  define r where "r = c - 8"
  have n: "n = int r" using c8 assms(5) by (simp add: r_def c_def)
  have "(2 :: nat) ^ c = 2 ^ r * 2 ^ 8" unfolding power_add [symmetric] using c8 by (simp add: r_def)
  then have e: "D * 2 ^ c = D * 2 ^ r * 2 ^ 8" by simp
  have b: "2 ^ 23 \<le> D * 2 ^ r" "D * 2 ^ r < 2 ^ 24" using cl unfolding e by simp_all
  show ?thesis
  proof (cases "k < r")
    case True
    have "D * 2 ^ k \<le> D * 2 ^ r" using True by (intro mult_le_mono2 power_increasing) simp_all
    then have m: "D * 2 ^ k < 2 ^ 24" using b(2) by (rule le_less_trans)
    have "unat (shl w k) = D * 2 ^ k" using m unat_push [of w k] by (simp add: assms(1))
    then have "rounds_to mode s x (packToF32UI s (int 0) (shl w k), 0)"
      using m assms(2,6) by (intro rounds_pack [of "D * 2 ^ k" 0]) simp_all
    then show ?thesis using True assms(7) by (simp add: n)
  next
    case False
    have g: "unat (shl w r) = D * 2 ^ r" using b unat_push [of w r] by (simp add: assms(1))
    have "x = real (D * 2 ^ r) * 2 ^ (k - r)" using False by (simp add: assms(6) flip: power_add)
    then have "rounds_to mode s x (packToF32UI s (int (k - r)) (shl w r), 0)"
      using b assms(2,4) g by (intro rounds_pack [of "D * 2 ^ r" "k - r"]) simp_all
    then show ?thesis using False assms(7) by (simp add: n of_nat_diff)
  qed
qed

lemma fmag_same:
  assumes "k = (if fexp f = 0 then 0 else fexp f - 1)" "c = (if fexp f = 0 then 0 else 2 ^ 23)"
  shows "fmag (mag f) = (int c + int (ffrac f)) * 2 ^ k"
  using assms by (simp add: fmag_def fexp_def ffrac_def)

lemma subMags_same:
  assumes "fexp a = fexp b" "fexp a < 255" "ffrac a \<noteq> ffrac b"
  shows "rounds_to mode (bit a 31 \<noteq> (fmag (mag a) < fmag (mag b))) \<bar>of_int (fmag (mag a)) - of_int (fmag (mag b))\<bar>
    (softfloat_subMagsF32 mode a b)"
proof -
  define k c where "k = (if fexp a = 0 then 0 else fexp a - 1)" and "c = (if fexp a = 0 then 0 else 2 ^ 23 :: nat)"
  have A: "fmag (mag a) = (int c + int (ffrac a)) * 2 ^ k" and B: "fmag (mag b) = (int c + int (ffrac b)) * 2 ^ k"
    using assms(1) by (simp_all add: fmag_same k_def c_def)
  have fb: "ffrac a < 2 ^ 23" "ffrac b < 2 ^ 23" by (rule field_bounds)+
  define w where "w = (if fracF32UI a - fracF32UI b <s 0 then - (fracF32UI a - fracF32UI b) else fracF32UI a - fracF32UI b)"
  define D where "D = (if ffrac a < ffrac b then ffrac b - ffrac a else ffrac a - ffrac b)"
  note dw = diff_words [OF frac_ok [of a] frac_ok [of b] _ _ assms(3)]
  have w: "unat w = D" unfolding w_def D_def using dw(2) fb by simp
  have D: "0 < D" "D < 2 ^ 23" using assms(3) fb by (auto simp: D_def)
  have x: "\<bar>of_int (fmag (mag a)) - of_int (fmag (mag b))\<bar> = (real D * 2 ^ k :: real)"
    unfolding A B by (simp add: D_def abs_mult of_nat_diff flip: left_diff_distrib)
  have lt: "fmag (mag a) < fmag (mag b) \<longleftrightarrow> ffrac a < ffrac b" unfolding A B by simp
  define s where "s = (bit a 31 \<noteq> (ffrac a < ffrac b))"
  define n where "n = int (softfloat_countLeadingZeros32 (ucast w)) - 8"
  obtain d e where de: "(d, e) = (if int k - n < 0 then (int k, 0) else (n, int k - n))" by (metis surj_pair)
  have "softfloat_subMagsF32 mode a b = (packToF32UI s e (shl w (nat d)), 0)"
  proof -
    have sw: "(if fracF32UI a - fracF32UI b <s 0 then (\<not> bit a 31, - (fracF32UI a - fracF32UI b)) else (bit a 31, fracF32UI a - fracF32UI b)) = (s, w)"
      using dw(1) fb by (simp add: s_def w_def)
    have ek: "(if expF32UI a \<noteq> 0 then expF32UI a - 1 else expF32UI a) = int k" by (simp add: exp_ok k_def of_nat_diff)
    have c: "expF32UI a - expF32UI b = 0" "expF32UI a \<noteq> 0xFF" "fracF32UI a - fracF32UI b \<noteq> 0"
      using assms(1,2) dw(3) fb by (simp_all add: exp_ok)
    show ?thesis unfolding softfloat_subMagsF32_def Let_def sign_bit sw ek prod.case n_def [symmetric] de [symmetric]
      using c by (simp only: if_True if_False simp_thms)
  qed
  moreover have "rounds_to mode s (real D * 2 ^ k) (packToF32UI s e (shl w (nat d)), 0)"
    using assms(2) by (intro exact_difference [OF w D _ n_def refl de]) (auto simp: k_def)
  ultimately show ?thesis unfolding x lt s_def by simp
qed

lemma subMags_zero:
  assumes "fexp a < 255" "mag a = mag b"
  shows "softfloat_subMagsF32 mode a b = (packToF32UI (mode = 2) 0 0, 0)"
proof -
  have "fracF32UI a = fracF32UI b" using frac_ok [of a] frac_ok [of b] assms(2) by (simp add: word_unat_eq_iff ffrac_def)
  moreover have "expF32UI a = expF32UI b" "expF32UI b \<noteq> 0xFF" using assms by (simp_all add: exp_ok fexp_def)
  ultimately show ?thesis unfolding softfloat_subMagsF32_def Let_def by simp
qed

lemma subMags_far:
  assumes "fexp a \<noteq> fexp b" "fexp a < 255" "fexp b < 255" "mode \<noteq> 6"
  shows "rounds_to mode (bit a 31 \<noteq> (fmag (mag a) < fmag (mag b))) \<bar>of_int (fmag (mag a)) - of_int (fmag (mag b))\<bar>
    (softfloat_subMagsF32 mode a b)"
proof (cases "fexp a < fexp b")
  case True
  have e: "expF32UI a - expF32UI b \<noteq> 0" "expF32UI a - expF32UI b < 0" "expF32UI b \<noteq> 0xFF"
    "nat (- (expF32UI a - expF32UI b)) = fexp b - fexp a" using True assms(3) by (simp_all add: exp_ok)
  have "mag a < mag b" using True unfolding fexp_def by (meson div_le_mono not_le)
  then have s: "(bit a 31 \<noteq> (fmag (mag a) < fmag (mag b))) = (\<not> bit a 31)"
    "\<bar>of_int (fmag (mag a)) - of_int (fmag (mag b))\<bar> = (of_int (fmag (mag b)) - of_int (fmag (mag a)) :: real)" by simp_all
  show ?thesis using far_difference [OF True assms(3,4), of "\<not> bit a 31"]
    unfolding softfloat_subMagsF32_def Let_def sign_bit s e(4) using e(1-3) by (simp only: if_True if_False simp_thms exp_ok [of b])
next
  case False
  then have e: "expF32UI a - expF32UI b \<noteq> 0" "\<not> expF32UI a - expF32UI b < 0" "expF32UI a \<noteq> 0xFF"
    "nat (expF32UI a - expF32UI b) = fexp a - fexp b" "fexp b < fexp a" using assms(1,2) by (simp_all add: exp_ok)
  have "mag b < mag a" using e(5) unfolding fexp_def by (meson div_le_mono not_le)
  then have s: "(bit a 31 \<noteq> (fmag (mag a) < fmag (mag b))) = bit a 31"
    "\<bar>of_int (fmag (mag a)) - of_int (fmag (mag b))\<bar> = (of_int (fmag (mag a)) - of_int (fmag (mag b)) :: real)" by simp_all
  show ?thesis using far_difference [OF e(5) assms(2,4), of "bit a 31"]
    unfolding softfloat_subMagsF32_def Let_def sign_bit s e(4) using e(1-3) by (simp only: if_True if_False simp_thms exp_ok [of a])
qed

lemma subMags_ok:
  assumes "fexp a < 255" "fexp b < 255" "mag a \<noteq> mag b" "mode \<noteq> 6"
  shows "rounds_to mode (bit a 31 \<noteq> (fmag (mag a) < fmag (mag b))) \<bar>of_int (fmag (mag a)) - of_int (fmag (mag b))\<bar>
    (softfloat_subMagsF32 mode a b)"
proof (cases "fexp a = fexp b")
  case True
  moreover have "ffrac a \<noteq> ffrac b" using assms(3) True field_bounds(3) [of a] field_bounds(3) [of b] by auto
  ultimately show ?thesis using subMags_same assms(1) by blast
qed (use subMags_far assms in blast)

section \<open>The operations\<close>

lemma fval_sign: "of_int (fval a) = (if bit a 31 then - 1 else 1 :: real) * of_int (fmag (mag a))"
  by (simp add: fval_def)

text \<open>
  The result of an operation whose exact value is \<open>v\<close>: the rounded value, or a zero with the sign \<open>s\<close> and
  no flags.
\<close>

definition ieee_result :: "u8 \<Rightarrow> real \<Rightarrow> bool \<Rightarrow> u32 \<times> u8 \<Rightarrow> bool" where
  "ieee_result mode v s r \<longleftrightarrow>
    (if v = 0 then r = (if s then 0x80000000 else 0, 0) else rounds_to mode (v < 0) \<bar>v\<bar> r)"

lemma ieee_signed: "0 < x \<Longrightarrow> v = (if s then - x else x) \<Longrightarrow> rounds_to mode s x r \<Longrightarrow> ieee_result mode v s' r"
  by (cases s) (simp_all add: ieee_result_def)

lemma pack_zero: "packToF32UI s 0 0 = (if s then 0x80000000 else 0)"
  by (simp add: packToF32UI_def)

lemma zero_word: "mag a = 0 \<Longrightarrow> a = (if bit a 31 then 0x80000000 else 0)"
  using unat_mag [of a] by (simp add: word_unat_eq_iff)

lemma fmag_zero: "fmag m = 0 \<longleftrightarrow> m = 0"
  using fmag_eq [of m 0] by (simp add: fmag_0 del: fmag_eq)

lemma addMags_zero: "mag a = 0 \<Longrightarrow> mag b = 0 \<Longrightarrow> softfloat_addMagsF32 mode a b = (a, 0)"
proof -
  assume z: "mag a = 0" "mag b = 0"
  then have "expF32UI a = 0" "expF32UI b = 0" "fracF32UI b = 0"
    using frac_ok [of b] by (simp_all add: exp_ok fexp_def ffrac_def unat_eq_0 [symmetric])
  then show ?thesis by (simp add: softfloat_addMagsF32_def)
qed

lemma addMags_ieee:
  assumes "fexp a < 255" "fexp b < 255" "mode \<noteq> 6" "v = (if bit a 31 then - 1 else 1) * (of_int (fmag (mag a)) + of_int (fmag (mag b)))"
  shows "ieee_result mode v (bit a 31) (softfloat_addMagsF32 mode a b)"
proof (cases "mag a = 0 \<and> mag b = 0")
  case True
  then show ?thesis using addMags_zero [of a b mode] zero_word [of a] assms(4) by (simp add: ieee_result_def fmag_0)
next
  case False
  define x :: real where "x = of_int (fmag (mag a)) + of_int (fmag (mag b))"
  have "0 < fmag (mag a) + fmag (mag b)" using False fmag_pos [of "mag a"] fmag_pos [of "mag b"] by linarith
  then have "0 < x" by (simp add: x_def flip: of_int_add)
  then have "v \<noteq> 0" "v < 0 \<longleftrightarrow> bit a 31" "\<bar>v\<bar> = x" using assms(4) by (simp_all add: x_def [symmetric])
  then show ?thesis using addMags_ok [OF assms(1,2) _ assms(3)] False by (simp add: ieee_result_def x_def)
qed

lemma subMags_ieee:
  assumes "fexp a < 255" "fexp b < 255" "mode \<noteq> 6" "v = (if bit a 31 then - 1 else 1) * (of_int (fmag (mag a)) - of_int (fmag (mag b)))"
  shows "ieee_result mode v (mode = 2) (softfloat_subMagsF32 mode a b)"
proof (cases "mag a = mag b")
  case True
  then show ?thesis using subMags_zero [OF assms(1) True, of mode] assms(4) by (simp add: ieee_result_def pack_zero)
next
  case False
  have "fmag (mag a) \<noteq> fmag (mag b)" using False by simp
  then have "v \<noteq> 0" "v < 0 \<longleftrightarrow> bit a 31 \<noteq> (fmag (mag a) < fmag (mag b))" using assms(4) by auto
  moreover have "\<bar>v\<bar> = \<bar>of_int (fmag (mag a)) - of_int (fmag (mag b))\<bar>" using assms(4) by (simp add: abs_minus_commute)
  ultimately show ?thesis using subMags_ok [OF assms(1,2) False assms(3)] by (simp add: ieee_result_def)
qed

lemma f32_add_ieee:
  assumes "fexp a < 255" "fexp b < 255" "mode \<noteq> 6"
  shows "ieee_result mode (of_int (fval a) + of_int (fval b)) (if bit a 31 = bit b 31 then bit a 31 else mode = 2) (f32_add mode a b)"
  using addMags_ieee [OF assms, OF refl] subMags_ieee [OF assms, OF refl]
  by (cases "bit a 31"; cases "bit b 31") (simp_all add: f32_add_def sign_xor fval_def algebra_simps)

lemma f32_sub_ieee:
  assumes "fexp a < 255" "fexp b < 255" "mode \<noteq> 6"
  shows "ieee_result mode (of_int (fval a) - of_int (fval b)) (if bit a 31 \<noteq> bit b 31 then bit a 31 else mode = 2) (f32_sub mode a b)"
  using addMags_ieee [OF assms, OF refl] subMags_ieee [OF assms, OF refl]
  by (cases "bit a 31"; cases "bit b 31") (simp_all add: f32_sub_def sign_xor fval_def algebra_simps)

lemma f32_mul_ieee:
  assumes "fexp a < 255" "fexp b < 255" "mode \<noteq> 6"
  shows "ieee_result mode (of_int (fval a) * of_int (fval b) / 2 ^ 149) (bit a 31 \<noteq> bit b 31) (f32_mul mode a b)"
proof (cases "mag a = 0 \<or> mag b = 0")
  case True
  then have "f32_mul mode a b = (packToF32UI (bit a 31 \<noteq> bit b 31) 0 0, 0)"
    using norm_ok [OF assms(1)] norm_ok [OF assms(2)] assms(1,2) unfolding f32_mul_def Let_def sign_bit
    by (cases "mag a = 0") (fastforce simp: exp_ok)+
  then show ?thesis using True by (auto simp: ieee_result_def pack_zero fval_def fmag_0)
next
  case False
  define x :: real where "x = of_int (fmag (mag a)) * of_int (fmag (mag b)) / 2 ^ 149"
  have "0 < fmag (mag a)" "0 < fmag (mag b)" using False fmag_pos(2) by simp_all
  then have "0 < x" by (simp add: x_def)
  moreover have "of_int (fval a) * of_int (fval b) / 2 ^ 149 = (if bit a 31 \<noteq> bit b 31 then - x else x)"
    by (simp add: x_def fval_def)
  moreover have "rounds_to mode (bit a 31 \<noteq> bit b 31) x (f32_mul mode a b)"
    unfolding x_def by (rule f32_mul_ok [OF assms(1,2) _ _ assms(3)]) (use False in auto)
  ultimately show ?thesis by (rule ieee_signed)
qed

lemma f32_div_ieee:
  assumes "fexp a < 255" "fexp b < 255" "mag b \<noteq> 0" "mode \<noteq> 6"
  shows "ieee_result mode (of_int (fval a) / of_int (fval b) * 2 ^ 149) (bit a 31 \<noteq> bit b 31) (f32_div mode a b)"
proof (cases "mag a = 0")
  case True
  obtain e h where "norm_operand (expF32UI b) (fracF32UI b) = Some (e, h)" using norm_ok(2) [OF assms(2,3)] by blast
  then have "f32_div mode a b = (packToF32UI (bit a 31 \<noteq> bit b 31) 0 0, 0)"
    using norm_ok(1) [OF assms(1) True] assms(1,2) unfolding f32_div_def Let_def sign_bit by (simp add: exp_ok)
  then show ?thesis using True by (simp add: ieee_result_def pack_zero fval_def fmag_0)
next
  case False
  define x :: real where "x = of_int (fmag (mag a)) / of_int (fmag (mag b)) * 2 ^ 149"
  have "0 < fmag (mag a)" "0 < fmag (mag b)" using False assms(3) fmag_pos(2) by simp_all
  then have "0 < x" by (simp add: x_def)
  moreover have "of_int (fval a) / of_int (fval b) * 2 ^ 149 = (if bit a 31 \<noteq> bit b 31 then - x else x)"
    by (simp add: x_def fval_def)
  moreover have "rounds_to mode (bit a 31 \<noteq> bit b 31) x (f32_div mode a b)"
    unfolding x_def using f32_div_ok [OF assms(1,2) False assms(3,4)] by blast
  ultimately show ?thesis by (rule ieee_signed)
qed

end
