(* ===== verification/Softfloat_Fma.thy ===== *)
theory Softfloat_Fma
  imports Softfloat_Add
begin

unbundle bit_operations_syntax

text \<open>The fused multiplication and addition rounds once.\<close>

section \<open>Normalising 64 bits\<close>

lemma norm64_ok:
  assumes "unat g = a" "0 < a" "a < 2 ^ 63" "Y = real a \<or> 2 ^ 60 \<le> a \<and> agree 1 Y (real a)" "x = Y * 2 powi (e - 39)"
    "- (2 ^ 19) < e" "e < 2 ^ 19" "mode \<noteq> 6" "n = int (softfloat_countLeadingZeros64 g) - 1"
  shows "rounds_to mode s x (softfloat_roundPackToF32 mode s (e - n)
    (if n - 32 < 0 then softfloat_shortShiftRightJam64 g (nat (- (n - 32))) else shl g (nat (n - 32))))"
proof -
  define c where "c = softfloat_countLeadingZeros64 g"
  have "g \<noteq> 0" using assms(1,2) by auto
  note cl = clz64_ok [OF this c_def, unfolded assms(1)]
  have "c \<noteq> 0" using cl(1) assms(3) by (intro notI) simp
  then obtain d where d: "c = Suc d" using not0_implies_Suc by blast
  then have n: "n = int d" using assms(9) by (simp add: c_def)
  have b: "2 ^ 62 \<le> a * 2 ^ d" "a * 2 ^ d < 2 ^ 63" using cl by (simp_all add: d)
  have "1 * 2 ^ d \<le> a * 2 ^ d" using assms(2) by (intro mult_le_mono1) simp
  then have "(2 :: nat) ^ d < 2 ^ 63" using b(2) by linarith
  then have d63: "d < 63" by (rule power_less_imp_less_exp [rotated]) simp
  show ?thesis
  proof (cases "d < 32")
    case True
    define k where "k = 32 - d"
    have ag: "agree 1 Y (real a)" using assms(4) by auto
    have p: "(2 :: real) ^ 32 = 2 ^ k * 2 ^ d" unfolding power_add [symmetric] using True by (simp add: k_def)
    have r: "real (a * 2 ^ d) = real a * 2 ^ d" by simp
    have "agree (1 + d) (Y * 2 ^ d) (real (a * 2 ^ d))" unfolding r using agree_scale ag by blast
    then have "agree 33 (Y * 2 ^ d) (real (a * 2 ^ d))" by (rule agree_mono) (use True in simp)
    then have bY: "2 ^ 62 \<le> Y * 2 ^ d" "Y * 2 ^ d < 2 ^ 63"
      using agree_bounds(1) [of 33 "Y * 2 ^ d" "real (a * 2 ^ d)" "2 ^ 29"] agree_bounds(2) [of 33 "Y * 2 ^ d" "real (a * 2 ^ d)" "2 ^ 30"] b
      by (simp_all flip: of_nat_mult of_nat_power)
    define y where "y = Y / 2 ^ k"
    have y: "y * 2 ^ 32 = Y * 2 ^ d" unfolding y_def p by simp
    have "agree 6 y (real (jam a k))" unfolding y_def using agree_mono [OF ag, of "6 + k"] by (intro agree_jam) simp_all
    moreover have "2 ^ 30 \<le> y" "y < 2 ^ 31" using bY unfolding y [symmetric] by simp_all
    moreover have "2 powi (e - 39) * 2 ^ k = (2 powi (e - n - 7) :: real)"
      using powi_move [of "e - 39" k "e - n - 7" 0] True by (simp add: k_def n of_nat_diff)
    then have "x = y * 2 powi (e - n - 7)" unfolding assms(5) y_def by (simp add: field_simps)
    ultimately have "stands_for (unat (softfloat_shortShiftRightJam64 g k)) (e - n) x"
      unfolding stands_for_def shortShiftRightJam64_ok assms(1) by blast
    then show ?thesis using True assms(6-8) by (simp add: n k_def nat_diff_distrib' roundPack_ok)
  next
    case False
    define k where "k = d - 32"
    have "(2 :: nat) ^ d = 2 ^ k * 2 ^ 32" unfolding power_add [symmetric] using False by (simp add: k_def)
    then have e: "a * 2 ^ d = a * 2 ^ k * 2 ^ 32" by simp
    have m: "2 ^ 30 \<le> a * 2 ^ k" "a * 2 ^ k < 2 ^ 31" using b unfolding e by simp_all
    have "a * 1 \<le> a * 2 ^ k" by (intro mult_le_mono2) simp
    then have "a < 2 ^ 31" using m(2) by linarith
    then have y: "Y = real a" using assms(4) by auto
    have g: "unat (shl g k) = a * 2 ^ k" using m unat_push [of g k] by (simp add: assms(1))
    have "2 powi (e - 39) = (2 powi (e - n - 7) * 2 ^ k :: real)"
      using powi_move [of "e - 39" 0 "e - n - 7" k] False by (simp add: k_def n of_nat_diff)
    then have "x = real (a * 2 ^ k) * 2 powi (e - n - 7)" unfolding assms(5) y by simp
    then have "stands_for (unat (shl g k)) (e - n) x"
      unfolding stands_for_def g using m by (intro exI [of _ "real (a * 2 ^ k)"]) (simp flip: of_nat_mult of_nat_power)
    then show ?thesis using False assms(6-8) d63 by (simp add: n k_def nat_diff_distrib' roundPack_ok)
  qed
qed

section \<open>Product and addend\<close>

text \<open>
  The product \<open>P * 2 ^ 14\<close> and the addend \<open>M * 2 ^ 38\<close> as numbers of 62 bits at their exponents. When one is
  moved under the other, either nothing is lost or the difference keeps its length.
\<close>

lemma jam64_word:
  "unat g = a \<Longrightarrow> a < 2 ^ 63 \<Longrightarrow> 0 < d \<Longrightarrow> unat (softfloat_shiftRightJam64 g d) = jam a d"
  using shiftRightJam64_ok [of d g] by simp

lemma far_diff64:
  assumes g: "unat g = A" "2 ^ 61 \<le> A" "A < 2 ^ 62" "even A" and h: "unat h = S * 2 ^ k" "S * 2 ^ k < 2 ^ 62" "0 < k" "14 \<le> k" and d: "0 < d"
  shows "\<exists>a. unat (g - softfloat_shiftRightJam64 h d) = a \<and> 0 < a \<and> a < 2 ^ 63 \<and>
    (real A - real (S * 2 ^ k) / 2 ^ d = real a \<or> 2 ^ 60 \<le> a \<and> agree 1 (real A - real (S * 2 ^ k) / 2 ^ d) (real a))"
proof -
  define j where "j = jam (S * 2 ^ k) d"
  have j: "unat (softfloat_shiftRightJam64 h d) = j" unfolding j_def using h(1,2) d by (intro jam64_word) simp_all
  have jl: "j < 2 ^ (62 - 1)" unfolding j_def using h(2) d by (intro jam_le) simp_all
  have a: "unat (g - softfloat_shiftRightJam64 h d) = A - j" using unat_minus [of "softfloat_shiftRightJam64 h d" g] g(1,2) jl by (simp add: j)
  obtain c where c: "A = 2 * c" using g(4) by (rule evenE)
  have ar: "real (A - j) = of_int (int c * 2 ^ 1) - real j" using g(2) jl by (simp add: c of_nat_diff)
  have Ac: "real A = of_int (int c * 2 ^ 1)" by (simp add: c)
  have ag: "agree 1 (real A - real (S * 2 ^ k) / 2 ^ d) (real (A - j))"
    unfolding ar unfolding Ac j_def by (rule agree_minus [OF agree_jam1])
  have "real A - real (S * 2 ^ k) / 2 ^ d = real (A - j) \<or> 2 ^ 60 \<le> A - j"
  proof (cases "d \<le> k")
    case True
    then have "real A - real (S * 2 ^ k) / 2 ^ d = real (A - j)" unfolding ar unfolding Ac j_def by (simp only: jam_exact)
    then show ?thesis by blast
  next
    case False
    have "S * 2 ^ k div 2 ^ d \<le> S * 2 ^ k div 2 ^ 14" using False h(4) by (intro div_le_mono2 power_increasing) simp_all
    then have "j \<le> S * 2 ^ k div 2 ^ 14 + 1" using jam_shift [of S k d] unfolding j_def by linarith
    moreover have "S * 2 ^ k div 2 ^ 14 < 2 ^ 48" using h(2) by (intro less_mult_imp_div_less) simp
    ultimately have "j \<le> 2 ^ 48" by linarith
    then have "2 ^ 60 \<le> A - j" using g(2) by simp
    then show ?thesis by blast
  qed
  then show ?thesis using a ag jl g(2,3) by (intro exI [of _ "A - j"]) auto
qed

lemma add_low:
  assumes P: "unat sigProd = P" "2 ^ 61 \<le> P" "P < 2 ^ 62" and C: "unat sigC = M * 2 ^ 6" "2 ^ 23 \<le> M" "M < 2 ^ 24"
    and e: "eP \<le> eC" "- (2 ^ 10) < eP" "eC < 2 ^ 10" and mode: "mode \<noteq> 6"
    and x: "x = real P * 2 powi (eP - 39) + real (M * 2 ^ 6) * 2 powi (eC - 7)"
    and z: "z = sigC + softfloat_shiftRightJam64 sigProd (nat (32 - (eP - eC)))"
  shows "rounds_to mode s x (if z < 0x40000000 then softfloat_roundPackToF32 mode s (eC - 1) (shl z 1)
    else softfloat_roundPackToF32 mode s eC z)"
proof -
  define k j where "k = nat (32 - (eP - eC))" and "j = jam P k"
  have k: "32 \<le> k" using e(1) by (simp add: k_def)
  have j: "unat (softfloat_shiftRightJam64 sigProd k) = j" unfolding j_def using P k by (intro jam64_word) simp_all
  have pk: "P div 2 ^ k \<le> P div 2 ^ 32" using k by (intro div_le_mono2 power_increasing) simp_all
  moreover have "P div 2 ^ 32 < 2 ^ 30" using P(3) by (intro less_mult_imp_div_less) simp
  ultimately have jl: "j \<le> 2 ^ 30" using jam_shift [of P 0 k] unfolding j_def by simp
  have uz: "unat z = M * 2 ^ 6 + j" unfolding z k_def [symmetric] using C(1,3) jl by (simp add: unat_plus j)
  define y where "y = real P / 2 ^ k + of_int ((int M * 2 ^ 5) * 2 ^ 1)"
  have c: "real (M * 2 ^ 6 + j) = real j + of_int ((int M * 2 ^ 5) * 2 ^ 1)" by simp
  have "agree 1 y (real (M * 2 ^ 6 + j))" unfolding c unfolding y_def j_def by (rule agree_add [OF agree_jam1])
  then have ag: "agree 5 y (real (M * 2 ^ 6 + j))" by (rule agree_mono) simp
  have "real P / 2 ^ k \<le> real P / 2 ^ 32" using k by (intro divide_left_mono power_increasing) simp_all
  moreover have "real P / 2 ^ 32 < 2 ^ 30" using P(3) by simp
  ultimately have pl: "0 \<le> real P / 2 ^ k" "real P / 2 ^ k < 2 ^ 30" by (simp, linarith)
  have "y = real P / 2 ^ k + real M * 2 ^ 6" "2 ^ 23 \<le> real M" "real M < 2 ^ 24" using C(2,3) by (simp_all add: y_def)
  then have bd: "2 ^ 29 \<le> y" "y < 2 ^ 31" using pl by (simp_all, linarith+)
  have "2 powi (eP - 39) * 2 ^ k = (2 powi (eC - 7) :: real)" using powi_move [of "eP - 39" k "eC - 7" 0] e(1) by (simp add: k_def)
  then have xy: "x = y * 2 powi (eC - 7)" unfolding x y_def by (simp add: field_simps)
  show ?thesis using e mode by (intro norm1_ok [OF uz ag bd xy]) simp_all
qed

lemma add_high:
  assumes P: "unat sigProd = P" "2 ^ 61 \<le> P" "P < 2 ^ 62" "even P" and C: "unat sigC = M * 2 ^ 6" "M < 2 ^ 24"
    and e: "eC < eP" "- (2 ^ 10) < eC" "eP < 2 ^ 10" and mode: "mode \<noteq> 6"
    and x: "x = real P * 2 powi (eP - 39) + real (M * 2 ^ 6) * 2 powi (eC - 7)"
    and z: "z = softfloat_shortShiftRightJam64 (sigProd + softfloat_shiftRightJam64 (shl sigC 32) (nat (eP - eC))) 32"
  shows "rounds_to mode s x (if z < 0x40000000 then softfloat_roundPackToF32 mode s (eP - 1) (shl z 1)
    else softfloat_roundPackToF32 mode s eP z)"
proof -
  define d j where "d = nat (eP - eC)" and "j = jam (M * 2 ^ 38) d"
  have d: "0 < d" using e(1) by (simp add: d_def)
  have sC: "unat (shl sigC 32) = M * 2 ^ 38" using C unat_push [of sigC 32] by simp
  have j: "unat (softfloat_shiftRightJam64 (shl sigC 32) d) = j" unfolding j_def using C(2) d by (intro jam64_word [OF sC]) simp_all
  have jl: "j < 2 ^ (62 - 1)" unfolding j_def using C(2) d by (intro jam_le) simp_all
  have uz: "unat z = jam (P + j) 32"
    unfolding z shortShiftRightJam64_ok d_def [symmetric] using unat_plus [of sigProd "softfloat_shiftRightJam64 (shl sigC 32) d"] P(1,3) jl
    by (simp add: j)
  obtain c where c: "P = 2 * c" using P(4) by (rule evenE)
  define Y where "Y = real (M * 2 ^ 38) / 2 ^ d + of_int (int c * 2 ^ 1)"
  have r: "real (P + j) = real j + of_int (int c * 2 ^ 1)" by (simp add: c)
  have "agree 1 Y (real (P + j))" unfolding r unfolding Y_def j_def by (rule agree_add [OF agree_jam1])
  then have "agree (5 + 32) Y (real (P + j))" by (rule agree_mono) simp
  then have ag: "agree 5 (Y / 2 ^ 32) (real (jam (P + j) 32))" by (rule agree_jam) simp
  have "real (M * 2 ^ 38) / 2 ^ d \<le> real (M * 2 ^ 38) / 1" by (rule divide_left_mono) simp_all
  moreover have "real (M * 2 ^ 38) / 1 < 2 ^ 62" using C(2) by simp
  ultimately have ml: "0 \<le> real (M * 2 ^ 38) / 2 ^ d" "real (M * 2 ^ 38) / 2 ^ d < 2 ^ 62" by (simp, linarith)
  have Yc: "Y = real (M * 2 ^ 38) / 2 ^ d + real P" by (simp add: Y_def c)
  have bd: "2 ^ 29 \<le> Y / 2 ^ 32" "Y / 2 ^ 32 < 2 ^ 31"
  proof -
    have "2 ^ 61 \<le> real P" "real P < 2 ^ 62" using P(2,3) by simp_all
    moreover have "(2 :: real) ^ 63 = 2 ^ 62 + 2 ^ 62" by simp
    ultimately have "2 ^ 61 \<le> Y" "Y < 2 ^ 63" using ml unfolding Yc by linarith+
    then show "2 ^ 29 \<le> Y / 2 ^ 32" "Y / 2 ^ 32 < 2 ^ 31" by simp_all
  qed
  have "2 powi (eC - 7) * 2 ^ d = (2 powi (eP - 39) * 2 ^ 32 :: real)" "2 powi (eP - 7) = (2 powi (eP - 39) * 2 ^ 32 :: real)"
    using powi_move [of "eC - 7" d "eP - 39" 32] powi_move [of "eP - 7" 0 "eP - 39" 32] e(1) by (simp_all add: d_def)
  then have xy: "x = Y / 2 ^ 32 * 2 powi (eP - 7)" unfolding x Yc by (simp add: field_simps)
  show ?thesis using e mode by (intro norm1_ok [OF uz ag bd xy]) simp_all
qed

lemma sum_unfold_same:
  assumes "sP = sC"
  shows "mulAdd_sum mode sP eP sigProd sC eC sigC =
    (if eP \<le> eC then
       (let z = sigC + softfloat_shiftRightJam64 sigProd (nat (32 - (eP - eC))) in
        if z < 0x40000000 then softfloat_roundPackToF32 mode sP (eC - 1) (shl z 1) else softfloat_roundPackToF32 mode sP eC z)
     else
       (let z = softfloat_shortShiftRightJam64 (sigProd + softfloat_shiftRightJam64 (shl sigC 32) (nat (eP - eC))) 32 in
        if z < 0x40000000 then softfloat_roundPackToF32 mode sP (eP - 1) (shl z 1) else softfloat_roundPackToF32 mode sP eP z))"
  using assms by (simp add: mulAdd_sum_def Let_def)

definition norm64 :: "u8 \<Rightarrow> bool \<Rightarrow> int \<Rightarrow> u64 \<Rightarrow> u32 \<times> u8" where
  "norm64 mode s e g =
    (let n = int (softfloat_countLeadingZeros64 g) - 1
     in softfloat_roundPackToF32 mode s (e - n)
          (if n - 32 < 0 then softfloat_shortShiftRightJam64 g (nat (- (n - 32))) else shl g (nat (n - 32))))"

lemma sum_unfold_diff:
  assumes "sP \<noteq> sC"
  shows "mulAdd_sum mode sP eP sigProd sC eC sigC =
    (if eP < eC then norm64 mode sC eC (shl sigC 32 - softfloat_shiftRightJam64 sigProd (nat (eC - eP)))
     else if eP = eC then
       (let g = sigProd - shl sigC 32 in
        if g = 0 then (packToF32UI (mode = 2) 0 0, 0)
        else if g AND 0x8000000000000000 \<noteq> 0 then norm64 mode sC eP (- g) else norm64 mode sP eP g)
     else norm64 mode sP eP (sigProd - softfloat_shiftRightJam64 (shl sigC 32) (nat (eP - eC))))"
  using assms by (simp add: mulAdd_sum_def Let_def norm64_def)

lemma norm64_rounds:
  assumes "unat g = a" "0 < a" "a < 2 ^ 63" "Y = real a \<or> 2 ^ 60 \<le> a \<and> agree 1 Y (real a)" "x = Y * 2 powi (e - 39)"
    "- (2 ^ 19) < e" "e < 2 ^ 19" "mode \<noteq> 6"
  shows "rounds_to mode s x (norm64 mode s e g)"
  unfolding norm64_def Let_def by (rule norm64_ok [OF assms refl])

text \<open>The operand with the greater exponent wins.\<close>

lemma far64:
  assumes g: "unat g = A" "2 ^ 61 \<le> A" "A < 2 ^ 62" "even A" and h: "unat h = S * 2 ^ k" "S * 2 ^ k < 2 ^ 62" "14 \<le> k"
    and e: "f < e" "- (2 ^ 10) < e" "e < 2 ^ 10" and mode: "mode \<noteq> 6"
    and v: "v = real A * 2 powi (e - 39)" and w: "w = real (S * 2 ^ k) * 2 powi (f - 39)"
  shows "w < v" "rounds_to mode s (v - w) (norm64 mode s e (g - softfloat_shiftRightJam64 h (nat (e - f))))"
proof -
  define d Y where "d = nat (e - f)" and "Y = real A - real (S * 2 ^ k) / 2 ^ d"
  have d: "0 < d" using e(1) by (simp add: d_def)
  obtain a where a: "unat (g - softfloat_shiftRightJam64 h d) = a" "0 < a" "a < 2 ^ 63"
    "Y = real a \<or> 2 ^ 60 \<le> a \<and> agree 1 Y (real a)"
    using far_diff64 [OF g h(1,2) _ h(3) d] h(3) unfolding Y_def by auto
  have "2 powi (f - 39) * 2 ^ d = (2 powi (e - 39) :: real)" using powi_move [of "f - 39" d "e - 39" 0] e(1) by (simp add: d_def)
  then have x: "v - w = Y * 2 powi (e - 39)" unfolding v w Y_def by (simp add: field_simps)
  have "real (S * 2 ^ k) / 2 ^ d \<le> real (S * 2 ^ k) / 2 ^ 1" using d by (intro divide_left_mono power_increasing) simp_all
  also have "\<dots> < 2 ^ 61" using h(2) of_nat_less_iff [of "S * 2 ^ k" "2 ^ 62", where 'a = real] by simp
  also have "2 ^ 61 \<le> real A" using g(2) by simp
  finally have "0 < Y" by (simp add: Y_def)
  then have "0 < v - w" unfolding x by simp
  then show "w < v" by simp
  show "rounds_to mode s (v - w) (norm64 mode s e (g - softfloat_shiftRightJam64 h (nat (e - f))))"
    unfolding d_def [symmetric] using e mode by (intro norm64_rounds [OF a x]) simp_all
qed

lemma same64:
  assumes g: "unat g = A" "A < 2 ^ 62" and h: "unat h = B" "B < 2 ^ 62" and "A \<noteq> B" and e: "- (2 ^ 10) < e" "e < 2 ^ 10" and mode: "mode \<noteq> 6"
  shows "rounds_to mode (if A < B then sB else sA) (\<bar>real A - real B\<bar> * 2 powi (e - 39))
    (if (g - h) AND 0x8000000000000000 \<noteq> 0 then norm64 mode sB e (- (g - h)) else norm64 mode sA e (g - h))"
proof -
  note dw = diff_words [OF g(1) h(1) _ _ assms(5)]
  have "(g - h) AND 2 ^ 63 \<noteq> 0 \<longleftrightarrow> bit (g - h) 63" using and_exp_eq_0 [of "g - h" 63] by simp
  then have neg: "(g - h) AND 0x8000000000000000 \<noteq> 0 \<longleftrightarrow> g - h <s 0" using bit_last_iff [of "g - h"] by (simp add: word_sless_alt)
  have lt: "g - h <s 0 \<longleftrightarrow> A < B" and u: "unat (if A < B then - (g - h) else g - h) = (if A < B then B - A else A - B)"
    using dw(1,2) g(2) h(2) by simp_all
  define D where "D = (if A < B then B - A else A - B)"
  have D: "0 < D" "D < 2 ^ 63" "\<bar>real A - real B\<bar> = real D" using assms(5) g(2) h(2) by (auto simp: D_def of_nat_diff)
  show ?thesis
  proof (cases "A < B")
    case True
    then have "unat (- (g - h)) = D" using u by (simp add: D_def)
    then show ?thesis unfolding neg lt D(3) using True D e mode by (simp add: norm64_rounds [OF _ _ _ disjI1])
  next
    case False
    then have "unat (g - h) = D" using u by (simp add: D_def)
    then show ?thesis unfolding neg lt D(3) using False D e mode by (simp add: norm64_rounds [OF _ _ _ disjI1])
  qed
qed

lemma mulAdd_equal:
  assumes P: "unat sigProd = A" "A < 2 ^ 62" and C: "unat (shl sigC 32) = B" "B < 2 ^ 62"
    and e: "eC = eP" "- (2 ^ 10) < eP" "eP < 2 ^ 10" and mode: "mode \<noteq> 6" and s: "sP \<noteq> sC"
    and vP: "vP = real A * 2 powi (eP - 39)" and vC: "vC = real B * 2 powi (eP - 39)"
  shows "ieee_result mode ((if sP then - vP else vP) + (if sC then - vC else vC)) (mode = 2) (mulAdd_sum mode sP eP sigProd sC eC sigC)"
proof (cases "A = B")
  case True
  then have "sigProd = shl sigC 32" using P(1) C(1) by (simp add: word_unat_eq_iff)
  then have "mulAdd_sum mode sP eP sigProd sC eC sigC = (packToF32UI (mode = 2) 0 0, 0)"
    unfolding sum_unfold_diff [OF s] using e(1) by simp
  moreover have "(if sP then - vP else vP) + (if sC then - vC else vC) = 0" using s True by (auto simp: vP vC)
  ultimately show ?thesis by (simp add: ieee_result_def pack_zero)
next
  case False
  define x where "x = \<bar>real A - real B\<bar> * 2 powi (eP - 39)"
  have "sigProd - shl sigC 32 \<noteq> 0" using False P(1) C(1) by auto
  then have r: "rounds_to mode (if A < B then sC else sP) x (mulAdd_sum mode sP eP sigProd sC eC sigC)"
    using same64 [OF P C False e(2,3) mode] e(1) by (simp add: sum_unfold_diff [OF s] Let_def x_def)
  have "0 < x" using False by (simp add: x_def)
  moreover have "vP - vC = (if A < B then - x else x)" by (simp add: x_def vP vC left_diff_distrib)
  then have "(if sP then - vP else vP) + (if sC then - vC else vC) = (if (if A < B then sC else sP) then - x else x)"
    using s by (cases sP; cases sC; cases "A < B") auto
  ultimately show ?thesis using r by (rule ieee_signed)
qed

lemma mulAdd_sum_ok:
  assumes P: "unat sigProd = P * 2 ^ 14" "2 ^ 61 \<le> P * 2 ^ 14" "P * 2 ^ 14 < 2 ^ 62" and C: "unat sigC = M * 2 ^ 6" "2 ^ 23 \<le> M" "M < 2 ^ 24"
    and e: "- (2 ^ 10) < eP" "eP < 2 ^ 10" "- (2 ^ 10) < eC" "eC < 2 ^ 10" and mode: "mode \<noteq> 6"
    and vP: "vP = real (P * 2 ^ 14) * 2 powi (eP - 39)" and vC: "vC = real (M * 2 ^ 6) * 2 powi (eC - 7)"
  shows "ieee_result mode ((if sP then - vP else vP) + (if sC then - vC else vC)) (if sP = sC then sP else mode = 2)
    (mulAdd_sum mode sP eP sigProd sC eC sigC)"
proof (cases "sP = sC")
  case True
  have ev: "even (P * 2 ^ 14)" by simp
  have pos: "0 < vP" "0 < vC" using P(2) C(2) by (auto simp: vP vC)
  have "rounds_to mode sP (vP + vC) (mulAdd_sum mode sP eP sigProd sC eC sigC)"
    unfolding sum_unfold_same [OF True] Let_def vP vC
    using add_low [OF P C _ e(1,4) mode refl refl] add_high [OF P ev C(1,3) _ e(3,2) mode refl refl] by simp
  then show ?thesis using True pos by (intro ieee_signed [of "vP + vC"]) auto
next
  case False
  have C38: "unat (shl sigC 32) = M * 2 ^ 38" using C unat_push [of sigC 32] by simp
  have b38: "2 ^ 61 \<le> M * 2 ^ 38" "M * 2 ^ 38 < 2 ^ 62" using C(2,3) by simp_all
  have vC': "vC = real (M * 2 ^ 38) * 2 powi (eC - 39)" unfolding vC using powi_move [of "eC - 7" 0 "eC - 39" 32] by simp
  let ?v = "(if sP then - vP else vP) + (if sC then - vC else vC)" and ?r = "mulAdd_sum mode sP eP sigProd sC eC sigC"
  consider "eP < eC" | "eC < eP" | "eP = eC" by linarith
  then show ?thesis
  proof cases
    case 1
    have "vP < vC" "rounds_to mode sC (vC - vP) ?r"
      using far64 [OF C38 b38 _ P(1,3) _ 1 e(3,4) mode vC' vP] 1 by (simp_all add: sum_unfold_diff [OF False])
    then show ?thesis using False by (intro ieee_signed [of "vC - vP" _ sC]) auto
  next
    case 2
    have "vC < vP" "rounds_to mode sP (vP - vC) ?r"
      using far64 [OF P _ C38 b38(2) _ 2 e(1,2) mode vP vC'] 2 by (simp_all add: sum_unfold_diff [OF False])
    then show ?thesis using False by (intro ieee_signed [of "vP - vC" _ sP]) auto
  next
    case 3
    then show ?thesis using mulAdd_equal [OF P(1,3) C38 b38(2) _ e(1,2) mode False vP] vC' False by simp
  qed
qed

section \<open>The operation\<close>

definition product :: "u32 \<Rightarrow> u32 \<Rightarrow> real" where
  "product a b = of_int (fmag (mag a)) * of_int (fmag (mag b)) / 2 ^ 149"

text \<open>The product as a number of 62 bits.\<close>

lemma product_ok:
  fixes G H :: u64
  assumes a: "operand a eA (unat G)" and b: "operand b eB (unat H)"
    and P: "(eP, sigProd) = (if shl G 7 * shl H 7 < 0x2000000000000000 then (eA + eB - 0x7E - 1, shl (shl G 7 * shl H 7) 1)
      else (eA + eB - 0x7E, shl G 7 * shl H 7))"
  shows "\<exists>N. unat sigProd = N * 2 ^ 14 \<and> 2 ^ 61 \<le> N * 2 ^ 14 \<and> N * 2 ^ 14 < 2 ^ 62 \<and>
    product a b = real (N * 2 ^ 14) * 2 powi (eP - 39) \<and> - (2 ^ 9) < eP \<and> eP < 2 ^ 9"
proof -
  define A B where "A = unat G" and "B = unat H"
  have A: "2 ^ 23 \<le> A" "A < 2 ^ 24" "- 22 \<le> eA" "eA \<le> 254" "of_int (fmag (mag a)) = real A * 2 powi (eA - 1)"
    and B: "2 ^ 23 \<le> B" "B < 2 ^ 24" "- 22 \<le> eB" "eB \<le> 254" "of_int (fmag (mag b)) = real B * 2 powi (eB - 1)"
    using a b by (simp_all add: operand_def A_def B_def del: of_nat_unat)
  have sA: "unat (shl G 7) = A * 2 ^ 7" and sB: "unat (shl H 7) = B * 2 ^ 7"
    using A(2) B(2) by (simp_all add: unat_push A_def B_def)
  have AB: "2 ^ 46 \<le> A * B" "A * B < 2 ^ 48"
    using mult_le_mono [OF A(1) B(1)] mult_strict_mono [OF A(2) B(2)] by simp_all
  define w where "w = shl G 7 * shl H 7"
  have w: "unat w = A * B * 2 ^ 14" unfolding w_def using AB by (subst unat_times) (simp_all add: sA sB mult_ac)
  define N where "N = (if w < 0x2000000000000000 then 2 * (A * B) else A * B)"
  have e: "eP = eA + eB - 0x7E - (if w < 0x2000000000000000 then 1 else 0)" using P by (auto simp: w_def split: if_splits)
  have lt: "w < 0x2000000000000000 \<longleftrightarrow> A * B < 2 ^ 47" by (simp add: word_less_nat_alt w)
  have sh: "A * B < 2 ^ 47 \<Longrightarrow> unat (shl w 1) = 2 * (A * B) * 2 ^ 14" using unat_push [of w 1] by (simp add: w)
  have u: "unat sigProd = N * 2 ^ 14" using P lt w sh by (auto simp: N_def w_def [symmetric] split: if_splits)
  have N: "2 ^ 47 \<le> N" "N < 2 ^ 48" using AB lt by (auto simp: N_def)
  have p: "2 powi (eA - 1) * 2 powi (eB - 1) = (2 powi (eP - 39) * 2 ^ 163 * (if w < 0x2000000000000000 then 2 else 1) :: real)"
    unfolding powi_prod using powi_move [of "eA - 1 + (eB - 1)" 0 "eP - 39" "163 + (if w < 0x2000000000000000 then 1 else 0)"]
    by (simp add: e)
  have "product a b = real A * real B * (2 powi (eA - 1) * 2 powi (eB - 1)) / 2 ^ 149" unfolding product_def A(5) B(5) by simp
  also have "\<dots> = real (N * 2 ^ 14) * 2 powi (eP - 39)" unfolding p by (simp add: N_def)
  finally show ?thesis using u N A(3,4) B(3,4) e by (intro exI [of _ N]) (auto split: if_splits)
qed

text \<open>A zero product leaves the addend, a zero addend the rounded product.\<close>

lemma addend_exact:
  assumes "fexp c < 255" "mag c \<noteq> 0"
  shows "ieee_result mode (of_int (fval c)) s (c, 0)"
proof -
  have "rounds_to mode (bit c 31) (of_int (fmag (mag c))) (c, 0)" using assms by (intro rounds_exact) simp_all
  moreover have "0 < fmag (mag c)" using assms(2) fmag_pos(2) by simp
  ultimately show ?thesis by (intro ieee_signed [of "of_int (fmag (mag c))" _ "bit c 31"]) (simp_all add: fval_def)
qed

lemma product_rounds:
  assumes "unat sigProd = A" "2 ^ 61 \<le> A" "A < 2 ^ 62" "x = real A * 2 powi (e - 39)" "- (2 ^ 9) < e" "e < 2 ^ 9" "mode \<noteq> 6"
  shows "rounds_to mode s x (softfloat_roundPackToF32 mode s (e - 1) (softfloat_shortShiftRightJam64 sigProd 31))"
proof (rule roundPack_ok)
  define y where "y = real A / 2 ^ 31"
  have "agree 6 y (real (jam A 31))" unfolding y_def by (intro agree_mono [OF agree_jam1]) simp
  moreover have "2 ^ 30 \<le> y" "y < 2 ^ 31" using assms(2,3) by (simp_all add: y_def)
  moreover have "2 powi (e - 1 - 7) = (2 powi (e - 39) * 2 ^ 31 :: real)" using powi_move [of "e - 1 - 7" 0 "e - 39" 31] by simp
  then have "x = y * 2 powi (e - 1 - 7)" unfolding assms(4) y_def by simp
  ultimately show "stands_for (unat (softfloat_shortShiftRightJam64 sigProd 31)) (e - 1) x"
    unfolding stands_for_def shortShiftRightJam64_ok assms(1) by blast
qed (use assms in simp_all)

lemma product_value:
  "of_int (fval a) * of_int (fval b) / 2 ^ 149 = (if bit a 31 \<noteq> bit b 31 then - product a b else product a b)"
  by (simp add: product_def fval_def)

lemma finite_tests: "fexp a < 255 \<Longrightarrow> expF32UI a \<noteq> 0xFF"
  by (simp add: exp_ok)

lemma mulAdd_zero_product:
  assumes "fexp a < 255" "fexp b < 255" "fexp c < 255" "mag a = 0 \<or> mag b = 0"
  shows "f32_mulAdd mode a b c =
    (if mag c = 0 \<and> (bit a 31 \<noteq> bit b 31) \<noteq> bit c 31 then (packToF32UI (mode = 2) 0 0, 0) else (c, 0))"
proof -
  have c0: "expF32UI c = 0 \<and> fracF32UI c = 0 \<longleftrightarrow> mag c = 0"
    using field_bounds(3) [of c] frac_ok [of c] by (auto simp: exp_ok unat_eq_0 [symmetric])
  have "f32_mulAdd mode a b c = (if (expF32UI c = 0 \<and> fracF32UI c = 0) \<and> (bit a 31 \<noteq> bit b 31) \<noteq> bit c 31
      then (packToF32UI (mode = 2) 0 0, 0) else (c, 0))"
  proof (cases "mag a = 0")
    case True
    show ?thesis unfolding f32_mulAdd_def softfloat_mulAddF32_def Let_def sign_bit norm_ok(1) [OF assms(1) True]
      using finite_tests assms(1-3) by simp
  next
    case False
    obtain e g where n: "norm_operand (expF32UI a) (fracF32UI a) = Some (e, g)" using norm_ok(2) [OF assms(1) False] by blast
    have b: "norm_operand (expF32UI b) (fracF32UI b) = None" using norm_ok(1) [OF assms(2)] False assms(4) by auto
    show ?thesis unfolding f32_mulAdd_def softfloat_mulAddF32_def Let_def sign_bit n b
      using finite_tests assms(1-3) by simp
  qed
  then show ?thesis unfolding c0 .
qed

lemma mulAdd_nonzero:
  assumes fin: "fexp a < 255" "fexp b < 255" "fexp c < 255" and nz: "mag a \<noteq> 0" "mag b \<noteq> 0" and mode: "mode \<noteq> 6"
  shows "ieee_result mode ((if bit a 31 \<noteq> bit b 31 then - product a b else product a b) + of_int (fval c))
    (if (bit a 31 \<noteq> bit b 31) = bit c 31 then bit c 31 else mode = 2) (f32_mulAdd mode a b c)"
proof -
  define sP where "sP = (bit a 31 \<noteq> bit b 31)"
  obtain eA g eB h where n: "norm_operand (expF32UI a) (fracF32UI a) = Some (eA, g)" "operand a eA (unat (g OR 0x00800000))"
    "norm_operand (expF32UI b) (fracF32UI b) = Some (eB, h)" "operand b eB (unat (h OR 0x00800000))"
    using norm_ok(2) [OF fin(1) nz(1)] norm_ok(2) [OF fin(2) nz(2)] by blast
  define G H where "G = g OR 0x00800000" and "H = h OR 0x00800000"
  obtain eP sigProd where P: "(eP, sigProd) = (if shl G 7 * shl H 7 < 0x2000000000000000 then (eA + eB - 0x7E - 1, shl (shl G 7 * shl H 7) 1)
      else (eA + eB - 0x7E, shl G 7 * shl H 7))" by (metis surj_pair)
  obtain N where N: "unat sigProd = N * 2 ^ 14" "2 ^ 61 \<le> N * 2 ^ 14" "N * 2 ^ 14 < 2 ^ 62"
    "product a b = real (N * 2 ^ 14) * 2 powi (eP - 39)" "- (2 ^ 9) < eP" "eP < 2 ^ 9"
    using product_ok [OF n(2,4) [folded G_def H_def] P] by blast
  have op: "((bit a 31 \<noteq> bit b 31) \<noteq> ((0 :: u8) = 2)) = sP" "(bit c 31 \<noteq> ((0 :: u8) = 1)) = bit c 31" by (simp_all add: sP_def)
  have unfold: "f32_mulAdd mode a b c =
    (case norm_operand (expF32UI c) (fracF32UI c) of
       None \<Rightarrow> softfloat_roundPackToF32 mode sP (eP - 1) (softfloat_shortShiftRightJam64 sigProd 31)
     | Some (eC, k) \<Rightarrow> mulAdd_sum mode sP eP sigProd (bit c 31) eC (shl (k OR 0x00800000) 6))"
    unfolding f32_mulAdd_def softfloat_mulAddF32_def Let_def sign_bit n(1,3) option.case prod.case
      G_def [symmetric] H_def [symmetric] P [symmetric] op
    using finite_tests fin by (simp only: if_False)
  have pos: "0 < product a b" unfolding N(4) using N(2) by auto
  show ?thesis
  proof (cases "mag c = 0")
    case True
    have "rounds_to mode sP (product a b) (f32_mulAdd mode a b c)"
      unfolding unfold norm_ok(1) [OF fin(3) True] option.case by (rule product_rounds [OF N(1-6) mode])
    then show ?thesis using True pos unfolding sP_def [symmetric]
      by (intro ieee_signed [of "product a b" _ sP]) (simp_all add: fval_def fmag_0)
  next
    case False
    obtain eC k where k: "norm_operand (expF32UI c) (fracF32UI c) = Some (eC, k)" "operand c eC (unat (k OR 0x00800000))"
      using norm_ok(2) [OF fin(3) False] by blast
    define M where "M = unat (k OR 0x00800000)"
    have M: "2 ^ 23 \<le> M" "M < 2 ^ 24" "- 22 \<le> eC" "eC \<le> 254" "of_int (fmag (mag c)) = real M * 2 powi (eC - 1)"
      using k(2) by (simp_all add: operand_def M_def del: of_nat_unat)
    have u: "unat (shl (k OR 0x00800000) 6) = M * 2 ^ 6" unfolding M_def using M(2) by (intro unat_push) (simp add: M_def)
    have vC: "of_int (fmag (mag c)) = real (M * 2 ^ 6) * 2 powi (eC - 7)"
      unfolding M(5) using powi_move [of "eC - 1" 0 "eC - 7" 6] by simp
    have e: "- (2 ^ 10) < eP" "eP < 2 ^ 10" "- (2 ^ 10) < eC" "eC < 2 ^ 10" using N(5,6) M(3,4) by simp_all
    have "of_int (fval c) = (if bit c 31 then - of_int (fmag (mag c)) else of_int (fmag (mag c)) :: real)" by (simp add: fval_def)
    then show ?thesis unfolding unfold k(1) option.case prod.case sP_def [symmetric]
      using mulAdd_sum_ok [OF N(1-3) u M(1,2) e mode N(4) vC, of sP "bit c 31"] by (simp add: if_bool_eq_conj)
  qed
qed

lemma f32_mulAdd_ieee:
  assumes "fexp a < 255" "fexp b < 255" "fexp c < 255" "mode \<noteq> 6"
  shows "ieee_result mode (of_int (fval a) * of_int (fval b) / 2 ^ 149 + of_int (fval c))
    (if (bit a 31 \<noteq> bit b 31) = bit c 31 then bit c 31 else mode = 2) (f32_mulAdd mode a b c)"
proof (cases "mag a = 0 \<or> mag b = 0")
  case True
  have v: "of_int (fval a) * of_int (fval b) / 2 ^ 149 + of_int (fval c) = (of_int (fval c) :: real)"
    using True by (auto simp: fval_def fmag_0)
  note r = mulAdd_zero_product [OF assms(1-3) True, of mode]
  show ?thesis
  proof (cases "mag c = 0")
    case True
    then show ?thesis unfolding v r using zero_word [of c] by (auto simp: ieee_result_def fval_def fmag_0 pack_zero)
  next
    case False
    then show ?thesis unfolding v r using addend_exact [OF assms(3) False] by simp
  qed
next
  case False
  then show ?thesis unfolding product_value by (intro mulAdd_nonzero [OF assms(1-3) _ _ assms(4)]) auto
qed

end
