(* ===== verification/Softfloat_Conv.thy ===== *)
theory Softfloat_Conv
  imports Softfloat_Fma
begin

unbundle bit_operations_syntax

text \<open>The conversions between integers and single precision.\<close>

section \<open>From integers\<close>

lemma ui32_to_f32_ieee:
  assumes "mode \<noteq> 6"
  shows "ieee_result mode (real (unat a) * 2 ^ 149) False (ui32_to_f32 mode a)"
proof (cases "a = 0")
  case True
  then show ?thesis by (simp add: ui32_to_f32_def ieee_result_def)
next
  case False
  define n where "n = unat a"
  have n: "0 < n" "n < 2 ^ 32" using False unsigned_less [of a, where 'a = nat] by (simp_all add: n_def unat_gt_0)
  have top: "a AND 0x80000000 \<noteq> 0 \<longleftrightarrow> 2 ^ 31 \<le> n" using and_exp_eq_0 [of a 31] by (simp add: n_def sign_eq)
  have "rounds_to mode False (real n * 2 ^ 149) (ui32_to_f32 mode a)"
  proof (cases "2 ^ 31 \<le> n")
    case True
    define y where "y = real n / 2 ^ 1"
    have "unat (a AND mask 1) = n mod 2" unfolding unat_take n_def by simp
    then have "unat (shr a 1 OR (a AND 1)) = n div 2 OR n mod 2" unfolding unsigned_or_eq by (simp add: unat_drop n_def mask_eq_exp_minus_1)
    also have "\<dots> = jam n 1" by (cases "even n") (simp_all add: jam_def odd_iff_mod_2_eq_one)
    finally have u: "unat (ucast (shr a 1 OR (a AND 1)) :: u64) = jam n 1" by simp
    have "agree 6 y (real (jam n 1))" unfolding y_def by (intro agree_mono [OF agree_jam1]) simp
    moreover have "2 ^ 30 \<le> y" "y < 2 ^ 31" using True n by (simp_all add: y_def)
    moreover have "real n * 2 ^ 149 = y * 2 powi (0x9D - 7)" by (simp add: y_def)
    ultimately have "stands_for (unat (ucast (shr a 1 OR (a AND 1)) :: u64)) 0x9D (real n * 2 ^ 149)"
      unfolding stands_for_def u by blast
    then show ?thesis using False True top assms by (simp add: ui32_to_f32_def roundPack_ok)
  next
    case F: False
    have "unat (ucast a :: u64) = n" by (simp add: n_def)
    then have "rounds_to mode False (real n * 2 ^ 149) (softfloat_normRoundPackToF32 mode False 0x9C (ucast a))"
      by (rule normRoundPack_ok [OF _ n(1) _ disjI1 [OF refl]]) (use F assms in simp_all)
    then show ?thesis using False F top by (simp add: ui32_to_f32_def)
  qed
  then show ?thesis unfolding n_def [symmetric] using n by (intro ieee_signed [of "real n * 2 ^ 149" _ False]) simp_all
qed

lemma sint_mag: "sint a = int (mag a) - (if bit a 31 then 2 ^ 31 else 0)" for a :: u32
proof -
  have "sint a = uint a - 2 ^ 32 * of_bool (bit a 31)"
    using take_bit_int_eq_self [of "uint a" 32] unsigned_less [of a, where 'a = int]
    by (simp add: sint_uint signed_take_bit_eq_take_bit_minus bit_unsigned_iff)
  moreover have "uint a = int (mag a + (if bit a 31 then 2 ^ 31 else 0))" unfolding unat_mag [symmetric] by simp
  ultimately show ?thesis by simp
qed

lemma i32_special: "mag a = 0 \<Longrightarrow> ieee_result mode (of_int (sint a) * 2 ^ 149) False (i32_to_f32 mode a)"
proof -
  assume m: "mag a = 0"
  have "mag (0xCF000000 :: u32) = 0x4F000000" "bit (0xCF000000 :: u32) 31" by (simp_all add: mag_def)
  moreover have "fmag 0x4F000000 = 2 ^ 180" by (simp add: fmag_def)
  ultimately have r: "rounds_to mode True (2 ^ 180) (0xCF000000, 0)" by (intro rounds_exact) (simp_all add: fexp_finite)
  show ?thesis
  proof (cases "bit a 31")
    case True
    then have a: "a = 0x80000000" using zero_word [OF m] by simp
    have "i32_to_f32 mode a = (0xCF000000, 0)" by (simp add: a i32_to_f32_def packToF32UI_def word_sless_alt)
    moreover have "sint a = - (2 ^ 31)" by (simp add: a)
    ultimately show ?thesis using r by (simp add: ieee_result_def)
  next
    case False
    then have "a = 0" using zero_word [OF m] by simp
    then show ?thesis by (simp add: i32_to_f32_def ieee_result_def)
  qed
qed

lemma i32_to_f32_ieee:
  assumes "mode \<noteq> 6"
  shows "ieee_result mode (of_int (sint a) * 2 ^ 149) False (i32_to_f32 mode a)"
proof (cases "mag a = 0")
  case True
  then show ?thesis by (rule i32_special)
next
  case False
  define s n where "s = bit a 31" and "n = (if bit a 31 then 2 ^ 31 - mag a else mag a)"
  have m: "mag a < 2 ^ 31" by (rule field_bounds)
  have n: "0 < n" "n < 2 ^ 31" "sint a = (if s then - int n else int n)" using False m sint_mag [of a] by (auto simp: n_def s_def of_nat_diff)
  have neg: "a <s 0 \<longleftrightarrow> s" using bit_last_iff [of a] by (simp add: word_sless_alt s_def)
  have "a AND mask 31 = 0 \<longleftrightarrow> mag a = 0" using unat_take [of a 31] by (simp add: mag_def unat_eq_0 [symmetric])
  then have nz: "a AND 0x7FFFFFFF \<noteq> 0" using False by (simp add: mask_eq_exp_minus_1)
  have "(if s then - scast a else scast a) = (of_nat n :: u64)"
    using n(3) by (auto simp: scast_eq)
  then have "i32_to_f32 mode a = softfloat_normRoundPackToF32 mode s 0x9C (of_nat n)"
    unfolding i32_to_f32_def Let_def neg using nz by simp
  moreover have "rounds_to mode s (real n * 2 ^ 149) (softfloat_normRoundPackToF32 mode s 0x9C (of_nat n))"
    by (rule normRoundPack_ok [OF _ n(1,2) disjI1 [OF refl]]) (use n assms in \<open>simp_all add: unat_of_nat\<close>)
  ultimately show ?thesis using n by (intro ieee_signed [of "real n * 2 ^ 149" _ s]) simp_all
qed

section \<open>To integers\<close>

text \<open>
  The integer that a number stands for, in the given rounding mode, if it lies between the bounds;
  the nearest bound and the invalid flag otherwise; a NaN counts as above every integer.
\<close>

definition int_result :: "u8 \<Rightarrow> int \<Rightarrow> int \<Rightarrow> u32 \<Rightarrow> u32 \<times> u8 \<Rightarrow> bool" where
  "int_result mode lo hi f r \<longleftrightarrow>
    (let y = of_int (fmag (mag f)) / 2 ^ 149 :: real;
         m = round_int mode (bit f 31) y;
         n = (if bit f 31 then - m else m) in
     r = (if 0x7F800000 < mag f \<or> hi < n then (word_of_int hi, 16)
          else if n < lo then (word_of_int lo, 16)
          else (word_of_int n, if of_int m = y then 0 else 1)))"

text \<open>The library's fixed-point form of a magnitude: 12 fraction bits, the last one sticky, unless it is far out of range.\<close>

definition fixed_point :: "real \<Rightarrow> nat \<Rightarrow> bool" where
  "fixed_point y b \<longleftrightarrow> b < 2 ^ 56 \<and> (agree 11 (y * 2 ^ 12) (real b) \<or> 2 ^ 45 \<le> b \<and> 2 ^ 33 \<le> y)"

definition fixed_sig :: "u32 \<Rightarrow> u64" where
  "fixed_sig f =
    (let sig = (if expF32UI f \<noteq> 0 then fracF32UI f OR 0x00800000 else fracF32UI f); d = 0xAA - expF32UI f
     in if 0 < d then softfloat_shiftRightJam64 (shl sig 32) (nat d) else shl sig 32)"

lemma round_int_ge: "of_int k \<le> y \<Longrightarrow> k \<le> round_int mode s y"
proof -
  assume "of_int k \<le> y"
  then have "k \<le> \<lfloor>y\<rfloor>" by (simp add: le_floor_iff)
  moreover from this have "k \<le> \<lfloor>y + 1 / 2\<rfloor>" "k \<le> \<lceil>y\<rceil>" by linarith+
  ultimately show ?thesis unfolding round_int_def by auto
qed

lemma fixed_sig_start: "unat (shl (if expF32UI f \<noteq> 0 then fracF32UI f OR 0x00800000 else fracF32UI f) 32) =
  (if fexp f = 0 then ffrac f else lead f) * 2 ^ 32"
proof -
  have "unat (fracF32UI f OR 0x00800000) = ffrac f + 2 ^ 23"
    using or_hidden(1) [of "fracF32UI f"] field_bounds(1) [of f] by (simp add: frac_ok)
  then have "unat (if expF32UI f \<noteq> 0 then fracF32UI f OR 0x00800000 else fracF32UI f) = (if fexp f = 0 then ffrac f else lead f)"
    by (simp add: exp_ok frac_ok lead_def)
  then show ?thesis using field_bounds(1) [of f] by (subst unat_push) (auto simp: lead_def)
qed

lemma fixed_sig_ok: "fixed_point (of_int (fmag (mag f)) / 2 ^ 149) (unat (fixed_sig f))"
proof -
  define y e where "y = (of_int (fmag (mag f)) / 2 ^ 149 :: real)" and "e = fexp f"
  define S where "S = (if e = 0 then ffrac f else lead f)"
  have L: "lead f < 2 ^ 24" by (rule lead_bound)
  have S: "S < 2 ^ 24" "e \<noteq> 0 \<Longrightarrow> S = lead f" "e \<noteq> 0 \<Longrightarrow> 2 ^ 23 \<le> S" "e = 0 \<Longrightarrow> lead f = 2 * S"
    using L field_bounds(1) [of f] by (auto simp: S_def lead_def e_def)
  define w where "w = (shl (if expF32UI f \<noteq> 0 then fracF32UI f OR 0x00800000 else fracF32UI f) 32 :: u64)"
  have w: "unat w = S * 2 ^ 32" unfolding w_def fixed_sig_start S_def e_def ..
  have y: "y = real (lead f) * 2 powi (int e - 150)"
    unfolding y_def fmag_lead e_def using powi_shift(2) [of "int (fexp f) - 1" 149] by (simp add: algebra_simps)
  have g: "fixed_sig f = (if e < 170 then softfloat_shiftRightJam64 w (170 - e) else w)"
    by (auto simp: fixed_sig_def w_def Let_def exp_ok e_def nat_diff_distrib')
  show ?thesis unfolding y_def [symmetric]
  proof (cases "e < 170")
    case True
    have j: "unat (fixed_sig f) = jam (S * 2 ^ 32) (170 - e)"
      using g True shiftRightJam64_ok [of "170 - e" w] S(1) by (simp add: w)
    have eq: "jam (S * 2 ^ 32) (170 - e) = jam (lead f * 2 ^ 32) (170 - e)"
    proof (cases "e = 0")
      case True
      have "S * 2 ^ 32 < 2 ^ 170" "lead f * 2 ^ 32 < 2 ^ 170" using S(1) L by simp_all
      then show ?thesis using True S(4) by (simp add: jam_large)
    qed (simp add: S(2))
    have "y * 2 ^ 12 = real (lead f * 2 ^ 32) / 2 ^ (170 - e)"
      unfolding y using True powi_shift(2) [of 20 "170 - e"] by (simp add: of_nat_diff)
    then have "agree 11 (y * 2 ^ 12) (real (unat (fixed_sig f)))"
      unfolding j eq by (simp only:) (rule agree_mono [OF agree_jam1], simp)
    moreover have "jam (S * 2 ^ 32) (170 - e) \<le> S * 2 ^ 32 + 1"
      using order_trans [OF jam_shift add_right_mono [OF div_le_dividend]] .
    then have "unat (fixed_sig f) < 2 ^ 56" unfolding j using S(1) by simp
    ultimately show "fixed_point y (unat (fixed_sig f))" unfolding fixed_point_def by blast
  next
    case False
    then have "2 ^ 10 \<le> (2 powi (int e - 150) :: real)" using power_int_increasing [of 10 "int e - 150" "2 :: real"] by simp
    moreover have "2 ^ 23 \<le> real (lead f)" using S(2,3) False by simp
    ultimately have "2 ^ 23 * 2 ^ 10 \<le> y" unfolding y by (intro mult_mono) simp_all
    then show "fixed_point y (unat (fixed_sig f))" using False S(1,3) by (simp add: fixed_point_def g w)
  qed
qed

lemma fixed_round:
  assumes "fixed_point y b"
  shows "b + increment mode s 12 < 2 ^ 44 \<Longrightarrow> round_int mode s y = int (code_round mode s 12 b)"
    "b + increment mode s 12 < 2 ^ 44 \<Longrightarrow> real (code_round mode s 12 b) = y \<longleftrightarrow> b mod 2 ^ 12 = 0"
    "b + increment mode s 12 < 2 ^ 44 \<Longrightarrow> code_round mode s 12 b < 2 ^ 32"
    "2 ^ 44 \<le> b + increment mode s 12 \<Longrightarrow> 2 ^ 32 \<le> round_int mode s y"
proof -
  let ?i = "increment mode s 12"
  have r: "round_int mode s y = int (code_round mode s 12 b)" "real (code_round mode s 12 b) = y \<longleftrightarrow> b mod 2 ^ 12 = 0"
    if "agree 11 (y * 2 ^ 12) (real b)"
    using sticky_round_at [OF that, of mode s] by simp_all
  have far: "agree 11 (y * 2 ^ 12) (real b) \<or> 2 ^ 45 \<le> b \<and> 2 ^ 33 \<le> y" using assms by (simp add: fixed_point_def)
  show "round_int mode s y = int (code_round mode s 12 b)" "real (code_round mode s 12 b) = y \<longleftrightarrow> b mod 2 ^ 12 = 0"
    if "b + ?i < 2 ^ 44" using that far r by auto
  define t where "t = (b + ?i) div 2 ^ 12"
  have c: "code_round mode s 12 b = t \<or> code_round mode s 12 b = 2 * (t div 2)" by (simp add: code_round_def t_def Let_def)
  show "code_round mode s 12 b < 2 ^ 32" if "b + ?i < 2 ^ 44"
  proof -
    have "t < 2 ^ 32" using that by (simp add: t_def)
    then show ?thesis using c by auto
  qed
  show "2 ^ 32 \<le> round_int mode s y" if "2 ^ 44 \<le> b + ?i"
    using far
  proof
    assume a: "agree 11 (y * 2 ^ 12) (real b)"
    have "2 ^ 32 \<le> t" using div_le_mono [OF that, of "2 ^ 12"] by (simp add: t_def)
    then show ?thesis unfolding r(1) [OF a] using c by auto
  next
    assume "2 ^ 45 \<le> b \<and> 2 ^ 33 \<le> y"
    then show ?thesis by (intro round_int_ge) simp
  qed
qed

lemma high_bits: "w AND 0xFFFFF00000000000 \<noteq> 0 \<longleftrightarrow> 2 ^ 44 \<le> unat w" for w :: u64
proof -
  have "w AND NOT (mask 44) = 0 \<longleftrightarrow> shr w 44 = 0"
  proof
    assume a: "w AND NOT (mask 44) = 0"
    have "bit (shr w 44) n = bit (w AND NOT (mask 44)) (44 + n)" for n
      by (auto simp: bit_simps dest: bit_imp_le_length)
    then show "shr w 44 = 0" unfolding a by (intro bit_word_eqI) simp
  next
    assume a: "shr w 44 = 0"
    show "w AND NOT (mask 44) = 0"
    proof (rule bit_word_eqI)
      fix n
      have "\<not> bit (shr w 44) (n - 44)" by (simp add: a)
      then show "bit (w AND NOT (mask 44)) n = bit 0 n" by (cases "44 \<le> n") (auto simp: bit_simps)
    qed
  qed
  moreover have "shr w 44 = 0 \<longleftrightarrow> unat w < 2 ^ 44" by (simp add: unat_eq_0 [symmetric] unat_drop div_eq_0_iff)
  moreover have "(0xFFFFF00000000000 :: u64) = NOT (mask 44)" by (simp add: mask_eq_exp_minus_1 not_eq_complement)
  ultimately show ?thesis by (simp add: not_less)
qed

text \<open>The steps that both conversions share: the increment, the test for 32 integer bits, the tie to even.\<close>

lemma fixed_words:
  fixes g i :: u64
  assumes "unat g = b" "b < 2 ^ 56" "i = of_nat (increment mode s 12)"
  shows "g + i AND 0xFFFFF00000000000 \<noteq> 0 \<longleftrightarrow> 2 ^ 44 \<le> b + increment mode s 12"
    "g AND 0xFFF = 0 \<longleftrightarrow> b mod 2 ^ 12 = 0"
    "(if g AND 0xFFF = 0x800 \<and> mode = 0 then shr (g + i) 12 AND NOT 1 else shr (g + i) 12) = of_nat (code_round mode s 12 b)"
proof -
  have "increment mode s 12 < 2 ^ 12" by (simp add: increment_def)
  then have i: "unat i = increment mode s 12" "unat (g + i) = b + increment mode s 12"
    using assms by (simp_all add: unat_of_nat unat_plus)
  show "g + i AND 0xFFFFF00000000000 \<noteq> 0 \<longleftrightarrow> 2 ^ 44 \<le> b + increment mode s 12" by (simp only: high_bits i)
  have m: "unat (g AND 0xFFF) = b mod 2 ^ 12" using unat_take [of g 12] assms(1) by (simp add: mask_eq_exp_minus_1)
  then show "g AND 0xFFF = 0 \<longleftrightarrow> b mod 2 ^ 12 = 0" by (simp add: unat_eq_0 [symmetric])
  have tie: "g AND 0xFFF = 0x800 \<longleftrightarrow> b mod 2 ^ 12 = 2 ^ 11" using m by (simp add: word_unat_eq_iff)
  have "unat (if g AND 0xFFF = 0x800 \<and> mode = 0 then shr (g + i) 12 AND NOT 1 else shr (g + i) 12) = code_round mode s 12 b"
    unfolding if_distrib [of unat] and_not_1 unat_drop i(2) tie code_round_def Let_def by simp
  from arg_cong [OF this, of "of_nat :: nat \<Rightarrow> u64"]
  show "(if g AND 0xFFF = 0x800 \<and> mode = 0 then shr (g + i) 12 AND NOT 1 else shr (g + i) 12) = of_nat (code_round mode s 12 b)"
    by (simp only: of_nat_unat ucast_id)
qed

lemma narrow_int: "(ucast (word_of_int n :: u64) :: u32) = word_of_int n"
  by transfer simp

lemma neg_iff: "w <s 0 \<longleftrightarrow> 2 ^ 31 \<le> unat w" for w :: u32
  using bit_last_iff [of w] sign_eq [of w] by (simp add: word_sless_alt)

lemma unat_signed:
  assumes "c < 2 ^ 32"
  shows "unat (word_of_int (if s then - int c else int c) :: u32) = (if s \<and> 0 < c then 2 ^ 32 - c else c)"
proof (cases "s \<and> 0 < c")
  case True
  then have "- int c mod 2 ^ 32 = 2 ^ 32 - int c" using assms by (simp add: zmod_zminus1_eq_if)
  then have "uint (word_of_int (- int c) :: u32) = int (2 ^ 32 - c)" using assms by (simp only: uint_word_of_int) simp
  then show ?thesis using True unfolding unat_eq_nat_uint by (simp only: if_True) simp
next
  case False
  moreover have "uint (word_of_int (int c) :: u32) = int c" using assms by (simp only: uint_word_of_int) simp
  ultimately show ?thesis unfolding unat_eq_nat_uint by (cases "c = 0") (simp_all del: of_int_of_nat_eq)
qed

lemma roundToI32_ok:
  assumes "fixed_point y (unat g)" "mode \<noteq> 6" "m = round_int mode s y" "n = (if s then - m else m)"
  shows "softfloat_roundToI32 s g mode True =
    (if 2 ^ 31 - 1 < n then (0x7FFFFFFF, 16) else if n < - (2 ^ 31) then (0x80000000, 16)
     else (word_of_int n, if of_int m = y then 0 else 1))"
proof -
  define b i c where "b = unat g" and "i = (of_nat (increment mode s 12) :: u64)" and "c = code_round mode s 12 b"
  note fp = assms(1) [folded b_def]
  have b: "unat g = b" "b < 2 ^ 56" using fp by (simp_all add: b_def fixed_point_def)
  have inc: "(if mode \<noteq> 4 \<and> mode \<noteq> 0 then (if if s then mode = 2 \<or> mode = 6 else mode = 3 then 0xFFF else 0) else 0x800) = i"
    using assms(2) by (simp add: i_def increment_def)
  note w = fixed_words [OF b i_def]
  have code: "softfloat_roundToI32 s g mode True =
    (if 2 ^ 44 \<le> b + increment mode s 12 then (if s then 0x80000000 else 0x7FFFFFFF, 16)
     else (let z = ucast (if s then - of_nat c else of_nat c :: u64) :: u32 in
       if z \<noteq> 0 \<and> (z <s 0) \<noteq> s then (if s then 0x80000000 else 0x7FFFFFFF, 16)
       else (z, if b mod 2 ^ 12 \<noteq> 0 then 1 else 0)))"
    unfolding softfloat_roundToI32_def Let_def inc w c_def using assms(2) by auto
  show ?thesis
  proof (cases "b + increment mode s 12 < 2 ^ 44")
    case True
    note r = fixed_round [OF fp, of mode s, folded c_def]
    have m: "m = int c" "c < 2 ^ 32" "of_int m = y \<longleftrightarrow> b mod 2 ^ 12 = 0" using r(1-3) True assms(3) by simp_all
    define z where "z = (word_of_int n :: u32)"
    have "(if s then - of_nat c else of_nat c :: u64) = word_of_int n" by (simp add: assms(4) m(1))
    then have z: "(ucast (if s then - of_nat c else of_nat c :: u64) :: u32) = z" by (simp only: narrow_int z_def)
    have u: "unat z = (if s \<and> 0 < c then 2 ^ 32 - c else c)" unfolding z_def assms(4) m(1) by (rule unat_signed [OF m(2)])
    have "z \<noteq> 0 \<and> (z <s 0) \<noteq> s \<longleftrightarrow> 2 ^ 31 - 1 < n \<or> n < - (2 ^ 31)"
      unfolding neg_iff unat_eq_0 [symmetric] u using m(1,2) by (auto simp: assms(4))
    then show ?thesis unfolding code z Let_def using True m(3) by (auto simp: z_def assms(4) m(1))
  next
    case False
    then have "2 ^ 32 \<le> m" using fixed_round(4) [OF fp, of mode s] assms(3) by simp
    then show ?thesis unfolding code using False by (auto simp: assms(4))
  qed
qed

lemma roundToUI32_ok:
  assumes "fixed_point y (unat g)" "mode \<noteq> 6" "0 \<le> y" "m = round_int mode s y" "n = (if s then - m else m)"
  shows "softfloat_roundToUI32 s g mode True =
    (if 2 ^ 32 - 1 < n then (0xFFFFFFFF, 16) else if n < 0 then (0, 16)
     else (word_of_int n, if of_int m = y then 0 else 1))"
proof -
  define b i c where "b = unat g" and "i = (of_nat (increment mode s 12) :: u64)" and "c = code_round mode s 12 b"
  note fp = assms(1) [folded b_def]
  have b: "unat g = b" "b < 2 ^ 56" using fp by (simp_all add: b_def fixed_point_def)
  note w = fixed_words [OF b i_def]
  note r = fixed_round [OF fp, of mode s, folded c_def]
  have g0: "g = 0 \<longleftrightarrow> b = 0" by (simp add: b_def unat_eq_0)
  have code: "softfloat_roundToUI32 s g mode True =
    (if mode \<noteq> 4 \<and> mode \<noteq> 0 \<and> s \<and> b = 0 then (0, 0) else if s \<and> mode = 2 then (0, 16)
     else if 2 ^ 44 \<le> b + increment mode s 12 then (if s then 0 else 0xFFFFFFFF, 16)
     else if s \<and> (of_nat c :: u64) \<noteq> 0 then (if s then 0 else 0xFFFFFFFF, 16)
     else (ucast (of_nat c :: u64), if b mod 2 ^ 12 \<noteq> 0 then 1 else 0))"
  proof (cases "s \<and> mode = 2")
    case True
    then show ?thesis by (simp add: softfloat_roundToUI32_def g0)
  next
    case False
    then have inc: "(if mode \<noteq> 4 \<and> mode \<noteq> 0 then (if \<not> s \<and> mode = 3 then 0xFFF else 0) else 0x800) = i"
      by (auto simp: i_def increment_def)
    define ov d where "ov \<longleftrightarrow> 2 ^ 44 \<le> b + increment mode s 12" and "d \<longleftrightarrow> mode \<noteq> 4 \<and> mode \<noteq> 0"
    have "\<not> (d \<and> s \<and> (mode = 2 \<or> mode = 6))" "(s \<and> mode = 2) = False" using False assms(2) by auto
    then show ?thesis
      unfolding softfloat_roundToUI32_def Let_def inc unfolding w [folded c_def ov_def] g0 ov_def [symmetric] d_def [symmetric]
      using assms(2) by (simp add: conj_assoc [symmetric] d_def [symmetric] del: conj_assoc) blast
  qed
  show ?thesis
  proof (cases "b + increment mode s 12 < 2 ^ 44")
    case True
    have m: "m = int c" "c < 2 ^ 32" "of_int m = y \<longleftrightarrow> b mod 2 ^ 12 = 0" using r(1-3) True assms(4) by simp_all
    have c0: "(of_nat c :: u64) = 0 \<longleftrightarrow> c = 0" using m(2) by (simp add: unat_eq_0 [symmetric] unat_of_nat)
    have zero: "c = 0" if "b = 0" using that by (simp add: c_def code_round_def increment_def)
    have down: "0 < c" if "mode = 2" "s" "b \<noteq> 0" using that by (simp add: c_def code_round_def increment_def)
    have z: "(ucast (of_nat c :: u64) :: u32) = word_of_int (int c)" using narrow_int [of "int c"] by simp
    show ?thesis unfolding code z using True m c0 zero down by (auto simp: assms(5))
  next
    case False
    then have "2 ^ 32 \<le> m" using r(4) assms(4) by simp
    moreover have "b \<noteq> 0" using False by (auto simp: increment_def split: if_splits)
    ultimately show ?thesis unfolding code using False by (auto simp: assms(5))
  qed
qed

text \<open>The conversions to integers: the sign is dropped for a NaN, whose fraction puts it out of range.\<close>

lemma nan_fields: "expF32UI f = 0xFF \<and> fracF32UI f \<noteq> 0 \<longleftrightarrow> 0x7F800000 < mag f"
proof -
  have "fracF32UI f \<noteq> 0 \<longleftrightarrow> ffrac f \<noteq> 0" by (simp add: unat_eq_0 [symmetric] frac_ok)
  then show ?thesis using field_bounds(1-3) [of f] by (auto simp: exp_ok)
qed

lemma nan_value: "0x7F800000 < mag f \<Longrightarrow> 2 ^ 32 \<le> round_int mode s (of_int (fmag (mag f)) / 2 ^ 149)"
proof (rule round_int_ge)
  assume a: "0x7F800000 < mag f"
  then have "fexp f = 255" using field_bounds(1-3) [of f] by auto
  then have "of_int (fmag (mag f)) = real (lead f) * 2 ^ 254" "2 ^ 23 \<le> lead f" by (simp_all add: fmag_lead lead_def)
  then show "of_int (2 ^ 32) \<le> (of_int (fmag (mag f)) / 2 ^ 149 :: real)" by simp
qed

lemma f32_to_i32_int: "mode \<noteq> 6 \<Longrightarrow> int_result mode (- (2 ^ 31)) (2 ^ 31 - 1) f (f32_to_i32 f mode True)"
proof -
  assume mode: "mode \<noteq> 6"
  let ?s = "if 0x7F800000 < mag f then False else bit f 31"
  have "f32_to_i32 f mode True = softfloat_roundToI32 ?s (fixed_sig f) mode True"
    unfolding f32_to_i32_def fixed_sig_def Let_def nan_fields sign_bit ..
  also note roundToI32_ok [OF fixed_sig_ok mode refl refl, where s = ?s]
  finally show ?thesis unfolding int_result_def Let_def using nan_value [of f mode False]
    by (cases "0x7F800000 < mag f") simp_all
qed

lemma f32_to_ui32_int: "mode \<noteq> 6 \<Longrightarrow> int_result mode 0 (2 ^ 32 - 1) f (f32_to_ui32 f mode True)"
proof -
  assume mode: "mode \<noteq> 6"
  let ?s = "if 0x7F800000 < mag f then False else bit f 31"
  have "f32_to_ui32 f mode True = softfloat_roundToUI32 ?s (fixed_sig f) mode True"
    unfolding f32_to_ui32_def fixed_sig_def Let_def nan_fields sign_bit ..
  also have "0 \<le> (of_int (fmag (mag f)) / 2 ^ 149 :: real)" by (simp add: fmag_lead)
  note roundToUI32_ok [OF fixed_sig_ok mode this refl refl, where s = ?s]
  finally show ?thesis unfolding int_result_def Let_def using nan_value [of f mode False]
    by (cases "0x7F800000 < mag f") simp_all
qed

end
