(* ===== verification/Softfloat_Sqrt.thy ===== *)
theory Softfloat_Sqrt
  imports Softfloat_Conv
begin

unbundle bit_operations_syntax

text \<open>
  The square root. The library approximates the reciprocal root from a table of sixteen linear pieces
  and a series of degree three in the error of the piece; the product with the argument is below the
  root by less than three units, which the final test corrects where it can matter.
\<close>

section \<open>The linear pieces\<close>

text \<open>The first approximation, a piece \<open>k0 - k1 * eps\<close> for each of the sixteen parts of the range.\<close>

definition piece :: "nat \<Rightarrow> nat \<Rightarrow> nat" where
  "piece j e = unat (softfloat_approxRecipSqrt_1k0s ! j) - unat (softfloat_approxRecipSqrt_1k1s ! j) * (e div 2 ^ 12) div 2 ^ 20"

text \<open>
  Numeric conditions on a piece: with \<open>u = 2 * k1 * a\<close> and a value \<open>v\<close> that falls with slope \<open>k1\<close>, the sum
  \<open>u + 2 * v\<close> is constant, so \<open>u * v * v\<close> is at most its mean cubed and falls short of it by
  \<open>(u - v)\<^sup>2 * (u + 8 * v) / 27\<close>.
\<close>

definition piece_ok :: "int \<Rightarrow> int \<Rightarrow> int \<Rightarrow> int \<Rightarrow> int \<Rightarrow> bool" where
  "piece_ok k0 k1 c hi low \<longleftrightarrow>
    (let W = 2 * k1 * c + 2 * ((k0 + 1) * 2 ^ 32 + k1 * 2 ^ 12); w = 2 * k1 * c + 2 * (k0 * 2 ^ 32);
         D = 2 * k1 * c - k0 * 2 ^ 32; M = max \<bar>D\<bar> \<bar>D + 3 * k1 * 2 ^ 28\<bar>; N = 2 * k1 * c + 8 * (k0 * 2 ^ 32) in
     0 < k1 \<and> k1 * 2 ^ 28 \<le> k0 * 2 ^ 32 \<and> W ^ 3 < 54 * k1 * 2 ^ 64 * hi \<and> 54 * k1 * 2 ^ 64 * low \<le> w ^ 3 - M\<^sup>2 * N)"

lemma mean_gap: "(u + 2 * v) ^ 3 - 27 * (u * v * v) = (u - v)\<^sup>2 * (u + 8 * v)" for u v :: int
  by (simp add: power2_eq_square power3_eq_cube algebra_simps)

lemma piece_bounds:
  assumes "piece_ok k0 k1 c hi low" "0 \<le> e" "e < 2 ^ 28" "r = k0 - k1 * (e div 2 ^ 12) div 2 ^ 20" "0 < c"
  shows "(c + e) * (r * r) < hi" "low \<le> (c + e) * (r * r)" "0 \<le> r" "r \<le> k0"
proof -
  define u V v W w where "u = 2 * k1 * (c + e)" and "V = (k0 + 1) * 2 ^ 32 + k1 * 2 ^ 12 - k1 * e" and "v = k0 * 2 ^ 32 - k1 * e"
    and "W = u + 2 * V" and "w = u + 2 * v"
  define D where "D = 2 * k1 * c - k0 * 2 ^ 32"
  define M where "M = max \<bar>D\<bar> \<bar>D + 3 * k1 * 2 ^ 28\<bar>"
  define N where "N = 2 * k1 * c + 8 * (k0 * 2 ^ 32)"
  have W: "W = 2 * k1 * c + 2 * ((k0 + 1) * 2 ^ 32 + k1 * 2 ^ 12)" and w: "w = 2 * k1 * c + 2 * (k0 * 2 ^ 32)"
    by (simp_all add: W_def w_def u_def V_def v_def algebra_simps)
  have ok: "0 < k1" "k1 * 2 ^ 28 \<le> k0 * 2 ^ 32" "W ^ 3 < 54 * k1 * 2 ^ 64 * hi" "54 * k1 * 2 ^ 64 * low \<le> w ^ 3 - M\<^sup>2 * N"
    using assms(1) unfolding piece_ok_def Let_def W [symmetric] w [symmetric] D_def [symmetric] M_def [symmetric] N_def [symmetric] by blast+
  define q where "q = k1 * (e div 2 ^ 12) div 2 ^ 20"
  have q: "q * 2 ^ 32 \<le> k1 * e" "k1 * e - k1 * 2 ^ 12 - 2 ^ 32 < q * 2 ^ 32"
  proof -
    define g n where "g = e div 2 ^ 12" and "n = k1 * g"
    have "g * 2 ^ 12 \<le> e" "e < (g + 1) * 2 ^ 12" unfolding g_def by auto
    then have g: "k1 * (g * 2 ^ 12) \<le> k1 * e" "k1 * e < k1 * ((g + 1) * 2 ^ 12)" using ok(1) by simp_all
    have n: "q * 2 ^ 20 \<le> n" "n < (q + 1) * 2 ^ 20" unfolding q_def n_def g_def by auto
    show "q * 2 ^ 32 \<le> k1 * e" "k1 * e - k1 * 2 ^ 12 - 2 ^ 32 < q * 2 ^ 32" using g n unfolding n_def by (auto simp: algebra_simps)
  qed
  have ke: "0 \<le> k1 * e" "k1 * e \<le> k1 * 2 ^ 28" using ok(1) assms(2,3) by (simp_all add: mult_left_mono)
  have "r = k0 - q" by (simp only: assms(4) q_def)
  then have r: "v \<le> r * 2 ^ 32" "r * 2 ^ 32 < V" using q by (simp_all add: v_def V_def algebra_simps)
  have v: "0 \<le> v" using ke ok(2) by (simp add: v_def)
  then have r0: "0 \<le> r" using r(1) by simp
  then show "0 \<le> r" .
  have "0 \<le> q" unfolding q_def using ok(1) assms(2) by (simp add: pos_imp_zdiv_nonneg_iff)
  then show "r \<le> k0" unfolding assms(4) q_def by simp
  have u: "0 < u" using ok(1) assms(2,5) by (simp add: u_def)
  have sq: "54 * k1 * 2 ^ 64 * ((c + e) * (r * r)) = 27 * (u * (r * 2 ^ 32) * (r * 2 ^ 32))"
    by (simp add: u_def algebra_simps)
  have "u * (r * 2 ^ 32) * (r * 2 ^ 32) \<le> u * V * V" using r(2) r0 u by (intro mult_mono) simp_all
  moreover have "0 \<le> (u - V)\<^sup>2 * (u + 8 * V)" using u r r0 by (intro mult_nonneg_nonneg) simp_all
  then have "27 * (u * V * V) \<le> W ^ 3" using mean_gap [of u V] by (simp add: W_def)
  ultimately have "54 * k1 * 2 ^ 64 * ((c + e) * (r * r)) \<le> W ^ 3" unfolding sq by linarith
  also note ok(3)
  finally show "(c + e) * (r * r) < hi" using ok(1) by simp
  have uv: "u - v = D + 3 * (k1 * e)" "u + 8 * v = N - 6 * (k1 * e)" by (simp_all add: u_def v_def D_def N_def algebra_simps)
  have "- M \<le> D" "D + 3 * k1 * 2 ^ 28 \<le> M" unfolding M_def by linarith+
  then have "\<bar>u - v\<bar> \<le> M" using ke unfolding uv by linarith
  then have "(u - v)\<^sup>2 \<le> M\<^sup>2" using power_mono [of "\<bar>u - v\<bar>" M 2] by simp
  moreover have "u + 8 * v \<le> N" "0 \<le> u + 8 * v" using ke(1) u v uv(2) by linarith+
  ultimately have "(u - v)\<^sup>2 * (u + 8 * v) \<le> M\<^sup>2 * N" by (intro mult_mono) simp_all
  then have "w ^ 3 - M\<^sup>2 * N \<le> 27 * (u * v * v)" using mean_gap [of u v] by (simp add: w_def)
  moreover have "u * v * v \<le> u * (r * 2 ^ 32) * (r * 2 ^ 32)" using r(1) v u by (intro mult_mono) simp_all
  ultimately have "54 * k1 * 2 ^ 64 * low \<le> 54 * k1 * 2 ^ 64 * ((c + e) * (r * r))" using ok(4) unfolding sq by linarith
  then show "low \<le> (c + e) * (r * r)" using ok(1) by simp
qed

text \<open>The sixteen pieces: \<open>2 ^ 63\<close> stands for one, and the reciprocal root is approached from below.\<close>

definition piece_limit :: "nat \<Rightarrow> int" where
  "piece_limit j = (if odd j then 2 ^ 63 else 2 ^ 62)"

lemma pieces_ok:
  assumes "j < 16"
  shows "piece_ok (uint (softfloat_approxRecipSqrt_1k0s ! j)) (uint (softfloat_approxRecipSqrt_1k1s ! j))
    (2 ^ 31 + int (j div 2) * 2 ^ 28) (piece_limit j) (piece_limit j * (if j = 14 then 999086 else 997100) div 1000000)"
proof -
  have "j \<in> set [0..<16]" using assms by simp
  also have "[0..<16] = [0, 1, 2, 3, 4, 5, 6, 7, 8, 9, 10, 11, 12, 13, 14, 15]" by (simp add: upt_rec)
  finally have "j \<in> {0, 1, 2, 3, 4, 5, 6, 7, 8, 9, 10, 11, 12, 13, 14, 15}" by simp
  then show ?thesis
    by (elim insertE emptyE) (simp_all add: softfloat_approxRecipSqrt_1k0s_def softfloat_approxRecipSqrt_1k1s_def piece_ok_def piece_limit_def Let_def)
qed

section \<open>The series\<close>

definition series :: "real \<Rightarrow> real" where
  "series s = 1 + s / 2 + 3 / 8 * s\<^sup>2 + 5 / 16 * s ^ 3"

lemma series_square:
  "(series s)\<^sup>2 * (1 - s) = 1 - (35 / 64 * s ^ 4 + 7 / 32 * s ^ 5 + 35 / 256 * s ^ 6 + 25 / 256 * s ^ 7)"
  by (simp add: series_def power2_eq_square field_simps eval_nat_numeral)

lemma series_below:
  assumes "0 < s" "s < 1"
  shows "series s * sqrt (1 - s) < 1"
proof -
  have "0 < 35 / 64 * s ^ 4 + 7 / 32 * s ^ 5 + 35 / 256 * s ^ 6 + 25 / 256 * s ^ 7" using assms(1) by (intro add_pos_pos) simp_all
  then have "(series s)\<^sup>2 * (1 - s) < 1" unfolding series_square by linarith
  then have "(series s * sqrt (1 - s))\<^sup>2 < 1\<^sup>2" using assms(2) by (simp add: power_mult_distrib)
  then show ?thesis by (rule power_less_imp_less_base) simp
qed

lemma series_above:
  assumes "0 \<le> s" "s \<le> 3 / 1000"
  shows "1 \<le> (series s + 7 / 25 * s ^ 4) * sqrt (1 - s)"
proof -
  let ?q = "series s + 7 / 25 * s ^ 4"
  have p: "1 \<le> series s" using assms(1) by (simp add: series_def)
  have "?q\<^sup>2 * (1 - s) = (series s)\<^sup>2 * (1 - s) + s ^ 4 * ((14 / 25 * series s + 49 / 625 * s ^ 4) * (1 - s))"
    by (simp add: power2_eq_square algebra_simps eval_nat_numeral)
  moreover have "s ^ 4 * (35 / 64 + 7 / 32 * s + 35 / 256 * s\<^sup>2 + 25 / 256 * s ^ 3) \<le> s ^ 4 * ((14 / 25 * series s + 49 / 625 * s ^ 4) * (1 - s))"
  proof (intro mult_left_mono)
    have "s\<^sup>2 \<le> (3 / 1000)\<^sup>2" "s ^ 3 \<le> (3 / 1000) ^ 3" using assms by (simp_all only: power_mono)
    then have "35 / 64 + 7 / 32 * s + 35 / 256 * s\<^sup>2 + 25 / 256 * s ^ 3 \<le> 14 / 25 * (997 / 1000)" using assms by (simp add: eval_nat_numeral)
    also have "\<dots> \<le> (14 / 25 * series s + 49 / 625 * s ^ 4) * (1 - s)"
    proof (intro mult_mono)
      have "0 \<le> s ^ 4" using assms(1) by simp
      then show "14 / 25 \<le> 14 / 25 * series s + 49 / 625 * s ^ 4" "0 \<le> 14 / 25 * series s + 49 / 625 * s ^ 4" using p by linarith+
    qed (use assms in simp_all)
    finally show "35 / 64 + 7 / 32 * s + 35 / 256 * s\<^sup>2 + 25 / 256 * s ^ 3 \<le> \<dots>" .
  qed (use assms in simp)
  moreover have "s ^ 4 * (35 / 64 + 7 / 32 * s + 35 / 256 * s\<^sup>2 + 25 / 256 * s ^ 3) = 35 / 64 * s ^ 4 + 7 / 32 * s ^ 5 + 35 / 256 * s ^ 6 + 25 / 256 * s ^ 7"
    by (simp add: algebra_simps eval_nat_numeral)
  ultimately have "1\<^sup>2 \<le> (?q * sqrt (1 - s))\<^sup>2" using assms series_square [of s] by (simp add: power_mult_distrib)
  then show ?thesis by (rule power2_le_imp_le) (use assms p in simp)
qed

lemma series_slope:
  assumes "0 \<le> s" "s \<le> t" "t \<le> 3 / 1000"
  shows "series s \<le> series t" "series t - series s \<le> 51 / 100 * (t - s)"
proof -
  have d: "series t - series s = (t - s) * (1 / 2 + 3 / 8 * (t + s) + 5 / 16 * (t\<^sup>2 + t * s + s\<^sup>2))"
    by (simp add: series_def power2_eq_square power3_eq_cube field_simps)
  have "0 \<le> 1 / 2 + 3 / 8 * (t + s) + 5 / 16 * (t\<^sup>2 + t * s + s\<^sup>2)" using assms by (intro add_nonneg_nonneg) simp_all
  then have "0 \<le> series t - series s" unfolding d using assms(2) by (intro mult_nonneg_nonneg) simp_all
  then show "series s \<le> series t" by simp
  have "t * t \<le> 3 / 1000 * (3 / 1000)" "t * s \<le> 3 / 1000 * (3 / 1000)" "s * s \<le> 3 / 1000 * (3 / 1000)" using assms by (intro mult_mono; simp)+
  then have "1 / 2 + 3 / 8 * (t + s) + 5 / 16 * (t\<^sup>2 + t * s + s\<^sup>2) \<le> 51 / 100"
    using assms unfolding power2_eq_square by (simp add: field_simps)
  then have "(t - s) * (1 / 2 + 3 / 8 * (t + s) + 5 / 16 * (t\<^sup>2 + t * s + s\<^sup>2)) \<le> (t - s) * (51 / 100)"
    using assms(2) by (intro mult_left_mono) simp_all
  then show "series t - series s \<le> 51 / 100 * (t - s)" unfolding d by (simp only: mult.commute)
qed

section \<open>The approximation of the reciprocal root\<close>

lemma real_div: "real (n div 2 ^ k) \<le> real n / 2 ^ k" "real n / 2 ^ k - 1 < real (n div 2 ^ k)"
proof -
  have "real (n div 2 ^ k * 2 ^ k) \<le> real n" "real n < real ((n div 2 ^ k + 1) * 2 ^ k)" using div_bounds [of n k] by (simp_all only: of_nat_le_iff of_nat_less_iff)
  then show "real (n div 2 ^ k) \<le> real n / 2 ^ k" "real n / 2 ^ k - 1 < real (n div 2 ^ k)" by (simp_all add: field_simps)
qed

text \<open>The steps after the table, on numbers; \<open>p\<close> is the product of the argument and the square of the piece.\<close>

definition refine_root :: "nat \<Rightarrow> nat \<Rightarrow> nat" where
  "refine_root r0 p =
    (let s = 2 ^ 40 - 1 - p div 2 ^ 23; r = r0 * 2 ^ 16 + r0 * s div 2 ^ 25; v = r div 2 + r div 8 - r0 * 2 ^ 14
     in r + v * (s * s div 2 ^ 32) div 2 ^ 48)"

lemma refine_root_series:
  assumes "p < 2 ^ 63" "2 ^ 63 * (997 / 1000) \<le> real p" "r0 < 2 ^ 16"
  defines "s \<equiv> real (2 ^ 40 - 1 - p div 2 ^ 23) / 2 ^ 40" and "Y \<equiv> real r0 * 2 ^ 16"
  shows "real (refine_root r0 p) \<le> Y * series s" "Y * series s - (2 + 1 / 20000) < real (refine_root r0 p)"
    "0 \<le> s" "s < 1 - real p / 2 ^ 63" "1 - real p / 2 ^ 63 \<le> s + 1 / 2 ^ 40"
proof -
  define n where "n = 2 ^ 40 - 1 - p div 2 ^ 23"
  have "p div 2 ^ 23 \<le> 2 ^ 40 - 1" using assms(1) by simp
  then have n: "real n = 2 ^ 40 - 1 - real (p div 2 ^ 23)" by (simp add: n_def of_nat_diff)
  have s: "s = real n / 2 ^ 40" by (simp only: s_def n_def)
  show "0 \<le> s" by (simp add: s)
  show slt: "s < 1 - real p / 2 ^ 63" "1 - real p / 2 ^ 63 \<le> s + 1 / 2 ^ 40" unfolding s n using real_div [of p 23] by (simp_all add: field_simps)
  have s3: "s \<le> 3 / 1000" using slt(1) assms(2) by (simp add: field_simps)
  define r where "r = r0 * 2 ^ 16 + r0 * n div 2 ^ 25"
  have r: "Y * (1 + s / 2) - 1 < real r" "real r \<le> Y * (1 + s / 2)" "Y \<le> real r"
    using real_div [of "r0 * n" 25] by (simp_all add: r_def Y_def s field_simps)
  define v where "v = r div 2 + r div 8 - r0 * 2 ^ 14"
  have "r0 * 2 ^ 14 \<le> r div 2" unfolding r_def by simp
  then have "real v = real (r div 2 ^ 1) + real (r div 2 ^ 3) - Y / 4" by (simp add: v_def Y_def of_nat_diff)
  moreover define U where "U = Y * (3 / 8 + 5 / 16 * s)"
  ultimately have v: "U - 3 < real v" "real v \<le> U" using real_div [of r 1] real_div [of r 3] r by (simp_all add: algebra_simps)
  define q where "q = n * n div 2 ^ 32"
  define S where "S = s\<^sup>2 * 2 ^ 48"
  have q: "S - 1 < real q" "real q \<le> S" using real_div [of "n * n" 32] by (simp_all add: q_def S_def s power2_eq_square)
  have root: "refine_root r0 p = r + v * q div 2 ^ 48" by (simp only: refine_root_def Let_def n_def r_def v_def q_def)
  have S0: "0 \<le> S" by (simp add: S_def)
  have sum: "Y * series s = Y * (1 + s / 2) + U * S / 2 ^ 48" by (simp add: series_def U_def S_def power2_eq_square power3_eq_cube algebra_simps)
  have "real v * real q \<le> U * S" using v q by (intro mult_mono) simp_all
  then show "real (refine_root r0 p) \<le> Y * series s" unfolding root sum using real_div(1) [of "v * q" 48] r(2) by (simp add: field_simps)
  have "(U - 3) * S - U \<le> real v * S - real v" using v S0 by (simp add: mult_right_mono diff_mono)
  also have "\<dots> = real v * (S - 1)" by (simp add: algebra_simps)
  also have "\<dots> \<le> real v * real q" using q by (intro mult_left_mono) simp_all
  finally have low: "U * S / 2 ^ 48 - 3 * s\<^sup>2 - U / 2 ^ 48 \<le> real (v * q) / 2 ^ 48" by (simp add: S_def field_simps)
  have "s\<^sup>2 \<le> (3 / 1000)\<^sup>2" using s3 by (intro power_mono) (simp_all add: s)
  moreover have "U \<le> 2 ^ 32 * (2 / 5)" unfolding U_def using s3 assms(3) by (intro mult_mono) (simp_all add: Y_def s)
  ultimately have "3 * s\<^sup>2 + U / 2 ^ 48 \<le> 1 / 20000" by (simp add: power2_eq_square)
  then show "Y * series s - (2 + 1 / 20000) < real (refine_root r0 p)"
    unfolding root sum using real_div(2) [of "v * q" 48] r(1) low by simp
qed

lemma refine_root_error:
  assumes "p < 2 ^ 63" "2 ^ 63 * (997 / 1000) \<le> real p" "r0 < 2 ^ 16" "0 < r0" "t = 1 - real p / 2 ^ 63"
  defines "Y \<equiv> real r0 * 2 ^ 16"
  shows "real (refine_root r0 p) < Y / sqrt (1 - t)"
    "Y / sqrt (1 - t) < real (refine_root r0 p) + (2 + 1 / 20000 + Y * (51 / 100 / 2 ^ 40 + 7 / 25 * t ^ 4))"
proof -
  define s where "s = real (2 ^ 40 - 1 - p div 2 ^ 23) / 2 ^ 40"
  note r = refine_root_series [OF assms(1-3), folded s_def Y_def]
  have t: "0 < t" "t \<le> 3 / 1000" "t < 1" using assms(1,2) r(3,4) by (simp_all add: assms(5) field_simps)
  have st: "s \<le> t" "t - s \<le> 1 / 2 ^ 40" using r(4,5) by (simp_all add: assms(5))
  have Y: "0 < Y" using assms(4) by (simp add: Y_def)
  have root: "0 < sqrt (1 - t)" using t by simp
  have "series t < 1 / sqrt (1 - t)" using series_below [OF t(1,3)] root by (simp add: field_simps)
  then have "series s < 1 / sqrt (1 - t)" using series_slope(1) [OF r(3) st(1) t(2)] by simp
  then have "Y * series s < Y * (1 / sqrt (1 - t))" using Y by (intro mult_strict_left_mono)
  then show "real (refine_root r0 p) < Y / sqrt (1 - t)" using r(1) by simp
  have "1 / sqrt (1 - t) \<le> series t + 7 / 25 * t ^ 4" using series_above [of t] t root by (simp add: field_simps)
  also have "series t \<le> series s + 51 / 100 / 2 ^ 40" using series_slope(2) [OF r(3) st(1) t(2)] st(2) by simp
  finally have "Y * (1 / sqrt (1 - t)) \<le> Y * (series s + (51 / 100 / 2 ^ 40 + 7 / 25 * t ^ 4))" using Y by (intro mult_left_mono) simp_all
  then show "Y / sqrt (1 - t) < real (refine_root r0 p) + (2 + 1 / 20000 + Y * (51 / 100 / 2 ^ 40 + 7 / 25 * t ^ 4))"
    using r(2) by (simp add: distrib_left)
qed

text \<open>
  The whole approximation: \<open>j\<close> selects the piece, odd for arguments below 2 and even for those from 2 to 4.
\<close>

definition recip_root :: "nat \<Rightarrow> nat \<Rightarrow> nat" where
  "recip_root j e =
    (let r0 = piece j e; a = 2 ^ 31 + j div 2 * 2 ^ 28 + e in refine_root r0 ((if odd j then r0 * r0 else 2 * (r0 * r0)) * a))"

lemma piece_facts:
  assumes "j < 16" "e < 2 ^ 28"
  defines "a \<equiv> 2 ^ 31 + j div 2 * 2 ^ 28 + e" and "r0 \<equiv> piece j e"
  defines "p \<equiv> (if odd j then r0 * r0 else 2 * (r0 * r0)) * a"
  shows "p < 2 ^ 63" "2 ^ 63 * ((if j = 14 then 999085 else 997000) / 1000000) \<le> real p" "r0 \<le> unat (softfloat_approxRecipSqrt_1k0s ! j)" "0 < r0"
  proof -
  define k0 k1 where "k0 = unat (softfloat_approxRecipSqrt_1k0s ! j)" and "k1 = unat (softfloat_approxRecipSqrt_1k1s ! j)"
  define r where "r = int k0 - int k1 * (int e div 2 ^ 12) div 2 ^ 20"
  define low where "low = piece_limit j * (if j = 14 then 999086 else 997100) div 1000000"
  have "piece_ok (int k0) (int k1) (2 ^ 31 + int (j div 2) * 2 ^ 28) (piece_limit j) low"
    using pieces_ok [OF assms(1)] by (simp add: k0_def k1_def low_def)
  note b = piece_bounds [OF this _ _ r_def]
  have r: "0 \<le> r" "r \<le> int k0" using b(3,4) assms(2) by simp_all
  have "int (k1 * (e div 2 ^ 12) div 2 ^ 20) = int k1 * (int e div 2 ^ 12) div 2 ^ 20" by (simp add: zdiv_int)
  then have ir: "int r0 = r" using r(1) unfolding r_def r0_def piece_def k0_def [symmetric] k1_def [symmetric] by (simp add: of_nat_diff)
  show "r0 \<le> unat (softfloat_approxRecipSqrt_1k0s ! j)" using r(2) ir by (simp add: k0_def [symmetric])
  have ia: "int a = 2 ^ 31 + int (j div 2) * 2 ^ 28 + int e" by (simp add: a_def)
  have h: "int a * (int r0 * int r0) < piece_limit j" "low \<le> int a * (int r0 * int r0)" using b(1,2) assms(2) unfolding ir ia by simp_all
  have ip: "int p = (if odd j then 1 else 2) * (int a * (int r0 * int r0))" by (simp add: p_def mult_ac)
  then have "int p < 2 ^ 63" using h(1) by (simp add: piece_limit_def split: if_splits)
  then show "p < 2 ^ 63" by simp
  have "2 ^ 63 * (if j = 14 then 999085 else 997000) \<le> int p * 1000000"
    using h(2) ip by (simp add: low_def piece_limit_def split: if_splits)
  then have "real_of_int (2 ^ 63 * (if j = 14 then 999085 else 997000)) \<le> real_of_int (int p * 1000000)" by (simp only: of_int_le_iff)
  then show low: "2 ^ 63 * ((if j = 14 then 999085 else 997000) / 1000000) \<le> real p" by (simp split: if_splits)
  show "0 < r0"
  proof (rule ccontr)
    assume "\<not> 0 < r0"
    then have "p = 0" by (simp add: p_def)
    then show False using low by (simp split: if_splits)
  qed
qed

lemma recip_root_bounds:
  assumes "j < 16" "e < 2 ^ 28" "a = 2 ^ 31 + j div 2 * 2 ^ 28 + e"
  defines "R \<equiv> 2 ^ 32 / sqrt (real a / 2 ^ (if odd j then 31 else 30))"
  shows "real (recip_root j e) < R" "R < real (recip_root j e) + 21 / 10" "j = 14 \<Longrightarrow> R < real (recip_root j e) + 20016 / 10000"
proof -
  define r0 p t where "r0 = piece j e" and "p = (if odd j then r0 * r0 else 2 * (r0 * r0)) * a" and "t = 1 - real p / 2 ^ 63"
  note f = piece_facts [OF assms(1,2), folded assms(3) r0_def, folded p_def]
  define k where "k = softfloat_approxRecipSqrt_1k0s ! j"
  have r0: "r0 < 2 ^ 16" "r0 \<le> unat k" using f(3) unsigned_less [of k, where 'a = nat] by (simp_all add: k_def)
  have low: "2 ^ 63 * (997 / 1000) \<le> real p" using f(2) by (simp split: if_splits)
  define Y where "Y = real r0 * 2 ^ 16"
  define A where "A = real a / 2 ^ (if odd j then 31 else 30)"
  have "1 - t = (real r0 / 2 ^ 16)\<^sup>2 * A" by (simp add: t_def p_def A_def power2_eq_square)
  then have sq: "sqrt (1 - t) = real r0 / 2 ^ 16 * sqrt A" by (simp add: real_sqrt_mult)
  have "0 < A" by (simp add: A_def assms(3))
  then have R: "Y / sqrt (1 - t) = R" unfolding sq Y_def R_def A_def [symmetric] using f(4) by (simp add: field_simps)
  have rec: "recip_root j e = refine_root r0 p" by (simp only: recip_root_def Let_def r0_def p_def assms(3))
  note e = refine_root_error [OF f(1) low r0(1) f(4) t_def, folded Y_def, unfolded R, folded rec]
  show "real (recip_root j e) < R" by (rule e(1))
  have t0: "0 \<le> t" using f(1) by (simp add: t_def field_simps)
  have err: "Y * (51 / 100 / 2 ^ 40 + 7 / 25 * t ^ 4) \<le> Ym * (51 / 100 / 2 ^ 40 + 7 / 25 * tm ^ 4)" if "Y \<le> Ym" "t \<le> tm" for Ym tm
    using that t0 by (intro mult_mono add_mono power_mono) (simp_all add: Y_def)
  have "Y \<le> 2 ^ 32" "t \<le> 3 / 1000" using r0(1) low by (simp_all add: Y_def t_def field_simps)
  from err [OF this] e(2) show "R < real (recip_root j e) + 21 / 10" by (simp add: power4_eq_xxxx)
  show "R < real (recip_root j e) + 20016 / 10000" if "j = 14"
  proof -
    have "unat k = 0x8424" by (simp add: k_def that softfloat_approxRecipSqrt_1k0s_def)
    then have "Y \<le> 0x8424 * 2 ^ 16" "t \<le> 915 / 1000000" using r0(2) f(2) that by (simp_all add: Y_def t_def field_simps)
    from err [OF this] e(2) show ?thesis by (simp add: power4_eq_xxxx)
  qed
qed

section \<open>The estimate of the root\<close>

text \<open>
  For a significand \<open>m\<close> the root is sought with 30 fraction bits; the estimate is below it by less than
  three units, unless the significand is close to \<open>2 ^ 24\<close>, where the bound is a little weaker.
\<close>

definition estimate :: "bool \<Rightarrow> nat \<Rightarrow> nat" where
  "estimate odd_exp m =
    (let j = 2 * (m div 2 ^ 20 - 8) + (if odd_exp then 1 else 0)
     in m * 2 ^ 8 * recip_root j (m * 2 ^ 8 mod 2 ^ 28) div 2 ^ (if odd_exp then 33 else 32))"

definition exact_root :: "bool \<Rightarrow> nat \<Rightarrow> real" where
  "exact_root odd_exp m = sqrt (real m * 2 ^ (if odd_exp then 37 else 38))"

lemma estimate_bounds:
  assumes "2 ^ 23 \<le> m" "m < 2 ^ 24"
  shows "real (estimate d m) < exact_root d m" "exact_root d m < real (estimate d m) + 30016 / 10000"
    "d \<or> m \<le> 2 ^ 24 - 14000 \<Longrightarrow> exact_root d m < real (estimate d m) + 3"
proof -
  define i where "i = m div 2 ^ 20 - 8"
  define j where "j = 2 * i + (if d then 1 else 0)"
  define e where "e = m * 2 ^ 8 mod 2 ^ 28"
  define a where "a = m * 2 ^ 8"
  have "8 \<le> m div 2 ^ 20" "m div 2 ^ 20 < 16" using assms div_le_mono [OF assms(1), of "2 ^ 20"] by (simp_all add: less_mult_imp_div_less)
  then have i: "m div 2 ^ 20 = 8 + i" "i < 8" by (simp_all add: i_def)
  have "a = a div 2 ^ 28 * 2 ^ 28 + e" unfolding a_def e_def by (rule div_mult_mod_eq [symmetric])
  moreover have "a div 2 ^ 28 = m div 2 ^ 20" unfolding a_def using div_mult_mult2 [of "2 ^ 8" m "2 ^ 20"] by simp
  ultimately have a: "a = 2 ^ 31 + j div 2 * 2 ^ 28 + e" using i(1) by (simp add: j_def)
  have j: "j < 16" "odd j = d" using i(2) by (auto simp: j_def)
  have e: "e < 2 ^ 28" by (simp add: e_def)
  define r where "r = recip_root j e"
  define R where "R = 2 ^ 32 / sqrt (real a / 2 ^ (if d then 31 else 30))"
  note b = recip_root_bounds [OF j(1) e a, unfolded j(2), folded R_def r_def]
  define n where "n = (if d then 33 else 32 :: nat)"
  define y where "y = exact_root d m"
  define c where "c = real a / 2 ^ n"
  have a0: "0 < a" using a by simp
  have "R\<^sup>2 = 2 ^ 64 / (real a / 2 ^ (if d then 31 else 30))" by (simp add: R_def power_divide)
  then have "(c * R)\<^sup>2 = real m * 2 ^ (if d then 37 else 38)"
    using a0 unfolding power_mult_distrib by (cases d) (simp_all add: c_def n_def a_def power2_eq_square field_simps)
  then have "sqrt ((c * R)\<^sup>2) = y" by (simp add: y_def exact_root_def)
  then have y: "y = c * R" by (simp add: c_def R_def)
  have am: "real a = real m * 2 ^ 8" by (simp add: a_def)
  have c: "0 < c" "c < 1" "d \<Longrightarrow> c < 1 / 2" "m \<le> 2 ^ 24 - 14000 \<Longrightarrow> c \<le> 1 - 14000 / 2 ^ 24"
    using assms by (simp_all add: c_def am n_def field_simps)
  have c15: "c \<le> 15 / 16" if "\<not> d" "j \<noteq> 14"
  proof -
    have "i < 7" using that i(2) by (simp add: j_def)
    then have "a < 15 * 2 ^ 28" using a e by (simp add: j_def)
    then show ?thesis using that(1) by (simp add: c_def n_def)
  qed
  define z where "z = estimate d m"
  have "z = a * r div 2 ^ n"
    unfolding z_def estimate_def Let_def i_def [symmetric] j_def [symmetric] e_def [symmetric] unfolding a_def [symmetric] r_def n_def ..
  then have z: "real z \<le> c * real r" "c * real r - 1 < real z" using real_div [of "a * r" n] by (simp_all add: c_def)
  have gap: "y < real z + (c * u + 1)" if "R < real r + u" for u
    using mult_strict_left_mono [OF that c(1)] z(2) unfolding y by (simp add: distrib_left)
  show "real z < y" using mult_strict_left_mono [OF b(1) c(1)] z(1) unfolding y by simp
  have small: "y < real z + 3" if "d \<or> j \<noteq> 14" using gap [OF b(2)] c(3) c15 that by fastforce
  show "y < real z + 30016 / 10000" using small gap [OF b(3)] c(2) by fastforce
  show "y < real z + 3" if "d \<or> m \<le> 2 ^ 24 - 14000" using small gap [OF b(3)] c(4) that by fastforce
qed

text \<open>Close to \<open>2 ^ 24\<close> only one root lies on or just above a multiple of 64.\<close>

lemma near_squares:
  fixes n u t :: int
  assumes "0 < t" "t < 14000" "n = t + u" "n \<le> 2 ^ 24" "n * n \<le> 2 ^ 26 * u" "2 ^ 26 * u < n * n + 1678"
  shows "n = 8192 \<and> u = 1"
proof -
  have u: "0 < u"
  proof (rule ccontr)
    assume "\<not> 0 < u"
    then have "n * n \<le> 0" using assms(5) by simp
    moreover have "0 \<le> n * n" by simp
    ultimately have "n = 0" by (metis order.antisym mult_eq_0_iff)
    then show False using assms(1,3,5) by simp
  qed
  then have n0: "0 < n" using assms(1,3) by simp
  have "n * n \<le> n * 2 ^ 24" using assms(4) n0 by (intro mult_left_mono) simp_all
  then have n2: "n \<le> 2 ^ 15" using assms(2,3,6) u by simp
  then have "n * n \<le> n * 2 ^ 15" using n0 by (intro mult_left_mono) simp_all
  then have u7: "u < 7" using assms(2,3,6) by simp
  have u3: "u < 3"
  proof (rule ccontr)
    assume "\<not> u < 3"
    moreover have "n * n \<le> 14006 * 14006" using u7 assms(2,3) n0 by (intro mult_mono) simp_all
    ultimately show False using assms(6) by simp
  qed
  have "n \<le> 11585" if "u = 2"
  proof (rule ccontr)
    assume "\<not> n \<le> 11585"
    then have "11586 * 11586 \<le> n * n" by (intro mult_mono) simp_all
    then show False using assms(5) that by simp
  qed
  moreover have "n * n \<le> 11585 * 11585" if "n \<le> 11585" using that n0 by (intro mult_mono) simp_all
  ultimately have "u \<noteq> 2" using assms(6) by fastforce
  then have u1: "u = 1" using u u3 by simp
  have "n \<le> 8192"
  proof (rule ccontr)
    assume "\<not> n \<le> 8192"
    then have "8193 * 8193 \<le> n * n" by (intro mult_mono) simp_all
    then show False using assms(5) u1 by simp
  qed
  moreover have "8192 \<le> n"
  proof (rule ccontr)
    assume "\<not> 8192 \<le> n"
    then have "n * n \<le> 8191 * 8191" using n0 by (intro mult_mono) simp_all
    then show False using assms(6) u1 by simp
  qed
  ultimately show ?thesis using u1 by simp
qed

lemma near_roots:
  assumes "2 ^ 24 - 14000 < m" "m < 2 ^ 24" "64 * real K \<le> exact_root False m" "exact_root False m < 64 * real K + 16 / 10000"
  shows "m = 2 ^ 24 - 8191"
proof -
  define y where "y = exact_root False m"
  have y2: "y\<^sup>2 = real m * 2 ^ 38" and y0: "0 \<le> y" by (simp_all add: y_def exact_root_def)
  have "(64 * real K)\<^sup>2 \<le> y\<^sup>2" using assms(3) by (intro power_mono) (simp_all add: y_def)
  then have "real (K * K) \<le> real (m * 2 ^ 26)" unfolding y2 by (simp add: power2_eq_square)
  then have low: "K * K \<le> m * 2 ^ 26" by (simp only: of_nat_le_iff)
  have K: "K < 2 ^ 25"
  proof (rule ccontr)
    assume "\<not> K < 2 ^ 25"
    then have "2 ^ 25 * 2 ^ 25 \<le> K * K" by (intro mult_mono) simp_all
    then show False using low assms(2) by simp
  qed
  have "y\<^sup>2 < (64 * real K + 16 / 10000)\<^sup>2" using assms(4) y0 by (intro power_strict_mono) (simp_all add: y_def)
  also have "\<dots> \<le> 2 ^ 12 * (real (K * K) + 1678)" using K by (simp add: power2_eq_square field_simps)
  finally have "real (m * 2 ^ 26) < real (K * K + 1678)" unfolding y2 by simp
  then have high: "m * 2 ^ 26 < K * K + 1678" by (simp only: of_nat_less_iff)
  have K24: "2 ^ 24 \<le> K"
  proof (rule ccontr)
    assume "\<not> 2 ^ 24 \<le> K"
    then have "K * K \<le> 2 ^ 24 * 2 ^ 24" by (intro mult_mono) simp_all
    then show False using high assms(1) by simp
  qed
  define n t where "n = 2 ^ 25 - int K" and "t = 2 ^ 24 - int m"
  have "int (K * K) = 2 ^ 50 - 2 ^ 26 * n + n * n" by (simp add: n_def algebra_simps)
  moreover have "int (m * 2 ^ 26) = 2 ^ 50 - 2 ^ 26 * t" by (simp add: t_def algebra_simps)
  moreover have "int (K * K) \<le> int (m * 2 ^ 26)" "int (m * 2 ^ 26) < int (K * K + 1678)" using low high by (simp_all only: of_nat_le_iff of_nat_less_iff)
  ultimately have "n * n \<le> 2 ^ 26 * (n - t)" "2 ^ 26 * (n - t) < n * n + 1678" by (simp_all add: algebra_simps)
  then have "n = 8192 \<and> n - t = 1"
    using assms(1,2) K24 by (intro near_squares [of t]) (simp_all add: t_def n_def)
  then show ?thesis using assms(2) by (simp add: t_def)
qed

lemma special_root: "exact_root False 16769025 = 2146959360" "estimate False 16769025 + 3 > 2146959360"
proof -
  have "real 16769025 * 2 ^ 38 = 2146959360\<^sup>2" by simp
  then show "exact_root False 16769025 = 2146959360" unfolding exact_root_def by (simp only: if_False real_sqrt_abs abs_numeral)
  have "piece 14 266338560 = 32762" by (simp add: piece_def softfloat_approxRecipSqrt_1k0s_def softfloat_approxRecipSqrt_1k1s_def)
  then have "recip_root 14 266338560 = refine_root 32762 9215493245415475200" by (simp add: recip_root_def)
  also have "\<dots> = 2148008063" by (simp add: refine_root_def)
  finally show "estimate False 16769025 + 3 > 2146959360" by (simp add: estimate_def)
qed

lemma last_of_64: "(w + 2) mod 64 = 63 \<Longrightarrow> w + 3 = 64 * ((w + 3) div 64)" for w :: nat
proof -
  assume "(w + 2) mod 64 = 63"
  then have "(w + 3) mod 64 = 0" using mod_Suc [of "w + 2" 64] by (simp add: add.commute)
  then show ?thesis using mult_div_mod_eq [of 64 "w + 3"] by (simp only: add_0_right)
qed

lemma estimate_last:
  assumes "2 ^ 23 \<le> m" "m < 2 ^ 24" "(estimate d m + 2) mod 64 = 63"
  shows "exact_root d m < real (estimate d m) + 3"
proof (rule ccontr)
  assume not: "\<not> ?thesis"
  then have "\<not> (d \<or> m \<le> 2 ^ 24 - 14000)" using estimate_bounds(3) [OF assms(1,2), of d] by blast
  then have d: "\<not> d" "2 ^ 24 - 14000 < m" by simp_all
  define K where "K = (estimate d m + 3) div 64"
  have "estimate d m + 3 = 64 * K" unfolding K_def by (rule last_of_64 [OF assms(3)])
  then have K: "real (estimate d m) + 3 = 64 * real K" by linarith
  have "m = 2 ^ 24 - 8191"
    using not estimate_bounds(2) [OF assms(1,2), of d] K d assms(2) by (intro near_roots [of m K]) simp_all
  then have "m = 16769025" by simp
  then show False using not special_root d(1) by simp
qed

lemma agree_inside:
  fixes c :: int
  assumes "of_int c * 2 ^ k < y" "y < of_int (c + 1) * 2 ^ k" "of_int c * 2 ^ k < z" "z < of_int (c + 1) * 2 ^ k"
  shows "agree k y z"
proof (rule agreeI)
  fix h :: int
  consider "h \<le> c" | "c + 1 \<le> h" by linarith
  then have "of_int h * 2 ^ k \<le> (of_int c * 2 ^ k :: real) \<or> of_int (c + 1) * 2 ^ k \<le> (of_int h * 2 ^ k :: real)"
    by cases (simp_all only: mult_right_mono of_int_le_iff zero_le_power zero_le_numeral, simp_all)
  then show "y < of_int h * 2 ^ k \<longleftrightarrow> z < of_int h * 2 ^ k" "of_int h * 2 ^ k < y \<longleftrightarrow> of_int h * 2 ^ k < z" using assms by linarith+
qed

text \<open>The estimate plus two, corrected by the sign of the remainder where it is next to a multiple of 64.\<close>

definition corrected :: "bool \<Rightarrow> nat \<Rightarrow> nat" where
  "corrected d m =
    (let z = estimate d m + 2; k = 64 * (z div 64); y = exact_root d m
     in if z mod 64 < 2 then (if real k < y then k + 1 else if y < real k then k - 1 else k) else z)"

lemma exact_root_bounds:
  assumes "2 ^ 23 \<le> m" "m < 2 ^ 24"
  shows "2 ^ 30 \<le> exact_root d m" "exact_root d m < 2 ^ 31"
proof -
  have "(2 ^ 30)\<^sup>2 \<le> real m * 2 ^ (if d then 37 else 38)" using assms by simp
  then show "2 ^ 30 \<le> exact_root d m" unfolding exact_root_def by (rule real_le_rsqrt)
  have "real m * 2 ^ (if d then 37 else 38) < (2 ^ 31)\<^sup>2" using assms by simp
  then show "exact_root d m < 2 ^ 31" unfolding exact_root_def by (intro real_less_lsqrt) simp_all
qed

lemma corrected_ok:
  assumes "2 ^ 23 \<le> m" "m < 2 ^ 24"
  shows "agree 6 (exact_root d m) (real (corrected d m))"
proof -
  define y z where "y = exact_root d m" and "z = estimate d m + 2"
  define k where "k = z div 64"
  have y: "real z - 2 < y" "y < real z + 10016 / 10000" "z mod 64 = 63 \<Longrightarrow> y < real z + 1" "2 ^ 30 \<le> y"
    using estimate_bounds [OF assms, of d] estimate_last [OF assms, of d] exact_root_bounds [OF assms, of d] by (simp_all add: y_def z_def)
  define l where "l = z mod 64"
  have z: "z = 64 * k + l" "l < 64" by (simp_all add: k_def l_def)
  show ?thesis
  proof (cases "l < 2")
    case True
    have "2 ^ 24 \<le> k" using y(2,4) z True by simp
    then have inside: "agree 6 y (real (64 * k + 1))" if "real (64 * k) < y"
      using that y z True by (intro agree_inside [of "int k"]) simp_all
    have "agree 6 y (real (64 * k - 1))" if "y < real (64 * k)"
      using that y z True \<open>2 ^ 24 \<le> k\<close> by (intro agree_inside [of "int k - 1"]) (simp_all add: of_nat_diff)
    then show ?thesis using inside True
      unfolding corrected_def Let_def y_def [symmetric] z_def [symmetric] k_def [symmetric] l_def [symmetric] by auto
  next
    case False
    have "y < 64 * real k + 64" using y(2,3) z unfolding l_def [symmetric] by (cases "l = 63") simp_all
    then have "agree 6 y (real z)" using False y(1) z by (intro agree_inside [of "int k"]) simp_all
    then show ?thesis using False
      unfolding corrected_def Let_def y_def [symmetric] z_def [symmetric] k_def [symmetric] l_def [symmetric] by simp
  qed
qed

section \<open>The code\<close>

lemma unat_widen: "LENGTH('a) \<le> LENGTH('b) \<Longrightarrow> unat (ucast w :: 'b::len word) = unat w" for w :: "'a::len word"
proof -
  assume "LENGTH('a) \<le> LENGTH('b)"
  then have "(2 :: nat) ^ LENGTH('a) \<le> 2 ^ LENGTH('b)" by (rule power_increasing) simp
  then show ?thesis using unsigned_less [of w, where 'a = nat] by (intro unat_narrow) (rule less_le_trans)
qed

lemma unat_16_64 [simp]: "unat (ucast w :: u64) = unat w" for w :: u16
  by (rule unat_widen) simp

lemma not_low: "x < 2 ^ 40 \<Longrightarrow> 2 ^ 40 - 2 ^ 32 \<le> x \<Longrightarrow> unat w = x \<Longrightarrow> unat (ucast (NOT w) :: u32) = 2 ^ 40 - 1 - x" for w :: u64
proof -
  assume x: "x < 2 ^ 40" "2 ^ 40 - 2 ^ 32 \<le> x" "unat w = x"
  have "NOT w = - 1 - w" by (simp add: not_eq_complement)
  moreover have "unat (- 1 - w) = 2 ^ 64 - 1 - x" using x by (subst unat_minus) (simp_all add: unsigned_minus_1_eq_mask mask_eq_exp_minus_1)
  ultimately have "unat (ucast (NOT w) :: u32) = (2 ^ 64 - 1 - x) mod 2 ^ 32" by (simp add: unsigned_ucast_eq take_bit_eq_mod)
  also have "2 ^ 64 - 1 - x = (2 ^ 40 - 1 - x) + (2 ^ 32 - 2 ^ 8) * 2 ^ 32" using x(1) by simp
  also have "\<dots> mod 2 ^ 32 = (2 ^ 40 - 1 - x) mod 2 ^ 32" by (rule mod_mult_self1)
  also have "\<dots> = 2 ^ 40 - 1 - x" using x(2) by (intro mod_less) simp
  finally show ?thesis .
qed

lemma recip_root_range:
  assumes "j < 16" "e < 2 ^ 28" "2 ^ 31 + j div 2 * 2 ^ 28 + e \<le> 2 ^ 32 - 2 ^ 8"
  shows "2 ^ 31 \<le> recip_root j e" "recip_root j e < 2 ^ 32"
proof -
  define a A where "a = 2 ^ 31 + j div 2 * 2 ^ 28 + e" and "A = real a / 2 ^ (if odd j then 31 else 30)"
  note b = recip_root_bounds [OF assms(1,2) a_def, folded A_def]
  have "real a \<le> real (2 ^ 32 - 2 ^ 8)" using assms(3) unfolding a_def by (simp only: of_nat_le_iff)
  then have A: "1 \<le> A" "A \<le> 4 - 1 / 2 ^ 22" by (simp_all add: A_def a_def field_simps)
  then have s: "1 \<le> sqrt A" by simp
  then have "2 ^ 32 / sqrt A \<le> 2 ^ 32" by (simp add: field_simps)
  then have "real (recip_root j e) < real (2 ^ 32)" using b(1) by simp
  then show "recip_root j e < 2 ^ 32" by (simp only: of_nat_less_iff)
  have "sqrt A \<le> 2 ^ 32 / (2 ^ 31 + 4)"
    using A by (intro real_le_lsqrt) (simp_all add: power2_eq_square)
  then have "2 ^ 31 + 4 \<le> 2 ^ 32 / sqrt A" using s by (simp add: field_simps)
  then have "real (2 ^ 31) \<le> real (recip_root j e)" using b(2) by simp
  then show "2 ^ 31 \<le> recip_root j e" by (simp only: of_nat_le_iff)
qed

lemma piece_square: "j < 16 \<Longrightarrow> e < 2 ^ 28 \<Longrightarrow> (if odd j then piece j e * piece j e else 2 * (piece j e * piece j e)) < 2 ^ 32"
proof -
  assume j: "j < 16" "e < 2 ^ 28"
  define E where "E = (if odd j then piece j e * piece j e else 2 * (piece j e * piece j e))"
  have "E * 2 ^ 31 \<le> E * (2 ^ 31 + j div 2 * 2 ^ 28 + e)" by (intro mult_left_mono) simp_all
  also have "\<dots> < 2 ^ 63" using piece_facts(1) [OF j] by (simp only: E_def)
  finally show ?thesis unfolding E_def [symmetric] by simp
qed

text \<open>The steps after the table, on words.\<close>

lemma refine_root_words:
  fixes r0 :: u16 and a sigma0 :: u32 and E r q :: u64
  assumes "unat E < 2 ^ 32" "unat E * unat a = p" "p < 2 ^ 63" "2 ^ 63 * (997 / 1000) \<le> real p" "unat r0 = r0'"
    and "sigma0 = ucast (NOT (shr (ucast (ucast E :: u32) * ucast a :: u64) 23))"
    and "r = shl (ucast r0) 16 + shr (ucast r0 * ucast sigma0) 25"
    and "q = r + shr (ucast (ucast (shr r 1 + shr r 3 - shl (ucast r0) 14) :: u32) * ucast (ucast (shr (ucast sigma0 * ucast sigma0 :: u64) 32) :: u32)) 48"
  shows "unat q = refine_root r0' p"
proof -
  define n where "n = 2 ^ 40 - 1 - p div 2 ^ 23"
  have "unat (ucast (ucast E :: u32) * ucast a :: u64) = p"
    using assms(1-3) unat_narrow [of E, where 'b = 32] by (subst unat_times) (simp_all add: assms(2))
  moreover have "2 ^ 40 - 2 ^ 32 \<le> p div 2 ^ 23"
  proof -
    have "real ((2 ^ 40 - 2 ^ 32) * 2 ^ 23) \<le> real p" using assms(4) by simp
    then have "(2 ^ 40 - 2 ^ 32) * 2 ^ 23 \<le> p" by (simp only: of_nat_le_iff)
    from div_le_mono [OF this, of "2 ^ 23"] show ?thesis by simp
  qed
  moreover have "p div 2 ^ 23 < 2 ^ 40" using assms(3) by simp
  ultimately have sg: "unat sigma0 = n" unfolding assms(6) n_def by (intro not_low) (simp_all add: unat_drop)
  have nlt: "n < 2 ^ 32" using \<open>2 ^ 40 - 2 ^ 32 \<le> p div 2 ^ 23\<close> by (simp add: n_def)
  have r0: "r0' < 2 ^ 16" using unsigned_less [of r0, where 'a = nat] assms(5) by simp
  have "r0' * n < 2 ^ 16 * 2 ^ 32" using r0 nlt by (intro mult_strict_mono) simp_all
  moreover define h where "h = r0' * n div 2 ^ 25"
  ultimately have m1: "unat (shr (ucast r0 * ucast sigma0 :: u64) 25) = h" "h < 2 ^ 23"
    by (simp_all add: unat_drop unat_times sg assms(5) less_mult_imp_div_less)
  define k where "k = r0' * 2 ^ 16 + h"
  have s1: "unat (shl (ucast r0 :: u64) 16) = r0' * 2 ^ 16" "unat (shl (ucast r0 :: u64) 14) = r0' * 2 ^ 14"
    using r0 by (simp_all add: unat_push assms(5))
  have rk: "unat r = k" unfolding assms(7) k_def using m1 r0 by (subst unat_plus) (simp_all only: s1 m1(1), simp_all)
  have klt: "k < 2 ^ 32 + 2 ^ 23" using m1(2) r0 by (simp add: k_def)
  have kge: "r0' * 2 ^ 15 \<le> k div 2" unfolding k_def by simp
  define v where "v = k div 2 + k div 8 - r0' * 2 ^ 14"
  have "unat (shr r 1 + shr r 3) = k div 2 + k div 8" using klt by (subst unat_plus) (simp_all add: unat_drop rk)
  then have "unat (shr r 1 + shr r 3 - shl (ucast r0) 14) = v" unfolding v_def using kge by (subst unat_minus) (simp_all add: s1)
  moreover have "v < 2 ^ 32" using klt by (simp add: v_def)
  moreover define vw where "vw = (ucast (ucast (shr r 1 + shr r 3 - shl (ucast r0) 14) :: u32) :: u64)"
  ultimately have vw: "unat vw = v" by (simp add: unat_narrow)
  have "n * n < 2 ^ 32 * 2 ^ 32" using nlt by (intro mult_strict_mono) simp_all
  then have "unat (shr (ucast sigma0 * ucast sigma0 :: u64) 32) = n * n div 2 ^ 32" "n * n div 2 ^ 32 < 2 ^ 32"
    by (simp_all add: unat_drop unat_times sg less_mult_imp_div_less)
  moreover define qw where "qw = (ucast (ucast (shr (ucast sigma0 * ucast sigma0 :: u64) 32) :: u32) :: u64)"
  ultimately have qw: "unat qw = n * n div 2 ^ 32" by (simp add: unat_narrow)
  have prod: "v * (n * n div 2 ^ 32) < 2 ^ 32 * 2 ^ 32" using \<open>v < 2 ^ 32\<close> \<open>n * n div 2 ^ 32 < 2 ^ 32\<close> by (intro mult_strict_mono) simp_all
  then have "v * (n * n div 2 ^ 32) div 2 ^ 48 < 2 ^ 16" by (simp add: less_mult_imp_div_less)
  then have "unat q = k + v * (n * n div 2 ^ 32) div 2 ^ 48"
    unfolding assms(8) vw_def [symmetric] qw_def [symmetric] using prod klt by (subst unat_plus) (simp_all add: unat_drop unat_times vw qw rk)
  then show ?thesis by (simp only: refine_root_def Let_def n_def k_def v_def h_def)
qed

text \<open>The part of the range and the distance into it, from the bits of the significand.\<close>

lemma recip_index:
  fixes a :: u32
  assumes "unat a = m * 2 ^ 8" "2 ^ 23 \<le> m" "m < 2 ^ 24" "od = (if d then 1 else 0)"
  defines "j \<equiv> 2 * (m div 2 ^ 20 - 8) + od" and "e \<equiv> m * 2 ^ 8 mod 2 ^ 28"
  shows "unat (shr a 27 AND 0xE) + od = j" "unat (ucast (shr a 12) :: u16) = e div 2 ^ 12"
    "m * 2 ^ 8 = 2 ^ 31 + j div 2 * 2 ^ 28 + e" "j < 16" "odd j = d"
proof -
  define i where "i = m div 2 ^ 20 - 8"
  have j: "j = 2 * i + od" by (simp add: j_def i_def)
  have "8 \<le> m div 2 ^ 20" "m div 2 ^ 20 < 16" using assms(2,3) div_le_mono [OF assms(2), of "2 ^ 20"] by (simp_all add: less_mult_imp_div_less)
  then have i: "m div 2 ^ 20 = 8 + i" "i < 8" by (simp_all add: i_def)
  have d28: "m * 2 ^ 8 div 2 ^ 28 = m div 2 ^ 20" using div_mult_mult2 [of "2 ^ 8" m "2 ^ 20"] by simp
  show "m * 2 ^ 8 = 2 ^ 31 + j div 2 * 2 ^ 28 + e"
    using div_mult_mod_eq [of "m * 2 ^ 8" "2 ^ 28"] i(1) assms(4) unfolding d28 e_def [symmetric] by (simp add: j)
  show "j < 16" "odd j = d" using i(2) assms(4) by (auto simp: j)
  have "shr a 27 AND 0xE = shl (shr a 28 AND mask 3) 1" by (rule word32_eqI) (simp_all add: bit_simps)
  then have "unat (shr a 27 AND 0xE) = unat (shl (shr a 28 AND mask 3) 1)" by simp
  also have "\<dots> = 2 * i" using i unfolding unat_push_mod unat_take unat_drop assms(1) d28 by simp
  finally show "unat (shr a 27 AND 0xE) + od = j" by (simp add: j)
  have "unat (ucast (shr a 12) :: u16) = m * 2 ^ 8 div 2 ^ 12 mod 2 ^ 16"
    using unat_drop [of 12 a] by (simp add: unsigned_ucast_eq take_bit_eq_mod assms(1))
  also have "\<dots> = e div 2 ^ 12" unfolding e_def using mod_mult2_eq [of "m * 2 ^ 8" "2 ^ 12" "2 ^ 16"] by simp
  finally show "unat (ucast (shr a 12) :: u16) = e div 2 ^ 12" .
qed

lemma approxRecipSqrt_ok:
  assumes "unat a = m * 2 ^ 8" "2 ^ 23 \<le> m" "m < 2 ^ 24" "od = (if d then 1 else 0)"
  shows "unat (softfloat_approxRecipSqrt32_1 od a) = recip_root (2 * (m div 2 ^ 20 - 8) + od) (m * 2 ^ 8 mod 2 ^ 28)"
proof -
  define j e where "j = 2 * (m div 2 ^ 20 - 8) + od" and "e = m * 2 ^ 8 mod 2 ^ 28"
  define eps where "eps = (ucast (shr a 12) :: u16)"
  note idx = recip_index [OF assms, folded j_def e_def eps_def]
  note index = idx(1) and eps = idx(2) and am = idx(3) and j = idx(4,5)
  have e: "e < 2 ^ 28" by (simp add: e_def)
  define k0 k1 where "k0 = softfloat_approxRecipSqrt_1k0s ! j" and "k1 = softfloat_approxRecipSqrt_1k1s ! j"
  define r0 where "r0 = (ucast ((ucast k0 :: u64) - shr (ucast k1 * ucast eps) 20) :: u16)"
  note f = piece_facts [OF j(1) e]
  have "unat k1 * unat eps < 2 ^ 16 * 2 ^ 16"
    using unsigned_less [of k1, where 'a = nat] unsigned_less [of eps, where 'a = nat] by (intro mult_strict_mono) simp_all
  then have q: "unat (shr (ucast k1 * ucast eps :: u64) 20) = unat k1 * (e div 2 ^ 12) div 2 ^ 20"
    unfolding eps [symmetric] by (simp add: unat_drop unat_times)
  moreover have p: "piece j e = unat k0 - unat k1 * (e div 2 ^ 12) div 2 ^ 20" by (simp add: piece_def k0_def k1_def)
  ultimately have "unat ((ucast k0 :: u64) - shr (ucast k1 * ucast eps) 20) = piece j e" using f(4) by (subst unat_minus) simp_all
  moreover have "piece j e < 2 ^ 16" using f(3) unsigned_less [of k0, where 'a = nat] by (simp add: k0_def)
  ultimately have r0: "unat r0 = piece j e" unfolding r0_def by (subst unat_narrow) simp_all
  define E where "E = (if od = 0 then shl (ucast r0 * ucast r0) 1 else ucast r0 * ucast r0 :: u64)"
  define E' where "E' = (if odd j then piece j e * piece j e else 2 * (piece j e * piece j e))"
  have lt: "E' < 2 ^ 32" unfolding E'_def by (rule piece_square [OF j(1) e])
  then have E: "unat E = E'" using assms(4) j(2) by (simp add: E_def E'_def unat_push unat_times r0 split: if_splits)
  define p where "p = E' * (m * 2 ^ 8)"
  have pp: "p < 2 ^ 63" "2 ^ 63 * (997 / 1000) \<le> real p"
    using f(1,2) unfolding p_def E'_def am by (simp_all split: if_splits)
  define sigma0 where "sigma0 = (ucast (NOT (shr (ucast (ucast E :: u32) * ucast a :: u64) 23)) :: u32)"
  define r where "r = (shl (ucast r0) 16 + shr (ucast r0 * ucast sigma0) 25 :: u64)"
  define w where "w = r + shr (ucast (ucast (shr r 1 + shr r 3 - shl (ucast r0) 14) :: u32) * ucast (ucast (shr (ucast sigma0 * ucast sigma0 :: u64) 32) :: u32)) 48"
  have code: "softfloat_approxRecipSqrt32_1 od a = (if w AND 0x80000000 = 0 then 0x80000000 else ucast w)"
    unfolding softfloat_approxRecipSqrt32_1_def Let_def index eps_def [symmetric] k0_def [symmetric] k1_def [symmetric] r0_def [symmetric]
      E_def [symmetric] sigma0_def [symmetric] unfolding r_def [symmetric] unfolding w_def [symmetric] ..
  have "recip_root j e = refine_root (piece j e) p" by (simp only: recip_root_def Let_def p_def E'_def am)
  moreover have "unat w = refine_root (piece j e) p"
    using refine_root_words [OF _ _ pp r0 sigma0_def r_def w_def] E lt by (simp add: p_def assms(1))
  ultimately have w: "unat w = recip_root j e" by simp
  have "2 ^ 31 + j div 2 * 2 ^ 28 + e \<le> 2 ^ 32 - 2 ^ 8" unfolding am [symmetric] using assms(3) by simp
  then have range: "2 ^ 31 \<le> unat w" "unat w < 2 ^ 32" unfolding w using recip_root_range [OF j(1) e] by blast+
  then have "unat w div 2 ^ 31 = 1" by simp
  then have "bit w 31" by (simp add: bit_div)
  then have "w AND 2 ^ 31 \<noteq> 0" unfolding and_exp_eq_0 by simp
  then show ?thesis unfolding code using range(2) w by (simp add: unat_narrow j_def e_def)
qed

text \<open>The remainder modulo \<open>2 ^ 32\<close> tells on which side of the root a candidate next to it lies.\<close>

lemma remainder_sign:
  fixes T M :: nat
  assumes "T < M * 2 ^ 32 + 2 ^ 31" "M * 2 ^ 32 < T + 2 ^ 31"
  shows "2 ^ 31 \<le> T mod 2 ^ 32 \<longleftrightarrow> T < M * 2 ^ 32" "T mod 2 ^ 32 = 0 \<longleftrightarrow> T = M * 2 ^ 32"
proof -
  have both: "(2 ^ 31 \<le> T mod 2 ^ 32 \<longleftrightarrow> T < M * 2 ^ 32) \<and> (T mod 2 ^ 32 = 0 \<longleftrightarrow> T = M * 2 ^ 32)"
  proof (cases "T < M * 2 ^ 32")
    case True
    define h where "h = M * 2 ^ 32 - T"
    have h: "0 < h" "h < 2 ^ 31" "T = M * 2 ^ 32 - h" using True assms(2) by (simp_all add: h_def)
    have "M \<noteq> 0" using True by auto
    then obtain M' where "M = Suc M'" by (cases M) simp_all
    then have T: "T = (2 ^ 32 - h) + M' * 2 ^ 32" using h by simp
    have "T mod 2 ^ 32 = (2 ^ 32 - h) mod 2 ^ 32" unfolding T by (rule mod_mult_self1)
    also have "\<dots> = 2 ^ 32 - h" using h(1) by (intro mod_less) simp
    finally have "T mod 2 ^ 32 = 2 ^ 32 - h" .
    then show ?thesis using h(1,2) True by simp
  next
    case False
    define h where "h = T - M * 2 ^ 32"
    have h: "h < 2 ^ 31" "T = h + M * 2 ^ 32" using False assms(1) by (simp_all add: h_def)
    then have "T mod 2 ^ 32 = h" by simp
    then show ?thesis using h False by auto
  qed
  show "2 ^ 31 \<le> T mod 2 ^ 32 \<longleftrightarrow> T < M * 2 ^ 32" by (rule both [THEN conjunct1])
  show "T mod 2 ^ 32 = 0 \<longleftrightarrow> T = M * 2 ^ 32" by (rule both [THEN conjunct2])
qed

lemma candidate_side:
  assumes "2 ^ 23 \<le> m" "m < 2 ^ 24" "real (64 * k) < exact_root d m + 2" "exact_root d m < real (64 * k) + 4" "T = 16 * k * (16 * k)"
  shows "2 ^ 31 \<le> T mod 2 ^ 32 \<longleftrightarrow> real (64 * k) < exact_root d m" "T mod 2 ^ 32 = 0 \<longleftrightarrow> exact_root d m = real (64 * k)"
proof -
  define y M where "y = exact_root d m" and "M = m * (if d then 2 else 4)"
  have y2: "y * y = 16 * real (M * 2 ^ 32)" by (simp add: y_def exact_root_def M_def)
  have yb: "2 ^ 30 \<le> y" "y < 2 ^ 31" using exact_root_bounds [OF assms(1,2)] by (simp_all add: y_def)
  define x where "x = real (64 * k)"
  have x2: "x * x = 16 * real T" by (simp add: x_def assms(5))
  have x: "x < y + 2" "y < x + 4" "0 \<le> x" using assms(3,4) by (simp_all add: x_def y_def)
  have "(x - y) * (x + y) \<le> 2 * (x + y)" "(y - x) * (x + y) \<le> 4 * (x + y)" using x yb by (intro mult_right_mono; simp)+
  moreover have "(x - y) * (x + y) = 16 * (real T - real (M * 2 ^ 32))" "(y - x) * (x + y) = 16 * (real (M * 2 ^ 32) - real T)"
    using x2 y2 by (simp_all add: algebra_simps)
  ultimately have "real T < real (M * 2 ^ 32 + 2 ^ 31)" "real (M * 2 ^ 32) < real (T + 2 ^ 31)" using x yb by simp_all
  then have "T < M * 2 ^ 32 + 2 ^ 31" "M * 2 ^ 32 < T + 2 ^ 31" by (simp_all only: of_nat_less_iff)
  note r = remainder_sign [OF this]
  have "T < M * 2 ^ 32 \<longleftrightarrow> real T < real (M * 2 ^ 32)" "T = M * 2 ^ 32 \<longleftrightarrow> real T = real (M * 2 ^ 32)" by (simp_all only: of_nat_less_iff of_nat_eq_iff)
  then have "T < M * 2 ^ 32 \<longleftrightarrow> x * x < y * y" "T = M * 2 ^ 32 \<longleftrightarrow> x * x = y * y" unfolding x2 y2 by (simp_all add: mult.commute)
  moreover have "x * x < y * y \<longleftrightarrow> x < y" "x * x = y * y \<longleftrightarrow> y = x"
    using x(3) yb by (auto simp: power2_eq_square [symmetric] power_mono_iff power_strict_mono dest: power_less_imp_less_base)
  ultimately show "2 ^ 31 \<le> T mod 2 ^ 32 \<longleftrightarrow> real (64 * k) < exact_root d m" "T mod 2 ^ 32 = 0 \<longleftrightarrow> exact_root d m = real (64 * k)"
    using r by (simp_all add: x_def y_def)
qed

lemma sqrt_words:
  fixes sA sZ :: u64
  assumes "unat sA = m * 2 ^ 8" "2 ^ 23 \<le> m" "m < 2 ^ 24" "od = (if d then 1 else 0)"
    and "sZ = shr (sA * ucast (softfloat_approxRecipSqrt32_1 od (ucast sA))) 32"
  shows "unat ((if d then shr sZ 1 else sZ) + 2) = estimate d m + 2" "estimate d m + 2 < 2 ^ 32"
proof -
  define r where "r = recip_root (2 * (m div 2 ^ 20 - 8) + od) (m * 2 ^ 8 mod 2 ^ 28)"
  have "unat (ucast sA :: u32) = m * 2 ^ 8" using assms(1,3) unat_narrow [of sA, where 'b = 32] by simp
  then have r: "unat (softfloat_approxRecipSqrt32_1 od (ucast sA)) = r" unfolding r_def using assms(2-4) by (intro approxRecipSqrt_ok) simp_all
  have rlt: "r < 2 ^ 32" unfolding r [symmetric] using unsigned_less [of "softfloat_approxRecipSqrt32_1 od (ucast sA)", where 'a = nat] by simp
  have "m * 2 ^ 8 * r < 2 ^ 32 * 2 ^ 32" using assms(3) rlt by (intro mult_strict_mono) simp_all
  then have z: "unat sZ = m * 2 ^ 8 * r div 2 ^ 32" unfolding assms(5) by (simp add: unat_drop unat_times r assms(1))
  have "estimate d m = m * 2 ^ 8 * r div 2 ^ (if d then 33 else 32)" by (simp only: estimate_def Let_def r_def assms(4))
  then have e: "unat (if d then shr sZ 1 else sZ) = estimate d m"
    using div_mult2_eq [of "m * 2 ^ 8 * r" "2 ^ 32" 2] by (cases d) (simp_all add: unat_drop z)
  have "real (estimate d m) < real (2 ^ 31)" using estimate_bounds(1) [OF assms(2,3), of d] exact_root_bounds(2) [OF assms(2,3), of d] by simp
  then have lt: "estimate d m < 2 ^ 31" by (simp only: of_nat_less_iff)
  then show "estimate d m + 2 < 2 ^ 32" by simp
  show "unat ((if d then shr sZ 1 else sZ) + 2) = estimate d m + 2" using lt e by (subst unat_plus) simp_all
qed

lemma cleared_low:
  fixes Z :: u64
  assumes "unat Z = 64 * k + l" "l < 2"
  shows "unat (Z AND NOT 3) = 64 * k" "unat ((Z AND NOT 3) OR 1) = 64 * k + 1"
proof -
  have "(Z AND NOT b) + (Z AND b) = Z" for b
  proof -
    have "(Z AND NOT b) + (Z AND b) = (Z AND NOT b) OR (Z AND b)" by (rule disjunctive_add) (auto simp: bit_simps)
    also have "\<dots> = Z" by (rule bit_word_eqI) (auto simp: bit_simps)
    finally show ?thesis .
  qed
  then have sum: "Z AND NOT b = Z - (Z AND b)" for b by (simp add: eq_diff_eq)
  have "(64 * k + l) mod 4 = l" using assms(2) by presburger
  then have low: "unat (Z AND 3) = l" using unat_take [of Z 2] assms by (simp add: mask_eq_exp_minus_1)
  show w: "unat (Z AND NOT 3) = 64 * k" unfolding sum using low assms by (subst unat_minus) simp_all
  define A where "A = Z AND NOT 3"
  have A: "unat A = 64 * k" using w by (simp only: A_def)
  then have "\<not> bit A 0" by (simp add: bit_div)
  then have "n \<noteq> 0" if "bit A n" for n using that by (cases n) auto
  then have "A OR 1 = A + 1" by (intro disjunctive_add [symmetric]) (auto simp: bit_1_iff)
  moreover have "64 * k + 1 < 2 ^ 64" using unsigned_less [of A, where 'a = nat] A by simp
  ultimately have "unat (A OR 1) = 64 * k + 1" using A by (simp add: unat_plus)
  then show "unat ((Z AND NOT 3) OR 1) = 64 * k + 1" by (simp only: A_def)
qed

lemma correction_words:
  fixes Z :: u64 and negRem :: u32
  assumes "2 ^ 23 \<le> m" "m < 2 ^ 24" "unat Z = estimate d m + 2" "estimate d m + 2 < 2 ^ 32" "negRem = ucast (shr Z 2 * shr Z 2)"
  shows "unat (if Z AND 0x3F < 2 then
      (if negRem AND 0x80000000 \<noteq> 0 then (Z AND NOT 3) OR 1 else if negRem \<noteq> 0 then (Z AND NOT 3) - 1 else Z AND NOT 3)
    else Z) = corrected d m"
proof -
  define y z where "y = exact_root d m" and "z = estimate d m + 2"
  define k l where "k = z div 64" and "l = z mod 64"
  have z: "z = 64 * k + l" "l < 64" "unat Z = z" "z < 2 ^ 32" using assms(3,4) by (simp_all add: k_def l_def z_def)
  have "unat (Z AND mask 6) = l" unfolding unat_take z(3) l_def by simp
  then have low: "Z AND 0x3F < 2 \<longleftrightarrow> l < 2" by (simp add: word_less_nat_alt mask_eq_exp_minus_1)
  have c: "corrected d m = (if l < 2 then (if real (64 * k) < y then 64 * k + 1 else if y < real (64 * k) then 64 * k - 1 else 64 * k) else z)"
    by (simp only: corrected_def Let_def y_def z_def k_def l_def)
  show ?thesis
  proof (cases "l < 2")
    case True
    have yz: "real z - 2 < y" "y < real z + 2" using estimate_bounds(1,2) [OF assms(1,2), of d] by (simp_all add: y_def z_def)
    have zk: "real (64 * k) \<le> real z" "real z \<le> real (64 * k) + 1" using z(1) True by simp_all
    have q: "unat (shr Z 2) = 16 * k" using True z by (simp add: unat_drop)
    define T where "T = 16 * k * (16 * k)"
    have "16 * k < 2 ^ 30" using z by simp
    then have "T < 2 ^ 30 * 2 ^ 30" unfolding T_def by (intro mult_strict_mono) simp_all
    then have "unat (shr Z 2 * shr Z 2) = T" unfolding T_def by (subst unat_times) (simp_all add: q)
    then have n: "unat negRem = T mod 2 ^ 32" by (simp add: assms(5) unsigned_ucast_eq take_bit_eq_mod)
    note side = candidate_side [OF assms(1,2) _ _ T_def, of d, folded y_def]
    have s: "2 ^ 31 \<le> T mod 2 ^ 32 \<longleftrightarrow> real (64 * k) < y" "T mod 2 ^ 32 = 0 \<longleftrightarrow> y = real (64 * k)" using side yz zk by simp_all
    have top: "negRem AND 0x80000000 \<noteq> 0 \<longleftrightarrow> real (64 * k) < y"
      using and_exp_eq_0 [of negRem 31] s(1) by (simp add: sign_eq n)
    have zero: "negRem \<noteq> 0 \<longleftrightarrow> y \<noteq> real (64 * k)" using s(2) n by (simp add: unat_eq_0 [symmetric])
    note w = cleared_low [OF z(3) [unfolded z(1)] True]
    have m1: "unat ((Z AND NOT 3) - 1) = 64 * k - 1" if "y < real (64 * k)"
    proof -
      have "k \<noteq> 0" using that exact_root_bounds(1) [OF assms(1,2), of d] by (auto simp: y_def)
      then show ?thesis using w(1) by (subst unat_minus) simp_all
    qed
    show ?thesis unfolding c low using True top zero w m1 by auto
  next
    case False
    then show ?thesis unfolding c low by (simp add: z(3))
  qed
qed

section \<open>The square root\<close>

lemma root_scaled:
  assumes "d \<longleftrightarrow> odd e" "of_int f = real m * 2 powi (e - 1)"
  shows "sqrt (of_int f * 2 ^ 149) = exact_root d m * 2 powi ((e - 127) div 2 + 126 - 7)"
proof -
  define k where "k = (e - 127) div 2 + 119"
  have e: "e + 148 = (if d then 37 else 38) + 2 * k" using assms(1) unfolding k_def by (cases d) presburger+
  have "of_int f * 2 ^ 149 = real m * 2 powi (e + 148)"
    unfolding assms(2) using power_int_add [of "2 :: real" "e - 1" 149] by (simp add: add.commute)
  also have "2 powi (e + 148) = (2 :: real) powi (if d then 37 else 38) * (2 powi k * 2 powi k)"
    unfolding e by (simp add: power_int_add [symmetric] algebra_simps)
  finally have "of_int f * 2 ^ 149 = (real m * 2 ^ (if d then 37 else 38)) * (2 powi k)\<^sup>2"
    by (simp add: power2_eq_square split: if_splits)
  then have "sqrt (of_int f * 2 ^ 149) = exact_root d m * sqrt ((2 powi k)\<^sup>2)"
    by (simp only: exact_root_def real_sqrt_mult)
  then show ?thesis by (simp add: k_def add.commute)
qed

lemma f32_sqrt_ok:
  assumes "fexp a < 255" "mag a \<noteq> 0" "\<not> bit a 31" "mode \<noteq> 6"
  shows "rounds_to mode False (sqrt (of_int (fmag (mag a)) * 2 ^ 149)) (f32_sqrt mode a)"
proof -
  obtain e h where h: "norm_operand (expF32UI a) (fracF32UI a) = Some (e, h)" "operand a e (unat (h OR 0x00800000))"
    using norm_ok(2) [OF assms(1,2)] by blast
  define m d where "m = unat (h OR 0x00800000)" and "d = odd e"
  have m: "2 ^ 23 \<le> m" "m < 2 ^ 24" "- 22 \<le> e" "e \<le> 254" "of_int (fmag (mag a)) = real m * 2 powi (e - 1)"
    using h(2) by (simp_all add: operand_def m_def)
  define sA where "sA = shl (h OR 0x00800000) 8"
  have sA: "unat sA = m * 2 ^ 8" using m(2) unfolding sA_def by (subst unat_push) (simp_all add: m_def)
  have od: "nat (e mod 2) = (if d then 1 else 0)" "e mod 2 \<noteq> 0 \<longleftrightarrow> d" by (auto simp: d_def odd_iff_mod_2_eq_one)
  define sZ where "sZ = shr (sA * ucast (softfloat_approxRecipSqrt32_1 (nat (e mod 2)) (ucast sA))) 32"
  define Z where "Z = (if d then shr sZ 1 else sZ) + 2"
  define R where "R = (if Z AND 0x3F < 2 then
      (if ucast (shr Z 2 * shr Z 2) AND (0x80000000 :: u32) \<noteq> 0 then (Z AND NOT 3) OR 1
       else if ucast (shr Z 2 * shr Z 2) \<noteq> (0 :: u32) then (Z AND NOT 3) - 1 else Z AND NOT 3)
    else Z)"
  note z = sqrt_words [OF sA m(1,2) od(1) sZ_def, folded Z_def]
  have R: "unat R = corrected d m" unfolding R_def by (rule correction_words [OF m(1,2) z refl])
  have sq: "f32_sqrt mode a = softfloat_roundPackToF32 mode False ((e - 127) div 2 + 126) R"
    using assms(1,3) h(1) unfolding f32_sqrt_def Let_def sign_bit exp_ok
    by (simp only: sA_def [symmetric] sZ_def [symmetric] od(2) Z_def [symmetric] R_def [symmetric] if_False option.case prod.case) simp
  have "stands_for (unat R) ((e - 127) div 2 + 126) (sqrt (of_int (fmag (mag a)) * 2 ^ 149))"
    unfolding stands_for_def root_scaled [OF d_def m(5)] R
    using exact_root_bounds [OF m(1,2), of d] corrected_ok [OF m(1,2), of d] by blast
  then show ?thesis unfolding sq using m(3,4) assms(4) by (intro roundPack_ok) simp_all
qed

end
