(* ===== verification/Softfloat_Props.thy ===== *)
theory Softfloat_Props
  imports Softfloat_Sqrt
begin

unbundle bit_operations_syntax

text \<open>
  The arithmetic instructions of the F extension, from the handler down to the rounding: what they
  return for every operand, NaNs, infinities and zeros included, and which flags they raise.
\<close>

section \<open>Operands that are not finite\<close>

definition finf :: "u32 \<Rightarrow> bool" where
  "finf f \<longleftrightarrow> fexp f = 255 \<and> ffrac f = 0"

definition signed_inf :: "bool \<Rightarrow> u32" where
  "signed_inf s = (if s then 0xFF800000 else 0x7F800000)"

definition signed_zero :: "bool \<Rightarrow> u32" where
  "signed_zero s = (if s then 0x80000000 else 0)"

text \<open>
  What IEEE 754 says of an operation on two numbers of which one is not finite, or of a division by
  zero: \<^const>\<open>None\<close> if the result is the rounded one.
\<close>

definition fp_special :: "fp_op \<Rightarrow> u32 \<Rightarrow> u32 \<Rightarrow> (u32 \<times> u8) option" where
  "fp_special f a b =
    (let s = (bit a 31 \<noteq> bit b 31); same = (if f = Rv_fsubs then s else \<not> s) in
     if fnan a \<or> fnan b then Some (0x7FC00000, if fsnan a \<or> fsnan b then 16 else 0)
     else if f = Rv_fmuls then
       (if finf a \<and> mag b = 0 \<or> mag a = 0 \<and> finf b then Some (0x7FC00000, 16)
        else if finf a \<or> finf b then Some (signed_inf s, 0) else None)
     else if f = Rv_fdivs then
       (if finf a \<and> finf b \<or> mag a = 0 \<and> mag b = 0 then Some (0x7FC00000, 16)
        else if finf a then Some (signed_inf s, 0)
        else if finf b then Some (signed_zero s, 0)
        else if mag b = 0 then Some (signed_inf s, 8) else None)
     else
       (if finf a \<and> finf b \<and> \<not> same then Some (0x7FC00000, 16)
        else if finf a then Some (a, 0)
        else if finf b then Some (signed_inf (if f = Rv_fsubs then \<not> bit b 31 else bit b 31), 0) else None))"

text \<open>The exact result in units of the smallest subnormal number, and the sign of an exact zero.\<close>

definition fp_exact :: "fp_op \<Rightarrow> u32 \<Rightarrow> u32 \<Rightarrow> real" where
  "fp_exact f a b =
    (if f = Rv_fmuls then of_int (fval a) * of_int (fval b) / 2 ^ 149
     else if f = Rv_fdivs then of_int (fval a) / of_int (fval b) * 2 ^ 149
     else if f = Rv_fsubs then of_int (fval a) - of_int (fval b)
     else of_int (fval a) + of_int (fval b))"

definition fp_zero_sign :: "u8 \<Rightarrow> fp_op \<Rightarrow> u32 \<Rightarrow> u32 \<Rightarrow> bool" where
  "fp_zero_sign mode f a b =
    (let s = (bit a 31 \<noteq> bit b 31); same = (if f = Rv_fsubs then s else \<not> s) in
     if f = Rv_fmuls \<or> f = Rv_fdivs then s else if same then bit a 31 else mode = 2)"

definition fp_correct :: "u8 \<Rightarrow> fp_op \<Rightarrow> u32 \<Rightarrow> u32 \<Rightarrow> u32 \<times> u8 \<Rightarrow> bool" where
  "fp_correct mode f a b r \<longleftrightarrow>
    (case fp_special f a b of Some r' \<Rightarrow> r = r' | None \<Rightarrow> ieee_result mode (fp_exact f a b) (fp_zero_sign mode f a b) r)"

fun fp_function :: "fp_op \<Rightarrow> u8 \<Rightarrow> u32 \<Rightarrow> u32 \<Rightarrow> u32 \<times> u8" where
  "fp_function Rv_fadds = f32_add"
| "fp_function Rv_fsubs = f32_sub"
| "fp_function Rv_fmuls = f32_mul"
| "fp_function Rv_fdivs = f32_div"
| "fp_function _ = (\<lambda>mode a b. (0, 0))"

lemma frac_zero: "fracF32UI f = 0 \<longleftrightarrow> ffrac f = 0" "fracF32UI f \<noteq> 0 \<longleftrightarrow> ffrac f \<noteq> 0"
  by (simp_all add: unat_eq_0 [symmetric] frac_ok)

lemma or_zero: "v OR w = 0 \<longleftrightarrow> v = 0 \<and> w = 0" for v w :: "'a::len word"
  by (auto simp: bit_eq_iff bit_or_iff)

lemma finite_or: "\<not> fnan a \<Longrightarrow> \<not> finf a \<Longrightarrow> fexp a < 255"
  using field_bounds(2) [of a] by (auto simp: fnan_def finf_def)

lemma finite_not: "fexp a < 255 \<Longrightarrow> \<not> fnan a" "fexp a < 255 \<Longrightarrow> \<not> finf a"
  by (simp_all add: fnan_def finf_def)

lemma pack_inf: "packToF32UI s 0xFF 0 = signed_inf s"
  by (simp add: packToF32UI_def signed_inf_def)

lemma inf_word: "finf a \<Longrightarrow> a = signed_inf (bit a 31)"
proof -
  assume "finf a"
  then have "mag a = 0x7F800000" using field_bounds(3) [of a] by (simp add: finf_def)
  moreover have "mag (signed_inf s) = 0x7F800000" "bit (signed_inf s) 31 = s" for s
    by (simp_all add: signed_inf_def mag_def)
  ultimately show ?thesis using unat_mag [of a] unat_mag [of "signed_inf (bit a 31)"] by (simp only: word_unat_eq_iff)
qed

lemma propagate: "softfloat_propagateNaNF32UI a b = (0x7FC00000, if fsnan a \<or> fsnan b then 16 else 0)"
  by (simp add: softfloat_propagateNaNF32UI_def snan_test)

lemma mag_zero: "mag a = 0 \<longleftrightarrow> fexp a = 0 \<and> ffrac a = 0"
  using field_bounds(3) [of a] by auto

lemma snan_nan: "fsnan a \<Longrightarrow> fnan a"
  by (simp add: fsnan_def fnan_def)

lemma shl_frac_zero: "k \<le> 8 \<Longrightarrow> shl (fracF32UI f) k = 0 \<longleftrightarrow> ffrac f = 0"
  using frac_shl [of k f] by (simp add: unat_eq_0 [symmetric])

lemmas special_tests = exp_ok frac_zero or_zero shl_frac_zero propagate pack_inf pack_zero sign_bit

lemma mags_special:
  assumes "fexp a = 255 \<or> fexp b = 255"
  shows "softfloat_addMagsF32 mode a b =
      (if fnan a \<or> fnan b then (0x7FC00000, if fsnan a \<or> fsnan b then 16 else 0) else (signed_inf (bit a 31), 0))"
    "softfloat_subMagsF32 mode a b =
      (if fnan a \<or> fnan b then (0x7FC00000, if fsnan a \<or> fsnan b then 16 else 0)
       else if finf a \<and> finf b then (0x7FC00000, 16) else if finf a then (a, 0) else (signed_inf (\<not> bit a 31), 0))"
proof -
  have i: "ffrac a = 0 \<Longrightarrow> fexp a = 255 \<Longrightarrow> signed_inf (bit a 31) = a" by (rule inf_word [symmetric]) (simp add: finf_def)
  have c: "fexp a = 255 \<and> fexp b = 255 \<or> fexp a < 255 \<and> fexp b = 255 \<or> fexp a = 255 \<and> fexp b < 255"
    using assms field_bounds(2) [of a] field_bounds(2) [of b] by linarith
  show "softfloat_addMagsF32 mode a b =
      (if fnan a \<or> fnan b then (0x7FC00000, if fsnan a \<or> fsnan b then 16 else 0) else (signed_inf (bit a 31), 0))"
    using c by (elim disjE conjE) (simp_all add: softfloat_addMagsF32_def Let_def special_tests fnan_def fsnan_def i)
  show "softfloat_subMagsF32 mode a b =
      (if fnan a \<or> fnan b then (0x7FC00000, if fsnan a \<or> fsnan b then 16 else 0)
       else if finf a \<and> finf b then (0x7FC00000, 16) else if finf a then (a, 0) else (signed_inf (\<not> bit a 31), 0))"
    using c by (elim disjE conjE) (simp_all add: softfloat_subMagsF32_def Let_def special_tests fnan_def fsnan_def finf_def)
qed

lemma not_finite: "\<not> fexp a < 255 \<Longrightarrow> fnan a \<or> finf a"
  using finite_or by blast

lemma finite_special:
  assumes "fexp a < 255" "fexp b < 255" "f \<noteq> Rv_fdivs \<or> mag b \<noteq> 0"
  shows "fp_special f a b = None"
  using assms by (auto simp: fp_special_def Let_def finite_not)

lemma add_correct: "mode \<noteq> 6 \<Longrightarrow> fp_correct mode Rv_fadds a b (f32_add mode a b)"
proof (cases "fexp a < 255 \<and> fexp b < 255")
  case True
  moreover assume "mode \<noteq> 6"
  ultimately show ?thesis using f32_add_ieee [of a b mode]
    by (simp add: fp_correct_def finite_special fp_exact_def fp_zero_sign_def Let_def)
next
  case False
  then have e: "fexp a = 255 \<or> fexp b = 255" using field_bounds(2) [of a] field_bounds(2) [of b] by auto
  show ?thesis
    using e inf_word [of a, symmetric] inf_word [of b, symmetric]
    by (auto simp: f32_add_def sign_xor mags_special [OF e] fp_correct_def fp_special_def Let_def fnan_def finf_def)
qed

lemma sub_correct: "mode \<noteq> 6 \<Longrightarrow> fp_correct mode Rv_fsubs a b (f32_sub mode a b)"
proof (cases "fexp a < 255 \<and> fexp b < 255")
  case True
  moreover assume "mode \<noteq> 6"
  ultimately show ?thesis using f32_sub_ieee [of a b mode]
    by (simp add: fp_correct_def finite_special fp_exact_def fp_zero_sign_def Let_def)
next
  case False
  then have e: "fexp a = 255 \<or> fexp b = 255" using field_bounds(2) [of a] field_bounds(2) [of b] by auto
  show ?thesis
    using e inf_word [of a, symmetric] inf_word [of b, symmetric]
    by (auto simp: f32_sub_def sign_xor mags_special [OF e] fp_correct_def fp_special_def Let_def fnan_def finf_def)
qed

lemma mul_correct: "mode \<noteq> 6 \<Longrightarrow> fp_correct mode Rv_fmuls a b (f32_mul mode a b)"
proof (cases "fexp a < 255 \<and> fexp b < 255")
  case True
  moreover assume "mode \<noteq> 6"
  ultimately show ?thesis using f32_mul_ieee [of a b mode]
    by (simp add: fp_correct_def finite_special fp_exact_def fp_zero_sign_def Let_def)
next
  case False
  then have "fexp a = 255 \<or> fexp a < 255 \<and> fexp b = 255" using field_bounds(2) [of a] field_bounds(2) [of b] by auto
  then show ?thesis
    by (elim disjE conjE) (simp_all add: f32_mul_def special_tests fp_correct_def fp_special_def Let_def fnan_def fsnan_def finf_def mag_zero)
qed

lemma div_correct: "mode \<noteq> 6 \<Longrightarrow> fp_correct mode Rv_fdivs a b (f32_div mode a b)"
proof (cases "fexp a < 255 \<and> fexp b < 255")
  case True
  assume m: "mode \<noteq> 6"
  show ?thesis
  proof (cases "mag b = 0")
    case False
    then show ?thesis using True m f32_div_ieee [of a b mode]
      by (simp add: fp_correct_def finite_special fp_exact_def fp_zero_sign_def Let_def)
  next
    case z: True
    then have "norm_operand (expF32UI b) (fracF32UI b) = None" by (simp add: norm_operand_def special_tests mag_zero)
    then show ?thesis using True z
      by (simp add: f32_div_def special_tests fp_correct_def fp_special_def Let_def finite_not mag_zero)
  qed
next
  case False
  then have "fexp a = 255 \<or> fexp a < 255 \<and> fexp b = 255" using field_bounds(2) [of a] field_bounds(2) [of b] by auto
  then show ?thesis
    by (elim disjE conjE) (simp_all add: f32_div_def special_tests fp_correct_def fp_special_def Let_def fnan_def fsnan_def finf_def
        mag_zero signed_zero_def)
qed

lemma fp_function_ok:
  "f \<in> {Rv_fadds, Rv_fsubs, Rv_fmuls, Rv_fdivs} \<Longrightarrow> mode \<noteq> 6 \<Longrightarrow> fp_correct mode f a b (fp_function f mode a b)"
  using add_correct sub_correct mul_correct div_correct by auto

section \<open>The fused operations\<close>

text \<open>
  The four operations \<open>(a * b) + c\<close>, \<open>(a * b) - c\<close>, \<open>- (a * b) + c\<close>, \<open>- (a * b) - c\<close>: \<open>np\<close> and \<open>nc\<close> say
  whether the product and the addend are negated.
\<close>

definition fused_special :: "bool \<Rightarrow> bool \<Rightarrow> u32 \<Rightarrow> u32 \<Rightarrow> u32 \<Rightarrow> (u32 \<times> u8) option" where
  "fused_special np nc a b c =
    (let sp = ((bit a 31 \<noteq> bit b 31) \<noteq> np); sc = (bit c 31 \<noteq> nc);
         bad = (finf a \<and> mag b = 0 \<or> mag a = 0 \<and> finf b) in
     if fnan a \<or> fnan b \<or> fnan c \<or> bad then
       Some (0x7FC00000, if fsnan a \<or> fsnan b \<or> fsnan c \<or> bad then 16 else 0)
     else if finf a \<or> finf b then (if finf c \<and> sp \<noteq> sc then Some (0x7FC00000, 16) else Some (signed_inf sp, 0))
     else if finf c then Some (signed_inf sc, 0)
     else None)"

definition fused_correct :: "u8 \<Rightarrow> bool \<Rightarrow> bool \<Rightarrow> u32 \<Rightarrow> u32 \<Rightarrow> u32 \<Rightarrow> u32 \<times> u8 \<Rightarrow> bool" where
  "fused_correct mode np nc a b c r \<longleftrightarrow>
    (let sp = ((bit a 31 \<noteq> bit b 31) \<noteq> np); sc = (bit c 31 \<noteq> nc);
         product = of_int (fval a) * of_int (fval b) / 2 ^ 149 in
     case fused_special np nc a b c of
       Some r' \<Rightarrow> r = r'
     | None \<Rightarrow> ieee_result mode ((if np then - product else product) + (if nc then - of_int (fval c) else of_int (fval c)))
         (if sp = sc then sc else mode = 2) r)"

definition flip :: "bool \<Rightarrow> u32 \<Rightarrow> u32" where
  "flip n f = (if n then f XOR FMASK_SIGN else f)"

lemma flip_fields:
  "mag (flip n f) = mag f" "bit (flip n f) 31 \<longleftrightarrow> bit f 31 \<noteq> n" "fexp (flip n f) = fexp f" "ffrac (flip n f) = ffrac f"
  "fnan (flip n f) = fnan f" "fsnan (flip n f) = fsnan f" "finf (flip n f) = finf f"
  "fval (flip n f) = (if n then - fval f else fval f)"
proof -
  have "bit ((2 :: u32) ^ 31) k \<longleftrightarrow> k = 31" for k unfolding bit_exp_iff by auto
  then have b: "bit (f XOR FMASK_SIGN) k \<longleftrightarrow> bit f k \<noteq> (k = 31)" for k by (simp add: bit_xor_iff)
  have "take_bit 31 (f XOR FMASK_SIGN) = take_bit 31 f" by (rule bit_word_eqI) (auto simp: bit_take_bit_iff b)
  then have "mag (f XOR FMASK_SIGN) = mag f" unfolding mag_def by (metis unsigned_take_bit_eq take_bit_eq_mod)
  then show m: "mag (flip n f) = mag f" by (simp add: flip_def)
  show s: "bit (flip n f) 31 \<longleftrightarrow> bit f 31 \<noteq> n" by (simp add: flip_def b)
  show e: "fexp (flip n f) = fexp f" "ffrac (flip n f) = ffrac f" by (simp_all add: fexp_def ffrac_def m)
  show "fnan (flip n f) = fnan f" "fsnan (flip n f) = fsnan f" "finf (flip n f) = finf f"
    by (simp_all add: fnan_def fsnan_def finf_def e)
  show "fval (flip n f) = (if n then - fval f else fval f)" using m s by (cases n) (simp_all add: fval_def)
qed

lemma fused_flip: "fused_correct mode np nc a b c r \<longleftrightarrow> fused_correct mode False False (flip np a) b (flip nc c) r"
  by (simp add: fused_correct_def fused_special_def flip_fields Let_def) 

lemma mulAdd_correct:
  assumes "mode \<noteq> 6"
  shows "fused_correct mode False False a b c (f32_mulAdd mode a b c)"
proof (cases "fexp a < 255 \<and> fexp b < 255 \<and> fexp c < 255")
  case True
  then have "fused_special False False a b c = None" by (simp add: fused_special_def finite_not)
  then show ?thesis using f32_mulAdd_ieee [of a b c mode] True assms by (simp add: fused_correct_def)
next
  case False
  have dflt: "fexp 0x7FC00000 = 255" "ffrac 0x7FC00000 = 2 ^ 22" "fexp 0 = 0" "fexp (signed_inf s) = 255" "ffrac (signed_inf s) = 0" for s
    by (simp_all add: fexp_def ffrac_def mag_def signed_inf_def)
  have "fexp a = 255 \<or> fexp a < 255 \<and> fexp b = 255 \<or> fexp a < 255 \<and> fexp b < 255 \<and> fexp c = 255"
    using False field_bounds(2) [of a] field_bounds(2) [of b] field_bounds(2) [of c] by auto
  then show ?thesis
    using inf_word [of c, symmetric]
    by (elim disjE conjE) (auto simp: f32_mulAdd_def softfloat_mulAddF32_def special_tests fused_correct_def fused_special_def
      Let_def dflt fnan_def fsnan_def finf_def mag_zero)
qed

lemma fused_ok: "mode \<noteq> 6 \<Longrightarrow> fused_correct mode np nc a b c (f32_mulAdd mode (flip np a) b (flip nc c))"
  by (rule iffD2 [OF fused_flip mulAdd_correct])

section \<open>The instructions\<close>

text \<open>The rounding mode of an instruction: its own field, or the one of the control register.\<close>

definition selected_mode :: "riscv \<Rightarrow> rv_insn \<Rightarrow> u8" where
  "selected_mode rv ir = (if rm ir = 7 then ucast (shr (csr_fcsr rv) 5 AND NOT 8) else rm ir)"

lemma set_mode: "selected_mode rv ir \<le> 4 \<Longrightarrow>
  set_rounding_mode rv (rm ir) = Some (rv\<lparr>softfloat_roundingMode := selected_mode rv ir\<rparr>)"
proof -
  assume "selected_mode rv ir \<le> 4"
  moreover define m where "m = selected_mode rv ir"
  ultimately have "unat m \<in> {0, 1, 2, 3, 4}" by (auto simp: word_le_nat_alt)
  then have "m = 0 \<or> m = 1 \<or> m = 2 \<or> m = 3 \<or> m = 4" by (simp add: word_unat_eq_iff)
  then show ?thesis unfolding set_rounding_mode_def Let_def selected_mode_def [symmetric] m_def [symmetric] by fastforce
qed

text \<open>What an instruction that rounds leaves behind: the result in its register, the flags in the control register.\<close>

definition rounding_effect :: "riscv \<Rightarrow> rv_insn \<Rightarrow> u8 \<Rightarrow> riscv \<Rightarrow> bool" where
  "rounding_effect rv ir fl rv' \<longleftrightarrow>
    csr_fcsr rv' = csr_fcsr rv OR ucast fl \<and> softfloat_exceptionFlags rv' = 0 \<and>
    softfloat_roundingMode rv' = selected_mode rv ir \<and> mem_base rv' = mem_base rv"

lemma ieee_flags: "ieee_result mode v s (z, fl) \<Longrightarrow> fl AND 0x1F = fl"
  by (auto simp: ieee_result_def rounds_to_def split: if_splits)

lemma fp_correct_flags:
  assumes "fp_correct mode f a b (z, fl)"
  shows "fl AND 0x1F = fl"
proof (cases "fp_special f a b")
  case None
  then show ?thesis using assms ieee_flags by (simp add: fp_correct_def)
next
  case (Some r)
  then show ?thesis using assms by (auto simp: fp_correct_def fp_special_def Let_def split: if_splits)
qed

lemma fused_correct_flags:
  assumes "fused_correct mode np nc a b c (z, fl)"
  shows "fl AND 0x1F = fl"
proof (cases "fused_special np nc a b c")
  case None
  then show ?thesis using assms ieee_flags by (simp add: fused_correct_def Let_def)
next
  case (Some r)
  then show ?thesis using assms by (auto simp: fused_correct_def fused_special_def Let_def split: if_splits)
qed

lemma mode_ok: "selected_mode rv ir \<le> 4 \<Longrightarrow> selected_mode rv ir \<noteq> 6"
  by (auto simp: word_le_nat_alt)

lemma round_F:
  assumes "dispatch env rv ir c p = Next (set_fflag (set_F_flags (rd ir) (z, fl) (rv\<lparr>softfloat_roundingMode := selected_mode rv ir\<rparr>))) (c + 1) (p + 4)"
    "softfloat_exceptionFlags rv = 0" "fl AND 0x1F = fl"
  shows "\<exists>rv'. dispatch env rv ir c p = Next rv' (c + 1) (p + 4) \<and> F rv' = (F rv)(rd ir := z) \<and> X rv' = X rv \<and> rounding_effect rv ir fl rv'"
  using assms by (simp add: set_F_flags_def set_fflag_eq softfloat_raiseFlags_def rounding_effect_def)

lemma round_X:
  assumes "dispatch env rv ir c p = Next (set_fflag (set_X_flags (rd ir) (z, fl) (rv\<lparr>softfloat_roundingMode := selected_mode rv ir\<rparr>))) (c + 1) (p + 4)"
    "softfloat_exceptionFlags rv = 0" "fl AND 0x1F = fl"
  shows "\<exists>rv'. dispatch env rv ir c p = Next rv' (c + 1) (p + 4) \<and> X rv' = (if rd ir = 0 then X rv else (X rv)(rd ir := z)) \<and>
    F rv' = F rv \<and> rounding_effect rv ir fl rv'"
  using assms by (simp add: set_X_flags_def set_fflag_eq softfloat_raiseFlags_def rounding_effect_def)

text \<open>
  C8. \<^verbatim>\<open>fadd.s\<close>, \<^verbatim>\<open>fsub.s\<close>, \<^verbatim>\<open>fmul.s\<close> and \<^verbatim>\<open>fdiv.s\<close> are IEEE 754: with a rounding mode the ISA defines, the
  destination gets the exact result rounded in that mode, overflow and subnormal results included,
  and the cases of NaNs, infinities and zero divisors as the standard has them; the flags of the
  operation accrue in the control register, and nothing else changes. No flag of an earlier operation
  may be waiting to be collected (\<^verbatim>\<open>fmin.s\<close> and \<^verbatim>\<open>fmax.s\<close> can leave one behind).
\<close>

theorem fp_arith_correct:
  assumes "opcode ir = F_op f" "f \<in> {Rv_fadds, Rv_fsubs, Rv_fmuls, Rv_fdivs}"
    and "softfloat_exceptionFlags rv = 0" "selected_mode rv ir \<le> 4"
  shows "\<exists>rv' z fl. dispatch env rv ir c p = Next rv' (c + 1) (p + 4) \<and>
    fp_correct (selected_mode rv ir) f (F rv (rs1 ir)) (F rv (rs2 ir)) (z, fl) \<and>
    F rv' = (F rv)(rd ir := z) \<and> X rv' = X rv \<and> rounding_effect rv ir fl rv'"
proof -
  obtain z fl where r: "fp_function f (selected_mode rv ir) (F rv (rs1 ir)) (F rv (rs2 ir)) = (z, fl)" by fastforce
  then have ok: "fp_correct (selected_mode rv ir) f (F rv (rs1 ir)) (F rv (rs2 ir)) (z, fl)"
    using fp_function_ok [OF assms(2) mode_ok [OF assms(4)], of "F rv (rs1 ir)" "F rv (rs2 ir)"] by simp
  have "dispatch env rv ir c p =
      Next (set_fflag (set_F_flags (rd ir) (z, fl) (rv\<lparr>softfloat_roundingMode := selected_mode rv ir\<rparr>))) (c + 1) (p + 4)"
    using assms(1,2) set_mode [OF assms(4)] r by (auto simp: plain_defs)
  from round_F [OF this assms(3) fp_correct_flags [OF ok]] ok show ?thesis by blast
qed

theorem fp_arith_correct_witness:
  "\<exists>rv'. dispatch env0 (rv0\<lparr>F := (\<lambda>r. 0)(1 := 0xBF800000)\<rparr>)
      (ir0\<lparr>opcode := F_op Rv_fdivs, rd := 3, rs1 := 1, rs2 := 2\<rparr>) 0 0 = Next rv' 1 4 \<and>
    F rv' 3 = 0xFF800000 \<and> csr_fcsr rv' = 8"
proof -
  let ?rv = "rv0\<lparr>F := (\<lambda>r. 0)(1 := 0xBF800000)\<rparr>"
  let ?ir = "ir0\<lparr>opcode := F_op Rv_fdivs, rd := 3, rs1 := 1, rs2 := 2\<rparr>"
  have "fp_special Rv_fdivs 0xBF800000 0 = Some (0xFF800000, 8)"
    by (simp add: fp_special_def fnan_def finf_def fexp_def ffrac_def mag_def signed_inf_def)
  moreover have "selected_mode ?rv ?ir = 0" by (simp add: selected_mode_def sample_defs)
  ultimately show ?thesis
    using fp_arith_correct [of ?ir Rv_fdivs ?rv env0 0 0] by (auto simp: fp_correct_def rounding_effect_def sample_defs)
qed

text \<open>
  C9. The fused operations \<^verbatim>\<open>fmadd.s\<close>, \<^verbatim>\<open>fmsub.s\<close>, \<^verbatim>\<open>fnmsub.s\<close> and \<^verbatim>\<open>fnmadd.s\<close> round once, the exact sum of
  the exact product and the addend with the signs the instruction gives them; NaNs, infinities and
  the invalid product of zero and infinity are as in IEEE 754, and the flags accrue. The rounding mode
  is one the ISA defines and no flag of an earlier operation is waiting to be collected.
\<close>

theorem fp_fused_correct:
  assumes "opcode ir = F_op f" "f \<in> {Rv_fmadds, Rv_fmsubs, Rv_fnmsubs, Rv_fnmadds}"
    and "softfloat_exceptionFlags rv = 0" "selected_mode rv ir \<le> 4"
  shows "\<exists>rv' z fl. dispatch env rv ir c p = Next rv' (c + 1) (p + 4) \<and>
    fused_correct (selected_mode rv ir) (f = Rv_fnmsubs \<or> f = Rv_fnmadds) (f = Rv_fmsubs \<or> f = Rv_fnmadds)
      (F rv (rs1 ir)) (F rv (rs2 ir)) (F rv (rs3 ir)) (z, fl) \<and>
    F rv' = (F rv)(rd ir := z) \<and> X rv' = X rv \<and> rounding_effect rv ir fl rv'"
proof -
  let ?np = "f = Rv_fnmsubs \<or> f = Rv_fnmadds" and ?nc = "f = Rv_fmsubs \<or> f = Rv_fnmadds"
  obtain z fl where r: "f32_mulAdd (selected_mode rv ir) (flip ?np (F rv (rs1 ir))) (F rv (rs2 ir)) (flip ?nc (F rv (rs3 ir))) = (z, fl)"
    by fastforce
  then have ok: "fused_correct (selected_mode rv ir) ?np ?nc (F rv (rs1 ir)) (F rv (rs2 ir)) (F rv (rs3 ir)) (z, fl)"
    using fused_ok [OF mode_ok [OF assms(4)], of ?np ?nc "F rv (rs1 ir)" "F rv (rs2 ir)" "F rv (rs3 ir)"] by simp
  have "dispatch env rv ir c p =
      Next (set_fflag (set_F_flags (rd ir) (z, fl) (rv\<lparr>softfloat_roundingMode := selected_mode rv ir\<rparr>))) (c + 1) (p + 4)"
    using assms(1,2) set_mode [OF assms(4)] r by (auto simp: plain_defs flip_def)
  from round_F [OF this assms(3) fused_correct_flags [OF ok]] ok show ?thesis by blast
qed

theorem fp_fused_correct_witness:
  "\<exists>rv'. dispatch env0 (rv0\<lparr>F := (\<lambda>r. 0)(1 := 0x7F800000)\<rparr>)
      (ir0\<lparr>opcode := F_op Rv_fnmadds, rd := 3, rs1 := 1, rs2 := 1, imm := 2\<rparr>) 0 0 = Next rv' 1 4 \<and>
    F rv' 3 = 0xFF800000 \<and> csr_fcsr rv' = 0"
proof -
  let ?rv = "rv0\<lparr>F := (\<lambda>r. 0)(1 := 0x7F800000)\<rparr>"
  let ?ir = "ir0\<lparr>opcode := F_op Rv_fnmadds, rd := 3, rs1 := 1, rs2 := 1, imm := 2\<rparr>"
  have "fused_special True True 0x7F800000 0x7F800000 0 = Some (0xFF800000, 0)"
    by (simp add: fused_special_def fnan_def finf_def fexp_def ffrac_def mag_def signed_inf_def)
  moreover have "selected_mode ?rv ?ir = 0" by (simp add: selected_mode_def sample_defs)
  ultimately show ?thesis
    using fp_fused_correct [of ?ir Rv_fnmadds ?rv env0 0 0] by (auto simp: fused_correct_def rounding_effect_def sample_defs rs3_def)
qed

text \<open>
  C10. The conversions: \<^verbatim>\<open>fcvt.w.s\<close> and \<^verbatim>\<open>fcvt.wu.s\<close> round to an integer and saturate, raising the
  invalid-operation flag, when it does not fit or the operand is a NaN; \<^verbatim>\<open>fcvt.s.w\<close> and \<^verbatim>\<open>fcvt.s.wu\<close>
  round the integer to single precision; all in the selected mode and with the inexact flag exactly
  when the result differs from the operand. The rounding mode is one the ISA defines and no flag of an
  earlier operation is waiting to be collected.
\<close>

theorem fp_convert_correct:
  assumes "opcode ir = F_op f" "f \<in> {Rv_fcvtws, Rv_fcvtwus, Rv_fcvtsw, Rv_fcvtswu}"
    and "softfloat_exceptionFlags rv = 0" "selected_mode rv ir \<le> 4"
  shows "\<exists>rv' z fl. dispatch env rv ir c p = Next rv' (c + 1) (p + 4) \<and> rounding_effect rv ir fl rv' \<and>
    (if f = Rv_fcvtws \<or> f = Rv_fcvtwus then
       int_result (selected_mode rv ir) (if f = Rv_fcvtws then - (2 ^ 31) else 0)
         (if f = Rv_fcvtws then 2 ^ 31 - 1 else 2 ^ 32 - 1) (F rv (rs1 ir)) (z, fl) \<and>
       X rv' = (if rd ir = 0 then X rv else (X rv)(rd ir := z)) \<and> F rv' = F rv
     else
       ieee_result (selected_mode rv ir)
         (of_int (if f = Rv_fcvtsw then sint (X rv (rs1 ir)) else uint (X rv (rs1 ir))) * 2 ^ 149) False (z, fl) \<and>
       F rv' = (F rv)(rd ir := z) \<and> X rv' = X rv)"
proof (cases "f = Rv_fcvtws \<or> f = Rv_fcvtwus")
  case True
  let ?g = "if f = Rv_fcvtws then f32_to_i32 else f32_to_ui32"
  obtain z fl where r: "?g (F rv (rs1 ir)) (selected_mode rv ir) True = (z, fl)" by fastforce
  then have ok: "int_result (selected_mode rv ir) (if f = Rv_fcvtws then - (2 ^ 31) else 0)
      (if f = Rv_fcvtws then 2 ^ 31 - 1 else 2 ^ 32 - 1) (F rv (rs1 ir)) (z, fl)"
    using f32_to_i32_int [OF mode_ok [OF assms(4)], of "F rv (rs1 ir)"]
      f32_to_ui32_int [OF mode_ok [OF assms(4)], of "F rv (rs1 ir)"] True by (auto split: if_splits)
  then have fl: "fl AND 0x1F = fl" by (auto simp: int_result_def Let_def split: if_splits)
  have "dispatch env rv ir c p =
      Next (set_fflag (set_X_flags (rd ir) (z, fl) (rv\<lparr>softfloat_roundingMode := selected_mode rv ir\<rparr>))) (c + 1) (p + 4)"
    using assms(1) True set_mode [OF assms(4)] r by (auto simp: plain_defs)
  from round_X [OF this assms(3) fl] ok True show ?thesis by (simp only: if_True) blast
next
  case False
  let ?g = "if f = Rv_fcvtsw then i32_to_f32 else ui32_to_f32"
  obtain z fl where r: "?g (selected_mode rv ir) (X rv (rs1 ir)) = (z, fl)" by fastforce
  then have ok: "ieee_result (selected_mode rv ir)
      (of_int (if f = Rv_fcvtsw then sint (X rv (rs1 ir)) else uint (X rv (rs1 ir))) * 2 ^ 149) False (z, fl)"
    using i32_to_f32_ieee [OF mode_ok [OF assms(4)], of "X rv (rs1 ir)"]
      ui32_to_f32_ieee [OF mode_ok [OF assms(4)], of "X rv (rs1 ir)"] by (auto split: if_splits)
  have "dispatch env rv ir c p =
      Next (set_fflag (set_F_flags (rd ir) (z, fl) (rv\<lparr>softfloat_roundingMode := selected_mode rv ir\<rparr>))) (c + 1) (p + 4)"
    using assms(1,2) False set_mode [OF assms(4)] r by (auto simp: plain_defs)
  from round_F [OF this assms(3) ieee_flags [OF ok]] ok False show ?thesis by (simp only: if_False) blast
qed

theorem fp_convert_correct_witness:
  "\<exists>rv'. dispatch env0 (rv0\<lparr>F := (\<lambda>r. 0)(1 := 0xFFC00000)\<rparr>)
      (ir0\<lparr>opcode := F_op Rv_fcvtws, rd := 3, rs1 := 1\<rparr>) 0 0 = Next rv' 1 4 \<and>
    X rv' 3 = 0x7FFFFFFF \<and> csr_fcsr rv' = 16"
proof -
  let ?rv = "rv0\<lparr>F := (\<lambda>r. 0)(1 := 0xFFC00000)\<rparr>"
  let ?ir = "ir0\<lparr>opcode := F_op Rv_fcvtws, rd := 3, rs1 := 1\<rparr>"
  have "0x7F800000 < mag 0xFFC00000" by (simp add: mag_def)
  moreover have "selected_mode ?rv ?ir = 0" by (simp add: selected_mode_def sample_defs)
  ultimately show ?thesis
    using fp_convert_correct [of ?ir Rv_fcvtws ?rv env0 0 0] by (auto simp: int_result_def Let_def rounding_effect_def sample_defs)
qed

section \<open>Square root\<close>

text \<open>The square root of a number, of a NaN, an infinity, a zero and of a negative operand; \<open>2 ^ -149\<close> is the unit.\<close>

definition sqrt_correct :: "u8 \<Rightarrow> u32 \<Rightarrow> u32 \<times> u8 \<Rightarrow> bool" where
  "sqrt_correct mode a r \<longleftrightarrow>
    (if fnan a then r = (0x7FC00000, if fsnan a then 16 else 0)
     else if mag a = 0 \<or> finf a \<and> \<not> bit a 31 then r = (a, 0)
     else if bit a 31 then r = (0x7FC00000, 16)
     else rounds_to mode False (sqrt (of_int (fval a) * 2 ^ 149)) r)"

lemma f32_sqrt_correct:
  assumes "mode \<noteq> 6"
  shows "sqrt_correct mode a (f32_sqrt mode a)"
proof -
  have s: "\<not> fsnan 0" by (simp add: fsnan_def fexp_def ffrac_def mag_def)
  consider "fexp a = 255" | "fexp a < 255" "mag a = 0" | "fexp a < 255" "mag a \<noteq> 0" "bit a 31" | "fexp a < 255" "mag a \<noteq> 0" "\<not> bit a 31"
    using field_bounds(2) [of a] by linarith
  then show ?thesis
  proof cases
    case 1
    then show ?thesis using s
      by (auto simp: sqrt_correct_def f32_sqrt_def special_tests fnan_def finf_def mag_zero)
  next
    case 2
    then show ?thesis using norm_ok(1) [OF 2]
      by (auto simp: sqrt_correct_def f32_sqrt_def Let_def special_tests fnan_def mag_zero)
  next
    case 3
    then show ?thesis
      by (auto simp: sqrt_correct_def f32_sqrt_def special_tests fnan_def finf_def mag_zero)
  next
    case 4
    then have "fval a = fmag (mag a)" by (simp add: fval_def)
    with 4 f32_sqrt_ok [OF 4 assms] show ?thesis by (auto simp: sqrt_correct_def finite_not)
  qed
qed

lemma sqrt_correct_flags: "sqrt_correct mode a (z, fl) \<Longrightarrow> fl AND 0x1F = fl"
  by (auto simp: sqrt_correct_def rounds_to_def split: if_splits)

text \<open>
  C40. \<^verbatim>\<open>fsqrt.s\<close> is IEEE 754: with a rounding mode the ISA defines and no flag of an earlier operation
  waiting to be collected, the destination gets the exact square root of a positive number rounded
  in that mode, though the library works with a table and a series and tests the remainder only
  near a rounding boundary; zeros and positive infinity are returned, a NaN gives the canonical NaN, and a negative
  operand gives it with the invalid-operation flag. The flags accrue, and nothing else changes.
\<close>

theorem fp_sqrt_correct:
  assumes "opcode ir = F_op Rv_fsqrts" "softfloat_exceptionFlags rv = 0" "selected_mode rv ir \<le> 4"
  shows "\<exists>rv' z fl. dispatch env rv ir c p = Next rv' (c + 1) (p + 4) \<and>
    sqrt_correct (selected_mode rv ir) (F rv (rs1 ir)) (z, fl) \<and>
    F rv' = (F rv)(rd ir := z) \<and> X rv' = X rv \<and> rounding_effect rv ir fl rv'"
proof -
  obtain z fl where r: "f32_sqrt (selected_mode rv ir) (F rv (rs1 ir)) = (z, fl)" by fastforce
  then have ok: "sqrt_correct (selected_mode rv ir) (F rv (rs1 ir)) (z, fl)"
    using f32_sqrt_correct [OF mode_ok [OF assms(3)], of "F rv (rs1 ir)"] by simp
  have "dispatch env rv ir c p =
      Next (set_fflag (set_F_flags (rd ir) (z, fl) (rv\<lparr>softfloat_roundingMode := selected_mode rv ir\<rparr>))) (c + 1) (p + 4)"
    using assms(1) set_mode [OF assms(3)] r by (auto simp: plain_defs)
  from round_F [OF this assms(2) sqrt_correct_flags [OF ok]] ok show ?thesis by blast
qed

text \<open>The root of 4.0 is 2.0, exactly: \<open>2 ^ 151\<close> and \<open>2 ^ 150\<close> units.\<close>

theorem fp_sqrt_correct_witness:
  "\<exists>rv'. dispatch env0 (rv0\<lparr>F := (\<lambda>r. 0)(1 := 0x40800000)\<rparr>)
      (ir0\<lparr>opcode := F_op Rv_fsqrts, rd := 3, rs1 := 1\<rparr>) 0 0 = Next rv' 1 4 \<and>
    fval 0x40800000 = 2 ^ 151 \<and> fval (F rv' 3) = 2 ^ 150 \<and> csr_fcsr rv' = 0"
proof -
  let ?rv = "rv0\<lparr>F := (\<lambda>r. 0)(1 := 0x40800000)\<rparr>"
  let ?ir = "ir0\<lparr>opcode := F_op Rv_fsqrts, rd := 3, rs1 := 1\<rparr>"
  have mode: "selected_mode ?rv ?ir = 0" by (simp add: selected_mode_def)
  have v: "fval 0x40800000 = 2 ^ 151" "\<not> fnan 0x40800000" "\<not> finf 0x40800000" "mag 0x40800000 \<noteq> 0" "\<not> bit (0x40800000 :: u32) 31"
    by (simp_all add: fval_def fmag_def mag_def fnan_def finf_def fexp_def ffrac_def)
  obtain rv' z fl where d: "dispatch env0 ?rv ?ir 0 0 = Next rv' 1 4" "sqrt_correct 0 0x40800000 (z, fl)"
    "F rv' 3 = z" "csr_fcsr rv' = ucast fl"
    using fp_sqrt_correct [of ?ir ?rv env0 0 0] mode by (auto simp: rounding_effect_def)
  have "sqrt (of_int (fval 0x40800000) * 2 ^ 149) = 2 ^ 150"
    unfolding v(1) by (rule real_sqrt_unique) simp_all
  with d(2) v(2-5) have r: "rounds_to 0 False (2 ^ 150) (z, fl)" unfolding sqrt_correct_def by simp
  have "log 2 (2 ^ 150) = 150" by (subst log_nat_power) simp_all
  then have "rounded 0 False (2 ^ 150) = 2 ^ 150" by (simp add: rounded_def last_place_def round_int_def)
  with r have "\<not> bit z 31" "fmag (mag z) = 2 ^ 150" "fl = 0" by (auto simp: rounds_to_def)
  then have "fval z = 2 ^ 150" by (simp add: fval_def)
  with d v(1) \<open>fl = 0\<close> show ?thesis by auto
qed

end
