(* ===== verification/Spec2Isabelle.thy ===== *)
theory Spec2Isabelle
  imports Defects Arith_Correct Encode Step_Props Rb_Props Path_Correct Syscall_Correct
    Mmu_Correct Devices_Correct Virtio_Correct Mpool_Correct Softfloat_Props
begin

unbundle bit_operations_syntax

text \<open>
  A verification library for the RISC-V emulator under \<^verbatim>\<open>src/\<close> (a fork of rv32emu) in its default
  configuration: RV32IMAFC with Zicsr, Zifencei, Zba, Zbb, Zbc and Zbs, the interpreter, user mode,
  macro-operation fusion and block chaining; no JIT, no system mode, no debugger stub.

  \<^bold>\<open>How the program works.\<close> \<^verbatim>\<open>rv_step\<close> looks for a basic block at the PC. If there is none,
  \<^verbatim>\<open>block_translate\<close> fetches and decodes instructions (\<^verbatim>\<open>rv_decode\<close>) up to a branch or the end of the
  page, \<^verbatim>\<open>optimize_constant\<close> replaces instructions with known operands, \<^verbatim>\<open>match_pattern\<close> fuses
  adjacent instructions, and the block is kept in a hash map. The block then runs as a chain of
  tail calls of handlers (\<^verbatim>\<open>RVOP\<close>), each of which gets the machine, its instruction, the cycle
  count and the PC; the last handler writes both back. Misaligned accesses and illegal
  instructions raise a trap, which either enters the guest's handler or a default handler that
  emulates the access or skips the instruction.

  \<^bold>\<open>State and effects.\<close> \<^verbatim>\<open>struct riscv_internal\<close> is the record \<open>riscv\<close>, with the file-scope variables
  \<^verbatim>\<open>is_branch_taken\<close>, \<^verbatim>\<open>last_pc\<close> and SoftFloat's globals as further fields; an instruction is the
  record \<open>rv_insn\<close>. Handlers are functions from machine, instruction, cycle and PC to an \<open>outcome\<close>:
  go on to the next instruction, return to the step loop, tail-call a chained block, look up the
  branch history, abort the process (a failed \<^verbatim>\<open>assert\<close>), or undefined behaviour. Machine integers
  are words of their width; guest memory is a byte for every offset. System calls and
  the host clock are parameters of the interpreter (\<open>env\<close>); the system calls have a model of their
  own with their state beside the machine.

  \<^bold>\<open>The theories of the model\<close>, in the order of the code:
  \<^item> Prelude: shift and extension abbreviations, lemma collections, lemmas on words and bits.
  \<^item> Rv_Types: \<^verbatim>\<open>decode.h\<close> and \<^verbatim>\<open>riscv_private.h\<close>, the opcodes, the two records, the register
    interface of \<^verbatim>\<open>riscv.c\<close>.
  \<^item> Decode: \<^verbatim>\<open>decode.c\<close>, one definition per \<^verbatim>\<open>op_*\<close> function, both jump tables, \<^verbatim>\<open>rv_decode\<close>.
  \<^item> Memory: \<^verbatim>\<open>io.c\<close>, the callbacks of \<^verbatim>\<open>riscv.c\<close>, the fast path of \<^verbatim>\<open>riscv_private.h\<close>; the locale
    \<open>guest_memory\<close> is their common contract and has three interpretations.
  \<^item> Trap, Csr, Softfp: the parts of \<^verbatim>\<open>emulate.c\<close> and \<^verbatim>\<open>softfp.h\<close> the handlers call. Softfloat: the
    single-precision arithmetic of the SoftFloat library they end in, function by function.
  \<^item> Interp: \<^verbatim>\<open>rv32_template.c\<close>, one definition per \<^verbatim>\<open>RVOP\<close>; Exec: the fused handlers, the dispatch
    table and the execution of a block.
  \<^item> Fusion: \<^verbatim>\<open>match_pattern\<close>; Constopt: \<^verbatim>\<open>rv32_constopt.c\<close>, one definition per \<^verbatim>\<open>CONSTOPT\<close>; Block:
    \<^verbatim>\<open>block_translate\<close>, the new-block path of \<^verbatim>\<open>block_find_or_translate\<close>, \<^verbatim>\<open>rv_step_debug\<close>.
  \<^item> Block_Map: the block table with its first-level cache (\<^verbatim>\<open>block_insert\<close>, \<^verbatim>\<open>block_find\<close>,
    \<^verbatim>\<open>block_lookup_or_find\<close>, \<^verbatim>\<open>block_map_clear\<close>); the locale \<open>block_store\<close> is what the step loop needs of it.
  \<^item> Step: \<^verbatim>\<open>rv_step\<close>, the linking of blocks, the branch history table, the run of a chain.
  \<^item> Rb_Map: \<^verbatim>\<open>map.c\<close>, the left-leaning red-black tree with its path array, removal and iterators, and
    \<^verbatim>\<open>breakpoint.c\<close> on top of it. The locale \<open>key_order\<close> is what the tree needs of a comparator; it is
    interpreted on the three comparators of the program.
  \<^item> Path: \<^verbatim>\<open>sanitize_path\<close> of \<^verbatim>\<open>utils.c\<close> on its output buffer.
  \<^item> Syscall: \<^verbatim>\<open>syscall.c\<close> of the user-mode build over the descriptor table (a map of Rb_Map); the host's C
    library is a record of functions over an abstract state.
  \<^item> Mmu: the memory management unit of the system build (\<^verbatim>\<open>system.c\<close>): page-table walk, permission checks,
    both look-aside buffers, address translation and instruction fetch.
  \<^item> Virtio: the block device (\<^verbatim>\<open>virtio-blk.c\<close>) with its queues in guest memory; Devices: interrupt controller,
    serial port and clock, their memory-mapped accesses, the interrupt check of the step loop and the SBI calls.
    The board extends the record of Mmu, so the same translation serves both.
  \<^item> Mpool: the pools blocks and instructions are allocated from (\<^verbatim>\<open>mpool.c\<close>), with the free list threaded
    through the bytes of an explicit host memory.

  \<^bold>\<open>The theories of lemmas.\<close>
  \<^item> Decode_Correct and Encode: ranges of decoded fields, when the decoder aborts, and that it
    inverts the encoding of the ISA manual.
  \<^item> Zero_Reg: which instructions keep \<^verbatim>\<open>X[0] = 0\<close>. Sync: no handler but the trap returns reads the
    fields \<^verbatim>\<open>PC\<close> and \<^verbatim>\<open>csr_cycle\<close>, which are stale inside a block.
  \<^item> Block_Pass: the locale of passes that rewrite a block instruction by instruction;
    Fusion_Correct and Constopt_Correct: both passes keep what a block does. Block_Correct,
    Block_Steps and Block_Props: shape and size of a block, and the refinement of single steps.
  \<^item> Chain, Step_Inv and Step_Props: the table stays well formed and every search in it ends, whatever
    code is translated; and as long as no translation meets an illegal instruction or a \<^verbatim>\<open>wfi\<close> in the
    middle of a block, the links between blocks agree with the table, so a chain of blocks does
    what a lookup at every transfer of control would do.
  \<^item> Arith_Correct, Mem_Correct, Sys_Correct, Fp_Correct: the handlers against the ISA's
    definitions over integers, bytes and numbers.
  \<^item> Float_Round: rounding to single precision as IEEE 754 defines it, over the reals, and what the sticky
    bits of a shifted significand may replace. Softfloat_Correct, Softfloat_Ops, Softfloat_Add,
    Softfloat_Fma, Softfloat_Conv and Softfloat_Sqrt: rounding and packing, product and quotient, sum and difference,
    fused sum, conversions and square root of the library return the correctly rounded result and its flags;
    Softfloat_Props: hence the arithmetic instructions, with NaNs, infinities and zeros.
  \<^item> Rb_Correct and Rb_Props: insertion and removal keep the tree sorted, left-leaning and balanced,
    so it is a finite map; Path_Correct: the cleaned path is the lexical normal form;
    Syscall_Correct: which bytes and descriptors the calls move, what they can change, and that
    the step loop's assumption on them holds.
  \<^item> Mmu_Correct: the walk is the Sv32 algorithm, and a translation through the look-aside buffer
    gives what the page tables say.
  \<^item> Virtio_Correct: a notification carries out the posted requests and reports them; Devices_Correct:
    interrupts are neither lost nor delivered twice on the board.
  \<^item> Mpool_Correct: the chunks a client of a pool holds stay apart, whatever it writes to them.
  \<^item> Defects: where the code departs from the ISA, each on the model.
  \<^item> Sample: a concrete machine on which the hypotheses of the properties are shown to hold.

  \<^bold>\<open>Loops.\<close> The translation loop terminates because the distance to the end of the page shrinks;
  it makes at most 2048 instructions. The probing loops of the block table and the step loop are
  partial functions into \<open>option\<close>, where not returning is \<^const>\<open>None\<close>; probing is shown to end in every
  reachable state. All other loops are bounded by constants of the code.

  \<^bold>\<open>Not modelled.\<close> Allocation failures of blocks and instructions; the page faults of the host on
  accesses outside the mapping; the JIT compilers, the step loop of the system build and the
  debugger stub, which the default configuration leaves out; the SDL calls; the ELF loader and the
  command line, which are host I/O.
\<close>

section \<open>Block passes\<close>

text \<open>
  C3. Fusion is invisible: on a block as the translator leaves it, with \<^verbatim>\<open>X[0] = 0\<close> and an
  execution that raises no trap inside the block and runs into no assertion, the fused block
  ends in the same outcome (same registers, memory, CSRs, cycle count and PC) as the block it
  was made from, whatever the pool of fusion records can provide.
\<close>

theorem fusion_sound:
  assumes "wf_block irs" "X rv 0 = 0" "clean (exec env irs rv c p)"
  shows "exec env (match_pattern alloc irs) rv c p = exec env irs rv c p"
  using assms by (rule match_pattern_exec)

theorem fusion_sound_witness:
  "exec env0 (match_pattern (\<lambda>ir. True) [lui5, addi5]) rv0 0 0 = exec env0 [lui5, addi5] rv0 0 0"
  by (rule fusion_sound) (simp_all add: sample_defs wf_block_def unchained_def x0_safe_def writes_rs1_def
      plain_defs end_op_def sync_def)

text \<open>
  C4. Constant propagation is sound: for a block at its recorded addresses whose instructions
  are outside the two known gaps, \<^verbatim>\<open>optimize_constant\<close> does not abort and the rewritten block has
  the outcome of the original one, up to the flag \<^verbatim>\<open>is_branch_taken\<close> of a folded branch.
\<close>

theorem constopt_sound:
  assumes "wf_block irs" "pcs_from p irs" "\<forall>ir \<in> set irs. const_ok ir" "X rv 0 = 0"
    and "exec env irs rv c p \<noteq> Undefined"
  shows "\<exists>irs'. optimize_constant rv irs = Some irs' \<and>
    erase (exec env irs' rv c p) = erase (exec env irs rv c p)"
  using constopt.pass_exec [OF assms(1-3) const_inv_info0 [OF assms(4)] assms(5)] assms(4)
  by (simp add: optimize_constant_def constopt_loop_pass del: exec.simps)

theorem constopt_sound_witness:
  "\<exists>irs'. optimize_constant rv0 [lui5, addi5] = Some irs' \<and>
    erase (exec env0 irs' rv0 0 0) = erase (exec env0 [lui5, addi5] rv0 0 0)"
  by (rule constopt_sound) (simp_all add: sample_defs wf_block_def unchained_def x0_safe_def writes_rs1_def
      const_ok_def plain_defs end_op_def sync_def)

section \<open>Decoder\<close>

text \<open>
  C37. Register numbers stay in range: whatever the instruction word, the fields \<^verbatim>\<open>rd\<close>, \<^verbatim>\<open>rs1\<close>
  and \<^verbatim>\<open>rs2\<close> of the decoded instruction are below 32, so every access to \<^verbatim>\<open>rv->X\<close> and \<^verbatim>\<open>rv->F\<close> through
  them is inside the array.
\<close>

theorem decode_registers:
  "rv_decode ir0 insn = Decoded ir ok \<Longrightarrow> rd ir < 32 \<and> rs1 ir < 32 \<and> rs2 ir < 32"
  using rv_decode_regs_ok [of ir0 insn] by (simp add: regs_ok_def)

theorem decode_registers_witness:
  "\<exists>ir. rv_decode ir0 0x00828293 = Decoded ir True \<and> opcode ir = I_op Rv_addi \<and> rd ir = 5 \<and> rs1 ir = 5 \<and>
     rd ir < 32 \<and> rs1 ir < 32 \<and> rs2 ir < 32"
proof -
  have d: "rv_decode ir0 0x00828293 = Decoded (addi5\<lparr>pc := 0\<rparr>) True" by (rule rv_blk_decode(2))
  from decode_registers [OF d] d show ?thesis by (simp add: addi5_def)
qed

text \<open>
  C38. The decoder aborts the emulator exactly on the reserved 16-bit encodings with bits 15:13
  = 100, bits 12:10 = 111 and quadrant 01 (\<^verbatim>\<open>op_cmisc_alu\<close> asserts on them); on every other word
  it returns.
\<close>

theorem decode_abort_iff:
  "rv_decode ir insn = Aborted \<longleftrightarrow>
     insn AND 0xFC03 = 0x9C01"
  unfolding rv_decode_Aborted_iff
proof
  assume *: "bit insn 0 \<and> \<not> bit insn 1 \<and> bit insn 10 \<and> bit insn 11 \<and> bit insn 12 \<and>
     \<not> bit insn 13 \<and> \<not> bit insn 14 \<and> bit insn 15"
  show "insn AND 0xFC03 = 0x9C01"
    by (rule word32_eqI) (use * in \<open>simp add: bit_simps\<close>)
next
  assume "insn AND 0xFC03 = 0x9C01"
  then have "bit (insn AND 0xFC03) n = bit (0x9C01 :: u32) n" for n by simp
  from this [of 0] this [of 1] this [of 10] this [of 11] this [of 12] this [of 13] this [of 14] this [of 15]
  show "bit insn 0 \<and> \<not> bit insn 1 \<and> bit insn 10 \<and> bit insn 11 \<and> bit insn 12 \<and>
     \<not> bit insn 13 \<and> \<not> bit insn 14 \<and> bit insn 15"
    by (simp add: bit_simps)
qed

end
